(* ===== verification/Prelude.thy ===== *)
theory Prelude
  imports Main "HOL-Library.Word" "HOL-Library.Monad_Syntax"
begin

text \<open>
  The shared ground of the development: Go byte slices, strings and big-endian integers, the
  error-dropping idiom \<^verbatim>\<open>_ = f()\<close>, and the generic list and option lemmas that the component
  theories use.  A Go \<^verbatim>\<open>[]byte\<close> is a list of 8-bit words, a Go \<^verbatim>\<open>string\<close> is an Isabelle \<open>string\<close>
  (both are byte sequences), a Go \<^verbatim>\<open>int\<close> is an \<open>int\<close> whose 64-bit range is stated where a
  conversion depends on it, and a Go function that may return an error returns an \<open>option\<close>.
\<close>

section \<open>Collections of facts\<close>

named_theorems wire_simps \<open>reading back what was written\<close>
named_theorems enc_defs \<open>definitions of the canonical encoders\<close>
named_theorems dec_defs \<open>definitions of the decoders\<close>
named_theorems dom_defs \<open>wire domain strings\<close>

section \<open>Bytes and integers\<close>

type_synonym byte = "8 word"
type_synonym bytes = "8 word list"

text \<open>The bytes of a Go string, \<^verbatim>\<open>[]byte(s)\<close>.\<close>

definition str_bytes :: "string \<Rightarrow> bytes" where
  "str_bytes s = map of_char s"

lemma length_str_bytes [simp]: "length (str_bytes s) = length s"
  by (simp add: str_bytes_def)

lemma unat_of_char: "unat (of_char c :: 8 word) = (of_char c :: nat)"
proof -
  have "(of_char c :: nat) < 256" by simp
  moreover have "(of_char c :: 8 word) = of_nat (of_char c)" by (simp only: of_nat_of_char)
  ultimately show ?thesis by (simp add: unat_of_nat take_bit_eq_mod del: of_nat_of_char)
qed

lemma inj_of_char_byte: "inj (of_char :: char \<Rightarrow> 8 word)"
proof (rule injI)
  fix c d :: char
  assume "(of_char c :: 8 word) = of_char d"
  then have "(of_char c :: nat) = of_char d" by (metis unat_of_char)
  then show "c = d" by simp
qed

lemma str_bytes_inject [simp]: "str_bytes s = str_bytes t \<longleftrightarrow> s = t"
  by (simp add: str_bytes_def inj_map_eq_map [OF inj_of_char_byte])

lemma str_bytes_empty [simp]: "str_bytes s = [] \<longleftrightarrow> s = []"
  by (simp add: str_bytes_def)

text \<open>The Go string of a byte slice, \<^verbatim>\<open>string(b)\<close>.\<close>

definition bytes_str :: "bytes \<Rightarrow> string" where
  "bytes_str bs = map (\<lambda>b. char_of (unat b)) bs"

lemma bytes_str_str_bytes [simp]: "bytes_str (str_bytes s) = s"
  by (simp add: bytes_str_def str_bytes_def comp_def unat_of_char)

text \<open>Big-endian integers of \<open>k\<close> bytes (\<^verbatim>\<open>binary.BigEndian.PutUint32/64\<close> and their inverses).\<close>

primrec put_be :: "nat \<Rightarrow> nat \<Rightarrow> bytes" where
  "put_be 0 v = []"
| "put_be (Suc k) v = put_be k (v div 256) @ [of_nat v]"

definition get_be :: "bytes \<Rightarrow> nat" where
  "get_be bs = foldl (\<lambda>a b. a * 256 + unat b) 0 bs"

lemma get_be_Nil [simp]: "get_be [] = 0"
  by (simp add: get_be_def)

lemma get_be_snoc [simp]: "get_be (bs @ [b]) = get_be bs * 256 + unat b"
  by (simp add: get_be_def)

lemma length_put_be [simp]: "length (put_be k v) = k"
  by (induction k arbitrary: v) auto

lemma put_be_eq_Nil [simp]: "put_be k v = [] \<longleftrightarrow> k = 0"
  by (cases k) auto

lemma unat_of_nat_byte: "unat (of_nat v :: 8 word) = v mod 256"
  by (simp add: unat_of_nat take_bit_eq_mod)

lemma byte_eqI: "unat (a :: 8 word) = unat b \<Longrightarrow> a = b"
  by (simp add: word_unat_eq_iff)

lemma get_be_put_be: "get_be (put_be k v) = v mod 256 ^ k"
proof (induction k arbitrary: v)
  case 0
  then show ?case by simp
next
  case (Suc k)
  have "v mod 256 ^ Suc k = v div 256 mod 256 ^ k * 256 + v mod 256"
    by (simp add: mod_mult2_eq)
  with Suc show ?case by (simp add: unat_of_nat_byte)
qed

lemma get_be_less: "get_be bs < 256 ^ length bs"
proof (induction bs rule: rev_induct)
  case Nil
  then show ?case by simp
next
  case (snoc b bs)
  have "unat b < 256" using unsigned_less [of b] by simp
  moreover have "get_be bs * 256 + 255 < 256 ^ length bs * 256" using snoc by simp
  ultimately show ?case by (simp add: mult.commute)
qed

lemma put_be_get_be [simp]: "length bs = k \<Longrightarrow> put_be k (get_be bs) = bs"
proof (induction bs arbitrary: k rule: rev_induct)
  case Nil
  then show ?case by simp
next
  case (snoc b bs)
  have b: "unat b < 256" using unsigned_less [of b] by simp
  have "(get_be bs * 256 + unat b) div 256 = get_be bs" using b by simp
  moreover have "(of_nat (get_be bs * 256 + unat b) :: 8 word) = b"
    by (rule byte_eqI) (use b in \<open>simp add: unat_of_nat_byte del: of_nat_add of_nat_mult\<close>)
  ultimately show ?case using snoc by (auto simp del: of_nat_add of_nat_mult)
qed

lemma get_be_inject: "length bs = length cs \<Longrightarrow> get_be bs = get_be cs \<longleftrightarrow> bs = cs"
  by (metis put_be_get_be)

lemma put_be_inject: "v < 256 ^ k \<Longrightarrow> w < 256 ^ k \<Longrightarrow> put_be k v = put_be k w \<longleftrightarrow> v = w"
  by (metis get_be_put_be mod_less)

text \<open>The range of a Go \<^verbatim>\<open>int\<close> and the conversion \<^verbatim>\<open>uint64(i)\<close>.\<close>

definition int64 :: "int \<Rightarrow> bool" where
  "int64 i \<longleftrightarrow> - (2 ^ 63) \<le> i \<and> i < 2 ^ 63"

definition u64 :: "int \<Rightarrow> nat" where
  "u64 i = nat (i mod 2 ^ 64)"

lemma u64_nonneg [simp]: "0 \<le> i \<Longrightarrow> int64 i \<Longrightarrow> u64 i = nat i"
  by (simp add: u64_def int64_def)

lemma u64_of_nat: "n < 2 ^ 64 \<Longrightarrow> u64 (int n) = n"
  by (simp add: u64_def)

definition max_int :: nat where
  "max_int = 2 ^ 63 - 1"

section \<open>Options as Go results\<close>

text \<open>An early return with an error is \<open>require\<close>; \<open>dropped\<close> is \<^verbatim>\<open>_ = write(...)\<close>, which goes on
  when the write was refused, with nothing written.\<close>

definition require :: "bool \<Rightarrow> unit option" where
  "require b = (if b then Some () else None)"

lemma require_simps [simp]: "require True = Some ()" "require False = None"
  by (simp_all add: require_def)

lemma require_eq_Some [simp]: "require b = Some u \<longleftrightarrow> b"
  by (simp add: require_def)

lemma bind_require [simp]: "Option.bind (require b) f = (if b then f () else None)"
  by (simp add: require_def)

text \<open>Reading the conditions off a successful run.\<close>

lemma if_None_eq_Some: "(if b then x else None) = Some y \<longleftrightarrow> b \<and> x = Some y"
  by simp

lemma if_None_eq_Some': "(if b then None else x) = Some y \<longleftrightarrow> \<not> b \<and> x = Some y"
  by simp

lemmas run_simps = if_None_eq_Some if_None_eq_Some' bind_eq_Some_conv

definition dropped :: "bytes option \<Rightarrow> bytes" where
  "dropped w = (case w of None \<Rightarrow> [] | Some bs \<Rightarrow> bs)"

lemma dropped_Some [simp]: "dropped (Some bs) = bs"
  by (simp add: dropped_def)

end
