(* ===== verification/Sha256.thy ===== *)
theory Sha256
  imports Prelude
begin

text \<open>
  SHA-256 of Go's \<^verbatim>\<open>crypto/sha256\<close> (FIPS 180-4) and \<^verbatim>\<open>hashBytes\<close> of \<^verbatim>\<open>src/core/util.go\<close>, which
  hashes the concatenation of its arguments.  The definition is concrete, so the development
  has no hypothesis on the hash function; the proofs use only that a digest has 32 bytes.
\<close>

unbundle bit_operations_syntax

section \<open>The compression function\<close>

text \<open>The round constants, in decimal: the first 32 bits of the fractional parts of the cube roots
  of the first 64 primes.\<close>

definition sha_K :: "32 word list" where
  "sha_K = [
    1116352408, 1899447441, 3049323471, 3921009573, 961987163, 1508970993,
    2453635748, 2870763221, 3624381080, 310598401, 607225278, 1426881987,
    1925078388, 2162078206, 2614888103, 3248222580, 3835390401, 4022224774,
    264347078, 604807628, 770255983, 1249150122, 1555081692, 1996064986,
    2554220882, 2821834349, 2952996808, 3210313671, 3336571891, 3584528711,
    113926993, 338241895, 666307205, 773529912, 1294757372, 1396182291,
    1695183700, 1986661051, 2177026350, 2456956037, 2730485921, 2820302411,
    3259730800, 3345764771, 3516065817, 3600352804, 4094571909, 275423344,
    430227734, 506948616, 659060556, 883997877, 958139571, 1322822218,
    1537002063, 1747873779, 1955562222, 2024104815, 2227730452, 2361852424,
    2428436474, 2756734187, 3204031479, 3329325298]"

type_synonym sha_state =
  "32 word \<times> 32 word \<times> 32 word \<times> 32 word \<times> 32 word \<times> 32 word \<times> 32 word \<times> 32 word"

definition sha_H0 :: sha_state where
  "sha_H0 = (1779033703, 3144134277, 1013904242, 2773480762,
             1359893119, 2600822924, 528734635, 1541459225)"

definition rotr32 :: "nat \<Rightarrow> 32 word \<Rightarrow> 32 word" where
  "rotr32 n x = drop_bit n x OR push_bit (32 - n) x"

definition sha_sched_word :: "32 word list \<Rightarrow> 32 word" where
  "sha_sched_word W =
     (let x15 = W ! 14; x2 = W ! 1;
          s0 = rotr32 7 x15 XOR rotr32 18 x15 XOR drop_bit 3 x15;
          s1 = rotr32 17 x2 XOR rotr32 19 x2 XOR drop_bit 10 x2
      in s1 + W ! 6 + s0 + W ! 15)"

text \<open>The message schedule is kept newest word first, so every step looks at fixed offsets.\<close>

primrec sha_sched :: "nat \<Rightarrow> 32 word list \<Rightarrow> 32 word list" where
  "sha_sched 0 W = W"
| "sha_sched (Suc n) W = sha_sched n (sha_sched_word W # W)"

definition sha_round :: "sha_state \<Rightarrow> 32 word \<times> 32 word \<Rightarrow> sha_state" where
  "sha_round s kw =
     (let (a, b, c, d, e, f, g, h) = s; (k, w) = kw;
          S1 = rotr32 6 e XOR rotr32 11 e XOR rotr32 25 e;
          ch = (e AND f) XOR (NOT e AND g);
          t1 = h + S1 + ch + k + w;
          S0 = rotr32 2 a XOR rotr32 13 a XOR rotr32 22 a;
          maj = (a AND b) XOR (a AND c) XOR (b AND c);
          t2 = S0 + maj
      in (t1 + t2, a, b, c, d + t1, e, f, g))"

definition sha_compress :: "sha_state \<Rightarrow> 32 word list \<Rightarrow> sha_state" where
  "sha_compress s block =
     (let (a, b, c, d, e, f, g, h) = s;
          W = rev (sha_sched 48 (rev block));
          (a', b', c', d', e', f', g', h') = foldl sha_round s (zip sha_K W)
      in (a + a', b + b', c + c', d + d', e + e', f + f', g + g', h + h'))"

section \<open>Padding and the digest\<close>

definition sha_pad :: "bytes \<Rightarrow> bytes" where
  "sha_pad m = m @ [0x80] @ replicate ((119 - length m mod 64) mod 64) 0 @ put_be 8 (8 * length m)"

fun be_words :: "bytes \<Rightarrow> 32 word list" where
  "be_words (a # b # c # d # rest) =
     (push_bit 24 (ucast a) OR push_bit 16 (ucast b) OR push_bit 8 (ucast c) OR ucast d) #
     be_words rest"
| "be_words _ = []"

fun sha_blocks :: "sha_state \<Rightarrow> nat \<Rightarrow> 32 word list \<Rightarrow> sha_state" where
  "sha_blocks s 0 ws = s"
| "sha_blocks s (Suc n) ws = sha_blocks (sha_compress s (take 16 ws)) n (drop 16 ws)"

definition be_bytes :: "32 word \<Rightarrow> bytes" where
  "be_bytes w = [ucast (drop_bit 24 w), ucast (drop_bit 16 w), ucast (drop_bit 8 w), ucast w]"

definition sha_output :: "sha_state \<Rightarrow> bytes" where
  "sha_output s =
     (let (a, b, c, d, e, f, g, h) = s
      in concat (map be_bytes [a, b, c, d, e, f, g, h]))"

definition sha256 :: "bytes \<Rightarrow> bytes" where
  "sha256 m = (let p = sha_pad m in sha_output (sha_blocks sha_H0 (length p div 64) (be_words p)))"

lemma length_sha256 [simp]: "length (sha256 m) = 32"
  by (simp add: sha256_def sha_output_def be_bytes_def Let_def split: prod.splits)

text \<open>\<^verbatim>\<open>hashBytes(parts...)\<close>: the parts are written to one hash in order.\<close>

definition hashBytes :: "bytes list \<Rightarrow> bytes" where
  "hashBytes parts = sha256 (concat parts)"

lemma length_hashBytes [simp]: "length (hashBytes parts) = 32"
  by (simp add: hashBytes_def)

lemma hashBytes_neq_Nil [simp]: "hashBytes parts \<noteq> []"
proof -
  have "length (hashBytes parts) \<noteq> 0" by simp
  then show ?thesis by (metis list.size(3))
qed

text \<open>The padded message is a whole number of 64-byte blocks.\<close>

lemma sha_pad_blocks: "length (sha_pad m) mod 64 = 0"
proof -
  define q r where "q = length m div 64" and "r = length m mod 64"
  have m: "length m = 64 * q + r" and r: "r < 64" by (simp_all add: q_def r_def)
  have k: "(119 - r) mod 64 = (if r \<le> 55 then 55 - r else 119 - r)"
    using r by (auto simp: le_mod_geq)
  have "length (sha_pad m) = 64 * q + r + 1 + (119 - r) mod 64 + 8"
    by (simp add: sha_pad_def m r)
  also have "\<dots> = 64 * (if r \<le> 55 then q + 1 else q + 2)" using r by (auto simp: k)
  finally show ?thesis by simp
qed

end
