(* ===== verification/Wire.thy ===== *)
theory Wire
  imports Sha256
begin

text \<open>
  The canonical wire format of the CV-sAPVSS objects: the writers of
  \<^verbatim>\<open>src/core/cv_sapvss.go\<close> (\<^verbatim>\<open>cvWriteUint32\<close>, \<^verbatim>\<open>cvWriteUint64\<close>, \<^verbatim>\<open>cvWriteBytes\<close>) and the reader of
  \<^verbatim>\<open>src/core/cv_sapvss_m4.go\<close> (\<^verbatim>\<open>cvWireReader\<close>).  A reader is the list of the bytes it has not
  consumed yet; every caller stops at the first failed read, so a failed read has no state.
  The locale \<open>wire_codec\<close> is the contract of a canonical encoder and its decoder; every object
  of the protocol interprets it in its own theory.
\<close>

section \<open>Writers\<close>

definition cvWriteUint32 :: "int \<Rightarrow> bytes option" where
  "cvWriteUint32 value =
     (if value < 0 \<or> value > 2 ^ 32 - 1 then None else Some (put_be 4 (nat value)))"

definition cvWriteUint64 :: "nat \<Rightarrow> bytes" where
  "cvWriteUint64 value = put_be 8 value"

definition cvWriteBytes :: "bytes \<Rightarrow> bytes option" where
  "cvWriteBytes value = do {
     header \<leftarrow> cvWriteUint32 (int (length value));
     Some (header @ value)
   }"

section \<open>The reader\<close>

type_synonym cvWireReader = bytes

definition newCVWireReader :: "bytes \<Rightarrow> cvWireReader" where
  "newCVWireReader wire = wire"

definition cvReadUint32 :: "cvWireReader \<Rightarrow> (nat \<times> cvWireReader) option" where
  "cvReadUint32 r = (if length r < 4 then None else Some (get_be (take 4 r), drop 4 r))"

definition cvReadUint64 :: "cvWireReader \<Rightarrow> (nat \<times> cvWireReader) option" where
  "cvReadUint64 r = (if length r < 8 then None else Some (get_be (take 8 r), drop 8 r))"

definition cvReadBytes :: "nat \<Rightarrow> cvWireReader \<Rightarrow> (bytes \<times> cvWireReader) option" where
  "cvReadBytes maximum r = do {
     (len, r) \<leftarrow> cvReadUint32 r;
     require (len \<le> maximum \<and> len \<le> length r);
     Some (take len r, drop len r)
   }"

text \<open>The loops that write a list of byte slices and that read a list of given length.\<close>

fun cvWriteParts :: "bytes list \<Rightarrow> bytes option" where
  "cvWriteParts [] = Some []"
| "cvWriteParts (part # parts) = do {
     w \<leftarrow> cvWriteBytes part;
     ws \<leftarrow> cvWriteParts parts;
     Some (w @ ws)
   }"

fun cvReadList :: "(cvWireReader \<Rightarrow> ('a \<times> cvWireReader) option) \<Rightarrow> nat \<Rightarrow> cvWireReader \<Rightarrow>
    ('a list \<times> cvWireReader) option" where
  "cvReadList rd 0 r = Some ([], r)"
| "cvReadList rd (Suc n) r = do {
     (x, r) \<leftarrow> rd r;
     (xs, r) \<leftarrow> cvReadList rd n r;
     Some (x # xs, r)
   }"

text \<open>The wire limits of \<^verbatim>\<open>cv_sapvss_codec.go\<close>, \<^verbatim>\<open>cv_sapvss_component.go\<close> and \<^verbatim>\<open>cv_sapvss_router.go\<close>.\<close>

definition cvMaxLeafWireBytes :: nat where
  "cvMaxLeafWireBytes = 67108864"

definition cvMaxComponentSignatureBytes :: nat where
  "cvMaxComponentSignatureBytes = 1048576"

definition cvMaxNetworkPayloadBytes :: nat where
  "cvMaxNetworkPayloadBytes = cvMaxLeafWireBytes + 1048576"

lemmas wire_limits = cvMaxLeafWireBytes_def cvMaxComponentSignatureBytes_def
  cvMaxNetworkPayloadBytes_def

section \<open>Reading back what was written\<close>

lemma newCVWireReader_id [simp]: "newCVWireReader wire = wire"
  by (simp add: newCVWireReader_def)

lemma cvWriteUint32_nat [simp]:
  "n < 4294967296 \<Longrightarrow> cvWriteUint32 (int n) = Some (put_be 4 n)"
  by (simp add: cvWriteUint32_def)

lemma cvWriteBytes_Some [simp]:
  "length v < 4294967296 \<Longrightarrow> cvWriteBytes v = Some (put_be 4 (length v) @ v)"
  by (simp add: cvWriteBytes_def)

lemma cvWriteBytes_oversize: "4294967296 \<le> length v \<Longrightarrow> cvWriteBytes v = None"
  by (simp add: cvWriteBytes_def cvWriteUint32_def)

lemma length_cvWriteUint64 [simp]: "length (cvWriteUint64 v) = 8"
  by (simp add: cvWriteUint64_def)

lemma read_uint32 [wire_simps]:
  "n < 4294967296 \<Longrightarrow> cvReadUint32 (put_be 4 n @ rest) = Some (n, rest)"
  by (simp add: cvReadUint32_def get_be_put_be)

lemma read_uint64 [wire_simps]:
  "n < 18446744073709551616 \<Longrightarrow> cvReadUint64 (cvWriteUint64 n @ rest) = Some (n, rest)"
  by (simp add: cvReadUint64_def cvWriteUint64_def get_be_put_be)

lemma read_bytes [wire_simps]:
  "length v < 4294967296 \<Longrightarrow> length v \<le> maximum \<Longrightarrow>
   cvReadBytes maximum (put_be 4 (length v) @ v @ rest) = Some (v, rest)"
  by (simp add: cvReadBytes_def read_uint32)

lemma read_bytes_n [wire_simps]:
  "length v = n \<Longrightarrow> n < 4294967296 \<Longrightarrow> n \<le> maximum \<Longrightarrow>
   cvReadBytes maximum (put_be 4 n @ v @ rest) = Some (v, rest)"
  using read_bytes by blast

lemma read_bytes_end [wire_simps]:
  "length v = n \<Longrightarrow> n < 4294967296 \<Longrightarrow> n \<le> maximum \<Longrightarrow>
   cvReadBytes maximum (put_be 4 n @ v) = Some (v, [])"
  using read_bytes_n [of v n maximum "[]"] by simp

lemma read_uint32_end [wire_simps]: "n < 4294967296 \<Longrightarrow> cvReadUint32 (put_be 4 n) = Some (n, [])"
  using read_uint32 [of n "[]"] by simp

lemma read_uint64_end [wire_simps]:
  "n < 18446744073709551616 \<Longrightarrow> cvReadUint64 (cvWriteUint64 n) = Some (n, [])"
  using read_uint64 [of n "[]"] by simp

text \<open>What a successful read says about the input.\<close>

lemma cvReadUint32_SomeD:
  assumes "cvReadUint32 r = Some (n, r')"
  shows "r = put_be 4 n @ r'" and "n < 4294967296"
proof -
  from assms have l: "\<not> length r < 4" and n: "n = get_be (take 4 r)" and r': "r' = drop 4 r"
    by (auto simp: cvReadUint32_def split: if_splits)
  from l have "put_be 4 n = take 4 r" by (simp add: n)
  then show "r = put_be 4 n @ r'" by (simp add: r')
  show "n < 4294967296" using get_be_less [of "take 4 r"] l n by simp
qed

lemma cvReadUint64_SomeD:
  assumes "cvReadUint64 r = Some (n, r')"
  shows "r = cvWriteUint64 n @ r'" and "n < 18446744073709551616"
proof -
  from assms have l: "\<not> length r < 8" and n: "n = get_be (take 8 r)" and r': "r' = drop 8 r"
    by (auto simp: cvReadUint64_def split: if_splits)
  from l have "put_be 8 n = take 8 r" by (simp add: n)
  then show "r = cvWriteUint64 n @ r'" by (simp add: r' cvWriteUint64_def)
  show "n < 18446744073709551616" using get_be_less [of "take 8 r"] l n by simp
qed

lemma cvReadBytes_SomeD:
  assumes "cvReadBytes maximum r = Some (v, r')"
  shows "r = put_be 4 (length v) @ v @ r'" and "length v \<le> maximum" and "length v < 4294967296"
proof -
  from assms obtain n s where rd: "cvReadUint32 r = Some (n, s)"
    and n: "n \<le> maximum" "n \<le> length s" and v: "v = take n s" and r': "r' = drop n s"
    by (auto simp: cvReadBytes_def bind_eq_Some_conv split: if_splits)
  have len: "length v = n" using n v by simp
  show "r = put_be 4 (length v) @ v @ r'"
    using cvReadUint32_SomeD(1) [OF rd] len v r' by simp
  show "length v \<le> maximum" using n len by simp
  show "length v < 4294967296" using cvReadUint32_SomeD(2) [OF rd] len by simp
qed

lemma cvReadUint64_int64:
  "cvReadUint64 r = Some (n, r') \<Longrightarrow> n \<le> max_int \<Longrightarrow> int64 (int n) \<and> u64 (int n) = n"
  by (simp add: max_int_def int64_def u64_of_nat)

lemma read_list [wire_simps]:
  assumes "\<And>x rest. x \<in> set xs \<Longrightarrow> rd (wr x @ rest) = Some (x, rest)" "n = length xs"
  shows "cvReadList rd n (concat (map wr xs) @ rest) = Some (xs, rest)"
  using assms by (induction xs arbitrary: n) auto

lemma read_list_end:
  assumes "\<And>x rest. x \<in> set xs \<Longrightarrow> rd (wr x @ rest) = Some (x, rest)" "n = length xs"
  shows "cvReadList rd n (concat (map wr xs)) = Some (xs, [])"
  using read_list [of xs rd wr n "[]"] assms by simp

lemma cvReadList_SomeD:
  assumes "cvReadList rd n r = Some (xs, r')"
    and "\<And>x r r'. rd r = Some (x, r') \<Longrightarrow> P x"
  shows "length xs = n" and "\<forall>x \<in> set xs. P x"
  using assms by (induction rd n r arbitrary: xs r' rule: cvReadList.induct)
    (force simp: bind_eq_Some_conv)+

lemma cvWriteParts_Some:
  "\<forall>p \<in> set parts. length p < 4294967296 \<Longrightarrow>
   cvWriteParts parts = Some (concat (map (\<lambda>p. put_be 4 (length p) @ p) parts))"
  by (induction parts) auto

text \<open>A sequence of length-prefixed byte slices determines the slices.\<close>

lemma put_be_prefix_inject:
  assumes "length p < 4294967296" "length q < 4294967296"
    "put_be 4 (length p) @ p @ r = put_be 4 (length q) @ q @ s"
  shows "p = q \<and> r = s"
proof -
  have "put_be 4 (length p) = put_be 4 (length q) \<and> p @ r = q @ s" using assms(3) by simp
  moreover from this have "length p = length q" using assms put_be_inject [of "length p" 4 "length q"] by simp
  ultimately show ?thesis by simp
qed

lemma cvWriteParts_inj:
  "cvWriteParts ps = Some w \<Longrightarrow> cvWriteParts qs = Some w \<Longrightarrow> ps = qs"
proof (induction ps arbitrary: qs w)
  case Nil
  then show ?case by (cases qs) (auto simp: bind_eq_Some_conv cvWriteBytes_def cvWriteUint32_def split: if_splits)
next
  case (Cons p ps)
  obtain ws where p: "length p < 4294967296" "cvWriteParts ps = Some ws" "w = put_be 4 (length p) @ p @ ws"
    using Cons.prems(1) by (auto simp: bind_eq_Some_conv cvWriteBytes_def cvWriteUint32_def split: if_splits)
  obtain q qs' where qs: "qs = q # qs'"
    using Cons.prems(2) p(3) by (cases qs) auto
  obtain vs where q: "length q < 4294967296" "cvWriteParts qs' = Some vs" "w = put_be 4 (length q) @ q @ vs"
    using Cons.prems(2) qs by (auto simp: bind_eq_Some_conv cvWriteBytes_def cvWriteUint32_def split: if_splits)
  have "p = q \<and> ws = vs" by (rule put_be_prefix_inject) (use p q in auto)
  then show ?case using Cons.IH p q qs by simp
qed

section \<open>The contract of a canonical codec\<close>

text \<open>
  \<open>encode\<close> is a \<^verbatim>\<open>...CanonicalBytes\<close> function, \<open>decode\<close> the \<^verbatim>\<open>cvDecode...\<close> function beside it and
  \<open>wf\<close> the values in the range of the Go types and within the decoder's size limits.
\<close>

locale wire_codec =
  fixes encode :: "'a \<Rightarrow> bytes option"
    and decode :: "bytes \<Rightarrow> 'a option"
    and wf :: "'a \<Rightarrow> bool"
  assumes decode_encode: "wf x \<Longrightarrow> encode x = Some w \<Longrightarrow> decode w = Some x"
    and encode_decode: "decode w = Some x \<Longrightarrow> encode x = Some w"
    and decode_wf: "decode w = Some x \<Longrightarrow> wf x"
begin

lemma decode_iff: "decode w = Some x \<longleftrightarrow> wf x \<and> encode x = Some w"
  using decode_encode encode_decode decode_wf by blast

lemma encode_inj: "wf x \<Longrightarrow> wf y \<Longrightarrow> encode x = Some w \<Longrightarrow> encode y = Some w \<Longrightarrow> x = y"
  by (metis decode_encode option.inject)

lemma decode_inj: "decode w = Some x \<Longrightarrow> decode w' = Some x \<Longrightarrow> w = w'"
  by (metis encode_decode option.inject)

lemma decode_None: "(\<And>x. wf x \<Longrightarrow> encode x \<noteq> Some w) \<Longrightarrow> decode w = None"
  using decode_iff by (cases "decode w") auto

end

end
