(* ===== verification/Util.thy ===== *)
theory Util
  imports Wire
begin

text \<open>
  The roster helpers of \<^verbatim>\<open>src/core/util.go\<close>, \<^verbatim>\<open>src/core/config.go\<close> (\<^verbatim>\<open>filterNodeIDs\<close>),
  \<^verbatim>\<open>src/core/cv_sapvss_v2_keys.go\<close> (\<^verbatim>\<open>equalInts\<close>) and of the V2 files (\<^verbatim>\<open>cvContainsID\<close>,
  \<^verbatim>\<open>cvMemberInRosterV2\<close>).  A Go map used as a set of node ids is a \<open>set\<close>.  The sorting helper is
  proved equal to the reference \<open>sorted_list_of_set\<close>.
\<close>

section \<open>Definitions\<close>

definition sortedCopy :: "int list \<Rightarrow> int list" where
  "sortedCopy v = sort v"

fun sortedUnique_loop :: "int list \<Rightarrow> int \<Rightarrow> int list \<Rightarrow> int list" where
  "sortedUnique_loop out prev [] = out"
| "sortedUnique_loop out prev (node # cp) =
     (if out = [] \<or> node \<noteq> prev then sortedUnique_loop (out @ [node]) node cp
      else sortedUnique_loop out prev cp)"

definition sortedUnique :: "int list \<Rightarrow> int list" where
  "sortedUnique v =
     (let cp = sortedCopy v
      in if length cp \<le> 1 then cp else sortedUnique_loop [] (cp ! 0 - 1) cp)"

definition takeFirst :: "int list \<Rightarrow> int \<Rightarrow> int list" where
  "takeFirst v k =
     (if k \<le> 0 then [] else if int (length v) \<le> k then v else take (nat k) v)"

definition nodeSet :: "int list \<Rightarrow> int set" where
  "nodeSet ids = set ids"

definition encodeInts :: "int list \<Rightarrow> bytes" where
  "encodeInts v = concat (map (\<lambda>n. cvWriteUint64 (u64 n)) v)"

definition equalInts :: "int list \<Rightarrow> int list \<Rightarrow> bool" where
  "equalInts left right \<longleftrightarrow>
     length left = length right \<and> list_all (\<lambda>i. left ! i = right ! i) [0..<length left]"

fun cvContainsID :: "int list \<Rightarrow> int \<Rightarrow> bool" where
  "cvContainsID [] target = False"
| "cvContainsID (node # ids) target = (if node = target then True else cvContainsID ids target)"

fun cvMemberInRosterV2 :: "int \<Rightarrow> int list \<Rightarrow> bool" where
  "cvMemberInRosterV2 member [] = False"
| "cvMemberInRosterV2 member (candidate # roster) =
     (if member = candidate then True else cvMemberInRosterV2 member roster)"

fun filterNodeIDs_loop :: "int set \<Rightarrow> int list \<Rightarrow> int set \<Rightarrow> int list \<Rightarrow> int list" where
  "filterNodeIDs_loop allowed out seen [] = out"
| "filterNodeIDs_loop allowed out seen (node # ids) =
     (if node \<notin> allowed then filterNodeIDs_loop allowed out seen ids
      else if node \<in> seen then filterNodeIDs_loop allowed out seen ids
      else filterNodeIDs_loop allowed (out @ [node]) (insert node seen) ids)"

definition filterNodeIDs :: "int list \<Rightarrow> int list \<Rightarrow> int list" where
  "filterNodeIDs ids universe =
     (if ids = [] \<or> universe = [] then []
      else filterNodeIDs_loop (nodeSet universe) [] {} (sortedUnique ids))"

section \<open>Correctness\<close>

lemma equalInts_eq [simp]: "equalInts xs ys \<longleftrightarrow> xs = ys"
  by (auto simp: equalInts_def list_all_iff intro: nth_equalityI)

lemma cvContainsID_iff [simp]: "cvContainsID ids x \<longleftrightarrow> x \<in> set ids"
  by (induction ids) auto

lemma cvMemberInRosterV2_iff [simp]: "cvMemberInRosterV2 x ids \<longleftrightarrow> x \<in> set ids"
  by (induction ids) auto

lemma sortedUnique_loop_spec:
  assumes "sorted_wrt (<) out" "sorted cp" "\<forall>x \<in> set out. \<forall>y \<in> set cp. x \<le> y"
    "out \<noteq> [] \<Longrightarrow> last out = l"
  shows "sorted_wrt (<) (sortedUnique_loop out l cp) \<and>
         set (sortedUnique_loop out l cp) = set out \<union> set cp"
  using assms
proof (induction cp arbitrary: out l)
  case Nil
  then show ?case by simp
next
  case (Cons c cp)
  show ?case
  proof (cases "out = [] \<or> c \<noteq> l")
    case True
    have "\<forall>x \<in> set out. x < c"
    proof
      fix x assume x: "x \<in> set out"
      then have ne: "out \<noteq> []" by auto
      with Cons.prems(4) True have lc: "last out \<noteq> c" by auto
      have "last out \<le> c" using Cons.prems(3) ne by auto
      with lc have "last out < c" by simp
      moreover have "x \<le> last out"
      proof (cases "x = last out")
        case False
        from ne x obtain ys where o: "out = ys @ [last out]" by (metis append_butlast_last_id)
        with x False have "x \<in> set ys" by (metis Un_iff empty_iff empty_set insert_iff list.simps(15) set_append)
        with Cons.prems(1) o have "x < last out" by (metis sorted_wrt_append list.set_intros(1))
        then show ?thesis by simp
      qed simp
      ultimately show "x < c" by simp
    qed
    then have "sorted_wrt (<) (out @ [c])"
      using Cons.prems(1) by (simp add: sorted_wrt_append)
    moreover have "\<forall>x \<in> set (out @ [c]). \<forall>y \<in> set cp. x \<le> y" using Cons.prems by auto
    ultimately show ?thesis using Cons.IH [of "out @ [c]" c] Cons.prems True by auto
  next
    case False
    with Cons.prems have "c \<in> set out" by (metis last_in_set)
    with False Cons.IH [of out l] Cons.prems show ?thesis by auto
  qed
qed

lemma sortedUnique_strict: "sorted_wrt (<) (sortedUnique v)"
  and set_sortedUnique [simp]: "set (sortedUnique v) = set v"
proof -
  have "sorted_wrt (<) (sortedUnique v) \<and> set (sortedUnique v) = set v"
  proof (cases "length v \<le> 1")
    case True
    then have "v = [] \<or> (\<exists>x. v = [x])" by (cases v) auto
    then show ?thesis by (auto simp: sortedUnique_def sortedCopy_def)
  next
    case False
    have "sorted_wrt (<) (sortedUnique_loop [] (sort v ! 0 - 1) (sort v)) \<and>
          set (sortedUnique_loop [] (sort v ! 0 - 1) (sort v)) = set [] \<union> set (sort v)"
      by (rule sortedUnique_loop_spec) auto
    with False show ?thesis by (simp add: sortedUnique_def sortedCopy_def Let_def)
  qed
  then show "sorted_wrt (<) (sortedUnique v)" "set (sortedUnique v) = set v" by auto
qed

lemma strict_sorted_unique:
  "sorted_wrt (<) xs \<Longrightarrow> sorted_wrt (<) ys \<Longrightarrow> set xs = set ys \<Longrightarrow> xs = (ys :: int list)"
  by (metis strict_sorted_iff sorted_distinct_set_unique)

lemma sortedUnique_eq: "sortedUnique v = sorted_list_of_set (set v)"
  by (rule strict_sorted_unique)
     (auto simp: sortedUnique_strict strict_sorted_list_of_set)

lemma sortedUnique_id_iff: "sortedUnique v = v \<longleftrightarrow> sorted_wrt (<) v"
  using strict_sorted_unique sortedUnique_strict set_sortedUnique by metis

lemma sortedUnique_id_iff' [simp]: "v = sortedUnique v \<longleftrightarrow> sorted_wrt (<) v"
  using sortedUnique_id_iff by metis

lemma strict_sorted_distinct: "sorted_wrt (<) (v :: int list) \<Longrightarrow> distinct v"
  by (simp add: strict_sorted_iff)

lemma distinct_sortedUnique [simp]: "distinct (sortedUnique v)"
  by (simp add: strict_sorted_distinct sortedUnique_strict)

lemma length_sortedUnique: "length (sortedUnique v) = card (set v)"
  using distinct_card [OF distinct_sortedUnique, of v] by simp

lemma length_sortedUnique_iff: "length (sortedUnique v) = length v \<longleftrightarrow> distinct v"
  by (metis length_sortedUnique card_distinct distinct_card)

lemma sortedUnique_eq_Nil [simp]: "sortedUnique v = [] \<longleftrightarrow> v = []"
  by (metis set_empty2 set_sortedUnique)

lemma filterNodeIDs_loop_eq:
  "set out = seen \<Longrightarrow> distinct ids \<Longrightarrow> seen \<inter> set ids = {} \<Longrightarrow>
   filterNodeIDs_loop allowed out seen ids = out @ filter (\<lambda>i. i \<in> allowed) ids"
proof (induction ids arbitrary: out seen)
  case (Cons a ids)
  have "filterNodeIDs_loop allowed (out @ [a]) (insert a seen) ids =
        (out @ [a]) @ filter (\<lambda>i. i \<in> allowed) ids"
    by (rule Cons.IH) (use Cons.prems in auto)
  then show ?case using Cons by auto
qed simp

text \<open>\<open>filterNodeIDs\<close> is the sorted list of the ids inside the universe, without duplicates.\<close>

lemma filterNodeIDs_eq: "filterNodeIDs ids universe = sorted_list_of_set (set ids \<inter> set universe)"
proof (cases "ids = [] \<or> universe = []")
  case True
  then show ?thesis by (auto simp: filterNodeIDs_def)
next
  case False
  then have "filterNodeIDs ids universe = filter (\<lambda>i. i \<in> set universe) (sortedUnique ids)"
    by (simp add: filterNodeIDs_def nodeSet_def filterNodeIDs_loop_eq)
  also have "\<dots> = sorted_list_of_set (set ids \<inter> set universe)"
    by (rule strict_sorted_unique)
       (auto simp: strict_sorted_list_of_set sortedUnique_strict sorted_wrt_filter)
  finally show ?thesis .
qed

lemma set_filterNodeIDs: "set (filterNodeIDs ids universe) = set ids \<inter> set universe"
  by (simp add: filterNodeIDs_eq)

lemma takeFirst_eq: "takeFirst v k = take (nat k) v"
  by (auto simp: takeFirst_def)

lemma length_encodeInts [simp]: "length (encodeInts v) = 8 * length v"
  by (induction v) (auto simp: encodeInts_def)


section \<open>Decimal numbers\<close>

text \<open>\<^verbatim>\<open>fmt.Sprintf("%d", ...)\<close>.\<close>

fun go_decimal :: "nat \<Rightarrow> string" where
  "go_decimal n = (if n < 10 then [char_of (48 + n)] else go_decimal (n div 10) @ [char_of (48 + n mod 10)])"

declare go_decimal.simps [simp del]

definition itoa :: "int \<Rightarrow> string" where
  "itoa v = (if v < 0 then CHR ''-'' # go_decimal (nat (- v)) else go_decimal (nat v))"

lemma go_decimal_digits: "\<forall>c \<in> set (go_decimal n). 48 \<le> (of_char c :: nat) \<and> (of_char c :: nat) \<le> 57"
proof (induction n rule: go_decimal.induct)
  case (1 n)
  have d: "(of_char (char_of (48 + k) :: char) :: nat) = 48 + k" if "k < 10" for k :: nat
    using that by (simp add: of_char_of)
  show ?case
  proof (cases "n < 10")
    case True
    then show ?thesis by (subst go_decimal.simps) (simp add: d)
  next
    case False
    then show ?thesis using 1 d [of "n mod 10"] by (subst go_decimal.simps) auto
  qed
qed

lemma go_decimal_value: "foldl (\<lambda>a c. a * 10 + ((of_char c :: nat) - 48)) 0 (go_decimal n) = n"
proof (induction n rule: go_decimal.induct)
  case (1 n)
  have d: "(of_char (char_of (48 + k) :: char) :: nat) - 48 = k" if "k < 10" for k :: nat
    using that by (simp add: of_char_of)
  show ?case
  proof (cases "n < 10")
    case True
    then show ?thesis by (subst go_decimal.simps) (simp add: d)
  next
    case False
    then show ?thesis using 1 d [of "n mod 10"] by (subst go_decimal.simps) simp
  qed
qed

lemma go_decimal_inject [simp]: "go_decimal m = go_decimal n \<longleftrightarrow> m = n"
  by (metis go_decimal_value)

lemma itoa_inject: "0 \<le> v \<Longrightarrow> 0 \<le> w \<Longrightarrow> itoa v = itoa w \<longleftrightarrow> v = w"
  by (auto simp: itoa_def)

end
