(* ===== verification/Erasure.thy ===== *)
theory Erasure
  imports Util
begin

text \<open>
  The erasure code of \<^verbatim>\<open>src/core/cv_sapvss_m4.go\<close>.  The Reed--Solomon encoder is the library
  \<^verbatim>\<open>klauspost/reedsolomon\<close>: its operations are the record \<open>rs\<close>, and \<open>rs_laws\<close> states, for one
  pair of dimensions, what it documents (a systematic maximum-distance-separable code).  A shard
  that is \<^verbatim>\<open>nil\<close> is \<open>None\<close>.  The encoder cache of \<^verbatim>\<open>cvCachedRSEncoder\<close> returns the encoder that
  \<^verbatim>\<open>reedsolomon.New\<close> builds for the same key, so it is not part of the model.
\<close>

record rs =
  rs_New :: "int \<Rightarrow> int \<Rightarrow> bool"
  rs_Split :: "int \<Rightarrow> int \<Rightarrow> bytes \<Rightarrow> bytes list option"
  rs_Encode :: "int \<Rightarrow> int \<Rightarrow> bytes list \<Rightarrow> bytes list option"
  rs_Reconstruct :: "int \<Rightarrow> int \<Rightarrow> bytes option list \<Rightarrow> bytes list option"
  rs_Join :: "int \<Rightarrow> int \<Rightarrow> bytes list \<Rightarrow> int \<Rightarrow> bytes option"

definition cvCachedRSEncoder :: "rs \<Rightarrow> int \<Rightarrow> int \<Rightarrow> unit option" where
  "cvCachedRSEncoder R dataShards totalShards = do {
     require (\<not> (dataShards \<le> 0 \<or> totalShards < dataShards));
     require (rs_New R dataShards (totalShards - dataShards))
   }"

text \<open>\<^verbatim>\<open>copy(make([]byte, size), payload[start:min(start+size, len(payload))])\<close> for shard \<open>i\<close>.\<close>

definition plain_shard :: "bytes \<Rightarrow> nat \<Rightarrow> nat \<Rightarrow> bytes" where
  "plain_shard payload shardSize i =
     (let piece = take shardSize (drop (i * shardSize) payload)
      in piece @ replicate (shardSize - length piece) 0)"

definition cvErasureEncode :: "rs \<Rightarrow> bytes \<Rightarrow> int \<Rightarrow> int \<Rightarrow> bytes list option" where
  "cvErasureEncode R payload dataShards totalShards =
     (if dataShards = totalShards
      then let shardSize = nat ((int (length payload) + dataShards - 1) div dataShards)
           in Some (map (plain_shard payload shardSize) [0..<nat totalShards])
      else do {
        _ \<leftarrow> cvCachedRSEncoder R dataShards totalShards;
        shards \<leftarrow> rs_Split R dataShards (totalShards - dataShards) payload;
        rs_Encode R dataShards (totalShards - dataShards) shards
      })"

fun concat_shards :: "bytes option list \<Rightarrow> bytes option" where
  "concat_shards [] = Some []"
| "concat_shards (None # shards) = None"
| "concat_shards (Some shard # shards) = do { out \<leftarrow> concat_shards shards; Some (shard @ out) }"

definition cvErasureDecode :: "rs \<Rightarrow> bytes option list \<Rightarrow> int \<Rightarrow> bytes option" where
  "cvErasureDecode R shards dataShards =
     (if dataShards = int (length shards) then concat_shards shards
      else do {
        let parity = int (length shards) - dataShards;
        _ \<leftarrow> cvCachedRSEncoder R dataShards (int (length shards));
        shards \<leftarrow> rs_Reconstruct R dataShards parity shards;
        rs_Join R dataShards parity shards (int (length (shards ! 0)) * dataShards)
      })"

section \<open>What the library documents\<close>

text \<open>\<open>agrees sh E\<close>: the present shards of \<open>sh\<close> are those of \<open>E\<close>.\<close>

definition agrees :: "bytes option list \<Rightarrow> bytes list \<Rightarrow> bool" where
  "agrees sh E \<longleftrightarrow> length sh = length E \<and> (\<forall>i < length E. sh ! i = None \<or> sh ! i = Some (E ! i))"

definition present :: "bytes option list \<Rightarrow> nat" where
  "present sh = card {i. i < length sh \<and> sh ! i \<noteq> None}"

definition rs_laws :: "rs \<Rightarrow> int \<Rightarrow> int \<Rightarrow> bool" where
  "rs_laws R d t \<longleftrightarrow>
     rs_New R d (t - d) \<and>
     (\<forall>p b. 0 < b \<longrightarrow> length p = nat d * b \<longrightarrow>
        (\<exists>S. rs_Split R d (t - d) p = Some S \<and> length S = nat t \<and>
             (\<forall>s \<in> set S. length s = b) \<and> concat (take (nat d) S) = p)) \<and>
     (\<forall>S b. 0 < b \<longrightarrow> length S = nat t \<longrightarrow> (\<forall>s \<in> set S. length s = b) \<longrightarrow>
        (\<exists>E. rs_Encode R d (t - d) S = Some E \<and> length E = nat t \<and>
             (\<forall>s \<in> set E. length s = b) \<and> take (nat d) E = take (nat d) S \<and>
             (\<forall>sh. agrees sh E \<longrightarrow> nat d \<le> present sh \<longrightarrow> rs_Reconstruct R d (t - d) sh = Some E))) \<and>
     (\<forall>E b. 0 < b \<longrightarrow> length E = nat t \<longrightarrow> (\<forall>s \<in> set E. length s = b) \<longrightarrow>
        rs_Join R d (t - d) E (int b * d) = Some (concat (take (nat d) E)))"

text \<open>The laws are needed only when parity shards exist.\<close>

definition code_ok :: "rs \<Rightarrow> int \<Rightarrow> int \<Rightarrow> bool" where
  "code_ok R d t \<longleftrightarrow> 0 < d \<and> d \<le> t \<and> (d < t \<longrightarrow> rs_laws R d t)"

section \<open>Encoding and decoding\<close>

lemma plain_shards_concat:
  "length p = d * b \<Longrightarrow> concat (map (plain_shard p b) [0..<d]) = p \<and>
     (\<forall>s \<in> set (map (plain_shard p b) [0..<d]). length s = b)"
proof (induction d arbitrary: p)
  case (Suc d)
  have p: "length (take (d * b) p) = d * b" "length (drop (d * b) p) = b" using Suc.prems by auto
  have pre: "plain_shard p b i = plain_shard (take (d * b) p) b i" if "i < d" for i
  proof -
    have "i * b + b \<le> d * b" using that mult_le_mono1 [of "Suc i" d b] by simp
    then have "b \<le> d * b - i * b" by linarith
    then have "take b (drop (i * b) (take (d * b) p)) = take b (drop (i * b) p)"
      unfolding drop_take take_take by (simp only: min_absorb1)
    then show ?thesis by (simp only: plain_shard_def Let_def)
  qed
  then have m: "map (plain_shard p b) [0..<d] = map (plain_shard (take (d * b) p) b) [0..<d]" by simp
  have lastp: "plain_shard p b d = drop (d * b) p" using p by (simp add: plain_shard_def)
  have IH: "concat (map (plain_shard (take (d * b) p) b) [0..<d]) = take (d * b) p"
    "\<forall>s \<in> set (map (plain_shard (take (d * b) p) b) [0..<d]). length s = b"
    using Suc.IH [OF p(1)] by simp_all
  have split: "map (plain_shard p b) [0..<Suc d] = map (plain_shard (take (d * b) p) b) [0..<d] @ [drop (d * b) p]"
    using m lastp by simp
  show ?case unfolding split
  proof
    show "concat (map (plain_shard (take (d * b) p) b) [0..<d] @ [drop (d * b) p]) = p"
      by (simp only: concat_append IH(1) concat.simps append_Nil2 append_take_drop_id)
    show "\<forall>s \<in> set (map (plain_shard (take (d * b) p) b) [0..<d] @ [drop (d * b) p]). length s = b"
      using IH(2) p(2) by (simp only: set_append ball_Un list.simps ball_simps simp_thms)
  qed
qed simp

lemma concat_shards_Some: "concat_shards (map Some xs) = Some (concat xs)"
  by (induction xs) auto

text \<open>What encoding a whole number of shards produces.\<close>

lemma cvErasureEncode_Some:
  assumes ok: "code_ok R d t" and p: "length p = nat d * b" and b: "0 < b"
  obtains E where "cvErasureEncode R p d t = Some E" "length E = nat t" "\<forall>s \<in> set E. length s = b"
    "concat (take (nat d) E) = p"
    "\<And>sh. agrees sh E \<Longrightarrow> nat d \<le> present sh \<Longrightarrow> cvErasureDecode R sh d = Some p"
proof (cases "d = t")
  case True
  let ?E = "map (plain_shard p b) [0..<nat t]"
  have d: "0 < d" using ok by (simp add: code_ok_def)
  have "(int (nat d * b) + d - 1) div d = int b"
  proof -
    have "int (nat d * b) + d - 1 = (d - 1) + int b * d" using d by (simp add: mult.commute)
    moreover have "((d - 1) + int b * d) div d = int b" using d by (simp add: div_mult_self1)
    ultimately show ?thesis by (simp only:)
  qed
  then have enc: "cvErasureEncode R p d t = Some ?E"
    using True p d by (simp add: cvErasureEncode_def)
  note E = plain_shards_concat [of p "nat t" b] 
  show ?thesis
  proof (rule that [OF enc])
    show "length ?E = nat t" by simp
    show "\<forall>s \<in> set ?E. length s = b" "concat (take (nat d) ?E) = p" using E p True by auto
    fix sh assume a: "agrees sh ?E" and pr: "nat d \<le> present sh"
    have len: "length sh = nat t" using a by (simp add: agrees_def)
    have "{i. i < length sh \<and> sh ! i \<noteq> None} = {..<length sh}"
      by (rule card_seteq) (use pr len True in \<open>auto simp: present_def\<close>)
    then have "\<forall>i < length sh. sh ! i \<noteq> None" by auto
    then have "sh = map Some ?E" using a by (fastforce simp: agrees_def intro!: nth_equalityI)
    then have "concat_shards sh = Some p" using E p True by (simp only: concat_shards_Some)
    then show "cvErasureDecode R sh d = Some p" using True len d by (simp add: cvErasureDecode_def)
  qed
next
  case False
  then have lt: "0 < d" "d < t" and laws: "rs_laws R d t" using ok by (auto simp: code_ok_def)
  note L = laws [unfolded rs_laws_def]
  note L_enc = L [THEN conjunct2, THEN conjunct2, THEN conjunct1]
    and L_join = L [THEN conjunct2, THEN conjunct2, THEN conjunct2]
  from laws p b obtain S where S: "rs_Split R d (t - d) p = Some S" "length S = nat t"
    "\<forall>s \<in> set S. length s = b" "concat (take (nat d) S) = p" unfolding rs_laws_def by blast
  from L_enc [THEN spec, THEN spec, THEN mp, OF b, THEN mp, OF S(2), THEN mp, OF S(3)]
  obtain E where E: "rs_Encode R d (t - d) S = Some E" "length E = nat t"
    "\<forall>s \<in> set E. length s = b" "take (nat d) E = take (nat d) S"
    "\<forall>sh. agrees sh E \<longrightarrow> nat d \<le> present sh \<longrightarrow> rs_Reconstruct R d (t - d) sh = Some E"
    by blast
  have new: "cvCachedRSEncoder R d t = Some ()" using lt laws by (simp add: cvCachedRSEncoder_def rs_laws_def)
  have join: "rs_Join R d (t - d) E (int b * d) = Some p"
    using L_join [THEN spec, THEN spec, THEN mp, OF b, THEN mp, OF E(2), THEN mp, OF E(3)] E(4) S(4)
    by simp
  have E0: "length (E ! 0) = b" using E lt by simp
  show ?thesis
  proof (rule that)
    show "cvErasureEncode R p d t = Some E" using False new S E by (simp add: cvErasureEncode_def)
    show "length E = nat t" "\<forall>s \<in> set E. length s = b" "concat (take (nat d) E) = p" using E S by auto
    fix sh assume a: "agrees sh E" "nat d \<le> present sh"
    then have "int (length sh) = t" using E lt by (simp add: agrees_def)
    then show "cvErasureDecode R sh d = Some p"
      using False new E a E0 join by (simp add: cvErasureDecode_def)
  qed
qed

section \<open>An instance of the laws\<close>

text \<open>The repetition code with one data shard, on which the properties that assume \<open>rs_laws\<close> are
  witnessed.\<close>

definition rep_code :: rs where
  "rep_code = \<lparr>
     rs_New = (\<lambda>d par. d = 1 \<and> 0 \<le> par),
     rs_Split = (\<lambda>d par p. Some (p # replicate (nat par) (replicate (length p) 0))),
     rs_Encode = (\<lambda>d par S. Some (replicate (length S) (S ! 0))),
     rs_Reconstruct = (\<lambda>d par sh. case concat (map (\<lambda>x. case x of None \<Rightarrow> [] | Some s \<Rightarrow> [s]) sh) of
        [] \<Rightarrow> None | s # _ \<Rightarrow> Some (replicate (length sh) s)),
     rs_Join = (\<lambda>d par E n. Some (take (nat n) (concat (take (nat d) E)))) \<rparr>"

lemma rep_reconstruct:
  assumes "agrees sh (replicate n s)" "1 \<le> present sh"
  shows "rs_Reconstruct rep_code d par sh = Some (replicate n s)"
proof -
  let ?xs = "concat (map (\<lambda>x. case x of None \<Rightarrow> [] | Some s \<Rightarrow> [s]) sh)"
  have "\<forall>x \<in> set ?xs. x = s"
    using assms(1) by (auto simp: agrees_def in_set_conv_nth split: option.splits) (metis option.distinct(1) option.inject)
  moreover have "?xs \<noteq> []"
  proof -
    have "{i. i < length sh \<and> sh ! i \<noteq> None} \<noteq> {}"
      using assms(2) unfolding present_def by (metis card.empty not_one_le_zero)
    then obtain i y where "i < length sh" "sh ! i = Some y" by auto
    then have "Some y \<in> set sh" by (metis nth_mem)
    then show ?thesis by (force split: option.splits)
  qed
  ultimately obtain ys where "?xs = s # ys" by (cases ?xs) auto
  then show ?thesis using assms(1) by (simp add: rep_code_def agrees_def)
qed

lemma rep_code_laws: "1 < t \<Longrightarrow> rs_laws rep_code 1 t"
  unfolding rs_laws_def
proof (intro conjI allI impI)
  assume t: "1 < t"
  show "rs_New rep_code 1 (t - 1)" using t by (simp add: rep_code_def)
  fix b :: nat assume b: "0 < b"
  { fix p :: bytes assume "length p = nat 1 * b"
    then show "\<exists>S. rs_Split rep_code 1 (t - 1) p = Some S \<and> length S = nat t \<and>
        (\<forall>s \<in> set S. length s = b) \<and> concat (take (nat 1) S) = p"
      using t by (auto simp: rep_code_def) }
  { fix S :: "bytes list" assume S: "length S = nat t" "\<forall>s \<in> set S. length s = b"
    have S0: "length (S ! 0) = b" "S \<noteq> []" using S t by auto
    have rec: "\<forall>sh. agrees sh (replicate (nat t) (S ! 0)) \<longrightarrow> nat 1 \<le> present sh \<longrightarrow>
        rs_Reconstruct rep_code 1 (t - 1) sh = Some (replicate (nat t) (S ! 0))"
      using rep_reconstruct by simp
    have "take (nat 1) (replicate (nat t) (S ! 0)) = take (nat 1) S"
      using S0 t by (cases S) (simp_all add: take_replicate)
    then show "\<exists>E. rs_Encode rep_code 1 (t - 1) S = Some E \<and> length E = nat t \<and>
        (\<forall>s \<in> set E. length s = b) \<and> take (nat 1) E = take (nat 1) S \<and>
        (\<forall>sh. agrees sh E \<longrightarrow> nat 1 \<le> present sh \<longrightarrow> rs_Reconstruct rep_code 1 (t - 1) sh = Some E)"
      using S S0 rec by (intro exI [of _ "replicate (nat t) (S ! 0)"]) (auto simp: rep_code_def) }
  { fix E :: "bytes list" assume "length E = nat t" "\<forall>s \<in> set E. length s = b"
    then show "rs_Join rep_code 1 (t - 1) E (int b * 1) = Some (concat (take (nat 1) E))"
      using t by (cases E) (auto simp: rep_code_def) }
qed

lemma rep_code_ok: "code_ok rep_code 1 2"
  by (simp add: code_ok_def rep_code_laws)

end
