(* ===== verification/Merkle.thy ===== *)
theory Merkle
  imports Util
begin

text \<open>
  The Merkle tree that \<^verbatim>\<open>cvAPDBBuildMerkleV2\<close> (\<^verbatim>\<open>src/core/cv_sapvss_apdb.go\<close>) and
  \<^verbatim>\<open>cvBuildAggregateMerkle\<close> (\<^verbatim>\<open>src/core/cv_sapvss_m4.go\<close>) build: both copy the last digest of a level
  of odd length, pair the level up and keep one sibling per level as the branch of a leaf.  The
  loops are parameterised by the node hash, because the two call sites differ only in its domain
  string.  The locale \<open>merkle\<close> is the contract of a node hash; its lemmas are the completeness of
  branches and the binding of a root to the leaf at a position, with the colliding messages named.
\<close>

section \<open>Building levels, branches and roots\<close>

definition pad_level :: "bytes list \<Rightarrow> bytes list" where
  "pad_level level = (if length level mod 2 = 1 then level @ [level ! (length level - 1)] else level)"

fun pair_up :: "(bytes \<Rightarrow> bytes \<Rightarrow> bytes) \<Rightarrow> bytes list \<Rightarrow> bytes list" where
  "pair_up node (a # b # rest) = node a b # pair_up node rest"
| "pair_up node _ = []"

lemma length_pair_up [simp]: "length (pair_up node xs) = length xs div 2"
  by (induction node xs rule: pair_up.induct) auto

lemma length_pad_level: "length (pad_level xs) = 2 * ((length xs + 1) div 2)"
proof (cases "even (length xs)")
  case True
  then obtain k where "length xs = 2 * k" by (elim evenE)
  then show ?thesis by (simp add: pad_level_def)
next
  case False
  then obtain k where "length xs = 2 * k + 1" by (elim oddE)
  then show ?thesis by (simp add: pad_level_def)
qed

function merkle_levels :: "(bytes \<Rightarrow> bytes \<Rightarrow> bytes) \<Rightarrow> bytes list \<Rightarrow> bytes list list" where
  "merkle_levels node level =
     (if length level > 1 then level # merkle_levels node (pair_up node (pad_level level)) else [level])"
  by pat_completeness auto
termination
  by (relation "measure (\<lambda>(_, level). length level)") (auto simp: length_pad_level)

declare merkle_levels.simps [simp del]

definition merkle_sibling :: "bytes list \<Rightarrow> nat \<Rightarrow> nat" where
  "merkle_sibling level index =
     (let sibling = xor index 1 in if sibling \<ge> length level then length level - 1 else sibling)"

fun merkle_branch :: "bytes list list \<Rightarrow> nat \<Rightarrow> bytes list" where
  "merkle_branch (level # next_level # rest) index =
     level ! merkle_sibling level index # merkle_branch (next_level # rest) (index div 2)"
| "merkle_branch _ index = []"

definition merkle_root :: "bytes list list \<Rightarrow> bytes" where
  "merkle_root levels = last levels ! 0"

text \<open>Recomputing a root from a leaf digest and a branch; a sibling that is not a digest is an error.\<close>

fun merkle_fold :: "(bytes \<Rightarrow> bytes \<Rightarrow> bytes) \<Rightarrow> nat \<Rightarrow> bytes \<Rightarrow> bytes list \<Rightarrow> bytes option" where
  "merkle_fold node index digest [] = Some digest"
| "merkle_fold node index digest (sibling # siblings) =
     (if length sibling \<noteq> 32 then None
      else merkle_fold node (index div 2)
             (if index mod 2 = 0 then node digest sibling else node sibling digest) siblings)"

function merkle_depth :: "int \<Rightarrow> nat" where
  "merkle_depth width = (if width > 1 then Suc (merkle_depth ((width + 1) div 2)) else 0)"
  by pat_completeness auto
termination
  by (relation "measure nat") auto

declare merkle_depth.simps [simp del]

section \<open>Shape\<close>

lemma xor_one: "xor (i :: nat) 1 = (if even i then i + 1 else i - 1)"
  by (simp add: xor_Suc_0_eq)

lemma merkle_sibling_eq:
  "merkle_sibling level i =
     (let s = (if even i then i + 1 else i - 1) in if s \<ge> length level then length level - 1 else s)"
  unfolding merkle_sibling_def xor_one ..

lemma merkle_levels_not_Nil [simp]: "merkle_levels node level \<noteq> []"
  by (subst merkle_levels.simps) simp

lemma merkle_levels_Cons: "\<exists>rest. merkle_levels node level = level # rest"
  by (subst merkle_levels.simps) simp

lemma merkle_levels_depth:
  "length (merkle_levels node level) = Suc (merkle_depth (int (length level)))"
proof (induction node level rule: merkle_levels.induct)
  case (1 node level)
  show ?case
  proof (cases "length level > 1")
    case True
    have "int (length (pair_up node (pad_level level))) = (int (length level) + 1) div 2"
      by (simp add: length_pad_level zdiv_int)
    then show ?thesis using 1 True
      by (subst merkle_levels.simps, subst merkle_depth.simps) simp
  next
    case False
    then show ?thesis by (subst merkle_levels.simps, subst merkle_depth.simps) simp
  qed
qed

lemma length_merkle_branch: "length (merkle_branch levels i) = length levels - 1"
  by (induction levels i rule: merkle_branch.induct) (auto simp: Let_def)

lemma pair_up_nth:
  "2 * i + 1 < length xs \<Longrightarrow> pair_up node xs ! i = node (xs ! (2 * i)) (xs ! (2 * i + 1))"
proof (induction node xs arbitrary: i rule: pair_up.induct)
  case (1 node a b rest)
  then show ?case by (cases i) auto
qed auto

section \<open>The contract of a node hash\<close>

locale merkle =
  fixes node :: "bytes \<Rightarrow> bytes \<Rightarrow> bytes" and msg :: "bytes \<Rightarrow> bytes \<Rightarrow> bytes"
  assumes node_hash: "node a b = sha256 (msg a b)"
    and msg_inj: "length a = 32 \<Longrightarrow> length a' = 32 \<Longrightarrow> msg a b = msg a' b' \<Longrightarrow> a = a' \<and> b = b'"
begin

lemma length_node [simp]: "length (node a b) = 32"
  by (simp add: node_hash)

lemma pair_up_digests: "\<forall>d \<in> set (pair_up node xs). length d = 32"
  by (induction xs rule: induct_list012) auto

text \<open>One level: hashing a digest with its sibling gives the digest above it.\<close>

lemma level_step:
  assumes i: "i < length level" and len: "length level > 1"
  shows "(if i mod 2 = 0 then node (level ! i) (level ! merkle_sibling level i)
      else node (level ! merkle_sibling level i) (level ! i)) = pair_up node (pad_level level) ! (i div 2)"
    and "merkle_sibling level i < length level"
    and "i div 2 < length (pair_up node (pad_level level))"
proof -
  have i2: "2 * (i div 2) + 1 < length (pad_level level)"
    using i unfolding length_pad_level by presburger
  have up: "pair_up node (pad_level level) ! (i div 2) =
      node (pad_level level ! (2 * (i div 2))) (pad_level level ! (2 * (i div 2) + 1))"
    using i2 by (rule pair_up_nth)
  show "i div 2 < length (pair_up node (pad_level level))" using i2 by simp
  show "merkle_sibling level i < length level" using i len by (auto simp: merkle_sibling_eq Let_def)
  have nth: "pad_level level ! k = level ! k" if "k < length level" for k
    using that by (simp add: pad_level_def nth_append)
  show "(if i mod 2 = 0 then node (level ! i) (level ! merkle_sibling level i)
      else node (level ! merkle_sibling level i) (level ! i)) = pair_up node (pad_level level) ! (i div 2)"
  proof (cases "even i")
    case True
    then have e: "2 * (i div 2) = i" by simp
    show ?thesis
    proof (cases "i + 1 < length level")
      case True
      then show ?thesis using \<open>even i\<close> i by (simp add: up e nth merkle_sibling_eq Let_def)
    next
      case False
      then have l: "length level = i + 1" using i by simp
      then have "pad_level level ! (i + 1) = level ! i"
        using \<open>even i\<close> by (simp add: pad_level_def nth_append mod2_eq_if)
      then show ?thesis using \<open>even i\<close> i l by (simp add: up e nth merkle_sibling_eq Let_def)
    qed
  next
    case False
    then have e: "2 * (i div 2) = i - 1" "2 * (i div 2) + 1 = i" "i > 0" by (auto elim: oddE)
    moreover have "\<not> length level \<le> i - 1" using i by simp
    ultimately show ?thesis using False i by (simp add: up nth merkle_sibling_eq Let_def mod2_eq_if)
  qed
qed

text \<open>Completeness: the branch of a leaf folds to the root.\<close>

lemma branch_folds:
  assumes "i < length level" "\<forall>d \<in> set level. length d = 32"
  shows "merkle_fold node i (level ! i) (merkle_branch (merkle_levels node level) i) =
    Some (merkle_root (merkle_levels node level))"
  using assms
proof (induction "length level" arbitrary: level i rule: less_induct)
  case less
  show ?case
  proof (cases "length level > 1")
    case False
    with less.prems have "length level = 1" "i = 0" by auto
    then show ?thesis by (subst (1 2) merkle_levels.simps) (simp add: merkle_root_def)
  next
    case True
    let ?up = "pair_up node (pad_level level)"
    have lv: "merkle_levels node level = level # merkle_levels node ?up"
      using True by (subst merkle_levels.simps) simp
    obtain rest where up: "merkle_levels node ?up = ?up # rest" using merkle_levels_Cons by blast
    have IH: "merkle_fold node (i div 2) (?up ! (i div 2)) (merkle_branch (merkle_levels node ?up) (i div 2)) =
        Some (merkle_root (merkle_levels node ?up))"
      by (rule less.hyps)
         (use True level_step(3) [OF less.prems(1) True] pair_up_digests in \<open>auto simp: length_pad_level\<close>)
    have root: "merkle_root (merkle_levels node level) = merkle_root (merkle_levels node ?up)"
      by (simp add: lv merkle_root_def)
    show ?thesis
      using IH level_step(1,2) [OF less.prems(1) True] less.prems(2)
      unfolding root by (simp add: lv up)
  qed
qed

lemma branch_digests:
  assumes "i < length level" "\<forall>d \<in> set level. length d = 32"
  shows "\<forall>d \<in> set (merkle_branch (merkle_levels node level) i). length d = 32"
  using branch_folds [OF assms]
proof -
  have "merkle_fold node i d sibs = Some r \<Longrightarrow> \<forall>s \<in> set sibs. length s = 32" for i d sibs r
    by (induction node i d sibs rule: merkle_fold.induct) (auto split: if_splits)
  then show ?thesis using branch_folds [OF assms] by blast
qed

lemma length_root:
  assumes "level \<noteq> []" "\<forall>d \<in> set level. length d = 32"
  shows "length (merkle_root (merkle_levels node level)) = 32"
  using assms
proof (induction "length level" arbitrary: level rule: less_induct)
  case less
  show ?case
  proof (cases "length level > 1")
    case False
    then show ?thesis using less.prems
      by (subst merkle_levels.simps) (simp add: merkle_root_def)
  next
    case True
    let ?up = "pair_up node (pad_level level)"
    have "length (merkle_root (merkle_levels node ?up)) = 32"
      by (rule less.hyps) (use True pair_up_digests in \<open>auto simp: length_pad_level simp flip: length_greater_0_conv\<close>)
    moreover have "merkle_root (merkle_levels node level) = merkle_root (merkle_levels node ?up)"
      using True by (subst merkle_levels.simps) (simp add: merkle_root_def)
    ultimately show ?thesis by simp
  qed
qed

end

text \<open>The messages that \<open>merkle_fold\<close> hashes, for a node hash \<open>sha256 \<circ> msg\<close>.\<close>

fun merkle_messages ::
  "(bytes \<Rightarrow> bytes \<Rightarrow> bytes) \<Rightarrow> nat \<Rightarrow> bytes \<Rightarrow> bytes list \<Rightarrow> bytes list" where
  "merkle_messages msg index digest [] = []"
| "merkle_messages msg index digest (sibling # siblings) =
     (let m = (if index mod 2 = 0 then msg digest sibling else msg sibling digest)
      in m # merkle_messages msg (index div 2) (sha256 m) siblings)"

text \<open>Two different messages with one digest, one from each list.\<close>

definition collide :: "bytes list \<Rightarrow> bytes list \<Rightarrow> bool" where
  "collide xs ys \<longleftrightarrow> (\<exists>x \<in> set xs. \<exists>y \<in> set ys. x \<noteq> y \<and> sha256 x = sha256 y)"

lemma collide_Cons: "collide xs ys \<Longrightarrow> collide (x # xs) (y # ys)"
  by (auto simp: collide_def)

lemma collide_hd: "x \<noteq> y \<Longrightarrow> sha256 x = sha256 y \<Longrightarrow> collide (x # xs) (y # ys)"
  by (auto simp: collide_def)

context merkle
begin

text \<open>Binding: branches of one length at one position that fold to one root start from the same
  digest and have the same siblings, or two of the messages hashed on the way collide.\<close>

lemma fold_binding:
  assumes "length sibs = length sibs'" "length d = 32" "length d' = 32"
    and "merkle_fold node i d sibs = Some r" "merkle_fold node i d' sibs' = Some r"
  shows "d = d' \<and> sibs = sibs' \<or> collide (merkle_messages msg i d sibs) (merkle_messages msg i d' sibs')"
  using assms
proof (induction sibs sibs' arbitrary: i d d' rule: list_induct2)
  case Nil
  then show ?case by simp
next
  case (Cons s sibs s' sibs')
  let ?m = "if i mod 2 = 0 then msg d s else msg s d"
  let ?m' = "if i mod 2 = 0 then msg d' s' else msg s' d'"
  have s: "length s = 32" "length s' = 32" using Cons.prems by (auto split: if_splits)
  have IH: "sha256 ?m = sha256 ?m' \<and> sibs = sibs' \<or>
      collide (merkle_messages msg (i div 2) (sha256 ?m) sibs) (merkle_messages msg (i div 2) (sha256 ?m') sibs')"
    by (rule Cons.IH) (use Cons.prems s in \<open>auto simp: node_hash\<close>)
  have step: "merkle_messages msg i d (s # sibs) = ?m # merkle_messages msg (i div 2) (sha256 ?m) sibs"
    "merkle_messages msg i d' (s' # sibs') = ?m' # merkle_messages msg (i div 2) (sha256 ?m') sibs'"
    by (simp_all add: Let_def)
  show ?case
  proof (cases "?m = ?m'")
    case True
    then have "d = d' \<and> s = s'" using msg_inj s Cons.prems(1,2) by (metis (full_types))
    then show ?thesis using IH collide_Cons unfolding step by fastforce
  next
    case False
    then show ?thesis using IH collide_Cons collide_hd unfolding step by blast
  qed
qed

end

end
