(* ===== verification/Interpolation.thy ===== *)
theory Interpolation
  imports Util
begin

text \<open>
  Polynomial evaluation and Lagrange interpolation at zero: \<^verbatim>\<open>src/core/cv_sapvss_polynomial.go\<close>
  and the interpolation helpers of \<^verbatim>\<open>src/core/cv_sapvss_threshold.go\<close>.  The scalars of
  gnark-crypto (\<^verbatim>\<open>fr.Element\<close>) are any type of class \<open>field\<close>, where \<open>of_int\<close> is \<^verbatim>\<open>SetInt64\<close>; the
  operations on curve points come from the library and are the record \<open>g1_ops\<close>; what the code
  relies on is the hypothesis \<open>g1_laws\<close>, the prime-order group the library documents.
\<close>

section \<open>Definitions\<close>

definition evalPolyInt :: "'f::field list \<Rightarrow> int \<Rightarrow> 'f" where
  "evalPolyInt coefficients x =
     (case rev coefficients of
        [] \<Rightarrow> 0
      | c # rest \<Rightarrow> foldl (\<lambda>result a. result * of_int x + a) c rest)"

text \<open>The inner loop over \<open>j\<close> and the outer loop over \<open>i\<close> of \<^verbatim>\<open>cvLagrangeCoefficientsAtZero\<close>.\<close>

fun lagrange_inner :: "nat \<Rightarrow> int \<Rightarrow> nat \<Rightarrow> int list \<Rightarrow> 'f::field \<Rightarrow> 'f option" where
  "lagrange_inner i xI j [] c = Some c"
| "lagrange_inner i xI j (xJ # xs) c =
     (if i = j then lagrange_inner i xI (Suc j) xs c
      else let numerator = of_int xJ; denominator = of_int (xJ - xI)
           in if denominator = 0 then None
              else lagrange_inner i xI (Suc j) xs (c * (numerator * inverse denominator)))"

fun lagrange_outer :: "int list \<Rightarrow> nat \<Rightarrow> int set \<Rightarrow> int list \<Rightarrow> 'f::field list option" where
  "lagrange_outer indices i seen [] = Some []"
| "lagrange_outer indices i seen (xI # rest) =
     (if xI \<le> 0 then None
      else if xI \<in> seen then None
      else do {
        c \<leftarrow> lagrange_inner i xI 0 indices 1;
        cs \<leftarrow> lagrange_outer indices (Suc i) (insert xI seen) rest;
        Some (c # cs)
      })"

definition cvLagrangeCoefficientsAtZero :: "int list \<Rightarrow> 'f::field list option" where
  "cvLagrangeCoefficientsAtZero indices =
     (if indices = [] then None else lagrange_outer indices 0 {} indices)"

record ('g, 'f) g1_ops =
  g1_IsOnCurve :: "'g \<Rightarrow> bool"
  g1_IsInSubGroup :: "'g \<Rightarrow> bool"
  g1_IsInfinity :: "'g \<Rightarrow> bool"
  g1_zero :: 'g
  g1_add :: "'g \<Rightarrow> 'g \<Rightarrow> 'g"
  g1_smul :: "'g \<Rightarrow> 'f \<Rightarrow> 'g"
  g1_multiexp :: "'g list \<Rightarrow> 'f list \<Rightarrow> 'g option"

definition g1_lincomb :: "('g, 'f, 'z) g1_ops_scheme \<Rightarrow> ('g \<times> 'f) list \<Rightarrow> 'g" where
  "g1_lincomb G ts = foldl (\<lambda>result (p, c). g1_add G result (g1_smul G p c)) (g1_zero G) ts"

definition cvG1LinearCombination :: "('g, 'f::field, 'z) g1_ops_scheme \<Rightarrow> 'g list \<Rightarrow> 'f list \<Rightarrow> 'g option" where
  "cvG1LinearCombination G points coefficients =
     (if points = [] \<or> length points \<noteq> length coefficients then None
      else if length points \<ge> 4 \<and> g1_multiexp G points coefficients \<noteq> None
      then g1_multiexp G points coefficients
      else Some (g1_lincomb G (zip points coefficients)))"

definition cvInterpolateG1AtZero :: "('g, 'f::field, 'z) g1_ops_scheme \<Rightarrow> int list \<Rightarrow> 'g list \<Rightarrow> 'g option" where
  "cvInterpolateG1AtZero G indices points =
     (if indices = [] \<or> length indices \<noteq> length points then None
      else do {
        coefficients \<leftarrow> cvLagrangeCoefficientsAtZero indices;
        cvG1LinearCombination G points coefficients
      })"

text \<open>What the library documents of the group: an \<open>'f\<close>-module, and a multi-exponentiation that
  returns the linear combination.\<close>

definition g1_in :: "('g, 'f, 'z) g1_ops_scheme \<Rightarrow> 'g \<Rightarrow> bool" where
  "g1_in G p \<longleftrightarrow> g1_IsOnCurve G p \<and> g1_IsInSubGroup G p"

definition g1_laws :: "('g, 'f::field, 'z) g1_ops_scheme \<Rightarrow> bool" where
  "g1_laws G \<longleftrightarrow>
     g1_in G (g1_zero G) \<and>
     (\<forall>p q. g1_in G p \<longrightarrow> g1_in G q \<longrightarrow> g1_in G (g1_add G p q)) \<and>
     (\<forall>p a. g1_in G p \<longrightarrow> g1_in G (g1_smul G p a)) \<and>
     (\<forall>p. g1_in G p \<longrightarrow> g1_add G (g1_zero G) p = p) \<and>
     (\<forall>p. g1_in G p \<longrightarrow> g1_smul G p 0 = g1_zero G) \<and>
     (\<forall>p q. g1_in G p \<longrightarrow> g1_in G q \<longrightarrow> g1_add G p q = g1_add G q p) \<and>
     (\<forall>p q r. g1_in G p \<longrightarrow> g1_in G q \<longrightarrow> g1_in G r \<longrightarrow>
        g1_add G (g1_add G p q) r = g1_add G p (g1_add G q r)) \<and>
     (\<forall>p q a. g1_in G p \<longrightarrow> g1_in G q \<longrightarrow>
        g1_smul G (g1_add G p q) a = g1_add G (g1_smul G p a) (g1_smul G q a)) \<and>
     (\<forall>p. g1_in G p \<longrightarrow> g1_smul G p 1 = p) \<and>
     (\<forall>p a b. g1_in G p \<longrightarrow> g1_smul G p (a + b) = g1_add G (g1_smul G p a) (g1_smul G p b)) \<and>
     (\<forall>p a b. g1_in G p \<longrightarrow> g1_smul G (g1_smul G p a) b = g1_smul G p (a * b)) \<and>
     (\<forall>p a. g1_in G p \<longrightarrow> g1_IsInfinity G (g1_smul G p a) \<longleftrightarrow> g1_IsInfinity G p \<or> a = 0) \<and>
     (\<forall>ps cs r. g1_multiexp G ps cs = Some r \<longrightarrow> length ps = length cs \<longrightarrow>
        list_all (g1_in G) ps \<longrightarrow> r = g1_lincomb G (zip ps cs))"

lemma g1_lawsD:
  assumes "g1_laws G"
  shows "g1_in G (g1_zero G)"
    and "g1_in G p \<Longrightarrow> g1_in G q \<Longrightarrow> g1_in G (g1_add G p q)"
    and "g1_in G p \<Longrightarrow> g1_in G (g1_smul G p a)"
    and "g1_in G p \<Longrightarrow> g1_add G (g1_zero G) p = p"
    and "g1_in G p \<Longrightarrow> g1_smul G p 0 = g1_zero G"
    and "g1_in G p \<Longrightarrow> g1_smul G p (a + b) = g1_add G (g1_smul G p a) (g1_smul G p b)"
    and "g1_in G p \<Longrightarrow> g1_smul G (g1_smul G p a) b = g1_smul G p (a * b)"
    and "g1_in G p \<Longrightarrow> g1_IsInfinity G (g1_smul G p a) \<longleftrightarrow> g1_IsInfinity G p \<or> a = 0"
    and "g1_multiexp G ps cs = Some r \<Longrightarrow> length ps = length cs \<Longrightarrow> list_all (g1_in G) ps \<Longrightarrow>
      r = g1_lincomb G (zip ps cs)"
proof -
  note laws = assms [unfolded g1_laws_def]
  show "g1_in G (g1_zero G)" by (insert laws, elim conjE, assumption)
  have "\<forall>p q. g1_in G p \<longrightarrow> g1_in G q \<longrightarrow> g1_in G (g1_add G p q)" by (insert laws, elim conjE, assumption)
  then show "g1_in G p \<Longrightarrow> g1_in G q \<Longrightarrow> g1_in G (g1_add G p q)" by simp
  have "\<forall>p a. g1_in G p \<longrightarrow> g1_in G (g1_smul G p a)" by (insert laws, elim conjE, assumption)
  then show "g1_in G p \<Longrightarrow> g1_in G (g1_smul G p a)" by simp
  have "\<forall>p. g1_in G p \<longrightarrow> g1_add G (g1_zero G) p = p" by (insert laws, elim conjE, assumption)
  then show "g1_in G p \<Longrightarrow> g1_add G (g1_zero G) p = p" by simp
  have "\<forall>p. g1_in G p \<longrightarrow> g1_smul G p 0 = g1_zero G" by (insert laws, elim conjE, assumption)
  then show "g1_in G p \<Longrightarrow> g1_smul G p 0 = g1_zero G" by simp
  have "\<forall>p a b. g1_in G p \<longrightarrow> g1_smul G p (a + b) = g1_add G (g1_smul G p a) (g1_smul G p b)"
    by (insert laws, elim conjE, assumption)
  then show "g1_in G p \<Longrightarrow> g1_smul G p (a + b) = g1_add G (g1_smul G p a) (g1_smul G p b)" by simp
  have "\<forall>p a b. g1_in G p \<longrightarrow> g1_smul G (g1_smul G p a) b = g1_smul G p (a * b)"
    by (insert laws, elim conjE, assumption)
  then show "g1_in G p \<Longrightarrow> g1_smul G (g1_smul G p a) b = g1_smul G p (a * b)" by simp
  have "\<forall>p a. g1_in G p \<longrightarrow> g1_IsInfinity G (g1_smul G p a) \<longleftrightarrow> g1_IsInfinity G p \<or> a = 0"
    by (insert laws, elim conjE, assumption)
  then show "g1_in G p \<Longrightarrow> g1_IsInfinity G (g1_smul G p a) \<longleftrightarrow> g1_IsInfinity G p \<or> a = 0" by simp
  have "\<forall>ps cs r. g1_multiexp G ps cs = Some r \<longrightarrow> length ps = length cs \<longrightarrow>
      list_all (g1_in G) ps \<longrightarrow> r = g1_lincomb G (zip ps cs)" by (insert laws, elim conjE, assumption)
  then show "g1_multiexp G ps cs = Some r \<Longrightarrow> length ps = length cs \<Longrightarrow> list_all (g1_in G) ps \<Longrightarrow>
      r = g1_lincomb G (zip ps cs)" by blast
qed

lemma g1_moduleD:
  assumes "g1_laws G"
  shows "g1_in G p \<Longrightarrow> g1_in G q \<Longrightarrow> g1_add G p q = g1_add G q p"
    and "g1_in G p \<Longrightarrow> g1_in G q \<Longrightarrow> g1_in G r \<Longrightarrow> g1_add G (g1_add G p q) r = g1_add G p (g1_add G q r)"
    and "g1_in G p \<Longrightarrow> g1_in G q \<Longrightarrow> g1_smul G (g1_add G p q) a = g1_add G (g1_smul G p a) (g1_smul G q a)"
    and "g1_in G p \<Longrightarrow> g1_smul G p 1 = p"
proof -
  note laws = assms [unfolded g1_laws_def]
  have "\<forall>p q. g1_in G p \<longrightarrow> g1_in G q \<longrightarrow> g1_add G p q = g1_add G q p" by (insert laws, elim conjE, assumption)
  then show "g1_in G p \<Longrightarrow> g1_in G q \<Longrightarrow> g1_add G p q = g1_add G q p" by blast
  have "\<forall>p q r. g1_in G p \<longrightarrow> g1_in G q \<longrightarrow> g1_in G r \<longrightarrow>
      g1_add G (g1_add G p q) r = g1_add G p (g1_add G q r)" by (insert laws, elim conjE, assumption)
  then show "g1_in G p \<Longrightarrow> g1_in G q \<Longrightarrow> g1_in G r \<Longrightarrow> g1_add G (g1_add G p q) r = g1_add G p (g1_add G q r)"
    by simp
  have "\<forall>p q a. g1_in G p \<longrightarrow> g1_in G q \<longrightarrow> g1_smul G (g1_add G p q) a = g1_add G (g1_smul G p a) (g1_smul G q a)"
    by (insert laws, elim conjE, assumption)
  then show "g1_in G p \<Longrightarrow> g1_in G q \<Longrightarrow> g1_smul G (g1_add G p q) a = g1_add G (g1_smul G p a) (g1_smul G q a)"
    by simp
  have "\<forall>p. g1_in G p \<longrightarrow> g1_smul G p 1 = p" by (insert laws, elim conjE, assumption)
  then show "g1_in G p \<Longrightarrow> g1_smul G p 1 = p" by simp
qed

section \<open>Lagrange weights over finite sets of points\<close>

definition lam :: "'f::field set \<Rightarrow> 'f \<Rightarrow> 'f" where
  "lam S x = (\<Prod>y \<in> S - {x}. y / (y - x))"

lemma lam_insert:
  assumes "finite S" "y \<notin> S" "x \<in> S"
  shows "lam (insert y S) x = y / (y - x) * lam S x"
proof -
  have "insert y S - {x} = insert y (S - {x})" using assms by auto
  then show ?thesis using assms by (simp add: lam_def)
qed

lemma lam_insert_self: "y \<notin> S \<Longrightarrow> lam (insert y S) y = (\<Prod>x \<in> S. x / (x - y))"
  by (simp add: lam_def)

lemma neville_weight:
  assumes "(y :: 'f::field) \<noteq> x" "z \<noteq> x" "z \<noteq> y"
  shows "z / (z - x) * (y / (y - x)) = (z * (y / (y - x)) - y * (z / (z - x))) / (z - y)"
proof -
  have ne: "y - x \<noteq> 0" "z - x \<noteq> 0" "z - y \<noteq> 0" using assms by auto
  have "z * (y / (y - x)) - y * (z / (z - x)) = (z * y) / (y - x) - (y * z) / (z - x)" by simp
  also have "\<dots> = (z * y * (z - x) - y * z * (y - x)) / ((y - x) * (z - x))"
    using ne by (simp add: diff_frac_eq)
  also have "z * y * (z - x) - y * z * (y - x) = (z * y) * (z - y)" by (simp add: algebra_simps)
  finally show ?thesis using ne by (simp add: mult.commute)
qed

lemma lam_sum_neville:
  assumes fin: "finite S" and y: "y \<notin> S" and z: "z \<notin> S" "(z :: 'f::field) \<noteq> y"
  shows "(\<Sum>x \<in> insert z (insert y S). lam (insert z (insert y S)) x) =
     (z * (\<Sum>x \<in> insert y S. lam (insert y S) x) - y * (\<Sum>x \<in> insert z S. lam (insert z S) x)) / (z - y)"
proof -
  have ne: "z - y \<noteq> 0" "y - z \<noteq> 0" using z by auto
  have zy: "z \<notin> insert y S" using z by auto
  have in_S: "lam (insert z (insert y S)) x =
      (z * lam (insert y S) x - y * lam (insert z S) x) / (z - y)" if "x \<in> S" for x
  proof -
    have "lam (insert z (insert y S)) x = z / (z - x) * (y / (y - x)) * lam S x"
      using that fin y zy by (simp add: lam_insert)
    also have "\<dots> = (z * (y / (y - x)) - y * (z / (z - x))) / (z - y) * lam S x"
      using that y z by (subst neville_weight) auto
    also have "\<dots> = (z * lam (insert y S) x - y * lam (insert z S) x) / (z - y)"
      using that fin y z by (simp add: lam_insert algebra_simps)
    finally show ?thesis .
  qed
  have at_y: "lam (insert z (insert y S)) y = z * lam (insert y S) y / (z - y)"
    using fin y zy by (simp add: lam_insert)
  have "lam (insert z (insert y S)) z = (\<Prod>x \<in> insert y S. x / (x - z))"
    using zy by (simp add: lam_insert_self)
  also have "\<dots> = y / (y - z) * lam (insert z S) z"
    using fin y z by (simp add: lam_insert_self)
  finally have at_z: "lam (insert z (insert y S)) z = - (y * lam (insert z S) z / (z - y))"
    using ne by (simp add: field_simps)
  have "(\<Sum>x \<in> insert z (insert y S). lam (insert z (insert y S)) x) =
      lam (insert z (insert y S)) z + lam (insert z (insert y S)) y +
      (\<Sum>x \<in> S. lam (insert z (insert y S)) x)"
    using fin y zy by simp
  also have "(\<Sum>x \<in> S. lam (insert z (insert y S)) x) =
      (\<Sum>x \<in> S. (z * lam (insert y S) x - y * lam (insert z S) x) / (z - y))"
    by (rule sum.cong) (auto simp: in_S)
  also have "\<dots> = (z * (\<Sum>x \<in> S. lam (insert y S) x) - y * (\<Sum>x \<in> S. lam (insert z S) x)) / (z - y)"
    by (simp add: sum_subtractf sum_distrib_left flip: sum_divide_distrib)
  finally show ?thesis
    using fin y z by (simp add: at_y at_z add_divide_distrib diff_divide_distrib algebra_simps)
qed

lemma lam_sum_one:
  fixes S :: "'f::field set"
  assumes "finite S" "S \<noteq> {}"
  shows "(\<Sum>x \<in> S. lam S x) = 1"
  using assms
proof (induction "card S" arbitrary: S rule: less_induct)
  case less
  obtain y T where S: "S = insert y T" "y \<notin> T" using less.prems(2) by (metis ex_in_conv mk_disjoint_insert)
  have finT: "finite T" using less.prems S by simp
  show ?case
  proof (cases "T = {}")
    case True
    then show ?thesis using S by (simp add: lam_def)
  next
    case False
    then obtain z U where T: "T = insert z U" "z \<notin> U" by (metis ex_in_conv mk_disjoint_insert)
    have fin: "finite U" using finT T by simp
    have yz: "y \<noteq> z" "y \<notin> U" using S T by auto
    have c: "card S = Suc (Suc (card U))" using S T fin yz by simp
    have IHy: "(\<Sum>x \<in> insert y U. lam (insert y U) x) = 1"
      by (rule less.hyps) (use fin yz c in auto)
    have IHz: "(\<Sum>x \<in> insert z U. lam (insert z U) x) = 1"
      by (rule less.hyps) (use fin T c in auto)
    have "(\<Sum>x \<in> S. lam S x) = (y * 1 - z * 1) / (y - z)"
      unfolding S T using lam_sum_neville [of U z y] fin T yz IHy IHz by simp
    then show ?thesis using yz by simp
  qed
qed

lemma lam_sum_power:
  fixes S :: "'f::field set"
  assumes "finite S" "S \<noteq> {}" "k < card S"
  shows "(\<Sum>x \<in> S. lam S x * x ^ k) = (if k = 0 then 1 else 0)"
  using assms
proof (induction S arbitrary: k rule: finite_ne_induct)
  case (singleton x)
  then show ?case by (simp add: lam_def)
next
  case (insert y S)
  let ?T = "insert y S"
  show ?case using insert.prems
  proof (induction k)
    case 0
    then show ?case using lam_sum_one [of ?T] insert.hyps by simp
  next
    case (Suc k)
    have kS: "k < card S" using Suc.prems insert.hyps by simp
    have tm: "lam ?T x * x ^ Suc k = y * (lam ?T x * x ^ k) - y * (lam S x * x ^ k)" if "x \<in> S" for x
    proof -
      have "y - x \<noteq> 0" using that insert.hyps by auto
      then have "y / (y - x) * (x * x ^ k) = y * (y / (y - x) * x ^ k) - y * x ^ k"
        by (simp add: field_simps)
      then have "lam S x * (y / (y - x) * (x * x ^ k)) = lam S x * (y * (y / (y - x) * x ^ k) - y * x ^ k)"
        by simp
      then show ?thesis using that insert.hyps by (simp add: lam_insert algebra_simps)
    qed
    have "(\<Sum>x \<in> ?T. lam ?T x * x ^ Suc k) =
        lam ?T y * y ^ Suc k + (\<Sum>x \<in> S. y * (lam ?T x * x ^ k) - y * (lam S x * x ^ k))"
      using insert.hyps by (simp add: tm del: power_Suc)
    also have "\<dots> = y * (\<Sum>x \<in> ?T. lam ?T x * x ^ k) - y * (\<Sum>x \<in> S. lam S x * x ^ k)"
      using insert.hyps by (simp add: sum_subtractf sum_distrib_left algebra_simps)
    also have "\<dots> = 0" using Suc.IH kS insert.IH [of k] insert.hyps by simp
    finally show ?case by simp
  qed
qed

section \<open>The interpolation loops compute the weights\<close>

definition lam_list :: "int list \<Rightarrow> int \<Rightarrow> 'f::field" where
  "lam_list indices x = lam (of_int ` set indices) (of_int x)"

lemma lagrange_inner_eq:
  assumes "\<And>k. k < length xs \<Longrightarrow> j + k \<noteq> i \<Longrightarrow> (of_int (xs ! k) :: 'f::field) \<noteq> of_int xI"
  shows "lagrange_inner i xI j xs c =
    Some (c * (\<Prod>k \<in> {k. k < length xs \<and> j + k \<noteq> i}.
      of_int (xs ! k) / (of_int (xs ! k) - (of_int xI :: 'f))))"
  using assms
proof (induction xs arbitrary: j c)
  case Nil
  then show ?case by simp
next
  case (Cons xJ xs)
  let ?g = "\<lambda>k. of_int (xs ! k) / (of_int (xs ! k) - (of_int xI :: 'f))"
  have IH: "lagrange_inner i xI (Suc j) xs c' =
      Some (c' * (\<Prod>k \<in> {k. k < length xs \<and> Suc j + k \<noteq> i}. ?g k))" for c'
    by (rule Cons.IH) (use Cons.prems [of "Suc k" for k] in auto)
  have sp: "{k. k < length (xJ # xs) \<and> j + k \<noteq> i} =
      (if i = j then {} else {0}) \<union> Suc ` {k. k < length xs \<and> Suc j + k \<noteq> i}"
    by (auto simp: image_iff less_Suc_eq_0_disj)
  have pr: "(\<Prod>k \<in> Suc ` {k. k < length xs \<and> Suc j + k \<noteq> i}.
      of_int ((xJ # xs) ! k) / (of_int ((xJ # xs) ! k) - (of_int xI :: 'f))) =
      (\<Prod>k \<in> {k. k < length xs \<and> Suc j + k \<noteq> i}. ?g k)"
    by (simp add: prod.reindex)
  have fin: "finite {k. k < length xs \<and> Suc j + k \<noteq> i}" by simp
  show ?case
  proof (cases "i = j")
    case True
    then show ?thesis using IH sp pr by simp
  next
    case False
    have "(of_int xJ :: 'f) \<noteq> of_int xI" using Cons.prems [of 0] False by simp
    then show ?thesis using False IH sp pr fin
      by (simp add: Let_def prod.union_disjoint divide_inverse mult.assoc)
  qed
qed

lemma inj_on_nth_eq:
  assumes "distinct xs" "inj_on f (set xs)" "i < length xs" "k < length xs" "f (xs ! i) = f (xs ! k)"
  shows "i = k"
  using assms by (metis inj_onD nth_eq_iff_index_eq nth_mem)

lemma prod_indices_eq_lam:
  assumes d: "distinct indices" and inj: "inj_on (of_int :: int \<Rightarrow> 'f::field) (set indices)"
    and i: "i < length indices"
  shows "(\<Prod>k \<in> {k. k < length indices \<and> k \<noteq> i}.
      of_int (indices ! k) / (of_int (indices ! k) - (of_int (indices ! i) :: 'f))) =
    lam_list indices (indices ! i)"
proof -
  let ?K = "{k. k < length indices \<and> k \<noteq> i}"
  let ?h = "\<lambda>k. (of_int (indices ! k) :: 'f)"
  have injh: "inj_on ?h {..<length indices}"
    by (rule inj_onI) (metis d inj inj_on_nth_eq lessThan_iff)
  have all: "?h ` {..<length indices} = of_int ` set indices"
    by (force simp: set_conv_nth)
  have K: "?K = {..<length indices} - {i}" by auto
  have "?h ` ?K = ?h ` {..<length indices} - ?h ` {i}"
    unfolding K by (rule inj_on_image_set_diff [OF injh]) (use i in auto)
  then have im: "?h ` ?K = of_int ` set indices - {of_int (indices ! i)}" using all by simp
  have "inj_on ?h ?K" using injh by (rule inj_on_subset) auto
  then have "(\<Prod>y \<in> ?h ` ?K. y / (y - ?h i)) = (\<Prod>k \<in> ?K. ?h k / (?h k - ?h i))"
    by (simp add: prod.reindex)
  then show ?thesis by (simp add: lam_list_def lam_def im)
qed

lemma lagrange_outer_eq:
  assumes d: "distinct indices" and pos: "\<forall>x \<in> set indices. 0 < x"
    and inj: "inj_on (of_int :: int \<Rightarrow> 'f::field) (set indices)"
  shows "rest = drop i indices \<Longrightarrow> seen = set (take i indices) \<Longrightarrow>
    lagrange_outer indices i seen rest = Some (map (lam_list indices :: int \<Rightarrow> 'f) rest)"
proof (induction rest arbitrary: i seen)
  case Nil
  then show ?case by simp
next
  case (Cons x rest)
  have i: "i < length indices" using Cons.prems(1) by (metis drop_all linorder_not_le list.discI)
  then have "drop i indices = indices ! i # drop (Suc i) indices"
    by (simp add: Cons_nth_drop_Suc)
  then have x: "x = indices ! i" and rest: "rest = drop (Suc i) indices"
    using Cons.prems(1) by auto
  have seen': "insert x seen = set (take (Suc i) indices)"
    using i x Cons.prems(2) by (auto simp: take_Suc_conv_app_nth)
  have "x \<notin> seen"
    using d i Cons.prems(2) x by (auto simp: in_set_conv_nth nth_eq_iff_index_eq)
  moreover have "0 < x" using pos i x by simp
  moreover have "lagrange_inner i x 0 indices (1 :: 'f) = Some (lam_list indices x)"
  proof -
    have "lagrange_inner i x 0 indices (1 :: 'f) =
        Some (1 * (\<Prod>k \<in> {k. k < length indices \<and> 0 + k \<noteq> i}.
          of_int (indices ! k) / (of_int (indices ! k) - (of_int x :: 'f))))"
      by (rule lagrange_inner_eq) (metis add_0 d i inj inj_on_nth_eq x)
    then show ?thesis using prod_indices_eq_lam [OF d inj i] x by simp
  qed
  ultimately show ?case using Cons.IH [OF rest seen'] by simp
qed

lemma lagrange_outer_Some:
  "lagrange_outer indices i seen rest = Some cs \<Longrightarrow>
     distinct rest \<and> seen \<inter> set rest = {} \<and> (\<forall>x \<in> set rest. 0 < x)"
  by (induction rest arbitrary: i seen cs) (auto split: if_splits bind_splits)

text \<open>The coefficients exist exactly for non-empty lists of distinct positive indices.\<close>

lemma cvLagrange_None_iff:
  assumes "inj_on (of_int :: int \<Rightarrow> 'f::field) (set indices)"
  shows "(cvLagrangeCoefficientsAtZero indices :: 'f list option) = None \<longleftrightarrow>
    indices = [] \<or> \<not> distinct indices \<or> (\<exists>x \<in> set indices. x \<le> 0)"
  using lagrange_outer_eq [of indices indices 0 "{}", OF _ _ assms]
    lagrange_outer_Some [of indices 0 "{}" indices]
  by (cases "lagrange_outer indices 0 {} indices :: 'f list option")
     (force simp: cvLagrangeCoefficientsAtZero_def not_le)+

lemma cvLagrange_Some:
  assumes "inj_on (of_int :: int \<Rightarrow> 'f::field) (set indices)"
    "indices \<noteq> []" "distinct indices" "\<forall>x \<in> set indices. 0 < x"
  shows "cvLagrangeCoefficientsAtZero indices = Some (map (lam_list indices :: int \<Rightarrow> 'f) indices)"
  using lagrange_outer_eq [of indices indices 0 "{}"] assms
  by (simp add: cvLagrangeCoefficientsAtZero_def)

section \<open>Horner evaluation and reconstruction\<close>

lemma horner_foldl:
  "foldl (\<lambda>r a. r * x + a) c as =
     c * x ^ length as + (\<Sum>k < length as. rev as ! k * (x :: 'f::field) ^ k)"
proof (induction as rule: rev_induct)
  case Nil
  then show ?case by simp
next
  case (snoc a as)
  have "(\<Sum>k < Suc (length as). (a # rev as) ! k * x ^ k) =
      a + (\<Sum>k < length as. rev as ! k * x ^ Suc k)"
    by (simp add: sum.lessThan_Suc_shift del: sum.lessThan_Suc)
  also have "(\<Sum>k < length as. rev as ! k * x ^ Suc k) = (\<Sum>k < length as. rev as ! k * x ^ k) * x"
    by (simp add: sum_distrib_left mult_ac)
  finally show ?case using snoc by (simp add: algebra_simps)
qed

lemma evalPolyInt_sum:
  "evalPolyInt cs x = (\<Sum>k < length cs. cs ! k * (of_int x :: 'f::field) ^ k)"
proof (cases cs rule: rev_cases)
  case Nil
  then show ?thesis by (simp add: evalPolyInt_def)
next
  case (snoc bs b)
  have "(\<Sum>k < length bs. (bs @ [b]) ! k * of_int x ^ k) = (\<Sum>k < length bs. bs ! k * (of_int x :: 'f) ^ k)"
    by (rule sum.cong) (auto simp: nth_append)
  then show ?thesis using snoc by (simp add: evalPolyInt_def horner_foldl)
qed

lemma evalPolyInt_zero: "evalPolyInt cs 0 = (case cs of [] \<Rightarrow> 0 | c # _ \<Rightarrow> (c :: 'f::field))"
proof (cases cs)
  case (Cons c ds)
  have "evalPolyInt cs 0 = (\<Sum>k \<in> {..<length cs}. cs ! k * (if k = 0 then 1 else 0))"
    unfolding evalPolyInt_sum by (rule sum.cong) (auto simp: power_0_left)
  also have "\<dots> = c" using Cons by (simp add: if_distrib sum.delta cong: if_cong)
  finally show ?thesis using Cons by simp
qed (simp add: evalPolyInt_sum)

lemma lam_sum_poly:
  fixes cs :: "'f::field list"
  assumes "finite S" "S \<noteq> {}" "length cs \<le> card S"
  shows "(\<Sum>x \<in> S. lam S x * (\<Sum>k < length cs. cs ! k * x ^ k)) = (case cs of [] \<Rightarrow> 0 | c # _ \<Rightarrow> c)"
proof -
  have "(\<Sum>x \<in> S. lam S x * (\<Sum>k < length cs. cs ! k * x ^ k)) =
      (\<Sum>k < length cs. cs ! k * (\<Sum>x \<in> S. lam S x * x ^ k))"
    by (simp add: sum_distrib_left mult_ac) (rule sum.swap)
  also have "\<dots> = (\<Sum>k < length cs. cs ! k * (if k = 0 then 1 else 0))"
    by (rule sum.cong) (use assms in \<open>simp_all add: lam_sum_power\<close>)
  also have "\<dots> = (case cs of [] \<Rightarrow> 0 | c # _ \<Rightarrow> c)"
    by (cases cs) (simp_all add: if_distrib sum.delta cong: if_cong)
  finally show ?thesis .
qed

lemma lam_list_sum:
  fixes cs :: "'f::field list"
  assumes inj: "inj_on (of_int :: int \<Rightarrow> 'f) (set indices)" and ne: "indices \<noteq> []"
    and d: "distinct indices" and len: "length cs \<le> length indices"
  shows "(\<Sum>x \<leftarrow> indices. lam_list indices x * evalPolyInt cs x) = evalPolyInt cs 0"
proof -
  let ?S = "of_int ` set indices :: 'f set"
  have card: "card ?S = length indices" using d by (simp add: card_image [OF inj] distinct_card)
  have "(\<Sum>x \<leftarrow> indices. lam_list indices x * evalPolyInt cs x) =
      (\<Sum>x \<in> set indices. lam_list indices x * evalPolyInt cs x)"
    by (simp add: sum_list_distinct_conv_sum_set [OF d])
  also have "\<dots> = (\<Sum>x \<in> ?S. lam ?S x * (\<Sum>k < length cs. cs ! k * x ^ k))"
    by (simp add: sum.reindex [OF inj] lam_list_def evalPolyInt_sum)
  also have "\<dots> = evalPolyInt cs 0"
    unfolding evalPolyInt_zero by (rule lam_sum_poly) (use card ne len in auto)
  finally show ?thesis .
qed

section \<open>Interpolation in the exponent\<close>

lemma g1_lincomb_smul:
  assumes G: "g1_laws G" and p: "g1_in G p"
  shows "g1_lincomb G (map (\<lambda>(a, c). (g1_smul G p a, c)) ts) = g1_smul G p (\<Sum>(a, c) \<leftarrow> ts. a * c)"
proof -
  have "foldl (\<lambda>r (p, c). g1_add G r (g1_smul G p c)) (g1_smul G p b)
      (map (\<lambda>(a, c). (g1_smul G p a, c)) ts) = g1_smul G p (b + (\<Sum>(a, c) \<leftarrow> ts. a * c))" for b
  proof (induction ts arbitrary: b)
    case (Cons t ts)
    obtain a c where t: "t = (a, c)" by (cases t)
    have "g1_add G (g1_smul G p b) (g1_smul G (g1_smul G p a) c) = g1_smul G p (b + a * c)"
      using p by (simp add: g1_lawsD [OF G])
    then show ?case using Cons.IH [of "b + a * c"] by (simp add: t add.assoc)
  qed simp
  from this [of 0] show ?thesis using p by (simp add: g1_lincomb_def g1_lawsD(5) [OF G])
qed

lemma cvG1LinearCombination_eq:
  assumes "g1_laws G" "points \<noteq> []" "length points = length coefficients" "list_all (g1_in G) points"
  shows "cvG1LinearCombination G points coefficients = Some (g1_lincomb G (zip points coefficients))"
  using assms g1_lawsD(9) [OF assms(1)] by (auto simp: cvG1LinearCombination_def)

lemma interpolation_scalars:
  fixes cs :: "'f::field list"
  assumes "inj_on (of_int :: int \<Rightarrow> 'f) (set indices)" "indices \<noteq> []" "distinct indices"
    "\<forall>x \<in> set indices. 0 < x" "length cs \<le> length indices"
    "cvLagrangeCoefficientsAtZero indices = Some ls"
  shows "(\<Sum>(a, c) \<leftarrow> zip (map (evalPolyInt cs) indices) ls. a * c) = evalPolyInt cs 0"
proof -
  have ls: "ls = map (lam_list indices) indices" using cvLagrange_Some [OF assms(1-4)] assms(6) by simp
  have "zip (map (evalPolyInt cs) indices) ls = map (\<lambda>x. (evalPolyInt cs x, lam_list indices x)) indices"
    by (simp add: ls zip_map_map map_zip_map zip_same_conv_map)
  then show ?thesis using lam_list_sum [of indices cs] assms
    by (simp add: comp_def mult.commute)
qed

lemma cvInterpolateG1AtZero_Some:
  fixes cs :: "'f::field list"
  assumes G: "g1_laws G" and p: "g1_in G p" and h: "inj_on (of_int :: int \<Rightarrow> 'f) (set indices)" "indices \<noteq> []"
    "distinct indices" "\<forall>x \<in> set indices. 0 < x" "length cs \<le> length indices"
  shows "cvInterpolateG1AtZero G indices (map (\<lambda>x. g1_smul G p (evalPolyInt cs x)) indices) =
    Some (g1_smul G p (evalPolyInt cs 0))"
proof -
  let ?pts = "map (\<lambda>x. g1_smul G p (evalPolyInt cs x)) indices"
  let ?ls = "map (lam_list indices) indices :: 'f list"
  have ls: "cvLagrangeCoefficientsAtZero indices = Some ?ls" using cvLagrange_Some h by blast
  have "zip ?pts ?ls = map (\<lambda>(a, c). (g1_smul G p a, c)) (zip (map (evalPolyInt cs) indices) ?ls)"
    by (simp add: zip_map_map zip_same_conv_map)
  then have "g1_lincomb G (zip ?pts ?ls) = g1_smul G p (evalPolyInt cs 0)"
    using g1_lincomb_smul [OF G p] interpolation_scalars [OF h ls] by simp
  moreover have "cvG1LinearCombination G ?pts ?ls = Some (g1_lincomb G (zip ?pts ?ls))"
    by (rule cvG1LinearCombination_eq [OF G]) (use h g1_lawsD(3) [OF G p] in \<open>auto simp: list_all_iff\<close>)
  ultimately show ?thesis using h ls by (simp add: cvInterpolateG1AtZero_def)
qed

end
