(* ===== verification/Signer.thy ===== *)
theory Signer
  imports Interpolation
begin

text \<open>
  The threshold BLS signer of \<^verbatim>\<open>src/core/crypto_runtime.go\<close> and the role constants of
  \<^verbatim>\<open>src/core/cv_sapvss_v2_lock_keys.go\<close>.  The operations of gnark-crypto are the fields of the
  record \<open>bls\<close>, an argument of every definition that uses them; \<open>bls_laws\<close> states what the
  library documents (a prime-order group, a bilinear non-degenerate pairing, point encodings that
  decode to the point encoded).  The main result is that the shares of any sufficiently large set
  of distinct members recover one and the same signature, and that this signature verifies.
\<close>

section \<open>The library's operations\<close>

record ('g, 'h, 'f) bls = "('g, 'f) g1_ops" +
  bls_HashToG1 :: "bytes \<Rightarrow> bytes \<Rightarrow> 'g option"
  bls_Marshal :: "'g \<Rightarrow> bytes"
  bls_Unmarshal :: "bytes \<Rightarrow> 'g option"
  bls_Bytes :: "'g \<Rightarrow> bytes"
  bls_SetBytes :: "bytes \<Rightarrow> 'g \<times> nat option"
  bls_genG1 :: 'g
  bls_genG2 :: 'h
  bls_NegG2 :: "'h \<Rightarrow> 'h"
  bls_AddG2 :: "'h \<Rightarrow> 'h \<Rightarrow> 'h"
  bls_SmulG2 :: "'h \<Rightarrow> 'f \<Rightarrow> 'h"
  bls_G2IsInfinity :: "'h \<Rightarrow> bool"
  bls_G2IsOnCurve :: "'h \<Rightarrow> bool"
  bls_G2IsInSubGroup :: "'h \<Rightarrow> bool"
  bls_G2Bytes :: "'h \<Rightarrow> bytes"
  bls_PairingCheck :: "'g list \<Rightarrow> 'h list \<Rightarrow> bool option"
  bls_JointBase :: "'g \<Rightarrow> 'f \<Rightarrow> 'f \<Rightarrow> 'g"
  bls_JointTimes :: "'g \<Rightarrow> 'g \<Rightarrow> 'f \<Rightarrow> 'f \<Rightarrow> 'g"
  bls_BatchTimes :: "'g \<Rightarrow> 'f list \<Rightarrow> 'g list"
  bls_Neg :: "'g \<Rightarrow> 'g"
  bls_Sub :: "'g \<Rightarrow> 'g \<Rightarrow> 'g"
  fr_BigInt :: "'f \<Rightarrow> nat"
  fr_Modulus :: nat
  fr_Bytes :: "'f \<Rightarrow> bytes"
  fr_SetBytesCanonical :: "bytes \<Rightarrow> 'f option"
  fr_Hash :: "bytes \<Rightarrow> bytes \<Rightarrow> 'f option"

definition SizeOfG1AffineCompressed :: nat where
  "SizeOfG1AffineCompressed = 48"

text \<open>\<open>bls_SetBytes\<close> returns the receiver after the call and the number of bytes consumed, or
  \<open>None\<close> for the error.\<close>

definition bls_laws :: "('g, 'h, 'f::field) bls \<Rightarrow> bool" where
  "bls_laws B \<longleftrightarrow>
     g1_laws B \<and> g1_in B (bls_genG1 B) \<and>
     (\<forall>m d h. bls_HashToG1 B m d = Some h \<longrightarrow> g1_in B h \<and> \<not> g1_IsInfinity B h) \<and>
     (\<forall>p. g1_in B p \<longrightarrow> bls_Unmarshal B (bls_Marshal B p) = Some p) \<and>
     (\<forall>w p. bls_Unmarshal B w = Some p \<longrightarrow> g1_in B p) \<and>
     (\<forall>p. length (bls_Bytes B p) = SizeOfG1AffineCompressed) \<and>
     (\<forall>p. g1_in B p \<longrightarrow> bls_SetBytes B (bls_Bytes B p) = (p, Some SizeOfG1AffineCompressed)) \<and>
     (\<forall>w p n. bls_SetBytes B w = (p, Some n) \<longrightarrow> g1_in B p) \<and>
     (\<forall>a b. bls_AddG2 B (bls_SmulG2 B (bls_genG2 B) a) (bls_SmulG2 B (bls_genG2 B) b) =
        bls_SmulG2 B (bls_genG2 B) (a + b)) \<and>
     (\<forall>a. bls_G2IsInfinity B (bls_SmulG2 B (bls_genG2 B) a) \<longleftrightarrow> a = 0) \<and>
     (\<forall>a. bls_G2IsOnCurve B (bls_SmulG2 B (bls_genG2 B) a) \<and>
        bls_G2IsInSubGroup B (bls_SmulG2 B (bls_genG2 B) a)) \<and>
     (\<forall>p a b. g1_in B p \<longrightarrow>
        bls_JointBase B p a b = g1_add B (g1_smul B (bls_genG1 B) a) (g1_smul B p b)) \<and>
     (\<forall>x. length (fr_Bytes B x) = 32 \<and> fr_SetBytesCanonical B (fr_Bytes B x) = Some x) \<and>
     (\<forall>s h x. g1_in B s \<longrightarrow> g1_in B h \<longrightarrow>
        bls_PairingCheck B [s, h] [bls_genG2 B, bls_NegG2 B (bls_SmulG2 B (bls_genG2 B) x)] =
          Some (s = g1_smul B h x))"

definition cvValidG1 :: "('g, 'h, 'f) bls \<Rightarrow> 'g \<Rightarrow> bool \<Rightarrow> bool" where
  "cvValidG1 B point allowInfinity \<longleftrightarrow>
     g1_IsOnCurve B point \<and> g1_IsInSubGroup B point \<and> (allowInfinity \<or> \<not> g1_IsInfinity B point)"

definition cvValidG2 :: "('g, 'h, 'f) bls \<Rightarrow> 'h \<Rightarrow> bool" where
  "cvValidG2 B point \<longleftrightarrow>
     bls_G2IsOnCurve B point \<and> bls_G2IsInSubGroup B point \<and> \<not> bls_G2IsInfinity B point"

section \<open>Roles\<close>

definition cvV2RoleAPDB :: string where
  "cvV2RoleAPDB = ''apdb''"

definition cvV2RoleControl :: string where
  "cvV2RoleControl = ''control''"

definition cvV2RoleCoin :: string where
  "cvV2RoleCoin = ''coin''"

definition cvV2KnownThresholdRole :: "string \<Rightarrow> bool" where
  "cvV2KnownThresholdRole role \<longleftrightarrow>
     role = cvV2RoleAPDB \<or> role = cvV2RoleControl \<or> role = cvV2RoleCoin"

section \<open>The signer\<close>

record ('g, 'h, 'f) tblsThresholdSigner =
  ts_t :: int
  ts_n :: int
  ts_v2Role :: string
  ts_pubKey :: 'h
  ts_pubKeyShares :: "'h list"
  ts_transportPubKeyShares :: "'g list"
  ts_shares :: "'f list"
  ts_memberOrder :: "int list"
  ts_memberIndex :: "int \<rightharpoonup> nat"
  ts_signingMembers :: "int set option"

definition cvV2SignerHasRole :: "('g, 'h, 'f) tblsThresholdSigner \<Rightarrow> string \<Rightarrow> bool" where
  "cvV2SignerHasRole signer role \<longleftrightarrow> cvV2KnownThresholdRole role \<and> ts_v2Role signer = role"

text \<open>\<^verbatim>\<open>for i, id := range order { memberIndex[id] = i }\<close>.\<close>

definition member_index :: "int list \<Rightarrow> int \<rightharpoonup> nat" where
  "member_index order = map_of (rev (zip order [0..<length order]))"

text \<open>The share loop of \<^verbatim>\<open>newTBLSThresholdSigner\<close>: powers of the point, lowest coefficient first.\<close>

fun share_loop :: "'f::field list \<Rightarrow> 'f \<Rightarrow> 'f \<Rightarrow> 'f \<Rightarrow> 'f" where
  "share_loop [] x xPow acc = acc"
| "share_loop (c # coeffs) x xPow acc = share_loop coeffs x (xPow * x) (acc + c * xPow)"

text \<open>\<open>stream k\<close> is byte \<open>k\<close> of the key stream; \<^verbatim>\<open>SetBytes\<close> reads 32 bytes big-endian into the field.\<close>

definition newTBLSThresholdSigner ::
  "('g, 'h, 'f::field) bls \<Rightarrow> int list \<Rightarrow> int \<Rightarrow> (nat \<Rightarrow> byte) \<Rightarrow>
   ('g, 'h, 'f) tblsThresholdSigner option" where
  "newTBLSThresholdSigner B members threshold stream = do {
     require (members \<noteq> []);
     require (\<not> (threshold \<le> 0 \<or> threshold > int (length members)));
     let n = length members;
     let coeffs = map (\<lambda>j. of_nat (get_be (map stream [32 * j..<32 * j + 32]))) [0..<nat threshold];
     let shares = map (\<lambda>i. share_loop coeffs (of_int (int i + 1)) 1 0) [0..<n];
     let memberOrder = sortedCopy members;
     Some \<lparr> ts_t = threshold, ts_n = int n, ts_v2Role = [],
            ts_pubKey = bls_SmulG2 B (bls_genG2 B) (coeffs ! 0),
            ts_pubKeyShares = map (bls_SmulG2 B (bls_genG2 B)) shares,
            ts_transportPubKeyShares = map (g1_smul B (bls_genG1 B)) shares,
            ts_shares = shares, ts_memberOrder = memberOrder,
            ts_memberIndex = member_index memberOrder, ts_signingMembers = None \<rparr>
   }"

record ('g, 'h, 'f) cvV2ThresholdKeyMaterial =
  km_role :: string
  km_threshold :: int
  km_members :: "int list"
  km_groupPublic :: 'h
  km_publicShares :: "'h list"
  km_transportPublicShares :: "'g list"
  km_localShares :: "(int \<times> 'f) list"

definition newTBLSThresholdSignerFromV2Material ::
  "('g, 'h, 'f::field) cvV2ThresholdKeyMaterial \<Rightarrow> ('g, 'h, 'f) tblsThresholdSigner option" where
  "newTBLSThresholdSignerFromV2Material material = do {
     require (\<not> (\<not> cvV2KnownThresholdRole (km_role material) \<or> km_threshold material \<le> 0 \<or>
       km_threshold material > int (length (km_members material)) \<or>
       length (km_publicShares material) \<noteq> length (km_members material) \<or>
       length (km_transportPublicShares material) \<noteq> length (km_members material) \<or>
       km_localShares material = []));
     Some \<lparr> ts_t = km_threshold material, ts_n = int (length (km_members material)),
            ts_v2Role = km_role material, ts_pubKey = km_groupPublic material,
            ts_pubKeyShares = km_publicShares material,
            ts_transportPubKeyShares = km_transportPublicShares material,
            ts_shares = map (\<lambda>m. case map_of (km_localShares material) m of Some x \<Rightarrow> x | None \<Rightarrow> 0)
              (km_members material),
            ts_memberOrder = km_members material,
            ts_memberIndex = member_index (km_members material),
            ts_signingMembers = Some (nodeSet (map fst (km_localShares material))) \<rparr>
   }"

definition restrictSigningTo ::
  "('g, 'h, 'f) tblsThresholdSigner \<Rightarrow> int list \<Rightarrow> ('g, 'h, 'f) tblsThresholdSigner" where
  "restrictSigningTo s members = s\<lparr> ts_signingMembers := Some (nodeSet members) \<rparr>"

text \<open>\<^verbatim>\<open>strings.ToUpper\<close> on the ASCII domain names of the program.\<close>

definition toUpper :: "string \<Rightarrow> string" where
  "toUpper s = map (\<lambda>c. if 97 \<le> (of_char c :: nat) \<and> (of_char c :: nat) \<le> 122
     then char_of ((of_char c :: nat) - 32) else c) s"

definition domainDigest :: "string \<Rightarrow> bytes \<Rightarrow> bytes" where
  "domainDigest domain digest =
     hashBytes [str_bytes ''rladkr-domain'', str_bytes (toUpper domain), digest]"

definition SignShare ::
  "('g, 'h, 'f) bls \<Rightarrow> ('g, 'h, 'f) tblsThresholdSigner \<Rightarrow> int \<Rightarrow> string \<Rightarrow> bytes \<Rightarrow> bytes option" where
  "SignShare B s member domain digest = do {
     idx \<leftarrow> ts_memberIndex s member;
     require (case ts_signingMembers s of None \<Rightarrow> True | Some ms \<Rightarrow> member \<in> ms);
     let msg = domainDigest domain digest;
     h \<leftarrow> bls_HashToG1 B msg (str_bytes domain);
     require (idx < length (ts_shares s));
     Some (bls_Marshal B (g1_smul B h (ts_shares s ! idx)))
   }"

text \<open>\<^verbatim>\<open>ok, _ = PairingCheck(...)\<close>: the error is dropped, and the result is then \<^verbatim>\<open>false\<close>.\<close>

definition pairing_ok :: "('g, 'h, 'f) bls \<Rightarrow> 'g \<Rightarrow> 'g \<Rightarrow> 'h \<Rightarrow> bool" where
  "pairing_ok B sig h pk = (bls_PairingCheck B [sig, h] [bls_genG2 B, bls_NegG2 B pk] = Some True)"

definition VerifyShare ::
  "('g, 'h, 'f) bls \<Rightarrow> ('g, 'h, 'f) tblsThresholdSigner \<Rightarrow> int \<Rightarrow> string \<Rightarrow> bytes \<Rightarrow> bytes \<Rightarrow> bool" where
  "VerifyShare B s member domain digest sigBytes \<longleftrightarrow> (do {
     idx \<leftarrow> ts_memberIndex s member;
     require (idx < length (ts_pubKeyShares s));
     sig \<leftarrow> bls_Unmarshal B sigBytes;
     h \<leftarrow> bls_HashToG1 B (domainDigest domain digest) (str_bytes domain);
     require (pairing_ok B sig h (ts_pubKeyShares s ! idx))
   }) = Some ()"

definition index_or_zero :: "('g, 'h, 'f) tblsThresholdSigner \<Rightarrow> int \<Rightarrow> nat" where
  "index_or_zero s member = (case ts_memberIndex s member of Some i \<Rightarrow> i | None \<Rightarrow> 0)"

definition recover_coeff :: "int list \<Rightarrow> int \<Rightarrow> 'f::field" where
  "recover_coeff ids id1 =
     foldl (\<lambda>c id2. if id1 = id2 then c else c * (of_int id2 * inverse (of_int (id2 - id1)))) 1 ids"

fun recover_loop :: "('g, 'h, 'f) bls \<Rightarrow> 'g \<Rightarrow> (bytes \<times> 'f) list \<Rightarrow> 'g option" where
  "recover_loop B recovered [] = Some recovered"
| "recover_loop B recovered ((wire, coeff) # rest) = do {
     sig \<leftarrow> bls_Unmarshal B wire;
     recover_loop B (g1_add B recovered (g1_smul B sig coeff)) rest
   }"

definition Recover ::
  "('g, 'h, 'f::field) bls \<Rightarrow> ('g, 'h, 'f) tblsThresholdSigner \<Rightarrow> string \<Rightarrow> bytes \<Rightarrow>
   (int \<times> bytes) list \<Rightarrow> bytes option" where
  "Recover B s domain digest sharesMap = do {
     require (\<not> int (length sharesMap) < ts_t s);
     let memberIDs = sort_key (index_or_zero s) (map fst sharesMap);
     let ids = map (\<lambda>mid. int (index_or_zero s mid) + 1) memberIDs;
     let coeffs = map (recover_coeff ids) ids;
     let wires = map (\<lambda>mid. the (map_of sharesMap mid)) memberIDs;
     recovered \<leftarrow> recover_loop B (g1_smul B (bls_genG1 B) 0) (zip wires coeffs);
     Some (bls_Marshal B recovered)
   }"

definition VerifyRecovered ::
  "('g, 'h, 'f) bls \<Rightarrow> ('g, 'h, 'f) tblsThresholdSigner \<Rightarrow> string \<Rightarrow> bytes \<Rightarrow> bytes \<Rightarrow> bool" where
  "VerifyRecovered B s domain digest sigBytes \<longleftrightarrow> (do {
     sig \<leftarrow> bls_Unmarshal B sigBytes;
     h \<leftarrow> bls_HashToG1 B (domainDigest domain digest) (str_bytes domain);
     require (pairing_ok B sig h (ts_pubKey s))
   }) = Some ()"

section \<open>Routing MVBA domains to the two signers\<close>

record ('g, 'h, 'f) mvbaDomainSigner =
  ms_member :: int
  ms_high :: "('g, 'h, 'f) tblsThresholdSigner option"
  ms_low :: "('g, 'h, 'f) tblsThresholdSigner option"

definition signerForDomain ::
  "('g, 'h, 'f) mvbaDomainSigner \<Rightarrow> string \<Rightarrow> ('g, 'h, 'f) tblsThresholdSigner option" where
  "signerForDomain s domain =
     (let d = toUpper domain in
      if d = ''PD_STORED'' \<or> d = ''PD_LOCKED'' \<or> d = ''ACS_DIFFUSE'' then ms_high s
      else if d = ''PD_QUIT_READY'' \<or> d = ''EQ_COIN_SHARE'' then ms_low s
      else None)"

definition mvbaSign :: "('g, 'h, 'f) bls \<Rightarrow> ('g, 'h, 'f) mvbaDomainSigner \<Rightarrow> string \<Rightarrow> bytes \<Rightarrow> bytes option" where
  "mvbaSign B s domain digest = do {
     signer \<leftarrow> signerForDomain s domain;
     SignShare B signer (ms_member s) domain digest
   }"

definition mvbaVerify ::
  "('g, 'h, 'f) bls \<Rightarrow> ('g, 'h, 'f) mvbaDomainSigner \<Rightarrow> int \<Rightarrow> string \<Rightarrow> bytes \<Rightarrow> bytes \<Rightarrow> bool" where
  "mvbaVerify B s sender domain digest signature =
     (case signerForDomain s domain of None \<Rightarrow> False
      | Some signer \<Rightarrow> VerifyShare B signer sender domain digest signature)"

definition mvbaThreshold :: "('g, 'h, 'f) mvbaDomainSigner \<Rightarrow> string \<Rightarrow> int" where
  "mvbaThreshold s domain = (case signerForDomain s domain of None \<Rightarrow> 0 | Some signer \<Rightarrow> ts_t signer)"

definition mvbaRecover ::
  "('g, 'h, 'f::field) bls \<Rightarrow> ('g, 'h, 'f) mvbaDomainSigner \<Rightarrow> string \<Rightarrow> bytes \<Rightarrow> (int \<times> bytes) list \<Rightarrow>
   bytes option" where
  "mvbaRecover B s domain digest shares = do {
     signer \<leftarrow> signerForDomain s domain;
     Recover B signer domain digest shares
   }"

definition mvbaVerifyRecovered ::
  "('g, 'h, 'f) bls \<Rightarrow> ('g, 'h, 'f) mvbaDomainSigner \<Rightarrow> string \<Rightarrow> bytes \<Rightarrow> bytes \<Rightarrow> bool" where
  "mvbaVerifyRecovered B s domain digest signature =
     (case signerForDomain s domain of None \<Rightarrow> False
      | Some signer \<Rightarrow> VerifyRecovered B signer domain digest signature)"

section \<open>Facts about the key material\<close>

lemma share_loop_sum:
  "share_loop cs x p a = a + p * (\<Sum>k < length cs. cs ! k * (x :: 'f::field) ^ k)"
proof (induction cs arbitrary: p a)
  case (Cons c cs)
  have "(\<Sum>k < length (c # cs). (c # cs) ! k * x ^ k) = c + x * (\<Sum>k < length cs. cs ! k * x ^ k)"
    by (simp add: sum.lessThan_Suc_shift sum_distrib_left mult_ac del: sum.lessThan_Suc)
  then show ?case using Cons.IH by (simp add: algebra_simps)
qed simp

text \<open>The share loop computes the same polynomial as the Horner scheme \<open>evalPolyInt\<close>.\<close>

lemma share_loop_eval: "share_loop cs (of_int x) 1 0 = evalPolyInt cs x"
  by (simp add: share_loop_sum evalPolyInt_sum)

lemma member_index_Some:
  assumes "member_index order m = Some i"
  shows "i < length order" and "order ! i = m"
  using map_of_SomeD [OF assms [unfolded member_index_def]] by (auto simp: set_zip)

lemma member_index_nth:
  assumes "distinct order" "i < length order"
  shows "member_index order (order ! i) = Some i"
proof -
  have "distinct (map fst (rev (zip order [0..<length order])))" using assms by (simp add: rev_map [symmetric])
  moreover have "(order ! i, i) \<in> set (rev (zip order [0..<length order]))"
    using assms by (auto simp: set_zip)
  ultimately show ?thesis by (simp add: member_index_def)
qed

lemma dom_member_index: "member_index order m \<noteq> None \<longleftrightarrow> m \<in> set order"
proof -
  have "map fst (zip order [0..<length order]) = order" by simp
  then have "fst ` set (zip order [0..<length order]) = set order" by (metis list.set_map)
  then show ?thesis by (simp add: member_index_def map_of_eq_None_iff)
qed

text \<open>The public side of a signer whose keys are shares of the polynomial \<open>cs\<close>.\<close>

definition dealt :: "('g, 'h, 'f::field) bls \<Rightarrow> ('g, 'h, 'f) tblsThresholdSigner \<Rightarrow> 'f list \<Rightarrow> bool" where
  "dealt B s cs \<longleftrightarrow>
     distinct (ts_memberOrder s) \<and> ts_memberIndex s = member_index (ts_memberOrder s) \<and>
     ts_pubKeyShares s = map (\<lambda>i. bls_SmulG2 B (bls_genG2 B) (evalPolyInt cs (int i + 1)))
       [0..<length (ts_memberOrder s)] \<and>
     ts_pubKey s = bls_SmulG2 B (bls_genG2 B) (evalPolyInt cs 0) \<and>
     0 < ts_t s \<and> int (length cs) \<le> ts_t s"

lemma newTBLSThresholdSigner_dealt:
  fixes B :: "('g, 'h, 'f::field) bls"
  assumes "newTBLSThresholdSigner B members threshold stream = Some s" "distinct members"
  shows "\<exists>cs. dealt B s cs \<and> ts_memberOrder s = sort members \<and> ts_signingMembers s = None \<and>
    ts_shares s = map (\<lambda>i. evalPolyInt cs (int i + 1)) [0..<length members]"
proof -
  define cs :: "'f list" where
    "cs = map (\<lambda>j. of_nat (get_be (map stream [32 * j..<32 * j + 32]))) [0..<nat threshold]"
  have t: "0 < threshold" using assms(1) by (auto simp: newTBLSThresholdSigner_def split: if_splits)
  then have "cs \<noteq> []" by (simp add: cs_def)
  then have zero: "evalPolyInt cs 0 = cs ! 0" by (simp add: evalPolyInt_zero split: list.splits)
  have share: "share_loop cs (of_int (int i + 1)) 1 0 = evalPolyInt cs (int i + 1)" for i
    by (rule share_loop_eval)
  have "dealt B s cs \<and> ts_memberOrder s = sort members \<and> ts_signingMembers s = None \<and>
    ts_shares s = map (\<lambda>i. evalPolyInt cs (int i + 1)) [0..<length members]"
    using assms t zero
    by (auto simp: newTBLSThresholdSigner_def dealt_def sortedCopy_def Let_def cs_def [symmetric] share
        simp del: of_int_add split: if_splits) (simp add: cs_def)
  then show ?thesis by blast
qed

section \<open>Verification of one share\<close>

lemma bls_lawsD:
  assumes "bls_laws B"
  shows "g1_laws B"
    and "bls_HashToG1 B m d = Some h \<Longrightarrow> g1_in B h \<and> \<not> g1_IsInfinity B h"
    and "g1_in B p \<Longrightarrow> bls_Unmarshal B (bls_Marshal B p) = Some p"
    and "bls_Unmarshal B w = Some p \<Longrightarrow> g1_in B p"
    and "length (bls_Bytes B p) = SizeOfG1AffineCompressed"
    and "g1_in B p \<Longrightarrow> bls_SetBytes B (bls_Bytes B p) = (p, Some SizeOfG1AffineCompressed)"
    and "bls_SetBytes B w = (p, Some n) \<Longrightarrow> g1_in B p"
    and "g1_in B q \<Longrightarrow> g1_in B p \<Longrightarrow> pairing_ok B q p (bls_SmulG2 B (bls_genG2 B) x) \<longleftrightarrow> q = g1_smul B p x"
    and "g1_in B p \<Longrightarrow> g1_in B (g1_smul B p x)"
    and "g1_in B (bls_genG1 B)"
    and "g1_in B p \<Longrightarrow> bls_JointBase B p a b = g1_add B (g1_smul B (bls_genG1 B) a) (g1_smul B p b)"
    and "length (fr_Bytes B s) = 32 \<and> fr_SetBytesCanonical B (fr_Bytes B s) = Some s"
proof -
  note laws = assms [unfolded bls_laws_def]
  show "g1_laws B" by (insert laws, elim conjE, assumption)
  then show "g1_in B p \<Longrightarrow> g1_in B (g1_smul B p x)" by (rule g1_lawsD(3))
  show "g1_in B (bls_genG1 B)" by (insert laws, elim conjE, assumption)
  have "\<forall>m d h. bls_HashToG1 B m d = Some h \<longrightarrow> g1_in B h \<and> \<not> g1_IsInfinity B h"
    by (insert laws, elim conjE, assumption)
  then show "bls_HashToG1 B m d = Some h \<Longrightarrow> g1_in B h \<and> \<not> g1_IsInfinity B h" by blast
  have "\<forall>p. g1_in B p \<longrightarrow> bls_Unmarshal B (bls_Marshal B p) = Some p" by (insert laws, elim conjE, assumption)
  then show "g1_in B p \<Longrightarrow> bls_Unmarshal B (bls_Marshal B p) = Some p" by blast
  have "\<forall>w p. bls_Unmarshal B w = Some p \<longrightarrow> g1_in B p" by (insert laws, elim conjE, assumption)
  then show "bls_Unmarshal B w = Some p \<Longrightarrow> g1_in B p" by blast
  have "\<forall>p. length (bls_Bytes B p) = SizeOfG1AffineCompressed" by (insert laws, elim conjE, assumption)
  then show "length (bls_Bytes B p) = SizeOfG1AffineCompressed" ..
  have "\<forall>p. g1_in B p \<longrightarrow> bls_SetBytes B (bls_Bytes B p) = (p, Some SizeOfG1AffineCompressed)"
    by (insert laws, elim conjE, assumption)
  then show "g1_in B p \<Longrightarrow> bls_SetBytes B (bls_Bytes B p) = (p, Some SizeOfG1AffineCompressed)" by blast
  have "\<forall>w p n. bls_SetBytes B w = (p, Some n) \<longrightarrow> g1_in B p" by (insert laws, elim conjE, assumption)
  then show "bls_SetBytes B w = (p, Some n) \<Longrightarrow> g1_in B p" by blast
  have "\<forall>p a b. g1_in B p \<longrightarrow>
      bls_JointBase B p a b = g1_add B (g1_smul B (bls_genG1 B) a) (g1_smul B p b)"
    by (insert laws, elim conjE, assumption)
  then show "g1_in B p \<Longrightarrow> bls_JointBase B p a b = g1_add B (g1_smul B (bls_genG1 B) a) (g1_smul B p b)"
    by simp
  have "\<forall>x. length (fr_Bytes B x) = 32 \<and> fr_SetBytesCanonical B (fr_Bytes B x) = Some x"
    by (insert laws, elim conjE, assumption)
  then show "length (fr_Bytes B s) = 32 \<and> fr_SetBytesCanonical B (fr_Bytes B s) = Some s" ..
  have "\<forall>s h x. g1_in B s \<longrightarrow> g1_in B h \<longrightarrow>
      bls_PairingCheck B [s, h] [bls_genG2 B, bls_NegG2 B (bls_SmulG2 B (bls_genG2 B) x)] =
        Some (s = g1_smul B h x)" by (insert laws, elim conjE, assumption)
  then show "g1_in B q \<Longrightarrow> g1_in B p \<Longrightarrow> pairing_ok B q p (bls_SmulG2 B (bls_genG2 B) x) \<longleftrightarrow> q = g1_smul B p x"
    by (simp add: pairing_ok_def)
qed

lemma bls_g2D:
  assumes "bls_laws B"
  shows "bls_AddG2 B (bls_SmulG2 B (bls_genG2 B) a) (bls_SmulG2 B (bls_genG2 B) b) =
      bls_SmulG2 B (bls_genG2 B) (a + b)"
    and "bls_G2IsInfinity B (bls_SmulG2 B (bls_genG2 B) a) \<longleftrightarrow> a = 0"
    and "cvValidG2 B (bls_SmulG2 B (bls_genG2 B) a) \<longleftrightarrow> a \<noteq> 0"
proof -
  note laws = assms [unfolded bls_laws_def]
  have "\<forall>a b. bls_AddG2 B (bls_SmulG2 B (bls_genG2 B) a) (bls_SmulG2 B (bls_genG2 B) b) =
      bls_SmulG2 B (bls_genG2 B) (a + b)" by (insert laws, elim conjE, assumption)
  then show "bls_AddG2 B (bls_SmulG2 B (bls_genG2 B) a) (bls_SmulG2 B (bls_genG2 B) b) =
      bls_SmulG2 B (bls_genG2 B) (a + b)" by simp
  have inf: "\<forall>a. bls_G2IsInfinity B (bls_SmulG2 B (bls_genG2 B) a) \<longleftrightarrow> a = 0"
    by (insert laws, elim conjE, assumption)
  then show "bls_G2IsInfinity B (bls_SmulG2 B (bls_genG2 B) a) \<longleftrightarrow> a = 0" by simp
  have "\<forall>a. bls_G2IsOnCurve B (bls_SmulG2 B (bls_genG2 B) a) \<and>
      bls_G2IsInSubGroup B (bls_SmulG2 B (bls_genG2 B) a)" by (insert laws, elim conjE, assumption)
  with inf show "cvValidG2 B (bls_SmulG2 B (bls_genG2 B) a) \<longleftrightarrow> a \<noteq> 0" by (simp add: cvValidG2_def)
qed

lemma VerifyShare_iff:
  assumes B: "bls_laws B" and s: "dealt B s cs"
  shows "VerifyShare B s member domain digest w \<longleftrightarrow>
    (\<exists>i h p. ts_memberIndex s member = Some i \<and>
       bls_HashToG1 B (domainDigest domain digest) (str_bytes domain) = Some h \<and>
       bls_Unmarshal B w = Some p \<and> p = g1_smul B h (evalPolyInt cs (int i + 1)))"
proof -
  have pk: "i < length (ts_memberOrder s) \<and>
      ts_pubKeyShares s ! i = bls_SmulG2 B (bls_genG2 B) (evalPolyInt cs (int i + 1)) \<and>
      length (ts_pubKeyShares s) = length (ts_memberOrder s)"
    if "ts_memberIndex s member = Some i" for i
    using that s member_index_Some(1) [of "ts_memberOrder s" member i] by (auto simp: dealt_def)
  have pair: "pairing_ok B p h (bls_SmulG2 B (bls_genG2 B) x) \<longleftrightarrow> p = g1_smul B h x"
    if "bls_Unmarshal B w = Some p" "bls_HashToG1 B m d = Some h" for p h m d x
    using bls_lawsD [OF B] that by metis
  show ?thesis
    using pk pair by (fastforce simp: VerifyShare_def bind_eq_Some_conv)
qed

section \<open>Recovery from shares\<close>

lemma recover_coeff_prod:
  "foldl (\<lambda>c id2. if id1 = id2 then c else c * (of_int id2 * inverse (of_int (id2 - id1)))) c0 ids =
     c0 * (\<Prod>id2 \<leftarrow> filter (\<lambda>x. x \<noteq> id1) ids. of_int id2 / (of_int id2 - (of_int id1 :: 'f::field)))"
  by (induction ids arbitrary: c0) (auto simp: divide_inverse mult_ac)

lemma recover_coeff_lam:
  assumes d: "distinct ids" and inj: "inj_on (of_int :: int \<Rightarrow> 'f::field) (set ids)" and m: "x \<in> set ids"
  shows "(recover_coeff ids x :: 'f) = lam_list ids x"
proof -
  have "(\<Prod>y \<leftarrow> filter (\<lambda>y. y \<noteq> x) ids. of_int y / (of_int y - (of_int x :: 'f))) =
      (\<Prod>y \<in> set ids - {x}. of_int y / (of_int y - (of_int x :: 'f)))"
    using d by (subst prod.distinct_set_conv_list [symmetric]) (auto intro: prod.cong)
  also have "\<dots> = (\<Prod>z \<in> of_int ` (set ids - {x}). z / (z - (of_int x :: 'f)))"
    using inj by (subst prod.reindex) (auto intro: inj_on_subset)
  also have "of_int ` (set ids - {x}) = (of_int ` set ids - {of_int x} :: 'f set)"
    using inj_on_image_set_diff [OF inj, of "set ids" "{x}"] m by auto
  finally show ?thesis by (simp add: recover_coeff_def recover_coeff_prod lam_list_def lam_def)
qed

lemma recover_loop_smul:
  assumes G: "g1_laws B" and h: "g1_in B h"
    and w: "\<forall>x \<in> set xs. bls_Unmarshal B (w x) = Some (g1_smul B h (a x))"
  shows "recover_loop B (g1_smul B h b) (map (\<lambda>x. (w x, c x)) xs) =
    Some (g1_smul B h (b + (\<Sum>x \<leftarrow> xs. a x * c x)))"
  using w
proof (induction xs arbitrary: b)
  case (Cons x xs)
  have "g1_add B (g1_smul B h b) (g1_smul B (g1_smul B h (a x)) (c x)) = g1_smul B h (b + a x * c x)"
    using h by (simp add: g1_lawsD [OF G])
  then show ?case using Cons by (simp add: add.assoc)
qed simp

lemma index_inj:
  assumes "dealt B s cs" "set ms \<subseteq> set (ts_memberOrder s)"
  shows "inj_on (\<lambda>m. int (index_or_zero s m) + 1) (set ms)"
    and "\<And>m. m \<in> set ms \<Longrightarrow> int (index_or_zero s m) + 1 \<in> {1..int (length (ts_memberOrder s))}"
proof -
  have idx: "\<exists>i. ts_memberIndex s m = Some i \<and> index_or_zero s m = i \<and>
      i < length (ts_memberOrder s) \<and> ts_memberOrder s ! i = m" if "m \<in> set ms" for m
    using that assms dom_member_index [of "ts_memberOrder s" m] member_index_Some [of "ts_memberOrder s" m]
    by (auto simp: dealt_def index_or_zero_def)
  show "inj_on (\<lambda>m. int (index_or_zero s m) + 1) (set ms)"
    by (rule inj_onI) (metis (no_types, lifting) add_right_cancel idx of_nat_eq_iff)
  show "int (index_or_zero s m) + 1 \<in> {1..int (length (ts_memberOrder s))}" if "m \<in> set ms" for m
    using idx [OF that] by auto
qed

text \<open>Shares that verify recover the signature of the dealt secret, whichever members sent them.\<close>

lemma Recover_dealt:
  fixes B :: "('g, 'h, 'f::field) bls"
  assumes B: "bls_laws B" and s: "dealt B s cs"
    and inj: "inj_on (of_int :: int \<Rightarrow> 'f) {1..int (length (ts_memberOrder s))}"
    and h: "bls_HashToG1 B (domainDigest domain digest) (str_bytes domain) = Some h"
    and enough: "ts_t s \<le> int (length shares)" and d: "distinct (map fst shares)"
    and ok: "\<forall>(m, w) \<in> set shares. VerifyShare B s m domain digest w"
  shows "Recover B s domain digest shares = Some (bls_Marshal B (g1_smul B h (evalPolyInt cs 0)))"
proof -
  define ms where "ms = sort_key (index_or_zero s) (map fst shares)"
  define f where "f = (\<lambda>m. int (index_or_zero s m) + 1)"
  define w where "w = (\<lambda>m. the (map_of shares m))"
  have keys: "set ms = fst ` set shares" "distinct ms" "length ms = length shares"
    using d by (simp_all add: ms_def)
  have share: "ts_memberIndex s m \<noteq> None \<and> bls_Unmarshal B (w m) = Some (g1_smul B h (evalPolyInt cs (f m)))"
    if "m \<in> set ms" for m
  proof -
    from that keys obtain wire where mem: "(m, wire) \<in> set shares" by auto
    then have "w m = wire" using d by (simp add: w_def)
    moreover have "VerifyShare B s m domain digest wire" using ok mem by auto
    ultimately show ?thesis using VerifyShare_iff [OF B s] h by (auto simp: f_def index_or_zero_def)
  qed
  have sub: "set ms \<subseteq> set (ts_memberOrder s)"
    using share s dom_member_index by (fastforce simp: dealt_def)
  let ?ids = "map f ms"
  have dids: "distinct ?ids" using index_inj(1) [OF s sub] keys(2) by (simp add: distinct_map f_def)
  have ids_in: "set ?ids \<subseteq> {1..int (length (ts_memberOrder s))}"
    using index_inj(2) [OF s sub] by (auto simp: f_def)
  have inj': "inj_on (of_int :: int \<Rightarrow> 'f) (set ?ids)" using inj ids_in by (rule inj_on_subset)
  have len: "length cs \<le> length ?ids" "?ids \<noteq> []" using s enough keys(3) by (auto simp: dealt_def)
  have "(\<Sum>m \<leftarrow> ms. evalPolyInt cs (f m) * recover_coeff ?ids (f m)) =
      (\<Sum>x \<leftarrow> ?ids. lam_list ?ids x * evalPolyInt cs x)"
    using recover_coeff_lam [OF dids inj'] by (simp add: comp_def mult.commute cong: map_cong)
  also have "\<dots> = evalPolyInt cs 0" by (rule lam_list_sum [OF inj' len(2) dids len(1)])
  finally have sum: "(\<Sum>m \<leftarrow> ms. evalPolyInt cs (f m) * recover_coeff ?ids (f m)) = evalPolyInt cs 0" .
  have g: "g1_laws B" "g1_in B h" using bls_lawsD(1,2) [OF B] h by auto
  have start: "g1_smul B (bls_genG1 B) 0 = g1_smul B h 0"
    using bls_lawsD(10) [OF B] g by (simp add: g1_lawsD(5))
  have "recover_loop B (g1_smul B (bls_genG1 B) 0) (map (\<lambda>m. (w m, recover_coeff ?ids (f m))) ms) =
      Some (g1_smul B h (evalPolyInt cs 0))"
    unfolding start using recover_loop_smul [OF g, of ms w "\<lambda>m. evalPolyInt cs (f m)"] share sum by simp
  moreover have "zip (map w ms) (map (recover_coeff ?ids) ?ids :: 'f list) = map (\<lambda>m. (w m, recover_coeff ?ids (f m))) ms"
    by (simp add: zip_map_map zip_same_conv_map)
  ultimately show ?thesis
    using enough by (simp add: Recover_def ms_def [symmetric] f_def [symmetric] w_def [symmetric] Let_def)
qed

lemma VerifyRecovered_dealt:
  assumes B: "bls_laws B" and s: "dealt B s cs"
    and h: "bls_HashToG1 B (domainDigest domain digest) (str_bytes domain) = Some h"
  shows "VerifyRecovered B s domain digest sig \<longleftrightarrow>
    bls_Unmarshal B sig = Some (g1_smul B h (evalPolyInt cs 0))"
proof -
  have "pairing_ok B p h (ts_pubKey s) \<longleftrightarrow> p = g1_smul B h (evalPolyInt cs 0)"
    if "bls_Unmarshal B sig = Some p" for p
    using bls_lawsD(2,4,8) [OF B] that h s by (metis dealt_def)
  then show ?thesis using h by (auto simp: VerifyRecovered_def bind_eq_Some_conv)
qed

text \<open>C19: any set of at least threshold many distinct members whose shares verify recovers a
  signature; every such set recovers the same signature, and it verifies under the group key.\<close>

theorem threshold_recovery:
  fixes B :: "('g, 'h, 'f::field) bls"
  assumes "bls_laws B" "dealt B s cs"
    and "inj_on (of_int :: int \<Rightarrow> 'f) {1..int (length (ts_memberOrder s))}"
    and "ts_t s \<le> int (length shares)" "distinct (map fst shares)"
    and "\<forall>(m, w) \<in> set shares. VerifyShare B s m domain digest w"
    and "ts_t s \<le> int (length shares')" "distinct (map fst shares')"
    and "\<forall>(m, w) \<in> set shares'. VerifyShare B s m domain digest w"
  shows "\<exists>sig. Recover B s domain digest shares = Some sig \<and>
    Recover B s domain digest shares' = Some sig \<and> VerifyRecovered B s domain digest sig"
proof -
  have "shares \<noteq> []" using assms(2,4) by (auto simp: dealt_def)
  then obtain m w where "VerifyShare B s m domain digest w" using assms(6) by (cases shares) auto
  then obtain h where h: "bls_HashToG1 B (domainDigest domain digest) (str_bytes domain) = Some h"
    using VerifyShare_iff [OF assms(1,2)] by blast
  show ?thesis
    using Recover_dealt [OF assms(1-3) h assms(4-6)] Recover_dealt [OF assms(1-3) h assms(7-9)]
      VerifyRecovered_dealt [OF assms(1,2) h] bls_lawsD(2,3,9) [OF assms(1)] h by metis
qed

lemma SignShare_verifies:
  assumes B: "bls_laws B" and s: "dealt B s cs" and i: "ts_memberIndex s member = Some i"
    and local: "i < length (ts_shares s)" "ts_shares s ! i = evalPolyInt cs (int i + 1)"
    and w: "SignShare B s member domain digest = Some w"
  shows "VerifyShare B s member domain digest w"
  using w i local bls_lawsD(2,3,9) [OF B]
  by (fastforce simp: VerifyShare_iff [OF B s] SignShare_def bind_eq_Some_conv split: if_splits)

text \<open>The shares that any threshold of the members of a freshly generated signer produce
  recover to a signature that verifies.\<close>

theorem threshold_sign_recover:
  fixes B :: "('g, 'h, 'f::field) bls"
  assumes B: "bls_laws B" and new: "newTBLSThresholdSigner B members threshold stream = Some s"
    and d: "distinct members" and inj: "inj_on (of_int :: int \<Rightarrow> 'f) {1..int (length members)}"
    and sub: "distinct chosen" "set chosen \<subseteq> set members" "threshold \<le> int (length chosen)"
    and h: "bls_HashToG1 B (domainDigest domain digest) (str_bytes domain) = Some h"
  shows "\<exists>shares sig. map fst shares = chosen \<and>
    (\<forall>(m, w) \<in> set shares. SignShare B s m domain digest = Some w) \<and>
    Recover B s domain digest shares = Some sig \<and> VerifyRecovered B s domain digest sig"
proof -
  obtain cs where cs: "dealt B s cs" "ts_memberOrder s = sort members" "ts_signingMembers s = None"
    "ts_shares s = map (\<lambda>i. evalPolyInt cs (int i + 1)) [0..<length members]"
    using newTBLSThresholdSigner_dealt [OF new d] by blast
  have t: "ts_t s = threshold" using new by (auto simp: newTBLSThresholdSigner_def Let_def split: if_splits)
  define shares where "shares = map (\<lambda>m. (m, the (SignShare B s m domain digest))) chosen"
  have idx: "\<exists>i < length members. ts_memberIndex s m = Some i" if "m \<in> set chosen" for m
    using that sub(2) cs dom_member_index [of "sort members" m] member_index_Some(1) [of "sort members" m]
    by (fastforce simp: dealt_def)
  have sign: "SignShare B s m domain digest \<noteq> None" if "m \<in> set chosen" for m
    using idx [OF that] cs h by (auto simp: SignShare_def)
  have ver: "VerifyShare B s m domain digest w" if mw: "(m, w) \<in> set shares" for m w
  proof -
    have m: "m \<in> set chosen" "SignShare B s m domain digest = Some w"
      using mw sign by (auto simp: shares_def)
    with idx obtain i where "i < length members" "ts_memberIndex s m = Some i" by blast
    then show ?thesis using SignShare_verifies [OF B cs(1)] cs(4) m by simp
  qed
  have "Recover B s domain digest shares = Some (bls_Marshal B (g1_smul B h (evalPolyInt cs 0)))"
    by (rule Recover_dealt [OF B cs(1) _ h])
       (use inj cs t sub ver in \<open>auto simp: shares_def comp_def\<close>)
  moreover have "VerifyRecovered B s domain digest (bls_Marshal B (g1_smul B h (evalPolyInt cs 0)))"
    using VerifyRecovered_dealt [OF B cs(1) h] bls_lawsD(2,3,9) [OF B] h by metis
  moreover have "map fst shares = chosen" by (simp add: shares_def comp_def)
  moreover have "\<forall>(m, w) \<in> set shares. SignShare B s m domain digest = Some w"
    using sign by (auto simp: shares_def)
  ultimately show ?thesis by blast
qed

end
