(* ===== verification/Mvba_Coding.thy ===== *)
theory Mvba_Coding
  imports Erasure Merkle Signer
begin

text \<open>
  The coding helpers of the agreement protocol, \<^verbatim>\<open>src/experiments/dumbomvba-go/core/equivalent_utils.go\<close>: packing a
  value, erasure coding with its length prefix, the Merkle tree over the stripes and threshold certificates.  The
  signer is \<open>mvbaDomainSigner\<close>, the one \<^verbatim>\<open>src/core/mvba_tcp.go\<close> passes in.  A run-time panic of the code is the value
  \<open>Panic\<close>, so that a peer that can provoke one shows in a theorem.  The results: a value is recovered from any
  \<open>k\<close> of its stripes, a root is bound to the value under it, and the length prefix of a peer makes unpacking panic.
\<close>

datatype 'a outcome = Value 'a | Error | Panic

section \<open>Values\<close>

definition packValue :: "bytes \<Rightarrow> bytes" where
  "packValue v = put_be 8 (length v) @ v"

text \<open>\<^verbatim>\<open>8+n\<close> wraps at 64 bits and \<^verbatim>\<open>int(...)\<close> reads it as signed; \<^verbatim>\<open>make([]byte, n)\<close> panics on a length that the
  address space of \<open>2 ^ 48\<close> bytes cannot hold.\<close>

definition unpackValue :: "bytes \<Rightarrow> bytes outcome" where
  "unpackValue v =
     (if length v < 8 then Error
      else let n = get_be (take 8 v) in
        if sint (8 + of_nat n :: 64 word) > int (length v) then Error
        else if n > 2 ^ 48 then Panic
        else Value (take n (drop 8 v)))"

section \<open>Erasure coding\<close>

definition erasureEncodeValue :: "rs \<Rightarrow> bytes \<Rightarrow> int \<Rightarrow> int \<Rightarrow> bytes list option" where
  "erasureEncodeValue R v k n = do {
     require (\<not> (k \<le> 0 \<or> n \<le> 0 \<or> k > n));
     (if n = k then Some (replicate (nat n) (packValue v))
      else do {
        require (rs_New R k (n - k));
        shards \<leftarrow> rs_Split R k (n - k) (packValue v);
        rs_Encode R k (n - k) shards
      })
   }"

text \<open>\<^verbatim>\<open>append([]byte(nil), x...)\<close> is \<^verbatim>\<open>nil\<close> when \<open>x\<close> is empty.\<close>

definition clone_shard :: "bytes \<Rightarrow> bytes option" where
  "clone_shard x = (if x = [] then None else Some x)"

fun first_shard :: "bytes option list \<Rightarrow> bytes option" where
  "first_shard [] = None"
| "first_shard (Some shard # shards) = Some shard"
| "first_shard (None # shards) = first_shard shards"

definition erasureDecodeValue :: "rs \<Rightarrow> bytes option list \<Rightarrow> int \<Rightarrow> int \<Rightarrow> bytes outcome" where
  "erasureDecodeValue R shards k n =
     (if int (length shards) \<noteq> n then Error
      else if n = k then (case first_shard shards of None \<Rightarrow> Error | Some shard \<Rightarrow> unpackValue shard)
      else if \<not> rs_New R k (n - k) then Error
      else let work = map (\<lambda>shard. Option.bind shard clone_shard) shards in
        case first_shard work of
          None \<Rightarrow> Error
        | Some shard \<Rightarrow>
            (case rs_Reconstruct R k (n - k) work of
               None \<Rightarrow> Error
             | Some work \<Rightarrow>
                 (case rs_Join R k (n - k) work (int (length shard) * k) of
                    None \<Rightarrow> Error
                  | Some raw \<Rightarrow> unpackValue raw)))"

section \<open>The Merkle tree of the stripes\<close>

record merkleBranch =
  mb_Index :: int
  mb_Siblings :: "bytes list"

definition leafHash :: "bytes \<Rightarrow> bytes" where
  "leafHash v = hashBytes [[0], v]"

definition nodeHash :: "bytes \<Rightarrow> bytes \<Rightarrow> bytes" where
  "nodeHash l r = hashBytes [[1], l, r]"

definition buildMerkle :: "bytes list \<Rightarrow> bytes \<times> merkleBranch list" where
  "buildMerkle stripes =
     (if length stripes = 0 then (hashBytes [[]], [])
      else let levels = merkle_levels nodeHash (map leafHash stripes)
           in (merkle_root levels,
               map (\<lambda>i. \<lparr> mb_Index = int i, mb_Siblings = merkle_branch levels i \<rparr>) [0..<length stripes]))"

text \<open>\<^verbatim>\<open>idx /= 2\<close> truncates towards zero.\<close>

definition go_half :: "int \<Rightarrow> int" where
  "go_half i = (if i < 0 then - ((- i) div 2) else i div 2)"

fun verify_fold :: "int \<Rightarrow> bytes \<Rightarrow> bytes list \<Rightarrow> bytes" where
  "verify_fold idx cur [] = cur"
| "verify_fold idx cur (sib # sibs) =
     verify_fold (go_half idx) (if idx mod 2 = 0 then nodeHash cur sib else nodeHash sib cur) sibs"

definition verifyMerkle :: "bytes \<Rightarrow> bytes \<Rightarrow> merkleBranch \<Rightarrow> bool" where
  "verifyMerkle stripe root branch \<longleftrightarrow> verify_fold (mb_Index branch) (leafHash stripe) (mb_Siblings branch) = root"

section \<open>Certificates\<close>

definition pd_message :: "string \<Rightarrow> string \<Rightarrow> int \<Rightarrow> bytes \<Rightarrow> bytes" where
  "pd_message domain sid leader root =
     str_bytes domain @ [0] @ str_bytes sid @ [0] @ put_be 8 (u64 leader) @ [0] @ root"

definition pdCertificateDigest :: "string \<Rightarrow> string \<Rightarrow> int \<Rightarrow> bytes \<Rightarrow> bytes" where
  "pdCertificateDigest domain sid leader root =
     hashBytes [str_bytes domain, [0], str_bytes sid, [0], put_be 8 (u64 leader), [0], root]"

definition recoverThresholdCertificate ::
  "('g, 'h, 'f::field) bls \<Rightarrow> ('g, 'h, 'f) mvbaDomainSigner \<Rightarrow> string \<Rightarrow> bytes \<Rightarrow> (int \<times> bytes) list \<Rightarrow> int \<Rightarrow> bytes option" where
  "recoverThresholdCertificate B signer domain digest shares threshold = do {
     require (\<not> (threshold \<le> 0 \<or> mvbaThreshold signer domain \<noteq> threshold \<or> int (length shares) < threshold));
     certificate \<leftarrow> mvbaRecover B signer domain digest shares;
     require (mvbaVerifyRecovered B signer domain digest certificate);
     Some certificate
   }"

definition verifyThresholdCertificate ::
  "('g, 'h, 'f) bls \<Rightarrow> ('g, 'h, 'f) mvbaDomainSigner \<Rightarrow> string \<Rightarrow> bytes \<Rightarrow> bytes \<Rightarrow> int \<Rightarrow> bool" where
  "verifyThresholdCertificate B signer domain digest certificate threshold \<longleftrightarrow>
     threshold > 0 \<and> mvbaThreshold signer domain = threshold \<and> length certificate > 0 \<and>
     mvbaVerifyRecovered B signer domain digest certificate"

lemma pd_digest: "pdCertificateDigest domain sid leader root = sha256 (pd_message domain sid leader root)"
  by (simp add: pdCertificateDigest_def pd_message_def hashBytes_def)

section \<open>Packing\<close>

lemma get_be_8_less: "length bs = 8 \<Longrightarrow> get_be bs < 2 ^ 64"
  using get_be_less [of bs] by simp

lemma sint_small: "- (2 ^ 63) \<le> k \<Longrightarrow> k < 2 ^ 63 \<Longrightarrow> sint (word_of_int k :: 64 word) = k"
  by (simp add: signed_of_int signed_take_bit_int_eq_self)

lemma unpack_padded:
  assumes "length v \<le> 2 ^ 48"
  shows "unpackValue (packValue v @ pad) = Value v"
proof -
  have n: "get_be (put_be 8 (length v)) = length v" using assms by (simp add: get_be_put_be)
  have "(8 + of_nat (length v) :: 64 word) = word_of_int (8 + int (length v))" by simp
  then have "sint (8 + of_nat (length v) :: 64 word) = 8 + int (length v)"
    using sint_small [of "8 + int (length v)"] assms by simp
  then show ?thesis using assms n by (simp add: unpackValue_def packValue_def Let_def)
qed

text \<open>Unpacking panics exactly on a prefix that says at least \<open>2 ^ 63 - 8\<close>.\<close>

lemma unpack_panics_iff:
  assumes "length v \<le> 2 ^ 48"
  shows "unpackValue v = Panic \<longleftrightarrow> 8 \<le> length v \<and> 2 ^ 63 - 8 \<le> get_be (take 8 v)"
proof (cases "8 \<le> length v")
  case True
  define n where "n = get_be (take 8 v)"
  define s where "s = sint (8 + of_nat n :: 64 word)"
  have lt: "n < 2 ^ 64" using get_be_8_less [of "take 8 v"] True by (simp add: n_def)
  have w: "s = sint (word_of_int (8 + int n) :: 64 word)" by (simp add: s_def)
  have v: "unpackValue v = (if s > int (length v) then Error else if n > 2 ^ 48 then Panic else Value (take n (drop 8 v)))"
    unfolding unpackValue_def Let_def n_def s_def using True by (simp only: not_less [symmetric] if_False simp_thms)
  show ?thesis
  proof (cases "n < 2 ^ 63 - 8")
    case small: True
    then have "s = 8 + int n" unfolding w by (intro sint_small) auto
    then have "unpackValue v \<noteq> Panic" unfolding v using assms by simp
    then show ?thesis using small unfolding n_def by linarith
  next
    case False
    have "(word_of_int (8 + int n) :: 64 word) = word_of_int (8 + int n - 2 ^ 64)"
      by (simp add: word_of_int_eq_iff take_bit_eq_mod mod_eq_dvd_iff)
    then have "s = 8 + int n - 2 ^ 64" unfolding w using sint_small [of "8 + int n - 2 ^ 64"] False lt by (simp only:) simp
    then have "unpackValue v = Panic" unfolding v using lt True False by simp
    then show ?thesis using True False unfolding n_def by linarith
  qed
qed (simp add: unpackValue_def)


section \<open>The tree binds its stripes\<close>

definition node_message :: "bytes \<Rightarrow> bytes \<Rightarrow> bytes" where
  "node_message l r = [1] @ l @ r"

interpretation stripe_tree: merkle nodeHash node_message
  by unfold_locales (auto simp: nodeHash_def node_message_def hashBytes_def)

lemma length_leafHash [simp]: "length (leafHash v) = 32"
  by (simp add: leafHash_def hashBytes_def)

lemma verify_fold_merkle: "merkle_fold nodeHash i d sibs = Some r \<Longrightarrow> verify_fold (int i) d sibs = r"
proof (induction nodeHash i d sibs rule: merkle_fold.induct)
  case (2 i d sib sibs)
  have "go_half (int i) = int (i div 2)" by (simp add: go_half_def zdiv_int)
  moreover have "int i mod 2 = 0 \<longleftrightarrow> i mod 2 = 0" by presburger
  ultimately show ?case using 2 by (simp split: if_splits)
qed simp

lemma leaf_folds:
  assumes "i < length stripes"
  shows "merkle_fold nodeHash i (leafHash (stripes ! i)) (merkle_branch (merkle_levels nodeHash (map leafHash stripes)) i) =
    Some (fst (buildMerkle stripes))"
proof -
  have ne: "stripes \<noteq> []" using assms by auto
  have "merkle_fold nodeHash i (map leafHash stripes ! i) (merkle_branch (merkle_levels nodeHash (map leafHash stripes)) i) =
      Some (merkle_root (merkle_levels nodeHash (map leafHash stripes)))"
    by (rule stripe_tree.branch_folds) (use assms in auto)
  then show ?thesis using assms ne by (simp add: buildMerkle_def Let_def)
qed

lemma built_branch_verifies:
  assumes "i < length stripes"
  shows "verifyMerkle (stripes ! i) (fst (buildMerkle stripes)) (snd (buildMerkle stripes) ! i)"
  using verify_fold_merkle [OF leaf_folds [OF assms]] assms by (auto simp: verifyMerkle_def buildMerkle_def Let_def)

lemma length_branches [simp]: "length (snd (buildMerkle stripes)) = length stripes"
  by (simp add: buildMerkle_def Let_def)

text \<open>What building the tree hashes.\<close>

definition tree_messages :: "bytes list \<Rightarrow> bytes list" where
  "tree_messages stripes = concat (map (\<lambda>i. ([0] @ stripes ! i) #
     merkle_messages node_message i (leafHash (stripes ! i)) (merkle_branch (merkle_levels nodeHash (map leafHash stripes)) i))
     [0..<length stripes])"

lemma tree_messages_nth:
  "i < length stripes \<Longrightarrow> set (([0] @ stripes ! i) # merkle_messages node_message i (leafHash (stripes ! i))
     (merkle_branch (merkle_levels nodeHash (map leafHash stripes)) i)) \<subseteq> set (tree_messages stripes)"
  by (auto simp: tree_messages_def)

lemma root_binds_stripes:
  assumes len: "length s1 = length s2" and root: "fst (buildMerkle s1) = fst (buildMerkle s2)"
  shows "s1 = s2 \<or> collide (tree_messages s1) (tree_messages s2)"
proof (rule disjCI)
  assume no: "\<not> collide (tree_messages s1) (tree_messages s2)"
  have "s1 ! i = s2 ! i" if i: "i < length s1" for i
  proof -
    let ?b1 = "merkle_branch (merkle_levels nodeHash (map leafHash s1)) i"
    let ?b2 = "merkle_branch (merkle_levels nodeHash (map leafHash s2)) i"
    have i2: "i < length s2" using i len by simp
    have "length ?b1 = length ?b2" by (simp add: length_merkle_branch merkle_levels_depth len)
    from stripe_tree.fold_binding [OF this _ _ leaf_folds [OF i] leaf_folds [OF i2, folded root]]
    have "leafHash (s1 ! i) = leafHash (s2 ! i) \<or>
        collide (merkle_messages node_message i (leafHash (s1 ! i)) ?b1) (merkle_messages node_message i (leafHash (s2 ! i)) ?b2)"
      by auto
    then have "leafHash (s1 ! i) = leafHash (s2 ! i)"
      using no tree_messages_nth [OF i] tree_messages_nth [OF i2] unfolding collide_def by auto
    then have "sha256 ([0] @ s1 ! i) = sha256 ([0] @ s2 ! i)" by (simp add: leafHash_def hashBytes_def)
    moreover have "[0] @ s1 ! i \<in> set (tree_messages s1)" "[0] @ s2 ! i \<in> set (tree_messages s2)"
      using tree_messages_nth [OF i] tree_messages_nth [OF i2] by auto
    ultimately show ?thesis using no unfolding collide_def by auto
  qed
  then show "s1 = s2" using len by (auto intro: nth_equalityI)
qed

section \<open>Encoding and decoding\<close>

text \<open>\<^verbatim>\<open>Split\<close> pads the value with zeros to a whole number of shards.\<close>

definition pad_length :: "int \<Rightarrow> bytes \<Rightarrow> nat" where
  "pad_length k p = (nat k - length p mod nat k) mod nat k"

definition rs_pads :: "rs \<Rightarrow> int \<Rightarrow> int \<Rightarrow> bool" where
  "rs_pads R k n \<longleftrightarrow> (\<forall>p. p \<noteq> [] \<longrightarrow> rs_Split R k (n - k) p = rs_Split R k (n - k) (p @ replicate (pad_length k p) 0))"

definition coding_ok :: "rs \<Rightarrow> int \<Rightarrow> int \<Rightarrow> bool" where
  "coding_ok R k n \<longleftrightarrow> code_ok R k n \<and> (k < n \<longrightarrow> rs_pads R k n)"

lemma padded_multiple:
  assumes "0 < k" "p \<noteq> []"
  obtains b where "0 < b" "length (p @ replicate (pad_length k p) 0) = nat k * b"
proof -
  let ?d = "nat k"
  have d: "0 < ?d" using assms by simp
  have "(length p + pad_length k p) mod ?d = 0"
  proof (cases "length p mod ?d = 0")
    case False
    then have "pad_length k p = ?d - length p mod ?d" using d by (simp add: pad_length_def)
    then have "length p + pad_length k p = length p div ?d * ?d + ?d"
      using d div_mult_mod_eq [of "length p" ?d] mod_less_divisor [of ?d "length p"] by linarith
    then show ?thesis by simp
  qed (use d in \<open>simp add: pad_length_def\<close>)
  then have m: "length (p @ replicate (pad_length k p) 0) = ?d * ((length p + pad_length k p) div ?d)"
    by (metis length_append length_replicate mult_div_mod_eq add.right_neutral)
  moreover have "0 < (length p + pad_length k p) div ?d"
    using m assms(2) by (metis add_is_0 gr_zeroI length_0_conv length_append mult_0_right)
  ultimately show thesis using that by blast
qed

lemma first_shard_agrees:
  assumes "agrees sh E" "1 \<le> present sh"
  shows "\<exists>s \<in> set E. first_shard sh = Some s"
proof -
  have "{i. i < length sh \<and> sh ! i \<noteq> None} \<noteq> {}" using assms(2) unfolding present_def by (metis card.empty not_one_le_zero)
  then have "\<exists>x. Some x \<in> set sh" by (metis (mono_tags, lifting) Collect_empty_eq nth_mem not_None_eq)
  then have "\<exists>x. first_shard sh = Some x \<and> Some x \<in> set sh" by (induction sh rule: first_shard.induct) auto
  then obtain x where x: "first_shard sh = Some x" "Some x \<in> set sh" by blast
  then obtain i where "i < length sh" "sh ! i = Some x" by (metis in_set_conv_nth)
  then have "x \<in> set E" using assms(1) by (metis agrees_def nth_mem option.distinct(1) option.inject)
  then show ?thesis using x by blast
qed

lemma clone_agrees:
  assumes "agrees sh E" "\<forall>s \<in> set E. s \<noteq> []"
  shows "map (\<lambda>shard. Option.bind shard clone_shard) sh = sh"
proof (rule map_idI)
  fix x assume "x \<in> set sh"
  then obtain i where "i < length sh" "sh ! i = x" by (metis in_set_conv_nth)
  then have "x = None \<or> (\<exists>s \<in> set E. x = Some s)" using assms(1) by (metis agrees_def nth_mem)
  then show "Option.bind x clone_shard = x" using assms(2) by (auto simp: clone_shard_def)
qed

text \<open>The stripes of raw bytes, which a faulty leader may choose without a length prefix; \<^verbatim>\<open>erasureEncodeValue\<close> makes those
  of the packed value.\<close>

definition raw_stripes :: "rs \<Rightarrow> bytes \<Rightarrow> int \<Rightarrow> int \<Rightarrow> bytes list option" where
  "raw_stripes R raw k n =
     (if n = k then Some (replicate (nat n) raw)
      else Option.bind (rs_Split R k (n - k) raw) (rs_Encode R k (n - k)))"

definition joined :: "bytes \<Rightarrow> int \<Rightarrow> int \<Rightarrow> bytes" where
  "joined raw k n = (if n = k then raw else raw @ replicate (pad_length k raw) 0)"

lemma raw_coding:
  assumes ok: "coding_ok R k n" and raw: "raw \<noteq> []"
  obtains E where "raw_stripes R raw k n = Some E" "length E = nat n" "\<forall>s \<in> set E. s \<noteq> []"
    "\<And>sh. agrees sh E \<Longrightarrow> nat k \<le> present sh \<Longrightarrow> erasureDecodeValue R sh k n = unpackValue (joined raw k n)"
proof (cases "n = k")
  case True
  have k: "0 < k" using ok by (simp add: coding_ok_def code_ok_def)
  let ?E = "replicate (nat n) raw"
  show ?thesis
  proof (rule that)
    show "raw_stripes R raw k n = Some ?E" using True by (simp add: raw_stripes_def)
    show "length ?E = nat n" "\<forall>s \<in> set ?E. s \<noteq> []" using raw by auto
    fix sh assume a: "agrees sh ?E" and p: "nat k \<le> present sh"
    have "1 \<le> present sh" using p k by simp
    then have "first_shard sh = Some raw" using first_shard_agrees [OF a] by auto
    moreover have "int (length sh) = n" using a True k by (simp add: agrees_def)
    ultimately show "erasureDecodeValue R sh k n = unpackValue (joined raw k n)" using True by (simp add: erasureDecodeValue_def joined_def)
  qed
next
  case False
  then have lt: "0 < k" "k < n" and laws: "rs_laws R k n" and pads: "rs_pads R k n"
    using ok by (auto simp: coding_ok_def code_ok_def)
  let ?p = "raw @ replicate (pad_length k raw) 0"
  obtain b where b: "0 < b" "length ?p = nat k * b" using padded_multiple [OF lt(1) raw] by blast
  note L = laws [unfolded rs_laws_def]
  obtain S where S: "rs_Split R k (n - k) raw = Some S" "length S = nat n" "\<forall>s \<in> set S. length s = b"
      "concat (take (nat k) S) = ?p"
    using L b pads raw unfolding rs_pads_def by metis
  obtain E where E: "rs_Encode R k (n - k) S = Some E" "length E = nat n" "\<forall>s \<in> set E. length s = b"
      "take (nat k) E = take (nat k) S"
      "\<forall>sh. agrees sh E \<longrightarrow> nat k \<le> present sh \<longrightarrow> rs_Reconstruct R k (n - k) sh = Some E"
    using L [THEN conjunct2, THEN conjunct2, THEN conjunct1, THEN spec, THEN spec, THEN mp, OF b(1), THEN mp, OF S(2), THEN mp, OF S(3)]
    by blast
  have join: "rs_Join R k (n - k) E (int b * k) = Some ?p"
    using L [THEN conjunct2, THEN conjunct2, THEN conjunct2, rule_format, OF b(1) E(2)] E(3,4) S(4) by simp
  show ?thesis
  proof (rule that)
    show "raw_stripes R raw k n = Some E" using False S E by (simp add: raw_stripes_def)
    show "length E = nat n" by (rule E(2))
    show nz: "\<forall>s \<in> set E. s \<noteq> []" using E(3) b(1) by auto
    fix sh assume a: "agrees sh E" and p: "nat k \<le> present sh"
    have "1 \<le> present sh" using p lt by linarith
    then obtain s where s: "s \<in> set E" "first_shard sh = Some s" using first_shard_agrees [OF a] by blast
    have "int (length sh) = n" using a E(2) lt by (simp add: agrees_def)
    then show "erasureDecodeValue R sh k n = unpackValue (joined raw k n)"
      using False L clone_agrees [OF a nz] s E(3,5) a p join by (simp add: erasureDecodeValue_def joined_def)
  qed
qed

lemma encode_raw: "coding_ok R k n \<Longrightarrow> erasureEncodeValue R v k n = raw_stripes R (packValue v) k n"
  by (auto simp: erasureEncodeValue_def raw_stripes_def coding_ok_def code_ok_def rs_laws_def)

lemma encode_value:
  assumes ok: "coding_ok R k n" and v: "length v \<le> 2 ^ 48"
  obtains E where "erasureEncodeValue R v k n = Some E" "length E = nat n" "\<forall>s \<in> set E. s \<noteq> []"
    "\<And>sh. agrees sh E \<Longrightarrow> nat k \<le> present sh \<Longrightarrow> erasureDecodeValue R sh k n = Value v"
proof -
  have ne: "packValue v \<noteq> []" by (simp add: packValue_def)
  have "unpackValue (joined (packValue v) k n) = Value v"
    using unpack_padded [OF v] unpack_padded [OF v, of "[]"] by (simp add: joined_def)
  then show thesis using raw_coding [OF ok ne] that encode_raw [OF ok] by metis
qed

text \<open>All stripes present.\<close>

lemma present_all: "present (map Some xs) = length xs"
proof -
  have "{i. i < length (map Some xs) \<and> map Some xs ! i \<noteq> None} = {..<length xs}" by auto
  then show ?thesis by (simp add: present_def)
qed

lemma agrees_all: "agrees (map Some xs) xs"
  by (simp add: agrees_def)

lemma encode_inject:
  assumes ok: "coding_ok R k n" and v: "length v \<le> 2 ^ 48" "length w \<le> 2 ^ 48"
    and e: "erasureEncodeValue R v k n = Some E" "erasureEncodeValue R w k n = Some E"
  shows "v = w"
proof -
  have kn: "0 < k" "k \<le> n" using ok by (auto simp: coding_ok_def code_ok_def)
  have full: "erasureDecodeValue R (map Some E) k n = Value x" if x: "length x \<le> 2 ^ 48" "erasureEncodeValue R x k n = Some E" for x
  proof -
    obtain E' where E': "erasureEncodeValue R x k n = Some E'" "length E' = nat n"
      "\<And>sh. agrees sh E' \<Longrightarrow> nat k \<le> present sh \<Longrightarrow> erasureDecodeValue R sh k n = Value x"
      using encode_value [OF ok x(1)] by metis
    have "E' = E" using E'(1) x(2) by simp
    then show ?thesis using E'(2) E'(3) [OF agrees_all [of E']] kn by (simp add: present_all nat_mono)
  qed
  show ?thesis using full [OF v(1) e(1)] full [OF v(2) e(2)] by simp
qed

text \<open>The root of a value's stripes, as both dissemination and retrieval compute it, and what computing it hashes.\<close>

definition value_root :: "rs \<Rightarrow> bytes \<Rightarrow> int \<Rightarrow> int \<Rightarrow> bytes option" where
  "value_root R v k n = map_option (\<lambda>E. fst (buildMerkle E)) (erasureEncodeValue R v k n)"

definition value_messages :: "rs \<Rightarrow> bytes \<Rightarrow> int \<Rightarrow> int \<Rightarrow> bytes list" where
  "value_messages R v k n = (case erasureEncodeValue R v k n of None \<Rightarrow> [] | Some E \<Rightarrow> tree_messages E)"

lemma root_binds_value:
  assumes ok: "coding_ok R k n" and v: "length v \<le> 2 ^ 48" "length w \<le> 2 ^ 48"
    and r: "value_root R v k n = Some root" "value_root R w k n = Some root"
  shows "v = w \<or> collide (value_messages R v k n) (value_messages R w k n)"
proof -
  obtain E1 E2 where e: "erasureEncodeValue R v k n = Some E1" "erasureEncodeValue R w k n = Some E2"
    "fst (buildMerkle E1) = root" "fst (buildMerkle E2) = root" using r by (auto simp: value_root_def)
  have "length E1 = nat n" "length E2 = nat n"
    using encode_value [OF ok v(1)] encode_value [OF ok v(2)] e(1,2) by (metis option.inject)+
  then have "E1 = E2 \<or> collide (tree_messages E1) (tree_messages E2)" using root_binds_stripes [of E1 E2] e(3,4) by simp
  then show ?thesis using encode_inject [OF ok v e(1)] e(1,2) by (auto simp: value_messages_def)
qed

end
