(* ===== verification/Mvba_Dispersal.thy ===== *)
theory Mvba_Dispersal
  imports Mvba_Coding
begin

text \<open>
  Provable dispersal of the agreement protocol: its messages
  (\<^verbatim>\<open>src/experiments/dumbomvba-go/core/equivalent_messages.go\<close>, \<^verbatim>\<open>types.go\<close>), \<^verbatim>\<open>runPDInstance\<close> (\<^verbatim>\<open>pd_equivalent.go\<close>) and
  \<^verbatim>\<open>runQuitPD\<close> (\<^verbatim>\<open>mvba_equivalent.go\<close>).  A loop is a function from the messages its channel delivers, in order, to
  the messages it sends and its way of ending: it may still be waiting, return or fail.  The main result is that a
  session has at most one lock per leader: an honest node signs one root in an instance, so two certificates of
  \<open>n - f\<close> signers name one root.
\<close>

section \<open>Configuration and messages\<close>

record mvba_Config =
  c_SID :: string
  c_ID :: int
  c_N :: int
  c_F :: int
  c_MaxRounds :: int
  c_UseEquivalentPath :: bool
  c_EquivalentCoinMode :: string
  c_ValidatePayload :: "(bytes \<Rightarrow> bool) option"

record ('g, 'h, 'f) DumboMVBA =
  dm_cfg :: mvba_Config
  dm_signer :: "('g, 'h, 'f) mvbaDomainSigner"

abbreviation dm_N :: "('g, 'h, 'f) DumboMVBA \<Rightarrow> int" where "dm_N m \<equiv> c_N (dm_cfg m)"
abbreviation dm_F :: "('g, 'h, 'f) DumboMVBA \<Rightarrow> int" where "dm_F m \<equiv> c_F (dm_cfg m)"
abbreviation dm_ID :: "('g, 'h, 'f) DumboMVBA \<Rightarrow> int" where "dm_ID m \<equiv> c_ID (dm_cfg m)"

record pdStoreMsg =
  ps_SID :: string
  ps_Root :: bytes
  ps_Stripe :: bytes
  ps_Branch :: merkleBranch

text \<open>\<^verbatim>\<open>pdStoredMsg\<close> and \<^verbatim>\<open>pdLockedMsg\<close> have the same fields, as do \<^verbatim>\<open>pdLockMsg\<close> and \<^verbatim>\<open>pdDoneMsg\<close>; the constructors
  of \<open>mvba_body\<close> keep them apart.\<close>

record pdStoredMsg =
  sd_SID :: string
  sd_Root :: bytes
  sd_Share :: bytes

record pdLockMsg =
  lm_SID :: string
  lm_Leader :: int
  lm_Root :: bytes
  lm_Certificate :: bytes

record rcStoreMsg =
  rcs_SID :: string
  rcs_Root :: bytes
  rcs_From :: int
  rcs_Stripe :: bytes
  rcs_Branch :: merkleBranch

record rcPrepareMsg =
  rp_SID :: string
  rp_Leader :: int
  rp_Lock :: "pdLockMsg option"

record coinShareMsg =
  cs_SID :: string
  cs_Nonce :: string
  cs_Share :: bytes

record abaMsg =
  ab_SID :: string
  ab_Iter :: int
  ab_Value :: int

datatype mvba_body =
    PdStore pdStoreMsg | PdStored pdStoredMsg | PdLock pdLockMsg | PdLocked pdStoredMsg | PdDone pdLockMsg
  | QuitReady string bytes | QuitFinish string bytes
  | RcStore rcStoreMsg | RcPrepare rcPrepareMsg
  | CoinShare coinShareMsg | AbaEst abaMsg | AbaDecision abaMsg
  | OtherBody

datatype ProtocolTag = TagMVBACoin | TagMVBAPD | TagMVBAPDFinish | TagMVBARCPrepare | TagMVBARC | TagMVBAABA
  | TagMVBAABACoin | TagMVBAABADecision | TagOther

record ProtocolMessage =
  pm_Tag :: ProtocolTag
  pm_Round :: int
  pm_Leader :: int
  pm_Body :: mvba_body

type_synonym ReceivedMessage = "int \<times> ProtocolMessage"

text \<open>How a loop stands after the messages read so far; \<open>Blocked\<close> is a loop that waits inside a nested one.\<close>

datatype 'r phase = Running | Returned 'r | Failed | Crashed | Blocked

text \<open>A loop over a channel: read messages until the body ends it; the messages left over stay in the channel.\<close>

fun loop :: "('s \<Rightarrow> ReceivedMessage \<Rightarrow> 's \<times> (int \<times> ProtocolMessage) list \<times> 'r phase) \<Rightarrow> 's \<Rightarrow> ReceivedMessage list \<Rightarrow>
  's \<times> (int \<times> ProtocolMessage) list \<times> 'r phase \<times> ReceivedMessage list" where
  "loop body st [] = (st, [], Running, [])"
| "loop body st (msg # msgs) =
     (case body st msg of
        (st', sends, Running) \<Rightarrow> (case loop body st' msgs of (st'', sends', ph, rest) \<Rightarrow> (st'', sends @ sends', ph, rest))
      | (st', sends, ph) \<Rightarrow> (st', sends, ph, msgs))"

definition all_nodes :: "int \<Rightarrow> int list" where
  "all_nodes n = map int [0..<nat n]"

definition broadcast :: "int \<Rightarrow> ProtocolMessage \<Rightarrow> (int \<times> ProtocolMessage) list" where
  "broadcast n msg = map (\<lambda>i. (i, msg)) (all_nodes n)"

section \<open>A dispersal instance\<close>

record pdOutcome =
  po_store :: "rcStoreMsg option"
  po_lock :: "pdLockMsg option"
  po_done :: "pdLockMsg option"

record pd_state =
  pd_out :: pdOutcome
  pd_storedShares :: "(int \<times> bytes) list"
  pd_lockedShares :: "(int \<times> bytes) list"
  pd_seenStoreFromLeader :: bool
  pd_seenLockFromLeader :: bool

definition pd_message_to :: "int \<Rightarrow> mvba_body \<Rightarrow> ProtocolMessage" where
  "pd_message_to leader body = \<lparr> pm_Tag = TagMVBAPD, pm_Round = 0, pm_Leader = leader, pm_Body = body \<rparr>"

definition pd_threshold :: "('g, 'h, 'f) DumboMVBA \<Rightarrow> int" where
  "pd_threshold m = dm_N m - dm_F m"

definition pd_k :: "('g, 'h, 'f) DumboMVBA \<Rightarrow> int" where
  "pd_k m = dm_N m - 2 * dm_F m"

definition pd_initial :: pd_state where
  "pd_initial = \<lparr> pd_out = \<lparr> po_store = None, po_lock = None, po_done = None \<rparr>, pd_storedShares = [], pd_lockedShares = [],
     pd_seenStoreFromLeader = False, pd_seenLockFromLeader = False \<rparr>"

text \<open>What the leader sends first.\<close>

definition pd_offer :: "rs \<Rightarrow> ('g, 'h, 'f) DumboMVBA \<Rightarrow> string \<Rightarrow> int \<Rightarrow> bytes \<Rightarrow> (int \<times> ProtocolMessage) list option" where
  "pd_offer R m sid leader input =
     (if dm_ID m = leader then do {
        stripes \<leftarrow> erasureEncodeValue R input (pd_k m) (dm_N m);
        (case buildMerkle stripes of (root, branches) \<Rightarrow>
          Some (map (\<lambda>i. (i, pd_message_to leader (PdStore \<lparr> ps_SID = sid, ps_Root = root,
            ps_Stripe = stripes ! nat i, ps_Branch = branches ! nat i \<rparr>))) (all_nodes (dm_N m))))
      }
      else Some [])"

text \<open>The cases of the loop; \<^verbatim>\<open>continue\<close> is \<open>(st, [], Running)\<close>.\<close>

definition on_pdStore ::
  "('g, 'h, 'f) bls \<Rightarrow> ('g, 'h, 'f) DumboMVBA \<Rightarrow> string \<Rightarrow> int \<Rightarrow> pd_state \<Rightarrow> int \<Rightarrow> pdStoreMsg \<Rightarrow>
   pd_state \<times> (int \<times> ProtocolMessage) list \<times> pdOutcome phase" where
  "on_pdStore B m sid leader st from msg =
     (if ps_SID msg \<noteq> sid \<or> from \<noteq> leader \<or> pd_seenStoreFromLeader st then (st, [], Running)
      else if \<not> verifyMerkle (ps_Stripe msg) (ps_Root msg) (ps_Branch msg) then (st, [], Running)
      else
        let store = \<lparr> rcs_SID = sid, rcs_Root = ps_Root msg, rcs_From = dm_ID m, rcs_Stripe = ps_Stripe msg, rcs_Branch = ps_Branch msg \<rparr>;
            st = st\<lparr> pd_seenStoreFromLeader := True, pd_out := (pd_out st)\<lparr> po_store := Some store \<rparr> \<rparr>
        in case mvbaSign B (dm_signer m) ''PD_STORED'' (pdCertificateDigest ''PD_STORED'' sid leader (ps_Root msg)) of
             None \<Rightarrow> (st, [], Failed)
           | Some share \<Rightarrow>
               (st, [(leader, pd_message_to leader (PdStored \<lparr> sd_SID = sid, sd_Root = ps_Root msg, sd_Share = share \<rparr>))],
                if dm_ID m \<noteq> leader \<and> po_lock (pd_out st) \<noteq> None then Returned (pd_out st) else Running))"

definition on_pdStored ::
  "('g, 'h, 'f::field) bls \<Rightarrow> ('g, 'h, 'f) DumboMVBA \<Rightarrow> string \<Rightarrow> int \<Rightarrow> pd_state \<Rightarrow> int \<Rightarrow> pdStoredMsg \<Rightarrow>
   pd_state \<times> (int \<times> ProtocolMessage) list \<times> pdOutcome phase" where
  "on_pdStored B m sid leader st from msg =
     (if sd_SID msg \<noteq> sid \<or> dm_ID m \<noteq> leader then (st, [], Running)
      else if from \<in> fst ` set (pd_storedShares st) then (st, [], Running)
      else let dig = pdCertificateDigest ''PD_STORED'' sid leader (sd_Root msg) in
        if \<not> mvbaVerify B (dm_signer m) from ''PD_STORED'' dig (sd_Share msg) then (st, [], Running)
        else let st = st\<lparr> pd_storedShares := pd_storedShares st @ [(from, sd_Share msg)] \<rparr> in
          if int (length (pd_storedShares st)) \<ge> pd_threshold m then
            (case recoverThresholdCertificate B (dm_signer m) ''PD_STORED'' dig (pd_storedShares st) (pd_threshold m) of
               None \<Rightarrow> (st, [], Failed)
             | Some certificate \<Rightarrow>
                 (st, broadcast (dm_N m) (pd_message_to leader (PdLock \<lparr> lm_SID = sid, lm_Leader = leader,
                    lm_Root = sd_Root msg, lm_Certificate = certificate \<rparr>)), Running))
          else (st, [], Running))"

definition on_pdLock ::
  "('g, 'h, 'f) bls \<Rightarrow> ('g, 'h, 'f) DumboMVBA \<Rightarrow> string \<Rightarrow> int \<Rightarrow> pd_state \<Rightarrow> int \<Rightarrow> pdLockMsg \<Rightarrow>
   pd_state \<times> (int \<times> ProtocolMessage) list \<times> pdOutcome phase" where
  "on_pdLock B m sid leader st from msg =
     (if lm_SID msg \<noteq> sid \<or> lm_Leader msg \<noteq> leader \<or> from \<noteq> leader \<or> pd_seenLockFromLeader st then (st, [], Running)
      else if \<not> verifyThresholdCertificate B (dm_signer m) ''PD_STORED'' (pdCertificateDigest ''PD_STORED'' sid leader (lm_Root msg))
        (lm_Certificate msg) (pd_threshold m) then (st, [], Running)
      else
        let lock = \<lparr> lm_SID = sid, lm_Leader = leader, lm_Root = lm_Root msg, lm_Certificate = lm_Certificate msg \<rparr>;
            st = st\<lparr> pd_seenLockFromLeader := True, pd_out := (pd_out st)\<lparr> po_lock := Some lock \<rparr> \<rparr>
        in case mvbaSign B (dm_signer m) ''PD_LOCKED'' (pdCertificateDigest ''PD_LOCKED'' sid leader (lm_Root msg)) of
             None \<Rightarrow> (st, [], Failed)
           | Some share \<Rightarrow>
               (st, [(leader, pd_message_to leader (PdLocked \<lparr> sd_SID = sid, sd_Root = lm_Root msg, sd_Share = share \<rparr>))],
                if dm_ID m \<noteq> leader \<and> po_store (pd_out st) \<noteq> None then Returned (pd_out st) else Running))"

definition on_pdLocked ::
  "('g, 'h, 'f::field) bls \<Rightarrow> ('g, 'h, 'f) DumboMVBA \<Rightarrow> string \<Rightarrow> int \<Rightarrow> pd_state \<Rightarrow> int \<Rightarrow> pdStoredMsg \<Rightarrow>
   pd_state \<times> (int \<times> ProtocolMessage) list \<times> pdOutcome phase" where
  "on_pdLocked B m sid leader st from msg =
     (if sd_SID msg \<noteq> sid \<or> dm_ID m \<noteq> leader then (st, [], Running)
      else if from \<in> fst ` set (pd_lockedShares st) then (st, [], Running)
      else let dig = pdCertificateDigest ''PD_LOCKED'' sid leader (sd_Root msg) in
        if \<not> mvbaVerify B (dm_signer m) from ''PD_LOCKED'' dig (sd_Share msg) then (st, [], Running)
        else let st = st\<lparr> pd_lockedShares := pd_lockedShares st @ [(from, sd_Share msg)] \<rparr> in
          if int (length (pd_lockedShares st)) \<ge> pd_threshold m then
            (case recoverThresholdCertificate B (dm_signer m) ''PD_LOCKED'' dig (pd_lockedShares st) (pd_threshold m) of
               None \<Rightarrow> (st, [], Failed)
             | Some certificate \<Rightarrow>
                 (let fin = \<lparr> lm_SID = sid, lm_Leader = leader, lm_Root = sd_Root msg, lm_Certificate = certificate \<rparr>;
                      st = st\<lparr> pd_out := (pd_out st)\<lparr> po_done := Some fin \<rparr> \<rparr>
                  in (st, broadcast (dm_N m) (pd_message_to leader (PdDone fin)), Returned (pd_out st))))
          else (st, [], Running))"

definition pd_body ::
  "('g, 'h, 'f::field) bls \<Rightarrow> ('g, 'h, 'f) DumboMVBA \<Rightarrow> string \<Rightarrow> int \<Rightarrow> pd_state \<Rightarrow> ReceivedMessage \<Rightarrow>
   pd_state \<times> (int \<times> ProtocolMessage) list \<times> pdOutcome phase" where
  "pd_body B m sid leader st received = (case received of (from, msg) \<Rightarrow>
     (case pm_Body msg of
        PdStore body \<Rightarrow> on_pdStore B m sid leader st from body
      | PdStored body \<Rightarrow> on_pdStored B m sid leader st from body
      | PdLock body \<Rightarrow> on_pdLock B m sid leader st from body
      | PdLocked body \<Rightarrow> on_pdLocked B m sid leader st from body
      | _ \<Rightarrow> (st, [], Running)))"

text \<open>The instance after the messages \<open>recv\<close>: its state, everything sent, how it stands and what it left unread.\<close>

definition runPDInstance ::
  "('g, 'h, 'f::field) bls \<Rightarrow> rs \<Rightarrow> ('g, 'h, 'f) DumboMVBA \<Rightarrow> string \<Rightarrow> int \<Rightarrow> bytes \<Rightarrow> ReceivedMessage list \<Rightarrow>
   pd_state \<times> (int \<times> ProtocolMessage) list \<times> pdOutcome phase \<times> ReceivedMessage list" where
  "runPDInstance B R m sid leader input recv =
     (case pd_offer R m sid leader input of
        None \<Rightarrow> (pd_initial, [], Failed, recv)
      | Some offers \<Rightarrow>
          (case loop (pd_body B m sid leader) pd_initial recv of (st, sends, ph, rest) \<Rightarrow> (st, offers @ sends, ph, rest)))"


text \<open>\<^verbatim>\<open>runEquivalent\<close> keeps the outcome of an instance only when it returned without an error; the instances still
  running when the phase ends are cancelled, and return the error of the context.\<close>

definition pd_kept :: "pdOutcome phase \<Rightarrow> rcStoreMsg option \<times> pdLockMsg option" where
  "pd_kept ph = (case ph of Returned out \<Rightarrow> (po_store out, po_lock out) | _ \<Rightarrow> (None, None))"

section \<open>Leaving the dispersal phase\<close>

record quit_state =
  qs_provens :: int
  qs_seenDone :: "int set"
  qs_readyShares :: "(int \<times> bytes) list"
  qs_seenFinish :: "int set"
  qs_finishSent :: bool

definition quit_initial :: quit_state where
  "quit_initial = \<lparr> qs_provens = 0, qs_seenDone = {}, qs_readyShares = [], qs_seenFinish = {}, qs_finishSent = False \<rparr>"

definition pd_sid :: "string \<Rightarrow> int \<Rightarrow> string" where
  "pd_sid sid leader = sid @ ''PD'' @ itoa leader"

definition quit_digest :: "string \<Rightarrow> bytes" where
  "quit_digest sid = hashBytes [str_bytes ''PD_QUIT_READY'', str_bytes sid]"

definition quit_message :: "('g, 'h, 'f) DumboMVBA \<Rightarrow> mvba_body \<Rightarrow> ProtocolMessage" where
  "quit_message m body = \<lparr> pm_Tag = TagMVBAPDFinish, pm_Round = 0, pm_Leader = dm_ID m, pm_Body = body \<rparr>"

definition sendFinish :: "('g, 'h, 'f) DumboMVBA \<Rightarrow> string \<Rightarrow> bytes \<Rightarrow> (int \<times> ProtocolMessage) list" where
  "sendFinish m sid certificate = broadcast (dm_N m) (quit_message m (QuitFinish sid certificate))"

definition sendReady :: "('g, 'h, 'f) bls \<Rightarrow> ('g, 'h, 'f) DumboMVBA \<Rightarrow> string \<Rightarrow> (int \<times> ProtocolMessage) list option" where
  "sendReady B m sid = do {
     share \<leftarrow> mvbaSign B (dm_signer m) ''PD_QUIT_READY'' (quit_digest sid);
     Some (broadcast (dm_N m) (quit_message m (QuitReady sid share)))
   }"

definition on_quit_done ::
  "('g, 'h, 'f) bls \<Rightarrow> ('g, 'h, 'f) DumboMVBA \<Rightarrow> string \<Rightarrow> quit_state \<Rightarrow> pdLockMsg \<Rightarrow>
   quit_state \<times> (int \<times> ProtocolMessage) list \<times> int phase" where
  "on_quit_done B m sid st msg =
     (if lm_Leader msg < 0 \<or> lm_Leader msg \<ge> dm_N m \<or> lm_SID msg \<noteq> pd_sid sid (lm_Leader msg) then (st, [], Running)
      else if lm_Leader msg \<in> qs_seenDone st then (st, [], Running)
      else if \<not> verifyThresholdCertificate B (dm_signer m) ''PD_LOCKED''
        (pdCertificateDigest ''PD_LOCKED'' (lm_SID msg) (lm_Leader msg) (lm_Root msg)) (lm_Certificate msg) (dm_N m - dm_F m)
        then (st, [], Running)
      else let st = st\<lparr> qs_seenDone := insert (lm_Leader msg) (qs_seenDone st), qs_provens := qs_provens st + 1 \<rparr> in
        if qs_provens st = dm_N m - dm_F m then
          (case sendReady B m sid of None \<Rightarrow> (st, [], Failed) | Some sends \<Rightarrow> (st, sends, Running))
        else (st, [], Running))"

definition on_quit_ready ::
  "('g, 'h, 'f::field) bls \<Rightarrow> ('g, 'h, 'f) DumboMVBA \<Rightarrow> string \<Rightarrow> quit_state \<Rightarrow> int \<Rightarrow> string \<Rightarrow> bytes \<Rightarrow>
   quit_state \<times> (int \<times> ProtocolMessage) list \<times> int phase" where
  "on_quit_ready B m sid st from msgSID share =
     (if msgSID \<noteq> sid then (st, [], Running)
      else if from \<in> fst ` set (qs_readyShares st) then (st, [], Running)
      else if \<not> mvbaVerify B (dm_signer m) from ''PD_QUIT_READY'' (quit_digest sid) share then (st, [], Running)
      else let st = st\<lparr> qs_readyShares := qs_readyShares st @ [(from, share)] \<rparr> in
        if int (length (qs_readyShares st)) \<ge> dm_F m + 1 \<and> \<not> qs_finishSent st then
          (case recoverThresholdCertificate B (dm_signer m) ''PD_QUIT_READY'' (quit_digest sid) (qs_readyShares st) (dm_F m + 1) of
             None \<Rightarrow> (st, [], Failed)
           | Some certificate \<Rightarrow> (st\<lparr> qs_finishSent := True \<rparr>, sendFinish m sid certificate, Running))
        else (st, [], Running))"

definition on_quit_finish ::
  "('g, 'h, 'f) bls \<Rightarrow> ('g, 'h, 'f) DumboMVBA \<Rightarrow> string \<Rightarrow> quit_state \<Rightarrow> int \<Rightarrow> string \<Rightarrow> bytes \<Rightarrow>
   quit_state \<times> (int \<times> ProtocolMessage) list \<times> int phase" where
  "on_quit_finish B m sid st from msgSID certificate =
     (if msgSID \<noteq> sid then (st, [], Running)
      else if from \<in> qs_seenFinish st then (st, [], Running)
      else let st = st\<lparr> qs_seenFinish := insert from (qs_seenFinish st) \<rparr> in
        if \<not> verifyThresholdCertificate B (dm_signer m) ''PD_QUIT_READY'' (quit_digest sid) certificate (dm_F m + 1)
        then (st, [], Running)
        else (st\<lparr> qs_finishSent := True \<rparr>, if \<not> qs_finishSent st then sendFinish m sid certificate else [], Returned from))"

definition quit_body ::
  "('g, 'h, 'f::field) bls \<Rightarrow> ('g, 'h, 'f) DumboMVBA \<Rightarrow> string \<Rightarrow> quit_state \<Rightarrow> ReceivedMessage \<Rightarrow>
   quit_state \<times> (int \<times> ProtocolMessage) list \<times> int phase" where
  "quit_body B m sid st received = (case received of (from, msg) \<Rightarrow>
     (case pm_Body msg of
        PdDone body \<Rightarrow> on_quit_done B m sid st body
      | QuitReady msgSID share \<Rightarrow> on_quit_ready B m sid st from msgSID share
      | QuitFinish msgSID certificate \<Rightarrow> on_quit_finish B m sid st from msgSID certificate
      | _ \<Rightarrow> (st, [], Running)))"

definition runQuitPD ::
  "('g, 'h, 'f::field) bls \<Rightarrow> ('g, 'h, 'f) DumboMVBA \<Rightarrow> string \<Rightarrow> ReceivedMessage list \<Rightarrow>
   quit_state \<times> (int \<times> ProtocolMessage) list \<times> int phase \<times> ReceivedMessage list" where
  "runQuitPD B m sid recv = loop (quit_body B m sid) quit_initial recv"

section \<open>Loops\<close>

text \<open>What holds of the start and is kept by every message holds of the state and of everything sent.\<close>

lemma loop_invariant:
  assumes "loop body st msgs = (st', sends, ph, rest)" and "P st []"
    and "\<And>st sends msg st1 s1 ph1. P st sends \<Longrightarrow> msg \<in> set msgs \<Longrightarrow> body st msg = (st1, s1, ph1) \<Longrightarrow> P st1 (sends @ s1)"
  shows "P st' sends"
proof -
  have "loop body st msgs = (st', sends, ph, rest) \<Longrightarrow> P st pre \<Longrightarrow> P st' (pre @ sends)" for pre
    using assms(3)
  proof (induction msgs arbitrary: st sends pre)
    case (Cons msg msgs)
    obtain st1 s1 ph1 where b: "body st msg = (st1, s1, ph1)" by (metis prod_cases3)
    have p1: "P st1 (pre @ s1)" by (rule Cons.prems(3) [OF Cons.prems(2) _ b]) simp
    show ?case
    proof (cases ph1)
      case Running
      then obtain s2 where s2: "loop body st1 msgs = (st', s2, ph, rest)" "sends = s1 @ s2"
        using Cons.prems(1) b by (auto split: prod.splits)
      have "P st' ((pre @ s1) @ s2)" by (rule Cons.IH [OF s2(1) p1 Cons.prems(3)]) auto
      then show ?thesis by (simp add: s2)
    qed (use Cons.prems(1) b p1 in auto)
  qed simp
  from this [OF assms(1,2)] show ?thesis by simp
qed


text \<open>How a loop ended: the message that ended it and the state it was handled in.\<close>

lemma loop_ended:
  assumes "loop body st msgs = (st', sends, ph, rest)" "ph \<noteq> Running"
  shows "\<exists>pre msg st1 s1. msgs = pre @ msg # rest \<and> body st1 msg = (st', s1, ph)"
  using assms
proof (induction msgs arbitrary: st sends)
  case (Cons msg msgs)
  obtain st1 s1 ph1 where b: "body st msg = (st1, s1, ph1)" by (metis prod_cases3)
  show ?case
  proof (cases ph1)
    case Running
    then obtain s2 where "loop body st1 msgs = (st', s2, ph, rest)" using Cons.prems(1) b by (auto split: prod.splits)
    from Cons.IH [OF this Cons.prems(2)] show ?thesis by (metis append_Cons)
  next
    case (Returned r)
    then have "msgs = rest" "(st1, s1, ph1) = (st', s1, ph)" using Cons.prems(1) b by auto
    then show ?thesis using b by (metis append_Nil)
  next
    case Failed
    then have "msgs = rest" "(st1, s1, ph1) = (st', s1, ph)" using Cons.prems(1) b by auto
    then show ?thesis using b by (metis append_Nil)
  next
    case Crashed
    then have "msgs = rest" "(st1, s1, ph1) = (st', s1, ph)" using Cons.prems(1) b by auto
    then show ?thesis using b by (metis append_Nil)
  next
    case Blocked
    then have "msgs = rest" "(st1, s1, ph1) = (st', s1, ph)" using Cons.prems(1) b by auto
    then show ?thesis using b by (metis append_Nil)
  qed
qed simp

lemma set_broadcast: "(i, x) \<in> set (broadcast n msg) \<Longrightarrow> x = msg"
  by (auto simp: broadcast_def)

section \<open>An honest node signs one root\<close>

text \<open>The roots of the messages of one kind among those sent, in a session.\<close>

definition bodies :: "(int \<times> ProtocolMessage) list \<Rightarrow> mvba_body set" where
  "bodies sends = (\<lambda>x. pm_Body (snd x)) ` set sends"

lemma bodies_simps [simp]:
  "bodies [] = {}" "bodies (xs @ ys) = bodies xs \<union> bodies ys" "bodies [(to, p)] = {pm_Body p}"
  "bodies (broadcast n p) \<subseteq> {pm_Body p}"
  by (auto simp: bodies_def broadcast_def)

definition stored_roots :: "string \<Rightarrow> (int \<times> ProtocolMessage) list \<Rightarrow> bytes set" where
  "stored_roots sid sends = {sd_Root msg | msg. PdStored msg \<in> bodies sends \<and> sd_SID msg = sid}"

definition locked_roots :: "string \<Rightarrow> (int \<times> ProtocolMessage) list \<Rightarrow> bytes set" where
  "locked_roots sid sends = {sd_Root msg | msg. PdLocked msg \<in> bodies sends \<and> sd_SID msg = sid}"

lemma roots_append [simp]:
  "stored_roots sid (xs @ ys) = stored_roots sid xs \<union> stored_roots sid ys"
  "locked_roots sid (xs @ ys) = locked_roots sid xs \<union> locked_roots sid ys"
  unfolding stored_roots_def locked_roots_def by (simp_all, blast+)

lemma roots_Nil [simp]: "stored_roots sid [] = {}" "locked_roots sid [] = {}"
  by (auto simp: stored_roots_def locked_roots_def)

lemma roots_broadcast [simp]:
  "stored_roots sid (broadcast n (pd_message_to l (PdLock a))) = {}" "stored_roots sid (broadcast n (pd_message_to l (PdDone a))) = {}"
  "locked_roots sid (broadcast n (pd_message_to l (PdLock a))) = {}" "locked_roots sid (broadcast n (pd_message_to l (PdDone a))) = {}"
  by (auto simp: stored_roots_def locked_roots_def pd_message_to_def dest!: bodies_simps(4) [THEN subsetD])

lemma roots_send [simp]:
  "stored_roots sid [(to, pd_message_to l (PdStored a))] = (if sd_SID a = sid then {sd_Root a} else {})"
  "stored_roots sid [(to, pd_message_to l (PdLocked a))] = {}"
  "locked_roots sid [(to, pd_message_to l (PdLocked a))] = (if sd_SID a = sid then {sd_Root a} else {})"
  "locked_roots sid [(to, pd_message_to l (PdStored a))] = {}"
  by (auto simp: stored_roots_def locked_roots_def pd_message_to_def)

definition pd_inv :: "string \<Rightarrow> pd_state \<Rightarrow> (int \<times> ProtocolMessage) list \<Rightarrow> bool" where
  "pd_inv sid st sends \<longleftrightarrow>
     stored_roots sid sends \<subseteq> (if pd_seenStoreFromLeader st then rcs_Root ` set_option (po_store (pd_out st)) else {}) \<and>
     locked_roots sid sends \<subseteq> (if pd_seenLockFromLeader st then lm_Root ` set_option (po_lock (pd_out st)) else {})"

lemma pd_inv_body:
  assumes inv: "pd_inv sid st sends" and b: "pd_body B m sid leader st received = (st1, s1, ph1)"
  shows "pd_inv sid st1 (sends @ s1)"
proof -
  obtain sender msg where r: "received = (sender, msg)" by (cases received)
  show ?thesis
  proof (cases "pm_Body msg")
    case (PdStore body)
    then show ?thesis using assms r by (auto simp: pd_body_def on_pdStore_def pd_inv_def Let_def split: if_splits option.splits)
  next
    case (PdStored body)
    then show ?thesis using assms r by (auto simp: pd_body_def on_pdStored_def pd_inv_def Let_def split: if_splits option.splits)
  next
    case (PdLock body)
    then show ?thesis using assms r by (auto simp: pd_body_def on_pdLock_def pd_inv_def Let_def split: if_splits option.splits)
  next
    case (PdLocked body)
    then show ?thesis using assms r by (auto simp: pd_body_def on_pdLocked_def pd_inv_def Let_def split: if_splits option.splits)
  qed (use assms r in \<open>auto simp: pd_body_def\<close>)
qed

lemma roots_offer: "pd_offer R m sid leader input = Some offers \<Longrightarrow> stored_roots sid' offers = {} \<and> locked_roots sid' offers = {}"
  by (cases "erasureEncodeValue R input (pd_k m) (dm_N m)"; cases "buildMerkle (the (erasureEncodeValue R input (pd_k m) (dm_N m)))")
     (auto simp: pd_offer_def stored_roots_def locked_roots_def bodies_def pd_message_to_def split: if_splits)

lemma pd_run_inv:
  assumes "runPDInstance B R m sid leader input recv = (st, sends, ph, rest)"
  shows "pd_inv sid st sends"
proof (cases "pd_offer R m sid leader input")
  case None
  then show ?thesis using assms by (auto simp: runPDInstance_def pd_inv_def)
next
  case (Some offers)
  then obtain s where s: "loop (pd_body B m sid leader) pd_initial recv = (st, s, ph, rest)" "sends = offers @ s"
    using assms by (auto simp: runPDInstance_def split: prod.splits)
  have "pd_inv sid st s" by (rule loop_invariant [OF s(1)]) (auto simp: pd_inv_def [of _ pd_initial] pd_inv_body)
  then show ?thesis using roots_offer [OF Some] s(2) by (auto simp: pd_inv_def)
qed

lemma pd_signs_one_root:
  assumes "runPDInstance B R m sid leader input recv = (st, sends, ph, rest)"
    and "r1 \<in> stored_roots sid sends" "r2 \<in> stored_roots sid sends"
  shows "r1 = r2"
  using pd_run_inv [OF assms(1)] assms(2,3) unfolding pd_inv_def by (cases "po_store (pd_out st)") (auto split: if_splits)


section \<open>Sessions with faulty nodes\<close>

text \<open>A session: the honest nodes with their configurations and inputs, and what the network, which the faulty nodes may
  drive, delivers to each of their instances.\<close>

record ('g, 'h, 'f) session =
  se_sid :: string
  se_n :: int
  se_f :: int
  se_honest :: "int set"
  se_node :: "int \<Rightarrow> ('g, 'h, 'f) DumboMVBA"
  se_input :: "int \<Rightarrow> bytes"
  se_pd :: "int \<Rightarrow> int \<Rightarrow> ReceivedMessage list"
  se_quit :: "int \<Rightarrow> ReceivedMessage list"

definition session_ok :: "('g, 'h, 'f) session \<Rightarrow> bool" where
  "session_ok s \<longleftrightarrow> 0 \<le> se_f s \<and> 3 * se_f s + 1 \<le> se_n s \<and> se_n s < 2 ^ 63 \<and> se_honest s \<subseteq> {0..<se_n s} \<and>
     int (card ({0..<se_n s} - se_honest s)) \<le> se_f s \<and>
     (\<forall>i \<in> se_honest s. c_ID (dm_cfg (se_node s i)) = i \<and> dm_N (se_node s i) = se_n s \<and> dm_F (se_node s i) = se_f s)"

definition pd_run ::
  "('g, 'h, 'f::field) bls \<Rightarrow> rs \<Rightarrow> ('g, 'h, 'f) session \<Rightarrow> int \<Rightarrow> int \<Rightarrow>
   pd_state \<times> (int \<times> ProtocolMessage) list \<times> pdOutcome phase \<times> ReceivedMessage list" where
  "pd_run B R s i l =
     runPDInstance B R (se_node s i) (pd_sid (se_sid s) l) l (if l = i then se_input s i else []) (se_pd s i l)"

definition pd_sends ::
  "('g, 'h, 'f::field) bls \<Rightarrow> rs \<Rightarrow> ('g, 'h, 'f) session \<Rightarrow> int \<Rightarrow> int \<Rightarrow> (int \<times> ProtocolMessage) list" where
  "pd_sends B R s i l = fst (snd (pd_run B R s i l))"

text \<open>What an honest node signed in the dispersal phase, as leader and root.\<close>

definition stored_by :: "('g, 'h, 'f::field) bls \<Rightarrow> rs \<Rightarrow> ('g, 'h, 'f) session \<Rightarrow> int \<Rightarrow> (int \<times> bytes) set" where
  "stored_by B R s i = {(l, r). 0 \<le> l \<and> l < se_n s \<and> r \<in> stored_roots (pd_sid (se_sid s) l) (pd_sends B R s i l)}"

definition locked_by :: "('g, 'h, 'f::field) bls \<Rightarrow> rs \<Rightarrow> ('g, 'h, 'f) session \<Rightarrow> int \<Rightarrow> (int \<times> bytes) set" where
  "locked_by B R s i = {(l, r). 0 \<le> l \<and> l < se_n s \<and> r \<in> locked_roots (pd_sid (se_sid s) l) (pd_sends B R s i l)}"

text \<open>What a threshold certificate stands for: \<open>q\<close> members signed the digest, the honest ones among them in this session.\<close>

definition backed :: "('g, 'h, 'f) session \<Rightarrow> int \<Rightarrow> (int \<Rightarrow> bool) \<Rightarrow> bool" where
  "backed s q signs \<longleftrightarrow> (\<exists>S \<subseteq> {0..<se_n s}. q \<le> int (card S) \<and> (\<forall>i \<in> S \<inter> se_honest s. signs i))"

definition signs_stored :: "('g, 'h, 'f::field) bls \<Rightarrow> rs \<Rightarrow> ('g, 'h, 'f) session \<Rightarrow> bytes \<Rightarrow> int \<Rightarrow> bool" where
  "signs_stored B R s digest i \<longleftrightarrow>
     (\<exists>(l, r) \<in> stored_by B R s i. digest = pdCertificateDigest ''PD_STORED'' (pd_sid (se_sid s) l) l r)"

definition signs_locked :: "('g, 'h, 'f::field) bls \<Rightarrow> rs \<Rightarrow> ('g, 'h, 'f) session \<Rightarrow> bytes \<Rightarrow> int \<Rightarrow> bool" where
  "signs_locked B R s digest i \<longleftrightarrow>
     (\<exists>(l, r) \<in> locked_by B R s i. digest = pdCertificateDigest ''PD_LOCKED'' (pd_sid (se_sid s) l) l r)"

lemma card_members: "int (card {0..<n :: int}) = max 0 n"
  by simp

lemma honest_common:
  assumes ok: "session_ok s" and S: "S1 \<subseteq> {0..<se_n s}" "S2 \<subseteq> {0..<se_n s}"
    and card: "se_n s - se_f s \<le> int (card S1)" "se_n s - se_f s \<le> int (card S2)"
  shows "\<exists>i \<in> se_honest s. i \<in> S1 \<and> i \<in> S2"
proof (rule ccontr)
  assume "\<not> ?thesis"
  then have sub: "S1 \<inter> S2 \<subseteq> {0..<se_n s} - se_honest s" using S by auto
  have fin: "finite S1" "finite S2" using S finite_subset by blast+
  have "card (S1 \<union> S2) + card (S1 \<inter> S2) = card S1 + card S2" using card_Un_Int [OF fin] by simp
  moreover have "card (S1 \<union> S2) \<le> card {0..<se_n s}" using S by (intro card_mono) auto
  moreover have "card (S1 \<inter> S2) \<le> card ({0..<se_n s} - se_honest s)" using sub by (intro card_mono) auto
  moreover have "0 \<le> se_f s" "3 * se_f s + 1 \<le> se_n s" "int (card ({0..<se_n s} - se_honest s)) \<le> se_f s"
    using ok by (auto simp: session_ok_def)
  ultimately show False using card by simp
qed

lemma honest_member:
  assumes ok: "session_ok s" and S: "S \<subseteq> {0..<se_n s}"
  shows "int (card S) - se_f s \<le> int (card (S \<inter> se_honest s))"
proof -
  have fin: "finite S" using S finite_subset by blast
  have "S = (S \<inter> se_honest s) \<union> (S - se_honest s)" by auto
  then have "card S = card (S \<inter> se_honest s) + card (S - se_honest s)"
    using fin by (metis Int_Diff_disjoint card_Un_disjoint finite_Diff finite_Int)
  moreover have "card (S - se_honest s) \<le> card ({0..<se_n s} - se_honest s)" using S by (intro card_mono) auto
  ultimately show ?thesis using ok by (simp add: session_ok_def)
qed

lemma itoa_no_zero: "0 \<le> v \<Longrightarrow> 0 \<notin> set (str_bytes (itoa v))"
proof
  assume "0 \<le> v" "0 \<in> set (str_bytes (itoa v))"
  then obtain c where c: "c \<in> set (go_decimal (nat v))" "of_char c = (0 :: 8 word)" by (auto simp: itoa_def str_bytes_def)
  have "48 \<le> (of_char c :: nat) \<and> (of_char c :: nat) \<le> 57" using go_decimal_digits c(1) by blast
  moreover have "unat (of_char c :: 8 word) = (of_char c :: nat)"
    by (rule unat_of_char)
  ultimately show False using c(2) by simp
qed


lemma split_at: "x \<notin> set xs \<Longrightarrow> x \<notin> set xs' \<Longrightarrow> xs @ x # ys = xs' @ x # ys' \<Longrightarrow> xs = xs' \<and> ys = ys'"
proof (induction xs arbitrary: xs')
  case Nil
  then show ?case by (cases xs') auto
next
  case (Cons a xs)
  then show ?case by (cases xs') auto
qed

lemma pd_message_inject:
  assumes eq: "pd_message domain (pd_sid sid l) leader r = pd_message domain (pd_sid sid l') leader' r'"
    and range: "0 \<le> l" "0 \<le> l'"
  shows "l = l' \<and> u64 leader = u64 leader' \<and> r = r'"
proof -
  have "str_bytes (itoa l) @ 0 # put_be 8 (u64 leader) @ [0] @ r = str_bytes (itoa l') @ 0 # put_be 8 (u64 leader') @ [0] @ r'"
    using eq by (simp add: pd_message_def pd_sid_def str_bytes_def)
  then have "str_bytes (itoa l) = str_bytes (itoa l')" and
    rest: "put_be 8 (u64 leader) @ [0] @ r = put_be 8 (u64 leader') @ [0] @ r'"
    using split_at [OF itoa_no_zero [OF range(1)] itoa_no_zero [OF range(2)]] by blast+
  then have "l = l'" using itoa_inject range by simp
  moreover have "put_be 8 (u64 leader) = put_be 8 (u64 leader')" "r = r'" using rest by simp_all
  moreover have "u64 leader < 256 ^ 8" "u64 leader' < 256 ^ 8" by (simp_all add: u64_def nat_less_iff)
  ultimately show ?thesis using put_be_inject by blast
qed

text \<open>The statements that the honest nodes signed when they stored a stripe.\<close>

definition stored_messages :: "('g, 'h, 'f::field) bls \<Rightarrow> rs \<Rightarrow> ('g, 'h, 'f) session \<Rightarrow> bytes set" where
  "stored_messages B R s =
     {pd_message ''PD_STORED'' (pd_sid (se_sid s) l) l r | i l r. i \<in> se_honest s \<and> (l, r) \<in> stored_by B R s i}"

definition clash :: "bytes set \<Rightarrow> bytes set \<Rightarrow> bool" where
  "clash X Y \<longleftrightarrow> (\<exists>x \<in> X. \<exists>y \<in> Y. x \<noteq> y \<and> sha256 x = sha256 y)"

text \<open>Two certificates that name an instance name one root, that of its leader.\<close>

lemma lock_unique:
  assumes ok: "session_ok s" and l: "0 \<le> l" "l < se_n s" and lead: "0 \<le> l1" "l1 < se_n s" "0 \<le> l2" "l2 < se_n s"
    and b1: "backed s (se_n s - se_f s) (signs_stored B R s (pdCertificateDigest ''PD_STORED'' (pd_sid (se_sid s) l) l1 r1))"
    and b2: "backed s (se_n s - se_f s) (signs_stored B R s (pdCertificateDigest ''PD_STORED'' (pd_sid (se_sid s) l) l2 r2))"
  shows "r1 = r2 \<or> clash {pd_message ''PD_STORED'' (pd_sid (se_sid s) l) l1 r1, pd_message ''PD_STORED'' (pd_sid (se_sid s) l) l2 r2}
    (stored_messages B R s)"
proof (rule disjCI)
  assume no: "\<not> clash {pd_message ''PD_STORED'' (pd_sid (se_sid s) l) l1 r1, pd_message ''PD_STORED'' (pd_sid (se_sid s) l) l2 r2}
    (stored_messages B R s)"
  obtain i where i: "i \<in> se_honest s" "signs_stored B R s (pdCertificateDigest ''PD_STORED'' (pd_sid (se_sid s) l) l1 r1) i"
      "signs_stored B R s (pdCertificateDigest ''PD_STORED'' (pd_sid (se_sid s) l) l2 r2) i"
  proof -
    obtain S1 S2 where S: "S1 \<subseteq> {0..<se_n s}" "S2 \<subseteq> {0..<se_n s}" "se_n s - se_f s \<le> int (card S1)" "se_n s - se_f s \<le> int (card S2)"
      "\<forall>i \<in> S1 \<inter> se_honest s. signs_stored B R s (pdCertificateDigest ''PD_STORED'' (pd_sid (se_sid s) l) l1 r1) i"
      "\<forall>i \<in> S2 \<inter> se_honest s. signs_stored B R s (pdCertificateDigest ''PD_STORED'' (pd_sid (se_sid s) l) l2 r2) i"
      using b1 b2 unfolding backed_def by (elim exE conjE)
    then show thesis using honest_common [OF ok S(1-4)] that by blast
  qed
  have root: "r \<in> stored_roots (pd_sid (se_sid s) l) (pd_sends B R s i l)"
    if signs: "signs_stored B R s (pdCertificateDigest ''PD_STORED'' (pd_sid (se_sid s) l) l' r) i"
      and one: "(l' = l1 \<and> r = r1) \<or> (l' = l2 \<and> r = r2)" for l' r
  proof -
    obtain k q where k: "(k, q) \<in> stored_by B R s i"
      "sha256 (pd_message ''PD_STORED'' (pd_sid (se_sid s) l) l' r) = sha256 (pd_message ''PD_STORED'' (pd_sid (se_sid s) k) k q)"
      using signs by (auto simp: signs_stored_def pd_digest)
    then have "pd_message ''PD_STORED'' (pd_sid (se_sid s) l) l' r = pd_message ''PD_STORED'' (pd_sid (se_sid s) k) k q"
      using no i(1) one unfolding clash_def stored_messages_def by blast
    then have "l = k \<and> r = q" using pd_message_inject l k(1) by (auto simp: stored_by_def)
    then show ?thesis using k(1) by (simp add: stored_by_def)
  qed
  obtain st ph rest where "runPDInstance B R (se_node s i) (pd_sid (se_sid s) l) l (if l = i then se_input s i else []) (se_pd s i l) =
      (st, pd_sends B R s i l, ph, rest)"
    by (metis pd_sends_def pd_run_def prod.collapse)
  from pd_signs_one_root [OF this root [OF i(2)] root [OF i(3)]] show "r1 = r2" by simp
qed


section \<open>What leaving the dispersal phase shows\<close>

definition done_ok :: "('g, 'h, 'f) bls \<Rightarrow> ('g, 'h, 'f) DumboMVBA \<Rightarrow> string \<Rightarrow> pdLockMsg \<Rightarrow> bool" where
  "done_ok B m sid d \<longleftrightarrow> 0 \<le> lm_Leader d \<and> lm_Leader d < dm_N m \<and> lm_SID d = pd_sid sid (lm_Leader d) \<and>
     verifyThresholdCertificate B (dm_signer m) ''PD_LOCKED'' (pdCertificateDigest ''PD_LOCKED'' (lm_SID d) (lm_Leader d) (lm_Root d))
       (lm_Certificate d) (dm_N m - dm_F m)"

text \<open>The dispersals that the messages to a node show complete.\<close>

definition done_received :: "('g, 'h, 'f) bls \<Rightarrow> ('g, 'h, 'f) DumboMVBA \<Rightarrow> string \<Rightarrow> ReceivedMessage list \<Rightarrow> pdLockMsg set" where
  "done_received B m sid recv = {d. done_ok B m sid d \<and> (\<exists>(sender, msg) \<in> set recv. pm_Body msg = PdDone d)}"

definition quit_inv ::
  "('g, 'h, 'f) bls \<Rightarrow> ('g, 'h, 'f) DumboMVBA \<Rightarrow> string \<Rightarrow> ReceivedMessage list \<Rightarrow> quit_state \<Rightarrow> (int \<times> ProtocolMessage) list \<Rightarrow> bool" where
  "quit_inv B m sid recv st sends \<longleftrightarrow>
     finite (qs_seenDone st) \<and> qs_provens st = int (card (qs_seenDone st)) \<and>
     qs_seenDone st \<subseteq> lm_Leader ` done_received B m sid recv \<and>
     ((\<exists>sid' share. QuitReady sid' share \<in> bodies sends) \<longrightarrow> dm_N m - dm_F m \<le> int (card (qs_seenDone st)))"

lemma quit_bodies: "QuitReady a b \<notin> bodies (sendFinish m sid c)"
  using bodies_simps(4) [of "dm_N m" "quit_message m (QuitFinish sid c)"] by (auto simp: sendFinish_def quit_message_def)

lemma quit_done_inv:
  assumes inv: "quit_inv B m sid recv st sends" and mem: "(sender, msg) \<in> set recv" "pm_Body msg = PdDone d"
    and b: "on_quit_done B m sid st d = (st1, s1, ph1)"
  shows "quit_inv B m sid recv st1 (sends @ s1)"
proof (cases "done_ok B m sid d \<and> lm_Leader d \<notin> qs_seenDone st")
  case True
  let ?st = "st\<lparr> qs_seenDone := insert (lm_Leader d) (qs_seenDone st), qs_provens := qs_provens st + 1 \<rparr>"
  have st: "st1 = ?st" and s1: "s1 \<noteq> [] \<Longrightarrow> qs_provens ?st = dm_N m - dm_F m"
    using b True by (auto simp: on_quit_done_def done_ok_def Let_def split: if_splits option.splits)
  have "d \<in> done_received B m sid recv" using True mem by (auto simp: done_received_def)
  moreover have "QuitReady x y \<in> bodies s1 \<Longrightarrow> s1 \<noteq> []" for x y by auto
  ultimately show ?thesis using inv True s1 unfolding st quit_inv_def by auto
next
  case False
  then have "st1 = st" "s1 = []" using b by (auto simp: on_quit_done_def done_ok_def split: if_splits)
  then show ?thesis using inv by simp
qed

lemma quit_body_inv:
  assumes inv: "quit_inv B m sid recv st sends" and mem: "received \<in> set recv"
    and b: "quit_body B m sid st received = (st1, s1, ph1)"
  shows "quit_inv B m sid recv st1 (sends @ s1)"
proof -
  obtain sender msg where r: "received = (sender, msg)" by (cases received)
  show ?thesis
  proof (cases "pm_Body msg")
    case (PdDone d)
    then show ?thesis using quit_done_inv [OF inv, of sender msg d] mem b r by (simp add: quit_body_def)
  next
    case (QuitReady a c)
    then show ?thesis using inv b r
      by (auto simp: quit_body_def on_quit_ready_def quit_inv_def Let_def quit_bodies split: if_splits option.splits)
  next
    case (QuitFinish a c)
    then show ?thesis using inv b r
      by (auto simp: quit_body_def on_quit_finish_def quit_inv_def Let_def quit_bodies split: if_splits)
  qed (use assms r in \<open>auto simp: quit_body_def\<close>)
qed

lemma quit_run_inv:
  assumes "runQuitPD B m sid recv = (st, sends, ph, rest)"
  shows "quit_inv B m sid recv st sends"
proof (rule loop_invariant [OF assms [unfolded runQuitPD_def]])
  show "quit_inv B m sid recv quit_initial []" by (simp add: quit_inv_def quit_initial_def)
qed (rule quit_body_inv)

lemma ready_saw_done:
  assumes "runQuitPD B m sid recv = (st, sends, ph, rest)" "QuitReady sid' share \<in> bodies sends"
  shows "dm_N m - dm_F m \<le> int (card (qs_seenDone st)) \<and> qs_seenDone st \<subseteq> lm_Leader ` done_received B m sid recv"
  using quit_run_inv [OF assms(1)] assms(2) by (auto simp: quit_inv_def)

text \<open>A verified certificate of readiness was delivered.\<close>

definition quit_certified :: "('g, 'h, 'f) bls \<Rightarrow> ('g, 'h, 'f) DumboMVBA \<Rightarrow> string \<Rightarrow> ReceivedMessage list \<Rightarrow> bool" where
  "quit_certified B m sid recv \<longleftrightarrow> (\<exists>(sender, msg) \<in> set recv. \<exists>c. pm_Body msg = QuitFinish sid c \<and>
     verifyThresholdCertificate B (dm_signer m) ''PD_QUIT_READY'' (quit_digest sid) c (dm_F m + 1))"

lemma quit_returned:
  assumes "runQuitPD B m sid recv = (st, sends, Returned r, rest)"
  shows "quit_certified B m sid recv"
proof -
  obtain pre msg st1 s1 where e: "recv = pre @ msg # rest" "quit_body B m sid st1 msg = (st, s1, Returned r)"
    using loop_ended [OF assms [unfolded runQuitPD_def]] by auto
  obtain sender p where m: "msg = (sender, p)" by (cases msg)
  obtain c where "pm_Body p = QuitFinish sid c"
      "verifyThresholdCertificate B (dm_signer m) ''PD_QUIT_READY'' (quit_digest sid) c (dm_F m + 1)"
    using e(2) m by (cases "pm_Body p")
      (auto simp: quit_body_def on_quit_done_def on_quit_ready_def on_quit_finish_def Let_def split: if_splits option.splits)
  then show ?thesis using e(1) m by (auto simp: quit_certified_def)
qed

definition quit_sends :: "('g, 'h, 'f::field) bls \<Rightarrow> ('g, 'h, 'f) session \<Rightarrow> int \<Rightarrow> (int \<times> ProtocolMessage) list" where
  "quit_sends B s i = fst (snd (runQuitPD B (se_node s i) (se_sid s) (se_quit s i)))"

definition signs_ready :: "('g, 'h, 'f::field) bls \<Rightarrow> ('g, 'h, 'f) session \<Rightarrow> int \<Rightarrow> bool" where
  "signs_ready B s i \<longleftrightarrow> (\<exists>share. QuitReady (se_sid s) share \<in> bodies (quit_sends B s i))"

definition locked_messages :: "('g, 'h, 'f::field) bls \<Rightarrow> rs \<Rightarrow> ('g, 'h, 'f) session \<Rightarrow> bytes set" where
  "locked_messages B R s =
     {pd_message ''PD_LOCKED'' (pd_sid (se_sid s) l) l r | i l r. i \<in> se_honest s \<and> (l, r) \<in> locked_by B R s i}"

definition done_messages :: "('g, 'h, 'f::field) bls \<Rightarrow> ('g, 'h, 'f) session \<Rightarrow> bytes set" where
  "done_messages B s = {pd_message ''PD_LOCKED'' (pd_sid (se_sid s) (lm_Leader d)) (lm_Leader d) (lm_Root d) | i d.
     i \<in> se_honest s \<and> d \<in> done_received B (se_node s i) (se_sid s) (se_quit s i)}"

lemma locked_quorum:
  assumes ok: "session_ok s" and d: "i \<in> se_honest s" "d \<in> done_received B (se_node s i) (se_sid s) (se_quit s i)"
    and backed: "backed s (se_n s - se_f s) (signs_locked B R s (pdCertificateDigest ''PD_LOCKED'' (lm_SID d) (lm_Leader d) (lm_Root d)))"
    and no: "\<not> clash (done_messages B s) (locked_messages B R s)"
  shows "se_n s - 2 * se_f s \<le> int (card {j \<in> se_honest s. (lm_Leader d, lm_Root d) \<in> locked_by B R s j})"
proof -
  have sid: "lm_SID d = pd_sid (se_sid s) (lm_Leader d)" "0 \<le> lm_Leader d" using d(2) by (auto simp: done_received_def done_ok_def)
  obtain S where S: "S \<subseteq> {0..<se_n s}" "se_n s - se_f s \<le> int (card S)"
    "\<forall>j \<in> S \<inter> se_honest s. signs_locked B R s (pdCertificateDigest ''PD_LOCKED'' (lm_SID d) (lm_Leader d) (lm_Root d)) j"
    using backed unfolding backed_def by blast
  have "(lm_Leader d, lm_Root d) \<in> locked_by B R s j" if j: "j \<in> S \<inter> se_honest s" for j
  proof -
    have "signs_locked B R s (pdCertificateDigest ''PD_LOCKED'' (lm_SID d) (lm_Leader d) (lm_Root d)) j" using S(3) j by blast
    then obtain k q where k: "(k, q) \<in> locked_by B R s j"
      "sha256 (pd_message ''PD_LOCKED'' (pd_sid (se_sid s) (lm_Leader d)) (lm_Leader d) (lm_Root d)) =
       sha256 (pd_message ''PD_LOCKED'' (pd_sid (se_sid s) k) k q)"
      by (auto simp: signs_locked_def pd_digest sid)
    have "pd_message ''PD_LOCKED'' (pd_sid (se_sid s) (lm_Leader d)) (lm_Leader d) (lm_Root d) = pd_message ''PD_LOCKED'' (pd_sid (se_sid s) k) k q"
      using no d k j unfolding clash_def done_messages_def locked_messages_def by blast
    then have "lm_Leader d = k \<and> lm_Root d = q" using pd_message_inject sid(2) k(1) by (auto simp: locked_by_def)
    then show ?thesis using k(1) by simp
  qed
  then have "S \<inter> se_honest s \<subseteq> {j \<in> se_honest s. (lm_Leader d, lm_Root d) \<in> locked_by B R s j}" by auto
  moreover have "finite {j \<in> se_honest s. (lm_Leader d, lm_Root d) \<in> locked_by B R s j}"
    using ok by (auto simp: session_ok_def intro: finite_subset [of _ "{0..<se_n s}"])
  ultimately have "int (card (S \<inter> se_honest s)) \<le> int (card {j \<in> se_honest s. (lm_Leader d, lm_Root d) \<in> locked_by B R s j})"
    by (simp add: card_mono)
  then show ?thesis using honest_member [OF ok S(1)] S(2) by linarith
qed

text \<open>C23: leaving the dispersal phase means that enough was dispersed: when an honest node has returned from it, a set of
  \<open>n - f\<close> leaders is such that for each of them at least \<open>n - 2f\<close> honest nodes have locked one root, provided that
  the certificates that honest nodes accepted stand for signatures of as many members as their thresholds say;
  otherwise two signed statements collide under SHA-256.\<close>

theorem quit_means_dispersed:
  assumes ok: "session_ok s" and i: "i \<in> se_honest s"
    and returned: "runQuitPD B (se_node s i) (se_sid s) (se_quit s i) = (st, sends, Returned from, rest)"
    and ready: "\<forall>j \<in> se_honest s. quit_certified B (se_node s j) (se_sid s) (se_quit s j) \<longrightarrow> backed s (se_f s + 1) (signs_ready B s)"
    and finished: "\<forall>j \<in> se_honest s. \<forall>d \<in> done_received B (se_node s j) (se_sid s) (se_quit s j).
      backed s (se_n s - se_f s) (signs_locked B R s (pdCertificateDigest ''PD_LOCKED'' (lm_SID d) (lm_Leader d) (lm_Root d)))"
  shows "(\<exists>L \<subseteq> {0..<se_n s}. se_n s - se_f s \<le> int (card L) \<and>
      (\<forall>l \<in> L. \<exists>r. se_n s - 2 * se_f s \<le> int (card {j \<in> se_honest s. (l, r) \<in> locked_by B R s j}))) \<or>
    clash (done_messages B s) (locked_messages B R s)"
proof (rule disjCI)
  assume no: "\<not> clash (done_messages B s) (locked_messages B R s)"
  obtain S where S: "S \<subseteq> {0..<se_n s}" "se_f s + 1 \<le> int (card S)" "\<forall>j \<in> S \<inter> se_honest s. signs_ready B s j"
    using ready i quit_returned [OF returned] unfolding backed_def by blast
  have "0 < int (card (S \<inter> se_honest s))" using honest_member [OF ok S(1)] S(2) by linarith
  then have "S \<inter> se_honest s \<noteq> {}" by auto
  then obtain j where j: "j \<in> se_honest s" "signs_ready B s j" using S(3) by blast
  obtain st' ph' rest' share where run: "runQuitPD B (se_node s j) (se_sid s) (se_quit s j) = (st', quit_sends B s j, ph', rest')"
    "QuitReady (se_sid s) share \<in> bodies (quit_sends B s j)"
    using j(2) by (metis signs_ready_def quit_sends_def prod.collapse)
  let ?L = "qs_seenDone st'"
  have nf: "dm_N (se_node s j) = se_n s" "dm_F (se_node s j) = se_f s" using ok j(1) by (auto simp: session_ok_def)
  note saw = ready_saw_done [OF run]
  have "?L \<subseteq> {0..<se_n s}" using saw nf by (auto simp: done_received_def done_ok_def)
  moreover have "\<exists>r. se_n s - 2 * se_f s \<le> int (card {k \<in> se_honest s. (l, r) \<in> locked_by B R s k})" if l: "l \<in> ?L" for l
  proof -
    obtain d where d: "d \<in> done_received B (se_node s j) (se_sid s) (se_quit s j)" "lm_Leader d = l" using saw l by auto
    have "backed s (se_n s - se_f s) (signs_locked B R s (pdCertificateDigest ''PD_LOCKED'' (lm_SID d) (lm_Leader d) (lm_Root d)))"
      using finished j(1) d(1) by blast
    from locked_quorum [OF ok j(1) d(1) this no] d(2) show ?thesis by auto
  qed
  moreover have "se_n s - se_f s \<le> int (card ?L)" using saw nf by simp
  ultimately show "\<exists>L \<subseteq> {0..<se_n s}. se_n s - se_f s \<le> int (card L) \<and>
      (\<forall>l \<in> L. \<exists>r. se_n s - 2 * se_f s \<le> int (card {j \<in> se_honest s. (l, r) \<in> locked_by B R s j}))"
    by (intro exI [of _ ?L] conjI ballI) simp_all
qed

end
