(* ===== verification/Mvba_Retrieval.thy ===== *)
theory Mvba_Retrieval
  imports Mvba_Dispersal
begin

text \<open>
  Retrieval in the agreement protocol: the ballot of \<^verbatim>\<open>runRCPrepare\<close> (\<^verbatim>\<open>mvba_equivalent.go\<close>) and
  \<^verbatim>\<open>runRCSubprotocol\<close> (\<^verbatim>\<open>rc_equivalent.go\<close>, both under \<^verbatim>\<open>src/experiments/dumbomvba-go/core\<close>), which collects stripes
  until a certified lock lets it decode.  A root is the key of the collected stripes (the code uses its hexadecimal
  form, which is injective).  An index out of range is a panic of the node, \<open>Crashed\<close>.  The main results: two honest
  nodes that retrieve for one leader return one value, genuine stripes are retrieved, every node that hears
  enough ballots of a dispersed leader votes for it, and one unsigned message of a peer crashes the loop.
\<close>

section \<open>The ballot\<close>

record prepare_state =
  pr_rcSeen :: "int set"
  pr_hasValidLock :: bool

definition prepare_lock_ok :: "('g, 'h, 'f) bls \<Rightarrow> ('g, 'h, 'f) DumboMVBA \<Rightarrow> string \<Rightarrow> int \<Rightarrow> rcPrepareMsg \<Rightarrow> bool" where
  "prepare_lock_ok B m sid leader msg =
     (case rp_Lock msg of None \<Rightarrow> False
      | Some lock \<Rightarrow> lm_Leader lock = leader \<and> verifyThresholdCertificate B (dm_signer m) ''PD_STORED''
          (pdCertificateDigest ''PD_STORED'' (pd_sid sid leader) leader (lm_Root lock)) (lm_Certificate lock) (dm_N m - dm_F m))"

definition prepare_body ::
  "('g, 'h, 'f) bls \<Rightarrow> ('g, 'h, 'f) DumboMVBA \<Rightarrow> string \<Rightarrow> int \<Rightarrow> prepare_state \<Rightarrow> ReceivedMessage \<Rightarrow>
   prepare_state \<times> (int \<times> ProtocolMessage) list \<times> int phase" where
  "prepare_body B m sid leader st received = (case received of (from, p) \<Rightarrow>
     (case pm_Body p of
        RcPrepare msg \<Rightarrow>
          (if rp_Leader msg \<noteq> leader \<or> rp_SID msg \<noteq> sid @ ''RCprepare'' then (st, [], Running)
           else if from \<in> pr_rcSeen st then (st, [], Running)
           else let st = st\<lparr> pr_rcSeen := insert from (pr_rcSeen st),
                             pr_hasValidLock := pr_hasValidLock st \<or> prepare_lock_ok B m sid leader msg \<rparr>
                in (st, [], if int (card (pr_rcSeen st)) \<ge> 2 * dm_F m + 1
                            then Returned (if pr_hasValidLock st then 1 else 0) else Running))
      | _ \<Rightarrow> (st, [], Running)))"

definition runRCPrepare ::
  "('g, 'h, 'f) bls \<Rightarrow> ('g, 'h, 'f) DumboMVBA \<Rightarrow> string \<Rightarrow> int \<Rightarrow> ReceivedMessage list \<Rightarrow>
   prepare_state \<times> (int \<times> ProtocolMessage) list \<times> int phase \<times> ReceivedMessage list" where
  "runRCPrepare B m sid leader recv = loop (prepare_body B m sid leader) \<lparr> pr_rcSeen = {}, pr_hasValidLock = False \<rparr> recv"

section \<open>Collecting stripes\<close>

record rc_state =
  rc_commit :: "bytes \<rightharpoonup> bytes option list"
  rc_seenStoreBySender :: "int set"
  rc_rebroadcastLock :: bool

definition rc_k :: "('g, 'h, 'f) DumboMVBA \<Rightarrow> int" where
  "rc_k m = (let k = dm_N m - 2 * dm_F m in if k \<le> 0 then 1 else k)"

definition countNonNilShards :: "bytes option list \<Rightarrow> nat" where
  "countNonNilShards shards = length (filter (\<lambda>x. x \<noteq> None) shards)"

definition rc_message :: "mvba_body \<Rightarrow> ProtocolMessage" where
  "rc_message body = \<lparr> pm_Tag = TagMVBARC, pm_Round = 0, pm_Leader = 0, pm_Body = body \<rparr>"

text \<open>Decoding under a certified root, with the root computed again from the decoded value.\<close>

definition rc_decode :: "rs \<Rightarrow> ('g, 'h, 'f) DumboMVBA \<Rightarrow> bytes \<Rightarrow> bytes option list \<Rightarrow> bytes phase" where
  "rc_decode R m root shards =
     (if int (countNonNilShards shards) \<ge> rc_k m then
        (case erasureDecodeValue R shards (rc_k m) (dm_N m) of
           Error \<Rightarrow> Running
         | Panic \<Rightarrow> Crashed
         | Value val \<Rightarrow>
             (case erasureEncodeValue R val (rc_k m) (dm_N m) of
                None \<Rightarrow> Running
              | Some reencoded \<Rightarrow> if fst (buildMerkle reencoded) = root then Returned val else Running))
      else Running)"

definition on_rcLock ::
  "('g, 'h, 'f) bls \<Rightarrow> rs \<Rightarrow> ('g, 'h, 'f) DumboMVBA \<Rightarrow> string \<Rightarrow> rc_state \<Rightarrow> pdLockMsg \<Rightarrow>
   rc_state \<times> (int \<times> ProtocolMessage) list \<times> bytes phase" where
  "on_rcLock B R m sid st msg =
     (if lm_SID msg \<noteq> sid then (st, [], Running)
      else if lm_Leader msg < 0 \<or> lm_Leader msg \<ge> dm_N m \<or> \<not> verifyThresholdCertificate B (dm_signer m) ''PD_STORED''
        (pdCertificateDigest ''PD_STORED'' sid (lm_Leader msg) (lm_Root msg)) (lm_Certificate msg) (dm_N m - dm_F m)
        then (st, [], Running)
      else (st\<lparr> rc_rebroadcastLock := True \<rparr>,
            if \<not> rc_rebroadcastLock st then broadcast (dm_N m) (rc_message (PdLock msg)) else [],
            case rc_commit st (lm_Root msg) of None \<Rightarrow> Running | Some shards \<Rightarrow> rc_decode R m (lm_Root msg) shards))"

definition on_rcStore ::
  "('g, 'h, 'f) DumboMVBA \<Rightarrow> string \<Rightarrow> rc_state \<Rightarrow> rcStoreMsg \<Rightarrow> rc_state \<times> (int \<times> ProtocolMessage) list \<times> bytes phase" where
  "on_rcStore m sid st msg =
     (if rcs_SID msg \<noteq> sid then (st, [], Running)
      else if rcs_From msg \<in> rc_seenStoreBySender st then (st, [], Running)
      else if \<not> verifyMerkle (rcs_Stripe msg) (rcs_Root msg) (rcs_Branch msg) then (st, [], Running)
      else let st = st\<lparr> rc_seenStoreBySender := insert (rcs_From msg) (rc_seenStoreBySender st) \<rparr>;
               shards = (case rc_commit st (rcs_Root msg) of None \<Rightarrow> replicate (nat (dm_N m)) None | Some shards \<Rightarrow> shards)
           in if rcs_From msg < 0 \<or> int (length shards) \<le> rcs_From msg then (st, [], Crashed)
              else (st\<lparr> rc_commit := (rc_commit st)(rcs_Root msg \<mapsto> shards[nat (rcs_From msg) := clone_shard (rcs_Stripe msg)]) \<rparr>,
                    [], Running))"

definition rc_body ::
  "('g, 'h, 'f) bls \<Rightarrow> rs \<Rightarrow> ('g, 'h, 'f) DumboMVBA \<Rightarrow> string \<Rightarrow> rc_state \<Rightarrow> ReceivedMessage \<Rightarrow>
   rc_state \<times> (int \<times> ProtocolMessage) list \<times> bytes phase" where
  "rc_body B R m sid st received = (case received of (from, p) \<Rightarrow>
     (case pm_Body p of
        PdLock msg \<Rightarrow> on_rcLock B R m sid st msg
      | RcStore msg \<Rightarrow> on_rcStore m sid st msg
      | _ \<Rightarrow> (st, [], Running)))"

definition rc_initial :: rc_state where
  "rc_initial = \<lparr> rc_commit = Map.empty, rc_seenStoreBySender = {}, rc_rebroadcastLock = False \<rparr>"

definition runRCSubprotocol ::
  "('g, 'h, 'f) bls \<Rightarrow> rs \<Rightarrow> ('g, 'h, 'f) DumboMVBA \<Rightarrow> string \<Rightarrow> ReceivedMessage list \<Rightarrow> rcStoreMsg option \<Rightarrow> pdLockMsg option \<Rightarrow>
   rc_state \<times> (int \<times> ProtocolMessage) list \<times> bytes phase \<times> ReceivedMessage list" where
  "runRCSubprotocol B R m sid recv store lock =
     (let own = (case lock of None \<Rightarrow> [] | Some l \<Rightarrow> broadcast (dm_N m) (rc_message (PdLock l))) @
                (case store of None \<Rightarrow> [] | Some st \<Rightarrow> broadcast (dm_N m) (rc_message (RcStore st)))
      in case loop (rc_body B R m sid) rc_initial recv of (st, sends, ph, rest) \<Rightarrow> (st, own @ sends, ph, rest))"

section \<open>What a retrieved value is\<close>

text \<open>The certified locks delivered to a node for an instance.\<close>

definition locks_received :: "('g, 'h, 'f) bls \<Rightarrow> ('g, 'h, 'f) DumboMVBA \<Rightarrow> string \<Rightarrow> ReceivedMessage list \<Rightarrow> pdLockMsg set" where
  "locks_received B m sid recv = {k. lm_SID k = sid \<and> 0 \<le> lm_Leader k \<and> lm_Leader k < dm_N m \<and>
     verifyThresholdCertificate B (dm_signer m) ''PD_STORED''
       (pdCertificateDigest ''PD_STORED'' sid (lm_Leader k) (lm_Root k)) (lm_Certificate k) (dm_N m - dm_F m) \<and>
     (\<exists>(sender, p) \<in> set recv. pm_Body p = PdLock k)}"

lemma unpack_length: "unpackValue raw = Value v \<Longrightarrow> length v \<le> 2 ^ 48"
  by (auto simp: unpackValue_def Let_def split: if_splits)

lemma decode_length: "erasureDecodeValue R shards k n = Value v \<Longrightarrow> length v \<le> 2 ^ 48"
  by (auto simp: erasureDecodeValue_def Let_def dest: unpack_length split: if_splits option.splits)

lemma rc_decode_returned:
  assumes "rc_decode R m root shards = Returned v"
  shows "value_root R v (rc_k m) (dm_N m) = Some root \<and> length v \<le> 2 ^ 48"
  using assms by (auto simp: rc_decode_def value_root_def dest: decode_length split: if_splits outcome.splits option.splits)

lemma rc_returned:
  assumes "runRCSubprotocol B R m sid recv store lock = (st, sends, Returned v, rest)"
  shows "\<exists>k \<in> locks_received B m sid recv. value_root R v (rc_k m) (dm_N m) = Some (lm_Root k) \<and> length v \<le> 2 ^ 48"
proof -
  obtain s where s: "loop (rc_body B R m sid) rc_initial recv = (st, s, Returned v, rest)"
    using assms by (auto simp: runRCSubprotocol_def Let_def split: prod.splits)
  obtain pre msg st1 s1 where e: "recv = pre @ msg # rest" "rc_body B R m sid st1 msg = (st, s1, Returned v)"
    using loop_ended [OF s] by auto
  obtain sender p where msg: "msg = (sender, p)" by (cases msg)
  show ?thesis
  proof (cases "pm_Body p")
    case (PdLock k)
    then obtain shards where "k \<in> locks_received B m sid recv" "rc_decode R m (lm_Root k) shards = Returned v"
      using e msg by (auto simp: rc_body_def on_rcLock_def locks_received_def split: if_splits option.splits)
    then show ?thesis using rc_decode_returned by blast
  next
    case (RcStore x)
    then show ?thesis using e msg by (auto simp: rc_body_def on_rcStore_def Let_def split: if_splits)
  qed (use e msg in \<open>auto simp: rc_body_def\<close>)
qed

text \<open>Honest nodes agree on what they retrieve: when two honest nodes return from retrieving the value of one leader,
  whatever stripes and locks the faulty nodes fed them, they return the same value, provided that each certificate
  they accepted stands for signatures of \<open>n - f\<close> members; otherwise the signed statements or the two trees
  exhibit a SHA-256 collision.\<close>

lemma retrieval_agreement:
  assumes ok: "session_ok s" and nodes: "i \<in> se_honest s" "j \<in> se_honest s" and l: "0 \<le> l" "l < se_n s"
    and coding: "coding_ok R (se_n s - 2 * se_f s) (se_n s)"
    and v: "runRCSubprotocol B R (se_node s i) (pd_sid (se_sid s) l) recv1 store1 lock1 = (st1, sends1, Returned v, rest1)"
    and w: "runRCSubprotocol B R (se_node s j) (pd_sid (se_sid s) l) recv2 store2 lock2 = (st2, sends2, Returned w, rest2)"
    and certified: "\<forall>k \<in> locks_received B (se_node s i) (pd_sid (se_sid s) l) recv1 \<union> locks_received B (se_node s j) (pd_sid (se_sid s) l) recv2.
      backed s (se_n s - se_f s) (signs_stored B R s (pdCertificateDigest ''PD_STORED'' (lm_SID k) (lm_Leader k) (lm_Root k)))"
  shows "v = w \<or>
    collide (value_messages R v (se_n s - 2 * se_f s) (se_n s)) (value_messages R w (se_n s - 2 * se_f s) (se_n s)) \<or>
    (\<exists>k1 \<in> locks_received B (se_node s i) (pd_sid (se_sid s) l) recv1. \<exists>k2 \<in> locks_received B (se_node s j) (pd_sid (se_sid s) l) recv2.
       clash {pd_message ''PD_STORED'' (pd_sid (se_sid s) l) (lm_Leader k1) (lm_Root k1),
       pd_message ''PD_STORED'' (pd_sid (se_sid s) l) (lm_Leader k2) (lm_Root k2)} (stored_messages B R s))"
proof -
  have cfg: "dm_N (se_node s i) = se_n s" "rc_k (se_node s i) = se_n s - 2 * se_f s"
    "dm_N (se_node s j) = se_n s" "rc_k (se_node s j) = se_n s - 2 * se_f s"
    using ok nodes by (auto simp: session_ok_def rc_k_def)
  obtain k1 where k1: "k1 \<in> locks_received B (se_node s i) (pd_sid (se_sid s) l) recv1"
      "value_root R v (se_n s - 2 * se_f s) (se_n s) = Some (lm_Root k1)" "length v \<le> 2 ^ 48"
    using rc_returned [OF v] cfg by auto
  obtain k2 where k2: "k2 \<in> locks_received B (se_node s j) (pd_sid (se_sid s) l) recv2"
      "value_root R w (se_n s - 2 * se_f s) (se_n s) = Some (lm_Root k2)" "length w \<le> 2 ^ 48"
    using rc_returned [OF w] cfg by auto
  have range: "0 \<le> lm_Leader k1" "lm_Leader k1 < se_n s" "0 \<le> lm_Leader k2" "lm_Leader k2 < se_n s"
    "lm_SID k1 = pd_sid (se_sid s) l" "lm_SID k2 = pd_sid (se_sid s) l"
    using k1(1) k2(1) cfg by (auto simp: locks_received_def)
  have "lm_Root k1 = lm_Root k2 \<or> clash {pd_message ''PD_STORED'' (pd_sid (se_sid s) l) (lm_Leader k1) (lm_Root k1),
       pd_message ''PD_STORED'' (pd_sid (se_sid s) l) (lm_Leader k2) (lm_Root k2)} (stored_messages B R s)"
  proof (rule lock_unique [OF ok l range(1-4)])
    have "backed s (se_n s - se_f s) (signs_stored B R s (pdCertificateDigest ''PD_STORED'' (lm_SID k1) (lm_Leader k1) (lm_Root k1)))"
      "backed s (se_n s - se_f s) (signs_stored B R s (pdCertificateDigest ''PD_STORED'' (lm_SID k2) (lm_Leader k2) (lm_Root k2)))"
      using certified k1(1) k2(1) by simp_all
    then show "backed s (se_n s - se_f s) (signs_stored B R s (pdCertificateDigest ''PD_STORED'' (pd_sid (se_sid s) l) (lm_Leader k1) (lm_Root k1)))"
      "backed s (se_n s - se_f s) (signs_stored B R s (pdCertificateDigest ''PD_STORED'' (pd_sid (se_sid s) l) (lm_Leader k2) (lm_Root k2)))"
      unfolding range(5,6) .
  qed
  then show ?thesis
  proof
    assume "lm_Root k1 = lm_Root k2"
    then have "v = w \<or> collide (value_messages R v (se_n s - 2 * se_f s) (se_n s)) (value_messages R w (se_n s - 2 * se_f s) (se_n s))"
      using root_binds_value [OF coding k1(3) k2(3) k1(2)] k2(2) by simp
    then show ?thesis by blast
  qed (use k1(1) k2(1) in blast)
qed


section \<open>Genuine stripes are retrieved\<close>

text \<open>A store that an honest holder of the stripes \<open>E\<close> sends.\<close>

definition genuine_store :: "string \<Rightarrow> bytes list \<Rightarrow> int \<Rightarrow> rcStoreMsg" where
  "genuine_store sid E j = \<lparr> rcs_SID = sid, rcs_Root = fst (buildMerkle E), rcs_From = j, rcs_Stripe = E ! nat j,
     rcs_Branch = snd (buildMerkle E) ! nat j \<rparr>"

definition stores_only :: "string \<Rightarrow> bytes list \<Rightarrow> int list \<Rightarrow> ReceivedMessage list \<Rightarrow> bool" where
  "stores_only sid E holders recv \<longleftrightarrow> map (\<lambda>(_, p). pm_Body p) recv = map (\<lambda>j. RcStore (genuine_store sid E j)) holders"

definition holds_stripes :: "bytes list \<Rightarrow> int list \<Rightarrow> rc_state \<Rightarrow> bool" where
  "holds_stripes E holders st \<longleftrightarrow> rc_seenStoreBySender st = set holders \<and>
     rc_commit st (fst (buildMerkle E)) =
       (if holders = [] then None
        else Some (map (\<lambda>i. if int i \<in> set holders then Some (E ! i) else None) [0..<length E]))"

lemma store_step:
  assumes inv: "holds_stripes E holders st" and E: "int (length E) = dm_N m" "\<forall>x \<in> set E. x \<noteq> []"
    and j: "0 \<le> j" "j < dm_N m" "j \<notin> set holders"
  shows "\<exists>st'. on_rcStore m sid st (genuine_store sid E j) = (st', [], Running) \<and> holds_stripes E (holders @ [j]) st'"
proof -
  let ?root = "fst (buildMerkle E)"
  let ?shards = "case rc_commit st ?root of None \<Rightarrow> replicate (nat (dm_N m)) None | Some shards \<Rightarrow> shards"
  have ji: "nat j < length E" using E j by auto
  have len: "length ?shards = length E" using inv E by (auto simp: holds_stripes_def)
  have ver: "verifyMerkle (E ! nat j) ?root (snd (buildMerkle E) ! nat j)" by (rule built_branch_verifies [OF ji])
  have clone: "clone_shard (E ! nat j) = Some (E ! nat j)" using E(2) ji by (simp add: clone_shard_def)
  have sh: "?shards[nat j := Some (E ! nat j)] = map (\<lambda>i. if int i \<in> set (holders @ [j]) then Some (E ! i) else None) [0..<length E]"
  proof (rule nth_equalityI)
    fix i assume "i < length (?shards[nat j := Some (E ! nat j)])"
    then have i: "i < length E" using len by simp
    then have "?shards ! i = (if int i \<in> set holders then Some (E ! i) else None)"
      using inv E by (cases "holders = []") (auto simp: holds_stripes_def)
    then show "?shards[nat j := Some (E ! nat j)] ! i = map (\<lambda>i. if int i \<in> set (holders @ [j]) then Some (E ! i) else None) [0..<length E] ! i"
      using i j len by (auto simp: nth_list_update)
  qed (use len in simp)
  have inr: "\<not> (j < 0 \<or> int (length ?shards) \<le> j)" using len E j by simp
  show ?thesis
    using inv j(3) ver clone inr sh
    by (auto simp: on_rcStore_def genuine_store_def Let_def holds_stripes_def)
qed

lemma loop_append:
  "loop body st xs = (st', s, Running, []) \<Longrightarrow> loop body st' ys = (st'', s', ph, rest) \<Longrightarrow>
   loop body st (xs @ ys) = (st'', s @ s', ph, rest)"
  by (induction body st xs arbitrary: s rule: loop.induct) (auto split: prod.splits phase.splits)

lemma stores_loop:
  assumes "stores_only sid E js recv" "distinct (holders @ js)" "\<forall>j \<in> set js. 0 \<le> j \<and> j < dm_N m"
    and "holds_stripes E holders st" "int (length E) = dm_N m" "\<forall>x \<in> set E. x \<noteq> []"
  shows "\<exists>st'. loop (rc_body B R m sid) st recv = (st', [], Running, []) \<and> holds_stripes E (holders @ js) st'"
  using assms
proof (induction js arbitrary: recv holders st)
  case Nil
  then show ?case by (simp add: stores_only_def)
next
  case (Cons j js)
  obtain sender p recv' where r: "recv = (sender, p) # recv'" "pm_Body p = RcStore (genuine_store sid E j)" "stores_only sid E js recv'"
    using Cons.prems(1) by (auto simp: stores_only_def map_eq_Cons_conv)
  obtain st1 where st1: "on_rcStore m sid st (genuine_store sid E j) = (st1, [], Running)" "holds_stripes E (holders @ [j]) st1"
    using store_step [OF Cons.prems(4,5,6), of j sid] Cons.prems(2,3) by auto
  obtain st2 where "loop (rc_body B R m sid) st1 recv' = (st2, [], Running, [])" "holds_stripes E ((holders @ [j]) @ js) st2"
    using Cons.IH [OF r(3) _ _ st1(2) Cons.prems(5,6)] Cons.prems(2,3) by auto
  moreover have "rc_body B R m sid st (sender, p) = (st1, [], Running)" using r(2) st1(1) by (simp add: rc_body_def)
  ultimately show ?case using r(1) by simp
qed

lemma count_present: "countNonNilShards sh = present sh"
  by (simp add: countNonNilShards_def present_def length_filter_conv_card)

text \<open>What a node holds after the stripes of \<open>holders\<close>.\<close>

lemma stripes_collected:
  assumes stores: "stores_only sid E holders recv" "distinct holders" "\<forall>j \<in> set holders. 0 \<le> j \<and> j < dm_N m" "holders \<noteq> []"
    and E: "int (length E) = dm_N m" "\<forall>x \<in> set E. x \<noteq> []"
  obtains st sh where "loop (rc_body B R m sid) rc_initial recv = (st, [], Running, [])"
    "rc_commit st (fst (buildMerkle E)) = Some sh" "agrees sh E" "present sh = length holders"
proof -
  obtain st where st: "loop (rc_body B R m sid) rc_initial recv = (st, [], Running, [])" "holds_stripes E holders st"
    using stores_loop [OF stores(1) _ stores(3) _ E, of "[]" rc_initial B R] stores(2)
    by (auto simp: holds_stripes_def rc_initial_def)
  let ?sh = "map (\<lambda>i. if int i \<in> set holders then Some (E ! i) else None) [0..<length E]"
  have commit: "rc_commit st (fst (buildMerkle E)) = Some ?sh" using st(2) stores(4) by (simp add: holds_stripes_def)
  have "{i. i < length ?sh \<and> ?sh ! i \<noteq> None} = {i. i < length E \<and> int i \<in> set holders}" by (auto split: if_splits)
  also have "\<dots> = nat ` set holders"
  proof
    show "{i. i < length E \<and> int i \<in> set holders} \<subseteq> nat ` set holders" by (force simp: image_iff)
    show "nat ` set holders \<subseteq> {i. i < length E \<and> int i \<in> set holders}" using stores(3) E by auto
  qed
  finally have idx: "{i. i < length ?sh \<and> ?sh ! i \<noteq> None} = nat ` set holders" .
  have "card (nat ` set holders) = length holders"
    using stores(2,3) by (subst card_image) (auto simp: inj_on_def distinct_card eq_nat_nat_iff)
  then have pr: "present ?sh = length holders" unfolding present_def idx .
  show thesis by (rule that [OF st(1) commit _ pr]) (simp add: agrees_def)
qed

text \<open>The lock then decides what the retrieval gives.\<close>

lemma lock_decodes:
  assumes "loop (rc_body B R m sid) rc_initial recv = (st, [], Running, [])" "rc_commit st (lm_Root k) = Some sh"
    and "pm_Body p = PdLock k" "k \<in> locks_received B m sid [(sender, p)]" "rc_decode R m (lm_Root k) sh = ph" "ph \<noteq> Running"
  shows "\<exists>st' sends. runRCSubprotocol B R m sid (recv @ [(sender, p)]) store own = (st', sends, ph, [])"
proof -
  obtain st' s' where "loop (rc_body B R m sid) st [(sender, p)] = (st', s', ph, [])"
    using assms(2-6) by (cases ph) (auto simp: rc_body_def on_rcLock_def locks_received_def)
  from loop_append [OF assms(1) this] show ?thesis by (simp add: runRCSubprotocol_def Let_def)
qed

lemma stripes_retrieved:
  assumes coding: "coding_ok R (rc_k m) (dm_N m)" and v: "length v \<le> 2 ^ 48"
    and E: "erasureEncodeValue R v (rc_k m) (dm_N m) = Some E"
    and stores: "stores_only sid E holders recv" "distinct holders" "\<forall>j \<in> set holders. 0 \<le> j \<and> j < dm_N m"
      "rc_k m \<le> int (length holders)"
    and lock: "pm_Body p = PdLock k" "k \<in> locks_received B m sid [(sender, p)]" "lm_Root k = fst (buildMerkle E)"
  shows "\<exists>st sends. runRCSubprotocol B R m sid (recv @ [(sender, p)]) store own = (st, sends, Returned v, [])"
proof -
  obtain E' where E': "erasureEncodeValue R v (rc_k m) (dm_N m) = Some E'" "length E' = nat (dm_N m)" "\<forall>x \<in> set E'. x \<noteq> []"
      "\<And>sh. agrees sh E' \<Longrightarrow> nat (rc_k m) \<le> present sh \<Longrightarrow> erasureDecodeValue R sh (rc_k m) (dm_N m) = Value v"
    using encode_value [OF coding v] by metis
  have n: "0 < rc_k m" "rc_k m \<le> dm_N m" using coding by (auto simp: coding_ok_def code_ok_def)
  have EE: "E' = E" using E' E by simp
  have ne: "holders \<noteq> []" and len: "int (length E) = dm_N m" using stores(4) n E'(2) EE by auto
  obtain st sh where st: "loop (rc_body B R m sid) rc_initial recv = (st, [], Running, [])"
    "rc_commit st (fst (buildMerkle E)) = Some sh" "agrees sh E" "present sh = length holders"
    by (rule stripes_collected [OF stores(1-3) ne len]) (use E'(3) EE in auto)
  have "erasureDecodeValue R sh (rc_k m) (dm_N m) = Value v" using E'(4) st(3,4) stores(4) EE by simp
  then have "rc_decode R m (lm_Root k) sh = Returned v"
    using st(4) stores(4) E lock(3) by (simp add: rc_decode_def count_present)
  then show ?thesis using lock_decodes [OF st(1) _ lock(1,2)] st(2) lock(3) by simp
qed

text \<open>C27: retrieval succeeds: a node that has received the stripes of at least \<open>n - 2f\<close> holders of a leader's dispersal
  and then its certified lock returns exactly the leader's value.\<close>

theorem retrieval_recovers:
  assumes "coding_ok R (rc_k m) (dm_N m)" "length v \<le> 2 ^ 48"
    and "erasureEncodeValue R v (rc_k m) (dm_N m) = Some E"
    and "stores_only sid E holders recv" "distinct holders" "\<forall>j \<in> set holders. 0 \<le> j \<and> j < dm_N m"
      "rc_k m \<le> int (length holders)"
    and "pm_Body p = PdLock k" "k \<in> locks_received B m sid [(sender, p)]" "lm_Root k = fst (buildMerkle E)"
  shows "\<exists>st sends. runRCSubprotocol B R m sid (recv @ [(sender, p)]) store own = (st, sends, Returned v, [])"
  by (rule stripes_retrieved [OF assms])

section \<open>A message that crashes a node\<close>

text \<open>The sender of a store is not checked against the roster: a peer, without any signature, can make an honest node
  that retrieves index its stripes out of range, which panics; a store names its own sender, and a tree of one
  leaf verifies.\<close>

theorem store_index_panics:
  assumes "dm_N m \<le> bad"
  shows "fst (snd (snd (runRCSubprotocol B R m sid
    ((sender, rc_message (RcStore \<lparr> rcs_SID = sid, rcs_Root = leafHash x, rcs_From = bad, rcs_Stripe = x,
       rcs_Branch = \<lparr> mb_Index = 0, mb_Siblings = [] \<rparr> \<rparr>)) # recv) store lock))) = Crashed"
  using assms by (auto simp: runRCSubprotocol_def rc_body_def rc_message_def on_rcStore_def rc_initial_def verifyMerkle_def Let_def)

text \<open>C39: the bytes a leader disperses are not looked at before they are retrieved: a faulty leader that disperses bytes whose
  first eight, read as a number, are at least \<open>2 ^ 63 - 8\<close>, and so gets them certified, makes every node that
  retrieves them panic.\<close>

theorem malformed_dispersal_crashes:
  assumes coding: "coding_ok R (rc_k m) (dm_N m)"
    and raw: "8 \<le> length raw" "length raw + nat (dm_N m) \<le> 2 ^ 48" "2 ^ 63 - 8 \<le> get_be (take 8 raw)"
    and E: "raw_stripes R raw (rc_k m) (dm_N m) = Some E"
    and stores: "stores_only sid E holders recv" "distinct holders" "\<forall>j \<in> set holders. 0 \<le> j \<and> j < dm_N m"
      "rc_k m \<le> int (length holders)"
    and lock: "pm_Body p = PdLock k" "k \<in> locks_received B m sid [(sender, p)]" "lm_Root k = fst (buildMerkle E)"
  shows "\<exists>st sends. runRCSubprotocol B R m sid (recv @ [(sender, p)]) store own = (st, sends, Crashed, [])"
proof -
  have rne: "raw \<noteq> []" using raw by auto
  have n: "0 < rc_k m" "rc_k m \<le> dm_N m" using coding by (auto simp: coding_ok_def code_ok_def)
  obtain E' where E': "raw_stripes R raw (rc_k m) (dm_N m) = Some E'" "length E' = nat (dm_N m)" "\<forall>x \<in> set E'. x \<noteq> []"
      "\<And>sh. agrees sh E' \<Longrightarrow> nat (rc_k m) \<le> present sh \<Longrightarrow> erasureDecodeValue R sh (rc_k m) (dm_N m) = unpackValue (joined raw (rc_k m) (dm_N m))"
    using raw_coding [OF coding rne] by metis
  have EE: "E' = E" using E' E by simp
  have ne: "holders \<noteq> []" and len: "int (length E) = dm_N m" using stores(4) n E'(2) EE by auto
  obtain st sh where st: "loop (rc_body B R m sid) rc_initial recv = (st, [], Running, [])"
    "rc_commit st (fst (buildMerkle E)) = Some sh" "agrees sh E" "present sh = length holders"
    by (rule stripes_collected [OF stores(1-3) ne len]) (use E'(3) EE in auto)
  have "pad_length (rc_k m) raw \<le> nat (rc_k m)" using n by (simp add: pad_length_def less_imp_le)
  also have "nat (rc_k m) \<le> nat (dm_N m)" using n by simp
  finally have j: "length (joined raw (rc_k m) (dm_N m)) \<le> 2 ^ 48" "8 \<le> length (joined raw (rc_k m) (dm_N m))"
      "take 8 (joined raw (rc_k m) (dm_N m)) = take 8 raw"
    using raw by (auto simp: joined_def)
  have "unpackValue (joined raw (rc_k m) (dm_N m)) = Panic" using unpack_panics_iff [OF j(1)] j(2,3) raw(3) by simp
  then have "erasureDecodeValue R sh (rc_k m) (dm_N m) = Panic" using E'(4) st(3,4) stores(4) EE by simp
  then have "rc_decode R m (lm_Root k) sh = Crashed" using st(4) stores(4) by (simp add: rc_decode_def count_present)
  then show ?thesis using lock_decodes [OF st(1) _ lock(1,2)] st(2) lock(3) by simp
qed


section \<open>Ballots\<close>

definition prepare_for :: "string \<Rightarrow> int \<Rightarrow> rcPrepareMsg \<Rightarrow> bool" where
  "prepare_for sid leader msg \<longleftrightarrow> rp_Leader msg = leader \<and> rp_SID msg = sid @ ''RCprepare''"

definition prepare_inv ::
  "('g, 'h, 'f) bls \<Rightarrow> ('g, 'h, 'f) DumboMVBA \<Rightarrow> string \<Rightarrow> int \<Rightarrow> ReceivedMessage list \<Rightarrow> prepare_state \<Rightarrow> bool" where
  "prepare_inv B m sid l recv st \<longleftrightarrow> finite (pr_rcSeen st) \<and>
     (\<forall>i \<in> pr_rcSeen st. \<exists>(j, p) \<in> set recv. \<exists>msg. j = i \<and> pm_Body p = RcPrepare msg \<and> prepare_for sid l msg \<and>
        (prepare_lock_ok B m sid l msg \<longrightarrow> pr_hasValidLock st)) \<and>
     (pr_hasValidLock st \<longrightarrow> (\<exists>(j, p) \<in> set recv. \<exists>msg. pm_Body p = RcPrepare msg \<and> prepare_for sid l msg \<and> prepare_lock_ok B m sid l msg))"

lemma prepare_body_inv:
  assumes inv: "prepare_inv B m sid l recv st" and mem: "received \<in> set recv"
    and b: "prepare_body B m sid l st received = (st1, s1, ph1)"
  shows "prepare_inv B m sid l recv st1"
proof -
  obtain i p where r: "received = (i, p)" by (cases received)
  show ?thesis
  proof (cases "\<exists>msg. pm_Body p = RcPrepare msg \<and> prepare_for sid l msg \<and> i \<notin> pr_rcSeen st")
    case True
    then obtain msg where msg: "pm_Body p = RcPrepare msg" "prepare_for sid l msg" "i \<notin> pr_rcSeen st" by blast
    have "st1 = st\<lparr> pr_rcSeen := insert i (pr_rcSeen st), pr_hasValidLock := pr_hasValidLock st \<or> prepare_lock_ok B m sid l msg \<rparr>"
      using b r msg by (auto simp: prepare_body_def prepare_for_def Let_def)
    then show ?thesis using inv mem r msg unfolding prepare_inv_def by fastforce
  next
    case False
    then have "st1 = st" using b r by (cases "pm_Body p") (auto simp: prepare_body_def prepare_for_def split: if_splits)
    then show ?thesis using inv by simp
  qed
qed

lemma prepare_run_inv:
  assumes "runRCPrepare B m sid l recv = (st, sends, ph, rest)"
  shows "prepare_inv B m sid l recv st"
proof (rule loop_invariant [OF assms [unfolded runRCPrepare_def], where P = "\<lambda>st _. prepare_inv B m sid l recv st"])
  show "prepare_inv B m sid l recv \<lparr> pr_rcSeen = {}, pr_hasValidLock = False \<rparr>" by (simp add: prepare_inv_def)
qed (rule prepare_body_inv)

lemma prepare_returned:
  assumes "runRCPrepare B m sid l recv = (st, sends, Returned b, rest)"
  shows "2 * dm_F m + 1 \<le> int (card (pr_rcSeen st)) \<and> b = (if pr_hasValidLock st then 1 else 0)"
proof -
  obtain pre msg st1 s1 where "prepare_body B m sid l st1 msg = (st, s1, Returned b)"
    using loop_ended [OF assms [unfolded runRCPrepare_def]] by auto
  then show ?thesis by (cases msg; cases "pm_Body (snd msg)") (auto simp: prepare_body_def Let_def split: if_splits)
qed

text \<open>Ballots: a node's ballot for a leader is one exactly with a certified lock of that leader at hand, and when at
  least \<open>n - 2f\<close> nodes hold such a lock and send it in their prepare messages, the ballot of every node that ends
  the phase is one, whichever \<open>2f + 1\<close> nodes it heard.\<close>

theorem dispersed_leader_ballot:
  assumes run: "runRCPrepare B m sid l recv = (st, sends, Returned b, rest)"
    and members: "0 \<le> dm_N m" "\<forall>(j, p) \<in> set recv. 0 \<le> j \<and> j < dm_N m"
    and holders: "H \<subseteq> {0..<dm_N m}" "dm_N m - 2 * dm_F m \<le> int (card H)"
      "\<forall>(j, p) \<in> set recv. \<forall>msg. j \<in> H \<longrightarrow> pm_Body p = RcPrepare msg \<longrightarrow> prepare_for sid l msg \<longrightarrow> prepare_lock_ok B m sid l msg"
  shows "b = 1 \<and> (\<exists>(j, p) \<in> set recv. \<exists>msg. pm_Body p = RcPrepare msg \<and> prepare_for sid l msg \<and> prepare_lock_ok B m sid l msg)"
proof -
  note inv = prepare_run_inv [OF run, unfolded prepare_inv_def] and ret = prepare_returned [OF run]
  have sub: "pr_rcSeen st \<subseteq> {0..<dm_N m}" using inv members(2) by fastforce
  have "pr_rcSeen st \<inter> H \<noteq> {}"
  proof
    assume "pr_rcSeen st \<inter> H = {}"
    then have "card (pr_rcSeen st) + card H = card (pr_rcSeen st \<union> H)"
      using inv holders(1) finite_subset by (subst card_Un_disjoint) auto
    also have "\<dots> \<le> card {0..<dm_N m}" using sub holders(1) by (intro card_mono) auto
    also have "\<dots> = nat (dm_N m)" by simp
    finally have sum: "card (pr_rcSeen st) + card H \<le> nat (dm_N m)" .
    then show False using members(1) ret holders(2) by linarith
  qed
  then obtain i where i: "i \<in> pr_rcSeen st" "i \<in> H" by blast
  then obtain p msg where "(i, p) \<in> set recv" "pm_Body p = RcPrepare msg" "prepare_for sid l msg"
      "prepare_lock_ok B m sid l msg \<longrightarrow> pr_hasValidLock st"
    using inv by fastforce
  then have "pr_hasValidLock st" using holders(3) i(2) by blast
  then show ?thesis using inv ret by auto
qed

text \<open>Ballots that come early are lost: the channel of the prepare messages is shared by the rounds and a round
  discards the messages of other leaders, so with four nodes, one of them silent in the second round, a node that
  was sent the ballots of all three others for both rounds waits for ever in the second.\<close>

theorem early_ballots_lost:
  assumes cfg: "dm_N m = 4" "dm_F m = 1" and ll: "l \<noteq> l'"
    and msg: "\<And>i x. pm_Body (msg i x) = RcPrepare \<lparr> rp_SID = sid @ ''RCprepare'', rp_Leader = x, rp_Lock = None \<rparr>"
  shows "\<exists>st. runRCPrepare B m sid l [(0, msg 0 l), (1, msg 1 l), (1, msg 1 l'), (2, msg 2 l)] = (st, [], Returned 0, []) \<and>
    (\<exists>st'. runRCPrepare B m sid l' ([] @ [(0, msg 0 l'), (2, msg 2 l')]) = (st', [], Running, []))"
  using assms by (simp add: runRCPrepare_def prepare_body_def Let_def prepare_lock_ok_def)

end
