(* ===== verification/Mvba_Binary.thy ===== *)
theory Mvba_Binary
  imports Mvba_Dispersal
begin

text \<open>
  The common coin and the binary agreement of the agreement protocol:
  \<^verbatim>\<open>src/experiments/dumbomvba-go/core/coin_equivalent.go\<close> and \<^verbatim>\<open>aba_equivalent.go\<close>.  Both are loops over a channel; the
  coin is an argument of the binary agreement, as in the code, and may still be waiting for shares.  The binary
  agreement is also put into a system of nodes that deliver each other's messages in any order, as an inductive
  step relation.  The results: the coin gives all nodes one value; nodes with one input return that input; and,
  with no faulty node at all, there are schedules under which two nodes return different bits, whatever the coin.
\<close>

section \<open>The common coin\<close>

text \<open>\<^verbatim>\<open>int(binary.BigEndian.Uint64(h[:8]) & 0x7fffffff)\<close>.\<close>

definition coin_int :: "bytes \<Rightarrow> int" where
  "coin_int h = int (get_be (take 8 h) mod 2 ^ 31)"

definition deriveCoinValue :: "string \<Rightarrow> string \<Rightarrow> string \<Rightarrow> (int \<times> bytes) list \<Rightarrow> int" where
  "deriveCoinValue mode sid nonce shares =
     (let mode = (if mode = '''' then ''signature'' else mode) in
      if mode = ''deterministic'' then coin_int (hashBytes [str_bytes ''EQ_COIN_DET'', str_bytes sid, str_bytes nonce])
      else let keys = sort (map fst shares);
               buf = concat (map (\<lambda>k. str_bytes (itoa k @ '':'') @ the (map_of shares k)) keys)
           in coin_int (hashBytes [str_bytes ''EQ_COIN_SIG'', str_bytes sid, str_bytes nonce, buf]))"

definition coin_digest :: "string \<Rightarrow> string \<Rightarrow> bytes" where
  "coin_digest sid nonce = hashBytes [str_bytes ''EQ_COIN'', str_bytes sid, [0], str_bytes nonce]"

text \<open>The head of the loop: enough shares give the value.  The signer of the core is a threshold signer.\<close>

definition coin_check ::
  "('g, 'h, 'f::field) bls \<Rightarrow> ('g, 'h, 'f) DumboMVBA \<Rightarrow> string \<Rightarrow> string \<Rightarrow> (int \<times> bytes) list \<Rightarrow> int phase" where
  "coin_check B m sid nonce shares =
     (if int (length shares) \<ge> mvbaThreshold (dm_signer m) ''EQ_COIN_SHARE'' then
        (if c_EquivalentCoinMode (dm_cfg m) \<noteq> ''deterministic'' then
           (case mvbaRecover B (dm_signer m) ''EQ_COIN_SHARE'' (coin_digest sid nonce) shares of
              None \<Rightarrow> Failed
            | Some recovered \<Rightarrow>
                if \<not> mvbaVerifyRecovered B (dm_signer m) ''EQ_COIN_SHARE'' (coin_digest sid nonce) recovered then Failed
                else Returned (coin_int (hashBytes [str_bytes ''EQ_COIN_REC'', str_bytes sid, str_bytes nonce, recovered])))
         else Returned (deriveCoinValue (c_EquivalentCoinMode (dm_cfg m)) sid nonce shares))
      else Running)"

definition coin_body ::
  "('g, 'h, 'f::field) bls \<Rightarrow> ('g, 'h, 'f) DumboMVBA \<Rightarrow> string \<Rightarrow> string \<Rightarrow> (int \<times> bytes) list \<Rightarrow> ReceivedMessage \<Rightarrow>
   (int \<times> bytes) list \<times> (int \<times> ProtocolMessage) list \<times> int phase" where
  "coin_body B m sid nonce shares received = (case received of (from, p) \<Rightarrow>
     (case pm_Body p of
        CoinShare msg \<Rightarrow>
          (if cs_SID msg \<noteq> sid \<or> cs_Nonce msg \<noteq> nonce then (shares, [], Running)
           else if from \<in> fst ` set shares then (shares, [], Running)
           else if \<not> mvbaVerify B (dm_signer m) from ''EQ_COIN_SHARE'' (coin_digest sid nonce) (cs_Share msg) then (shares, [], Running)
           else (shares @ [(from, cs_Share msg)], [], coin_check B m sid nonce (shares @ [(from, cs_Share msg)])))
      | _ \<Rightarrow> (shares, [], Running)))"

definition makeSharedCoin ::
  "('g, 'h, 'f::field) bls \<Rightarrow> ('g, 'h, 'f) DumboMVBA \<Rightarrow> string \<Rightarrow> ProtocolTag \<Rightarrow> int \<Rightarrow> ReceivedMessage list \<Rightarrow> string \<Rightarrow>
   (int \<times> bytes) list \<times> (int \<times> ProtocolMessage) list \<times> int phase \<times> ReceivedMessage list" where
  "makeSharedCoin B m sid tag round recv nonce =
     (case mvbaSign B (dm_signer m) ''EQ_COIN_SHARE'' (coin_digest sid nonce) of
        None \<Rightarrow> ([], [], Failed, recv)
      | Some share \<Rightarrow>
          (let sends = broadcast (dm_N m) \<lparr> pm_Tag = tag, pm_Round = round, pm_Leader = 0,
                 pm_Body = CoinShare \<lparr> cs_SID = sid, cs_Nonce = nonce, cs_Share = share \<rparr> \<rparr>;
               shares = [(dm_ID m, share)]
           in case coin_check B m sid nonce shares of
                Running \<Rightarrow> (case loop (coin_body B m sid nonce) shares recv of
                    (shares, sends', ph, rest) \<Rightarrow> (shares, sends @ sends', ph, rest))
              | ph \<Rightarrow> (shares, sends, ph, recv)))"

section \<open>One coin for all\<close>

lemma recover_loop_in:
  fixes B :: "('g, 'h, 'f::field) bls"
  assumes B: "bls_laws B"
  shows "recover_loop B p xs = Some q \<Longrightarrow> g1_in B p \<Longrightarrow> g1_in B q"
proof (induction xs arbitrary: p)
  case (Cons x xs)
  obtain w c where x: "x = (w, c)" by (cases x)
  obtain sig where sig: "bls_Unmarshal B w = Some sig" "recover_loop B (g1_add B p (g1_smul B sig c)) xs = Some q"
    using Cons.prems(1) by (auto simp: x bind_eq_Some_conv)
  have "g1_in B (g1_add B p (g1_smul B sig c))"
    using bls_lawsD(4) [OF B sig(1)] Cons.prems(2) g1_lawsD(2,3) [OF bls_lawsD(1) [OF B]] by blast
  then show ?case using Cons.IH sig(2) by blast
qed simp

lemma Recover_marshals:
  fixes B :: "('g, 'h, 'f::field) bls"
  assumes B: "bls_laws B" and r: "Recover B s domain digest shares = Some w"
  shows "\<exists>p. w = bls_Marshal B p \<and> g1_in B p"
proof -
  obtain p xs where p: "recover_loop B (g1_smul B (bls_genG1 B) 0) xs = Some p" "w = bls_Marshal B p"
    using r unfolding Recover_def by (auto simp: Let_def bind_eq_Some_conv split: if_splits)
  have "g1_in B (g1_smul B (bls_genG1 B) 0)" using bls_lawsD(9,10) [OF B] by blast
  then show ?thesis using recover_loop_in [OF B p(1)] p(2) by blast
qed

lemma eq_coin_low: "signerForDomain s ''EQ_COIN_SHARE'' = ms_low s"
  by (simp add: signerForDomain_def toUpper_def)

text \<open>A value that the coin returned is the one of the group's signature.\<close>

lemma coin_check_value:
  fixes B :: "('g, 'h, 'f::field) bls"
  assumes B: "bls_laws B" and low: "ms_low (dm_signer m) = Some low" "dealt B low cs"
    and h: "bls_HashToG1 B (domainDigest ''EQ_COIN_SHARE'' (coin_digest sid nonce)) (str_bytes ''EQ_COIN_SHARE'') = h"
    and r: "coin_check B m sid nonce shares = Returned v" and mode: "c_EquivalentCoinMode (dm_cfg m) \<noteq> ''deterministic''"
  shows "\<exists>x. h = Some x \<and> v = coin_int (hashBytes [str_bytes ''EQ_COIN_REC'', str_bytes sid, str_bytes nonce,
    bls_Marshal B (g1_smul B x (evalPolyInt cs 0))])"
proof -
  obtain w where w: "Recover B low ''EQ_COIN_SHARE'' (coin_digest sid nonce) shares = Some w"
    "VerifyRecovered B low ''EQ_COIN_SHARE'' (coin_digest sid nonce) w"
    "v = coin_int (hashBytes [str_bytes ''EQ_COIN_REC'', str_bytes sid, str_bytes nonce, w])"
    using r mode low(1)
    by (auto simp: coin_check_def mvbaRecover_def mvbaVerifyRecovered_def eq_coin_low split: if_splits option.splits)
  obtain x where x: "h = Some x" using w(2) h by (auto simp: VerifyRecovered_def bind_eq_Some_conv)
  have "bls_Unmarshal B w = Some (g1_smul B x (evalPolyInt cs 0))"
    using VerifyRecovered_dealt [OF B low(2), of "''EQ_COIN_SHARE''" "coin_digest sid nonce" x w] w(2) h x by simp
  moreover obtain p where "w = bls_Marshal B p" "g1_in B p" using Recover_marshals [OF B w(1)] by blast
  ultimately have "w = bls_Marshal B (g1_smul B x (evalPolyInt cs 0))" using bls_lawsD(3) [OF B] by simp
  then show ?thesis using w(3) x by simp
qed

lemma coin_returned:
  assumes "makeSharedCoin B m sid tag round recv nonce = (st, sends, Returned v, rest)"
  shows "\<exists>shares. coin_check B m sid nonce shares = Returned v"
proof -
  obtain share where share: "mvbaSign B (dm_signer m) ''EQ_COIN_SHARE'' (coin_digest sid nonce) = Some share"
    using assms by (auto simp: makeSharedCoin_def split: option.splits)
  show ?thesis
  proof (cases "coin_check B m sid nonce [(dm_ID m, share)]")
    case Running
    then obtain s where "loop (coin_body B m sid nonce) [(dm_ID m, share)] recv = (st, s, Returned v, rest)"
      using assms share by (auto simp: makeSharedCoin_def Let_def split: prod.splits)
    from loop_ended [OF this] obtain msg st1 s1 where "coin_body B m sid nonce st1 msg = (st, s1, Returned v)" by auto
    then show ?thesis by (cases msg; cases "pm_Body (snd msg)") (auto simp: coin_body_def split: if_splits)
  qed (use assms share in \<open>auto simp: makeSharedCoin_def Let_def\<close>)
qed

lemma deterministic_value: "coin_check B m sid nonce shares = Returned v \<Longrightarrow> c_EquivalentCoinMode (dm_cfg m) = ''deterministic'' \<Longrightarrow>
  v = coin_int (hashBytes [str_bytes ''EQ_COIN_DET'', str_bytes sid, str_bytes nonce])"
  by (auto simp: coin_check_def deriveCoinValue_def split: if_splits)

lemma coin_common:
  fixes B :: "('g, 'h, 'f::field) bls"
  assumes B: "bls_laws B"
    and keys: "ms_low (dm_signer m1) = Some low1" "dealt B low1 cs" "ms_low (dm_signer m2) = Some low2" "dealt B low2 cs"
    and mode: "c_EquivalentCoinMode (dm_cfg m1) = c_EquivalentCoinMode (dm_cfg m2)"
    and v: "makeSharedCoin B m1 sid tag1 round1 recv1 nonce = (st1, sends1, Returned v, rest1)"
    and w: "makeSharedCoin B m2 sid tag2 round2 recv2 nonce = (st2, sends2, Returned w, rest2)"
  shows "v = w"
proof -
  obtain sh1 sh2 where c: "coin_check B m1 sid nonce sh1 = Returned v" "coin_check B m2 sid nonce sh2 = Returned w"
    using coin_returned [OF v] coin_returned [OF w] by blast
  show ?thesis
  proof (cases "c_EquivalentCoinMode (dm_cfg m1) = ''deterministic''")
    case True
    then show ?thesis using deterministic_value [OF c(1)] deterministic_value [OF c(2)] mode by simp
  next
    case False
    then show ?thesis
      using coin_check_value [OF B keys(1,2) refl c(1)] coin_check_value [OF B keys(3,4) refl c(2)] mode by auto
  qed
qed

text \<open>The coin is common: two nodes of one session with one coin key get the same value for a nonce, whichever shares
  each of them was sent, in whatever order, and even when shares were made by faulty members.\<close>

theorem shared_coin_agreement:
  fixes B :: "('g, 'h, 'f::field) bls"
  assumes "bls_laws B"
    and "ms_low (dm_signer m1) = Some low1" "dealt B low1 cs" "ms_low (dm_signer m2) = Some low2" "dealt B low2 cs"
    and "c_EquivalentCoinMode (dm_cfg m1) = c_EquivalentCoinMode (dm_cfg m2)"
    and "makeSharedCoin B m1 sid tag1 round1 recv1 nonce = (st1, sends1, Returned v, rest1)"
    and "makeSharedCoin B m2 sid tag2 round2 recv2 nonce = (st2, sends2, Returned w, rest2)"
  shows "v = w"
  by (rule coin_common [OF assms])

section \<open>Binary agreement\<close>

record aba_state =
  aba_seenEst :: "(int \<times> int) list"
  aba_seenDec :: "(int \<times> int) list"
  aba_selfDec :: int

definition allSame :: "(int \<times> int) list \<Rightarrow> int \<Rightarrow> bool" where
  "allSame est v \<longleftrightarrow> est \<noteq> [] \<and> (\<forall>(_, x) \<in> set est. x = v)"

definition countDecision :: "(int \<times> int) list \<Rightarrow> int \<Rightarrow> int" where
  "countDecision dec v = int (length (filter (\<lambda>(_, x). x = v) dec))"

definition deriveABADecision :: "(int \<times> int) list \<Rightarrow> int \<Rightarrow> int" where
  "deriveABADecision est fallback =
     (if (fallback = 0 \<or> fallback = 1) \<and> allSame est fallback then fallback
      else if allSame est 0 then 0
      else if allSame est 1 then 1
      else -1)"

definition sendABA :: "int \<Rightarrow> int \<Rightarrow> mvba_body \<Rightarrow> (int \<times> ProtocolMessage) list" where
  "sendABA n iter body = broadcast n \<lparr> pm_Tag = TagMVBAABA, pm_Round = iter, pm_Leader = 0, pm_Body = body \<rparr>"

definition sendDecision :: "int \<Rightarrow> string \<Rightarrow> int \<Rightarrow> int \<Rightarrow> (int \<times> ProtocolMessage) list" where
  "sendDecision n sid iter v = broadcast n \<lparr> pm_Tag = TagMVBAABADecision, pm_Round = iter, pm_Leader = 0,
     pm_Body = AbaDecision \<lparr> ab_SID = sid, ab_Iter = iter, ab_Value = v \<rparr> \<rparr>"

text \<open>\<^verbatim>\<open>seenDec[id] = v\<close>.\<close>

definition put_decision :: "int \<Rightarrow> int \<Rightarrow> (int \<times> int) list \<Rightarrow> (int \<times> int) list" where
  "put_decision i v dec = filter (\<lambda>(j, _). j \<noteq> i) dec @ [(i, v)]"

text \<open>The head of the loop.\<close>

definition aba_check :: "('g, 'h, 'f) DumboMVBA \<Rightarrow> aba_state \<Rightarrow> int phase" where
  "aba_check m st =
     (if aba_selfDec st \<ge> 0 \<and> countDecision (aba_seenDec st) (aba_selfDec st) \<ge> dm_F m + 1 then Returned (aba_selfDec st) else Running)"

definition aba_decide :: "('g, 'h, 'f) DumboMVBA \<Rightarrow> string \<Rightarrow> int \<Rightarrow> aba_state \<Rightarrow> int \<Rightarrow> aba_state \<times> (int \<times> ProtocolMessage) list" where
  "aba_decide m sid iter st decision =
     (st\<lparr> aba_selfDec := decision, aba_seenDec := put_decision (dm_ID m) decision (aba_seenDec st) \<rparr>,
      sendDecision (dm_N m) sid iter decision)"

text \<open>The nonce of the coin names the iteration and the number of estimates seen.\<close>

definition aba_nonce :: "int \<Rightarrow> (int \<times> int) list \<Rightarrow> string" where
  "aba_nonce iter est = ''aba-'' @ itoa iter @ ''-'' @ itoa (int (length est))"

definition on_abaEst ::
  "('g, 'h, 'f) DumboMVBA \<Rightarrow> string \<Rightarrow> int \<Rightarrow> int \<Rightarrow> (string \<Rightarrow> int phase) \<Rightarrow> aba_state \<Rightarrow> int \<Rightarrow> abaMsg \<Rightarrow>
   aba_state \<times> (int \<times> ProtocolMessage) list \<times> int phase" where
  "on_abaEst m sid iter input coin st from msg =
     (if ab_SID msg \<noteq> sid \<or> ab_Iter msg \<noteq> iter then (st, [], Running)
      else if ab_Value msg \<noteq> 0 \<and> ab_Value msg \<noteq> 1 then (st, [], Running)
      else if from \<in> fst ` set (aba_seenEst st) then (st, [], Running)
      else let st = st\<lparr> aba_seenEst := aba_seenEst st @ [(from, ab_Value msg)] \<rparr> in
        if aba_selfDec st < 0 \<and> int (length (aba_seenEst st)) \<ge> 2 * dm_F m + 1 then
          let decision = deriveABADecision (aba_seenEst st) input in
          if decision < 0 then
            (case coin (aba_nonce iter (aba_seenEst st)) of
               Returned c \<Rightarrow> (case aba_decide m sid iter st (c mod 2) of (st, sends) \<Rightarrow> (st, sends, aba_check m st))
             | Running \<Rightarrow> (st, [], Blocked)
             | _ \<Rightarrow> (st, [], Failed))
          else (case aba_decide m sid iter st decision of (st, sends) \<Rightarrow> (st, sends, aba_check m st))
        else (st, [], aba_check m st))"

definition on_abaDecision ::
  "('g, 'h, 'f) DumboMVBA \<Rightarrow> string \<Rightarrow> int \<Rightarrow> aba_state \<Rightarrow> int \<Rightarrow> abaMsg \<Rightarrow>
   aba_state \<times> (int \<times> ProtocolMessage) list \<times> int phase" where
  "on_abaDecision m sid iter st from msg =
     (if ab_SID msg \<noteq> sid \<or> ab_Iter msg \<noteq> iter then (st, [], Running)
      else if ab_Value msg \<noteq> 0 \<and> ab_Value msg \<noteq> 1 then (st, [], Running)
      else if from \<in> fst ` set (aba_seenDec st) then (st, [], Running)
      else let st = st\<lparr> aba_seenDec := aba_seenDec st @ [(from, ab_Value msg)] \<rparr> in
        case (if aba_selfDec st < 0 then aba_decide m sid iter st (ab_Value msg) else (st, [])) of (st, sends) \<Rightarrow>
          (st, sends, if countDecision (aba_seenDec st) (ab_Value msg) \<ge> dm_F m + 1 then Returned (ab_Value msg) else aba_check m st))"

definition aba_body ::
  "('g, 'h, 'f) DumboMVBA \<Rightarrow> string \<Rightarrow> int \<Rightarrow> int \<Rightarrow> (string \<Rightarrow> int phase) \<Rightarrow> aba_state \<Rightarrow> ReceivedMessage \<Rightarrow>
   aba_state \<times> (int \<times> ProtocolMessage) list \<times> int phase" where
  "aba_body m sid iter input coin st received = (case received of (from, p) \<Rightarrow>
     (case pm_Body p of
        AbaEst msg \<Rightarrow> on_abaEst m sid iter input coin st from msg
      | AbaDecision msg \<Rightarrow> on_abaDecision m sid iter st from msg
      | _ \<Rightarrow> (st, [], Running)))"

definition aba_initial :: "('g, 'h, 'f) DumboMVBA \<Rightarrow> int \<Rightarrow> aba_state" where
  "aba_initial m input = \<lparr> aba_seenEst = [(dm_ID m, input)], aba_seenDec = [], aba_selfDec = -1 \<rparr>"

definition aba_first :: "('g, 'h, 'f) DumboMVBA \<Rightarrow> string \<Rightarrow> int \<Rightarrow> int \<Rightarrow> (int \<times> ProtocolMessage) list" where
  "aba_first m sid iter input = sendABA (dm_N m) iter (AbaEst \<lparr> ab_SID = sid, ab_Iter = iter, ab_Value = input \<rparr>)"

definition runABA ::
  "('g, 'h, 'f) DumboMVBA \<Rightarrow> string \<Rightarrow> int \<Rightarrow> int \<Rightarrow> ReceivedMessage list \<Rightarrow> (string \<Rightarrow> int phase) \<Rightarrow>
   aba_state \<times> (int \<times> ProtocolMessage) list \<times> int phase \<times> ReceivedMessage list" where
  "runABA m sid iter input recv coin =
     (case loop (aba_body m sid iter input coin) (aba_initial m input) recv of
        (st, sends, ph, rest) \<Rightarrow> (st, aba_first m sid iter input @ sends, ph, rest))"


section \<open>A system of nodes\<close>

text \<open>The live nodes run the loop; any message sent may be delivered at any time, more than once or never.  A faulty
  node may put any message of its own into the network.\<close>

record aba_sys =
  as_state :: "int \<Rightarrow> aba_state"
  as_phase :: "int \<Rightarrow> int phase"
  as_sent :: "(int \<times> int \<times> ProtocolMessage) list"

definition sent_by :: "int \<Rightarrow> (int \<times> ProtocolMessage) list \<Rightarrow> (int \<times> int \<times> ProtocolMessage) list" where
  "sent_by i sends = map (\<lambda>(to, p). (i, to, p)) sends"

definition aba_start :: "(int \<Rightarrow> ('g, 'h, 'f) DumboMVBA) \<Rightarrow> string \<Rightarrow> int \<Rightarrow> (int \<Rightarrow> int) \<Rightarrow> int list \<Rightarrow> aba_sys" where
  "aba_start m sid iter input live = \<lparr> as_state = (\<lambda>i. aba_initial (m i) (input i)), as_phase = (\<lambda>_. Running),
     as_sent = concat (map (\<lambda>i. sent_by i (aba_first (m i) sid iter (input i))) live) \<rparr>"

definition aba_deliver ::
  "(int \<Rightarrow> ('g, 'h, 'f) DumboMVBA) \<Rightarrow> string \<Rightarrow> int \<Rightarrow> (int \<Rightarrow> int) \<Rightarrow> (string \<Rightarrow> int phase) \<Rightarrow> aba_sys \<Rightarrow> int \<Rightarrow> ReceivedMessage \<Rightarrow> aba_sys" where
  "aba_deliver m sid iter input coin s i received =
     (case aba_body (m i) sid iter (input i) coin (as_state s i) received of (st, sends, ph) \<Rightarrow>
        \<lparr> as_state = (as_state s)(i := st), as_phase = (as_phase s)(i := ph), as_sent = as_sent s @ sent_by i sends \<rparr>)"

inductive aba_step ::
  "(int \<Rightarrow> ('g, 'h, 'f) DumboMVBA) \<Rightarrow> string \<Rightarrow> int \<Rightarrow> (int \<Rightarrow> int) \<Rightarrow> (string \<Rightarrow> int phase) \<Rightarrow> int set \<Rightarrow> int set \<Rightarrow> aba_sys \<Rightarrow> aba_sys \<Rightarrow> bool"
  for m sid iter input coin live faulty where
  deliver: "(j, i, p) \<in> set (as_sent s) \<Longrightarrow> i \<in> live \<Longrightarrow> as_phase s i = Running \<Longrightarrow>
    aba_step m sid iter input coin live faulty s (aba_deliver m sid iter input coin s i (j, p))"
| inject: "j \<in> faulty \<Longrightarrow>
    aba_step m sid iter input coin live faulty s (s\<lparr> as_sent := as_sent s @ [(j, i, p)] \<rparr>)"

abbreviation aba_reach where
  "aba_reach m sid iter input coin live faulty \<equiv> (aba_step m sid iter input coin live faulty)\<^sup>*\<^sup>*"

text \<open>Running a schedule of deliveries, each of a message that was sent before.\<close>

fun aba_exec ::
  "(int \<Rightarrow> ('g, 'h, 'f) DumboMVBA) \<Rightarrow> string \<Rightarrow> int \<Rightarrow> (int \<Rightarrow> int) \<Rightarrow> (string \<Rightarrow> int phase) \<Rightarrow> int set \<Rightarrow> aba_sys \<Rightarrow>
   (int \<times> int \<times> ProtocolMessage) list \<Rightarrow> aba_sys option" where
  "aba_exec m sid iter input coin live s [] = Some s"
| "aba_exec m sid iter input coin live s ((j, i, p) # evs) =
     (if (j, i, p) \<in> set (as_sent s) \<and> i \<in> live \<and> as_phase s i = Running
      then aba_exec m sid iter input coin live (aba_deliver m sid iter input coin s i (j, p)) evs else None)"

lemma exec_reach: "aba_exec m sid iter input coin live s evs = Some s' \<Longrightarrow> aba_reach m sid iter input coin live faulty s s'"
proof (induction m sid iter input coin live s evs rule: aba_exec.induct)
  case (2 m sid iter input coin live s j i p evs)
  then have "aba_step m sid iter input coin live faulty s (aba_deliver m sid iter input coin s i (j, p))"
    by (auto intro: aba_step.deliver split: if_splits)
  moreover have "aba_reach m sid iter input coin live faulty (aba_deliver m sid iter input coin s i (j, p)) s'"
    using 2 by (auto split: if_splits)
  ultimately show ?case by (rule converse_rtranclp_into_rtranclp)
qed simp

section \<open>Unanimous nodes\<close>

text \<open>Every message and every state speaks for \<open>v\<close> only.\<close>

definition body_says :: "string \<Rightarrow> int \<Rightarrow> int \<Rightarrow> mvba_body \<Rightarrow> bool" where
  "body_says sid iter v body = (case body of
     AbaEst msg \<Rightarrow> ab_SID msg = sid \<and> ab_Iter msg = iter \<longrightarrow> ab_Value msg = v
   | AbaDecision msg \<Rightarrow> ab_SID msg = sid \<and> ab_Iter msg = iter \<longrightarrow> ab_Value msg = v
   | _ \<Rightarrow> True)"

definition state_says :: "int \<Rightarrow> aba_state \<Rightarrow> bool" where
  "state_says v st \<longleftrightarrow> (\<forall>(_, x) \<in> set (aba_seenEst st). x = v) \<and> (\<forall>(_, x) \<in> set (aba_seenDec st). x = v) \<and>
     (aba_selfDec st = -1 \<or> aba_selfDec st = v)"

definition phase_says :: "int \<Rightarrow> int phase \<Rightarrow> bool" where
  "phase_says v ph \<longleftrightarrow> (case ph of Returned w \<Rightarrow> w = v | _ \<Rightarrow> True)"

lemma decision_unanimous: "est \<noteq> [] \<Longrightarrow> \<forall>(_, x) \<in> set est. x = v \<Longrightarrow> v = 0 \<or> v = 1 \<Longrightarrow> deriveABADecision est input = v"
  by (cases est) (auto simp: deriveABADecision_def allSame_def)

lemma decide_says:
  assumes "aba_decide m sid iter st v = (st', sends)" "state_says v st"
  shows "state_says v st'" "\<forall>body \<in> bodies sends. body_says sid iter v body"
proof -
  show "state_says v st'" using assms by (auto simp: aba_decide_def state_says_def put_decision_def)
  have "bodies sends \<subseteq> {AbaDecision \<lparr> ab_SID = sid, ab_Iter = iter, ab_Value = v \<rparr>}"
    using assms(1) by (auto simp: aba_decide_def sendDecision_def dest!: subsetD [OF bodies_simps(4)])
  then show "\<forall>body \<in> bodies sends. body_says sid iter v body" by (auto simp: body_says_def)
qed

lemma check_says: "state_says v st \<Longrightarrow> phase_says v (aba_check m st)"
  by (auto simp: aba_check_def state_says_def phase_says_def)

lemma body_unanimous:
  assumes st: "state_says v st" and v: "v = 0 \<or> v = 1" and msg: "body_says sid iter v (pm_Body p)"
    and b: "aba_body m sid iter input coin st (j, p) = (st', sends, ph)"
  shows "state_says v st' \<and> (\<forall>body \<in> bodies sends. body_says sid iter v body) \<and> phase_says v ph"
proof (cases "\<exists>a. (pm_Body p = AbaEst a \<or> pm_Body p = AbaDecision a) \<and> ab_SID a = sid \<and> ab_Iter a = iter")
  case False
  then have "st' = st \<and> sends = [] \<and> ph = Running"
    using b by (cases "pm_Body p") (auto simp: aba_body_def on_abaEst_def on_abaDecision_def)
  then show ?thesis using st by (simp add: phase_says_def)
next
  case True
  then obtain a where a: "pm_Body p = AbaEst a \<or> pm_Body p = AbaDecision a" "ab_SID a = sid" "ab_Iter a = iter" by blast
  have val: "ab_Value a = v" using msg a by (auto simp: body_says_def)
  show ?thesis
  proof (cases "pm_Body p = AbaEst a")
    case True
    let ?st = "st\<lparr> aba_seenEst := aba_seenEst st @ [(j, v)] \<rparr>"
    have says: "state_says v ?st" using st by (auto simp: state_says_def)
    have dec: "deriveABADecision (aba_seenEst ?st) input = v" by (rule decision_unanimous) (use says v in \<open>auto simp: state_says_def\<close>)
    obtain st2 s2 where d: "aba_decide m sid iter ?st v = (st2, s2)" by fastforce
    have "(st', sends, ph) \<in> {(st, [], Running), (?st, [], aba_check m ?st), (st2, s2, aba_check m st2)}"
      using b True a(2,3) val dec v d by (auto simp: aba_body_def on_abaEst_def Let_def split: if_splits)
    then show ?thesis using st says decide_says [OF d says] check_says by (auto simp: phase_says_def [of v Running])
  next
    case False
    let ?st = "st\<lparr> aba_seenDec := aba_seenDec st @ [(j, v)] \<rparr>"
    have says: "state_says v ?st" using st by (auto simp: state_says_def)
    obtain st2 s2 where d: "aba_decide m sid iter ?st v = (st2, s2)" by fastforce
    have "(st', sends) \<in> {(st, []), (?st, []), (st2, s2)}" "ph \<in> {Running, Returned v, aba_check m st'}"
      using b False a val v d by (auto simp: aba_body_def on_abaDecision_def Let_def split: if_splits)
    then show ?thesis using st says decide_says [OF d says] check_says by (auto simp: phase_says_def [of v Running] phase_says_def [of v "Returned v"])
  qed
qed

definition sys_says :: "string \<Rightarrow> int \<Rightarrow> int \<Rightarrow> int set \<Rightarrow> aba_sys \<Rightarrow> bool" where
  "sys_says sid iter v live s \<longleftrightarrow> (\<forall>(j, i, p) \<in> set (as_sent s). body_says sid iter v (pm_Body p)) \<and>
     (\<forall>i \<in> live. state_says v (as_state s i) \<and> phase_says v (as_phase s i))"

lemma sent_by_says: "\<forall>body \<in> bodies sends. body_says sid iter v body \<Longrightarrow> (j, k, p) \<in> set (sent_by i sends) \<Longrightarrow> body_says sid iter v (pm_Body p)"
  by (auto simp: sent_by_def bodies_def)

lemma step_says:
  assumes "aba_step m sid iter input coin live {} s s'" "sys_says sid iter v live s" and v: "v = 0 \<or> v = 1"
  shows "sys_says sid iter v live s'"
  using assms(1)
proof cases
  case (deliver j i p)
  obtain st sends ph where b: "aba_body (m i) sid iter (input i) coin (as_state s i) (j, p) = (st, sends, ph)" by (metis prod_cases3)
  have "state_says v (as_state s i)" "body_says sid iter v (pm_Body p)" using assms(2) deliver by (auto simp: sys_says_def)
  note says = body_unanimous [OF this(1) v this(2) b]
  have s': "s' = \<lparr> as_state = (as_state s)(i := st), as_phase = (as_phase s)(i := ph), as_sent = as_sent s @ sent_by i sends \<rparr>"
    using deliver(1) b by (simp add: aba_deliver_def)
  have old: "\<forall>(j, i, p) \<in> set (as_sent s). body_says sid iter v (pm_Body p)"
    "\<forall>i \<in> live. state_says v (as_state s i) \<and> phase_says v (as_phase s i)"
    using assms(2) by (simp_all add: sys_says_def)
  have new: "\<forall>(j, k, p) \<in> set (sent_by i sends). body_says sid iter v (pm_Body p)"
    using sent_by_says says by blast
  show ?thesis unfolding sys_says_def s' using old new says by auto
qed simp

text \<open>C29: binary agreement keeps a unanimous input: when every live node starts with the same bit and the others are
  silent, then in every reachable state of the system, whatever the coin and the order of deliveries, a node that
  has returned has returned that bit.\<close>

theorem aba_unanimous:
  assumes "aba_reach m sid iter input coin live {} (aba_start m sid iter input nodes) s" "set nodes = live"
    and "\<forall>i \<in> live. input i = v" "v = 0 \<or> v = 1" "i \<in> live" "as_phase s i = Returned w"
  shows "w = v"
proof -
  have "sys_says sid iter v live (aba_start m sid iter input nodes)"
    unfolding sys_says_def
  proof (intro conjI)
    have "body_says sid iter v (pm_Body p)" if "(j, k, p) \<in> set (as_sent (aba_start m sid iter input nodes))" for j k p
      using that assms(2,3) by (auto simp: aba_start_def sent_by_def aba_first_def sendABA_def body_says_def dest!: set_broadcast)
    then show "\<forall>(j, i, p) \<in> set (as_sent (aba_start m sid iter input nodes)). body_says sid iter v (pm_Body p)" by auto
    show "\<forall>i \<in> live. state_says v (as_state (aba_start m sid iter input nodes) i) \<and> phase_says v (as_phase (aba_start m sid iter input nodes) i)"
      using assms(3) by (auto simp: aba_start_def aba_initial_def state_says_def phase_says_def)
  qed
  with assms(1) have "sys_says sid iter v live s"
  proof (induction rule: rtranclp_induct)
    case (step y z)
    then show ?case using step_says [OF step.hyps(2) _ assms(4)] by blast
  qed
  then show ?thesis using assms(5,6) by (auto simp: sys_says_def phase_says_def)
qed


section \<open>Nodes that disagree\<close>

definition est_msg :: "string \<Rightarrow> int \<Rightarrow> int \<Rightarrow> ProtocolMessage" where
  "est_msg sid iter v = \<lparr> pm_Tag = TagMVBAABA, pm_Round = iter, pm_Leader = 0,
     pm_Body = AbaEst \<lparr> ab_SID = sid, ab_Iter = iter, ab_Value = v \<rparr> \<rparr>"

definition dec_msg :: "string \<Rightarrow> int \<Rightarrow> int \<Rightarrow> ProtocolMessage" where
  "dec_msg sid iter v = \<lparr> pm_Tag = TagMVBAABADecision, pm_Round = iter, pm_Leader = 0,
     pm_Body = AbaDecision \<lparr> ab_SID = sid, ab_Iter = iter, ab_Value = v \<rparr> \<rparr>"

lemma four_nodes: "all_nodes 4 = [0, 1, 2, 3]"
  by (simp add: all_nodes_def upt_rec numeral_eq_Suc)

text \<open>Three nodes start with \<open>a\<close>, one with the bit \<open>b\<close> of the coin.  Two nodes hear only \<open>a\<close> and decide it; the other two
  hear both bits and decide the coin; each pair confirms its own decision.\<close>

definition split_schedule :: "string \<Rightarrow> int \<Rightarrow> int \<Rightarrow> int \<Rightarrow> (int \<times> int \<times> ProtocolMessage) list" where
  "split_schedule sid iter a b =
     [(1, 0, est_msg sid iter a), (2, 0, est_msg sid iter a), (0, 1, est_msg sid iter a), (2, 1, est_msg sid iter a),
      (3, 2, est_msg sid iter b), (0, 2, est_msg sid iter a), (0, 3, est_msg sid iter a), (1, 3, est_msg sid iter a),
      (1, 0, dec_msg sid iter a), (3, 2, dec_msg sid iter b)]"

lemma split_run:
  assumes cfg: "\<And>i. dm_N (m i) = 4" "\<And>i. dm_F (m i) = 1" "\<And>i. dm_ID (m i) = i"
    and bits: "(a = 0 \<and> b = 1) \<or> (a = 1 \<and> b = 0)" "c mod 2 = b"
  shows "\<exists>s. aba_exec m sid iter (\<lambda>i. if i = 3 then b else a) (\<lambda>_. Returned c) {0, 1, 2, 3}
      (aba_start m sid iter (\<lambda>i. if i = 3 then b else a) [0, 1, 2, 3]) (split_schedule sid iter a b) = Some s \<and>
    as_phase s 0 = Returned a \<and> as_phase s 2 = Returned b"
  using bits(1)
proof (elim disjE conjE)
  assume "a = 0" "b = 1"
  then show ?thesis using cfg bits(2)
    by (simp add: split_schedule_def aba_start_def aba_first_def sendABA_def broadcast_def four_nodes sent_by_def est_msg_def dec_msg_def
      aba_deliver_def aba_body_def on_abaEst_def on_abaDecision_def aba_initial_def Let_def deriveABADecision_def allSame_def
      aba_decide_def aba_check_def countDecision_def put_decision_def sendDecision_def)
next
  assume "a = 1" "b = 0"
  then show ?thesis using cfg bits(2)
    by (simp add: split_schedule_def aba_start_def aba_first_def sendABA_def broadcast_def four_nodes sent_by_def est_msg_def dec_msg_def
      aba_deliver_def aba_body_def on_abaEst_def on_abaDecision_def aba_initial_def Let_def deriveABADecision_def allSame_def
      aba_decide_def aba_check_def countDecision_def put_decision_def sendDecision_def)
qed

text \<open>C28: binary agreement does not agree: with four nodes, none of them faulty, and a coin that gives every node the same
  value, whatever that value is, there are inputs and an order of deliveries after which two nodes have returned
  different bits.  One exchange of estimates followed by \<open>f + 1\<close> matching decisions does not make a decision final.\<close>

theorem aba_disagreement:
  assumes cfg: "\<And>i. dm_N (m i) = 4" "\<And>i. dm_F (m i) = 1" "\<And>i. dm_ID (m i) = i"
  shows "\<exists>input s v w. aba_reach m sid iter input (\<lambda>_. Returned c) {0, 1, 2, 3} {} (aba_start m sid iter input [0, 1, 2, 3]) s \<and>
    as_phase s 0 = Returned v \<and> as_phase s 2 = Returned w \<and> v \<noteq> w"
proof -
  define b where "b = c mod 2"
  have b: "(1 - b = 0 \<and> b = 1) \<or> (1 - b = 1 \<and> b = 0)" by (auto simp: b_def)
  let ?input = "\<lambda>i :: int. if i = 3 then b else 1 - b"
  obtain s where "aba_exec m sid iter ?input (\<lambda>_. Returned c) {0, 1, 2, 3} (aba_start m sid iter ?input [0, 1, 2, 3])
      (split_schedule sid iter (1 - b) b) = Some s" "as_phase s 0 = Returned (1 - b)" "as_phase s 2 = Returned b"
    using split_run [OF cfg b b_def [symmetric], of sid iter] by blast
  moreover have "1 - b \<noteq> b" using b by auto
  ultimately show ?thesis using exec_reach by blast
qed

end
