(* ===== verification/Mvba.thy ===== *)
theory Mvba
  imports Mvba_Retrieval Mvba_Binary
begin

text \<open>
  The whole agreement protocol of a node: \<^verbatim>\<open>NewDumboMVBA\<close>, \<^verbatim>\<open>Run\<close> and \<^verbatim>\<open>payloadValid\<close> (\<^verbatim>\<open>mvba.go\<close>),
  \<^verbatim>\<open>routeEquivalentMessages\<close> and \<^verbatim>\<open>runEquivalent\<close> (\<^verbatim>\<open>mvba_equivalent.go\<close>), and the validation of a common-subset vector
  (\<^verbatim>\<open>acs_vacs.go\<close>), all under \<^verbatim>\<open>src/experiments/dumbomvba-go/core\<close>, on the path that \<^verbatim>\<open>src/core/mvba_tcp.go\<close> takes
  (\<^verbatim>\<open>UseEquivalentPath\<close>).  A node's run is a function of everything that is delivered to it and of how far each
  dispersal instance had read when the phase ended; the channels are unbounded.  \<open>perm\<close> stands for
  \<^verbatim>\<open>rand.New(rand.NewSource(seed)).Perm(n)\<close>.  The result is that honest nodes that decide in the same round of the
  common permutation decide the same payload, and that it passes the application's predicate.
\<close>

section \<open>Construction\<close>

record ProposalValue =
  pv_Payload :: bytes
  pv_Round :: int
  pv_Hint :: string
  pv_Proof :: "(int \<times> bytes) list"

definition NewDumboMVBA :: "mvba_Config \<Rightarrow> ('g, 'h, 'f) mvbaDomainSigner \<Rightarrow> ('g, 'h, 'f) DumboMVBA option" where
  "NewDumboMVBA cfg signer = do {
     require (\<not> (c_SID cfg = [] \<or> c_N cfg \<le> 0 \<or> c_F cfg < 0 \<or> c_N cfg < 3 * c_F cfg + 1));
     require (\<not> (c_ID cfg < 0 \<or> c_ID cfg \<ge> c_N cfg));
     let cfg = (if c_MaxRounds cfg \<le> 0 then cfg\<lparr> c_MaxRounds := 1 \<rparr> else cfg);
     require (\<not> (c_UseEquivalentPath cfg \<and> (mvbaThreshold signer ''PD_STORED'' \<noteq> c_N cfg - c_F cfg \<or>
       mvbaThreshold signer ''PD_LOCKED'' \<noteq> c_N cfg - c_F cfg \<or> mvbaThreshold signer ''PD_QUIT_READY'' \<noteq> c_F cfg + 1 \<or>
       mvbaThreshold signer ''EQ_COIN_SHARE'' \<noteq> c_F cfg + 1)));
     let cfg = (if c_EquivalentCoinMode cfg = [] then cfg\<lparr> c_EquivalentCoinMode := ''signature'' \<rparr> else cfg);
     Some \<lparr> dm_cfg = cfg, dm_signer = signer \<rparr>
   }"

definition payloadValid :: "('g, 'h, 'f) DumboMVBA \<Rightarrow> bytes \<Rightarrow> bool" where
  "payloadValid m payload = (case c_ValidatePayload (dm_cfg m) of None \<Rightarrow> True | Some valid \<Rightarrow> valid payload)"

section \<open>Routing\<close>

record mvba_channels =
  ch_pd :: "int \<Rightarrow> ReceivedMessage list"
  ch_coin :: "ReceivedMessage list"
  ch_pdFinish :: "ReceivedMessage list"
  ch_rc :: "ReceivedMessage list"
  ch_rcPrepare :: "ReceivedMessage list"
  ch_aba :: "int \<Rightarrow> ReceivedMessage list"
  ch_abaCoin :: "int \<Rightarrow> ReceivedMessage list"

definition no_messages :: mvba_channels where
  "no_messages = \<lparr> ch_pd = (\<lambda>_. []), ch_coin = [], ch_pdFinish = [], ch_rc = [], ch_rcPrepare = [], ch_aba = (\<lambda>_. []), ch_abaCoin = (\<lambda>_. []) \<rparr>"

definition max_aba_buffers :: "('g, 'h, 'f) DumboMVBA \<Rightarrow> int" where
  "max_aba_buffers m = (let b = c_MaxRounds (dm_cfg m) * 4 + 8 in if b < dm_N m + 2 then dm_N m + 2 else b)"

definition is_done :: "mvba_body \<Rightarrow> bool" where
  "is_done body = (case body of PdDone _ \<Rightarrow> True | _ \<Rightarrow> False)"

definition route_message :: "('g, 'h, 'f) DumboMVBA \<Rightarrow> mvba_channels \<Rightarrow> ReceivedMessage \<Rightarrow> mvba_channels" where
  "route_message m ch received = (case received of (from, msg) \<Rightarrow>
     (case pm_Tag msg of
        TagMVBAPD \<Rightarrow>
          (let ch = (if 0 \<le> pm_Leader msg \<and> pm_Leader msg < dm_N m
                     then ch\<lparr> ch_pd := (ch_pd ch)(pm_Leader msg := ch_pd ch (pm_Leader msg) @ [received]) \<rparr> else ch)
           in if is_done (pm_Body msg) then ch\<lparr> ch_pdFinish := ch_pdFinish ch @ [received] \<rparr> else ch)
      | TagMVBACoin \<Rightarrow> ch\<lparr> ch_coin := ch_coin ch @ [received] \<rparr>
      | TagMVBAPDFinish \<Rightarrow> ch\<lparr> ch_pdFinish := ch_pdFinish ch @ [received] \<rparr>
      | TagMVBARC \<Rightarrow> ch\<lparr> ch_rc := ch_rc ch @ [received] \<rparr>
      | TagMVBARCPrepare \<Rightarrow> ch\<lparr> ch_rcPrepare := ch_rcPrepare ch @ [received] \<rparr>
      | TagMVBAABACoin \<Rightarrow>
          (if 0 \<le> pm_Round msg \<and> pm_Round msg < max_aba_buffers m
           then ch\<lparr> ch_abaCoin := (ch_abaCoin ch)(pm_Round msg := ch_abaCoin ch (pm_Round msg) @ [received]) \<rparr> else ch)
      | TagOther \<Rightarrow> ch
      | _ \<Rightarrow>
          (if 0 \<le> pm_Round msg \<and> pm_Round msg < max_aba_buffers m
           then ch\<lparr> ch_aba := (ch_aba ch)(pm_Round msg := ch_aba ch (pm_Round msg) @ [received]) \<rparr> else ch)))"

definition routeEquivalentMessages :: "('g, 'h, 'f) DumboMVBA \<Rightarrow> ReceivedMessage list \<Rightarrow> mvba_channels" where
  "routeEquivalentMessages m recv = foldl (route_message m) no_messages recv"

section \<open>The protocol of a node\<close>

text \<open>What the dispersal phase leaves: the stores and locks of the instances that returned.\<close>

definition pd_results ::
  "('g, 'h, 'f::field) bls \<Rightarrow> rs \<Rightarrow> ('g, 'h, 'f) DumboMVBA \<Rightarrow> bytes \<Rightarrow> (int \<Rightarrow> ReceivedMessage list) \<Rightarrow> int \<Rightarrow>
   rcStoreMsg option \<times> pdLockMsg option" where
  "pd_results B R m payload read leader =
     pd_kept (fst (snd (snd (runPDInstance B R m (pd_sid (c_SID (dm_cfg m)) leader) leader
       (if leader = dm_ID m then payload else []) (read leader)))))"

text \<open>The result of a node; \<open>Waits\<close> is a node still waiting for messages.\<close>

datatype mvba_result = Decided ProposalValue | Waits | Fails | Crashes

fun stuck :: "'r phase \<Rightarrow> mvba_result" where
  "stuck Failed = Fails"
| "stuck Crashed = Crashes"
| "stuck _ = Waits"

text \<open>The prepare message of a round.\<close>

definition rc_prepare_sends :: "('g, 'h, 'f) DumboMVBA \<Rightarrow> int \<Rightarrow> int \<Rightarrow> pdLockMsg option \<Rightarrow> (int \<times> ProtocolMessage) list" where
  "rc_prepare_sends m r l lock = broadcast (dm_N m) \<lparr> pm_Tag = TagMVBARCPrepare, pm_Round = r, pm_Leader = l,
     pm_Body = RcPrepare \<lparr> rp_SID = c_SID (dm_cfg m) @ ''RCprepare'', rp_Leader = l, rp_Lock = lock \<rparr> \<rparr>"

definition aba_coin ::
  "('g, 'h, 'f::field) bls \<Rightarrow> ('g, 'h, 'f) DumboMVBA \<Rightarrow> int \<Rightarrow> ReceivedMessage list \<Rightarrow> string \<Rightarrow> int phase" where
  "aba_coin B m r recv nonce =
     fst (snd (snd (makeSharedCoin B m (c_SID (dm_cfg m) @ ''COIN'' @ itoa r) TagMVBAABACoin r recv nonce)))"

text \<open>The rounds over the rest of the permutation, from round \<open>r\<close> on; the two channels shared by the rounds keep what a
  round has not read.\<close>

fun mvba_rounds ::
  "('g, 'h, 'f::field) bls \<Rightarrow> rs \<Rightarrow> ('g, 'h, 'f) DumboMVBA \<Rightarrow> (int \<Rightarrow> rcStoreMsg option \<times> pdLockMsg option) \<Rightarrow> mvba_channels \<Rightarrow>
   int \<Rightarrow> int list \<Rightarrow> ReceivedMessage list \<Rightarrow> ReceivedMessage list \<Rightarrow> mvba_result" where
  "mvba_rounds B R m results ch r [] prepare rc = Fails"
| "mvba_rounds B R m results ch r (l # pi) prepare rc =
     (let sid = c_SID (dm_cfg m) in
      case runRCPrepare B m sid l prepare of
        (_, _, Returned ballot, prepare') \<Rightarrow>
          (case runABA m (sid @ ''ABA'' @ itoa r) r ballot (ch_aba ch r) (aba_coin B m r (ch_abaCoin ch r)) of
             (_, _, Returned out, _) \<Rightarrow>
               (if out = 1 then
                  (case runRCSubprotocol B R m (pd_sid sid l) rc (fst (results l)) (snd (results l)) of
                     (_, _, Returned dec, rc') \<Rightarrow>
                       (if \<not> payloadValid m dec then mvba_rounds B R m results ch (r + 1) pi prepare' rc'
                        else Decided \<lparr> pv_Payload = dec, pv_Round = r, pv_Hint = ''equivalent'', pv_Proof = [] \<rparr>)
                   | (_, _, ph, _) \<Rightarrow> stuck ph)
                else mvba_rounds B R m results ch (r + 1) pi prepare' rc)
           | (_, _, ph, _) \<Rightarrow> stuck ph)
      | (_, _, ph, _) \<Rightarrow> stuck ph)"

definition runEquivalent ::
  "('g, 'h, 'f::field) bls \<Rightarrow> rs \<Rightarrow> (int \<Rightarrow> int \<Rightarrow> int list) \<Rightarrow> ('g, 'h, 'f) DumboMVBA \<Rightarrow> bytes \<Rightarrow> (int \<Rightarrow> ReceivedMessage list) \<Rightarrow>
   mvba_channels \<Rightarrow> mvba_result" where
  "runEquivalent B R perm m payload read ch =
     (let sid = c_SID (dm_cfg m) in
      case runQuitPD B m sid (ch_pdFinish ch) of
        (_, _, Returned _, _) \<Rightarrow>
          (case makeSharedCoin B m (sid @ ''COIN'') TagMVBACoin 0 (ch_coin ch) ''permutation'' of
             (_, _, Returned seed, _) \<Rightarrow>
               mvba_rounds B R m (pd_results B R m payload read) ch 0 (perm seed (dm_N m)) (ch_rcPrepare ch) (ch_rc ch)
           | (_, _, ph, _) \<Rightarrow> stuck ph)
      | (_, _, ph, _) \<Rightarrow> stuck ph)"

text \<open>\<^verbatim>\<open>Run\<close> on the equivalent path.\<close>

definition Run ::
  "('g, 'h, 'f::field) bls \<Rightarrow> rs \<Rightarrow> (int \<Rightarrow> int \<Rightarrow> int list) \<Rightarrow> ('g, 'h, 'f) DumboMVBA \<Rightarrow> bytes \<Rightarrow> (int \<Rightarrow> ReceivedMessage list) \<Rightarrow>
   mvba_channels \<Rightarrow> mvba_result" where
  "Run B R perm m payload read ch =
     (if \<not> payloadValid m payload then Fails
      else case runEquivalent B R perm m payload read ch of
        Decided out \<Rightarrow> if \<not> payloadValid m (pv_Payload out) then Fails else Decided out
      | other \<Rightarrow> other)"

section \<open>Decisions\<close>

text \<open>A decision in round \<open>q\<close> comes from a retrieval for the leader of that round.\<close>

lemma stuck_not_decided [simp]: "stuck ph \<noteq> Decided out"
  by (cases ph) auto

lemma rounds_decided:
  assumes "mvba_rounds B R m results ch r pi prepare rc = Decided out"
  shows "\<exists>k rc1 st sends rest. k < length pi \<and> pv_Round out = r + int k \<and> set rc1 \<subseteq> set rc \<and>
    runRCSubprotocol B R m (pd_sid (c_SID (dm_cfg m)) (pi ! k)) rc1 (fst (results (pi ! k))) (snd (results (pi ! k))) =
      (st, sends, Returned (pv_Payload out), rest) \<and> payloadValid m (pv_Payload out)"
  using assms
proof (induction pi arbitrary: r prepare rc)
  case (Cons l pi)
  let ?sid = "c_SID (dm_cfg m)"
  obtain st1 s1 ph1 prepare' where prep: "runRCPrepare B m ?sid l prepare = (st1, s1, ph1, prepare')" by (metis prod_cases4)
  obtain ballot where ballot: "ph1 = Returned ballot" using Cons.prems prep by (cases ph1) (auto simp: Let_def)
  obtain st2 s2 ph2 rest2 where aba: "runABA m (?sid @ ''ABA'' @ itoa r) r ballot (ch_aba ch r) (aba_coin B m r (ch_abaCoin ch r)) =
      (st2, s2, ph2, rest2)" by (metis prod_cases4)
  obtain bit where bit: "ph2 = Returned bit" using Cons.prems prep ballot aba by (cases ph2) (auto simp: Let_def)
  obtain st3 s3 ph3 rc' where ret: "runRCSubprotocol B R m (pd_sid ?sid l) rc (fst (results l)) (snd (results l)) = (st3, s3, ph3, rc')"
    by (metis prod_cases4)
  have next_round: ?case if sub: "set rc2 \<subseteq> set rc" and go: "mvba_rounds B R m results ch (r + 1) pi prepare' rc2 = Decided out" for rc2
  proof -
    obtain k rc1 st sends rest where "k < length pi" "pv_Round out = r + 1 + int k" "set rc1 \<subseteq> set rc2"
      "runRCSubprotocol B R m (pd_sid ?sid (pi ! k)) rc1 (fst (results (pi ! k))) (snd (results (pi ! k))) =
        (st, sends, Returned (pv_Payload out), rest)" "payloadValid m (pv_Payload out)"
      using Cons.IH [OF go] by blast
    then show ?thesis using sub by (intro exI [of _ "Suc k"] exI [of _ rc1]) auto
  qed
  show ?case
  proof (cases "bit = 1")
    case False
    then show ?thesis using Cons.prems prep ballot aba bit by (intro next_round [of rc]) (auto simp: Let_def)
  next
    case True
    obtain dec where dec: "ph3 = Returned dec" using Cons.prems prep ballot aba bit True ret by (cases ph3) (auto simp: Let_def)
    have sub: "set rc' \<subseteq> set rc"
    proof -
      have "loop body st xs = (st', s, ph, ys) \<Longrightarrow> set ys \<subseteq> set xs" for body st xs st' s ph ys
        by (induction body st xs arbitrary: s rule: loop.induct) (fastforce split: prod.splits phase.splits)+
      then show ?thesis using ret by (fastforce simp: runRCSubprotocol_def Let_def split: prod.splits)
    qed
    show ?thesis
    proof (cases "payloadValid m dec")
      case False
      then show ?thesis using Cons.prems prep ballot aba bit True ret dec sub by (intro next_round [of rc']) (auto simp: Let_def)
    next
      case valid: True
      then have "out = \<lparr> pv_Payload = dec, pv_Round = r, pv_Hint = ''equivalent'', pv_Proof = [] \<rparr>"
        using Cons.prems prep ballot aba bit True ret dec by (simp add: Let_def)
      then show ?thesis using ret dec valid by (intro exI [of _ 0] exI [of _ rc]) auto
    qed
  qed
qed simp


lemma run_decided:
  assumes "Run B R perm m payload read ch = Decided out"
  shows "\<exists>seed st s rest k rc st' s' rest' store lock.
    makeSharedCoin B m (c_SID (dm_cfg m) @ ''COIN'') TagMVBACoin 0 (ch_coin ch) ''permutation'' = (st, s, Returned seed, rest) \<and>
    k < length (perm seed (dm_N m)) \<and> pv_Round out = int k \<and> set rc \<subseteq> set (ch_rc ch) \<and>
    runRCSubprotocol B R m (pd_sid (c_SID (dm_cfg m)) (perm seed (dm_N m) ! k)) rc store lock =
      (st', s', Returned (pv_Payload out), rest') \<and> payloadValid m payload \<and> payloadValid m (pv_Payload out)"
proof -
  have valid: "payloadValid m payload" and run: "runEquivalent B R perm m payload read ch = Decided out"
    using assms by (auto simp: Run_def split: if_splits mvba_result.splits)
  obtain st1 s1 ph1 rest1 where q: "runQuitPD B m (c_SID (dm_cfg m)) (ch_pdFinish ch) = (st1, s1, ph1, rest1)" by (metis prod_cases4)
  obtain st s ph rest where c: "makeSharedCoin B m (c_SID (dm_cfg m) @ ''COIN'') TagMVBACoin 0 (ch_coin ch) ''permutation'' = (st, s, ph, rest)"
    by (metis prod_cases4)
  obtain i where "ph1 = Returned i" using run q by (cases ph1) (auto simp: runEquivalent_def Let_def)
  moreover obtain seed where seed: "ph = Returned seed" using run q c calculation by (cases ph) (auto simp: runEquivalent_def Let_def)
  ultimately have "mvba_rounds B R m (pd_results B R m payload read) ch 0 (perm seed (dm_N m)) (ch_rcPrepare ch) (ch_rc ch) = Decided out"
    using run q c by (simp add: runEquivalent_def Let_def)
  from rounds_decided [OF this] c seed valid show ?thesis by (metis add_0)
qed

lemma locks_received_mono: "set xs \<subseteq> set ys \<Longrightarrow> locks_received B m sid xs \<subseteq> locks_received B m sid ys"
  unfolding locks_received_def by blast

text \<open>The honest nodes of a session that share the coin key and the configuration.\<close>

definition mvba_session :: "('g, 'h, 'f::field) bls \<Rightarrow> ('g, 'h, 'f) session \<Rightarrow> 'f list \<Rightarrow> string \<Rightarrow> bool" where
  "mvba_session B s cs mode \<longleftrightarrow> session_ok s \<and> (\<forall>i \<in> se_honest s. c_SID (dm_cfg (se_node s i)) = se_sid s \<and>
     c_EquivalentCoinMode (dm_cfg (se_node s i)) = mode \<and> (\<exists>low. ms_low (dm_signer (se_node s i)) = Some low \<and> dealt B low cs))"

text \<open>Every certified lock that was delivered to node \<open>i\<close> for retrieval stands for signatures of \<open>n - f\<close> members.\<close>

definition locks_backed :: "('g, 'h, 'f::field) bls \<Rightarrow> rs \<Rightarrow> ('g, 'h, 'f) session \<Rightarrow> int \<Rightarrow> mvba_channels \<Rightarrow> bool" where
  "locks_backed B R s i ch \<longleftrightarrow> (\<forall>l k. k \<in> locks_received B (se_node s i) (pd_sid (se_sid s) l) (ch_rc ch) \<longrightarrow>
     backed s (se_n s - se_f s) (signs_stored B R s (pdCertificateDigest ''PD_STORED'' (lm_SID k) (lm_Leader k) (lm_Root k))))"

text \<open>Statements hashed for certified locks of two nodes, and the values of their decisions, collide.\<close>

definition decision_collision ::
  "('g, 'h, 'f::field) bls \<Rightarrow> rs \<Rightarrow> ('g, 'h, 'f) session \<Rightarrow> int \<Rightarrow> mvba_channels \<Rightarrow> bytes \<Rightarrow> int \<Rightarrow> mvba_channels \<Rightarrow> bytes \<Rightarrow> bool" where
  "decision_collision B R s i ch1 v j ch2 w \<longleftrightarrow>
     collide (value_messages R v (se_n s - 2 * se_f s) (se_n s)) (value_messages R w (se_n s - 2 * se_f s) (se_n s)) \<or>
     (\<exists>l. \<exists>k1 \<in> locks_received B (se_node s i) (pd_sid (se_sid s) l) (ch_rc ch1).
       \<exists>k2 \<in> locks_received B (se_node s j) (pd_sid (se_sid s) l) (ch_rc ch2).
       clash {pd_message ''PD_STORED'' (pd_sid (se_sid s) l) (lm_Leader k1) (lm_Root k1),
              pd_message ''PD_STORED'' (pd_sid (se_sid s) l) (lm_Leader k2) (lm_Root k2)} (stored_messages B R s))"

text \<open>C22: agreement within a round: when two honest nodes decide in the same round, they decide the same payload, whatever
  the faulty nodes and the network did, and the payload passes the application's predicate; this needs the
  certificates they accepted to stand for the signatures they claim, and fails only with a SHA-256 collision.\<close>

theorem same_round_agreement:
  fixes B :: "('g, 'h, 'f::field) bls"
  assumes B: "bls_laws B" and s: "mvba_session B s cs mode" and nodes: "i \<in> se_honest s" "j \<in> se_honest s"
    and coding: "coding_ok R (se_n s - 2 * se_f s) (se_n s)"
    and perm: "\<forall>seed. set (perm seed (se_n s)) = {0..<se_n s}"
    and d1: "Run B R perm (se_node s i) (se_input s i) (se_pd s i) ch1 = Decided out1" "locks_backed B R s i ch1"
    and d2: "Run B R perm (se_node s j) (se_input s j) (se_pd s j) ch2 = Decided out2" "locks_backed B R s j ch2"
    and round: "pv_Round out1 = pv_Round out2"
  shows "payloadValid (se_node s i) (pv_Payload out1) \<and>
    (pv_Payload out1 = pv_Payload out2 \<or> decision_collision B R s i ch1 (pv_Payload out1) j ch2 (pv_Payload out2))"
proof -
  have ok: "session_ok s" and cfg: "c_SID (dm_cfg (se_node s i)) = se_sid s" "c_SID (dm_cfg (se_node s j)) = se_sid s"
    "c_EquivalentCoinMode (dm_cfg (se_node s i)) = c_EquivalentCoinMode (dm_cfg (se_node s j))"
    and n: "dm_N (se_node s i) = se_n s" "dm_N (se_node s j) = se_n s"
    using s nodes by (auto simp: mvba_session_def session_ok_def)
  obtain low1 low2 where low: "ms_low (dm_signer (se_node s i)) = Some low1" "dealt B low1 cs"
      "ms_low (dm_signer (se_node s j)) = Some low2" "dealt B low2 cs"
    using s nodes unfolding mvba_session_def by blast
  obtain seed1 st1 s1 rest1 k1 rc1 st1' s1' rest1' store1 lock1 where r1:
    "makeSharedCoin B (se_node s i) (se_sid s @ ''COIN'') TagMVBACoin 0 (ch_coin ch1) ''permutation'' = (st1, s1, Returned seed1, rest1)"
    "k1 < length (perm seed1 (se_n s))" "pv_Round out1 = int k1" "set rc1 \<subseteq> set (ch_rc ch1)"
    "runRCSubprotocol B R (se_node s i) (pd_sid (se_sid s) (perm seed1 (se_n s) ! k1)) rc1 store1 lock1 = (st1', s1', Returned (pv_Payload out1), rest1')"
    "payloadValid (se_node s i) (pv_Payload out1)"
    using run_decided [OF d1(1)] unfolding cfg n by blast
  obtain seed2 st2 s2 rest2 k2 rc2 st2' s2' rest2' store2 lock2 where r2:
    "makeSharedCoin B (se_node s j) (se_sid s @ ''COIN'') TagMVBACoin 0 (ch_coin ch2) ''permutation'' = (st2, s2, Returned seed2, rest2)"
    "pv_Round out2 = int k2" "set rc2 \<subseteq> set (ch_rc ch2)"
    "runRCSubprotocol B R (se_node s j) (pd_sid (se_sid s) (perm seed2 (se_n s) ! k2)) rc2 store2 lock2 = (st2', s2', Returned (pv_Payload out2), rest2')"
    using run_decided [OF d2(1)] unfolding cfg n by blast
  have seed: "seed1 = seed2" by (rule coin_common [OF B low cfg(3) r1(1) r2(1)])
  have k: "k1 = k2" using r1(3) r2(2) round by simp
  let ?l = "perm seed1 (se_n s) ! k1"
  have l: "0 \<le> ?l" "?l < se_n s" using perm r1(2) nth_mem by (metis atLeastLessThan_iff)+
  note mono = locks_received_mono [OF r1(4)] locks_received_mono [OF r2(3)]
  have "\<forall>k \<in> locks_received B (se_node s i) (pd_sid (se_sid s) ?l) rc1 \<union> locks_received B (se_node s j) (pd_sid (se_sid s) ?l) rc2.
      backed s (se_n s - se_f s) (signs_stored B R s (pdCertificateDigest ''PD_STORED'' (lm_SID k) (lm_Leader k) (lm_Root k)))"
    using d1(2) d2(2) mono unfolding locks_backed_def by blast
  from retrieval_agreement [OF ok nodes l coding r1(5) r2(4) [folded seed k] this] mono r1(6)
  show ?thesis unfolding decision_collision_def by blast
qed


section \<open>Common subsets\<close>

record acsVectorEntry =
  av_From :: int
  av_Value :: ProposalValue
  av_Sig :: bytes

definition hashACSValue :: "string \<Rightarrow> ProposalValue \<Rightarrow> bytes" where
  "hashACSValue sid v = hashBytes [str_bytes ''ACS_DIFFUSE'', str_bytes sid, str_bytes (pv_Hint v), pv_Payload v, str_bytes (itoa (pv_Round v))]"

text \<open>The loop over the slots: the number of entries, or the error.\<close>

fun acs_slots ::
  "('g, 'h, 'f) bls \<Rightarrow> ('g, 'h, 'f) mvbaDomainSigner \<Rightarrow> (int \<Rightarrow> ProposalValue \<Rightarrow> bool) \<Rightarrow> string \<Rightarrow> int \<Rightarrow> acsVectorEntry option list \<Rightarrow>
   int option" where
  "acs_slots B signer predicate sid slot [] = Some 0"
| "acs_slots B signer predicate sid slot (None # entries) = acs_slots B signer predicate sid (slot + 1) entries"
| "acs_slots B signer predicate sid slot (Some entry # entries) = do {
     require (av_From entry = slot);
     require (predicate (av_From entry) (av_Value entry));
     require (mvbaVerify B signer (av_From entry) ''ACS_DIFFUSE'' (hashACSValue sid (av_Value entry)) (av_Sig entry));
     count \<leftarrow> acs_slots B signer predicate sid (slot + 1) entries;
     Some (count + 1)
   }"

text \<open>\<open>unmarshal\<close> stands for \<^verbatim>\<open>encoding/json\<close> with unknown fields and trailing data refused.\<close>

definition validateACSVectorPayload ::
  "('g, 'h, 'f) bls \<Rightarrow> (bytes \<Rightarrow> acsVectorEntry option list option) \<Rightarrow> bytes \<Rightarrow> mvba_Config \<Rightarrow> ('g, 'h, 'f) mvbaDomainSigner \<Rightarrow>
   (int \<Rightarrow> ProposalValue \<Rightarrow> bool) \<Rightarrow> acsVectorEntry option list option" where
  "validateACSVectorPayload B unmarshal payload cfg signer predicate = do {
     require (\<not> (c_N cfg \<le> 0 \<or> c_F cfg < 0 \<or> c_N cfg < 3 * c_F cfg + 1));
     entries \<leftarrow> unmarshal payload;
     require (int (length entries) = c_N cfg);
     count \<leftarrow> acs_slots B signer predicate (c_SID cfg @ ''VACS'') 0 entries;
     require (\<not> count < c_N cfg - c_F cfg);
     Some entries
   }"

text \<open>Collecting the diffused values: a message is the sender, the session, the value and the signature.\<close>

fun acs_collect ::
  "('g, 'h, 'f) bls \<Rightarrow> ('g, 'h, 'f) mvbaDomainSigner \<Rightarrow> (int \<Rightarrow> ProposalValue \<Rightarrow> bool) \<Rightarrow> string \<Rightarrow> int \<Rightarrow> int set \<Rightarrow>
   acsVectorEntry option list \<Rightarrow> (int \<times> string \<times> ProposalValue \<times> bytes) list \<Rightarrow> acsVectorEntry option list phase" where
  "acs_collect B signer predicate sid need seen values recv =
     (if int (card seen) \<ge> need then Returned values
      else case recv of
        [] \<Rightarrow> Running
      | (from, msgSID, value, sig) # rest \<Rightarrow>
          (if msgSID \<noteq> sid \<or> from \<in> seen \<or> \<not> predicate from value \<or>
              \<not> mvbaVerify B signer from ''ACS_DIFFUSE'' (hashACSValue sid value) sig
           then acs_collect B signer predicate sid need seen values rest
           else if from < 0 \<or> int (length values) \<le> from then Crashed
           else acs_collect B signer predicate sid need (insert from seen)
             (values[nat from := Some \<lparr> av_From = from, av_Value = value, av_Sig = sig \<rparr>]) rest))"

declare acs_collect.simps [simp del]

definition RunMVBACCommonSubset ::
  "('g, 'h, 'f::field) bls \<Rightarrow> rs \<Rightarrow> (int \<Rightarrow> int \<Rightarrow> int list) \<Rightarrow> (acsVectorEntry option list \<Rightarrow> bytes) \<Rightarrow>
   (bytes \<Rightarrow> acsVectorEntry option list option) \<Rightarrow> mvba_Config \<Rightarrow> ('g, 'h, 'f) mvbaDomainSigner \<Rightarrow> ProposalValue \<Rightarrow>
   (int \<Rightarrow> ProposalValue \<Rightarrow> bool) \<Rightarrow> (int \<times> string \<times> ProposalValue \<times> bytes) list \<Rightarrow> (int \<Rightarrow> ReceivedMessage list) \<Rightarrow> mvba_channels \<Rightarrow>
   ProposalValue option list phase" where
  "RunMVBACCommonSubset B R perm marshal unmarshal cfg signer input predicate diffuse read ch =
     (let sid = c_SID cfg @ ''VACS'' in
      if \<not> predicate (c_ID cfg) input then Failed
      else case mvbaSign B signer ''ACS_DIFFUSE'' (hashACSValue sid input) of
        None \<Rightarrow> Failed
      | Some sig \<Rightarrow>
          (case acs_collect B signer predicate sid (c_N cfg - c_F cfg) {} (replicate (nat (c_N cfg)) None) diffuse of
             Returned values \<Rightarrow>
               (case NewDumboMVBA (cfg\<lparr> c_SID := sid @ ''MVBA'', c_UseEquivalentPath := True,
                   c_ValidatePayload := Some (\<lambda>payload. validateACSVectorPayload B unmarshal payload cfg signer predicate \<noteq> None) \<rparr>) signer of
                  None \<Rightarrow> Failed
                | Some node \<Rightarrow>
                    (case Run B R perm node (marshal values) read ch of
                       Decided dec \<Rightarrow>
                         (case validateACSVectorPayload B unmarshal (pv_Payload dec) cfg signer predicate of
                            None \<Rightarrow> Failed
                          | Some out \<Rightarrow> Returned (map (map_option av_Value) out))
                     | Waits \<Rightarrow> Running
                     | Fails \<Rightarrow> Failed
                     | Crashes \<Rightarrow> Crashed))
           | Running \<Rightarrow> Running
           | Crashed \<Rightarrow> Crashed
           | _ \<Rightarrow> Failed))"

lemma acs_slots_sound:
  assumes "acs_slots B signer predicate sid slot entries = Some count"
  shows "count = int (length (filter (\<lambda>e. e \<noteq> None) entries)) \<and>
    (\<forall>k < length entries. \<forall>e. entries ! k = Some e \<longrightarrow> av_From e = slot + int k \<and> predicate (slot + int k) (av_Value e) \<and>
       mvbaVerify B signer (slot + int k) ''ACS_DIFFUSE'' (hashACSValue sid (av_Value e)) (av_Sig e))"
  using assms
proof (induction B signer predicate sid slot entries arbitrary: count rule: acs_slots.induct)
  case (2 B signer predicate sid slot entries)
  have IH: "count = int (length (filter (\<lambda>e. e \<noteq> None) entries))" "\<forall>k < length entries. \<forall>e. entries ! k = Some e \<longrightarrow>
      av_From e = slot + 1 + int k \<and> predicate (slot + 1 + int k) (av_Value e) \<and>
      mvbaVerify B signer (slot + 1 + int k) ''ACS_DIFFUSE'' (hashACSValue sid (av_Value e)) (av_Sig e)"
    using 2 by auto
  have "av_From e = slot + int k \<and> predicate (slot + int k) (av_Value e) \<and>
      mvbaVerify B signer (slot + int k) ''ACS_DIFFUSE'' (hashACSValue sid (av_Value e)) (av_Sig e)"
    if k: "k < length (None # entries)" "(None # entries) ! k = Some e" for k e
  proof -
    obtain k' where "k = Suc k'" using k by (cases k) auto
    then show ?thesis using IH(2) [rule_format, of k' e] k by (simp add: add.commute add.left_commute)
  qed
  then show ?case using IH(1) by simp
next
  case (3 B signer predicate sid slot entry entries)
  then obtain c where c: "acs_slots B signer predicate sid (slot + 1) entries = Some c" "count = c + 1"
    "av_From entry = slot" "predicate slot (av_Value entry)"
    "mvbaVerify B signer slot ''ACS_DIFFUSE'' (hashACSValue sid (av_Value entry)) (av_Sig entry)"
    by (auto simp: run_simps)
  have IH: "c = int (length (filter (\<lambda>e. e \<noteq> None) entries))" "\<forall>k < length entries. \<forall>e. entries ! k = Some e \<longrightarrow>
      av_From e = slot + 1 + int k \<and> predicate (slot + 1 + int k) (av_Value e) \<and>
      mvbaVerify B signer (slot + 1 + int k) ''ACS_DIFFUSE'' (hashACSValue sid (av_Value e)) (av_Sig e)"
    using 3(1) c by auto
  have "av_From e = slot + int k \<and> predicate (slot + int k) (av_Value e) \<and>
      mvbaVerify B signer (slot + int k) ''ACS_DIFFUSE'' (hashACSValue sid (av_Value e)) (av_Sig e)"
    if k: "k < length (Some entry # entries)" "(Some entry # entries) ! k = Some e" for k e
  proof (cases k)
    case 0
    then show ?thesis using k c by simp
  next
    case (Suc k')
    then show ?thesis using IH(2) [rule_format, of k' e] k by (simp add: add.commute add.left_commute)
  qed
  then show ?case using c(2) IH(1) by simp
qed simp

text \<open>C40: what the common subset returns: a node that ends with a vector has at least \<open>n - f\<close> values in it, each satisfying the
  predicate for its slot and signed by the member of that slot in this session.\<close>

theorem common_subset_sound:
  assumes "RunMVBACCommonSubset B R perm marshal unmarshal cfg signer input predicate diffuse read ch = Returned result"
  shows "int (length result) = c_N cfg \<and> c_N cfg - c_F cfg \<le> int (length (filter (\<lambda>v. v \<noteq> None) result)) \<and>
    (\<forall>k < length result. \<forall>v. result ! k = Some v \<longrightarrow> predicate (int k) v \<and>
       (\<exists>sig. mvbaVerify B signer (int k) ''ACS_DIFFUSE'' (hashACSValue (c_SID cfg @ ''VACS'') v) sig))"
proof -
  obtain payload out where out: "validateACSVectorPayload B unmarshal payload cfg signer predicate = Some out"
    "result = map (map_option av_Value) out"
    using assms by (auto simp: RunMVBACCommonSubset_def Let_def split: if_splits option.splits phase.splits mvba_result.splits)
  obtain count where c: "acs_slots B signer predicate (c_SID cfg @ ''VACS'') 0 out = Some count" "c_N cfg - c_F cfg \<le> count"
    "int (length out) = c_N cfg"
    using out(1) by (auto simp: validateACSVectorPayload_def run_simps)
  note sound = acs_slots_sound [OF c(1)]
  have "length (filter (\<lambda>v. v \<noteq> None) result) = length (filter (\<lambda>e. e \<noteq> None) out)"
    unfolding out(2) by (simp add: filter_map comp_def)
  moreover have "predicate (int k) v \<and> (\<exists>sig. mvbaVerify B signer (int k) ''ACS_DIFFUSE'' (hashACSValue (c_SID cfg @ ''VACS'') v) sig)"
    if k: "k < length result" "result ! k = Some v" for k v
  proof -
    obtain e where "out ! k = Some e" "v = av_Value e" using k by (auto simp: out(2))
    then show ?thesis using sound k(1) by (auto simp: out(2))
  qed
  ultimately show ?thesis using sound c(2,3) by (simp add: out(2))
qed

text \<open>The digest that a diffused value is signed under joins hint, payload and round without lengths, so values that cut the
  joined text elsewhere share it.\<close>

theorem acs_digest_ambiguous:
  "hashACSValue sid \<lparr> pv_Payload = payload @ str_bytes (itoa 1), pv_Round = 2, pv_Hint = hint, pv_Proof = [] \<rparr> =
   hashACSValue sid \<lparr> pv_Payload = payload, pv_Round = 12, pv_Hint = hint, pv_Proof = [] \<rparr>"
proof -
  have d: "itoa 1 = ''1''" "itoa 2 = ''2''" "itoa 12 = ''12''" by code_simp+
  show ?thesis unfolding hashACSValue_def by (simp add: d hashBytes_def str_bytes_def)
qed

end
