(* ===== verification/Apdb.thy ===== *)
theory Apdb
  imports Merkle Erasure Signer
begin

text \<open>
  Asynchronous provable dispersal: \<^verbatim>\<open>src/core/cv_sapvss_apdb.go\<close>.  A payload is packed behind its
  length, erasure coded, and committed by a Merkle root; a lock certifies the root with the APDB
  threshold key; recovery decodes a threshold of verified stores and accepts only if re-encoding
  reproduces the root.  The integer parameters are far below the range of a 64-bit \<^verbatim>\<open>int\<close> in the
  program, so products such as \<^verbatim>\<open>dataShards*shardBytes\<close> do not wrap.
\<close>

section \<open>Domains and data\<close>

definition cvAPDBInstanceDomain :: string where
  [dom_defs]: "cvAPDBInstanceDomain = ''ARL-CV-sAPVSS/v2-scalar-group/apdb-instance''"

definition cvAPDBStoredDomain :: string where
  [dom_defs]: "cvAPDBStoredDomain = ''ARL-CV-sAPVSS/v2-scalar-group/apdb-stored''"

definition cvAPDBShardDomain :: string where
  [dom_defs]: "cvAPDBShardDomain = ''ARL-CV-sAPVSS/v2-scalar-group/apdb-shard''"

definition cvAPDBNodeDomain :: string where
  [dom_defs]: "cvAPDBNodeDomain = ''ARL-CV-sAPVSS/v2-scalar-group/apdb-node''"

definition cvAPDBLockWireDomain :: string where
  [dom_defs]: "cvAPDBLockWireDomain = ''ARL-CV-sAPVSS/v2-scalar-group/apdb-lock''"

definition cvAPDBStoreWireDomain :: string where
  [dom_defs]: "cvAPDBStoreWireDomain = ''ARL-CV-sAPVSS/v2-scalar-group/apdb-store''"

definition cvAPDBPayloadWireDomain :: string where
  [dom_defs]: "cvAPDBPayloadWireDomain = ''ARL-CV-sAPVSS/v2-scalar-group/apdb-recover-payload''"

record cvAPDBLockV2 =
  lk_InstanceDigest :: bytes
  lk_Root :: bytes
  lk_Certificate :: bytes

record cvAPDBStoreV2 =
  st_InstanceDigest :: bytes
  st_Root :: bytes
  st_Index :: int
  st_Shard :: bytes
  st_Siblings :: "bytes list"

record cvAPDBEncodedV2 =
  en_instanceDigest :: bytes
  en_root :: bytes
  en_dataShards :: int
  en_totalShards :: int
  en_shardBytes :: int
  en_stores :: "cvAPDBStoreV2 list"

record cvAPDBPayloadResponseV2 =
  pr_InstanceDigest :: bytes
  pr_Payload :: bytes
  pr_Hints :: bytes

section \<open>Digests and statements\<close>

definition cvAPDBInstanceDigestV2 :: "string \<Rightarrow> bytes list \<Rightarrow> bytes option" where
  "cvAPDBInstanceDigestV2 label parts = do {
     require (label \<noteq> []);
     let wire = dropped (cvWriteBytes (str_bytes label));
     ws \<leftarrow> cvWriteParts parts;
     Some (hashBytes [str_bytes cvAPDBInstanceDomain, wire @ ws])
   }"

definition cvAPDBStoredStatementV2 :: "bytes \<Rightarrow> bytes \<Rightarrow> bytes option" where
  "cvAPDBStoredStatementV2 instanceDigest root = do {
     require (\<not> (length instanceDigest \<noteq> 32 \<or> length root \<noteq> 32));
     Some (hashBytes [str_bytes cvAPDBStoredDomain, instanceDigest, root])
   }"

definition cvAPDBShardMessage :: "bytes \<Rightarrow> int \<Rightarrow> bytes \<Rightarrow> bytes" where
  "cvAPDBShardMessage instanceDigest index shard =
     str_bytes cvAPDBShardDomain @ instanceDigest @ put_be 4 (nat (index mod 2 ^ 32)) @ shard"

definition cvAPDBShardHashV2 :: "bytes \<Rightarrow> int \<Rightarrow> bytes \<Rightarrow> bytes" where
  "cvAPDBShardHashV2 instanceDigest index shard =
     hashBytes [str_bytes cvAPDBShardDomain, instanceDigest, put_be 4 (nat (index mod 2 ^ 32)), shard]"

definition apdb_node_message :: "bytes \<Rightarrow> bytes \<Rightarrow> bytes" where
  "apdb_node_message a b = str_bytes cvAPDBNodeDomain @ a @ b"

definition apdb_node :: "bytes \<Rightarrow> bytes \<Rightarrow> bytes" where
  "apdb_node a b = hashBytes [str_bytes cvAPDBNodeDomain, a, b]"

section \<open>Encoding and verification\<close>

definition cvAPDBBuildMerkleV2 :: "bytes \<Rightarrow> bytes list \<Rightarrow> bytes \<times> bytes list list" where
  "cvAPDBBuildMerkleV2 instanceDigest shards =
     (let leaves = map (\<lambda>i. cvAPDBShardHashV2 instanceDigest (int i) (shards ! i)) [0..<length shards];
          levels = merkle_levels apdb_node leaves;
          branches = map (merkle_branch levels) [0..<length shards]
      in (merkle_root levels, branches))"

definition cvAPDBEncodeSizedV2 ::
  "rs \<Rightarrow> bytes \<Rightarrow> bytes \<Rightarrow> int \<Rightarrow> int \<Rightarrow> int \<Rightarrow> int \<Rightarrow> cvAPDBEncodedV2 option" where
  "cvAPDBEncodeSizedV2 R instanceDigest payload dataShards totalShards shardBytes maximumPayload = do {
     require (\<not> (length instanceDigest \<noteq> 32 \<or> payload = [] \<or> maximumPayload \<le> 0 \<or>
       int (length payload) > maximumPayload \<or> dataShards \<le> 0 \<or> totalShards < dataShards \<or>
       shardBytes \<le> 0 \<or> 8 + int (length payload) > dataShards * shardBytes));
     let packed = put_be 8 (length payload) @ payload @
       replicate (nat (dataShards * shardBytes) - (8 + length payload)) 0;
     shards \<leftarrow> cvErasureEncode R packed dataShards totalShards;
     require (\<not> (int (length shards) \<noteq> totalShards \<or> shards = [] \<or> shards ! 0 = []));
     let (root, branches) = cvAPDBBuildMerkleV2 instanceDigest shards;
     Some \<lparr> en_instanceDigest = instanceDigest, en_root = root, en_dataShards = dataShards,
            en_totalShards = totalShards, en_shardBytes = int (length (shards ! 0)),
            en_stores = map (\<lambda>i. \<lparr> st_InstanceDigest = instanceDigest, st_Root = root,
              st_Index = int i, st_Shard = shards ! i, st_Siblings = branches ! i \<rparr>) [0..<length shards] \<rparr>
   }"

definition cvAPDBEncodeV2 :: "rs \<Rightarrow> bytes \<Rightarrow> bytes \<Rightarrow> int \<Rightarrow> int \<Rightarrow> int \<Rightarrow> cvAPDBEncodedV2 option" where
  "cvAPDBEncodeV2 R instanceDigest payload dataShards totalShards maximumPayload = do {
     require (\<not> (length instanceDigest \<noteq> 32 \<or> payload = [] \<or> maximumPayload \<le> 0 \<or>
       int (length payload) > maximumPayload \<or> dataShards \<le> 0 \<or> totalShards < dataShards));
     let shardBytes = (8 + int (length payload) + dataShards - 1) div dataShards;
     cvAPDBEncodeSizedV2 R instanceDigest payload dataShards totalShards shardBytes maximumPayload
   }"

definition cvAPDBMerkleDepth :: "int \<Rightarrow> int" where
  "cvAPDBMerkleDepth totalShards = int (merkle_depth totalShards)"

definition cvVerifyAPDBStoreV2 :: "cvAPDBStoreV2 \<Rightarrow> int \<Rightarrow> int \<Rightarrow> bool" where
  "cvVerifyAPDBStoreV2 store totalShards shardBytes \<longleftrightarrow>
     \<not> (length (st_InstanceDigest store) \<noteq> 32 \<or> length (st_Root store) \<noteq> 32 \<or> st_Index store < 0 \<or>
        st_Index store \<ge> totalShards \<or> shardBytes \<le> 0 \<or> int (length (st_Shard store)) \<noteq> shardBytes) \<and>
     int (length (st_Siblings store)) = cvAPDBMerkleDepth totalShards \<and>
     merkle_fold apdb_node (nat (st_Index store))
       (cvAPDBShardHashV2 (st_InstanceDigest store) (st_Index store) (st_Shard store))
       (st_Siblings store) = Some (st_Root store)"

definition cvNewAPDBLockV2 :: "cvAPDBEncodedV2 \<Rightarrow> bytes \<Rightarrow> cvAPDBLockV2 option" where
  "cvNewAPDBLockV2 encoded certificate = do {
     require (\<not> (length (en_instanceDigest encoded) \<noteq> 32 \<or> length (en_root encoded) \<noteq> 32 \<or>
       certificate = [] \<or> length certificate > cvMaxComponentSignatureBytes));
     Some \<lparr> lk_InstanceDigest = en_instanceDigest encoded, lk_Root = en_root encoded,
            lk_Certificate = certificate \<rparr>
   }"

definition cvVerifyAPDBLockV2 ::
  "('g, 'h, 'f) bls \<Rightarrow> cvAPDBLockV2 \<Rightarrow> ('g, 'h, 'f) tblsThresholdSigner \<Rightarrow> bool" where
  "cvVerifyAPDBLockV2 B lock signer \<longleftrightarrow>
     \<not> (length (lk_InstanceDigest lock) \<noteq> 32 \<or> length (lk_Root lock) \<noteq> 32 \<or> lk_Certificate lock = [] \<or>
        length (lk_Certificate lock) > cvMaxComponentSignatureBytes \<or>
        \<not> cvV2SignerHasRole signer cvV2RoleAPDB) \<and>
     (case cvAPDBStoredStatementV2 (lk_InstanceDigest lock) (lk_Root lock) of
        None \<Rightarrow> False
      | Some statement \<Rightarrow> VerifyRecovered B signer cvAPDBStoredDomain statement (lk_Certificate lock))"

section \<open>Recovery\<close>

text \<open>The loop over the stores: the shard slots filled so far and the indices seen.\<close>

fun recover_stores ::
  "cvAPDBLockV2 \<Rightarrow> int \<Rightarrow> int \<Rightarrow> bytes option list \<Rightarrow> int set \<Rightarrow> cvAPDBStoreV2 list \<Rightarrow>
   (bytes option list \<times> int set) option" where
  "recover_stores lock totalShards shardBytes shards seen [] = Some (shards, seen)"
| "recover_stores lock totalShards shardBytes shards seen (store # stores) =
     (if st_InstanceDigest store \<noteq> lk_InstanceDigest lock \<or> st_Root store \<noteq> lk_Root lock \<or>
         \<not> cvVerifyAPDBStoreV2 store totalShards shardBytes then None
      else if st_Index store \<in> seen then None
      else recover_stores lock totalShards shardBytes
             (shards[nat (st_Index store) := Some (st_Shard store)]) (insert (st_Index store) seen) stores)"

definition cvRecoverAPDBV2 ::
  "rs \<Rightarrow> cvAPDBLockV2 \<Rightarrow> cvAPDBStoreV2 list \<Rightarrow> int \<Rightarrow> int \<Rightarrow> int \<Rightarrow> int \<Rightarrow> (bytes \<Rightarrow> bool) option \<Rightarrow>
   bytes option" where
  "cvRecoverAPDBV2 R lock stores dataShards totalShards shardBytes maximumPayload bindingCheck = do {
     require (\<not> (length (lk_InstanceDigest lock) \<noteq> 32 \<or> length (lk_Root lock) \<noteq> 32 \<or> dataShards \<le> 0 \<or>
       totalShards < dataShards \<or> shardBytes \<le> 0 \<or> maximumPayload \<le> 0 \<or>
       int (length stores) < dataShards));
     (shards, seen) \<leftarrow> recover_stores lock totalShards shardBytes (replicate (nat totalShards) None) {} stores;
     require (\<not> int (card seen) < dataShards);
     packed \<leftarrow> cvErasureDecode R shards dataShards;
     require (\<not> length packed < 8);
     let len = get_be (take 8 packed);
     require (\<not> (len = 0 \<or> len > length packed - 8 \<or> int len > maximumPayload));
     let payload = take len (drop 8 packed);
     reencoded \<leftarrow> cvAPDBEncodeSizedV2 R (lk_InstanceDigest lock) payload dataShards totalShards shardBytes
       maximumPayload;
     require (en_root reencoded = lk_Root lock);
     require (case bindingCheck of None \<Rightarrow> True | Some check \<Rightarrow> check payload);
     Some payload
   }"

section \<open>Wire formats\<close>

definition cvAPDBLockV2CanonicalBytes :: "cvAPDBLockV2 \<Rightarrow> bytes option" where
  [enc_defs]: "cvAPDBLockV2CanonicalBytes lock = do {
     require (\<not> (length (lk_InstanceDigest lock) \<noteq> 32 \<or> length (lk_Root lock) \<noteq> 32 \<or>
       lk_Certificate lock = [] \<or> length (lk_Certificate lock) > cvMaxComponentSignatureBytes));
     Some (dropped (cvWriteBytes (str_bytes cvAPDBLockWireDomain)) @
           dropped (cvWriteBytes (lk_InstanceDigest lock)) @
           dropped (cvWriteBytes (lk_Root lock)) @
           dropped (cvWriteBytes (lk_Certificate lock)))
   }"

definition cvDecodeAPDBLockV2 :: "bytes \<Rightarrow> cvAPDBLockV2 option" where
  [dec_defs]: "cvDecodeAPDBLockV2 wire = do {
     (domain, r) \<leftarrow> cvReadBytes (length cvAPDBLockWireDomain) (newCVWireReader wire);
     require (domain = str_bytes cvAPDBLockWireDomain);
     (instanceDigest, r) \<leftarrow> cvReadBytes 32 r;
     require (length instanceDigest = 32);
     (root, r) \<leftarrow> cvReadBytes 32 r;
     require (length root = 32);
     (certificate, r) \<leftarrow> cvReadBytes cvMaxComponentSignatureBytes r;
     require (\<not> (certificate = [] \<or> r \<noteq> []));
     let lock = \<lparr> lk_InstanceDigest = instanceDigest, lk_Root = root, lk_Certificate = certificate \<rparr>;
     canonical \<leftarrow> cvAPDBLockV2CanonicalBytes lock;
     require (canonical = wire);
     Some lock
   }"

definition cvAPDBStoreV2CanonicalBytes :: "cvAPDBStoreV2 \<Rightarrow> int \<Rightarrow> int \<Rightarrow> bytes option" where
  [enc_defs]: "cvAPDBStoreV2CanonicalBytes store totalShards shardBytes = do {
     require (cvVerifyAPDBStoreV2 store totalShards shardBytes);
     index \<leftarrow> cvWriteUint32 (st_Index store);
     depth \<leftarrow> cvWriteUint32 (int (length (st_Siblings store)));
     Some (dropped (cvWriteBytes (str_bytes cvAPDBStoreWireDomain)) @
           dropped (cvWriteBytes (st_InstanceDigest store)) @
           dropped (cvWriteBytes (st_Root store)) @ index @
           dropped (cvWriteBytes (st_Shard store)) @ depth @
           concat (map (\<lambda>sibling. dropped (cvWriteBytes sibling)) (st_Siblings store)))
   }"

definition cvReadSibling :: "cvWireReader \<Rightarrow> (bytes \<times> cvWireReader) option" where
  "cvReadSibling r = do {
     (sibling, r) \<leftarrow> cvReadBytes 32 r;
     require (length sibling = 32);
     Some (sibling, r)
   }"

definition cvDecodeAPDBStoreV2 :: "bytes \<Rightarrow> int \<Rightarrow> int \<Rightarrow> cvAPDBStoreV2 option" where
  [dec_defs]: "cvDecodeAPDBStoreV2 wire totalShards shardBytes = do {
     (domain, r) \<leftarrow> cvReadBytes (length cvAPDBStoreWireDomain) (newCVWireReader wire);
     require (domain = str_bytes cvAPDBStoreWireDomain);
     (instanceDigest, r) \<leftarrow> cvReadBytes 32 r;
     require (length instanceDigest = 32);
     (root, r) \<leftarrow> cvReadBytes 32 r;
     require (length root = 32);
     (index, r) \<leftarrow> cvReadUint32 r;
     require (int index < totalShards);
     (shard, r) \<leftarrow> cvReadBytes (nat shardBytes) r;
     require (int (length shard) = shardBytes);
     (depth, r) \<leftarrow> cvReadUint32 r;
     require (int depth = cvAPDBMerkleDepth totalShards);
     (siblings, r) \<leftarrow> cvReadList cvReadSibling depth r;
     require (r = []);
     let store = \<lparr> st_InstanceDigest = instanceDigest, st_Root = root, st_Index = int index,
       st_Shard = shard, st_Siblings = siblings \<rparr>;
     canonical \<leftarrow> cvAPDBStoreV2CanonicalBytes store totalShards shardBytes;
     require (canonical = wire);
     Some store
   }"

definition SizeOfG1AffineUncompressed :: nat where
  "SizeOfG1AffineUncompressed = 96"

definition cvMaxPayloadHintsBytesV2 :: "int \<Rightarrow> int" where
  "cvMaxPayloadHintsBytesV2 maximumPayload = (if maximumPayload \<le> 0 then 0 else 2 * maximumPayload)"

definition cvAPDBPayloadResponseV2CanonicalBytes :: "cvAPDBPayloadResponseV2 \<Rightarrow> bytes option" where
  [enc_defs]: "cvAPDBPayloadResponseV2CanonicalBytes response = do {
     require (\<not> (length (pr_InstanceDigest response) \<noteq> 32 \<or> pr_Payload response = []));
     require (\<not> (length (pr_Hints response) > 0 \<and>
       length (pr_Hints response) mod SizeOfG1AffineUncompressed \<noteq> 0));
     Some (dropped (cvWriteBytes (str_bytes cvAPDBPayloadWireDomain)) @
           dropped (cvWriteBytes (pr_InstanceDigest response)) @
           dropped (cvWriteBytes (pr_Payload response)) @
           (if length (pr_Hints response) > 0 then dropped (cvWriteBytes (pr_Hints response)) else []))
   }"

definition cvDecodeAPDBPayloadResponseV2 :: "bytes \<Rightarrow> int \<Rightarrow> cvAPDBPayloadResponseV2 option" where
  [dec_defs]: "cvDecodeAPDBPayloadResponseV2 wire maximumPayload = do {
     require (\<not> maximumPayload \<le> 0);
     (domain, r) \<leftarrow> cvReadBytes (length cvAPDBPayloadWireDomain) (newCVWireReader wire);
     require (domain = str_bytes cvAPDBPayloadWireDomain);
     (instanceDigest, r) \<leftarrow> cvReadBytes 32 r;
     (payload, r) \<leftarrow> cvReadBytes (nat maximumPayload) r;
     require (payload \<noteq> []);
     (hints, r) \<leftarrow> (if length r > 0 then cvReadBytes (nat (cvMaxPayloadHintsBytesV2 maximumPayload)) r
                     else Some ([], r));
     require (r = [] \<and> length hints mod SizeOfG1AffineUncompressed = 0);
     Some \<lparr> pr_InstanceDigest = instanceDigest, pr_Payload = payload, pr_Hints = hints \<rparr>
   }"

section \<open>The codecs are canonical\<close>

lemma apdb_domain_lengths [simp]:
  "length cvAPDBLockWireDomain < 4294967296" "length cvAPDBStoreWireDomain < 4294967296"
  "length cvAPDBPayloadWireDomain < 4294967296"
  by (simp_all add: dom_defs)

lemma signature_limit [simp]:
  "n \<le> cvMaxComponentSignatureBytes \<Longrightarrow> n < 4294967296"
  by (simp add: cvMaxComponentSignatureBytes_def)

interpretation lock_codec: wire_codec cvAPDBLockV2CanonicalBytes cvDecodeAPDBLockV2 "\<lambda>_. True"
proof
  fix lock w
  assume "cvAPDBLockV2CanonicalBytes lock = Some w"
  then show "cvDecodeAPDBLockV2 w = Some lock"
    by (cases lock) (auto simp: cvAPDBLockV2CanonicalBytes_def cvDecodeAPDBLockV2_def wire_simps split: if_splits)
qed (auto simp: dec_defs bind_eq_Some_conv Let_def split: if_splits)

lemma read_sibling [wire_simps]:
  "length v = 32 \<Longrightarrow> cvReadSibling (put_be 4 32 @ v @ rest) = Some (v, rest)"
  by (simp add: cvReadSibling_def wire_simps)

lemma merkle_fold_siblings:
  "merkle_fold node i d sibs = Some r \<Longrightarrow> \<forall>s \<in> set sibs. length s = 32"
  by (induction node i d sibs rule: merkle_fold.induct) (auto split: if_splits)

lemma cvWriteUint32_SomeD:
  "cvWriteUint32 v = Some w \<Longrightarrow> 0 \<le> v \<and> v < 4294967296 \<and> w = put_be 4 (nat v)"
  by (auto simp: cvWriteUint32_def split: if_splits)

interpretation store_codec:
  wire_codec "\<lambda>s. cvAPDBStoreV2CanonicalBytes s totalShards shardBytes"
    "\<lambda>w. cvDecodeAPDBStoreV2 w totalShards shardBytes" "\<lambda>_. shardBytes < 4294967296"
  for totalShards shardBytes
proof
  fix store w
  assume wf: "shardBytes < 4294967296"
    and enc: "cvAPDBStoreV2CanonicalBytes store totalShards shardBytes = Some w"
  have v: "cvVerifyAPDBStoreV2 store totalShards shardBytes"
    using enc by (auto simp: cvAPDBStoreV2CanonicalBytes_def split: if_splits)
  then have sib: "\<forall>s \<in> set (st_Siblings store). length s = 32"
    using merkle_fold_siblings by (auto simp: cvVerifyAPDBStoreV2_def)
  obtain index depth where idx: "cvWriteUint32 (st_Index store) = Some index"
    and dep: "cvWriteUint32 (int (length (st_Siblings store))) = Some depth"
    using enc by (auto simp: cvAPDBStoreV2CanonicalBytes_def bind_eq_Some_conv split: if_splits)
  note i = cvWriteUint32_SomeD [OF idx] and d = cvWriteUint32_SomeD [OF dep]
  have sibs: "cvReadList cvReadSibling (length (st_Siblings store))
      (concat (map (\<lambda>s. dropped (cvWriteBytes s)) (st_Siblings store))) = Some (st_Siblings store, [])"
    by (rule read_list_end) (use sib in \<open>auto simp: read_sibling\<close>)
  have lens: "length (st_InstanceDigest store) = 32" "length (st_Root store) = 32"
    "length (st_Shard store) = nat shardBytes" "0 < shardBytes"
    using v by (auto simp: cvVerifyAPDBStoreV2_def)
  have depth: "cvAPDBMerkleDepth totalShards = int (length (st_Siblings store))"
    and idx': "st_Index store < totalShards" "0 \<le> st_Index store"
    using v by (auto simp: cvVerifyAPDBStoreV2_def)
  have w: "w = put_be 4 (length cvAPDBStoreWireDomain) @ str_bytes cvAPDBStoreWireDomain @
      put_be 4 32 @ st_InstanceDigest store @ put_be 4 32 @ st_Root store @ put_be 4 (nat (st_Index store)) @
      put_be 4 (nat shardBytes) @ st_Shard store @ put_be 4 (length (st_Siblings store)) @
      concat (map (\<lambda>s. dropped (cvWriteBytes s)) (st_Siblings store))"
    using enc v idx dep i d lens wf by (simp add: cvAPDBStoreV2CanonicalBytes_def nat_less_iff)
  have eta: "\<lparr> st_InstanceDigest = st_InstanceDigest store, st_Root = st_Root store,
      st_Index = st_Index store, st_Shard = st_Shard store, st_Siblings = st_Siblings store \<rparr> = store"
    by simp
  have n: "nat (st_Index store) < 4294967296" "length (st_Siblings store) < 4294967296"
    "nat shardBytes < 4294967296" using i d wf by auto
  show "cvDecodeAPDBStoreV2 w totalShards shardBytes = Some store"
    using enc unfolding cvDecodeAPDBStoreV2_def w
    using lens idx' n by (simp add: wire_simps depth sibs eta)
qed (auto simp: cvDecodeAPDBStoreV2_def bind_eq_Some_conv Let_def split: if_splits
    dest!: cvReadBytes_SomeD(3))

text \<open>The lock certificate has exactly one wire form: the decoder accepts a byte string
  exactly when it is the canonical encoding of the lock it returns.\<close>

theorem lock_wire_canonical:
  "cvDecodeAPDBLockV2 w = Some lock \<longleftrightarrow> cvAPDBLockV2CanonicalBytes lock = Some w"
  using lock_codec.decode_iff by blast

text \<open>A dispersed store has exactly one wire form, for any shard size a 32-bit length can carry:
  the decoder accepts a byte string exactly when it encodes a store that verifies.\<close>

theorem store_wire_canonical:
  "cvDecodeAPDBStoreV2 w totalShards shardBytes = Some store \<longleftrightarrow>
     shardBytes < 4294967296 \<and> cvAPDBStoreV2CanonicalBytes store totalShards shardBytes = Some w"
  using store_codec.decode_iff by blast

section \<open>Stores are bound to the root\<close>

lemma apdb_node_hash: "apdb_node a b = sha256 (apdb_node_message a b)"
  by (simp add: apdb_node_def apdb_node_message_def hashBytes_def)

interpretation apdb_tree: merkle apdb_node apdb_node_message
  by unfold_locales (auto simp: apdb_node_hash apdb_node_message_def)

lemma shard_hash: "cvAPDBShardHashV2 inst i shard = sha256 (cvAPDBShardMessage inst i shard)"
  by (simp add: cvAPDBShardHashV2_def cvAPDBShardMessage_def hashBytes_def)

text \<open>The messages that the verification of a store hashes.\<close>

definition store_messages :: "cvAPDBStoreV2 \<Rightarrow> bytes list" where
  "store_messages store =
     cvAPDBShardMessage (st_InstanceDigest store) (st_Index store) (st_Shard store) #
     merkle_messages apdb_node_message (nat (st_Index store))
       (cvAPDBShardHashV2 (st_InstanceDigest store) (st_Index store) (st_Shard store)) (st_Siblings store)"

lemma store_binding_aux:
  assumes "cvVerifyAPDBStoreV2 s1 t b" "cvVerifyAPDBStoreV2 s2 t b'"
    and "st_InstanceDigest s1 = st_InstanceDigest s2" "st_Root s1 = st_Root s2" "st_Index s1 = st_Index s2"
  shows "s1 = s2 \<or> collide (store_messages s1) (store_messages s2)"
proof -
  let ?h1 = "cvAPDBShardHashV2 (st_InstanceDigest s1) (st_Index s1) (st_Shard s1)"
  let ?h2 = "cvAPDBShardHashV2 (st_InstanceDigest s2) (st_Index s2) (st_Shard s2)"
  have len: "length (st_Siblings s1) = length (st_Siblings s2)"
    using assms(1,2) by (auto simp: cvVerifyAPDBStoreV2_def)
  have fold: "merkle_fold apdb_node (nat (st_Index s1)) ?h1 (st_Siblings s1) = Some (st_Root s1)"
    "merkle_fold apdb_node (nat (st_Index s1)) ?h2 (st_Siblings s2) = Some (st_Root s1)"
    using assms by (auto simp: cvVerifyAPDBStoreV2_def)
  have "?h1 = ?h2 \<and> st_Siblings s1 = st_Siblings s2 \<or>
      collide (merkle_messages apdb_node_message (nat (st_Index s1)) ?h1 (st_Siblings s1))
        (merkle_messages apdb_node_message (nat (st_Index s1)) ?h2 (st_Siblings s2))"
    by (rule apdb_tree.fold_binding [OF len _ _ fold]) (simp_all add: shard_hash)
  then show ?thesis
  proof
    assume eq: "?h1 = ?h2 \<and> st_Siblings s1 = st_Siblings s2"
    show ?thesis
    proof (cases "st_Shard s1 = st_Shard s2")
      case True
      then show ?thesis using eq assms(3-5) by (cases s1; cases s2) simp
    next
      case False
      then have "cvAPDBShardMessage (st_InstanceDigest s1) (st_Index s1) (st_Shard s1) \<noteq>
          cvAPDBShardMessage (st_InstanceDigest s2) (st_Index s2) (st_Shard s2)"
        using assms(3,5) by (simp add: cvAPDBShardMessage_def)
      then show ?thesis using eq by (auto simp: store_messages_def shard_hash intro: collide_hd)
    qed
  next
    assume "collide (merkle_messages apdb_node_message (nat (st_Index s1)) ?h1 (st_Siblings s1))
        (merkle_messages apdb_node_message (nat (st_Index s1)) ?h2 (st_Siblings s2))"
    then show ?thesis using assms(5) by (auto simp: store_messages_def intro: collide_Cons)
  qed
qed

text \<open>A verified store is determined by its dispersal instance, root and index: two stores that
  both verify at one position are equal, or two different messages hashed while they were verified
  have the same SHA-256 digest.\<close>

theorem store_binding:
  assumes "cvVerifyAPDBStoreV2 s1 totalShards shardBytes" "cvVerifyAPDBStoreV2 s2 totalShards shardBytes"
    and "st_InstanceDigest s1 = st_InstanceDigest s2" "st_Root s1 = st_Root s2" "st_Index s1 = st_Index s2"
  shows "s1 = s2 \<or>
    (\<exists>x \<in> set (store_messages s1). \<exists>y \<in> set (store_messages s2). x \<noteq> y \<and> sha256 x = sha256 y)"
  using store_binding_aux [OF assms] by (auto simp: collide_def)

section \<open>What encoding produces\<close>

definition pack_payload :: "bytes \<Rightarrow> nat \<Rightarrow> bytes" where
  "pack_payload payload n = put_be 8 (length payload) @ payload @ replicate (n - (8 + length payload)) 0"

definition apdb_of :: "bytes \<Rightarrow> int \<Rightarrow> int \<Rightarrow> bytes list \<Rightarrow> cvAPDBEncodedV2" where
  "apdb_of inst d t shards =
     (let (root, branches) = cvAPDBBuildMerkleV2 inst shards
      in \<lparr> en_instanceDigest = inst, en_root = root, en_dataShards = d, en_totalShards = t,
           en_shardBytes = int (length (shards ! 0)),
           en_stores = map (\<lambda>i. \<lparr> st_InstanceDigest = inst, st_Root = root, st_Index = int i,
             st_Shard = shards ! i, st_Siblings = branches ! i \<rparr>) [0..<length shards] \<rparr>)"

definition encode_args_ok :: "bytes \<Rightarrow> bytes \<Rightarrow> int \<Rightarrow> int \<Rightarrow> int \<Rightarrow> int \<Rightarrow> bool" where
  "encode_args_ok inst p d t b m \<longleftrightarrow> length inst = 32 \<and> p \<noteq> [] \<and> int (length p) \<le> m \<and> 0 < d \<and> d \<le> t \<and>
     0 < b \<and> 8 + int (length p) \<le> d * b"

lemma encode_sized_Some:
  assumes ok: "code_ok R d t" and args: "encode_args_ok inst p d t b m"
  obtains E where "cvAPDBEncodeSizedV2 R inst p d t b m = Some (apdb_of inst d t E)"
    "length E = nat t" "\<forall>s \<in> set E. length s = nat b"
    "concat (take (nat d) E) = pack_payload p (nat (d * b))"
    "\<And>sh. agrees sh E \<Longrightarrow> nat d \<le> present sh \<Longrightarrow>
       cvErasureDecode R sh d = Some (pack_payload p (nat (d * b)))"
proof -
  have pos: "0 < d" "d \<le> t" "0 < b" "8 + int (length p) \<le> d * b" using args by (auto simp: encode_args_ok_def)
  have len: "length (pack_payload p (nat (d * b))) = nat d * nat b"
    using pos by (simp add: pack_payload_def nat_mult_distrib [symmetric])
  from pos have b: "0 < nat b" by simp
  obtain E where E: "cvErasureEncode R (pack_payload p (nat (d * b))) d t = Some E" "length E = nat t"
    "\<forall>s \<in> set E. length s = nat b" "concat (take (nat d) E) = pack_payload p (nat (d * b))"
    "\<And>sh. agrees sh E \<Longrightarrow> nat d \<le> present sh \<Longrightarrow>
       cvErasureDecode R sh d = Some (pack_payload p (nat (d * b)))"
    using cvErasureEncode_Some [OF ok len b] by metis
  have ne: "E \<noteq> []" "E ! 0 \<noteq> []" "int (length E) = t"
    using E(2,3) pos by (auto simp flip: length_greater_0_conv)
  have "cvAPDBEncodeSizedV2 R inst p d t b m = Some (apdb_of inst d t E)"
    using args ne E(1) unfolding cvAPDBEncodeSizedV2_def encode_args_ok_def pack_payload_def apdb_of_def
    by (cases p) (simp_all add: Let_def split_beta)
  with E that show ?thesis by blast
qed

lemma encode_sized_args:
  "cvAPDBEncodeSizedV2 R inst p d t b m = Some enc \<Longrightarrow> encode_args_ok inst p d t b m"
  by (auto simp: cvAPDBEncodeSizedV2_def encode_args_ok_def split: if_splits)

lemma apdb_of_fields [simp]:
  "en_instanceDigest (apdb_of inst d t E) = inst" "en_dataShards (apdb_of inst d t E) = d"
  "en_totalShards (apdb_of inst d t E) = t" "en_shardBytes (apdb_of inst d t E) = int (length (E ! 0))"
  "length (en_stores (apdb_of inst d t E)) = length E"
  by (simp_all add: apdb_of_def Let_def split_beta)

lemma apdb_of_store:
  assumes "i < length E"
  shows "st_InstanceDigest (en_stores (apdb_of inst d t E) ! i) = inst"
    "st_Root (en_stores (apdb_of inst d t E) ! i) = en_root (apdb_of inst d t E)"
    "st_Index (en_stores (apdb_of inst d t E) ! i) = int i"
    "st_Shard (en_stores (apdb_of inst d t E) ! i) = E ! i"
  using assms by (simp_all add: apdb_of_def Let_def split_beta)

lemma apdb_of_verifies:
  assumes E: "length E = nat t" "\<forall>s \<in> set E. length s = nat b" and b: "0 < b" and inst: "length inst = 32"
    and i: "i < length E"
  shows "cvVerifyAPDBStoreV2 (en_stores (apdb_of inst d t E) ! i) t b"
proof -
  let ?leaves = "map (\<lambda>i. cvAPDBShardHashV2 inst (int i) (E ! i)) [0..<length E]"
  let ?lv = "merkle_levels apdb_node ?leaves"
  have dig: "\<forall>d \<in> set ?leaves. length d = 32" by (auto simp: shard_hash)
  have fold: "merkle_fold apdb_node i (?leaves ! i) (merkle_branch ?lv i) = Some (merkle_root ?lv)"
    by (rule apdb_tree.branch_folds) (use i dig in auto)
  have root: "length (merkle_root ?lv) = 32" by (rule apdb_tree.length_root) (use i dig in auto)
  have depth: "int (length (merkle_branch ?lv i)) = cvAPDBMerkleDepth t"
    using E i by (cases "0 \<le> t") (simp_all add: length_merkle_branch merkle_levels_depth cvAPDBMerkleDepth_def)
  have "en_stores (apdb_of inst d t E) ! i = \<lparr> st_InstanceDigest = inst, st_Root = merkle_root ?lv,
      st_Index = int i, st_Shard = E ! i, st_Siblings = merkle_branch ?lv i \<rparr>"
    using i by (simp add: apdb_of_def cvAPDBBuildMerkleV2_def Let_def)
  then show ?thesis
    using fold root depth inst b E i by (simp add: cvVerifyAPDBStoreV2_def)
qed

section \<open>The root is bound to the payload\<close>

definition payload_messages :: "rs \<Rightarrow> bytes \<Rightarrow> bytes \<Rightarrow> int \<Rightarrow> int \<Rightarrow> int \<Rightarrow> int \<Rightarrow> bytes list" where
  "payload_messages R inst p d t b m =
     (case cvAPDBEncodeSizedV2 R inst p d t b m of None \<Rightarrow> []
      | Some enc \<Rightarrow> concat (map store_messages (en_stores enc)))"

lemma pack_payload_inject:
  assumes "length p < 2 ^ 64" "length q < 2 ^ 64" "pack_payload p n = pack_payload q n"
  shows "p = q"
proof -
  have "put_be 8 (length p) = put_be 8 (length q)"
    and rest: "p @ replicate (n - (8 + length p)) 0 = q @ replicate (n - (8 + length q)) 0"
    using assms(3) by (simp_all add: pack_payload_def)
  then have "length p = length q" using assms(1,2) put_be_inject [of "length p" 8 "length q"] by simp
  then show ?thesis using rest by simp
qed

lemma root_binding:
  assumes ok: "code_ok R d t" and m: "int64 m"
    and e1: "cvAPDBEncodeSizedV2 R inst p1 d t b m = Some enc1"
    and e2: "cvAPDBEncodeSizedV2 R inst p2 d t b m = Some enc2" and root: "en_root enc1 = en_root enc2"
  shows "p1 = p2 \<or> collide (payload_messages R inst p1 d t b m) (payload_messages R inst p2 d t b m)"
proof -
  note a1 = encode_sized_args [OF e1] and a2 = encode_sized_args [OF e2]
  obtain E1 where E1: "enc1 = apdb_of inst d t E1" "length E1 = nat t" "\<forall>s \<in> set E1. length s = nat b"
    "concat (take (nat d) E1) = pack_payload p1 (nat (d * b))"
    using encode_sized_Some [OF ok a1] e1 by (metis option.inject)
  obtain E2 where E2: "enc2 = apdb_of inst d t E2" "length E2 = nat t" "\<forall>s \<in> set E2. length s = nat b"
    "concat (take (nat d) E2) = pack_payload p2 (nat (d * b))"
    using encode_sized_Some [OF ok a2] e2 by (metis option.inject)
  have inst: "length inst = 32" "0 < b" and small: "length p1 < 2 ^ 64" "length p2 < 2 ^ 64"
    using a1 a2 m by (auto simp: encode_args_ok_def int64_def)
  have "E1 = E2 \<or> (\<exists>i < nat t. collide (store_messages (en_stores enc1 ! i)) (store_messages (en_stores enc2 ! i)))"
  proof (rule disjCI)
    assume no: "\<not> (\<exists>i < nat t. collide (store_messages (en_stores enc1 ! i)) (store_messages (en_stores enc2 ! i)))"
    have "E1 ! i = E2 ! i" if i: "i < nat t" for i
    proof -
      have "en_stores enc1 ! i = en_stores enc2 ! i \<or>
          collide (store_messages (en_stores enc1 ! i)) (store_messages (en_stores enc2 ! i))"
        unfolding E1(1) E2(1)
        by (rule store_binding_aux [of _ t b _ b])
           (use E1 E2 i inst root in \<open>auto simp: apdb_of_verifies apdb_of_store\<close>)
      with no i have "en_stores enc1 ! i = en_stores enc2 ! i" by blast
      then show ?thesis using apdb_of_store(4) [of i E1] apdb_of_store(4) [of i E2] E1 E2 i by metis
    qed
    then show "E1 = E2" using E1(2) E2(2) by (auto intro: nth_equalityI)
  qed
  then show ?thesis
  proof
    assume "E1 = E2"
    then have "pack_payload p1 (nat (d * b)) = pack_payload p2 (nat (d * b))" using E1(4) E2(4) by simp
    then show ?thesis using pack_payload_inject small by blast
  next
    assume "\<exists>i < nat t. collide (store_messages (en_stores enc1 ! i)) (store_messages (en_stores enc2 ! i))"
    then obtain i where i: "i < nat t"
      "collide (store_messages (en_stores enc1 ! i)) (store_messages (en_stores enc2 ! i))" by blast
    have "en_stores enc1 ! i \<in> set (en_stores enc1)" "en_stores enc2 ! i \<in> set (en_stores enc2)"
      using i E1 E2 by auto
    then show ?thesis using i(2) e1 e2 by (auto simp: collide_def payload_messages_def)
  qed
qed

section \<open>Recovery\<close>

lemma recover_stores_honest:
  assumes "\<forall>s \<in> set stores. \<exists>i < length E. s = en_stores (apdb_of inst d t E) ! i"
    and "lk_InstanceDigest lock = inst" "lk_Root lock = en_root (apdb_of inst d t E)"
    and "length E = nat t" "\<forall>s \<in> set E. length s = nat b" "0 < b" "length inst = 32"
    and "distinct (map st_Index stores)" "seen \<inter> st_Index ` set stores = {}" "agrees sh E"
  shows "\<exists>sh'. recover_stores lock t b sh seen stores = Some (sh', seen \<union> st_Index ` set stores) \<and>
    agrees sh' E \<and> {i. i < length sh' \<and> sh' ! i \<noteq> None} =
      {i. i < length sh \<and> sh ! i \<noteq> None} \<union> (\<lambda>s. nat (st_Index s)) ` set stores"
  using assms
proof (induction stores arbitrary: sh seen)
  case Nil
  then show ?case by simp
next
  case (Cons s stores)
  obtain i where i: "i < length E" "s = en_stores (apdb_of inst d t E) ! i" using Cons.prems(1) by auto
  have ver: "cvVerifyAPDBStoreV2 s t b" unfolding i(2)
    by (rule apdb_of_verifies) (use Cons.prems i in auto)
  note f = apdb_of_store [OF i(1), where inst = inst and d = d and t = t, folded i(2)]
  let ?sh = "sh[i := Some (E ! i)]"
  have sh: "agrees ?sh E" "length sh = length E"
    using Cons.prems(10) unfolding agrees_def by (metis length_list_update nth_list_update nth_list_update_neq)+
  have "\<exists>sh'. recover_stores lock t b ?sh (insert (int i) seen) stores =
        Some (sh', insert (int i) seen \<union> st_Index ` set stores) \<and>
      agrees sh' E \<and> {i. i < length sh' \<and> sh' ! i \<noteq> None} =
        {i. i < length ?sh \<and> ?sh ! i \<noteq> None} \<union> (\<lambda>s. nat (st_Index s)) ` set stores"
    by (rule Cons.IH) (use Cons.prems f sh in auto)
  moreover have "{k. k < length ?sh \<and> ?sh ! k \<noteq> None} = insert i {k. k < length sh \<and> sh ! k \<noteq> None}"
    using i(1) sh(2) by (auto simp: nth_list_update)
  moreover have "int i \<notin> seen" using Cons.prems(9) f(3) by auto
  ultimately show ?case using Cons.prems(2,3) ver f by auto
qed

lemma recover_sized:
  assumes ok: "code_ok R d t" and m: "int64 m"
    and enc: "cvAPDBEncodeSizedV2 R inst p d t b m = Some enc"
    and lock: "lk_InstanceDigest lock = inst" "lk_Root lock = en_root enc"
    and stores: "set stores \<subseteq> set (en_stores enc)" "distinct stores" "d \<le> int (length stores)"
    and check: "case check of None \<Rightarrow> True | Some c \<Rightarrow> c p"
  shows "cvRecoverAPDBV2 R lock stores d t b m check = Some p"
proof -
  note a = encode_sized_args [OF enc]
  obtain E where E: "enc = apdb_of inst d t E" "length E = nat t" "\<forall>s \<in> set E. length s = nat b"
    "\<And>sh. agrees sh E \<Longrightarrow> nat d \<le> present sh \<Longrightarrow>
       cvErasureDecode R sh d = Some (pack_payload p (nat (d * b)))"
    using encode_sized_Some [OF ok a] enc by (metis option.inject)
  have pos: "length inst = 32" "p \<noteq> []" "0 < d" "d \<le> t" "0 < b" "8 + int (length p) \<le> d * b"
    "int (length p) \<le> m" and small: "length p < 2 ^ 64"
    using a m by (auto simp: encode_args_ok_def int64_def)
  have mem: "\<forall>s \<in> set stores. \<exists>i < length E. s = en_stores (apdb_of inst d t E) ! i"
    using stores(1) E(1) apdb_of_fields(5) by (metis in_set_conv_nth subsetD)
  have inj: "inj_on st_Index (set stores)"
    using mem apdb_of_store(3) by (intro inj_onI) (metis of_nat_eq_iff)
  then have dist: "distinct (map st_Index stores)" using stores(2) by (simp add: distinct_map)
  have idx: "0 \<le> st_Index s" if "s \<in> set stores" for s using mem that apdb_of_store(3) by fastforce
  have none: "{i. i < length (replicate (nat t) (None :: bytes option)) \<and>
      replicate (nat t) (None :: bytes option) ! i \<noteq> None} = {}" by auto
  obtain sh where sh: "recover_stores lock t b (replicate (nat t) None) {} stores = Some (sh, st_Index ` set stores)"
    "agrees sh E" "{i. i < length sh \<and> sh ! i \<noteq> None} = (\<lambda>s. nat (st_Index s)) ` set stores"
    using recover_stores_honest [OF mem lock(1) _ E(2,3) pos(5,1) dist, of "{}" "replicate (nat t) None"]
      lock(2) E(1,2) unfolding none by (auto simp: agrees_def)
  have cnt: "card (st_Index ` set stores) = length stores"
    using inj stores(2) by (simp add: card_image distinct_card)
  have "inj_on (\<lambda>s. nat (st_Index s)) (set stores)"
    using inj idx unfolding inj_on_def by (metis int_nat_eq)
  then have "present sh = length stores"
    using sh(3) stores(2) by (simp add: present_def card_image distinct_card)
  then have dec: "cvErasureDecode R sh d = Some (pack_payload p (nat (d * b)))"
    using E(4) sh(2) stores(3) by simp
  have unpack: "take 8 (pack_payload p n) = put_be 8 (length p)"
    "take (length p) (drop 8 (pack_payload p n)) = p" "length (pack_payload p n) = 8 + length p + (n - (8 + length p))" for n
    by (simp_all add: pack_payload_def)
  have g: "get_be (put_be 8 (length p)) = length p" using small by (simp add: get_be_put_be)
  have root: "length (en_root enc) = 32"
    using apdb_of_verifies [OF E(2,3) pos(5,1), of 0 d] apdb_of_store(2) [of 0 E inst d t] E(1,2) pos(3,4)
    by (auto simp: cvVerifyAPDBStoreV2_def)
  have len: "8 + length p \<le> nat (d * b)" "0 < m" using pos by (cases p; auto)+
  then have "\<not> nat (d * b) - 8 < length p" by linarith
  then show ?thesis
    using enc pos lock stores(3) root sh(1) cnt dec check len
    by (cases check) (simp_all add: cvRecoverAPDBV2_def unpack g Let_def)
qed

lemma encode_stores_distinct:
  assumes "code_ok R d t" "cvAPDBEncodeSizedV2 R inst p d t b m = Some enc"
  shows "distinct (en_stores enc)"
proof -
  obtain E where E: "enc = apdb_of inst d t E"
    using encode_sized_Some [OF assms(1) encode_sized_args [OF assms(2)]] assms(2) by (metis option.inject)
  then show ?thesis using apdb_of_store(3) [of _ E] by (auto simp: distinct_conv_nth) (metis of_nat_eq_iff)
qed

lemma encode_V2_sized:
  assumes "cvAPDBEncodeV2 R inst p d t m = Some enc" and "code_ok R d t"
  shows "cvAPDBEncodeSizedV2 R inst p d t (en_shardBytes enc) m = Some enc"
proof -
  let ?b = "(8 + int (length p) + d - 1) div d"
  have e: "cvAPDBEncodeSizedV2 R inst p d t ?b m = Some enc"
    using assms(1) by (auto simp: cvAPDBEncodeV2_def split: if_splits)
  obtain E where E: "enc = apdb_of inst d t E" "length E = nat t" "\<forall>s \<in> set E. length s = nat ?b"
    using encode_sized_Some [OF assms(2) encode_sized_args [OF e]] e by (metis option.inject)
  have "0 < ?b" "0 < t" using encode_sized_args [OF e] by (auto simp: encode_args_ok_def)
  then have "en_shardBytes enc = ?b" using E by simp
  then show ?thesis using e by simp
qed

text \<open>C17: dispersal round trip: whatever threshold-sized set of distinct stores of an encoded
  payload is collected, recovery against the payload's root returns exactly that payload.\<close>

theorem apdb_recovers_payload:
  assumes "code_ok R dataShards totalShards" "int64 maximumPayload"
    and "cvAPDBEncodeV2 R inst payload dataShards totalShards maximumPayload = Some enc"
    and "lk_InstanceDigest lock = inst" "lk_Root lock = en_root enc"
    and "set stores \<subseteq> set (en_stores enc)" "distinct stores" "dataShards \<le> int (length stores)"
    and "case check of None \<Rightarrow> True | Some c \<Rightarrow> c payload"
  shows "cvRecoverAPDBV2 R lock stores dataShards totalShards (en_shardBytes enc) maximumPayload check =
    Some payload"
  using recover_sized [OF assms(1,2) encode_V2_sized [OF assms(3,1)] assms(4-9)] .

lemma recover_reencodes:
  assumes "cvRecoverAPDBV2 R lock stores d t b m check = Some p"
  shows "\<exists>enc. cvAPDBEncodeSizedV2 R (lk_InstanceDigest lock) p d t b m = Some enc \<and> en_root enc = lk_Root lock"
  using assms unfolding cvRecoverAPDBV2_def
  by (auto simp: bind_eq_Some_conv Let_def split: if_splits)

text \<open>C18: recovery is consistent: two successful recoveries against one lock, from whatever stores
  and with whatever binding checks, return the same payload, or re-encoding the two payloads hashes
  two different messages to one SHA-256 digest.\<close>

theorem apdb_recovery_agreement:
  assumes "code_ok R dataShards totalShards" "int64 maximumPayload"
    and "cvRecoverAPDBV2 R lock stores dataShards totalShards shardBytes maximumPayload check = Some p"
    and "cvRecoverAPDBV2 R lock stores' dataShards totalShards shardBytes maximumPayload check' = Some p'"
  shows "p = p' \<or>
    (\<exists>x \<in> set (payload_messages R (lk_InstanceDigest lock) p dataShards totalShards shardBytes maximumPayload).
     \<exists>y \<in> set (payload_messages R (lk_InstanceDigest lock) p' dataShards totalShards shardBytes maximumPayload).
       x \<noteq> y \<and> sha256 x = sha256 y)"
  using recover_reencodes [OF assms(3)] recover_reencodes [OF assms(4)]
    root_binding [OF assms(1,2), of "lk_InstanceDigest lock" p shardBytes _ p'] unfolding collide_def
  by metis

section \<open>Witnesses\<close>

lemma sample_encoding:
  obtains enc where "cvAPDBEncodeV2 rep_code (replicate 32 0) [7] 1 2 10 = Some enc"
    "length (en_stores enc) = 2" "\<And>i. i < 2 \<Longrightarrow> cvVerifyAPDBStoreV2 (en_stores enc ! i) 2 9"
    "en_shardBytes enc = 9"
proof -
  have args: "encode_args_ok (replicate 32 0) [7] 1 2 9 10" by (simp add: encode_args_ok_def)
  obtain E where E: "cvAPDBEncodeSizedV2 rep_code (replicate 32 0) [7] 1 2 9 10 = Some (apdb_of (replicate 32 0) 1 2 E)"
    "length E = nat 2" "\<forall>s \<in> set E. length s = nat 9" using encode_sized_Some [OF rep_code_ok args] by metis
  have "cvAPDBEncodeV2 rep_code (replicate 32 0) [7] 1 2 10 = Some (apdb_of (replicate 32 0) 1 2 E)"
    using E(1) by (simp add: cvAPDBEncodeV2_def)
  moreover have "cvVerifyAPDBStoreV2 (en_stores (apdb_of (replicate 32 0) 1 2 E) ! i) 2 9" if "i < 2" for i
    by (rule apdb_of_verifies) (use E that in auto)
  ultimately show ?thesis using that E by simp
qed

theorem apdb_recovers_payload_witness:
  "\<exists>enc. cvAPDBEncodeV2 rep_code (replicate 32 0) [7] 1 2 10 = Some enc \<and>
     cvRecoverAPDBV2 rep_code \<lparr> lk_InstanceDigest = replicate 32 0, lk_Root = en_root enc, lk_Certificate = [] \<rparr>
       [en_stores enc ! 1] 1 2 (en_shardBytes enc) 10 (Some (\<lambda>p. p = [7])) = Some [7]"
proof (rule sample_encoding)
  fix enc assume e: "cvAPDBEncodeV2 rep_code (replicate 32 0) [7] 1 2 10 = Some enc" "length (en_stores enc) = 2"
  then have "cvRecoverAPDBV2 rep_code \<lparr> lk_InstanceDigest = replicate 32 0, lk_Root = en_root enc, lk_Certificate = [] \<rparr>
       [en_stores enc ! 1] 1 2 (en_shardBytes enc) 10 (Some (\<lambda>p. p = [7])) = Some [7]"
    by (intro apdb_recovers_payload [OF rep_code_ok _ e(1)]) (simp_all add: int64_def)
  with e show ?thesis by blast
qed

theorem apdb_recovery_agreement_witness:
  "\<exists>lock stores stores' p p'.
     cvRecoverAPDBV2 rep_code lock stores 1 2 9 10 None = Some p \<and>
     cvRecoverAPDBV2 rep_code lock stores' 1 2 9 10 None = Some p' \<and> stores \<noteq> stores' \<and>
     (p = p' \<or>
      (\<exists>x \<in> set (payload_messages rep_code (lk_InstanceDigest lock) p 1 2 9 10).
       \<exists>y \<in> set (payload_messages rep_code (lk_InstanceDigest lock) p' 1 2 9 10). x \<noteq> y \<and> sha256 x = sha256 y))"
proof (rule sample_encoding)
  fix enc assume e: "cvAPDBEncodeV2 rep_code (replicate 32 0) [7] 1 2 10 = Some enc" "length (en_stores enc) = 2"
    "en_shardBytes enc = 9"
  note s = encode_V2_sized [OF e(1) rep_code_ok, unfolded e(3)]
  let ?lock = "\<lparr> lk_InstanceDigest = replicate 32 0, lk_Root = en_root enc, lk_Certificate = [] \<rparr>"
  have r: "cvRecoverAPDBV2 rep_code ?lock [en_stores enc ! 0] 1 2 9 10 None = Some [7]"
    "cvRecoverAPDBV2 rep_code ?lock (rev (en_stores enc)) 1 2 9 10 None = Some [7]"
    by (rule recover_sized [OF rep_code_ok _ s]; use e(2) in \<open>simp add: int64_def encode_stores_distinct [OF rep_code_ok s]\<close>)+
  have "[en_stores enc ! 0] \<noteq> rev (en_stores enc)" using e(2) by (metis length_Cons length_rev list.size(3) n_not_Suc_n numeral_2_eq_2)
  then show ?thesis using apdb_recovery_agreement [OF rep_code_ok _ r] r int64_def by (fastforce simp: int64_def)
qed

theorem store_binding_witness:
  "\<exists>s1 s2. cvVerifyAPDBStoreV2 s1 2 9 \<and> cvVerifyAPDBStoreV2 s2 2 9 \<and>
     (s1 = s2 \<or> (\<exists>x \<in> set (store_messages s1). \<exists>y \<in> set (store_messages s2). x \<noteq> y \<and> sha256 x = sha256 y))"
proof (rule sample_encoding)
  fix enc assume "\<And>i. i < 2 \<Longrightarrow> cvVerifyAPDBStoreV2 (en_stores enc ! i) 2 9"
  then have v: "cvVerifyAPDBStoreV2 (en_stores enc ! 1) 2 9" by simp
  show ?thesis using store_binding [OF v v] v by blast
qed

end
