(* ===== verification/Coin.thy ===== *)
theory Coin
  imports Apdb "HOL-Library.Multiset"
begin

text \<open>
  The threshold coin of \<^verbatim>\<open>src/core/cv_sapvss_v2_coin.go\<close>: invocations, coin shares and outputs with
  their wire formats, and the sampler that turns a coin value into a sample without replacement
  (a Fisher--Yates shuffle driven by rejection sampling over SHA-256).  The rejection loop is a
  \<open>partial_function\<close>: \<open>None\<close> is both the error for a bad bound and a loop that never ends.
\<close>

section \<open>Domains and data\<close>

definition cvV2SamplerDomain :: string where
  [dom_defs]: "cvV2SamplerDomain = ''ARL-CV-sAPVSS/v2-scalar-group/sample''"

definition cvV2CoinDomain :: string where
  [dom_defs]: "cvV2CoinDomain = ''ARL-CV-sAPVSS/v2-scalar-group/coin''"

definition cvV2CoinOutputDomain :: string where
  [dom_defs]: "cvV2CoinOutputDomain = ''ARL-CV-sAPVSS/v2-scalar-group/coin-output''"

definition cvV2CoinShareDomain :: string where
  [dom_defs]: "cvV2CoinShareDomain = ''ARL-CV-sAPVSS/v2-scalar-group/coin-share''"

definition cvV2EligibilityCoinTag :: string where
  "cvV2EligibilityCoinTag = ''ELIG''"

definition cvV2ContributorCoinTag :: string where
  "cvV2ContributorCoinTag = ''CONTRIB''"

definition cvV2ProposerSampleTag :: string where
  "cvV2ProposerSampleTag = ''PROP''"

definition cvV2ValidatorSampleTag :: string where
  "cvV2ValidatorSampleTag = ''VAL''"

definition cvV2SelectionSampleTag :: string where
  "cvV2SelectionSampleTag = ''SELECT''"

record cvCoinShareV2 =
  cs_InvocationDigest :: bytes
  cs_Signature :: bytes

record cvCoinOutputV2 =
  co_Invocation :: bytes
  co_Certificate :: bytes
  co_Value :: bytes

section \<open>Wire formats\<close>

definition cvCoinShareV2CanonicalBytes :: "cvCoinShareV2 \<Rightarrow> bytes option" where
  [enc_defs]: "cvCoinShareV2CanonicalBytes share = do {
     require (\<not> (length (cs_InvocationDigest share) \<noteq> 32 \<or> cs_Signature share = [] \<or>
       length (cs_Signature share) > cvMaxComponentSignatureBytes));
     Some (dropped (cvWriteBytes (str_bytes cvV2CoinShareDomain)) @
           dropped (cvWriteBytes (cs_InvocationDigest share)) @
           dropped (cvWriteBytes (cs_Signature share)))
   }"

definition cvDecodeCoinShareV2 :: "bytes \<Rightarrow> cvCoinShareV2 option" where
  [dec_defs]: "cvDecodeCoinShareV2 wire = do {
     (domain, r) \<leftarrow> cvReadBytes (length cvV2CoinShareDomain) (newCVWireReader wire);
     require (domain = str_bytes cvV2CoinShareDomain);
     (digest, r) \<leftarrow> cvReadBytes 32 r;
     require (length digest = 32);
     (signature, r) \<leftarrow> cvReadBytes cvMaxComponentSignatureBytes r;
     require (\<not> (signature = [] \<or> r \<noteq> []));
     let share = \<lparr> cs_InvocationDigest = digest, cs_Signature = signature \<rparr>;
     canonical \<leftarrow> cvCoinShareV2CanonicalBytes share;
     require (canonical = wire);
     Some share
   }"

definition cvCoinOutputV2CanonicalBytes :: "cvCoinOutputV2 \<Rightarrow> bytes option" where
  [enc_defs]: "cvCoinOutputV2CanonicalBytes output = do {
     require (\<not> (co_Invocation output = [] \<or> length (co_Invocation output) > cvMaxLeafWireBytes \<or>
       co_Certificate output = [] \<or> length (co_Certificate output) > cvMaxComponentSignatureBytes \<or>
       length (co_Value output) \<noteq> 32));
     Some (dropped (cvWriteBytes (str_bytes cvV2CoinOutputDomain)) @
           dropped (cvWriteBytes (co_Invocation output)) @
           dropped (cvWriteBytes (co_Certificate output)) @
           dropped (cvWriteBytes (co_Value output)))
   }"

definition cvDecodeCoinOutputV2 :: "bytes \<Rightarrow> cvCoinOutputV2 option" where
  [dec_defs]: "cvDecodeCoinOutputV2 wire = do {
     (domain, r) \<leftarrow> cvReadBytes (length cvV2CoinOutputDomain) (newCVWireReader wire);
     require (domain = str_bytes cvV2CoinOutputDomain);
     (invocation, r) \<leftarrow> cvReadBytes cvMaxLeafWireBytes r;
     require (invocation \<noteq> []);
     (certificate, r) \<leftarrow> cvReadBytes cvMaxComponentSignatureBytes r;
     require (certificate \<noteq> []);
     (val, r) \<leftarrow> cvReadBytes 32 r;
     require (\<not> (length val \<noteq> 32 \<or> r \<noteq> []));
     let output = \<lparr> co_Invocation = invocation, co_Certificate = certificate, co_Value = val \<rparr>;
     canonical \<leftarrow> cvCoinOutputV2CanonicalBytes output;
     require (canonical = wire);
     Some output
   }"

section \<open>Invocations and outputs\<close>

definition cvEligibilityCoinInvocationV2 :: "string \<Rightarrow> nat \<Rightarrow> bytes option" where
  "cvEligibilityCoinInvocationV2 sid epoch = do {
     require (\<not> (sid = [] \<or> epoch = 0));
     Some (dropped (cvWriteBytes (str_bytes cvV2EligibilityCoinTag)) @
           dropped (cvWriteBytes (str_bytes sid)) @ cvWriteUint64 epoch)
   }"

definition cvContributorCoinInvocationV2 :: "bytes \<Rightarrow> int \<Rightarrow> bytes \<Rightarrow> bytes option" where
  "cvContributorCoinInvocationV2 contextDigest proposerID poolDigest = do {
     require (\<not> (length contextDigest \<noteq> 32 \<or> proposerID < 0 \<or> length poolDigest \<noteq> 32));
     Some (dropped (cvWriteBytes (str_bytes cvV2ContributorCoinTag)) @
           dropped (cvWriteBytes contextDigest) @ cvWriteUint64 (u64 proposerID) @
           dropped (cvWriteBytes poolDigest))
   }"

definition cvCoinInvocationDigestV2 :: "bytes \<Rightarrow> bytes option" where
  "cvCoinInvocationDigestV2 invocation = do {
     require (\<not> (invocation = [] \<or> length invocation > cvMaxLeafWireBytes));
     Some (hashBytes [str_bytes cvV2CoinDomain, invocation])
   }"

definition coin_value :: "bytes \<Rightarrow> bytes \<Rightarrow> bytes" where
  "coin_value invocation certificate = hashBytes [str_bytes cvV2CoinOutputDomain, invocation, certificate]"

definition cvBuildCoinOutputV2 ::
  "('g, 'h, 'f) bls \<Rightarrow> bytes \<Rightarrow> bytes \<Rightarrow> ('g, 'h, 'f) tblsThresholdSigner \<Rightarrow> cvCoinOutputV2 option" where
  "cvBuildCoinOutputV2 B invocation certificate signer = do {
     digest \<leftarrow> cvCoinInvocationDigestV2 invocation;
     require (\<not> (\<not> cvV2SignerHasRole signer cvV2RoleCoin \<or> certificate = [] \<or>
       \<not> VerifyRecovered B signer cvV2CoinDomain digest certificate));
     Some \<lparr> co_Invocation = invocation, co_Certificate = certificate,
            co_Value = coin_value invocation certificate \<rparr>
   }"

definition cvVerifyCoinOutputV2 ::
  "('g, 'h, 'f) bls \<Rightarrow> cvCoinOutputV2 \<Rightarrow> bytes \<Rightarrow> ('g, 'h, 'f) tblsThresholdSigner \<Rightarrow> bool" where
  "cvVerifyCoinOutputV2 B output expectedInvocation signer \<longleftrightarrow>
     \<not> (\<not> cvV2SignerHasRole signer cvV2RoleCoin \<or> co_Invocation output = [] \<or> co_Certificate output = [] \<or>
        length (co_Value output) \<noteq> 32 \<or> expectedInvocation = [] \<or> co_Invocation output \<noteq> expectedInvocation) \<and>
     (case cvCoinInvocationDigestV2 (co_Invocation output) of None \<Rightarrow> False
      | Some digest \<Rightarrow> VerifyRecovered B signer cvV2CoinDomain digest (co_Certificate output)) \<and>
     coin_value (co_Invocation output) (co_Certificate output) = co_Value output"

section \<open>The sampler\<close>

record cvV2CoinStream =
  sr_coinValue :: bytes
  sr_tag :: string
  sr_counter :: "64 word"

definition nextUint64 :: "cvV2CoinStream \<Rightarrow> nat \<times> cvV2CoinStream" where
  "nextUint64 s =
     (let digest = hashBytes [str_bytes cvV2SamplerDomain, sr_coinValue s, str_bytes (sr_tag s),
            put_be 8 (unat (sr_counter s))]
      in (get_be (take 8 digest), s\<lparr> sr_counter := sr_counter s + 1 \<rparr>))"

partial_function (option) index_loop ::
  "nat \<Rightarrow> nat \<Rightarrow> cvV2CoinStream \<Rightarrow> (nat \<times> cvV2CoinStream) option" where
  "index_loop threshold bound s =
     (let (val, s') = nextUint64 s
      in if val \<ge> threshold then Some (val mod bound, s') else index_loop threshold bound s')"

text \<open>\<^verbatim>\<open>-bound % bound\<close> in unsigned 64-bit arithmetic.\<close>

definition reject_threshold :: "nat \<Rightarrow> nat" where
  "reject_threshold bound = (2 ^ 64 - bound) mod bound"

definition stream_index :: "cvV2CoinStream \<Rightarrow> nat \<Rightarrow> (nat \<times> cvV2CoinStream) option" where
  "stream_index s bound = do {
     require (\<not> (bound = 0 \<or> bound > 2 ^ 63));
     index_loop (reject_threshold bound) bound s
   }"

definition swap_at :: "nat \<Rightarrow> nat \<Rightarrow> int list \<Rightarrow> int list" where
  "swap_at i j xs = xs[i := xs ! j, j := xs ! i]"

text \<open>The loop \<^verbatim>\<open>for i := len-1; i > 0; i--\<close>.\<close>

fun shuffle_loop :: "nat \<Rightarrow> cvV2CoinStream \<Rightarrow> int list \<Rightarrow> int list option" where
  "shuffle_loop 0 s permutation = Some permutation"
| "shuffle_loop (Suc i) s permutation = do {
     (j, s) \<leftarrow> stream_index s (Suc i + 1);
     shuffle_loop i s (swap_at (Suc i) j permutation)
   }"

definition cvSampleWithoutReplacementV2 ::
  "int list \<Rightarrow> bytes \<Rightarrow> string \<Rightarrow> int \<Rightarrow> int list option" where
  "cvSampleWithoutReplacementV2 roster coinValue tag sampleCount = do {
     let ordered = sortedUnique roster;
     require (\<not> (ordered = [] \<or> length ordered \<noteq> length roster \<or> coinValue = [] \<or> tag = [] \<or>
       sampleCount \<le> 0 \<or> sampleCount > int (length ordered)));
     permutation \<leftarrow> shuffle_loop (length ordered - 1)
       \<lparr> sr_coinValue = coinValue, sr_tag = tag, sr_counter = 0 \<rparr> ordered;
     Some (take (nat sampleCount) permutation)
   }"

definition cvSelectedPoolIndicesV2 :: "int \<Rightarrow> int \<Rightarrow> bytes \<Rightarrow> int list option" where
  "cvSelectedPoolIndicesV2 poolSize componentCount coinValue = do {
     require (\<not> (poolSize \<le> 0 \<or> componentCount \<le> 0 \<or> componentCount > poolSize));
     let indices = map int [0..<nat poolSize];
     cvSampleWithoutReplacementV2 indices coinValue cvV2SelectionSampleTag componentCount
   }"

definition cvDeriveEligibilitySamplesV2 ::
  "int list \<Rightarrow> bytes \<Rightarrow> int \<Rightarrow> int \<Rightarrow> (int list \<times> int list) option" where
  "cvDeriveEligibilitySamplesV2 roster coinValue proposerCount validatorCount = do {
     proposers \<leftarrow> cvSampleWithoutReplacementV2 roster coinValue cvV2ProposerSampleTag proposerCount;
     validators \<leftarrow> cvSampleWithoutReplacementV2 roster coinValue cvV2ValidatorSampleTag validatorCount;
     Some (proposers, validators)
   }"

section \<open>The codecs are canonical\<close>

lemma coin_domain_lengths [simp]:
  "length cvV2CoinShareDomain < 4294967296" "length cvV2CoinOutputDomain < 4294967296"
  by (simp_all add: dom_defs)

lemma leaf_limit [simp]: "n \<le> cvMaxLeafWireBytes \<Longrightarrow> n < 4294967296"
  by (simp add: cvMaxLeafWireBytes_def)

interpretation coin_share_codec: wire_codec cvCoinShareV2CanonicalBytes cvDecodeCoinShareV2 "\<lambda>_. True"
proof
  fix share w
  assume "cvCoinShareV2CanonicalBytes share = Some w"
  then show "cvDecodeCoinShareV2 w = Some share"
    by (cases share) (auto simp: cvCoinShareV2CanonicalBytes_def cvDecodeCoinShareV2_def wire_simps split: if_splits)
qed (auto simp: cvDecodeCoinShareV2_def bind_eq_Some_conv Let_def split: if_splits)

interpretation coin_output_codec: wire_codec cvCoinOutputV2CanonicalBytes cvDecodeCoinOutputV2 "\<lambda>_. True"
proof
  fix out w
  assume "cvCoinOutputV2CanonicalBytes out = Some w"
  then show "cvDecodeCoinOutputV2 w = Some out"
    by (cases out) (auto simp: cvCoinOutputV2CanonicalBytes_def cvDecodeCoinOutputV2_def wire_simps split: if_splits)
qed (auto simp: cvDecodeCoinOutputV2_def bind_eq_Some_conv Let_def split: if_splits)

section \<open>Rejection sampling\<close>

lemma get_be_take8_less: "get_be (take 8 (hashBytes ps)) < 2 ^ 64"
  using get_be_less [of "take 8 (hashBytes ps)"] by simp

lemma nextUint64_less: "fst (nextUint64 s) < 2 ^ 64"
  using get_be_take8_less by (simp add: nextUint64_def Let_def)

lemma reject_threshold_less: "0 < bound \<Longrightarrow> reject_threshold bound < bound"
  by (simp add: reject_threshold_def)

lemma reject_threshold_dvd:
  assumes "0 < bound" "bound \<le> 2 ^ 64"
  shows "bound dvd 2 ^ 64 - reject_threshold bound"
proof -
  have "reject_threshold bound = 2 ^ 64 mod bound"
    unfolding reject_threshold_def using assms by (simp add: le_mod_geq)
  then show ?thesis by (simp add: minus_mod_eq_mult_div)
qed

lemma residue_count:
  fixes b :: nat
  assumes "0 < b" "j < b"
  shows "card {v. t \<le> v \<and> v < t + k * b \<and> v mod b = j} = k"
proof (induction k)
  case 0
  then show ?case by simp
next
  case (Suc k)
  let ?lo = "t + k * b"
  define v0 where "v0 = ?lo + (j + b - ?lo mod b) mod b"
  have "v0 mod b = (?lo mod b + (j + b - ?lo mod b)) mod b" 
    unfolding v0_def by (simp only: mod_add_right_eq mod_add_left_eq)
  also have "\<dots> = (j + b) mod b" using mod_less_divisor [OF assms(1), of ?lo] by (simp del: mod_mult_self3)
  finally have v0: "v0 mod b = j" using assms(2) by simp
  have rng: "?lo \<le> v0" "v0 < ?lo + b" using assms(1) by (simp_all add: v0_def)
  have uniq: "v = v0" if v: "?lo \<le> v" "v < ?lo + b" "v mod b = j" for v
  proof -
    have dvd: "b dvd (if v0 \<le> v then v - v0 else v0 - v)"
      using v(3) v0 mod_eq_dvd_iff_nat by (metis linorder_le_cases)
    have "(if v0 \<le> v then v - v0 else v0 - v) < b" using v rng by auto
    with dvd have "(if v0 \<le> v then v - v0 else v0 - v) = 0"
      by (metis dvd_imp_le not_gr_zero not_le)
    then show ?thesis by (auto split: if_splits)
  qed
  have "{v. t \<le> v \<and> v < t + Suc k * b \<and> v mod b = j} =
      insert v0 {v. t \<le> v \<and> v < ?lo \<and> v mod b = j}"
  proof (intro set_eqI iffI)
    fix v assume v: "v \<in> {v. t \<le> v \<and> v < t + Suc k * b \<and> v mod b = j}"
    show "v \<in> insert v0 {v. t \<le> v \<and> v < ?lo \<and> v mod b = j}"
    proof (cases "v < ?lo")
      case True
      then show ?thesis using v by simp
    next
      case False
      then have "v = v0" using v by (intro uniq) simp_all
      then show ?thesis by simp
    qed
  next
    fix v assume "v \<in> insert v0 {v. t \<le> v \<and> v < ?lo \<and> v mod b = j}"
    then show "v \<in> {v. t \<le> v \<and> v < t + Suc k * b \<and> v mod b = j}" using v0 rng by auto
  qed
  moreover have "v0 \<notin> {v. t \<le> v \<and> v < ?lo \<and> v mod b = j}" using rng by auto
  ultimately show ?case using Suc by simp
qed

text \<open>The sampler's draws are unbiased: for every bound the program accepts, each index below
  the bound is the result of exactly the same number of the 64-bit values that are not rejected,
  and fewer values than the bound are rejected.\<close>

theorem rejection_sampling_uniform:
  assumes "0 < bound" "bound \<le> 2 ^ 63" "j < bound"
  shows "card {v. reject_threshold bound \<le> v \<and> v < 2 ^ 64 \<and> v mod bound = j} =
      (2 ^ 64 - reject_threshold bound) div bound \<and> reject_threshold bound < bound"
proof -
  let ?t = "reject_threshold bound"
  have t: "?t < bound" using assms reject_threshold_less by simp
  have "bound dvd 2 ^ 64 - ?t" by (rule reject_threshold_dvd) (use assms in auto)
  then have "2 ^ 64 - ?t = (2 ^ 64 - ?t) div bound * bound" by simp
  moreover have "?t \<le> 2 ^ 64" using t assms by simp
  ultimately have "2 ^ 64 = ?t + (2 ^ 64 - ?t) div bound * bound" by linarith
  then show ?thesis
    using residue_count [OF assms(1,3), of ?t "(2 ^ 64 - ?t) div bound"] t by simp
qed

theorem rejection_sampling_uniform_witness:
  "card {v. reject_threshold 3 \<le> v \<and> v < 2 ^ 64 \<and> v mod 3 = 1} = (2 ^ 64 - reject_threshold 3) div 3 \<and>
   reject_threshold 3 < 3"
  using rejection_sampling_uniform [of 3 1] by simp

section \<open>Samples\<close>

definition skip_draws :: "cvV2CoinStream \<Rightarrow> nat \<Rightarrow> cvV2CoinStream" where
  "skip_draws s k = s\<lparr> sr_counter := sr_counter s + of_nat k \<rparr>"

lemma snd_nextUint64: "snd (nextUint64 s) = skip_draws s 1"
  by (simp add: nextUint64_def skip_draws_def Let_def)

lemma skip_draws_add [simp]: "skip_draws (skip_draws s a) b = skip_draws s (a + b)"
  by (simp add: skip_draws_def add.assoc)

lemma skip_draws_0 [simp]: "skip_draws s 0 = s"
  by (simp add: skip_draws_def)

lemma index_loop_first:
  "(\<And>i. i < k \<Longrightarrow> fst (nextUint64 (skip_draws s i)) < t) \<Longrightarrow> t \<le> fst (nextUint64 (skip_draws s k)) \<Longrightarrow>
   index_loop t b s = Some (fst (nextUint64 (skip_draws s k)) mod b, skip_draws s (Suc k))"
proof (induction k arbitrary: s)
  case 0
  then show ?case by (subst index_loop.simps) (simp add: split_beta snd_nextUint64)
next
  case (Suc k)
  have "fst (nextUint64 s) < t" using Suc.prems(1) [of 0] by simp
  moreover have "index_loop t b (skip_draws s 1) =
      Some (fst (nextUint64 (skip_draws (skip_draws s 1) k)) mod b, skip_draws (skip_draws s 1) (Suc k))"
    by (rule Suc.IH) (use Suc.prems(1) [of "Suc i" for i] Suc.prems(2) in simp_all)
  ultimately show ?case by (subst index_loop.simps) (simp add: split_beta snd_nextUint64)
qed

lemma index_loop_SomeD:
  assumes "index_loop t b s = Some r"
  shows "\<exists>k. t \<le> fst (nextUint64 (skip_draws s k))"
proof (rule index_loop.raw_induct [where P = "\<lambda>t b s r. \<exists>k. t \<le> fst (nextUint64 (skip_draws s k))", OF _ assms])
  fix loop t b s r
  assume IH: "\<And>t b s r. loop t b s = Some r \<Longrightarrow> \<exists>k. t \<le> fst (nextUint64 (skip_draws s k))"
    and eq: "(let (val, s') = nextUint64 s in if t \<le> val then Some (val mod b, s') else loop t b s') = Some r"
  show "\<exists>k. t \<le> fst (nextUint64 (skip_draws s k))"
  proof (cases "t \<le> fst (nextUint64 s)")
    case True
    then show ?thesis by (intro exI [of _ 0]) simp
  next
    case False
    then have "loop t b (skip_draws s 1) = Some r" using eq by (simp add: split_beta snd_nextUint64)
    from IH [OF this] show ?thesis by auto
  qed
qed

lemma index_loop_eq:
  "index_loop t b s = (if \<exists>k. t \<le> fst (nextUint64 (skip_draws s k))
     then let k = (LEAST k. t \<le> fst (nextUint64 (skip_draws s k)))
          in Some (fst (nextUint64 (skip_draws s k)) mod b, skip_draws s (Suc k))
     else None)"
proof (cases "\<exists>k. t \<le> fst (nextUint64 (skip_draws s k))")
  case True
  define k where "k = (LEAST k. t \<le> fst (nextUint64 (skip_draws s k)))"
  have "t \<le> fst (nextUint64 (skip_draws s k))" using True unfolding k_def by (rule LeastI_ex)
  moreover have "fst (nextUint64 (skip_draws s i)) < t" if "i < k" for i
    using that not_less_Least unfolding k_def by (metis not_le)
  ultimately have "index_loop t b s = Some (fst (nextUint64 (skip_draws s k)) mod b, skip_draws s (Suc k))"
    by (rule index_loop_first [rotated])
  then show ?thesis using True by (simp add: k_def Let_def)
next
  case False
  then show ?thesis using index_loop_SomeD by (cases "index_loop t b s") (simp, blast)
qed


lemma stream_index_bound:
  assumes "stream_index s bound = Some (j, s')"
  shows "j < bound"
  using assms unfolding stream_index_def index_loop_eq
  by (auto simp: Let_def split: if_splits)

lemma mset_swap_at: "i < length xs \<Longrightarrow> j < length xs \<Longrightarrow> mset (swap_at i j xs) = mset xs"
  by (simp add: swap_at_def mset_swap)

lemma length_swap_at [simp]: "length (swap_at i j xs) = length xs"
  by (simp add: swap_at_def)

lemma shuffle_loop_mset:
  "shuffle_loop i s xs = Some ys \<Longrightarrow> i < length xs \<Longrightarrow> mset ys = mset xs"
proof (induction i arbitrary: s xs)
  case (Suc i)
  then obtain j s' where j: "stream_index s (Suc i + 1) = Some (j, s')"
    "shuffle_loop i s' (swap_at (Suc i) j xs) = Some ys" by (auto simp: bind_eq_Some_conv)
  have "j < Suc i + 1" using stream_index_bound [OF j(1)] .
  then have "mset (swap_at (Suc i) j xs) = mset xs" using Suc.prems(2) by (intro mset_swap_at) auto
  then show ?case using Suc.IH [OF j(2)] Suc.prems(2) by simp
qed simp

lemma sample_SomeD:
  assumes "cvSampleWithoutReplacementV2 roster coin tag sampleCount = Some xs"
  shows "distinct roster" "0 < sampleCount" "sampleCount \<le> int (length roster)"
    and "\<exists>ys. mset ys = mset roster \<and> xs = take (nat sampleCount) ys"
proof -
  obtain ys where s: "shuffle_loop (length (sortedUnique roster) - 1)
      \<lparr> sr_coinValue = coin, sr_tag = tag, sr_counter = 0 \<rparr> (sortedUnique roster) = Some ys"
    and xs: "xs = take (nat sampleCount) ys" and len: "length (sortedUnique roster) = length roster"
    and ne: "sortedUnique roster \<noteq> []" and c: "0 < sampleCount" "sampleCount \<le> int (length roster)"
    using assms by (auto simp: cvSampleWithoutReplacementV2_def Let_def bind_eq_Some_conv split: if_splits)
  show d: "distinct roster" using len length_sortedUnique_iff by blast
  show "0 < sampleCount" "sampleCount \<le> int (length roster)" by (rule c)+
  have "mset ys = mset (sortedUnique roster)"
    by (rule shuffle_loop_mset [OF s]) (use ne in simp)
  also have "\<dots> = mset roster" using d by (simp add: set_eq_iff_mset_eq_distinct [symmetric])
  finally show "\<exists>ys. mset ys = mset roster \<and> xs = take (nat sampleCount) ys" using xs by blast
qed

lemma sample_members:
  assumes "cvSampleWithoutReplacementV2 roster coinValue tag sampleCount = Some xs"
  shows "distinct xs \<and> set xs \<subseteq> set roster \<and> int (length xs) = sampleCount"
proof -
  obtain ys where ys: "mset ys = mset roster" "xs = take (nat sampleCount) ys"
    using sample_SomeD(4) [OF assms] by blast
  have "distinct ys" "set ys = set roster" "length ys = length roster"
    using ys(1) sample_SomeD(1) [OF assms] by (metis mset_eq_imp_distinct_iff, metis mset_eq_setD, metis mset_eq_length)
  then show ?thesis using ys(2) sample_SomeD(2,3) [OF assms] by (auto dest: in_set_takeD)
qed

text \<open>A sample has the requested number of members, all different and all from the roster.\<close>

theorem sample_without_replacement:
  assumes "cvSampleWithoutReplacementV2 roster coinValue tag sampleCount = Some xs"
  shows "distinct xs \<and> set xs \<subseteq> set roster \<and> int (length xs) = sampleCount"
  using assms by (rule sample_members)

lemma selected_indices:
  assumes "cvSelectedPoolIndicesV2 poolSize componentCount coinValue = Some xs"
  shows "distinct xs \<and> (\<forall>i \<in> set xs. 0 \<le> i \<and> i < poolSize) \<and> int (length xs) = componentCount"
proof -
  have "cvSampleWithoutReplacementV2 (map int [0..<nat poolSize]) coinValue cvV2SelectionSampleTag componentCount = Some xs"
    using assms by (simp add: cvSelectedPoolIndicesV2_def split: if_splits)
  from sample_members [OF this] show ?thesis by auto
qed

text \<open>The sample does not depend on the order in which the roster is listed.\<close>

lemma sample_roster_order:
  assumes "distinct roster" "distinct roster'" "set roster = set roster'"
  shows "cvSampleWithoutReplacementV2 roster coin tag sampleCount = cvSampleWithoutReplacementV2 roster' coin tag sampleCount"
proof -
  have "sortedUnique roster = sortedUnique roster'" by (simp add: sortedUnique_eq assms(3))
  moreover have "length roster = length roster'" using assms by (metis distinct_card)
  ultimately show ?thesis by (simp add: cvSampleWithoutReplacementV2_def)
qed

lemma sample_two:
  assumes "x < y" "coin \<noteq> []" "tag \<noteq> []" "0 < c" "c \<le> 2"
  shows "\<exists>xs. cvSampleWithoutReplacementV2 [x, y] coin tag c = Some xs"
proof -
  have "sortedUnique [x, y] = [x, y]" using assms(1) by (simp add: sortedUnique_id_iff)
  moreover have "reject_threshold (Suc (Suc 0)) = 0" by (simp add: reject_threshold_def flip: numeral_2_eq_2)
  ultimately show ?thesis using assms
    by (simp add: cvSampleWithoutReplacementV2_def stream_index_def)
       (subst index_loop.simps, simp add: split_beta)
qed

theorem sample_without_replacement_witness:
  "\<exists>xs. cvSampleWithoutReplacementV2 [4, 9] [1] ''VAL'' 1 = Some xs \<and>
     distinct xs \<and> set xs \<subseteq> set [4, 9] \<and> int (length xs) = 1"
  using sample_two [of 4 9 "[1]" "''VAL''" 1] sample_without_replacement by fastforce

section \<open>Invocations and outputs\<close>

lemma tag_length: "length cvV2EligibilityCoinTag = 4" "length cvV2ContributorCoinTag = 7"
  by (simp_all add: cvV2EligibilityCoinTag_def cvV2ContributorCoinTag_def)

text \<open>Coin invocations are domain separated and injective: an eligibility invocation is never a
  contributor invocation, and the session identifier, the epoch, the context, the proposer and the
  pool can be read off the invocation.\<close>

theorem coin_invocations_separated:
  assumes "length sid < 2 ^ 32" "length sid' < 2 ^ 32" "epoch < 2 ^ 64" "epoch' < 2 ^ 64"
    and "int64 proposer" "int64 proposer'"
    and "cvEligibilityCoinInvocationV2 sid epoch = Some e" "cvEligibilityCoinInvocationV2 sid' epoch' = Some e'"
    and "cvContributorCoinInvocationV2 ctx proposer pool = Some c"
    and "cvContributorCoinInvocationV2 ctx' proposer' pool' = Some c'"
  shows "e \<noteq> c \<and> (e = e' \<longleftrightarrow> sid = sid' \<and> epoch = epoch') \<and>
    (c = c' \<longleftrightarrow> ctx = ctx' \<and> proposer = proposer' \<and> pool = pool')"
proof -
  have e: "e = put_be 4 4 @ str_bytes cvV2EligibilityCoinTag @ put_be 4 (length sid) @ str_bytes sid @ cvWriteUint64 epoch"
    "e' = put_be 4 4 @ str_bytes cvV2EligibilityCoinTag @ put_be 4 (length sid') @ str_bytes sid' @ cvWriteUint64 epoch'"
    using assms(1,2,7,8) by (auto simp: cvEligibilityCoinInvocationV2_def tag_length split: if_splits)
  have c: "c = put_be 4 7 @ str_bytes cvV2ContributorCoinTag @ put_be 4 32 @ ctx @ cvWriteUint64 (u64 proposer) @ put_be 4 32 @ pool"
    "c' = put_be 4 7 @ str_bytes cvV2ContributorCoinTag @ put_be 4 32 @ ctx' @ cvWriteUint64 (u64 proposer') @ put_be 4 32 @ pool'"
    and len: "length ctx = 32" "length ctx' = 32" "0 \<le> proposer" "0 \<le> proposer'"
    using assms(9,10) by (auto simp: cvContributorCoinInvocationV2_def tag_length split: if_splits)
  have "put_be 4 4 \<noteq> put_be 4 7" using put_be_inject [of 4 4 7] by simp
  then have "e \<noteq> c" by (simp add: e(1) c(1))
  moreover have "e = e' \<longleftrightarrow> sid = sid' \<and> epoch = epoch'"
  proof
    assume "e = e'"
    then have "put_be 4 (length (str_bytes sid)) @ str_bytes sid @ cvWriteUint64 epoch =
        put_be 4 (length (str_bytes sid')) @ str_bytes sid' @ cvWriteUint64 epoch'" by (simp add: e)
    from put_be_prefix_inject [OF _ _ this] show "sid = sid' \<and> epoch = epoch'"
      using assms(1-4) put_be_inject [of epoch 8 epoch'] by (simp add: cvWriteUint64_def)
  qed (simp add: e)
  moreover have "c = c' \<longleftrightarrow> ctx = ctx' \<and> proposer = proposer' \<and> pool = pool'"
    using len assms(5,6) put_be_inject [of "nat proposer" 8 "nat proposer'"]
    by (auto simp: c cvWriteUint64_def int64_def nat_less_iff)
  ultimately show ?thesis by blast
qed

text \<open>The threshold signature behind a coin is unique: the certificates of two outputs that
  verify for one invocation decode to the same curve point.\<close>

theorem coin_signature_unique:
  assumes "bls_laws B" "dealt B signer cs"
    and "cvVerifyCoinOutputV2 B out1 invocation signer" "cvVerifyCoinOutputV2 B out2 invocation signer"
  shows "bls_Unmarshal B (co_Certificate out1) = bls_Unmarshal B (co_Certificate out2) \<and>
    bls_Unmarshal B (co_Certificate out1) \<noteq> None"
proof -
  obtain d where d: "cvCoinInvocationDigestV2 invocation = Some d"
    "VerifyRecovered B signer cvV2CoinDomain d (co_Certificate out1)"
    "VerifyRecovered B signer cvV2CoinDomain d (co_Certificate out2)"
    using assms(3,4) by (auto simp: cvVerifyCoinOutputV2_def split: option.splits)
  then obtain h where h: "bls_HashToG1 B (domainDigest cvV2CoinDomain d) (str_bytes cvV2CoinDomain) = Some h"
    by (auto simp: VerifyRecovered_def bind_eq_Some_conv)
  show ?thesis using VerifyRecovered_dealt [OF assms(1,2) h] d by simp
qed

text \<open>C38: the value of a coin is not unique: it hashes the bytes of the certificate, so every other
  encoding of the certificate's point that the library decodes gives another output that verifies
  for the same invocation, with the hash of the other encoding as its value.\<close>

theorem coin_value_malleable:
  assumes "cvVerifyCoinOutputV2 B out invocation signer"
    and "bls_Unmarshal B w = bls_Unmarshal B (co_Certificate out)" "w \<noteq> []"
  shows "cvVerifyCoinOutputV2 B \<lparr> co_Invocation = invocation, co_Certificate = w,
    co_Value = coin_value invocation w \<rparr> invocation signer"
  using assms by (auto simp: cvVerifyCoinOutputV2_def VerifyRecovered_def coin_value_def split: option.splits)

text \<open>What is built verifies.\<close>

lemma coin_output_build_verify:
  "cvBuildCoinOutputV2 B invocation certificate signer = Some out \<Longrightarrow>
   cvVerifyCoinOutputV2 B out invocation signer"
  by (auto simp: cvBuildCoinOutputV2_def cvVerifyCoinOutputV2_def coin_value_def cvCoinInvocationDigestV2_def
      bind_eq_Some_conv split: if_splits)

end
