(* ===== verification/Sampling.thy ===== *)
theory Sampling
  imports Util Complex_Main
begin

text \<open>
  The exact finite-population sampling analysis: \<^verbatim>\<open>binomial\<close> and \<^verbatim>\<open>cvEligibilitySampleSize\<close> of
  \<^verbatim>\<open>src/core/cv_eligibility.go\<close>, the failure bounds of \<^verbatim>\<open>src/core/cv_sapvss_v2_params.go\<close> and the
  resolver of \<^verbatim>\<open>src/core/cv_sapvss_sampling_v2.go\<close>.  A \<^verbatim>\<open>*big.Rat\<close> is a \<open>rat\<close>; the report keeps
  the rationals whose printed form the Go structure holds.  The specification is a count of
  subsets: the bounds are proved to be the probabilities of the sampling events they name.
\<close>

section \<open>Definitions\<close>

text \<open>The loop \<^verbatim>\<open>for i := 1; i <= k; i++ { r = r*(n-k+i)/i }\<close>.\<close>

fun binomial_loop :: "int \<Rightarrow> int \<Rightarrow> nat \<Rightarrow> int \<Rightarrow> int \<Rightarrow> int" where
  "binomial_loop n k 0 i r = r"
| "binomial_loop n k (Suc steps) i r = binomial_loop n k steps (i + 1) ((r * (n - k + i)) div i)"

definition go_binomial :: "int \<Rightarrow> int \<Rightarrow> int" where
  "go_binomial n k =
     (if k < 0 \<or> k > n then 0
      else let k = (if k > n - k then n - k else k) in binomial_loop n k (nat k) 1 1)"

definition cvV2ProposerFailureBound :: "int \<Rightarrow> int \<Rightarrow> int \<Rightarrow> rat option" where
  "cvV2ProposerFailureBound n f sampleSize = do {
     require (\<not> (n \<le> 0 \<or> f < 0 \<or> f \<ge> n \<or> sampleSize \<le> 0 \<or> sampleSize > n));
     Some (of_int (go_binomial f sampleSize) / of_int (go_binomial n sampleSize))
   }"

definition cvV2HypergeometricFaultTail :: "int \<Rightarrow> int \<Rightarrow> int \<Rightarrow> int \<Rightarrow> rat option" where
  "cvV2HypergeometricFaultTail n f sampleSize minimumFaulty = do {
     require (\<not> (n \<le> 0 \<or> f < 0 \<or> f \<ge> n \<or> sampleSize \<le> 0 \<or> sampleSize > n \<or>
       minimumFaulty \<le> 0 \<or> minimumFaulty > sampleSize));
     let upper = (if sampleSize < f then sampleSize else f);
     let numerator = sum_list (map (\<lambda>faulty. go_binomial f faulty * go_binomial (n - f) (sampleSize - faulty))
       [minimumFaulty..upper]);
     Some (of_int numerator / of_int (go_binomial n sampleSize))
   }"

definition cvV2ValidatorFailureBounds :: "int \<Rightarrow> int \<Rightarrow> int \<Rightarrow> int \<Rightarrow> (rat \<times> rat \<times> rat) option" where
  "cvV2ValidatorFailureBounds n f sampleSize threshold = do {
     require (\<not> (n \<le> 0 \<or> f < 0 \<or> f \<ge> n \<or> sampleSize \<le> 0 \<or> sampleSize > n \<or>
       threshold \<le> 0 \<or> threshold > sampleSize));
     soundness \<leftarrow> cvV2HypergeometricFaultTail n f sampleSize threshold;
     let livenessThreshold = sampleSize - threshold + 1;
     liveness \<leftarrow> cvV2HypergeometricFaultTail n f sampleSize livenessThreshold;
     let combinedThreshold = (if livenessThreshold < threshold then livenessThreshold else threshold);
     combined \<leftarrow> cvV2HypergeometricFaultTail n f sampleSize combinedThreshold;
     Some (soundness, liveness, combined)
   }"

definition cvV2ValidatorFailureBound :: "int \<Rightarrow> int \<Rightarrow> int \<Rightarrow> int \<Rightarrow> rat option" where
  "cvV2ValidatorFailureBound n f sampleSize threshold = do {
     (_, _, combined) \<leftarrow> cvV2ValidatorFailureBounds n f sampleSize threshold;
     Some combined
   }"

text \<open>The two search loops: the outer \<open>option\<close> is the error return, the sample is \<open>0\<close> if none fits.\<close>

fun first_sample :: "(int \<Rightarrow> rat option) \<Rightarrow> rat \<Rightarrow> int list \<Rightarrow> int option" where
  "first_sample bound target [] = Some 0"
| "first_sample bound target (sample # samples) = do {
     b \<leftarrow> bound sample;
     if b \<le> target then Some sample else first_sample bound target samples
   }"

definition cvV2ExactFinitePopulationSampleSizes :: "int \<Rightarrow> int \<Rightarrow> rat \<Rightarrow> (int \<times> int) option" where
  "cvV2ExactFinitePopulationSampleSizes n f perEventTarget = do {
     require (\<not> (n \<le> 0 \<or> f < 0 \<or> f \<ge> n \<or> perEventTarget \<le> 0 \<or> perEventTarget \<ge> 1));
     proposerSample \<leftarrow> first_sample (cvV2ProposerFailureBound n f) perEventTarget [1..n];
     validatorSample \<leftarrow> first_sample (\<lambda>sample. cvV2ValidatorFailureBound n f sample (sample div 2 + 1))
       perEventTarget [1..n];
     require (\<not> (proposerSample = 0 \<or> validatorSample = 0));
     Some (proposerSample, validatorSample)
   }"

fun eligibility_loop :: "int \<Rightarrow> int \<Rightarrow> rat \<Rightarrow> int list \<Rightarrow> int option" where
  "eligibility_loop n f bound [] = None"
| "eligibility_loop n f bound (c # cs) =
     (if c > f then Some c
      else if of_int (go_binomial f c) / of_int (go_binomial n c) \<le> bound then Some c
      else eligibility_loop n f bound cs)"

definition cvEligibilitySampleSize :: "int \<Rightarrow> int \<Rightarrow> nat \<Rightarrow> nat \<Rightarrow> int option" where
  "cvEligibilitySampleSize n f maxNumerator maxDenominator = do {
     require (\<not> (n \<le> 0 \<or> f < 0 \<or> f \<ge> n \<or> maxNumerator = 0 \<or> maxNumerator \<ge> maxDenominator));
     eligibility_loop n f (of_nat maxNumerator / of_nat maxDenominator) [1..n]
   }"

section \<open>Binomial coefficients\<close>

lemma binomial_loop_invariant:
  assumes "0 \<le> n - k" "1 \<le> i"
  shows "binomial_loop n k steps i (int ((nat (n - k + i) - 1) choose nat (i - 1))) =
    int ((nat (n - k + i) - 1 + steps) choose (nat (i - 1) + steps))"
  using assms
proof (induction steps arbitrary: i)
  case 0
  then show ?case by simp
next
  case (Suc steps)
  define m where "m = nat (n - k)"
  define j where "j = nat (i - 1)"
  have i: "i = int j + 1" and nk: "n - k = int m" using Suc.prems by (simp_all add: j_def m_def)
  have pos: "nat (n - k + i) - 1 = m + j" "nat (i - 1) = j" by (simp_all add: i nk)
  have absorb: "((m + j) choose j) * (m + j + 1) = ((m + j + 1) choose (j + 1)) * (j + 1)"
    using Suc_times_binomial [of j "m + j"] by (simp add: mult.commute)
  have "int ((m + j) choose j) * (n - k + i) = int (((m + j) choose j) * (m + j + 1))"
    by (simp add: nk i algebra_simps)
  also have "\<dots> = int ((m + j + 1) choose (j + 1)) * i"
    unfolding absorb by (simp add: i algebra_simps)
  finally have step: "int ((m + j) choose j) * (n - k + i) div i = int ((m + j + 1) choose (j + 1))"
    using Suc.prems by simp
  have IH: "binomial_loop n k steps (i + 1) (int ((nat (n - k + (i + 1)) - 1) choose nat (i + 1 - 1))) =
      int ((nat (n - k + (i + 1)) - 1 + steps) choose (nat (i + 1 - 1) + steps))"
    by (rule Suc.IH) (use Suc.prems in auto)
  have pos': "nat (n - k + (i + 1)) - 1 = m + j + 1" "nat (i + 1 - 1) = j + 1"
    unfolding nk i by linarith+
  show ?case using IH unfolding pos pos' binomial_loop.simps step by (simp add: ac_simps)
qed

lemma go_binomial_choose:
  assumes "0 \<le> n"
  shows "go_binomial n k = (if k < 0 then 0 else int (nat n choose nat k))"
proof (cases "k < 0 \<or> k > n")
  case True
  then show ?thesis using assms by (auto simp: go_binomial_def)
next
  case False
  have loop: "binomial_loop n k' (nat k') 1 1 = int (nat n choose nat k')" if "0 \<le> k'" "k' \<le> n" for k'
  proof -
    have "nat (n - k' + 1) - 1 + nat k' = nat n" using that by linarith
    then show ?thesis using binomial_loop_invariant [of n k' 1 "nat k'"] that by simp
  qed
  have "nat n choose nat (n - k) = nat n choose nat k"
    using binomial_symmetric [of "nat k" "nat n"] False by (auto simp: nat_diff_distrib)
  then show ?thesis using False loop [of "n - k"] loop [of k] by (simp add: go_binomial_def)
qed

section \<open>Samples as subsets\<close>

text \<open>The samples of size \<open>s\<close> of a population of \<open>n\<close>, of which the first \<open>f\<close> members are faulty.\<close>

definition samples :: "nat \<Rightarrow> nat \<Rightarrow> nat set set" where
  "samples n s = {S. S \<subseteq> {..<n} \<and> card S = s}"

definition prob :: "nat \<Rightarrow> nat \<Rightarrow> (nat set \<Rightarrow> bool) \<Rightarrow> rat" where
  "prob n s P = of_nat (card {S \<in> samples n s. P S}) / of_nat (card (samples n s))"

lemma finite_samples [simp]: "finite (samples n s)"
  by (rule finite_subset [of _ "Pow {..<n}"]) (auto simp: samples_def)

lemma card_samples: "card (samples n s) = n choose s"
  using n_subsets [of "{..<n}" s] by (simp add: samples_def)

lemma card_samples_faulty:
  assumes "f \<le> n" "k \<le> s"
  shows "card {S \<in> samples n s. card (S \<inter> {..<f}) = k} = (f choose k) * ((n - f) choose (s - k))"
proof -
  let ?A = "{S. S \<subseteq> {..<f} \<and> card S = k}" and ?B = "{S. S \<subseteq> {f..<n} \<and> card S = s - k}"
  have un: "{..<n} = {..<f} \<union> {f..<n}" "{..<f} \<inter> {f..<n} = {}" using assms by auto
  have bij: "bij_betw (\<lambda>S. (S \<inter> {..<f}, S \<inter> {f..<n})) {S \<in> samples n s. card (S \<inter> {..<f}) = k} (?A \<times> ?B)"
  proof (rule bij_betw_byWitness [where f' = "\<lambda>(X, Y). X \<union> Y"])
    show "\<forall>S \<in> {S \<in> samples n s. card (S \<inter> {..<f}) = k}.
        (case (S \<inter> {..<f}, S \<inter> {f..<n}) of (X, Y) \<Rightarrow> X \<union> Y) = S"
      using un by (auto simp: samples_def)
    show "\<forall>p \<in> ?A \<times> ?B. ((case p of (X, Y) \<Rightarrow> X \<union> Y) \<inter> {..<f}, (case p of (X, Y) \<Rightarrow> X \<union> Y) \<inter> {f..<n}) = p"
      by fastforce
    show "(\<lambda>S. (S \<inter> {..<f}, S \<inter> {f..<n})) ` {S \<in> samples n s. card (S \<inter> {..<f}) = k} \<subseteq> ?A \<times> ?B"
    proof safe
      fix S assume S: "S \<in> samples n s" "k = card (S \<inter> {..<f})"
      then have fin: "finite S" using finite_subset by (auto simp: samples_def)
      have "S = (S \<inter> {..<f}) \<union> (S \<inter> {f..<n})" using S un by (auto simp: samples_def)
      then have "card S = card (S \<inter> {..<f}) + card (S \<inter> {f..<n})"
        using fin card_Un_disjoint [of "S \<inter> {..<f}" "S \<inter> {f..<n}"] by (metis Int_assoc Int_commute Int_empty_right Int_left_commute finite_Int un(2))
      moreover have "card S = s" using S by (simp add: samples_def)
      ultimately show "card (S \<inter> {f..<n}) = s - card (S \<inter> {..<f})" by linarith
    qed
    show "(\<lambda>(X, Y). X \<union> Y) ` (?A \<times> ?B) \<subseteq> {S \<in> samples n s. card (S \<inter> {..<f}) = k}"
    proof safe
      fix X Y :: "nat set" assume X: "X \<subseteq> {..<f}" "k = card X" and Y: "Y \<subseteq> {f..<n}" "card Y = s - card X"
      have fin: "finite X" "finite Y" using X Y finite_subset by blast+
      have dis: "X \<inter> Y = {}" using X Y by fastforce
      have "card (X \<union> Y) = s" using card_Un_disjoint [OF fin dis] X Y assms by simp
      then show "X \<union> Y \<in> samples n s" using X Y assms by (auto simp: samples_def)
      have "(X \<union> Y) \<inter> {..<f} = X" using X Y by fastforce
      then show "card ((X \<union> Y) \<inter> {..<f}) = card X" by simp
    qed
  qed
  then have "card {S \<in> samples n s. card (S \<inter> {..<f}) = k} = card ?A * card ?B"
    by (simp add: bij_betw_same_card card_cartesian_product)
  then show ?thesis using n_subsets [of "{..<f}" k] n_subsets [of "{f..<n}" "s - k"] by simp
qed

lemma tail_probability:
  "cvV2HypergeometricFaultTail n f s m =
     (if 0 < n \<and> 0 \<le> f \<and> f < n \<and> 0 < s \<and> s \<le> n \<and> 0 < m \<and> m \<le> s
      then Some (prob (nat n) (nat s) (\<lambda>S. nat m \<le> card (S \<inter> {..<nat f}))) else None)"
proof (cases "0 < n \<and> 0 \<le> f \<and> f < n \<and> 0 < s \<and> s \<le> n \<and> 0 < m \<and> m \<le> s")
  case False
  then show ?thesis by (auto simp: cvV2HypergeometricFaultTail_def)
next
  case True
  let ?N = "nat n" and ?F = "nat f" and ?S = "nat s"
  let ?u = "if s < f then s else f"
  let ?g = "\<lambda>k. card {S \<in> samples ?N ?S. card (S \<inter> {..<?F}) = k}"
  have "sum_list (map (\<lambda>k. go_binomial f k * go_binomial (n - f) (s - k)) [m..?u]) =
      (\<Sum>k \<in> {m..?u}. go_binomial f k * go_binomial (n - f) (s - k))"
    by (simp add: sum_list_distinct_conv_sum_set)
  also have "\<dots> = (\<Sum>k \<in> {m..?u}. int (?g (nat k)))"
  proof (rule sum.cong)
    fix k assume k: "k \<in> {m..?u}"
    then have "go_binomial f k * go_binomial (n - f) (s - k) =
        int ((?F choose nat k) * ((?N - ?F) choose (?S - nat k)))"
      using True by (auto simp: go_binomial_choose nat_diff_distrib split: if_splits)
    also have "\<dots> = int (?g (nat k))"
      using card_samples_faulty [of ?F ?N "nat k" ?S] True k by (auto split: if_splits)
    finally show "go_binomial f k * go_binomial (n - f) (s - k) = int (?g (nat k))" .
  qed simp
  also have "\<dots> = int (\<Sum>k \<in> {nat m..nat ?u}. ?g k)"
  proof -
    have "{m..?u} = int ` {nat m..nat ?u}" using True image_int_atLeastAtMost [of "nat m" "nat ?u"] by simp
    then show ?thesis by (simp add: sum.reindex)
  qed
  also have "(\<Sum>k \<in> {nat m..nat ?u}. ?g k) = card (\<Union>k \<in> {nat m..nat ?u}. {S \<in> samples ?N ?S. card (S \<inter> {..<?F}) = k})"
    by (rule card_UN_disjoint [symmetric]) auto
  also have "(\<Union>k \<in> {nat m..nat ?u}. {S \<in> samples ?N ?S. card (S \<inter> {..<?F}) = k}) =
      {S \<in> samples ?N ?S. nat m \<le> card (S \<inter> {..<?F})}"
  proof -
    have "card (S \<inter> {..<?F}) \<le> nat ?u" if "S \<in> samples ?N ?S" for S
    proof -
      have "card (S \<inter> {..<?F}) \<le> ?F" by (metis card_lessThan card_mono finite_lessThan inf_le2)
      moreover have "card (S \<inter> {..<?F}) \<le> ?S"
        using that card_mono [of S "S \<inter> {..<?F}"] finite_subset [of S "{..<?N}"] by (auto simp: samples_def)
      ultimately show ?thesis by auto
    qed
    then show ?thesis by auto
  qed
  finally have num: "sum_list (map (\<lambda>k. go_binomial f k * go_binomial (n - f) (s - k)) [m..?u]) =
      int (card {S \<in> samples ?N ?S. nat m \<le> card (S \<inter> {..<?F})})" .
  have "go_binomial n s = int (card (samples ?N ?S))"
    using True by (simp add: go_binomial_choose card_samples)
  then show ?thesis using True num by (simp add: cvV2HypergeometricFaultTail_def prob_def Let_def)
qed

text \<open>C36: the hypergeometric tail that the code computes is the probability that a uniformly chosen
  sample contains at least the given number of faulty members.\<close>

theorem hypergeometric_tail_is_probability:
  "cvV2HypergeometricFaultTail n f s m =
     (if 0 < n \<and> 0 \<le> f \<and> f < n \<and> 0 < s \<and> s \<le> n \<and> 0 < m \<and> m \<le> s
      then Some (prob (nat n) (nat s) (\<lambda>S. nat m \<le> card (S \<inter> {..<nat f}))) else None)"
  by (rule tail_probability)

lemma proposer_probability:
  "cvV2ProposerFailureBound n f s =
     (if 0 < n \<and> 0 \<le> f \<and> f < n \<and> 0 < s \<and> s \<le> n
      then Some (prob (nat n) (nat s) (\<lambda>S. S \<subseteq> {..<nat f})) else None)"
proof (cases "0 < n \<and> 0 \<le> f \<and> f < n \<and> 0 < s \<and> s \<le> n")
  case True
  have "{S \<in> samples (nat n) (nat s). S \<subseteq> {..<nat f}} = samples (nat f) (nat s)"
    using True by (auto simp: samples_def)
  then show ?thesis using True
    by (simp add: cvV2ProposerFailureBound_def prob_def go_binomial_choose card_samples)
qed (auto simp: cvV2ProposerFailureBound_def)

text \<open>The proposer failure bound is the probability that every sampled proposer is faulty.\<close>

theorem proposer_bound_is_probability:
  "cvV2ProposerFailureBound n f s =
     (if 0 < n \<and> 0 \<le> f \<and> f < n \<and> 0 < s \<and> s \<le> n
      then Some (prob (nat n) (nat s) (\<lambda>S. S \<subseteq> {..<nat f})) else None)"
  by (rule proposer_probability)

section \<open>Validator samples\<close>

lemma faulty_le_sample: "S \<in> samples n s \<Longrightarrow> card (S \<inter> A) \<le> s"
  using card_mono [of S "S \<inter> A"] finite_subset [of S "{..<n}"] by (auto simp: samples_def)

lemma prob_cong: "(\<And>S. S \<in> samples n s \<Longrightarrow> P S \<longleftrightarrow> Q S) \<Longrightarrow> prob n s P = prob n s Q"
  unfolding prob_def by (metis (mono_tags, lifting) Collect_cong)

lemma validator_probability:
  "cvV2ValidatorFailureBounds n f s thr =
     (if 0 < n \<and> 0 \<le> f \<and> f < n \<and> 0 < s \<and> s \<le> n \<and> 0 < thr \<and> thr \<le> s
      then let faulty = (\<lambda>S. card (S \<inter> {..<nat f}))
           in Some (prob (nat n) (nat s) (\<lambda>S. nat thr \<le> faulty S),
                    prob (nat n) (nat s) (\<lambda>S. nat s - faulty S < nat thr),
                    prob (nat n) (nat s) (\<lambda>S. nat thr \<le> faulty S \<or> nat s - faulty S < nat thr))
      else None)"
proof (cases "0 < n \<and> 0 \<le> f \<and> f < n \<and> 0 < s \<and> s \<le> n \<and> 0 < thr \<and> thr \<le> s")
  case True
  let ?c = "\<lambda>S. card (S \<inter> {..<nat f})" and ?l = "s - thr + 1"
  have live: "prob (nat n) (nat s) (\<lambda>S. nat ?l \<le> ?c S) = prob (nat n) (nat s) (\<lambda>S. nat s - ?c S < nat thr)"
    by (rule prob_cong) (use True faulty_le_sample in \<open>auto simp: nat_le_iff\<close>)
  have either: "prob (nat n) (nat s) (\<lambda>S. nat (if ?l < thr then ?l else thr) \<le> ?c S) =
      prob (nat n) (nat s) (\<lambda>S. nat thr \<le> ?c S \<or> nat s - ?c S < nat thr)"
    by (rule prob_cong) (use True faulty_le_sample in \<open>auto simp: nat_le_iff\<close>)
  show ?thesis
    using True live either unfolding cvV2ValidatorFailureBounds_def tail_probability
    by (auto simp: Let_def)
qed (auto simp: cvV2ValidatorFailureBounds_def)

text \<open>The three validator bounds are the probabilities that faulty validators alone reach the
  threshold, that the honest validators do not reach it, and that either happens.\<close>

theorem validator_bounds_are_probabilities:
  "cvV2ValidatorFailureBounds n f s thr =
     (if 0 < n \<and> 0 \<le> f \<and> f < n \<and> 0 < s \<and> s \<le> n \<and> 0 < thr \<and> thr \<le> s
      then let faulty = (\<lambda>S. card (S \<inter> {..<nat f}))
           in Some (prob (nat n) (nat s) (\<lambda>S. nat thr \<le> faulty S),
                    prob (nat n) (nat s) (\<lambda>S. nat s - faulty S < nat thr),
                    prob (nat n) (nat s) (\<lambda>S. nat thr \<le> faulty S \<or> nat s - faulty S < nat thr))
      else None)"
  by (rule validator_probability)

section \<open>Smallest samples\<close>

lemma first_sample_spec:
  assumes "first_sample bound t [a..n] = Some r" "r \<noteq> 0" "0 < a"
  shows "a \<le> r \<and> r \<le> n \<and> (\<exists>b. bound r = Some b \<and> b \<le> t) \<and>
    (\<forall>r'. a \<le> r' \<and> r' < r \<longrightarrow> (\<exists>b. bound r' = Some b \<and> t < b))"
  using assms
proof (induction "nat (n + 1 - a)" arbitrary: a)
  case 0
  then show ?case by simp
next
  case (Suc k)
  then have cons: "[a..n] = a # [a + 1..n]" by (simp add: upto_rec1)
  obtain b where b: "bound a = Some b" using Suc.prems(1) by (auto simp: cons bind_eq_Some_conv)
  show ?case
  proof (cases "b \<le> t")
    case True
    then show ?thesis using Suc.prems b Suc.hyps(2) by (auto simp: cons)
  next
    case False
    then have "first_sample bound t [a + 1..n] = Some r" using Suc.prems b by (simp add: cons)
    then have "a + 1 \<le> r \<and> r \<le> n \<and> (\<exists>b. bound r = Some b \<and> b \<le> t) \<and>
        (\<forall>r'. a + 1 \<le> r' \<and> r' < r \<longrightarrow> (\<exists>b. bound r' = Some b \<and> t < b))"
      using Suc.hyps(1) [of "a + 1"] Suc.prems(2,3) Suc.hyps(2) by auto
    then show ?thesis using False b by (metis not_le order_le_less zle_add1_eq_le zless_add1_eq)
  qed
qed

definition all_faulty :: "int \<Rightarrow> int \<Rightarrow> int \<Rightarrow> rat" where
  "all_faulty n f s = prob (nat n) (nat s) (\<lambda>S. S \<subseteq> {..<nat f})"

text \<open>The validator event for the majority threshold \<open>s div 2 + 1\<close>.\<close>

definition majority_fails :: "int \<Rightarrow> int \<Rightarrow> int \<Rightarrow> rat" where
  "majority_fails n f s = prob (nat n) (nat s) (\<lambda>S. nat (s div 2 + 1) \<le> card (S \<inter> {..<nat f}) \<or>
     nat s - card (S \<inter> {..<nat f}) < nat (s div 2 + 1))"

text \<open>The exact resolver returns the smallest proposer sample whose probability of being entirely
  faulty meets the target, and the smallest validator sample whose probability of losing soundness
  or liveness at the majority threshold meets it.\<close>

theorem exact_samples_are_minimal:
  assumes "cvV2ExactFinitePopulationSampleSizes n f target = Some (p, v)"
  shows "1 \<le> p \<and> p \<le> n \<and> all_faulty n f p \<le> target \<and> (\<forall>p' \<in> {1..<p}. target < all_faulty n f p') \<and>
    1 \<le> v \<and> v \<le> n \<and> majority_fails n f v \<le> target \<and> (\<forall>v' \<in> {1..<v}. target < majority_fails n f v')"
proof -
  let ?vb = "\<lambda>s. cvV2ValidatorFailureBound n f s (s div 2 + 1)"
  have g: "0 < n" "0 \<le> f" "f < n" and nz: "p \<noteq> 0" "v \<noteq> 0"
    and fp: "first_sample (cvV2ProposerFailureBound n f) target [1..n] = Some p"
    and fv: "first_sample ?vb target [1..n] = Some v"
    using assms by (auto simp: cvV2ExactFinitePopulationSampleSizes_def bind_eq_Some_conv split: if_splits)
  have bp: "cvV2ProposerFailureBound n f s = Some (all_faulty n f s)" if "1 \<le> s" "s \<le> n" for s
    using that g by (simp add: proposer_probability all_faulty_def)
  have bv: "?vb s = Some (majority_fails n f s)" if "1 \<le> s" "s \<le> n" for s
  proof -
    have "0 < s div 2 + 1" "s div 2 + 1 \<le> s" using that by auto
    then show ?thesis using that g
      by (simp add: cvV2ValidatorFailureBound_def validator_probability majority_fails_def Let_def)
  qed
  have P: "1 \<le> p \<and> p \<le> n \<and> (\<exists>b. cvV2ProposerFailureBound n f p = Some b \<and> b \<le> target) \<and>
      (\<forall>p'. 1 \<le> p' \<and> p' < p \<longrightarrow> (\<exists>b. cvV2ProposerFailureBound n f p' = Some b \<and> target < b))"
    by (rule first_sample_spec [OF fp nz(1)]) simp
  have V: "1 \<le> v \<and> v \<le> n \<and> (\<exists>b. ?vb v = Some b \<and> b \<le> target) \<and>
      (\<forall>v'. 1 \<le> v' \<and> v' < v \<longrightarrow> (\<exists>b. ?vb v' = Some b \<and> target < b))"
    by (rule first_sample_spec [OF fv nz(2)]) simp
  have "all_faulty n f p \<le> target" "majority_fails n f v \<le> target" using P bp [of p] V bv [of v] by auto
  moreover have "target < all_faulty n f p'" if "p' \<in> {1..<p}" for p' using that P bp [of p'] by fastforce
  moreover have "target < majority_fails n f v'" if "v' \<in> {1..<v}" for v' using that V bv [of v'] by fastforce
  ultimately show ?thesis using P V by blast
qed

theorem exact_samples_are_minimal_witness:
  "\<exists>p v. cvV2ExactFinitePopulationSampleSizes 4 1 (1 / 5) = Some (p, v) \<and>
    1 \<le> p \<and> p \<le> 4 \<and> all_faulty 4 1 p \<le> 1 / 5 \<and> (\<forall>p' \<in> {1..<p}. 1 / 5 < all_faulty 4 1 p') \<and>
    1 \<le> v \<and> v \<le> 4 \<and> majority_fails 4 1 v \<le> 1 / 5 \<and> (\<forall>v' \<in> {1..<v}. 1 / 5 < majority_fails 4 1 v')"
proof -
  have "cvV2ExactFinitePopulationSampleSizes 4 1 (1 / 5) = Some (2, 3)"
    by code_simp
  then show ?thesis using exact_samples_are_minimal [of 4 1 "1 / 5" 2 3] by blast
qed

lemma eligibility_sample_minimal:
  assumes "cvEligibilitySampleSize n f num den = Some c"
  shows "1 \<le> c \<and> c \<le> n \<and> (f < c \<or> all_faulty n f c \<le> of_nat num / of_nat den) \<and>
    (\<forall>c' \<in> {1..<c}. c' \<le> f \<and> of_nat num / of_nat den < all_faulty n f c')"
proof -
  have g: "0 < n" "0 \<le> f" "f < n" and loop: "eligibility_loop n f (of_nat num / of_nat den) [1..n] = Some c"
    using assms by (auto simp: cvEligibilitySampleSize_def split: if_splits)
  have ratio: "of_int (go_binomial f s) / of_int (go_binomial n s) = all_faulty n f s" if "1 \<le> s" "s \<le> n" for s
    using that g proposer_probability [of n f s] by (simp add: cvV2ProposerFailureBound_def all_faulty_def)
  have "a \<le> c \<and> c \<le> n \<and> (f < c \<or> all_faulty n f c \<le> t) \<and> (\<forall>c' \<in> {a..<c}. c' \<le> f \<and> t < all_faulty n f c')"
    if "eligibility_loop n f t [a..n] = Some c" "1 \<le> a" for a t
    using that
  proof (induction "nat (n + 1 - a)" arbitrary: a)
    case 0
    then show ?case by simp
  next
    case (Suc k)
    then have cons: "[a..n] = a # [a + 1..n]" by (simp add: upto_rec1)
    show ?case
    proof (cases "a > f \<or> all_faulty n f a \<le> t")
      case True
      then show ?thesis using Suc ratio [of a] by (auto simp: cons split: if_splits)
    next
      case False
      then have "eligibility_loop n f t [a + 1..n] = Some c"
        using Suc.prems Suc.hyps(2) ratio [of a] by (auto simp: cons split: if_splits)
      from Suc.hyps(1) [OF _ this] Suc.hyps(2) Suc.prems have IH: "a + 1 \<le> c \<and> c \<le> n \<and>
          (f < c \<or> all_faulty n f c \<le> t) \<and> (\<forall>c' \<in> {a + 1..<c}. c' \<le> f \<and> t < all_faulty n f c')" by auto
      have "{a..<c} = insert a {a + 1..<c}" using IH by auto
      then show ?thesis using IH False by auto
    qed
  qed
  from this [OF loop] show ?thesis by simp
qed

end
