(* ===== verification/Config.thy ===== *)
theory Config
  imports Sampling
begin

text \<open>
  Configuration and derived thresholds: \<^verbatim>\<open>src/core/config.go\<close> (\<^verbatim>\<open>NormalizeConfig\<close>,
  \<^verbatim>\<open>ValidateConfig\<close>), the sampling resolver of \<^verbatim>\<open>src/core/cv_sapvss_sampling_v2.go\<close>, \<^verbatim>\<open>cvProfile\<close> of
  \<^verbatim>\<open>src/core/cv_sapvss.go\<close> and \<^verbatim>\<open>cvDeriveV2Params\<close> of \<^verbatim>\<open>src/core/cv_sapvss_v2_params.go\<close>.  The process
  environment is the argument \<open>env\<close> (an unset variable is the empty string); string trimming and
  case mapping are those of ASCII strings; a duration is its number of nanoseconds.  The runtime
  handles of the Go structure, which these functions do not read, are left out.
\<close>

section \<open>Strings\<close>

definition is_space :: "char \<Rightarrow> bool" where
  "is_space c = ((of_char c :: nat) \<in> {9, 10, 11, 12, 13, 32})"

definition go_TrimSpace :: "string \<Rightarrow> string" where
  "go_TrimSpace s = rev (dropWhile is_space (rev (dropWhile is_space s)))"

definition to_lower_char :: "char \<Rightarrow> char" where
  "to_lower_char c = (if 65 \<le> (of_char c :: nat) \<and> (of_char c :: nat) \<le> 90
     then char_of ((of_char c :: nat) + 32) else c)"

definition go_ToLower :: "string \<Rightarrow> string" where
  "go_ToLower s = map to_lower_char s"

definition is_digit :: "char \<Rightarrow> bool" where
  "is_digit c = (48 \<le> (of_char c :: nat) \<and> (of_char c :: nat) \<le> 57)"

definition parse_digits :: "string \<Rightarrow> int option" where
  "parse_digits s = (if s \<noteq> [] \<and> list_all is_digit s
     then Some (foldl (\<lambda>a c. a * 10 + (int (of_char c) - 48)) 0 s) else None)"

text \<open>\<^verbatim>\<open>big.Int.SetString(s, 10)\<close> and \<^verbatim>\<open>strconv.Atoi\<close>.\<close>

definition parse_int :: "string \<Rightarrow> int option" where
  "parse_int s = (case s of
     [] \<Rightarrow> None
   | c # cs \<Rightarrow> if c = CHR ''-'' then map_option uminus (parse_digits cs)
               else if c = CHR ''+'' then parse_digits cs else parse_digits s)"

definition go_Atoi :: "string \<Rightarrow> int option" where
  "go_Atoi s = (case parse_int s of None \<Rightarrow> None | Some i \<Rightarrow> if int64 i then Some i else None)"

definition has_prefix :: "string \<Rightarrow> string \<Rightarrow> bool" where
  "has_prefix p s = (take (length p) s = p)"

text \<open>\<^verbatim>\<open>strings.Split(s, sep)\<close> for a non-empty separator; \<open>cur\<close> is the current piece, reversed.\<close>

function split_loop :: "string \<Rightarrow> string \<Rightarrow> string \<Rightarrow> string list" where
  "split_loop sep cur s =
     (case s of
        [] \<Rightarrow> [rev cur]
      | c # cs \<Rightarrow> if sep \<noteq> [] \<and> has_prefix sep s then rev cur # split_loop sep [] (drop (length sep) s)
                  else split_loop sep (c # cur) cs)"
  by pat_completeness auto
termination
  by (relation "measure (\<lambda>(_, _, s). length s)") auto

declare split_loop.simps [simp del]

definition go_Split :: "string \<Rightarrow> string \<Rightarrow> string list" where
  "go_Split s sep = split_loop sep [] s"

section \<open>Configuration\<close>

definition APVSSModeFullPublicVE :: string where
  "APVSSModeFullPublicVE = ''full-public-ve''"

definition APVSSModeACKFallback :: string where
  "APVSSModeACKFallback = ''ack-fallback''"

definition APVSSFullProofExact :: string where
  "APVSSFullProofExact = ''exact''"

definition APVSSFullProofCompactBatch :: string where
  "APVSSFullProofCompactBatch = ''compact-batch''"

definition APVSSFullProofFieldCongruent :: string where
  "APVSSFullProofFieldCongruent = ''field-congruent''"

definition apvssFallbackExactLaneProfile :: string where
  "apvssFallbackExactLaneProfile = ''exact-lane''"

definition apvssFallbackCompactBatchProfile :: string where
  "apvssFallbackCompactBatchProfile = ''compact-batch''"

definition apvssFallbackFeldmanBatchProfile :: string where
  "apvssFallbackFeldmanBatchProfile = ''feldman-batch-v1''"


record Config =
  cfg_SID :: string
  cfg_Epoch :: int
  cfg_PreviousEpochStateDigest :: bytes
  cfg_OldCommittee :: "int list"
  cfg_NewCommittee :: "int list"
  cfg_FOld :: int
  cfg_FNew :: int
  cfg_OldFaults :: int
  cfg_NewFaults :: int
  cfg_CVProposerSampleSize :: int
  cfg_CVValidatorSampleSize :: int
  cfg_CVSamplingFailureTarget :: string
  cfg_Kappa :: int
  cfg_WaitSPBCTimeout :: int
  cfg_RouteSendTimeout :: int
  cfg_SendRetryMax :: int
  cfg_SendRetryBackoff :: int
  cfg_AgreementTransport :: string
  cfg_AgreementBindHost :: string
  cfg_AgreementBasePort :: int
  cfg_LocalNodeIDs :: "int list"
  cfg_APVSSMode :: string
  cfg_APVSSFullProofProfile :: string
  cfg_APVSSFallbackProfile :: string
  cfg_AllowExperimentalAPVSS :: bool
  cfg_APVSSBenchmarkFallbackCount :: int
  cfg_APVSSBenchmarkWaitAllACKs :: bool
  cfg_ArtifactCacheDir :: string
  cfg_AblationMode :: string
  cfg_CommMetrics :: bool
  cfg_StrictNetwork :: bool
  cfg_CVPublicKeyDir :: string
  cfg_CVLocalSecretDir :: string
  cfg_CVLocalReceiverIDs :: "int list"

type_synonym environment = "string \<Rightarrow> string"

fun parse_ids :: "string list \<Rightarrow> int list" where
  "parse_ids [] = []"
| "parse_ids (part # parts) =
     (let part = go_TrimSpace part
      in if part = [] then parse_ids parts
         else case go_Atoi part of None \<Rightarrow> parse_ids parts | Some node \<Rightarrow> node # parse_ids parts)"

definition parseLocalNodeIDsEnv :: "environment \<Rightarrow> int list \<Rightarrow> int list" where
  "parseLocalNodeIDsEnv env universe =
     (let raw = go_TrimSpace (env ''RLADKR_LOCAL_NODE_IDS'')
      in if raw = [] then [] else filterNodeIDs (parse_ids (go_Split raw '','')) universe)"

definition lower_trim :: "string \<Rightarrow> string" where
  "lower_trim s = go_ToLower (go_TrimSpace s)"

text \<open>\<^verbatim>\<open>if field == zero { field = default }\<close>.\<close>

definition or_default :: "string \<Rightarrow> string \<Rightarrow> string" where
  "or_default s d = (if s = [] then d else s)"

definition positive_or :: "int \<Rightarrow> int \<Rightarrow> int" where
  "positive_or x d = (if x \<le> 0 then d else x)"

definition nonzero_or :: "int \<Rightarrow> int \<Rightarrow> int" where
  "nonzero_or x d = (if x = 0 then d else x)"

definition normalize_target :: "string \<Rightarrow> string" where
  "normalize_target target = lower_trim (if go_TrimSpace target = [] then ''smoke'' else target)"

definition normalize_local :: "environment \<Rightarrow> int list \<Rightarrow> int list \<Rightarrow> int list" where
  "normalize_local env ids oldCommittee =
     (let ids = (if ids = [] then parseLocalNodeIDsEnv env oldCommittee else ids);
          ids = filterNodeIDs ids oldCommittee
      in if ids = [] then sortedUnique oldCommittee else ids)"

definition NormalizeConfig :: "environment \<Rightarrow> Config \<Rightarrow> Config" where
  "NormalizeConfig env cfg =
     (let oldFaults = nonzero_or (cfg_OldFaults cfg) (cfg_FOld cfg);
          newFaults = nonzero_or (cfg_NewFaults cfg) (cfg_FNew cfg)
      in cfg\<lparr>
        cfg_Epoch := positive_or (cfg_Epoch cfg) 1,
        cfg_OldFaults := oldFaults,
        cfg_NewFaults := newFaults,
        cfg_FOld := nonzero_or (cfg_FOld cfg) oldFaults,
        cfg_FNew := nonzero_or (cfg_FNew cfg) newFaults,
        cfg_Kappa := nonzero_or (cfg_Kappa cfg) (oldFaults + 1),
        cfg_CVSamplingFailureTarget := normalize_target (cfg_CVSamplingFailureTarget cfg),
        cfg_WaitSPBCTimeout := positive_or (cfg_WaitSPBCTimeout cfg) 2000000000,
        cfg_RouteSendTimeout := positive_or (cfg_RouteSendTimeout cfg) 300000000,
        cfg_SendRetryMax := positive_or (cfg_SendRetryMax cfg) 10,
        cfg_SendRetryBackoff := positive_or (cfg_SendRetryBackoff cfg) 100000000,
        cfg_AgreementTransport := lower_trim (or_default (cfg_AgreementTransport cfg) ''tcp-distributed''),
        cfg_AgreementBindHost := or_default (cfg_AgreementBindHost cfg) ''0.0.0.0'',
        cfg_LocalNodeIDs := normalize_local env (cfg_LocalNodeIDs cfg) (cfg_OldCommittee cfg),
        cfg_APVSSMode := lower_trim (or_default (cfg_APVSSMode cfg) APVSSModeACKFallback),
        cfg_APVSSFullProofProfile := lower_trim (or_default (cfg_APVSSFullProofProfile cfg) APVSSFullProofExact),
        cfg_APVSSFallbackProfile :=
          lower_trim (or_default (cfg_APVSSFallbackProfile cfg) apvssFallbackFeldmanBatchProfile),
        cfg_ArtifactCacheDir := or_default (cfg_ArtifactCacheDir cfg) (env ''RLADKR_ARTIFACT_CACHE_DIR''),
        cfg_AblationMode := lower_trim (or_default (cfg_AblationMode cfg) ''none'')
      \<rparr>)"

definition apvssRequireFallbackBackend :: "string \<Rightarrow> bool" where
  "apvssRequireFallbackBackend profile \<longleftrightarrow> profile = apvssFallbackExactLaneProfile \<or>
     profile = apvssFallbackCompactBatchProfile \<or> profile = apvssFallbackFeldmanBatchProfile"

definition validateStrictNetworkConfig :: "environment \<Rightarrow> Config \<Rightarrow> unit option" where
  "validateStrictNetworkConfig env cfg = do {
     let transport = lower_trim (cfg_AgreementTransport cfg);
     require (\<not> (transport \<noteq> ''tcp-distributed'' \<and> transport \<noteq> ''tcp''));
     let disperseMode = lower_trim (env ''RLADKR_DISPERSE_MODE'');
     require (disperseMode \<notin> {''local'', ''cache'', ''file-cache'', ''off''});
     require (go_TrimSpace (env ''RLADKR_NODE_ADDRS'') \<noteq> []);
     require (\<not> length (sortedUnique (cfg_LocalNodeIDs cfg)) \<ge> length (sortedUnique (cfg_OldCommittee cfg)))
   }"

definition validate_mode :: "Config \<Rightarrow> unit option" where
  "validate_mode cfg =
     (if cfg_APVSSMode cfg = APVSSModeFullPublicVE then do {
        require (cfg_APVSSFullProofProfile cfg = APVSSFullProofExact \<or>
          cfg_APVSSFullProofProfile cfg = APVSSFullProofCompactBatch \<or>
          cfg_APVSSFullProofProfile cfg = APVSSFullProofFieldCongruent);
        require (\<not> (cfg_APVSSBenchmarkWaitAllACKs cfg \<or> cfg_APVSSBenchmarkFallbackCount cfg \<noteq> 0))
      }
      else if cfg_APVSSMode cfg = APVSSModeACKFallback
      then require (apvssRequireFallbackBackend (cfg_APVSSFallbackProfile cfg))
      else None)"

definition ValidateConfig :: "environment \<Rightarrow> Config \<Rightarrow> unit option" where
  "ValidateConfig env cfg = do {
     let cfg = NormalizeConfig env cfg;
     require (cfg_SID cfg \<noteq> []);
     let oldCommittee = sortedUnique (cfg_OldCommittee cfg);
     let newCommittee = sortedUnique (cfg_NewCommittee cfg);
     require (oldCommittee \<noteq> []);
     require (newCommittee \<noteq> []);
     require (length oldCommittee = length (cfg_OldCommittee cfg));
     require (length newCommittee = length (cfg_NewCommittee cfg));
     require (\<not> (cfg_FOld cfg < 0 \<or> cfg_OldFaults cfg < 0));
     require (\<not> (cfg_FNew cfg < 0 \<or> cfg_NewFaults cfg < 0));
     require (cfg_FOld cfg = cfg_OldFaults cfg);
     require (cfg_FNew cfg = cfg_NewFaults cfg);
     require (\<not> int (length oldCommittee) < 3 * cfg_FOld cfg + 1);
     require (\<not> int (length newCommittee) < 3 * cfg_FNew cfg + 1);
     require (cfg_Kappa cfg = cfg_FOld cfg + 1);
     require (\<not> cfg_SendRetryMax cfg \<le> 0);
     _ \<leftarrow> validate_mode cfg;
     require (\<not> (cfg_APVSSBenchmarkFallbackCount cfg < 0 \<or>
       cfg_APVSSBenchmarkFallbackCount cfg > cfg_FNew cfg));
     require (cfg_AblationMode cfg \<in> {[], ''none'', ''no-agclock''});
     (if cfg_StrictNetwork cfg then validateStrictNetworkConfig env cfg else Some ())
   }"

section \<open>The sampling resolver\<close>

definition cvParseFailureTargetV2 :: "string \<Rightarrow> rat option" where
  "cvParseFailureTargetV2 target =
     (let target = lower_trim target
      in if has_prefix ''2^-'' target then do {
           exponent \<leftarrow> go_Atoi (drop 3 target);
           require (\<not> exponent \<le> 0);
           Some (1 / 2 ^ nat exponent)
         }
         else case go_Split target ''e-'' of
           [coeff, expo] \<Rightarrow> do {
             coefficient \<leftarrow> parse_int coeff;
             exponent \<leftarrow> go_Atoi expo;
             require (\<not> (coefficient \<le> 0 \<or> exponent \<le> 0));
             let result = of_int coefficient / 10 ^ nat exponent;
             require (\<not> result \<ge> 1);
             Some result
           }
         | _ \<Rightarrow> None)"

definition cvResolveFailureBudgetV2 :: "string \<Rightarrow> (string \<times> string \<times> rat) option" where
  "cvResolveFailureBudgetV2 target =
     (let target = lower_trim target
      in if target = ''original'' then Some (target, target, 1 / 10000000000)
         else if target = ''high-assurance'' then Some (target, target, 1 / (2 ^ 64 * 525600))
         else do { parsed \<leftarrow> cvParseFailureTargetV2 target; Some (target, ''custom'', parsed) })"

record CVV2SamplingReport =
  rep_Target :: string
  rep_Profile :: string
  rep_Policy :: string
  rep_FaultFraction :: "int \<times> int"
  rep_TotalFailureBudget :: "rat option"
  rep_PerEventFailureTarget :: "rat option"
  rep_ProposerSampleSize :: int
  rep_ValidatorSampleSize :: int
  rep_ValidatorThreshold :: int
  rep_ProposerFailureBound :: rat
  rep_ValidatorSoundnessFailureBound :: rat
  rep_ValidatorLivenessFailureBound :: rat
  rep_ValidatorCombinedFailureBound :: rat
  rep_ContributorSamplingFailureBound :: rat
  rep_PerEpochCombinedSamplingFailureBound :: rat

definition ResolveCVV2Sampling :: "int \<Rightarrow> int \<Rightarrow> string \<Rightarrow> int \<Rightarrow> int \<Rightarrow> CVV2SamplingReport option" where
  "ResolveCVV2Sampling n f target smokeProposerSample smokeValidatorSample = do {
     require (\<not> (n \<le> 0 \<or> f < 0 \<or> f \<ge> n));
     let normalized = lower_trim target;
     let normalized = (if normalized = [] then ''smoke'' else normalized);
     (normalized, profile, policy, totalBudget, perEventTarget, proposerSample, validatorSample) \<leftarrow>
       (if normalized \<noteq> ''smoke'' then do {
          (normalized, profile, totalBudget) \<leftarrow> cvResolveFailureBudgetV2 normalized;
          require (\<not> n < 3 * f + 1);
          let perEventTarget = totalBudget / 2;
          (proposerSample, validatorSample) \<leftarrow> cvV2ExactFinitePopulationSampleSizes n f perEventTarget;
          Some (normalized, profile, ''exact-finite-population'', Some totalBudget, Some perEventTarget,
                proposerSample, validatorSample)
        }
        else Some (normalized, ''smoke'', ''explicit-smoke'', None, None,
                   smokeProposerSample, smokeValidatorSample));
     require (\<not> (proposerSample \<le> 0 \<or> proposerSample > n \<or> validatorSample \<le> 0 \<or> validatorSample > n));
     let threshold = validatorSample div 2 + 1;
     proposer \<leftarrow> cvV2ProposerFailureBound n f proposerSample;
     (soundness, liveness, combined) \<leftarrow> cvV2ValidatorFailureBounds n f validatorSample threshold;
     require (case perEventTarget of None \<Rightarrow> True | Some t \<Rightarrow> \<not> (proposer > t \<or> combined > t));
     let perEpoch = proposer + combined;
     require (case totalBudget of None \<Rightarrow> True | Some b \<Rightarrow> \<not> perEpoch > b);
     Some \<lparr> rep_Target = normalized, rep_Profile = profile, rep_Policy = policy, rep_FaultFraction = (f, n),
            rep_TotalFailureBudget = totalBudget, rep_PerEventFailureTarget = perEventTarget,
            rep_ProposerSampleSize = proposerSample, rep_ValidatorSampleSize = validatorSample,
            rep_ValidatorThreshold = threshold, rep_ProposerFailureBound = proposer,
            rep_ValidatorSoundnessFailureBound = soundness, rep_ValidatorLivenessFailureBound = liveness,
            rep_ValidatorCombinedFailureBound = combined, rep_ContributorSamplingFailureBound = 0,
            rep_PerEpochCombinedSamplingFailureBound = perEpoch \<rparr>
   }"

definition CVV2SamplingUnionBound :: "CVV2SamplingReport \<Rightarrow> int \<Rightarrow> rat option" where
  "CVV2SamplingUnionBound report epochs = do {
     require (\<not> epochs < 0);
     let perEpoch = rep_PerEpochCombinedSamplingFailureBound report;
     require (\<not> perEpoch < 0);
     let bound = perEpoch * of_int epochs;
     Some (if bound > 1 then 1 else bound)
   }"

section \<open>Derived parameters\<close>

definition fr_modulus :: int where
  "fr_modulus = 52435875175126190479447740508185965837690552500527637822603658699938581184513"

definition cvMaxChunkBits :: nat where
  "cvMaxChunkBits = 20"

definition cvMaxDLogBound :: int where
  "cvMaxDLogBound = 2 ^ 32"

record cvChunkProfile =
  cp_chunkBits :: nat
  cp_maxComponents :: int

definition cvProfile :: "cvChunkProfile \<Rightarrow> (int \<times> int \<times> int) option" where
  "cvProfile profile = do {
     require (\<not> (cp_chunkBits profile = 0 \<or> cp_chunkBits profile > cvMaxChunkBits \<or> cp_maxComponents profile \<le> 0));
     let base = (2 ^ cp_chunkBits profile :: int);
     let maxDigit = base - 1;
     require (\<not> cp_maxComponents profile > (2 ^ 64 - 1) div maxDigit);
     let bound = cp_maxComponents profile * maxDigit;
     require (\<not> bound \<ge> fr_modulus);
     require (\<not> bound > cvMaxDLogBound);
     let chunks = (255 + int (cp_chunkBits profile) - 1) div int (cp_chunkBits profile);
     Some (base, bound, chunks)
   }"

record cvV2Params =
  vp_oldFaults :: int
  vp_newFaults :: int
  vp_componentCount :: int
  vp_poolSize :: int
  vp_apdbLockThreshold :: int
  vp_decisionThreshold :: int
  vp_recoveryThreshold :: int
  vp_newShareDegree :: int
  vp_newShareThreshold :: int
  vp_proposerSampleSize :: int
  vp_validatorSampleSize :: int
  vp_validatorThreshold :: int
  vp_proposerFailureBound :: rat
  vp_validatorSoundnessFailureBound :: rat
  vp_validatorLivenessFailureBound :: rat
  vp_validatorCombinedFailureBound :: rat
  vp_validatorFailureBound :: rat

definition cvDeriveV2Params :: "environment \<Rightarrow> Config \<Rightarrow> cvV2Params option" where
  "cvDeriveV2Params env cfg = do {
     let c = NormalizeConfig env cfg;
     _ \<leftarrow> ValidateConfig env c;
     let oldCount = int (length (cfg_OldCommittee c));
     let newCount = int (length (cfg_NewCommittee c));
     require (\<not> (cfg_CVProposerSampleSize c \<le> 0 \<or> cfg_CVProposerSampleSize c > oldCount));
     require (\<not> (cfg_CVValidatorSampleSize c \<le> 0 \<or> cfg_CVValidatorSampleSize c > oldCount));
     sampling \<leftarrow> ResolveCVV2Sampling oldCount (cfg_OldFaults c) (cfg_CVSamplingFailureTarget c)
       (cfg_CVProposerSampleSize c) (cfg_CVValidatorSampleSize c);
     require (\<not> (rep_ProposerSampleSize sampling \<noteq> cfg_CVProposerSampleSize c \<or>
       rep_ValidatorSampleSize sampling \<noteq> cfg_CVValidatorSampleSize c));
     let componentCount = cfg_OldFaults c + 1;
     let poolSize = oldCount - cfg_OldFaults c;
     let validatorThreshold = cfg_CVValidatorSampleSize c div 2 + 1;
     require (\<not> validatorThreshold > poolSize);
     require (\<not> 2 * cfg_OldFaults c + 1 > oldCount);
     require (\<not> (componentCount > poolSize \<or> poolSize > oldCount));
     require (\<not> newCount - cfg_NewFaults c \<le> 0);
     _ \<leftarrow> cvProfile \<lparr> cp_chunkBits = 8, cp_maxComponents = componentCount \<rparr>;
     proposerFailure \<leftarrow> cvV2ProposerFailureBound oldCount (cfg_OldFaults c) (cfg_CVProposerSampleSize c);
     (soundnessFailure, livenessFailure, combinedFailure) \<leftarrow> cvV2ValidatorFailureBounds oldCount
       (cfg_OldFaults c) (cfg_CVValidatorSampleSize c) validatorThreshold;
     Some \<lparr> vp_oldFaults = cfg_OldFaults c, vp_newFaults = cfg_NewFaults c,
            vp_componentCount = componentCount, vp_poolSize = poolSize,
            vp_apdbLockThreshold = 2 * cfg_OldFaults c + 1, vp_decisionThreshold = poolSize,
            vp_recoveryThreshold = componentCount, vp_newShareDegree = newCount - cfg_NewFaults c - 1,
            vp_newShareThreshold = newCount - cfg_NewFaults c,
            vp_proposerSampleSize = cfg_CVProposerSampleSize c,
            vp_validatorSampleSize = cfg_CVValidatorSampleSize c, vp_validatorThreshold = validatorThreshold,
            vp_proposerFailureBound = proposerFailure,
            vp_validatorSoundnessFailureBound = soundnessFailure,
            vp_validatorLivenessFailureBound = livenessFailure,
            vp_validatorCombinedFailureBound = combinedFailure, vp_validatorFailureBound = combinedFailure \<rparr>
   }"

definition cvValidateV2Startup :: "environment \<Rightarrow> Config \<Rightarrow> cvV2Params option" where
  "cvValidateV2Startup env cfg = cvDeriveV2Params env cfg"

section \<open>Thresholds\<close>

lemma normalize_committees [simp]:
  "cfg_OldCommittee (NormalizeConfig env c) = cfg_OldCommittee c"
  "cfg_NewCommittee (NormalizeConfig env c) = cfg_NewCommittee c"
  by (simp_all add: NormalizeConfig_def Let_def)

lemma validate_SomeD:
  assumes "ValidateConfig env c = Some u"
  shows "distinct (cfg_OldCommittee c)" "distinct (cfg_NewCommittee c)"
    "0 \<le> cfg_OldFaults (NormalizeConfig env c)" "0 \<le> cfg_NewFaults (NormalizeConfig env c)"
    "3 * cfg_OldFaults (NormalizeConfig env c) + 1 \<le> int (length (cfg_OldCommittee c))"
    "3 * cfg_NewFaults (NormalizeConfig env c) + 1 \<le> int (length (cfg_NewCommittee c))"
proof -
  note facts = assms [unfolded ValidateConfig_def Let_def bind_require run_simps]
  show "distinct (cfg_OldCommittee c)" "distinct (cfg_NewCommittee c)"
    using facts by (elim conjE, simp only: length_sortedUnique_iff normalize_committees)+
  show "0 \<le> cfg_OldFaults (NormalizeConfig env c)" "0 \<le> cfg_NewFaults (NormalizeConfig env c)"
    using facts by (elim conjE, simp)+
  show "3 * cfg_OldFaults (NormalizeConfig env c) + 1 \<le> int (length (cfg_OldCommittee c))"
    "3 * cfg_NewFaults (NormalizeConfig env c) + 1 \<le> int (length (cfg_NewCommittee c))"
    using facts by (elim conjE, simp only: normalize_committees not_less)+
qed

lemma normalize_faults [simp]:
  "cfg_OldFaults (NormalizeConfig env (NormalizeConfig env c)) = cfg_OldFaults (NormalizeConfig env c)"
  "cfg_NewFaults (NormalizeConfig env (NormalizeConfig env c)) = cfg_NewFaults (NormalizeConfig env c)"
  by (simp_all add: NormalizeConfig_def Let_def nonzero_or_def)

lemma derive_SomeD:
  assumes "cvDeriveV2Params env cfg = Some p"
  shows "ValidateConfig env (NormalizeConfig env cfg) = Some ()"
    "vp_oldFaults p = cfg_OldFaults (NormalizeConfig env cfg)"
    "vp_newFaults p = cfg_NewFaults (NormalizeConfig env cfg)"
    "vp_componentCount p = vp_oldFaults p + 1" "vp_recoveryThreshold p = vp_oldFaults p + 1"
    "vp_poolSize p = int (length (cfg_OldCommittee cfg)) - vp_oldFaults p"
    "vp_decisionThreshold p = vp_poolSize p" "vp_apdbLockThreshold p = 2 * vp_oldFaults p + 1"
    "vp_newShareThreshold p = int (length (cfg_NewCommittee cfg)) - vp_newFaults p"
    "vp_newShareDegree p = vp_newShareThreshold p - 1"
    "vp_validatorThreshold p = vp_validatorSampleSize p div 2 + 1" "vp_validatorThreshold p \<le> vp_poolSize p"
    "1 \<le> vp_validatorSampleSize p" "vp_validatorSampleSize p \<le> int (length (cfg_OldCommittee cfg))"
    "1 \<le> vp_proposerSampleSize p" "vp_proposerSampleSize p \<le> int (length (cfg_OldCommittee cfg))"
  using assms unfolding cvDeriveV2Params_def Let_def
  by (simp_all only: bind_require run_simps split_beta option.inject) (elim conjE exE, force)+

lemma two_quorums:
  fixes q :: int
  assumes fin: "finite N" and sub: "A \<subseteq> N" "C \<subseteq> N" "F \<subseteq> N"
    and q: "q \<le> int (card A)" "q \<le> int (card C)" "int (card N) + int (card F) < 2 * q"
  shows "\<exists>x. x \<in> A \<and> x \<in> C \<and> x \<notin> F"
proof (rule ccontr)
  assume "\<nexists>x. x \<in> A \<and> x \<in> C \<and> x \<notin> F"
  then have "A \<inter> C \<subseteq> F" by auto
  then have "card (A \<inter> C) \<le> card F" using card_mono finite_subset fin sub(3) by metis
  moreover have "card A + card C = card (A \<union> C) + card (A \<inter> C)"
    using card_Un_Int finite_subset fin sub by metis
  moreover have "card (A \<union> C) \<le> card N" by (rule card_mono) (use fin sub in auto)
  ultimately show False using q by linarith
qed

text \<open>C37: the derived thresholds are safe and live for every accepted configuration: any two
  decision quorums share an honest member, every APDB lock certificate involves a recovery threshold of
  honest holders, every pool contains more honest components than the aggregate needs faulty ones to
  be outvoted by, the honest members alone reach the decision, lock and validator thresholds, and the
  new committee's sharing threshold exceeds twice its faults.\<close>

theorem derived_thresholds_safe:
  assumes "cvDeriveV2Params env cfg = Some p"
    and "F \<subseteq> set (cfg_OldCommittee cfg)" "int (card F) \<le> vp_oldFaults p"
    and "A \<subseteq> set (cfg_OldCommittee cfg)" "C \<subseteq> set (cfg_OldCommittee cfg)"
    and "vp_decisionThreshold p \<le> int (card A)" "vp_decisionThreshold p \<le> int (card C)"
  shows "(\<exists>x. x \<in> A \<and> x \<in> C \<and> x \<notin> F) \<and>
    vp_recoveryThreshold p \<le> vp_apdbLockThreshold p - int (card F) \<and>
    vp_componentCount p \<le> vp_poolSize p - int (card F) \<and> int (card F) < vp_componentCount p \<and>
    vp_decisionThreshold p \<le> int (card (set (cfg_OldCommittee cfg) - F)) \<and>
    vp_apdbLockThreshold p \<le> int (card (set (cfg_OldCommittee cfg) - F)) \<and>
    vp_validatorThreshold p \<le> int (card (set (cfg_OldCommittee cfg) - F)) \<and>
    2 * vp_newFaults p + 1 \<le> vp_newShareThreshold p"
proof -
  note D = derive_SomeD [OF assms(1)]
  note V = validate_SomeD [OF D(1), simplified]
  let ?N = "set (cfg_OldCommittee cfg)"
  have n: "int (card ?N) = int (length (cfg_OldCommittee cfg))" using V(1) by (simp add: distinct_card)
  have honest: "int (card (?N - F)) = int (card ?N) - int (card F)"
    using assms(2) finite_subset [OF assms(2)] by (simp add: card_Diff_subset card_mono of_nat_diff)
  have "\<exists>x. x \<in> A \<and> x \<in> C \<and> x \<notin> F"
    by (rule two_quorums [of ?N A C F "vp_decisionThreshold p"]) (use assms(2-7) D V n in auto)
  then show ?thesis using D V n honest assms(3) by auto
qed

section \<open>Budgets\<close>

text \<open>A resolved non-smoke report stays within its budget: each sampling event stays within the
  per-event target, and the probability that the proposer sample is entirely faulty plus the
  probability that the validator sample loses soundness or liveness is at most the total budget.\<close>

theorem resolved_sampling_within_budget:
  assumes "ResolveCVV2Sampling n f target sp sv = Some rep" "rep_TotalFailureBudget rep = Some budget"
  shows "all_faulty n f (rep_ProposerSampleSize rep) \<le> budget / 2 \<and>
    majority_fails n f (rep_ValidatorSampleSize rep) \<le> budget / 2 \<and>
    rep_PerEpochCombinedSamplingFailureBound rep =
      all_faulty n f (rep_ProposerSampleSize rep) + majority_fails n f (rep_ValidatorSampleSize rep) \<and>
    rep_PerEpochCombinedSamplingFailureBound rep \<le> budget \<and>
    rep_ValidatorThreshold rep = rep_ValidatorSampleSize rep div 2 + 1"
proof -
  obtain p s l c where r: "cvV2ProposerFailureBound n f (rep_ProposerSampleSize rep) = Some p"
    "cvV2ValidatorFailureBounds n f (rep_ValidatorSampleSize rep) (rep_ValidatorSampleSize rep div 2 + 1) = Some (s, l, c)"
    "p \<le> budget / 2" "c \<le> budget / 2" "p + c \<le> budget"
    "rep_PerEpochCombinedSamplingFailureBound rep = p + c"
    "rep_ValidatorThreshold rep = rep_ValidatorSampleSize rep div 2 + 1"
    using assms
    by (auto simp: ResolveCVV2Sampling_def Let_def bind_eq_Some_conv split: if_splits)
  have "p = all_faulty n f (rep_ProposerSampleSize rep)"
    using r(1) by (auto simp: proposer_probability all_faulty_def split: if_splits)
  moreover have "c = majority_fails n f (rep_ValidatorSampleSize rep)"
    using r(2) by (auto simp: validator_probability majority_fails_def Let_def split: if_splits)
  ultimately show ?thesis using r by simp
qed

section \<open>Normalisation\<close>

lemma of_char_lower: "(of_char (to_lower_char c) :: nat) =
  (if 65 \<le> (of_char c :: nat) \<and> (of_char c :: nat) \<le> 90 then of_char c + 32 else of_char c)"
  by (simp add: to_lower_char_def)

lemma is_space_lower [simp]: "is_space (to_lower_char c) = is_space c"
  by (auto simp: is_space_def of_char_lower)

lemma lower_idem [simp]: "to_lower_char (to_lower_char c) = to_lower_char c"
  unfolding to_lower_char_def [of "to_lower_char c"] of_char_lower by auto

lemma trim_lower: "go_TrimSpace (go_ToLower s) = go_ToLower (go_TrimSpace s)"
  by (simp add: go_TrimSpace_def go_ToLower_def dropWhile_map comp_def rev_map)

lemma dropWhile_idem: "dropWhile P (dropWhile P xs) = dropWhile P xs"
  by (induction xs) auto

lemma dropWhile_rev_trim:
  "dropWhile P (rev (dropWhile P (rev (dropWhile P xs)))) = rev (dropWhile P (rev (dropWhile P xs)))"
proof (cases "dropWhile P xs")
  case Nil
  then show ?thesis by (simp only: rev.simps dropWhile.simps)
next
  case (Cons y ys)
  have y: "\<not> P y" using Cons hd_dropWhile by (metis list.distinct(1) list.sel(1))
  have "dropWhile P (rev ys @ [y]) \<noteq> []" using y by (simp add: dropWhile_eq_Nil_conv)
  moreover have "\<exists>zs. dropWhile P (rev ys @ [y]) = zs @ [y]" using y
    by (induction "rev ys" arbitrary: ys) (auto simp: dropWhile_append)
  ultimately show ?thesis using y Cons by auto
qed

lemma trim_idem: "go_TrimSpace (go_TrimSpace s) = go_TrimSpace s"
  unfolding go_TrimSpace_def dropWhile_rev_trim by (simp add: dropWhile_idem)

lemma lower_trim_idem: "lower_trim (lower_trim s) = lower_trim s"
  by (simp add: lower_trim_def trim_lower trim_idem) (simp add: go_ToLower_def)

lemma lower_trim_Nil: "lower_trim s = [] \<longleftrightarrow> go_TrimSpace s = []"
  by (simp add: lower_trim_def go_ToLower_def)

definition blank :: "string \<Rightarrow> bool" where
  "blank s \<longleftrightarrow> s \<noteq> [] \<and> go_TrimSpace s = []"

lemma normalize_string_idem:
  assumes "\<not> blank s" "go_TrimSpace d \<noteq> []"
  shows "lower_trim (or_default (lower_trim (or_default s d)) d) = lower_trim (or_default s d)"
proof -
  have "lower_trim (or_default s d) \<noteq> []" using assms by (auto simp: lower_trim_Nil or_default_def blank_def)
  then show ?thesis by (simp add: or_default_def [of "lower_trim (or_default s d)"] lower_trim_idem)
qed

lemma normalize_target_idem: "normalize_target (normalize_target t) = normalize_target t"
proof -
  have "go_TrimSpace ''smoke'' \<noteq> []" by code_simp
  then have "normalize_target t \<noteq> []" by (simp add: normalize_target_def lower_trim_Nil)
  moreover have trim: "go_TrimSpace (normalize_target t) = normalize_target t"
    by (simp add: normalize_target_def lower_trim_def trim_lower trim_idem)
  ultimately show ?thesis
    unfolding normalize_target_def [of "normalize_target t"] trim
    by (simp add: normalize_target_def lower_trim_idem)
qed

lemma normalize_local_idem: "normalize_local env (normalize_local env ids old) old = normalize_local env ids old"
proof -
  have f: "filterNodeIDs (filterNodeIDs xs old) old = filterNodeIDs xs old" for xs
    by (simp add: filterNodeIDs_eq inf.assoc)
  have s: "filterNodeIDs (sortedUnique old) old = sortedUnique old" by (simp add: filterNodeIDs_eq sortedUnique_eq)
  have e: "parseLocalNodeIDsEnv env [] = []" by (simp add: parseLocalNodeIDsEnv_def filterNodeIDs_def Let_def)
  define r where "r = normalize_local env ids old"
  have fr: "filterNodeIDs r old = r" unfolding r_def normalize_local_def Let_def using f s by simp
  show ?thesis
  proof (cases "old = []")
    case True
    then have "r = []" using fr by (simp add: filterNodeIDs_def)
    then show ?thesis unfolding r_def [symmetric] using True e by (simp add: normalize_local_def filterNodeIDs_def)
  next
    case False
    then have "r \<noteq> []" by (simp add: r_def normalize_local_def Let_def)
    then show ?thesis unfolding r_def [symmetric] using fr by (simp add: normalize_local_def [of env r])
  qed
qed

text \<open>Normalisation is idempotent on every configuration whose mode, profile and transport names
  are not made of white space only.\<close>

theorem normalize_idempotent:
  assumes "\<not> blank (cfg_AgreementTransport c)" "\<not> blank (cfg_APVSSMode c)"
    and "\<not> blank (cfg_APVSSFullProofProfile c)" "\<not> blank (cfg_APVSSFallbackProfile c)"
    and "\<not> blank (cfg_AblationMode c)"
  shows "NormalizeConfig env (NormalizeConfig env c) = NormalizeConfig env c"
proof -
  have d: "go_TrimSpace ''tcp-distributed'' \<noteq> []" "go_TrimSpace APVSSModeACKFallback \<noteq> []"
    "go_TrimSpace APVSSFullProofExact \<noteq> []" "go_TrimSpace apvssFallbackFeldmanBatchProfile \<noteq> []"
    "go_TrimSpace ''none'' \<noteq> []" by code_simp+
  have nz: "nonzero_or (nonzero_or a x) (nonzero_or x (nonzero_or a x)) = nonzero_or a x" for a x
    by (simp add: nonzero_or_def)
  have nz': "nonzero_or (nonzero_or x y) y = nonzero_or x y" "positive_or (positive_or x 1) 1 = positive_or x 1"
    "or_default (or_default u v) v = or_default u v" for x y u v
    by (simp_all add: nonzero_or_def positive_or_def or_default_def)
  have pos: "0 < e \<Longrightarrow> positive_or (positive_or x e) e = positive_or x e" for x e
    by (simp add: positive_or_def)
  show ?thesis
    using normalize_string_idem [OF assms(1) d(1)] normalize_string_idem [OF assms(2) d(2)]
      normalize_string_idem [OF assms(3) d(3)] normalize_string_idem [OF assms(4) d(4)]
      normalize_string_idem [OF assms(5) d(5)]
    by (simp add: NormalizeConfig_def Let_def nz nz' pos normalize_target_idem normalize_local_idem)
qed

section \<open>Witnesses\<close>

definition sample_config :: Config where
  "sample_config = \<lparr> cfg_SID = ''s'', cfg_Epoch = 1, cfg_PreviousEpochStateDigest = [],
     cfg_OldCommittee = [0, 1, 2, 3], cfg_NewCommittee = [4, 5, 6, 7], cfg_FOld = 1, cfg_FNew = 1,
     cfg_OldFaults = 0, cfg_NewFaults = 0, cfg_CVProposerSampleSize = 2, cfg_CVValidatorSampleSize = 3,
     cfg_CVSamplingFailureTarget = [], cfg_Kappa = 0, cfg_WaitSPBCTimeout = 0, cfg_RouteSendTimeout = 0,
     cfg_SendRetryMax = 0, cfg_SendRetryBackoff = 0, cfg_AgreementTransport = [], cfg_AgreementBindHost = [],
     cfg_AgreementBasePort = 0, cfg_LocalNodeIDs = [0], cfg_APVSSMode = [], cfg_APVSSFullProofProfile = [],
     cfg_APVSSFallbackProfile = [], cfg_AllowExperimentalAPVSS = False, cfg_APVSSBenchmarkFallbackCount = 0,
     cfg_APVSSBenchmarkWaitAllACKs = False, cfg_ArtifactCacheDir = [], cfg_AblationMode = [],
     cfg_CommMetrics = False, cfg_StrictNetwork = False, cfg_CVPublicKeyDir = [], cfg_CVLocalSecretDir = [],
     cfg_CVLocalReceiverIDs = [] \<rparr>"

theorem normalize_idempotent_witness:
  "NormalizeConfig (\<lambda>_. []) (NormalizeConfig (\<lambda>_. []) sample_config) = NormalizeConfig (\<lambda>_. []) sample_config"
  by (rule normalize_idempotent) (simp_all add: sample_config_def blank_def)

text \<open>A mode made of white space only is not rejected but changes meaning: one normalisation turns
  it into the empty name, which no mode has, while validation, which normalises again, accepts the
  configuration as if the default mode had been named.\<close>

theorem blank_mode_passes_validation:
  "cfg_APVSSMode (NormalizeConfig (\<lambda>_. []) (sample_config\<lparr> cfg_APVSSMode := '' '' \<rparr>)) = [] \<and>
   ValidateConfig (\<lambda>_. []) (NormalizeConfig (\<lambda>_. []) (sample_config\<lparr> cfg_APVSSMode := '' '' \<rparr>)) = Some () \<and>
   ValidateConfig (\<lambda>_. []) (sample_config\<lparr> cfg_APVSSMode := '' '' \<rparr>) = None"
  by code_simp

lemma sample_params: "\<exists>p. cvDeriveV2Params (\<lambda>_. []) sample_config = Some p \<and> vp_oldFaults p = 1 \<and> vp_decisionThreshold p = 3"
proof -
  have "map_option (\<lambda>p. (vp_oldFaults p, vp_decisionThreshold p)) (cvDeriveV2Params (\<lambda>_. []) sample_config) = Some (1, 3)"
    by code_simp
  then show ?thesis by auto
qed

theorem derived_thresholds_safe_witness:
  "\<exists>p. cvDeriveV2Params (\<lambda>_. []) sample_config = Some p \<and>
    (\<exists>x. x \<in> {0, 1, 2} \<and> x \<in> {1, 2, 3} \<and> x \<notin> {1 :: int}) \<and>
    vp_recoveryThreshold p \<le> vp_apdbLockThreshold p - 1 \<and> 2 * vp_newFaults p + 1 \<le> vp_newShareThreshold p"
proof -
  obtain p where p: "cvDeriveV2Params (\<lambda>_. []) sample_config = Some p" "vp_oldFaults p = 1"
    "vp_decisionThreshold p = 3" using sample_params by blast
  show ?thesis
    using derived_thresholds_safe [OF p(1), of "{1}" "{0, 1, 2}" "{1, 2, 3}"] p
    by (simp add: sample_config_def)
qed

theorem resolved_sampling_within_budget_witness:
  "\<exists>rep. ResolveCVV2Sampling 4 1 ''4e-1'' 0 0 = Some rep \<and> rep_TotalFailureBudget rep = Some (2 / 5) \<and>
    all_faulty 4 1 (rep_ProposerSampleSize rep) \<le> 1 / 5 \<and> majority_fails 4 1 (rep_ValidatorSampleSize rep) \<le> 1 / 5 \<and>
    rep_PerEpochCombinedSamplingFailureBound rep \<le> 2 / 5"
proof -
  have "map_option rep_TotalFailureBudget (ResolveCVV2Sampling 4 1 ''4e-1'' 0 0) = Some (Some (2 / 5))"
    by code_simp
  then obtain rep where "ResolveCVV2Sampling 4 1 ''4e-1'' 0 0 = Some rep" "rep_TotalFailureBudget rep = Some (2 / 5)"
    by auto
  then show ?thesis using resolved_sampling_within_budget [of 4 1 "''4e-1''" 0 0 rep "2 / 5"] by auto
qed

end
