(* ===== verification/Pool.thy ===== *)
theory Pool
  imports Coin Config
begin

text \<open>
  Component references, proposer pools and their certificates: \<^verbatim>\<open>src/core/cv_sapvss_pool.go\<close>.  A pool
  lists \<open>poolSize\<close> component references in increasing dealer order under one context; its digest
  commits to all of them.  The last section is the slot state machine that keeps a node from signing
  two pools of one proposer.
\<close>

section \<open>Domains and data\<close>

definition cvComponentHeaderV2Domain :: string where
  [dom_defs]: "cvComponentHeaderV2Domain = ''ARL-CV-sAPVSS/v2-scalar-group/component-header''"

definition cvComponentRefV2Domain :: string where
  [dom_defs]: "cvComponentRefV2Domain = ''ARL-CV-sAPVSS/v2-scalar-group/component-ref''"

definition cvPoolV2Domain :: string where
  [dom_defs]: "cvPoolV2Domain = ''ARL-CV-sAPVSS/v2-scalar-group/pool''"

definition cvPoolDigestV2Domain :: string where
  [dom_defs]: "cvPoolDigestV2Domain = ''ARL-CV-sAPVSS/v2-scalar-group/pool-digest''"

definition cvPoolCertV2Domain :: string where
  [dom_defs]: "cvPoolCertV2Domain = ''ARL-CV-sAPVSS/v2-scalar-group/pool-cert''"

definition cvPoolCertShareV2Domain :: string where
  [dom_defs]: "cvPoolCertShareV2Domain = ''ARL-CV-sAPVSS/v2-scalar-group/pool-cert-share-wire''"

record cvComponentHeaderV2 =
  ch_ContextDigest :: bytes
  ch_DealerID :: int
  ch_PayloadDigest :: bytes
  ch_Instance :: bytes
  ch_Root :: bytes

record cvComponentRefV2 =
  cr_Header :: cvComponentHeaderV2
  cr_Lock :: cvAPDBLockV2

record cvPoolV2 =
  pl_ContextDigest :: bytes
  pl_ProposerID :: int
  pl_Components :: "cvComponentRefV2 list"
  pl_Digest :: bytes

record cvPoolCertificateV2 =
  pc_PoolDigest :: bytes
  pc_Certificate :: bytes

record cvPoolCertificateShareV2 =
  pcs_ProposerID :: int
  pcs_PoolDigest :: bytes
  pcs_Signature :: bytes

section \<open>Certificate shares\<close>

definition cvPoolCertificateShareV2CanonicalBytes :: "cvPoolCertificateShareV2 \<Rightarrow> bytes option" where
  [enc_defs]: "cvPoolCertificateShareV2CanonicalBytes share = do {
     require (\<not> (pcs_ProposerID share < 0 \<or> length (pcs_PoolDigest share) \<noteq> 32 \<or> pcs_Signature share = [] \<or>
       length (pcs_Signature share) > cvMaxComponentSignatureBytes));
     Some (dropped (cvWriteBytes (str_bytes cvPoolCertShareV2Domain)) @
           cvWriteUint64 (u64 (pcs_ProposerID share)) @
           dropped (cvWriteBytes (pcs_PoolDigest share)) @
           dropped (cvWriteBytes (pcs_Signature share)))
   }"

definition cvDecodePoolCertificateShareV2 :: "bytes \<Rightarrow> cvPoolCertificateShareV2 option" where
  [dec_defs]: "cvDecodePoolCertificateShareV2 wire = do {
     (domain, r) \<leftarrow> cvReadBytes (length cvPoolCertShareV2Domain) (newCVWireReader wire);
     require (domain = str_bytes cvPoolCertShareV2Domain);
     (proposer, r) \<leftarrow> cvReadUint64 r;
     require (\<not> proposer > max_int);
     (digest, r) \<leftarrow> cvReadBytes 32 r;
     require (length digest = 32);
     (signature, r) \<leftarrow> cvReadBytes cvMaxComponentSignatureBytes r;
     require (\<not> (signature = [] \<or> r \<noteq> []));
     let share = \<lparr> pcs_ProposerID = int proposer, pcs_PoolDigest = digest, pcs_Signature = signature \<rparr>;
     canonical \<leftarrow> cvPoolCertificateShareV2CanonicalBytes share;
     require (canonical = wire);
     Some share
   }"

section \<open>Component headers and references\<close>

definition cvComponentInstanceDigestV2 :: "bytes \<Rightarrow> int \<Rightarrow> bytes option" where
  "cvComponentInstanceDigestV2 contextDigest dealerID = do {
     require (\<not> (length contextDigest \<noteq> 32 \<or> dealerID < 0));
     let dealer = cvWriteUint64 (u64 dealerID);
     cvAPDBInstanceDigestV2 ''COMP'' [contextDigest, dealer]
   }"

definition cvComponentHeaderV2CanonicalBytes :: "cvComponentHeaderV2 \<Rightarrow> bytes option" where
  [enc_defs]: "cvComponentHeaderV2CanonicalBytes header = do {
     require (\<not> (length (ch_ContextDigest header) \<noteq> 32 \<or> ch_DealerID header < 0 \<or>
       length (ch_PayloadDigest header) \<noteq> 32 \<or> length (ch_Instance header) \<noteq> 32 \<or>
       length (ch_Root header) \<noteq> 32));
     wantInstance \<leftarrow> cvComponentInstanceDigestV2 (ch_ContextDigest header) (ch_DealerID header);
     require (wantInstance = ch_Instance header);
     Some (dropped (cvWriteBytes (str_bytes cvComponentHeaderV2Domain)) @
           dropped (cvWriteBytes (ch_ContextDigest header)) @
           cvWriteUint64 (u64 (ch_DealerID header)) @
           dropped (cvWriteBytes (ch_PayloadDigest header)) @
           dropped (cvWriteBytes (ch_Instance header)) @
           dropped (cvWriteBytes (ch_Root header)))
   }"

definition cvDecodeComponentHeaderV2 :: "bytes \<Rightarrow> cvComponentHeaderV2 option" where
  [dec_defs]: "cvDecodeComponentHeaderV2 wire = do {
     (domain, r) \<leftarrow> cvReadBytes (length cvComponentHeaderV2Domain) (newCVWireReader wire);
     require (domain = str_bytes cvComponentHeaderV2Domain);
     (ctx, r) \<leftarrow> cvReadBytes 32 r;
     require (length ctx = 32);
     (dealer, r) \<leftarrow> cvReadUint64 r;
     require (\<not> dealer > max_int);
     (payload, r) \<leftarrow> cvReadBytes 32 r;
     require (length payload = 32);
     (inst, r) \<leftarrow> cvReadBytes 32 r;
     require (length inst = 32);
     (root, r) \<leftarrow> cvReadBytes 32 r;
     require (\<not> (length root \<noteq> 32 \<or> r \<noteq> []));
     let header = \<lparr> ch_ContextDigest = ctx, ch_DealerID = int dealer, ch_PayloadDigest = payload,
       ch_Instance = inst, ch_Root = root \<rparr>;
     canonical \<leftarrow> cvComponentHeaderV2CanonicalBytes header;
     require (canonical = wire);
     Some header
   }"

definition cvComponentRefV2CanonicalBytes :: "cvComponentRefV2 \<Rightarrow> bytes option" where
  [enc_defs]: "cvComponentRefV2CanonicalBytes ref = do {
     headerWire \<leftarrow> cvComponentHeaderV2CanonicalBytes (cr_Header ref);
     lockWire \<leftarrow> cvAPDBLockV2CanonicalBytes (cr_Lock ref);
     require (\<not> (ch_Instance (cr_Header ref) \<noteq> lk_InstanceDigest (cr_Lock ref) \<or>
       ch_Root (cr_Header ref) \<noteq> lk_Root (cr_Lock ref)));
     Some (dropped (cvWriteBytes (str_bytes cvComponentRefV2Domain)) @
           dropped (cvWriteBytes headerWire) @ dropped (cvWriteBytes lockWire))
   }"

definition cvDecodeComponentRefV2 :: "bytes \<Rightarrow> cvComponentRefV2 option" where
  [dec_defs]: "cvDecodeComponentRefV2 wire = do {
     (domain, r) \<leftarrow> cvReadBytes (length cvComponentRefV2Domain) (newCVWireReader wire);
     require (domain = str_bytes cvComponentRefV2Domain);
     (headerWire, r) \<leftarrow> cvReadBytes cvMaxNetworkPayloadBytes r;
     header \<leftarrow> cvDecodeComponentHeaderV2 headerWire;
     (lockWire, r) \<leftarrow> cvReadBytes (cvMaxComponentSignatureBytes + 256) r;
     require (r = []);
     lock \<leftarrow> cvDecodeAPDBLockV2 lockWire;
     let ref = \<lparr> cr_Header = header, cr_Lock = lock \<rparr>;
     canonical \<leftarrow> cvComponentRefV2CanonicalBytes ref;
     require (canonical = wire);
     Some ref
   }"

text \<open>The signer is optional here: a \<^verbatim>\<open>nil\<close> signer skips the lock certificate.\<close>

definition cvValidateComponentRefV2 ::
  "('g, 'h, 'f) bls \<Rightarrow> cvComponentRefV2 \<Rightarrow> ('g, 'h, 'f) tblsThresholdSigner option \<Rightarrow> bool" where
  "cvValidateComponentRefV2 B ref apdbSigner \<longleftrightarrow>
     cvComponentRefV2CanonicalBytes ref \<noteq> None \<and>
     (case apdbSigner of None \<Rightarrow> True | Some signer \<Rightarrow> cvVerifyAPDBLockV2 B (cr_Lock ref) signer)"

section \<open>Pools\<close>

text \<open>The loop over the components, with \<^verbatim>\<open>lastDealer\<close>.\<close>

fun pool_refs :: "bytes \<Rightarrow> int \<Rightarrow> cvComponentRefV2 list \<Rightarrow> bytes option" where
  "pool_refs ctx lastDealer [] = Some []"
| "pool_refs ctx lastDealer (ref # refs) =
     (if ch_DealerID (cr_Header ref) \<le> lastDealer \<or> ch_ContextDigest (cr_Header ref) \<noteq> ctx then None
      else do {
        refWire \<leftarrow> cvComponentRefV2CanonicalBytes ref;
        rest \<leftarrow> pool_refs ctx (ch_DealerID (cr_Header ref)) refs;
        Some (dropped (cvWriteBytes refWire) @ rest)
      })"

definition pool_unsigned :: "bytes \<Rightarrow> int \<Rightarrow> cvComponentRefV2 list \<Rightarrow> bytes option" where
  "pool_unsigned ctx proposerID components = do {
     components_len \<leftarrow> cvWriteUint32 (int (length components));
     refs \<leftarrow> pool_refs ctx (- 1) components;
     Some (dropped (cvWriteBytes (str_bytes cvPoolV2Domain)) @ dropped (cvWriteBytes ctx) @
           cvWriteUint64 (u64 proposerID) @ components_len @ refs)
   }"

definition cvPoolV2CanonicalBytes :: "cvPoolV2 \<Rightarrow> cvV2Params \<Rightarrow> bytes option" where
  [enc_defs]: "cvPoolV2CanonicalBytes pool params = do {
     require (\<not> (length (pl_ContextDigest pool) \<noteq> 32 \<or> pl_ProposerID pool < 0 \<or>
       int (length (pl_Components pool)) \<noteq> vp_poolSize params \<or> length (pl_Digest pool) \<noteq> 32));
     unsigned \<leftarrow> pool_unsigned (pl_ContextDigest pool) (pl_ProposerID pool) (pl_Components pool);
     require (pl_Digest pool = hashBytes [str_bytes cvPoolDigestV2Domain, unsigned]);
     Some (dropped (cvWriteBytes unsigned) @ dropped (cvWriteBytes (pl_Digest pool)))
   }"

definition cvBuildPoolV2 :: "bytes \<Rightarrow> int \<Rightarrow> cvComponentRefV2 list \<Rightarrow> cvV2Params \<Rightarrow> cvPoolV2 option" where
  "cvBuildPoolV2 contextDigest proposerID components params = do {
     require (\<not> (length contextDigest \<noteq> 32 \<or> int (length components) \<noteq> vp_poolSize params));
     unsigned \<leftarrow> pool_unsigned contextDigest proposerID components;
     let pool = \<lparr> pl_ContextDigest = contextDigest, pl_ProposerID = proposerID, pl_Components = components,
       pl_Digest = hashBytes [str_bytes cvPoolDigestV2Domain, unsigned] \<rparr>;
     _ \<leftarrow> cvPoolV2CanonicalBytes pool params;
     Some pool
   }"

definition cvReadPoolRef :: "cvWireReader \<Rightarrow> (cvComponentRefV2 \<times> cvWireReader) option" where
  "cvReadPoolRef r = do {
     (refWire, r) \<leftarrow> cvReadBytes cvMaxNetworkPayloadBytes r;
     ref \<leftarrow> cvDecodeComponentRefV2 refWire;
     Some (ref, r)
   }"

definition cvDecodePoolV2 :: "bytes \<Rightarrow> cvV2Params \<Rightarrow> cvPoolV2 option" where
  [dec_defs]: "cvDecodePoolV2 wire params = do {
     (unsignedWire, r) \<leftarrow> cvReadBytes cvMaxNetworkPayloadBytes (newCVWireReader wire);
     (digest, r) \<leftarrow> cvReadBytes 32 r;
     require (\<not> (length digest \<noteq> 32 \<or> r \<noteq> []));
     (domain, u) \<leftarrow> cvReadBytes (length cvPoolV2Domain) (newCVWireReader unsignedWire);
     require (domain = str_bytes cvPoolV2Domain);
     (ctx, u) \<leftarrow> cvReadBytes 32 u;
     require (length ctx = 32);
     (proposer, u) \<leftarrow> cvReadUint64 u;
     require (\<not> proposer > max_int);
     (cnt, u) \<leftarrow> cvReadUint32 u;
     require (int cnt = vp_poolSize params);
     (components, u) \<leftarrow> cvReadList cvReadPoolRef cnt u;
     require (u = []);
     let pool = \<lparr> pl_ContextDigest = ctx, pl_ProposerID = int proposer, pl_Components = components,
       pl_Digest = digest \<rparr>;
     canonical \<leftarrow> cvPoolV2CanonicalBytes pool params;
     require (canonical = wire);
     Some pool
   }"

section \<open>Pool certificates\<close>

definition cvPoolCertificateV2CanonicalBytes :: "cvPoolCertificateV2 \<Rightarrow> bytes option" where
  [enc_defs]: "cvPoolCertificateV2CanonicalBytes certificate = do {
     require (\<not> (length (pc_PoolDigest certificate) \<noteq> 32 \<or> pc_Certificate certificate = [] \<or>
       length (pc_Certificate certificate) > cvMaxComponentSignatureBytes));
     Some (dropped (cvWriteBytes (str_bytes cvPoolCertV2Domain)) @
           dropped (cvWriteBytes (pc_PoolDigest certificate)) @
           dropped (cvWriteBytes (pc_Certificate certificate)))
   }"

definition cvDecodePoolCertificateV2 :: "bytes \<Rightarrow> cvPoolCertificateV2 option" where
  [dec_defs]: "cvDecodePoolCertificateV2 wire = do {
     (domain, r) \<leftarrow> cvReadBytes (length cvPoolCertV2Domain) (newCVWireReader wire);
     require (domain = str_bytes cvPoolCertV2Domain);
     (digest, r) \<leftarrow> cvReadBytes 32 r;
     require (length digest = 32);
     (certificateWire, r) \<leftarrow> cvReadBytes cvMaxComponentSignatureBytes r;
     require (\<not> (certificateWire = [] \<or> r \<noteq> []));
     let certificate = \<lparr> pc_PoolDigest = digest, pc_Certificate = certificateWire \<rparr>;
     canonical \<leftarrow> cvPoolCertificateV2CanonicalBytes certificate;
     require (canonical = wire);
     Some certificate
   }"

definition cvPoolCertificateStatementV2 :: "bytes \<Rightarrow> int \<Rightarrow> bytes \<Rightarrow> bytes option" where
  "cvPoolCertificateStatementV2 contextDigest proposerID poolDigest = do {
     require (\<not> (length contextDigest \<noteq> 32 \<or> proposerID < 0 \<or> length poolDigest \<noteq> 32));
     Some (hashBytes [str_bytes cvPoolCertV2Domain,
       dropped (cvWriteBytes contextDigest) @ cvWriteUint64 (u64 proposerID) @ dropped (cvWriteBytes poolDigest)])
   }"

definition cvVerifyPoolCertificateV2 ::
  "('g, 'h, 'f) bls \<Rightarrow> cvPoolV2 \<Rightarrow> cvPoolCertificateV2 \<Rightarrow> ('g, 'h, 'f) tblsThresholdSigner \<Rightarrow> bool" where
  "cvVerifyPoolCertificateV2 B pool certificate controlSigner \<longleftrightarrow>
     \<not> (\<not> cvV2SignerHasRole controlSigner cvV2RoleControl \<or> pl_Digest pool \<noteq> pc_PoolDigest certificate) \<and>
     (case cvPoolCertificateStatementV2 (pl_ContextDigest pool) (pl_ProposerID pool) (pl_Digest pool) of
        None \<Rightarrow> False
      | Some statement \<Rightarrow> VerifyRecovered B controlSigner cvPoolCertV2Domain statement (pc_Certificate certificate))"

section \<open>Proposer slots\<close>

record cvPoolSlotStateV2 =
  ps_poolDigest :: bytes
  ps_poolSeen :: bool
  ps_signed :: bool
  ps_certSeen :: bool

definition observePool :: "cvPoolSlotStateV2 \<Rightarrow> cvPoolV2 \<Rightarrow> cvPoolSlotStateV2 option" where
  "observePool state pool = do {
     require (length (pl_Digest pool) = 32);
     require (\<not> (ps_poolSeen state \<and> ps_poolDigest state \<noteq> pl_Digest pool));
     Some (if \<not> ps_poolSeen state then state\<lparr> ps_poolSeen := True, ps_poolDigest := pl_Digest pool \<rparr> else state)
   }"

definition markSigned :: "cvPoolSlotStateV2 \<Rightarrow> bytes \<Rightarrow> cvPoolSlotStateV2 option" where
  "markSigned state poolDigest = do {
     require (\<not> (\<not> ps_poolSeen state \<or> ps_poolDigest state \<noteq> poolDigest \<or> ps_signed state));
     Some (state\<lparr> ps_signed := True \<rparr>)
   }"

definition observeCertificate :: "cvPoolSlotStateV2 \<Rightarrow> cvPoolCertificateV2 \<Rightarrow> cvPoolSlotStateV2 option" where
  "observeCertificate state certificate = do {
     require (\<not> (\<not> ps_poolSeen state \<or> ps_poolDigest state \<noteq> pc_PoolDigest certificate));
     Some (state\<lparr> ps_certSeen := True \<rparr>)
   }"

section \<open>The codecs are canonical\<close>

lemma pool_domain_lengths [simp]:
  "length cvComponentHeaderV2Domain < 4294967296" "length cvComponentRefV2Domain < 4294967296"
  "length cvPoolV2Domain < 4294967296" "length cvPoolCertV2Domain < 4294967296"
  "length cvPoolCertShareV2Domain < 4294967296"
  by (simp_all add: dom_defs)

lemma payload_limit [simp]: "n \<le> cvMaxNetworkPayloadBytes \<Longrightarrow> n < 4294967296"
  by (simp add: wire_limits)

lemma node_id_range [simp]:
  "0 \<le> i \<Longrightarrow> int64 i \<Longrightarrow> nat i < 18446744073709551616 \<and> \<not> max_int < nat i"
  by (auto simp: int64_def max_int_def nat_less_iff)

lemma node_id_int64: "\<not> max_int < n \<Longrightarrow> int64 (int n)"
  by (simp add: int64_def max_int_def)

interpretation pool_cert_codec: wire_codec cvPoolCertificateV2CanonicalBytes cvDecodePoolCertificateV2 "\<lambda>_. True"
proof
  fix c w
  assume "cvPoolCertificateV2CanonicalBytes c = Some w"
  then show "cvDecodePoolCertificateV2 w = Some c"
    by (cases c) (auto simp: cvPoolCertificateV2CanonicalBytes_def cvDecodePoolCertificateV2_def wire_simps split: if_splits)
qed (auto simp: cvDecodePoolCertificateV2_def bind_eq_Some_conv Let_def split: if_splits)

interpretation pool_share_codec: wire_codec cvPoolCertificateShareV2CanonicalBytes cvDecodePoolCertificateShareV2
  "\<lambda>s. int64 (pcs_ProposerID s)"
proof
  fix s w
  assume "int64 (pcs_ProposerID s)" "cvPoolCertificateShareV2CanonicalBytes s = Some w"
  then show "cvDecodePoolCertificateShareV2 w = Some s"
    by (cases s) (auto simp: cvPoolCertificateShareV2CanonicalBytes_def cvDecodePoolCertificateShareV2_def wire_simps
      split: if_splits)
qed (auto simp: cvDecodePoolCertificateShareV2_def bind_eq_Some_conv Let_def node_id_int64 split: if_splits)

interpretation header_codec: wire_codec cvComponentHeaderV2CanonicalBytes cvDecodeComponentHeaderV2
  "\<lambda>h. int64 (ch_DealerID h)"
proof
  fix h w
  assume i: "int64 (ch_DealerID h)" and enc: "cvComponentHeaderV2CanonicalBytes h = Some w"
  from enc have len: "length (ch_ContextDigest h) = 32" "0 \<le> ch_DealerID h" "length (ch_PayloadDigest h) = 32"
    "length (ch_Instance h) = 32" "length (ch_Root h) = 32"
    by (auto simp: cvComponentHeaderV2CanonicalBytes_def split: if_splits)
  have w: "w = put_be 4 (length cvComponentHeaderV2Domain) @ str_bytes cvComponentHeaderV2Domain @
      put_be 4 32 @ ch_ContextDigest h @ cvWriteUint64 (nat (ch_DealerID h)) @ put_be 4 32 @ ch_PayloadDigest h @
      put_be 4 32 @ ch_Instance h @ put_be 4 32 @ ch_Root h"
    using enc len i by (auto simp: cvComponentHeaderV2CanonicalBytes_def bind_eq_Some_conv split: if_splits)
  have eta: "\<lparr> ch_ContextDigest = ch_ContextDigest h, ch_DealerID = ch_DealerID h,
      ch_PayloadDigest = ch_PayloadDigest h, ch_Instance = ch_Instance h, ch_Root = ch_Root h \<rparr> = h" by simp
  show "cvDecodeComponentHeaderV2 w = Some h"
    using enc unfolding cvDecodeComponentHeaderV2_def w using len i by (simp add: wire_simps eta)
qed (auto simp: cvDecodeComponentHeaderV2_def bind_eq_Some_conv Let_def node_id_int64 split: if_splits)

lemma header_wire_length:
  "cvComponentHeaderV2CanonicalBytes h = Some w \<Longrightarrow> length w \<le> 256"
  by (auto simp: cvComponentHeaderV2CanonicalBytes_def bind_eq_Some_conv dom_defs split: if_splits)

lemma lock_wire_length:
  "cvAPDBLockV2CanonicalBytes l = Some w \<Longrightarrow> length w \<le> cvMaxComponentSignatureBytes + 256"
  by (auto simp: cvAPDBLockV2CanonicalBytes_def dom_defs split: if_splits)

lemma ref_limits:
  "n \<le> 256 \<Longrightarrow> n \<le> cvMaxNetworkPayloadBytes" "n \<le> 256 \<Longrightarrow> n < 4294967296"
  "n \<le> cvMaxComponentSignatureBytes + 256 \<Longrightarrow> n < 4294967296"
  by (auto simp: wire_limits)

interpretation ref_codec: wire_codec cvComponentRefV2CanonicalBytes cvDecodeComponentRefV2
  "\<lambda>ref. int64 (ch_DealerID (cr_Header ref))"
proof
  fix ref w
  assume i: "int64 (ch_DealerID (cr_Header ref))" and enc: "cvComponentRefV2CanonicalBytes ref = Some w"
  from enc obtain hw lw where hw: "cvComponentHeaderV2CanonicalBytes (cr_Header ref) = Some hw"
    and lw: "cvAPDBLockV2CanonicalBytes (cr_Lock ref) = Some lw"
    and w: "w = dropped (cvWriteBytes (str_bytes cvComponentRefV2Domain)) @
        dropped (cvWriteBytes hw) @ dropped (cvWriteBytes lw)"
    by (auto simp: cvComponentRefV2CanonicalBytes_def bind_eq_Some_conv split: if_splits)
  note h = ref_limits(1,2) [OF header_wire_length [OF hw]] and l = ref_limits(3) [OF lock_wire_length [OF lw]]
  have dh: "cvDecodeComponentHeaderV2 hw = Some (cr_Header ref)" using header_codec.decode_encode i hw by blast
  have dl: "cvDecodeAPDBLockV2 lw = Some (cr_Lock ref)" using lock_codec.decode_encode lw by blast
  have eta: "\<lparr> cr_Header = cr_Header ref, cr_Lock = cr_Lock ref \<rparr> = ref" by simp
  show "cvDecodeComponentRefV2 w = Some ref"
    using enc unfolding cvDecodeComponentRefV2_def
    by (simp add: w h l dh dl wire_simps lock_wire_length [OF lw] eta)
next
  fix ref w
  assume "cvDecodeComponentRefV2 w = Some ref"
  then show "int64 (ch_DealerID (cr_Header ref))"
    using header_codec.decode_wf by (auto simp: cvDecodeComponentRefV2_def bind_eq_Some_conv Let_def split: if_splits)
qed (auto simp: cvDecodeComponentRefV2_def bind_eq_Some_conv Let_def split: if_splits)

lemma ref_wire_length:
  assumes "cvComponentRefV2CanonicalBytes ref = Some w"
  shows "length w \<le> cvMaxNetworkPayloadBytes"
proof -
  obtain hw lw where hw: "cvComponentHeaderV2CanonicalBytes (cr_Header ref) = Some hw"
    and lw: "cvAPDBLockV2CanonicalBytes (cr_Lock ref) = Some lw"
    and w: "w = dropped (cvWriteBytes (str_bytes cvComponentRefV2Domain)) @
        dropped (cvWriteBytes hw) @ dropped (cvWriteBytes lw)"
    using assms by (auto simp: cvComponentRefV2CanonicalBytes_def bind_eq_Some_conv split: if_splits)
  show ?thesis
    using header_wire_length [OF hw] lock_wire_length [OF lw]
      ref_limits(2) [OF header_wire_length [OF hw]] ref_limits(3) [OF lock_wire_length [OF lw]]
    by (simp add: w cvComponentRefV2Domain_def) (simp add: wire_limits)
qed

lemma pool_refs_Some:
  assumes "pool_refs ctx d refs = Some w"
  shows "w = concat (map (\<lambda>ref. dropped (cvWriteBytes (the (cvComponentRefV2CanonicalBytes ref)))) refs)"
    and "\<forall>ref \<in> set refs. cvComponentRefV2CanonicalBytes ref \<noteq> None \<and>
      ch_ContextDigest (cr_Header ref) = ctx \<and> d < ch_DealerID (cr_Header ref)"
    and "sorted_wrt (\<lambda>r r'. ch_DealerID (cr_Header r) < ch_DealerID (cr_Header r')) refs"
proof -
  have "w = concat (map (\<lambda>ref. dropped (cvWriteBytes (the (cvComponentRefV2CanonicalBytes ref)))) refs) \<and>
    (\<forall>ref \<in> set refs. cvComponentRefV2CanonicalBytes ref \<noteq> None \<and>
      ch_ContextDigest (cr_Header ref) = ctx \<and> d < ch_DealerID (cr_Header ref)) \<and>
    sorted_wrt (\<lambda>r r'. ch_DealerID (cr_Header r) < ch_DealerID (cr_Header r')) refs"
    using assms
  proof (induction refs arbitrary: d w)
    case (Cons ref refs)
    then obtain rw rest where h: "cvComponentRefV2CanonicalBytes ref = Some rw"
      "pool_refs ctx (ch_DealerID (cr_Header ref)) refs = Some rest" "w = dropped (cvWriteBytes rw) @ rest"
      "d < ch_DealerID (cr_Header ref)" "ch_ContextDigest (cr_Header ref) = ctx"
      by (auto simp: bind_eq_Some_conv split: if_splits)
    from Cons.IH [OF h(2)] h show ?case by (auto dest: order.strict_trans)
  qed simp
  then show "w = concat (map (\<lambda>ref. dropped (cvWriteBytes (the (cvComponentRefV2CanonicalBytes ref)))) refs)"
    "\<forall>ref \<in> set refs. cvComponentRefV2CanonicalBytes ref \<noteq> None \<and>
      ch_ContextDigest (cr_Header ref) = ctx \<and> d < ch_DealerID (cr_Header ref)"
    "sorted_wrt (\<lambda>r r'. ch_DealerID (cr_Header r) < ch_DealerID (cr_Header r')) refs" by blast+
qed

lemma read_pool_ref:
  assumes "cvComponentRefV2CanonicalBytes ref = Some w" "int64 (ch_DealerID (cr_Header ref))"
  shows "cvReadPoolRef (dropped (cvWriteBytes w) @ rest) = Some (ref, rest)"
  using ref_wire_length [OF assms(1)] ref_codec.decode_encode [OF assms(2,1)]
  by (simp add: cvReadPoolRef_def wire_simps)

text \<open>What the decoder can accept: ids in the range of a Go \<^verbatim>\<open>int\<close>, and a body within the network limit.\<close>

definition wf_pool :: "cvPoolV2 \<Rightarrow> bool" where
  "wf_pool pool \<longleftrightarrow> int64 (pl_ProposerID pool) \<and>
     list_all (\<lambda>ref. int64 (ch_DealerID (cr_Header ref))) (pl_Components pool) \<and>
     (\<forall>u. pool_unsigned (pl_ContextDigest pool) (pl_ProposerID pool) (pl_Components pool) = Some u \<longrightarrow>
        length u \<le> cvMaxNetworkPayloadBytes)"

lemma pool_unsigned_Some:
  assumes "pool_unsigned ctx p refs = Some u"
  shows "length refs < 4294967296"
    and "u = dropped (cvWriteBytes (str_bytes cvPoolV2Domain)) @ dropped (cvWriteBytes ctx) @
      cvWriteUint64 (u64 p) @ put_be 4 (length refs) @
      concat (map (\<lambda>ref. dropped (cvWriteBytes (the (cvComponentRefV2CanonicalBytes ref)))) refs)"
    and "pool_refs ctx (- 1) refs \<noteq> None"
  using assms pool_refs_Some(1) [of ctx "- 1" refs]
  by (auto simp: pool_unsigned_def bind_eq_Some_conv dest!: cvWriteUint32_SomeD)

lemma decode_pool_encode:
  assumes wf: "wf_pool pool" and enc: "cvPoolV2CanonicalBytes pool params = Some w"
  shows "cvDecodePoolV2 w params = Some pool"
proof -
  let ?refs = "pl_Components pool"
  obtain u where u: "pool_unsigned (pl_ContextDigest pool) (pl_ProposerID pool) ?refs = Some u"
    and g: "length (pl_ContextDigest pool) = 32" "0 \<le> pl_ProposerID pool" "int (length ?refs) = vp_poolSize params"
      "length (pl_Digest pool) = 32"
    and w: "w = dropped (cvWriteBytes u) @ dropped (cvWriteBytes (pl_Digest pool))"
    using enc by (auto simp: cvPoolV2CanonicalBytes_def bind_eq_Some_conv split: if_splits)
  have lim: "length u \<le> cvMaxNetworkPayloadBytes" "int64 (pl_ProposerID pool)"
    and ids: "\<forall>ref \<in> set ?refs. int64 (ch_DealerID (cr_Header ref))"
    using wf u by (auto simp: wf_pool_def list_all_iff)
  have some: "\<forall>ref \<in> set ?refs. cvComponentRefV2CanonicalBytes ref \<noteq> None"
    using pool_unsigned_Some(3) [OF u] pool_refs_Some(2) by (metis option.exhaust)
  have rd: "cvReadList cvReadPoolRef (length ?refs)
      (concat (map (\<lambda>ref. dropped (cvWriteBytes (the (cvComponentRefV2CanonicalBytes ref)))) ?refs)) = Some (?refs, [])"
    by (rule read_list_end) (use some ids read_pool_ref in auto)
  have eta: "\<lparr> pl_ContextDigest = pl_ContextDigest pool, pl_ProposerID = pl_ProposerID pool,
      pl_Components = ?refs, pl_Digest = pl_Digest pool \<rparr> = pool" by simp
  have uw: "u = put_be 4 (length cvPoolV2Domain) @ str_bytes cvPoolV2Domain @ put_be 4 32 @ pl_ContextDigest pool @
      cvWriteUint64 (nat (pl_ProposerID pool)) @ put_be 4 (length ?refs) @
      concat (map (\<lambda>ref. dropped (cvWriteBytes (the (cvComponentRefV2CanonicalBytes ref)))) ?refs)"
    using pool_unsigned_Some(2) [OF u] g lim by simp
  have outer: "cvReadBytes cvMaxNetworkPayloadBytes w = Some (u, put_be 4 32 @ pl_Digest pool)"
    unfolding w using lim g by (simp add: wire_simps)
  have cnt: "length ?refs < 4294967296" by (rule pool_unsigned_Some(1) [OF u])
  show ?thesis
    using enc unfolding cvDecodePoolV2_def newCVWireReader_id outer
    using g lim cnt by (simp add: wire_simps) (simp add: uw wire_simps rd eta)
qed

interpretation pool_codec:
  wire_codec "\<lambda>p. cvPoolV2CanonicalBytes p params" "\<lambda>w. cvDecodePoolV2 w params" wf_pool
  for params
proof
  fix pool w
  assume dec: "cvDecodePoolV2 w params = Some pool"
  then show "cvPoolV2CanonicalBytes pool params = Some w"
    unfolding cvDecodePoolV2_def Let_def by (auto simp: run_simps)
  from dec obtain r1 u digest r2 proposer r3 c1 cnt r4 c2 comps where
    rd: "cvReadBytes cvMaxNetworkPayloadBytes w = Some (u, r1)" "\<not> max_int < proposer"
      "cvReadList cvReadPoolRef cnt r4 = Some (comps, [])" "cvReadBytes 32 r1 \<noteq> None"
    and pool: "pl_ProposerID pool = int proposer" "pl_Components pool = comps"
    unfolding cvDecodePoolV2_def Let_def by (auto simp: run_simps)
  have ids: "\<forall>ref \<in> set comps. int64 (ch_DealerID (cr_Header ref))"
    by (rule cvReadList_SomeD(2) [OF rd(3)])
       (auto simp: cvReadPoolRef_def bind_eq_Some_conv dest: ref_codec.decode_wf)
  show "wf_pool pool" unfolding wf_pool_def
  proof (intro conjI allI impI)
    show "int64 (pl_ProposerID pool)" using rd(2) pool node_id_int64 by simp
    show "list_all (\<lambda>ref. int64 (ch_DealerID (cr_Header ref))) (pl_Components pool)"
      using ids pool by (simp add: list_all_iff)
    fix u' assume u': "pool_unsigned (pl_ContextDigest pool) (pl_ProposerID pool) (pl_Components pool) = Some u'"
    have enc: "w = dropped (cvWriteBytes u') @ dropped (cvWriteBytes (pl_Digest pool))" "length (pl_Digest pool) = 32"
      using \<open>cvPoolV2CanonicalBytes pool params = Some w\<close> u' by (auto simp: cvPoolV2CanonicalBytes_def run_simps)
    show "length u' \<le> cvMaxNetworkPayloadBytes"
    proof (cases "length u' < 4294967296")
      case True
      then have "put_be 4 (length u') @ u' @ put_be 4 32 @ pl_Digest pool = put_be 4 (length u) @ u @ r1"
        using enc cvReadBytes_SomeD(1) [OF rd(1)] by simp
      then have "u' = u" using put_be_prefix_inject [OF True cvReadBytes_SomeD(3) [OF rd(1)]] by metis
      then show ?thesis using cvReadBytes_SomeD(2) [OF rd(1)] by simp
    next
      case False
      then have "w = put_be 4 32 @ pl_Digest pool" using enc by (simp add: cvWriteBytes_oversize dropped_def)
      then have "cvReadBytes cvMaxNetworkPayloadBytes w = Some (pl_Digest pool, [])"
        using enc(2) by (simp add: wire_simps wire_limits)
      then show ?thesis using rd(1,4) by (simp add: cvReadBytes_def cvReadUint32_def)
    qed
  qed
qed (rule decode_pool_encode)

text \<open>A pool has exactly one wire form: the decoder accepts a byte string exactly when it is the
  canonical encoding of a pool whose ids fit a Go \<^verbatim>\<open>int\<close> and whose body fits the network limit.\<close>

theorem pool_wire_canonical:
  "cvDecodePoolV2 w params = Some pool \<longleftrightarrow> wf_pool pool \<and> cvPoolV2CanonicalBytes pool params = Some w"
  by (rule pool_codec.decode_iff)

lemma encoded_pool:
  assumes "cvPoolV2CanonicalBytes pool params = Some w"
  obtains u where "pool_unsigned (pl_ContextDigest pool) (pl_ProposerID pool) (pl_Components pool) = Some u"
    "pl_Digest pool = sha256 (str_bytes cvPoolDigestV2Domain @ u)" "length (pl_ContextDigest pool) = 32"
    "0 \<le> pl_ProposerID pool"
  using assms by (auto simp: cvPoolV2CanonicalBytes_def run_simps hashBytes_def)

text \<open>The message whose digest a pool carries.\<close>

definition pool_message :: "cvPoolV2 \<Rightarrow> bytes" where
  "pool_message pool = str_bytes cvPoolDigestV2Domain @
     (case pool_unsigned (pl_ContextDigest pool) (pl_ProposerID pool) (pl_Components pool) of
        None \<Rightarrow> [] | Some u \<Rightarrow> u)"

lemma pool_unsigned_inj:
  assumes "pool_unsigned ctx p refs = Some u" "pool_unsigned ctx' p' refs' = Some u"
    and "length ctx = 32" "length ctx' = 32" "0 \<le> p" "0 \<le> p'" "int64 p" "int64 p'"
    and "\<forall>ref \<in> set refs \<union> set refs'. int64 (ch_DealerID (cr_Header ref))"
  shows "ctx = ctx' \<and> p = p' \<and> refs = refs'"
proof -
  let ?wr = "\<lambda>refs. concat (map (\<lambda>ref. dropped (cvWriteBytes (the (cvComponentRefV2CanonicalBytes ref)))) refs)"
  note c = pool_unsigned_Some(1) [OF assms(1)] pool_unsigned_Some(1) [OF assms(2)]
  have eq: "cvWriteUint64 (nat p) @ put_be 4 (length refs) @ ?wr refs =
      cvWriteUint64 (nat p') @ put_be 4 (length refs') @ ?wr refs'" and ctx: "ctx = ctx'"
    using pool_unsigned_Some(2) [OF assms(1)] pool_unsigned_Some(2) [OF assms(2)] assms(3-8) by auto
  have "nat p = nat p'" and rest: "put_be 4 (length refs) @ ?wr refs = put_be 4 (length refs') @ ?wr refs'"
    using eq put_be_inject [of "nat p" 8 "nat p'"] assms(5-8) by (simp_all add: cvWriteUint64_def)
  then have p: "p = p'" using assms(5,6) by simp
  have len: "length refs = length refs'" and body: "?wr refs = ?wr refs'"
    using rest c put_be_inject [of "length refs" 4 "length refs'"] by simp_all
  have "cvReadList cvReadPoolRef (length rs) (?wr rs) = Some (rs, [])"
    if ok: "pool_refs k (- 1) rs \<noteq> None" "\<forall>ref \<in> set rs. int64 (ch_DealerID (cr_Header ref))" for k rs
  proof (rule read_list_end)
    fix ref rest assume "ref \<in> set rs"
    then obtain w where "cvComponentRefV2CanonicalBytes ref = Some w" "int64 (ch_DealerID (cr_Header ref))"
      using ok pool_refs_Some(2) [of k "- 1" rs] by fastforce
    then show "cvReadPoolRef (dropped (cvWriteBytes (the (cvComponentRefV2CanonicalBytes ref))) @ rest) = Some (ref, rest)"
      using read_pool_ref by simp
  qed simp
  note rd = this
  have A: "cvReadList cvReadPoolRef (length refs') (?wr refs') = Some (refs, [])"
    using rd [OF pool_unsigned_Some(3) [OF assms(1)]] assms(9) unfolding len body by blast
  have B: "cvReadList cvReadPoolRef (length refs') (?wr refs') = Some (refs', [])"
    using rd [OF pool_unsigned_Some(3) [OF assms(2)]] assms(9) by blast
  from A B have "refs = refs'" by (simp only: option.inject prod.inject)
  then show ?thesis using ctx p by blast
qed

text \<open>A pool digest commits to the pool: two well-formed pools with the same digest are the same
  pool, or their digest messages collide under SHA-256.\<close>

theorem pool_digest_binding:
  assumes "cvPoolV2CanonicalBytes pool1 params = Some w1" "cvPoolV2CanonicalBytes pool2 params = Some w2"
    and "wf_pool pool1" "wf_pool pool2" "pl_Digest pool1 = pl_Digest pool2"
  shows "pool1 = pool2 \<or>
    (pool_message pool1 \<noteq> pool_message pool2 \<and> sha256 (pool_message pool1) = sha256 (pool_message pool2))"
proof -
  obtain u1 where u1: "pool_unsigned (pl_ContextDigest pool1) (pl_ProposerID pool1) (pl_Components pool1) = Some u1"
    "pl_Digest pool1 = sha256 (str_bytes cvPoolDigestV2Domain @ u1)" "length (pl_ContextDigest pool1) = 32"
    "0 \<le> pl_ProposerID pool1" using encoded_pool [OF assms(1)] .
  obtain u2 where u2: "pool_unsigned (pl_ContextDigest pool2) (pl_ProposerID pool2) (pl_Components pool2) = Some u2"
    "pl_Digest pool2 = sha256 (str_bytes cvPoolDigestV2Domain @ u2)" "length (pl_ContextDigest pool2) = 32"
    "0 \<le> pl_ProposerID pool2" using encoded_pool [OF assms(2)] .
  have m: "pool_message pool1 = str_bytes cvPoolDigestV2Domain @ u1"
    "pool_message pool2 = str_bytes cvPoolDigestV2Domain @ u2" using u1 u2 by (simp_all add: pool_message_def)
  show ?thesis
  proof (cases "u1 = u2")
    case True
    have "pl_ContextDigest pool1 = pl_ContextDigest pool2 \<and> pl_ProposerID pool1 = pl_ProposerID pool2 \<and>
        pl_Components pool1 = pl_Components pool2"
      by (rule pool_unsigned_inj [OF u1(1) u2(1) [folded True]])
         (use u1 u2 assms(3,4) in \<open>auto simp: wf_pool_def list_all_iff\<close>)
    then show ?thesis using assms(5) by (cases pool1; cases pool2) simp
  next
    case False
    then show ?thesis using u1(2) u2(2) assms(5) m by simp
  qed
qed

section \<open>A slot signs one pool\<close>

datatype slot_event = ObservePool cvPoolV2 | MarkSigned bytes | ObserveCertificate cvPoolCertificateV2

definition slot_empty :: cvPoolSlotStateV2 where
  "slot_empty = \<lparr> ps_poolDigest = [], ps_poolSeen = False, ps_signed = False, ps_certSeen = False \<rparr>"

fun slot_apply :: "slot_event \<Rightarrow> cvPoolSlotStateV2 \<Rightarrow> cvPoolSlotStateV2 option" where
  "slot_apply (ObservePool pool) st = observePool st pool"
| "slot_apply (MarkSigned digest) st = markSigned st digest"
| "slot_apply (ObserveCertificate cert) st = observeCertificate st cert"

text \<open>A run of a slot: an event that is refused leaves the state as it was.  The last component is
  the list of the events that succeeded.\<close>

inductive slot_run :: "slot_event list \<Rightarrow> cvPoolSlotStateV2 \<Rightarrow> slot_event list \<Rightarrow> bool" where
  start: "slot_run [] slot_empty []"
| accept: "slot_run evs st acc \<Longrightarrow> slot_apply ev st = Some st' \<Longrightarrow> slot_run (evs @ [ev]) st' (acc @ [ev])"
| refuse: "slot_run evs st acc \<Longrightarrow> slot_apply ev st = None \<Longrightarrow> slot_run (evs @ [ev]) st acc"

definition signed_digests :: "slot_event list \<Rightarrow> bytes list" where
  "signed_digests evs = concat (map (\<lambda>ev. case ev of MarkSigned d \<Rightarrow> [d] | _ \<Rightarrow> []) evs)"

definition seen_digests :: "slot_event list \<Rightarrow> bytes set" where
  "seen_digests evs = {d. \<exists>ev \<in> set evs. case ev of ObservePool p \<Rightarrow> d = pl_Digest p
     | MarkSigned x \<Rightarrow> d = x | ObserveCertificate c \<Rightarrow> d = pc_PoolDigest c}"

lemmas slot_defs = observePool_def markSigned_def observeCertificate_def

lemma slot_invariant:
  assumes "slot_run evs st acc"
  shows "signed_digests acc = (if ps_signed st then [ps_poolDigest st] else [])"
    and "ps_signed st \<or> ps_certSeen st \<Longrightarrow> ps_poolSeen st"
    and "seen_digests acc \<subseteq> (if ps_poolSeen st then {ps_poolDigest st} else {})"
proof -
  have "signed_digests acc = (if ps_signed st then [ps_poolDigest st] else []) \<and>
    (ps_signed st \<or> ps_certSeen st \<longrightarrow> ps_poolSeen st) \<and>
    seen_digests acc \<subseteq> (if ps_poolSeen st then {ps_poolDigest st} else {})"
    using assms
  proof induction
    case start
    then show ?case by (simp add: slot_empty_def signed_digests_def seen_digests_def)
  next
    case (accept evs st acc ev st')
    have s: "signed_digests (acc @ [ev]) = signed_digests acc @ signed_digests [ev]"
      "seen_digests (acc @ [ev]) = seen_digests acc \<union> seen_digests [ev]"
      by (auto simp: signed_digests_def seen_digests_def)
    show ?case
    proof (cases ev)
      case (ObservePool p)
      then show ?thesis using accept s
        by (auto simp: slot_defs signed_digests_def seen_digests_def run_simps split: if_splits)
    next
      case (MarkSigned d)
      then show ?thesis using accept s
        by (auto simp: slot_defs signed_digests_def seen_digests_def run_simps split: if_splits)
    next
      case (ObserveCertificate c)
      then have st': "st' = st\<lparr> ps_certSeen := True \<rparr>" and d: "ps_poolSeen st" "ps_poolDigest st = pc_PoolDigest c"
        using accept.hyps(2) by (auto simp: slot_defs run_simps)
      have ev: "signed_digests [ev] = []" "seen_digests [ev] = {pc_PoolDigest c}"
        using ObserveCertificate by (auto simp: signed_digests_def seen_digests_def)
      show ?thesis using accept.IH unfolding s ev st' using d by auto
    qed
  next
    case (refuse evs st acc ev)
    then show ?case by simp
  qed
  then show "signed_digests acc = (if ps_signed st then [ps_poolDigest st] else [])"
    "ps_signed st \<or> ps_certSeen st \<Longrightarrow> ps_poolSeen st"
    "seen_digests acc \<subseteq> (if ps_poolSeen st then {ps_poolDigest st} else {})" by blast+
qed

text \<open>Whatever sequence of pools, certificates and signing attempts reaches a proposer slot, the
  slot signs at most once, and everything it accepts, signs or certifies is one and the same pool
  digest.\<close>

theorem slot_signs_one_pool:
  assumes "slot_run events st accepted"
  shows "length (signed_digests accepted) \<le> 1 \<and>
    (\<forall>d \<in> seen_digests accepted. \<forall>d' \<in> seen_digests accepted. d = d')"
  using slot_invariant [OF assms] by (auto split: if_splits)

theorem slot_signs_one_pool_witness:
  "\<exists>st accepted. slot_run [ObservePool \<lparr> pl_ContextDigest = [], pl_ProposerID = 1, pl_Components = [],
       pl_Digest = replicate 32 7 \<rparr>, MarkSigned (replicate 32 7), MarkSigned (replicate 32 7)] st accepted \<and>
     length (signed_digests accepted) \<le> 1 \<and>
     (\<forall>d \<in> seen_digests accepted. \<forall>d' \<in> seen_digests accepted. d = d')"
proof -
  let ?p = "\<lparr> pl_ContextDigest = [], pl_ProposerID = 1, pl_Components = [], pl_Digest = replicate 32 7 \<rparr>"
  let ?d = "replicate 32 7 :: bytes"
  let ?s1 = "slot_empty\<lparr> ps_poolSeen := True, ps_poolDigest := ?d \<rparr>"
  have "slot_run ([] @ [ObservePool ?p]) ?s1 ([] @ [ObservePool ?p])"
    by (rule accept [OF start]) (simp add: observePool_def slot_empty_def)
  then have "slot_run (([] @ [ObservePool ?p]) @ [MarkSigned ?d]) (?s1\<lparr> ps_signed := True \<rparr>)
      (([] @ [ObservePool ?p]) @ [MarkSigned ?d])"
    by (rule accept) (simp add: markSigned_def slot_empty_def)
  then have "slot_run ((([] @ [ObservePool ?p]) @ [MarkSigned ?d]) @ [MarkSigned ?d]) (?s1\<lparr> ps_signed := True \<rparr>)
      (([] @ [ObservePool ?p]) @ [MarkSigned ?d])"
    by (rule refuse) (simp add: markSigned_def)
  from this slot_signs_one_pool [OF this] show ?thesis by auto
qed

section \<open>What a built pool looks like\<close>

text \<open>A pool that was built encodes and its components are listed once each, in increasing dealer
  order, all under the pool's context.\<close>

theorem built_pool_well_formed:
  assumes "cvBuildPoolV2 ctx proposer components params = Some pool"
  shows "cvPoolV2CanonicalBytes pool params \<noteq> None \<and> pl_Components pool = components \<and>
    int (length components) = vp_poolSize params \<and>
    sorted_wrt (\<lambda>r r'. ch_DealerID (cr_Header r) < ch_DealerID (cr_Header r')) components \<and>
    (\<forall>ref \<in> set components. ch_ContextDigest (cr_Header ref) = ctx \<and> cvValidateComponentRefV2 B ref None)"
proof -
  obtain u where u: "pool_unsigned ctx proposer components = Some u"
    and r: "pl_Components pool = components" "cvPoolV2CanonicalBytes pool params \<noteq> None"
      "int (length components) = vp_poolSize params"
    using assms by (auto simp: cvBuildPoolV2_def run_simps Let_def)
  obtain w where w: "pool_refs ctx (- 1) components = Some w" using pool_unsigned_Some(3) [OF u] by blast
  show ?thesis using r pool_refs_Some(2,3) [OF w] by (auto simp: cvValidateComponentRefV2_def)
qed

end
