(* ===== verification/Leaf_Core.thy ===== *)
theory Leaf_Core
  imports Pool
begin

text \<open>
  The leaf context and the core proof of \<^verbatim>\<open>src/core/cv_sapvss_core_v2.go\<close>, with the point and scalar
  writers of \<^verbatim>\<open>src/core/cv_sapvss.go\<close> and \<^verbatim>\<open>src/core/cv_sapvss_proof.go\<close>.  The core proof shows that the
  dealer knows the openings of its Pedersen coefficient commitments; it is complete, and two
  accepting transcripts that differ in the challenge give the openings.
\<close>

section \<open>Points and scalars on the wire\<close>

definition cvWritePoint :: "('g, 'h, 'f) bls \<Rightarrow> 'g \<Rightarrow> bytes" where
  "cvWritePoint B point = bls_Bytes B point"

definition cvWriteScalar :: "('g, 'h, 'f) bls \<Rightarrow> 'f \<Rightarrow> bytes" where
  "cvWriteScalar B scalar = fr_Bytes B scalar"

definition cvWritePointVectorMode :: "('g, 'h, 'f) bls \<Rightarrow> 'g list \<Rightarrow> bool \<Rightarrow> bytes option" where
  "cvWritePointVectorMode B points validatePoints = do {
     header \<leftarrow> cvWriteUint32 (int (length points));
     require (\<not> (validatePoints \<and> list_ex (\<lambda>p. \<not> cvValidG1 B p True) points));
     Some (header @ concat (map (cvWritePoint B) points))
   }"

definition cvWriteScalarVector :: "('g, 'h, 'f) bls \<Rightarrow> 'f list \<Rightarrow> bytes option" where
  "cvWriteScalarVector B scalars = do {
     header \<leftarrow> cvWriteUint32 (int (length scalars));
     Some (header @ concat (map (cvWriteScalar B) scalars))
   }"

definition cvReadPoint :: "('g, 'h, 'f) bls \<Rightarrow> cvWireReader \<Rightarrow> ('g \<times> cvWireReader) option" where
  "cvReadPoint B r =
     (if length r < SizeOfG1AffineCompressed then None
      else case bls_SetBytes B (take SizeOfG1AffineCompressed r) of
        (point, None) \<Rightarrow> None
      | (point, Some consumed) \<Rightarrow>
          if consumed \<noteq> SizeOfG1AffineCompressed then None else Some (point, drop SizeOfG1AffineCompressed r))"

text \<open>\<^verbatim>\<open>cvCheckedProduct\<close> bounds the product by the largest Go \<^verbatim>\<open>int\<close>.\<close>

definition cvCheckedProduct :: "int \<Rightarrow> int \<Rightarrow> int option" where
  "cvCheckedProduct left right =
     (if left < 0 \<or> right < 0 \<or> (left \<noteq> 0 \<and> right > int max_int div left) then None else Some (left * right))"

definition cvRequireRemaining :: "cvWireReader \<Rightarrow> int \<Rightarrow> int \<Rightarrow> bool" where
  "cvRequireRemaining r n width =
     (case cvCheckedProduct n width of None \<Rightarrow> False | Some required \<Rightarrow> \<not> required > int (length r))"

definition cvReadExactCount :: "int \<Rightarrow> cvWireReader \<Rightarrow> cvWireReader option" where
  "cvReadExactCount expected r = do {
     (n, r) \<leftarrow> cvReadUint32 r;
     require (\<not> (expected < 0 \<or> int n \<noteq> expected));
     Some r
   }"

definition cvReadExactPointVector ::
  "('g, 'h, 'f) bls \<Rightarrow> int \<Rightarrow> cvWireReader \<Rightarrow> ('g list \<times> cvWireReader) option" where
  "cvReadExactPointVector B expected r = do {
     r \<leftarrow> cvReadExactCount expected r;
     require (cvRequireRemaining r expected (int SizeOfG1AffineCompressed));
     cvReadList (cvReadPoint B) (nat expected) r
   }"

definition cvPointTimes :: "('g, 'h, 'f) bls \<Rightarrow> 'g \<Rightarrow> 'f \<Rightarrow> 'g" where
  "cvPointTimes B point scalar = g1_smul B point scalar"

definition cvPointBaseAndTimes :: "('g, 'h, 'f) bls \<Rightarrow> 'f \<Rightarrow> 'g \<Rightarrow> 'f \<Rightarrow> 'g" where
  "cvPointBaseAndTimes B baseScalar point pointScalar = bls_JointBase B point baseScalar pointScalar"

definition cvPointSum :: "('g, 'h, 'f::field) bls \<Rightarrow> 'g list \<Rightarrow> 'g" where
  "cvPointSum B points = foldl (g1_add B) (g1_smul B (bls_genG1 B) 0) points"

definition cvTranscriptBytes :: "bytes list \<Rightarrow> bytes" where
  "cvTranscriptBytes parts = concat (map (\<lambda>part. dropped (cvWriteBytes part)) parts)"

definition cvHashToFr :: "('g, 'h, 'f) bls \<Rightarrow> string \<Rightarrow> bytes list \<Rightarrow> 'f option" where
  "cvHashToFr B domain parts = fr_Hash B (cvTranscriptBytes parts) (str_bytes domain)"

definition cvPedersenBase :: "('g, 'h, 'f) bls \<Rightarrow> 'g option" where
  "cvPedersenBase B = do {
     value \<leftarrow> bls_HashToG1 B (str_bytes ''ARL-CV-sAPVSS-Pedersen-H'') (str_bytes ''ARL-CV-sAPVSS-H2C'');
     require (\<not> (\<not> cvValidG1 B value False \<or> value = bls_genG1 B));
     Some value
   }"

definition cvChunkCount :: "cvChunkProfile \<Rightarrow> int option" where
  "cvChunkCount profile = map_option (\<lambda>(_, _, chunks). chunks) (cvProfile profile)"

section \<open>The leaf context\<close>

definition cvLeafContextWireDomainV2 :: string where
  [dom_defs]: "cvLeafContextWireDomainV2 = ''ARL-CV-sAPVSS/v2-scalar-group/leaf-context''"

definition cvCoreProofWireDomainV2 :: string where
  [dom_defs]: "cvCoreProofWireDomainV2 = ''ARL-CV-sAPVSS/v2-scalar-group/core-proof''"

definition cvCoreProofChallengeV2 :: string where
  [dom_defs]: "cvCoreProofChallengeV2 = ''ARL-CV-sAPVSS/v2-scalar-group/core-proof/challenge''"

definition cvLeafGroupID :: string where
  [dom_defs]: "cvLeafGroupID = ''BLS12-381-G1/fr''"

definition cvMaxNetworkEnvelopeSIDBytes :: nat where
  "cvMaxNetworkEnvelopeSIDBytes = 1048576"

record cvLeafContextV2 =
  lc_SID :: string
  lc_Epoch :: nat
  lc_OldRoster :: "int list"
  lc_NewRoster :: "int list"
  lc_ReceiverRegistryDigest :: bytes
  lc_SharingDegree :: int
  lc_Profile :: cvChunkProfile

definition cvValidateLeafContextV2 :: "cvLeafContextV2 \<Rightarrow> bool" where
  "cvValidateLeafContextV2 ctx \<longleftrightarrow>
     \<not> (lc_SID ctx = [] \<or> length (lc_SID ctx) > cvMaxNetworkEnvelopeSIDBytes \<or>
       lc_Epoch ctx = 0 \<or> length (lc_ReceiverRegistryDigest ctx) \<noteq> 32 \<or>
       lc_OldRoster ctx = [] \<or> lc_NewRoster ctx = [] \<or>
       \<not> equalInts (lc_OldRoster ctx) (sortedUnique (lc_OldRoster ctx)) \<or>
       \<not> equalInts (lc_NewRoster ctx) (sortedUnique (lc_NewRoster ctx)) \<or>
       lc_SharingDegree ctx < 0 \<or> lc_SharingDegree ctx \<ge> int (length (lc_NewRoster ctx))) \<and>
     cvProfile (lc_Profile ctx) \<noteq> None \<and>
     list_all (list_all (\<lambda>member. \<not> member < 0)) [lc_OldRoster ctx, lc_NewRoster ctx]"

definition cvLeafContextV2CanonicalBytes :: "cvLeafContextV2 \<Rightarrow> bytes option" where
  [enc_defs]: "cvLeafContextV2CanonicalBytes ctx = do {
     require (cvValidateLeafContextV2 ctx);
     old_len \<leftarrow> cvWriteUint32 (int (length (lc_OldRoster ctx)));
     new_len \<leftarrow> cvWriteUint32 (int (length (lc_NewRoster ctx)));
     degree \<leftarrow> cvWriteUint32 (lc_SharingDegree ctx);
     components \<leftarrow> cvWriteUint32 (cp_maxComponents (lc_Profile ctx));
     Some (dropped (cvWriteBytes (str_bytes cvLeafContextWireDomainV2)) @
           dropped (cvWriteBytes (str_bytes cvLeafGroupID)) @
           dropped (cvWriteBytes (str_bytes (lc_SID ctx))) @
           cvWriteUint64 (lc_Epoch ctx) @
           old_len @ concat (map (\<lambda>member. cvWriteUint64 (u64 member)) (lc_OldRoster ctx)) @
           new_len @ concat (map (\<lambda>member. cvWriteUint64 (u64 member)) (lc_NewRoster ctx)) @
           dropped (cvWriteBytes (lc_ReceiverRegistryDigest ctx)) @
           degree @ cvWriteUint64 (cp_chunkBits (lc_Profile ctx)) @ components)
   }"

definition cvReadMember :: "cvWireReader \<Rightarrow> (int \<times> cvWireReader) option" where
  "cvReadMember r = do {
     (member, r) \<leftarrow> cvReadUint64 r;
     require (\<not> member > max_int);
     Some (int member, r)
   }"

definition cvDecodeRosterV2 :: "cvWireReader \<Rightarrow> (int list \<times> cvWireReader) option" where
  "cvDecodeRosterV2 r = do {
     (n, r) \<leftarrow> cvReadUint32 r;
     require (\<not> (n \<le> 0 \<or> n > 2 ^ 20));
     cvReadList cvReadMember n r
   }"

definition cvDecodeLeafContextV2 :: "bytes \<Rightarrow> cvLeafContextV2 option" where
  [dec_defs]: "cvDecodeLeafContextV2 wire = do {
     (domain, r) \<leftarrow> cvReadBytes (length cvLeafContextWireDomainV2) (newCVWireReader wire);
     require (domain = str_bytes cvLeafContextWireDomainV2);
     (group, r) \<leftarrow> cvReadBytes (length cvLeafGroupID) r;
     require (group = str_bytes cvLeafGroupID);
     (sid, r) \<leftarrow> cvReadBytes cvMaxNetworkEnvelopeSIDBytes r;
     (epoch, r) \<leftarrow> cvReadUint64 r;
     (oldRoster, r) \<leftarrow> cvDecodeRosterV2 r;
     (newRoster, r) \<leftarrow> cvDecodeRosterV2 r;
     (registryDigest, r) \<leftarrow> cvReadBytes 32 r;
     require (length registryDigest = 32);
     (degree, r) \<leftarrow> cvReadUint32 r;
     (chunkBits, r) \<leftarrow> cvReadUint64 r;
     (maxComponents, r) \<leftarrow> cvReadUint32 r;
     require (r = []);
     let ctx = \<lparr> lc_SID = bytes_str sid, lc_Epoch = epoch, lc_OldRoster = oldRoster, lc_NewRoster = newRoster,
       lc_ReceiverRegistryDigest = registryDigest, lc_SharingDegree = int degree,
       lc_Profile = \<lparr> cp_chunkBits = chunkBits, cp_maxComponents = int maxComponents \<rparr> \<rparr>;
     canonical \<leftarrow> cvLeafContextV2CanonicalBytes ctx;
     require (canonical = wire);
     Some ctx
   }"

definition cvLeafContextDigestV2 :: "cvLeafContextV2 \<Rightarrow> bytes option" where
  "cvLeafContextDigestV2 ctx = do {
     wire \<leftarrow> cvLeafContextV2CanonicalBytes ctx;
     Some (hashBytes [str_bytes cvLeafContextWireDomainV2, wire])
   }"

section \<open>The core proof\<close>

record ('g, 'f) cvCoreProofV2 =
  cpf_NonceCommitments :: "'g list"
  cpf_ScalarResponses :: "'f list"
  cpf_BlindingResponses :: "'f list"

definition cvCoreProofChallengeScalarModeV2 ::
  "('g, 'h, 'f) bls \<Rightarrow> bytes \<Rightarrow> int \<Rightarrow> 'g list \<Rightarrow> 'g list \<Rightarrow> bool \<Rightarrow> 'f option" where
  "cvCoreProofChallengeScalarModeV2 B contextWire dealerID commitments nonceCommitments validatePoints = do {
     cs \<leftarrow> cvWritePointVectorMode B commitments validatePoints;
     ns \<leftarrow> cvWritePointVectorMode B nonceCommitments validatePoints;
     cvHashToFr B cvCoreProofChallengeV2
       [dropped (cvWriteBytes contextWire) @ cvWriteUint64 (u64 dealerID) @ cs @ ns]
   }"

definition cvCoreProofChallengeScalarV2 ::
  "('g, 'h, 'f) bls \<Rightarrow> cvLeafContextV2 \<Rightarrow> int \<Rightarrow> 'g list \<Rightarrow> 'g list \<Rightarrow> 'f option" where
  "cvCoreProofChallengeScalarV2 B ctx dealerID commitments nonceCommitments = do {
     contextWire \<leftarrow> cvLeafContextV2CanonicalBytes ctx;
     require (\<not> (dealerID < 0 \<or> commitments = [] \<or> length commitments \<noteq> length nonceCommitments));
     cvCoreProofChallengeScalarModeV2 B contextWire dealerID commitments nonceCommitments True
   }"

definition cvCoreProofChallengeScalarAfterValidationV2 ::
  "('g, 'h, 'f) bls \<Rightarrow> cvLeafContextV2 \<Rightarrow> int \<Rightarrow> 'g list \<Rightarrow> 'g list \<Rightarrow> 'f option" where
  "cvCoreProofChallengeScalarAfterValidationV2 B ctx dealerID commitments nonceCommitments = do {
     contextWire \<leftarrow> cvLeafContextV2CanonicalBytes ctx;
     require (\<not> (dealerID < 0 \<or> commitments = [] \<or> length commitments \<noteq> length nonceCommitments));
     cvCoreProofChallengeScalarModeV2 B contextWire dealerID commitments nonceCommitments False
   }"

text \<open>\<open>random k\<close> is the result of the \<open>k\<close>-th call of \<^verbatim>\<open>SetRandom\<close>, \<open>None\<close> its error; the loop draws the
  scalar nonce and then the blinding nonce of each coefficient.\<close>

fun draw_nonces :: "(nat \<Rightarrow> 'f option) \<Rightarrow> nat \<Rightarrow> nat \<Rightarrow> ('f \<times> 'f) list option" where
  "draw_nonces random k 0 = Some []"
| "draw_nonces random k (Suc n) = do {
     scalarNonce \<leftarrow> random k;
     blindingNonce \<leftarrow> random (k + 1);
     rest \<leftarrow> draw_nonces random (k + 2) n;
     Some ((scalarNonce, blindingNonce) # rest)
   }"

definition cvProveCoreV2 ::
  "('g, 'h, 'f::field) bls \<Rightarrow> (nat \<Rightarrow> 'f option) \<Rightarrow> cvLeafContextV2 \<Rightarrow> int \<Rightarrow> 'f list \<Rightarrow> 'f list \<Rightarrow>
   ('g list \<times> ('g, 'f) cvCoreProofV2) option" where
  "cvProveCoreV2 B random ctx dealerID scalarCoefficients blindingCoefficients = do {
     require (\<not> (\<not> cvValidateLeafContextV2 ctx \<or> dealerID < 0));
     let n = lc_SharingDegree ctx + 1;
     require (\<not> (int (length scalarCoefficients) \<noteq> n \<or> int (length blindingCoefficients) \<noteq> n));
     h \<leftarrow> cvPedersenBase B;
     nonces \<leftarrow> draw_nonces random 0 (nat n);
     let commitments = map2 (\<lambda>s b. cvPointBaseAndTimes B s h b) scalarCoefficients blindingCoefficients;
     let nonceCommitments = map (\<lambda>(s, b). cvPointBaseAndTimes B s h b) nonces;
     challenge \<leftarrow> cvCoreProofChallengeScalarAfterValidationV2 B ctx dealerID commitments nonceCommitments;
     Some (commitments,
       \<lparr> cpf_NonceCommitments = nonceCommitments,
         cpf_ScalarResponses = map2 (\<lambda>s k. challenge * s + k) scalarCoefficients (map fst nonces),
         cpf_BlindingResponses = map2 (\<lambda>b k. challenge * b + k) blindingCoefficients (map snd nonces) \<rparr>)
   }"

definition core_equation :: "('g, 'h, 'f::field) bls \<Rightarrow> 'g \<Rightarrow> 'f \<Rightarrow> 'g \<Rightarrow> 'g \<Rightarrow> 'f \<Rightarrow> 'f \<Rightarrow> bool" where
  "core_equation B h challenge commitment nonce s b \<longleftrightarrow>
     cvPointBaseAndTimes B s h b = cvPointSum B [nonce, cvPointTimes B commitment challenge]"

definition cvVerifyCoreModeV2 ::
  "('g, 'h, 'f::field) bls \<Rightarrow> cvLeafContextV2 \<Rightarrow> int \<Rightarrow> 'g list \<Rightarrow> ('g, 'f) cvCoreProofV2 \<Rightarrow> bool \<Rightarrow> bool" where
  "cvVerifyCoreModeV2 B ctx dealerID commitments cproof validatePoints \<longleftrightarrow> (do {
     let n = lc_SharingDegree ctx + 1;
     require (\<not> (\<not> cvValidateLeafContextV2 ctx \<or> dealerID < 0 \<or>
       int (length commitments) \<noteq> n \<or> int (length (cpf_NonceCommitments cproof)) \<noteq> n \<or>
       int (length (cpf_ScalarResponses cproof)) \<noteq> n \<or> int (length (cpf_BlindingResponses cproof)) \<noteq> n));
     require (validatePoints \<longrightarrow> list_all (\<lambda>i. \<not> (\<not> cvValidG1 B (commitments ! i) True \<or>
       \<not> cvValidG1 B (cpf_NonceCommitments cproof ! i) True)) [0..<nat n]);
     challenge \<leftarrow> cvCoreProofChallengeScalarAfterValidationV2 B ctx dealerID commitments (cpf_NonceCommitments cproof);
     h \<leftarrow> cvPedersenBase B;
     require (list_all (\<lambda>i. core_equation B h challenge (commitments ! i) (cpf_NonceCommitments cproof ! i)
       (cpf_ScalarResponses cproof ! i) (cpf_BlindingResponses cproof ! i)) [0..<nat n])
   }) = Some ()"

definition cvVerifyCoreV2 where
  "cvVerifyCoreV2 B ctx dealerID commitments cproof = cvVerifyCoreModeV2 B ctx dealerID commitments cproof True"

definition cvVerifyCoreAfterPointDecodingV2 where
  "cvVerifyCoreAfterPointDecodingV2 B ctx dealerID commitments cproof =
     cvVerifyCoreModeV2 B ctx dealerID commitments cproof False"

definition cvCoreProofV2CanonicalBytesMode ::
  "('g, 'h, 'f) bls \<Rightarrow> ('g, 'f) cvCoreProofV2 \<Rightarrow> int \<Rightarrow> bool \<Rightarrow> bytes option" where
  [enc_defs]: "cvCoreProofV2CanonicalBytesMode B cproof coefficientCount validatePoints = do {
     require (\<not> (coefficientCount \<le> 0 \<or> int (length (cpf_NonceCommitments cproof)) \<noteq> coefficientCount \<or>
       int (length (cpf_ScalarResponses cproof)) \<noteq> coefficientCount \<or>
       int (length (cpf_BlindingResponses cproof)) \<noteq> coefficientCount));
     nonces \<leftarrow> cvWritePointVectorMode B (cpf_NonceCommitments cproof) validatePoints;
     scalars \<leftarrow> cvWriteScalarVector B (cpf_ScalarResponses cproof);
     blindings \<leftarrow> cvWriteScalarVector B (cpf_BlindingResponses cproof);
     Some (dropped (cvWriteBytes (str_bytes cvCoreProofWireDomainV2)) @ nonces @ scalars @ blindings)
   }"

section \<open>The context codec is canonical\<close>

lemma str_bytes_bytes_str [simp]: "str_bytes (bytes_str bs) = bs"
proof -
  have "of_char (char_of (unat b) :: char) = b" for b :: byte
  proof (rule byte_eqI)
    have "unat b < 256" using unsigned_less [of b, where 'a = nat] by simp
    then show "unat (of_char (char_of (unat b) :: char) :: byte) = unat b" by (simp add: unat_of_char)
  qed
  then show ?thesis by (simp add: bytes_str_def str_bytes_def comp_def)
qed

lemma length_bytes_str [simp]: "length (bytes_str bs) = length bs"
  by (simp add: bytes_str_def)

lemma core_domain_lengths [simp]:
  "length cvLeafContextWireDomainV2 < 4294967296" "length cvLeafGroupID < 4294967296"
  "length cvCoreProofWireDomainV2 < 4294967296"
  by (simp_all add: dom_defs)

definition wf_leaf_context :: "cvLeafContextV2 \<Rightarrow> bool" where
  "wf_leaf_context ctx \<longleftrightarrow> lc_Epoch ctx < 2 ^ 64 \<and>
     list_all int64 (lc_OldRoster ctx) \<and> list_all int64 (lc_NewRoster ctx) \<and>
     length (lc_OldRoster ctx) \<le> 2 ^ 20 \<and> length (lc_NewRoster ctx) \<le> 2 ^ 20"

lemma read_member [wire_simps]:
  "0 \<le> m \<Longrightarrow> int64 m \<Longrightarrow> cvReadMember (cvWriteUint64 (u64 m) @ rest) = Some (m, rest)"
  by (simp add: cvReadMember_def wire_simps)

lemma decode_roster [wire_simps]:
  assumes "ids \<noteq> []" "length ids \<le> 2 ^ 20" "list_all (\<lambda>m. 0 \<le> m \<and> int64 m) ids"
  shows "cvDecodeRosterV2 (put_be 4 (length ids) @ concat (map (\<lambda>m. cvWriteUint64 (u64 m)) ids) @ rest) = Some (ids, rest)"
proof -
  have "cvReadList cvReadMember (length ids) (concat (map (\<lambda>m. cvWriteUint64 (u64 m)) ids) @ rest) = Some (ids, rest)"
    by (rule read_list) (use assms in \<open>simp_all add: list_all_iff cvReadMember_def wire_simps\<close>)
  then show ?thesis using assms by (cases ids) (simp_all add: cvDecodeRosterV2_def read_uint32)
qed

lemma decode_roster_SomeD:
  assumes "cvDecodeRosterV2 r = Some (ids, r')"
  shows "list_all int64 ids" and "length ids \<le> 2 ^ 20"
proof -
  from assms obtain n s where n: "n \<le> 2 ^ 20" and rd: "cvReadList cvReadMember n s = Some (ids, r')"
    by (auto simp: cvDecodeRosterV2_def run_simps not_less)
  have m: "cvReadMember q = Some (x, q') \<Longrightarrow> int64 x" for q x q'
    by (auto simp: cvReadMember_def run_simps node_id_int64)
  have "length ids = n \<and> (\<forall>x \<in> set ids. int64 x)"
    using cvReadList_SomeD [OF rd, where P = int64] m by blast
  then show "list_all int64 ids" "length ids \<le> 2 ^ 20" using n by (auto simp: list_all_iff)
qed

lemma sid_limit: "n \<le> cvMaxNetworkEnvelopeSIDBytes \<Longrightarrow> n < 4294967296"
  by (simp add: cvMaxNetworkEnvelopeSIDBytes_def)

lemma profile_range: "cvProfile prof \<noteq> None \<Longrightarrow> cp_chunkBits prof < 18446744073709551616 \<and> 0 < cp_maxComponents prof"
  by (auto simp: cvProfile_def cvMaxChunkBits_def split: if_splits)

lemma leaf_context_fields:
  assumes "cvLeafContextV2CanonicalBytes ctx = Some w" "wf_leaf_context ctx"
  shows "length (lc_SID ctx) \<le> cvMaxNetworkEnvelopeSIDBytes" "length (lc_ReceiverRegistryDigest ctx) = 32"
    "lc_OldRoster ctx \<noteq> []" "lc_NewRoster ctx \<noteq> []" "cp_chunkBits (lc_Profile ctx) < 18446744073709551616"
    "0 \<le> lc_SharingDegree ctx" "lc_SharingDegree ctx < 4294967296" "0 \<le> cp_maxComponents (lc_Profile ctx)"
    "cp_maxComponents (lc_Profile ctx) < 4294967296"
    "list_all (\<lambda>m. 0 \<le> m \<and> int64 m) (lc_OldRoster ctx)" "list_all (\<lambda>m. 0 \<le> m \<and> int64 m) (lc_NewRoster ctx)"
    "length (lc_OldRoster ctx) \<le> 2 ^ 20" "length (lc_NewRoster ctx) \<le> 2 ^ 20" "lc_Epoch ctx < 18446744073709551616"
proof -
  from assms(1) have v: "cvValidateLeafContextV2 ctx" and c: "cvWriteUint32 (cp_maxComponents (lc_Profile ctx)) \<noteq> None"
    "cvWriteUint32 (lc_SharingDegree ctx) \<noteq> None"
    by (auto simp: cvLeafContextV2CanonicalBytes_def run_simps)
  have p: "cvProfile (lc_Profile ctx) \<noteq> None" using v by (simp add: cvValidateLeafContextV2_def)
  show "cp_chunkBits (lc_Profile ctx) < 18446744073709551616" using profile_range [OF p] by simp
  show "0 \<le> cp_maxComponents (lc_Profile ctx)" using profile_range [OF p] by simp
  show "cp_maxComponents (lc_Profile ctx) < 4294967296" "lc_SharingDegree ctx < 4294967296"
    using c by (auto simp: cvWriteUint32_def split: if_splits)
  show "list_all (\<lambda>m. 0 \<le> m \<and> int64 m) (lc_OldRoster ctx)" "list_all (\<lambda>m. 0 \<le> m \<and> int64 m) (lc_NewRoster ctx)"
    using v assms(2) by (auto simp: cvValidateLeafContextV2_def wf_leaf_context_def list_all_iff)
qed (use assms in \<open>auto simp: cvLeafContextV2CanonicalBytes_def cvValidateLeafContextV2_def wf_leaf_context_def run_simps\<close>)

lemma leaf_context_wire:
  assumes "cvLeafContextV2CanonicalBytes ctx = Some w" "wf_leaf_context ctx"
  shows "w = put_be 4 (length cvLeafContextWireDomainV2) @ str_bytes cvLeafContextWireDomainV2 @
    put_be 4 (length cvLeafGroupID) @ str_bytes cvLeafGroupID @
    put_be 4 (length (lc_SID ctx)) @ str_bytes (lc_SID ctx) @ cvWriteUint64 (lc_Epoch ctx) @
    put_be 4 (length (lc_OldRoster ctx)) @ concat (map (\<lambda>m. cvWriteUint64 (u64 m)) (lc_OldRoster ctx)) @
    put_be 4 (length (lc_NewRoster ctx)) @ concat (map (\<lambda>m. cvWriteUint64 (u64 m)) (lc_NewRoster ctx)) @
    put_be 4 32 @ lc_ReceiverRegistryDigest ctx @ put_be 4 (nat (lc_SharingDegree ctx)) @
    cvWriteUint64 (cp_chunkBits (lc_Profile ctx)) @ put_be 4 (nat (cp_maxComponents (lc_Profile ctx)))"
  using assms(1) leaf_context_fields [OF assms] sid_limit [OF leaf_context_fields(1) [OF assms]]
  unfolding cvLeafContextV2CanonicalBytes_def
  by (simp add: cvWriteUint32_def run_simps)

interpretation context_codec: wire_codec cvLeafContextV2CanonicalBytes cvDecodeLeafContextV2 wf_leaf_context
proof
  fix ctx w
  assume wf: "wf_leaf_context ctx" and enc: "cvLeafContextV2CanonicalBytes ctx = Some w"
  note f = leaf_context_fields [OF enc wf]
  have eta: "\<lparr> lc_SID = lc_SID ctx, lc_Epoch = lc_Epoch ctx, lc_OldRoster = lc_OldRoster ctx,
      lc_NewRoster = lc_NewRoster ctx, lc_ReceiverRegistryDigest = lc_ReceiverRegistryDigest ctx,
      lc_SharingDegree = lc_SharingDegree ctx,
      lc_Profile = \<lparr> cp_chunkBits = cp_chunkBits (lc_Profile ctx), cp_maxComponents = cp_maxComponents (lc_Profile ctx) \<rparr> \<rparr> = ctx"
    by (cases ctx) simp
  show "cvDecodeLeafContextV2 w = Some ctx"
    using enc unfolding cvDecodeLeafContextV2_def leaf_context_wire [OF enc wf] newCVWireReader_id
    using f sid_limit [OF f(1)] by (simp add: wire_simps eta)
next
  fix ctx w
  assume "cvDecodeLeafContextV2 w = Some ctx"
  then show "wf_leaf_context ctx"
    unfolding cvDecodeLeafContextV2_def Let_def
    by (auto simp: run_simps wf_leaf_context_def dest: decode_roster_SomeD cvReadUint64_SomeD(2))
qed (auto simp: cvDecodeLeafContextV2_def run_simps Let_def)

text \<open>The context digest binds the session: two well-formed contexts with the same digest agree in
  session, epoch, both rosters, receiver registry, degree and chunk profile, or their encodings
  collide under SHA-256.\<close>

theorem leaf_context_digest_binding:
  assumes "wf_leaf_context ctx1" "wf_leaf_context ctx2"
    and "cvLeafContextDigestV2 ctx1 = Some d" "cvLeafContextDigestV2 ctx2 = Some d"
  shows "ctx1 = ctx2 \<or> (\<exists>w1 w2. cvLeafContextV2CanonicalBytes ctx1 = Some w1 \<and>
    cvLeafContextV2CanonicalBytes ctx2 = Some w2 \<and> w1 \<noteq> w2 \<and>
    sha256 (str_bytes cvLeafContextWireDomainV2 @ w1) = sha256 (str_bytes cvLeafContextWireDomainV2 @ w2))"
proof -
  from assms(3,4) obtain w1 w2 where w: "cvLeafContextV2CanonicalBytes ctx1 = Some w1"
    "cvLeafContextV2CanonicalBytes ctx2 = Some w2"
    "sha256 (str_bytes cvLeafContextWireDomainV2 @ w1) = sha256 (str_bytes cvLeafContextWireDomainV2 @ w2)"
    by (auto simp: cvLeafContextDigestV2_def run_simps hashBytes_def)
  show ?thesis
  proof (cases "w1 = w2")
    case True
    then show ?thesis using context_codec.encode_inj [OF assms(1,2)] w by blast
  qed (use w in blast)
qed

section \<open>The core proof is complete and sound\<close>

lemma cvPedersenBase_in: "cvPedersenBase B = Some h \<Longrightarrow> g1_in B h"
  by (auto simp: cvPedersenBase_def run_simps cvValidG1_def g1_in_def)

text \<open>The Pedersen commitment of the scalar \<open>s\<close> with blinding \<open>b\<close>.\<close>

definition opens :: "('g, 'h, 'f::field) bls \<Rightarrow> 'g \<Rightarrow> 'g \<Rightarrow> 'f \<Rightarrow> 'f \<Rightarrow> bool" where
  "opens B h commitment s b \<longleftrightarrow> commitment = g1_add B (g1_smul B (bls_genG1 B) s) (g1_smul B h b)"

lemma g1_add_swap:
  assumes "g1_laws G" "g1_in G a" "g1_in G b" "g1_in G c" "g1_in G d"
  shows "g1_add G (g1_add G a b) (g1_add G c d) = g1_add G (g1_add G a c) (g1_add G b d)"
  using assms g1_moduleD(1,2) [OF assms(1)] g1_lawsD(2) [OF assms(1)] by metis

lemma pedersen_linear:
  assumes G: "g1_laws G" and g: "g1_in G g" and h: "g1_in G h"
  shows "g1_add G (g1_add G (g1_smul G g s) (g1_smul G h b))
      (g1_smul G (g1_add G (g1_smul G g s') (g1_smul G h b')) c) =
    g1_add G (g1_smul G g (s + s' * c)) (g1_smul G h (b + b' * c))"
  using g h by (simp add: g1_lawsD [OF G] g1_moduleD(3) [OF G] g1_add_swap [OF G])

lemma point_sum_two:
  assumes "bls_laws B" "g1_in B p" "g1_in B q"
  shows "cvPointSum B [p, q] = g1_add B p q"
  using assms g1_lawsD [OF bls_lawsD(1) [OF assms(1)]] bls_lawsD(10) [OF assms(1)] by (simp add: cvPointSum_def)

lemma core_equation_iff:
  assumes B: "bls_laws B" and h: "g1_in B h" and c: "g1_in B commitment" and n: "g1_in B nonce"
  shows "core_equation B h x commitment nonce s b \<longleftrightarrow>
    g1_add B (g1_smul B (bls_genG1 B) s) (g1_smul B h b) = g1_add B nonce (g1_smul B commitment x)"
  using bls_lawsD(9,11) [OF B] point_sum_two [OF B n] h c
  by (simp add: core_equation_def cvPointBaseAndTimes_def cvPointTimes_def)

lemma core_equation_honest:
  assumes B: "bls_laws B" and h: "g1_in B h"
  shows "core_equation B h x (cvPointBaseAndTimes B s h b) (cvPointBaseAndTimes B k h l) (x * s + k) (x * b + l)"
proof -
  let ?G = "bls_genG1 B"
  note laws = bls_lawsD(1) [OF B] and g = bls_lawsD(10) [OF B]
  note L = g1_lawsD [OF laws]
  have "g1_in B (g1_add B (g1_smul B ?G a) (g1_smul B h d))" for a d using L(2,3) g h by simp
  then show ?thesis
    using core_equation_iff [OF B h] pedersen_linear [OF laws g h, of k l s b x] bls_lawsD(11) [OF B h]
    by (simp add: cvPointBaseAndTimes_def add.commute mult.commute)
qed

lemma draw_nonces_length: "draw_nonces random k n = Some ns \<Longrightarrow> length ns = n"
  by (induction random k n arbitrary: ns rule: draw_nonces.induct) (auto simp: run_simps)

lemma core_complete:
  assumes "bls_laws B" and "cvProveCoreV2 B random ctx dealerID ss bs = Some (commitments, cproof)"
  shows "cvVerifyCoreV2 B ctx dealerID commitments cproof"
proof -
  from assms(2) obtain h ns x where v: "cvValidateLeafContextV2 ctx" "\<not> dealerID < 0"
    and len: "int (length ss) = lc_SharingDegree ctx + 1" "int (length bs) = lc_SharingDegree ctx + 1"
    and h: "cvPedersenBase B = Some h" and ns: "draw_nonces random 0 (nat (lc_SharingDegree ctx + 1)) = Some ns"
    and cm: "commitments = map2 (\<lambda>s b. cvPointBaseAndTimes B s h b) ss bs"
    and cproof: "cproof = \<lparr> cpf_NonceCommitments = map (\<lambda>(s, b). cvPointBaseAndTimes B s h b) ns,
         cpf_ScalarResponses = map2 (\<lambda>s k. x * s + k) ss (map fst ns),
         cpf_BlindingResponses = map2 (\<lambda>b k. x * b + k) bs (map snd ns) \<rparr>"
    and x: "cvCoreProofChallengeScalarAfterValidationV2 B ctx dealerID commitments (cpf_NonceCommitments cproof) = Some x"
    unfolding cvProveCoreV2_def Let_def by (auto simp: run_simps)
  let ?n = "nat (lc_SharingDegree ctx + 1)"
  have n: "length ss = ?n" "length bs = ?n" "length ns = ?n" using len draw_nonces_length [OF ns] by auto
  have hin: "g1_in B h" by (rule cvPedersenBase_in [OF h])
  have pt: "cvValidG1 B (cvPointBaseAndTimes B s h b) True" for s b
    using bls_lawsD(9,10,11) [OF assms(1)] hin g1_lawsD(2) [OF bls_lawsD(1) [OF assms(1)]]
    by (auto simp: cvPointBaseAndTimes_def cvValidG1_def g1_in_def)
  have pts: "list_all (\<lambda>i. \<not> (\<not> cvValidG1 B (commitments ! i) True \<or>
      \<not> cvValidG1 B (cpf_NonceCommitments cproof ! i) True)) [0..<?n]"
    using n pt by (auto simp: list_all_iff cm cproof split: prod.splits)
  have eqs: "list_all (\<lambda>i. core_equation B h x (commitments ! i) (cpf_NonceCommitments cproof ! i)
      (cpf_ScalarResponses cproof ! i) (cpf_BlindingResponses cproof ! i)) [0..<?n]"
    using n core_equation_honest [OF assms(1) hin] by (auto simp: list_all_iff cm cproof split: prod.splits)
  have lens: "int (length commitments) = lc_SharingDegree ctx + 1"
    "int (length (cpf_NonceCommitments cproof)) = lc_SharingDegree ctx + 1"
    "int (length (cpf_ScalarResponses cproof)) = lc_SharingDegree ctx + 1"
    "int (length (cpf_BlindingResponses cproof)) = lc_SharingDegree ctx + 1"
    using n len by (simp_all add: cm cproof)
  show ?thesis using v lens pts eqs x h by (simp add: cvVerifyCoreV2_def cvVerifyCoreModeV2_def)
qed

text \<open>The core proof is complete: whatever the coefficients and whatever nonces the random source
  returns, a proof that was produced is accepted by the verifier, also with the point checks on.\<close>

theorem core_proof_complete:
  assumes "bls_laws B" and "cvProveCoreV2 B random ctx dealerID ss bs = Some (commitments, cproof)"
  shows "cvVerifyCoreV2 B ctx dealerID commitments cproof"
  using assms by (rule core_complete)

lemma core_extract:
  assumes B: "bls_laws B" and h: "g1_in B h" and c: "g1_in B commitment" and n: "g1_in B nonce"
    and e: "core_equation B h x commitment nonce s b" "core_equation B h x' commitment nonce s' b'" and ne: "x \<noteq> x'"
  shows "opens B h commitment ((s - s') / (x - x')) ((b - b') / (x - x'))"
proof -
  let ?G = "bls_genG1 B"
  note G = bls_lawsD(1) [OF B] and g = bls_lawsD(10) [OF B]
  note L = g1_lawsD [OF G] and M = g1_moduleD [OF G]
  let ?p = "\<lambda>s b. g1_add B (g1_smul B ?G s) (g1_smul B h b)"
  have inp: "g1_in B (?p s b)" for s b using L(2,3) g h by simp
  have e1: "?p s b = g1_add B nonce (g1_smul B commitment x)" and e2: "?p s' b' = g1_add B nonce (g1_smul B commitment x')"
    using e core_equation_iff [OF B h c n] by auto
  have neg: "g1_add B q (g1_smul B q (- 1)) = g1_zero B" if "g1_in B q" for q
    using L(5,6) [of q] M(4) [of q] that by (metis add.right_inverse)
  have "?p (s - s') (b - b') = g1_add B (?p s b) (g1_smul B (?p s' b') (- 1))"
    using pedersen_linear [OF G g h, of s b s' b' "- 1"] by simp
  also have "\<dots> = g1_add B (g1_add B nonce (g1_smul B commitment x))
      (g1_add B (g1_smul B nonce (- 1)) (g1_smul B commitment (x' * - 1)))"
    using n c L(3,7) M(3) by (simp add: e1 e2)
  also have "\<dots> = g1_add B (g1_add B nonce (g1_smul B nonce (- 1)))
      (g1_add B (g1_smul B commitment x) (g1_smul B commitment (x' * - 1)))"
    by (rule g1_add_swap [OF G]) (use n c L(3) in auto)
  also have "\<dots> = g1_add B (g1_zero B) (g1_smul B commitment (x + x' * - 1))"
    by (simp only: neg [OF n] L(6) [OF c])
  also have "\<dots> = g1_smul B commitment (x - x')" using L(4) [OF L(3) [OF c]] by simp
  finally have "g1_smul B (?p (s - s') (b - b')) (1 / (x - x')) = g1_smul B commitment ((x - x') * (1 / (x - x')))"
    using L(7) [OF c] by simp
  moreover have "(x - x') * (1 / (x - x')) = 1" using ne by simp
  ultimately have "commitment = g1_smul B (?p (s - s') (b - b')) (1 / (x - x'))" using M(4) [OF c] by simp
  also have "\<dots> = ?p ((s - s') / (x - x')) ((b - b') / (x - x'))"
    using M(3) [of "g1_smul B ?G (s - s')" "g1_smul B h (b - b')"] L(3,7) g h by simp
  finally show ?thesis by (simp add: opens_def)
qed

lemma verify_core_D:
  assumes "cvVerifyCoreV2 B ctx dealerID commitments cproof" "cvPedersenBase B = Some h"
    and "cvCoreProofChallengeScalarAfterValidationV2 B ctx dealerID commitments (cpf_NonceCommitments cproof) = Some x"
    and "i < length commitments"
  shows "core_equation B h x (commitments ! i) (cpf_NonceCommitments cproof ! i)
      (cpf_ScalarResponses cproof ! i) (cpf_BlindingResponses cproof ! i)"
    and "g1_in B (commitments ! i)" and "g1_in B (cpf_NonceCommitments cproof ! i)"
  using assms by (auto simp: cvVerifyCoreV2_def cvVerifyCoreModeV2_def Let_def run_simps list_all_iff
      cvValidG1_def g1_in_def)

text \<open>C34: the core proof is a proof of knowledge: two accepted proofs for the same commitments with the
  same nonce commitments, whose challenges differ because the hash oracle was answered differently,
  give by a fixed formula an opening of every coefficient commitment.\<close>

theorem core_proof_special_soundness:
  fixes B :: "('g, 'h, 'f::field) bls" and hash2 :: "bytes \<Rightarrow> bytes \<Rightarrow> 'f option"
  defines "B2 \<equiv> B\<lparr> fr_Hash := hash2 \<rparr>"
  assumes "bls_laws B" "cvPedersenBase B = Some h"
    and "cvVerifyCoreV2 B ctx dealerID commitments cproof" "cvVerifyCoreV2 B2 ctx dealerID commitments cproof2"
    and "cpf_NonceCommitments cproof = cpf_NonceCommitments cproof2"
    and "cvCoreProofChallengeScalarAfterValidationV2 B ctx dealerID commitments (cpf_NonceCommitments cproof) = Some x"
    and "cvCoreProofChallengeScalarAfterValidationV2 B2 ctx dealerID commitments (cpf_NonceCommitments cproof2) = Some x2"
    and "x \<noteq> x2" "i < length commitments"
  shows "opens B h (commitments ! i)
    ((cpf_ScalarResponses cproof ! i - cpf_ScalarResponses cproof2 ! i) / (x - x2))
    ((cpf_BlindingResponses cproof ! i - cpf_BlindingResponses cproof2 ! i) / (x - x2))"
proof -
  have h2: "cvPedersenBase B2 = Some h"
    using assms(3) by (simp add: B2_def cvPedersenBase_def cvValidG1_def)
  note v = verify_core_D [OF assms(4,3,7,10)] and v2 = verify_core_D [OF assms(5) h2 assms(8,10)]
  have "core_equation B h x2 (commitments ! i) (cpf_NonceCommitments cproof ! i)
      (cpf_ScalarResponses cproof2 ! i) (cpf_BlindingResponses cproof2 ! i)"
    using v2(1) assms(6)
    by (simp add: B2_def core_equation_def cvPointBaseAndTimes_def cvPointSum_def cvPointTimes_def)
  from core_extract [OF assms(2) cvPedersenBase_in [OF assms(3)] v(2,3,1) this assms(9)] show ?thesis .
qed

end
