(* ===== verification/Aggregate.thy ===== *)
theory Aggregate
  imports Leaf_Core
begin

text \<open>
  Aggregate headers, their digests and the selection digest: the control part of
  \<^verbatim>\<open>src/core/cv_sapvss_aggregate_v2.go\<close>.  A header names the pool, the contributor selection, the
  aggregate and its APDB instance; its instance digest is recomputed from the other fields.
\<close>

section \<open>Domains and data\<close>

definition cvAggregateHeaderV2Domain :: string where
  [dom_defs]: "cvAggregateHeaderV2Domain = ''ARL-CV-sAPVSS/v2-scalar-group/aggregate-header''"

definition cvSelectionDigestV2Domain :: string where
  [dom_defs]: "cvSelectionDigestV2Domain = ''ARL-CV-sAPVSS/v2-scalar-group/selection-digest''"

definition cvAggregatePayloadV2Domain :: string where
  [dom_defs]: "cvAggregatePayloadV2Domain = ''ARL-CV-sAPVSS/v2-scalar-group/aggregate-payload-digest''"

record cvAggregateHeaderV2 =
  ah_ContextDigest :: bytes
  ah_ProposerID :: int
  ah_PoolDigest :: bytes
  ah_SelectionDigest :: bytes
  ah_AggregateDigest :: bytes
  ah_PayloadDigest :: bytes
  ah_APDBInstance :: bytes
  ah_APDBRoot :: bytes

section \<open>Digests\<close>

definition cvAggregatePayloadDigestV2 :: "bytes \<Rightarrow> bytes option" where
  "cvAggregatePayloadDigestV2 payload = do {
     require (\<not> (payload = [] \<or> length payload > cvMaxLeafWireBytes));
     Some (hashBytes [str_bytes cvAggregatePayloadV2Domain, payload])
   }"

definition cvAggregateInstanceDigestV2 :: "bytes \<Rightarrow> int \<Rightarrow> bytes \<Rightarrow> bytes \<Rightarrow> bytes option" where
  "cvAggregateInstanceDigestV2 contextDigest proposerID poolDigest selectionDigest = do {
     require (\<not> (length contextDigest \<noteq> 32 \<or> proposerID < 0 \<or> length poolDigest \<noteq> 32 \<or> length selectionDigest \<noteq> 32));
     cvAPDBInstanceDigestV2 ''AGG'' [contextDigest, cvWriteUint64 (u64 proposerID), poolDigest, selectionDigest]
   }"

definition cvSelectionDigestV2 :: "cvCoinOutputV2 \<Rightarrow> int list \<Rightarrow> int \<Rightarrow> int \<Rightarrow> bytes option" where
  "cvSelectionDigestV2 coin selectedIndices poolSize componentCount = do {
     require (\<not> (poolSize \<le> 0 \<or> componentCount \<le> 0 \<or> int (length selectedIndices) \<noteq> componentCount));
     want \<leftarrow> cvSelectedPoolIndicesV2 poolSize componentCount (co_Value coin);
     require (equalInts selectedIndices want);
     coinWire \<leftarrow> cvCoinOutputV2CanonicalBytes coin;
     header \<leftarrow> cvWriteUint32 (int (length selectedIndices));
     Some (hashBytes [str_bytes cvSelectionDigestV2Domain,
       dropped (cvWriteBytes coinWire) @ header @ concat (map (\<lambda>index. cvWriteUint64 (u64 index)) selectedIndices)])
   }"

section \<open>Header codec\<close>

definition cvAggregateHeaderV2CanonicalBytes :: "cvAggregateHeaderV2 \<Rightarrow> bytes option" where
  [enc_defs]: "cvAggregateHeaderV2CanonicalBytes header = do {
     require (\<not> (length (ah_ContextDigest header) \<noteq> 32 \<or> ah_ProposerID header < 0 \<or>
       length (ah_PoolDigest header) \<noteq> 32 \<or> length (ah_SelectionDigest header) \<noteq> 32 \<or>
       length (ah_AggregateDigest header) \<noteq> 32 \<or> length (ah_PayloadDigest header) \<noteq> 32 \<or>
       length (ah_APDBInstance header) \<noteq> 32 \<or> length (ah_APDBRoot header) \<noteq> 32));
     wantInstance \<leftarrow> cvAggregateInstanceDigestV2 (ah_ContextDigest header) (ah_ProposerID header)
       (ah_PoolDigest header) (ah_SelectionDigest header);
     require (wantInstance = ah_APDBInstance header);
     Some (dropped (cvWriteBytes (str_bytes cvAggregateHeaderV2Domain)) @
           dropped (cvWriteBytes (ah_ContextDigest header)) @
           cvWriteUint64 (u64 (ah_ProposerID header)) @
           concat (map (\<lambda>field. dropped (cvWriteBytes field))
             [ah_PoolDigest header, ah_SelectionDigest header, ah_AggregateDigest header,
              ah_PayloadDigest header, ah_APDBInstance header, ah_APDBRoot header]))
   }"

definition cvReadDigest :: "cvWireReader \<Rightarrow> (bytes \<times> cvWireReader) option" where
  "cvReadDigest r = do {
     (field, r) \<leftarrow> cvReadBytes 32 r;
     require (length field = 32);
     Some (field, r)
   }"

definition cvDecodeAggregateHeaderV2 :: "bytes \<Rightarrow> cvAggregateHeaderV2 option" where
  [dec_defs]: "cvDecodeAggregateHeaderV2 wire = do {
     (domain, r) \<leftarrow> cvReadBytes (length cvAggregateHeaderV2Domain) (newCVWireReader wire);
     require (domain = str_bytes cvAggregateHeaderV2Domain);
     (ctx, r) \<leftarrow> cvReadBytes 32 r;
     require (length ctx = 32);
     (proposer, r) \<leftarrow> cvReadUint64 r;
     require (\<not> proposer > max_int);
     (fields, r) \<leftarrow> cvReadList cvReadDigest 6 r;
     require (r = []);
     let header = \<lparr> ah_ContextDigest = ctx, ah_ProposerID = int proposer, ah_PoolDigest = fields ! 0,
       ah_SelectionDigest = fields ! 1, ah_AggregateDigest = fields ! 2, ah_PayloadDigest = fields ! 3,
       ah_APDBInstance = fields ! 4, ah_APDBRoot = fields ! 5 \<rparr>;
     canonical \<leftarrow> cvAggregateHeaderV2CanonicalBytes header;
     require (canonical = wire);
     Some header
   }"

lemma aggregate_domain_lengths [simp]:
  "length cvAggregateHeaderV2Domain < 4294967296"
  by (simp_all add: dom_defs)

lemma aggregate_header_fields:
  assumes "cvAggregateHeaderV2CanonicalBytes h = Some w"
  shows "length (ah_ContextDigest h) = 32" "0 \<le> ah_ProposerID h" "length (ah_PoolDigest h) = 32"
    "length (ah_SelectionDigest h) = 32" "length (ah_AggregateDigest h) = 32" "length (ah_PayloadDigest h) = 32"
    "length (ah_APDBInstance h) = 32" "length (ah_APDBRoot h) = 32"
    "cvAggregateInstanceDigestV2 (ah_ContextDigest h) (ah_ProposerID h) (ah_PoolDigest h) (ah_SelectionDigest h) =
       Some (ah_APDBInstance h)"
    "length w \<le> 512"
  using assms by (auto simp: cvAggregateHeaderV2CanonicalBytes_def run_simps dom_defs)

lemma read_digest: "length d = 32 \<Longrightarrow> cvReadDigest (put_be 4 32 @ d @ rest) = Some (d, rest)"
  by (simp add: cvReadDigest_def wire_simps)

lemma read_digests:
  assumes "list_all (\<lambda>d. length d = 32) ds" "n = length ds"
  shows "cvReadList cvReadDigest n (concat (map (\<lambda>d. dropped (cvWriteBytes d)) ds)) = Some (ds, [])"
  by (rule read_list_end) (use assms in \<open>auto simp: list_all_iff read_digest\<close>)

interpretation agg_header_codec: wire_codec cvAggregateHeaderV2CanonicalBytes cvDecodeAggregateHeaderV2
  "\<lambda>h. int64 (ah_ProposerID h)"
proof
  fix h w
  assume i: "int64 (ah_ProposerID h)" and enc: "cvAggregateHeaderV2CanonicalBytes h = Some w"
  note f = aggregate_header_fields [OF enc]
  let ?fs = "[ah_PoolDigest h, ah_SelectionDigest h, ah_AggregateDigest h, ah_PayloadDigest h, ah_APDBInstance h, ah_APDBRoot h]"
  have w: "w = put_be 4 (length cvAggregateHeaderV2Domain) @ str_bytes cvAggregateHeaderV2Domain @
      put_be 4 32 @ ah_ContextDigest h @ cvWriteUint64 (nat (ah_ProposerID h)) @
      concat (map (\<lambda>d. dropped (cvWriteBytes d)) ?fs)"
    using enc f i unfolding cvAggregateHeaderV2CanonicalBytes_def by simp
  have rd: "cvReadList cvReadDigest 6 (concat (map (\<lambda>d. dropped (cvWriteBytes d)) ?fs)) = Some (?fs, [])"
    by (rule read_digests) (use f in simp_all)
  have eta: "\<lparr> ah_ContextDigest = ah_ContextDigest h, ah_ProposerID = ah_ProposerID h, ah_PoolDigest = ah_PoolDigest h,
      ah_SelectionDigest = ah_SelectionDigest h, ah_AggregateDigest = ah_AggregateDigest h,
      ah_PayloadDigest = ah_PayloadDigest h, ah_APDBInstance = ah_APDBInstance h, ah_APDBRoot = ah_APDBRoot h \<rparr> = h"
    by simp
  show "cvDecodeAggregateHeaderV2 w = Some h"
    using enc unfolding cvDecodeAggregateHeaderV2_def w newCVWireReader_id
    using f(1,2) i rd by (simp add: wire_simps eta del: list.map concat.simps)
qed (auto simp: cvDecodeAggregateHeaderV2_def run_simps Let_def node_id_int64)

text \<open>Equal encodings come from equal headers.\<close>

lemma aggregate_header_inj:
  "int64 (ah_ProposerID h) \<Longrightarrow> int64 (ah_ProposerID k) \<Longrightarrow>
   cvAggregateHeaderV2CanonicalBytes h = Some w \<Longrightarrow> cvAggregateHeaderV2CanonicalBytes k = Some w \<Longrightarrow> h = k"
  by (rule agg_header_codec.encode_inj)

end
