(* ===== verification/Validation.thy ===== *)
theory Validation
  imports Aggregate
begin

text \<open>
  Validator signatures and validation certificates: \<^verbatim>\<open>src/core/cv_sapvss_validation.go\<close> and the signing
  functions of \<^verbatim>\<open>src/core/cv_sapvss_validation_keys.go\<close>.  A certificate is a bitmap over the sampled
  validators and one aggregated BLS signature.  A Go \<^verbatim>\<open>map[int][]byte\<close> is an association list with
  distinct keys.  The two main results are that an accepted certificate carries the signature of the
  sum of at least a quorum of sampled validators' keys, and that a quorum of honest signatures builds
  a certificate.
\<close>

unbundle bit_operations_syntax

section \<open>Key material and validator signatures\<close>

definition cvValidatorPoPDomain :: string where
  [dom_defs]: "cvValidatorPoPDomain = ''ARL-CV-sAPVSS/v2-scalar-group/validator-pop''"

definition cvValidationStatementV2Domain :: string where
  [dom_defs]: "cvValidationStatementV2Domain = ''ARL-CV-sAPVSS/v2-scalar-group/validation-statement''"

definition cvValidationCertificateV2Domain :: string where
  [dom_defs]: "cvValidationCertificateV2Domain = ''ARL-CV-sAPVSS/v2-scalar-group/validation-certificate''"

record ('h, 'f) cvValidatorKeyMaterialV2 =
  vm_memberOrder :: "int list"
  vm_memberIndex :: "int \<rightharpoonup> nat"
  vm_publicKeys :: "'h list"
  vm_localSecrets :: "int \<rightharpoonup> 'f"
  vm_registryHash :: bytes
  vm_sid :: string
  vm_epoch :: nat

definition cvValidatorPoPStatementV2 :: "('g, 'h, 'f) bls \<Rightarrow> string \<Rightarrow> nat \<Rightarrow> int \<Rightarrow> 'h \<Rightarrow> bytes option" where
  "cvValidatorPoPStatementV2 B sid epoch memberID publicKey = do {
     require (\<not> (sid = [] \<or> epoch = 0 \<or> memberID < 0 \<or> \<not> cvValidG2 B publicKey));
     Some (hashBytes [str_bytes cvValidatorPoPDomain,
       dropped (cvWriteBytes (str_bytes sid)) @ cvWriteUint64 epoch @ cvWriteUint64 (u64 memberID) @
       dropped (cvWriteBytes (bls_G2Bytes B publicKey))])
   }"

definition cvSignValidatorV2 :: "('g, 'h, 'f::field) bls \<Rightarrow> 'f \<Rightarrow> string \<Rightarrow> bytes \<Rightarrow> bytes option" where
  "cvSignValidatorV2 B secret domain digest = do {
     require (\<not> (secret = 0 \<or> domain = [] \<or> length digest \<noteq> 32));
     hashPoint \<leftarrow> bls_HashToG1 B (domainDigest domain digest) (str_bytes domain);
     Some (bls_Bytes B (g1_smul B hashPoint secret))
   }"

definition cvVerifyValidatorSignatureV2 :: "('g, 'h, 'f) bls \<Rightarrow> 'h \<Rightarrow> string \<Rightarrow> bytes \<Rightarrow> bytes \<Rightarrow> bool" where
  "cvVerifyValidatorSignatureV2 B publicKey domain digest signatureWire \<longleftrightarrow>
     \<not> (\<not> cvValidG2 B publicKey \<or> domain = [] \<or> length digest \<noteq> 32 \<or>
        length signatureWire \<noteq> SizeOfG1AffineCompressed) \<and>
     (case bls_SetBytes B signatureWire of
        (signature, consumed) \<Rightarrow> consumed = Some (length signatureWire) \<and> cvValidG1 B signature False \<and>
          (case bls_HashToG1 B (domainDigest domain digest) (str_bytes domain) of
             None \<Rightarrow> False
           | Some hashPoint \<Rightarrow> pairing_ok B signature hashPoint publicKey))"

section \<open>Bitmaps and samples\<close>

record cvValidationCertificateV2 =
  vc_SignerBitmap :: bytes
  vc_AggregateSignature :: bytes

definition cvValidationBitmapBytesV2 :: "int \<Rightarrow> int" where
  "cvValidationBitmapBytesV2 sampleSize = (if sampleSize \<le> 0 then 0 else (sampleSize + 7) div 8)"

definition cvValidationBitmapHighBitsZeroV2 :: "bytes \<Rightarrow> int \<Rightarrow> bool" where
  "cvValidationBitmapHighBitsZeroV2 bitmap sampleSize \<longleftrightarrow>
     \<not> (sampleSize \<le> 0 \<or> int (length bitmap) \<noteq> cvValidationBitmapBytesV2 sampleSize) \<and>
     (let unused = int (length bitmap) * 8 - sampleSize in
      unused = 0 \<or> bitmap ! (length bitmap - 1) AND push_bit (nat (8 - unused)) 0xFF = 0)"

fun distinct_ids_loop :: "int set \<Rightarrow> int list \<Rightarrow> bool" where
  "distinct_ids_loop seen [] = True"
| "distinct_ids_loop seen (i # ids) =
     (if i < 0 then False else if i \<in> seen then False else distinct_ids_loop (insert i seen) ids)"

definition cvDistinctNonNegativeIDs :: "int list \<Rightarrow> bool" where
  "cvDistinctNonNegativeIDs ids = distinct_ids_loop {} ids"

definition cvValidValidatorSampleV2 :: "int list \<Rightarrow> ('h, 'f) cvValidatorKeyMaterialV2 \<Rightarrow> bool" where
  "cvValidValidatorSampleV2 sample material \<longleftrightarrow>
     \<not> (sample = [] \<or> \<not> cvDistinctNonNegativeIDs sample) \<and>
     list_all (\<lambda>member. vm_memberIndex material member \<noteq> None) sample"

definition bitmap_get :: "bytes \<Rightarrow> nat \<Rightarrow> bool" where
  "bitmap_get bitmap index \<longleftrightarrow> bitmap ! (index div 8) AND push_bit (index mod 8) 1 \<noteq> 0"

definition bitmap_set :: "bytes \<Rightarrow> nat \<Rightarrow> bytes" where
  "bitmap_set bitmap index =
     bitmap[index div 8 := bitmap ! (index div 8) OR push_bit (index mod 8) 1]"

section \<open>Statement and certificate codec\<close>

definition cvValidationStatementV2 :: "int list \<Rightarrow> cvAggregateHeaderV2 \<Rightarrow> bytes option" where
  "cvValidationStatementV2 validatorSample header = do {
     require (\<not> (\<not> cvDistinctNonNegativeIDs validatorSample \<or> validatorSample = []));
     headerWire \<leftarrow> cvAggregateHeaderV2CanonicalBytes header;
     size_wire \<leftarrow> cvWriteUint32 (int (length validatorSample));
     Some (hashBytes [str_bytes cvValidationStatementV2Domain,
       size_wire @ concat (map (\<lambda>member. cvWriteUint64 (u64 member)) validatorSample) @
       dropped (cvWriteBytes headerWire)])
   }"

definition cvValidationCertificateV2CanonicalBytes ::
  "('g, 'h, 'f) bls \<Rightarrow> cvValidationCertificateV2 \<Rightarrow> int list \<Rightarrow> bytes option" where
  [enc_defs]: "cvValidationCertificateV2CanonicalBytes B certificate validatorSample = do {
     require (\<not> (validatorSample = [] \<or> \<not> cvDistinctNonNegativeIDs validatorSample \<or>
       int (length (vc_SignerBitmap certificate)) \<noteq> cvValidationBitmapBytesV2 (int (length validatorSample)) \<or>
       \<not> cvValidationBitmapHighBitsZeroV2 (vc_SignerBitmap certificate) (int (length validatorSample)) \<or>
       length (vc_AggregateSignature certificate) \<noteq> SizeOfG1AffineCompressed));
     let (signature, consumed) = bls_SetBytes B (vc_AggregateSignature certificate);
     require (\<not> (consumed \<noteq> Some (length (vc_AggregateSignature certificate)) \<or> \<not> cvValidG1 B signature False));
     Some (dropped (cvWriteBytes (str_bytes cvValidationCertificateV2Domain)) @
           dropped (cvWriteBytes (vc_SignerBitmap certificate)) @
           dropped (cvWriteBytes (vc_AggregateSignature certificate)))
   }"

definition cvDecodeValidationCertificateV2 ::
  "('g, 'h, 'f) bls \<Rightarrow> bytes \<Rightarrow> int list \<Rightarrow> cvValidationCertificateV2 option" where
  [dec_defs]: "cvDecodeValidationCertificateV2 B wire validatorSample = do {
     (domain, r) \<leftarrow> cvReadBytes (length cvValidationCertificateV2Domain) (newCVWireReader wire);
     require (domain = str_bytes cvValidationCertificateV2Domain);
     (bitmap, r) \<leftarrow> cvReadBytes (nat (cvValidationBitmapBytesV2 (int (length validatorSample)))) r;
     require (int (length bitmap) = cvValidationBitmapBytesV2 (int (length validatorSample)));
     (signature, r) \<leftarrow> cvReadBytes SizeOfG1AffineCompressed r;
     require (\<not> (length signature \<noteq> SizeOfG1AffineCompressed \<or> r \<noteq> []));
     let certificate = \<lparr> vc_SignerBitmap = bitmap, vc_AggregateSignature = signature \<rparr>;
     canonical \<leftarrow> cvValidationCertificateV2CanonicalBytes B certificate validatorSample;
     require (canonical = wire);
     Some certificate
   }"

section \<open>Verification, signing and construction\<close>

text \<open>\<^verbatim>\<open>material.publicKeys[material.memberIndex[member]]\<close>; an index outside the list would panic and is a
  refusal here.\<close>

definition vm_public :: "('h, 'f) cvValidatorKeyMaterialV2 \<Rightarrow> int \<Rightarrow> 'h option" where
  "vm_public material member =
     (let i = (case vm_memberIndex material member of None \<Rightarrow> 0 | Some i \<Rightarrow> i) in
      if i < length (vm_publicKeys material) then Some (vm_publicKeys material ! i) else None)"

fun verify_loop ::
  "('g, 'h, 'f) bls \<Rightarrow> ('h, 'f) cvValidatorKeyMaterialV2 \<Rightarrow> bytes \<Rightarrow> nat \<Rightarrow> int list \<Rightarrow> nat \<Rightarrow> 'h \<Rightarrow> (nat \<times> 'h) option" where
  "verify_loop B material bitmap index [] signerCount aggregatePublic = Some (signerCount, aggregatePublic)"
| "verify_loop B material bitmap index (member # members) signerCount aggregatePublic =
     (if \<not> bitmap_get bitmap index
      then verify_loop B material bitmap (Suc index) members signerCount aggregatePublic
      else do {
        publicKey \<leftarrow> vm_public material member;
        verify_loop B material bitmap (Suc index) members (signerCount + 1) (bls_AddG2 B aggregatePublic publicKey)
      })"

definition cvVerifyValidationCertificateV2 ::
  "('g, 'h, 'f::field) bls \<Rightarrow> cvValidationCertificateV2 \<Rightarrow> cvAggregateHeaderV2 \<Rightarrow> int list \<Rightarrow> int \<Rightarrow>
   ('h, 'f) cvValidatorKeyMaterialV2 \<Rightarrow> bool" where
  "cvVerifyValidationCertificateV2 B certificate header validatorSample quorum material \<longleftrightarrow> (do {
     require (\<not> (quorum \<le> 0 \<or> quorum > int (length validatorSample) \<or> \<not> cvValidValidatorSampleV2 validatorSample material));
     _ \<leftarrow> cvValidationCertificateV2CanonicalBytes B certificate validatorSample;
     (signerCount, aggregatePublic) \<leftarrow> verify_loop B material (vc_SignerBitmap certificate) 0 validatorSample 0
       (bls_SmulG2 B (bls_genG2 B) 0);
     require (\<not> (int signerCount < quorum \<or> bls_G2IsInfinity B aggregatePublic));
     statement \<leftarrow> cvValidationStatementV2 validatorSample header;
     let signature = fst (bls_SetBytes B (vc_AggregateSignature certificate));
     hashPoint \<leftarrow> bls_HashToG1 B (domainDigest cvValidationCertificateV2Domain statement)
       (str_bytes cvValidationCertificateV2Domain);
     require (pairing_ok B signature hashPoint aggregatePublic)
   }) = Some ()"

definition cvSignValidationV2 ::
  "('g, 'h, 'f::field) bls \<Rightarrow> int \<Rightarrow> cvAggregateHeaderV2 \<Rightarrow> int list \<Rightarrow> ('h, 'f) cvValidatorKeyMaterialV2 \<Rightarrow> bytes option" where
  "cvSignValidationV2 B memberID header validatorSample material = do {
     secret \<leftarrow> vm_localSecrets material memberID;
     require (cvValidValidatorSampleV2 validatorSample material);
     require (foldl (\<lambda>memberPresent member. memberPresent \<or> member = memberID) False validatorSample);
     statement \<leftarrow> cvValidationStatementV2 validatorSample header;
     cvSignValidatorV2 B secret cvValidationCertificateV2Domain statement
   }"

fun build_loop ::
  "('g, 'h, 'f) bls \<Rightarrow> ('h, 'f) cvValidatorKeyMaterialV2 \<Rightarrow> bool \<Rightarrow> bytes \<Rightarrow> (int \<times> bytes) list \<Rightarrow> nat \<Rightarrow> int list \<Rightarrow>
   bytes \<Rightarrow> 'g \<Rightarrow> nat \<Rightarrow> (bytes \<times> 'g \<times> nat) option" where
  "build_loop B material verifyIndividuals statement signatures index [] bitmap aggregate signerCount =
     Some (bitmap, aggregate, signerCount)"
| "build_loop B material verifyIndividuals statement signatures index (member # members) bitmap aggregate signerCount =
     (case map_of signatures member of
        None \<Rightarrow> build_loop B material verifyIndividuals statement signatures (Suc index) members bitmap aggregate signerCount
      | Some signature \<Rightarrow> do {
          require (verifyIndividuals \<longrightarrow> (case vm_public material member of None \<Rightarrow> False
            | Some publicKey \<Rightarrow>
                cvVerifyValidatorSignatureV2 B publicKey cvValidationCertificateV2Domain statement signature));
          let point = fst (bls_SetBytes B signature);
          build_loop B material verifyIndividuals statement signatures (Suc index) members
            (bitmap_set bitmap index) (g1_add B aggregate point) (signerCount + 1)
        })"

definition cvBuildValidationCertificateModeV2 ::
  "('g, 'h, 'f::field) bls \<Rightarrow> cvAggregateHeaderV2 \<Rightarrow> int list \<Rightarrow> int \<Rightarrow> (int \<times> bytes) list \<Rightarrow>
   ('h, 'f) cvValidatorKeyMaterialV2 \<Rightarrow> bool \<Rightarrow> cvValidationCertificateV2 option" where
  "cvBuildValidationCertificateModeV2 B header validatorSample quorum signatures material verifyIndividuals = do {
     require (\<not> (quorum \<le> 0 \<or> quorum > int (length validatorSample) \<or> int (length signatures) < quorum \<or>
       \<not> cvValidValidatorSampleV2 validatorSample material));
     statement \<leftarrow> cvValidationStatementV2 validatorSample header;
     (bitmap, aggregate, signerCount) \<leftarrow> build_loop B material verifyIndividuals statement signatures 0 validatorSample
       (replicate (nat (cvValidationBitmapBytesV2 (int (length validatorSample)))) 0)
       (g1_smul B (bls_genG1 B) 0) 0;
     require (\<not> (int signerCount < quorum \<or> signerCount \<noteq> length signatures));
     let certificate = \<lparr> vc_SignerBitmap = bitmap, vc_AggregateSignature = bls_Bytes B aggregate \<rparr>;
     require (cvVerifyValidationCertificateV2 B certificate header validatorSample quorum material);
     Some certificate
   }"

definition cvBuildValidationCertificateV2 ::
  "('g, 'h, 'f::field) bls \<Rightarrow> cvAggregateHeaderV2 \<Rightarrow> int list \<Rightarrow> int \<Rightarrow> (int \<times> bytes) list \<Rightarrow>
   ('h, 'f) cvValidatorKeyMaterialV2 \<Rightarrow> cvValidationCertificateV2 option" where
  "cvBuildValidationCertificateV2 B header validatorSample quorum signatures material =
     cvBuildValidationCertificateModeV2 B header validatorSample quorum signatures material True"

section \<open>Bitmaps as sets of positions\<close>

lemma byte_and_bit: "(b :: byte) AND 2 ^ k \<noteq> 0 \<longleftrightarrow> bit b k"
  by (simp add: and_exp_eq_0_iff_not_bit)

lemma byte_bit_exp: "k < 8 \<Longrightarrow> bit (2 ^ k :: byte) n \<longleftrightarrow> n = k"
  by (auto simp: bit_exp_iff)

lemma bitmap_get_bit: "bitmap_get bm i \<longleftrightarrow> bit (bm ! (i div 8)) (i mod 8)"
  by (simp add: bitmap_get_def byte_and_bit)

lemma bitmap_get_set:
  assumes "i < 8 * length bm" "j < 8 * length bm"
  shows "bitmap_get (bitmap_set bm i) j \<longleftrightarrow> j = i \<or> bitmap_get bm j"
proof -
  have i: "i div 8 < length bm" "i mod 8 < 8" and j: "j div 8 < length bm" "j mod 8 < 8" using assms by auto
  have eq: "j = i \<longleftrightarrow> j div 8 = i div 8 \<and> j mod 8 = i mod 8" by (metis div_mult_mod_eq)
  note b = byte_bit_exp [OF i(2)]
  show ?thesis using i j unfolding bitmap_get_bit bitmap_set_def eq
    by (cases "j div 8 = i div 8") (auto simp: bit_or_iff b)
qed

lemma length_bitmap_set [simp]: "length (bitmap_set bm i) = length bm"
  by (simp add: bitmap_set_def)

lemma bitmap_zero: "i < 8 * n \<Longrightarrow> \<not> bitmap_get (replicate n 0) i"
  by (simp add: bitmap_get_bit less_mult_imp_div_less mult.commute)

lemma bitmap_bytes: "0 < n \<Longrightarrow> nat (cvValidationBitmapBytesV2 (int n)) = (n + 7) div 8"
  by (simp add: cvValidationBitmapBytesV2_def nat_div_distrib)

lemma bitmap_room: "n \<le> 8 * nat (cvValidationBitmapBytesV2 (int n))"
  by (cases "n = 0") (auto simp: bitmap_bytes)

lemma distinct_ids_loop_iff: "distinct_ids_loop seen ids \<longleftrightarrow> distinct ids \<and> set ids \<inter> seen = {} \<and> (\<forall>i \<in> set ids. 0 \<le> i)"
  by (induction seen ids rule: distinct_ids_loop.induct) auto

lemma cvDistinctNonNegativeIDs_iff [simp]:
  "cvDistinctNonNegativeIDs ids \<longleftrightarrow> distinct ids \<and> (\<forall>i \<in> set ids. 0 \<le> i)"
  by (simp add: cvDistinctNonNegativeIDs_def distinct_ids_loop_iff)

section \<open>What an accepted certificate certifies\<close>

text \<open>The members whose bits are set, in sample order, and the statement that every indexed public key
  is the generator times the secret of its member.\<close>

fun signers_from :: "bytes \<Rightarrow> nat \<Rightarrow> int list \<Rightarrow> int list" where
  "signers_from bitmap index [] = []"
| "signers_from bitmap index (member # members) =
     (if bitmap_get bitmap index then member # signers_from bitmap (Suc index) members
      else signers_from bitmap (Suc index) members)"

definition keyed :: "('g, 'h, 'f) bls \<Rightarrow> ('h, 'f) cvValidatorKeyMaterialV2 \<Rightarrow> (int \<Rightarrow> 'f) \<Rightarrow> bool" where
  "keyed B material sk \<longleftrightarrow> (\<forall>m i. vm_memberIndex material m = Some i \<longrightarrow>
     i < length (vm_publicKeys material) \<and> vm_publicKeys material ! i = bls_SmulG2 B (bls_genG2 B) (sk m))"

lemma keyed_public:
  "keyed B material sk \<Longrightarrow> vm_memberIndex material m \<noteq> None \<Longrightarrow>
   vm_public material m = Some (bls_SmulG2 B (bls_genG2 B) (sk m))"
  by (auto simp: keyed_def vm_public_def Let_def)

lemma set_signers_from: "set (signers_from bm i ms) \<subseteq> set ms"
  by (induction bm i ms rule: signers_from.induct) auto

lemma distinct_signers_from: "distinct ms \<Longrightarrow> distinct (signers_from bm i ms)"
proof (induction bm i ms rule: signers_from.induct)
  case (2 bm i m ms)
  then show ?case using set_signers_from [of bm "Suc i" ms] by auto
qed simp

lemma verify_loop_eq:
  assumes B: "bls_laws B" and k: "keyed B material sk"
    and ms: "\<forall>m \<in> set ms. vm_memberIndex material m \<noteq> None"
  shows "verify_loop B material bm i ms n (bls_SmulG2 B (bls_genG2 B) a) =
    Some (n + length (signers_from bm i ms), bls_SmulG2 B (bls_genG2 B) (a + (\<Sum>m \<leftarrow> signers_from bm i ms. sk m)))"
  using ms
proof (induction bm i ms arbitrary: n a rule: signers_from.induct)
  case (2 bm i m ms)
  then show ?case using keyed_public [OF k, of m] bls_g2D(1) [OF B] by (simp add: add.assoc)
qed simp

lemma certificate_wire_D:
  assumes "cvValidationCertificateV2CanonicalBytes B certificate sample = Some w"
  obtains p where "bls_SetBytes B (vc_AggregateSignature certificate) = (p, Some SizeOfG1AffineCompressed)"
    "cvValidG1 B p False"
proof -
  obtain p n where p: "bls_SetBytes B (vc_AggregateSignature certificate) = (p, n)" by fastforce
  then show ?thesis using assms that by (auto simp: cvValidationCertificateV2CanonicalBytes_def run_simps)
qed

lemma verify_certificate_D:
  assumes B: "bls_laws B" and k: "keyed B material sk"
    and v: "cvVerifyValidationCertificateV2 B certificate header sample quorum material"
  defines "signers \<equiv> signers_from (vc_SignerBitmap certificate) 0 sample"
  obtains st h where "cvValidationStatementV2 sample header = Some st"
    "bls_HashToG1 B (domainDigest cvValidationCertificateV2Domain st) (str_bytes cvValidationCertificateV2Domain) = Some h"
    "bls_SetBytes B (vc_AggregateSignature certificate) =
      (g1_smul B h (\<Sum>m \<leftarrow> signers. sk m), Some SizeOfG1AffineCompressed)"
    "distinct signers" "set signers \<subseteq> set sample" "quorum \<le> int (length signers)" "(\<Sum>m \<leftarrow> signers. sk m) \<noteq> 0"
    "0 < quorum" "distinct sample"
proof -
  from v obtain w n P st h where w: "cvValidationCertificateV2CanonicalBytes B certificate sample = Some w"
    and q: "0 < quorum" "cvValidValidatorSampleV2 sample material"
    and loop: "verify_loop B material (vc_SignerBitmap certificate) 0 sample 0 (bls_SmulG2 B (bls_genG2 B) 0) = Some (n, P)"
    and n: "quorum \<le> int n" "\<not> bls_G2IsInfinity B P"
    and st: "cvValidationStatementV2 sample header = Some st"
    and h: "bls_HashToG1 B (domainDigest cvValidationCertificateV2Domain st) (str_bytes cvValidationCertificateV2Domain) = Some h"
    and pair: "pairing_ok B (fst (bls_SetBytes B (vc_AggregateSignature certificate))) h P"
    unfolding cvVerifyValidationCertificateV2_def Let_def by (auto simp: run_simps not_less)
  obtain p where p: "bls_SetBytes B (vc_AggregateSignature certificate) = (p, Some SizeOfG1AffineCompressed)"
    using certificate_wire_D [OF w] by blast
  have ms: "\<forall>m \<in> set sample. vm_memberIndex material m \<noteq> None" and d: "distinct sample"
    using q(2) by (auto simp: cvValidValidatorSampleV2_def list_all_iff)
  have nP: "n = length signers" "P = bls_SmulG2 B (bls_genG2 B) (\<Sum>m \<leftarrow> signers. sk m)"
    using loop verify_loop_eq [OF B k ms, of "vc_SignerBitmap certificate" 0 0 0] by (auto simp: signers_def)
  have "p = g1_smul B h (\<Sum>m \<leftarrow> signers. sk m)"
    using pair p bls_lawsD(8) [OF B bls_lawsD(7) [OF B p]] bls_lawsD(2) [OF B h] nP(2) by simp
  then show ?thesis
    using that st h p n nP q(1) d bls_g2D(2) [OF B] distinct_signers_from [OF d] set_signers_from
    by (simp add: signers_def)
qed

text \<open>C24: an accepted validation certificate is a quorum: its bitmap names at least \<open>quorum\<close> distinct
  sampled validators, and its signature is the hash point times the sum of exactly their secrets, so
  every one of them contributed to this header.\<close>

theorem validation_certificate_sound:
  assumes "bls_laws B" "keyed B material sk"
    and "cvVerifyValidationCertificateV2 B certificate header sample quorum material"
  shows "let signers = signers_from (vc_SignerBitmap certificate) 0 sample in
    distinct signers \<and> set signers \<subseteq> set sample \<and> quorum \<le> int (length signers) \<and>
    (\<exists>st h. cvValidationStatementV2 sample header = Some st \<and>
      bls_HashToG1 B (domainDigest cvValidationCertificateV2Domain st) (str_bytes cvValidationCertificateV2Domain) = Some h \<and>
      fst (bls_SetBytes B (vc_AggregateSignature certificate)) = g1_smul B h (\<Sum>m \<leftarrow> signers. sk m))"
proof -
  show ?thesis by (rule verify_certificate_D [OF assms]) (simp add: Let_def)
qed

text \<open>Two accepted certificates over one sample of \<open>n\<close> validators have at least
  \<open>2 * quorum - n\<close> signers in common, whatever headers they certify.\<close>

theorem validation_quorums_intersect:
  assumes "bls_laws B" "keyed B material sk"
    and "cvVerifyValidationCertificateV2 B c1 header1 sample quorum material"
    and "cvVerifyValidationCertificateV2 B c2 header2 sample quorum material"
  shows "2 * quorum - int (length sample) \<le>
    int (card (set (signers_from (vc_SignerBitmap c1) 0 sample) \<inter> set (signers_from (vc_SignerBitmap c2) 0 sample)))"
proof -
  let ?s1 = "signers_from (vc_SignerBitmap c1) 0 sample" and ?s2 = "signers_from (vc_SignerBitmap c2) 0 sample"
  have "distinct ?s1 \<and> set ?s1 \<subseteq> set sample \<and> quorum \<le> int (length ?s1) \<and> distinct sample"
    by (rule verify_certificate_D [OF assms(1,2,3)]) simp
  moreover have "distinct ?s2 \<and> set ?s2 \<subseteq> set sample \<and> quorum \<le> int (length ?s2)"
    by (rule verify_certificate_D [OF assms(1,2,4)]) simp
  moreover have "card (set ?s1) + card (set ?s2) = card (set ?s1 \<union> set ?s2) + card (set ?s1 \<inter> set ?s2)"
    by (rule card_Un_Int) simp_all
  moreover have "card (set ?s1 \<union> set ?s2) \<le> card (set sample)" using calculation by (intro card_mono) auto
  ultimately show ?thesis by (simp add: distinct_card)
qed

section \<open>Honest signatures build a certificate\<close>

lemma build_loop_eq:
  assumes B: "bls_laws B" and k: "keyed B material sk" and h: "g1_in B h" "\<not> g1_IsInfinity B h"
    and H: "bls_HashToG1 B (domainDigest cvValidationCertificateV2Domain st) (str_bytes cvValidationCertificateV2Domain) = Some h"
    and st: "length st = 32"
    and ms: "\<forall>m \<in> set ms. vm_memberIndex material m \<noteq> None"
    and sg: "\<forall>m \<in> set ms. \<forall>w. map_of signatures m = Some w \<longrightarrow> w = bls_Bytes B (g1_smul B h (sk m)) \<and> sk m \<noteq> 0"
    and room: "i + length ms \<le> 8 * length bm"
  shows "\<exists>bm'. build_loop B material v st signatures i ms bm (g1_smul B h a) n =
      Some (bm', g1_smul B h (a + (\<Sum>m \<leftarrow> filter (\<lambda>m. map_of signatures m \<noteq> None) ms. sk m)),
        n + length (filter (\<lambda>m. map_of signatures m \<noteq> None) ms)) \<and>
    length bm' = length bm \<and>
    (\<forall>j < 8 * length bm. bitmap_get bm' j \<longleftrightarrow> bitmap_get bm j \<or>
      (i \<le> j \<and> j < i + length ms \<and> map_of signatures (ms ! (j - i)) \<noteq> None))"
  using ms sg room
proof (induction ms arbitrary: i bm a n)
  case (Cons m ms)
  show ?case
  proof (cases "map_of signatures m")
    case None
    have shift: "(i \<le> j \<and> j < i + length (m # ms) \<and> map_of signatures ((m # ms) ! (j - i)) \<noteq> None) \<longleftrightarrow>
        (Suc i \<le> j \<and> j < Suc i + length ms \<and> map_of signatures (ms ! (j - Suc i)) \<noteq> None)" for j
      using None by (cases "j = i") (auto simp: nth_Cons' diff_Suc split: nat.splits)
    show ?thesis using Cons.IH [of "Suc i" bm a n] Cons.prems None unfolding shift by simp
  next
    case (Some w)
    have w: "w = bls_Bytes B (g1_smul B h (sk m))" "sk m \<noteq> 0" using Cons.prems Some by auto
    have inw: "g1_in B (g1_smul B h (sk m))" "\<not> g1_IsInfinity B (g1_smul B h (sk m))"
      using bls_lawsD(9) [OF B h(1)] g1_lawsD(8) [OF bls_lawsD(1) [OF B] h(1)] h(2) w(2) by auto
    have set: "bls_SetBytes B w = (g1_smul B h (sk m), Some SizeOfG1AffineCompressed)" "length w = SizeOfG1AffineCompressed"
      using bls_lawsD(5,6) [OF B] inw w by auto
    have pk: "vm_public material m = Some (bls_SmulG2 B (bls_genG2 B) (sk m))" using keyed_public [OF k] Cons.prems by simp
    have ver: "cvVerifyValidatorSignatureV2 B (bls_SmulG2 B (bls_genG2 B) (sk m)) cvValidationCertificateV2Domain st w"
      using bls_g2D(3) [OF B] bls_lawsD(8) [OF B inw(1) h(1)] set w st H inw
      by (simp add: cvVerifyValidatorSignatureV2_def cvValidG1_def g1_in_def dom_defs)
    have add: "g1_add B (g1_smul B h a) (g1_smul B h (sk m)) = g1_smul B h (a + sk m)"
      using g1_lawsD(6) [OF bls_lawsD(1) [OF B] h(1)] by simp
    have room: "i < 8 * length bm" "Suc i + length ms \<le> 8 * length (bitmap_set bm i)" using Cons.prems by simp_all
    have shift: "(bitmap_get bm j \<or> (i \<le> j \<and> j < i + length (m # ms) \<and> map_of signatures ((m # ms) ! (j - i)) \<noteq> None)) \<longleftrightarrow>
        (bitmap_get (bitmap_set bm i) j \<or>
          (Suc i \<le> j \<and> j < Suc i + length ms \<and> map_of signatures (ms ! (j - Suc i)) \<noteq> None))" if "j < 8 * length bm" for j
      using Some bitmap_get_set [OF room(1) that] by (cases "j = i") (auto simp: nth_Cons' diff_Suc split: nat.splits)
    have step: "build_loop B material v st signatures i (m # ms) bm (g1_smul B h a) n =
        build_loop B material v st signatures (Suc i) ms (bitmap_set bm i) (g1_smul B h (a + sk m)) (n + 1)"
      using pk ver by (simp add: Some set(1) add)
    obtain bm' where ih: "build_loop B material v st signatures (Suc i) ms (bitmap_set bm i) (g1_smul B h (a + sk m)) (n + 1) =
        Some (bm', g1_smul B h (a + sk m + (\<Sum>m \<leftarrow> filter (\<lambda>m. map_of signatures m \<noteq> None) ms. sk m)),
          n + 1 + length (filter (\<lambda>m. map_of signatures m \<noteq> None) ms))"
      "length bm' = length (bitmap_set bm i)"
      "\<forall>j < 8 * length (bitmap_set bm i). bitmap_get bm' j \<longleftrightarrow> bitmap_get (bitmap_set bm i) j \<or>
        (Suc i \<le> j \<and> j < Suc i + length ms \<and> map_of signatures (ms ! (j - Suc i)) \<noteq> None)"
      using Cons.IH [of "Suc i" "bitmap_set bm i" "a + sk m" "n + 1"] Cons.prems room(2) by auto
    show ?thesis
    proof (intro exI conjI allI impI)
      show "build_loop B material v st signatures i (m # ms) bm (g1_smul B h a) n =
        Some (bm', g1_smul B h (a + (\<Sum>m \<leftarrow> filter (\<lambda>m. map_of signatures m \<noteq> None) (m # ms). sk m)),
          n + length (filter (\<lambda>m. map_of signatures m \<noteq> None) (m # ms)))"
        unfolding step ih(1) using Some by (simp add: add.assoc)
      show "length bm' = length bm" using ih(2) by simp
      fix j assume "j < 8 * length bm"
      then show "bitmap_get bm' j \<longleftrightarrow> bitmap_get bm j \<or>
          (i \<le> j \<and> j < i + length (m # ms) \<and> map_of signatures ((m # ms) ! (j - i)) \<noteq> None)"
        using ih(3) shift by simp
    qed
  qed
qed auto

lemma signers_from_filter:
  "(\<And>j. j < length ms \<Longrightarrow> bitmap_get bm (i + j) \<longleftrightarrow> P (ms ! j)) \<Longrightarrow> signers_from bm i ms = filter P ms"
proof (induction ms arbitrary: i)
  case (Cons m ms)
  have "signers_from bm (Suc i) ms = filter P ms"
    by (rule Cons.IH) (use Cons.prems [of "Suc _"] in simp)
  then show ?case using Cons.prems [of 0] by simp
qed simp

lemma high_bits_zero:
  assumes "0 < n" "length bm = (n + 7) div 8" and z: "\<And>j. n \<le> j \<Longrightarrow> j < 8 * length bm \<Longrightarrow> \<not> bitmap_get bm j"
  shows "cvValidationBitmapHighBitsZeroV2 bm (int n)"
proof -
  let ?u = "8 * length bm - n"
  have u: "?u < 8" "n \<le> 8 * length bm" "0 < length bm" using assms(1,2) by auto
  have "bm ! (length bm - 1) AND push_bit (8 - ?u) 0xFF = 0" if "?u \<noteq> 0"
  proof (rule bit_eqI)
    fix k
    assume "possible_bit TYPE(8 word) k"
    then have k: "k < 8" by simp
    let ?j = "8 * (length bm - 1) + k"
    have j: "?j div 8 = length bm - 1" "?j mod 8 = k" "?j < 8 * length bm" using k u by (cases bm; simp)+
    show "bit (bm ! (length bm - 1) AND push_bit (8 - ?u) 0xFF) k = bit (0 :: byte) k"
    proof (cases "8 - ?u \<le> k")
      case True
      then have "n \<le> ?j" using u by linarith
      then have "\<not> bit (bm ! (length bm - 1)) k" using z [OF _ j(3)] j by (simp add: bitmap_get_bit)
      then show ?thesis by (simp add: bit_and_iff)
    next
      case False
      then show ?thesis by (simp add: bit_and_iff bit_push_bit_iff)
    qed
  qed
  moreover have "int (length bm) = cvValidationBitmapBytesV2 (int n)"
    using assms(1,2) by (simp add: cvValidationBitmapBytesV2_def zdiv_int)
  moreover have "int (length bm) * 8 - int n = int ?u" using u by simp
  moreover have "nat (8 - int ?u) = 8 - ?u" using u by simp
  ultimately show ?thesis using assms(1) unfolding cvValidationBitmapHighBitsZeroV2_def Let_def
    by (metis of_nat_0_less_iff of_nat_eq_0_iff not_less)
qed

lemma sign_validation_D:
  assumes "cvSignValidationV2 B m header sample material = Some w" "vm_localSecrets material m = Some s"
  obtains st h where "cvValidationStatementV2 sample header = Some st" "m \<in> set sample" "s \<noteq> 0"
    "bls_HashToG1 B (domainDigest cvValidationCertificateV2Domain st) (str_bytes cvValidationCertificateV2Domain) = Some h"
    "w = bls_Bytes B (g1_smul B h s)" "length st = 32"
proof -
  have mem: "foldl (\<lambda>p x. p \<or> x = m) b xs \<longleftrightarrow> b \<or> m \<in> set xs" for b xs
    by (induction xs arbitrary: b) auto
  show ?thesis using assms that
    by (auto simp: cvSignValidationV2_def cvSignValidatorV2_def run_simps mem)
qed

lemma filter_keys:
  assumes "distinct sample" "distinct (map fst xs)" "fst ` set xs \<subseteq> set sample"
  shows "set (filter (\<lambda>m. map_of xs m \<noteq> None) sample) = fst ` set xs"
    and "length (filter (\<lambda>m. map_of xs m \<noteq> None) sample) = length xs"
proof -
  have "map_of xs m \<noteq> None \<longleftrightarrow> m \<in> fst ` set xs" for m by (simp add: map_of_eq_None_iff)
  then show s: "set (filter (\<lambda>m. map_of xs m \<noteq> None) sample) = fst ` set xs" using assms(3) by auto
  have "length (filter (\<lambda>m. map_of xs m \<noteq> None) sample) = card (fst ` set xs)"
    using distinct_card [of "filter (\<lambda>m. map_of xs m \<noteq> None) sample"] assms(1) s by simp
  also have "\<dots> = length xs" using distinct_card [OF assms(2)] by simp
  finally show "length (filter (\<lambda>m. map_of xs m \<noteq> None) sample) = length xs" .
qed

lemma verify_honest:
  assumes B: "bls_laws B" and k: "keyed B material sk" and valid: "cvValidValidatorSampleV2 sample material"
    and q: "0 < quorum" "quorum \<le> int (length (signers_from bm 0 sample))" "quorum \<le> int (length sample)"
    and st: "cvValidationStatementV2 sample header = Some st"
    and H: "bls_HashToG1 B (domainDigest cvValidationCertificateV2Domain st) (str_bytes cvValidationCertificateV2Domain) = Some h"
    and nz: "(\<Sum>m \<leftarrow> signers_from bm 0 sample. sk m) \<noteq> 0"
    and bm: "length bm = (length sample + 7) div 8" "cvValidationBitmapHighBitsZeroV2 bm (int (length sample))"
  shows "cvVerifyValidationCertificateV2 B \<lparr> vc_SignerBitmap = bm,
    vc_AggregateSignature = bls_Bytes B (g1_smul B h (\<Sum>m \<leftarrow> signers_from bm 0 sample. sk m)) \<rparr>
    header sample quorum material"
proof -
  let ?s = "\<Sum>m \<leftarrow> signers_from bm 0 sample. sk m"
  have h: "g1_in B h" "\<not> g1_IsInfinity B h" using bls_lawsD(2) [OF B H] by auto
  have p: "g1_in B (g1_smul B h ?s)" "\<not> g1_IsInfinity B (g1_smul B h ?s)"
    using bls_lawsD(9) [OF B h(1)] g1_lawsD(8) [OF bls_lawsD(1) [OF B] h(1)] h(2) nz by auto
  have ne: "sample \<noteq> []" "cvDistinctNonNegativeIDs sample" "\<forall>m \<in> set sample. vm_memberIndex material m \<noteq> None"
    using valid by (auto simp: cvValidValidatorSampleV2_def list_all_iff)
  have len: "int (length bm) = cvValidationBitmapBytesV2 (int (length sample))"
    using ne(1) bm(1) by (simp add: cvValidationBitmapBytesV2_def zdiv_int)
  have canon: "cvValidationCertificateV2CanonicalBytes B \<lparr> vc_SignerBitmap = bm,
      vc_AggregateSignature = bls_Bytes B (g1_smul B h ?s) \<rparr> sample \<noteq> None"
    using ne len bm(2) p bls_lawsD(5,6) [OF B]
    by (simp add: cvValidationCertificateV2CanonicalBytes_def cvValidG1_def g1_in_def)
  show ?thesis
    using canon q valid verify_loop_eq [OF B k ne(3), of bm 0 0 0] bls_g2D(2) [OF B] nz st H p bls_lawsD(6) [OF B p(1)]
      bls_lawsD(8) [OF B p(1) h(1)]
    by (auto simp: cvVerifyValidationCertificateV2_def)
qed

lemma honest_certificate_builds:
  assumes B: "bls_laws B" and k: "keyed B material sk" and valid: "cvValidValidatorSampleV2 sample material"
    and q: "0 < quorum" "quorum \<le> int (length signatures)"
    and d: "distinct (map fst signatures)"
    and sg: "\<forall>(m, w) \<in> set signatures. \<exists>own. vm_localSecrets own m = Some (sk m) \<and>
      cvSignValidationV2 B m header sample own = Some w"
    and nz: "(\<Sum>m \<in> fst ` set signatures. sk m) \<noteq> 0"
  shows "\<exists>certificate. cvBuildValidationCertificateModeV2 B header sample quorum signatures material v = Some certificate \<and>
    set (signers_from (vc_SignerBitmap certificate) 0 sample) = fst ` set signatures"
proof -
  have ne: "sample \<noteq> []" "distinct sample" "\<forall>m \<in> set sample. vm_memberIndex material m \<noteq> None"
    using valid by (auto simp: cvValidValidatorSampleV2_def list_all_iff)
  obtain m0 w0 where m0: "(m0, w0) \<in> set signatures" using q by (cases signatures) auto
  obtain st h where st: "cvValidationStatementV2 sample header = Some st" "length st = 32"
    and H: "bls_HashToG1 B (domainDigest cvValidationCertificateV2Domain st) (str_bytes cvValidationCertificateV2Domain) = Some h"
    using sg m0 sign_validation_D by (smt (verit) case_prodD)
  have each: "m \<in> set sample \<and> sk m \<noteq> 0 \<and> w = bls_Bytes B (g1_smul B h (sk m))" if mw: "(m, w) \<in> set signatures" for m w
  proof -
    obtain own where own: "cvSignValidationV2 B m header sample own = Some w" "vm_localSecrets own m = Some (sk m)"
      using sg mw by blast
    show ?thesis by (rule sign_validation_D [OF own]) (use st H in simp)
  qed
  have sub: "fst ` set signatures \<subseteq> set sample" using each by auto
  let ?F = "filter (\<lambda>m. map_of signatures m \<noteq> None) sample"
  let ?bm = "replicate (nat (cvValidationBitmapBytesV2 (int (length sample)))) (0 :: byte)"
  note F = filter_keys [OF ne(2) d sub]
  have h: "g1_in B h" "\<not> g1_IsInfinity B h" using bls_lawsD(2) [OF B H] by auto
  have w: "\<forall>m \<in> set sample. \<forall>w. map_of signatures m = Some w \<longrightarrow> w = bls_Bytes B (g1_smul B h (sk m)) \<and> sk m \<noteq> 0"
    using each map_of_SomeD by fastforce
  have lenbm: "length ?bm = (length sample + 7) div 8" using ne(1) by (simp add: bitmap_bytes)
  have room: "0 + length sample \<le> 8 * length ?bm" using lenbm by simp
  have start: "g1_smul B (bls_genG1 B) 0 = g1_smul B h 0"
    using bls_lawsD(10) [OF B] h g1_lawsD(5) [OF bls_lawsD(1) [OF B]] by simp
  obtain bm' where loop: "build_loop B material v st signatures 0 sample ?bm (g1_smul B (bls_genG1 B) 0) 0 =
      Some (bm', g1_smul B h (\<Sum>m \<leftarrow> ?F. sk m), length ?F)"
    and len': "length bm' = length ?bm"
    and bits: "\<forall>j < 8 * length ?bm. bitmap_get bm' j \<longleftrightarrow> bitmap_get ?bm j \<or>
      (0 \<le> j \<and> j < 0 + length sample \<and> map_of signatures (sample ! (j - 0)) \<noteq> None)"
    using build_loop_eq [OF B k h H st(2) ne(3) w room, of v 0 0] unfolding start by auto
  have zero: "j < 8 * length ?bm \<Longrightarrow> \<not> bitmap_get ?bm j" for j using bitmap_zero by simp
  have signers: "signers_from bm' 0 sample = ?F"
    by (rule signers_from_filter) (use bits zero room in auto)
  have high: "cvValidationBitmapHighBitsZeroV2 bm' (int (length sample))"
    by (rule high_bits_zero) (use ne(1) lenbm len' bits zero in auto)
  have sum: "(\<Sum>m \<leftarrow> ?F. sk m) \<noteq> 0"
    using nz sum_list_distinct_conv_sum_set [of ?F sk] ne(2) F(1) by simp
  have le: "length signatures \<le> length sample" using F(2) length_filter_le [of _ sample] by metis
  have ver: "cvVerifyValidationCertificateV2 B \<lparr> vc_SignerBitmap = bm',
      vc_AggregateSignature = bls_Bytes B (g1_smul B h (\<Sum>m \<leftarrow> ?F. sk m)) \<rparr> header sample quorum material"
    using verify_honest [OF B k valid q(1) _ _ st(1) H, of bm'] sum high len' lenbm q(2) F(2) le unfolding signers by simp
  show ?thesis
    using q le valid st(1) loop F(2) ver signers F(1)
    by (simp add: cvBuildValidationCertificateModeV2_def)
qed

text \<open>A quorum suffices: when at least \<open>quorum\<close> sampled validators sign the header with their own
  keys, and their keys do not cancel out, the certificate is built, whether or not the signatures are
  verified one by one, and its signers are exactly those validators.\<close>

theorem honest_quorum_certifies:
  assumes "bls_laws B" "keyed B material sk" "cvValidValidatorSampleV2 sample material"
    and "0 < quorum" "quorum \<le> int (length signatures)" "distinct (map fst signatures)"
    and "\<forall>(m, w) \<in> set signatures. \<exists>own. vm_localSecrets own m = Some (sk m) \<and>
      cvSignValidationV2 B m header sample own = Some w"
    and "(\<Sum>m \<in> fst ` set signatures. sk m) \<noteq> 0"
  shows "\<exists>certificate. cvBuildValidationCertificateModeV2 B header sample quorum signatures material v = Some certificate \<and>
    set (signers_from (vc_SignerBitmap certificate) 0 sample) = fst ` set signatures"
  using assms by (rule honest_certificate_builds)

section \<open>The certificate codec is canonical\<close>

lemma validation_domain_length [simp]: "length cvValidationCertificateV2Domain < 4294967296"
  by (simp add: dom_defs)

interpretation validation_codec: wire_codec "\<lambda>c. cvValidationCertificateV2CanonicalBytes B c sample"
  "\<lambda>w. cvDecodeValidationCertificateV2 B w sample" "\<lambda>c. length (vc_SignerBitmap c) < 4294967296"
  for B :: "('g, 'h, 'f) bls" and sample
proof
  fix c w
  assume l: "length (vc_SignerBitmap c) < 4294967296" and enc: "cvValidationCertificateV2CanonicalBytes B c sample = Some w"
  have len: "int (length (vc_SignerBitmap c)) = cvValidationBitmapBytesV2 (int (length sample))"
    "length (vc_AggregateSignature c) = SizeOfG1AffineCompressed"
    using enc by (auto simp: cvValidationCertificateV2CanonicalBytes_def run_simps)
  have w: "w = put_be 4 (length cvValidationCertificateV2Domain) @ str_bytes cvValidationCertificateV2Domain @
      put_be 4 (length (vc_SignerBitmap c)) @ vc_SignerBitmap c @ put_be 4 (length (vc_AggregateSignature c)) @ vc_AggregateSignature c"
    using enc l len by (auto simp: cvValidationCertificateV2CanonicalBytes_def run_simps SizeOfG1AffineCompressed_def split: prod.splits)
  have eta: "\<lparr> vc_SignerBitmap = vc_SignerBitmap c, vc_AggregateSignature = vc_AggregateSignature c \<rparr> = c" by simp
  have max: "length (vc_SignerBitmap c) \<le> nat (cvValidationBitmapBytesV2 (int (length sample)))" using len(1) by simp
  show "cvDecodeValidationCertificateV2 B w sample = Some c"
    using enc unfolding cvDecodeValidationCertificateV2_def w newCVWireReader_id
    using l len max by (simp add: wire_simps eta SizeOfG1AffineCompressed_def)
next
  fix c w
  assume "cvDecodeValidationCertificateV2 B w sample = Some c"
  then show "length (vc_SignerBitmap c) < 4294967296"
    unfolding cvDecodeValidationCertificateV2_def Let_def by (auto simp: run_simps dest: cvReadBytes_SomeD(3))
qed (auto simp: cvDecodeValidationCertificateV2_def run_simps Let_def)

text \<open>A certificate has one wire form for its sample: the decoder accepts exactly the canonical
  encodings, so in particular no certificate with bits set beyond the sample or with a signature that
  is not a point of the group.\<close>

theorem validation_wire_canonical:
  "cvDecodeValidationCertificateV2 B w sample = Some c \<longleftrightarrow>
   length (vc_SignerBitmap c) < 4294967296 \<and> cvValidationCertificateV2CanonicalBytes B c sample = Some w"
  by (rule validation_codec.decode_iff)

section \<open>The statement binds sample and header\<close>

definition statement_message :: "int list \<Rightarrow> cvAggregateHeaderV2 \<Rightarrow> bytes" where
  "statement_message sample header = str_bytes cvValidationStatementV2Domain @ put_be 4 (length sample) @
     concat (map (\<lambda>member. cvWriteUint64 (u64 member)) sample) @
     dropped (cvWriteBytes (the (cvAggregateHeaderV2CanonicalBytes header)))"

lemma concat_uint64_inj:
  assumes "list_all (\<lambda>m. 0 \<le> m \<and> int64 m) xs" "list_all (\<lambda>m. 0 \<le> m \<and> int64 m) ys" "length xs = length ys"
    and "concat (map (\<lambda>m. cvWriteUint64 (u64 m)) xs) @ r = concat (map (\<lambda>m. cvWriteUint64 (u64 m)) ys) @ s"
  shows "xs = ys \<and> r = s"
proof -
  have rd: "cvReadList cvReadMember (length zs) (concat (map (\<lambda>m. cvWriteUint64 (u64 m)) zs) @ t) = Some (zs, t)"
    if "list_all (\<lambda>m. 0 \<le> m \<and> int64 m) zs" for zs t
    by (rule read_list) (use that in \<open>simp_all add: list_all_iff cvReadMember_def wire_simps\<close>)
  have "Some (xs, r) = Some (ys, s)"
    using rd [OF assms(1), of r] rd [OF assms(2), of s] unfolding assms(3,4) by (simp only:)
  then show ?thesis by simp
qed

lemma statement_D:
  assumes "cvValidationStatementV2 sample header = Some st"
  obtains w where "cvAggregateHeaderV2CanonicalBytes header = Some w" "length w \<le> 512" "length sample < 4294967296"
    "\<forall>m \<in> set sample. 0 \<le> m" "st = sha256 (statement_message sample header)"
proof -
  from assms obtain w c where w: "cvAggregateHeaderV2CanonicalBytes header = Some w"
    and c: "cvWriteUint32 (int (length sample)) = Some c" and n: "\<forall>m \<in> set sample. 0 \<le> m"
    and st: "st = hashBytes [str_bytes cvValidationStatementV2Domain,
      c @ concat (map (\<lambda>m. cvWriteUint64 (u64 m)) sample) @ dropped (cvWriteBytes w)]"
    by (auto simp: cvValidationStatementV2_def run_simps)
  have len: "length sample < 4294967296" "c = put_be 4 (length sample)"
    using c by (auto simp: cvWriteUint32_def split: if_splits)
  show ?thesis
    by (rule that [OF w aggregate_header_fields(10) [OF w] len(1) n])
       (use w len(2) st in \<open>simp add: statement_message_def hashBytes_def\<close>)
qed

text \<open>A validation statement names one sample and one header: equal statements come from equal
  samples and headers, or the two messages collide under SHA-256.\<close>

theorem validation_statement_binding:
  assumes "cvValidationStatementV2 sample1 header1 = Some st" "cvValidationStatementV2 sample2 header2 = Some st"
    and "list_all int64 sample1" "list_all int64 sample2" "int64 (ah_ProposerID header1)" "int64 (ah_ProposerID header2)"
  shows "(sample1 = sample2 \<and> header1 = header2) \<or>
    (statement_message sample1 header1 \<noteq> statement_message sample2 header2 \<and>
     sha256 (statement_message sample1 header1) = sha256 (statement_message sample2 header2))"
proof -
  obtain w1 where w1: "cvAggregateHeaderV2CanonicalBytes header1 = Some w1" "length w1 \<le> 512" "length sample1 < 4294967296"
    "\<forall>m \<in> set sample1. 0 \<le> m" "st = sha256 (statement_message sample1 header1)" using statement_D [OF assms(1)] .
  obtain w2 where w2: "cvAggregateHeaderV2CanonicalBytes header2 = Some w2" "length w2 \<le> 512" "length sample2 < 4294967296"
    "\<forall>m \<in> set sample2. 0 \<le> m" "st = sha256 (statement_message sample2 header2)" using statement_D [OF assms(2)] .
  show ?thesis
  proof (cases "statement_message sample1 header1 = statement_message sample2 header2")
    case True
    then have eq: "put_be 4 (length sample1) = put_be 4 (length sample2)"
      "concat (map (\<lambda>m. cvWriteUint64 (u64 m)) sample1) @ put_be 4 (length w1) @ w1 =
       concat (map (\<lambda>m. cvWriteUint64 (u64 m)) sample2) @ put_be 4 (length w2) @ w2"
      using w1(1,2) w2(1,2) by (auto simp: statement_message_def)
    have "length sample1 = length sample2" using put_be_inject [of "length sample1" 4 "length sample2"] eq(1) w1(3) w2(3) by simp
    then have "sample1 = sample2 \<and> put_be 4 (length w1) @ w1 = put_be 4 (length w2) @ w2"
      by (intro concat_uint64_inj [OF _ _ _ eq(2)]) (use assms w1(4) w2(4) in \<open>auto simp: list_all_iff\<close>)
    then have "sample1 = sample2" "w1 = w2" using put_be_prefix_inject [of w1 w2 "[]" "[]"] w1(2) w2(2) by auto
    then show ?thesis using aggregate_header_inj [OF assms(5,6)] w1(1) w2(1) by blast
  qed (use w1(5) w2(5) in simp)
qed

end
