(* ===== verification/Network.thy ===== *)
theory Network
  imports Validation "HOL-Library.AList"
begin

text \<open>
  The network layer: message frames (\<^verbatim>\<open>src/core/transport_tcp_loopback.go\<close>, \<^verbatim>\<open>transport_types.go\<close>), envelopes
  (\<^verbatim>\<open>src/core/cv_sapvss_router.go\<close>) and the V2 authenticator with its two caches
  (\<^verbatim>\<open>src/core/cv_sapvss_network_auth_v2.go\<close>).  Ed25519 of Go's library is the record \<open>ed25519\<close> of its two operations,
  keys and signatures being byte slices; what is used of it is that a signature made with a private key verifies
  under its public half and has 64 bytes.  The main results: a sealed and framed message is read back and opened
  to the same envelope; whatever sequence of messages an authenticator has opened, a message it accepts carries
  a valid signature of its claimed sender, or two different cache entries have one SHA-256 digest.
\<close>

section \<open>Messages and frames\<close>

record Message =
  m_From :: int
  m_To :: int
  m_Tag :: string
  m_Body :: bytes
  m_WireBytes :: int

definition tcpMessageFrameVersion :: byte where
  "tcpMessageFrameVersion = 1"

definition tcpMessageFrameFixedBytes :: nat where
  "tcpMessageFrameFixedBytes = 17"

definition tcpMessageMaxTagBytes :: nat where
  "tcpMessageMaxTagBytes = 4096"

definition cvNetworkAuthBytes :: nat where
  "cvNetworkAuthBytes = 1 + 4 + SizeOfG1AffineCompressed + 32"

definition cvNetworkEnvelopeVersion :: byte where
  "cvNetworkEnvelopeVersion = 1"

definition cvNetworkEnvelopeFixedBytes :: nat where
  "cvNetworkEnvelopeFixedBytes = 17"

lemmas frame_sizes = tcpMessageFrameFixedBytes_def tcpMessageMaxTagBytes_def cvNetworkAuthBytes_def
  cvNetworkEnvelopeFixedBytes_def cvMaxNetworkEnvelopeSIDBytes_def SizeOfG1AffineCompressed_def wire_limits

text \<open>The largest body a frame may carry.\<close>

definition max_frame_body :: nat where
  "max_frame_body = cvMaxNetworkPayloadBytes + cvNetworkEnvelopeFixedBytes + cvMaxNetworkEnvelopeSIDBytes + cvNetworkAuthBytes"

definition tcpMessageFrame :: "Message \<Rightarrow> bytes option" where
  "tcpMessageFrame msg = do {
     require (\<not> (m_From msg < 0 \<or> m_To msg < 0 \<or> m_From msg > 4294967295 \<or> m_To msg > 4294967295 \<or> length (m_Tag msg) = 0 \<or>
       length (m_Tag msg) > tcpMessageMaxTagBytes \<or> length (m_Body msg) > max_frame_body));
     Some ([tcpMessageFrameVersion] @ put_be 4 (nat (m_From msg)) @ put_be 4 (nat (m_To msg)) @ put_be 4 (length (m_Tag msg)) @
       put_be 4 (length (m_Body msg)) @ str_bytes (m_Tag msg) @ m_Body msg)
   }"

text \<open>\<open>reader\<close> is what the connection still delivers; \<^verbatim>\<open>io.ReadFull\<close> fails when it is too short.  The result is
  the message, the number of bytes read and the rest.\<close>

definition readTCPMessageFrame :: "bytes \<Rightarrow> (Message \<times> nat \<times> bytes) option" where
  "readTCPMessageFrame reader = do {
     require (tcpMessageFrameFixedBytes \<le> length reader);
     let header = take tcpMessageFrameFixedBytes reader;
     let reader = drop tcpMessageFrameFixedBytes reader;
     require (header ! 0 = tcpMessageFrameVersion);
     let tagBytes = get_be (take 4 (drop 9 header));
     let bodyBytes = get_be (take 4 (drop 13 header));
     require (\<not> (tagBytes \<le> 0 \<or> tagBytes > tcpMessageMaxTagBytes \<or> bodyBytes > max_frame_body));
     require (tagBytes + bodyBytes \<le> length reader);
     let payload = take (tagBytes + bodyBytes) reader;
     Some (\<lparr> m_From = int (get_be (take 4 (drop 1 header))), m_To = int (get_be (take 4 (drop 5 header))),
             m_Tag = bytes_str (take tagBytes payload), m_Body = drop tagBytes payload, m_WireBytes = 0 \<rparr>,
           length header + length payload, drop (tagBytes + bodyBytes) reader)
   }"

section \<open>Envelopes\<close>

definition cvEncodeNetworkEnvelope :: "string \<Rightarrow> int \<Rightarrow> bytes \<Rightarrow> bytes option" where
  "cvEncodeNetworkEnvelope sid epoch payload = do {
     require (\<not> (sid = [] \<or> length sid > cvMaxNetworkEnvelopeSIDBytes \<or> epoch < 0));
     require (\<not> length payload > cvMaxNetworkPayloadBytes);
     Some ([cvNetworkEnvelopeVersion] @ put_be 4 (length sid) @ str_bytes sid @ put_be 8 (u64 epoch) @
       put_be 4 (length payload) @ payload)
   }"

definition cvDecodeNetworkEnvelope :: "bytes \<Rightarrow> string \<Rightarrow> int \<Rightarrow> bytes option" where
  "cvDecodeNetworkEnvelope wire expectedSID expectedEpoch = do {
     require (\<not> (expectedSID = [] \<or> length expectedSID > cvMaxNetworkEnvelopeSIDBytes \<or> expectedEpoch < 0));
     let maximum = cvNetworkEnvelopeFixedBytes + length expectedSID + cvMaxNetworkPayloadBytes;
     require (\<not> (length wire < cvNetworkEnvelopeFixedBytes + length expectedSID \<or> length wire > maximum \<or>
       wire ! 0 \<noteq> cvNetworkEnvelopeVersion));
     let offset = 1;
     let sidLength = get_be (take 4 (drop offset wire));
     let offset = offset + 4;
     require (\<not> (sidLength \<noteq> length expectedSID \<or> sidLength > length wire - offset \<or>
       take sidLength (drop offset wire) \<noteq> str_bytes expectedSID));
     let offset = offset + sidLength;
     require (\<not> (length wire - offset < 12 \<or> get_be (take 8 (drop offset wire)) \<noteq> u64 expectedEpoch));
     let offset = offset + 8;
     let payloadLength = get_be (take 4 (drop offset wire));
     let offset = offset + 4;
     require (\<not> (payloadLength > cvMaxNetworkPayloadBytes \<or> payloadLength \<noteq> length wire - offset));
     Some (drop offset wire)
   }"

section \<open>Tags\<close>

definition apvssTagLaneOffer :: string where "apvssTagLaneOffer = ''APVSS_LANE_OFFER''"
definition apvssTagLaneACK :: string where "apvssTagLaneACK = ''APVSS_LANE_ACK''"
definition cvTagHandoffV2 :: string where "cvTagHandoffV2 = ''CV_V2_HANDOFF''"
definition cvTagAggregateRecoverGetV2 :: string where "cvTagAggregateRecoverGetV2 = ''CV_V2_AGG_RECOVER_GET''"
definition cvTagAggregateRecoverStoreV2 :: string where "cvTagAggregateRecoverStoreV2 = ''CV_V2_AGG_RECOVER_STORE''"
definition cvTagAggregateShareV2 :: string where "cvTagAggregateShareV2 = ''CV_V2_AGGREGATE_SHARE''"
definition cvTagLaneOfferV2 :: string where "cvTagLaneOfferV2 = ''CV_V2_LANE_OFFER''"
definition cvTagLaneACKV2 :: string where "cvTagLaneACKV2 = ''CV_V2_LANE_ACK''"

text \<open>The tags of the constant block that no rule of the router singles out.\<close>

definition committee_tags :: "string list" where
  "committee_tags =
     [''CV_COMPONENT_INIT'', ''CV_COMPONENT_ACK'', ''CV_COMPONENT_CERT'', ''CV_COMPONENT_GET'', ''CV_COMPONENT_LEAF'',
      ''CV_COMPONENT_READY'', ''CV_ELIGIBILITY_SHARE'', ''CV_AGG_MANIFEST'', ''CV_ARC_SHARE'', ''CV_ARC_CERTIFICATE'',
      ''CV_RECOVER_GET'', ''CV_RECOVER_SHARD'', ''CV_RECOVER_DONE'', ''CV_RECEIPT'', ''CV_RECEIPT_DONE'',
      ''CV_V2_APDB_STORE'', ''CV_V2_APDB_STORED_SHARE'', ''CV_V2_APDB_RECOVER_GET'', ''CV_V2_APDB_RECOVER_STORE'',
      ''CV_V2_APDB_RECOVER_PAYLOAD'', ''CV_V2_COIN_SHARE'', ''CV_V2_POOL_OFFER'', ''CV_V2_POOL_CERT_SHARE'', ''CV_V2_POOL_CERT'',
      ''CV_V2_VALIDATION_REQUEST'', ''CV_V2_VALIDATION_SIGNATURE'', ''CV_V2_VALIDATION_RESULT'', ''CV_V2_DECISION_SHARE'',
      ''CV_V2_COMPONENT_REF'', ''CV_V2_CERTIFIED_CANDIDATE'', ''CV_V2_CERTIFIED_CANDIDATE_ACK'']"

definition cvAllowedNetworkTag :: "string \<Rightarrow> bool" where
  "cvAllowedNetworkTag tag \<longleftrightarrow> tag \<in> set committee_tags \<or>
     tag \<in> {apvssTagLaneOffer, apvssTagLaneACK, cvTagHandoffV2, cvTagAggregateRecoverGetV2, cvTagAggregateRecoverStoreV2,
       cvTagAggregateShareV2, cvTagLaneOfferV2, cvTagLaneACKV2}"

definition cvV2ReceiverOriginatedTag :: "string \<Rightarrow> bool" where
  "cvV2ReceiverOriginatedTag tag \<longleftrightarrow>
     tag = apvssTagLaneACK \<or> tag = cvTagLaneACKV2 \<or> tag = cvTagAggregateRecoverGetV2 \<or> tag = cvTagAggregateShareV2"

section \<open>The authenticator\<close>

definition cvNetworkAuthV2Version :: byte where "cvNetworkAuthV2Version = 2"
definition cvNetworkAuthV2OldAlgorithm :: byte where "cvNetworkAuthV2OldAlgorithm = 1"
definition cvNetworkAuthV2NewAlgorithm :: byte where "cvNetworkAuthV2NewAlgorithm = 2"
definition cvNetworkAuthV2Domain :: string where "cvNetworkAuthV2Domain = ''ARL-CV-sAPVSS/v2-scalar-group/network-auth''"
definition cvNetworkAuthV2OldBLSDomain :: string where
  "cvNetworkAuthV2OldBLSDomain = ''ARL-CV-sAPVSS/v2-scalar-group/network-auth/old-bls''"
definition cvNetworkAuthV2HeaderBytes :: nat where "cvNetworkAuthV2HeaderBytes = 6"
definition cvNetworkAuthV2CacheLimit :: nat where "cvNetworkAuthV2CacheLimit = 4096"

record ed25519 =
  ed_Sign :: "bytes \<Rightarrow> bytes \<Rightarrow> bytes"
  ed_Verify :: "bytes \<Rightarrow> bytes \<Rightarrow> bytes \<Rightarrow> bool"

text \<open>A private key is 64 bytes, its public half the last 32.\<close>

definition ed25519_laws :: "ed25519 \<Rightarrow> bool" where
  "ed25519_laws E \<longleftrightarrow> (\<forall>secret digest. length secret = 64 \<longrightarrow>
     length (ed_Sign E secret digest) = 64 \<and> ed_Verify E (drop 32 secret) digest (ed_Sign E secret digest))"

record ('g, 'f) cvReceiverKeyMaterialV2 =
  rk_receiverOrder :: "int list"
  rk_receiverIndex :: "int \<rightharpoonup> nat"
  rk_encryptionPublicKeys :: "'g list"
  rk_identityPublicKeys :: "bytes list"
  rk_localEncryptionSecrets :: "int \<rightharpoonup> 'f"
  rk_localIdentitySecrets :: "int \<rightharpoonup> bytes"
  rk_registryDigest :: bytes
  rk_sid :: string
  rk_epoch :: nat

record ('h, 'f) cvNetworkAuthenticatorV2 =
  na_sid :: string
  na_epoch :: nat
  na_oldPublicKeys :: "int \<rightharpoonup> 'h"
  na_oldLocalSecrets :: "int \<rightharpoonup> 'f"
  na_receiverPublicKeys :: "int \<rightharpoonup> bytes"
  na_receiverLocalSecrets :: "int \<rightharpoonup> bytes"
  na_sealed :: "(bytes \<times> bytes) list"
  na_opened :: "bytes set"

text \<open>The two loops of the constructor.\<close>

fun old_key_loop ::
  "('g, 'h, 'f::field) bls \<Rightarrow> ('h, 'f) cvValidatorKeyMaterialV2 \<Rightarrow> (int \<times> 'h) list \<Rightarrow> ('h, 'f) cvNetworkAuthenticatorV2 \<Rightarrow>
   ('h, 'f) cvNetworkAuthenticatorV2 option" where
  "old_key_loop B validators [] auth = Some auth"
| "old_key_loop B validators ((member, key) # rest) auth = do {
     require (cvValidG2 B key);
     let auth = auth\<lparr> na_oldPublicKeys := (na_oldPublicKeys auth)(member \<mapsto> key) \<rparr>;
     (case vm_localSecrets validators member of
        None \<Rightarrow> old_key_loop B validators rest auth
      | Some secret \<Rightarrow> do {
          require (secret \<noteq> 0);
          old_key_loop B validators rest (auth\<lparr> na_oldLocalSecrets := (na_oldLocalSecrets auth)(member \<mapsto> secret) \<rparr>)
        })
   }"

fun receiver_key_loop ::
  "('g, 'f) cvReceiverKeyMaterialV2 \<Rightarrow> (int \<times> bytes) list \<Rightarrow> ('h, 'f) cvNetworkAuthenticatorV2 \<Rightarrow>
   ('h, 'f) cvNetworkAuthenticatorV2 option" where
  "receiver_key_loop receivers [] auth = Some auth"
| "receiver_key_loop receivers ((receiver, publicKey) # rest) auth = do {
     require (length publicKey = 32);
     let auth = auth\<lparr> na_receiverPublicKeys := (na_receiverPublicKeys auth)(receiver \<mapsto> publicKey) \<rparr>;
     (case rk_localIdentitySecrets receivers receiver of
        None \<Rightarrow> receiver_key_loop receivers rest auth
      | Some secret \<Rightarrow> do {
          require (\<not> (length secret \<noteq> 64 \<or> drop 32 secret \<noteq> publicKey));
          receiver_key_loop receivers rest (auth\<lparr> na_receiverLocalSecrets := (na_receiverLocalSecrets auth)(receiver \<mapsto> secret) \<rparr>)
        })
   }"

definition newCVNetworkAuthenticatorV2 ::
  "('g, 'h, 'f::field) bls \<Rightarrow> ('h, 'f) cvValidatorKeyMaterialV2 \<Rightarrow> ('g, 'f) cvReceiverKeyMaterialV2 \<Rightarrow>
   ('h, 'f) cvNetworkAuthenticatorV2 option" where
  "newCVNetworkAuthenticatorV2 B validators receivers = do {
     require (\<not> (vm_sid validators = [] \<or> vm_epoch validators = 0 \<or> vm_sid validators \<noteq> rk_sid receivers \<or>
       vm_epoch validators \<noteq> rk_epoch receivers \<or> length (vm_memberOrder validators) \<noteq> length (vm_publicKeys validators) \<or>
       length (rk_receiverOrder receivers) \<noteq> length (rk_identityPublicKeys receivers)));
     let auth = \<lparr> na_sid = vm_sid validators, na_epoch = vm_epoch validators, na_oldPublicKeys = Map.empty,
       na_oldLocalSecrets = Map.empty, na_receiverPublicKeys = Map.empty, na_receiverLocalSecrets = Map.empty,
       na_sealed = [], na_opened = {} \<rparr>;
     auth \<leftarrow> old_key_loop B validators (zip (vm_memberOrder validators) (vm_publicKeys validators)) auth;
     receiver_key_loop receivers (zip (rk_receiverOrder receivers) (rk_identityPublicKeys receivers)) auth
   }"

definition auth_message :: "string \<Rightarrow> nat \<Rightarrow> int \<Rightarrow> int \<Rightarrow> string \<Rightarrow> bytes \<Rightarrow> bytes" where
  "auth_message sid epoch from to tag envelope =
     dropped (cvWriteBytes (str_bytes sid)) @ cvWriteUint64 epoch @ cvWriteUint64 (u64 from) @ cvWriteUint64 (u64 to) @
     dropped (cvWriteBytes (str_bytes tag)) @ dropped (cvWriteBytes envelope)"

definition cvNetworkAuthDigestV2 :: "string \<Rightarrow> nat \<Rightarrow> int \<Rightarrow> int \<Rightarrow> string \<Rightarrow> bytes \<Rightarrow> bytes option" where
  "cvNetworkAuthDigestV2 sid epoch from to tag envelope = do {
     require (\<not> (sid = [] \<or> epoch = 0 \<or> from < 0 \<or> to < 0 \<or> tag = [] \<or> length tag > tcpMessageMaxTagBytes \<or> length envelope = 0));
     Some (hashBytes [str_bytes cvNetworkAuthV2Domain, auth_message sid epoch from to tag envelope])
   }"

text \<open>The signature a member makes, by the algorithm the tag calls for.\<close>

definition make_signature ::
  "('g, 'h, 'f::field) bls \<Rightarrow> ed25519 \<Rightarrow> ('h, 'f) cvNetworkAuthenticatorV2 \<Rightarrow> int \<Rightarrow> string \<Rightarrow> bytes \<Rightarrow> (byte \<times> bytes) option" where
  "make_signature B E a from tag digest =
     (if cvV2ReceiverOriginatedTag tag then do {
        secret \<leftarrow> na_receiverLocalSecrets a from;
        Some (cvNetworkAuthV2NewAlgorithm, ed_Sign E secret digest)
      }
      else do {
        secret \<leftarrow> na_oldLocalSecrets a from;
        signature \<leftarrow> cvSignValidatorV2 B secret cvNetworkAuthV2OldBLSDomain digest;
        Some (cvNetworkAuthV2OldAlgorithm, signature)
      })"

definition seal ::
  "('g, 'h, 'f::field) bls \<Rightarrow> ed25519 \<Rightarrow> ('h, 'f) cvNetworkAuthenticatorV2 \<Rightarrow> int \<Rightarrow> int \<Rightarrow> string \<Rightarrow> bytes \<Rightarrow>
   ('h, 'f) cvNetworkAuthenticatorV2 \<times> bytes option" where
  "seal B E a from to tag envelope =
     (if na_sid a = [] \<or> na_epoch a = 0 then (a, None)
      else case cvNetworkAuthDigestV2 (na_sid a) (na_epoch a) from to tag envelope of
        None \<Rightarrow> (a, None)
      | Some digest \<Rightarrow>
          (let cacheKey = hashBytes [str_bytes (cvNetworkAuthV2Domain @ ''/seal-cache''), digest] in
           case map_of (na_sealed a) cacheKey of
             Some cached \<Rightarrow> (a, Some cached)
           | None \<Rightarrow>
               (case make_signature B E a from tag digest of
                  None \<Rightarrow> (a, None)
                | Some (algorithm, signature) \<Rightarrow>
                    (let wire = [cvNetworkAuthV2Version, algorithm] @ put_be 4 (length envelope) @ envelope @ signature;
                         sealed = (if length (na_sealed a) \<ge> cvNetworkAuthV2CacheLimit then [] else na_sealed a)
                     in (a\<lparr> na_sealed := AList.update cacheKey wire sealed \<rparr>, Some wire)))))"

text \<open>The signature check of \<^verbatim>\<open>open\<close>.\<close>

definition signature_ok ::
  "('g, 'h, 'f) bls \<Rightarrow> ed25519 \<Rightarrow> ('h, 'f) cvNetworkAuthenticatorV2 \<Rightarrow> int \<Rightarrow> string \<Rightarrow> bytes \<Rightarrow> byte \<Rightarrow> bytes \<Rightarrow> bool" where
  "signature_ok B E a from tag digest algorithm signature =
     (if cvV2ReceiverOriginatedTag tag then
        (case na_receiverPublicKeys a from of None \<Rightarrow> False
         | Some publicKey \<Rightarrow> algorithm = cvNetworkAuthV2NewAlgorithm \<and> length signature = 64 \<and> ed_Verify E publicKey digest signature)
      else
        (case na_oldPublicKeys a from of None \<Rightarrow> False
         | Some publicKey \<Rightarrow> algorithm = cvNetworkAuthV2OldAlgorithm \<and>
             cvVerifyValidatorSignatureV2 B publicKey cvNetworkAuthV2OldBLSDomain digest signature))"

definition open_key :: "bytes \<Rightarrow> byte \<Rightarrow> bytes \<Rightarrow> bytes" where
  "open_key digest algorithm signature =
     hashBytes [str_bytes (cvNetworkAuthV2Domain @ ''/open-cache''), digest, [algorithm], signature]"

text \<open>The framing checks of \<^verbatim>\<open>open\<close>: the envelope, the signature and the digest.\<close>

definition open_parse ::
  "('h, 'f) cvNetworkAuthenticatorV2 \<Rightarrow> int \<Rightarrow> int \<Rightarrow> string \<Rightarrow> bytes \<Rightarrow> (bytes \<times> bytes \<times> bytes) option" where
  "open_parse a from to tag wire = do {
     require (\<not> (length wire < cvNetworkAuthV2HeaderBytes \<or> wire ! 0 \<noteq> cvNetworkAuthV2Version));
     let envelopeBytes = get_be (take 4 (drop 2 wire));
     require (\<not> (envelopeBytes \<le> 0 \<or> envelopeBytes > length wire - cvNetworkAuthV2HeaderBytes));
     let envelope = take envelopeBytes (drop 6 wire);
     let signature = drop (6 + envelopeBytes) wire;
     digest \<leftarrow> cvNetworkAuthDigestV2 (na_sid a) (na_epoch a) from to tag envelope;
     Some (envelope, signature, digest)
   }"

definition auth_open ::
  "('g, 'h, 'f) bls \<Rightarrow> ed25519 \<Rightarrow> ('h, 'f) cvNetworkAuthenticatorV2 \<Rightarrow> int \<Rightarrow> int \<Rightarrow> string \<Rightarrow> bytes \<Rightarrow>
   ('h, 'f) cvNetworkAuthenticatorV2 \<times> bytes option" where
  "auth_open B E a from to tag wire =
     (case open_parse a from to tag wire of
        None \<Rightarrow> (a, None)
      | Some (envelope, signature, digest) \<Rightarrow>
          (let cacheKey = open_key digest (wire ! 1) signature in
           if cacheKey \<in> na_opened a then (a, Some envelope)
           else if \<not> signature_ok B E a from tag digest (wire ! 1) signature then (a, None)
           else (let opened = (if card (na_opened a) \<ge> cvNetworkAuthV2CacheLimit then {} else na_opened a)
                 in (a\<lparr> na_opened := insert cacheKey opened \<rparr>, Some envelope))))"

section \<open>Framing round trips\<close>

lemma frame_roundtrip:
  assumes "tcpMessageFrame msg = Some frame"
  shows "readTCPMessageFrame (frame @ rest) = Some (msg\<lparr> m_WireBytes := 0 \<rparr>, length frame, rest)"
proof -
  have c: "0 \<le> m_From msg" "0 \<le> m_To msg" "m_From msg \<le> 4294967295" "m_To msg \<le> 4294967295" "0 < length (m_Tag msg)"
    "length (m_Tag msg) \<le> 4096" "length (m_Body msg) \<le> max_frame_body"
    using assms by (auto simp: tcpMessageFrame_def run_simps tcpMessageMaxTagBytes_def)
  have frame: "frame = [tcpMessageFrameVersion] @ put_be 4 (nat (m_From msg)) @ put_be 4 (nat (m_To msg)) @ put_be 4 (length (m_Tag msg)) @
       put_be 4 (length (m_Body msg)) @ str_bytes (m_Tag msg) @ m_Body msg"
    using assms by (auto simp: tcpMessageFrame_def run_simps)
  let ?h = "[tcpMessageFrameVersion] @ put_be 4 (nat (m_From msg)) @ put_be 4 (nat (m_To msg)) @ put_be 4 (length (m_Tag msg)) @
       put_be 4 (length (m_Body msg))"
  have h: "frame @ rest = ?h @ str_bytes (m_Tag msg) @ m_Body msg @ rest" "length ?h = 17" by (simp_all add: frame)
  have t: "take 17 (frame @ rest) = ?h" "drop 17 (frame @ rest) = str_bytes (m_Tag msg) @ m_Body msg @ rest"
    using h by (metis append_eq_conv_conj)+
  have g: "get_be (put_be 4 n) = n" if "n < 4294967296" for n using that by (simp add: get_be_put_be)
  have f: "take 4 (drop 1 ?h) = put_be 4 (nat (m_From msg))" "take 4 (drop 5 ?h) = put_be 4 (nat (m_To msg))"
    "take 4 (drop 9 ?h) = put_be 4 (length (m_Tag msg))" "take 4 (drop 13 ?h) = put_be 4 (length (m_Body msg))"
    by (simp_all add: drop_Cons')
  have b: "length (m_Body msg) < 4294967296" using c(7) by (simp add: max_frame_body_def frame_sizes)
  have n: "nat (m_From msg) < 4294967296" "nat (m_To msg) < 4294967296" "length (m_Tag msg) < 4294967296" using c by auto
  have eta: "\<lparr> m_From = m_From msg, m_To = m_To msg, m_Tag = m_Tag msg, m_Body = m_Body msg, m_WireBytes = 0 \<rparr> = msg\<lparr> m_WireBytes := 0 \<rparr>"
    by simp
  have len: "17 \<le> length (frame @ rest)" "length frame = 17 + length (m_Tag msg) + length (m_Body msg)" by (simp_all add: frame)
  show ?thesis unfolding readTCPMessageFrame_def tcpMessageFrameFixedBytes_def t f using c len b n
    by (simp add: g Let_def tcpMessageMaxTagBytes_def eta)
qed

lemma u64_less: "u64 i < 18446744073709551616"
  by (simp add: u64_def nat_less_iff)

text \<open>The layout of an envelope.\<close>

lemma envelope_parts:
  fixes sid epoch payload
  defines "w \<equiv> [cvNetworkEnvelopeVersion] @ put_be 4 (length sid) @ str_bytes sid @ put_be 8 (u64 epoch) @ put_be 4 (length payload) @ payload"
  shows "w ! 0 = cvNetworkEnvelopeVersion" "take 4 (drop 1 w) = put_be 4 (length sid)"
    "take (length sid) (drop 5 w) = str_bytes sid" "take 8 (drop (5 + length sid) w) = put_be 8 (u64 epoch)"
    "take 4 (drop (13 + length sid) w) = put_be 4 (length payload)" "drop (17 + length sid) w = payload"
    "length w = 17 + length sid + length payload"
  by (simp_all add: w_def drop_Cons')

lemma envelope_split:
  assumes "17 + n \<le> length (w :: bytes)"
  shows "w = [w ! 0] @ take 4 (drop 1 w) @ take n (drop 5 w) @ take 8 (drop (5 + n) w) @ take 4 (drop (13 + n) w) @ drop (17 + n) w"
proof -
  have d: "drop i w = take k (drop i w) @ drop (i + k) w" for i k by (metis append_take_drop_id drop_drop add.commute)
  have "w = [w ! 0] @ drop 1 w" using assms by (cases w) auto
  also have "drop 1 w = take 4 (drop 1 w) @ drop 5 w" using d [of 1 4] by simp
  also have "drop 5 w = take n (drop 5 w) @ drop (5 + n) w" by (rule d)
  also have "drop (5 + n) w = take 8 (drop (5 + n) w) @ drop (13 + n) w" using d [of "5 + n" 8] by (simp add: add.commute add.left_commute)
  also have "drop (13 + n) w = take 4 (drop (13 + n) w) @ drop (17 + n) w" using d [of "13 + n" 4] by (simp add: add.commute add.left_commute)
  finally show ?thesis .
qed

interpretation envelope_codec: wire_codec "cvEncodeNetworkEnvelope sid epoch" "\<lambda>w. cvDecodeNetworkEnvelope w sid epoch" "\<lambda>_. True"
  for sid epoch
proof
  fix payload w
  assume enc: "cvEncodeNetworkEnvelope sid epoch payload = Some w"
  then have c: "sid \<noteq> []" "length sid \<le> cvMaxNetworkEnvelopeSIDBytes" "0 \<le> epoch" "length payload \<le> cvMaxNetworkPayloadBytes"
    and w: "w = [cvNetworkEnvelopeVersion] @ put_be 4 (length sid) @ str_bytes sid @ put_be 8 (u64 epoch) @ put_be 4 (length payload) @ payload"
    by (auto simp: cvEncodeNetworkEnvelope_def run_simps)
  have g: "get_be (put_be 4 (length sid)) = length sid" "get_be (put_be 4 (length payload)) = length payload"
    "get_be (put_be 8 (u64 epoch)) = u64 epoch"
    using c u64_less [of epoch] by (simp_all add: get_be_put_be frame_sizes)
  note parts = envelope_parts [where sid = sid and epoch = epoch and payload = payload, folded w]
  show "cvDecodeNetworkEnvelope w sid epoch = Some payload"
    using c by (simp add: cvDecodeNetworkEnvelope_def Let_def parts parts(2) [unfolded One_nat_def] g cvNetworkEnvelopeFixedBytes_def)
next
  fix w payload
  assume dec: "cvDecodeNetworkEnvelope w sid epoch = Some payload"
  then have c: "sid \<noteq> []" "length sid \<le> cvMaxNetworkEnvelopeSIDBytes" "0 \<le> epoch" "17 + length sid \<le> length w"
      "w ! 0 = cvNetworkEnvelopeVersion" "get_be (take 4 (drop 1 w)) = length sid" "take (length sid) (drop 5 w) = str_bytes sid"
      "get_be (take 8 (drop (5 + length sid) w)) = u64 epoch" "get_be (take 4 (drop (13 + length sid) w)) = length payload"
      "length payload \<le> cvMaxNetworkPayloadBytes" "payload = drop (17 + length sid) w"
    by (auto simp: cvDecodeNetworkEnvelope_def run_simps Let_def cvNetworkEnvelopeFixedBytes_def)
  have p: "take 4 (drop 1 w) = put_be 4 (length sid)" "take 8 (drop (5 + length sid) w) = put_be 8 (u64 epoch)"
    "take 4 (drop (13 + length sid) w) = put_be 4 (length payload)"
    using c(4) put_be_get_be [of "take 4 (drop 1 w)" 4] put_be_get_be [of "take 8 (drop (5 + length sid) w)" 8]
      put_be_get_be [of "take 4 (drop (13 + length sid) w)" 4] unfolding c(6,8,9) by simp_all
  have "w = [cvNetworkEnvelopeVersion] @ put_be 4 (length sid) @ str_bytes sid @ put_be 8 (u64 epoch) @ put_be 4 (length payload) @ payload"
    using envelope_split [OF c(4)] unfolding p c(5,7) c(11) [symmetric] .
  then show "cvEncodeNetworkEnvelope sid epoch payload = Some w" using c(1-3,10) by (simp add: cvEncodeNetworkEnvelope_def)
qed simp

text \<open>Every envelope, sealed by either algorithm, fits a frame.\<close>

lemma sealed_envelope_fits:
  "cvEncodeNetworkEnvelope sid epoch payload = Some w \<Longrightarrow> length signature \<le> 64 \<Longrightarrow> 6 + length w + length signature \<le> max_frame_body"
  by (auto simp: cvEncodeNetworkEnvelope_def run_simps max_frame_body_def frame_sizes)

section \<open>Authenticity\<close>

text \<open>What \<^verbatim>\<open>open\<close> hashes for a message: the statement that is signed and the cache entry.\<close>

definition open_messages :: "('h, 'f) cvNetworkAuthenticatorV2 \<Rightarrow> int \<times> int \<times> string \<times> bytes \<Rightarrow> bytes list" where
  "open_messages a call = (case call of (from, to, tag, wire) \<Rightarrow>
     (case open_parse a from to tag wire of
        None \<Rightarrow> []
      | Some (envelope, signature, digest) \<Rightarrow>
          [str_bytes cvNetworkAuthV2Domain @ auth_message (na_sid a) (na_epoch a) from to tag envelope,
           str_bytes (cvNetworkAuthV2Domain @ ''/open-cache'') @ digest @ [wire ! 1] @ signature]))"

definition open_run ::
  "('g, 'h, 'f) bls \<Rightarrow> ed25519 \<Rightarrow> ('h, 'f) cvNetworkAuthenticatorV2 \<Rightarrow> (int \<times> int \<times> string \<times> bytes) list \<Rightarrow>
   ('h, 'f) cvNetworkAuthenticatorV2" where
  "open_run B E a calls = foldl (\<lambda>a (from, to, tag, wire). fst (auth_open B E a from to tag wire)) a calls"

text \<open>A call whose signature was checked under the keys of \<open>a\<close>.\<close>

definition authentic :: "('g, 'h, 'f) bls \<Rightarrow> ed25519 \<Rightarrow> ('h, 'f) cvNetworkAuthenticatorV2 \<Rightarrow> int \<Rightarrow> int \<Rightarrow> string \<Rightarrow> bytes \<Rightarrow> bool" where
  "authentic B E a from to tag wire \<longleftrightarrow> (\<exists>envelope signature digest. open_parse a from to tag wire = Some (envelope, signature, digest) \<and>
     signature_ok B E a from tag digest (wire ! 1) signature)"

definition same_keys :: "('h, 'f) cvNetworkAuthenticatorV2 \<Rightarrow> ('h, 'f) cvNetworkAuthenticatorV2 \<Rightarrow> bool" where
  "same_keys a b \<longleftrightarrow> a\<lparr> na_opened := {} \<rparr> = b\<lparr> na_opened := {} \<rparr>"

lemma same_keys_fields:
  assumes "same_keys a b"
  shows "open_parse a sender to tag wire = open_parse b sender to tag wire"
    "signature_ok B E a sender tag digest alg sig = signature_ok B E b sender tag digest alg sig"
    "open_messages a call = open_messages b call"
proof -
  have "na_sid a = na_sid b" "na_epoch a = na_epoch b" "na_oldPublicKeys a = na_oldPublicKeys b"
    "na_receiverPublicKeys a = na_receiverPublicKeys b"
    using assms by (cases a; cases b; simp add: same_keys_def)+
  then show p: "open_parse a sender to tag wire = open_parse b sender to tag wire" for sender to tag wire by (simp add: open_parse_def)
  show "signature_ok B E a sender tag digest alg sig = signature_ok B E b sender tag digest alg sig"
    using \<open>na_oldPublicKeys a = _\<close> \<open>na_receiverPublicKeys a = _\<close> by (simp add: signature_ok_def)
  show "open_messages a call = open_messages b call"
    using p \<open>na_sid a = _\<close> \<open>na_epoch a = _\<close> by (cases call) (auto simp: open_messages_def split: option.splits)
qed

text \<open>Every cached key comes from an earlier authentic message.\<close>

definition open_inv ::
  "('g, 'h, 'f) bls \<Rightarrow> ed25519 \<Rightarrow> ('h, 'f) cvNetworkAuthenticatorV2 \<Rightarrow> (int \<times> int \<times> string \<times> bytes) list \<Rightarrow>
   ('h, 'f) cvNetworkAuthenticatorV2 \<Rightarrow> bool" where
  "open_inv B E a0 past a \<longleftrightarrow> same_keys a a0 \<and> (\<forall>k \<in> na_opened a. \<exists>(sender, to, tag, wire) \<in> set past.
     \<exists>envelope signature digest. open_parse a0 sender to tag wire = Some (envelope, signature, digest) \<and>
       signature_ok B E a0 sender tag digest (wire ! 1) signature \<and> k = open_key digest (wire ! 1) signature)"

lemma open_inv_step:
  assumes inv: "open_inv B E a0 past a"
  shows "open_inv B E a0 (past @ [(sender, to, tag, wire)]) (fst (auth_open B E a sender to tag wire))"
proof -
  have k: "same_keys a a0" using inv by (simp add: open_inv_def)
  note f = same_keys_fields [OF k]
  show ?thesis
  proof (cases "open_parse a0 sender to tag wire")
    case None
    then show ?thesis using inv by (auto simp: auth_open_def f open_inv_def)
  next
    case (Some p)
    obtain envelope signature digest where p: "p = (envelope, signature, digest)" by (cases p)
    have parse: "open_parse a0 sender to tag wire = Some (envelope, signature, digest)" using Some p by simp
    show ?thesis
    proof (cases "open_key digest (wire ! 1) signature \<in> na_opened a \<or> \<not> signature_ok B E a0 sender tag digest (wire ! 1) signature")
      case True
      then have "fst (auth_open B E a sender to tag wire) = a" using parse by (auto simp: auth_open_def f Let_def)
      then show ?thesis using inv by (auto simp: open_inv_def)
    next
      case False
      let ?o = "if card (na_opened a) \<ge> cvNetworkAuthV2CacheLimit then {} else na_opened a"
      have "fst (auth_open B E a sender to tag wire) = a\<lparr> na_opened := insert (open_key digest (wire ! 1) signature) ?o \<rparr>"
        using parse False by (simp add: auth_open_def f Let_def)
      moreover have "same_keys (a\<lparr> na_opened := insert (open_key digest (wire ! 1) signature) ?o \<rparr>) a0"
        using k by (simp add: same_keys_def)
      ultimately show ?thesis using inv parse False by (auto simp: open_inv_def)
    qed
  qed
qed

lemma open_inv_run: "open_inv B E a0 past a \<Longrightarrow> open_inv B E a0 (past @ calls) (open_run B E a calls)"
proof (induction calls arbitrary: a past)
  case Nil
  then show ?case by (simp add: open_run_def)
next
  case (Cons call calls)
  obtain sender to tag wire where call: "call = (sender, to, tag, wire)" by (cases call)
  show ?case using Cons.IH [OF open_inv_step [OF Cons.prems, of sender to tag wire]] by (simp add: open_run_def call)
qed

lemma auth_message_inj:
  assumes "auth_message sid epoch f t g e = auth_message sid epoch f' t' g' e'"
    and "length g \<le> 4096" "length g' \<le> 4096"
  shows "u64 f = u64 f' \<and> g = g'"
proof -
  have "cvWriteUint64 (u64 f) @ cvWriteUint64 (u64 t) @ put_be 4 (length (str_bytes g)) @ str_bytes g @ dropped (cvWriteBytes e) =
      cvWriteUint64 (u64 f') @ cvWriteUint64 (u64 t') @ put_be 4 (length (str_bytes g')) @ str_bytes g' @ dropped (cvWriteBytes e')"
    using assms by (simp add: auth_message_def)
  then have "put_be 8 (u64 f) = put_be 8 (u64 f')" and
    tags: "put_be 4 (length (str_bytes g)) @ str_bytes g @ dropped (cvWriteBytes e) = put_be 4 (length (str_bytes g')) @ str_bytes g' @ dropped (cvWriteBytes e')"
    by (simp_all add: cvWriteUint64_def)
  then have "u64 f = u64 f'" using put_be_inject [of "u64 f" 8 "u64 f'"] u64_less [of f] u64_less [of f'] by simp
  moreover have "str_bytes g = str_bytes g'" using put_be_prefix_inject [OF _ _ tags] assms(2,3) by simp
  ultimately show ?thesis by simp
qed

lemma u64_inj: "0 \<le> i \<Longrightarrow> 0 \<le> j \<Longrightarrow> int64 i \<Longrightarrow> int64 j \<Longrightarrow> u64 i = u64 j \<Longrightarrow> i = j"
  by simp

lemma open_parse_D:
  assumes "open_parse a sender to tag wire = Some (envelope, signature, digest)"
  shows "digest = sha256 (str_bytes cvNetworkAuthV2Domain @ auth_message (na_sid a) (na_epoch a) sender to tag envelope)"
    "0 \<le> sender" "length tag \<le> 4096"
  using assms by (auto simp: open_parse_def cvNetworkAuthDigestV2_def run_simps Let_def hashBytes_def tcpMessageMaxTagBytes_def)

lemma opened_authentic:
  assumes fresh: "na_opened a = {}"
    and opened: "auth_open B E (open_run B E a calls) sender to tag wire = (a', Some envelope)"
    and ids: "int64 sender" "\<forall>call \<in> set calls. int64 (fst call)"
  shows "authentic B E a sender to tag wire \<or>
    (\<exists>call \<in> set calls. \<exists>x \<in> set (open_messages a (sender, to, tag, wire)). \<exists>y \<in> set (open_messages a call). x \<noteq> y \<and> sha256 x = sha256 y)"
proof -
  let ?b = "open_run B E a calls"
  have inv: "open_inv B E a calls ?b" using open_inv_run [of B E a "[]" a calls] fresh by (simp add: open_inv_def same_keys_def)
  then have k: "same_keys ?b a" by (simp add: open_inv_def)
  note f = same_keys_fields [OF k]
  obtain signature digest where parse: "open_parse a sender to tag wire = Some (envelope, signature, digest)"
    using opened by (auto simp: auth_open_def f Let_def split: option.splits if_splits)
  show ?thesis
  proof (cases "signature_ok B E a sender tag digest (wire ! 1) signature")
    case True
    then show ?thesis using parse by (auto simp: authentic_def)
  next
    case False
    then have "open_key digest (wire ! 1) signature \<in> na_opened ?b"
      using opened parse by (auto simp: auth_open_def f Let_def split: if_splits)
    then obtain s' t' g' w' e' sig' d' where call: "(s', t', g', w') \<in> set calls"
      and parse': "open_parse a s' t' g' w' = Some (e', sig', d')" and ok: "signature_ok B E a s' g' d' (w' ! 1) sig'"
      and key: "open_key digest (wire ! 1) signature = open_key d' (w' ! 1) sig'"
      using inv unfolding open_inv_def by fastforce
    let ?m = "open_messages a (sender, to, tag, wire)" and ?m' = "open_messages a (s', t', g', w')"
    note d = open_parse_D [OF parse] and d' = open_parse_D [OF parse']
    have m: "set ?m = {str_bytes cvNetworkAuthV2Domain @ auth_message (na_sid a) (na_epoch a) sender to tag envelope,
        str_bytes (cvNetworkAuthV2Domain @ ''/open-cache'') @ digest @ [wire ! 1] @ signature}"
      "set ?m' = {str_bytes cvNetworkAuthV2Domain @ auth_message (na_sid a) (na_epoch a) s' t' g' e',
        str_bytes (cvNetworkAuthV2Domain @ ''/open-cache'') @ d' @ [w' ! 1] @ sig'}"
      using parse parse' by (simp_all add: open_messages_def)
    have "collide ?m ?m'"
    proof (rule ccontr)
      assume no: "\<not> collide ?m ?m'"
      have "str_bytes (cvNetworkAuthV2Domain @ ''/open-cache'') @ digest @ [wire ! 1] @ signature =
          str_bytes (cvNetworkAuthV2Domain @ ''/open-cache'') @ d' @ [w' ! 1] @ sig'"
        using no key unfolding collide_def m open_key_def hashBytes_def by auto
      then have same: "digest = d'" "wire ! 1 = w' ! 1" "signature = sig'" using d(1) d'(1) by auto
      then have "auth_message (na_sid a) (na_epoch a) sender to tag envelope = auth_message (na_sid a) (na_epoch a) s' t' g' e'"
        using no d(1) d'(1) unfolding collide_def m by auto
      then have "u64 sender = u64 s' \<and> tag = g'" using auth_message_inj d(3) d'(3) by blast
      moreover have "int64 s'" using ids(2) call by force
      ultimately have "sender = s'" "tag = g'" using u64_inj d(2) d'(2) ids(1) by auto
      then show False using ok False same by simp
    qed
    then show ?thesis using call unfolding collide_def by blast
  qed
qed

section \<open>Sealed messages open\<close>

lemma validator_signature_verifies:
  assumes B: "bls_laws B" and sign: "cvSignValidatorV2 B secret domain digest = Some sig"
  shows "cvVerifyValidatorSignatureV2 B (bls_SmulG2 B (bls_genG2 B) secret) domain digest sig"
proof -
  obtain h where h: "bls_HashToG1 B (domainDigest domain digest) (str_bytes domain) = Some h"
    and c: "secret \<noteq> 0" "domain \<noteq> []" "length digest = 32" and sig: "sig = bls_Bytes B (g1_smul B h secret)"
    using sign by (auto simp: cvSignValidatorV2_def run_simps)
  have hin: "g1_in B h" "\<not> g1_IsInfinity B h" using bls_lawsD(2) [OF B h] by auto
  have "g1_in B (g1_smul B h secret)" by (rule bls_lawsD(9) [OF B hin(1)])
  moreover from this have "bls_SetBytes B sig = (g1_smul B h secret, Some SizeOfG1AffineCompressed)"
    unfolding sig by (rule bls_lawsD(6) [OF B])
  moreover have "pairing_ok B (g1_smul B h secret) h (bls_SmulG2 B (bls_genG2 B) secret)"
    using bls_lawsD(8) [OF B calculation(1) hin(1)] by simp
  moreover have "\<not> g1_IsInfinity B (g1_smul B h secret)" using g1_lawsD(8) [OF bls_lawsD(1) [OF B]] hin c(1) by simp
  ultimately show ?thesis using h c bls_g2D(3) [OF B] bls_lawsD(5) [OF B] sig
    by (simp add: cvVerifyValidatorSignatureV2_def cvValidG1_def g1_in_def)
qed

definition seal_key :: "bytes \<Rightarrow> bytes" where
  "seal_key digest = hashBytes [str_bytes (cvNetworkAuthV2Domain @ ''/seal-cache''), digest]"

definition sealed_wire :: "byte \<Rightarrow> bytes \<Rightarrow> bytes \<Rightarrow> bytes" where
  "sealed_wire algorithm envelope signature =
     [cvNetworkAuthV2Version, algorithm] @ put_be 4 (length envelope) @ envelope @ signature"

text \<open>What \<^verbatim>\<open>seal\<close> hashes for a message.\<close>

definition seal_messages :: "('h, 'f) cvNetworkAuthenticatorV2 \<Rightarrow> int \<times> int \<times> string \<times> bytes \<Rightarrow> bytes list" where
  "seal_messages a call = (case call of (from, to, tag, envelope) \<Rightarrow>
     (let statement = str_bytes cvNetworkAuthV2Domain @ auth_message (na_sid a) (na_epoch a) from to tag envelope
      in [statement, str_bytes (cvNetworkAuthV2Domain @ ''/seal-cache'') @ sha256 statement]))"

definition seal_run ::
  "('g, 'h, 'f::field) bls \<Rightarrow> ed25519 \<Rightarrow> ('h, 'f) cvNetworkAuthenticatorV2 \<Rightarrow> (int \<times> int \<times> string \<times> bytes) list \<Rightarrow>
   ('h, 'f) cvNetworkAuthenticatorV2" where
  "seal_run B E a calls = foldl (\<lambda>a (from, to, tag, envelope). fst (seal B E a from to tag envelope)) a calls"

definition made ::
  "('g, 'h, 'f::field) bls \<Rightarrow> ed25519 \<Rightarrow> ('h, 'f) cvNetworkAuthenticatorV2 \<Rightarrow> int \<times> int \<times> string \<times> bytes \<Rightarrow> bytes \<Rightarrow> bytes \<Rightarrow> bool" where
  "made B E a call k wire \<longleftrightarrow> (case call of (sender, to, tag, envelope) \<Rightarrow>
     \<exists>digest alg sig. cvNetworkAuthDigestV2 (na_sid a) (na_epoch a) sender to tag envelope = Some digest \<and>
       make_signature B E a sender tag digest = Some (alg, sig) \<and> k = seal_key digest \<and> wire = sealed_wire alg envelope sig)"

definition seal_inv ::
  "('g, 'h, 'f::field) bls \<Rightarrow> ed25519 \<Rightarrow> ('h, 'f) cvNetworkAuthenticatorV2 \<Rightarrow> (int \<times> int \<times> string \<times> bytes) list \<Rightarrow>
   ('h, 'f) cvNetworkAuthenticatorV2 \<Rightarrow> bool" where
  "seal_inv B E a0 past a \<longleftrightarrow> a\<lparr> na_sealed := [] \<rparr> = a0\<lparr> na_sealed := [] \<rparr> \<and>
     (\<forall>(k, wire) \<in> set (na_sealed a). \<exists>call \<in> set past. made B E a0 call k wire)"

lemma seal_inv_fields:
  assumes "seal_inv B E a0 past a"
  shows "na_sid a = na_sid a0" "na_epoch a = na_epoch a0" "make_signature B E a = make_signature B E a0"
proof -
  have "na_oldLocalSecrets a = na_oldLocalSecrets a0" "na_receiverLocalSecrets a = na_receiverLocalSecrets a0"
    using assms by (cases a; cases a0; simp add: seal_inv_def)+
  then show "make_signature B E a = make_signature B E a0" by (intro ext) (simp add: make_signature_def)
  show "na_sid a = na_sid a0" "na_epoch a = na_epoch a0" using assms by (cases a; cases a0; simp add: seal_inv_def)+
qed

lemma seal_cases:
  assumes inv: "seal_inv B E a0 past a" and run: "seal B E a sender to tag envelope = (a', r)"
  obtains "a' = a" "r = None"
  | digest wire where "a' = a" "r = Some wire" "cvNetworkAuthDigestV2 (na_sid a0) (na_epoch a0) sender to tag envelope = Some digest"
      "map_of (na_sealed a) (seal_key digest) = Some wire"
  | digest wire s where "r = Some wire" "cvNetworkAuthDigestV2 (na_sid a0) (na_epoch a0) sender to tag envelope = Some digest"
      "made B E a0 (sender, to, tag, envelope) (seal_key digest) wire"
      "a' = a\<lparr> na_sealed := AList.update (seal_key digest) wire s \<rparr>" "set s \<subseteq> set (na_sealed a)"
proof -
  note f = seal_inv_fields [OF inv]
  show thesis
  proof (cases "r")
    case None
    then show thesis using that(1) run by (auto simp: seal_def Let_def split: if_splits option.splits prod.splits)
  next
    case (Some wire)
    obtain digest where d: "cvNetworkAuthDigestV2 (na_sid a0) (na_epoch a0) sender to tag envelope = Some digest"
      using run Some f by (auto simp: seal_def split: if_splits option.splits)
    show thesis
    proof (cases "map_of (na_sealed a) (seal_key digest)")
      case None
      let ?s = "if length (na_sealed a) \<ge> cvNetworkAuthV2CacheLimit then [] else na_sealed a"
      have "made B E a0 (sender, to, tag, envelope) (seal_key digest) wire" "a' = a\<lparr> na_sealed := AList.update (seal_key digest) wire ?s \<rparr>"
        using run Some f d None
        by (auto simp: seal_def made_def seal_key_def sealed_wire_def Let_def split: if_splits option.splits prod.splits)
      then show thesis by (rule that(3) [OF Some d]) auto
    next
      case (Some cached)
      then have "a' = a" "r = Some cached" using run f d \<open>r = Some wire\<close>
        by (auto simp: seal_def seal_key_def Let_def split: if_splits option.splits)
      then show thesis using that(2) d Some by blast
    qed
  qed
qed

lemma seal_inv_step:
  assumes inv: "seal_inv B E a0 past a"
  shows "seal_inv B E a0 (past @ [(sender, to, tag, envelope)]) (fst (seal B E a sender to tag envelope))"
proof -
  obtain a' r where run: "seal B E a sender to tag envelope = (a', r)" by fastforce
  have mono: "seal_inv B E a0 (past @ [(sender, to, tag, envelope)]) a" using inv by (auto simp: seal_inv_def)
  show ?thesis
  proof (cases rule: seal_cases [OF inv run])
    case (3 digest wire s)
    have "set (AList.update (seal_key digest) wire s) \<subseteq> insert (seal_key digest, wire) (set s)"
      by (induction s) auto
    then show ?thesis using mono run 3 by (fastforce simp: seal_inv_def)
  qed (use mono run in auto)
qed

lemma seal_inv_run: "seal_inv B E a0 past a \<Longrightarrow> seal_inv B E a0 (past @ calls) (seal_run B E a calls)"
proof (induction calls arbitrary: a past)
  case (Cons call calls)
  obtain sender to tag envelope where call: "call = (sender, to, tag, envelope)" by (cases call)
  show ?case using Cons.IH [OF seal_inv_step [OF Cons.prems, of sender to tag envelope]] by (simp add: seal_run_def call)
qed (simp add: seal_run_def)

text \<open>The receiving side \<open>b\<close> knows the public halves of the secrets the sending side \<open>a\<close> holds.\<close>

definition keys_match :: "('g, 'h, 'f) bls \<Rightarrow> ('h, 'f) cvNetworkAuthenticatorV2 \<Rightarrow> ('h, 'f) cvNetworkAuthenticatorV2 \<Rightarrow> bool" where
  "keys_match B a b \<longleftrightarrow> na_sid a = na_sid b \<and> na_epoch a = na_epoch b \<and>
     (\<forall>m secret. na_oldLocalSecrets a m = Some secret \<longrightarrow> na_oldPublicKeys b m = Some (bls_SmulG2 B (bls_genG2 B) secret)) \<and>
     (\<forall>m secret. na_receiverLocalSecrets a m = Some secret \<longrightarrow>
        length secret = 64 \<and> na_receiverPublicKeys b m = Some (drop 32 secret))"

lemma made_signature_ok:
  assumes "bls_laws B" "ed25519_laws E" "keys_match B a b" "make_signature B E a sender tag digest = Some (alg, sig)"
  shows "signature_ok B E b sender tag digest alg sig"
  using assms validator_signature_verifies [OF assms(1)]
  by (auto simp: make_signature_def signature_ok_def keys_match_def ed25519_laws_def run_simps split: if_splits)

lemma sealed_wire_parts:
  "length (sealed_wire alg env sig) = 6 + length env + length sig" "sealed_wire alg env sig ! 0 = cvNetworkAuthV2Version"
  "sealed_wire alg env sig ! 1 = alg" "take 4 (drop 2 (sealed_wire alg env sig)) = put_be 4 (length env)"
  "drop 6 (sealed_wire alg env sig) = env @ sig"
  by (simp_all add: sealed_wire_def drop_Cons')

lemma made_opens:
  assumes laws: "bls_laws B" "ed25519_laws E" and k: "keys_match B a b"
    and made: "made B E a (sender, to, tag, env) key wire" and len: "length env < 4294967296"
  shows "snd (auth_open B E b sender to tag wire) = Some env"
proof -
  obtain digest alg sig where d: "cvNetworkAuthDigestV2 (na_sid a) (na_epoch a) sender to tag env = Some digest"
    and m: "make_signature B E a sender tag digest = Some (alg, sig)" and w: "wire = sealed_wire alg env sig"
    using made by (auto simp: made_def)
  have ne: "env \<noteq> []" using d by (auto simp: cvNetworkAuthDigestV2_def run_simps)
  have drop: "drop (6 + length env) wire = sig" by (simp add: w sealed_wire_def drop_Cons')
  have "open_parse b sender to tag wire = Some (env, sig, digest)"
    using d ne len k drop
    by (simp add: open_parse_def w sealed_wire_parts get_be_put_be cvNetworkAuthV2HeaderBytes_def keys_match_def Let_def)
  moreover have "wire ! 1 = alg" unfolding w by (rule sealed_wire_parts(3))
  ultimately show ?thesis using made_signature_ok [OF laws k m] by (simp add: auth_open_def Let_def)
qed

lemma auth_message_inj_all:
  assumes eq: "auth_message sid epoch f t g e = auth_message sid epoch f' t' g' e'"
    and "length g \<le> 4096" "length g' \<le> 4096" "length e < 4294967296" "length e' < 4294967296"
  shows "u64 f = u64 f' \<and> u64 t = u64 t' \<and> g = g' \<and> e = e'"
proof -
  note fg = auth_message_inj [OF eq assms(2,3)]
  then have "put_be 8 (u64 t) = put_be 8 (u64 t')" "put_be 4 (length e) @ e = put_be 4 (length e') @ e'"
    using eq assms by (simp_all add: auth_message_def cvWriteUint64_def)
  then show ?thesis using fg put_be_inject [of "u64 t" 8 "u64 t'"] u64_less [of t] u64_less [of t']
      put_be_prefix_inject [of e e' "[]" "[]"] assms(4,5) by simp
qed

lemma digest_D:
  assumes "cvNetworkAuthDigestV2 sid epoch sender to tag env = Some digest"
  shows "digest = sha256 (str_bytes cvNetworkAuthV2Domain @ auth_message sid epoch sender to tag env)"
    "0 \<le> sender" "0 \<le> to" "length tag \<le> 4096"
  using assms by (auto simp: cvNetworkAuthDigestV2_def run_simps hashBytes_def tcpMessageMaxTagBytes_def)

lemma same_seal_key:
  assumes d: "cvNetworkAuthDigestV2 (na_sid a) (na_epoch a) s t g e = Some digest"
    and d': "cvNetworkAuthDigestV2 (na_sid a) (na_epoch a) s' t' g' e' = Some digest'"
    and key: "seal_key digest = seal_key digest'"
    and ids: "int64 s" "int64 t" "int64 s'" "int64 t'" and len: "length e < 4294967296" "length e' < 4294967296"
  shows "(s, t, g, e) = (s', t', g', e') \<or> collide (seal_messages a (s, t, g, e)) (seal_messages a (s', t', g', e'))"
proof (rule disjCI)
  let ?x = "str_bytes cvNetworkAuthV2Domain @ auth_message (na_sid a) (na_epoch a) s t g e"
  let ?y = "str_bytes cvNetworkAuthV2Domain @ auth_message (na_sid a) (na_epoch a) s' t' g' e'"
  assume no: "\<not> collide (seal_messages a (s, t, g, e)) (seal_messages a (s', t', g', e'))"
  note dd = digest_D [OF d] digest_D [OF d']
  have "digest = digest'"
    using no key dd(1,5) by (auto simp: collide_def seal_messages_def Let_def seal_key_def hashBytes_def)
  then have "?x = ?y" using no dd(1,5) by (auto simp: collide_def seal_messages_def Let_def)
  then have "u64 s = u64 s' \<and> u64 t = u64 t' \<and> g = g' \<and> e = e'" using auth_message_inj_all dd(4,8) len by blast
  then show "(s, t, g, e) = (s', t', g', e')" using u64_inj dd ids by auto
qed

text \<open>A message survives the network: whatever an authenticator has sealed before, sealing an envelope gives a wire
  that a peer holding the matching public keys opens to the same envelope, whatever the peer has opened before,
  unless two messages hashed for this and an earlier seal collide under SHA-256.\<close>

lemma sealed_messages_open:
  assumes laws: "bls_laws B" "ed25519_laws E" and k: "keys_match B a b" and fresh: "na_sealed a = []"
    and sealed: "seal B E (seal_run B E a calls) sender to tag envelope = (a', Some wire)"
    and ids: "int64 sender" "int64 to" "length envelope < 4294967296"
      "\<forall>(s, t, g, e) \<in> set calls. int64 s \<and> int64 t \<and> length e < 4294967296"
  shows "snd (auth_open B E b sender to tag wire) = Some envelope \<or>
    (\<exists>call \<in> set calls. \<exists>x \<in> set (seal_messages a (sender, to, tag, envelope)). \<exists>y \<in> set (seal_messages a call). x \<noteq> y \<and> sha256 x = sha256 y)"
proof -
  have inv: "seal_inv B E a calls (seal_run B E a calls)" using seal_inv_run [of B E a "[]" a calls] fresh by (simp add: seal_inv_def)
  show ?thesis
  proof (cases rule: seal_cases [OF inv sealed])
    case (2 digest w)
    then have "(seal_key digest, wire) \<in> set (na_sealed (seal_run B E a calls))" using map_of_SomeD by fastforce
    then obtain s t g e where call: "(s, t, g, e) \<in> set calls" and m: "made B E a (s, t, g, e) (seal_key digest) wire"
      using inv by (fastforce simp: seal_inv_def)
    obtain digest' where d': "cvNetworkAuthDigestV2 (na_sid a) (na_epoch a) s t g e = Some digest'" "seal_key digest = seal_key digest'"
      using m by (auto simp: made_def)
    have c: "int64 s" "int64 t" "length e < 4294967296" using ids(4) call by auto
    have "(sender, to, tag, envelope) = (s, t, g, e) \<or> collide (seal_messages a (sender, to, tag, envelope)) (seal_messages a (s, t, g, e))"
      by (rule same_seal_key [OF 2(3) d' ids(1,2) c(1,2) ids(3) c(3)])
    then show ?thesis using made_opens [OF laws k _ ids(3)] m call unfolding collide_def by blast
  next
    case (3 digest w s)
    then show ?thesis using made_opens [OF laws k _ ids(3)] by blast
  qed simp
qed

end
