(* ===== verification/Router.thy ===== *)
theory Router
  imports Network
begin

text \<open>
  The message router of \<^verbatim>\<open>src/core/cv_sapvss_router.go\<close>: it takes the messages of each local node's inbox,
  drops what is not allowed, authentic or of this session and epoch, and queues the payload for the node's service.
  The goroutine of a node is a function on the router's state, one call per iteration of its loop; the environment
  chooses the order of the iterations of all nodes, when a consumer takes a message, when the context is done and
  when an inbox closes, so a list of events is one interleaving.  The result is that each node's service receives
  exactly the messages that were queued for it, once and in order, that a queue never grows past its capacity, and
  that every queued message was allowed for its sender's and receiver's committee and opened in this session.
\<close>

section \<open>State and construction\<close>

datatype router_error = InboxClosed int | QueueFull int

record ('h, 'f) cvSAPVSSRouter =
  rt_sid :: string
  rt_epoch :: int
  rt_oldNodes :: "int set"
  rt_newNodes :: "int set"
  rt_auth :: "('h, 'f) cvNetworkAuthenticatorV2 option"
  rt_queues :: "int \<rightharpoonup> Message list"
  rt_capacity :: int
  rt_running :: "int set"
  rt_errors :: "router_error list"
  rt_cancelled :: bool

text \<open>The loops over the two rosters: the set of nodes, or the error.\<close>

fun node_set_loop :: "int list \<Rightarrow> int set \<Rightarrow> int set option" where
  "node_set_loop [] nodes = Some nodes"
| "node_set_loop (node # rest) nodes =
     (if node < 0 then None else if node \<in> nodes then None else node_set_loop rest (insert node nodes))"

text \<open>The loop that opens the inboxes; \<open>recv\<close> says whether \<^verbatim>\<open>RecvChan\<close> returned a channel.\<close>

fun inbox_loop :: "(int \<Rightarrow> bool) \<Rightarrow> int set \<Rightarrow> int set \<Rightarrow> int list \<Rightarrow> int set \<Rightarrow> int set option" where
  "inbox_loop recv oldSet newSet [] inboxes = Some inboxes"
| "inbox_loop recv oldSet newSet (node # rest) inboxes =
     (if node \<notin> oldSet \<and> node \<notin> newSet then None
      else if node \<in> inboxes then None
      else if \<not> recv node then None
      else inbox_loop recv oldSet newSet rest (insert node inboxes))"

definition newCVSAPVSSRouterWithReceivers ::
  "(int \<Rightarrow> bool) \<Rightarrow> string \<Rightarrow> int \<Rightarrow> int list \<Rightarrow> int list \<Rightarrow> int list \<Rightarrow> int \<Rightarrow> ('h, 'f) cvNetworkAuthenticatorV2 list \<Rightarrow>
   ('h, 'f) cvSAPVSSRouter option" where
  "newCVSAPVSSRouterWithReceivers recv sid epoch oldNodes newNodes localNodes queueCapacity authenticators = do {
     require (\<not> (sid = [] \<or> length sid > cvMaxNetworkEnvelopeSIDBytes \<or> epoch < 0 \<or> queueCapacity \<le> 0 \<or>
       length oldNodes = 0 \<or> length localNodes = 0));
     oldSet \<leftarrow> node_set_loop oldNodes {};
     newSet \<leftarrow> node_set_loop newNodes {};
     inboxes \<leftarrow> inbox_loop recv oldSet newSet localNodes {};
     let auth = (case authenticators of [] \<Rightarrow> None | a # _ \<Rightarrow> Some a);
     Some \<lparr> rt_sid = sid, rt_epoch = epoch, rt_oldNodes = oldSet, rt_newNodes = newSet, rt_auth = auth,
            rt_queues = (\<lambda>node. if node \<in> inboxes then Some [] else None), rt_capacity = queueCapacity,
            rt_running = inboxes, rt_errors = [], rt_cancelled = False \<rparr>
   }"

definition newCVSAPVSSRouter ::
  "(int \<Rightarrow> bool) \<Rightarrow> string \<Rightarrow> int \<Rightarrow> int list \<Rightarrow> int list \<Rightarrow> int \<Rightarrow> ('h, 'f) cvSAPVSSRouter option" where
  "newCVSAPVSSRouter recv sid epoch oldNodes localOldNodes queueCapacity =
     newCVSAPVSSRouterWithReceivers recv sid epoch oldNodes [] localOldNodes queueCapacity []"

section \<open>Routing\<close>

text \<open>The \<^verbatim>\<open>switch\<close> of \<^verbatim>\<open>route\<close>: which committees may exchange a tag.\<close>

definition committees_ok :: "('h, 'f) cvSAPVSSRouter \<Rightarrow> Message \<Rightarrow> bool" where
  "committees_ok r msg =
     (let tag = m_Tag msg in
      if tag = apvssTagLaneOffer \<or> tag = cvTagLaneOfferV2 \<or> tag = cvTagAggregateRecoverStoreV2 then
        m_From msg \<in> rt_oldNodes r \<and> m_To msg \<in> rt_newNodes r
      else if tag = cvTagHandoffV2 then
        m_From msg \<in> rt_oldNodes r \<and> (m_To msg \<in> rt_oldNodes r \<or> m_To msg \<in> rt_newNodes r)
      else if tag = apvssTagLaneACK \<or> tag = cvTagLaneACKV2 \<or> tag = cvTagAggregateRecoverGetV2 then
        m_From msg \<in> rt_newNodes r
      else if tag = cvTagAggregateShareV2 then
        m_From msg \<in> rt_newNodes r \<and> m_To msg \<in> rt_newNodes r
      else m_From msg \<in> rt_oldNodes r \<and> m_To msg \<in> rt_oldNodes r)"

text \<open>Opening the body with the authenticator, if there is one.\<close>

definition open_body ::
  "('g, 'h, 'f) bls \<Rightarrow> ed25519 \<Rightarrow> ('h, 'f) cvSAPVSSRouter \<Rightarrow> Message \<Rightarrow> ('h, 'f) cvSAPVSSRouter \<times> bytes option" where
  "open_body B E r msg = (case rt_auth r of
     None \<Rightarrow> (r, Some (m_Body msg))
   | Some a \<Rightarrow> (case auth_open B E a (m_From msg) (m_To msg) (m_Tag msg) (m_Body msg) of
       (a', envelope) \<Rightarrow> (r\<lparr> rt_auth := Some a' \<rparr>, envelope)))"

definition route ::
  "('g, 'h, 'f) bls \<Rightarrow> ed25519 \<Rightarrow> ('h, 'f) cvSAPVSSRouter \<Rightarrow> int \<Rightarrow> Message \<Rightarrow> ('h, 'f) cvSAPVSSRouter \<times> Message option" where
  "route B E r node msg =
     (if \<not> cvAllowedNetworkTag (m_Tag msg) \<or> m_To msg \<noteq> node \<or> \<not> committees_ok r msg then (r, None)
      else case open_body B E r msg of (r, opened) \<Rightarrow>
        (r, do {
           envelope \<leftarrow> opened;
           payload \<leftarrow> cvDecodeNetworkEnvelope envelope (rt_sid r) (rt_epoch r);
           Some \<lparr> m_From = m_From msg, m_To = m_To msg, m_Tag = m_Tag msg, m_Body = payload,
             m_WireBytes = int tcpMessageFrameFixedBytes + int (length (m_Tag msg)) + int (length (m_Body msg)) \<rparr>
         }))"

section \<open>The loop of a node\<close>

text \<open>\<^verbatim>\<open>failOnce\<close>: the first error is kept and the context cancelled.\<close>

definition fail :: "('h, 'f) cvSAPVSSRouter \<Rightarrow> router_error \<Rightarrow> ('h, 'f) cvSAPVSSRouter" where
  "fail r e = (if rt_errors r = [] then r\<lparr> rt_errors := [e], rt_cancelled := True \<rparr> else r)"

definition leave :: "('h, 'f) cvSAPVSSRouter \<Rightarrow> int \<Rightarrow> ('h, 'f) cvSAPVSSRouter" where
  "leave r node = r\<lparr> rt_running := rt_running r - {node} \<rparr>"

text \<open>The end of an iteration that routed a message.\<close>

datatype router_obs = Queued int Message | Taken int Message | Quiet

definition enqueue ::
  "('h, 'f) cvSAPVSSRouter \<Rightarrow> int \<Rightarrow> Message \<Rightarrow> ('h, 'f) cvSAPVSSRouter \<times> router_obs" where
  "enqueue r node routed =
     (if rt_cancelled r then (leave r node, Quiet)
      else case rt_queues r node of
        None \<Rightarrow> (r, Quiet)
      | Some queue \<Rightarrow>
          if int (length queue) < rt_capacity r
          then (r\<lparr> rt_queues := (rt_queues r)(node \<mapsto> queue @ [routed]) \<rparr>, Queued node routed)
          else (leave (fail r (QueueFull node)) node, Quiet))"

text \<open>What the environment offers a loop, and what else can happen: when a message and the end of the context are
  both there, the loop may see either, so \<open>Arrive\<close> and \<open>Done\<close> are both possible after cancellation.  A consumer
  receives from the queue, also after it was closed.\<close>

datatype router_event = Arrive int Message | Closed int | Done int | Consume int | CloseRouter

fun router_step ::
  "('g, 'h, 'f) bls \<Rightarrow> ed25519 \<Rightarrow> ('h, 'f) cvSAPVSSRouter \<Rightarrow> router_event \<Rightarrow> ('h, 'f) cvSAPVSSRouter \<times> router_obs" where
  "router_step B E r (Done node) = (if rt_cancelled r then (leave r node, Quiet) else (r, Quiet))"
| "router_step B E r (Closed node) =
     (if node \<notin> rt_running r then (r, Quiet)
      else (leave (if \<not> rt_cancelled r then fail r (InboxClosed node) else r) node, Quiet))"
| "router_step B E r (Arrive node msg) =
     (if node \<notin> rt_running r then (r, Quiet)
      else case route B E r node msg of
        (r, None) \<Rightarrow> (r, Quiet)
      | (r, Some routed) \<Rightarrow> enqueue r node routed)"
| "router_step B E r (Consume node) =
     (case rt_queues r node of
        Some (msg # queue) \<Rightarrow> (r\<lparr> rt_queues := (rt_queues r)(node \<mapsto> queue) \<rparr>, Taken node msg)
      | _ \<Rightarrow> (r, Quiet))"
| "router_step B E r CloseRouter = (r\<lparr> rt_cancelled := True \<rparr>, Quiet)"

fun router_run ::
  "('g, 'h, 'f) bls \<Rightarrow> ed25519 \<Rightarrow> ('h, 'f) cvSAPVSSRouter \<Rightarrow> router_event list \<Rightarrow> ('h, 'f) cvSAPVSSRouter \<times> router_obs list" where
  "router_run B E r [] = (r, [])"
| "router_run B E r (ev # evs) =
     (case router_step B E r ev of (r', obs) \<Rightarrow> (case router_run B E r' evs of (r'', rest) \<Rightarrow> (r'', obs # rest)))"

text \<open>\<^verbatim>\<open>Receive\<close> hands out a node's queue.\<close>

definition Receive :: "('h, 'f) cvSAPVSSRouter \<Rightarrow> int \<Rightarrow> Message list option" where
  "Receive r node = rt_queues r node"

section \<open>Delivery in order\<close>

definition queue_of :: "('h, 'f) cvSAPVSSRouter \<Rightarrow> int \<Rightarrow> Message list" where
  "queue_of r node = (case rt_queues r node of None \<Rightarrow> [] | Some queue \<Rightarrow> queue)"

fun queued :: "int \<Rightarrow> router_obs list \<Rightarrow> Message list" where
  "queued node [] = []"
| "queued node (Queued n m # obs) = (if n = node then m # queued node obs else queued node obs)"
| "queued node (_ # obs) = queued node obs"

fun taken :: "int \<Rightarrow> router_obs list \<Rightarrow> Message list" where
  "taken node [] = []"
| "taken node (Taken n m # obs) = (if n = node then m # taken node obs else taken node obs)"
| "taken node (_ # obs) = taken node obs"

text \<open>What no step changes.\<close>

lemma fail_leave_simps [simp]:
  "rt_queues (fail r e) = rt_queues r" "rt_capacity (fail r e) = rt_capacity r" "rt_auth (fail r e) = rt_auth r"
  "rt_sid (fail r e) = rt_sid r" "rt_epoch (fail r e) = rt_epoch r" "rt_oldNodes (fail r e) = rt_oldNodes r" "rt_newNodes (fail r e) = rt_newNodes r"
  "rt_queues (leave r n) = rt_queues r" "rt_capacity (leave r n) = rt_capacity r" "rt_auth (leave r n) = rt_auth r"
  "rt_sid (leave r n) = rt_sid r" "rt_epoch (leave r n) = rt_epoch r" "rt_oldNodes (leave r n) = rt_oldNodes r" "rt_newNodes (leave r n) = rt_newNodes r"
  by (simp_all add: fail_def leave_def)

text \<open>A router without its authenticator's cache, its queues and its progress.\<close>

definition router_conf :: "('h, 'f) cvSAPVSSRouter \<Rightarrow> ('h, 'f) cvSAPVSSRouter" where
  "router_conf r = r\<lparr> rt_auth := None, rt_queues := Map.empty, rt_running := {}, rt_errors := [], rt_cancelled := False \<rparr>"

lemma router_conf_fields:
  assumes "router_conf r = router_conf r'"
  shows "rt_sid r = rt_sid r'" "rt_epoch r = rt_epoch r'" "rt_capacity r = rt_capacity r'" "committees_ok r = committees_ok r'"
proof -
  have "rt_oldNodes r = rt_oldNodes r'" "rt_newNodes r = rt_newNodes r'" using assms by (cases r; cases r'; simp add: router_conf_def)+
  then show "committees_ok r = committees_ok r'" by (intro ext) (simp add: committees_ok_def)
qed (use assms in \<open>cases r; cases r'; simp add: router_conf_def\<close>)+

lemma open_body_state:
  "open_body B E r msg = (r', m) \<Longrightarrow> router_conf r' = router_conf r \<and> rt_queues r' = rt_queues r"
  by (auto simp: open_body_def router_conf_def split: option.splits prod.splits)

lemma route_state: "route B E r node msg = (r', m) \<Longrightarrow> router_conf r' = router_conf r \<and> rt_queues r' = rt_queues r"
  by (auto simp: route_def dest: open_body_state split: if_splits prod.splits)

lemma fail_leave_conf [simp]: "router_conf (fail r e) = router_conf r" "router_conf (leave r n) = router_conf r"
  by (simp_all add: router_conf_def fail_def leave_def)

lemma enqueue_fifo:
  assumes "enqueue r n routed = (r', obs)"
  shows "taken node [obs] @ queue_of r' node = queue_of r node @ queued node [obs] \<and> router_conf r' = router_conf r \<and>
    (int (length (queue_of r node)) \<le> rt_capacity r \<longrightarrow> int (length (queue_of r' node)) \<le> rt_capacity r)"
  using assms by (auto simp: enqueue_def queue_of_def router_conf_def fail_def leave_def split: if_splits option.splits)

lemma step_fifo:
  assumes "router_step B E r ev = (r', obs)"
  shows "taken node [obs] @ queue_of r' node = queue_of r node @ queued node [obs] \<and> router_conf r' = router_conf r \<and>
    (int (length (queue_of r node)) \<le> rt_capacity r \<longrightarrow> int (length (queue_of r' node)) \<le> rt_capacity r)"
proof (cases ev)
  case (Arrive n msg)
  obtain r1 m where route: "route B E r n msg = (r1, m)" by fastforce
  note st = route_state [OF route]
  have q: "queue_of r1 node = queue_of r node" "rt_capacity r1 = rt_capacity r"
    using st router_conf_fields(3) by (auto simp: queue_of_def)
  show ?thesis using assms Arrive route q st enqueue_fifo [of r1 n _ r' obs node] by (auto split: if_splits option.splits)
next
  case (Consume n)
  then show ?thesis using assms by (auto simp: queue_of_def router_conf_def split: option.splits list.splits if_splits)
qed (use assms in \<open>auto simp: queue_of_def router_conf_def fail_def leave_def split: if_splits\<close>)

lemma queued_append [simp]: "queued node (xs @ ys) = queued node xs @ queued node ys"
  by (induction node xs rule: queued.induct) auto

lemma taken_append [simp]: "taken node (xs @ ys) = taken node xs @ taken node ys"
  by (induction node xs rule: taken.induct) auto

lemma run_fifo:
  assumes "router_run B E r evs = (r', obs)" "int (length (queue_of r node)) \<le> rt_capacity r"
  shows "taken node obs @ queue_of r' node = queue_of r node @ queued node obs \<and>
    int (length (queue_of r' node)) \<le> rt_capacity r \<and> router_conf r' = router_conf r"
  using assms
proof (induction evs arbitrary: r obs)
  case (Cons ev evs)
  obtain r1 ob obs' where s: "router_step B E r ev = (r1, ob)" "router_run B E r1 evs = (r', obs')" "obs = ob # obs'"
    using Cons.prems(1) by (auto split: prod.splits)
  note f = step_fifo [OF s(1), of node]
  have cap: "rt_capacity r1 = rt_capacity r" using f router_conf_fields(3) by blast
  have "taken node obs' @ queue_of r' node = queue_of r1 node @ queued node obs' \<and>
      int (length (queue_of r' node)) \<le> rt_capacity r1 \<and> router_conf r' = router_conf r1"
    by (rule Cons.IH [OF s(2)]) (use f Cons.prems(2) cap in simp)
  moreover have "taken node obs = taken node [ob] @ taken node obs'" "queued node obs = queued node [ob] @ queued node obs'"
    using s(3) taken_append [of node "[ob]" obs'] queued_append [of node "[ob]" obs'] by simp_all
  ultimately show ?case using f cap by (metis append.assoc)
qed simp

text \<open>The router delivers in order: under every interleaving of arrivals, consumers, closed inboxes and cancellation,
  what a node's service has received followed by what waits in its queue is exactly the sequence of messages
  queued for it, and the queue never holds more than its capacity.\<close>

theorem router_delivers_in_order:
  assumes "newCVSAPVSSRouterWithReceivers recv sid epoch oldNodes newNodes localNodes queueCapacity authenticators = Some r0"
    and "router_run B E r0 evs = (r, obs)"
  shows "taken node obs @ queue_of r node = queued node obs \<and> int (length (queue_of r node)) \<le> queueCapacity"
proof -
  have "queue_of r0 node = []" "rt_capacity r0 = queueCapacity" "0 < queueCapacity"
    using assms(1) by (auto simp: newCVSAPVSSRouterWithReceivers_def run_simps queue_of_def)
  then show ?thesis using run_fifo [OF assms(2), of node] by simp
qed


section \<open>What is delivered is authentic\<close>

text \<open>A message as the authenticator sees it, the messages a sequence of events brought, and two of them whose hashed
  contents differ but have one digest.\<close>

definition seen :: "Message \<Rightarrow> int \<times> int \<times> string \<times> bytes" where
  "seen msg = (m_From msg, m_To msg, m_Tag msg, m_Body msg)"

definition arrivals :: "router_event list \<Rightarrow> Message set" where
  "arrivals evs = {msg. \<exists>node. Arrive node msg \<in> set evs}"

definition openings_collide :: "('h, 'f) cvNetworkAuthenticatorV2 \<Rightarrow> Message set \<Rightarrow> bool" where
  "openings_collide a msgs \<longleftrightarrow> (\<exists>m1 \<in> msgs. \<exists>m2 \<in> msgs. \<exists>x \<in> set (open_messages a (seen m1)). \<exists>y \<in> set (open_messages a (seen m2)).
     x \<noteq> y \<and> sha256 x = sha256 y)"

text \<open>The authenticator of a running router has opened only messages that arrived.\<close>

definition auth_inv ::
  "('g, 'h, 'f) bls \<Rightarrow> ed25519 \<Rightarrow> ('h, 'f) cvNetworkAuthenticatorV2 \<Rightarrow> Message set \<Rightarrow> ('h, 'f) cvSAPVSSRouter \<Rightarrow> bool" where
  "auth_inv B E a msgs r \<longleftrightarrow> (\<exists>calls. rt_auth r = Some (open_run B E a calls) \<and> set calls \<subseteq> seen ` msgs)"

lemma open_body_inv:
  assumes "auth_inv B E a msgs r" "msg \<in> msgs"
  shows "auth_inv B E a msgs (fst (open_body B E r msg))"
proof -
  obtain calls where c: "rt_auth r = Some (open_run B E a calls)" "set calls \<subseteq> seen ` msgs" using assms(1) by (auto simp: auth_inv_def)
  have "rt_auth (fst (open_body B E r msg)) = Some (open_run B E a (calls @ [seen msg]))"
    using c(1) by (simp add: open_body_def open_run_def seen_def split: prod.splits)
  moreover have "set (calls @ [seen msg]) \<subseteq> seen ` msgs" using c(2) assms(2) by auto
  ultimately show ?thesis unfolding auth_inv_def by blast
qed

lemma route_auth: "fst (route B E r node msg) = r \<or> fst (route B E r node msg) = fst (open_body B E r msg)"
  by (simp add: route_def split: prod.splits)

lemma enqueue_auth: "rt_auth (fst (enqueue r node m)) = rt_auth r"
  by (simp add: enqueue_def split: option.splits)

lemma step_auth_inv:
  assumes "auth_inv B E a msgs r" "arrivals [ev] \<subseteq> msgs"
  shows "auth_inv B E a msgs (fst (router_step B E r ev))"
proof (cases ev)
  case (Arrive node msg)
  have "msg \<in> msgs" using assms(2) by (auto simp: arrivals_def Arrive)
  obtain r1 m where route: "route B E r node msg = (r1, m)" by fastforce
  have "auth_inv B E a msgs r1"
    using route_auth [of B E r node msg] route open_body_inv [OF assms(1) \<open>msg \<in> msgs\<close>] assms(1) by auto
  then show ?thesis using assms(1) Arrive route by (auto simp: auth_inv_def enqueue_auth split: option.splits)
qed (use assms(1) in \<open>auto simp: auth_inv_def split: option.splits list.splits\<close>)

text \<open>What one routed message shows.\<close>

definition delivered_ok ::
  "('g, 'h, 'f) bls \<Rightarrow> ed25519 \<Rightarrow> ('h, 'f) cvNetworkAuthenticatorV2 \<Rightarrow> ('h, 'f) cvSAPVSSRouter \<Rightarrow> Message set \<Rightarrow> int \<Rightarrow> Message \<Rightarrow> Message \<Rightarrow> bool" where
  "delivered_ok B E a r msgs node msg m \<longleftrightarrow>
     m_To msg = node \<and> m_To m = node \<and> m_From m = m_From msg \<and> m_Tag m = m_Tag msg \<and>
     cvAllowedNetworkTag (m_Tag msg) \<and> committees_ok r msg \<and>
     (\<exists>envelope signature digest. open_parse a (m_From msg) node (m_Tag msg) (m_Body msg) = Some (envelope, signature, digest) \<and>
        cvEncodeNetworkEnvelope (rt_sid r) (rt_epoch r) (m_Body m) = Some envelope) \<and>
     (authentic B E a (m_From msg) node (m_Tag msg) (m_Body msg) \<or> openings_collide a msgs)"

lemma auth_open_envelope:
  assumes "same_keys b a" "auth_open B E b sender to tag wire = (b', Some envelope)"
  shows "\<exists>signature digest. open_parse a sender to tag wire = Some (envelope, signature, digest)"
  using assms same_keys_fields(1) [OF assms(1), of sender to tag wire] by (auto simp: auth_open_def Let_def split: option.splits if_splits)

lemma open_run_same_keys: "na_opened a = {} \<Longrightarrow> same_keys (open_run B E a calls) a"
  using open_inv_run [of B E a "[]" a calls] by (simp add: open_inv_def same_keys_def)

lemma route_delivers_ok:
  assumes fresh: "na_opened a = {}" and inv: "auth_inv B E a msgs r" and msg: "msg \<in> msgs" and ids: "\<forall>m \<in> msgs. int64 (m_From m)"
    and route: "route B E r node msg = (r', Some m)"
  shows "delivered_ok B E a r msgs node msg m"
proof -
  obtain calls where calls: "rt_auth r = Some (open_run B E a calls)" "set calls \<subseteq> seen ` msgs" using inv by (auto simp: auth_inv_def)
  let ?b = "open_run B E a calls"
  obtain b' opened where o: "auth_open B E ?b (m_From msg) (m_To msg) (m_Tag msg) (m_Body msg) = (b', opened)" by fastforce
  have guards: "cvAllowedNetworkTag (m_Tag msg)" "m_To msg = node" "committees_ok r msg"
    using route by (auto simp: route_def split: if_splits)
  obtain envelope payload where e: "opened = Some envelope" "cvDecodeNetworkEnvelope envelope (rt_sid r) (rt_epoch r) = Some payload"
    "m = \<lparr> m_From = m_From msg, m_To = m_To msg, m_Tag = m_Tag msg, m_Body = payload,
       m_WireBytes = int tcpMessageFrameFixedBytes + int (length (m_Tag msg)) + int (length (m_Body msg)) \<rparr>"
    using route guards calls(1) o by (auto simp: route_def open_body_def run_simps)
  have parse: "\<exists>signature digest. open_parse a (m_From msg) node (m_Tag msg) (m_Body msg) = Some (envelope, signature, digest)"
    using auth_open_envelope [OF open_run_same_keys [OF fresh, of B E calls]] o e(1) guards(2) by metis
  have enc: "cvEncodeNetworkEnvelope (rt_sid r) (rt_epoch r) payload = Some envelope" by (rule envelope_codec.encode_decode [OF e(2)])
  have "int64 (m_From msg)" "\<forall>call \<in> set calls. int64 (fst call)" using calls(2) msg ids by (auto simp: seen_def)
  from opened_authentic [OF fresh o [unfolded e(1)] this]
  have "authentic B E a (m_From msg) (m_To msg) (m_Tag msg) (m_Body msg) \<or> (\<exists>call \<in> set calls. \<exists>x \<in> set (open_messages a (seen msg)).
      \<exists>y \<in> set (open_messages a call). x \<noteq> y \<and> sha256 x = sha256 y)" (is "?auth \<or> ?hit")
    by (simp add: seen_def)
  moreover have "?hit \<Longrightarrow> openings_collide a msgs" unfolding openings_collide_def using calls(2) msg by blast
  ultimately have "authentic B E a (m_From msg) node (m_Tag msg) (m_Body msg) \<or> openings_collide a msgs" using guards(2) by blast
  then show ?thesis unfolding delivered_ok_def using guards e(3) parse enc by simp
qed

lemma delivered_ok_cong:
  "router_conf r = router_conf r' \<Longrightarrow> delivered_ok B E a r msgs node msg m = delivered_ok B E a r' msgs node msg m"
  using router_conf_fields [of r r'] by (simp add: delivered_ok_def)

lemma run_delivers_ok:
  assumes fresh: "na_opened a = {}" and ids: "\<forall>m \<in> msgs. int64 (m_From m)"
  shows "router_run B E r evs = (r', obs) \<Longrightarrow> auth_inv B E a msgs r \<Longrightarrow> arrivals evs \<subseteq> msgs \<Longrightarrow> Queued node m \<in> set obs \<Longrightarrow>
    \<exists>msg. Arrive node msg \<in> set evs \<and> delivered_ok B E a r msgs node msg m"
proof (induction evs arbitrary: r obs)
  case (Cons ev evs)
  obtain r1 ob obs' where s: "router_step B E r ev = (r1, ob)" "router_run B E r1 evs = (r', obs')" "obs = ob # obs'"
    using Cons.prems(1) by (auto split: prod.splits)
  have conf: "router_conf r1 = router_conf r" using step_fifo [OF s(1)] by blast
  have sub: "arrivals [ev] \<subseteq> msgs" "arrivals evs \<subseteq> msgs" using Cons.prems(3) by (auto simp: arrivals_def)
  show ?case
  proof (cases "ob = Queued node m")
    case True
    then obtain msg r2 where ev: "ev = Arrive node msg" "route B E r node msg = (r2, Some m)"
      using s(1) by (cases ev) (auto simp: enqueue_def split: if_splits option.splits prod.splits list.splits)
    then have "msg \<in> msgs" using sub(1) by (auto simp: arrivals_def)
    from route_delivers_ok [OF fresh Cons.prems(2) this ids ev(2)] ev(1) show ?thesis by auto
  next
    case False
    then have "Queued node m \<in> set obs'" using Cons.prems(4) s(3) by auto
    moreover have "auth_inv B E a msgs r1" using step_auth_inv [OF Cons.prems(2) sub(1)] s(1) by simp
    ultimately have "\<exists>msg. Arrive node msg \<in> set evs \<and> delivered_ok B E a r1 msgs node msg m" using Cons.IH s(2) sub(2) by blast
    then show ?thesis using delivered_ok_cong [OF conf] by (meson list.set_intros(2))
  qed
qed simp

lemma old_key_loop_fresh: "old_key_loop B v ks a = Some a' \<Longrightarrow> na_opened a' = na_opened a \<and> na_sealed a' = na_sealed a"
  by (induction ks arbitrary: a) (auto simp: run_simps Let_def split: option.splits)

lemma receiver_key_loop_fresh: "receiver_key_loop v ks a = Some a' \<Longrightarrow> na_opened a' = na_opened a \<and> na_sealed a' = na_sealed a"
  by (induction ks arbitrary: a) (auto simp: run_simps Let_def split: option.splits)

lemma new_authenticator_fresh: "newCVNetworkAuthenticatorV2 B v rcv = Some a \<Longrightarrow> na_opened a = {}"
  by (auto simp: newCVNetworkAuthenticatorV2_def run_simps dest!: old_key_loop_fresh receiver_key_loop_fresh)

text \<open>C25: a router with an authenticator hands its services only authentic messages: every message it queues for a node
  arrived at that node's inbox under an allowed tag between committees that may exchange it, its payload is the one of
  an envelope of this session and epoch, and the wire carries a valid signature of the named sender, however many
  messages were opened and cached before, unless two arrived messages exhibit a SHA-256 collision.\<close>

theorem routed_messages_authentic:
  assumes auth: "newCVNetworkAuthenticatorV2 B validators receivers = Some a"
    and router: "newCVSAPVSSRouterWithReceivers recv sid epoch oldNodes newNodes localNodes queueCapacity [a] = Some r0"
    and run: "router_run B E r0 evs = (r, obs)" and ids: "\<forall>m \<in> arrivals evs. int64 (m_From m)"
    and queued: "Queued node m \<in> set obs"
  shows "\<exists>msg. Arrive node msg \<in> set evs \<and> delivered_ok B E a r0 (arrivals evs) node msg m"
proof -
  have "auth_inv B E a (arrivals evs) r0" unfolding auth_inv_def
    by (rule exI [of _ "[]"]) (use router in \<open>auto simp: newCVSAPVSSRouterWithReceivers_def run_simps open_run_def\<close>)
  then show ?thesis using run_delivers_ok [OF new_authenticator_fresh [OF auth] ids run] queued by blast
qed


section \<open>Honest messages arrive\<close>

text \<open>C26: an honest message goes through the whole network path: a payload put into an envelope, sealed by an authenticator
  that has sealed anything before and framed, is read from the connection as the same message, with the rest of the
  stream left for the next frame, and the receiver's router, holding the matching public keys and whatever it has
  opened before, queues the payload under the sender's name, provided that the tag is allowed between the two
  committees and the queue has room; otherwise two hashed seal messages collide under SHA-256.\<close>

theorem honest_message_delivered:
  assumes laws: "bls_laws B" "ed25519_laws E" and keys: "rt_auth r = Some b" "keys_match B a b" and fresh: "na_sealed a = []"
    and env: "cvEncodeNetworkEnvelope (rt_sid r) (rt_epoch r) payload = Some envelope"
    and sealed: "seal B E (seal_run B E a calls) sender to tag envelope = (a', Some wire)"
    and ids: "\<forall>(s, t, g, e) \<in> set calls. int64 s \<and> int64 t \<and> length e < 4294967296"
    and msg: "msg = \<lparr> m_From = sender, m_To = to, m_Tag = tag, m_Body = wire, m_WireBytes = 0 \<rparr>" "tcpMessageFrame msg = Some frame"
    and allowed: "cvAllowedNetworkTag tag" "committees_ok r msg"
    and room: "to \<in> rt_running r" "\<not> rt_cancelled r" "rt_queues r to = Some queue" "int (length queue) < rt_capacity r"
  shows "readTCPMessageFrame (frame @ rest) = Some (msg, length frame, rest) \<and>
    ((\<exists>m. snd (router_step B E r (Arrive to msg)) = Queued to m \<and> m_From m = sender \<and> m_Tag m = tag \<and> m_Body m = payload \<and>
        m_WireBytes m = int (length frame)) \<or>
     (\<exists>call \<in> set calls. \<exists>x \<in> set (seal_messages a (sender, to, tag, envelope)). \<exists>y \<in> set (seal_messages a call). x \<noteq> y \<and> sha256 x = sha256 y))"
proof -
  have read: "readTCPMessageFrame (frame @ rest) = Some (msg, length frame, rest)" using frame_roundtrip [OF msg(2)] msg(1) by simp
  have frame: "0 \<le> sender" "sender \<le> 4294967295" "0 \<le> to" "to \<le> 4294967295" "length frame = 17 + length tag + length wire"
    using msg by (auto simp: tcpMessageFrame_def run_simps)
  have len: "length envelope < 4294967296" using env by (auto simp: cvEncodeNetworkEnvelope_def run_simps frame_sizes)
  have i: "int64 sender" "int64 to" using frame by (simp_all add: int64_def)
  have deliver: "\<exists>m. snd (router_step B E r (Arrive to msg)) = Queued to m \<and> m_From m = sender \<and> m_Tag m = tag \<and> m_Body m = payload \<and>
      m_WireBytes m = int (length frame)" if o: "snd (auth_open B E b sender to tag wire) = Some envelope"
  proof -
    obtain b' where ob: "open_body B E r msg = (r\<lparr> rt_auth := Some b' \<rparr>, Some envelope)"
      using o keys(1) msg(1) by (cases "auth_open B E b sender to tag wire") (simp add: open_body_def)
    have dec: "cvDecodeNetworkEnvelope envelope (rt_sid r) (rt_epoch r) = Some payload" by (rule envelope_codec.decode_encode [OF TrueI env])
    show ?thesis using allowed room ob dec msg(1) frame(5) by (simp add: route_def enqueue_def tcpMessageFrameFixedBytes_def)
  qed
  from sealed_messages_open [OF laws keys(2) fresh sealed i len ids] deliver read show ?thesis by blast
qed

end
