(* ===== verification/Request.thy ===== *)
theory Request
  imports Validation
begin

text \<open>
  Validation requests, signatures and results: \<^verbatim>\<open>src/core/cv_sapvss_validation_request_v2.go\<close>.  A
  request carries everything a validator needs to recompute an aggregate; its public part is checked
  against the context, the eligible proposers and the three threshold signers.
\<close>

section \<open>Domains and data\<close>

definition cvValidationRequestWireV2Domain :: string where
  [dom_defs]: "cvValidationRequestWireV2Domain = ''ARL-CV-sAPVSS/v2-scalar-group/validation-request-wire''"

definition cvValidationShareWireV2Domain :: string where
  [dom_defs]: "cvValidationShareWireV2Domain = ''ARL-CV-sAPVSS/v2-scalar-group/validation-share-wire''"

definition cvValidationResultWireV2Domain :: string where
  [dom_defs]: "cvValidationResultWireV2Domain = ''ARL-CV-sAPVSS/v2-scalar-group/validation-result-wire''"

record cvValidationRequestV2 =
  vr_Header :: cvAggregateHeaderV2
  vr_Pool :: cvPoolV2
  vr_PoolCert :: cvPoolCertificateV2
  vr_ContributorCoin :: cvCoinOutputV2
  vr_SelectedIndices :: "int list"
  vr_ARC :: cvAPDBLockV2

record cvValidationSignatureV2 =
  vs_Statement :: bytes
  vs_Signature :: bytes

record cvValidationResultV2 =
  vt_Statement :: bytes
  vt_Certificate :: cvValidationCertificateV2

section \<open>Selected indices on the wire\<close>

text \<open>The loops over the selected indices that the request and the agreement object share.\<close>

definition selection_wire :: "int \<Rightarrow> int list \<Rightarrow> bytes option" where
  "selection_wire poolSize indices =
     (if list_ex (\<lambda>index. index < 0 \<or> index \<ge> poolSize) indices then None
      else Some (dropped (cvWriteUint32 (int (length indices))) @
                 concat (map (\<lambda>index. cvWriteUint64 (u64 index)) indices)))"

definition cvReadIndex :: "int \<Rightarrow> cvWireReader \<Rightarrow> (int \<times> cvWireReader) option" where
  "cvReadIndex poolSize r = do {
     (value, r) \<leftarrow> cvReadUint64 r;
     require (\<not> value \<ge> u64 poolSize);
     Some (int value, r)
   }"

definition cvReadSelection :: "cvV2Params \<Rightarrow> cvWireReader \<Rightarrow> (int list \<times> cvWireReader) option" where
  "cvReadSelection params r = do {
     (n, r) \<leftarrow> cvReadUint32 r;
     require (int n = vp_componentCount params);
     cvReadList (cvReadIndex (vp_poolSize params)) n r
   }"

section \<open>The request codec\<close>

definition cvValidationRequestV2CanonicalBytes :: "cvValidationRequestV2 \<Rightarrow> cvV2Params \<Rightarrow> bytes option" where
  [enc_defs]: "cvValidationRequestV2CanonicalBytes request params = do {
     require (int (length (vr_SelectedIndices request)) = vp_componentCount params);
     header \<leftarrow> cvAggregateHeaderV2CanonicalBytes (vr_Header request);
     pool \<leftarrow> cvPoolV2CanonicalBytes (vr_Pool request) params;
     poolCert \<leftarrow> cvPoolCertificateV2CanonicalBytes (vr_PoolCert request);
     coin \<leftarrow> cvCoinOutputV2CanonicalBytes (vr_ContributorCoin request);
     arc \<leftarrow> cvAPDBLockV2CanonicalBytes (vr_ARC request);
     selection \<leftarrow> selection_wire (vp_poolSize params) (vr_SelectedIndices request);
     Some (dropped (cvWriteBytes (str_bytes cvValidationRequestWireV2Domain)) @
           dropped (cvWriteBytes header) @ dropped (cvWriteBytes pool) @ dropped (cvWriteBytes poolCert) @
           dropped (cvWriteBytes coin) @ selection @ dropped (cvWriteBytes arc))
   }"

definition cvDecodeValidationRequestV2 :: "bytes \<Rightarrow> cvV2Params \<Rightarrow> cvValidationRequestV2 option" where
  [dec_defs]: "cvDecodeValidationRequestV2 wire params = do {
     (domain, r) \<leftarrow> cvReadBytes (length cvValidationRequestWireV2Domain) (newCVWireReader wire);
     require (domain = str_bytes cvValidationRequestWireV2Domain);
     (nested, r) \<leftarrow> cvReadList (cvReadBytes cvMaxNetworkPayloadBytes) 4 r;
     (selected, r) \<leftarrow> cvReadSelection params r;
     (arcWire, r) \<leftarrow> cvReadBytes (cvMaxComponentSignatureBytes + 256) r;
     require (r = []);
     header \<leftarrow> cvDecodeAggregateHeaderV2 (nested ! 0);
     pool \<leftarrow> cvDecodePoolV2 (nested ! 1) params;
     poolCert \<leftarrow> cvDecodePoolCertificateV2 (nested ! 2);
     coin \<leftarrow> cvDecodeCoinOutputV2 (nested ! 3);
     arc \<leftarrow> cvDecodeAPDBLockV2 arcWire;
     let request = \<lparr> vr_Header = header, vr_Pool = pool, vr_PoolCert = poolCert, vr_ContributorCoin = coin,
       vr_SelectedIndices = selected, vr_ARC = arc \<rparr>;
     canonical \<leftarrow> cvValidationRequestV2CanonicalBytes request params;
     require (canonical = wire);
     Some request
   }"

section \<open>Public verification\<close>

definition cvVerifyValidationRequestPublicModeV2 ::
  "('g, 'h, 'f) bls \<Rightarrow> cvValidationRequestV2 \<Rightarrow> bytes \<Rightarrow> cvV2Params \<Rightarrow> int set \<Rightarrow> ('g, 'h, 'f) tblsThresholdSigner \<Rightarrow>
   ('g, 'h, 'f) tblsThresholdSigner \<Rightarrow> ('g, 'h, 'f) tblsThresholdSigner \<Rightarrow> bool \<Rightarrow> bool" where
  "cvVerifyValidationRequestPublicModeV2 B request contextDigest params eligibleProposers apdbSigner controlSigner
     coinSigner validateComponents \<longleftrightarrow> (do {
     require (\<not> (length contextDigest \<noteq> 32 \<or> eligibleProposers = {} \<or>
       \<not> cvV2SignerHasRole apdbSigner cvV2RoleAPDB \<or> \<not> cvV2SignerHasRole controlSigner cvV2RoleControl \<or>
       \<not> cvV2SignerHasRole coinSigner cvV2RoleCoin));
     _ \<leftarrow> cvValidationRequestV2CanonicalBytes request params;
     require (\<not> (ah_ProposerID (vr_Header request) \<notin> eligibleProposers \<or>
       pl_ProposerID (vr_Pool request) \<noteq> ah_ProposerID (vr_Header request) \<or>
       ah_ContextDigest (vr_Header request) \<noteq> contextDigest \<or>
       pl_ContextDigest (vr_Pool request) \<noteq> contextDigest \<or>
       ah_PoolDigest (vr_Header request) \<noteq> pl_Digest (vr_Pool request)));
     require (validateComponents \<longrightarrow>
       list_all (\<lambda>component. cvValidateComponentRefV2 B component (Some apdbSigner)) (pl_Components (vr_Pool request)));
     require (cvVerifyPoolCertificateV2 B (vr_Pool request) (vr_PoolCert request) controlSigner);
     invocation \<leftarrow> cvContributorCoinInvocationV2 contextDigest (ah_ProposerID (vr_Header request)) (pl_Digest (vr_Pool request));
     require (cvVerifyCoinOutputV2 B (vr_ContributorCoin request) invocation coinSigner);
     want \<leftarrow> cvSelectedPoolIndicesV2 (vp_poolSize params) (vp_componentCount params) (co_Value (vr_ContributorCoin request));
     require (equalInts want (vr_SelectedIndices request));
     selectionDigest \<leftarrow> cvSelectionDigestV2 (vr_ContributorCoin request) (vr_SelectedIndices request)
       (vp_poolSize params) (vp_componentCount params);
     require (selectionDigest = ah_SelectionDigest (vr_Header request));
     require (\<not> (lk_InstanceDigest (vr_ARC request) \<noteq> ah_APDBInstance (vr_Header request) \<or>
       lk_Root (vr_ARC request) \<noteq> ah_APDBRoot (vr_Header request)));
     require (cvVerifyAPDBLockV2 B (vr_ARC request) apdbSigner)
   }) = Some ()"

definition cvVerifyValidationRequestPublicV2 where
  "cvVerifyValidationRequestPublicV2 B request contextDigest params eligibleProposers apdbSigner controlSigner coinSigner =
     cvVerifyValidationRequestPublicModeV2 B request contextDigest params eligibleProposers apdbSigner controlSigner coinSigner True"

definition cvVerifyValidationRequestPublicAfterComponentValidationV2 where
  "cvVerifyValidationRequestPublicAfterComponentValidationV2 B request contextDigest params eligibleProposers apdbSigner
     controlSigner coinSigner =
     cvVerifyValidationRequestPublicModeV2 B request contextDigest params eligibleProposers apdbSigner controlSigner coinSigner False"

section \<open>Signatures and results\<close>

definition cvValidationSignatureV2CanonicalBytes :: "cvValidationSignatureV2 \<Rightarrow> bytes option" where
  [enc_defs]: "cvValidationSignatureV2CanonicalBytes value = do {
     require (\<not> (length (vs_Statement value) \<noteq> 32 \<or> vs_Signature value = [] \<or>
       length (vs_Signature value) > cvMaxComponentSignatureBytes));
     Some (dropped (cvWriteBytes (str_bytes cvValidationShareWireV2Domain)) @
           dropped (cvWriteBytes (vs_Statement value)) @ dropped (cvWriteBytes (vs_Signature value)))
   }"

definition cvDecodeValidationSignatureV2 :: "bytes \<Rightarrow> cvValidationSignatureV2 option" where
  [dec_defs]: "cvDecodeValidationSignatureV2 wire = do {
     (domain, r) \<leftarrow> cvReadBytes (length cvValidationShareWireV2Domain) (newCVWireReader wire);
     require (domain = str_bytes cvValidationShareWireV2Domain);
     (statement, r) \<leftarrow> cvReadBytes 32 r;
     require (length statement = 32);
     (signature, r) \<leftarrow> cvReadBytes cvMaxComponentSignatureBytes r;
     require (\<not> (signature = [] \<or> r \<noteq> []));
     let value = \<lparr> vs_Statement = statement, vs_Signature = signature \<rparr>;
     canonical \<leftarrow> cvValidationSignatureV2CanonicalBytes value;
     require (canonical = wire);
     Some value
   }"

definition cvValidationResultV2CanonicalBytes ::
  "('g, 'h, 'f) bls \<Rightarrow> cvValidationResultV2 \<Rightarrow> int list \<Rightarrow> bytes option" where
  [enc_defs]: "cvValidationResultV2CanonicalBytes B result validatorSample = do {
     require (length (vt_Statement result) = 32);
     certificate \<leftarrow> cvValidationCertificateV2CanonicalBytes B (vt_Certificate result) validatorSample;
     Some (dropped (cvWriteBytes (str_bytes cvValidationResultWireV2Domain)) @
           dropped (cvWriteBytes (vt_Statement result)) @ dropped (cvWriteBytes certificate))
   }"

definition cvDecodeValidationResultV2 ::
  "('g, 'h, 'f) bls \<Rightarrow> bytes \<Rightarrow> int list \<Rightarrow> cvValidationResultV2 option" where
  [dec_defs]: "cvDecodeValidationResultV2 B wire validatorSample = do {
     (domain, r) \<leftarrow> cvReadBytes (length cvValidationResultWireV2Domain) (newCVWireReader wire);
     require (domain = str_bytes cvValidationResultWireV2Domain);
     (statement, r) \<leftarrow> cvReadBytes 32 r;
     require (length statement = 32);
     (certificateWire, r) \<leftarrow> cvReadBytes (cvMaxComponentSignatureBytes + 256) r;
     require (r = []);
     certificate \<leftarrow> cvDecodeValidationCertificateV2 B certificateWire validatorSample;
     let result = \<lparr> vt_Statement = statement, vt_Certificate = certificate \<rparr>;
     canonical \<leftarrow> cvValidationResultV2CanonicalBytes B result validatorSample;
     require (canonical = wire);
     Some result
   }"

section \<open>The codecs are canonical\<close>

lemma request_domain_lengths [simp]:
  "length cvValidationRequestWireV2Domain < 4294967296" "length cvValidationShareWireV2Domain < 4294967296"
  "length cvValidationResultWireV2Domain < 4294967296"
  by (simp_all add: dom_defs)

interpretation validation_signature_codec:
  wire_codec cvValidationSignatureV2CanonicalBytes cvDecodeValidationSignatureV2 "\<lambda>_. True"
proof
  fix v w
  assume "cvValidationSignatureV2CanonicalBytes v = Some w"
  then show "cvDecodeValidationSignatureV2 w = Some v"
    by (cases v) (auto simp: cvValidationSignatureV2CanonicalBytes_def cvDecodeValidationSignatureV2_def wire_simps split: if_splits)
qed (auto simp: cvDecodeValidationSignatureV2_def run_simps Let_def)

lemma u64_int64: "0 \<le> i \<Longrightarrow> int64 i \<Longrightarrow> int (u64 i) = i"
  by simp

lemma read_index:
  assumes "0 \<le> i" "i < n" "int64 n"
  shows "cvReadIndex n (cvWriteUint64 (u64 i) @ rest) = Some (i, rest)"
proof -
  have "int64 i" using assms by (simp add: int64_def)
  then show ?thesis using assms by (simp add: cvReadIndex_def wire_simps nat_less_eq_zless not_le)
qed

lemma read_selection:
  assumes "selection_wire (vp_poolSize params) ids = Some w" "int (length ids) = vp_componentCount params"
    "int64 (vp_poolSize params)" "length ids < 4294967296"
  shows "cvReadSelection params (w @ rest) = Some (ids, rest)"
proof -
  have ids: "\<forall>i \<in> set ids. 0 \<le> i \<and> i < vp_poolSize params"
    and w: "w = put_be 4 (length ids) @ concat (map (\<lambda>i. cvWriteUint64 (u64 i)) ids)"
    using assms(1,4) by (auto simp: selection_wire_def list_ex_iff split: if_splits)
  have "cvReadList (cvReadIndex (vp_poolSize params)) (length ids) (concat (map (\<lambda>i. cvWriteUint64 (u64 i)) ids) @ rest) =
      Some (ids, rest)"
    by (rule read_list) (use ids read_index [OF _ _ assms(3)] in auto)
  then show ?thesis using assms(2,4) by (simp add: w cvReadSelection_def wire_simps)
qed

text \<open>The size limits the decoder puts on the parts of a request; \<open>wf_pool\<close> bounds the pool.\<close>

definition wf_request :: "cvV2Params \<Rightarrow> cvValidationRequestV2 \<Rightarrow> bool" where
  "wf_request params request \<longleftrightarrow> int64 (ah_ProposerID (vr_Header request)) \<and> wf_pool (vr_Pool request) \<and>
     length (vr_SelectedIndices request) < 4294967296 \<and>
     (\<forall>w. cvPoolV2CanonicalBytes (vr_Pool request) params = Some w \<longrightarrow> length w \<le> cvMaxNetworkPayloadBytes) \<and>
     (\<forall>w. cvCoinOutputV2CanonicalBytes (vr_ContributorCoin request) = Some w \<longrightarrow> length w \<le> cvMaxNetworkPayloadBytes)"

lemma pool_cert_wire_length:
  "cvPoolCertificateV2CanonicalBytes c = Some w \<Longrightarrow> length w \<le> cvMaxNetworkPayloadBytes"
  by (auto simp: cvPoolCertificateV2CanonicalBytes_def run_simps wire_limits dom_defs)

lemma header_wire_limit: "cvAggregateHeaderV2CanonicalBytes h = Some w \<Longrightarrow> length w \<le> cvMaxNetworkPayloadBytes"
  using aggregate_header_fields(10) by (fastforce simp: wire_limits)

lemma read_nested:
  assumes "list_all (\<lambda>w. length w \<le> cvMaxNetworkPayloadBytes) ws" "n = length ws"
  shows "cvReadList (cvReadBytes cvMaxNetworkPayloadBytes) n (concat (map (\<lambda>w. put_be 4 (length w) @ w) ws) @ rest) =
    Some (ws, rest)"
  by (rule read_list) (use assms in \<open>auto simp: list_all_iff wire_simps\<close>)

lemma pool_size_int64: "cvPoolV2CanonicalBytes pool params = Some w \<Longrightarrow> int64 (vp_poolSize params)"
  by (auto simp: cvPoolV2CanonicalBytes_def pool_unsigned_def cvWriteUint32_def int64_def run_simps)

lemma decode_request_encode:
  assumes wf: "wf_request params request"
    and enc: "cvValidationRequestV2CanonicalBytes request params = Some w"
  shows "cvDecodeValidationRequestV2 w params = Some request"
proof -
  from enc obtain hw pw cw ow aw sw where
    hw: "cvAggregateHeaderV2CanonicalBytes (vr_Header request) = Some hw" and
    pw: "cvPoolV2CanonicalBytes (vr_Pool request) params = Some pw" and
    cw: "cvPoolCertificateV2CanonicalBytes (vr_PoolCert request) = Some cw" and
    ow: "cvCoinOutputV2CanonicalBytes (vr_ContributorCoin request) = Some ow" and
    aw: "cvAPDBLockV2CanonicalBytes (vr_ARC request) = Some aw" and
    sw: "selection_wire (vp_poolSize params) (vr_SelectedIndices request) = Some sw" and
    n: "int (length (vr_SelectedIndices request)) = vp_componentCount params" and
    w: "w = dropped (cvWriteBytes (str_bytes cvValidationRequestWireV2Domain)) @ dropped (cvWriteBytes hw) @
      dropped (cvWriteBytes pw) @ dropped (cvWriteBytes cw) @ dropped (cvWriteBytes ow) @ sw @ dropped (cvWriteBytes aw)"
    unfolding cvValidationRequestV2CanonicalBytes_def by (auto simp: run_simps)
  have lim: "list_all (\<lambda>w. length w \<le> cvMaxNetworkPayloadBytes) [hw, pw, cw, ow]"
    using header_wire_limit [OF hw] pool_cert_wire_length [OF cw] wf pw ow by (simp add: wf_request_def)
  note al = lock_wire_length [OF aw] ref_limits(3) [OF lock_wire_length [OF aw]]
  have w': "w = put_be 4 (length cvValidationRequestWireV2Domain) @ str_bytes cvValidationRequestWireV2Domain @
      concat (map (\<lambda>w. put_be 4 (length w) @ w) [hw, pw, cw, ow]) @ sw @ put_be 4 (length aw) @ aw"
    using lim al by (simp add: w)
  have dec: "cvDecodeAggregateHeaderV2 hw = Some (vr_Header request)" "cvDecodePoolV2 pw params = Some (vr_Pool request)"
    "cvDecodePoolCertificateV2 cw = Some (vr_PoolCert request)" "cvDecodeCoinOutputV2 ow = Some (vr_ContributorCoin request)"
    "cvDecodeAPDBLockV2 aw = Some (vr_ARC request)"
    using agg_header_codec.decode_encode [OF _ hw] pool_codec.decode_encode [OF _ pw] pool_cert_codec.decode_encode [OF _ cw]
      coin_output_codec.decode_encode [OF _ ow] lock_codec.decode_encode [OF _ aw] wf by (auto simp: wf_request_def)
  have sel: "cvReadSelection params (sw @ rest) = Some (vr_SelectedIndices request, rest)" for rest
    by (rule read_selection [OF sw n pool_size_int64 [OF pw]]) (use wf in \<open>simp add: wf_request_def\<close>)
  have nest: "cvReadList (cvReadBytes cvMaxNetworkPayloadBytes) 4
      (concat (map (\<lambda>w. put_be 4 (length w) @ w) [hw, pw, cw, ow]) @ rest) = Some ([hw, pw, cw, ow], rest)" for rest
    by (rule read_nested [OF lim]) simp
  have eta: "\<lparr> vr_Header = vr_Header request, vr_Pool = vr_Pool request, vr_PoolCert = vr_PoolCert request,
      vr_ContributorCoin = vr_ContributorCoin request, vr_SelectedIndices = vr_SelectedIndices request,
      vr_ARC = vr_ARC request \<rparr> = request" by simp
  have dom: "cvReadBytes (length cvValidationRequestWireV2Domain) w = Some (str_bytes cvValidationRequestWireV2Domain,
      concat (map (\<lambda>w. put_be 4 (length w) @ w) [hw, pw, cw, ow]) @ sw @ put_be 4 (length aw) @ aw)"
    unfolding w' by (rule read_bytes_n) simp_all
  show ?thesis
    unfolding cvDecodeValidationRequestV2_def newCVWireReader_id dom
    using enc by (simp add: nest sel al wire_simps dec eta del: list.map concat.simps)
qed

interpretation request_codec: wire_codec "\<lambda>r. cvValidationRequestV2CanonicalBytes r params"
  "\<lambda>w. cvDecodeValidationRequestV2 w params" "wf_request params" for params
proof
  fix request w
  assume dec: "cvDecodeValidationRequestV2 w params = Some request"
  then show "cvValidationRequestV2CanonicalBytes request params = Some w"
    unfolding cvDecodeValidationRequestV2_def Let_def by (auto simp: run_simps)
  from dec obtain r1 r2 r3 nested n where
    rd: "cvReadList (cvReadBytes cvMaxNetworkPayloadBytes) 4 r1 = Some (nested, r2)"
      "cvDecodeAggregateHeaderV2 (nested ! 0) = Some (vr_Header request)"
      "cvDecodePoolV2 (nested ! 1) params = Some (vr_Pool request)"
      "cvDecodeCoinOutputV2 (nested ! 3) = Some (vr_ContributorCoin request)"
    and sel: "cvReadUint32 r2 = Some (n, r3)" "length (vr_SelectedIndices request) = n"
    unfolding cvDecodeValidationRequestV2_def cvReadSelection_def Let_def
    by (auto simp: run_simps dest: cvReadList_SomeD(1) [where P = "\<lambda>_. True"])
  have "length nested = 4 \<and> (\<forall>w \<in> set nested. length w \<le> cvMaxNetworkPayloadBytes)"
    using cvReadList_SomeD [OF rd(1), of "\<lambda>w. length w \<le> cvMaxNetworkPayloadBytes"] cvReadBytes_SomeD(2) by blast
  then have lim: "length (nested ! 1) \<le> cvMaxNetworkPayloadBytes" "length (nested ! 3) \<le> cvMaxNetworkPayloadBytes" by auto
  show "wf_request params request"
    using agg_header_codec.decode_wf [OF rd(2)] pool_codec.decode_wf [OF rd(3)] pool_codec.encode_decode [OF rd(3)]
      coin_output_codec.encode_decode [OF rd(4)] lim sel cvReadUint32_SomeD(2) by (auto simp: wf_request_def)
qed (rule decode_request_encode)

text \<open>A validation request has one wire form: the decoder accepts exactly the canonical encodings
  of requests within the network limits.\<close>

theorem request_wire_canonical:
  "cvDecodeValidationRequestV2 w params = Some request \<longleftrightarrow>
   wf_request params request \<and> cvValidationRequestV2CanonicalBytes request params = Some w"
  by (rule request_codec.decode_iff)

definition wf_result :: "('g, 'h, 'f) bls \<Rightarrow> int list \<Rightarrow> cvValidationResultV2 \<Rightarrow> bool" where
  "wf_result B sample result \<longleftrightarrow>
     (\<forall>w. cvValidationCertificateV2CanonicalBytes B (vt_Certificate result) sample = Some w \<longrightarrow>
       length w \<le> cvMaxComponentSignatureBytes + 256) \<and> length (vc_SignerBitmap (vt_Certificate result)) < 4294967296"

interpretation result_codec: wire_codec "\<lambda>r. cvValidationResultV2CanonicalBytes B r sample"
  "\<lambda>w. cvDecodeValidationResultV2 B w sample" "wf_result B sample" for B :: "('g, 'h, 'f) bls" and sample
proof
  fix r w
  assume wf: "wf_result B sample r" and enc: "cvValidationResultV2CanonicalBytes B r sample = Some w"
  from enc obtain cw where cw: "cvValidationCertificateV2CanonicalBytes B (vt_Certificate r) sample = Some cw"
    and st: "length (vt_Statement r) = 32"
    and w: "w = dropped (cvWriteBytes (str_bytes cvValidationResultWireV2Domain)) @
      dropped (cvWriteBytes (vt_Statement r)) @ dropped (cvWriteBytes cw)"
    by (auto simp: cvValidationResultV2CanonicalBytes_def run_simps)
  have l: "length cw \<le> cvMaxComponentSignatureBytes + 256" "length cw < 4294967296"
    using wf cw ref_limits(3) by (auto simp: wf_result_def)
  have dc: "cvDecodeValidationCertificateV2 B cw sample = Some (vt_Certificate r)"
    using validation_codec.decode_encode [OF _ cw] wf by (simp add: wf_result_def)
  have eta: "\<lparr> vt_Statement = vt_Statement r, vt_Certificate = vt_Certificate r \<rparr> = r" by simp
  show "cvDecodeValidationResultV2 B w sample = Some r"
    using enc unfolding cvDecodeValidationResultV2_def newCVWireReader_id by (simp add: w st l dc wire_simps eta)
next
  fix r w
  assume "cvDecodeValidationResultV2 B w sample = Some r"
  then obtain cw r1 r2 where rd: "cvReadBytes (cvMaxComponentSignatureBytes + 256) r1 = Some (cw, r2)"
    and dc: "cvDecodeValidationCertificateV2 B cw sample = Some (vt_Certificate r)"
    unfolding cvDecodeValidationResultV2_def Let_def by (auto simp: run_simps)
  show "wf_result B sample r"
    using cvReadBytes_SomeD(2) [OF rd] validation_codec.encode_decode [OF dc] validation_codec.decode_wf [OF dc]
    by (simp add: wf_result_def)
qed (auto simp: cvDecodeValidationResultV2_def run_simps Let_def)

end
