(* ===== verification/Agreement.thy ===== *)
theory Agreement
  imports Request
begin

text \<open>
  Agreement objects and the public MVBA predicate: \<^verbatim>\<open>src/core/cv_sapvss_agreement_v2.go\<close>.  An object
  repeats a validation request and adds the validation certificate.  The predicate keeps a cache of
  the byte strings it has accepted; it answers exactly as the predicate without the cache would.
\<close>

definition cvAgreementObjectV2Domain :: string where
  [dom_defs]: "cvAgreementObjectV2Domain = ''ARL-CV-sAPVSS/v2-scalar-group/agreement-object''"

definition cvMaxAgreementObjectV2Bytes :: nat where
  "cvMaxAgreementObjectV2Bytes = cvMaxNetworkPayloadBytes"

record cvAgreementObjectV2 =
  ao_Header :: cvAggregateHeaderV2
  ao_Pool :: cvPoolV2
  ao_PoolCert :: cvPoolCertificateV2
  ao_ContributorCoin :: cvCoinOutputV2
  ao_SelectedIndices :: "int list"
  ao_VCert :: cvValidationCertificateV2
  ao_ARC :: cvAPDBLockV2

text \<open>The pointers of the context that the code compares with \<^verbatim>\<open>nil\<close> are options.\<close>

record ('g, 'h, 'f) cvAgreementPublicContextV2 =
  ap_SID :: string
  ap_Epoch :: nat
  ap_ContextDigest :: bytes
  ap_OldCommittee :: "int list"
  ap_EligibilityCoin :: "cvCoinOutputV2 option"
  ap_Params :: cvV2Params
  ap_APDBSigner :: "('g, 'h, 'f) tblsThresholdSigner"
  ap_ControlSigner :: "('g, 'h, 'f) tblsThresholdSigner"
  ap_CoinSigner :: "('g, 'h, 'f) tblsThresholdSigner option"
  ap_ValidatorKeys :: "('h, 'f) cvValidatorKeyMaterialV2 option"

section \<open>The object codec\<close>

definition cvAgreementObjectV2CanonicalBytes ::
  "('g, 'h, 'f) bls \<Rightarrow> cvAgreementObjectV2 \<Rightarrow> cvV2Params \<Rightarrow> int list \<Rightarrow> bytes option" where
  [enc_defs]: "cvAgreementObjectV2CanonicalBytes B object params validatorSample = do {
     require (int (length (ao_SelectedIndices object)) = vp_componentCount params);
     headerWire \<leftarrow> cvAggregateHeaderV2CanonicalBytes (ao_Header object);
     poolWire \<leftarrow> cvPoolV2CanonicalBytes (ao_Pool object) params;
     poolCertWire \<leftarrow> cvPoolCertificateV2CanonicalBytes (ao_PoolCert object);
     coinWire \<leftarrow> cvCoinOutputV2CanonicalBytes (ao_ContributorCoin object);
     vCertWire \<leftarrow> cvValidationCertificateV2CanonicalBytes B (ao_VCert object) validatorSample;
     arcWire \<leftarrow> cvAPDBLockV2CanonicalBytes (ao_ARC object);
     selection \<leftarrow> selection_wire (vp_poolSize params) (ao_SelectedIndices object);
     let wire = dropped (cvWriteBytes (str_bytes cvAgreementObjectV2Domain)) @
       concat (map (\<lambda>nested. dropped (cvWriteBytes nested)) [headerWire, poolWire, poolCertWire, coinWire]) @
       selection @ dropped (cvWriteBytes vCertWire) @ dropped (cvWriteBytes arcWire);
     require (\<not> length wire > cvMaxAgreementObjectV2Bytes);
     Some wire
   }"

definition cvDecodeAgreementObjectV2 ::
  "('g, 'h, 'f) bls \<Rightarrow> bytes \<Rightarrow> cvV2Params \<Rightarrow> int list \<Rightarrow> cvAgreementObjectV2 option" where
  [dec_defs]: "cvDecodeAgreementObjectV2 B wire params validatorSample = do {
     require (\<not> (wire = [] \<or> length wire > cvMaxAgreementObjectV2Bytes));
     (domain, r) \<leftarrow> cvReadBytes (length cvAgreementObjectV2Domain) (newCVWireReader wire);
     require (domain = str_bytes cvAgreementObjectV2Domain);
     (nested, r) \<leftarrow> cvReadList (cvReadBytes cvMaxAgreementObjectV2Bytes) 4 r;
     header \<leftarrow> cvDecodeAggregateHeaderV2 (nested ! 0);
     pool \<leftarrow> cvDecodePoolV2 (nested ! 1) params;
     poolCert \<leftarrow> cvDecodePoolCertificateV2 (nested ! 2);
     coin \<leftarrow> cvDecodeCoinOutputV2 (nested ! 3);
     (selected, r) \<leftarrow> cvReadSelection params r;
     (vCertWire, r) \<leftarrow> cvReadBytes (cvMaxComponentSignatureBytes + 256) r;
     vCert \<leftarrow> cvDecodeValidationCertificateV2 B vCertWire validatorSample;
     (arcWire, r) \<leftarrow> cvReadBytes (cvMaxComponentSignatureBytes + 256) r;
     require (r = []);
     arc \<leftarrow> cvDecodeAPDBLockV2 arcWire;
     let object = \<lparr> ao_Header = header, ao_Pool = pool, ao_PoolCert = poolCert, ao_ContributorCoin = coin,
       ao_SelectedIndices = selected, ao_VCert = vCert, ao_ARC = arc \<rparr>;
     canonical \<leftarrow> cvAgreementObjectV2CanonicalBytes B object params validatorSample;
     require (canonical = wire);
     Some object
   }"

section \<open>Eligibility and verification\<close>

definition cvAgreementEligibilitySamplesV2 ::
  "('g, 'h, 'f) bls \<Rightarrow> ('g, 'h, 'f) cvAgreementPublicContextV2 \<Rightarrow> (int list \<times> int list) option" where
  "cvAgreementEligibilitySamplesV2 B public = do {
     require (\<not> (ap_SID public = [] \<or> ap_Epoch public = 0));
     coin \<leftarrow> ap_EligibilityCoin public;
     signer \<leftarrow> ap_CoinSigner public;
     require (\<not> (ap_OldCommittee public = [] \<or>
       \<not> equalInts (ap_OldCommittee public) (sortedUnique (ap_OldCommittee public))));
     expectedInvocation \<leftarrow> cvEligibilityCoinInvocationV2 (ap_SID public) (ap_Epoch public);
     require (cvVerifyCoinOutputV2 B coin expectedInvocation signer);
     (proposers, validators) \<leftarrow> cvDeriveEligibilitySamplesV2 (ap_OldCommittee public) (co_Value coin)
       (vp_proposerSampleSize (ap_Params public)) (vp_validatorSampleSize (ap_Params public));
     keys \<leftarrow> ap_ValidatorKeys public;
     require (cvValidValidatorSampleV2 validators keys);
     Some (proposers, validators)
   }"

definition cvVerifyAgreementObjectV2 ::
  "('g, 'h, 'f::field) bls \<Rightarrow> cvAgreementObjectV2 \<Rightarrow> ('g, 'h, 'f) cvAgreementPublicContextV2 \<Rightarrow> bool" where
  "cvVerifyAgreementObjectV2 B object public \<longleftrightarrow> (do {
     (proposers, validators) \<leftarrow> cvAgreementEligibilitySamplesV2 B public;
     require (\<not> (length (ap_ContextDigest public) \<noteq> 32 \<or> \<not> cvV2SignerHasRole (ap_APDBSigner public) cvV2RoleAPDB \<or>
       \<not> cvV2SignerHasRole (ap_ControlSigner public) cvV2RoleControl));
     coinSigner \<leftarrow> ap_CoinSigner public;
     require (cvV2SignerHasRole coinSigner cvV2RoleCoin);
     keys \<leftarrow> ap_ValidatorKeys public;
     _ \<leftarrow> cvAgreementObjectV2CanonicalBytes B object (ap_Params public) validators;
     require (\<not> (ah_ContextDigest (ao_Header object) \<noteq> ap_ContextDigest public \<or>
       pl_ContextDigest (ao_Pool object) \<noteq> ap_ContextDigest public \<or>
       ah_ProposerID (ao_Header object) \<noteq> pl_ProposerID (ao_Pool object) \<or>
       \<not> cvContainsID proposers (ah_ProposerID (ao_Header object))));
     require (ah_PoolDigest (ao_Header object) = pl_Digest (ao_Pool object));
     require (list_all (\<lambda>component. cvValidateComponentRefV2 B component (Some (ap_APDBSigner public)))
       (pl_Components (ao_Pool object)));
     require (cvVerifyPoolCertificateV2 B (ao_Pool object) (ao_PoolCert object) (ap_ControlSigner public));
     expectedInvocation \<leftarrow> cvContributorCoinInvocationV2 (ap_ContextDigest public) (ah_ProposerID (ao_Header object))
       (pl_Digest (ao_Pool object));
     require (cvVerifyCoinOutputV2 B (ao_ContributorCoin object) expectedInvocation coinSigner);
     wantSelection \<leftarrow> cvSelectedPoolIndicesV2 (vp_poolSize (ap_Params public)) (vp_componentCount (ap_Params public))
       (co_Value (ao_ContributorCoin object));
     require (equalInts wantSelection (ao_SelectedIndices object));
     selectionDigest \<leftarrow> cvSelectionDigestV2 (ao_ContributorCoin object) (ao_SelectedIndices object)
       (vp_poolSize (ap_Params public)) (vp_componentCount (ap_Params public));
     require (selectionDigest = ah_SelectionDigest (ao_Header object));
     require (cvVerifyValidationCertificateV2 B (ao_VCert object) (ao_Header object) validators
       (vp_validatorThreshold (ap_Params public)) keys);
     require (\<not> (lk_InstanceDigest (ao_ARC object) \<noteq> ah_APDBInstance (ao_Header object) \<or>
       lk_Root (ao_ARC object) \<noteq> ah_APDBRoot (ao_Header object)));
     require (cvVerifyAPDBLockV2 B (ao_ARC object) (ap_APDBSigner public))
   }) = Some ()"

text \<open>The predicate closure: \<open>verified\<close> is its \<^verbatim>\<open>sync.Map\<close>; a call returns the answer and the map.\<close>

definition cvAggregatePredicateV2 ::
  "('g, 'h, 'f::field) bls \<Rightarrow> ('g, 'h, 'f) cvAgreementPublicContextV2 \<Rightarrow> string set \<Rightarrow> bytes \<Rightarrow> bool \<times> string set" where
  "cvAggregatePredicateV2 B public verified candidate =
     (let key = bytes_str candidate in
      if key \<in> verified then (True, verified)
      else case cvAgreementEligibilitySamplesV2 B public of
        None \<Rightarrow> (False, verified)
      | Some (_, validators) \<Rightarrow>
          (case cvDecodeAgreementObjectV2 B candidate (ap_Params public) validators of
             None \<Rightarrow> (False, verified)
           | Some object \<Rightarrow>
               if \<not> cvVerifyAgreementObjectV2 B object public then (False, verified)
               else (True, insert key verified)))"

section \<open>The cache is transparent\<close>

text \<open>The specification: decode and verify, with no state.\<close>

definition acceptable :: "('g, 'h, 'f::field) bls \<Rightarrow> ('g, 'h, 'f) cvAgreementPublicContextV2 \<Rightarrow> bytes \<Rightarrow> bool" where
  "acceptable B public candidate \<longleftrightarrow>
     (\<exists>proposers validators object. cvAgreementEligibilitySamplesV2 B public = Some (proposers, validators) \<and>
       cvDecodeAgreementObjectV2 B candidate (ap_Params public) validators = Some object \<and>
       cvVerifyAgreementObjectV2 B object public)"

text \<open>A run of calls on one closure: the answers in order.\<close>

fun predicate_answers ::
  "('g, 'h, 'f::field) bls \<Rightarrow> ('g, 'h, 'f) cvAgreementPublicContextV2 \<Rightarrow> string set \<Rightarrow> bytes list \<Rightarrow> bool list" where
  "predicate_answers B public verified [] = []"
| "predicate_answers B public verified (candidate # candidates) =
     (case cvAggregatePredicateV2 B public verified candidate of
        (answer, verified') \<Rightarrow> answer # predicate_answers B public verified' candidates)"

definition cache_ok :: "('g, 'h, 'f::field) bls \<Rightarrow> ('g, 'h, 'f) cvAgreementPublicContextV2 \<Rightarrow> string set \<Rightarrow> bool" where
  "cache_ok B public verified \<longleftrightarrow> (\<forall>key \<in> verified. acceptable B public (str_bytes key))"

lemma predicate_step:
  assumes "cache_ok B public verified"
  shows "fst (cvAggregatePredicateV2 B public verified candidate) \<longleftrightarrow> acceptable B public candidate"
    and "cache_ok B public (snd (cvAggregatePredicateV2 B public verified candidate))"
  using assms by (auto simp: cvAggregatePredicateV2_def cache_ok_def acceptable_def Let_def split: option.splits prod.splits)

lemma predicate_answers_eq:
  "cache_ok B public verified \<Longrightarrow> predicate_answers B public verified cs = map (acceptable B public) cs"
proof (induction cs arbitrary: verified)
  case (Cons c cs)
  obtain a v where av: "cvAggregatePredicateV2 B public verified c = (a, v)" by fastforce
  then show ?case using Cons.IH [of v] predicate_step [OF Cons.prems, of c] by simp
qed simp

text \<open>The predicate's cache is invisible: on any sequence of candidates, started with the empty
  cache, every answer is that of decoding and verifying the candidate afresh.\<close>

theorem predicate_cache_transparent:
  "predicate_answers B public {} candidates = map (acceptable B public) candidates"
  by (rule predicate_answers_eq) (simp add: cache_ok_def)

section \<open>An object is a verified request with a certificate\<close>

definition object_request :: "cvAgreementObjectV2 \<Rightarrow> cvValidationRequestV2" where
  "object_request object = \<lparr> vr_Header = ao_Header object, vr_Pool = ao_Pool object, vr_PoolCert = ao_PoolCert object,
     vr_ContributorCoin = ao_ContributorCoin object, vr_SelectedIndices = ao_SelectedIndices object, vr_ARC = ao_ARC object \<rparr>"

lemma object_request_wire:
  "cvAgreementObjectV2CanonicalBytes B object params sample = Some w \<Longrightarrow>
   \<exists>v. cvValidationRequestV2CanonicalBytes (object_request object) params = Some v"
  by (auto simp: cvAgreementObjectV2CanonicalBytes_def cvValidationRequestV2CanonicalBytes_def object_request_def run_simps)

text \<open>The agreement predicate is the validators' check of the request plus the validation
  certificate: an encodable object is accepted exactly when its request part passes the public
  request verification against the sampled proposers and its certificate is a quorum of the sampled
  validators for its header.\<close>

theorem agreement_is_certified_request:
  "cvVerifyAgreementObjectV2 B object public \<longleftrightarrow>
   (\<exists>proposers validators coinSigner keys.
     cvAgreementEligibilitySamplesV2 B public = Some (proposers, validators) \<and>
     ap_CoinSigner public = Some coinSigner \<and> ap_ValidatorKeys public = Some keys \<and>
     cvAgreementObjectV2CanonicalBytes B object (ap_Params public) validators \<noteq> None \<and>
     cvVerifyValidationRequestPublicV2 B (object_request object) (ap_ContextDigest public) (ap_Params public)
       (set proposers) (ap_APDBSigner public) (ap_ControlSigner public) coinSigner \<and>
     cvVerifyValidationCertificateV2 B (ao_VCert object) (ao_Header object) validators
       (vp_validatorThreshold (ap_Params public)) keys)"
  (is "?L \<longleftrightarrow> ?R")
proof
  assume ?L
  then show ?R
    unfolding cvVerifyAgreementObjectV2_def cvVerifyValidationRequestPublicV2_def cvVerifyValidationRequestPublicModeV2_def
    by (auto simp: run_simps object_request_def intro: object_request_wire [unfolded object_request_def])
next
  assume ?R
  then show ?L
    unfolding cvVerifyAgreementObjectV2_def cvVerifyValidationRequestPublicV2_def cvVerifyValidationRequestPublicModeV2_def
    by (auto simp: run_simps object_request_def)
qed

section \<open>What an accepted object guarantees\<close>

lemma eligibility_samples:
  assumes "cvAgreementEligibilitySamplesV2 B public = Some (proposers, validators)"
  shows "distinct proposers \<and> distinct validators \<and> set proposers \<subseteq> set (ap_OldCommittee public) \<and>
    set validators \<subseteq> set (ap_OldCommittee public) \<and>
    int (length proposers) = vp_proposerSampleSize (ap_Params public) \<and>
    int (length validators) = vp_validatorSampleSize (ap_Params public)"
  using assms sample_members by (fastforce simp: cvAgreementEligibilitySamplesV2_def cvDeriveEligibilitySamplesV2_def run_simps)


section \<open>The codec is canonical\<close>

definition wf_object :: "('g, 'h, 'f) bls \<Rightarrow> cvV2Params \<Rightarrow> int list \<Rightarrow> cvAgreementObjectV2 \<Rightarrow> bool" where
  "wf_object B params sample object \<longleftrightarrow> wf_request params (object_request object) \<and>
     length (vc_SignerBitmap (ao_VCert object)) < 4294967296 \<and>
     (\<forall>w. cvValidationCertificateV2CanonicalBytes B (ao_VCert object) sample = Some w \<longrightarrow>
       length w \<le> cvMaxComponentSignatureBytes + 256)"

lemma agreement_domain_length [simp]: "length cvAgreementObjectV2Domain < 4294967296"
  by (simp add: dom_defs)

lemma decode_object_encode:
  assumes wf: "wf_object B params sample object" and enc: "cvAgreementObjectV2CanonicalBytes B object params sample = Some w"
  shows "cvDecodeAgreementObjectV2 B w params sample = Some object"
proof -
  from enc obtain hw pw cw ow vw aw sw where
    hw: "cvAggregateHeaderV2CanonicalBytes (ao_Header object) = Some hw" and
    pw: "cvPoolV2CanonicalBytes (ao_Pool object) params = Some pw" and
    cw: "cvPoolCertificateV2CanonicalBytes (ao_PoolCert object) = Some cw" and
    ow: "cvCoinOutputV2CanonicalBytes (ao_ContributorCoin object) = Some ow" and
    vw: "cvValidationCertificateV2CanonicalBytes B (ao_VCert object) sample = Some vw" and
    aw: "cvAPDBLockV2CanonicalBytes (ao_ARC object) = Some aw" and
    sw: "selection_wire (vp_poolSize params) (ao_SelectedIndices object) = Some sw" and
    n: "int (length (ao_SelectedIndices object)) = vp_componentCount params" and
    w: "w = dropped (cvWriteBytes (str_bytes cvAgreementObjectV2Domain)) @
      concat (map (\<lambda>nested. dropped (cvWriteBytes nested)) [hw, pw, cw, ow]) @
      sw @ dropped (cvWriteBytes vw) @ dropped (cvWriteBytes aw)" and
    max: "length w \<le> cvMaxAgreementObjectV2Bytes"
    unfolding cvAgreementObjectV2CanonicalBytes_def Let_def by (elim bind_eq_Some_conv [THEN iffD1, elim_format] exE conjE)
      (auto simp: run_simps simp del: list.map concat.simps)
  have req: "wf_request params (object_request object)" using wf by (simp add: wf_object_def)
  have lim: "list_all (\<lambda>w. length w \<le> cvMaxNetworkPayloadBytes) [hw, pw, cw, ow]"
    using header_wire_limit [OF hw] pool_cert_wire_length [OF cw] req pw ow by (simp add: wf_request_def object_request_def)
  have vl: "length vw \<le> cvMaxComponentSignatureBytes + 256" "length vw < 4294967296"
    using wf vw ref_limits(3) by (auto simp: wf_object_def)
  note al = lock_wire_length [OF aw] ref_limits(3) [OF lock_wire_length [OF aw]]
  have w': "w = put_be 4 (length cvAgreementObjectV2Domain) @ str_bytes cvAgreementObjectV2Domain @
      concat (map (\<lambda>w. put_be 4 (length w) @ w) [hw, pw, cw, ow]) @ sw @ put_be 4 (length vw) @ vw @ put_be 4 (length aw) @ aw"
    using lim al vl by (simp add: w)
  have dec: "cvDecodeAggregateHeaderV2 hw = Some (ao_Header object)" "cvDecodePoolV2 pw params = Some (ao_Pool object)"
    "cvDecodePoolCertificateV2 cw = Some (ao_PoolCert object)" "cvDecodeCoinOutputV2 ow = Some (ao_ContributorCoin object)"
    "cvDecodeValidationCertificateV2 B vw sample = Some (ao_VCert object)" "cvDecodeAPDBLockV2 aw = Some (ao_ARC object)"
    using agg_header_codec.decode_encode [OF _ hw] pool_codec.decode_encode [OF _ pw] pool_cert_codec.decode_encode [OF _ cw]
      coin_output_codec.decode_encode [OF _ ow] lock_codec.decode_encode [OF _ aw] validation_codec.decode_encode [OF _ vw] wf
    by (auto simp: wf_object_def wf_request_def object_request_def)
  have sel: "cvReadSelection params (sw @ rest) = Some (ao_SelectedIndices object, rest)" for rest
    by (rule read_selection [OF sw n pool_size_int64 [OF pw]]) (use req in \<open>simp add: wf_request_def object_request_def\<close>)
  have nest: "cvReadList (cvReadBytes cvMaxAgreementObjectV2Bytes) 4
      (concat (map (\<lambda>w. put_be 4 (length w) @ w) [hw, pw, cw, ow]) @ rest) = Some ([hw, pw, cw, ow], rest)" for rest
    unfolding cvMaxAgreementObjectV2Bytes_def by (rule read_nested [OF lim]) simp
  have eta: "\<lparr> ao_Header = ao_Header object, ao_Pool = ao_Pool object, ao_PoolCert = ao_PoolCert object,
      ao_ContributorCoin = ao_ContributorCoin object, ao_SelectedIndices = ao_SelectedIndices object,
      ao_VCert = ao_VCert object, ao_ARC = ao_ARC object \<rparr> = object" by simp
  have dom: "cvReadBytes (length cvAgreementObjectV2Domain) w = Some (str_bytes cvAgreementObjectV2Domain,
      concat (map (\<lambda>w. put_be 4 (length w) @ w) [hw, pw, cw, ow]) @ sw @ put_be 4 (length vw) @ vw @ put_be 4 (length aw) @ aw)"
    unfolding w' by (rule read_bytes_n) simp_all
  have ne: "w \<noteq> []" unfolding w' by simp
  show ?thesis
    unfolding cvDecodeAgreementObjectV2_def newCVWireReader_id dom
    using enc ne max by (simp add: nest sel al vl wire_simps dec eta del: list.map concat.simps)
qed

interpretation object_codec: wire_codec "\<lambda>ob. cvAgreementObjectV2CanonicalBytes B ob params sample"
  "\<lambda>w. cvDecodeAgreementObjectV2 B w params sample" "wf_object B params sample" for B :: "('g, 'h, 'f) bls" and params sample
proof
  fix object w
  assume dec: "cvDecodeAgreementObjectV2 B w params sample = Some object"
  then show "cvAgreementObjectV2CanonicalBytes B object params sample = Some w"
    unfolding cvDecodeAgreementObjectV2_def Let_def by (auto simp: run_simps)
  from dec obtain r1 r2 r3 r4 r5 nested n vw where
    rd: "cvReadList (cvReadBytes cvMaxNetworkPayloadBytes) 4 r1 = Some (nested, r2)"
      "cvDecodeAggregateHeaderV2 (nested ! 0) = Some (ao_Header object)"
      "cvDecodePoolV2 (nested ! 1) params = Some (ao_Pool object)"
      "cvDecodeCoinOutputV2 (nested ! 3) = Some (ao_ContributorCoin object)"
    and sel: "cvReadUint32 r2 = Some (n, r3)" "length (ao_SelectedIndices object) = n"
    and v: "cvReadBytes (cvMaxComponentSignatureBytes + 256) r4 = Some (vw, r5)"
      "cvDecodeValidationCertificateV2 B vw sample = Some (ao_VCert object)"
    unfolding cvDecodeAgreementObjectV2_def cvReadSelection_def Let_def cvMaxAgreementObjectV2Bytes_def
    by (auto simp: run_simps dest: cvReadList_SomeD(1) [where P = "\<lambda>_. True"])
  have "length nested = 4 \<and> (\<forall>w \<in> set nested. length w \<le> cvMaxNetworkPayloadBytes)"
    using cvReadList_SomeD [OF rd(1), of "\<lambda>w. length w \<le> cvMaxNetworkPayloadBytes"] cvReadBytes_SomeD(2) by blast
  then have lim: "length (nested ! 1) \<le> cvMaxNetworkPayloadBytes" "length (nested ! 3) \<le> cvMaxNetworkPayloadBytes" by auto
  show "wf_object B params sample object"
    using agg_header_codec.decode_wf [OF rd(2)] pool_codec.decode_wf [OF rd(3)] pool_codec.encode_decode [OF rd(3)]
      coin_output_codec.encode_decode [OF rd(4)] lim sel cvReadUint32_SomeD(2) cvReadBytes_SomeD(2) [OF v(1)]
      validation_codec.decode_wf [OF v(2)] validation_codec.encode_decode [OF v(2)]
    by (auto simp: wf_object_def wf_request_def object_request_def)
qed (rule decode_object_encode)

text \<open>An agreement object has one wire form: the decoder accepts exactly the canonical encodings of
  objects within the limits, so an accepted candidate of the agreement determines its object.\<close>

theorem agreement_wire_canonical:
  "cvDecodeAgreementObjectV2 B w params sample = Some object \<longleftrightarrow>
   wf_object B params sample object \<and> cvAgreementObjectV2CanonicalBytes B object params sample = Some w"
  by (rule object_codec.decode_iff)

end
