(* ===== verification/Handoff.thy ===== *)
theory Handoff
  imports Agreement
begin

text \<open>
  The handoff from the old to the new committee and the recovery requests it authorises:
  \<^verbatim>\<open>src/core/cv_sapvss_handoff.go\<close>.  A handoff carries the aggregate header, the dispersal lock and the
  decision certificate; a member of the old committee serves an aggregate only to a request that
  carries a verified handoff.
\<close>

definition cvHandoffV2Domain :: string where
  [dom_defs]: "cvHandoffV2Domain = ''ARL-CV-sAPVSS/v2-scalar-group/handoff''"

definition cvHandoffDigestV2Domain :: string where
  [dom_defs]: "cvHandoffDigestV2Domain = ''ARL-CV-sAPVSS/v2-scalar-group/handoff-digest''"

definition cvDecisionCertificateV2Domain :: string where
  [dom_defs]: "cvDecisionCertificateV2Domain = ''ARL-CV-sAPVSS/v2-scalar-group/decide''"

definition cvAggregateRecoveryRequestV2Domain :: string where
  [dom_defs]: "cvAggregateRecoveryRequestV2Domain = ''ARL-CV-sAPVSS/v2-scalar-group/aggregate-recovery-request''"

record cvHandoffV2 =
  ho_ContextDigest :: bytes
  ho_Header :: cvAggregateHeaderV2
  ho_ARC :: cvAPDBLockV2
  ho_DecCert :: bytes

record cvAggregateRecoveryRequestV2 =
  rq_Handoff :: cvHandoffV2

section \<open>Statements\<close>

definition cvHandoffUnsignedV2CanonicalBytes :: "bytes \<Rightarrow> cvAggregateHeaderV2 \<Rightarrow> cvAPDBLockV2 \<Rightarrow> bytes option" where
  [enc_defs]: "cvHandoffUnsignedV2CanonicalBytes contextDigest header arc = do {
     require (\<not> (length contextDigest \<noteq> 32 \<or> contextDigest \<noteq> ah_ContextDigest header \<or>
       ah_APDBInstance header \<noteq> lk_InstanceDigest arc \<or> ah_APDBRoot header \<noteq> lk_Root arc));
     headerWire \<leftarrow> cvAggregateHeaderV2CanonicalBytes header;
     arcWire \<leftarrow> cvAPDBLockV2CanonicalBytes arc;
     Some (dropped (cvWriteBytes contextDigest) @ dropped (cvWriteBytes headerWire) @ dropped (cvWriteBytes arcWire))
   }"

definition cvHandoffDigestV2 :: "bytes \<Rightarrow> cvAggregateHeaderV2 \<Rightarrow> cvAPDBLockV2 \<Rightarrow> bytes option" where
  "cvHandoffDigestV2 contextDigest header arc = do {
     unsigned \<leftarrow> cvHandoffUnsignedV2CanonicalBytes contextDigest header arc;
     Some (hashBytes [str_bytes cvHandoffDigestV2Domain, unsigned])
   }"

definition cvDecisionStatementV2 :: "bytes \<Rightarrow> cvAggregateHeaderV2 \<Rightarrow> cvAPDBLockV2 \<Rightarrow> bytes option" where
  "cvDecisionStatementV2 contextDigest header arc = do {
     handoffDigest \<leftarrow> cvHandoffDigestV2 contextDigest header arc;
     Some (hashBytes [str_bytes cvDecisionCertificateV2Domain, contextDigest, handoffDigest])
   }"

section \<open>Codecs\<close>

definition cvHandoffV2CanonicalBytes :: "cvHandoffV2 \<Rightarrow> bytes option" where
  [enc_defs]: "cvHandoffV2CanonicalBytes handoff = do {
     require (\<not> (ho_DecCert handoff = [] \<or> length (ho_DecCert handoff) > cvMaxComponentSignatureBytes));
     unsigned \<leftarrow> cvHandoffUnsignedV2CanonicalBytes (ho_ContextDigest handoff) (ho_Header handoff) (ho_ARC handoff);
     Some (dropped (cvWriteBytes (str_bytes cvHandoffV2Domain)) @ dropped (cvWriteBytes unsigned) @
           dropped (cvWriteBytes (ho_DecCert handoff)))
   }"

definition cvDecodeHandoffV2 :: "bytes \<Rightarrow> cvHandoffV2 option" where
  [dec_defs]: "cvDecodeHandoffV2 wire = do {
     require (\<not> (wire = [] \<or> length wire > cvMaxNetworkPayloadBytes));
     (domain, r) \<leftarrow> cvReadBytes (length cvHandoffV2Domain) (newCVWireReader wire);
     require (domain = str_bytes cvHandoffV2Domain);
     (unsignedWire, r) \<leftarrow> cvReadBytes cvMaxNetworkPayloadBytes r;
     (decCert, r) \<leftarrow> cvReadBytes cvMaxComponentSignatureBytes r;
     require (\<not> (decCert = [] \<or> r \<noteq> []));
     (contextDigest, u) \<leftarrow> cvReadBytes 32 (newCVWireReader unsignedWire);
     require (length contextDigest = 32);
     (headerWire, u) \<leftarrow> cvReadBytes 4096 u;
     header \<leftarrow> cvDecodeAggregateHeaderV2 headerWire;
     (arcWire, u) \<leftarrow> cvReadBytes (cvMaxComponentSignatureBytes + 256) u;
     require (u = []);
     arc \<leftarrow> cvDecodeAPDBLockV2 arcWire;
     let handoff = \<lparr> ho_ContextDigest = contextDigest, ho_Header = header, ho_ARC = arc, ho_DecCert = decCert \<rparr>;
     canonical \<leftarrow> cvHandoffV2CanonicalBytes handoff;
     require (canonical = wire);
     Some handoff
   }"

definition cvAggregateRecoveryRequestV2CanonicalBytes :: "cvAggregateRecoveryRequestV2 \<Rightarrow> bytes option" where
  [enc_defs]: "cvAggregateRecoveryRequestV2CanonicalBytes request = do {
     handoffWire \<leftarrow> cvHandoffV2CanonicalBytes (rq_Handoff request);
     Some (dropped (cvWriteBytes (str_bytes cvAggregateRecoveryRequestV2Domain)) @ dropped (cvWriteBytes handoffWire))
   }"

definition cvDecodeAggregateRecoveryRequestV2 :: "bytes \<Rightarrow> cvAggregateRecoveryRequestV2 option" where
  [dec_defs]: "cvDecodeAggregateRecoveryRequestV2 wire = do {
     (domain, r) \<leftarrow> cvReadBytes (length cvAggregateRecoveryRequestV2Domain) (newCVWireReader wire);
     require (domain = str_bytes cvAggregateRecoveryRequestV2Domain);
     (handoffWire, r) \<leftarrow> cvReadBytes cvMaxNetworkPayloadBytes r;
     require (r = []);
     handoff \<leftarrow> cvDecodeHandoffV2 handoffWire;
     let request = \<lparr> rq_Handoff = handoff \<rparr>;
     canonical \<leftarrow> cvAggregateRecoveryRequestV2CanonicalBytes request;
     require (canonical = wire);
     Some request
   }"

section \<open>Verification\<close>

definition cvVerifyHandoffV2 ::
  "('g, 'h, 'f) bls \<Rightarrow> cvHandoffV2 \<Rightarrow> bytes \<Rightarrow> ('g, 'h, 'f) tblsThresholdSigner \<Rightarrow> ('g, 'h, 'f) tblsThresholdSigner \<Rightarrow> bool" where
  "cvVerifyHandoffV2 B handoff expectedContext apdbSigner controlSigner \<longleftrightarrow> (do {
     require (\<not> (length expectedContext \<noteq> 32 \<or> \<not> cvV2SignerHasRole apdbSigner cvV2RoleAPDB \<or>
       \<not> cvV2SignerHasRole controlSigner cvV2RoleControl \<or> ho_ContextDigest handoff \<noteq> expectedContext));
     _ \<leftarrow> cvHandoffV2CanonicalBytes handoff;
     require (cvVerifyAPDBLockV2 B (ho_ARC handoff) apdbSigner);
     statement \<leftarrow> cvDecisionStatementV2 (ho_ContextDigest handoff) (ho_Header handoff) (ho_ARC handoff);
     require (VerifyRecovered B controlSigner cvDecisionCertificateV2Domain statement (ho_DecCert handoff))
   }) = Some ()"

definition cvAuthorizeAggregateRecoveryRequestV2 ::
  "('g, 'h, 'f) bls \<Rightarrow> bytes \<Rightarrow> bytes \<Rightarrow> ('g, 'h, 'f) tblsThresholdSigner \<Rightarrow> ('g, 'h, 'f) tblsThresholdSigner \<Rightarrow>
   cvHandoffV2 option" where
  "cvAuthorizeAggregateRecoveryRequestV2 B wire expectedContext apdbSigner controlSigner = do {
     request \<leftarrow> cvDecodeAggregateRecoveryRequestV2 wire;
     require (cvVerifyHandoffV2 B (rq_Handoff request) expectedContext apdbSigner controlSigner);
     Some (rq_Handoff request)
   }"

section \<open>The codecs are canonical\<close>

lemma handoff_domain_lengths [simp]:
  "length cvHandoffV2Domain < 4294967296" "length cvAggregateRecoveryRequestV2Domain < 4294967296"
  by (simp_all add: dom_defs)

lemma handoff_unsigned_D:
  assumes "cvHandoffUnsignedV2CanonicalBytes ctx header arc = Some u"
  obtains hw aw where "cvAggregateHeaderV2CanonicalBytes header = Some hw" "cvAPDBLockV2CanonicalBytes arc = Some aw"
    "length ctx = 32" "length hw \<le> 512" "length aw \<le> cvMaxComponentSignatureBytes + 256"
    "u = put_be 4 32 @ ctx @ put_be 4 (length hw) @ hw @ put_be 4 (length aw) @ aw" "length u \<le> 2000000"
proof -
  from assms obtain hw aw where hw: "cvAggregateHeaderV2CanonicalBytes header = Some hw"
    and aw: "cvAPDBLockV2CanonicalBytes arc = Some aw" and ctx: "length ctx = 32"
    and u: "u = dropped (cvWriteBytes ctx) @ dropped (cvWriteBytes hw) @ dropped (cvWriteBytes aw)"
    by (auto simp: cvHandoffUnsignedV2CanonicalBytes_def run_simps)
  have l: "length hw \<le> 512" "length aw \<le> cvMaxComponentSignatureBytes + 256"
    using aggregate_header_fields(10) [OF hw] lock_wire_length [OF aw] by auto
  have u': "u = put_be 4 32 @ ctx @ put_be 4 (length hw) @ hw @ put_be 4 (length aw) @ aw"
    using u ctx l ref_limits(3) [OF l(2)] by simp
  show ?thesis by (rule that [OF hw aw ctx l u']) (use u' ctx l in \<open>simp add: cvMaxComponentSignatureBytes_def\<close>)
qed

interpretation handoff_codec: wire_codec cvHandoffV2CanonicalBytes cvDecodeHandoffV2 "\<lambda>h. int64 (ah_ProposerID (ho_Header h))"
proof
  fix h w
  assume i: "int64 (ah_ProposerID (ho_Header h))" and enc: "cvHandoffV2CanonicalBytes h = Some w"
  from enc obtain u where u: "cvHandoffUnsignedV2CanonicalBytes (ho_ContextDigest h) (ho_Header h) (ho_ARC h) = Some u"
    and c: "ho_DecCert h \<noteq> []" "length (ho_DecCert h) \<le> cvMaxComponentSignatureBytes"
    and w: "w = dropped (cvWriteBytes (str_bytes cvHandoffV2Domain)) @ dropped (cvWriteBytes u) @ dropped (cvWriteBytes (ho_DecCert h))"
    by (auto simp: cvHandoffV2CanonicalBytes_def run_simps not_less)
  obtain hw aw where p: "cvAggregateHeaderV2CanonicalBytes (ho_Header h) = Some hw" "cvAPDBLockV2CanonicalBytes (ho_ARC h) = Some aw"
    "length (ho_ContextDigest h) = 32" "length hw \<le> 512" "length aw \<le> cvMaxComponentSignatureBytes + 256"
    "u = put_be 4 32 @ ho_ContextDigest h @ put_be 4 (length hw) @ hw @ put_be 4 (length aw) @ aw" "length u \<le> 2000000"
    using handoff_unsigned_D [OF u] .
  have lc: "length (ho_DecCert h) < 4294967296" "length u \<le> cvMaxNetworkPayloadBytes" "length aw < 4294967296" "length u < 4294967296"
    using c p(5,7) by (auto simp: wire_limits)
  have w': "w = put_be 4 (length cvHandoffV2Domain) @ str_bytes cvHandoffV2Domain @ put_be 4 (length u) @ u @
      put_be 4 (length (ho_DecCert h)) @ ho_DecCert h" using lc by (simp add: w)
  have lw: "length w \<le> cvMaxNetworkPayloadBytes" "w \<noteq> []" using p(7) c unfolding w' by (auto simp: wire_limits dom_defs)
  have dec: "cvDecodeAggregateHeaderV2 hw = Some (ho_Header h)" "cvDecodeAPDBLockV2 aw = Some (ho_ARC h)"
    using agg_header_codec.decode_encode [OF i p(1)] lock_codec.decode_encode [OF _ p(2)] by auto
  have outer: "cvReadBytes (length cvHandoffV2Domain) w = Some (str_bytes cvHandoffV2Domain,
      put_be 4 (length u) @ u @ put_be 4 (length (ho_DecCert h)) @ ho_DecCert h)"
    unfolding w' by (rule read_bytes_n) simp_all
  have inner: "cvReadBytes 32 u = Some (ho_ContextDigest h, put_be 4 (length hw) @ hw @ put_be 4 (length aw) @ aw)"
    unfolding p(6) by (rule read_bytes_n) (use p(3) in simp_all)
  have eta: "\<lparr> ho_ContextDigest = ho_ContextDigest h, ho_Header = ho_Header h, ho_ARC = ho_ARC h, ho_DecCert = ho_DecCert h \<rparr> = h"
    by simp
  show "cvDecodeHandoffV2 w = Some h"
    unfolding cvDecodeHandoffV2_def newCVWireReader_id outer
    using enc lw c lc p(3,4,5) by (simp add: wire_simps inner dec eta)
qed (auto simp: cvDecodeHandoffV2_def run_simps Let_def dest: agg_header_codec.decode_wf)

lemma handoff_wire_length: "cvHandoffV2CanonicalBytes h = Some w \<Longrightarrow> length w \<le> cvMaxNetworkPayloadBytes"
proof -
  assume "cvHandoffV2CanonicalBytes h = Some w"
  then obtain u where u: "cvHandoffUnsignedV2CanonicalBytes (ho_ContextDigest h) (ho_Header h) (ho_ARC h) = Some u"
    and c: "length (ho_DecCert h) \<le> cvMaxComponentSignatureBytes"
    and w: "w = dropped (cvWriteBytes (str_bytes cvHandoffV2Domain)) @ dropped (cvWriteBytes u) @ dropped (cvWriteBytes (ho_DecCert h))"
    by (auto simp: cvHandoffV2CanonicalBytes_def run_simps not_less)
  have lu: "length u \<le> 2000000" using handoff_unsigned_D [OF u] by metis
  then have "length u < 4294967296" "length (ho_DecCert h) < 4294967296" using c by (auto simp: wire_limits)
  then show ?thesis using w lu c by (simp add: wire_limits dom_defs)
qed

interpretation recovery_request_codec: wire_codec cvAggregateRecoveryRequestV2CanonicalBytes
  cvDecodeAggregateRecoveryRequestV2 "\<lambda>r. int64 (ah_ProposerID (ho_Header (rq_Handoff r)))"
proof
  fix r w
  assume i: "int64 (ah_ProposerID (ho_Header (rq_Handoff r)))" and enc: "cvAggregateRecoveryRequestV2CanonicalBytes r = Some w"
  from enc obtain hw where hw: "cvHandoffV2CanonicalBytes (rq_Handoff r) = Some hw"
    and w: "w = dropped (cvWriteBytes (str_bytes cvAggregateRecoveryRequestV2Domain)) @ dropped (cvWriteBytes hw)"
    by (auto simp: cvAggregateRecoveryRequestV2CanonicalBytes_def run_simps)
  have eta: "\<lparr> rq_Handoff = rq_Handoff r \<rparr> = r" by simp
  show "cvDecodeAggregateRecoveryRequestV2 w = Some r"
    using enc handoff_wire_length [OF hw] handoff_codec.decode_encode [OF i hw]
    unfolding cvDecodeAggregateRecoveryRequestV2_def newCVWireReader_id by (simp add: w wire_simps eta)
qed (auto simp: cvDecodeAggregateRecoveryRequestV2_def run_simps Let_def dest: handoff_codec.decode_wf)

text \<open>A recovery request is served only for a decided aggregate: authorisation returns a handoff
  exactly when the request is the canonical encoding of that handoff and the handoff verifies, in
  which case its lock is valid, its lock is the one its header names, and the decision certificate
  signs the statement of this context, header and lock.\<close>

theorem recovery_request_authorized:
  "cvAuthorizeAggregateRecoveryRequestV2 B wire expectedContext apdbSigner controlSigner = Some handoff \<longleftrightarrow>
   int64 (ah_ProposerID (ho_Header handoff)) \<and>
   cvAggregateRecoveryRequestV2CanonicalBytes \<lparr> rq_Handoff = handoff \<rparr> = Some wire \<and>
   length expectedContext = 32 \<and> ho_ContextDigest handoff = expectedContext \<and>
   cvV2SignerHasRole apdbSigner cvV2RoleAPDB \<and> cvV2SignerHasRole controlSigner cvV2RoleControl \<and>
   ah_APDBInstance (ho_Header handoff) = lk_InstanceDigest (ho_ARC handoff) \<and>
   ah_APDBRoot (ho_Header handoff) = lk_Root (ho_ARC handoff) \<and>
   cvVerifyAPDBLockV2 B (ho_ARC handoff) apdbSigner \<and>
   (\<exists>st. cvDecisionStatementV2 expectedContext (ho_Header handoff) (ho_ARC handoff) = Some st \<and>
     VerifyRecovered B controlSigner cvDecisionCertificateV2Domain st (ho_DecCert handoff))"
  (is "?L \<longleftrightarrow> ?R")
proof
  assume ?L
  then obtain r where dec: "cvDecodeAggregateRecoveryRequestV2 wire = Some r" and h: "handoff = rq_Handoff r"
    and v: "cvVerifyHandoffV2 B handoff expectedContext apdbSigner controlSigner"
    by (auto simp: cvAuthorizeAggregateRecoveryRequestV2_def run_simps)
  have r: "\<lparr> rq_Handoff = handoff \<rparr> = r" by (simp add: h)
  note codec = recovery_request_codec.decode_wf [OF dec] recovery_request_codec.encode_decode [OF dec]
  show ?R using v codec unfolding cvVerifyHandoffV2_def r
    by (auto simp: run_simps h cvHandoffV2CanonicalBytes_def cvHandoffUnsignedV2CanonicalBytes_def)
next
  assume R: ?R
  have "cvDecodeAggregateRecoveryRequestV2 wire = Some \<lparr> rq_Handoff = handoff \<rparr>"
    using R recovery_request_codec.decode_encode [of "\<lparr> rq_Handoff = handoff \<rparr>" wire] by simp
  moreover have "cvHandoffV2CanonicalBytes handoff \<noteq> None"
    using R by (auto simp: cvAggregateRecoveryRequestV2CanonicalBytes_def run_simps)
  ultimately show ?L using R by (auto simp: cvAuthorizeAggregateRecoveryRequestV2_def cvVerifyHandoffV2_def)
qed

section \<open>A decision statement names one aggregate\<close>

lemma handoff_unsigned_inj:
  assumes "cvHandoffUnsignedV2CanonicalBytes ctx1 h1 a1 = Some u" "cvHandoffUnsignedV2CanonicalBytes ctx2 h2 a2 = Some u"
    and i: "int64 (ah_ProposerID h1)" "int64 (ah_ProposerID h2)"
  shows "ctx1 = ctx2 \<and> h1 = h2 \<and> a1 = a2"
proof -
  obtain hw aw where p: "cvAggregateHeaderV2CanonicalBytes h1 = Some hw" "cvAPDBLockV2CanonicalBytes a1 = Some aw"
    "length ctx1 = 32" "length hw \<le> 512" "length aw \<le> cvMaxComponentSignatureBytes + 256"
    "u = put_be 4 32 @ ctx1 @ put_be 4 (length hw) @ hw @ put_be 4 (length aw) @ aw" "length u \<le> 2000000"
    using handoff_unsigned_D [OF assms(1)] .
  obtain hv av where q: "cvAggregateHeaderV2CanonicalBytes h2 = Some hv" "cvAPDBLockV2CanonicalBytes a2 = Some av"
    "length ctx2 = 32" "length hv \<le> 512" "length av \<le> cvMaxComponentSignatureBytes + 256"
    "u = put_be 4 32 @ ctx2 @ put_be 4 (length hv) @ hv @ put_be 4 (length av) @ av" "length u \<le> 2000000"
    using handoff_unsigned_D [OF assms(2)] .
  have ctx: "ctx1 = ctx2" and rest: "put_be 4 (length hw) @ hw @ put_be 4 (length aw) @ aw =
      put_be 4 (length hv) @ hv @ put_be 4 (length av) @ av"
    using p(3,6) q(3,6) by auto
  have "hw = hv \<and> put_be 4 (length aw) @ aw = put_be 4 (length av) @ av"
    by (rule put_be_prefix_inject [OF _ _ rest]) (use p(4) q(4) in auto)
  then have "hw = hv" "aw = av"
    using put_be_prefix_inject [of aw av "[]" "[]"] ref_limits(3) [OF p(5)] ref_limits(3) [OF q(5)] by auto
  then show ?thesis
    using ctx aggregate_header_inj [OF i p(1)] q(1) lock_codec.encode_inj [OF _ _ p(2)] q(2) by auto
qed

text \<open>A decision certificate decides one aggregate: two contexts, headers and locks with the same
  decision statement are the same, or one of the two hashed messages is a SHA-256 collision.\<close>

theorem decision_statement_binding:
  assumes "cvDecisionStatementV2 ctx1 header1 arc1 = Some st" "cvDecisionStatementV2 ctx2 header2 arc2 = Some st"
    and "int64 (ah_ProposerID header1)" "int64 (ah_ProposerID header2)"
  shows "(ctx1 = ctx2 \<and> header1 = header2 \<and> arc1 = arc2) \<or> (\<exists>x y. x \<noteq> y \<and> sha256 x = sha256 y \<and>
    (\<exists>u1 u2 d1 d2. cvHandoffUnsignedV2CanonicalBytes ctx1 header1 arc1 = Some u1 \<and>
      cvHandoffUnsignedV2CanonicalBytes ctx2 header2 arc2 = Some u2 \<and>
      cvHandoffDigestV2 ctx1 header1 arc1 = Some d1 \<and> cvHandoffDigestV2 ctx2 header2 arc2 = Some d2 \<and>
      (x = str_bytes cvHandoffDigestV2Domain @ u1 \<and> y = str_bytes cvHandoffDigestV2Domain @ u2 \<or>
       x = str_bytes cvDecisionCertificateV2Domain @ ctx1 @ d1 \<and> y = str_bytes cvDecisionCertificateV2Domain @ ctx2 @ d2)))"
proof -
  from assms(1,2) obtain u1 u2 d1 d2 where
    u: "cvHandoffUnsignedV2CanonicalBytes ctx1 header1 arc1 = Some u1" "cvHandoffUnsignedV2CanonicalBytes ctx2 header2 arc2 = Some u2"
    and d: "cvHandoffDigestV2 ctx1 header1 arc1 = Some d1" "cvHandoffDigestV2 ctx2 header2 arc2 = Some d2"
    and h: "d1 = sha256 (str_bytes cvHandoffDigestV2Domain @ u1)" "d2 = sha256 (str_bytes cvHandoffDigestV2Domain @ u2)"
    and s: "sha256 (str_bytes cvDecisionCertificateV2Domain @ ctx1 @ d1) = sha256 (str_bytes cvDecisionCertificateV2Domain @ ctx2 @ d2)"
    by (auto simp: cvDecisionStatementV2_def cvHandoffDigestV2_def run_simps hashBytes_def)
  show ?thesis
  proof (cases "u1 = u2")
    case True
    then show ?thesis using handoff_unsigned_inj [OF u(1) u(2) [folded True] assms(3,4)] by blast
  next
    case ne: False
    show ?thesis
    proof (cases "d1 = d2")
      case True
      then show ?thesis using u d h ne by (intro disjI2 exI [of _ "str_bytes cvHandoffDigestV2Domain @ u1"]
            exI [of _ "str_bytes cvHandoffDigestV2Domain @ u2"]) auto
    next
      case False
      have "length ctx1 = 32" "length ctx2 = 32" using u by (auto simp: cvHandoffUnsignedV2CanonicalBytes_def run_simps)
      then have "ctx1 @ d1 \<noteq> ctx2 @ d2" using False by simp
      then show ?thesis using u d s by (intro disjI2 exI [of _ "str_bytes cvDecisionCertificateV2Domain @ ctx1 @ d1"]
            exI [of _ "str_bytes cvDecisionCertificateV2Domain @ ctx2 @ d2"]) auto
    qed
  qed
qed

end
