(* ===== verification/Store.thy ===== *)
theory Store
  imports Handoff "HOL-Library.Char_ord"
begin

text \<open>
  The write-once file stores: \<^verbatim>\<open>src/core/cv_sapvss_store.go\<close> (keys and immutable files),
  \<^verbatim>\<open>src/core/cv_sapvss_apdb_store.go\<close> (the APDB holder) and \<^verbatim>\<open>src/core/cv_sapvss_decision_store.go\<close> (the
  decision signer).  The file system is a map from paths to entries; what the operating system answers
  during one call is the record \<open>io_env\<close>, so every error return is a branch, a writer that creates
  the same path between the check and the link included.  The locale \<open>write_once\<close> is the contract of
  the store; from it follows that a member signs one decision per epoch and one root per instance.
\<close>

section \<open>Files\<close>

record fentry =
  fe_private :: bool
  fe_data :: bytes

type_synonym fsys = "string \<rightharpoonup> fentry"

datatype io_error = NotExist | NotPrivate | Conflict | IOFailure

record io_env =
  io_dirOk :: bool
  io_tempOk :: bool
  io_race :: "bytes option"
  io_linkOk :: bool
  io_syncOk :: bool

definition cvReadImmutableFile :: "fsys \<Rightarrow> string \<Rightarrow> io_error + bytes" where
  "cvReadImmutableFile fs path =
     (case fs path of
        None \<Rightarrow> Inl NotExist
      | Some e \<Rightarrow> if \<not> fe_private e then Inl NotPrivate else Inr (fe_data e))"

definition cvSyncStoreDir :: "io_env \<Rightarrow> io_error option" where
  "cvSyncStoreDir env = (if io_syncOk env then None else Some IOFailure)"

text \<open>The result is the file system after the call and the error, if any.  A lost race leaves the other
  writer's file in place.\<close>

definition cvPutImmutableFile :: "io_env \<Rightarrow> fsys \<Rightarrow> string \<Rightarrow> bytes \<Rightarrow> fsys \<times> io_error option" where
  "cvPutImmutableFile env fs path data =
     (if \<not> io_dirOk env then (fs, Some IOFailure)
      else case cvReadImmutableFile fs path of
        Inr existing \<Rightarrow> if existing \<noteq> data then (fs, Some Conflict) else (fs, cvSyncStoreDir env)
      | Inl e \<Rightarrow>
          if e \<noteq> NotExist then (fs, Some e)
          else if \<not> io_tempOk env then (fs, Some IOFailure)
          else case io_race env of
            Some other \<Rightarrow>
              let fs = fs(path \<mapsto> \<lparr> fe_private = True, fe_data = other \<rparr>) in
              (case cvReadImmutableFile fs path of
                 Inl e \<Rightarrow> (fs, Some e)
               | Inr existing \<Rightarrow> if existing \<noteq> data then (fs, Some Conflict) else (fs, cvSyncStoreDir env))
          | None \<Rightarrow>
              if \<not> io_linkOk env then (fs, Some IOFailure)
              else (fs(path \<mapsto> \<lparr> fe_private = True, fe_data = data \<rparr>), cvSyncStoreDir env))"

section \<open>Keys\<close>

text \<open>\<^verbatim>\<open>hex.EncodeToString\<close>, \<^verbatim>\<open>strings.Trim\<close> and \<^verbatim>\<open>filepath.Join\<close> on clean elements.\<close>

definition hex_digit :: "nat \<Rightarrow> char" where
  "hex_digit n = ''0123456789abcdef'' ! n"

definition go_hex :: "bytes \<Rightarrow> string" where
  "go_hex bs = concat (map (\<lambda>b. [hex_digit (unat b div 16), hex_digit (unat b mod 16)]) bs)"

definition go_Trim :: "string \<Rightarrow> string \<Rightarrow> string" where
  "go_Trim s cutset = rev (dropWhile (\<lambda>c. c \<in> set cutset) (rev (dropWhile (\<lambda>c. c \<in> set cutset) s)))"

fun path_join :: "string list \<Rightarrow> string" where
  "path_join [] = []"
| "path_join [p] = p"
| "path_join (p # q # ps) = p @ ''/'' @ path_join (q # ps)"

text \<open>On ASCII strings, where a rune is a byte.\<close>

definition safeCacheComponent :: "string \<Rightarrow> string" where
  "safeCacheComponent value =
     (let value = go_TrimSpace value in
      if value = [] then ''default''
      else map (\<lambda>r. if (CHR ''a'' \<le> r \<and> r \<le> CHR ''z'') \<or> (CHR ''A'' \<le> r \<and> r \<le> CHR ''Z'') \<or>
          (CHR ''0'' \<le> r \<and> r \<le> CHR ''9'') \<or> r = CHR ''-'' \<or> r = CHR ''_'' \<or> r = CHR ''.'' then r else CHR ''_'') value)"

definition cvStoreKeyParts :: "string \<Rightarrow> int \<Rightarrow> int \<Rightarrow> bytes \<Rightarrow> (string \<times> string) option" where
  "cvStoreKeyParts sid epoch holder digest = do {
     require (\<not> (go_TrimSpace sid = [] \<or> epoch < 0 \<or> holder < 0 \<or> length digest \<noteq> 32));
     let base = go_Trim (safeCacheComponent sid) ''._-'';
     let base = (if base = [] then ''sid'' else base);
     let base = (if length base > 64 then take 64 base else base);
     let sidDigest = hashBytes [str_bytes ''ARL-CV-sAPVSS/store-sid'', str_bytes sid];
     Some (base @ ''-'' @ go_hex sidDigest, go_hex digest)
   }"

definition cvThresholdSignerCanSignV2 :: "('g, 'h, 'f::field) tblsThresholdSigner \<Rightarrow> int \<Rightarrow> bool" where
  "cvThresholdSignerCanSignV2 signer member =
     (case ts_memberIndex signer member of
        None \<Rightarrow> False
      | Some index \<Rightarrow>
          if index \<ge> length (ts_shares signer) then False
          else if ts_shares signer ! index = 0 then False
          else case ts_signingMembers signer of None \<Rightarrow> True | Some members \<Rightarrow> member \<in> members)"

section \<open>The APDB holder store\<close>

record cvAPDBHolderStoreV2 =
  hs_root :: string

definition newCVAPDBHolderStoreV2 :: "string \<Rightarrow> bool \<Rightarrow> cvAPDBHolderStoreV2 option" where
  "newCVAPDBHolderStoreV2 rootDir dirOk = do {
     require (go_TrimSpace rootDir \<noteq> []);
     require dirOk;
     Some \<lparr> hs_root = path_join [rootDir, ''apdb-v2-scalar-group''] \<rparr>
   }"

definition holder_path :: "cvAPDBHolderStoreV2 \<Rightarrow> string \<Rightarrow> nat \<Rightarrow> int \<Rightarrow> bytes \<Rightarrow> string option" where
  "holder_path s sid epoch holder instanceDigest = do {
     require (\<not> (sid = [] \<or> epoch = 0 \<or> epoch > max_int \<or> holder < 0 \<or> length instanceDigest \<noteq> 32));
     (sidComponent, inst) \<leftarrow> cvStoreKeyParts sid (int epoch) holder instanceDigest;
     Some (path_join [hs_root s, sidComponent, ''epoch-'' @ go_decimal epoch, ''holder-'' @ go_decimal (nat holder),
       inst @ ''.store''])
   }"

text \<open>The loop that looks for the holder's roster position.\<close>

fun holder_position :: "int \<Rightarrow> nat \<Rightarrow> int list \<Rightarrow> int" where
  "holder_position holder i [] = - 1"
| "holder_position holder i (member # roster) = (if member = holder then int i else holder_position holder (Suc i) roster)"

definition StoreAndSignOnce ::
  "('g, 'h, 'f::field) bls \<Rightarrow> cvAPDBHolderStoreV2 \<Rightarrow> io_env \<Rightarrow> fsys \<Rightarrow> string \<Rightarrow> nat \<Rightarrow> int \<Rightarrow> int list \<Rightarrow> cvAPDBStoreV2 \<Rightarrow>
   int \<Rightarrow> int \<Rightarrow> ('g, 'h, 'f) tblsThresholdSigner \<Rightarrow> fsys \<times> bytes option" where
  "StoreAndSignOnce B s env fs sid epoch holder oldRoster store totalShards shardBytes apdbSigner =
     (case (do {
        require (\<not> (sid = [] \<or> epoch = 0 \<or> holder < 0 \<or> \<not> cvV2SignerHasRole apdbSigner cvV2RoleAPDB \<or>
          \<not> cvThresholdSignerCanSignV2 apdbSigner holder \<or> int (length oldRoster) \<noteq> totalShards \<or>
          \<not> equalInts oldRoster (sortedUnique oldRoster) \<or> \<not> equalInts (ts_memberOrder apdbSigner) oldRoster));
        let holderIndex = holder_position holder 0 oldRoster;
        require (\<not> (holderIndex < 0 \<or> st_Index store \<noteq> holderIndex));
        wire \<leftarrow> cvAPDBStoreV2CanonicalBytes store totalShards shardBytes;
        path \<leftarrow> holder_path s sid epoch holder (st_InstanceDigest store);
        Some (path, wire)
      }) of
        None \<Rightarrow> (fs, None)
      | Some (path, wire) \<Rightarrow>
          (case cvPutImmutableFile env fs path wire of
             (fs, Some _) \<Rightarrow> (fs, None)
           | (fs, None) \<Rightarrow> (fs, do {
               statement \<leftarrow> cvAPDBStoredStatementV2 (st_InstanceDigest store) (st_Root store);
               share \<leftarrow> SignShare B apdbSigner holder cvAPDBStoredDomain statement;
               require (VerifyShare B apdbSigner holder cvAPDBStoredDomain statement share);
               Some share
             })))"

definition read_holder ::
  "cvAPDBHolderStoreV2 \<Rightarrow> fsys \<Rightarrow> string \<Rightarrow> nat \<Rightarrow> int \<Rightarrow> bytes \<Rightarrow> bytes \<Rightarrow> int \<Rightarrow> int \<Rightarrow> cvAPDBStoreV2 option" where
  "read_holder s fs sid epoch holder expectedInstance expectedRoot totalShards shardBytes = do {
     require (\<not> (length expectedInstance \<noteq> 32 \<or> length expectedRoot \<noteq> 32 \<or> totalShards \<le> 0 \<or> shardBytes \<le> 0));
     path \<leftarrow> holder_path s sid epoch holder expectedInstance;
     wire \<leftarrow> (case cvReadImmutableFile fs path of Inl _ \<Rightarrow> None | Inr w \<Rightarrow> Some w);
     store \<leftarrow> cvDecodeAPDBStoreV2 wire totalShards shardBytes;
     require (\<not> (st_InstanceDigest store \<noteq> expectedInstance \<or> st_Root store \<noteq> expectedRoot));
     Some store
   }"

definition ReadAuthorizedAggregate ::
  "('g, 'h, 'f) bls \<Rightarrow> cvAPDBHolderStoreV2 \<Rightarrow> fsys \<Rightarrow> string \<Rightarrow> nat \<Rightarrow> int \<Rightarrow> bytes \<Rightarrow> bytes \<Rightarrow> int \<Rightarrow> int \<Rightarrow>
   ('g, 'h, 'f) tblsThresholdSigner \<Rightarrow> ('g, 'h, 'f) tblsThresholdSigner \<Rightarrow> cvAPDBStoreV2 option" where
  "ReadAuthorizedAggregate B s fs sid epoch holder requestWire expectedContext totalShards shardBytes apdbSigner controlSigner = do {
     handoff \<leftarrow> cvAuthorizeAggregateRecoveryRequestV2 B requestWire expectedContext apdbSigner controlSigner;
     read_holder s fs sid epoch holder (lk_InstanceDigest (ho_ARC handoff)) (lk_Root (ho_ARC handoff)) totalShards shardBytes
   }"

section \<open>The decision store\<close>

definition cvDecisionSignRecordV2Domain :: string where
  [dom_defs]: "cvDecisionSignRecordV2Domain = ''ARL-CV-sAPVSS/v2-scalar-group/decision-sign-record''"

record cvDecisionSignStoreV2 =
  ds_root :: string

definition newCVDecisionSignStoreV2 :: "string \<Rightarrow> bool \<Rightarrow> cvDecisionSignStoreV2 option" where
  "newCVDecisionSignStoreV2 rootDir dirOk = do {
     require (go_TrimSpace rootDir \<noteq> []);
     require dirOk;
     Some \<lparr> ds_root = path_join [rootDir, ''decision-sign-v2-scalar-group''] \<rparr>
   }"

definition decision_path :: "cvDecisionSignStoreV2 \<Rightarrow> string \<Rightarrow> nat \<Rightarrow> int \<Rightarrow> string option" where
  "decision_path s sid epoch member = do {
     require (\<not> (sid = [] \<or> epoch = 0 \<or> epoch > max_int \<or> member < 0));
     (sidComponent, _) \<leftarrow> cvStoreKeyParts sid (int epoch) member (hashBytes [str_bytes cvDecisionSignRecordV2Domain]);
     Some (path_join [ds_root s, sidComponent, ''epoch-'' @ go_decimal epoch,
       ''member-'' @ go_decimal (nat member) @ ''.decision''])
   }"

definition cvDecisionSignRecordV2CanonicalBytes :: "string \<Rightarrow> nat \<Rightarrow> int \<Rightarrow> bytes \<Rightarrow> bytes \<Rightarrow> bytes option" where
  [enc_defs]: "cvDecisionSignRecordV2CanonicalBytes sid epoch member handoffDigest statement = do {
     require (\<not> (sid = [] \<or> epoch = 0 \<or> member < 0 \<or> length handoffDigest \<noteq> 32 \<or> length statement \<noteq> 32));
     Some (dropped (cvWriteBytes (str_bytes cvDecisionSignRecordV2Domain)) @
           dropped (cvWriteBytes (str_bytes sid)) @ cvWriteUint64 epoch @ cvWriteUint64 (u64 member) @
           dropped (cvWriteBytes handoffDigest) @ dropped (cvWriteBytes statement))
   }"

definition SignHandoffOnce ::
  "('g, 'h, 'f::field) bls \<Rightarrow> cvDecisionSignStoreV2 \<Rightarrow> io_env \<Rightarrow> fsys \<Rightarrow> string \<Rightarrow> nat \<Rightarrow> int \<Rightarrow> bytes \<Rightarrow>
   cvAggregateHeaderV2 \<Rightarrow> cvAPDBLockV2 \<Rightarrow> ('g, 'h, 'f) tblsThresholdSigner \<Rightarrow> fsys \<times> bytes option" where
  "SignHandoffOnce B s env fs sid epoch member contextDigest header arc controlSigner =
     (case (do {
        require (\<not> (sid = [] \<or> epoch = 0 \<or> member < 0 \<or> \<not> cvV2SignerHasRole controlSigner cvV2RoleControl \<or>
          \<not> cvThresholdSignerCanSignV2 controlSigner member));
        handoffDigest \<leftarrow> cvHandoffDigestV2 contextDigest header arc;
        statement \<leftarrow> cvDecisionStatementV2 contextDigest header arc;
        rec \<leftarrow> cvDecisionSignRecordV2CanonicalBytes sid epoch member handoffDigest statement;
        path \<leftarrow> decision_path s sid epoch member;
        Some (statement, rec, path)
      }) of
        None \<Rightarrow> (fs, None)
      | Some (statement, rec, path) \<Rightarrow>
          (case cvPutImmutableFile env fs path rec of
             (fs, Some _) \<Rightarrow> (fs, None)
           | (fs, None) \<Rightarrow> (fs, do {
               signature \<leftarrow> SignShare B controlSigner member cvDecisionCertificateV2Domain statement;
               require (VerifyShare B controlSigner member cvDecisionCertificateV2Domain statement signature);
               Some signature
             })))"

definition read_decision :: "cvDecisionSignStoreV2 \<Rightarrow> fsys \<Rightarrow> string \<Rightarrow> nat \<Rightarrow> int \<Rightarrow> bytes option" where
  "read_decision s fs sid epoch member = do {
     path \<leftarrow> decision_path s sid epoch member;
     (case cvReadImmutableFile fs path of Inl _ \<Rightarrow> None | Inr w \<Rightarrow> Some w)
   }"

section \<open>The contract of a write-once store\<close>

text \<open>\<open>put\<close> takes what the environment does during the call, the state, a key and a value, and returns
  the new state and whether it succeeded.\<close>

locale write_once =
  fixes put :: "'e \<Rightarrow> 's \<Rightarrow> 'k \<Rightarrow> 'v \<Rightarrow> 's \<times> bool"
    and get :: "'s \<Rightarrow> 'k \<Rightarrow> 'v option"
  assumes put_success: "put e s k v = (s', True) \<Longrightarrow> get s' k = Some v"
    and put_keeps: "get s k = Some v \<Longrightarrow> get (fst (put e s k' v')) k = Some v"
begin

text \<open>The states a sequence of calls goes through, and the calls that succeeded, oldest first.\<close>

fun run :: "'s \<Rightarrow> ('e \<times> 'k \<times> 'v) list \<Rightarrow> 's" where
  "run s [] = s"
| "run s ((e, k, v) # calls) = run (fst (put e s k v)) calls"

fun successes :: "'s \<Rightarrow> ('e \<times> 'k \<times> 'v) list \<Rightarrow> ('k \<times> 'v) list" where
  "successes s [] = []"
| "successes s ((e, k, v) # calls) =
     (if snd (put e s k v) then [(k, v)] else []) @ successes (fst (put e s k v)) calls"

lemma run_keeps: "get s k = Some v \<Longrightarrow> get (run s calls) k = Some v"
  by (induction s calls rule: run.induct) (auto simp: put_keeps)

lemma success_stored: "(k, v) \<in> set (successes s calls) \<Longrightarrow> get (run s calls) k = Some v"
proof (induction s calls rule: successes.induct)
  case (2 s e k' v' calls)
  obtain s' b where p: "put e s k' v' = (s', b)" by fastforce
  then show ?case using 2 run_keeps [OF put_success, of e s k' v' s' calls] by (auto split: if_splits)
qed simp

lemma success_unique:
  "(k, v) \<in> set (successes s calls) \<Longrightarrow> (k, v') \<in> set (successes s calls) \<Longrightarrow> v = v'"
  by (metis success_stored option.inject)

lemma put_conflict: "get s k = Some v \<Longrightarrow> v \<noteq> v' \<Longrightarrow> \<not> snd (put e s k v')"
  using put_success [of e s k v'] put_keeps [of s k v e k v'] by (cases "put e s k v'") auto

end

definition file_put :: "io_env \<Rightarrow> fsys \<Rightarrow> string \<Rightarrow> bytes \<Rightarrow> fsys \<times> bool" where
  "file_put env fs path data = (case cvPutImmutableFile env fs path data of (fs', e) \<Rightarrow> (fs', e = None))"

definition file_get :: "fsys \<Rightarrow> string \<Rightarrow> bytes option" where
  "file_get fs path = (case cvReadImmutableFile fs path of Inl _ \<Rightarrow> None | Inr w \<Rightarrow> Some w)"

lemmas file_defs = cvPutImmutableFile_def cvReadImmutableFile_def cvSyncStoreDir_def

interpretation files: write_once file_put file_get
proof
  fix env fs path data fs'
  assume "file_put env fs path data = (fs', True)"
  then show "file_get fs' path = Some data"
    by (auto simp: file_put_def file_get_def file_defs Let_def split: if_splits option.splits)
next
  fix fs path data env path' data'
  assume "file_get fs path = Some data"
  then show "file_get (fst (file_put env fs path' data')) path = Some data"
    by (auto simp: file_put_def file_get_def file_defs Let_def split: if_splits option.splits)
qed

lemma file_put_None: "cvPutImmutableFile env fs path data = (fs', None) \<Longrightarrow> file_put env fs path data = (fs', True)"
  by (simp add: file_put_def)

lemma put_file_get: "cvPutImmutableFile env fs path data = (fs', None) \<Longrightarrow> file_get fs' path = Some data"
  by (rule files.put_success [OF file_put_None])

lemma put_file_keeps:
  "cvPutImmutableFile env fs path data = (fs', e) \<Longrightarrow> file_get fs p = Some d \<Longrightarrow> file_get fs' p = Some d"
  using files.put_keeps [of fs p d env path data] by (simp add: file_put_def)

text \<open>The immutable file store is write-once: in any sequence of calls, with any I/O errors and any
  concurrent creators of the same paths, all calls that succeed for one path carry the same bytes,
  and the path reads back those bytes at the end.\<close>

theorem immutable_files_write_once:
  assumes "(path, data) \<in> set (files.successes fs calls)"
  shows "file_get (files.run fs calls) path = Some data \<and>
    (\<forall>data'. (path, data') \<in> set (files.successes fs calls) \<longrightarrow> data' = data)"
  using files.success_stored [OF assms] files.success_unique [OF assms] by blast

section \<open>A member signs one decision per epoch\<close>

record decision_call =
  dc_sid :: string
  dc_epoch :: nat
  dc_member :: int
  dc_context :: bytes
  dc_header :: cvAggregateHeaderV2
  dc_arc :: cvAPDBLockV2

text \<open>A run of a decision store over restarts: each step is one call of \<^verbatim>\<open>SignHandoffOnce\<close> with an
  arbitrary environment; the list holds the calls that released a signature.\<close>

inductive decision_run ::
  "('g, 'h, 'f::field) bls \<Rightarrow> cvDecisionSignStoreV2 \<Rightarrow> ('g, 'h, 'f) tblsThresholdSigner \<Rightarrow> fsys \<Rightarrow> decision_call list \<Rightarrow> bool"
  for B s signer where
  start: "decision_run B s signer fs []"
| released: "decision_run B s signer fs calls \<Longrightarrow>
    SignHandoffOnce B s env fs (dc_sid c) (dc_epoch c) (dc_member c) (dc_context c) (dc_header c) (dc_arc c) signer =
      (fs', Some signature) \<Longrightarrow>
    decision_run B s signer fs' (calls @ [c])"
| withheld: "decision_run B s signer fs calls \<Longrightarrow>
    SignHandoffOnce B s env fs (dc_sid (c :: decision_call)) (dc_epoch c) (dc_member c) (dc_context c) (dc_header c) (dc_arc c) signer =
      (fs', None) \<Longrightarrow>
    decision_run B s signer fs' calls"

text \<open>The record that stands for a call.\<close>

definition decision_record :: "decision_call \<Rightarrow> bytes option" where
  "decision_record c = do {
     handoffDigest \<leftarrow> cvHandoffDigestV2 (dc_context c) (dc_header c) (dc_arc c);
     statement \<leftarrow> cvDecisionStatementV2 (dc_context c) (dc_header c) (dc_arc c);
     cvDecisionSignRecordV2CanonicalBytes (dc_sid c) (dc_epoch c) (dc_member c) handoffDigest statement
   }"

lemma sign_handoff_cases:
  assumes "SignHandoffOnce B s env fs sid epoch member ctx header arc signer = (fs', result)"
  shows "file_get fs p = Some d \<Longrightarrow> file_get fs' p = Some d"
    and "result \<noteq> None \<Longrightarrow> \<exists>path rec. decision_path s sid epoch member = Some path \<and>
      decision_record \<lparr> dc_sid = sid, dc_epoch = epoch, dc_member = member, dc_context = ctx, dc_header = header, dc_arc = arc \<rparr> = Some rec \<and>
      file_get fs' path = Some rec"
  using assms
  by (auto simp: SignHandoffOnce_def decision_record_def run_simps split: option.splits prod.splits
      dest: put_file_get put_file_keeps)

lemma decision_run_stored:
  assumes "decision_run B s signer fs calls" "c \<in> set calls"
  shows "\<exists>path rec. decision_path s (dc_sid c) (dc_epoch c) (dc_member c) = Some path \<and> decision_record c = Some rec \<and>
    file_get fs path = Some rec"
  using assms
proof (induction arbitrary: c rule: decision_run.induct)
  case (released fs calls env c' fs' signature)
  show ?case
  proof (cases "c \<in> set calls")
    case True
    then show ?thesis using released.IH sign_handoff_cases(1) [OF released.hyps(2)] by blast
  next
    case False
    then have "c = c'" using released.prems by simp
    moreover have eta: "\<lparr> dc_sid = dc_sid c', dc_epoch = dc_epoch c', dc_member = dc_member c', dc_context = dc_context c',
        dc_header = dc_header c', dc_arc = dc_arc c' \<rparr> = c'" by simp
    ultimately show ?thesis using sign_handoff_cases(2) [OF released.hyps(2)] unfolding eta by simp
  qed
next
  case (withheld fs calls env c' fs')
  then show ?case using sign_handoff_cases(1) [OF withheld.hyps(2)] by blast
qed simp

lemma decision_record_inj:
  assumes "decision_record c1 = Some rec" "decision_record c2 = Some rec" "dc_sid c1 = dc_sid c2"
    "dc_epoch c1 = dc_epoch c2" "dc_member c1 = dc_member c2"
  shows "cvDecisionStatementV2 (dc_context c1) (dc_header c1) (dc_arc c1) =
    cvDecisionStatementV2 (dc_context c2) (dc_header c2) (dc_arc c2)"
  using assms by (auto simp: decision_record_def cvDecisionSignRecordV2CanonicalBytes_def run_simps)

text \<open>C14: a member of the old committee signs at most one decision per session and epoch: whatever calls
  are made, with whatever failures and restarts in between, any two calls that released a signature
  for the same member, session and epoch signed the same decision statement.\<close>

theorem one_decision_per_epoch:
  assumes "decision_run B s signer fs calls" "c1 \<in> set calls" "c2 \<in> set calls"
    and "dc_sid c1 = dc_sid c2" "dc_epoch c1 = dc_epoch c2" "dc_member c1 = dc_member c2"
  shows "cvDecisionStatementV2 (dc_context c1) (dc_header c1) (dc_arc c1) =
      cvDecisionStatementV2 (dc_context c2) (dc_header c2) (dc_arc c2) \<and>
    cvDecisionStatementV2 (dc_context c1) (dc_header c1) (dc_arc c1) \<noteq> None"
proof -
  obtain p1 r1 where r1: "decision_path s (dc_sid c1) (dc_epoch c1) (dc_member c1) = Some p1" "decision_record c1 = Some r1"
    "file_get fs p1 = Some r1" using decision_run_stored [OF assms(1,2)] by blast
  obtain p2 r2 where r2: "decision_path s (dc_sid c2) (dc_epoch c2) (dc_member c2) = Some p2" "decision_record c2 = Some r2"
    "file_get fs p2 = Some r2" using decision_run_stored [OF assms(1,3)] by blast
  have "r1 = r2" using r1 r2 assms(4-6) by simp
  then show ?thesis using decision_record_inj r1(2) r2(2) assms(4-6)
    by (auto simp: decision_record_def run_simps)
qed

section \<open>A holder signs one root per instance and can serve what it signed\<close>

lemma holder_position_bound: "0 \<le> holder_position h i ms \<Longrightarrow> h \<in> set ms"
  by (induction h i ms rule: holder_position.induct) (auto split: if_splits)

lemma store_and_sign_cases:
  assumes "StoreAndSignOnce B s env fs sid epoch holder roster store n b signer = (fs', result)"
  shows "file_get fs p = Some d \<Longrightarrow> file_get fs' p = Some d"
    and "result \<noteq> None \<Longrightarrow> \<exists>path wire. holder_path s sid epoch holder (st_InstanceDigest store) = Some path \<and>
      cvAPDBStoreV2CanonicalBytes store n b = Some wire \<and> file_get fs' path = Some wire"
  using assms
  by (auto simp: StoreAndSignOnce_def run_simps Let_def split: option.splits prod.splits dest: put_file_get put_file_keeps)

record holder_call =
  hc_sid :: string
  hc_epoch :: nat
  hc_holder :: int
  hc_roster :: "int list"
  hc_store :: cvAPDBStoreV2
  hc_total :: int
  hc_shardBytes :: int

text \<open>A run of a holder store over restarts; the list holds the calls that released a share.\<close>

inductive holder_run ::
  "('g, 'h, 'f::field) bls \<Rightarrow> cvAPDBHolderStoreV2 \<Rightarrow> ('g, 'h, 'f) tblsThresholdSigner \<Rightarrow> fsys \<Rightarrow> holder_call list \<Rightarrow> bool"
  for B s signer where
  start: "holder_run B s signer fs []"
| call: "holder_run B s signer fs calls \<Longrightarrow>
    StoreAndSignOnce B s env fs (hc_sid (c :: holder_call)) (hc_epoch c) (hc_holder c) (hc_roster c) (hc_store c) (hc_total c)
      (hc_shardBytes c) signer = (fs', result) \<Longrightarrow>
    holder_run B s signer fs' (calls @ (case result of None \<Rightarrow> [] | Some _ \<Rightarrow> [c]))"

lemma holder_run_stored:
  assumes "holder_run B s signer fs calls" "c \<in> set calls"
  shows "\<exists>path wire. holder_path s (hc_sid c) (hc_epoch c) (hc_holder c) (st_InstanceDigest (hc_store c)) = Some path \<and>
    cvAPDBStoreV2CanonicalBytes (hc_store c) (hc_total c) (hc_shardBytes c) = Some wire \<and> file_get fs path = Some wire"
  using assms
proof (induction arbitrary: c rule: holder_run.induct)
  case (call fs calls env c' fs' result)
  show ?case
  proof (cases "c \<in> set calls")
    case True
    then show ?thesis using call.IH store_and_sign_cases(1) [OF call.hyps(2)] by blast
  next
    case False
    then have "c = c'" "result \<noteq> None" using call.prems by (auto split: option.splits)
    then show ?thesis using store_and_sign_cases(2) [OF call.hyps(2)] by simp
  qed
qed simp

text \<open>The checks behind a released share.\<close>

lemma store_and_sign_checks:
  assumes "StoreAndSignOnce B s env fs sid epoch holder roster store totalShards shardBytes signer = (fs', Some share)"
  shows "roster = sortedUnique roster" "int (length roster) = totalShards" "0 \<le> holder_position holder 0 roster"
    "st_Index store = holder_position holder 0 roster" "ts_memberOrder signer = roster"
    "cvV2SignerHasRole signer cvV2RoleAPDB" "\<exists>wire. cvAPDBStoreV2CanonicalBytes store totalShards shardBytes = Some wire"
    "\<exists>statement. cvAPDBStoredStatementV2 (st_InstanceDigest store) (st_Root store) = Some statement \<and>
      VerifyShare B signer holder cvAPDBStoredDomain statement share"
  using assms by (auto simp: StoreAndSignOnce_def run_simps Let_def split: option.splits prod.splits if_splits)

lemma holder_position_bounds:
  "holder_position h i roster = -1 \<or> (\<exists>k < length roster. holder_position h i roster = int (i + k) \<and> roster ! k = h)"
proof (induction h i roster rule: holder_position.induct)
  case (2 h i m roster)
  show ?case
  proof (cases "m = h")
    case False
    then show ?thesis using 2 by (auto intro: exI [of _ "Suc _"])
  qed auto
qed simp

lemma holder_position_index:
  assumes "0 \<le> holder_position h 0 roster" "distinct roster"
  shows "member_index roster h = Some (nat (holder_position h 0 roster))" "h \<in> set roster"
proof -
  obtain k where "k < length roster" "holder_position h 0 roster = int k" "roster ! k = h"
    using assms(1) holder_position_bounds [of h 0 roster] by auto
  then show "member_index roster h = Some (nat (holder_position h 0 roster))" "h \<in> set roster"
    using member_index_nth [OF assms(2)] by auto
qed

lemma holder_run_checks:
  assumes "holder_run B s signer fs calls" "c \<in> set calls"
  shows "hc_roster c = sortedUnique (hc_roster c) \<and> int (length (hc_roster c)) = hc_total c \<and>
    0 \<le> holder_position (hc_holder c) 0 (hc_roster c) \<and> st_Index (hc_store c) = holder_position (hc_holder c) 0 (hc_roster c)"
  using assms
proof (induction arbitrary: c rule: holder_run.induct)
  case (call fs calls env c' fs' result)
  then show ?case using store_and_sign_checks(1-4) [of B s env fs] by (cases result) auto
qed simp

text \<open>C20: a holder does not equivocate: any two calls of the store that released a share for the same
  session, epoch, holder, instance and geometry stored and signed one and the same store, so one root.\<close>

theorem one_root_per_instance:
  assumes "holder_run B s signer fs calls" "c1 \<in> set calls" "c2 \<in> set calls"
    and "hc_sid c1 = hc_sid c2" "hc_epoch c1 = hc_epoch c2" "hc_holder c1 = hc_holder c2"
    and "st_InstanceDigest (hc_store c1) = st_InstanceDigest (hc_store c2)"
    and "hc_total c1 = hc_total c2" "hc_shardBytes c1 = hc_shardBytes c2"
    and "hc_shardBytes c1 < 4294967296"
  shows "hc_store c1 = hc_store c2"
proof -
  obtain p1 w1 where w1: "holder_path s (hc_sid c1) (hc_epoch c1) (hc_holder c1) (st_InstanceDigest (hc_store c1)) = Some p1"
    "cvAPDBStoreV2CanonicalBytes (hc_store c1) (hc_total c1) (hc_shardBytes c1) = Some w1" "file_get fs p1 = Some w1"
    using holder_run_stored [OF assms(1,2)] by blast
  obtain p2 w2 where w2: "holder_path s (hc_sid c2) (hc_epoch c2) (hc_holder c2) (st_InstanceDigest (hc_store c2)) = Some p2"
    "cvAPDBStoreV2CanonicalBytes (hc_store c2) (hc_total c2) (hc_shardBytes c2) = Some w2" "file_get fs p2 = Some w2"
    using holder_run_stored [OF assms(1,3)] by blast
  have "w1 = w2" using w1 w2 assms(4-7) by simp
  with w2(2) have "cvAPDBStoreV2CanonicalBytes (hc_store c2) (hc_total c1) (hc_shardBytes c1) = Some w1"
    using assms(8,9) by simp
  with w1(2) show ?thesis by (rule store_codec.encode_inj [OF assms(10) assms(10)])
qed

text \<open>A store kept under its path is read back by the decoder with its own instance and root.\<close>

lemma read_holder_kept:
  assumes "holder_path s sid epoch holder (st_InstanceDigest store) = Some path" "file_get fs path = Some wire"
    and "cvAPDBStoreV2CanonicalBytes store totalShards shardBytes = Some wire" "shardBytes < 4294967296"
  shows "read_holder s fs sid epoch holder (st_InstanceDigest store) (st_Root store) totalShards shardBytes = Some store"
proof -
  have "cvVerifyAPDBStoreV2 store totalShards shardBytes"
    using assms(3) by (auto simp: cvAPDBStoreV2CanonicalBytes_def split: if_splits)
  moreover have "cvDecodeAPDBStoreV2 wire totalShards shardBytes = Some store"
    using assms(3,4) by (rule store_codec.decode_encode [rotated])
  ultimately show ?thesis using assms(1,2)
    by (auto simp: read_holder_def file_get_def cvVerifyAPDBStoreV2_def split: sum.splits)
qed

text \<open>A released share is backed by data: once the holder store has released a share for a store, every
  later read of that instance and root, after any further calls and restarts, returns that very store.\<close>

theorem signed_store_stays_readable:
  assumes "holder_run B s signer fs calls" "c \<in> set calls" "hc_shardBytes c < 4294967296"
  shows "read_holder s fs (hc_sid c) (hc_epoch c) (hc_holder c) (st_InstanceDigest (hc_store c)) (st_Root (hc_store c))
    (hc_total c) (hc_shardBytes c) = Some (hc_store c)"
  using holder_run_stored [OF assms(1,2)] read_holder_kept assms(3) by blast

end
