(* ===== verification/Service.thy ===== *)
theory Service
  imports Store
begin

text \<open>
  The dispersal and recovery services: \<^verbatim>\<open>src/core/cv_sapvss_apdb_service_v2.go\<close> (the collector that turns
  stored shares into a lock, and the handlers of a holder) and \<^verbatim>\<open>src/core/cv_sapvss_apdb_recovery.go\<close> (the
  collector that turns holder responses into the payload).  A collector is a record; its two maps keyed
  by sender are association lists in the order of arrival, so \<^verbatim>\<open>len\<close> is \<open>length\<close>; each method runs under
  the collector's mutex and is one function on the record.  The locale \<open>first_response\<close> is the contract
  the two collectors share: one response per sender, conflicts refused, duplicates harmless.
\<close>

section \<open>Stored shares on the wire\<close>

definition cvAPDBStoredShareWireDomainV2 :: string where
  [dom_defs]: "cvAPDBStoredShareWireDomainV2 = ''ARL-CV-sAPVSS/v2-scalar-group/apdb-stored-share''"

record cvAPDBStoredShareV2 =
  sh_InstanceDigest :: bytes
  sh_Root :: bytes
  sh_Share :: bytes

definition cvAPDBStoredShareV2CanonicalBytes :: "cvAPDBStoredShareV2 \<Rightarrow> bytes option" where
  [enc_defs]: "cvAPDBStoredShareV2CanonicalBytes response = do {
     require (\<not> (length (sh_InstanceDigest response) \<noteq> 32 \<or> length (sh_Root response) \<noteq> 32 \<or>
       length (sh_Share response) = 0 \<or> length (sh_Share response) > cvMaxComponentSignatureBytes));
     Some (dropped (cvWriteBytes (str_bytes cvAPDBStoredShareWireDomainV2)) @
           dropped (cvWriteBytes (sh_InstanceDigest response)) @
           dropped (cvWriteBytes (sh_Root response)) @
           dropped (cvWriteBytes (sh_Share response)))
   }"

definition cvDecodeAPDBStoredShareV2 :: "bytes \<Rightarrow> cvAPDBStoredShareV2 option" where
  [dec_defs]: "cvDecodeAPDBStoredShareV2 wire = do {
     (domain, r) \<leftarrow> cvReadBytes (length cvAPDBStoredShareWireDomainV2) (newCVWireReader wire);
     require (domain = str_bytes cvAPDBStoredShareWireDomainV2);
     (inst, r) \<leftarrow> cvReadBytes 32 r;
     require (length inst = 32);
     (root, r) \<leftarrow> cvReadBytes 32 r;
     require (length root = 32);
     (share, r) \<leftarrow> cvReadBytes cvMaxComponentSignatureBytes r;
     require (\<not> (length share = 0 \<or> r \<noteq> []));
     let response = \<lparr> sh_InstanceDigest = inst, sh_Root = root, sh_Share = share \<rparr>;
     canonical \<leftarrow> cvAPDBStoredShareV2CanonicalBytes response;
     require (canonical = wire);
     Some response
   }"

section \<open>The lock collector\<close>

record ('g, 'h, 'f) cvAPDBLockCollectorV2 =
  lc_encoded :: cvAPDBEncodedV2
  lc_oldRoster :: "int list"
  lc_memberIndex :: "int \<rightharpoonup> nat"
  lc_signer :: "('g, 'h, 'f) tblsThresholdSigner"
  lc_statement :: bytes
  lc_shares :: "(int \<times> bytes) list"
  lc_shareWires :: "(int \<times> bytes) list"

text \<open>The check the constructor makes of roster position \<open>index\<close>.\<close>

definition collector_member_ok :: "cvAPDBEncodedV2 \<Rightarrow> int list \<Rightarrow> nat \<Rightarrow> bool" where
  "collector_member_ok encoded oldRoster index \<longleftrightarrow>
     (let store = en_stores encoded ! index in
      \<not> (oldRoster ! index < 0 \<or> st_Index store \<noteq> int index \<or> st_InstanceDigest store \<noteq> en_instanceDigest encoded \<or>
         st_Root store \<noteq> en_root encoded \<or>
         \<not> cvVerifyAPDBStoreV2 store (en_totalShards encoded) (en_shardBytes encoded)))"

definition newCVAPDBLockCollectorV2 ::
  "cvAPDBEncodedV2 \<Rightarrow> int list \<Rightarrow> ('g, 'h, 'f) tblsThresholdSigner \<Rightarrow> ('g, 'h, 'f) cvAPDBLockCollectorV2 option" where
  "newCVAPDBLockCollectorV2 encoded oldRoster apdbSigner = do {
     require (\<not> (length (en_instanceDigest encoded) \<noteq> 32 \<or> length (en_root encoded) \<noteq> 32 \<or>
       length (en_stores encoded) \<noteq> length oldRoster \<or> en_totalShards encoded \<noteq> int (length oldRoster) \<or>
       en_dataShards encoded \<le> 0 \<or> en_dataShards encoded > en_totalShards encoded \<or> en_shardBytes encoded \<le> 0 \<or>
       \<not> equalInts oldRoster (sortedUnique oldRoster) \<or> \<not> cvV2SignerHasRole apdbSigner cvV2RoleAPDB \<or>
       \<not> equalInts (ts_memberOrder apdbSigner) oldRoster \<or> ts_t apdbSigner \<le> 0 \<or>
       ts_t apdbSigner > int (length oldRoster)));
     require (list_all (collector_member_ok encoded oldRoster) [0..<length oldRoster]);
     statement \<leftarrow> cvAPDBStoredStatementV2 (en_instanceDigest encoded) (en_root encoded);
     Some \<lparr> lc_encoded = encoded, lc_oldRoster = oldRoster, lc_memberIndex = member_index oldRoster,
            lc_signer = apdbSigner, lc_statement = statement, lc_shares = [], lc_shareWires = [] \<rparr>
   }"

definition StoreRecipients :: "('g, 'h, 'f) cvAPDBLockCollectorV2 \<Rightarrow> int list" where
  "StoreRecipients c = lc_oldRoster c"

definition StoreOffer :: "('g, 'h, 'f) cvAPDBLockCollectorV2 \<Rightarrow> int \<Rightarrow> bytes option" where
  "StoreOffer c holder = do {
     index \<leftarrow> lc_memberIndex c holder;
     cvAPDBStoreV2CanonicalBytes (en_stores (lc_encoded c) ! index) (en_totalShards (lc_encoded c))
       (en_shardBytes (lc_encoded c))
   }"

text \<open>The checks of \<^verbatim>\<open>AddStoredShare\<close> before it takes the mutex.\<close>

definition checked_share ::
  "('g, 'h, 'f) bls \<Rightarrow> ('g, 'h, 'f) cvAPDBLockCollectorV2 \<Rightarrow> int \<Rightarrow> bytes \<Rightarrow> cvAPDBStoredShareV2 option" where
  "checked_share B c from wire = do {
     _ \<leftarrow> lc_memberIndex c from;
     response \<leftarrow> cvDecodeAPDBStoredShareV2 wire;
     require (\<not> (sh_InstanceDigest response \<noteq> en_instanceDigest (lc_encoded c) \<or>
       sh_Root response \<noteq> en_root (lc_encoded c) \<or>
       \<not> VerifyShare B (lc_signer c) from cvAPDBStoredDomain (lc_statement c) (sh_Share response)));
     Some response
   }"

text \<open>The result is whether the threshold has been reached, or \<open>None\<close> for the error.\<close>

definition AddStoredShare ::
  "('g, 'h, 'f) bls \<Rightarrow> ('g, 'h, 'f) cvAPDBLockCollectorV2 \<Rightarrow> int \<Rightarrow> bytes \<Rightarrow>
   ('g, 'h, 'f) cvAPDBLockCollectorV2 \<times> bool option" where
  "AddStoredShare B c from wire =
     (case checked_share B c from wire of
        None \<Rightarrow> (c, None)
      | Some response \<Rightarrow>
          (case map_of (lc_shareWires c) from of
             Some previous \<Rightarrow>
               if previous \<noteq> wire then (c, None) else (c, Some (int (length (lc_shares c)) \<ge> ts_t (lc_signer c)))
           | None \<Rightarrow>
               (let c' = c\<lparr> lc_shares := lc_shares c @ [(from, sh_Share response)],
                            lc_shareWires := lc_shareWires c @ [(from, wire)] \<rparr>
                in (c', Some (int (length (lc_shares c')) \<ge> ts_t (lc_signer c'))))))"

text \<open>The loop of \<^verbatim>\<open>RecoverLock\<close>: the first \<open>n\<close> roster members that have a share, in roster order.\<close>

fun select_shares :: "int list \<Rightarrow> (int \<times> bytes) list \<Rightarrow> int \<Rightarrow> (int \<times> bytes) list \<Rightarrow> (int \<times> bytes) list" where
  "select_shares [] all n picked = picked"
| "select_shares (member # roster) all n picked =
     (case map_of all member of
        None \<Rightarrow> select_shares roster all n picked
      | Some share \<Rightarrow>
          (let picked = picked @ [(member, share)]
           in if int (length picked) = n then picked else select_shares roster all n picked))"

definition RecoverLock ::
  "('g, 'h, 'f::field) bls \<Rightarrow> ('g, 'h, 'f) cvAPDBLockCollectorV2 \<Rightarrow> cvAPDBLockV2 option" where
  "RecoverLock B c = do {
     require (\<not> int (length (lc_shares c)) < ts_t (lc_signer c));
     let shares = select_shares (lc_oldRoster c) (lc_shares c) (ts_t (lc_signer c)) [];
     certificate \<leftarrow> Recover B (lc_signer c) cvAPDBStoredDomain (lc_statement c) shares;
     lock \<leftarrow> cvNewAPDBLockV2 (lc_encoded c) certificate;
     require (cvVerifyAPDBLockV2 B lock (lc_signer c));
     Some lock
   }"

section \<open>The handlers of a holder\<close>

definition cvHandleAPDBStoreOfferV2 ::
  "('g, 'h, 'f::field) bls \<Rightarrow> io_env \<Rightarrow> fsys \<Rightarrow> string \<Rightarrow> nat \<Rightarrow> int \<Rightarrow> int \<Rightarrow> int list \<Rightarrow> bytes \<Rightarrow> int \<Rightarrow> int \<Rightarrow>
   cvAPDBHolderStoreV2 \<Rightarrow> ('g, 'h, 'f) tblsThresholdSigner \<Rightarrow> fsys \<times> bytes option" where
  "cvHandleAPDBStoreOfferV2 B env fs sid epoch proposer holder oldRoster offerWire totalShards shardBytes holderStore apdbSigner =
     (if \<not> equalInts oldRoster (sortedUnique oldRoster) \<or> \<not> cvMemberInRosterV2 proposer oldRoster \<or>
         \<not> cvMemberInRosterV2 holder oldRoster then (fs, None)
      else case cvDecodeAPDBStoreV2 offerWire totalShards shardBytes of
        None \<Rightarrow> (fs, None)
      | Some store \<Rightarrow>
          (case StoreAndSignOnce B holderStore env fs sid epoch holder oldRoster store totalShards shardBytes apdbSigner of
             (fs, None) \<Rightarrow> (fs, None)
           | (fs, Some share) \<Rightarrow> (fs, cvAPDBStoredShareV2CanonicalBytes
               \<lparr> sh_InstanceDigest = st_InstanceDigest store, sh_Root = st_Root store, sh_Share = share \<rparr>)))"

definition cvHandleAPDBRecoveryRequestV2 ::
  "('g, 'h, 'f) bls \<Rightarrow> fsys \<Rightarrow> string \<Rightarrow> nat \<Rightarrow> int \<Rightarrow> int \<Rightarrow> int list \<Rightarrow> bytes \<Rightarrow> int \<Rightarrow> int \<Rightarrow>
   cvAPDBHolderStoreV2 \<Rightarrow> ('g, 'h, 'f) tblsThresholdSigner \<Rightarrow> bytes option" where
  "cvHandleAPDBRecoveryRequestV2 B fs sid epoch requester holder oldRoster requestWire totalShards shardBytes holderStore apdbSigner = do {
     require (\<not> (\<not> equalInts oldRoster (sortedUnique oldRoster) \<or> \<not> cvMemberInRosterV2 requester oldRoster \<or>
       \<not> cvMemberInRosterV2 holder oldRoster));
     lock \<leftarrow> cvDecodeAPDBLockV2 requestWire;
     require (cvVerifyAPDBLockV2 B lock apdbSigner);
     store \<leftarrow> read_holder holderStore fs sid epoch holder (lk_InstanceDigest lock) (lk_Root lock) totalShards shardBytes;
     cvAPDBStoreV2CanonicalBytes store totalShards shardBytes
   }"

definition cvHandleAggregateRecoveryRequestV2 ::
  "('g, 'h, 'f) bls \<Rightarrow> fsys \<Rightarrow> string \<Rightarrow> nat \<Rightarrow> int \<Rightarrow> int \<Rightarrow> int list \<Rightarrow> int list \<Rightarrow> bytes \<Rightarrow> bytes \<Rightarrow> int \<Rightarrow> int \<Rightarrow>
   cvAPDBHolderStoreV2 \<Rightarrow> ('g, 'h, 'f) tblsThresholdSigner \<Rightarrow> ('g, 'h, 'f) tblsThresholdSigner \<Rightarrow> bytes option" where
  "cvHandleAggregateRecoveryRequestV2 B fs sid epoch receiver holder oldRoster newRoster requestWire expectedContext
      totalShards shardBytes holderStore apdbSigner controlSigner = do {
     require (\<not> (\<not> equalInts oldRoster (sortedUnique oldRoster) \<or> \<not> equalInts newRoster (sortedUnique newRoster) \<or>
       \<not> cvMemberInRosterV2 receiver newRoster \<or> \<not> cvMemberInRosterV2 holder oldRoster));
     store \<leftarrow> ReadAuthorizedAggregate B holderStore fs sid epoch holder requestWire expectedContext totalShards shardBytes
       apdbSigner controlSigner;
     cvAPDBStoreV2CanonicalBytes store totalShards shardBytes
   }"

section \<open>The recovery collector\<close>

text \<open>\<open>rc_stores\<close> and \<open>rc_storeWires\<close> are keyed by roster position; an absent payload or sidecar is \<open>None\<close>.\<close>

record cvAPDBRecoveryCollectorV2 =
  rc_lock :: cvAPDBLockV2
  rc_requestWire :: bytes
  rc_oldRoster :: "int list"
  rc_memberIndex :: "int \<rightharpoonup> nat"
  rc_dataShards :: int
  rc_totalShards :: int
  rc_shardBytes :: int
  rc_maximumPayload :: int
  rc_bindingCheck :: "(bytes \<Rightarrow> bool) option"
  rc_stores :: "(nat \<times> cvAPDBStoreV2) list"
  rc_storeWires :: "(nat \<times> bytes) list"
  rc_payload :: "bytes option"
  rc_payloadHints :: "bytes option"

definition newCVAPDBRecoveryCollectorV2 ::
  "('g, 'h, 'f) bls \<Rightarrow> cvAPDBLockV2 \<Rightarrow> int list \<Rightarrow> int \<Rightarrow> int \<Rightarrow> int \<Rightarrow> ('g, 'h, 'f) tblsThresholdSigner \<Rightarrow>
   (bytes \<Rightarrow> bool) option \<Rightarrow> cvAPDBRecoveryCollectorV2 option" where
  "newCVAPDBRecoveryCollectorV2 B lock oldRoster dataShards shardBytes maximumPayload apdbSigner bindingCheck = do {
     require (\<not> (length oldRoster = 0 \<or> \<not> equalInts oldRoster (sortedUnique oldRoster) \<or> dataShards \<le> 0 \<or>
       dataShards > int (length oldRoster) \<or> shardBytes \<le> 0 \<or> maximumPayload \<le> 0 \<or>
       \<not> cvV2SignerHasRole apdbSigner cvV2RoleAPDB \<or> \<not> equalInts (ts_memberOrder apdbSigner) oldRoster \<or>
       \<not> cvVerifyAPDBLockV2 B lock apdbSigner));
     require (list_all (\<lambda>member. \<not> member < 0) oldRoster);
     Some \<lparr> rc_lock = lock, rc_requestWire = [], rc_oldRoster = oldRoster, rc_memberIndex = member_index oldRoster,
            rc_dataShards = dataShards, rc_totalShards = int (length oldRoster), rc_shardBytes = shardBytes,
            rc_maximumPayload = maximumPayload, rc_bindingCheck = bindingCheck, rc_stores = [], rc_storeWires = [],
            rc_payload = None, rc_payloadHints = None \<rparr>
   }"

definition newCVAggregateRecoveryCollectorV2 ::
  "('g, 'h, 'f) bls \<Rightarrow> bytes \<Rightarrow> bytes \<Rightarrow> int list \<Rightarrow> int \<Rightarrow> int \<Rightarrow> int \<Rightarrow> ('g, 'h, 'f) tblsThresholdSigner \<Rightarrow>
   ('g, 'h, 'f) tblsThresholdSigner \<Rightarrow> (bytes \<Rightarrow> bool) option \<Rightarrow> cvAPDBRecoveryCollectorV2 option" where
  "newCVAggregateRecoveryCollectorV2 B requestWire expectedContext oldRoster dataShards shardBytes maximumPayload
      apdbSigner controlSigner bindingCheck = do {
     handoff \<leftarrow> cvAuthorizeAggregateRecoveryRequestV2 B requestWire expectedContext apdbSigner controlSigner;
     collector \<leftarrow> newCVAPDBRecoveryCollectorV2 B (ho_ARC handoff) oldRoster dataShards shardBytes maximumPayload
       apdbSigner bindingCheck;
     Some (collector\<lparr> rc_requestWire := requestWire \<rparr>)
   }"

definition RequestRecipients :: "cvAPDBRecoveryCollectorV2 \<Rightarrow> int list" where
  "RequestRecipients c = rc_oldRoster c"

definition RequestWire :: "cvAPDBRecoveryCollectorV2 \<Rightarrow> bytes" where
  "RequestWire c = rc_requestWire c"

text \<open>The checks of \<^verbatim>\<open>AddStore\<close> before it takes the mutex.\<close>

definition checked_store :: "cvAPDBRecoveryCollectorV2 \<Rightarrow> int \<Rightarrow> bytes \<Rightarrow> (nat \<times> cvAPDBStoreV2) option" where
  "checked_store c from wire = do {
     expectedIndex \<leftarrow> rc_memberIndex c from;
     store \<leftarrow> cvDecodeAPDBStoreV2 wire (rc_totalShards c) (rc_shardBytes c);
     require (\<not> (st_Index store \<noteq> int expectedIndex \<or> st_InstanceDigest store \<noteq> lk_InstanceDigest (rc_lock c) \<or>
       st_Root store \<noteq> lk_Root (rc_lock c)));
     Some (expectedIndex, store)
   }"

definition AddStore ::
  "cvAPDBRecoveryCollectorV2 \<Rightarrow> int \<Rightarrow> bytes \<Rightarrow> cvAPDBRecoveryCollectorV2 \<times> bool option" where
  "AddStore c from wire =
     (case checked_store c from wire of
        None \<Rightarrow> (c, None)
      | Some (expectedIndex, store) \<Rightarrow>
          (case map_of (rc_storeWires c) expectedIndex of
             Some previous \<Rightarrow>
               if previous \<noteq> wire then (c, None) else (c, Some (int (length (rc_stores c)) \<ge> rc_dataShards c))
           | None \<Rightarrow>
               (let c' = c\<lparr> rc_stores := rc_stores c @ [(expectedIndex, store)],
                            rc_storeWires := rc_storeWires c @ [(expectedIndex, wire)] \<rparr>
                in (c', Some (int (length (rc_stores c')) \<ge> rc_dataShards c')))))"

text \<open>\<open>hintsEnabled\<close> is the environment's answer to \<^verbatim>\<open>cvPayloadHintsEnabledV2()\<close>.  A payload response is
  never empty, so the copy that is kept is not \<^verbatim>\<open>nil\<close>.\<close>

definition checked_payload :: "rs \<Rightarrow> cvAPDBRecoveryCollectorV2 \<Rightarrow> bytes \<Rightarrow> cvAPDBPayloadResponseV2 option" where
  "checked_payload R c wire = do {
     response \<leftarrow> cvDecodeAPDBPayloadResponseV2 wire (rc_maximumPayload c);
     require (pr_InstanceDigest response = lk_InstanceDigest (rc_lock c));
     reencoded \<leftarrow> cvAPDBEncodeSizedV2 R (lk_InstanceDigest (rc_lock c)) (pr_Payload response) (rc_dataShards c)
       (rc_totalShards c) (rc_shardBytes c) (rc_maximumPayload c);
     require (en_root reencoded = lk_Root (rc_lock c));
     Some response
   }"

definition AddPayload ::
  "rs \<Rightarrow> bool \<Rightarrow> cvAPDBRecoveryCollectorV2 \<Rightarrow> int \<Rightarrow> bytes \<Rightarrow> cvAPDBRecoveryCollectorV2 \<times> bool option" where
  "AddPayload R hintsEnabled c from wire =
     (case checked_payload R c wire of
        None \<Rightarrow> (c, None)
      | Some response \<Rightarrow>
          (let hints = (if hintsEnabled then pr_Hints response else []);
               c = (if rc_payloadHints c = None \<and> length hints > 0 then c\<lparr> rc_payloadHints := Some hints \<rparr> else c)
           in case rc_payload c of
                Some payload \<Rightarrow> if payload \<noteq> pr_Payload response then (c, None) else (c, Some True)
              | None \<Rightarrow> (c\<lparr> rc_payload := Some (pr_Payload response) \<rparr>, Some True)))"

definition RecoveredHints :: "cvAPDBRecoveryCollectorV2 \<Rightarrow> bytes option" where
  "RecoveredHints c = rc_payloadHints c"

text \<open>The stores in increasing index order.\<close>

definition ordered_stores :: "cvAPDBRecoveryCollectorV2 \<Rightarrow> cvAPDBStoreV2 list" where
  "ordered_stores c = List.map_filter (map_of (rc_stores c)) [0..<nat (rc_totalShards c)]"

definition recovery_Recover :: "rs \<Rightarrow> cvAPDBRecoveryCollectorV2 \<Rightarrow> bytes option" where
  "recovery_Recover R c =
     (case rc_payload c of
        Some payload \<Rightarrow> do {
          require (case rc_bindingCheck c of None \<Rightarrow> True | Some check \<Rightarrow> check payload);
          Some payload
        }
      | None \<Rightarrow> do {
          require (\<not> int (length (rc_stores c)) < rc_dataShards c);
          cvRecoverAPDBV2 R (rc_lock c) (ordered_stores c) (rc_dataShards c) (rc_totalShards c) (rc_shardBytes c)
            (rc_maximumPayload c) (rc_bindingCheck c)
        })"

section \<open>One response per sender\<close>

text \<open>A collector fed a sequence of messages.\<close>

fun feed_all :: "('c \<Rightarrow> int \<Rightarrow> bytes \<Rightarrow> 'c \<times> bool option) \<Rightarrow> 'c \<Rightarrow> (int \<times> bytes) list \<Rightarrow> 'c" where
  "feed_all add c [] = c"
| "feed_all add c ((sender, wire) # msgs) = feed_all add (fst (add c sender wire)) msgs"

lemma feed_all_append: "feed_all add c (msgs @ ms) = feed_all add (feed_all add c msgs) ms"
  by (induction add c msgs rule: feed_all.induct) auto

text \<open>\<open>add\<close> returns the new collector and the result, \<open>None\<close> for an error; \<open>response\<close> is what the collector keeps
  of a sender.\<close>

locale first_response =
  fixes add :: "'c \<Rightarrow> int \<Rightarrow> bytes \<Rightarrow> 'c \<times> bool option"
    and response :: "'c \<Rightarrow> int \<rightharpoonup> bytes"
    and inv :: "'c \<Rightarrow> bool"
  assumes add_inv: "inv c \<Longrightarrow> inv (fst (add c sender wire))"
    and add_refused: "add c sender wire = (c', None) \<Longrightarrow> c' = c"
    and add_accepted: "inv c \<Longrightarrow> add c sender wire = (c', Some b) \<Longrightarrow>
      (response c sender = None \<or> response c sender = Some wire) \<and> response c' = (response c)(sender \<mapsto> wire)"
    and add_known: "inv c \<Longrightarrow> response c sender = Some wire \<Longrightarrow> fst (add c sender wire) = c"
begin

lemma feed_inv: "inv c \<Longrightarrow> inv (feed_all add c msgs)"
  by (induction msgs arbitrary: c) (auto simp: add_inv)

lemma response_kept:
  assumes "inv c" "response c sender = Some wire"
  shows "response (fst (add c sender' wire')) sender = Some wire"
proof (cases "add c sender' wire'")
  case (Pair c' r)
  then show ?thesis
    using assms add_refused add_accepted [OF assms(1), of sender' wire' c'] by (cases r) auto
qed

lemma feed_kept: "inv c \<Longrightarrow> response c sender = Some wire \<Longrightarrow> response (feed_all add c msgs) sender = Some wire"
  by (induction msgs arbitrary: c) (auto simp: add_inv response_kept)

lemma conflict_refused:
  "inv c \<Longrightarrow> response c sender = Some wire \<Longrightarrow> wire' \<noteq> wire \<Longrightarrow> add c sender wire' = (c, None)"
  using add_accepted [of c sender wire'] add_refused [of c sender wire'] by (cases "add c sender wire'"; cases "snd (add c sender wire')") auto

lemma replay_harmless:
  assumes "inv c" "response (feed_all add c msgs) sender = Some wire"
  shows "feed_all add c (msgs @ [(sender, wire)]) = feed_all add c msgs"
  using add_known [OF feed_inv [OF assms(1)] assms(2)] by (simp add: feed_all_append)

end

section \<open>Invariants of the collectors\<close>

definition lock_inv :: "('g, 'h, 'f) bls \<Rightarrow> ('g, 'h, 'f) cvAPDBLockCollectorV2 \<Rightarrow> bool" where
  "lock_inv B c \<longleftrightarrow> map fst (lc_shareWires c) = map fst (lc_shares c) \<and> distinct (map fst (lc_shares c)) \<and>
     (\<forall>(m, share) \<in> set (lc_shares c). lc_memberIndex c m \<noteq> None \<and>
        VerifyShare B (lc_signer c) m cvAPDBStoredDomain (lc_statement c) share)"

lemma map_of_append_fresh: "map_of xs k = None \<Longrightarrow> map_of (xs @ [(k, v)]) = (map_of xs)(k \<mapsto> v)"
  by (auto simp: map_add_def split: option.splits)

lemma checked_share_D:
  "checked_share B c sender wire = Some response \<Longrightarrow> lc_memberIndex c sender \<noteq> None \<and>
    VerifyShare B (lc_signer c) sender cvAPDBStoredDomain (lc_statement c) (sh_Share response)"
  by (auto simp: checked_share_def run_simps)

lemma AddStoredShare_cases:
  obtains (refused) "AddStoredShare B c sender wire = (c, None)"
  | (known) "map_of (lc_shareWires c) sender = Some wire"
      "AddStoredShare B c sender wire = (c, Some (ts_t (lc_signer c) \<le> int (length (lc_shares c))))"
  | (new) share where "map_of (lc_shareWires c) sender = None" "lc_memberIndex c sender \<noteq> None"
      "VerifyShare B (lc_signer c) sender cvAPDBStoredDomain (lc_statement c) share"
      "AddStoredShare B c sender wire =
        (c\<lparr> lc_shares := lc_shares c @ [(sender, share)], lc_shareWires := lc_shareWires c @ [(sender, wire)] \<rparr>,
         Some (ts_t (lc_signer c) \<le> int (length (lc_shares c)) + 1))"
proof (cases "checked_share B c sender wire")
  case None
  then show ?thesis using refused by (simp add: AddStoredShare_def)
next
  case (Some response)
  show ?thesis
  proof (cases "map_of (lc_shareWires c) sender")
    case None
    show ?thesis by (rule new [OF None]) (use Some None checked_share_D [OF Some] in \<open>auto simp: AddStoredShare_def\<close>)
  next
    case (Some previous)
    then show ?thesis using \<open>checked_share B c sender wire = _\<close> known refused
      by (cases "previous = wire") (simp_all add: AddStoredShare_def)
  qed
qed

lemma lock_inv_add: "lock_inv B c \<Longrightarrow> lock_inv B (fst (AddStoredShare B c sender wire))"
proof (cases rule: AddStoredShare_cases [of B c sender wire])
  case (new share)
  assume inv: "lock_inv B c"
  have "sender \<notin> set (map fst (lc_shares c))" using new(1) inv by (simp add: lock_inv_def map_of_eq_None_iff flip: set_map)
  then show ?thesis using inv new unfolding lock_inv_def by auto
qed auto

interpretation lock_responses: first_response "AddStoredShare B" "\<lambda>c. map_of (lc_shareWires c)" "lock_inv B" for B
proof
  fix c c' :: "('a, 'c, 'b) cvAPDBLockCollectorV2" and sender wire
  assume "AddStoredShare B c sender wire = (c', None)"
  then show "c' = c" by (cases rule: AddStoredShare_cases [of B c sender wire]) auto
next
  fix c c' :: "('a, 'c, 'b) cvAPDBLockCollectorV2" and sender wire b
  assume add: "AddStoredShare B c sender wire = (c', Some b)"
  show "(map_of (lc_shareWires c) sender = None \<or> map_of (lc_shareWires c) sender = Some wire) \<and>
    map_of (lc_shareWires c') = (map_of (lc_shareWires c))(sender \<mapsto> wire)"
    by (cases rule: AddStoredShare_cases [of B c sender wire])
       (use add in \<open>auto simp: map_of_append_fresh fun_upd_idem simp del: map_of_append\<close>)
next
  fix c :: "('a, 'c, 'b) cvAPDBLockCollectorV2" and sender wire
  assume "map_of (lc_shareWires c) sender = Some wire"
  then show "fst (AddStoredShare B c sender wire) = c" by (cases rule: AddStoredShare_cases [of B c sender wire]) auto
qed (rule lock_inv_add)

text \<open>What a recovery collector holds: stores that verify against the lock, each under its own index, and a
  payload that re-encodes to the lock's root.\<close>

definition recovery_inv :: "rs \<Rightarrow> cvAPDBRecoveryCollectorV2 \<Rightarrow> bool" where
  "recovery_inv R c \<longleftrightarrow> map fst (rc_storeWires c) = map fst (rc_stores c) \<and> distinct (map fst (rc_stores c)) \<and>
     rc_memberIndex c = member_index (rc_oldRoster c) \<and>
     (\<forall>(i, st) \<in> set (rc_stores c). st_Index st = int i \<and> st_InstanceDigest st = lk_InstanceDigest (rc_lock c) \<and>
        st_Root st = lk_Root (rc_lock c) \<and> cvVerifyAPDBStoreV2 st (rc_totalShards c) (rc_shardBytes c)) \<and>
     (\<forall>p. rc_payload c = Some p \<longrightarrow> (\<exists>enc. cvAPDBEncodeSizedV2 R (lk_InstanceDigest (rc_lock c)) p (rc_dataShards c)
        (rc_totalShards c) (rc_shardBytes c) (rc_maximumPayload c) = Some enc \<and> en_root enc = lk_Root (rc_lock c)))"

lemma checked_store_D:
  assumes "checked_store c sender wire = Some (i, st)"
  shows "rc_memberIndex c sender = Some i" "st_Index st = int i" "st_InstanceDigest st = lk_InstanceDigest (rc_lock c)"
    "st_Root st = lk_Root (rc_lock c)" "cvVerifyAPDBStoreV2 st (rc_totalShards c) (rc_shardBytes c)"
proof -
  show "cvVerifyAPDBStoreV2 st (rc_totalShards c) (rc_shardBytes c)"
    using assms store_codec.encode_decode [of wire "rc_totalShards c" "rc_shardBytes c" st]
    by (auto simp: checked_store_def run_simps cvAPDBStoreV2CanonicalBytes_def)
qed (use assms in \<open>auto simp: checked_store_def run_simps\<close>)

lemma AddStore_cases:
  obtains (refused) "AddStore c sender wire = (c, None)"
  | (known) i where "rc_memberIndex c sender = Some i" "map_of (rc_storeWires c) i = Some wire"
      "AddStore c sender wire = (c, Some (rc_dataShards c \<le> int (length (rc_stores c))))"
  | (new) i st where "map_of (rc_storeWires c) i = None" "checked_store c sender wire = Some (i, st)"
      "AddStore c sender wire =
        (c\<lparr> rc_stores := rc_stores c @ [(i, st)], rc_storeWires := rc_storeWires c @ [(i, wire)] \<rparr>,
         Some (rc_dataShards c \<le> int (length (rc_stores c)) + 1))"
proof (cases "checked_store c sender wire")
  case None
  then show ?thesis using refused by (simp add: AddStore_def)
next
  case (Some ist)
  obtain i st where ist: "checked_store c sender wire = Some (i, st)" using Some by (cases ist) auto
  show ?thesis
  proof (cases "map_of (rc_storeWires c) i")
    case None
    show ?thesis by (rule new [OF None ist]) (use ist None in \<open>auto simp: AddStore_def\<close>)
  next
    case (Some previous)
    then show ?thesis using ist known [OF checked_store_D(1) [OF ist]] refused
      by (cases "previous = wire") (simp_all add: AddStore_def)
  qed
qed

lemma recovery_inv_add: "recovery_inv R c \<Longrightarrow> recovery_inv R (fst (AddStore c sender wire))"
proof (cases rule: AddStore_cases [of c sender wire])
  case (new i st)
  assume inv: "recovery_inv R c"
  have "i \<notin> set (map fst (rc_stores c))" using new(1) inv by (simp add: recovery_inv_def map_of_eq_None_iff flip: set_map)
  then show ?thesis using inv new(3) checked_store_D [OF new(2)] unfolding recovery_inv_def by auto
qed auto

definition recovery_response :: "cvAPDBRecoveryCollectorV2 \<Rightarrow> int \<rightharpoonup> bytes" where
  "recovery_response c sender = Option.bind (rc_memberIndex c sender) (map_of (rc_storeWires c))"

interpretation recovery_responses: first_response AddStore recovery_response "recovery_inv R" for R
proof
  fix c sender wire c'
  assume "AddStore c sender wire = (c', None)"
  then show "c' = c" by (cases rule: AddStore_cases [of c sender wire]) auto
next
  fix c sender wire c' b
  assume inv: "recovery_inv R c" and add: "AddStore c sender wire = (c', Some b)"
  have inj: "rc_memberIndex c s = Some i \<Longrightarrow> rc_memberIndex c t = Some i \<Longrightarrow> s = t" for s t i
    using inv by (auto simp: recovery_inv_def dest: member_index_Some(2))
  show "(recovery_response c sender = None \<or> recovery_response c sender = Some wire) \<and>
    recovery_response c' = (recovery_response c)(sender \<mapsto> wire)"
  proof (cases rule: AddStore_cases [of c sender wire])
    case (known i)
    then show ?thesis using add by (auto simp: recovery_response_def fun_upd_idem)
  next
    case (new i st)
    have c': "c' = c\<lparr> rc_stores := rc_stores c @ [(i, st)], rc_storeWires := rc_storeWires c @ [(i, wire)] \<rparr>"
      using new(3) add by simp
    have i: "rc_memberIndex c sender = Some i" by (rule checked_store_D(1) [OF new(2)])
    have "recovery_response c' s = ((recovery_response c)(sender \<mapsto> wire)) s" for s
      using new(1) i inj [of s i sender]
      by (cases "rc_memberIndex c s") (auto simp: recovery_response_def c' map_of_append_fresh simp del: map_of_append)
    then show ?thesis using new(1) i by (auto simp: recovery_response_def)
  qed (use add in simp)
next
  fix c sender wire
  assume "recovery_response c sender = Some wire"
  then show "fst (AddStore c sender wire) = c"
    by (cases rule: AddStore_cases [of c sender wire])
       (auto simp: recovery_response_def bind_eq_Some_conv dest: checked_store_D(1))
qed (rule recovery_inv_add)

lemma recovery_inv_payload: "recovery_inv R c \<Longrightarrow> recovery_inv R (fst (AddPayload R h c sender wire))"
  by (auto simp: recovery_inv_def AddPayload_def checked_payload_def run_simps Let_def split: option.splits)

section \<open>A threshold of stored shares makes a lock\<close>

definition marshal_fits :: "('g, 'h, 'f) bls \<Rightarrow> bool" where
  "marshal_fits B \<longleftrightarrow> (\<forall>p. 0 < length (bls_Marshal B p) \<and> length (bls_Marshal B p) \<le> cvMaxComponentSignatureBytes)"

definition lock_conf :: "('g, 'h, 'f) cvAPDBLockCollectorV2 \<Rightarrow> ('g, 'h, 'f) cvAPDBLockCollectorV2" where
  "lock_conf c = c\<lparr> lc_shares := [], lc_shareWires := [] \<rparr>"

lemma lock_conf_add: "lock_conf (fst (AddStoredShare B c sender wire)) = lock_conf c"
  by (cases rule: AddStoredShare_cases [of B c sender wire]) (auto simp: lock_conf_def)

lemma lock_conf_feed: "lock_conf (feed_all (AddStoredShare B) c msgs) = lock_conf c"
  by (induction msgs arbitrary: c) (auto simp: lock_conf_add)

lemma lock_conf_fields:
  assumes "lock_conf c = lock_conf c'"
  shows "lc_encoded c = lc_encoded c'" "lc_oldRoster c = lc_oldRoster c'" "lc_memberIndex c = lc_memberIndex c'"
    "lc_signer c = lc_signer c'" "lc_statement c = lc_statement c'"
  using assms by (cases c; cases c'; simp add: lock_conf_def)+

lemma new_lock_inv: "newCVAPDBLockCollectorV2 encoded roster signer = Some c \<Longrightarrow> lock_inv B c"
  by (auto simp: newCVAPDBLockCollectorV2_def run_simps lock_inv_def)

lemma new_lock_fields:
  assumes "newCVAPDBLockCollectorV2 encoded roster signer = Some c"
  shows "lc_signer c = signer" "lc_encoded c = encoded" "lc_oldRoster c = roster" "ts_memberOrder signer = roster"
    "lc_memberIndex c = member_index roster" "roster = sortedUnique roster" "0 < ts_t signer"
    "cvAPDBStoredStatementV2 (en_instanceDigest encoded) (en_root encoded) = Some (lc_statement c)"
    "length (en_instanceDigest encoded) = 32" "length (en_root encoded) = 32" "cvV2SignerHasRole signer cvV2RoleAPDB"
    "lc_shares c = []" "lc_shareWires c = []"
    "\<And>i. i < length roster \<Longrightarrow> collector_member_ok encoded roster i" "en_totalShards encoded = int (length roster)"
  using assms by (auto simp: newCVAPDBLockCollectorV2_def run_simps list_all_iff)

lemma select_shares_spec:
  assumes "distinct (map fst picked @ roster)" "int (length picked) < n" "set picked \<subseteq> set all"
    and "n \<le> int (length picked) + int (card {m \<in> set roster. map_of all m \<noteq> None})"
  shows "int (length (select_shares roster all n picked)) = n \<and> distinct (map fst (select_shares roster all n picked)) \<and>
    set (select_shares roster all n picked) \<subseteq> set all"
  using assms
proof (induction roster all n picked rule: select_shares.induct)
  case (2 member roster all n picked)
  show ?case
  proof (cases "map_of all member")
    case None
    have "{m \<in> set (member # roster). map_of all m \<noteq> None} = {m \<in> set roster. map_of all m \<noteq> None}" using None by auto
    then show ?thesis using 2 None by simp
  next
    case (Some share)
    have "{m \<in> set (member # roster). map_of all m \<noteq> None} = insert member {m \<in> set roster. map_of all m \<noteq> None}"
      using Some by auto
    then have card: "card {m \<in> set (member # roster). map_of all m \<noteq> None} = Suc (card {m \<in> set roster. map_of all m \<noteq> None})"
      using "2.prems"(1) by simp
    have mem: "(member, share) \<in> set all" by (rule map_of_SomeD [OF Some])
    show ?thesis
    proof (cases "int (length (picked @ [(member, share)])) = n")
      case True
      then show ?thesis using "2.prems" Some mem by auto
    next
      case False
      then show ?thesis using "2.IH"(2) [OF Some refl False] "2.prems" Some card mem by auto
    qed
  qed
qed auto

lemma selected_quorum:
  assumes "lock_inv B c" "lc_memberIndex c = member_index (lc_oldRoster c)" "distinct (lc_oldRoster c)"
    and "0 < n" "n \<le> int (length (lc_shares c))"
  shows "int (length (select_shares (lc_oldRoster c) (lc_shares c) n [])) = n \<and>
    distinct (map fst (select_shares (lc_oldRoster c) (lc_shares c) n [])) \<and>
    set (select_shares (lc_oldRoster c) (lc_shares c) n []) \<subseteq> set (lc_shares c)"
proof (rule select_shares_spec)
  have "set (map fst (lc_shares c)) \<subseteq> set (lc_oldRoster c)"
  proof
    fix m assume "m \<in> set (map fst (lc_shares c))"
    then obtain w where "(m, w) \<in> set (lc_shares c)" by auto
    then show "m \<in> set (lc_oldRoster c)" using assms(1) unfolding lock_inv_def assms(2) dom_member_index by blast
  qed
  then have "{m \<in> set (lc_oldRoster c). map_of (lc_shares c) m \<noteq> None} = set (map fst (lc_shares c))"
    by (auto simp: map_of_eq_None_iff)
  moreover have "card (set (map fst (lc_shares c))) = length (lc_shares c)"
    using assms(1) distinct_card [of "map fst (lc_shares c)"] by (simp add: lock_inv_def)
  ultimately show "n \<le> int (length []) + int (card {m \<in> set (lc_oldRoster c). map_of (lc_shares c) m \<noteq> None})"
    using assms(5) by simp
qed (use assms in auto)

lemma AddStoredShare_reached:
  "AddStoredShare B c sender wire = (c', Some True) \<Longrightarrow> ts_t (lc_signer c') \<le> int (length (lc_shares c'))"
  by (cases rule: AddStoredShare_cases [of B c sender wire]) auto

lemma verified_shares_certify:
  fixes B :: "('g, 'h, 'f::field) bls"
  assumes "bls_laws B" "dealt B s cs" "inj_on (of_int :: int \<Rightarrow> 'f) {1..int (length (ts_memberOrder s))}"
    and "ts_t s \<le> int (length shares)" "distinct (map fst shares)"
    and "\<forall>(m, w) \<in> set shares. VerifyShare B s m domain digest w"
  obtains p where "Recover B s domain digest shares = Some (bls_Marshal B p)"
    "VerifyRecovered B s domain digest (bls_Marshal B p)"
proof -
  have "shares \<noteq> []" using assms(2,4) by (auto simp: dealt_def)
  then obtain m w where "VerifyShare B s m domain digest w" using assms(6) by (cases shares) auto
  then obtain h where h: "bls_HashToG1 B (domainDigest domain digest) (str_bytes domain) = Some h"
    using VerifyShare_iff [OF assms(1,2)] by blast
  then show thesis using that Recover_dealt [OF assms(1-3) h assms(4-6)] VerifyRecovered_dealt [OF assms(1,2) h]
      bls_lawsD(2,3,9) [OF assms(1)] by metis
qed

text \<open>C15: dispersal completes: whatever messages a lock collector was fed, as soon as it reports that a threshold of
  stored shares has been accepted, it recovers a lock for the dispersed root, and the lock verifies.\<close>

theorem stored_shares_make_lock:
  fixes B :: "('g, 'h, 'f::field) bls"
  assumes B: "bls_laws B" "marshal_fits B" "dealt B signer cs"
    and inj: "inj_on (of_int :: int \<Rightarrow> 'f) {1..int (length roster)}"
    and new: "newCVAPDBLockCollectorV2 encoded roster signer = Some c0"
    and reached: "AddStoredShare B (feed_all (AddStoredShare B) c0 msgs) sender wire = (c, Some True)"
  shows "\<exists>lock. RecoverLock B c = Some lock \<and> lk_InstanceDigest lock = en_instanceDigest encoded \<and>
    lk_Root lock = en_root encoded \<and> cvVerifyAPDBLockV2 B lock signer"
proof -
  have c: "c = feed_all (AddStoredShare B) c0 (msgs @ [(sender, wire)])" using reached by (simp add: feed_all_append)
  then have "lock_conf c = lock_conf c0" by (simp add: lock_conf_feed)
  note f = lock_conf_fields [OF this]
  have inv: "lock_inv B c" unfolding c by (rule lock_responses.feed_inv [OF new_lock_inv [OF new]])
  note new' = new_lock_fields [OF new]
  have t: "ts_t signer \<le> int (length (lc_shares c))" using AddStoredShare_reached [OF reached] f new' by simp
  define shares where "shares = select_shares (lc_oldRoster c) (lc_shares c) (ts_t signer) []"
  have "distinct roster" using sortedUnique_strict [of roster] new'(6) by (metis strict_sorted_iff)
  then have q: "int (length shares) = ts_t signer" "distinct (map fst shares)" "set shares \<subseteq> set (lc_shares c)"
    using selected_quorum [OF inv _ _ new'(7) t] f new' by (auto simp: shares_def)
  have ok: "\<forall>(m, w) \<in> set shares. VerifyShare B signer m cvAPDBStoredDomain (lc_statement c) w"
    using inv q(3) f new' by (auto simp: lock_inv_def)
  obtain p where p: "Recover B signer cvAPDBStoredDomain (lc_statement c) shares = Some (bls_Marshal B p)"
    "VerifyRecovered B signer cvAPDBStoredDomain (lc_statement c) (bls_Marshal B p)"
    by (rule verified_shares_certify [OF B(1,3) _ _ q(2) ok]) (use inj new' q in auto)
  have "0 < length (bls_Marshal B p)" "length (bls_Marshal B p) \<le> cvMaxComponentSignatureBytes"
    using B(2) by (auto simp: marshal_fits_def)
  then show ?thesis using p t f new' shares_def
    by (auto simp: RecoverLock_def cvNewAPDBLockV2_def cvVerifyAPDBLockV2_def)
qed

section \<open>Recovery returns the dispersed payload\<close>

text \<open>The messages a recovery collector takes, from any sender, in any order.\<close>

datatype holder_reply = StoreReply int bytes | PayloadReply int bytes

fun recovery_step :: "rs \<Rightarrow> bool \<Rightarrow> cvAPDBRecoveryCollectorV2 \<Rightarrow> holder_reply \<Rightarrow> cvAPDBRecoveryCollectorV2 \<times> bool option" where
  "recovery_step R hintsEnabled c (StoreReply from wire) = AddStore c from wire"
| "recovery_step R hintsEnabled c (PayloadReply from wire) = AddPayload R hintsEnabled c from wire"

definition recovery_feed :: "rs \<Rightarrow> bool \<Rightarrow> cvAPDBRecoveryCollectorV2 \<Rightarrow> holder_reply list \<Rightarrow> cvAPDBRecoveryCollectorV2" where
  "recovery_feed R hintsEnabled c replies = foldl (\<lambda>c r. fst (recovery_step R hintsEnabled c r)) c replies"

definition recovery_conf :: "cvAPDBRecoveryCollectorV2 \<Rightarrow> cvAPDBRecoveryCollectorV2" where
  "recovery_conf c = c\<lparr> rc_stores := [], rc_storeWires := [], rc_payload := None, rc_payloadHints := None \<rparr>"

lemma recovery_conf_fields:
  assumes "recovery_conf c = recovery_conf c'"
  shows "rc_lock c = rc_lock c'" "rc_dataShards c = rc_dataShards c'" "rc_totalShards c = rc_totalShards c'"
    "rc_shardBytes c = rc_shardBytes c'" "rc_maximumPayload c = rc_maximumPayload c'" "rc_bindingCheck c = rc_bindingCheck c'"
  using assms by (cases c; cases c'; simp add: recovery_conf_def)+

lemma recovery_step_inv: "recovery_inv R c \<Longrightarrow> recovery_inv R (fst (recovery_step R h c r))"
  by (cases r) (simp_all add: recovery_inv_add recovery_inv_payload)

lemma recovery_step_conf: "recovery_conf (fst (recovery_step R h c r)) = recovery_conf c"
proof (cases r)
  case (StoreReply sender wire)
  then show ?thesis by (cases rule: AddStore_cases [of c sender wire]) (auto simp: recovery_conf_def)
next
  case (PayloadReply sender wire)
  then show ?thesis by (auto simp: AddPayload_def recovery_conf_def Let_def split: option.splits)
qed

lemma recovery_feed_keeps:
  "recovery_inv R c \<Longrightarrow> recovery_inv R (recovery_feed R h c rs) \<and> recovery_conf (recovery_feed R h c rs) = recovery_conf c"
  unfolding recovery_feed_def by (induction rs arbitrary: c) (auto simp: recovery_step_inv recovery_step_conf)

lemma recovery_step_ready:
  assumes "recovery_step R h c r = (c', Some True)"
  shows "rc_payload c' \<noteq> None \<or> rc_dataShards c' \<le> int (length (rc_stores c'))"
proof (cases r)
  case (StoreReply sender wire)
  then show ?thesis using assms by (cases rule: AddStore_cases [of c sender wire]) auto
next
  case (PayloadReply sender wire)
  then show ?thesis using assms by (auto simp: AddPayload_def Let_def split: option.splits if_splits)
qed

lemma new_recovery_inv:
  "newCVAPDBRecoveryCollectorV2 B lock roster d b m signer check = Some c \<Longrightarrow> recovery_inv R c"
  by (auto simp: newCVAPDBRecoveryCollectorV2_def run_simps recovery_inv_def)

lemma ordered_stores_spec:
  assumes "recovery_inv R c"
  shows "set (ordered_stores c) = snd ` set (rc_stores c)" "distinct (ordered_stores c)"
    "length (ordered_stores c) = length (rc_stores c)"
proof -
  let ?n = "nat (rc_totalShards c)" and ?f = "map_of (rc_stores c)"
  have d: "distinct (map fst (rc_stores c))" and st: "\<And>i st. (i, st) \<in> set (rc_stores c) \<Longrightarrow> st_Index st = int i \<and> i < ?n"
    using assms by (auto simp: recovery_inv_def cvVerifyAPDBStoreV2_def)
  have dom: "i < ?n" and idx: "st_Index st = int i" if "?f i = Some st" for i st
    using st [OF map_of_SomeD [OF that]] by simp_all
  show set: "set (ordered_stores c) = snd ` set (rc_stores c)"
    using st d by (force simp: ordered_stores_def map_filter_def dom dest: map_of_SomeD)
  have ids: "map st_Index (ordered_stores c) = map int (filter (\<lambda>i. ?f i \<noteq> None) [0..<?n])"
    unfolding ordered_stores_def map_filter_def by (auto simp: idx)
  then have "distinct (map st_Index (ordered_stores c))" by (simp add: distinct_map)
  then show "distinct (ordered_stores c)" by (simp add: distinct_map)
  have "set (filter (\<lambda>i. ?f i \<noteq> None) [0..<?n]) = set (map fst (rc_stores c))"
    using st by (auto simp: map_of_eq_None_iff)
  then have "length (filter (\<lambda>i. ?f i \<noteq> None) [0..<?n]) = length (map fst (rc_stores c))"
    using d by (metis distinct_card distinct_filter distinct_upt)
  then show "length (ordered_stores c) = length (rc_stores c)" using ids by (metis length_map)
qed

text \<open>The messages hashed over what the collector accepted.\<close>

definition collector_messages :: "rs \<Rightarrow> cvAPDBRecoveryCollectorV2 \<Rightarrow> bytes list" where
  "collector_messages R c = concat (map (\<lambda>(_, st). store_messages st) (rc_stores c)) @
     (case rc_payload c of None \<Rightarrow> [] | Some p \<Rightarrow> payload_messages R (lk_InstanceDigest (rc_lock c)) p (rc_dataShards c)
        (rc_totalShards c) (rc_shardBytes c) (rc_maximumPayload c))"

lemma collideI: "x \<in> set xs \<Longrightarrow> y \<in> set ys \<Longrightarrow> x \<noteq> y \<Longrightarrow> sha256 x = sha256 y \<Longrightarrow> collide xs ys"
  by (auto simp: collide_def)

lemma collide_mono: "collide xs ys \<Longrightarrow> set xs \<subseteq> set xs' \<Longrightarrow> set ys \<subseteq> set ys' \<Longrightarrow> collide xs' ys'"
  by (auto simp: collide_def)

lemma accepted_store_is_honest:
  assumes ok: "code_ok R d t" and enc: "cvAPDBEncodeSizedV2 R inst p d t b m = Some enc"
    and st: "cvVerifyAPDBStoreV2 st t b" "st_InstanceDigest st = inst" "st_Root st = en_root enc"
  shows "st \<in> set (en_stores enc) \<or> collide (store_messages st) (payload_messages R inst p d t b m)"
proof -
  note a = encode_sized_args [OF enc]
  obtain E where E: "enc = apdb_of inst d t E" "length E = nat t" "\<forall>s \<in> set E. length s = nat b"
    using encode_sized_Some [OF ok a] enc by (metis option.inject)
  have i: "nat (st_Index st) < length E" "0 \<le> st_Index st" using st(1) E(2) by (auto simp: cvVerifyAPDBStoreV2_def)
  let ?h = "en_stores enc ! nat (st_Index st)"
  have h: "?h \<in> set (en_stores enc)" using i E(1) by simp
  have "cvVerifyAPDBStoreV2 ?h t b" unfolding E(1)
    by (rule apdb_of_verifies) (use E i a in \<open>auto simp: encode_args_ok_def\<close>)
  then have "st = ?h \<or> collide (store_messages st) (store_messages ?h)"
    by (rule store_binding_aux [OF st(1)]) (use st i E in \<open>auto simp: apdb_of_store\<close>)
  moreover have "set (store_messages ?h) \<subseteq> set (payload_messages R inst p d t b m)"
    using h enc by (auto simp: payload_messages_def)
  ultimately show ?thesis using h collide_mono by (metis order_refl)
qed

lemma recovery_correct:
  assumes ok: "code_ok R d t" and m: "int64 m" and enc: "cvAPDBEncodeSizedV2 R inst p d t b m = Some enc"
    and inv: "recovery_inv R c" and lock: "lk_InstanceDigest (rc_lock c) = inst" "lk_Root (rc_lock c) = en_root enc"
    and conf: "rc_dataShards c = d" "rc_totalShards c = t" "rc_shardBytes c = b" "rc_maximumPayload c = m"
    and check: "case rc_bindingCheck c of None \<Rightarrow> True | Some f \<Rightarrow> f p"
    and ready: "rc_payload c \<noteq> None \<or> d \<le> int (length (rc_stores c))"
  shows "recovery_Recover R c = Some p \<or> collide (collector_messages R c) (payload_messages R inst p d t b m)"
proof (cases "rc_payload c")
  case (Some p')
  then obtain enc' where enc': "cvAPDBEncodeSizedV2 R inst p' d t b m = Some enc'" "en_root enc' = en_root enc"
    using inv lock conf unfolding recovery_inv_def by auto
  have "p' = p \<or> collide (payload_messages R inst p' d t b m) (payload_messages R inst p d t b m)"
    by (rule root_binding [OF ok m enc'(1) enc enc'(2)])
  moreover have "set (payload_messages R inst p' d t b m) \<subseteq> set (collector_messages R c)"
    using Some lock conf by (simp add: collector_messages_def)
  ultimately show ?thesis using Some check collide_mono by (fastforce simp: recovery_Recover_def)
next
  case None
  have ok': "d \<le> int (length (rc_stores c))" using ready None by simp
  show ?thesis
  proof (rule disjCI)
    assume no: "\<not> collide (collector_messages R c) (payload_messages R inst p d t b m)"
    have "snd ` set (rc_stores c) \<subseteq> set (en_stores enc)"
    proof clarify
      fix i st assume mem: "(i, st) \<in> set (rc_stores c)"
      then have "cvVerifyAPDBStoreV2 st t b" "st_InstanceDigest st = inst" "st_Root st = en_root enc"
        using inv lock conf unfolding recovery_inv_def by auto
      then have "st \<in> set (en_stores enc) \<or> collide (store_messages st) (payload_messages R inst p d t b m)"
        by (rule accepted_store_is_honest [OF ok enc])
      moreover have "set (store_messages st) \<subseteq> set (collector_messages R c)"
        using mem by (auto simp: collector_messages_def)
      ultimately show "snd (i, st) \<in> set (en_stores enc)" using no collide_mono by (metis order_refl snd_conv)
    qed
    then have "cvRecoverAPDBV2 R (rc_lock c) (ordered_stores c) d t b m (rc_bindingCheck c) = Some p"
      using ordered_stores_spec [OF inv] ok' check by (intro recover_sized [OF ok m enc lock]) auto
    then show "recovery_Recover R c = Some p" using None ok' conf by (simp add: recovery_Recover_def)
  qed
qed

text \<open>C2: recovery under Byzantine holders: take the lock of an encoded payload and feed its recovery collector
  arbitrary replies, from arbitrary senders, in any order.  As soon as a reply makes the collector report
  that it is ready, it returns exactly the payload that was encoded, unless two different messages hashed
  over the accepted replies and over the honest encoding have one SHA-256 digest.\<close>

theorem byzantine_recovery:
  assumes "code_ok R dataShards (int (length roster))" "int64 maximumPayload"
    and "cvAPDBEncodeSizedV2 R (lk_InstanceDigest lock) payload dataShards (int (length roster)) shardBytes maximumPayload = Some enc"
    and "lk_Root lock = en_root enc"
    and "newCVAPDBRecoveryCollectorV2 B lock roster dataShards shardBytes maximumPayload signer check = Some c0"
    and "recovery_step R hintsEnabled (recovery_feed R hintsEnabled c0 replies) reply = (c, Some True)"
    and "case check of None \<Rightarrow> True | Some f \<Rightarrow> f payload"
  shows "recovery_Recover R c = Some payload \<or>
    (\<exists>x \<in> set (collector_messages R c). \<exists>y \<in> set (payload_messages R (lk_InstanceDigest lock) payload dataShards
       (int (length roster)) shardBytes maximumPayload). x \<noteq> y \<and> sha256 x = sha256 y)"
proof -
  have c: "c = recovery_feed R hintsEnabled c0 (replies @ [reply])" using assms(6) by (simp add: recovery_feed_def)
  note keep = recovery_feed_keeps [OF new_recovery_inv [OF assms(5)], of R hintsEnabled "replies @ [reply]", folded c]
  note f = recovery_conf_fields [OF conjunct2 [OF keep]]
  have c0: "rc_lock c0 = lock" "rc_dataShards c0 = dataShards" "rc_totalShards c0 = int (length roster)"
    "rc_shardBytes c0 = shardBytes" "rc_maximumPayload c0 = maximumPayload" "rc_bindingCheck c0 = check"
    using assms(5) by (auto simp: newCVAPDBRecoveryCollectorV2_def run_simps)
  show ?thesis unfolding collide_def [symmetric]
    by (rule recovery_correct [OF assms(1-3) conjunct1 [OF keep]])
       (use f c0 assms(4,7) recovery_step_ready [OF assms(6)] in auto)
qed

end
