(* ===== verification/Witness_Field.thy ===== *)
theory Witness_Field
  imports Signer
begin

text \<open>
  A small concrete instance of the cryptographic parameters: the field with five elements as
  scalars and as both groups, with the product as the pairing.  It satisfies \<open>bls_laws\<close>, so the
  witnesses of the properties that assume those laws are evaluated on it.
\<close>

datatype gf5 = F0 | F1 | F2 | F3 | F4

fun gf_nat :: "gf5 \<Rightarrow> nat" where
  "gf_nat F0 = 0" | "gf_nat F1 = 1" | "gf_nat F2 = 2" | "gf_nat F3 = 3" | "gf_nat F4 = 4"

definition nat_gf :: "nat \<Rightarrow> gf5" where
  "nat_gf n = (let r = n mod 5 in
     if r = 0 then F0 else if r = 1 then F1 else if r = 2 then F2 else if r = 3 then F3 else F4)"

instantiation gf5 :: field
begin

definition zero_gf5 :: gf5 where "zero_gf5 = F0"

definition one_gf5 :: gf5 where "one_gf5 = F1"

definition plus_gf5 :: "gf5 \<Rightarrow> gf5 \<Rightarrow> gf5" where "plus_gf5 a b = nat_gf (gf_nat a + gf_nat b)"

definition times_gf5 :: "gf5 \<Rightarrow> gf5 \<Rightarrow> gf5" where "times_gf5 a b = nat_gf (gf_nat a * gf_nat b)"

definition uminus_gf5 :: "gf5 \<Rightarrow> gf5" where "uminus_gf5 a = nat_gf (5 - gf_nat a)"

definition minus_gf5 :: "gf5 \<Rightarrow> gf5 \<Rightarrow> gf5" where "minus_gf5 a b = nat_gf (gf_nat a + (5 - gf_nat b))"

definition inverse_gf5 :: "gf5 \<Rightarrow> gf5" where "inverse_gf5 a = nat_gf (gf_nat a * gf_nat a * gf_nat a)"

definition divide_gf5 :: "gf5 \<Rightarrow> gf5 \<Rightarrow> gf5" where
  "divide_gf5 a b = nat_gf (gf_nat a * (gf_nat b * gf_nat b * gf_nat b))"

instance
proof
  fix a b c :: gf5
  show "a + b + c = a + (b + c)" by (cases a; cases b; cases c) (simp_all add: plus_gf5_def nat_gf_def)
  show "a * b * c = a * (b * c)" by (cases a; cases b; cases c) (simp_all add: times_gf5_def nat_gf_def)
  show "(a + b) * c = a * c + b * c"
    by (cases a; cases b; cases c) (simp_all add: plus_gf5_def times_gf5_def nat_gf_def)
  show "a + b = b + a" by (simp add: plus_gf5_def add.commute)
  show "a * b = b * a" by (simp add: times_gf5_def mult.commute)
  show "0 + a = a" by (cases a) (simp_all add: plus_gf5_def zero_gf5_def nat_gf_def)
  show "1 * a = a" by (cases a) (simp_all add: times_gf5_def one_gf5_def nat_gf_def)
  show "- a + a = 0" by (cases a) (simp_all add: plus_gf5_def uminus_gf5_def zero_gf5_def nat_gf_def)
  show "a - b = a + - b"
    by (cases a; cases b) (simp_all add: plus_gf5_def minus_gf5_def uminus_gf5_def nat_gf_def)
  show "(0 :: gf5) \<noteq> 1" by (simp add: zero_gf5_def one_gf5_def)
  show "a \<noteq> 0 \<Longrightarrow> inverse a * a = 1"
    by (cases a) (simp_all add: times_gf5_def inverse_gf5_def zero_gf5_def one_gf5_def nat_gf_def)
  show "a div b = a * inverse b"
    by (cases a; cases b) (simp_all add: times_gf5_def divide_gf5_def inverse_gf5_def nat_gf_def)
  show "inverse (0 :: gf5) = 0" by (simp add: inverse_gf5_def zero_gf5_def nat_gf_def)
qed

end

lemmas gf5_ops = zero_gf5_def one_gf5_def plus_gf5_def times_gf5_def uminus_gf5_def minus_gf5_def
  inverse_gf5_def divide_gf5_def nat_gf_def

definition gf_marshal :: "gf5 \<Rightarrow> bytes" where
  "gf_marshal p = [of_nat (gf_nat p)]"

text \<open>Like the library, this \<^verbatim>\<open>Unmarshal\<close> ignores the bytes after the point.\<close>

definition gf_unmarshal :: "bytes \<Rightarrow> gf5 option" where
  "gf_unmarshal w = (if w \<noteq> [] \<and> unat (hd w) < 5 then Some (nat_gf (unat (hd w))) else None)"

definition gf_bytes :: "gf5 \<Rightarrow> bytes" where
  "gf_bytes p = of_nat (gf_nat p) # replicate 47 0"

definition gf_set_bytes :: "bytes \<Rightarrow> gf5 \<times> nat option" where
  "gf_set_bytes w = (if length w = 48 \<and> unat (hd w) < 5 then (nat_gf (unat (hd w)), Some 48) else (F0, None))"

definition gf_fr_bytes :: "gf5 \<Rightarrow> bytes" where
  "gf_fr_bytes p = replicate 31 0 @ [of_nat (gf_nat p)]"

definition gf_fr_set :: "bytes \<Rightarrow> gf5 option" where
  "gf_fr_set w = (if length w = 32 \<and> unat (last w) < 5 \<and> butlast w = replicate 31 0
     then Some (nat_gf (unat (last w))) else None)"

definition toy_bls :: "(gf5, gf5, gf5) bls" where
  "toy_bls = \<lparr> g1_IsOnCurve = (\<lambda>_. True), g1_IsInSubGroup = (\<lambda>_. True), g1_IsInfinity = (\<lambda>p. p = F0),
     g1_zero = F0, g1_add = (+), g1_smul = (*), g1_multiexp = (\<lambda>_ _. None),
     bls_HashToG1 = (\<lambda>_ _. Some F2), bls_Marshal = gf_marshal, bls_Unmarshal = gf_unmarshal,
     bls_Bytes = gf_bytes, bls_SetBytes = gf_set_bytes, bls_genG1 = F1, bls_genG2 = F1,
     bls_NegG2 = uminus, bls_AddG2 = (+), bls_SmulG2 = (*), bls_G2IsInfinity = (\<lambda>p. p = F0),
     bls_G2IsOnCurve = (\<lambda>_. True), bls_G2IsInSubGroup = (\<lambda>_. True), bls_G2Bytes = gf_bytes,
     bls_PairingCheck = (\<lambda>ps qs. Some (sum_list (map2 (*) ps qs) = 0)),
     bls_JointBase = (\<lambda>p a b. F1 * a + p * b), bls_JointTimes = (\<lambda>p q a b. p * a + q * b),
     bls_BatchTimes = (\<lambda>p. map ((*) p)), bls_Neg = uminus, bls_Sub = (-), fr_BigInt = gf_nat, fr_Modulus = 5, fr_Bytes = gf_fr_bytes, fr_SetBytesCanonical = gf_fr_set,
     fr_Hash = (\<lambda>_ _. Some F2) \<rparr>"

lemma toy_codec:
  "gf_unmarshal (gf_marshal p) = Some p" "gf_set_bytes (gf_bytes p) = (p, Some 48)"
  "length (gf_bytes p) = 48" "length (gf_fr_bytes p) = 32" "gf_fr_set (gf_fr_bytes p) = Some p"
  by (cases p; simp add: gf_unmarshal_def gf_marshal_def gf_set_bytes_def gf_bytes_def gf_fr_bytes_def
    gf_fr_set_def nat_gf_def)+

lemma toy_g1_laws: "g1_laws toy_bls"
  by (simp add: g1_laws_def g1_in_def toy_bls_def zero_gf5_def [symmetric] algebra_simps)

lemma F2_nonzero: "F2 \<noteq> 0"
  by (simp add: zero_gf5_def)

lemma toy_bls_laws: "bls_laws toy_bls"
  unfolding bls_laws_def using toy_g1_laws
  by (simp add: g1_in_def SizeOfG1AffineCompressed_def toy_codec)
     (simp add: toy_bls_def toy_codec SizeOfG1AffineCompressed_def zero_gf5_def [symmetric]
       one_gf5_def [symmetric] algebra_simps F2_nonzero)

section \<open>Witnesses for the threshold signer\<close>

lemma gf5_of_int: "(of_int 0 :: gf5) = F0" "(of_int 1 :: gf5) = F1" "(of_int 2 :: gf5) = F2"
  "(of_int 3 :: gf5) = F3" "(of_int 4 :: gf5) = F4"
proof -
  show 0: "(of_int 0 :: gf5) = F0" by (simp add: zero_gf5_def)
  show 1: "(of_int 1 :: gf5) = F1" by (simp add: one_gf5_def)
  have step: "(of_int (i + 1) :: gf5) = of_int i + F1" for i by (simp add: one_gf5_def)
  show 2: "(of_int 2 :: gf5) = F2" using step [of 1] unfolding 1 by (simp add: plus_gf5_def nat_gf_def)
  show 3: "(of_int 3 :: gf5) = F3" using step [of 2] unfolding 2 by (simp add: plus_gf5_def nat_gf_def)
  show "(of_int 4 :: gf5) = F4" using step [of 3] unfolding 3 by (simp add: plus_gf5_def nat_gf_def)
qed

lemma inj_gf5: "inj_on (of_int :: int \<Rightarrow> gf5) {1..3}"
proof -
  have "{1..3 :: int} = {1, 2, 3}" by auto
  then show ?thesis by (simp add: inj_on_def gf5_of_int del: of_int_numeral of_int_1)
qed

text \<open>Three members, threshold two, secret polynomial \<open>1 + 2 x\<close>.\<close>

definition toy_signer :: "(gf5, gf5, gf5) tblsThresholdSigner" where
  "toy_signer = \<lparr> ts_t = 2, ts_n = 3, ts_v2Role = cvV2RoleControl, ts_pubKey = F1,
     ts_pubKeyShares = [F3, F0, F2], ts_transportPubKeyShares = [F3, F0, F2], ts_shares = [F3, F0, F2],
     ts_memberOrder = [7, 8, 9], ts_memberIndex = member_index [7, 8, 9], ts_signingMembers = None \<rparr>"

lemma toy_signer_fields: "ts_t toy_signer = 2" "ts_memberOrder toy_signer = [7, 8, 9]"
  by (simp_all add: toy_signer_def)

lemma gf_F1_times: "F1 * x = x"
  by (cases x) (simp_all add: times_gf5_def nat_gf_def)

lemma toy_poly: "evalPolyInt [F1, F2] 0 = F1" "evalPolyInt [F1, F2] 1 = F3"
  "evalPolyInt [F1, F2] 2 = F0" "evalPolyInt [F1, F2] 3 = F2"
  by (simp_all add: evalPolyInt_def gf5_of_int plus_gf5_def times_gf5_def nat_gf_def
      del: of_int_numeral of_int_1 of_int_0)

lemma toy_dealt: "dealt toy_bls toy_signer [F1, F2]"
  by (simp add: dealt_def toy_signer_def toy_bls_def upt_rec toy_poly gf_F1_times)

lemma gf_F2_times: "F2 * F3 = F1" "F2 * F0 = F0" "F2 * F2 = F4" "F2 * F1 = F2"
  by (simp_all add: times_gf5_def nat_gf_def)

lemma toy_verify: "VerifyShare toy_bls toy_signer 7 d m (gf_marshal F1)"
  "VerifyShare toy_bls toy_signer 8 d m (gf_marshal F0)" "VerifyShare toy_bls toy_signer 9 d m (gf_marshal F4)"
  unfolding VerifyShare_iff [OF toy_bls_laws toy_dealt]
  by (simp_all add: toy_signer_def member_index_def toy_bls_def toy_codec upt_rec toy_poly gf_F2_times)

theorem threshold_recovery_witness:
  "\<exists>sig. Recover toy_bls toy_signer ''coin'' [] [(7, gf_marshal F1), (8, gf_marshal F0)] = Some sig \<and>
     Recover toy_bls toy_signer ''coin'' [] [(7, gf_marshal F1), (9, gf_marshal F4)] = Some sig \<and>
     VerifyRecovered toy_bls toy_signer ''coin'' [] sig"
  by (rule threshold_recovery [OF toy_bls_laws toy_dealt])
     (simp_all add: toy_verify inj_gf5 toy_signer_fields)

theorem threshold_sign_recover_witness:
  "\<exists>shares sig. map fst shares = [7, 9] \<and>
    (\<forall>(m, w) \<in> set shares.
      SignShare toy_bls (the (newTBLSThresholdSigner toy_bls [7, 8, 9] 2 (\<lambda>_. 1))) m ''coin'' [] = Some w) \<and>
    Recover toy_bls (the (newTBLSThresholdSigner toy_bls [7, 8, 9] 2 (\<lambda>_. 1))) ''coin'' [] shares = Some sig \<and>
    VerifyRecovered toy_bls (the (newTBLSThresholdSigner toy_bls [7, 8, 9] 2 (\<lambda>_. 1))) ''coin'' [] sig"
  by (rule threshold_sign_recover [OF toy_bls_laws, where members = "[7, 8, 9]" and threshold = 2 and h = F2 and stream = "\<lambda>_. 1"])
     (simp_all add: inj_gf5 newTBLSThresholdSigner_def Let_def toy_bls_def)

end
