(* ===== verification/Witnesses.thy ===== *)
theory Witnesses
  imports Validation Witness_Field
begin

text \<open>
  Closed instances of the properties that assume the laws of the cryptographic library or a
  well-formed protocol object, evaluated on the five-element instance.
\<close>

section \<open>Coin\<close>

definition toy_coin_signer :: "(gf5, gf5, gf5) tblsThresholdSigner" where
  "toy_coin_signer = toy_signer\<lparr> ts_v2Role := cvV2RoleCoin \<rparr>"

lemma toy_coin_dealt: "dealt toy_bls toy_coin_signer [F1, F2]"
  using toy_dealt by (simp add: dealt_def toy_coin_signer_def)

lemma toy_recovered: "VerifyRecovered toy_bls toy_coin_signer d m [2]" "VerifyRecovered toy_bls toy_coin_signer d m [2, 9]"
  by (simp_all add: VerifyRecovered_def toy_coin_signer_def toy_signer_def pairing_ok_def toy_bls_def gf_unmarshal_def
      gf5_ops)

definition toy_coin :: "bytes \<Rightarrow> cvCoinOutputV2" where
  "toy_coin w = \<lparr> co_Invocation = [1], co_Certificate = w, co_Value = coin_value [1] w \<rparr>"

lemma toy_coin_verifies:
  "cvVerifyCoinOutputV2 toy_bls (toy_coin [2]) [1] toy_coin_signer"
  "cvVerifyCoinOutputV2 toy_bls (toy_coin [2, 9]) [1] toy_coin_signer"
  by (simp_all add: cvVerifyCoinOutputV2_def toy_coin_def cvCoinInvocationDigestV2_def toy_recovered coin_value_def
      cvV2SignerHasRole_def cvV2KnownThresholdRole_def cvMaxLeafWireBytes_def)
     (simp_all add: toy_coin_signer_def)

theorem coin_invocations_separated_witness:
  "\<exists>e c. cvEligibilityCoinInvocationV2 ''s'' 1 = Some e \<and>
     cvContributorCoinInvocationV2 (replicate 32 1) 3 (replicate 32 2) = Some c \<and> e \<noteq> c"
proof -
  obtain e where e: "cvEligibilityCoinInvocationV2 ''s'' 1 = Some e"
    by (simp add: cvEligibilityCoinInvocationV2_def)
  obtain c where c: "cvContributorCoinInvocationV2 (replicate 32 1) 3 (replicate 32 2) = Some c"
    by (simp add: cvContributorCoinInvocationV2_def)
  show ?thesis using coin_invocations_separated [OF _ _ _ _ _ _ e e c c] e c by (simp add: int64_def)
qed

theorem coin_signature_unique_witness:
  "bls_Unmarshal toy_bls (co_Certificate (toy_coin [2])) = bls_Unmarshal toy_bls (co_Certificate (toy_coin [2, 9])) \<and>
   bls_Unmarshal toy_bls (co_Certificate (toy_coin [2])) \<noteq> None"
  by (rule coin_signature_unique [OF toy_bls_laws toy_coin_dealt toy_coin_verifies])

theorem coin_value_malleable_witness:
  "cvVerifyCoinOutputV2 toy_bls (toy_coin [2]) [1] toy_coin_signer \<and>
   cvVerifyCoinOutputV2 toy_bls (toy_coin [2, 9]) [1] toy_coin_signer"
  using coin_value_malleable [OF toy_coin_verifies(1), of "[2, 9]"] toy_coin_verifies(1)
  by (simp add: toy_coin_def toy_bls_def gf_unmarshal_def)

section \<open>Leaf contexts and core proofs\<close>

definition toy_context :: cvLeafContextV2 where
  "toy_context = \<lparr> lc_SID = ''s'', lc_Epoch = 1, lc_OldRoster = [0, 1, 2, 3], lc_NewRoster = [0, 1, 2, 3],
     lc_ReceiverRegistryDigest = replicate 32 0, lc_SharingDegree = 1,
     lc_Profile = \<lparr> cp_chunkBits = 8, cp_maxComponents = 4 \<rparr> \<rparr>"

lemma toy_context_valid: "cvValidateLeafContextV2 toy_context"
  by (simp add: cvValidateLeafContextV2_def toy_context_def cvMaxNetworkEnvelopeSIDBytes_def cvProfile_def
      cvMaxChunkBits_def cvMaxDLogBound_def fr_modulus_def)

lemma toy_context_wf: "wf_leaf_context toy_context"
  by (simp add: wf_leaf_context_def toy_context_def int64_def)

lemma toy_context_wire: "\<exists>w. cvLeafContextV2CanonicalBytes toy_context = Some w"
  using toy_context_valid by (simp add: cvLeafContextV2CanonicalBytes_def toy_context_def cvWriteUint32_def)

theorem leaf_context_digest_binding_witness:
  "\<exists>d. cvLeafContextDigestV2 toy_context = Some d \<and> (toy_context = toy_context \<or> (\<exists>w1 w2.
    cvLeafContextV2CanonicalBytes toy_context = Some w1 \<and> cvLeafContextV2CanonicalBytes toy_context = Some w2 \<and>
    w1 \<noteq> w2 \<and> sha256 (str_bytes cvLeafContextWireDomainV2 @ w1) = sha256 (str_bytes cvLeafContextWireDomainV2 @ w2)))"
proof -
  obtain d where d: "cvLeafContextDigestV2 toy_context = Some d"
    using toy_context_wire by (auto simp: cvLeafContextDigestV2_def)
  show ?thesis using leaf_context_digest_binding [OF toy_context_wf toy_context_wf d d] d by blast
qed

definition toy_hash2 :: "(gf5, gf5, gf5) bls" where
  "toy_hash2 = toy_bls\<lparr> fr_Hash := \<lambda>_ _. Some F3 \<rparr>"

lemma toy_hash2_g1: "g1_laws toy_hash2"
  by (simp add: g1_laws_def g1_in_def toy_hash2_def toy_bls_def zero_gf5_def [symmetric] algebra_simps)

lemma toy_hash2_laws: "bls_laws toy_hash2"
  unfolding bls_laws_def using toy_hash2_g1
  by (simp add: g1_in_def SizeOfG1AffineCompressed_def toy_codec)
     (simp add: toy_hash2_def toy_bls_def toy_codec SizeOfG1AffineCompressed_def zero_gf5_def [symmetric]
       one_gf5_def [symmetric] algebra_simps F2_nonzero)

lemma toy_pedersen: "cvPedersenBase toy_bls = Some F2" "cvPedersenBase toy_hash2 = Some F2"
  by (simp_all add: cvPedersenBase_def toy_hash2_def toy_bls_def cvValidG1_def)

lemma toy_challenge:
  "cvCoreProofChallengeScalarAfterValidationV2 toy_bls toy_context 0 [F2, F0] [F1, F1] = Some F2"
  "cvCoreProofChallengeScalarAfterValidationV2 toy_hash2 toy_context 0 [F2, F0] [F1, F1] = Some F3"
  using toy_context_wire
  by (auto simp: cvCoreProofChallengeScalarAfterValidationV2_def cvCoreProofChallengeScalarModeV2_def
      cvWritePointVectorMode_def cvHashToFr_def toy_bls_def toy_hash2_def cvWriteUint32_def)

lemma toy_prove:
  "cvProveCoreV2 toy_bls (\<lambda>_. Some F2) toy_context 0 [F1, F2] [F3, F4] =
     Some ([F2, F0], \<lparr> cpf_NonceCommitments = [F1, F1], cpf_ScalarResponses = [F4, F1], cpf_BlindingResponses = [F3, F0] \<rparr>)"
  "cvProveCoreV2 toy_hash2 (\<lambda>_. Some F2) toy_context 0 [F1, F2] [F3, F4] =
     Some ([F2, F0], \<lparr> cpf_NonceCommitments = [F1, F1], cpf_ScalarResponses = [F0, F3], cpf_BlindingResponses = [F1, F4] \<rparr>)"
proof -
  have deg: "lc_SharingDegree toy_context = 1" by (simp add: toy_context_def)
  have pts: "cvPointBaseAndTimes toy_bls F1 F2 F3 = F2" "cvPointBaseAndTimes toy_bls F2 F2 F4 = F0"
    "cvPointBaseAndTimes toy_bls F2 F2 F2 = F1"
    "cvPointBaseAndTimes toy_hash2 F1 F2 F3 = F2" "cvPointBaseAndTimes toy_hash2 F2 F2 F4 = F0"
    "cvPointBaseAndTimes toy_hash2 F2 F2 F2 = F1"
    by (simp_all add: cvPointBaseAndTimes_def toy_hash2_def toy_bls_def gf5_ops)
  have draw: "draw_nonces (\<lambda>_. Some F2) 0 2 = Some [(F2, F2), (F2, F2)]" by (simp add: numeral_2_eq_2)
  show "cvProveCoreV2 toy_bls (\<lambda>_. Some F2) toy_context 0 [F1, F2] [F3, F4] =
     Some ([F2, F0], \<lparr> cpf_NonceCommitments = [F1, F1], cpf_ScalarResponses = [F4, F1], cpf_BlindingResponses = [F3, F0] \<rparr>)"
    by (simp add: cvProveCoreV2_def toy_context_valid deg toy_pedersen draw pts toy_challenge gf5_ops)
  show "cvProveCoreV2 toy_hash2 (\<lambda>_. Some F2) toy_context 0 [F1, F2] [F3, F4] =
     Some ([F2, F0], \<lparr> cpf_NonceCommitments = [F1, F1], cpf_ScalarResponses = [F0, F3], cpf_BlindingResponses = [F1, F4] \<rparr>)"
    by (simp add: cvProveCoreV2_def toy_context_valid deg toy_pedersen draw pts toy_challenge gf5_ops)
qed

theorem core_proof_complete_witness:
  "\<exists>commitments cproof. cvProveCoreV2 toy_bls (\<lambda>_. Some F2) toy_context 0 [F1, F2] [F3, F4] = Some (commitments, cproof) \<and>
     cvVerifyCoreV2 toy_bls toy_context 0 commitments cproof"
  using core_proof_complete [OF toy_bls_laws toy_prove(1)] toy_prove(1) by blast

theorem core_proof_special_soundness_witness:
  "opens toy_bls F2 ([F2, F0] ! 0) (([F4, F1] ! 0 - [F0, F3] ! 0) / (F2 - F3)) (([F3, F0] ! 0 - [F1, F4] ! 0) / (F2 - F3))"
proof -
  let ?p1 = "\<lparr> cpf_NonceCommitments = [F1, F1], cpf_ScalarResponses = [F4, F1], cpf_BlindingResponses = [F3, F0] \<rparr>"
  let ?p2 = "\<lparr> cpf_NonceCommitments = [F1, F1], cpf_ScalarResponses = [F0, F3], cpf_BlindingResponses = [F1, F4] \<rparr>"
  have v: "cvVerifyCoreV2 (toy_bls\<lparr> fr_Hash := \<lambda>_ _. Some F3 \<rparr>) toy_context 0 [F2, F0] ?p2"
    "cvCoreProofChallengeScalarAfterValidationV2 (toy_bls\<lparr> fr_Hash := \<lambda>_ _. Some F3 \<rparr>) toy_context 0 [F2, F0]
       (cpf_NonceCommitments ?p2) = Some F3"
    using core_complete [OF toy_hash2_laws toy_prove(2)] toy_challenge(2) by (simp_all add: toy_hash2_def)
  have c: "cvCoreProofChallengeScalarAfterValidationV2 toy_bls toy_context 0 [F2, F0] (cpf_NonceCommitments ?p1) = Some F2"
    using toy_challenge(1) by simp
  show ?thesis
    using core_proof_special_soundness [OF toy_bls_laws toy_pedersen(1)
      core_complete [OF toy_bls_laws toy_prove(1)] v(1) _ c v(2), of 0] by simp
qed

section \<open>Pools\<close>

definition toy_ref :: cvComponentRefV2 where
  "toy_ref = (let i = the (cvComponentInstanceDigestV2 (replicate 32 1) 4) in
     \<lparr> cr_Header = \<lparr> ch_ContextDigest = replicate 32 1, ch_DealerID = 4, ch_PayloadDigest = replicate 32 2,
         ch_Instance = i, ch_Root = replicate 32 3 \<rparr>,
       cr_Lock = \<lparr> lk_InstanceDigest = i, lk_Root = replicate 32 3, lk_Certificate = [2] \<rparr> \<rparr>)"

definition toy_params :: cvV2Params where
  "toy_params = \<lparr> vp_oldFaults = 0, vp_newFaults = 0, vp_componentCount = 1, vp_poolSize = 1,
     vp_apdbLockThreshold = 1, vp_decisionThreshold = 1, vp_recoveryThreshold = 1, vp_newShareDegree = 0,
     vp_newShareThreshold = 1, vp_proposerSampleSize = 1, vp_validatorSampleSize = 1, vp_validatorThreshold = 1,
     vp_proposerFailureBound = 0, vp_validatorSoundnessFailureBound = 0, vp_validatorLivenessFailureBound = 0,
     vp_validatorCombinedFailureBound = 0, vp_validatorFailureBound = 0 \<rparr>"

lemma toy_instance: "\<exists>i. cvComponentInstanceDigestV2 (replicate 32 1) 4 = Some i \<and> length i = 32"
  by (simp add: cvComponentInstanceDigestV2_def cvAPDBInstanceDigestV2_def hashBytes_def)

lemma toy_ref_wire: "\<exists>w. cvComponentRefV2CanonicalBytes toy_ref = Some w"
proof -
  obtain i where i: "cvComponentInstanceDigestV2 (replicate 32 1) 4 = Some i" "length i = 32" using toy_instance by blast
  then show ?thesis
    by (simp add: cvComponentRefV2CanonicalBytes_def cvComponentHeaderV2CanonicalBytes_def
        cvAPDBLockV2CanonicalBytes_def toy_ref_def Let_def cvMaxComponentSignatureBytes_def)
qed

lemma toy_ref_length:
  assumes "cvComponentRefV2CanonicalBytes toy_ref = Some w"
  shows "length w \<le> 2000000"
proof -
  obtain hw lw where hw: "cvComponentHeaderV2CanonicalBytes (cr_Header toy_ref) = Some hw"
    and lw: "cvAPDBLockV2CanonicalBytes (cr_Lock toy_ref) = Some lw"
    and ww: "w = dropped (cvWriteBytes (str_bytes cvComponentRefV2Domain)) @ dropped (cvWriteBytes hw) @ dropped (cvWriteBytes lw)"
    using assms by (auto simp: cvComponentRefV2CanonicalBytes_def run_simps)
  show ?thesis using header_wire_length [OF hw] lock_wire_length [OF lw] ww
    by (simp add: dom_defs cvMaxComponentSignatureBytes_def)
qed

lemma toy_pool_built: "\<exists>pool. cvBuildPoolV2 (replicate 32 1) 2 [toy_ref] toy_params = Some pool"
proof -
  have "pool_unsigned (replicate 32 1) 2 [toy_ref] \<noteq> None"
    using toy_ref_wire by (auto simp: pool_unsigned_def cvWriteUint32_def toy_ref_def Let_def)
  then obtain u where "pool_unsigned (replicate 32 1) 2 [toy_ref] = Some u" by blast
  then show ?thesis
    by (simp add: cvBuildPoolV2_def cvPoolV2CanonicalBytes_def toy_params_def hashBytes_def)
qed

theorem built_pool_well_formed_witness:
  "\<exists>pool. cvBuildPoolV2 (replicate 32 1) 2 [toy_ref] toy_params = Some pool \<and>
     cvPoolV2CanonicalBytes pool toy_params \<noteq> None \<and> pl_Components pool = [toy_ref]"
  using toy_pool_built built_pool_well_formed by blast

lemma toy_pool_wf:
  assumes "cvBuildPoolV2 (replicate 32 1) 2 [toy_ref] toy_params = Some pool"
  shows "wf_pool pool" and "\<exists>w. cvPoolV2CanonicalBytes pool toy_params = Some w"
proof -
  obtain w where w: "cvComponentRefV2CanonicalBytes toy_ref = Some w" using toy_ref_wire by blast
  have len: "length w < 4294967296 \<and> length w \<le> 2000000" using toy_ref_length [OF w] by simp
  have p: "pl_ContextDigest pool = replicate 32 1" "pl_ProposerID pool = 2" "pl_Components pool = [toy_ref]"
    "\<exists>w. cvPoolV2CanonicalBytes pool toy_params = Some w"
    using assms by (auto simp: cvBuildPoolV2_def run_simps Let_def)
  show "\<exists>w. cvPoolV2CanonicalBytes pool toy_params = Some w" by (rule p(4))
  have "ch_DealerID (cr_Header toy_ref) = 4" by (simp add: toy_ref_def Let_def)
  then show "wf_pool pool"
    using p w len by (auto simp: wf_pool_def int64_def pool_unsigned_def run_simps dom_defs cvMaxNetworkPayloadBytes_def
      cvMaxLeafWireBytes_def cvWriteUint32_def)
qed

theorem pool_digest_binding_witness:
  "\<exists>pool w. cvPoolV2CanonicalBytes pool toy_params = Some w \<and> wf_pool pool \<and> (pool = pool \<or>
    (pool_message pool \<noteq> pool_message pool \<and> sha256 (pool_message pool) = sha256 (pool_message pool)))"
proof -
  obtain pool where b: "cvBuildPoolV2 (replicate 32 1) 2 [toy_ref] toy_params = Some pool" using toy_pool_built by blast
  obtain w where w: "cvPoolV2CanonicalBytes pool toy_params = Some w" using toy_pool_wf(2) [OF b] by blast
  show ?thesis using pool_digest_binding [OF w w toy_pool_wf(1) [OF b] toy_pool_wf(1) [OF b] refl] w toy_pool_wf(1) [OF b]
    by blast
qed

end
