(* ===== verification/Protocol_Witnesses.thy ===== *)
theory Protocol_Witnesses
  imports Service Witnesses
begin

text \<open>
  Closed instances of the properties about validation certificates, agreement objects, handoffs, stores and
  collectors, on the five-element instance and a committee of one or two members.
\<close>

section \<open>Keys and a header\<close>

definition toy_role :: "string \<Rightarrow> (gf5, gf5, gf5) tblsThresholdSigner" where
  "toy_role r = toy_signer\<lparr> ts_v2Role := r \<rparr>"

lemma toy_role_recovered: "VerifyRecovered toy_bls (toy_role r) d m [2]"
  by (simp add: VerifyRecovered_def toy_role_def toy_signer_def pairing_ok_def toy_bls_def gf_unmarshal_def gf5_ops)

lemma toy_role_has: "cvV2KnownThresholdRole r \<Longrightarrow> cvV2SignerHasRole (toy_role r) r"
  by (simp add: cvV2SignerHasRole_def toy_role_def)

lemma toy_roles [simp]: "cvV2KnownThresholdRole cvV2RoleAPDB" "cvV2KnownThresholdRole cvV2RoleControl" "cvV2KnownThresholdRole cvV2RoleCoin"
  by (simp_all add: cvV2KnownThresholdRole_def)

definition toy_keys :: "(gf5, gf5) cvValidatorKeyMaterialV2" where
  "toy_keys = \<lparr> vm_memberOrder = [2], vm_memberIndex = [2 \<mapsto> 0], vm_publicKeys = [F1], vm_localSecrets = [2 \<mapsto> F1],
     vm_registryHash = [], vm_sid = ''s'', vm_epoch = 1 \<rparr>"

lemma toy_keyed: "keyed toy_bls toy_keys (\<lambda>_. F1)"
  by (simp add: keyed_def toy_keys_def toy_bls_def gf5_ops)

lemma toy_sample: "cvValidValidatorSampleV2 [2] toy_keys"
  by (simp add: cvValidValidatorSampleV2_def cvDistinctNonNegativeIDs_def toy_keys_def)

definition toy_header :: "bytes \<Rightarrow> bytes \<Rightarrow> cvAggregateHeaderV2" where
  "toy_header pool selection = \<lparr> ah_ContextDigest = replicate 32 1, ah_ProposerID = 2, ah_PoolDigest = pool,
     ah_SelectionDigest = selection, ah_AggregateDigest = replicate 32 4, ah_PayloadDigest = replicate 32 5,
     ah_APDBInstance = the (cvAggregateInstanceDigestV2 (replicate 32 1) 2 pool selection), ah_APDBRoot = replicate 32 6 \<rparr>"

lemma toy_instance_digest:
  "length pool = 32 \<Longrightarrow> length selection = 32 \<Longrightarrow>
   \<exists>i. cvAggregateInstanceDigestV2 (replicate 32 1) 2 pool selection = Some i \<and> length i = 32"
  by (simp add: cvAggregateInstanceDigestV2_def cvAPDBInstanceDigestV2_def hashBytes_def cvWriteUint64_def)

lemma toy_header_wire:
  assumes "length pool = 32" "length selection = 32"
  shows "\<exists>w. cvAggregateHeaderV2CanonicalBytes (toy_header pool selection) = Some w"
  using toy_instance_digest [OF assms] assms by (auto simp: cvAggregateHeaderV2CanonicalBytes_def toy_header_def)

lemma toy_statement:
  assumes "length pool = 32" "length selection = 32"
  shows "\<exists>st. cvValidationStatementV2 [2] (toy_header pool selection) = Some st \<and> length st = 32"
  using toy_header_wire [OF assms]
  by (auto simp: cvValidationStatementV2_def cvDistinctNonNegativeIDs_def cvWriteUint32_def hashBytes_def)

section \<open>Validation certificates\<close>

definition toy_certificate :: cvValidationCertificateV2 where
  "toy_certificate = \<lparr> vc_SignerBitmap = [1], vc_AggregateSignature = gf_bytes F2 \<rparr>"

lemma toy_certificate_wire: "\<exists>w. cvValidationCertificateV2CanonicalBytes toy_bls toy_certificate [2] = Some w"
  by (simp add: cvValidationCertificateV2CanonicalBytes_def toy_certificate_def cvDistinctNonNegativeIDs_def
      cvValidationBitmapBytesV2_def cvValidationBitmapHighBitsZeroV2_def SizeOfG1AffineCompressed_def toy_bls_def
      toy_codec cvValidG1_def)

lemma toy_certificate_verifies:
  assumes "length pool = 32" "length selection = 32"
  shows "cvVerifyValidationCertificateV2 toy_bls toy_certificate (toy_header pool selection) [2] 1 toy_keys"
proof -
  obtain st where st: "cvValidationStatementV2 [2] (toy_header pool selection) = Some st"
    using toy_statement [OF assms] by blast
  have "verify_loop toy_bls toy_keys [1] 0 [2] 0 (bls_SmulG2 toy_bls (bls_genG2 toy_bls) 0) = Some (1, F1)"
    by (simp add: bitmap_get_def vm_public_def toy_keys_def toy_bls_def zero_gf5_def gf5_ops)
  then show ?thesis using toy_certificate_wire toy_sample st
    by (auto simp: cvVerifyValidationCertificateV2_def toy_certificate_def toy_bls_def pairing_ok_def toy_codec gf5_ops)
qed

definition toy_digest :: bytes where
  "toy_digest = replicate 32 7"

lemmas toy_plain = toy_certificate_verifies [of toy_digest toy_digest, unfolded toy_digest_def, simplified]

theorem validation_certificate_sound_witness:
  "let signers = signers_from (vc_SignerBitmap toy_certificate) 0 [2] in
    distinct signers \<and> set signers \<subseteq> set [2] \<and> 1 \<le> int (length signers) \<and>
    (\<exists>st h. cvValidationStatementV2 [2] (toy_header (replicate 32 7) (replicate 32 7)) = Some st \<and>
      bls_HashToG1 toy_bls (domainDigest cvValidationCertificateV2Domain st) (str_bytes cvValidationCertificateV2Domain) = Some h \<and>
      fst (bls_SetBytes toy_bls (vc_AggregateSignature toy_certificate)) = g1_smul toy_bls h (\<Sum>m \<leftarrow> signers. (\<lambda>_. F1) m))"
  by (rule validation_certificate_sound [OF toy_bls_laws toy_keyed toy_plain])

theorem validation_quorums_intersect_witness:
  "2 * 1 - int (length [2 :: int]) \<le> int (card (set (signers_from (vc_SignerBitmap toy_certificate) 0 [2]) \<inter>
     set (signers_from (vc_SignerBitmap toy_certificate) 0 [2])))"
  by (rule validation_quorums_intersect [OF toy_bls_laws toy_keyed toy_plain toy_plain])

theorem honest_quorum_certifies_witness:
  "\<exists>w certificate. cvBuildValidationCertificateModeV2 toy_bls (toy_header (replicate 32 7) (replicate 32 7)) [2] 1 [(2, w)] toy_keys True =
      Some certificate \<and> set (signers_from (vc_SignerBitmap certificate) 0 [2]) = fst ` set [(2 :: int, w :: bytes)]"
proof -
  obtain st where st: "cvValidationStatementV2 [2] (toy_header (replicate 32 7) (replicate 32 7)) = Some st" "length st = 32"
    using toy_statement [of "replicate 32 7" "replicate 32 7"] by auto
  then obtain w where w: "cvSignValidationV2 toy_bls 2 (toy_header (replicate 32 7) (replicate 32 7)) [2] toy_keys = Some w"
    using toy_sample
    by (auto simp: cvSignValidationV2_def cvSignValidatorV2_def toy_keys_def toy_bls_def dom_defs zero_gf5_def)
  have own: "vm_localSecrets toy_keys 2 = Some F1" by (simp add: toy_keys_def)
  have "\<exists>certificate. cvBuildValidationCertificateModeV2 toy_bls (toy_header (replicate 32 7) (replicate 32 7)) [2] 1 [(2, w)] toy_keys True =
      Some certificate \<and> set (signers_from (vc_SignerBitmap certificate) 0 [2]) = fst ` set [(2, w)]"
    by (rule honest_quorum_certifies [OF toy_bls_laws toy_keyed toy_sample])
       (use w own in \<open>auto simp: gf5_ops\<close>)
  then show ?thesis by blast
qed

theorem validation_statement_binding_witness:
  "\<exists>st. cvValidationStatementV2 [2] (toy_header (replicate 32 7) (replicate 32 7)) = Some st \<and>
    (let h = toy_header (replicate 32 7) (replicate 32 7) in (([2 :: int] = [2] \<and> h = h) \<or>
    (statement_message [2] h \<noteq> statement_message [2] h \<and> sha256 (statement_message [2] h) = sha256 (statement_message [2] h))))"
proof -
  obtain st where st: "cvValidationStatementV2 [2] (toy_header (replicate 32 7) (replicate 32 7)) = Some st"
    using toy_statement [of "replicate 32 7" "replicate 32 7"] by auto
  have "int64 (ah_ProposerID (toy_header (replicate 32 7) (replicate 32 7)))" by (simp add: toy_header_def int64_def)
  then show ?thesis using validation_statement_binding [OF st st] st by (simp add: int64_def Let_def)
qed

section \<open>An agreement object\<close>

definition toy_output :: "bytes \<Rightarrow> cvCoinOutputV2" where
  "toy_output iv = \<lparr> co_Invocation = iv, co_Certificate = [2], co_Value = coin_value iv [2] \<rparr>"

lemma toy_output_verifies:
  assumes "iv \<noteq> []" "length iv \<le> cvMaxLeafWireBytes"
  shows "cvVerifyCoinOutputV2 toy_bls (toy_output iv) iv (toy_role cvV2RoleCoin)"
  using assms toy_role_has [of cvV2RoleCoin]
  by (simp add: cvVerifyCoinOutputV2_def toy_output_def cvCoinInvocationDigestV2_def toy_role_recovered coin_value_def hashBytes_def)

lemma toy_output_value: "length (co_Value (toy_output iv)) = 32"
  by (simp add: toy_output_def coin_value_def hashBytes_def)

lemma single_sample:
  "v \<noteq> [] \<Longrightarrow> tag \<noteq> [] \<Longrightarrow> cvSampleWithoutReplacementV2 [m] v tag 1 = Some [m]"
  by (simp add: cvSampleWithoutReplacementV2_def sortedUnique_def sortedCopy_def)

definition toy_public :: "bytes \<Rightarrow> (gf5, gf5, gf5) cvAgreementPublicContextV2" where
  "toy_public iv = \<lparr> ap_SID = ''s'', ap_Epoch = 1, ap_ContextDigest = replicate 32 1, ap_OldCommittee = [2],
     ap_EligibilityCoin = Some (toy_output iv), ap_Params = toy_params, ap_APDBSigner = toy_role cvV2RoleAPDB,
     ap_ControlSigner = toy_role cvV2RoleControl, ap_CoinSigner = Some (toy_role cvV2RoleCoin), ap_ValidatorKeys = Some toy_keys \<rparr>"

lemma toy_eligibility:
  assumes "cvEligibilityCoinInvocationV2 ''s'' 1 = Some iv"
  shows "cvAgreementEligibilitySamplesV2 toy_bls (toy_public iv) = Some ([2], [2])"
proof -
  have iv: "iv \<noteq> []" "length iv \<le> cvMaxLeafWireBytes"
    using assms by (auto simp: cvEligibilityCoinInvocationV2_def cvMaxLeafWireBytes_def cvV2EligibilityCoinTag_def cvWriteUint64_def)
  have v: "co_Value (toy_output iv) \<noteq> []" using toy_output_value [of iv] by auto
  show ?thesis using assms toy_output_verifies [OF iv] v toy_sample
    by (simp add: cvAgreementEligibilitySamplesV2_def toy_public_def toy_params_def cvDeriveEligibilitySamplesV2_def
        single_sample cvV2ProposerSampleTag_def cvV2ValidatorSampleTag_def sortedUnique_def sortedCopy_def)
qed

definition toy_object :: "cvPoolV2 \<Rightarrow> bytes \<Rightarrow> bytes \<Rightarrow> cvAgreementObjectV2" where
  "toy_object pool civ sel = \<lparr> ao_Header = toy_header (pl_Digest pool) sel, ao_Pool = pool,
     ao_PoolCert = \<lparr> pc_PoolDigest = pl_Digest pool, pc_Certificate = [2] \<rparr>, ao_ContributorCoin = toy_output civ,
     ao_SelectedIndices = [0], ao_VCert = toy_certificate,
     ao_ARC = \<lparr> lk_InstanceDigest = ah_APDBInstance (toy_header (pl_Digest pool) sel), lk_Root = replicate 32 6,
       lk_Certificate = [2] \<rparr> \<rparr>"

lemma toy_lock_verifies:
  "length i = 32 \<Longrightarrow> length r = 32 \<Longrightarrow> lk_InstanceDigest l = i \<Longrightarrow> lk_Root l = r \<Longrightarrow> lk_Certificate l = [2] \<Longrightarrow>
   cvVerifyAPDBLockV2 toy_bls l (toy_role cvV2RoleAPDB)"
  by (simp add: cvVerifyAPDBLockV2_def cvMaxComponentSignatureBytes_def toy_role_has cvAPDBStoredStatementV2_def toy_role_recovered)

lemma toy_ref_verifies: "cvValidateComponentRefV2 toy_bls toy_ref (Some (toy_role cvV2RoleAPDB))"
proof -
  obtain i where "cvComponentInstanceDigestV2 (replicate 32 1) 4 = Some i" "length i = 32" using toy_instance by blast
  then have "cvVerifyAPDBLockV2 toy_bls (cr_Lock toy_ref) (toy_role cvV2RoleAPDB)"
    by (intro toy_lock_verifies [of i "replicate 32 3"]) (simp_all add: toy_ref_def)
  then show ?thesis using toy_ref_wire by (auto simp: cvValidateComponentRefV2_def)
qed

lemma toy_selected: "cvSelectedPoolIndicesV2 1 1 (co_Value (toy_output iv)) = Some [0]"
proof -
  have "co_Value (toy_output iv) \<noteq> []" using toy_output_value [of iv] by auto
  then show ?thesis by (simp add: cvSelectedPoolIndicesV2_def single_sample cvV2SelectionSampleTag_def)
qed

lemma toy_object_verifies:
  assumes pool: "cvBuildPoolV2 (replicate 32 1) 2 [toy_ref] toy_params = Some pool"
    and iv: "cvEligibilityCoinInvocationV2 ''s'' 1 = Some iv"
    and civ: "cvContributorCoinInvocationV2 (replicate 32 1) 2 (pl_Digest pool) = Some civ"
    and sel: "cvSelectionDigestV2 (toy_output civ) [0] 1 1 = Some sel"
    and wire: "cvAgreementObjectV2CanonicalBytes toy_bls (toy_object pool civ sel) toy_params [2] \<noteq> None"
  shows "cvVerifyAgreementObjectV2 toy_bls (toy_object pool civ sel) (toy_public iv)"
proof -
  have p: "pl_ContextDigest pool = replicate 32 1" "pl_ProposerID pool = 2" "pl_Components pool = [toy_ref]" "length (pl_Digest pool) = 32"
    using pool by (auto simp: cvBuildPoolV2_def run_simps Let_def hashBytes_def)
  have s: "length sel = 32" using sel by (auto simp: cvSelectionDigestV2_def run_simps hashBytes_def)
  have c: "civ \<noteq> []" "length civ \<le> cvMaxLeafWireBytes"
    using civ p(4) by (auto simp: cvContributorCoinInvocationV2_def run_simps cvMaxLeafWireBytes_def cvV2ContributorCoinTag_def cvWriteUint64_def)
  have params: "vp_poolSize toy_params = 1" "vp_componentCount toy_params = 1" "vp_validatorThreshold toy_params = 1"
    by (simp_all add: toy_params_def)
  have h: "ah_ContextDigest (toy_header (pl_Digest pool) sel) = replicate 32 1" "ah_ProposerID (toy_header (pl_Digest pool) sel) = 2"
    "ah_PoolDigest (toy_header (pl_Digest pool) sel) = pl_Digest pool" "ah_SelectionDigest (toy_header (pl_Digest pool) sel) = sel"
    "ah_APDBRoot (toy_header (pl_Digest pool) sel) = replicate 32 6" "length (ah_APDBInstance (toy_header (pl_Digest pool) sel)) = 32"
    using toy_instance_digest [OF p(4) s] by (auto simp: toy_header_def)
  have cert: "cvVerifyPoolCertificateV2 toy_bls pool \<lparr> pc_PoolDigest = pl_Digest pool, pc_Certificate = [2] \<rparr> (toy_role cvV2RoleControl)"
    using p by (simp add: cvVerifyPoolCertificateV2_def toy_role_has cvPoolCertificateStatementV2_def toy_role_recovered)
  have lock: "cvVerifyAPDBLockV2 toy_bls \<lparr> lk_InstanceDigest = ah_APDBInstance (toy_header (pl_Digest pool) sel),
      lk_Root = replicate 32 6, lk_Certificate = [2] \<rparr> (toy_role cvV2RoleAPDB)"
    using h(6) by (intro toy_lock_verifies) auto
  have vc: "cvVerifyValidationCertificateV2 toy_bls toy_certificate (toy_header (pl_Digest pool) sel) [2] 1 toy_keys"
    by (rule toy_certificate_verifies [OF p(4) s])
  have pub: "ap_ContextDigest (toy_public iv) = replicate 32 1" "ap_APDBSigner (toy_public iv) = toy_role cvV2RoleAPDB"
    "ap_ControlSigner (toy_public iv) = toy_role cvV2RoleControl" "ap_CoinSigner (toy_public iv) = Some (toy_role cvV2RoleCoin)"
    "ap_ValidatorKeys (toy_public iv) = Some toy_keys" "ap_Params (toy_public iv) = toy_params"
    by (simp_all add: toy_public_def)
  have ob: "ao_Header (toy_object pool civ sel) = toy_header (pl_Digest pool) sel" "ao_Pool (toy_object pool civ sel) = pool"
    "ao_PoolCert (toy_object pool civ sel) = \<lparr> pc_PoolDigest = pl_Digest pool, pc_Certificate = [2] \<rparr>"
    "ao_ContributorCoin (toy_object pool civ sel) = toy_output civ" "ao_SelectedIndices (toy_object pool civ sel) = [0]"
    "ao_VCert (toy_object pool civ sel) = toy_certificate"
    "ao_ARC (toy_object pool civ sel) = \<lparr> lk_InstanceDigest = ah_APDBInstance (toy_header (pl_Digest pool) sel),
      lk_Root = replicate 32 6, lk_Certificate = [2] \<rparr>"
    by (simp_all add: toy_object_def)
  show ?thesis
    using toy_eligibility [OF iv] wire c civ sel
    by (auto simp: cvVerifyAgreementObjectV2_def pub ob h p params toy_role_has cert lock vc toy_selected toy_ref_verifies
        toy_output_verifies)
qed

text \<open>The object fits the wire limit.\<close>

lemma written_length: "length (dropped (cvWriteBytes w)) \<le> length w + 4"
  by (cases "length w < 4294967296") (auto simp: cvWriteBytes_oversize dropped_def)

lemma toy_pool_length:
  assumes "cvBuildPoolV2 (replicate 32 1) 2 [toy_ref] toy_params = Some pool" "cvPoolV2CanonicalBytes pool toy_params = Some w"
  shows "length w \<le> 5000000"
proof -
  have p: "pl_Components pool = [toy_ref]" "length (pl_Digest pool) = 32" "pl_ContextDigest pool = replicate 32 1"
    using assms(1) by (auto simp: cvBuildPoolV2_def run_simps Let_def hashBytes_def)
  obtain rw where rw: "cvComponentRefV2CanonicalBytes toy_ref = Some rw" using toy_ref_wire by blast
  obtain u where u: "pool_unsigned (replicate 32 1) (pl_ProposerID pool) [toy_ref] = Some u"
    "w = dropped (cvWriteBytes u) @ dropped (cvWriteBytes (pl_Digest pool))"
    using assms(2) p by (auto simp: cvPoolV2CanonicalBytes_def run_simps)
  have "length u \<le> 4000000"
    using u(1) rw written_length [of rw] toy_ref_length [OF rw]
    by (auto simp: pool_unsigned_def run_simps cvWriteUint32_def cvWriteUint64_def cvPoolV2Domain_def dom_defs cvMaxComponentSignatureBytes_def)
  then show ?thesis using u(2) written_length [of u] written_length [of "pl_Digest pool"] p(2) by simp
qed

lemma toy_object_encodes:
  assumes pool: "cvBuildPoolV2 (replicate 32 1) 2 [toy_ref] toy_params = Some pool"
    and civ: "cvContributorCoinInvocationV2 (replicate 32 1) 2 (pl_Digest pool) = Some civ"
    and sel: "length sel = 32"
  shows "cvAgreementObjectV2CanonicalBytes toy_bls (toy_object pool civ sel) toy_params [2] \<noteq> None"
proof -
  obtain w where w: "cvPoolV2CanonicalBytes pool toy_params = Some w" using toy_pool_wf(2) [OF pool] by blast
  have p: "pl_Components pool = [toy_ref]" "length (pl_Digest pool) = 32" "pl_ContextDigest pool = replicate 32 1"
    using pool by (auto simp: cvBuildPoolV2_def run_simps Let_def hashBytes_def)
  have lw: "length w \<le> 5000000" by (rule toy_pool_length [OF pool w])
  obtain hw where hw: "cvAggregateHeaderV2CanonicalBytes (toy_header (pl_Digest pool) sel) = Some hw"
    using toy_header_wire [OF p(2) sel] by blast
  have lh: "length hw \<le> 1000"
    using hw by (auto simp: cvAggregateHeaderV2CanonicalBytes_def run_simps dom_defs cvWriteUint64_def)
  have lc: "length civ \<le> 1000" "civ \<noteq> []"
    using civ p(2) by (auto simp: cvContributorCoinInvocationV2_def run_simps cvV2ContributorCoinTag_def cvWriteUint64_def)
  obtain cw where cw: "cvCoinOutputV2CanonicalBytes (toy_output civ) = Some cw" "length cw \<le> 3000"
    using lc by (auto simp: cvCoinOutputV2CanonicalBytes_def toy_output_def coin_value_def hashBytes_def
      cvMaxComponentSignatureBytes_def cvMaxLeafWireBytes_def dom_defs)
  obtain vw where vw: "cvValidationCertificateV2CanonicalBytes toy_bls toy_certificate [2] = Some vw" using toy_certificate_wire by blast
  have lv: "length vw \<le> 1000" using vw by (auto simp: cvValidationCertificateV2CanonicalBytes_def run_simps toy_certificate_def dom_defs toy_codec split: prod.splits)
  let ?arc = "\<lparr> lk_InstanceDigest = ah_APDBInstance (toy_header (pl_Digest pool) sel), lk_Root = replicate 32 6, lk_Certificate = [2] \<rparr>"
  obtain aw where aw: "cvAPDBLockV2CanonicalBytes ?arc = Some aw" "length aw \<le> 1000"
    using toy_instance_digest [OF p(2) sel] by (auto simp: cvAPDBLockV2CanonicalBytes_def toy_header_def cvMaxComponentSignatureBytes_def dom_defs)
  obtain pw where pw: "cvPoolCertificateV2CanonicalBytes \<lparr> pc_PoolDigest = pl_Digest pool, pc_Certificate = [2] \<rparr> = Some pw" "length pw \<le> 1000"
    using p(2) by (auto simp: cvPoolCertificateV2CanonicalBytes_def cvMaxComponentSignatureBytes_def dom_defs)
  have "vp_componentCount toy_params = 1" "vp_poolSize toy_params = 1" by (simp_all add: toy_params_def)
  then show ?thesis
    using w hw cw vw aw pw lw lh lv written_length [of w] written_length [of hw] written_length [of cw] written_length [of vw]
      written_length [of aw] written_length [of pw]
    by (simp add: cvAgreementObjectV2CanonicalBytes_def toy_object_def selection_wire_def cvWriteUint64_def
        cvMaxAgreementObjectV2Bytes_def cvMaxNetworkPayloadBytes_def cvMaxLeafWireBytes_def cvAgreementObjectV2Domain_def cvWriteUint32_def Let_def)
qed


section \<open>Decisions and files\<close>

definition toy_arc :: cvAPDBLockV2 where
  "toy_arc = \<lparr> lk_InstanceDigest = ah_APDBInstance (toy_header (replicate 32 7) (replicate 32 7)), lk_Root = replicate 32 6,
     lk_Certificate = [2] \<rparr>"

lemma toy_decision: "\<exists>st. cvDecisionStatementV2 (replicate 32 1) (toy_header (replicate 32 7) (replicate 32 7)) toy_arc = Some st"
proof -
  obtain hw where hw: "cvAggregateHeaderV2CanonicalBytes (toy_header (replicate 32 7) (replicate 32 7)) = Some hw"
    using toy_header_wire [of "replicate 32 7" "replicate 32 7"] by auto
  obtain i where "cvAggregateInstanceDigestV2 (replicate 32 1) 2 (replicate 32 7) (replicate 32 7) = Some i" "length i = 32"
    using toy_instance_digest [of "replicate 32 7" "replicate 32 7"] by auto
  then show ?thesis using hw
    by (simp add: cvDecisionStatementV2_def cvHandoffDigestV2_def cvHandoffUnsignedV2CanonicalBytes_def cvAPDBLockV2CanonicalBytes_def
        toy_arc_def toy_header_def cvMaxComponentSignatureBytes_def)
qed

theorem decision_statement_binding_witness:
  "\<exists>c h st. h = toy_header (replicate 32 7) (replicate 32 7) \<and> cvDecisionStatementV2 c h toy_arc = Some st \<and>
    ((c = c \<and> h = h \<and> toy_arc = toy_arc) \<or> (\<exists>x y. x \<noteq> y \<and> sha256 x = sha256 y \<and>
    (\<exists>u1 u2 d1 d2. cvHandoffUnsignedV2CanonicalBytes c h toy_arc = Some u1 \<and>
      cvHandoffUnsignedV2CanonicalBytes c h toy_arc = Some u2 \<and>
      cvHandoffDigestV2 c h toy_arc = Some d1 \<and> cvHandoffDigestV2 c h toy_arc = Some d2 \<and>
      (x = str_bytes cvHandoffDigestV2Domain @ u1 \<and> y = str_bytes cvHandoffDigestV2Domain @ u2 \<or>
       x = str_bytes cvDecisionCertificateV2Domain @ c @ d1 \<and> y = str_bytes cvDecisionCertificateV2Domain @ c @ d2))))"
proof -
  obtain st where st: "cvDecisionStatementV2 (replicate 32 1) (toy_header (replicate 32 7) (replicate 32 7)) toy_arc = Some st"
    using toy_decision by blast
  have i: "int64 (ah_ProposerID (toy_header (replicate 32 7) (replicate 32 7)))" by (simp add: toy_header_def int64_def)
  show ?thesis by (intro exI conjI, rule refl, rule st, rule decision_statement_binding [OF st st i i])
qed

definition toy_env :: io_env where
  "toy_env = \<lparr> io_dirOk = True, io_tempOk = True, io_race = None, io_linkOk = True, io_syncOk = True \<rparr>"

theorem immutable_files_write_once_witness:
  "file_get (files.run Map.empty [(toy_env, ''p'', [1]), (toy_env, ''p'', [2])]) ''p'' = Some [1]"
  by (rule conjunct1 [OF immutable_files_write_once]) (simp add: file_put_def file_defs toy_env_def)

section \<open>Stores\<close>

text \<open>A committee of members 2 and 3 with threshold one; the key is 1.\<close>

definition duo :: "string \<Rightarrow> (gf5, gf5, gf5) tblsThresholdSigner" where
  "duo r = \<lparr> ts_t = 1, ts_n = 2, ts_v2Role = r, ts_pubKey = F1, ts_pubKeyShares = [F1, F1], ts_transportPubKeyShares = [F1, F1],
     ts_shares = [F1, F1], ts_memberOrder = [2, 3], ts_memberIndex = member_index [2, 3], ts_signingMembers = None \<rparr>"

lemma duo_index: "member_index [2, 3] = [3 \<mapsto> 1, 2 \<mapsto> 0]"
  by (auto simp: member_index_def)

lemma duo_roster: "sortedUnique [2, 3] = [2, 3]"
  by (simp add: sortedUnique_def sortedCopy_def)

lemma duo_dealt: "dealt toy_bls (duo r) [F1]"
  by (simp add: dealt_def duo_def toy_bls_def evalPolyInt_def gf5_ops upt_rec)

lemma duo_can_sign: "cvThresholdSignerCanSignV2 (duo r) 2"
  by (simp add: cvThresholdSignerCanSignV2_def duo_def duo_index zero_gf5_def)

lemma duo_sign: "SignShare toy_bls (duo r) 2 d m = Some [2]" "VerifyShare toy_bls (duo r) 2 d m [2]"
  "VerifyRecovered toy_bls (duo r) d m [2]"
  by (simp_all add: SignShare_def VerifyShare_def VerifyRecovered_def duo_def duo_index toy_bls_def pairing_ok_def gf_marshal_def
      gf_unmarshal_def gf5_ops)

lemma duo_role: "cvV2KnownThresholdRole r \<Longrightarrow> cvV2SignerHasRole (duo r) r"
  by (simp add: cvV2SignerHasRole_def duo_def)

lemma toy_key_parts: "length d = 32 \<Longrightarrow> \<exists>a b. cvStoreKeyParts ''s'' 1 2 d = Some (a, b)"
  by (simp add: cvStoreKeyParts_def go_TrimSpace_def is_space_def Let_def)

lemma toy_put: "path \<notin> dom fs \<Longrightarrow> snd (cvPutImmutableFile toy_env fs path data) = None"
  by (auto simp: file_defs toy_env_def split: option.splits)

definition toy_decision_call :: decision_call where
  "toy_decision_call = \<lparr> dc_sid = ''s'', dc_epoch = 1, dc_member = 2, dc_context = replicate 32 1,
     dc_header = toy_header (replicate 32 7) (replicate 32 7), dc_arc = toy_arc \<rparr>"

lemma toy_decision_run:
  "\<exists>fs. decision_run toy_bls \<lparr> ds_root = ''r'' \<rparr> (duo cvV2RoleControl) fs [toy_decision_call]"
proof -
  obtain st where st: "cvDecisionStatementV2 (replicate 32 1) (toy_header (replicate 32 7) (replicate 32 7)) toy_arc = Some st"
    using toy_decision by blast
  then obtain dg where dg: "cvHandoffDigestV2 (replicate 32 1) (toy_header (replicate 32 7) (replicate 32 7)) toy_arc = Some dg"
    "length dg = 32" "length st = 32"
    by (auto simp: cvDecisionStatementV2_def cvHandoffDigestV2_def run_simps hashBytes_def)
  obtain a b where "cvStoreKeyParts ''s'' 1 2 (hashBytes [str_bytes cvDecisionSignRecordV2Domain]) = Some (a, b)"
    using toy_key_parts [of "hashBytes [str_bytes cvDecisionSignRecordV2Domain]"] by (auto simp: hashBytes_def)
  then obtain path where path: "decision_path \<lparr> ds_root = ''r'' \<rparr> ''s'' 1 2 = Some path"
    by (simp add: decision_path_def max_int_def)
  obtain rec where rec: "cvDecisionSignRecordV2CanonicalBytes ''s'' 1 2 dg st = Some rec"
    using dg by (simp add: cvDecisionSignRecordV2CanonicalBytes_def)
  obtain fs' where fs': "cvPutImmutableFile toy_env Map.empty path rec = (fs', None)"
    using toy_put [of path Map.empty rec] by (cases "cvPutImmutableFile toy_env Map.empty path rec") auto
  have "SignHandoffOnce toy_bls \<lparr> ds_root = ''r'' \<rparr> toy_env Map.empty ''s'' 1 2 (replicate 32 1)
      (toy_header (replicate 32 7) (replicate 32 7)) toy_arc (duo cvV2RoleControl) = (fs', Some [2])"
    using st dg(1) rec path fs' by (simp add: SignHandoffOnce_def duo_role duo_can_sign duo_sign)
  then have "decision_run toy_bls \<lparr> ds_root = ''r'' \<rparr> (duo cvV2RoleControl) fs' ([] @ [toy_decision_call])"
    by (intro decision_run.released [OF decision_run.start]) (simp add: toy_decision_call_def)
  then show ?thesis by auto
qed

theorem one_decision_per_epoch_witness:
  "\<exists>fs. decision_run toy_bls \<lparr> ds_root = ''r'' \<rparr> (duo cvV2RoleControl) fs [toy_decision_call] \<and>
    (cvDecisionStatementV2 (dc_context toy_decision_call) (dc_header toy_decision_call) (dc_arc toy_decision_call) =
      cvDecisionStatementV2 (dc_context toy_decision_call) (dc_header toy_decision_call) (dc_arc toy_decision_call) \<and>
     cvDecisionStatementV2 (dc_context toy_decision_call) (dc_header toy_decision_call) (dc_arc toy_decision_call) \<noteq> None)"
proof -
  obtain fs where fs: "decision_run toy_bls \<lparr> ds_root = ''r'' \<rparr> (duo cvV2RoleControl) fs [toy_decision_call]"
    using toy_decision_run by blast
  show ?thesis by (intro exI conjI, rule fs) (use one_decision_per_epoch [OF fs] in auto)
qed

text \<open>The encoding of the payload 7 for the two members, each holding a copy.\<close>

definition duo_enc :: cvAPDBEncodedV2 where
  "duo_enc = the (cvAPDBEncodeSizedV2 rep_code (replicate 32 0) [7] 1 2 9 10)"

lemma duo_encoded: "cvAPDBEncodeSizedV2 rep_code (replicate 32 0) [7] 1 2 9 10 = Some duo_enc"
  and duo_enc_fields: "en_instanceDigest duo_enc = replicate 32 0" "en_dataShards duo_enc = 1" "en_totalShards duo_enc = 2"
    "en_shardBytes duo_enc = 9" "length (en_stores duo_enc) = 2" "length (en_root duo_enc) = 32"
  and duo_store: "i < 2 \<Longrightarrow> st_InstanceDigest (en_stores duo_enc ! i) = replicate 32 0"
    "i < 2 \<Longrightarrow> st_Root (en_stores duo_enc ! i) = en_root duo_enc" "i < 2 \<Longrightarrow> st_Index (en_stores duo_enc ! i) = int i"
    "i < 2 \<Longrightarrow> cvVerifyAPDBStoreV2 (en_stores duo_enc ! i) 2 9"
proof -
  have "encode_args_ok (replicate 32 0) [7] 1 2 9 10" by (simp add: encode_args_ok_def)
  then obtain E where E: "cvAPDBEncodeSizedV2 rep_code (replicate 32 0) [7] 1 2 9 10 = Some (apdb_of (replicate 32 0) 1 2 E)"
    "length E = nat 2" "\<forall>s \<in> set E. length s = nat 9" using encode_sized_Some [OF rep_code_ok] by metis
  then have d: "duo_enc = apdb_of (replicate 32 0) 1 2 E" by (simp add: duo_enc_def)
  show "cvAPDBEncodeSizedV2 rep_code (replicate 32 0) [7] 1 2 9 10 = Some duo_enc" using E(1) d by simp
  show "en_instanceDigest duo_enc = replicate 32 0" "en_dataShards duo_enc = 1" "en_totalShards duo_enc = 2"
    "en_shardBytes duo_enc = 9" "length (en_stores duo_enc) = 2" using E(2,3) by (simp_all add: d)
  show v: "cvVerifyAPDBStoreV2 (en_stores duo_enc ! i) 2 9" if "i < 2" for i
    unfolding d by (rule apdb_of_verifies) (use E that in auto)
  show st: "st_InstanceDigest (en_stores duo_enc ! i) = replicate 32 0" "st_Root (en_stores duo_enc ! i) = en_root duo_enc"
    "st_Index (en_stores duo_enc ! i) = int i" if "i < 2" for i
    using that E(2) by (simp_all add: d apdb_of_store)
  show "length (en_root duo_enc) = 32" using v [of 0] st(2) [of 0] by (simp add: cvVerifyAPDBStoreV2_def)
qed

lemma duo_depth: "merkle_depth 2 = 1"
  by (simp add: merkle_depth.simps [of 2] merkle_depth.simps [of 1])

lemma duo_store_wire: "i < 2 \<Longrightarrow> \<exists>w. cvAPDBStoreV2CanonicalBytes (en_stores duo_enc ! i) 2 9 = Some w"
  using duo_store(3,4) [of i] by (auto simp: cvAPDBStoreV2CanonicalBytes_def cvWriteUint32_def cvVerifyAPDBStoreV2_def cvAPDBMerkleDepth_def duo_depth)

definition toy_holder_call :: holder_call where
  "toy_holder_call = \<lparr> hc_sid = ''s'', hc_epoch = 1, hc_holder = 2, hc_roster = [2, 3], hc_store = en_stores duo_enc ! 0,
     hc_total = 2, hc_shardBytes = 9 \<rparr>"

lemma toy_store_and_sign:
  "\<exists>fs'. StoreAndSignOnce toy_bls \<lparr> hs_root = ''r'' \<rparr> toy_env Map.empty ''s'' 1 2 [2, 3] (en_stores duo_enc ! 0) 2 9
    (duo cvV2RoleAPDB) = (fs', Some [2])"
proof -
  obtain w where w: "cvAPDBStoreV2CanonicalBytes (en_stores duo_enc ! 0) 2 9 = Some w" using duo_store_wire [of 0] by auto
  obtain a b where "cvStoreKeyParts ''s'' 1 2 (replicate 32 0) = Some (a, b)" using toy_key_parts [of "replicate 32 0"] by auto
  then obtain path where path: "holder_path \<lparr> hs_root = ''r'' \<rparr> ''s'' 1 2 (replicate 32 0) = Some path"
    by (simp add: holder_path_def max_int_def)
  obtain st where st: "cvAPDBStoredStatementV2 (replicate 32 0) (en_root duo_enc) = Some st"
    using duo_enc_fields(6) by (simp add: cvAPDBStoredStatementV2_def)
  obtain fs' where fs': "cvPutImmutableFile toy_env Map.empty path w = (fs', None)"
    using toy_put [of path Map.empty w] by (cases "cvPutImmutableFile toy_env Map.empty path w") auto
  have order: "ts_memberOrder (duo cvV2RoleAPDB) = [2, 3]" by (simp add: duo_def)
  show ?thesis using w path st fs' duo_store(1-3) [of 0]
    by (simp add: StoreAndSignOnce_def duo_role duo_can_sign duo_sign duo_roster order)
qed

lemma toy_holder_run:
  "\<exists>fs. holder_run toy_bls \<lparr> hs_root = ''r'' \<rparr> (duo cvV2RoleAPDB) fs [toy_holder_call]"
proof -
  obtain fs' where "StoreAndSignOnce toy_bls \<lparr> hs_root = ''r'' \<rparr> toy_env Map.empty ''s'' 1 2 [2, 3] (en_stores duo_enc ! 0) 2 9
    (duo cvV2RoleAPDB) = (fs', Some [2])" using toy_store_and_sign by blast
  then have "holder_run toy_bls \<lparr> hs_root = ''r'' \<rparr> (duo cvV2RoleAPDB) fs' ([] @ (case Some [2 :: byte] of None \<Rightarrow> [] | Some _ \<Rightarrow> [toy_holder_call]))"
    by (intro holder_run.call [OF holder_run.start]) (simp add: toy_holder_call_def)
  then show ?thesis by auto
qed

theorem one_root_per_instance_witness:
  "\<exists>fs. holder_run toy_bls \<lparr> hs_root = ''r'' \<rparr> (duo cvV2RoleAPDB) fs [toy_holder_call] \<and> hc_store toy_holder_call = hc_store toy_holder_call"
proof -
  obtain fs where fs: "holder_run toy_bls \<lparr> hs_root = ''r'' \<rparr> (duo cvV2RoleAPDB) fs [toy_holder_call]"
    using toy_holder_run by blast
  have "hc_store toy_holder_call = hc_store toy_holder_call"
    by (rule one_root_per_instance [OF fs]) (simp_all add: toy_holder_call_def)
  with fs show ?thesis by (intro exI conjI)
qed

theorem signed_store_stays_readable_witness:
  "\<exists>fs. read_holder \<lparr> hs_root = ''r'' \<rparr> fs (hc_sid toy_holder_call) (hc_epoch toy_holder_call) (hc_holder toy_holder_call)
     (st_InstanceDigest (hc_store toy_holder_call)) (st_Root (hc_store toy_holder_call)) (hc_total toy_holder_call)
     (hc_shardBytes toy_holder_call) = Some (hc_store toy_holder_call)"
proof -
  obtain fs where fs: "holder_run toy_bls \<lparr> hs_root = ''r'' \<rparr> (duo cvV2RoleAPDB) fs [toy_holder_call]"
    using toy_holder_run by blast
  show ?thesis by (rule exI, rule signed_store_stays_readable [OF fs]) (simp_all add: toy_holder_call_def)
qed

section \<open>Collectors\<close>

definition duo_collector :: "(gf5, gf5, gf5) cvAPDBLockCollectorV2" where
  "duo_collector = the (newCVAPDBLockCollectorV2 duo_enc [2, 3] (duo cvV2RoleAPDB))"

lemma duo_new: "newCVAPDBLockCollectorV2 duo_enc [2, 3] (duo cvV2RoleAPDB) = Some duo_collector"
proof -
  have "ts_memberOrder (duo cvV2RoleAPDB) = [2, 3]" "ts_t (duo cvV2RoleAPDB) = 1" by (simp_all add: duo_def)
  then have "newCVAPDBLockCollectorV2 duo_enc [2, 3] (duo cvV2RoleAPDB) \<noteq> None"
    using duo_enc_fields duo_store [of 0] duo_store [of 1]
    by (simp add: newCVAPDBLockCollectorV2_def collector_member_ok_def duo_role duo_roster cvAPDBStoredStatementV2_def upt_rec)
  then show ?thesis by (simp add: duo_collector_def)
qed

lemma toy_marshal_fits: "marshal_fits toy_bls"
  by (simp add: marshal_fits_def toy_bls_def gf_marshal_def cvMaxComponentSignatureBytes_def)

lemma duo_inj: "inj_on (of_int :: int \<Rightarrow> gf5) {1..int (length [2 :: int, 3])}"
  by (rule inj_on_subset [OF inj_gf5]) auto

lemma duo_share:
  obtains wire c where "AddStoredShare toy_bls (feed_all (AddStoredShare toy_bls) duo_collector []) 2 wire = (c, Some True)"
proof -
  let ?r = "\<lparr> sh_InstanceDigest = replicate 32 0, sh_Root = en_root duo_enc, sh_Share = [2 :: byte] \<rparr>"
  obtain wire where wire: "cvAPDBStoredShareV2CanonicalBytes ?r = Some wire"
    using duo_enc_fields(6) by (simp add: cvAPDBStoredShareV2CanonicalBytes_def cvMaxComponentSignatureBytes_def)
  have dec: "cvDecodeAPDBStoredShareV2 wire = Some ?r"
    using wire duo_enc_fields(6)
    by (auto simp: cvDecodeAPDBStoredShareV2_def cvAPDBStoredShareV2CanonicalBytes_def run_simps wire_simps
        cvMaxComponentSignatureBytes_def cvAPDBStoredShareWireDomainV2_def)
  have "lc_memberIndex duo_collector = member_index [2, 3]" "lc_encoded duo_collector = duo_enc"
    "lc_signer duo_collector = duo cvV2RoleAPDB" "lc_shares duo_collector = []" "lc_shareWires duo_collector = []"
    "ts_t (duo cvV2RoleAPDB) = 1"
    using new_lock_fields [OF duo_new] by (simp_all add: duo_def)
  then have "snd (AddStoredShare toy_bls duo_collector 2 wire) = Some True"
    using dec duo_enc_fields(1) by (simp add: AddStoredShare_def checked_share_def duo_index duo_sign)
  then show thesis by (intro that [of wire "fst (AddStoredShare toy_bls duo_collector 2 wire)"]) (simp add: prod_eq_iff)
qed

theorem stored_shares_make_lock_witness:
  "\<exists>c lock. RecoverLock toy_bls c = Some lock \<and> lk_InstanceDigest lock = en_instanceDigest duo_enc \<and>
     lk_Root lock = en_root duo_enc \<and> cvVerifyAPDBLockV2 toy_bls lock (duo cvV2RoleAPDB)"
  by (rule duo_share, rule exI, rule stored_shares_make_lock [OF toy_bls_laws toy_marshal_fits duo_dealt duo_inj duo_new])

definition duo_lock :: cvAPDBLockV2 where
  "duo_lock = \<lparr> lk_InstanceDigest = replicate 32 0, lk_Root = en_root duo_enc, lk_Certificate = [2] \<rparr>"

lemma duo_lock_verifies: "cvVerifyAPDBLockV2 toy_bls duo_lock (duo cvV2RoleAPDB)"
  using duo_enc_fields(6)
  by (simp add: cvVerifyAPDBLockV2_def duo_lock_def cvMaxComponentSignatureBytes_def duo_role cvAPDBStoredStatementV2_def duo_sign)

lemma duo_recovery:
  obtains c0 where "newCVAPDBRecoveryCollectorV2 toy_bls duo_lock [2, 3] 1 9 10 (duo cvV2RoleAPDB) None = Some c0"
    "rc_memberIndex c0 = [3 \<mapsto> 1, 2 \<mapsto> 0]" "rc_totalShards c0 = 2" "rc_shardBytes c0 = 9" "rc_dataShards c0 = 1" "rc_lock c0 = duo_lock"
    "rc_stores c0 = []" "rc_storeWires c0 = []"
  using duo_lock_verifies by (simp add: newCVAPDBRecoveryCollectorV2_def duo_roster duo_role duo_index) (simp add: duo_def)

lemma duo_reply:
  assumes "rc_memberIndex c0 = [3 \<mapsto> 1, 2 \<mapsto> 0]" "rc_totalShards c0 = 2" "rc_shardBytes c0 = 9" "rc_dataShards c0 = 1"
    "rc_lock c0 = duo_lock" "rc_stores c0 = []" "rc_storeWires c0 = []"
  obtains wire c where "AddStore c0 3 wire = (c, Some True)"
proof -
  obtain w where w: "cvAPDBStoreV2CanonicalBytes (en_stores duo_enc ! 1) 2 9 = Some w" using duo_store_wire [of 1] by auto
  have "cvDecodeAPDBStoreV2 w 2 9 = Some (en_stores duo_enc ! 1)" by (rule store_codec.decode_encode [OF _ w]) simp
  then have "checked_store c0 3 w = Some (1, en_stores duo_enc ! 1)"
    using assms duo_store [of 1] by (simp add: checked_store_def duo_lock_def)
  then have "snd (AddStore c0 3 w) = Some True" using assms by (simp add: AddStore_def)
  then show thesis by (intro that [of w "fst (AddStore c0 3 w)"]) (simp add: prod_eq_iff)
qed

theorem byzantine_recovery_witness:
  "\<exists>c. recovery_Recover rep_code c = Some [7] \<or>
    (\<exists>x \<in> set (collector_messages rep_code c). \<exists>y \<in> set (payload_messages rep_code (lk_InstanceDigest duo_lock) [7] 1
       (int (length [2 :: int, 3])) 9 10). x \<noteq> y \<and> sha256 x = sha256 y)"
proof -
  obtain c0 where c0: "newCVAPDBRecoveryCollectorV2 toy_bls duo_lock [2, 3] 1 9 10 (duo cvV2RoleAPDB) None = Some c0"
    and f: "rc_memberIndex c0 = [3 \<mapsto> 1, 2 \<mapsto> 0]" "rc_totalShards c0 = 2" "rc_shardBytes c0 = 9" "rc_dataShards c0 = 1"
      "rc_lock c0 = duo_lock" "rc_stores c0 = []" "rc_storeWires c0 = []" by (rule duo_recovery)
  obtain wire c where add: "AddStore c0 3 wire = (c, Some True)" by (rule duo_reply [OF f])
  have junk: "recovery_feed rep_code True c0 [PayloadReply 9 []] = c0"
    by (simp add: recovery_feed_def AddPayload_def checked_payload_def cvDecodeAPDBPayloadResponseV2_def cvReadBytes_def
        cvReadUint32_def)
  show ?thesis
    by (rule exI, rule byzantine_recovery [OF _ _ _ _ c0, where hintsEnabled = True and replies = "[PayloadReply 9 []]" and reply = "StoreReply 3 wire" and enc = duo_enc and c = c])
       (use rep_code_ok duo_encoded add junk in \<open>auto simp: int64_def duo_lock_def\<close>)
qed

end
