(* ===== verification/Network_Witnesses.thy ===== *)
theory Network_Witnesses
  imports Router Protocol_Witnesses
begin

text \<open>
  Concrete instances of the network results: a session of one member with the small group of the other witnesses
  and an Ed25519 record of one constant signature, on which the authenticator, the frames and the router are run.
\<close>

definition toy_ed :: ed25519 where
  "toy_ed = \<lparr> ed_Sign = (\<lambda>_ _. replicate 64 0), ed_Verify = (\<lambda>_ _ s. s = replicate 64 0) \<rparr>"

lemma toy_ed_laws: "ed25519_laws toy_ed"
  by (simp add: ed25519_laws_def toy_ed_def)

definition toy_receivers :: "(gf5, gf5) cvReceiverKeyMaterialV2" where
  "toy_receivers = \<lparr> rk_receiverOrder = [7], rk_receiverIndex = [7 \<mapsto> 0], rk_encryptionPublicKeys = [F1],
     rk_identityPublicKeys = [replicate 32 1], rk_localEncryptionSecrets = Map.empty, rk_localIdentitySecrets = [7 \<mapsto> replicate 64 1],
     rk_registryDigest = [], rk_sid = ''s'', rk_epoch = 1 \<rparr>"

definition toy_auth :: "(gf5, gf5) cvNetworkAuthenticatorV2" where
  "toy_auth = \<lparr> na_sid = ''s'', na_epoch = 1, na_oldPublicKeys = [2 \<mapsto> F1], na_oldLocalSecrets = [2 \<mapsto> F1],
     na_receiverPublicKeys = [7 \<mapsto> replicate 32 1], na_receiverLocalSecrets = [7 \<mapsto> replicate 64 1], na_sealed = [], na_opened = {} \<rparr>"

lemma toy_auth_new: "newCVNetworkAuthenticatorV2 toy_bls toy_keys toy_receivers = Some toy_auth"
  by (simp add: newCVNetworkAuthenticatorV2_def toy_keys_def toy_receivers_def toy_auth_def toy_bls_def gf5_ops cvValidG2_def)

lemma toy_keys_match: "keys_match toy_bls toy_auth toy_auth"
  by (auto simp: keys_match_def toy_auth_def toy_bls_def gf5_ops split: if_splits)

definition toy_router :: "(gf5, gf5) cvSAPVSSRouter" where
  "toy_router = \<lparr> rt_sid = ''s'', rt_epoch = 1, rt_oldNodes = {2}, rt_newNodes = {7}, rt_auth = Some toy_auth,
     rt_queues = (\<lambda>node. if node \<in> {2} then Some [] else None), rt_capacity = 1,
     rt_running = {2}, rt_errors = [], rt_cancelled = False \<rparr>"

lemma toy_router_new:
  "newCVSAPVSSRouterWithReceivers (\<lambda>_. True) ''s'' 1 [2] [7] [2] 1 [toy_auth] = Some toy_router"
  by (simp add: newCVSAPVSSRouterWithReceivers_def toy_router_def frame_sizes)

definition coin_tag :: string where
  "coin_tag = ''CV_V2_COIN_SHARE''"

lemma coin_tag_allowed: "cvAllowedNetworkTag coin_tag" "\<not> cvV2ReceiverOriginatedTag coin_tag" "coin_tag \<noteq> []" "length coin_tag \<le> 4096"
  by (simp_all add: coin_tag_def cvAllowedNetworkTag_def committee_tags_def cvV2ReceiverOriginatedTag_def
    apvssTagLaneACK_def cvTagLaneACKV2_def cvTagAggregateRecoverGetV2_def cvTagAggregateShareV2_def)

definition toy_envelope :: bytes where
  "toy_envelope = the (cvEncodeNetworkEnvelope ''s'' 1 [9])"

lemma toy_envelope: "cvEncodeNetworkEnvelope ''s'' 1 [9] = Some toy_envelope" "toy_envelope \<noteq> []" "length toy_envelope = 19"
  by (simp_all add: toy_envelope_def cvEncodeNetworkEnvelope_def frame_sizes)

definition toy_wire :: bytes where
  "toy_wire = the (snd (seal toy_bls toy_ed toy_auth 2 2 coin_tag toy_envelope))"

lemma toy_seal: "\<exists>a'. seal toy_bls toy_ed toy_auth 2 2 coin_tag toy_envelope = (a', Some toy_wire)" "length toy_wire \<le> 90"
proof -
  have "cvNetworkAuthDigestV2 ''s'' 1 2 2 coin_tag toy_envelope \<noteq> None"
    using coin_tag_allowed toy_envelope by (simp add: cvNetworkAuthDigestV2_def tcpMessageMaxTagBytes_def)
  then obtain d where d: "cvNetworkAuthDigestV2 ''s'' 1 2 2 coin_tag toy_envelope = Some d" by blast
  have len: "length d = 32" using d by (auto simp: cvNetworkAuthDigestV2_def run_simps hashBytes_def)
  have "make_signature toy_bls toy_ed toy_auth 2 coin_tag d = Some (cvNetworkAuthV2OldAlgorithm, gf_bytes F2)"
    using len coin_tag_allowed(2)
    by (simp add: make_signature_def toy_auth_def cvSignValidatorV2_def toy_bls_def gf5_ops cvNetworkAuthV2OldBLSDomain_def)
  then show "\<exists>a'. seal toy_bls toy_ed toy_auth 2 2 coin_tag toy_envelope = (a', Some toy_wire)" "length toy_wire \<le> 90"
    using d by (simp_all add: toy_wire_def seal_def toy_auth_def Let_def toy_envelope gf_bytes_def)
qed

lemma toy_opens: "snd (auth_open toy_bls toy_ed toy_auth 2 2 coin_tag toy_wire) = Some toy_envelope"
proof -
  obtain a' where s: "seal toy_bls toy_ed (seal_run toy_bls toy_ed toy_auth []) 2 2 coin_tag toy_envelope = (a', Some toy_wire)"
    using toy_seal(1) by (auto simp: seal_run_def)
  have "na_sealed toy_auth = []" by (simp add: toy_auth_def)
  from sealed_messages_open [OF toy_bls_laws toy_ed_laws toy_keys_match this s] show ?thesis
    by (simp add: int64_def toy_envelope)
qed

definition toy_message :: Message where
  "toy_message = \<lparr> m_From = 2, m_To = 2, m_Tag = coin_tag, m_Body = toy_wire, m_WireBytes = 0 \<rparr>"

definition toy_routed :: Message where
  "toy_routed = \<lparr> m_From = 2, m_To = 2, m_Tag = coin_tag, m_Body = [9],
     m_WireBytes = 17 + int (length coin_tag) + int (length toy_wire) \<rparr>"

lemma toy_committees: "committees_ok toy_router toy_message"
  by (simp add: committees_ok_def toy_router_def toy_message_def coin_tag_def apvssTagLaneOffer_def cvTagLaneOfferV2_def
    cvTagAggregateRecoverStoreV2_def cvTagHandoffV2_def apvssTagLaneACK_def cvTagLaneACKV2_def cvTagAggregateRecoverGetV2_def
    cvTagAggregateShareV2_def)

lemma toy_run:
  "\<exists>r. router_run toy_bls toy_ed toy_router [Arrive 2 toy_message, Consume 2] = (r, [Queued 2 toy_routed, Taken 2 toy_routed])"
proof -
  obtain a' where o: "auth_open toy_bls toy_ed toy_auth 2 2 coin_tag toy_wire = (a', Some toy_envelope)"
    using toy_opens by (metis prod.collapse)
  have dec: "cvDecodeNetworkEnvelope toy_envelope ''s'' 1 = Some [9]" by (rule envelope_codec.decode_encode [OF TrueI toy_envelope(1)])
  have "route toy_bls toy_ed toy_router 2 toy_message = (toy_router\<lparr> rt_auth := Some a' \<rparr>, Some toy_routed)"
    using toy_committees o dec coin_tag_allowed(1)
    by (simp add: route_def open_body_def) (simp add: toy_message_def toy_routed_def toy_router_def tcpMessageFrameFixedBytes_def)
  then show ?thesis by (simp add: enqueue_def) (simp add: toy_router_def)
qed

theorem router_delivers_in_order_witness:
  "taken 2 (snd (router_run toy_bls toy_ed toy_router [Arrive 2 toy_message, Consume 2])) @
     queue_of (fst (router_run toy_bls toy_ed toy_router [Arrive 2 toy_message, Consume 2])) 2 = [toy_routed]"
  using router_delivers_in_order [OF toy_router_new prod.collapse [symmetric], of 2 toy_bls toy_ed "[Arrive 2 toy_message, Consume 2]"] toy_run
  by auto

theorem routed_messages_authentic_witness:
  "\<exists>msg. Arrive 2 msg \<in> set [Arrive 2 toy_message, Consume 2] \<and>
     delivered_ok toy_bls toy_ed toy_auth toy_router (arrivals [Arrive 2 toy_message, Consume 2]) 2 msg toy_routed"
proof -
  obtain r where run: "router_run toy_bls toy_ed toy_router [Arrive 2 toy_message, Consume 2] = (r, [Queued 2 toy_routed, Taken 2 toy_routed])"
    using toy_run by blast
  have "\<forall>m \<in> arrivals [Arrive 2 toy_message, Consume 2]. int64 (m_From m)" by (auto simp: arrivals_def toy_message_def int64_def)
  from routed_messages_authentic [OF toy_auth_new toy_router_new run this, of 2 toy_routed] show ?thesis by simp
qed

theorem honest_message_delivered_witness:
  "\<exists>m. snd (router_step toy_bls toy_ed toy_router (Arrive 2 toy_message)) = Queued 2 m \<and> m_From m = 2 \<and> m_Body m = [9]"
proof -
  obtain a' where s: "seal toy_bls toy_ed (seal_run toy_bls toy_ed toy_auth []) 2 2 coin_tag toy_envelope = (a', Some toy_wire)"
    using toy_seal(1) by (auto simp: seal_run_def)
  have auth: "rt_auth toy_router = Some toy_auth" "na_sealed toy_auth = []" by (simp_all add: toy_router_def toy_auth_def)
  have env: "cvEncodeNetworkEnvelope (rt_sid toy_router) (rt_epoch toy_router) [9] = Some toy_envelope"
    using toy_envelope(1) by (simp add: toy_router_def)
  have "tcpMessageFrame toy_message \<noteq> None"
    using coin_tag_allowed(3,4) toy_seal(2) by (simp add: tcpMessageFrame_def toy_message_def max_frame_body_def frame_sizes)
  then obtain frame where frame: "tcpMessageFrame toy_message = Some frame" by blast
  have room: "2 \<in> rt_running toy_router" "\<not> rt_cancelled toy_router" "rt_queues toy_router 2 = Some []" "int (length []) < rt_capacity toy_router"
    by (simp_all add: toy_router_def)
  have "\<forall>(s, t, g, e) \<in> set ([] :: (int \<times> int \<times> string \<times> bytes) list). int64 s \<and> int64 t \<and> length e < 4294967296" by simp
  from honest_message_delivered [OF toy_bls_laws toy_ed_laws auth(1) toy_keys_match auth(2) env s this toy_message_def frame
      coin_tag_allowed(1) toy_committees room, of "[]"]
  have "\<exists>m. snd (router_step toy_bls toy_ed toy_router (Arrive 2 toy_message)) = Queued 2 m \<and> m_From m = 2 \<and> m_Tag m = coin_tag \<and>
      m_Body m = [9] \<and> m_WireBytes m = int (length frame)" by (simp del: router_step.simps)
  then show ?thesis by blast
qed

end
