(* ===== verification/Mvba_Witnesses.thy ===== *)
theory Mvba_Witnesses
  imports Mvba Network_Witnesses
begin

text \<open>
  Closed instances of the properties of the agreement protocol: a session of two honest nodes with no fault, keys in
  the five-element instance, in which node 0 disperses the value \<open>7\<close>.
\<close>

section \<open>Two nodes\<close>

definition pair_high :: "(gf5, gf5, gf5) tblsThresholdSigner" where
  "pair_high = \<lparr> ts_t = 2, ts_n = 2, ts_v2Role = '''', ts_pubKey = F1, ts_pubKeyShares = [F2, F3], ts_transportPubKeyShares = [F2, F3],
     ts_shares = [F2, F3], ts_memberOrder = [0, 1], ts_memberIndex = member_index [0, 1], ts_signingMembers = None \<rparr>"

definition pair_low :: "(gf5, gf5, gf5) tblsThresholdSigner" where
  "pair_low = \<lparr> ts_t = 1, ts_n = 2, ts_v2Role = '''', ts_pubKey = F1, ts_pubKeyShares = [F1, F1], ts_transportPubKeyShares = [F1, F1],
     ts_shares = [F1, F1], ts_memberOrder = [0, 1], ts_memberIndex = member_index [0, 1], ts_signingMembers = None \<rparr>"

definition pair_node :: "string \<Rightarrow> (bytes \<Rightarrow> bool) option \<Rightarrow> int \<Rightarrow> (gf5, gf5, gf5) DumboMVBA" where
  "pair_node sid valid i = \<lparr> dm_cfg = \<lparr> c_SID = sid, c_ID = i, c_N = 2, c_F = 0, c_MaxRounds = 1, c_UseEquivalentPath = True,
       c_EquivalentCoinMode = ''signature'', c_ValidatePayload = valid \<rparr>,
     dm_signer = \<lparr> ms_member = i, ms_high = Some pair_high, ms_low = Some pair_low \<rparr> \<rparr>"

lemma pair_cfg [simp]: "dm_N (pair_node sid valid i) = 2" "dm_F (pair_node sid valid i) = 0" "dm_ID (pair_node sid valid i) = i"
  "c_SID (dm_cfg (pair_node sid valid i)) = sid" "c_EquivalentCoinMode (dm_cfg (pair_node sid valid i)) = ''signature''"
  "c_ValidatePayload (dm_cfg (pair_node sid valid i)) = valid" "ms_low (dm_signer (pair_node sid valid i)) = Some pair_low" "rc_k (pair_node sid valid i) = 2"
  by (simp_all add: pair_node_def rc_k_def)

lemma pair_index: "member_index [0, 1] = [1 \<mapsto> 1, 0 \<mapsto> 0]"
  by (auto simp: member_index_def)

lemma pair_domain:
  "signerForDomain (dm_signer (pair_node sid valid i)) ''PD_STORED'' = Some pair_high" "signerForDomain (dm_signer (pair_node sid valid i)) ''PD_LOCKED'' = Some pair_high"
  "signerForDomain (dm_signer (pair_node sid valid i)) ''ACS_DIFFUSE'' = Some pair_high"
  "signerForDomain (dm_signer (pair_node sid valid i)) ''PD_QUIT_READY'' = Some pair_low" "signerForDomain (dm_signer (pair_node sid valid i)) ''EQ_COIN_SHARE'' = Some pair_low"
  by (simp_all add: signerForDomain_def toUpper_def pair_node_def Let_def)

lemma pair_sign [simp]:
  "mvbaSign toy_bls (dm_signer (pair_node sid valid 0)) ''PD_STORED'' d = Some [4]" "mvbaSign toy_bls (dm_signer (pair_node sid valid 1)) ''PD_STORED'' d = Some [1]"
  "mvbaSign toy_bls (dm_signer (pair_node sid valid 0)) ''PD_LOCKED'' d = Some [4]" "mvbaSign toy_bls (dm_signer (pair_node sid valid 1)) ''PD_LOCKED'' d = Some [1]"
  "i = 0 \<or> i = 1 \<Longrightarrow> mvbaSign toy_bls (dm_signer (pair_node sid valid i)) ''PD_QUIT_READY'' d = Some [2]"
  "i = 0 \<or> i = 1 \<Longrightarrow> mvbaSign toy_bls (dm_signer (pair_node sid valid i)) ''EQ_COIN_SHARE'' d = Some [2]"
  by (auto simp: mvbaSign_def pair_domain) (auto simp: SignShare_def pair_high_def pair_low_def pair_node_def pair_index toy_bls_def gf_marshal_def gf5_ops)

lemma pair_recovered:
  "VerifyRecovered toy_bls pair_high dm d [2]" "VerifyRecovered toy_bls pair_low dm d [2]" "VerifyShare toy_bls pair_low 1 dm d [2]"
  "VerifyShare toy_bls pair_low 0 dm d [2]"
  by (simp_all add: VerifyRecovered_def VerifyShare_def pair_high_def pair_low_def pairing_ok_def toy_bls_def gf_unmarshal_def gf5_ops pair_index)

lemma pair_verifies [simp]:
  "verifyThresholdCertificate toy_bls (dm_signer (pair_node sid valid i)) ''PD_STORED'' d [2] 2"
  "verifyThresholdCertificate toy_bls (dm_signer (pair_node sid valid i)) ''PD_LOCKED'' d [2] 2"
  "verifyThresholdCertificate toy_bls (dm_signer (pair_node sid valid i)) ''PD_QUIT_READY'' d [2] 1"
  "j = 0 \<or> j = 1 \<Longrightarrow> mvbaVerify toy_bls (dm_signer (pair_node sid valid i)) j ''PD_QUIT_READY'' d [2]"
  using pair_recovered
  by (auto simp: verifyThresholdCertificate_def mvbaThreshold_def mvbaVerifyRecovered_def mvbaVerify_def pair_domain) (simp_all add: pair_high_def pair_low_def)

lemma pair_dealt: "dealt toy_bls pair_low [F1]"
  by (simp add: dealt_def pair_low_def toy_bls_def evalPolyInt_def gf5_ops upt_rec)

lemma pair_recover: "i = 0 \<or> i = 1 \<Longrightarrow> Recover toy_bls pair_low dm d [(i, [2])] = Some [2]"
  by (auto simp: Recover_def pair_low_def recover_coeff_def toy_bls_def gf_unmarshal_def gf_marshal_def gf5_ops Let_def)

lemma pair_coin:
  assumes "i = 0 \<or> i = 1"
  shows "\<exists>sends v. makeSharedCoin toy_bls (pair_node sid valid i) coinSID tag r recv nonce = ([(i, [2])], sends, Returned v, recv)"
proof -
  have "mvbaThreshold (dm_signer (pair_node sid valid i)) ''EQ_COIN_SHARE'' = 1" by (simp add: mvbaThreshold_def pair_domain) (simp add: pair_low_def)
  moreover have "mvbaRecover toy_bls (dm_signer (pair_node sid valid i)) ''EQ_COIN_SHARE'' d [(i, [2])] = Some [2]"
    "mvbaVerifyRecovered toy_bls (dm_signer (pair_node sid valid i)) ''EQ_COIN_SHARE'' d [2]" for d
    using assms by (simp_all add: mvbaRecover_def mvbaVerifyRecovered_def pair_domain pair_recover pair_recovered)
  ultimately show ?thesis using assms by (simp add: makeSharedCoin_def coin_check_def Let_def)
qed

text \<open>The value dispersed by node 0, its stripes and its lock.\<close>

definition pair_stripes :: "bytes list" where
  "pair_stripes = replicate 2 (packValue [7])"

definition pair_root :: bytes where
  "pair_root = fst (buildMerkle pair_stripes)"

definition pair_offer :: "int \<Rightarrow> int \<Rightarrow> pdStoreMsg" where
  "pair_offer l i = \<lparr> ps_SID = pd_sid ''s'' l, ps_Root = pair_root, ps_Stripe = pair_stripes ! nat i, ps_Branch = snd (buildMerkle pair_stripes) ! nat i \<rparr>"

lemma pair_members: "{0..<2 :: int} = {0, 1}"
  by auto

lemma pair_encodes: "erasureEncodeValue R [7] 2 2 = Some pair_stripes"
  by (simp add: erasureEncodeValue_def pair_stripes_def)

lemma pair_coding: "coding_ok R 2 2"
  by (simp add: coding_ok_def code_ok_def)

lemma pair_store_verifies: "i = 0 \<or> i = 1 \<Longrightarrow> verifyMerkle (pair_stripes ! nat i) pair_root (snd (buildMerkle pair_stripes) ! nat i)"
  unfolding pair_root_def by (rule built_branch_verifies) (auto simp: pair_stripes_def)

lemma pd_message_body [simp]: "pm_Body (pd_message_to l body) = body"
  by (simp add: pd_message_to_def)

lemma roots_Cons2: "stored_roots sid (x # y # xs) = stored_roots sid [x] \<union> stored_roots sid (y # xs)"
  "locked_roots sid (x # y # xs) = locked_roots sid [x] \<union> locked_roots sid (y # xs)"
  using roots_append [of sid "[x]" "y # xs"] by simp_all

section \<open>The session\<close>

text \<open>Both nodes have dispersed the value when they leave the dispersal phase.\<close>

definition pair_locked :: "string \<Rightarrow> int \<Rightarrow> pdLockMsg" where
  "pair_locked sid l = \<lparr> lm_SID = pd_sid sid l, lm_Leader = l, lm_Root = pair_root, lm_Certificate = [2] \<rparr>"

definition both_session :: "(gf5, gf5, gf5) session" where
  "both_session = \<lparr> se_sid = ''s'', se_n = 2, se_f = 0, se_honest = {0, 1}, se_node = pair_node ''s'' None, se_input = (\<lambda>_. [7]),
     se_pd = (\<lambda>i l. [(l, pd_message_to l (PdStore (pair_offer l i))), (l, pd_message_to l (PdLock (pair_locked ''s'' l)))]),
     se_quit = (\<lambda>i. [(0, pd_message_to 0 (PdDone (pair_locked ''s'' 0))), (1, pd_message_to 1 (PdDone (pair_locked ''s'' 1))),
       (1, quit_message (pair_node ''s'' None 1) (QuitFinish ''s'' [2]))]) \<rparr>"

lemma both_simps [simp]: "se_sid both_session = ''s''" "se_n both_session = 2" "se_f both_session = 0" "se_honest both_session = {0, 1}"
  "se_node both_session = pair_node ''s'' None"
  by (simp_all add: both_session_def)

lemma both_ok: "session_ok both_session"
  by (simp add: session_ok_def pair_members)

lemma both_backed: "(\<And>i. i = 0 \<or> i = 1 \<Longrightarrow> signs i) \<Longrightarrow> q \<le> 2 \<Longrightarrow> backed both_session q signs"
  unfolding backed_def by (intro exI [of _ "{0, 1}"]) auto

lemma both_signed:
  assumes "i = 0 \<or> i = 1" "l = 0 \<or> l = 1"
  shows "(l, pair_root) \<in> stored_by toy_bls R both_session i \<and> (l, pair_root) \<in> locked_by toy_bls R both_session i"
proof -
  obtain offers where o: "pd_offer R (pair_node ''s'' None i) (pd_sid ''s'' l) l (if l = i then [7] else []) = Some offers"
    using assms by (cases "buildMerkle pair_stripes") (auto simp: pd_offer_def pd_k_def pair_encodes)
  have "pair_root \<in> stored_roots (pd_sid ''s'' l) (pd_sends toy_bls R both_session i l) \<and>
      pair_root \<in> locked_roots (pd_sid ''s'' l) (pd_sends toy_bls R both_session i l)"
    using assms pair_store_verifies [OF assms(1)] o
    by (elim disjE) (auto simp: pd_sends_def pd_run_def both_session_def runPDInstance_def pd_threshold_def
      pd_body_def on_pdStore_def on_pdLock_def pd_initial_def pair_offer_def pair_locked_def Let_def roots_Cons2)
  then show ?thesis using assms by (auto simp: locked_by_def stored_by_def)
qed

lemma bodies_broadcast: "0 < n \<Longrightarrow> bodies (broadcast n p) = {pm_Body p}"
  by (simp add: bodies_def broadcast_def all_nodes_def image_image image_constant_conv)

lemma both_quit:
  assumes "i = 0 \<or> i = 1"
  shows "\<exists>st sends. runQuitPD toy_bls (pair_node ''s'' None i) ''s'' (se_quit both_session i) = (st, sends, Returned 1, []) \<and>
    QuitReady ''s'' [2] \<in> bodies sends"
  using assms
  by (auto simp: runQuitPD_def both_session_def quit_body_def on_quit_done_def on_quit_finish_def quit_initial_def pair_locked_def
      quit_message_def sendReady_def bodies_broadcast Let_def)

theorem quit_means_dispersed_witness:
  "\<exists>st sends. runQuitPD toy_bls (se_node both_session 0) (se_sid both_session) (se_quit both_session 0) = (st, sends, Returned 1, []) \<and>
    ((\<exists>L \<subseteq> {0..<se_n both_session}. se_n both_session - se_f both_session \<le> int (card L) \<and>
      (\<forall>l \<in> L. \<exists>r. se_n both_session - 2 * se_f both_session \<le> int (card {j \<in> se_honest both_session. (l, r) \<in> locked_by toy_bls rep_code both_session j}))) \<or>
    clash (done_messages toy_bls both_session) (locked_messages toy_bls rep_code both_session))"
proof -
  obtain st sends where q: "runQuitPD toy_bls (se_node both_session 0) (se_sid both_session) (se_quit both_session 0) = (st, sends, Returned 1, [])"
    using both_quit [of 0] by auto
  have ready: "backed both_session (se_f both_session + 1) (signs_ready toy_bls both_session)"
    using both_quit by (intro both_backed) (fastforce simp: signs_ready_def quit_sends_def)+
  have fin: "backed both_session (se_n both_session - se_f both_session)
      (signs_locked toy_bls rep_code both_session (pdCertificateDigest ''PD_LOCKED'' (lm_SID d) (lm_Leader d) (lm_Root d)))"
    if d: "d \<in> done_received toy_bls (se_node both_session j) (se_sid both_session) (se_quit both_session j)" for j d
  proof -
    obtain l where l: "l = 0 \<or> l = 1" "d = pair_locked ''s'' l"
      using d by (auto simp: done_received_def both_session_def quit_message_def)
    show ?thesis using both_signed [OF _ l(1), of _ rep_code]
      by (intro both_backed) (force simp: signs_locked_def l(2) pair_locked_def)+
  qed
  have zero: "0 \<in> se_honest both_session" by simp
  show ?thesis
    by (intro exI conjI, rule q, rule quit_means_dispersed [OF both_ok zero q]) (use ready fin in blast)+
qed

section \<open>Retrieval\<close>

definition pair_rc :: "string \<Rightarrow> ReceivedMessage list" where
  "pair_rc sid = map (\<lambda>j. (j, rc_message (RcStore (genuine_store (pd_sid sid 0) pair_stripes j)))) [0, 1]"

definition lock_message :: "string \<Rightarrow> ProtocolMessage" where
  "lock_message sid = rc_message (PdLock (pair_locked sid 0))"

lemma pair_stores: "stores_only (pd_sid sid 0) pair_stripes [0, 1] (pair_rc sid)"
  by (simp add: stores_only_def pair_rc_def rc_message_def)

lemma pair_lock_received:
  "pair_locked sid 0 \<in> locks_received toy_bls (pair_node sid valid i) (pd_sid sid 0) [(0, lock_message sid)]"
  "pm_Body (lock_message sid) = PdLock (pair_locked sid 0)" "lm_Root (pair_locked sid 0) = fst (buildMerkle pair_stripes)"
  by (simp_all add: locks_received_def pair_locked_def lock_message_def rc_message_def pair_root_def)

lemma pair_retrieves:
  "\<exists>st sends. runRCSubprotocol toy_bls R (pair_node sid valid i) (pd_sid sid 0) (pair_rc sid @ [(0, lock_message sid)]) store own =
    (st, sends, Returned [7], [])"
  by (rule stripes_retrieved [OF _ _ _ pair_stores _ _ _ pair_lock_received(2,1,3)]) (simp_all add: pair_coding pair_encodes)

theorem retrieval_recovers_witness:
  "\<exists>st sends. runRCSubprotocol toy_bls rep_code (pair_node ''s'' None 1) (pd_sid ''s'' 0) (pair_rc ''s'' @ [(0, lock_message ''s'')]) None None =
    (st, sends, Returned [7], [])"
  by (rule retrieval_recovers [OF _ _ _ pair_stores _ _ _ pair_lock_received(2,1,3)]) (simp_all add: pair_coding pair_encodes)

definition bad_raw :: bytes where
  "bad_raw = [255, 255, 255, 255, 255, 255, 255, 255]"

lemma bad_prefix: "take 8 bad_raw = bad_raw" "get_be bad_raw = 18446744073709551615"
  by (simp_all add: bad_raw_def get_be_def)

definition bad_stripes :: "bytes list" where
  "bad_stripes = [bad_raw, bad_raw]"

theorem malformed_dispersal_crashes_witness:
  "\<exists>st sends. runRCSubprotocol toy_bls rep_code (pair_node ''s'' None 1) (pd_sid ''s'' 0)
    (map (\<lambda>j. (j, rc_message (RcStore (genuine_store (pd_sid ''s'' 0) bad_stripes j)))) [0, 1] @
      [(0, rc_message (PdLock ((pair_locked ''s'' 0)\<lparr> lm_Root := fst (buildMerkle bad_stripes) \<rparr>)))]) None None = (st, sends, Crashed, [])"
proof (rule malformed_dispersal_crashes [where raw = bad_raw and holders = "[0, 1]" and E = bad_stripes
    and k = "(pair_locked ''s'' 0)\<lparr> lm_Root := fst (buildMerkle bad_stripes) \<rparr>"])
  show "2 ^ 63 - 8 \<le> get_be (take 8 bad_raw)" by (simp add: bad_prefix)
  show "raw_stripes rep_code bad_raw (rc_k (pair_node ''s'' None 1)) (dm_N (pair_node ''s'' None 1)) = Some bad_stripes"
    by (simp add: raw_stripes_def bad_stripes_def numeral_eq_Suc)
qed (simp_all add: pair_coding bad_raw_def stores_only_def rc_message_def locks_received_def pair_locked_def)

theorem store_index_panics_witness:
  "fst (snd (snd (runRCSubprotocol toy_bls rep_code (pair_node ''s'' None 1) (pd_sid ''s'' 0)
    ((0, rc_message (RcStore \<lparr> rcs_SID = pd_sid ''s'' 0, rcs_Root = leafHash [9], rcs_From = 2, rcs_Stripe = [9],
       rcs_Branch = \<lparr> mb_Index = 0, mb_Siblings = [] \<rparr> \<rparr>)) # []) None None))) = Crashed"
  by (rule store_index_panics) simp

definition pair_prepare :: "string \<Rightarrow> ReceivedMessage list" where
  "pair_prepare sid = [(1, \<lparr> pm_Tag = TagMVBARCPrepare, pm_Round = 0, pm_Leader = 0,
     pm_Body = RcPrepare \<lparr> rp_SID = sid @ ''RCprepare'', rp_Leader = 0, rp_Lock = Some (pair_locked sid 0) \<rparr> \<rparr>)]"

lemma pair_ballot: "\<exists>st. runRCPrepare toy_bls (pair_node sid valid i) sid 0 (pair_prepare sid) = (st, [], Returned 1, [])"
  by (simp add: runRCPrepare_def prepare_body_def pair_prepare_def prepare_lock_ok_def pair_locked_def Let_def)

theorem dispersed_leader_ballot_witness:
  "\<exists>st. runRCPrepare toy_bls (pair_node ''s'' None 0) ''s'' 0 (pair_prepare ''s'') = (st, [], Returned 1, []) \<and>
    (\<exists>(j, p) \<in> set (pair_prepare ''s''). \<exists>msg. pm_Body p = RcPrepare msg \<and> prepare_for ''s'' 0 msg \<and>
      prepare_lock_ok toy_bls (pair_node ''s'' None 0) ''s'' 0 msg)"
proof -
  obtain st where st: "runRCPrepare toy_bls (pair_node ''s'' None 0) ''s'' 0 (pair_prepare ''s'') = (st, [], Returned 1, [])"
    using pair_ballot by blast
  have "\<exists>(j, p) \<in> set (pair_prepare ''s''). \<exists>msg. pm_Body p = RcPrepare msg \<and> prepare_for ''s'' 0 msg \<and>
      prepare_lock_ok toy_bls (pair_node ''s'' None 0) ''s'' 0 msg"
    by (rule conjunct2 [OF dispersed_leader_ballot [OF st, where H = "{0, 1}"]])
       (simp_all add: pair_prepare_def prepare_lock_ok_def pair_locked_def)
  then show ?thesis using st by blast
qed

definition quad_node :: "int \<Rightarrow> (gf5, gf5, gf5) DumboMVBA" where
  "quad_node i = (pair_node ''s'' None i)\<lparr> dm_cfg := (dm_cfg (pair_node ''s'' None i))\<lparr> c_N := 4, c_F := 1 \<rparr> \<rparr>"

lemma quad_cfg: "dm_N (quad_node i) = 4" "dm_F (quad_node i) = 1" "dm_ID (quad_node i) = i"
  by (simp_all add: quad_node_def)

definition ballot_message :: "int \<Rightarrow> int \<Rightarrow> ProtocolMessage" where
  "ballot_message i x = \<lparr> pm_Tag = TagMVBARCPrepare, pm_Round = 0, pm_Leader = x,
     pm_Body = RcPrepare \<lparr> rp_SID = ''s'' @ ''RCprepare'', rp_Leader = x, rp_Lock = None \<rparr> \<rparr>"

theorem early_ballots_lost_witness:
  "\<exists>st. runRCPrepare toy_bls (quad_node 3) ''s'' 0
      [(0, ballot_message 0 0), (1, ballot_message 1 0), (1, ballot_message 1 1), (2, ballot_message 2 0)] = (st, [], Returned 0, []) \<and>
    (\<exists>st'. runRCPrepare toy_bls (quad_node 3) ''s'' 1 ([] @ [(0, ballot_message 0 1), (2, ballot_message 2 1)]) = (st', [], Running, []))"
  by (rule early_ballots_lost) (simp_all add: quad_cfg ballot_message_def)

section \<open>Coin and binary agreement\<close>

theorem shared_coin_agreement_witness:
  "\<exists>st1 sends1 v st2 sends2 w.
    makeSharedCoin toy_bls (pair_node ''s'' None 0) ''c'' TagMVBACoin 0 [] ''x'' = (st1, sends1, Returned v, []) \<and>
    makeSharedCoin toy_bls (pair_node ''s'' None 1) ''c'' TagMVBACoin 0 [] ''x'' = (st2, sends2, Returned w, []) \<and> v = w"
proof -
  obtain s1 v s2 w where c: "makeSharedCoin toy_bls (pair_node ''s'' None 0) ''c'' TagMVBACoin 0 [] ''x'' = ([(0, [2])], s1, Returned v, [])"
    "makeSharedCoin toy_bls (pair_node ''s'' None 1) ''c'' TagMVBACoin 0 [] ''x'' = ([(1, [2])], s2, Returned w, [])"
    using pair_coin [of 0 "''s''" None "''c''" TagMVBACoin 0 "[]" "''x''"] pair_coin [of 1 "''s''" None "''c''" TagMVBACoin 0 "[]" "''x''"] by auto
  have low: "ms_low (dm_signer (pair_node ''s'' None i)) = Some pair_low" for i by simp
  have mode: "c_EquivalentCoinMode (dm_cfg (pair_node ''s'' None 0)) = c_EquivalentCoinMode (dm_cfg (pair_node ''s'' None 1))" by simp
  have "v = w" by (rule shared_coin_agreement [OF toy_bls_laws low pair_dealt low pair_dealt mode c])
  then show ?thesis using c by blast
qed

theorem aba_unanimous_witness:
  "\<exists>s. aba_reach (pair_node ''s'' None) ''a'' 0 (\<lambda>_. 1) (\<lambda>_. Running) {0, 1} {} (aba_start (pair_node ''s'' None) ''a'' 0 (\<lambda>_. 1) [0, 1]) s \<and>
    (\<exists>w. as_phase s 0 = Returned w \<and> w = 1)"
proof -
  have two: "all_nodes 2 = [0, 1]" by (simp add: all_nodes_def upt_rec numeral_eq_Suc)
  obtain s where s: "aba_exec (pair_node ''s'' None) ''a'' 0 (\<lambda>_. 1) (\<lambda>_. Running) {0, 1} (aba_start (pair_node ''s'' None) ''a'' 0 (\<lambda>_. 1) [0, 1])
      [(1, 0, est_msg ''a'' 0 1)] = Some s" "\<exists>w. as_phase s 0 = Returned w"
    by (simp add: aba_start_def aba_first_def sendABA_def broadcast_def two sent_by_def est_msg_def aba_deliver_def aba_body_def
      on_abaEst_def aba_initial_def Let_def deriveABADecision_def allSame_def aba_decide_def aba_check_def countDecision_def
      put_decision_def sendDecision_def)
  note r = exec_reach [OF s(1), where faulty = "{}"]
  obtain w where w: "as_phase s 0 = Returned w" using s(2) by blast
  have "w = 1" by (rule aba_unanimous [OF r _ _ _ _ w]) simp_all
  then show ?thesis using r w by blast
qed

theorem aba_disagreement_witness:
  "\<exists>input s v w. aba_reach quad_node ''a'' 0 input (\<lambda>_. Returned 6) {0, 1, 2, 3} {} (aba_start quad_node ''a'' 0 input [0, 1, 2, 3]) s \<and>
    as_phase s 0 = Returned v \<and> as_phase s 2 = Returned w \<and> v \<noteq> w"
  by (rule aba_disagreement) (rule quad_cfg)+

section \<open>A decision\<close>

definition pair_channels :: "string \<Rightarrow> mvba_channels" where
  "pair_channels sid = no_messages\<lparr> ch_pdFinish := [(1, quit_message (pair_node sid None 1) (QuitFinish sid [2]))],
     ch_rc := pair_rc sid @ [(0, lock_message sid)], ch_rcPrepare := pair_prepare sid,
     ch_aba := (\<lambda>_. [(1, est_msg (sid @ ''ABA'' @ itoa 0) 0 1)]) \<rparr>"

lemma pair_aba:
  "\<exists>st sends. runABA (pair_node sid valid 0) a 0 1 [(1, est_msg a 0 1)] coin = (st, sends, Returned 1, [])"
  by (simp add: runABA_def est_msg_def aba_body_def on_abaEst_def aba_initial_def Let_def deriveABADecision_def allSame_def
      aba_decide_def aba_check_def countDecision_def put_decision_def)

lemma pair_leave: "\<exists>st sends. runQuitPD toy_bls (pair_node sid valid i) sid [(1, quit_message (pair_node sid None 1) (QuitFinish sid [2]))] = (st, sends, Returned 1, [])"
  by (simp add: runQuitPD_def quit_body_def on_quit_finish_def quit_initial_def quit_message_def Let_def)

text \<open>The leaders in their own order.\<close>

definition plain_perm :: "int \<Rightarrow> int \<Rightarrow> int list" where
  "plain_perm seed n = all_nodes n"

lemma two_nodes: "all_nodes 2 = [0, 1]"
  by (simp add: all_nodes_def upt_rec numeral_eq_Suc)

lemma plain_perm_all: "\<forall>seed. set (plain_perm seed n) = {0..<n}"
  by (force simp: plain_perm_def all_nodes_def image_iff intro: bexI [of _ "nat x" for x])

lemma pair_decides:
  assumes "payloadValid (pair_node sid valid 0) [7]"
  shows "Run toy_bls R plain_perm (pair_node sid valid 0) [7] read (pair_channels sid) =
    Decided \<lparr> pv_Payload = [7], pv_Round = 0, pv_Hint = ''equivalent'', pv_Proof = [] \<rparr>"
proof -
  obtain s1 v where coin: "makeSharedCoin toy_bls (pair_node sid valid 0) (sid @ ''COIN'') TagMVBACoin 0 [] ''permutation'' = ([(0, [2])], s1, Returned v, [])"
    using pair_coin [of 0 sid valid "sid @ ''COIN''" TagMVBACoin 0 "[]" "''permutation''"] by auto
  obtain st2 where ballot: "runRCPrepare toy_bls (pair_node sid valid 0) sid 0 (pair_prepare sid) = (st2, [], Returned 1, [])" using pair_ballot by blast
  obtain st3 s3 where quit: "runQuitPD toy_bls (pair_node sid valid 0) sid [(1, quit_message (pair_node sid None 1) (QuitFinish sid [2]))] =
    (st3, s3, Returned 1, [])" using pair_leave by blast
  have aba: "\<exists>st sends. runABA (pair_node sid valid 0) (sid @ ''ABA'' @ itoa 0) 0 1 [(1, est_msg (sid @ ''ABA'' @ itoa 0) 0 1)] c = (st, sends, Returned 1, [])" for c
    by (rule pair_aba)
  have ret: "\<exists>st sends. runRCSubprotocol toy_bls R (pair_node sid valid 0) (pd_sid sid 0) (pair_rc sid @ [(0, lock_message sid)]) store own =
    (st, sends, Returned [7], [])" for store own by (rule pair_retrieves)
  have "mvba_rounds toy_bls R (pair_node sid valid 0) results (pair_channels sid) 0 (0 # rest) (pair_prepare sid) (pair_rc sid @ [(0, lock_message sid)]) =
    Decided \<lparr> pv_Payload = [7], pv_Round = 0, pv_Hint = ''equivalent'', pv_Proof = [] \<rparr>" for results rest
    using ballot aba [of "aba_coin toy_bls (pair_node sid valid 0) 0 []"] ret [of "fst (results 0)" "snd (results 0)"] assms
    by (auto simp: pair_channels_def no_messages_def Let_def)
  then have "mvba_rounds toy_bls R (pair_node sid valid 0) results (pair_channels sid) 0 (plain_perm v 2) (pair_prepare sid) (pair_rc sid @ [(0, lock_message sid)]) =
    Decided \<lparr> pv_Payload = [7], pv_Round = 0, pv_Hint = ''equivalent'', pv_Proof = [] \<rparr>" for results
    by (simp add: plain_perm_def two_nodes)
  then show ?thesis using quit coin assms
    by (simp add: Run_def runEquivalent_def Let_def) (simp add: pair_channels_def no_messages_def)
qed

lemma both_session_shared: "mvba_session toy_bls both_session [F1] ''signature''"
  using both_ok by (simp add: mvba_session_def pair_dealt)

lemma both_locks_backed: "locks_backed toy_bls R both_session 0 (pair_channels ''s'')"
  unfolding locks_backed_def
proof (intro allI impI)
  fix l k assume "k \<in> locks_received toy_bls (se_node both_session 0) (pd_sid (se_sid both_session) l) (ch_rc (pair_channels ''s''))"
  then have k: "k = pair_locked ''s'' 0"
    by (auto simp: locks_received_def pair_channels_def pair_rc_def rc_message_def lock_message_def)
  show "backed both_session (se_n both_session - se_f both_session)
      (signs_stored toy_bls R both_session (pdCertificateDigest ''PD_STORED'' (lm_SID k) (lm_Leader k) (lm_Root k)))"
    using both_signed [of _ 0 R] unfolding k by (intro both_backed) (force simp: signs_stored_def pair_locked_def)+
qed

theorem same_round_agreement_witness:
  "let out = \<lparr> pv_Payload = [7], pv_Round = 0, pv_Hint = ''equivalent'', pv_Proof = [] \<rparr> in
    Run toy_bls rep_code plain_perm (se_node both_session 0) (se_input both_session 0) (se_pd both_session 0) (pair_channels ''s'') = Decided out \<and>
    payloadValid (se_node both_session 0) (pv_Payload out) \<and>
    (pv_Payload out = pv_Payload out \<or>
     decision_collision toy_bls rep_code both_session 0 (pair_channels ''s'') (pv_Payload out) 0 (pair_channels ''s'') (pv_Payload out))"
proof -
  have run: "Run toy_bls rep_code plain_perm (se_node both_session 0) (se_input both_session 0) (se_pd both_session 0) (pair_channels ''s'') =
      Decided \<lparr> pv_Payload = [7], pv_Round = 0, pv_Hint = ''equivalent'', pv_Proof = [] \<rparr>"
    using pair_decides [of "''s''" None rep_code "se_pd both_session 0"] by (simp add: payloadValid_def) (simp add: both_session_def)
  have coding: "coding_ok rep_code (se_n both_session - 2 * se_f both_session) (se_n both_session)" by (simp add: pair_coding)
  have zero: "0 \<in> se_honest both_session" by simp
  note a = same_round_agreement [OF toy_bls_laws both_session_shared zero zero coding plain_perm_all run both_locks_backed run both_locks_backed refl]
  show ?thesis unfolding Let_def using run a by blast
qed

section \<open>A common subset\<close>

definition pair_value :: ProposalValue where
  "pair_value = \<lparr> pv_Payload = [5], pv_Round = 0, pv_Hint = '''', pv_Proof = [] \<rparr>"

definition pair_vector :: "acsVectorEntry option list" where
  "pair_vector = [Some \<lparr> av_From = 0, av_Value = pair_value, av_Sig = [4] \<rparr>, Some \<lparr> av_From = 1, av_Value = pair_value, av_Sig = [1] \<rparr>]"

definition pair_unmarshal :: "bytes \<Rightarrow> acsVectorEntry option list option" where
  "pair_unmarshal p = (if p = [7] then Some pair_vector else None)"

lemma pair_diffuse:
  "mvbaVerify toy_bls (dm_signer (pair_node sid valid i)) 0 ''ACS_DIFFUSE'' d [4]" "mvbaVerify toy_bls (dm_signer (pair_node sid valid i)) 1 ''ACS_DIFFUSE'' d [1]"
  "mvbaSign toy_bls (dm_signer (pair_node sid valid 0)) ''ACS_DIFFUSE'' d = Some [4]"
  by (simp_all add: mvbaVerify_def mvbaSign_def pair_domain)
     (simp_all add: VerifyShare_def SignShare_def pair_high_def pair_node_def pairing_ok_def toy_bls_def gf_unmarshal_def gf_marshal_def gf5_ops pair_index)

lemma pair_collect:
  "acs_collect toy_bls (dm_signer (pair_node ''s'' None 0)) (\<lambda>_ _. True) sid 2 {} (replicate (nat 2) None)
     [(0, sid, pair_value, [4]), (1, sid, pair_value, [1])] = Returned pair_vector"
  by (simp add: acs_collect.simps pair_diffuse pair_vector_def numeral_eq_Suc)

lemma pair_vector_valid:
  "validateACSVectorPayload toy_bls pair_unmarshal [7] (dm_cfg (pair_node ''s'' None 0)) (dm_signer (pair_node ''s'' None 0)) (\<lambda>_ _. True) = Some pair_vector"
  by (simp add: validateACSVectorPayload_def pair_unmarshal_def pair_vector_def pair_diffuse)

lemma pair_new:
  "NewDumboMVBA ((dm_cfg (pair_node ''s'' None 0))\<lparr> c_SID := c # sid, c_UseEquivalentPath := True, c_ValidatePayload := valid \<rparr>)
     (dm_signer (pair_node ''s'' None 0)) = Some (pair_node (c # sid) valid 0)"
proof -
  have "mvbaThreshold (dm_signer (pair_node ''s'' None 0)) ''PD_STORED'' = 2" "mvbaThreshold (dm_signer (pair_node ''s'' None 0)) ''PD_LOCKED'' = 2"
    "mvbaThreshold (dm_signer (pair_node ''s'' None 0)) ''PD_QUIT_READY'' = 1" "mvbaThreshold (dm_signer (pair_node ''s'' None 0)) ''EQ_COIN_SHARE'' = 1"
    by (simp_all add: mvbaThreshold_def pair_domain) (simp_all add: pair_high_def pair_low_def)
  then show ?thesis unfolding NewDumboMVBA_def Let_def by (simp add: pair_node_def)
qed

theorem common_subset_sound_witness:
  "RunMVBACCommonSubset toy_bls rep_code plain_perm (\<lambda>_. [7]) pair_unmarshal (dm_cfg (pair_node ''s'' None 0)) (dm_signer (pair_node ''s'' None 0))
      pair_value (\<lambda>_ _. True) [(0, ''sVACS'', pair_value, [4]), (1, ''sVACS'', pair_value, [1])] (\<lambda>_. []) (pair_channels ''sVACSMVBA'') =
    Returned [Some pair_value, Some pair_value] \<and> c_N (dm_cfg (pair_node ''s'' None 0)) - c_F (dm_cfg (pair_node ''s'' None 0)) \<le>
      int (length (filter (\<lambda>v. v \<noteq> None) [Some pair_value, Some pair_value]))"
proof -
  let ?valid = "Some (\<lambda>payload. validateACSVectorPayload toy_bls pair_unmarshal payload (dm_cfg (pair_node ''s'' None 0))
    (dm_signer (pair_node ''s'' None 0)) (\<lambda>_ _. True) \<noteq> None)"
  have "payloadValid (pair_node ''sVACSMVBA'' ?valid 0) [7]" by (simp add: payloadValid_def pair_vector_valid)
  note dec = pair_decides [OF this]
  have run: "RunMVBACCommonSubset toy_bls rep_code plain_perm (\<lambda>_. [7]) pair_unmarshal (dm_cfg (pair_node ''s'' None 0)) (dm_signer (pair_node ''s'' None 0))
      pair_value (\<lambda>_ _. True) [(0, ''sVACS'', pair_value, [4]), (1, ''sVACS'', pair_value, [1])] (\<lambda>_. []) (pair_channels ''sVACSMVBA'') =
    Returned [Some pair_value, Some pair_value]"
    using dec [of rep_code "\<lambda>_. []"] pair_vector_valid pair_collect
    by (simp add: RunMVBACCommonSubset_def pair_diffuse pair_new pair_vector_def)
  show ?thesis using run common_subset_sound [OF run] by blast
qed

end
