(* ===== verification/Net_Base.thy ===== *)
theory Net_Base
  imports Service Network
begin

text \<open>
  What the parts of a node's protocol service share (\<^verbatim>\<open>src/core/cv_sapvss_apdb_network_v2.go\<close>): its configuration, the
  message tags (\<^verbatim>\<open>src/core/cv_sapvss_router.go\<close>), queued sends and the maps keyed by sender.  The state of the service
  is cut into parts, one theory each; a handler or call that runs under the service's mutex is a function on its
  part.  A \<^verbatim>\<open>ready\<close> channel of capacity one is a flag: \<^verbatim>\<open>cvNotifyAPDBV2\<close> sets it.  The service is not closed while it
  runs, so that a queued send is taken.
\<close>

section \<open>Configuration\<close>

text \<open>The scalar store is used by the receivers' share exchange only, which is not modelled.\<close>

record ('g, 'h, 'f) cvAPDBNetworkServiceConfigV2 =
  sc_SID :: string
  sc_Epoch :: nat
  sc_LocalNode :: int
  sc_OldRoster :: "int list"
  sc_NewRoster :: "int list"
  sc_ExpectedContext :: bytes
  sc_TotalShards :: int
  sc_DataShards :: int
  sc_ShardBytes :: int
  sc_MaximumPayload :: int
  sc_Params :: cvV2Params
  sc_EligibilityCoin :: "cvCoinOutputV2 option"
  sc_LeafContext :: "cvLeafContextV2 option"
  sc_Receivers :: "('g, 'f) cvReceiverKeyMaterialV2 option"
  sc_Validators :: "('h, 'f) cvValidatorKeyMaterialV2 option"
  sc_DecisionStore :: "cvDecisionSignStoreV2 option"

definition cvValidateReceiverMaterialForLeafV2 :: "cvLeafContextV2 \<Rightarrow> ('g, 'f) cvReceiverKeyMaterialV2 \<Rightarrow> bool" where
  "cvValidateReceiverMaterialForLeafV2 ctx material \<longleftrightarrow>
     \<not> (rk_sid material \<noteq> lc_SID ctx \<or> rk_epoch material \<noteq> lc_Epoch ctx \<or>
        \<not> equalInts (rk_receiverOrder material) (lc_NewRoster ctx) \<or>
        length (rk_encryptionPublicKeys material) \<noteq> length (lc_NewRoster ctx) \<or>
        length (rk_identityPublicKeys material) \<noteq> length (lc_NewRoster ctx) \<or>
        rk_registryDigest material \<noteq> lc_ReceiverRegistryDigest ctx)"

definition cvValidateValidatorMaterialForLeafV2 :: "cvLeafContextV2 \<Rightarrow> ('h, 'f) cvValidatorKeyMaterialV2 \<Rightarrow> bool" where
  "cvValidateValidatorMaterialForLeafV2 ctx material \<longleftrightarrow>
     \<not> (vm_sid material \<noteq> lc_SID ctx \<or> vm_epoch material \<noteq> lc_Epoch ctx \<or>
        \<not> equalInts (vm_memberOrder material) (lc_OldRoster ctx) \<or> length (vm_publicKeys material) \<noteq> length (lc_OldRoster ctx))"

section \<open>Tags\<close>

definition cvTagAPDBStoreV2 :: string where "cvTagAPDBStoreV2 = ''CV_V2_APDB_STORE''"
definition cvTagAPDBStoredShareV2 :: string where "cvTagAPDBStoredShareV2 = ''CV_V2_APDB_STORED_SHARE''"
definition cvTagAPDBRecoverGetV2 :: string where "cvTagAPDBRecoverGetV2 = ''CV_V2_APDB_RECOVER_GET''"
definition cvTagAPDBRecoverStoreV2 :: string where "cvTagAPDBRecoverStoreV2 = ''CV_V2_APDB_RECOVER_STORE''"
definition cvTagAPDBRecoverPayloadV2 :: string where "cvTagAPDBRecoverPayloadV2 = ''CV_V2_APDB_RECOVER_PAYLOAD''"
definition cvTagCoinShareV2 :: string where "cvTagCoinShareV2 = ''CV_V2_COIN_SHARE''"
definition cvTagPoolOfferV2 :: string where "cvTagPoolOfferV2 = ''CV_V2_POOL_OFFER''"
definition cvTagPoolCertShareV2 :: string where "cvTagPoolCertShareV2 = ''CV_V2_POOL_CERT_SHARE''"
definition cvTagPoolCertV2 :: string where "cvTagPoolCertV2 = ''CV_V2_POOL_CERT''"
definition cvTagValidationRequestV2 :: string where "cvTagValidationRequestV2 = ''CV_V2_VALIDATION_REQUEST''"
definition cvTagValidationSignatureV2 :: string where "cvTagValidationSignatureV2 = ''CV_V2_VALIDATION_SIGNATURE''"
definition cvTagValidationResultV2 :: string where "cvTagValidationResultV2 = ''CV_V2_VALIDATION_RESULT''"
definition cvTagDecisionShareV2 :: string where "cvTagDecisionShareV2 = ''CV_V2_DECISION_SHARE''"
definition cvTagComponentRefV2 :: string where "cvTagComponentRefV2 = ''CV_V2_COMPONENT_REF''"
definition cvTagCertifiedCandidateV2 :: string where "cvTagCertifiedCandidateV2 = ''CV_V2_CERTIFIED_CANDIDATE''"
definition cvTagCertifiedCandidateACKV2 :: string where "cvTagCertifiedCandidateACKV2 = ''CV_V2_CERTIFIED_CANDIDATE_ACK''"

lemmas tag_defs = cvTagAPDBStoreV2_def cvTagAPDBStoredShareV2_def cvTagAPDBRecoverGetV2_def cvTagAPDBRecoverStoreV2_def
  cvTagAPDBRecoverPayloadV2_def cvTagCoinShareV2_def cvTagPoolOfferV2_def cvTagPoolCertShareV2_def cvTagPoolCertV2_def
  cvTagValidationRequestV2_def cvTagValidationSignatureV2_def cvTagValidationResultV2_def cvTagDecisionShareV2_def
  cvTagComponentRefV2_def cvTagCertifiedCandidateV2_def cvTagCertifiedCandidateACKV2_def cvTagHandoffV2_def
  cvTagAggregateRecoverGetV2_def cvTagAggregateRecoverStoreV2_def cvTagAggregateShareV2_def cvTagLaneOfferV2_def cvTagLaneACKV2_def

section \<open>Sending\<close>

text \<open>A message to be sent: recipient, tag and payload.\<close>

type_synonym cvOutboundMessageV2 = "int \<times> string \<times> bytes"

definition sendAsync :: "int \<Rightarrow> string \<Rightarrow> bytes \<Rightarrow> cvOutboundMessageV2 list" where
  "sendAsync to tag payload = (if tag = [] \<or> payload = [] then [] else [(to, tag, payload)])"

definition send_to_all :: "int list \<Rightarrow> int \<Rightarrow> string \<Rightarrow> bytes \<Rightarrow> cvOutboundMessageV2 list" where
  "send_to_all recipients excluded tag payload = map (\<lambda>member. (member, tag, payload)) (filter (\<lambda>member. member \<noteq> excluded) recipients)"

text \<open>An encoded reply, when it encodes.\<close>

definition reply :: "int \<Rightarrow> string \<Rightarrow> bytes option \<Rightarrow> cvOutboundMessageV2 list" where
  "reply to tag wire = (case wire of None \<Rightarrow> [] | Some w \<Rightarrow> sendAsync to tag w)"

lemma reply_mem: "(to', tag', w) \<in> set (reply to tag wire) \<Longrightarrow> to' = to \<and> tag' = tag \<and> wire = Some w"
  by (auto simp: reply_def sendAsync_def split: option.splits if_splits)

lemma send_to_all_mem: "(to', tag', w) \<in> set (send_to_all rs x tag wire) \<Longrightarrow> tag' = tag \<and> w = wire"
  by (auto simp: send_to_all_def)

definition cvOutboundQueueCapacityV2 :: "int \<Rightarrow> int" where
  "cvOutboundQueueCapacityV2 committeeSize =
     (let capacity = committeeSize * 32 in if capacity < 128 then 128 else if capacity > 4096 then 4096 else capacity)"

definition cvCryptoQueueCapacityV2 :: "int \<Rightarrow> int" where
  "cvCryptoQueueCapacityV2 committeeSize =
     (let capacity = committeeSize * 2 in if capacity < 64 then 64 else if capacity > 2048 then 2048 else capacity)"

text \<open>The delays between retries, in milliseconds: doubled from 250 up to two seconds.\<close>

fun retry_delay :: "nat \<Rightarrow> int \<Rightarrow> int" where
  "retry_delay 0 delay = delay"
| "retry_delay (Suc attempts) delay = (if delay < 2000 then retry_delay attempts (delay * 2) else delay)"

definition cvControlRetryDelayV2 :: "int \<Rightarrow> int" where
  "cvControlRetryDelayV2 attempt = (let delay = retry_delay (nat attempt) 250 in if delay > 2000 then 2000 else delay)"

section \<open>Maps keyed by sender\<close>

text \<open>Reading a map of byte strings: an absent key gives the empty string.\<close>

definition bytes_at :: "(bytes \<rightharpoonup> bytes) \<Rightarrow> bytes \<Rightarrow> bytes" where
  "bytes_at m key = (case m key of None \<Rightarrow> [] | Some w \<Rightarrow> w)"

lemma bytes_at_Some: "bytes_at m key \<noteq> [] \<Longrightarrow> m key \<noteq> None"
  by (cases "m key") (simp_all add: bytes_at_def)

text \<open>The first value of a sender is kept.\<close>

definition put_first :: "int \<Rightarrow> 'a \<Rightarrow> (int \<times> 'a) list \<Rightarrow> (int \<times> 'a) list" where
  "put_first member value entries = (if member \<in> fst ` set entries then entries else entries @ [(member, value)])"

lemma put_first_distinct: "distinct (map fst entries) \<Longrightarrow> distinct (map fst (put_first member value entries))"
  by (auto simp: put_first_def)

lemma put_first_set: "set (put_first member value entries) \<subseteq> insert (member, value) (set entries)"
  by (auto simp: put_first_def)

lemma put_first_ball: "P member value \<Longrightarrow> \<forall>(m, v) \<in> set entries. P m v \<Longrightarrow> \<forall>(m, v) \<in> set (put_first member value entries). P m v"
  by (auto simp: put_first_def)

lemma put_first_members: "fst ` set (put_first member value entries) = insert member (fst ` set entries)"
  by (auto simp: put_first_def)

text \<open>Shares that a threshold signer can recover from.\<close>

definition shares_ok ::
  "('g, 'h, 'f) bls \<Rightarrow> ('g, 'h, 'f) tblsThresholdSigner \<Rightarrow> string \<Rightarrow> bytes \<Rightarrow> (int \<times> bytes) list \<Rightarrow> bool" where
  "shares_ok B signer domain digest shares \<longleftrightarrow>
     distinct (map fst shares) \<and> (\<forall>(m, w) \<in> set shares. VerifyShare B signer m domain digest w)"

lemma shares_ok_put:
  "shares_ok B signer domain digest shares \<Longrightarrow> VerifyShare B signer m domain digest w \<Longrightarrow>
   shares_ok B signer domain digest (put_first m w shares)"
  by (auto simp: shares_ok_def put_first_def)

lemma shares_ok_single: "VerifyShare B signer m domain digest w \<Longrightarrow> shares_ok B signer domain digest [(m, w)]"
  by (simp add: shares_ok_def)

text \<open>A signer that signs once per subject: two quorums for one subject that share an honest member agree.  \<open>signs n k d\<close> says
  that the node \<open>n\<close> has signed \<open>d\<close> for the subject \<open>k\<close>.\<close>

locale one_shot_signing =
  fixes signs :: "'n \<Rightarrow> 'k \<Rightarrow> 'd \<Rightarrow> bool"
  assumes signs_once: "signs n k d \<Longrightarrow> signs n k d' \<Longrightarrow> d = d'"
begin

lemma quorums_agree:
  assumes "finite members" "S \<subseteq> members" "S' \<subseteq> members" "t \<le> int (card S)" "t \<le> int (card S')"
    and "int (card members) + int (card (members - honest)) < 2 * t"
    and "\<forall>i \<in> S \<inter> honest. signs (node i) k d" "\<forall>i \<in> S' \<inter> honest. signs (node i) k d'"
  shows "d = d'"
proof -
  obtain i where "i \<in> S" "i \<in> S'" "i \<notin> members - honest"
    using two_quorums [OF assms(1-3) Diff_subset assms(4-6)] by blast
  then have "i \<in> S \<inter> honest" "i \<in> S' \<inter> honest" using assms(2) by auto
  then show ?thesis using assms(7,8) signs_once by blast
qed

end

text \<open>What is signed under a key is hashed first: signing once under the key is signing one hash.\<close>

lemma one_shot_hashed:
  assumes "one_shot_signing signs"
  shows "one_shot_signing (\<lambda>n k d. \<exists>e. signs n k e \<and> f e = d)"
proof
  show "d = d'" if "\<exists>e. signs n k e \<and> f e = d" "\<exists>e. signs n k e \<and> f e = d'" for n k d d'
    using that one_shot_signing.signs_once [OF assms] by blast
qed

text \<open>The message that a signer hashes for a digest in a domain.\<close>

definition domain_message :: "string \<Rightarrow> bytes \<Rightarrow> bytes" where
  "domain_message domain digest = str_bytes ''rladkr-domain'' @ str_bytes (toUpper domain) @ digest"

lemma domainDigest_message: "domainDigest domain digest = sha256 (domain_message domain digest)"
  by (simp add: domainDigest_def domain_message_def hashBytes_def)

lemma domain_message_inj: "domain_message domain d = domain_message domain d' \<Longrightarrow> d = d'"
  by (simp add: domain_message_def)

text \<open>A node's own key share: what it signs verifies.\<close>

definition own_key :: "('g, 'h, 'f::field) bls \<Rightarrow> ('g, 'h, 'f) tblsThresholdSigner \<Rightarrow> int \<Rightarrow> bool" where
  "own_key B signer member \<longleftrightarrow> (\<forall>domain digest w. SignShare B signer member domain digest = Some w \<longrightarrow>
     VerifyShare B signer member domain digest w)"

text \<open>The keys of a threshold signer as dealt, over a field in which the members' indices differ.\<close>

definition group_key :: "('g, 'h, 'f::field) bls \<Rightarrow> ('g, 'h, 'f) tblsThresholdSigner \<Rightarrow> bool" where
  "group_key B signer \<longleftrightarrow> (\<exists>cs. dealt B signer cs) \<and>
     inj_on (of_int :: int \<Rightarrow> 'f) {1..int (length (ts_memberOrder signer))}"

text \<open>The signature of the group on a digest.\<close>

definition group_signature :: "('g, 'h, 'f::field) bls \<Rightarrow> 'f list \<Rightarrow> string \<Rightarrow> bytes \<Rightarrow> bytes" where
  "group_signature B cs domain digest =
     bls_Marshal B (g1_smul B (the (bls_HashToG1 B (domainDigest domain digest) (str_bytes domain))) (evalPolyInt cs 0))"

text \<open>Enough verified shares recover the signature of the group, whichever shares they are.\<close>

lemma shares_recover_value:
  fixes B :: "('g, 'h, 'f::field) bls"
  assumes "bls_laws B" "dealt B signer cs"
    and "inj_on (of_int :: int \<Rightarrow> 'f) {1..int (length (ts_memberOrder signer))}"
    and "shares_ok B signer domain digest shares" "ts_t signer \<le> int (length shares)"
  shows "Recover B signer domain digest shares = Some (group_signature B cs domain digest)"
    and "VerifyRecovered B signer domain digest (group_signature B cs domain digest)"
proof -
  have "shares \<noteq> []" using assms(2,5) by (auto simp: dealt_def)
  then obtain m w where "VerifyShare B signer m domain digest w" using assms(4) by (cases shares) (auto simp: shares_ok_def)
  then obtain h where h: "bls_HashToG1 B (domainDigest domain digest) (str_bytes domain) = Some h"
    using VerifyShare_iff [OF assms(1,2)] by blast
  show "Recover B signer domain digest shares = Some (group_signature B cs domain digest)"
    using Recover_dealt [OF assms(1-3) h assms(5)] assms(4) h by (simp add: shares_ok_def group_signature_def)
  have "VerifyRecovered B signer domain digest (bls_Marshal B (g1_smul B h (evalPolyInt cs 0)))"
    using VerifyRecovered_dealt [OF assms(1,2) h] bls_lawsD(2,3,9) [OF assms(1)] h by metis
  then show "VerifyRecovered B signer domain digest (group_signature B cs domain digest)"
    using h by (simp add: group_signature_def)
qed

lemma shares_recover:
  fixes B :: "('g, 'h, 'f::field) bls"
  assumes "bls_laws B" "group_key B signer" "shares_ok B signer domain digest shares" "ts_t signer \<le> int (length shares)"
  shows "\<exists>sig. Recover B signer domain digest shares = Some sig \<and> VerifyRecovered B signer domain digest sig"
  using assms(2) shares_recover_value [OF assms(1) _ _ assms(3,4)] by (auto simp: group_key_def)

end
