(* ===== verification/Net_Decision.thy ===== *)
theory Net_Decision
  imports Net_Base
begin

text \<open>
  The decision of a node's service: the wire form of decision shares (\<^verbatim>\<open>src/core/cv_sapvss_decision_network_v2.go\<close>),
  \<^verbatim>\<open>FinalizeDecision\<close>, \<^verbatim>\<open>handleDecisionShare\<close>, \<^verbatim>\<open>handleHandoff\<close> and \<^verbatim>\<open>AwaitHandoff\<close>
  (\<^verbatim>\<open>src/core/cv_sapvss_apdb_network_v2.go\<close>).  \<^verbatim>\<open>FinalizeDecision\<close> is cut where it waits; its deadline is a stop.  The state
  has the files of the decision store, through which every local share goes.  The abstract specification is the run
  of the decision store: what a node has sent was released by it.
\<close>

section \<open>Decision shares on the wire\<close>

definition cvDecisionShareWireV2Domain :: string where
  [dom_defs]: "cvDecisionShareWireV2Domain = ''ARL-CV-sAPVSS/v2-scalar-group/decision-share-wire''"

record cvDecisionShareV2 =
  dsh_Statement :: bytes
  dsh_Signature :: bytes

definition cvDecisionShareV2CanonicalBytes :: "cvDecisionShareV2 \<Rightarrow> bytes option" where
  [enc_defs]: "cvDecisionShareV2CanonicalBytes share = do {
     require (\<not> (length (dsh_Statement share) \<noteq> 32 \<or> length (dsh_Signature share) = 0 \<or>
       length (dsh_Signature share) > cvMaxComponentSignatureBytes));
     Some (dropped (cvWriteBytes (str_bytes cvDecisionShareWireV2Domain)) @
           dropped (cvWriteBytes (dsh_Statement share)) @ dropped (cvWriteBytes (dsh_Signature share)))
   }"

definition cvDecodeDecisionShareV2 :: "bytes \<Rightarrow> cvDecisionShareV2 option" where
  [dec_defs]: "cvDecodeDecisionShareV2 wire = do {
     (domain, r) \<leftarrow> cvReadBytes (length cvDecisionShareWireV2Domain) (newCVWireReader wire);
     require (domain = str_bytes cvDecisionShareWireV2Domain);
     (statement, r) \<leftarrow> cvReadBytes 32 r;
     require (length statement = 32);
     (signature, r) \<leftarrow> cvReadBytes cvMaxComponentSignatureBytes r;
     require (\<not> (length signature = 0 \<or> r \<noteq> []));
     let share = \<lparr> dsh_Statement = statement, dsh_Signature = signature \<rparr>;
     canonical \<leftarrow> cvDecisionShareV2CanonicalBytes share;
     require (canonical = wire);
     Some share
   }"

interpretation decision_share_codec: wire_codec cvDecisionShareV2CanonicalBytes cvDecodeDecisionShareV2 "\<lambda>_. True"
proof
  fix s w
  assume "cvDecisionShareV2CanonicalBytes s = Some w"
  moreover have "length cvDecisionShareWireV2Domain < 4294967296" by (simp add: dom_defs)
  ultimately show "cvDecodeDecisionShareV2 w = Some s"
    by (cases s) (auto simp: cvDecisionShareV2CanonicalBytes_def cvDecodeDecisionShareV2_def wire_simps split: if_splits)
qed (auto simp: cvDecodeDecisionShareV2_def bind_eq_Some_conv Let_def split: if_splits)

section \<open>State\<close>

record cvPendingDecisionV2 =
  pd_statement :: bytes
  pd_shares :: "(int \<times> bytes) list"
  pd_certificate :: bytes
  pd_ready :: bool

record decision_part =
  pendingDecisions :: "bytes \<rightharpoonup> cvPendingDecisionV2"
  decisionLocalShares :: "bytes \<rightharpoonup> bytes"
  decisionCertificates :: "bytes \<rightharpoonup> bytes"
  acceptedHandoff :: bytes
  handoffReady :: bool
  decisionFiles :: fsys

definition decision_empty :: "fsys \<Rightarrow> decision_part" where
  "decision_empty fs = \<lparr> pendingDecisions = (\<lambda>_. None), decisionLocalShares = (\<lambda>_. None), decisionCertificates = (\<lambda>_. None),
     acceptedHandoff = [], handoffReady = False, decisionFiles = fs \<rparr>"

section \<open>Finalising a decision\<close>

text \<open>Up to the first wait: the state, and the wire form of the local share when the call goes on, \<open>None\<close> for an error.\<close>

definition FinalizeDecision_start ::
  "('g, 'h, 'f::field) bls \<Rightarrow> io_env \<Rightarrow> ('g, 'h, 'f) cvAPDBNetworkServiceConfigV2 \<Rightarrow> ('g, 'h, 'f) tblsThresholdSigner \<Rightarrow>
   cvAgreementObjectV2 \<Rightarrow> decision_part \<Rightarrow> decision_part \<times> bytes option" where
  "FinalizeDecision_start B env cfg controlSigner decided st =
     (case (do {
          store \<leftarrow> sc_DecisionStore cfg;
          require (cvMemberInRosterV2 (sc_LocalNode cfg) (sc_OldRoster cfg));
          statement \<leftarrow> cvDecisionStatementV2 (sc_ExpectedContext cfg) (ao_Header decided) (ao_ARC decided);
          Some (store, statement)
        }) of
        None \<Rightarrow> (st, None)
      | Some (store, statement) \<Rightarrow>
          (case SignHandoffOnce B store env (decisionFiles st) (sc_SID cfg) (sc_Epoch cfg) (sc_LocalNode cfg)
                  (sc_ExpectedContext cfg) (ao_Header decided) (ao_ARC decided) controlSigner of
             (fs, None) \<Rightarrow> (st\<lparr> decisionFiles := fs \<rparr>, None)
           | (fs, Some localShare) \<Rightarrow>
               (let st = st\<lparr> decisionFiles := fs \<rparr>
                in case cvDecisionShareV2CanonicalBytes \<lparr> dsh_Statement = statement, dsh_Signature = localShare \<rparr> of
                     None \<Rightarrow> (st, None)
                   | Some shareWire \<Rightarrow>
                       if pendingDecisions st statement \<noteq> None then (st, None)
                       else (let shares = [(sc_LocalNode cfg, localShare)];
                                 certificate = bytes_at (decisionCertificates st) statement;
                                 pending = \<lparr> pd_statement = statement, pd_shares = shares, pd_certificate = certificate,
                                   pd_ready = (length certificate \<noteq> 0 \<or> int (length shares) \<ge> ts_t controlSigner) \<rparr>
                             in (st\<lparr> pendingDecisions := (pendingDecisions st)(statement \<mapsto> pending),
                                     decisionLocalShares := (decisionLocalShares st)(statement \<mapsto> localShare) \<rparr>,
                                 Some shareWire)))))"

text \<open>One round of the retry loop: the share to the members that are missing, when it still waits.\<close>

definition decision_enough :: "('g, 'h, 'f) tblsThresholdSigner \<Rightarrow> cvPendingDecisionV2 \<Rightarrow> bool" where
  "decision_enough controlSigner pending \<longleftrightarrow>
     length (pd_certificate pending) \<noteq> 0 \<or> int (length (pd_shares pending)) \<ge> ts_t controlSigner"

definition FinalizeDecision_retry ::
  "('g, 'h, 'f) cvAPDBNetworkServiceConfigV2 \<Rightarrow> ('g, 'h, 'f) tblsThresholdSigner \<Rightarrow> bytes \<Rightarrow> decision_part \<Rightarrow>
   cvOutboundMessageV2 list" where
  "FinalizeDecision_retry cfg controlSigner statement st =
     (case pendingDecisions st statement of
        None \<Rightarrow> []
      | Some pending \<Rightarrow>
          if decision_enough controlSigner pending then []
          else (case cvDecisionShareV2CanonicalBytes \<lparr> dsh_Statement = statement,
                       dsh_Signature = bytes_at (decisionLocalShares st) statement \<rparr> of
                  None \<Rightarrow> []
                | Some shareWire \<Rightarrow> map (\<lambda>member. (member, cvTagDecisionShareV2, shareWire))
                    (filter (\<lambda>member. member \<noteq> sc_LocalNode cfg \<and> member \<notin> fst ` set (pd_shares pending)) (sc_OldRoster cfg))))"

text \<open>After the loop: the certificate that was received, or the one the shares give.\<close>

definition decision_certificate ::
  "('g, 'h, 'f::field) bls \<Rightarrow> ('g, 'h, 'f) tblsThresholdSigner \<Rightarrow> bytes \<Rightarrow> cvPendingDecisionV2 \<Rightarrow> bytes option" where
  "decision_certificate B controlSigner statement pending = do {
     decCert \<leftarrow> (if length (pd_certificate pending) = 0
       then Recover B controlSigner cvDecisionCertificateV2Domain statement (pd_shares pending) else Some (pd_certificate pending));
     require (VerifyRecovered B controlSigner cvDecisionCertificateV2Domain statement decCert);
     Some decCert
   }"

definition FinalizeDecision_formed ::
  "('g, 'h, 'f::field) bls \<Rightarrow> ('g, 'h, 'f) cvAPDBNetworkServiceConfigV2 \<Rightarrow> ('g, 'h, 'f) tblsThresholdSigner \<Rightarrow>
   ('g, 'h, 'f) tblsThresholdSigner \<Rightarrow> cvAgreementObjectV2 \<Rightarrow> decision_part \<Rightarrow> (cvHandoffV2 \<times> cvOutboundMessageV2 list) option" where
  "FinalizeDecision_formed B cfg apdbSigner controlSigner decided st = do {
     statement \<leftarrow> cvDecisionStatementV2 (sc_ExpectedContext cfg) (ao_Header decided) (ao_ARC decided);
     pending \<leftarrow> pendingDecisions st statement;
     decCert \<leftarrow> decision_certificate B controlSigner statement pending;
     let handoff = \<lparr> ho_ContextDigest = sc_ExpectedContext cfg, ho_Header = ao_Header decided, ho_ARC = ao_ARC decided,
       ho_DecCert = decCert \<rparr>;
     require (cvVerifyHandoffV2 B handoff (sc_ExpectedContext cfg) apdbSigner controlSigner);
     handoffWire \<leftarrow> cvHandoffV2CanonicalBytes handoff;
     Some (handoff, send_to_all (sortedUnique (sc_OldRoster cfg @ sc_NewRoster cfg)) (sc_LocalNode cfg) cvTagHandoffV2 handoffWire)
   }"

definition forget_decision :: "bytes \<Rightarrow> decision_part \<Rightarrow> decision_part" where
  "forget_decision statement st = st\<lparr> pendingDecisions := (pendingDecisions st)(statement := None) \<rparr>"

section \<open>Messages\<close>

definition handleDecisionShare ::
  "('g, 'h, 'f) bls \<Rightarrow> ('g, 'h, 'f) tblsThresholdSigner \<Rightarrow> int \<Rightarrow> bytes \<Rightarrow> decision_part \<Rightarrow>
   decision_part \<times> cvOutboundMessageV2 list" where
  "handleDecisionShare B controlSigner from body st =
     (case cvDecodeDecisionShareV2 body of
        None \<Rightarrow> (st, [])
      | Some share \<Rightarrow>
          if \<not> VerifyShare B controlSigner from cvDecisionCertificateV2Domain (dsh_Statement share) (dsh_Signature share) then (st, [])
          else (let key = dsh_Statement share; localShare = bytes_at (decisionLocalShares st) key
                in (case pendingDecisions st key of
                      None \<Rightarrow> st
                    | Some pending \<Rightarrow>
                        (let shares = put_first from (dsh_Signature share) (pd_shares pending)
                         in st\<lparr> pendingDecisions := (pendingDecisions st)(key \<mapsto> pending\<lparr> pd_shares := shares,
                              pd_ready := (pd_ready pending \<or> int (length shares) \<ge> ts_t controlSigner) \<rparr>) \<rparr>),
                    if length localShare \<noteq> 0 then reply from cvTagDecisionShareV2
                      (cvDecisionShareV2CanonicalBytes \<lparr> dsh_Statement = key, dsh_Signature = localShare \<rparr>) else [])))"

text \<open>What a verified handoff does to a member of the old committee, and to one of the new.\<close>

definition certificate_received :: "bytes \<Rightarrow> bytes \<Rightarrow> decision_part \<Rightarrow> decision_part" where
  "certificate_received statement decCert st =
     (let st = (if length (bytes_at (decisionCertificates st) statement) = 0
            then st\<lparr> decisionCertificates := (decisionCertificates st)(statement \<mapsto> decCert) \<rparr> else st)
      in case pendingDecisions st statement of
           None \<Rightarrow> st
         | Some pending \<Rightarrow>
             if length (pd_certificate pending) \<noteq> 0 then st
             else st\<lparr> pendingDecisions := (pendingDecisions st)(statement \<mapsto>
                    pending\<lparr> pd_certificate := decCert, pd_ready := True \<rparr>) \<rparr>)"

definition handoff_received :: "bytes \<Rightarrow> decision_part \<Rightarrow> decision_part" where
  "handoff_received body st =
     (if length (acceptedHandoff st) = 0 then st\<lparr> acceptedHandoff := body, handoffReady := True \<rparr> else st)"

definition handleHandoff ::
  "('g, 'h, 'f) bls \<Rightarrow> ('g, 'h, 'f) cvAPDBNetworkServiceConfigV2 \<Rightarrow> ('g, 'h, 'f) tblsThresholdSigner \<Rightarrow>
   ('g, 'h, 'f) tblsThresholdSigner \<Rightarrow> bytes \<Rightarrow> decision_part \<Rightarrow> decision_part" where
  "handleHandoff B cfg apdbSigner controlSigner body st =
     (let isOld = cvMemberInRosterV2 (sc_LocalNode cfg) (sc_OldRoster cfg);
          isNew = cvMemberInRosterV2 (sc_LocalNode cfg) (sc_NewRoster cfg)
      in if \<not> isOld \<and> \<not> isNew then st
         else case cvDecodeHandoffV2 body of
           None \<Rightarrow> st
         | Some handoff \<Rightarrow>
             if \<not> cvVerifyHandoffV2 B handoff (sc_ExpectedContext cfg) apdbSigner controlSigner then st
             else (let st = (if isOld then
                        (case cvDecisionStatementV2 (sc_ExpectedContext cfg) (ho_Header handoff) (ho_ARC handoff) of
                           None \<Rightarrow> st | Some statement \<Rightarrow> certificate_received statement (ho_DecCert handoff) st) else st)
                   in if isNew then handoff_received body st else st))"

text \<open>\<^verbatim>\<open>AwaitHandoff\<close>: what it reads once a handoff has been accepted; \<open>wake\<close> takes the notification.\<close>

definition AwaitHandoff_wake :: "decision_part \<Rightarrow> decision_part" where
  "AwaitHandoff_wake st = st\<lparr> handoffReady := False \<rparr>"

definition AwaitHandoff_read ::
  "('g, 'h, 'f) bls \<Rightarrow> ('g, 'h, 'f) cvAPDBNetworkServiceConfigV2 \<Rightarrow> ('g, 'h, 'f) tblsThresholdSigner \<Rightarrow>
   ('g, 'h, 'f) tblsThresholdSigner \<Rightarrow> decision_part \<Rightarrow> cvHandoffV2 option" where
  "AwaitHandoff_read B cfg apdbSigner controlSigner st = do {
     require (cvMemberInRosterV2 (sc_LocalNode cfg) (sc_NewRoster cfg));
     handoff \<leftarrow> cvDecodeHandoffV2 (acceptedHandoff st);
     require (cvVerifyHandoffV2 B handoff (sc_ExpectedContext cfg) apdbSigner controlSigner);
     Some handoff
   }"

section \<open>Runs\<close>

datatype decision_event =
    FinalizeStart io_env cvAgreementObjectV2
  | FinalizeRetry bytes
  | FinalizeFinish cvAgreementObjectV2
  | FinalizeStop bytes
  | DecisionShareMessage int bytes
  | HandoffMessage int bytes
  | HandoffWake

text \<open>The result of an event: the state, the messages sent and the handoffs returned.\<close>

definition decision_step ::
  "('g, 'h, 'f::field) bls \<Rightarrow> ('g, 'h, 'f) cvAPDBNetworkServiceConfigV2 \<Rightarrow> ('g, 'h, 'f) tblsThresholdSigner \<Rightarrow>
   ('g, 'h, 'f) tblsThresholdSigner \<Rightarrow> decision_event \<Rightarrow> decision_part \<Rightarrow>
   decision_part \<times> cvOutboundMessageV2 list \<times> cvHandoffV2 list" where
  "decision_step B cfg apdbSigner controlSigner ev st = (case ev of
     FinalizeStart env decided \<Rightarrow> (fst (FinalizeDecision_start B env cfg controlSigner decided st), [], [])
   | FinalizeRetry statement \<Rightarrow> (st, FinalizeDecision_retry cfg controlSigner statement st, [])
   | FinalizeFinish decided \<Rightarrow>
       (case cvDecisionStatementV2 (sc_ExpectedContext cfg) (ao_Header decided) (ao_ARC decided) of
          None \<Rightarrow> (st, [], [])
        | Some statement \<Rightarrow> (case FinalizeDecision_formed B cfg apdbSigner controlSigner decided st of
            None \<Rightarrow> (forget_decision statement st, [], [])
          | Some (handoff, msgs) \<Rightarrow> (forget_decision statement st, msgs, [handoff])))
   | FinalizeStop statement \<Rightarrow> (forget_decision statement st, [], [])
   | DecisionShareMessage from body \<Rightarrow> (case handleDecisionShare B controlSigner from body st of (st', msgs) \<Rightarrow> (st', msgs, []))
   | HandoffMessage from body \<Rightarrow> (handleHandoff B cfg apdbSigner controlSigner body st, [], [])
   | HandoffWake \<Rightarrow> (AwaitHandoff_wake st, [], []))"

inductive decision_service_run ::
  "('g, 'h, 'f::field) bls \<Rightarrow> ('g, 'h, 'f) cvAPDBNetworkServiceConfigV2 \<Rightarrow> ('g, 'h, 'f) tblsThresholdSigner \<Rightarrow>
   ('g, 'h, 'f) tblsThresholdSigner \<Rightarrow> decision_part \<Rightarrow> cvOutboundMessageV2 list \<Rightarrow> cvHandoffV2 list \<Rightarrow> bool"
  for B cfg apdbSigner controlSigner where
  decision_run_start: "decision_service_run B cfg apdbSigner controlSigner (decision_empty fs) [] []"
| decision_run_step: "decision_service_run B cfg apdbSigner controlSigner st sent returned \<Longrightarrow>
    decision_step B cfg apdbSigner controlSigner ev st = (st', msgs, new) \<Longrightarrow>
    decision_service_run B cfg apdbSigner controlSigner st' (sent @ msgs) (returned @ new)"

section \<open>Refinement of the decision store\<close>

definition sends_decision_share :: "cvOutboundMessageV2 list \<Rightarrow> bytes \<Rightarrow> bool" where
  "sends_decision_share msgs statement \<longleftrightarrow> (\<exists>to w share. (to, cvTagDecisionShareV2, w) \<in> set msgs \<and>
     cvDecodeDecisionShareV2 w = Some share \<and> dsh_Statement share = statement)"

text \<open>The store has released a signature of this member for the statement.\<close>

definition released_for :: "('g, 'h, 'f) cvAPDBNetworkServiceConfigV2 \<Rightarrow> decision_call list \<Rightarrow> bytes \<Rightarrow> bool" where
  "released_for cfg calls statement \<longleftrightarrow> (\<exists>c \<in> set calls. dc_sid c = sc_SID cfg \<and> dc_epoch c = sc_Epoch cfg \<and>
     dc_member c = sc_LocalNode cfg \<and> cvDecisionStatementV2 (dc_context c) (dc_header c) (dc_arc c) = Some statement)"

lemma released_for_append: "released_for cfg calls statement \<Longrightarrow> released_for cfg (calls @ cs) statement"
  by (auto simp: released_for_def)

lemma released_once:
  assumes "decision_run B store signer fs calls" "released_for cfg calls st1" "released_for cfg calls st2"
  shows "st1 = st2"
proof -
  obtain c1 c2 where c: "c1 \<in> set calls" "c2 \<in> set calls" "dc_sid c1 = dc_sid c2" "dc_epoch c1 = dc_epoch c2" "dc_member c1 = dc_member c2"
    "cvDecisionStatementV2 (dc_context c1) (dc_header c1) (dc_arc c1) = Some st1"
    "cvDecisionStatementV2 (dc_context c2) (dc_header c2) (dc_arc c2) = Some st2"
    using assms(2,3) by (fastforce simp: released_for_def)
  obtain p1 r1 where r1: "decision_path store (dc_sid c1) (dc_epoch c1) (dc_member c1) = Some p1" "decision_record c1 = Some r1"
    "file_get fs p1 = Some r1" using decision_run_stored [OF assms(1) c(1)] by blast
  obtain p2 r2 where r2: "decision_path store (dc_sid c2) (dc_epoch c2) (dc_member c2) = Some p2" "decision_record c2 = Some r2"
    "file_get fs p2 = Some r2" using decision_run_stored [OF assms(1) c(2)] by blast
  have "r1 = r2" using r1 r2 c(3-5) by simp
  then have "cvDecisionStatementV2 (dc_context c1) (dc_header c1) (dc_arc c1) =
      cvDecisionStatementV2 (dc_context c2) (dc_header c2) (dc_arc c2)"
    by (intro decision_record_inj [OF r1(2) _ c(3-5)]) (use r2(2) in simp)
  then show ?thesis using c(6,7) by simp
qed

lemma sends_decision_append:
  "sends_decision_share (xs @ ys) d \<longleftrightarrow> sends_decision_share xs d \<or> sends_decision_share ys d"
  unfolding sends_decision_share_def set_append Un_iff by blast

lemma sends_decision_nothing: "\<forall>(to, tag, w) \<in> set msgs. tag \<noteq> cvTagDecisionShareV2 \<Longrightarrow> \<not> sends_decision_share msgs d"
  by (auto simp: sends_decision_share_def)

text \<open>What a call of \<^verbatim>\<open>FinalizeDecision\<close> does before it waits: at most one call of the decision store.\<close>

lemma FinalizeDecision_start_cases:
  assumes "sc_DecisionStore cfg = Some store"
  obtains (untouched) "fst (FinalizeDecision_start B env cfg controlSigner decided st) = st"
  | (withheld) fs where "SignHandoffOnce B store env (decisionFiles st) (sc_SID cfg) (sc_Epoch cfg) (sc_LocalNode cfg)
        (sc_ExpectedContext cfg) (ao_Header decided) (ao_ARC decided) controlSigner = (fs, None)"
      "fst (FinalizeDecision_start B env cfg controlSigner decided st) = st\<lparr> decisionFiles := fs \<rparr>"
  | (released) fs share statement st' where "SignHandoffOnce B store env (decisionFiles st) (sc_SID cfg) (sc_Epoch cfg) (sc_LocalNode cfg)
        (sc_ExpectedContext cfg) (ao_Header decided) (ao_ARC decided) controlSigner = (fs, Some share)"
      "cvDecisionStatementV2 (sc_ExpectedContext cfg) (ao_Header decided) (ao_ARC decided) = Some statement"
      "fst (FinalizeDecision_start B env cfg controlSigner decided st) = st'" "decisionFiles st' = fs"
      "st' = st\<lparr> decisionFiles := fs \<rparr> \<or> pendingDecisions st statement = None \<and>
         st' = st\<lparr> decisionFiles := fs, pendingDecisions := (pendingDecisions st)(statement \<mapsto> \<lparr> pd_statement = statement,
             pd_shares = [(sc_LocalNode cfg, share)], pd_certificate = bytes_at (decisionCertificates st) statement,
             pd_ready = (length (bytes_at (decisionCertificates st) statement) \<noteq> 0 \<or> ts_t controlSigner \<le> 1) \<rparr>),
           decisionLocalShares := (decisionLocalShares st)(statement \<mapsto> share) \<rparr>"
proof (cases "cvMemberInRosterV2 (sc_LocalNode cfg) (sc_OldRoster cfg) \<and>
    cvDecisionStatementV2 (sc_ExpectedContext cfg) (ao_Header decided) (ao_ARC decided) \<noteq> None")
  case False
  then have "fst (FinalizeDecision_start B env cfg controlSigner decided st) = st"
    by (auto simp: FinalizeDecision_start_def assms run_simps split: option.splits prod.splits)
  then show ?thesis by (rule untouched)
next
  case True
  then obtain statement where s: "cvMemberInRosterV2 (sc_LocalNode cfg) (sc_OldRoster cfg)"
    "cvDecisionStatementV2 (sc_ExpectedContext cfg) (ao_Header decided) (ao_ARC decided) = Some statement" by blast
  obtain fs r where r: "SignHandoffOnce B store env (decisionFiles st) (sc_SID cfg) (sc_Epoch cfg) (sc_LocalNode cfg)
      (sc_ExpectedContext cfg) (ao_Header decided) (ao_ARC decided) controlSigner = (fs, r)" by fastforce
  show ?thesis
  proof (cases r)
    case None
    then show ?thesis using withheld [of fs] r s by (simp add: FinalizeDecision_start_def assms)
  next
    case (Some share)
    show ?thesis
      by (rule released [OF r [unfolded Some] s(2) refl])
         (use r s Some in \<open>auto simp: FinalizeDecision_start_def assms Let_def split: option.split\<close>)
  qed
qed

lemma handleDecisionShare_parts:
  assumes "handleDecisionShare B controlSigner m body st = (st', msgs)"
  shows "decisionFiles st' = decisionFiles st" "decisionLocalShares st' = decisionLocalShares st"
    "decisionCertificates st' = decisionCertificates st" "acceptedHandoff st' = acceptedHandoff st"
    "sends_decision_share msgs d \<Longrightarrow> decisionLocalShares st d \<noteq> None"
proof -
  show "decisionFiles st' = decisionFiles st" "decisionLocalShares st' = decisionLocalShares st"
    "decisionCertificates st' = decisionCertificates st" "acceptedHandoff st' = acceptedHandoff st"
    using assms by (auto simp: handleDecisionShare_def Let_def split: option.splits if_splits)
  assume "sends_decision_share msgs d"
  then obtain to w share where w: "(to, cvTagDecisionShareV2, w) \<in> set msgs" "cvDecodeDecisionShareV2 w = Some share" "dsh_Statement share = d"
    by (auto simp: sends_decision_share_def)
  then obtain key where key: "length (bytes_at (decisionLocalShares st) key) \<noteq> 0"
    "(to, cvTagDecisionShareV2, w) \<in> set (reply m cvTagDecisionShareV2
       (cvDecisionShareV2CanonicalBytes \<lparr> dsh_Statement = key, dsh_Signature = bytes_at (decisionLocalShares st) key \<rparr>))"
    using assms by (auto simp: handleDecisionShare_def Let_def split: option.splits if_splits)
  then have "cvDecisionShareV2CanonicalBytes \<lparr> dsh_Statement = key, dsh_Signature = bytes_at (decisionLocalShares st) key \<rparr> = Some w"
    by (blast dest: reply_mem)
  then have "d = key" using decision_share_codec.decode_encode [OF _] w(2,3) by fastforce
  then show "decisionLocalShares st d \<noteq> None" using key(1) bytes_at_Some by fastforce
qed

lemma FinalizeDecision_retry_sends:
  assumes "sends_decision_share (FinalizeDecision_retry cfg controlSigner statement st) d"
  shows "decisionLocalShares st d \<noteq> None"
proof -
  let ?share = "\<lparr> dsh_Statement = statement, dsh_Signature = bytes_at (decisionLocalShares st) statement \<rparr>"
  obtain to w share where w: "(to, cvTagDecisionShareV2, w) \<in> set (FinalizeDecision_retry cfg controlSigner statement st)"
    "cvDecodeDecisionShareV2 w = Some share" "dsh_Statement share = d"
    using assms by (auto simp: sends_decision_share_def)
  then have enc: "cvDecisionShareV2CanonicalBytes ?share = Some w"
    by (auto simp: FinalizeDecision_retry_def split: option.splits if_splits)
  then have "d = statement" using decision_share_codec.decode_encode [OF _ enc] w(2,3) by auto
  moreover have "bytes_at (decisionLocalShares st) statement \<noteq> []"
    using enc by (auto simp: cvDecisionShareV2CanonicalBytes_def run_simps)
  ultimately show ?thesis using bytes_at_Some by blast
qed

lemma handleHandoff_parts:
  "decisionFiles (handleHandoff B cfg apdbSigner controlSigner body st) = decisionFiles st"
  "decisionLocalShares (handleHandoff B cfg apdbSigner controlSigner body st) = decisionLocalShares st"
  by (auto simp: handleHandoff_def certificate_received_def handoff_received_def Let_def split: option.split)

lemma decision_service_refines:
  assumes "decision_service_run B cfg apdbSigner controlSigner st sent returned" "sc_DecisionStore cfg = Some store"
  shows "\<exists>calls. decision_run B store controlSigner (decisionFiles st) calls \<and>
    (\<forall>key. decisionLocalShares st key \<noteq> None \<longrightarrow> released_for cfg calls key) \<and>
    (\<forall>d. sends_decision_share sent d \<longrightarrow> released_for cfg calls d)"
  using assms(1)
proof induction
  case (decision_run_start fs)
  then show ?case using decision_run.start [of B store controlSigner fs]
    by (auto simp: decision_empty_def sends_decision_share_def)
next
  case (decision_run_step st sent returned ev st' msgs new)
  obtain calls where IH: "decision_run B store controlSigner (decisionFiles st) calls"
    "\<And>key. decisionLocalShares st key \<noteq> None \<Longrightarrow> released_for cfg calls key"
    "\<And>d. sends_decision_share sent d \<Longrightarrow> released_for cfg calls d"
    using decision_run_step.IH by blast
  have same: ?case if "decisionFiles st' = decisionFiles st" "decisionLocalShares st' = decisionLocalShares st"
    "\<And>d. sends_decision_share msgs d \<Longrightarrow> decisionLocalShares st d \<noteq> None"
    using that IH by (auto simp: sends_decision_append)
  show ?case
  proof (cases ev)
    case (FinalizeStart env decided)
    then have st': "st' = fst (FinalizeDecision_start B env cfg controlSigner decided st)" and msgs: "\<not> sends_decision_share msgs d" for d
      using decision_run_step.hyps(2) by (auto simp: decision_step_def sends_decision_share_def)
    show ?thesis using assms(2)
    proof (cases rule: FinalizeDecision_start_cases [where B = B and env = env and controlSigner = controlSigner and decided = decided and st = st])
      case untouched
      then show ?thesis using st' msgs same by simp
    next
      case (withheld fs)
      let ?c = "\<lparr> dc_sid = sc_SID cfg, dc_epoch = sc_Epoch cfg, dc_member = sc_LocalNode cfg, dc_context = sc_ExpectedContext cfg,
        dc_header = ao_Header decided, dc_arc = ao_ARC decided \<rparr>"
      have "decision_run B store controlSigner fs calls" by (rule decision_run.withheld [OF IH(1), of env ?c]) (use withheld(1) in simp)
      then show ?thesis using st' msgs IH withheld(2) by (auto simp: sends_decision_append)
    next
      case (released fs share statement st1)
      let ?c = "\<lparr> dc_sid = sc_SID cfg, dc_epoch = sc_Epoch cfg, dc_member = sc_LocalNode cfg, dc_context = sc_ExpectedContext cfg,
        dc_header = ao_Header decided, dc_arc = ao_ARC decided \<rparr>"
      have run: "decision_run B store controlSigner fs (calls @ [?c])"
        by (rule decision_run.released [OF IH(1), of env ?c]) (use released(1) in simp)
      have new: "released_for cfg (calls @ [?c]) statement" using released(2) by (simp add: released_for_def)
      have keys: "key = statement \<or> decisionLocalShares st key \<noteq> None" if "decisionLocalShares st' key \<noteq> None" for key
        using that released(3,5) st' by auto
      have "released_for cfg (calls @ [?c]) key" if "decisionLocalShares st' key \<noteq> None" for key
        using keys [OF that] new IH(2) released_for_append by blast
      moreover have "released_for cfg (calls @ [?c]) d" if "sends_decision_share (sent @ msgs) d" for d
      proof -
        have "sends_decision_share sent d" using that msgs by (simp add: sends_decision_append)
        then show ?thesis using IH(3) released_for_append by blast
      qed
      ultimately show ?thesis using run st' released(3,4) by blast
    qed
  next
    case (FinalizeRetry statement)
    then show ?thesis using decision_run_step.hyps(2) FinalizeDecision_retry_sends
      by (intro same) (auto simp: decision_step_def)
  next
    case (FinalizeFinish decided)
    have "\<forall>(to, tag, w) \<in> set msgs. tag \<noteq> cvTagDecisionShareV2" using decision_run_step.hyps(2) FinalizeFinish
      by (auto simp: decision_step_def FinalizeDecision_formed_def run_simps send_to_all_def tag_defs Let_def split: option.splits)
    moreover have "decisionFiles st' = decisionFiles st" "decisionLocalShares st' = decisionLocalShares st"
      using decision_run_step.hyps(2) FinalizeFinish by (auto simp: decision_step_def forget_decision_def split: option.splits)
    ultimately show ?thesis using same sends_decision_nothing by blast
  next
    case (FinalizeStop statement)
    then show ?thesis using decision_run_step.hyps(2)
      by (intro same) (auto simp: decision_step_def forget_decision_def sends_decision_share_def)
  next
    case (DecisionShareMessage m body)
    then have h: "handleDecisionShare B controlSigner m body st = (st', msgs)"
      using decision_run_step.hyps(2) by (auto simp: decision_step_def split: prod.splits)
    show ?thesis by (rule same) (rule handleDecisionShare_parts [OF h], assumption?)+
  next
    case (HandoffMessage m body)
    then show ?thesis using decision_run_step.hyps(2) handleHandoff_parts
      by (intro same) (auto simp: decision_step_def sends_decision_share_def)
  next
    case HandoffWake
    then show ?thesis using decision_run_step.hyps(2)
      by (intro same) (auto simp: decision_step_def AwaitHandoff_wake_def sends_decision_share_def)
  qed
qed

section \<open>What the node holds\<close>

definition pending_decision_ok ::
  "('g, 'h, 'f) bls \<Rightarrow> ('g, 'h, 'f) tblsThresholdSigner \<Rightarrow> bytes \<Rightarrow> cvPendingDecisionV2 \<Rightarrow> bool" where
  "pending_decision_ok B controlSigner key pending \<longleftrightarrow>
     shares_ok B controlSigner cvDecisionCertificateV2Domain key (pd_shares pending) \<and>
     (pd_certificate pending \<noteq> [] \<longrightarrow> VerifyRecovered B controlSigner cvDecisionCertificateV2Domain key (pd_certificate pending)) \<and>
     (pd_ready pending \<longleftrightarrow> decision_enough controlSigner pending)"

definition accepted_ok ::
  "('g, 'h, 'f) bls \<Rightarrow> ('g, 'h, 'f) cvAPDBNetworkServiceConfigV2 \<Rightarrow> ('g, 'h, 'f) tblsThresholdSigner \<Rightarrow>
   ('g, 'h, 'f) tblsThresholdSigner \<Rightarrow> bytes \<Rightarrow> bool" where
  "accepted_ok B cfg apdbSigner controlSigner w \<longleftrightarrow> (\<exists>h. cvDecodeHandoffV2 w = Some h \<and>
     cvVerifyHandoffV2 B h (sc_ExpectedContext cfg) apdbSigner controlSigner)"

definition decision_inv ::
  "('g, 'h, 'f) bls \<Rightarrow> ('g, 'h, 'f) cvAPDBNetworkServiceConfigV2 \<Rightarrow> ('g, 'h, 'f) tblsThresholdSigner \<Rightarrow>
   ('g, 'h, 'f) tblsThresholdSigner \<Rightarrow> decision_part \<Rightarrow> bool" where
  "decision_inv B cfg apdbSigner controlSigner st \<longleftrightarrow>
     (\<forall>key pending. pendingDecisions st key = Some pending \<longrightarrow> pending_decision_ok B controlSigner key pending) \<and>
     (\<forall>key. bytes_at (decisionCertificates st) key \<noteq> [] \<longrightarrow>
        VerifyRecovered B controlSigner cvDecisionCertificateV2Domain key (bytes_at (decisionCertificates st) key)) \<and>
     (acceptedHandoff st \<noteq> [] \<longrightarrow> accepted_ok B cfg apdbSigner controlSigner (acceptedHandoff st))"

text \<open>A share that the decision store releases has been verified by it.\<close>

lemma released_share_verifies:
  "SignHandoffOnce B store env fs sid epoch member ctx header arc controlSigner = (fs', Some share) \<Longrightarrow>
   cvDecisionStatementV2 ctx header arc = Some statement \<Longrightarrow>
   VerifyShare B controlSigner member cvDecisionCertificateV2Domain statement share"
  by (auto simp: SignHandoffOnce_def run_simps split: option.splits prod.splits)

lemma FinalizeDecision_start_inv:
  assumes "decision_inv B cfg apdbSigner controlSigner st"
  shows "decision_inv B cfg apdbSigner controlSigner (fst (FinalizeDecision_start B env cfg controlSigner decided st))"
proof (cases "sc_DecisionStore cfg")
  case None
  then show ?thesis using assms by (simp add: FinalizeDecision_start_def)
next
  case (Some store)
  have files: "decision_inv B cfg apdbSigner controlSigner (st\<lparr> decisionFiles := fs \<rparr>)" for fs
    using assms by (simp add: decision_inv_def)
  show ?thesis using Some
  proof (cases rule: FinalizeDecision_start_cases [where B = B and env = env and controlSigner = controlSigner and decided = decided and st = st])
    case untouched
    then show ?thesis using assms by simp
  next
    case withheld
    then show ?thesis using files by simp
  next
    case (released fs share statement st')
    have "pending_decision_ok B controlSigner statement \<lparr> pd_statement = statement,
        pd_shares = [(sc_LocalNode cfg, share)], pd_certificate = bytes_at (decisionCertificates st) statement,
        pd_ready = (length (bytes_at (decisionCertificates st) statement) \<noteq> 0 \<or> ts_t controlSigner \<le> 1) \<rparr>"
      using released_share_verifies [OF released(1,2)] assms
      by (simp add: pending_decision_ok_def decision_enough_def shares_ok_single decision_inv_def)
    note pending = this
    from released(5) show ?thesis
    proof (elim disjE conjE)
      assume "st' = st\<lparr> decisionFiles := fs \<rparr>"
      then show ?thesis using released(3) files by simp
    qed (use released(3) pending assms in \<open>simp add: decision_inv_def\<close>)
  qed
qed

lemma handleDecisionShare_inv:
  assumes "decision_inv B cfg apdbSigner controlSigner st"
  shows "decision_inv B cfg apdbSigner controlSigner (fst (handleDecisionShare B controlSigner m body st))"
proof -
  have "pending_decision_ok B controlSigner key (pending\<lparr> pd_shares := put_first m w (pd_shares pending),
      pd_ready := (pd_ready pending \<or> int (length (put_first m w (pd_shares pending))) \<ge> ts_t controlSigner) \<rparr>)"
    if "VerifyShare B controlSigner m cvDecisionCertificateV2Domain key w" "pendingDecisions st key = Some pending" for key w pending
  proof -
    have ok: "pending_decision_ok B controlSigner key pending" using assms that(2) by (simp add: decision_inv_def)
    moreover have "length (pd_shares pending) \<le> length (put_first m w (pd_shares pending))" by (simp add: put_first_def)
    ultimately show ?thesis using shares_ok_put that(1) by (auto simp: pending_decision_ok_def decision_enough_def)
  qed
  then have "decision_inv B cfg apdbSigner controlSigner (st\<lparr> pendingDecisions := (pendingDecisions st)(key \<mapsto>
      pending\<lparr> pd_shares := put_first m w (pd_shares pending),
        pd_ready := (pd_ready pending \<or> int (length (put_first m w (pd_shares pending))) \<ge> ts_t controlSigner) \<rparr>) \<rparr>)"
    if "VerifyShare B controlSigner m cvDecisionCertificateV2Domain key w" "pendingDecisions st key = Some pending" for key w pending
    using assms that by (simp add: decision_inv_def)
  then show ?thesis using assms by (simp add: handleDecisionShare_def Let_def split: option.split)
qed

lemma handoff_statement:
  assumes "cvVerifyHandoffV2 B h ctx apdbSigner controlSigner"
  obtains statement where "cvDecisionStatementV2 ctx (ho_Header h) (ho_ARC h) = Some statement" "ho_ContextDigest h = ctx"
    "VerifyRecovered B controlSigner cvDecisionCertificateV2Domain statement (ho_DecCert h)" "ho_DecCert h \<noteq> []"
  using assms by (auto simp: cvVerifyHandoffV2_def run_simps cvHandoffV2CanonicalBytes_def)

lemma certificate_received_inv:
  assumes "decision_inv B cfg apdbSigner controlSigner st"
    and "VerifyRecovered B controlSigner cvDecisionCertificateV2Domain statement decCert" "decCert \<noteq> []"
  shows "decision_inv B cfg apdbSigner controlSigner (certificate_received statement decCert st)"
proof -
  have certs: "decision_inv B cfg apdbSigner controlSigner (st\<lparr> decisionCertificates := (decisionCertificates st)(statement \<mapsto> decCert) \<rparr>)"
    using assms by (auto simp: decision_inv_def bytes_at_def)
  have "decision_inv B cfg apdbSigner controlSigner (case pendingDecisions st' statement of None \<Rightarrow> st' | Some pending \<Rightarrow>
      if length (pd_certificate pending) \<noteq> 0 then st' else st'\<lparr> pendingDecisions := (pendingDecisions st')(statement \<mapsto>
        pending\<lparr> pd_certificate := decCert, pd_ready := True \<rparr>) \<rparr>)" if "decision_inv B cfg apdbSigner controlSigner st'" for st'
    using that assms(2,3) by (auto simp: decision_inv_def pending_decision_ok_def decision_enough_def split: option.split)
  then show ?thesis using certs assms(1) by (auto simp: certificate_received_def Let_def)
qed

lemma handleHandoff_inv:
  assumes "decision_inv B cfg apdbSigner controlSigner st"
  shows "decision_inv B cfg apdbSigner controlSigner (handleHandoff B cfg apdbSigner controlSigner body st)"
proof (cases "\<exists>h. cvDecodeHandoffV2 body = Some h \<and> cvVerifyHandoffV2 B h (sc_ExpectedContext cfg) apdbSigner controlSigner")
  case False
  then show ?thesis using assms by (cases "cvDecodeHandoffV2 body") (auto simp: handleHandoff_def Let_def)
next
  case True
  then obtain h where h: "cvDecodeHandoffV2 body = Some h" "cvVerifyHandoffV2 B h (sc_ExpectedContext cfg) apdbSigner controlSigner" by blast
  obtain statement where s: "cvDecisionStatementV2 (sc_ExpectedContext cfg) (ho_Header h) (ho_ARC h) = Some statement"
    "VerifyRecovered B controlSigner cvDecisionCertificateV2Domain statement (ho_DecCert h)" "ho_DecCert h \<noteq> []"
    using handoff_statement [OF h(2)] by metis
  have acc: "decision_inv B cfg apdbSigner controlSigner (handoff_received body st')"
    if "decision_inv B cfg apdbSigner controlSigner st'" for st'
    using that h by (auto simp: handoff_received_def decision_inv_def accepted_ok_def)
  show ?thesis using h s(1) assms acc certificate_received_inv [OF assms s(2,3)] by (simp add: handleHandoff_def Let_def)
qed

lemma decision_service_inv:
  assumes "decision_service_run B cfg apdbSigner controlSigner st sent returned"
  shows "decision_inv B cfg apdbSigner controlSigner st \<and>
    (\<forall>h \<in> set returned. cvVerifyHandoffV2 B h (sc_ExpectedContext cfg) apdbSigner controlSigner)"
  using assms
proof induction
  case (decision_run_start fs)
  then show ?case by (simp add: decision_inv_def decision_empty_def bytes_at_def)
next
  case (decision_run_step st sent returned ev st' msgs new)
  have inv: "decision_inv B cfg apdbSigner controlSigner st" using decision_run_step.IH by blast
  have forget: "decision_inv B cfg apdbSigner controlSigner (forget_decision key st)" for key
    using inv by (auto simp: decision_inv_def forget_decision_def)
  have "decision_inv B cfg apdbSigner controlSigner st'"
  proof (cases ev)
    case (FinalizeStart env decided)
    then show ?thesis using decision_run_step.hyps(2) FinalizeDecision_start_inv [OF inv] by (auto simp: decision_step_def)
  next
    case (DecisionShareMessage m body)
    then show ?thesis using decision_run_step.hyps(2) handleDecisionShare_inv [OF inv, of m body]
      by (auto simp: decision_step_def split: prod.splits)
  next
    case (HandoffMessage m body)
    then show ?thesis using decision_run_step.hyps(2) handleHandoff_inv [OF inv] by (auto simp: decision_step_def)
  next
    case HandoffWake
    then show ?thesis using decision_run_step.hyps(2) inv by (auto simp: decision_step_def AwaitHandoff_wake_def decision_inv_def)
  qed (use decision_run_step.hyps(2) inv forget in \<open>auto simp: decision_step_def split: option.splits\<close>)
  moreover have "\<forall>h \<in> set new. cvVerifyHandoffV2 B h (sc_ExpectedContext cfg) apdbSigner controlSigner"
    using decision_run_step.hyps(2)
    by (cases ev) (auto simp: decision_step_def FinalizeDecision_formed_def run_simps Let_def split: option.splits prod.splits)
  ultimately show ?case using decision_run_step.IH by auto
qed

section \<open>All nodes hand over the same aggregate\<close>

record ('g, 'h, 'f) decision_node =
  dn_cfg :: "('g, 'h, 'f) cvAPDBNetworkServiceConfigV2"
  dn_store :: cvDecisionSignStoreV2
  dn_apdb :: "('g, 'h, 'f) tblsThresholdSigner"
  dn_control :: "('g, 'h, 'f) tblsThresholdSigner"
  dn_state :: decision_part
  dn_sent :: "cvOutboundMessageV2 list"
  dn_returned :: "cvHandoffV2 list"

definition decision_node_runs :: "('g, 'h, 'f::field) bls \<Rightarrow> ('g, 'h, 'f) decision_node \<Rightarrow> bool" where
  "decision_node_runs B n \<longleftrightarrow> sc_DecisionStore (dn_cfg n) = Some (dn_store n) \<and>
     decision_service_run B (dn_cfg n) (dn_apdb n) (dn_control n) (dn_state n) (dn_sent n) (dn_returned n)"

text \<open>The node has signed the statement: it has sent a share of it, or keeps one.\<close>

definition node_decides :: "('g, 'h, 'f::field) bls \<Rightarrow> ('g, 'h, 'f) decision_node \<Rightarrow> string \<times> nat \<Rightarrow> bytes \<Rightarrow> bool" where
  "node_decides B n session statement \<longleftrightarrow> decision_node_runs B n \<and> session = (sc_SID (dn_cfg n), sc_Epoch (dn_cfg n)) \<and>
     (sends_decision_share (dn_sent n) statement \<or> decisionLocalShares (dn_state n) statement \<noteq> None)"

interpretation decision_signing: one_shot_signing "node_decides B" for B
proof
  fix n k d d'
  assume n: "node_decides B n k d" "node_decides B n k d'"
  then obtain calls where c: "decision_run B (dn_store n) (dn_control n) (decisionFiles (dn_state n)) calls"
    "\<forall>key. decisionLocalShares (dn_state n) key \<noteq> None \<longrightarrow> released_for (dn_cfg n) calls key"
    "\<forall>d. sends_decision_share (dn_sent n) d \<longrightarrow> released_for (dn_cfg n) calls d"
    using decision_service_refines [of B "dn_cfg n" "dn_apdb n" "dn_control n"] unfolding node_decides_def decision_node_runs_def by blast
  show "d = d'" by (rule released_once [OF c(1), of "dn_cfg n"]) (use n c(2,3) in \<open>unfold node_decides_def, blast\<close>)+
qed

interpretation decision_hashes:
  one_shot_signing "\<lambda>n k d. \<exists>statement. node_decides B n k statement \<and> domainDigest cvDecisionCertificateV2Domain statement = d" for B
  by (rule one_shot_hashed) (rule decision_signing.one_shot_signing_axioms)

text \<open>Unforgeability: a decision certificate of the group needs the shares of a threshold of members, so the honest ones
  among them have signed what it signs, the hash of its statement.\<close>

definition decision_unforgeable ::
  "('g, 'h, 'f::field) bls \<Rightarrow> ('g, 'h, 'f) tblsThresholdSigner \<Rightarrow> string \<times> nat \<Rightarrow> int set \<Rightarrow> int set \<Rightarrow>
   (int \<Rightarrow> ('g, 'h, 'f) decision_node) \<Rightarrow> bool" where
  "decision_unforgeable B controlSigner session members honest node \<longleftrightarrow> (\<forall>statement sig.
     VerifyRecovered B controlSigner cvDecisionCertificateV2Domain statement sig \<longrightarrow>
     (\<exists>S \<subseteq> members. ts_t controlSigner \<le> int (card S) \<and> (\<forall>i \<in> S \<inter> honest. \<exists>statement'.
        node_decides B (node i) session statement' \<and>
        domainDigest cvDecisionCertificateV2Domain statement' = domainDigest cvDecisionCertificateV2Domain statement)))"

text \<open>The messages that are hashed when a handoff is signed.\<close>

definition decision_messages :: "bytes \<Rightarrow> cvAggregateHeaderV2 \<Rightarrow> cvAPDBLockV2 \<Rightarrow> bytes list" where
  "decision_messages ctx header arc =
     (case (cvHandoffUnsignedV2CanonicalBytes ctx header arc, cvHandoffDigestV2 ctx header arc, cvDecisionStatementV2 ctx header arc) of
        (Some u, Some d, Some s) \<Rightarrow> [str_bytes cvHandoffDigestV2Domain @ u, str_bytes cvDecisionCertificateV2Domain @ ctx @ d,
          domain_message cvDecisionCertificateV2Domain s]
      | _ \<Rightarrow> [])"

lemma decision_digests_bind:
  assumes "cvDecisionStatementV2 ctx1 header1 arc1 = Some s1" "cvDecisionStatementV2 ctx2 header2 arc2 = Some s2"
    and "int64 (ah_ProposerID header1)" "int64 (ah_ProposerID header2)"
    and "domainDigest cvDecisionCertificateV2Domain s1 = domainDigest cvDecisionCertificateV2Domain s2"
  shows "(header1 = header2 \<and> arc1 = arc2) \<or> collide (decision_messages ctx1 header1 arc1) (decision_messages ctx2 header2 arc2)"
proof -
  obtain u1 d1 where u1: "cvHandoffUnsignedV2CanonicalBytes ctx1 header1 arc1 = Some u1" "cvHandoffDigestV2 ctx1 header1 arc1 = Some d1"
    using assms(1) by (auto simp: cvDecisionStatementV2_def cvHandoffDigestV2_def run_simps)
  obtain u2 d2 where u2: "cvHandoffUnsignedV2CanonicalBytes ctx2 header2 arc2 = Some u2" "cvHandoffDigestV2 ctx2 header2 arc2 = Some d2"
    using assms(2) by (auto simp: cvDecisionStatementV2_def cvHandoffDigestV2_def run_simps)
  note m = decision_messages_def u1 u2 assms(1,2) collide_def
  show ?thesis
  proof (cases "s1 = s2")
    case True
    from decision_statement_binding [OF assms(1) assms(2) [folded True] assms(3,4)] show ?thesis using u1 u2 by (auto simp: m)
  next
    case False
    then show ?thesis using assms(5) domain_message_inj by (auto simp: m domainDigest_message)
  qed
qed

text \<open>A handoff a node gives its callers: one it accepted, or one it finalised (its proposer is a Go \<^verbatim>\<open>int\<close>).\<close>

definition hands_over :: "('g, 'h, 'f) bls \<Rightarrow> ('g, 'h, 'f) decision_node \<Rightarrow> cvHandoffV2 \<Rightarrow> bool" where
  "hands_over B n h \<longleftrightarrow> AwaitHandoff_read B (dn_cfg n) (dn_apdb n) (dn_control n) (dn_state n) = Some h \<or>
     h \<in> set (dn_returned n) \<and> int64 (ah_ProposerID (ho_Header h))"

lemma hands_over_statement:
  assumes "hands_over B n h" "decision_node_runs B n"
  shows "int64 (ah_ProposerID (ho_Header h)) \<and> (\<exists>statement.
    cvDecisionStatementV2 (sc_ExpectedContext (dn_cfg n)) (ho_Header h) (ho_ARC h) = Some statement \<and>
    VerifyRecovered B (dn_control n) cvDecisionCertificateV2Domain statement (ho_DecCert h))"
proof -
  have r: "\<forall>h \<in> set (dn_returned n). cvVerifyHandoffV2 B h (sc_ExpectedContext (dn_cfg n)) (dn_apdb n) (dn_control n)"
    using assms(2) decision_service_inv unfolding decision_node_runs_def by blast
  have a: "cvDecodeHandoffV2 (acceptedHandoff (dn_state n)) = Some h \<and>
      cvVerifyHandoffV2 B h (sc_ExpectedContext (dn_cfg n)) (dn_apdb n) (dn_control n)"
    if "AwaitHandoff_read B (dn_cfg n) (dn_apdb n) (dn_control n) (dn_state n) = Some h"
    using that by (auto simp: AwaitHandoff_read_def run_simps)
  have v: "cvVerifyHandoffV2 B h (sc_ExpectedContext (dn_cfg n)) (dn_apdb n) (dn_control n)" "int64 (ah_ProposerID (ho_Header h))"
    using assms(1) a r handoff_codec.decode_wf unfolding hands_over_def by blast+
  obtain statement where "cvDecisionStatementV2 (sc_ExpectedContext (dn_cfg n)) (ho_Header h) (ho_ARC h) = Some statement"
    "VerifyRecovered B (dn_control n) cvDecisionCertificateV2Domain statement (ho_DecCert h)"
    by (rule handoff_statement [OF v(1)])
  then show ?thesis using v(2) by blast
qed


section \<open>A decision that has its shares is handed over\<close>

text \<open>A member's decision share, as its message carries it.\<close>

definition decision_share_from ::
  "('g, 'h, 'f) bls \<Rightarrow> ('g, 'h, 'f) tblsThresholdSigner \<Rightarrow> bytes \<Rightarrow> int \<Rightarrow> bytes \<Rightarrow> bool" where
  "decision_share_from B controlSigner statement member body \<longleftrightarrow>
     (\<exists>share. cvDecodeDecisionShareV2 body = Some share \<and> dsh_Statement share = statement \<and>
        VerifyShare B controlSigner member cvDecisionCertificateV2Domain statement (dsh_Signature share))"

definition deliver_decision_shares ::
  "('g, 'h, 'f) bls \<Rightarrow> ('g, 'h, 'f) tblsThresholdSigner \<Rightarrow> (int \<times> bytes) list \<Rightarrow> decision_part \<Rightarrow> decision_part" where
  "deliver_decision_shares B controlSigner msgs st =
     foldl (\<lambda>st (from, body). fst (handleDecisionShare B controlSigner from body st)) st msgs"

lemma decision_share_collected:
  assumes "pendingDecisions st key = Some pending"
  obtains pending' where "pendingDecisions (fst (handleDecisionShare B controlSigner m body st)) key = Some pending'"
    "fst ` set (pd_shares pending) \<subseteq> fst ` set (pd_shares pending')"
    "decision_share_from B controlSigner key m body \<Longrightarrow> m \<in> fst ` set (pd_shares pending')"
proof (cases "\<exists>share. cvDecodeDecisionShareV2 body = Some share \<and> dsh_Statement share = key \<and>
    VerifyShare B controlSigner m cvDecisionCertificateV2Domain key (dsh_Signature share)")
  case True
  then obtain share where share: "cvDecodeDecisionShareV2 body = Some share" "dsh_Statement share = key"
    "VerifyShare B controlSigner m cvDecisionCertificateV2Domain key (dsh_Signature share)" by blast
  let ?p = "pending\<lparr> pd_shares := put_first m (dsh_Signature share) (pd_shares pending),
    pd_ready := (pd_ready pending \<or> int (length (put_first m (dsh_Signature share) (pd_shares pending))) \<ge> ts_t controlSigner) \<rparr>"
  have "pendingDecisions (fst (handleDecisionShare B controlSigner m body st)) key = Some ?p"
    using share assms by (simp add: handleDecisionShare_def Let_def)
  then show ?thesis by (rule that) (auto simp: put_first_members)
next
  case False
  then have "pendingDecisions (fst (handleDecisionShare B controlSigner m body st)) key = Some pending"
    using assms by (auto simp: handleDecisionShare_def Let_def split: option.split)
  then show ?thesis by (rule that) (use False in \<open>auto simp: decision_share_from_def\<close>)
qed

lemma decision_shares_collected:
  assumes "pendingDecisions st key = Some pending" "decision_inv B cfg apdbSigner controlSigner st"
  shows "\<exists>pending'. pendingDecisions (deliver_decision_shares B controlSigner msgs st) key = Some pending' \<and>
    decision_inv B cfg apdbSigner controlSigner (deliver_decision_shares B controlSigner msgs st) \<and>
    fst ` set (pd_shares pending) \<union> {m. \<exists>body. (m, body) \<in> set msgs \<and> decision_share_from B controlSigner key m body} \<subseteq>
      fst ` set (pd_shares pending')"
  using assms
proof (induction msgs arbitrary: st pending)
  case Nil
  then show ?case by (simp add: deliver_decision_shares_def)
next
  case (Cons msg msgs)
  obtain m body where msg: "msg = (m, body)" by (cases msg)
  let ?st1 = "fst (handleDecisionShare B controlSigner m body st)"
  have d: "deliver_decision_shares B controlSigner (msg # msgs) st = deliver_decision_shares B controlSigner msgs ?st1"
    by (simp add: deliver_decision_shares_def msg)
  obtain p1 where p1: "pendingDecisions ?st1 key = Some p1" "fst ` set (pd_shares pending) \<subseteq> fst ` set (pd_shares p1)"
    "decision_share_from B controlSigner key m body \<Longrightarrow> m \<in> fst ` set (pd_shares p1)"
    using decision_share_collected [OF Cons.prems(1)] by metis
  obtain p2 where p2: "pendingDecisions (deliver_decision_shares B controlSigner msgs ?st1) key = Some p2"
    "decision_inv B cfg apdbSigner controlSigner (deliver_decision_shares B controlSigner msgs ?st1)"
    "fst ` set (pd_shares p1) \<union> {m. \<exists>body. (m, body) \<in> set msgs \<and> decision_share_from B controlSigner key m body} \<subseteq> fst ` set (pd_shares p2)"
    using Cons.IH [OF p1(1) handleDecisionShare_inv [OF Cons.prems(2)]] by blast
  show ?case unfolding d by (rule exI [of _ p2]) (use p1(2,3) p2 msg in auto)
qed

lemma pending_decision_certificate:
  fixes B :: "('g, 'h, 'f::field) bls"
  assumes "bls_laws B" "marshal_fits B" "dealt B controlSigner cs"
    and "inj_on (of_int :: int \<Rightarrow> 'f) {1..int (length (ts_memberOrder controlSigner))}"
    and "pending_decision_ok B controlSigner key pending" "ts_t controlSigner \<le> int (length (pd_shares pending))"
    and "length (pd_certificate pending) \<le> cvMaxComponentSignatureBytes"
  shows "\<exists>c. decision_certificate B controlSigner key pending = Some c \<and> c \<noteq> [] \<and> length c \<le> cvMaxComponentSignatureBytes \<and>
    VerifyRecovered B controlSigner cvDecisionCertificateV2Domain key c"
proof (cases "pd_certificate pending = []")
  case True
  have "shares_ok B controlSigner cvDecisionCertificateV2Domain key (pd_shares pending)" using assms(5) by (simp add: pending_decision_ok_def)
  note r = shares_recover_value [OF assms(1,3,4) this assms(6)]
  show ?thesis using True r assms(2) by (auto simp: decision_certificate_def group_signature_def marshal_fits_def)
next
  case False
  then show ?thesis using assms(5,7) by (simp add: decision_certificate_def pending_decision_ok_def)
qed

text \<open>The certificates a node keeps came in a canonical handoff, so they fit the wire format.\<close>

definition certificates_fit :: "decision_part \<Rightarrow> bool" where
  "certificates_fit st \<longleftrightarrow>
     (\<forall>key pending. pendingDecisions st key = Some pending \<longrightarrow> length (pd_certificate pending) \<le> cvMaxComponentSignatureBytes) \<and>
     (\<forall>key. length (bytes_at (decisionCertificates st) key) \<le> cvMaxComponentSignatureBytes)"

lemma certificate_received_fit:
  "certificates_fit st \<Longrightarrow> length c \<le> cvMaxComponentSignatureBytes \<Longrightarrow> certificates_fit (certificate_received key c st)"
  by (auto simp: certificates_fit_def certificate_received_def bytes_at_def Let_def split: option.splits)

lemma handleDecisionShare_fit: "certificates_fit st \<Longrightarrow> certificates_fit (fst (handleDecisionShare B controlSigner m body st))"
  by (auto simp: certificates_fit_def handleDecisionShare_def Let_def split: option.splits)

lemma deliver_decision_shares_fit: "certificates_fit st \<Longrightarrow> certificates_fit (deliver_decision_shares B controlSigner msgs st)"
  unfolding deliver_decision_shares_def
proof (induction msgs arbitrary: st)
  case (Cons msg msgs)
  then show ?case using Cons.IH [OF handleDecisionShare_fit [OF Cons.prems]] by (cases msg) simp
qed simp

lemma FinalizeDecision_start_fit:
  assumes "certificates_fit st"
  shows "certificates_fit (fst (FinalizeDecision_start B env cfg controlSigner decided st))"
  using assms by (auto simp: certificates_fit_def FinalizeDecision_start_def Let_def split: option.splits prod.splits)

lemma decision_service_fit:
  assumes "decision_service_run B cfg apdbSigner controlSigner st sent returned"
  shows "certificates_fit st"
  using assms
proof induction
  case (decision_run_start fs)
  then show ?case by (simp add: certificates_fit_def decision_empty_def bytes_at_def)
next
  case (decision_run_step st sent returned ev st' msgs new)
  have forget: "certificates_fit (forget_decision key st)" for key
    using decision_run_step.IH by (auto simp: certificates_fit_def forget_decision_def)
  show ?case
  proof (cases ev)
    case (FinalizeStart env decided)
    then show ?thesis using decision_run_step FinalizeDecision_start_fit by (auto simp: decision_step_def)
  next
    case (DecisionShareMessage m body)
    then show ?thesis using decision_run_step.hyps(2) handleDecisionShare_fit [OF decision_run_step.IH, of B controlSigner m body]
      by (auto simp: decision_step_def split: prod.splits)
  next
    case (HandoffMessage m body)
    have len: "length (ho_DecCert h) \<le> cvMaxComponentSignatureBytes" if "cvDecodeHandoffV2 body = Some h" for h
      using handoff_codec.encode_decode [OF that] by (auto simp: cvHandoffV2CanonicalBytes_def run_simps)
    have acc: "certificates_fit (handoff_received body st1)" if "certificates_fit st1" for st1
      using that by (simp add: certificates_fit_def handoff_received_def)
    show ?thesis using decision_run_step.hyps(2) HandoffMessage decision_run_step.IH acc certificate_received_fit len
      by (auto simp: decision_step_def handleHandoff_def Let_def split: option.splits if_splits)
  next
    case HandoffWake
    then show ?thesis using decision_run_step by (auto simp: decision_step_def AwaitHandoff_wake_def certificates_fit_def)
  qed (use decision_run_step.hyps(2) decision_run_step.IH forget in \<open>auto simp: decision_step_def split: option.splits\<close>)
qed

lemma FinalizeDecision_start_waits:
  assumes "FinalizeDecision_start B env cfg controlSigner decided st = (st1, Some shareWire)"
    and "cvDecisionStatementV2 (sc_ExpectedContext cfg) (ao_Header decided) (ao_ARC decided) = Some statement"
  shows "\<exists>pending. pendingDecisions st1 statement = Some pending \<and> sc_LocalNode cfg \<in> fst ` set (pd_shares pending)"
proof -
  obtain store where store: "sc_DecisionStore cfg = Some store" "cvMemberInRosterV2 (sc_LocalNode cfg) (sc_OldRoster cfg)"
    using assms(1) by (auto simp: FinalizeDecision_start_def run_simps split: option.splits)
  then show ?thesis using assms by (auto simp: FinalizeDecision_start_def Let_def split: option.splits prod.splits if_splits)
qed

lemma handoff_wire:
  assumes "cvDecisionStatementV2 ctx header arc = Some statement" "c \<noteq> []" "length c \<le> cvMaxComponentSignatureBytes"
  shows "cvHandoffV2CanonicalBytes \<lparr> ho_ContextDigest = ctx, ho_Header = header, ho_ARC = arc, ho_DecCert = c \<rparr> \<noteq> None"
  using assms by (auto simp: cvDecisionStatementV2_def cvHandoffDigestV2_def cvHandoffV2CanonicalBytes_def run_simps)

text \<open>The handoff that is formed, its wire form and to whom it is sent.\<close>

lemma decision_formed:
  fixes B :: "('g, 'h, 'f::field) bls"
  assumes B: "bls_laws B" "marshal_fits B" "dealt B controlSigner cs"
      "inj_on (of_int :: int \<Rightarrow> 'f) {1..int (length (ts_memberOrder controlSigner))}"
    and roles: "cvV2SignerHasRole controlSigner cvV2RoleControl" "cvV2SignerHasRole apdbSigner cvV2RoleAPDB"
    and run: "decision_service_run B cfg apdbSigner controlSigner st sent returned"
    and decided: "cvVerifyAPDBLockV2 B (ao_ARC decided) apdbSigner"
      "cvDecisionStatementV2 (sc_ExpectedContext cfg) (ao_Header decided) (ao_ARC decided) = Some statement"
    and start: "FinalizeDecision_start B env cfg controlSigner decided st = (st1, Some shareWire)"
    and members: "distinct members" "sc_LocalNode cfg \<notin> set members" "ts_t controlSigner \<le> int (length members) + 1"
      "\<forall>m \<in> set members. \<exists>body. (m, body) \<in> set msgs \<and> decision_share_from B controlSigner statement m body"
  obtains handoff wire where "cvHandoffV2CanonicalBytes handoff = Some wire"
    "cvVerifyHandoffV2 B handoff (sc_ExpectedContext cfg) apdbSigner controlSigner"
    "ho_Header handoff = ao_Header decided" "ho_ARC handoff = ao_ARC decided"
    "FinalizeDecision_formed B cfg apdbSigner controlSigner decided (deliver_decision_shares B controlSigner msgs st1) =
       Some (handoff, send_to_all (sortedUnique (sc_OldRoster cfg @ sc_NewRoster cfg)) (sc_LocalNode cfg) cvTagHandoffV2 wire)"
proof -
  let ?st2 = "deliver_decision_shares B controlSigner msgs st1" and ?ctx = "sc_ExpectedContext cfg"
  have inv1: "decision_inv B cfg apdbSigner controlSigner st1" "certificates_fit st1"
    using FinalizeDecision_start_inv [of B cfg apdbSigner controlSigner st env decided] FinalizeDecision_start_fit [of st B env cfg controlSigner decided]
      decision_service_inv [OF run] decision_service_fit [OF run] start by simp_all
  have fit2: "certificates_fit ?st2" by (rule deliver_decision_shares_fit [OF inv1(2)])
  obtain p1 where p1: "pendingDecisions st1 statement = Some p1" "sc_LocalNode cfg \<in> fst ` set (pd_shares p1)"
    using FinalizeDecision_start_waits [OF start decided(2)] by blast
  obtain p where p: "pendingDecisions ?st2 statement = Some p" "decision_inv B cfg apdbSigner controlSigner ?st2"
    "insert (sc_LocalNode cfg) (set members) \<subseteq> fst ` set (pd_shares p)"
    using decision_shares_collected [OF p1(1) inv1(1), of msgs] p1(2) members(4) by fast
  have "card (insert (sc_LocalNode cfg) (set members)) \<le> card (fst ` set (pd_shares p))" by (rule card_mono [OF _ p(3)]) simp
  then have len: "ts_t controlSigner \<le> int (length (pd_shares p))"
    using members(1-3) card_image_le [of "set (pd_shares p)" fst] card_length [of "pd_shares p"] by (simp add: distinct_card)
  have ok: "pending_decision_ok B controlSigner statement p" "length (pd_certificate p) \<le> cvMaxComponentSignatureBytes"
    using p(1,2) fit2 by (auto simp: decision_inv_def certificates_fit_def)
  obtain c where c: "decision_certificate B controlSigner statement p = Some c" "c \<noteq> []" "length c \<le> cvMaxComponentSignatureBytes"
    "VerifyRecovered B controlSigner cvDecisionCertificateV2Domain statement c"
    using pending_decision_certificate [OF B ok(1) len ok(2)] by blast
  let ?h = "\<lparr> ho_ContextDigest = ?ctx, ho_Header = ao_Header decided, ho_ARC = ao_ARC decided, ho_DecCert = c \<rparr>"
  obtain wire where wire: "cvHandoffV2CanonicalBytes ?h = Some wire" using handoff_wire [OF decided(2) c(2,3)] by blast
  have ctx: "length ?ctx = 32" using decided(2)
    by (auto simp: cvDecisionStatementV2_def cvHandoffDigestV2_def cvHandoffUnsignedV2CanonicalBytes_def run_simps)
  have v: "cvVerifyHandoffV2 B ?h ?ctx apdbSigner controlSigner"
    using roles ctx wire decided(1,2) c(4) by (simp add: cvVerifyHandoffV2_def)
  have "FinalizeDecision_formed B cfg apdbSigner controlSigner decided ?st2 =
      Some (?h, send_to_all (sortedUnique (sc_OldRoster cfg @ sc_NewRoster cfg)) (sc_LocalNode cfg) cvTagHandoffV2 wire)"
    using decided(2) p(1) c(1) v wire by (simp add: FinalizeDecision_formed_def)
  then show thesis using that [OF wire v] by simp
qed

text \<open>C5: a member of the old committee that finalises a decision and is then delivered any decision shares in any order, among
  them those of enough other members, sends every member of the new committee one handoff of the decided aggregate;
  and a member of the new committee that has none yet accepts it and gives it to its callers.\<close>

theorem decision_reaches_receivers:
  fixes B :: "('g, 'h, 'f::field) bls"
  assumes B: "bls_laws B" "marshal_fits B" "dealt B controlSigner cs"
      "inj_on (of_int :: int \<Rightarrow> 'f) {1..int (length (ts_memberOrder controlSigner))}"
    and roles: "cvV2SignerHasRole controlSigner cvV2RoleControl" "cvV2SignerHasRole apdbSigner cvV2RoleAPDB"
    and run: "decision_service_run B cfg apdbSigner controlSigner st sent returned"
    and decided: "cvVerifyAPDBLockV2 B (ao_ARC decided) apdbSigner"
      "cvDecisionStatementV2 (sc_ExpectedContext cfg) (ao_Header decided) (ao_ARC decided) = Some statement"
      "int64 (ah_ProposerID (ao_Header decided))"
    and start: "FinalizeDecision_start B env cfg controlSigner decided st = (st1, Some shareWire)"
    and members: "distinct members" "sc_LocalNode cfg \<notin> set members" "ts_t controlSigner \<le> int (length members) + 1"
      "\<forall>m \<in> set members. \<exists>body. (m, body) \<in> set msgs \<and> decision_share_from B controlSigner statement m body"
    and receiver: "cvMemberInRosterV2 (sc_LocalNode cfg') (sc_NewRoster cfg')" "sc_ExpectedContext cfg' = sc_ExpectedContext cfg"
      "acceptedHandoff st' = []"
  shows "\<exists>handoff out wire.
    FinalizeDecision_formed B cfg apdbSigner controlSigner decided (deliver_decision_shares B controlSigner msgs st1) = Some (handoff, out) \<and>
    ho_Header handoff = ao_Header decided \<and> ho_ARC handoff = ao_ARC decided \<and>
    (\<forall>m \<in> set (sc_NewRoster cfg). m \<noteq> sc_LocalNode cfg \<longrightarrow> (m, cvTagHandoffV2, wire) \<in> set out) \<and>
    AwaitHandoff_read B cfg' apdbSigner controlSigner (handleHandoff B cfg' apdbSigner controlSigner wire st') = Some handoff"
proof -
  obtain handoff wire where h: "cvHandoffV2CanonicalBytes handoff = Some wire"
    "cvVerifyHandoffV2 B handoff (sc_ExpectedContext cfg) apdbSigner controlSigner"
    "ho_Header handoff = ao_Header decided" "ho_ARC handoff = ao_ARC decided"
    "FinalizeDecision_formed B cfg apdbSigner controlSigner decided (deliver_decision_shares B controlSigner msgs st1) =
       Some (handoff, send_to_all (sortedUnique (sc_OldRoster cfg @ sc_NewRoster cfg)) (sc_LocalNode cfg) cvTagHandoffV2 wire)"
    by (rule decision_formed [OF B roles run decided(1,2) start members])
  have dec: "cvDecodeHandoffV2 wire = Some handoff" using handoff_codec.decode_encode [OF _ h(1)] decided(3) h(3) by simp
  have accepted: "acceptedHandoff (handleHandoff B cfg' apdbSigner controlSigner wire st') = wire"
    using receiver dec h(2) by (auto simp: handleHandoff_def Let_def handoff_received_def certificate_received_def split: option.split)
  have "AwaitHandoff_read B cfg' apdbSigner controlSigner (handleHandoff B cfg' apdbSigner controlSigner wire st') = Some handoff"
    using receiver(1,2) dec h(2) by (simp add: AwaitHandoff_read_def accepted)
  moreover have "\<forall>m \<in> set (sc_NewRoster cfg). m \<noteq> sc_LocalNode cfg \<longrightarrow> (m, cvTagHandoffV2, wire) \<in>
      set (send_to_all (sortedUnique (sc_OldRoster cfg @ sc_NewRoster cfg)) (sc_LocalNode cfg) cvTagHandoffV2 wire)"
    by (auto simp: send_to_all_def)
  ultimately show ?thesis using h(3-5) by blast
qed

end
