(* ===== verification/Net_Coin.thy ===== *)
theory Net_Coin
  imports Net_Base
begin

text \<open>
  The threshold coin of a node's service: \<^verbatim>\<open>runCoin\<close>, the coin case of \<^verbatim>\<open>dispatch\<close>, \<^verbatim>\<open>EligibilityCoin\<close>,
  \<^verbatim>\<open>ContributorCoin\<close> and \<^verbatim>\<open>setEligibilityCoin\<close> of \<^verbatim>\<open>src/core/cv_sapvss_apdb_network_v2.go\<close>.  \<^verbatim>\<open>runCoin\<close> waits for messages
  that the service's own loop handles, so it is cut where it waits: it starts, resends to the members that are missing,
  and finishes or is stopped; any number of invocations run at once and messages arrive between the pieces.  A map that
  was never made is \<open>None\<close>, reading from it gives nothing and writing to it panics, which is the result \<open>None\<close> of an event.
\<close>

section \<open>State\<close>

record cvPendingCoinV2 =
  pn_invocation :: bytes
  pn_shares :: "(int \<times> bytes) list"
  pn_ready :: bool

record coin_part =
  pendingCoins :: "bytes \<rightharpoonup> cvPendingCoinV2"
  localCoinShares :: "bytes \<rightharpoonup> bytes"
  coinShareReplies :: "bytes \<rightharpoonup> int set"
  coinShareReplyInFlight :: "bytes \<rightharpoonup> int set"

definition coin_empty :: coin_part where
  "coin_empty = \<lparr> pendingCoins = (\<lambda>_. None), localCoinShares = (\<lambda>_. None), coinShareReplies = (\<lambda>_. None),
     coinShareReplyInFlight = (\<lambda>_. None) \<rparr>"

section \<open>Running a coin\<close>

text \<open>Up to the first wait: the new state and the shares sent, or \<open>None\<close> for an error.\<close>

definition runCoin_start ::
  "('g, 'h, 'f) bls \<Rightarrow> ('g, 'h, 'f) cvAPDBNetworkServiceConfigV2 \<Rightarrow> ('g, 'h, 'f) tblsThresholdSigner \<Rightarrow> bytes \<Rightarrow>
   coin_part \<Rightarrow> (coin_part \<times> cvOutboundMessageV2 list) option" where
  "runCoin_start B cfg coinSigner invocation st = do {
     require (\<not> (\<not> cvMemberInRosterV2 (sc_LocalNode cfg) (sc_OldRoster cfg) \<or> \<not> cvV2SignerHasRole coinSigner cvV2RoleCoin));
     digest \<leftarrow> cvCoinInvocationDigestV2 invocation;
     localSignature \<leftarrow> SignShare B coinSigner (sc_LocalNode cfg) cvV2CoinDomain digest;
     message \<leftarrow> cvCoinShareV2CanonicalBytes \<lparr> cs_InvocationDigest = digest, cs_Signature = localSignature \<rparr>;
     require (pendingCoins st digest = None);
     let shares = [(sc_LocalNode cfg, localSignature)];
     let pending = \<lparr> pn_invocation = invocation, pn_shares = shares, pn_ready = (int (length shares) \<ge> ts_t coinSigner) \<rparr>;
     Some (st\<lparr> pendingCoins := (pendingCoins st)(digest \<mapsto> pending),
               localCoinShares := (localCoinShares st)(digest \<mapsto> message),
               coinShareReplies := (if coinShareReplies st digest = None then (coinShareReplies st)(digest \<mapsto> {})
                 else coinShareReplies st),
               coinShareReplyInFlight := (if coinShareReplyInFlight st digest = None then
                 (coinShareReplyInFlight st)(digest \<mapsto> {}) else coinShareReplyInFlight st) \<rparr>,
           send_to_all (sc_OldRoster cfg) (sc_LocalNode cfg) cvTagCoinShareV2 message)
   }"

text \<open>A retry: the share again, to the members whose share is missing.\<close>

definition runCoin_retry ::
  "('g, 'h, 'f) cvAPDBNetworkServiceConfigV2 \<Rightarrow> bytes \<Rightarrow> coin_part \<Rightarrow> cvOutboundMessageV2 list" where
  "runCoin_retry cfg digest st =
     (case (pendingCoins st digest, localCoinShares st digest) of
        (Some pending, Some message) \<Rightarrow>
          send_to_all (filter (\<lambda>member. member \<notin> fst ` set (pn_shares pending)) (sc_OldRoster cfg)) (sc_LocalNode cfg)
            cvTagCoinShareV2 message
      | _ \<Rightarrow> [])"

text \<open>From the label \<^verbatim>\<open>recovered\<close> on; the invocation is forgotten whatever the result.\<close>

definition runCoin_recovered ::
  "('g, 'h, 'f::field) bls \<Rightarrow> ('g, 'h, 'f) tblsThresholdSigner \<Rightarrow> bytes \<Rightarrow> cvPendingCoinV2 \<Rightarrow> cvCoinOutputV2 option" where
  "runCoin_recovered B coinSigner digest pending = do {
     certificate \<leftarrow> Recover B coinSigner cvV2CoinDomain digest (pn_shares pending);
     cvBuildCoinOutputV2 B (pn_invocation pending) certificate coinSigner
   }"

definition forget_coin :: "bytes \<Rightarrow> coin_part \<Rightarrow> coin_part" where
  "forget_coin digest st = st\<lparr> pendingCoins := (pendingCoins st)(digest := None) \<rparr>"

section \<open>The share of another member\<close>

definition add_coin_share ::
  "('g, 'h, 'f) tblsThresholdSigner \<Rightarrow> int \<Rightarrow> bytes \<Rightarrow> cvPendingCoinV2 \<Rightarrow> cvPendingCoinV2" where
  "add_coin_share coinSigner from signature pending =
     (let shares = put_first from signature (pn_shares pending)
      in pending\<lparr> pn_shares := shares, pn_ready := (pn_ready pending \<or> int (length shares) \<ge> ts_t coinSigner) \<rparr>)"

text \<open>The reply to a member that has none yet and none on the way.  Both outer maps are read; the in-flight set is written.\<close>

definition coin_reply :: "bytes \<Rightarrow> int \<Rightarrow> coin_part \<Rightarrow> (coin_part \<times> cvOutboundMessageV2 list) option" where
  "coin_reply key peer st =
     (case localCoinShares st key of
        None \<Rightarrow> Some (st, [])
      | Some local \<Rightarrow>
          if length local \<noteq> 0 \<and> (case coinShareReplies st key of None \<Rightarrow> True | Some replied \<Rightarrow> peer \<notin> replied) \<and>
             (case coinShareReplyInFlight st key of None \<Rightarrow> True | Some inFlight \<Rightarrow> peer \<notin> inFlight)
          then (case coinShareReplyInFlight st key of
                  None \<Rightarrow> None
                | Some inFlight \<Rightarrow>
                    Some (st\<lparr> coinShareReplyInFlight := (coinShareReplyInFlight st)(key \<mapsto> insert peer inFlight) \<rparr>,
                      sendAsync peer cvTagCoinShareV2 local))
          else Some (st, []))"

definition coin_received ::
  "('g, 'h, 'f) tblsThresholdSigner \<Rightarrow> int \<Rightarrow> cvCoinShareV2 \<Rightarrow> coin_part \<Rightarrow> coin_part" where
  "coin_received coinSigner from share st =
     (case pendingCoins st (cs_InvocationDigest share) of
        None \<Rightarrow> st
      | Some pending \<Rightarrow> st\<lparr> pendingCoins := (pendingCoins st)(cs_InvocationDigest share \<mapsto>
          add_coin_share coinSigner from (cs_Signature share) pending) \<rparr>)"

definition on_coin_share ::
  "('g, 'h, 'f) bls \<Rightarrow> ('g, 'h, 'f) tblsThresholdSigner \<Rightarrow> int \<Rightarrow> bytes \<Rightarrow> coin_part \<Rightarrow>
   (coin_part \<times> cvOutboundMessageV2 list) option" where
  "on_coin_share B coinSigner from body st =
     (case cvDecodeCoinShareV2 body of
        None \<Rightarrow> Some (st, [])
      | Some share \<Rightarrow>
          if \<not> cvV2SignerHasRole coinSigner cvV2RoleCoin \<or>
             \<not> VerifyShare B coinSigner from cvV2CoinDomain (cs_InvocationDigest share) (cs_Signature share)
          then Some (st, [])
          else coin_reply (cs_InvocationDigest share) from (coin_received coinSigner from share st))"

text \<open>The callback of a queued reply; \<open>ok\<close> when it was sent.  Deleting from a map that was never made does nothing.\<close>

definition coin_reply_result :: "bytes \<Rightarrow> int \<Rightarrow> bool \<Rightarrow> coin_part \<Rightarrow> coin_part option" where
  "coin_reply_result key peer ok st =
     (let st = (case coinShareReplyInFlight st key of
                  None \<Rightarrow> st
                | Some inFlight \<Rightarrow> st\<lparr> coinShareReplyInFlight := (coinShareReplyInFlight st)(key \<mapsto> inFlight - {peer}) \<rparr>)
      in if ok then (case coinShareReplies st key of
                       None \<Rightarrow> None
                     | Some replied \<Rightarrow> Some (st\<lparr> coinShareReplies := (coinShareReplies st)(key \<mapsto> insert peer replied) \<rparr>))
         else Some st)"

section \<open>Events\<close>

text \<open>The callback event belongs to a reply that was queued.  A finish happens when the \<^verbatim>\<open>ready\<close> channel has been notified.\<close>

datatype coin_event =
    CoinStart bytes
  | CoinRetry bytes
  | CoinMessage int bytes
  | CoinReplied bytes int bool
  | CoinFinish bytes
  | CoinStop bytes

definition coin_event_ok :: "coin_event \<Rightarrow> coin_part \<Rightarrow> bool" where
  "coin_event_ok ev st = (case ev of
     CoinReplied key peer ok \<Rightarrow> (case coinShareReplyInFlight st key of None \<Rightarrow> False | Some inFlight \<Rightarrow> peer \<in> inFlight)
   | CoinFinish key \<Rightarrow> (case pendingCoins st key of None \<Rightarrow> False | Some pending \<Rightarrow> pn_ready pending)
   | _ \<Rightarrow> True)"

text \<open>The result of an event: the state, the messages sent and the outputs returned, or \<open>None\<close> for a panic.\<close>

definition coin_step ::
  "('g, 'h, 'f::field) bls \<Rightarrow> ('g, 'h, 'f) cvAPDBNetworkServiceConfigV2 \<Rightarrow> ('g, 'h, 'f) tblsThresholdSigner \<Rightarrow>
   coin_event \<Rightarrow> coin_part \<Rightarrow> (coin_part \<times> cvOutboundMessageV2 list \<times> cvCoinOutputV2 list) option" where
  "coin_step B cfg coinSigner ev st = (case ev of
     CoinStart invocation \<Rightarrow> (case runCoin_start B cfg coinSigner invocation st of
         None \<Rightarrow> Some (st, [], []) | Some (st', msgs) \<Rightarrow> Some (st', msgs, []))
   | CoinRetry key \<Rightarrow> Some (st, runCoin_retry cfg key st, [])
   | CoinMessage from body \<Rightarrow> (case on_coin_share B coinSigner from body st of
         None \<Rightarrow> None | Some (st', msgs) \<Rightarrow> Some (st', msgs, []))
   | CoinReplied key peer ok \<Rightarrow> (case coin_reply_result key peer ok st of None \<Rightarrow> None | Some st' \<Rightarrow> Some (st', [], []))
   | CoinFinish key \<Rightarrow> Some (forget_coin key st, [], (case pendingCoins st key of None \<Rightarrow> []
         | Some pending \<Rightarrow> (case runCoin_recovered B coinSigner key pending of None \<Rightarrow> [] | Some out \<Rightarrow> [out])))
   | CoinStop key \<Rightarrow> Some (forget_coin key st, [], []))"

text \<open>The runs of one node's coin: the state reached and the outputs returned so far.\<close>

inductive coin_run ::
  "('g, 'h, 'f::field) bls \<Rightarrow> ('g, 'h, 'f) cvAPDBNetworkServiceConfigV2 \<Rightarrow> ('g, 'h, 'f) tblsThresholdSigner \<Rightarrow>
   coin_part \<Rightarrow> cvCoinOutputV2 list \<Rightarrow> bool"
  for B cfg coinSigner where
  coin_run_empty: "coin_run B cfg coinSigner coin_empty []"
| coin_run_step: "coin_run B cfg coinSigner st outs \<Longrightarrow> coin_event_ok ev st \<Longrightarrow>
    coin_step B cfg coinSigner ev st = Some (st', msgs, new) \<Longrightarrow> coin_run B cfg coinSigner st' (outs @ new)"

section \<open>Invariant\<close>

text \<open>What is kept of an invocation is filed under its digest, holds one verified share per member, is ready exactly
  when they reach the threshold; and a node that can reply has made both reply maps.\<close>

definition pending_coin_ok ::
  "('g, 'h, 'f) bls \<Rightarrow> ('g, 'h, 'f) tblsThresholdSigner \<Rightarrow> bytes \<Rightarrow> cvPendingCoinV2 \<Rightarrow> bool" where
  "pending_coin_ok B coinSigner key pending \<longleftrightarrow>
     cvV2SignerHasRole coinSigner cvV2RoleCoin \<and> cvCoinInvocationDigestV2 (pn_invocation pending) = Some key \<and>
     shares_ok B coinSigner cvV2CoinDomain key (pn_shares pending) \<and>
     (pn_ready pending \<longleftrightarrow> ts_t coinSigner \<le> int (length (pn_shares pending)))"

definition coin_inv :: "('g, 'h, 'f) bls \<Rightarrow> ('g, 'h, 'f) tblsThresholdSigner \<Rightarrow> coin_part \<Rightarrow> bool" where
  "coin_inv B coinSigner st \<longleftrightarrow>
     (\<forall>key pending. pendingCoins st key = Some pending \<longrightarrow> pending_coin_ok B coinSigner key pending) \<and>
     (\<forall>key. localCoinShares st key \<noteq> None \<longrightarrow> coinShareReplies st key \<noteq> None \<and> coinShareReplyInFlight st key \<noteq> None) \<and>
     (\<forall>key. coinShareReplyInFlight st key \<noteq> None \<longrightarrow> coinShareReplies st key \<noteq> None)"

lemma coin_inv_empty: "coin_inv B coinSigner coin_empty"
  by (simp add: coin_inv_def coin_empty_def)

lemma runCoin_start_inv:
  assumes "coin_inv B coinSigner st" "own_key B coinSigner (sc_LocalNode cfg)"
    and "runCoin_start B cfg coinSigner invocation st = Some (st', msgs)"
  shows "coin_inv B coinSigner st'"
proof -
  obtain digest localSignature message where d:
    "cvV2SignerHasRole coinSigner cvV2RoleCoin" "cvCoinInvocationDigestV2 invocation = Some digest"
    "SignShare B coinSigner (sc_LocalNode cfg) cvV2CoinDomain digest = Some localSignature"
    and st': "st' = st\<lparr> pendingCoins := (pendingCoins st)(digest \<mapsto>
          \<lparr> pn_invocation = invocation, pn_shares = [(sc_LocalNode cfg, localSignature)], pn_ready = (1 \<ge> ts_t coinSigner) \<rparr>),
        localCoinShares := (localCoinShares st)(digest \<mapsto> message),
        coinShareReplies := (if coinShareReplies st digest = None then (coinShareReplies st)(digest \<mapsto> {})
          else coinShareReplies st),
        coinShareReplyInFlight := (if coinShareReplyInFlight st digest = None then
          (coinShareReplyInFlight st)(digest \<mapsto> {}) else coinShareReplyInFlight st) \<rparr>"
    using assms(3) by (auto simp: runCoin_start_def Let_def run_simps)
  have "VerifyShare B coinSigner (sc_LocalNode cfg) cvV2CoinDomain digest localSignature"
    using assms(2) d(3) by (auto simp: own_key_def)
  then show ?thesis using assms(1) d unfolding st'
    by (auto simp: coin_inv_def pending_coin_ok_def shares_ok_single)
qed

lemma coin_reply_total:
  assumes "coin_inv B coinSigner st"
  shows "\<exists>st' msgs. coin_reply key peer st = Some (st', msgs) \<and> coin_inv B coinSigner st' \<and> pendingCoins st' = pendingCoins st"
proof (cases "localCoinShares st key")
  case None
  then show ?thesis using assms by (simp add: coin_reply_def)
next
  case (Some local)
  then obtain inFlight replied where "coinShareReplyInFlight st key = Some inFlight" "coinShareReplies st key = Some replied"
    using assms by (fastforce simp: coin_inv_def)
  then show ?thesis using assms Some by (auto simp: coin_reply_def coin_inv_def)
qed

lemma add_coin_share_ok:
  "pending_coin_ok B coinSigner key pending \<Longrightarrow> VerifyShare B coinSigner m cvV2CoinDomain key sig \<Longrightarrow>
   pending_coin_ok B coinSigner key (add_coin_share coinSigner m sig pending)"
  by (auto simp: pending_coin_ok_def add_coin_share_def Let_def shares_ok_put) (simp add: put_first_def split: if_splits)

lemma coin_received_inv:
  assumes "coin_inv B coinSigner st"
    and "VerifyShare B coinSigner m cvV2CoinDomain (cs_InvocationDigest share) (cs_Signature share)"
  shows "coin_inv B coinSigner (coin_received coinSigner m share st)"
  using assms by (auto simp: coin_inv_def coin_received_def add_coin_share_ok split: option.splits)

text \<open>A message is either dropped, or it is a verified share that is received before the reply.\<close>

lemma on_coin_share_cases:
  assumes "coin_inv B coinSigner st"
  obtains (dropped) "on_coin_share B coinSigner m body st = Some (st, [])"
      "\<And>share. cvDecodeCoinShareV2 body = Some share \<Longrightarrow> cvV2SignerHasRole coinSigner cvV2RoleCoin \<Longrightarrow>
         \<not> VerifyShare B coinSigner m cvV2CoinDomain (cs_InvocationDigest share) (cs_Signature share)"
    | (received) share st' msgs where "on_coin_share B coinSigner m body st = Some (st', msgs)"
      "cvDecodeCoinShareV2 body = Some share" "coin_inv B coinSigner st'"
      "pendingCoins st' = pendingCoins (coin_received coinSigner m share st)"
proof (cases "\<exists>share. cvDecodeCoinShareV2 body = Some share \<and> cvV2SignerHasRole coinSigner cvV2RoleCoin \<and>
    VerifyShare B coinSigner m cvV2CoinDomain (cs_InvocationDigest share) (cs_Signature share)")
  case True
  then obtain share where s: "cvDecodeCoinShareV2 body = Some share" "cvV2SignerHasRole coinSigner cvV2RoleCoin"
    "VerifyShare B coinSigner m cvV2CoinDomain (cs_InvocationDigest share) (cs_Signature share)" by blast
  obtain st' msgs where "coin_reply (cs_InvocationDigest share) m (coin_received coinSigner m share st) = Some (st', msgs)"
    "coin_inv B coinSigner st'" "pendingCoins st' = pendingCoins (coin_received coinSigner m share st)"
    using coin_reply_total [OF coin_received_inv [OF assms s(3)]] by blast
  then show ?thesis using received s by (simp add: on_coin_share_def)
next
  case False
  then show ?thesis using dropped by (auto simp: on_coin_share_def split: option.splits)
qed

lemma on_coin_share_total:
  assumes "coin_inv B coinSigner st"
  shows "\<exists>st' msgs. on_coin_share B coinSigner m body st = Some (st', msgs) \<and> coin_inv B coinSigner st'"
  by (rule on_coin_share_cases [OF assms, of m body]) (use assms in auto)

lemma coin_reply_result_total:
  assumes "coin_inv B coinSigner st" "coin_event_ok (CoinReplied key peer ok) st"
  shows "\<exists>st'. coin_reply_result key peer ok st = Some st' \<and> coin_inv B coinSigner st'"
  using assms by (auto simp: coin_reply_result_def coin_event_ok_def coin_inv_def Let_def split: option.splits)

lemma forget_coin_inv: "coin_inv B coinSigner st \<Longrightarrow> coin_inv B coinSigner (forget_coin key st)"
  by (auto simp: coin_inv_def forget_coin_def)

lemma coin_step_total:
  assumes "coin_inv B coinSigner st" "own_key B coinSigner (sc_LocalNode cfg)" "coin_event_ok ev st"
  shows "\<exists>st' msgs new. coin_step B cfg coinSigner ev st = Some (st', msgs, new) \<and> coin_inv B coinSigner st'"
proof (cases ev)
  case (CoinStart invocation)
  then show ?thesis using assms runCoin_start_inv [OF assms(1,2)]
    by (cases "runCoin_start B cfg coinSigner invocation st") (auto simp: coin_step_def)
next
  case (CoinMessage m body)
  then show ?thesis using on_coin_share_total [OF assms(1), of m body] by (auto simp: coin_step_def)
next
  case (CoinReplied key peer ok)
  then show ?thesis using coin_reply_result_total [OF assms(1)] assms(3) by (fastforce simp: coin_step_def)
qed (use assms in \<open>auto simp: coin_step_def forget_coin_inv\<close>)

lemma coin_run_inv:
  assumes "coin_run B cfg coinSigner st outs" "own_key B coinSigner (sc_LocalNode cfg)"
  shows "coin_inv B coinSigner st"
  using assms(1)
proof induction
  case coin_run_empty
  then show ?case by (rule coin_inv_empty)
next
  case (coin_run_step st outs ev st' msgs new)
  then show ?case using coin_step_total [OF _ assms(2)] by fastforce
qed

section \<open>What a run returns\<close>

lemma runCoin_recovered_value:
  fixes B :: "('g, 'h, 'f::field) bls"
  assumes "bls_laws B" "dealt B coinSigner cs"
    and "inj_on (of_int :: int \<Rightarrow> 'f) {1..int (length (ts_memberOrder coinSigner))}"
    and "pending_coin_ok B coinSigner key pending" "pn_ready pending"
  shows "runCoin_recovered B coinSigner key pending =
    cvBuildCoinOutputV2 B (pn_invocation pending) (group_signature B cs cvV2CoinDomain key) coinSigner"
  using shares_recover_value(1) [OF assms(1-3)] assms(4,5) by (simp add: runCoin_recovered_def pending_coin_ok_def)

text \<open>Every output a run returns is the one the group's signature gives.\<close>

lemma coin_run_outputs:
  fixes B :: "('g, 'h, 'f::field) bls"
  assumes "coin_run B cfg coinSigner st outs" "bls_laws B" "dealt B coinSigner cs"
    and "inj_on (of_int :: int \<Rightarrow> 'f) {1..int (length (ts_memberOrder coinSigner))}"
    and "own_key B coinSigner (sc_LocalNode cfg)" "out \<in> set outs"
  shows "\<exists>key. cvCoinInvocationDigestV2 (co_Invocation out) = Some key \<and>
    cvBuildCoinOutputV2 B (co_Invocation out) (group_signature B cs cvV2CoinDomain key) coinSigner = Some out"
  using assms(1,6)
proof induction
  case coin_run_empty
  then show ?case by simp
next
  case (coin_run_step st outs ev st' msgs new)
  note inv = coin_run_inv [OF coin_run_step.hyps(1) assms(5)]
  show ?case
  proof (cases "out \<in> set outs")
    case False
    then obtain key pending where "pendingCoins st key = Some pending" "pn_ready pending"
      "runCoin_recovered B coinSigner key pending = Some out"
      using coin_run_step.prems coin_run_step.hyps(2,3)
      by (auto simp: coin_step_def coin_event_ok_def split: coin_event.splits option.splits)
    moreover from this have ok: "pending_coin_ok B coinSigner key pending" using inv by (simp add: coin_inv_def)
    ultimately have "cvBuildCoinOutputV2 B (pn_invocation pending) (group_signature B cs cvV2CoinDomain key) coinSigner = Some out"
      using runCoin_recovered_value [OF assms(2-4)] by simp
    moreover from this have "co_Invocation out = pn_invocation pending" by (auto simp: cvBuildCoinOutputV2_def run_simps)
    ultimately show ?thesis using ok by (auto simp: pending_coin_ok_def)
  qed (rule coin_run_step.IH)
qed

text \<open>C11: two nodes whose coin keys were dealt together return the same output for an invocation, whichever shares each
  of them received and in whatever order, and it verifies.\<close>

theorem network_coin_agreement:
  fixes B :: "('g, 'h, 'f::field) bls"
  assumes "bls_laws B" "dealt B signer1 cs" "dealt B signer2 cs"
    and "inj_on (of_int :: int \<Rightarrow> 'f) {1..int (length (ts_memberOrder signer1))}"
    and "inj_on (of_int :: int \<Rightarrow> 'f) {1..int (length (ts_memberOrder signer2))}"
    and "own_key B signer1 (sc_LocalNode cfg1)" "own_key B signer2 (sc_LocalNode cfg2)"
    and "coin_run B cfg1 signer1 st1 outs1" "coin_run B cfg2 signer2 st2 outs2"
    and "out1 \<in> set outs1" "out2 \<in> set outs2" "co_Invocation out1 = co_Invocation out2"
  shows "out1 = out2 \<and> cvVerifyCoinOutputV2 B out1 (co_Invocation out1) signer1 \<and>
    cvVerifyCoinOutputV2 B out1 (co_Invocation out1) signer2"
proof -
  obtain key where key: "cvCoinInvocationDigestV2 (co_Invocation out1) = Some key"
    "cvBuildCoinOutputV2 B (co_Invocation out1) (group_signature B cs cvV2CoinDomain key) signer1 = Some out1"
    using coin_run_outputs [OF assms(8,1,2,4,6,10)] by blast
  obtain key2 where key2: "cvCoinInvocationDigestV2 (co_Invocation out2) = Some key2"
    "cvBuildCoinOutputV2 B (co_Invocation out2) (group_signature B cs cvV2CoinDomain key2) signer2 = Some out2"
    using coin_run_outputs [OF assms(9,1,3,5,7,11)] by blast
  have same: "key2 = key" using key key2 assms(12) by simp
  then have "out1 = out2" using key(2) key2(2) assms(12) by (auto simp: cvBuildCoinOutputV2_def run_simps)
  then show ?thesis using coin_output_build_verify [OF key(2)] coin_output_build_verify [OF key2(2)] assms(12) by simp
qed

section \<open>A coin that has its shares returns\<close>

text \<open>Messages delivered one after the other.\<close>

fun coin_deliver ::
  "('g, 'h, 'f) bls \<Rightarrow> ('g, 'h, 'f) tblsThresholdSigner \<Rightarrow> (int \<times> bytes) list \<Rightarrow> coin_part \<Rightarrow> coin_part option" where
  "coin_deliver B coinSigner [] st = Some st"
| "coin_deliver B coinSigner ((from, body) # msgs) st =
     (case on_coin_share B coinSigner from body st of None \<Rightarrow> None | Some (st', _) \<Rightarrow> coin_deliver B coinSigner msgs st')"

text \<open>The member's share of a coin, as its message carries it.\<close>

definition coin_share_from ::
  "('g, 'h, 'f) bls \<Rightarrow> ('g, 'h, 'f) tblsThresholdSigner \<Rightarrow> bytes \<Rightarrow> int \<Rightarrow> bytes \<Rightarrow> bool" where
  "coin_share_from B coinSigner key member body \<longleftrightarrow>
     (\<exists>share. cvDecodeCoinShareV2 body = Some share \<and> cs_InvocationDigest share = key \<and>
        VerifyShare B coinSigner member cvV2CoinDomain key (cs_Signature share))"

lemma on_coin_share_keeps:
  assumes "coin_inv B coinSigner st" "pendingCoins st key = Some pending"
  obtains st' msgs pending' where "on_coin_share B coinSigner m body st = Some (st', msgs)" "coin_inv B coinSigner st'"
    "pendingCoins st' key = Some pending'" "pn_invocation pending' = pn_invocation pending"
    "fst ` set (pn_shares pending) \<subseteq> fst ` set (pn_shares pending')"
    "coin_share_from B coinSigner key m body \<Longrightarrow> m \<in> fst ` set (pn_shares pending')"
  using assms(1)
proof (cases rule: on_coin_share_cases [of B coinSigner st m body])
  case dropped
  have "cvV2SignerHasRole coinSigner cvV2RoleCoin" using assms by (auto simp: coin_inv_def pending_coin_ok_def)
  then have "\<not> coin_share_from B coinSigner key m body" using dropped(2) by (auto simp: coin_share_from_def)
  then show ?thesis using that [OF dropped(1)] assms by blast
next
  case (received share st' msgs)
  show ?thesis
  proof (cases "cs_InvocationDigest share = key")
    case True
    let ?p = "add_coin_share coinSigner m (cs_Signature share) pending"
    have mem: "fst ` set (pn_shares ?p) = insert m (fst ` set (pn_shares pending))"
      by (simp add: add_coin_share_def Let_def put_first_members)
    show ?thesis
      by (rule that [OF received(1,3), of ?p])
         (use mem received(4) True assms(2) in \<open>auto simp: coin_received_def add_coin_share_def Let_def\<close>)
  next
    case False
    then have "\<not> coin_share_from B coinSigner key m body" using received(2) by (auto simp: coin_share_from_def)
    moreover have "pendingCoins st' key = Some pending"
      using False received(4) assms(2) by (auto simp: coin_received_def split: option.splits)
    ultimately show ?thesis using that [OF received(1,3)] by blast
  qed
qed

lemma coin_deliver_collects:
  assumes "coin_inv B coinSigner st" "pendingCoins st key = Some pending"
  shows "\<exists>st' pending'. coin_deliver B coinSigner msgs st = Some st' \<and> coin_inv B coinSigner st' \<and>
    pendingCoins st' key = Some pending' \<and> pn_invocation pending' = pn_invocation pending \<and>
    fst ` set (pn_shares pending) \<union> {m. \<exists>body. (m, body) \<in> set msgs \<and> coin_share_from B coinSigner key m body} \<subseteq>
      fst ` set (pn_shares pending')"
  using assms
proof (induction msgs arbitrary: st pending)
  case Nil
  then show ?case by simp
next
  case (Cons msg msgs)
  obtain m body where msg: "msg = (m, body)" by (cases msg)
  obtain st1 out pending1 where one: "on_coin_share B coinSigner m body st = Some (st1, out)" "coin_inv B coinSigner st1"
    "pendingCoins st1 key = Some pending1" "pn_invocation pending1 = pn_invocation pending"
    "fst ` set (pn_shares pending) \<subseteq> fst ` set (pn_shares pending1)"
    "coin_share_from B coinSigner key m body \<Longrightarrow> m \<in> fst ` set (pn_shares pending1)"
    using on_coin_share_keeps [OF Cons.prems] by blast
  obtain st2 pending2 where two: "coin_deliver B coinSigner msgs st1 = Some st2" "coin_inv B coinSigner st2"
    "pendingCoins st2 key = Some pending2" "pn_invocation pending2 = pn_invocation pending1"
    "fst ` set (pn_shares pending1) \<union> {m. \<exists>body. (m, body) \<in> set msgs \<and> coin_share_from B coinSigner key m body} \<subseteq>
      fst ` set (pn_shares pending2)"
    using Cons.IH [OF one(2,3)] by blast
  have "fst ` set (pn_shares pending) \<union> {k. \<exists>b. (k, b) \<in> set (msg # msgs) \<and> coin_share_from B coinSigner key k b} \<subseteq>
      fst ` set (pn_shares pending2)"
    using one(5,6) two(5) msg by auto
  then show ?case using one(1,4) two msg by auto
qed

text \<open>C12: a node that starts a coin and is then delivered any messages in any order, among them shares of enough other
  members, returns the coin's output.\<close>

theorem network_coin_returns:
  fixes B :: "('g, 'h, 'f::field) bls"
  assumes "bls_laws B" "marshal_fits B" "dealt B coinSigner cs"
    and "inj_on (of_int :: int \<Rightarrow> 'f) {1..int (length (ts_memberOrder coinSigner))}"
    and "own_key B coinSigner (sc_LocalNode cfg)" "coin_run B cfg coinSigner st outs"
    and "cvCoinInvocationDigestV2 invocation = Some key" "runCoin_start B cfg coinSigner invocation st = Some (st1, sent)"
    and "distinct members" "sc_LocalNode cfg \<notin> set members" "ts_t coinSigner \<le> int (length members) + 1"
    and "\<forall>m \<in> set members. \<exists>body. (m, body) \<in> set msgs \<and> coin_share_from B coinSigner key m body"
  shows "\<exists>st2 out. coin_deliver B coinSigner msgs st1 = Some st2 \<and> coin_event_ok (CoinFinish key) st2 \<and>
    coin_step B cfg coinSigner (CoinFinish key) st2 = Some (forget_coin key st2, [], [out]) \<and>
    cvVerifyCoinOutputV2 B out invocation coinSigner"
proof -
  have inv1: "coin_inv B coinSigner st1" by (rule runCoin_start_inv [OF coin_run_inv [OF assms(6,5)] assms(5,8)])
  obtain pending1 where p1: "pendingCoins st1 key = Some pending1" "pn_invocation pending1 = invocation"
    "sc_LocalNode cfg \<in> fst ` set (pn_shares pending1)"
    using assms(7,8) by (auto simp: runCoin_start_def Let_def run_simps)
  obtain st2 pending where two: "coin_deliver B coinSigner msgs st1 = Some st2" "coin_inv B coinSigner st2"
    "pendingCoins st2 key = Some pending" "pn_invocation pending = invocation"
    "insert (sc_LocalNode cfg) (set members) \<subseteq> fst ` set (pn_shares pending)"
    using coin_deliver_collects [OF inv1 p1(1), of msgs] p1(2,3) assms(12) by fast
  have ok: "pending_coin_ok B coinSigner key pending" using two(2,3) by (simp add: coin_inv_def)
  have "card (insert (sc_LocalNode cfg) (set members)) \<le> card (fst ` set (pn_shares pending))"
    by (rule card_mono [OF _ two(5)]) simp
  then have "length members + 1 \<le> length (pn_shares pending)"
    using assms(9,10) card_image_le [of "set (pn_shares pending)" fst] card_length [of "pn_shares pending"]
    by (simp add: distinct_card)
  then have ready: "pn_ready pending" using ok assms(11) by (simp add: pending_coin_ok_def)
  let ?sig = "group_signature B cs cvV2CoinDomain key"
  have "?sig \<noteq> []" using assms(2) by (auto simp: group_signature_def marshal_fits_def)
  moreover have "VerifyRecovered B coinSigner cvV2CoinDomain key ?sig"
    using shares_recover_value(2) [OF assms(1,3,4)] ok ready by (auto simp: pending_coin_ok_def)
  ultimately obtain out where out: "cvBuildCoinOutputV2 B invocation ?sig coinSigner = Some out"
    using assms(7) ok by (simp add: cvBuildCoinOutputV2_def pending_coin_ok_def)
  have "runCoin_recovered B coinSigner key pending = Some out"
    using runCoin_recovered_value [OF assms(1,3,4) ok ready] out two(4) by simp
  then show ?thesis using two ready out coin_output_build_verify [OF out]
    by (auto simp: coin_step_def coin_event_ok_def)
qed

section \<open>Eligibility\<close>

record elig_part =
  eligibleProposers :: "int set"
  eligibilityValue :: bytes
  eligibilityCoin :: "cvCoinOutputV2 option"
  validatorSample :: "int list"
  verifiedCatalogPrewarm :: bool
  recoveryPrewarmV2 :: bool

definition elig_empty :: elig_part where
  "elig_empty = \<lparr> eligibleProposers = {}, eligibilityValue = [], eligibilityCoin = None, validatorSample = [],
     verifiedCatalogPrewarm = False, recoveryPrewarmV2 = False \<rparr>"

datatype cvValidatorPrewarmModeV2 = cvValidatorPrewarmOffV2 | cvValidatorPrewarmRecoverV2 | cvValidatorPrewarmFullV2

definition cvValidatorPrewarmModeFromEnvV2 :: "(string \<Rightarrow> string) \<Rightarrow> int \<Rightarrow> cvValidatorPrewarmModeV2" where
  "cvValidatorPrewarmModeFromEnvV2 env rosterSize =
     (let mode = go_TrimSpace (go_ToLower (env ''RLADKR_VALIDATOR_PREWARM''))
      in if mode = ''full'' then cvValidatorPrewarmFullV2
         else if mode = ''recover'' then cvValidatorPrewarmRecoverV2
         else if mode = ''off'' then cvValidatorPrewarmOffV2
         else if rosterSize > 128 then cvValidatorPrewarmRecoverV2 else cvValidatorPrewarmFullV2)"

text \<open>Which of the two prewarming goroutines start: that of the catalogue, that of the recovery.\<close>

definition start_prewarm ::
  "int \<Rightarrow> cvValidatorPrewarmModeV2 \<Rightarrow> elig_part \<Rightarrow> elig_part \<times> bool \<times> bool" where
  "start_prewarm localNode mode st =
     (let proposerEligible = (localNode \<in> eligibleProposers st);
          validatorSampled = (localNode \<in> set (validatorSample st));
          (st, prewarmCatalog) = (if proposerEligible \<and> \<not> verifiedCatalogPrewarm st
            then (st\<lparr> verifiedCatalogPrewarm := True \<rparr>, True) else (st, False))
      in if validatorSampled \<and> \<not> proposerEligible \<and> \<not> recoveryPrewarmV2 st
         then (case mode of
                 cvValidatorPrewarmRecoverV2 \<Rightarrow> (st\<lparr> recoveryPrewarmV2 := True \<rparr>, prewarmCatalog, True)
               | cvValidatorPrewarmFullV2 \<Rightarrow> if \<not> verifiedCatalogPrewarm st
                   then (st\<lparr> verifiedCatalogPrewarm := True \<rparr>, True, False) else (st, prewarmCatalog, False)
               | cvValidatorPrewarmOffV2 \<Rightarrow> (st, prewarmCatalog, False))
         else (st, prewarmCatalog, False))"

lemma start_prewarm_keeps:
  "eligibilityValue (fst (start_prewarm n mode st)) = eligibilityValue st"
  "eligibilityCoin (fst (start_prewarm n mode st)) = eligibilityCoin st"
  "eligibleProposers (fst (start_prewarm n mode st)) = eligibleProposers st"
  "validatorSample (fst (start_prewarm n mode st)) = validatorSample st"
  by (simp_all add: start_prewarm_def Let_def split: cvValidatorPrewarmModeV2.split)

text \<open>The new state and what starts, or \<open>None\<close> for an error.\<close>

definition setEligibilityCoin ::
  "('g, 'h, 'f) bls \<Rightarrow> (string \<Rightarrow> string) \<Rightarrow> ('g, 'h, 'f) cvAPDBNetworkServiceConfigV2 \<Rightarrow> ('g, 'h, 'f) tblsThresholdSigner \<Rightarrow>
   cvCoinOutputV2 \<Rightarrow> elig_part \<Rightarrow> (elig_part \<times> bool \<times> bool) option" where
  "setEligibilityCoin B env cfg coinSigner out st = do {
     invocation \<leftarrow> cvEligibilityCoinInvocationV2 (sc_SID cfg) (sc_Epoch cfg);
     require (cvVerifyCoinOutputV2 B out invocation coinSigner);
     (proposers, validators) \<leftarrow> cvDeriveEligibilitySamplesV2 (sc_OldRoster cfg) (co_Value out)
       (vp_proposerSampleSize (sc_Params cfg)) (vp_validatorSampleSize (sc_Params cfg));
     coinWire \<leftarrow> cvCoinOutputV2CanonicalBytes out;
     coin \<leftarrow> cvDecodeCoinOutputV2 coinWire;
     require (\<not> (length (eligibilityValue st) \<noteq> 0 \<and> eligibilityValue st \<noteq> co_Value out));
     Some (start_prewarm (sc_LocalNode cfg) (cvValidatorPrewarmModeFromEnvV2 env (int (length (sc_OldRoster cfg))))
       (st\<lparr> eligibilityValue := co_Value out, eligibilityCoin := Some coin, eligibleProposers := set proposers,
            validatorSample := validators \<rparr>))
   }"

text \<open>What an accepted coin leaves behind: the samples are those of its value.\<close>

definition elig_of :: "('g, 'h, 'f) cvAPDBNetworkServiceConfigV2 \<Rightarrow> bytes \<Rightarrow> elig_part \<Rightarrow> bool" where
  "elig_of cfg v st \<longleftrightarrow> eligibilityValue st = v \<and>
     (\<exists>proposers. cvDeriveEligibilitySamplesV2 (sc_OldRoster cfg) v (vp_proposerSampleSize (sc_Params cfg))
        (vp_validatorSampleSize (sc_Params cfg)) = Some (proposers, validatorSample st) \<and> eligibleProposers st = set proposers)"

lemma setEligibilityCoin_elig:
  assumes "setEligibilityCoin B env cfg coinSigner out st = Some (st', pre)"
  shows "elig_of cfg (co_Value out) st'" "co_Value out \<noteq> []" "eligibilityValue st = [] \<or> eligibilityValue st = co_Value out"
proof -
  obtain proposers validators coin mode where
    s: "cvDeriveEligibilitySamplesV2 (sc_OldRoster cfg) (co_Value out) (vp_proposerSampleSize (sc_Params cfg))
      (vp_validatorSampleSize (sc_Params cfg)) = Some (proposers, validators)" "length (co_Value out) = 32"
    and v: "eligibilityValue st = [] \<or> eligibilityValue st = co_Value out"
    and r: "start_prewarm (sc_LocalNode cfg) mode (st\<lparr> eligibilityValue := co_Value out,
      eligibilityCoin := Some coin, eligibleProposers := set proposers, validatorSample := validators \<rparr>) = (st', pre)"
    using assms by (auto simp: setEligibilityCoin_def run_simps cvVerifyCoinOutputV2_def)
  then have "st' = fst (start_prewarm (sc_LocalNode cfg) mode (st\<lparr> eligibilityValue := co_Value out,
      eligibilityCoin := Some coin, eligibleProposers := set proposers, validatorSample := validators \<rparr>))"
    by simp
  then show "elig_of cfg (co_Value out) st'" using s(1) by (simp add: elig_of_def start_prewarm_keeps)
  show "co_Value out \<noteq> []" using s(2) by auto
  show "eligibilityValue st = [] \<or> eligibilityValue st = co_Value out" by (rule v)
qed

lemma elig_of_fun:
  "elig_of cfg v st \<Longrightarrow> elig_of cfg v st' \<Longrightarrow> eligibleProposers st' = eligibleProposers st \<and> validatorSample st' = validatorSample st"
  by (auto simp: elig_of_def)

text \<open>\<^verbatim>\<open>EligibilityCoin\<close> from the point where its coin has returned \<open>out\<close>; \<^verbatim>\<open>runCoin\<close> is called with the invocation
  \<open>eligibility_invocation\<close>.\<close>

definition EligibilityCoin_returned ::
  "('g, 'h, 'f) bls \<Rightarrow> (string \<Rightarrow> string) \<Rightarrow> ('g, 'h, 'f) cvAPDBNetworkServiceConfigV2 \<Rightarrow> ('g, 'h, 'f) tblsThresholdSigner \<Rightarrow>
   cvCoinOutputV2 \<Rightarrow> elig_part \<Rightarrow> elig_part \<times> cvCoinOutputV2 option" where
  "EligibilityCoin_returned B env cfg coinSigner out st =
     (case setEligibilityCoin B env cfg coinSigner out st of None \<Rightarrow> (st, None) | Some (st', _) \<Rightarrow> (st', Some out))"

text \<open>Calls with any coins, from the network or the configuration.\<close>

inductive elig_run ::
  "('g, 'h, 'f) bls \<Rightarrow> (string \<Rightarrow> string) \<Rightarrow> ('g, 'h, 'f) cvAPDBNetworkServiceConfigV2 \<Rightarrow> ('g, 'h, 'f) tblsThresholdSigner \<Rightarrow>
   elig_part \<Rightarrow> bool"
  for B env cfg coinSigner where
  elig_run_empty: "elig_run B env cfg coinSigner elig_empty"
| elig_run_set: "elig_run B env cfg coinSigner st \<Longrightarrow>
    elig_run B env cfg coinSigner (fst (EligibilityCoin_returned B env cfg coinSigner out st))"

lemma elig_run_sampled:
  assumes "elig_run B env cfg coinSigner st"
  shows "eligibilityValue st = [] \<and> eligibleProposers st = {} \<and> validatorSample st = [] \<or>
    eligibilityValue st \<noteq> [] \<and> elig_of cfg (eligibilityValue st) st"
  using assms
proof induction
  case elig_run_empty
  then show ?case by (simp add: elig_empty_def)
next
  case (elig_run_set st out)
  show ?case
  proof (cases "setEligibilityCoin B env cfg coinSigner out st")
    case None
    then show ?thesis using elig_run_set.IH by (simp add: EligibilityCoin_returned_def)
  next
    case (Some r)
    then show ?thesis using setEligibilityCoin_elig(1,2) [of B env cfg coinSigner out st]
      by (cases r) (auto simp: EligibilityCoin_returned_def elig_of_def)
  qed
qed

text \<open>Once a node has its samples, no later coin changes them.\<close>

lemma eligibility_fixed:
  assumes "elig_run B env cfg coinSigner st" "eligibilityValue st \<noteq> []"
  shows "eligibleProposers (fst (EligibilityCoin_returned B env cfg coinSigner out st)) = eligibleProposers st \<and>
    validatorSample (fst (EligibilityCoin_returned B env cfg coinSigner out st)) = validatorSample st"
proof (cases "setEligibilityCoin B env cfg coinSigner out st")
  case (Some r)
  then obtain st' pre where r: "setEligibilityCoin B env cfg coinSigner out st = Some (st', pre)" by (cases r) simp
  then show ?thesis
    using elig_run_sampled [OF assms(1)] setEligibilityCoin_elig(1,3) [OF r] assms(2) elig_of_fun [of cfg "co_Value out" st st']
    by (simp add: EligibilityCoin_returned_def)
qed (simp add: EligibilityCoin_returned_def)

end
