(* ===== verification/Net_Pool.thy ===== *)
theory Net_Pool
  imports Net_Coin
begin

text \<open>
  Component references and pool certification in a node's service: \<^verbatim>\<open>handleComponentRefV2\<close>, \<^verbatim>\<open>storeComponentRefV2\<close>,
  \<^verbatim>\<open>validatePool\<close>, \<^verbatim>\<open>handlePoolOffer\<close>, \<^verbatim>\<open>handlePoolCertificateShare\<close>, \<^verbatim>\<open>handlePoolCertificate\<close>, \<^verbatim>\<open>CertifyPool\<close>,
  \<^verbatim>\<open>AwaitCertifiedPool\<close> and the start of \<^verbatim>\<open>ContributorCoin\<close> (\<^verbatim>\<open>src/core/cv_sapvss_apdb_network_v2.go\<close>,
  \<^verbatim>\<open>src/core/cv_sapvss_component_network_v2.go\<close>).  The sections of one handler are taken as one step: between them only calls
  of the local node run, and those never change the pool of a slot.  The abstract specification is the slot state machine
  of \<^verbatim>\<open>Pool\<close>: every run of the service is, slot by slot, a run of it.
\<close>

section \<open>State\<close>

record cvNetworkPoolSlotV2 =
  sl_state :: cvPoolSlotStateV2
  sl_poolWire :: bytes
  sl_certWire :: bytes
  sl_localShare :: bytes
  sl_shares :: "(int \<times> bytes) list"
  sl_sharesReady :: bool
  sl_certReady :: bool
  sl_certifying :: bool

record pool_part =
  poolSlots :: "int \<rightharpoonup> cvNetworkPoolSlotV2"
  componentRefsV2 :: "int \<rightharpoonup> cvComponentRefV2"
  componentRefUpdatesV2 :: bool
  localComponentRefV2 :: bytes

definition pool_empty :: pool_part where
  "pool_empty = \<lparr> poolSlots = (\<lambda>_. None), componentRefsV2 = (\<lambda>_. None), componentRefUpdatesV2 = False, localComponentRefV2 = [] \<rparr>"

definition new_slot :: cvNetworkPoolSlotV2 where
  "new_slot = \<lparr> sl_state = slot_empty, sl_poolWire = [], sl_certWire = [], sl_localShare = [], sl_shares = [],
     sl_sharesReady = False, sl_certReady = False, sl_certifying = False \<rparr>"

text \<open>The slot of a proposer, made when there is none; \<open>put_slot\<close> writes back what the code changes through the pointer.\<close>

definition poolSlotLocked :: "int \<Rightarrow> pool_part \<Rightarrow> cvNetworkPoolSlotV2" where
  "poolSlotLocked proposer st = (case poolSlots st proposer of None \<Rightarrow> new_slot | Some slot \<Rightarrow> slot)"

definition put_slot :: "int \<Rightarrow> cvNetworkPoolSlotV2 \<Rightarrow> pool_part \<Rightarrow> pool_part" where
  "put_slot proposer slot st = st\<lparr> poolSlots := (poolSlots st)(proposer \<mapsto> slot) \<rparr>"

section \<open>Component references\<close>

definition equalComponentRefsV2 :: "cvComponentRefV2 \<Rightarrow> cvComponentRefV2 \<Rightarrow> bool" where
  "equalComponentRefsV2 left right =
     (case (cvComponentRefV2CanonicalBytes left, cvComponentRefV2CanonicalBytes right) of
        (Some leftWire, Some rightWire) \<Rightarrow> leftWire = rightWire | _ \<Rightarrow> False)"

definition storeComponentRefV2 :: "cvComponentRefV2 \<Rightarrow> pool_part \<Rightarrow> pool_part \<times> bool" where
  "storeComponentRefV2 ref st =
     (if componentRefsV2 st (ch_DealerID (cr_Header ref)) \<noteq> None then (st, False)
      else (st\<lparr> componentRefsV2 := (componentRefsV2 st)(ch_DealerID (cr_Header ref) \<mapsto> ref), componentRefUpdatesV2 := True \<rparr>, True))"

definition handleComponentRefV2 ::
  "('g, 'h, 'f) bls \<Rightarrow> ('g, 'h, 'f) cvAPDBNetworkServiceConfigV2 \<Rightarrow> ('g, 'h, 'f) tblsThresholdSigner \<Rightarrow> int \<Rightarrow> bytes \<Rightarrow>
   pool_part \<Rightarrow> pool_part \<times> cvOutboundMessageV2 list" where
  "handleComponentRefV2 B cfg apdbSigner from body st =
     (case cvDecodeComponentRefV2 body of
        None \<Rightarrow> (st, [])
      | Some ref \<Rightarrow>
          if ch_DealerID (cr_Header ref) \<noteq> from \<or> ch_ContextDigest (cr_Header ref) \<noteq> sc_ExpectedContext cfg \<or>
             componentRefsV2 st (ch_DealerID (cr_Header ref)) \<noteq> None \<or> \<not> cvValidateComponentRefV2 B ref (Some apdbSigner)
          then (st, [])
          else (case storeComponentRefV2 ref st of
                  (st, False) \<Rightarrow> (st, [])
                | (st, True) \<Rightarrow> (st, if length (localComponentRefV2 st) \<noteq> 0 \<and> from \<noteq> sc_LocalNode cfg
                    then [(from, cvTagComponentRefV2, localComponentRefV2 st)] else [])))"

text \<open>What \<^verbatim>\<open>publishComponentPayloadV2\<close> does once it holds its lock: validate, store and send the reference.\<close>

definition publish_ref ::
  "('g, 'h, 'f) bls \<Rightarrow> ('g, 'h, 'f) cvAPDBNetworkServiceConfigV2 \<Rightarrow> ('g, 'h, 'f) tblsThresholdSigner \<Rightarrow> cvComponentRefV2 \<Rightarrow>
   pool_part \<Rightarrow> pool_part \<times> cvOutboundMessageV2 list" where
  "publish_ref B cfg apdbSigner ref st =
     (case (cvValidateComponentRefV2 B ref (Some apdbSigner), cvComponentRefV2CanonicalBytes ref) of
        (True, Some wire) \<Rightarrow> ((fst (storeComponentRefV2 ref st))\<lparr> localComponentRefV2 := wire \<rparr>,
           send_to_all (sc_OldRoster cfg) (sc_LocalNode cfg) cvTagComponentRefV2 wire)
      | _ \<Rightarrow> (st, []))"

definition validateKnownComponentRefsV2 ::
  "('g, 'h, 'f) bls \<Rightarrow> ('g, 'h, 'f) tblsThresholdSigner \<Rightarrow> (int \<rightharpoonup> cvComponentRefV2) \<Rightarrow> cvComponentRefV2 list \<Rightarrow> bool" where
  "validateKnownComponentRefsV2 B apdbSigner known refs =
     list_all (\<lambda>ref. case known (ch_DealerID (cr_Header ref)) of
        Some k \<Rightarrow> equalComponentRefsV2 k ref
      | None \<Rightarrow> cvValidateComponentRefV2 B ref (Some apdbSigner)) refs"

section \<open>Offers\<close>

definition validatePool ::
  "('g, 'h, 'f) bls \<Rightarrow> ('g, 'h, 'f) cvAPDBNetworkServiceConfigV2 \<Rightarrow> ('g, 'h, 'f) tblsThresholdSigner \<Rightarrow> int set \<Rightarrow> cvPoolV2 \<Rightarrow>
   pool_part \<Rightarrow> bytes option" where
  "validatePool B cfg apdbSigner eligible pool st = do {
     require (pl_ContextDigest pool = sc_ExpectedContext cfg);
     require (pl_ProposerID pool \<in> eligible);
     wire \<leftarrow> cvPoolV2CanonicalBytes pool (sc_Params cfg);
     require (validateKnownComponentRefsV2 B apdbSigner (componentRefsV2 st) (pl_Components pool));
     Some wire
   }"

text \<open>A certificate that arrived before the pool is taken into account when the pool does.\<close>

definition early_certificate ::
  "('g, 'h, 'f) bls \<Rightarrow> ('g, 'h, 'f) tblsThresholdSigner \<Rightarrow> cvPoolV2 \<Rightarrow> cvNetworkPoolSlotV2 \<Rightarrow> cvNetworkPoolSlotV2" where
  "early_certificate B controlSigner pool slot =
     (if length (sl_certWire slot) = 0 then slot
      else case cvDecodePoolCertificateV2 (sl_certWire slot) of
        None \<Rightarrow> slot
      | Some certificate \<Rightarrow>
          if \<not> cvVerifyPoolCertificateV2 B pool certificate controlSigner then slot
          else slot\<lparr> sl_state := (case observeCertificate (sl_state slot) certificate of None \<Rightarrow> sl_state slot | Some state \<Rightarrow> state),
                     sl_certReady := True \<rparr>)"

definition pool_share_reply :: "cvPoolV2 \<Rightarrow> bytes \<Rightarrow> cvOutboundMessageV2 list" where
  "pool_share_reply pool localShare = reply (pl_ProposerID pool) cvTagPoolCertShareV2 (cvPoolCertificateShareV2CanonicalBytes
     \<lparr> pcs_ProposerID = pl_ProposerID pool, pcs_PoolDigest = pl_Digest pool, pcs_Signature = localShare \<rparr>)"

text \<open>The part of \<^verbatim>\<open>handlePoolOffer\<close> that holds the mutex, on the proposer's slot.\<close>

definition offer_slot ::
  "('g, 'h, 'f) bls \<Rightarrow> int \<Rightarrow> ('g, 'h, 'f) tblsThresholdSigner \<Rightarrow> cvPoolV2 \<Rightarrow> bytes \<Rightarrow> bytes \<Rightarrow>
   cvNetworkPoolSlotV2 \<Rightarrow> cvNetworkPoolSlotV2 \<times> cvOutboundMessageV2 list" where
  "offer_slot B localNode controlSigner pool poolWire statement slot =
     (case observePool (sl_state slot) pool of
        None \<Rightarrow> (slot, [])
      | Some state \<Rightarrow>
          (let slot = early_certificate B controlSigner pool (slot\<lparr> sl_state := state \<rparr>)
           in if \<not> ps_signed (sl_state slot)
              then (case SignShare B controlSigner localNode cvPoolCertV2Domain statement of
                      None \<Rightarrow> (slot, [])
                    | Some localShare \<Rightarrow>
                        (case markSigned (sl_state slot) (pl_Digest pool) of
                           None \<Rightarrow> (slot, [])
                         | Some state \<Rightarrow> (slot\<lparr> sl_state := state, sl_poolWire := poolWire, sl_localShare := localShare \<rparr>,
                             pool_share_reply pool localShare)))
              else if length (sl_localShare slot) = 0 \<or> ps_poolDigest (sl_state slot) \<noteq> pl_Digest pool then (slot, [])
              else (slot, pool_share_reply pool (sl_localShare slot))))"

text \<open>The checks of \<^verbatim>\<open>handlePoolOffer\<close> before it takes the mutex: the pool, its wire form and the statement to sign.\<close>

definition offered_pool ::
  "('g, 'h, 'f) bls \<Rightarrow> ('g, 'h, 'f) cvAPDBNetworkServiceConfigV2 \<Rightarrow> ('g, 'h, 'f) tblsThresholdSigner \<Rightarrow> int set \<Rightarrow> int \<Rightarrow> bytes \<Rightarrow>
   pool_part \<Rightarrow> (cvPoolV2 \<times> bytes \<times> bytes) option" where
  "offered_pool B cfg apdbSigner eligible from body st = do {
     pool \<leftarrow> cvDecodePoolV2 body (sc_Params cfg);
     require (\<not> pl_ProposerID pool \<noteq> from);
     poolWire \<leftarrow> validatePool B cfg apdbSigner eligible pool st;
     statement \<leftarrow> cvPoolCertificateStatementV2 (pl_ContextDigest pool) (pl_ProposerID pool) (pl_Digest pool);
     Some (pool, poolWire, statement)
   }"

definition handlePoolOffer ::
  "('g, 'h, 'f) bls \<Rightarrow> ('g, 'h, 'f) cvAPDBNetworkServiceConfigV2 \<Rightarrow> ('g, 'h, 'f) tblsThresholdSigner \<Rightarrow>
   ('g, 'h, 'f) tblsThresholdSigner \<Rightarrow> int set \<Rightarrow> int \<Rightarrow> bytes \<Rightarrow> pool_part \<Rightarrow> pool_part \<times> cvOutboundMessageV2 list" where
  "handlePoolOffer B cfg apdbSigner controlSigner eligible from body st =
     (case offered_pool B cfg apdbSigner eligible from body st of
        None \<Rightarrow> (st, [])
      | Some (pool, poolWire, statement) \<Rightarrow>
          (case offer_slot B (sc_LocalNode cfg) controlSigner pool poolWire statement (poolSlotLocked (pl_ProposerID pool) st) of
             (slot, msgs) \<Rightarrow> (put_slot (pl_ProposerID pool) slot st, msgs)))"

section \<open>Certificate shares and certificates\<close>

definition checked_pool_share ::
  "('g, 'h, 'f) bls \<Rightarrow> ('g, 'h, 'f) cvAPDBNetworkServiceConfigV2 \<Rightarrow> ('g, 'h, 'f) tblsThresholdSigner \<Rightarrow> int \<Rightarrow> bytes \<Rightarrow>
   pool_part \<Rightarrow> (cvPoolCertificateShareV2 \<times> cvNetworkPoolSlotV2) option" where
  "checked_pool_share B cfg controlSigner from body st = do {
     share \<leftarrow> cvDecodePoolCertificateShareV2 body;
     require (\<not> pcs_ProposerID share \<noteq> sc_LocalNode cfg);
     slot \<leftarrow> poolSlots st (pcs_ProposerID share);
     require (\<not> (\<not> ps_poolSeen (sl_state slot) \<or> ps_poolDigest (sl_state slot) \<noteq> pcs_PoolDigest share));
     statement \<leftarrow> cvPoolCertificateStatementV2 (sc_ExpectedContext cfg) (pcs_ProposerID share) (pcs_PoolDigest share);
     require (VerifyShare B controlSigner from cvPoolCertV2Domain statement (pcs_Signature share));
     Some (share, slot)
   }"

definition handlePoolCertificateShare ::
  "('g, 'h, 'f) bls \<Rightarrow> ('g, 'h, 'f) cvAPDBNetworkServiceConfigV2 \<Rightarrow> ('g, 'h, 'f) tblsThresholdSigner \<Rightarrow> int \<Rightarrow> bytes \<Rightarrow>
   pool_part \<Rightarrow> pool_part" where
  "handlePoolCertificateShare B cfg controlSigner from body st =
     (case checked_pool_share B cfg controlSigner from body st of
        None \<Rightarrow> st
      | Some (share, slot) \<Rightarrow>
          (let shares = put_first from (pcs_Signature share) (sl_shares slot)
           in put_slot (pcs_ProposerID share) (slot\<lparr> sl_shares := shares,
                sl_sharesReady := (sl_sharesReady slot \<or> int (length shares) \<ge> ts_t controlSigner) \<rparr>) st))"

definition handlePoolCertificate ::
  "('g, 'h, 'f) bls \<Rightarrow> ('g, 'h, 'f) cvAPDBNetworkServiceConfigV2 \<Rightarrow> ('g, 'h, 'f) tblsThresholdSigner \<Rightarrow> int \<Rightarrow> bytes \<Rightarrow>
   pool_part \<Rightarrow> pool_part" where
  "handlePoolCertificate B cfg controlSigner from body st =
     (case cvDecodePoolCertificateV2 body of
        None \<Rightarrow> st
      | Some certificate \<Rightarrow>
          (let slot = poolSlotLocked from st; st = put_slot from slot st
           in if \<not> ps_poolSeen (sl_state slot) then put_slot from (slot\<lparr> sl_certWire := body \<rparr>) st
              else if ps_poolDigest (sl_state slot) \<noteq> pc_PoolDigest certificate then st
              else case cvDecodePoolV2 (sl_poolWire slot) (sc_Params cfg) of
                None \<Rightarrow> st
              | Some pool \<Rightarrow>
                  if pl_ProposerID pool \<noteq> from \<or> \<not> cvVerifyPoolCertificateV2 B pool certificate controlSigner then st
                  else (case observeCertificate (sl_state slot) certificate of
                          None \<Rightarrow> st
                        | Some state \<Rightarrow> put_slot from (slot\<lparr> sl_state := state, sl_certWire := body, sl_certReady := True \<rparr>) st)))"

section \<open>Certifying a pool\<close>

text \<open>The part of \<^verbatim>\<open>CertifyPool\<close> that holds the mutex before it waits: the slot, and whether it goes on.  What an error leaves
  changed in the slot stays.\<close>

definition certify_slot ::
  "('g, 'h, 'f) bls \<Rightarrow> int \<Rightarrow> ('g, 'h, 'f) tblsThresholdSigner \<Rightarrow> cvPoolV2 \<Rightarrow> bytes \<Rightarrow> bytes \<Rightarrow>
   cvNetworkPoolSlotV2 \<Rightarrow> cvNetworkPoolSlotV2 \<times> bool" where
  "certify_slot B localNode controlSigner pool poolWire statement slot =
     (case observePool (sl_state slot) pool of
        None \<Rightarrow> (slot, False)
      | Some state \<Rightarrow>
          (let slot = slot\<lparr> sl_state := state \<rparr>;
               waiting = (\<lambda>slot. (slot\<lparr> sl_poolWire := poolWire, sl_certifying := True,
                 sl_sharesReady := (sl_sharesReady slot \<or> int (length (sl_shares slot)) \<ge> ts_t controlSigner) \<rparr>, True))
           in if sl_certifying slot then (slot, False)
              else if \<not> ps_signed state
              then (case SignShare B controlSigner localNode cvPoolCertV2Domain statement of
                      None \<Rightarrow> (slot, False)
                    | Some localShare \<Rightarrow>
                        (case markSigned state (pl_Digest pool) of
                           None \<Rightarrow> (slot, False)
                         | Some state \<Rightarrow> waiting (slot\<lparr> sl_state := state, sl_localShare := localShare,
                             sl_shares := AList.update localNode localShare (sl_shares slot) \<rparr>)))
              else if length (sl_localShare slot) = 0 then (slot, False)
              else waiting slot))"

text \<open>\<^verbatim>\<open>CertifyPool\<close> up to its first wait: the new state, and the offers sent when it waits, \<open>None\<close> when it has returned an
  error.\<close>

definition CertifyPool_start ::
  "('g, 'h, 'f) bls \<Rightarrow> ('g, 'h, 'f) cvAPDBNetworkServiceConfigV2 \<Rightarrow> ('g, 'h, 'f) tblsThresholdSigner \<Rightarrow>
   ('g, 'h, 'f) tblsThresholdSigner \<Rightarrow> int set \<Rightarrow> cvPoolV2 \<Rightarrow> pool_part \<Rightarrow> pool_part \<times> cvOutboundMessageV2 list option" where
  "CertifyPool_start B cfg apdbSigner controlSigner eligible pool st =
     (case (do {
          require (\<not> pl_ProposerID pool \<noteq> sc_LocalNode cfg);
          poolWire \<leftarrow> validatePool B cfg apdbSigner eligible pool st;
          statement \<leftarrow> cvPoolCertificateStatementV2 (pl_ContextDigest pool) (pl_ProposerID pool) (pl_Digest pool);
          Some (poolWire, statement)
        }) of
        None \<Rightarrow> (st, None)
      | Some (poolWire, statement) \<Rightarrow>
          (case certify_slot B (sc_LocalNode cfg) controlSigner pool poolWire statement (poolSlotLocked (pl_ProposerID pool) st) of
             (slot, waits) \<Rightarrow> (put_slot (pl_ProposerID pool) slot st,
                if waits then Some (send_to_all (sc_OldRoster cfg) (sc_LocalNode cfg) cvTagPoolOfferV2 poolWire) else None)))"

text \<open>A retry: the offer again, to the members whose share is missing.\<close>

definition CertifyPool_retry :: "('g, 'h, 'f) cvAPDBNetworkServiceConfigV2 \<Rightarrow> pool_part \<Rightarrow> cvOutboundMessageV2 list" where
  "CertifyPool_retry cfg st =
     (let slot = poolSlotLocked (sc_LocalNode cfg) st
      in if \<not> sl_certifying slot then []
         else map (\<lambda>member. (member, cvTagPoolOfferV2, sl_poolWire slot))
           (filter (\<lambda>member. member \<noteq> sc_LocalNode cfg \<and> member \<notin> fst ` set (sl_shares slot)) (sc_OldRoster cfg)))"

text \<open>From the label \<^verbatim>\<open>recoverCertificate\<close> on: the notification has been received, and the slot is no longer certifying when
  the call returns.\<close>

definition CertifyPool_recovered ::
  "('g, 'h, 'f::field) bls \<Rightarrow> ('g, 'h, 'f) cvAPDBNetworkServiceConfigV2 \<Rightarrow> ('g, 'h, 'f) tblsThresholdSigner \<Rightarrow> cvPoolV2 \<Rightarrow>
   pool_part \<Rightarrow> pool_part \<times> (cvPoolCertificateV2 \<times> cvOutboundMessageV2 list) option" where
  "CertifyPool_recovered B cfg controlSigner pool st =
     (let self = sc_LocalNode cfg; slot = (poolSlotLocked self st)\<lparr> sl_sharesReady := False, sl_certifying := False \<rparr>
      in case (do {
             statement \<leftarrow> cvPoolCertificateStatementV2 (pl_ContextDigest pool) (pl_ProposerID pool) (pl_Digest pool);
             recovered \<leftarrow> Recover B controlSigner cvPoolCertV2Domain statement (sl_shares slot);
             let certificate = \<lparr> pc_PoolDigest = pl_Digest pool, pc_Certificate = recovered \<rparr>;
             require (cvVerifyPoolCertificateV2 B pool certificate controlSigner);
             certWire \<leftarrow> cvPoolCertificateV2CanonicalBytes certificate;
             state \<leftarrow> observeCertificate (sl_state slot) certificate;
             Some (certificate, certWire, state)
           }) of
           None \<Rightarrow> (put_slot self slot st, None)
         | Some (certificate, certWire, state) \<Rightarrow>
             (put_slot self (slot\<lparr> sl_state := state, sl_certWire := certWire, sl_certReady := True \<rparr>) st,
              Some (certificate, send_to_all (sc_OldRoster cfg) self cvTagPoolCertV2 certWire)))"

definition CertifyPool_stop :: "('g, 'h, 'f) cvAPDBNetworkServiceConfigV2 \<Rightarrow> pool_part \<Rightarrow> pool_part" where
  "CertifyPool_stop cfg st = put_slot (sc_LocalNode cfg) ((poolSlotLocked (sc_LocalNode cfg) st)\<lparr> sl_certifying := False \<rparr>) st"

text \<open>\<^verbatim>\<open>AwaitCertifiedPool\<close>: the slot it waits on, the notification it receives, and what it reads once the slot is ready.\<close>

definition AwaitCertifiedPool_start :: "int set \<Rightarrow> int \<Rightarrow> pool_part \<Rightarrow> pool_part" where
  "AwaitCertifiedPool_start eligible proposer st =
     (if proposer \<notin> eligible then st else put_slot proposer (poolSlotLocked proposer st) st)"

definition AwaitCertifiedPool_wake :: "int \<Rightarrow> pool_part \<Rightarrow> pool_part" where
  "AwaitCertifiedPool_wake proposer st = put_slot proposer ((poolSlotLocked proposer st)\<lparr> sl_certReady := False \<rparr>) st"

definition AwaitCertifiedPool_read ::
  "('g, 'h, 'f) bls \<Rightarrow> ('g, 'h, 'f) cvAPDBNetworkServiceConfigV2 \<Rightarrow> ('g, 'h, 'f) tblsThresholdSigner \<Rightarrow> int \<Rightarrow> pool_part \<Rightarrow>
   (cvPoolV2 \<times> cvPoolCertificateV2) option" where
  "AwaitCertifiedPool_read B cfg controlSigner proposer st = do {
     let slot = poolSlotLocked proposer st;
     pool \<leftarrow> cvDecodePoolV2 (sl_poolWire slot) (sc_Params cfg);
     certificate \<leftarrow> cvDecodePoolCertificateV2 (sl_certWire slot);
     require (cvVerifyPoolCertificateV2 B pool certificate controlSigner);
     Some (pool, certificate)
   }"

text \<open>The invocation that \<^verbatim>\<open>ContributorCoin\<close> runs.\<close>

definition ContributorCoin_invocation ::
  "('g, 'h, 'f) bls \<Rightarrow> ('g, 'h, 'f) cvAPDBNetworkServiceConfigV2 \<Rightarrow> ('g, 'h, 'f) tblsThresholdSigner \<Rightarrow>
   ('g, 'h, 'f) tblsThresholdSigner \<Rightarrow> int set \<Rightarrow> cvPoolV2 \<Rightarrow> cvPoolCertificateV2 \<Rightarrow> pool_part \<Rightarrow> bytes option" where
  "ContributorCoin_invocation B cfg apdbSigner controlSigner eligible pool certificate st = do {
     _ \<leftarrow> validatePool B cfg apdbSigner eligible pool st;
     require (cvVerifyPoolCertificateV2 B pool certificate controlSigner);
     cvContributorCoinInvocationV2 (pl_ContextDigest pool) (pl_ProposerID pool) (pl_Digest pool)
   }"

section \<open>Runs\<close>

datatype pool_event =
    OfferMessage int bytes
  | PoolShareMessage int bytes
  | PoolCertMessage int bytes
  | RefMessage int bytes
  | PublishRef cvComponentRefV2
  | CertifyStart cvPoolV2
  | CertifyRetry
  | CertifyFinish cvPoolV2
  | CertifyStop
  | AwaitStart int
  | AwaitWake int

text \<open>The ids of a pool are Go \<^verbatim>\<open>int\<close>s.  A finish belongs to the call that certifies the slot's pool and has been notified.\<close>

definition pool_ints :: "cvPoolV2 \<Rightarrow> bool" where
  "pool_ints pool \<longleftrightarrow> int64 (pl_ProposerID pool) \<and> list_all (\<lambda>ref. int64 (ch_DealerID (cr_Header ref))) (pl_Components pool)"

definition pool_event_ok ::
  "('g, 'h, 'f) cvAPDBNetworkServiceConfigV2 \<Rightarrow> pool_event \<Rightarrow> pool_part \<Rightarrow> bool" where
  "pool_event_ok cfg ev st = (case ev of
     CertifyFinish pool \<Rightarrow> (let slot = poolSlotLocked (sc_LocalNode cfg) st
       in sl_certifying slot \<and> sl_sharesReady slot \<and> pl_ProposerID pool = sc_LocalNode cfg \<and>
          pl_ContextDigest pool = sc_ExpectedContext cfg \<and> cvPoolV2CanonicalBytes pool (sc_Params cfg) = Some (sl_poolWire slot) \<and>
          ps_poolDigest (sl_state slot) = pl_Digest pool)
   | AwaitWake proposer \<Rightarrow> sl_certReady (poolSlotLocked proposer st)
   | CertifyStart pool \<Rightarrow> pool_ints pool
   | _ \<Rightarrow> True)"

text \<open>\<open>eligible\<close> is the set of proposers the service holds when the event happens.\<close>

definition pool_step ::
  "('g, 'h, 'f::field) bls \<Rightarrow> ('g, 'h, 'f) cvAPDBNetworkServiceConfigV2 \<Rightarrow> ('g, 'h, 'f) tblsThresholdSigner \<Rightarrow>
   ('g, 'h, 'f) tblsThresholdSigner \<Rightarrow> int set \<Rightarrow> pool_event \<Rightarrow> pool_part \<Rightarrow> pool_part \<times> cvOutboundMessageV2 list" where
  "pool_step B cfg apdbSigner controlSigner eligible ev st = (case ev of
     OfferMessage from body \<Rightarrow> handlePoolOffer B cfg apdbSigner controlSigner eligible from body st
   | PoolShareMessage from body \<Rightarrow> (handlePoolCertificateShare B cfg controlSigner from body st, [])
   | PoolCertMessage from body \<Rightarrow> (handlePoolCertificate B cfg controlSigner from body st, [])
   | RefMessage from body \<Rightarrow> handleComponentRefV2 B cfg apdbSigner from body st
   | PublishRef ref \<Rightarrow> publish_ref B cfg apdbSigner ref st
   | CertifyStart pool \<Rightarrow> (case CertifyPool_start B cfg apdbSigner controlSigner eligible pool st of
       (st', sent) \<Rightarrow> (st', (case sent of None \<Rightarrow> [] | Some msgs \<Rightarrow> msgs)))
   | CertifyRetry \<Rightarrow> (st, CertifyPool_retry cfg st)
   | CertifyFinish pool \<Rightarrow> (case CertifyPool_recovered B cfg controlSigner pool st of
       (st', result) \<Rightarrow> (st', (case result of None \<Rightarrow> [] | Some (_, msgs) \<Rightarrow> msgs)))
   | CertifyStop \<Rightarrow> (CertifyPool_stop cfg st, [])
   | AwaitStart proposer \<Rightarrow> (AwaitCertifiedPool_start eligible proposer st, [])
   | AwaitWake proposer \<Rightarrow> (AwaitCertifiedPool_wake proposer st, []))"

inductive pool_run ::
  "('g, 'h, 'f::field) bls \<Rightarrow> ('g, 'h, 'f) cvAPDBNetworkServiceConfigV2 \<Rightarrow> ('g, 'h, 'f) tblsThresholdSigner \<Rightarrow>
   ('g, 'h, 'f) tblsThresholdSigner \<Rightarrow> pool_part \<Rightarrow> cvOutboundMessageV2 list \<Rightarrow> bool"
  for B cfg apdbSigner controlSigner where
  pool_run_empty: "pool_run B cfg apdbSigner controlSigner pool_empty []"
| pool_run_step: "pool_run B cfg apdbSigner controlSigner st sent \<Longrightarrow> pool_event_ok cfg ev st \<Longrightarrow>
    pool_step B cfg apdbSigner controlSigner eligible ev st = (st', msgs) \<Longrightarrow> pool_run B cfg apdbSigner controlSigner st' (sent @ msgs)"

section \<open>Refinement of the slot state machine\<close>

text \<open>The abstraction: the slot state of a proposer.\<close>

definition slot_of :: "pool_part \<Rightarrow> int \<Rightarrow> cvPoolSlotStateV2" where
  "slot_of st proposer = sl_state (poolSlotLocked proposer st)"

definition slot_step :: "cvPoolSlotStateV2 \<Rightarrow> cvPoolSlotStateV2 \<Rightarrow> bool" where
  "slot_step s s' \<longleftrightarrow> (\<exists>ev. slot_apply ev s = Some s')"

text \<open>A share for the pool \<open>digest\<close> of \<open>proposer\<close> is among the messages.\<close>

definition sends_pool_share :: "cvOutboundMessageV2 list \<Rightarrow> int \<Rightarrow> bytes \<Rightarrow> bool" where
  "sends_pool_share msgs proposer digest \<longleftrightarrow> (\<exists>to w share. (to, cvTagPoolCertShareV2, w) \<in> set msgs \<and>
     cvDecodePoolCertificateShareV2 w = Some share \<and> pcs_ProposerID share = proposer \<and> pcs_PoolDigest share = digest)"

lemma poolSlotLocked_put [simp]:
  "poolSlotLocked p (put_slot q slot st) = (if p = q then slot else poolSlotLocked p st)"
  by (simp add: poolSlotLocked_def put_slot_def)

lemma slot_of_put [simp]: "slot_of (put_slot q slot st) p = (if p = q then sl_state slot else slot_of st p)"
  by (simp add: slot_of_def)

lemma slot_step_observePool: "observePool s pool = Some s' \<Longrightarrow> slot_step s s'"
  unfolding slot_step_def by (rule exI [of _ "ObservePool pool"]) simp

lemma slot_step_markSigned: "markSigned s d = Some s' \<Longrightarrow> slot_step s s'"
  unfolding slot_step_def by (rule exI [of _ "MarkSigned d"]) simp

lemma slot_step_observeCertificate: "observeCertificate s c = Some s' \<Longrightarrow> slot_step s s'"
  unfolding slot_step_def by (rule exI [of _ "ObserveCertificate c"]) simp

lemmas slot_step_intros = slot_step_observePool slot_step_markSigned slot_step_observeCertificate

lemma markSigned_SomeD:
  "markSigned s d = Some s' \<Longrightarrow> ps_signed s' \<and> ps_poolDigest s' = d \<and> ps_poolSeen s' \<and> ps_certSeen s' = ps_certSeen s"
  by (auto simp: markSigned_def run_simps)

lemma observePool_SomeD:
  "observePool s pool = Some s' \<Longrightarrow> ps_poolSeen s' \<and> ps_poolDigest s' = pl_Digest pool \<and> ps_signed s' = ps_signed s \<and>
     ps_certSeen s' = ps_certSeen s \<and> (ps_poolSeen s \<longrightarrow> s' = s)"
  by (auto simp: observePool_def run_simps split: if_splits)

lemma observeCertificate_SomeD:
  "observeCertificate s c = Some s' \<Longrightarrow> s' = s\<lparr> ps_certSeen := True \<rparr> \<and> ps_poolSeen s \<and> ps_poolDigest s = pc_PoolDigest c"
  by (auto simp: observeCertificate_def run_simps)

lemmas slot_SomeD = markSigned_SomeD observePool_SomeD observeCertificate_SomeD

text \<open>Signing and the pool of a slot are final.\<close>

lemma slot_step_final:
  "slot_step s s' \<Longrightarrow> (ps_poolSeen s \<longrightarrow> ps_poolSeen s' \<and> ps_poolDigest s' = ps_poolDigest s) \<and> (ps_signed s \<longrightarrow> ps_signed s') \<and>
     (ps_certSeen s \<longrightarrow> ps_certSeen s')"
  unfolding slot_step_def by (elim exE, rename_tac ev, case_tac ev) (auto simp: slot_defs run_simps split: if_splits)

lemma slot_moves_final:
  "slot_step\<^sup>*\<^sup>* s s' \<Longrightarrow> (ps_poolSeen s \<longrightarrow> ps_poolSeen s' \<and> ps_poolDigest s' = ps_poolDigest s) \<and> (ps_signed s \<longrightarrow> ps_signed s') \<and>
     (ps_certSeen s \<longrightarrow> ps_certSeen s')"
  by (induction rule: rtranclp_induct) (auto dest: slot_step_final)

lemma slot_moves_run:
  assumes "slot_step\<^sup>*\<^sup>* s s'" "slot_run evs s acc"
  shows "\<exists>evs acc. slot_run evs s' acc"
  using assms by (induction rule: rtranclp_induct) (auto simp: slot_step_def intro: slot_run.accept)

lemma early_certificate_moves: "slot_step\<^sup>*\<^sup>* (sl_state slot) (sl_state (early_certificate B controlSigner pool slot))"
  by (auto simp: early_certificate_def split: option.splits intro: slot_step_intros)

lemma offer_slot_moves:
  assumes "offer_slot B n controlSigner pool poolWire statement slot = (slot', msgs)"
  shows "slot_step\<^sup>*\<^sup>* (sl_state slot) (sl_state slot')"
    and "msgs \<noteq> [] \<Longrightarrow> ps_signed (sl_state slot') \<and> ps_poolDigest (sl_state slot') = pl_Digest pool \<and>
      (\<exists>w. msgs = pool_share_reply pool w)"
proof -
  consider (refused) "slot' = slot" "msgs = []"
    | (observed) state where "observePool (sl_state slot) pool = Some state"
      "slot' = early_certificate B controlSigner pool (slot\<lparr> sl_state := state \<rparr>)" "msgs = [] \<or> ps_signed (sl_state slot') \<and>
         ps_poolDigest (sl_state slot') = pl_Digest pool \<and> (\<exists>w. msgs = pool_share_reply pool w)"
    | (signed) state state' localShare where "observePool (sl_state slot) pool = Some state"
      "markSigned (sl_state (early_certificate B controlSigner pool (slot\<lparr> sl_state := state \<rparr>))) (pl_Digest pool) = Some state'"
      "sl_state slot' = state'" "msgs = pool_share_reply pool localShare"
    using assms by (auto simp: offer_slot_def Let_def split: option.splits if_splits)
  then have "slot_step\<^sup>*\<^sup>* (sl_state slot) (sl_state slot') \<and> (msgs \<noteq> [] \<longrightarrow> ps_signed (sl_state slot') \<and>
      ps_poolDigest (sl_state slot') = pl_Digest pool \<and> (\<exists>w. msgs = pool_share_reply pool w))"
  proof cases
    case observed
    then show ?thesis
      using early_certificate_moves [of "slot\<lparr> sl_state := state \<rparr>" B controlSigner pool]
      by (auto dest: slot_step_observePool intro: converse_rtranclp_into_rtranclp)
  next
    case signed
    then have "slot_step\<^sup>*\<^sup>* (sl_state slot) state'"
      using early_certificate_moves [of "slot\<lparr> sl_state := state \<rparr>" B controlSigner pool]
      by (auto dest!: slot_step_observePool slot_step_markSigned intro: converse_rtranclp_into_rtranclp rtranclp.rtrancl_into_rtrancl)
    then show ?thesis using signed markSigned_SomeD [OF signed(2)] by blast
  qed simp
  then show "slot_step\<^sup>*\<^sup>* (sl_state slot) (sl_state slot')"
    "msgs \<noteq> [] \<Longrightarrow> ps_signed (sl_state slot') \<and> ps_poolDigest (sl_state slot') = pl_Digest pool \<and>
      (\<exists>w. msgs = pool_share_reply pool w)" by blast+
qed

lemma certify_slot_moves:
  assumes "certify_slot B n controlSigner pool poolWire statement slot = (slot', waits)"
  shows "slot_step\<^sup>*\<^sup>* (sl_state slot) (sl_state slot')"
  using assms
  by (auto simp: certify_slot_def Let_def split: option.splits if_splits intro: slot_step_intros
      dest!: slot_step_observePool slot_step_markSigned)

text \<open>Every step of the service moves the slot of each proposer by steps of the slot machine; the shares it sends are for a
  pool that the slot has signed.\<close>

lemma pool_share_reply_sends:
  assumes "sends_pool_share (pool_share_reply pool w) p d" "int64 (pl_ProposerID pool)"
  shows "p = pl_ProposerID pool \<and> d = pl_Digest pool"
proof -
  let ?share = "\<lparr> pcs_ProposerID = pl_ProposerID pool, pcs_PoolDigest = pl_Digest pool, pcs_Signature = w \<rparr>"
  obtain wire share where w: "cvPoolCertificateShareV2CanonicalBytes ?share = Some wire"
    "cvDecodePoolCertificateShareV2 wire = Some share" "pcs_ProposerID share = p" "pcs_PoolDigest share = d"
    using assms(1) by (fastforce simp: sends_pool_share_def pool_share_reply_def dest: reply_mem)
  then have "share = ?share" using pool_share_codec.decode_encode [of ?share wire] assms(2) by simp
  then show ?thesis using w(3,4) by auto
qed

lemma sends_nothing [simp]: "\<not> sends_pool_share [] p d"
  by (simp add: sends_pool_share_def)

lemma sends_append: "sends_pool_share (xs @ ys) p d \<longleftrightarrow> sends_pool_share xs p d \<or> sends_pool_share ys p d"
  unfolding sends_pool_share_def set_append Un_iff by blast

lemma other_tag_sends_nothing:
  "\<forall>(to, tag, w) \<in> set msgs. tag \<noteq> cvTagPoolCertShareV2 \<Longrightarrow> \<not> sends_pool_share msgs p d"
  by (auto simp: sends_pool_share_def)

lemma slot_of_refs:
  "slot_of (fst (storeComponentRefV2 ref st)) p = slot_of st p"
  "slot_of (st\<lparr> localComponentRefV2 := w \<rparr>) p = slot_of st p"
  by (simp_all add: storeComponentRefV2_def slot_of_def poolSlotLocked_def)

lemma offered_pool_SomeD:
  "offered_pool B cfg apdbSigner eligible m body st = Some (pool, poolWire, statement) \<Longrightarrow>
   cvDecodePoolV2 body (sc_Params cfg) = Some pool \<and> pl_ProposerID pool = m \<and> pl_ContextDigest pool = sc_ExpectedContext cfg \<and>
   cvPoolV2CanonicalBytes pool (sc_Params cfg) = Some poolWire \<and> poolWire = body \<and>
   cvPoolCertificateStatementV2 (sc_ExpectedContext cfg) m (pl_Digest pool) = Some statement"
  by (auto simp: offered_pool_def validatePool_def run_simps dest: pool_codec.encode_decode)

lemma handlePoolOffer_moves:
  assumes "handlePoolOffer B cfg apdbSigner controlSigner eligible m body st = (st', msgs)"
  shows "slot_step\<^sup>*\<^sup>* (slot_of st p) (slot_of st' p)"
    and "sends_pool_share msgs p d \<Longrightarrow> ps_signed (slot_of st' p) \<and> ps_poolDigest (slot_of st' p) = d"
proof -
  consider (dropped) "st' = st" "msgs = []"
    | (offered) pool poolWire statement slot where "offered_pool B cfg apdbSigner eligible m body st = Some (pool, poolWire, statement)"
      "offer_slot B (sc_LocalNode cfg) controlSigner pool poolWire statement (poolSlotLocked (pl_ProposerID pool) st) = (slot, msgs)"
      "st' = put_slot (pl_ProposerID pool) slot st"
    using assms by (auto simp: handlePoolOffer_def split: option.splits prod.splits)
  then have "slot_step\<^sup>*\<^sup>* (slot_of st p) (slot_of st' p) \<and>
      (sends_pool_share msgs p d \<longrightarrow> ps_signed (slot_of st' p) \<and> ps_poolDigest (slot_of st' p) = d)"
  proof cases
    case offered
    have i: "int64 (pl_ProposerID pool)" using pool_codec.decode_wf offered_pool_SomeD [OF offered(1)] by (auto simp: wf_pool_def)
    note o = offer_slot_moves [OF offered(2)]
    have "slot_step\<^sup>*\<^sup>* (slot_of st p) (slot_of st' p)" using o(1) offered(3) by (simp add: slot_of_def)
    moreover have "ps_signed (slot_of st' p) \<and> ps_poolDigest (slot_of st' p) = d" if "sends_pool_share msgs p d"
    proof -
      have "msgs \<noteq> []" using that by auto
      then obtain w where w: "msgs = pool_share_reply pool w" "ps_signed (sl_state slot)"
        "ps_poolDigest (sl_state slot) = pl_Digest pool" using o(2) by blast
      then show ?thesis using pool_share_reply_sends [of pool w p d] that i offered(3) by simp
    qed
    ultimately show ?thesis by blast
  qed simp
  then show "slot_step\<^sup>*\<^sup>* (slot_of st p) (slot_of st' p)"
    "sends_pool_share msgs p d \<Longrightarrow> ps_signed (slot_of st' p) \<and> ps_poolDigest (slot_of st' p) = d" by blast+
qed

lemma handlePoolCertificateShare_moves: "slot_of (handlePoolCertificateShare B cfg controlSigner m body st) p = slot_of st p"
proof -
  have keep: "slot_of (put_slot q (slot\<lparr> sl_shares := s, sl_sharesReady := b \<rparr>) st) p = slot_of st p"
    if "poolSlots st q = Some slot" for q slot s b
    using that by (simp add: slot_of_def poolSlotLocked_def put_slot_def)
  show ?thesis
    by (auto simp: handlePoolCertificateShare_def checked_pool_share_def Let_def run_simps keep simp del: slot_of_put split: option.split)
qed

lemma handlePoolCertificate_moves: "slot_step\<^sup>*\<^sup>* (slot_of st p) (slot_of (handlePoolCertificate B cfg controlSigner m body st) p)"
  by (auto simp: handlePoolCertificate_def Let_def slot_of_def split: option.splits intro: slot_step_intros)

lemma CertifyPool_start_moves:
  "slot_step\<^sup>*\<^sup>* (slot_of st p) (slot_of (fst (CertifyPool_start B cfg apdbSigner controlSigner eligible pool st)) p)"
  by (auto simp: CertifyPool_start_def slot_of_def split: option.split prod.split dest: certify_slot_moves)

lemma CertifyPool_recovered_moves:
  "slot_step\<^sup>*\<^sup>* (slot_of st p) (slot_of (fst (CertifyPool_recovered B cfg controlSigner pool st)) p)"
  by (auto simp: CertifyPool_recovered_def Let_def slot_of_def run_simps split: option.split prod.split intro: slot_step_intros)

lemma pool_step_moves:
  assumes "pool_step B cfg apdbSigner controlSigner eligible ev st = (st', msgs)"
  shows "slot_step\<^sup>*\<^sup>* (slot_of st p) (slot_of st' p)"
    and "sends_pool_share msgs p d \<Longrightarrow> ps_signed (slot_of st' p) \<and> ps_poolDigest (slot_of st' p) = d"
proof -
  have "slot_step\<^sup>*\<^sup>* (slot_of st p) (slot_of st' p) \<and> (\<not> sends_pool_share msgs p d \<or> (\<exists>m body. ev = OfferMessage m body))"
  proof (cases ev)
    case (OfferMessage m body)
    then show ?thesis using assms handlePoolOffer_moves(1) by (auto simp: pool_step_def)
  next
    case (PoolShareMessage m body)
    then show ?thesis using assms
      by (auto simp: pool_step_def handlePoolCertificateShare_moves)
  next
    case (PoolCertMessage m body)
    then show ?thesis using assms handlePoolCertificate_moves by (auto simp: pool_step_def)
  next
    case (RefMessage m body)
    have "\<forall>(to, tag, w) \<in> set msgs. tag \<noteq> cvTagPoolCertShareV2" using RefMessage assms
      by (auto simp: pool_step_def handleComponentRefV2_def storeComponentRefV2_def tag_defs split: option.splits if_splits)
    moreover have "slot_of st' p = slot_of st p" using RefMessage assms
      by (auto simp: pool_step_def handleComponentRefV2_def storeComponentRefV2_def slot_of_def poolSlotLocked_def
          split: option.splits if_splits)
    ultimately show ?thesis using other_tag_sends_nothing by simp
  next
    case (PublishRef ref)
    have "\<forall>(to, tag, w) \<in> set msgs. tag \<noteq> cvTagPoolCertShareV2" using PublishRef assms
      by (auto simp: pool_step_def publish_ref_def tag_defs send_to_all_def split: option.splits bool.splits)
    moreover have "slot_of st' p = slot_of st p" using PublishRef assms slot_of_refs
      by (auto simp: pool_step_def publish_ref_def split: option.splits bool.splits)
    ultimately show ?thesis using other_tag_sends_nothing by simp
  next
    case (CertifyStart pool)
    have "\<forall>(to, tag, w) \<in> set msgs. tag \<noteq> cvTagPoolCertShareV2" using CertifyStart assms
      by (auto simp: pool_step_def CertifyPool_start_def send_to_all_def tag_defs split: option.splits prod.splits if_splits)
    moreover have "st' = fst (CertifyPool_start B cfg apdbSigner controlSigner eligible pool st)"
      using CertifyStart assms by (auto simp: pool_step_def split: prod.splits)
    ultimately show ?thesis using CertifyPool_start_moves other_tag_sends_nothing by metis
  next
    case CertifyRetry
    have "\<forall>(to, tag, w) \<in> set msgs. tag \<noteq> cvTagPoolCertShareV2" using CertifyRetry assms
      by (auto simp: pool_step_def CertifyPool_retry_def Let_def tag_defs split: if_splits)
    moreover have "st' = st" using CertifyRetry assms by (simp add: pool_step_def)
    ultimately show ?thesis using other_tag_sends_nothing by blast
  next
    case (CertifyFinish pool)
    have "\<forall>(to, tag, w) \<in> set msgs. tag \<noteq> cvTagPoolCertShareV2" using CertifyFinish assms
      by (auto simp: pool_step_def CertifyPool_recovered_def Let_def send_to_all_def tag_defs split: option.splits prod.splits)
    moreover have "st' = fst (CertifyPool_recovered B cfg controlSigner pool st)"
      using CertifyFinish assms by (auto simp: pool_step_def split: prod.splits)
    ultimately show ?thesis using CertifyPool_recovered_moves other_tag_sends_nothing by metis
  qed (use assms in \<open>auto simp: pool_step_def CertifyPool_stop_def AwaitCertifiedPool_start_def AwaitCertifiedPool_wake_def slot_of_def\<close>)
  moreover have "ps_signed (slot_of st' p) \<and> ps_poolDigest (slot_of st' p) = d"
    if "sends_pool_share msgs p d" "ev = OfferMessage m body" for m body
    using handlePoolOffer_moves(2) [OF _ that(1)] that(2) assms by (fastforce simp: pool_step_def)
  ultimately show "slot_step\<^sup>*\<^sup>* (slot_of st p) (slot_of st' p)"
    "sends_pool_share msgs p d \<Longrightarrow> ps_signed (slot_of st' p) \<and> ps_poolDigest (slot_of st' p) = d" by blast+
qed

lemma pool_run_refines:
  assumes "pool_run B cfg apdbSigner controlSigner st sent"
  shows "(\<exists>evs acc. slot_run evs (slot_of st p) acc) \<and>
    (\<forall>d. sends_pool_share sent p d \<longrightarrow> ps_signed (slot_of st p) \<and> ps_poolDigest (slot_of st p) = d)"
  using assms
proof induction
  case pool_run_empty
  have "slot_run [] (slot_of pool_empty p) []"
    by (simp add: slot_of_def poolSlotLocked_def pool_empty_def new_slot_def slot_run.start)
  then show ?case by auto
next
  case (pool_run_step st sent ev eligible st' msgs)
  note mv = pool_step_moves [OF pool_run_step.hyps(3)]
  obtain evs acc where r: "slot_run evs (slot_of st p) acc" using pool_run_step.IH by blast
  have "ps_signed (slot_of st' p) \<and> ps_poolDigest (slot_of st' p) = d" if s: "sends_pool_share (sent @ msgs) p d" for d
  proof (cases "sends_pool_share msgs p d")
    case False
    then have "ps_signed (slot_of st p) \<and> ps_poolDigest (slot_of st p) = d"
      using s pool_run_step.IH by (simp add: sends_append)
    then show ?thesis using slot_invariant(2) [OF r] slot_moves_final [OF mv(1) [of p]] by auto
  qed (rule mv(2))
  then show ?case using slot_moves_run [OF mv(1) r] by blast
qed

text \<open>C8: the service refines the slot state machine: in every run of a node, whatever messages arrive and however its own
  calls interleave, the state of each proposer's slot is that of a run of the slot machine, and the certificate shares
  the node has sent for that proposer are all for the one pool digest that run has signed.\<close>

theorem service_refines_slots:
  assumes "pool_run B cfg apdbSigner controlSigner st sent"
  shows "\<exists>evs acc. slot_run evs (slot_of st proposer) acc \<and>
    (\<forall>d. sends_pool_share sent proposer d \<longrightarrow> signed_digests acc = [d])"
proof -
  obtain evs acc where r: "slot_run evs (slot_of st proposer) acc" using pool_run_refines [OF assms] by blast
  have "signed_digests acc = [d]" if "sends_pool_share sent proposer d" for d
    using slot_invariant(1) [OF r] pool_run_refines [OF assms, of proposer] that by simp
  then show ?thesis using r by blast
qed

section \<open>What the slots hold\<close>

definition pool_statement ::
  "('g, 'h, 'f) cvAPDBNetworkServiceConfigV2 \<Rightarrow> int \<Rightarrow> cvNetworkPoolSlotV2 \<Rightarrow> bytes option" where
  "pool_statement cfg proposer slot =
     cvPoolCertificateStatementV2 (sc_ExpectedContext cfg) proposer (ps_poolDigest (sl_state slot))"

definition holds_pool ::
  "('g, 'h, 'f) cvAPDBNetworkServiceConfigV2 \<Rightarrow> int \<Rightarrow> cvNetworkPoolSlotV2 \<Rightarrow> cvPoolV2 \<Rightarrow> bool" where
  "holds_pool cfg proposer slot pool \<longleftrightarrow>
     cvPoolV2CanonicalBytes pool (sc_Params cfg) = Some (sl_poolWire slot) \<and> pool_ints pool \<and> pl_ProposerID pool = proposer \<and>
     pl_ContextDigest pool = sc_ExpectedContext cfg \<and> pl_Digest pool = ps_poolDigest (sl_state slot) \<and>
     (proposer \<noteq> sc_LocalNode cfg \<longrightarrow> wf_pool pool)"

definition holds_certificate ::
  "('g, 'h, 'f) bls \<Rightarrow> ('g, 'h, 'f) cvAPDBNetworkServiceConfigV2 \<Rightarrow> ('g, 'h, 'f) tblsThresholdSigner \<Rightarrow> int \<Rightarrow>
   cvNetworkPoolSlotV2 \<Rightarrow> bool" where
  "holds_certificate B cfg controlSigner proposer slot \<longleftrightarrow>
     (\<exists>certificate statement. cvDecodePoolCertificateV2 (sl_certWire slot) = Some certificate \<and>
        pc_PoolDigest certificate = ps_poolDigest (sl_state slot) \<and> cvV2SignerHasRole controlSigner cvV2RoleControl \<and>
        pool_statement cfg proposer slot = Some statement \<and>
        VerifyRecovered B controlSigner cvPoolCertV2Domain statement (pc_Certificate certificate))"

text \<open>The shares of a slot are verified shares of distinct members for the slot's pool, its pool and its certificate are
  what its flags say.\<close>

definition slot_ok ::
  "('g, 'h, 'f) bls \<Rightarrow> ('g, 'h, 'f) cvAPDBNetworkServiceConfigV2 \<Rightarrow> ('g, 'h, 'f) tblsThresholdSigner \<Rightarrow> int \<Rightarrow>
   cvNetworkPoolSlotV2 \<Rightarrow> bool" where
  "slot_ok B cfg controlSigner proposer slot \<longleftrightarrow>
     (ps_signed (sl_state slot) \<or> ps_certSeen (sl_state slot) \<or> sl_shares slot \<noteq> [] \<or> sl_poolWire slot \<noteq> [] \<longrightarrow>
        ps_poolSeen (sl_state slot)) \<and>
     (sl_shares slot \<noteq> [] \<longrightarrow> (\<exists>statement. pool_statement cfg proposer slot = Some statement \<and>
        shares_ok B controlSigner cvPoolCertV2Domain statement (sl_shares slot))) \<and>
     (sl_sharesReady slot \<longrightarrow> ts_t controlSigner \<le> int (length (sl_shares slot))) \<and>
     (sl_poolWire slot \<noteq> [] \<longrightarrow> (\<exists>pool. holds_pool cfg proposer slot pool)) \<and>
     (ps_signed (sl_state slot) \<longrightarrow> sl_poolWire slot \<noteq> []) \<and>
     (ps_certSeen (sl_state slot) \<longrightarrow> holds_certificate B cfg controlSigner proposer slot)"

definition pool_inv ::
  "('g, 'h, 'f) bls \<Rightarrow> ('g, 'h, 'f) cvAPDBNetworkServiceConfigV2 \<Rightarrow> ('g, 'h, 'f) tblsThresholdSigner \<Rightarrow> pool_part \<Rightarrow> bool" where
  "pool_inv B cfg controlSigner st \<longleftrightarrow> (\<forall>proposer. slot_ok B cfg controlSigner proposer (poolSlotLocked proposer st))"

lemma pool_inv_put: "pool_inv B cfg controlSigner st \<Longrightarrow> slot_ok B cfg controlSigner p slot \<Longrightarrow>
    pool_inv B cfg controlSigner (put_slot p slot st)"
  by (simp add: pool_inv_def)

lemma put_slot_put: "put_slot p slot (put_slot p slot' st) = put_slot p slot st"
  by (simp add: put_slot_def)

lemma pool_invD: "pool_inv B cfg controlSigner st \<Longrightarrow> slot_ok B cfg controlSigner p (poolSlotLocked p st)"
  by (simp add: pool_inv_def)

lemma new_slot_ok: "slot_ok B cfg controlSigner p slot"
  if "sl_state slot = slot_empty" "sl_shares slot = []" "sl_sharesReady slot = False" "sl_poolWire slot = []"
  using that by (simp add: slot_ok_def slot_empty_def)

text \<open>A pool that was encoded is the only one its wire form decodes to.\<close>

lemma encoded_pool_decodes:
  assumes "cvPoolV2CanonicalBytes pool params = Some w" "pool_ints pool" "cvDecodePoolV2 w params = Some pool'"
  shows "pool' = pool"
proof -
  obtain u where u: "pool_unsigned (pl_ContextDigest pool) (pl_ProposerID pool) (pl_Components pool) = Some u"
    "w = dropped (cvWriteBytes u) @ dropped (cvWriteBytes (pl_Digest pool))" "length (pl_Digest pool) = 32"
    using assms(1) by (auto simp: cvPoolV2CanonicalBytes_def run_simps)
  obtain u' where u': "pool_unsigned (pl_ContextDigest pool') (pl_ProposerID pool') (pl_Components pool') = Some u'"
    "w = dropped (cvWriteBytes u') @ dropped (cvWriteBytes (pl_Digest pool'))" "length (pl_Digest pool') = 32"
    using pool_codec.encode_decode [OF assms(3)] by (auto simp: cvPoolV2CanonicalBytes_def run_simps)
  have lim: "length u' \<le> cvMaxNetworkPayloadBytes" using pool_codec.decode_wf [OF assms(3)] u'(1) by (simp add: wf_pool_def)
  have "u = u'"
  proof (cases "length u < 4294967296")
    case True
    then have "put_be 4 (length u) @ u @ put_be 4 32 @ pl_Digest pool = put_be 4 (length u') @ u' @ put_be 4 32 @ pl_Digest pool'"
      using u u' payload_limit [OF lim] by simp
    then show ?thesis using put_be_prefix_inject [OF True payload_limit [OF lim]] by metis
  next
    case False
    then have "length w = 36" using u(2,3) by (simp add: cvWriteBytes_oversize dropped_def)
    moreover have "length w = 4 + length u' + 36" using u'(2,3) payload_limit [OF lim] by simp
    ultimately show ?thesis by simp
  qed
  then have "wf_pool pool" using lim u(1) assms(2) by (simp add: wf_pool_def pool_ints_def)
  then show ?thesis using pool_codec.decode_encode [OF _ assms(1)] assms(3) by simp
qed

lemma encoded_pool_nonempty: "cvPoolV2CanonicalBytes pool params = Some w \<Longrightarrow> w \<noteq> []"
  by (auto simp: cvPoolV2CanonicalBytes_def run_simps)

lemma decode_empty_pool: "cvDecodePoolV2 [] params = None"
  by (simp add: cvDecodePoolV2_def cvReadBytes_def cvReadUint32_def newCVWireReader_id)

lemma verified_certificate:
  "cvVerifyPoolCertificateV2 B pool certificate controlSigner \<Longrightarrow>
   cvV2SignerHasRole controlSigner cvV2RoleControl \<and> pc_PoolDigest certificate = pl_Digest pool \<and>
   (\<exists>statement. cvPoolCertificateStatementV2 (pl_ContextDigest pool) (pl_ProposerID pool) (pl_Digest pool) = Some statement \<and>
      VerifyRecovered B controlSigner cvPoolCertV2Domain statement (pc_Certificate certificate))"
  by (auto simp: cvVerifyPoolCertificateV2_def split: option.splits)

lemma update_subset: "set (AList.update k v al) \<subseteq> insert (k, v) (set al)"
  by (induction al) auto

lemma length_update: "length al \<le> length (AList.update k v al)"
  by (induction al) auto

lemma shares_ok_update:
  "shares_ok B signer domain digest shares \<Longrightarrow> VerifyShare B signer m domain digest w \<Longrightarrow>
   shares_ok B signer domain digest (AList.update m w shares)"
  using update_subset [of m w shares] by (fastforce simp: shares_ok_def distinct_update)

lemma shares_ok_Nil: "shares_ok B signer domain digest []"
  by (simp add: shares_ok_def)

text \<open>Observing a pool: nothing changes in a slot that has one, and a slot that has none holds nothing.\<close>

lemma observe_slot_ok:
  assumes "slot_ok B cfg controlSigner p slot" "observePool (sl_state slot) pool = Some state"
  shows "slot_ok B cfg controlSigner p (slot\<lparr> sl_state := state \<rparr>)"
proof (cases "ps_poolSeen (sl_state slot)")
  case True
  then have "state = sl_state slot" using observePool_SomeD [OF assms(2)] by simp
  then show ?thesis using assms(1) by simp
next
  case False
  then have "\<not> ps_signed state" "\<not> ps_certSeen state" "sl_shares slot = []" "sl_poolWire slot = []"
    using assms(1) observePool_SomeD [OF assms(2)] by (auto simp: slot_ok_def)
  then show ?thesis using assms(1) by (simp add: slot_ok_def)
qed

lemma observe_certificate_ok:
  assumes "slot_ok B cfg controlSigner p slot" "ps_poolSeen (sl_state slot)" "holds_certificate B cfg controlSigner p slot"
  shows "slot_ok B cfg controlSigner p (slot\<lparr> sl_state := (sl_state slot)\<lparr> ps_certSeen := True \<rparr>, sl_certReady := True \<rparr>)"
  using assms by (auto simp: slot_ok_def holds_certificate_def holds_pool_def pool_statement_def)

lemma early_certificate_ok:
  assumes "slot_ok B cfg controlSigner p slot" "ps_poolSeen (sl_state slot)" "ps_poolDigest (sl_state slot) = pl_Digest pool"
    and "pl_ProposerID pool = p" "pl_ContextDigest pool = sc_ExpectedContext cfg"
  shows "slot_ok B cfg controlSigner p (early_certificate B controlSigner pool slot)"
proof (cases "early_certificate B controlSigner pool slot = slot")
  case False
  then obtain certificate where c: "cvDecodePoolCertificateV2 (sl_certWire slot) = Some certificate"
    "cvVerifyPoolCertificateV2 B pool certificate controlSigner"
    by (auto simp: early_certificate_def split: option.splits if_splits)
  have "observeCertificate (sl_state slot) certificate = Some ((sl_state slot)\<lparr> ps_certSeen := True \<rparr>)"
    using verified_certificate [OF c(2)] assms(2,3) by (simp add: observeCertificate_def)
  then have "early_certificate B controlSigner pool slot =
      slot\<lparr> sl_state := (sl_state slot)\<lparr> ps_certSeen := True \<rparr>, sl_certReady := True \<rparr>"
    using c False by (simp add: early_certificate_def split: if_splits)
  moreover have "holds_certificate B cfg controlSigner p slot"
    using verified_certificate [OF c(2)] c(1) assms(3-5) by (auto simp: holds_certificate_def pool_statement_def)
  ultimately show ?thesis using observe_certificate_ok [OF assms(1,2)] by simp
qed (use assms in simp)

lemma early_certificate_keeps:
  "ps_poolSeen (sl_state (early_certificate B controlSigner pool slot)) = ps_poolSeen (sl_state slot)"
  "ps_poolDigest (sl_state (early_certificate B controlSigner pool slot)) = ps_poolDigest (sl_state slot)"
  "ps_signed (sl_state (early_certificate B controlSigner pool slot)) = ps_signed (sl_state slot)"
  "sl_shares (early_certificate B controlSigner pool slot) = sl_shares slot"
  by (auto simp: early_certificate_def observeCertificate_def run_simps split: option.splits)

text \<open>Signing a slot's pool and keeping its wire form.\<close>

lemma sign_slot_ok:
  assumes "slot_ok B cfg controlSigner p slot" "markSigned (sl_state slot) (pl_Digest pool) = Some state"
    and "cvPoolV2CanonicalBytes pool (sc_Params cfg) = Some poolWire" "pool_ints pool" "pl_ProposerID pool = p"
    and "pl_ContextDigest pool = sc_ExpectedContext cfg" "wf_pool pool"
  shows "slot_ok B cfg controlSigner p (slot\<lparr> sl_state := state, sl_poolWire := poolWire, sl_localShare := localShare \<rparr>)"
proof -
  have "state = (sl_state slot)\<lparr> ps_signed := True \<rparr>" "ps_poolDigest (sl_state slot) = pl_Digest pool" "ps_poolSeen (sl_state slot)"
    using assms(2) by (auto simp: markSigned_def run_simps)
  then show ?thesis using assms(1,3-7) encoded_pool_nonempty [OF assms(3)]
    by (auto simp: slot_ok_def holds_certificate_def holds_pool_def pool_statement_def)
qed

lemma offer_slot_ok:
  assumes "slot_ok B cfg controlSigner p slot" "cvPoolV2CanonicalBytes pool (sc_Params cfg) = Some poolWire" "pool_ints pool"
    and "pl_ProposerID pool = p" "pl_ContextDigest pool = sc_ExpectedContext cfg" "wf_pool pool"
  shows "slot_ok B cfg controlSigner p (fst (offer_slot B n controlSigner pool poolWire statement slot))"
proof (cases "observePool (sl_state slot) pool")
  case None
  then show ?thesis using assms(1) by (simp add: offer_slot_def)
next
  case (Some state)
  let ?slot = "early_certificate B controlSigner pool (slot\<lparr> sl_state := state \<rparr>)"
  have ok: "slot_ok B cfg controlSigner p ?slot"
    by (rule early_certificate_ok [OF observe_slot_ok [OF assms(1) Some]])
       (use observePool_SomeD [OF Some] assms(4,5) in auto)
  then show ?thesis using Some sign_slot_ok [OF ok _ assms(2-6)]
    by (auto simp: offer_slot_def Let_def split: option.split)
qed

lemma certify_slot_ok:
  assumes "slot_ok B cfg controlSigner p slot" "cvPoolV2CanonicalBytes pool (sc_Params cfg) = Some poolWire" "pool_ints pool"
    and "pl_ProposerID pool = p" "pl_ContextDigest pool = sc_ExpectedContext cfg" "own_key B controlSigner n"
    and "cvPoolCertificateStatementV2 (sc_ExpectedContext cfg) p (pl_Digest pool) = Some statement" "p = sc_LocalNode cfg"
  shows "slot_ok B cfg controlSigner p (fst (certify_slot B n controlSigner pool poolWire statement slot))"
proof (cases "observePool (sl_state slot) pool")
  case None
  then show ?thesis using assms(1) by (simp add: certify_slot_def)
next
  case (Some state)
  note obs = observePool_SomeD [OF Some]
  have ok: "slot_ok B cfg controlSigner p (slot\<lparr> sl_state := state \<rparr>)" by (rule observe_slot_ok [OF assms(1) Some])
  have again: "slot_ok B cfg controlSigner p (slot\<lparr> sl_state := state, sl_poolWire := poolWire, sl_certifying := True,
      sl_sharesReady := (sl_sharesReady slot \<or> int (length (sl_shares slot)) \<ge> ts_t controlSigner) \<rparr>)"
    using ok obs assms(2-5,8) encoded_pool_nonempty [OF assms(2)]
    by (auto simp: slot_ok_def holds_certificate_def holds_pool_def pool_statement_def)
  have first: "slot_ok B cfg controlSigner p (slot\<lparr> sl_state := state', sl_localShare := w,
      sl_shares := AList.update n w (sl_shares slot), sl_poolWire := poolWire, sl_certifying := True,
      sl_sharesReady := (sl_sharesReady slot \<or> int (length (AList.update n w (sl_shares slot))) \<ge> ts_t controlSigner) \<rparr>)"
    if sign: "SignShare B controlSigner n cvPoolCertV2Domain statement = Some w" "markSigned state (pl_Digest pool) = Some state'" for w state'
  proof -
    have st': "state' = state\<lparr> ps_signed := True \<rparr>" using sign(2) by (auto simp: markSigned_def run_simps)
    have "VerifyShare B controlSigner n cvPoolCertV2Domain statement w" using assms(6) sign(1) by (simp add: own_key_def)
    moreover have "shares_ok B controlSigner cvPoolCertV2Domain statement (sl_shares slot)"
      using ok obs assms(7) by (cases "sl_shares slot = []") (auto simp: slot_ok_def pool_statement_def shares_ok_Nil)
    ultimately have "shares_ok B controlSigner cvPoolCertV2Domain statement (AList.update n w (sl_shares slot))"
      by (rule shares_ok_update [rotated])
    then show ?thesis using ok obs assms(2-5,7,8) encoded_pool_nonempty [OF assms(2)] length_update [of "sl_shares slot" n w] unfolding st'
      by (auto simp: slot_ok_def holds_certificate_def holds_pool_def pool_statement_def)
  qed
  show ?thesis using Some ok again first by (auto simp: certify_slot_def Let_def split: option.split)
qed

text \<open>Fields of a slot that the invariant does not mention, and notifications taken away.\<close>

lemma slot_ok_flags:
  "slot_ok B cfg controlSigner p slot \<Longrightarrow> slot_ok B cfg controlSigner p (slot\<lparr> sl_certReady := b \<rparr>)"
  "slot_ok B cfg controlSigner p slot \<Longrightarrow> slot_ok B cfg controlSigner p (slot\<lparr> sl_certifying := b \<rparr>)"
  "slot_ok B cfg controlSigner p slot \<Longrightarrow> slot_ok B cfg controlSigner p (slot\<lparr> sl_sharesReady := False \<rparr>)"
  by (auto simp: slot_ok_def holds_certificate_def holds_pool_def pool_statement_def)

lemma certificate_slot_ok:
  assumes "slot_ok B cfg controlSigner p slot" "observeCertificate (sl_state slot) certificate = Some state"
    and "cvVerifyPoolCertificateV2 B pool certificate controlSigner" "pl_ProposerID pool = p"
    and "pl_ContextDigest pool = sc_ExpectedContext cfg" "cvDecodePoolCertificateV2 certWire = Some certificate"
  shows "slot_ok B cfg controlSigner p (slot\<lparr> sl_state := state, sl_certWire := certWire, sl_certReady := True \<rparr>)"
proof -
  note c = verified_certificate [OF assms(3)] and o = observeCertificate_SomeD [OF assms(2)]
  have "slot_ok B cfg controlSigner p (slot\<lparr> sl_state := (sl_state slot)\<lparr> ps_certSeen := True \<rparr>, sl_certWire := certWire, sl_certReady := True \<rparr>)"
    using assms(1) c o assms(4-6) by (auto simp: slot_ok_def holds_certificate_def holds_pool_def pool_statement_def)
  then show ?thesis using o by simp
qed

lemma handlePoolOffer_inv:
  assumes "pool_inv B cfg controlSigner st" "handlePoolOffer B cfg apdbSigner controlSigner eligible m body st = (st', msgs)"
  shows "pool_inv B cfg controlSigner st'"
proof (cases "offered_pool B cfg apdbSigner eligible m body st")
  case None
  then show ?thesis using assms by (simp add: handlePoolOffer_def)
next
  case (Some r)
  then obtain pool poolWire statement where r: "offered_pool B cfg apdbSigner eligible m body st = Some (pool, poolWire, statement)"
    by (cases r) auto
  note d = offered_pool_SomeD [OF r]
  have wf: "wf_pool pool" using pool_codec.decode_wf d by blast
  then have ints: "pool_ints pool" by (simp add: wf_pool_def pool_ints_def)
  let ?slot = "fst (offer_slot B (sc_LocalNode cfg) controlSigner pool poolWire statement (poolSlotLocked m st))"
  have "st' = put_slot m ?slot st" using assms(2) r d by (auto simp: handlePoolOffer_def split: prod.splits)
  moreover have "slot_ok B cfg controlSigner m ?slot"
    by (rule offer_slot_ok [OF pool_invD [OF assms(1)]]) (use d ints wf in auto)
  ultimately show ?thesis using pool_inv_put assms(1) by blast
qed

lemma checked_pool_share_SomeD:
  assumes "checked_pool_share B cfg controlSigner m body st = Some (share, slot)"
  obtains statement where "pcs_ProposerID share = sc_LocalNode cfg" "poolSlotLocked (sc_LocalNode cfg) st = slot"
    "ps_poolSeen (sl_state slot)" "pool_statement cfg (sc_LocalNode cfg) slot = Some statement"
    "VerifyShare B controlSigner m cvPoolCertV2Domain statement (pcs_Signature share)"
  using assms by (auto simp: checked_pool_share_def pool_statement_def poolSlotLocked_def run_simps)

lemma handlePoolCertificateShare_inv:
  assumes "pool_inv B cfg controlSigner st"
  shows "pool_inv B cfg controlSigner (handlePoolCertificateShare B cfg controlSigner m body st)"
proof (cases "checked_pool_share B cfg controlSigner m body st")
  case None
  then show ?thesis using assms by (simp add: handlePoolCertificateShare_def)
next
  case (Some r)
  then obtain share slot where r: "checked_pool_share B cfg controlSigner m body st = Some (share, slot)" by (cases r) auto
  then obtain statement where p: "pcs_ProposerID share = sc_LocalNode cfg" and s: "poolSlotLocked (sc_LocalNode cfg) st = slot"
    "ps_poolSeen (sl_state slot)" "pool_statement cfg (sc_LocalNode cfg) slot = Some statement"
    "VerifyShare B controlSigner m cvPoolCertV2Domain statement (pcs_Signature share)"
    by (rule checked_pool_share_SomeD)
  let ?p = "sc_LocalNode cfg" and ?shares = "put_first m (pcs_Signature share) (sl_shares slot)"
  have ok: "slot_ok B cfg controlSigner ?p slot" using pool_invD [OF assms, of ?p] s(1) by simp
  then have "shares_ok B controlSigner cvPoolCertV2Domain statement (sl_shares slot)"
    using s(2,3) by (cases "sl_shares slot = []") (auto simp: slot_ok_def pool_statement_def shares_ok_Nil)
  then have "shares_ok B controlSigner cvPoolCertV2Domain statement ?shares" using s(4) by (rule shares_ok_put)
  moreover have "length (sl_shares slot) \<le> length ?shares" by (simp add: put_first_def)
  ultimately have "slot_ok B cfg controlSigner ?p (slot\<lparr> sl_shares := ?shares, sl_sharesReady := (sl_sharesReady slot \<or>
        int (length ?shares) \<ge> ts_t controlSigner) \<rparr>)"
    using ok s(2,3) by (auto simp: slot_ok_def holds_certificate_def holds_pool_def pool_statement_def)
  then show ?thesis using r p pool_inv_put [OF assms] by (simp add: handlePoolCertificateShare_def Let_def)
qed

lemma handlePoolCertificate_inv:
  assumes "pool_inv B cfg controlSigner st"
  shows "pool_inv B cfg controlSigner (handlePoolCertificate B cfg controlSigner m body st)"
proof (cases "cvDecodePoolCertificateV2 body")
  case None
  then show ?thesis using assms by (simp add: handlePoolCertificate_def)
next
  case (Some certificate)
  let ?slot = "poolSlotLocked m st"
  note ok = pool_invD [OF assms, of m]
  have same: "pool_inv B cfg controlSigner (put_slot m ?slot st)" by (rule pool_inv_put [OF assms ok])
  have early: "slot_ok B cfg controlSigner m (?slot\<lparr> sl_certWire := body \<rparr>)" if "\<not> ps_poolSeen (sl_state ?slot)"
    using that ok by (auto simp: slot_ok_def)
  have late: "slot_ok B cfg controlSigner m (?slot\<lparr> sl_state := state, sl_certWire := body, sl_certReady := True \<rparr>)"
    if v: "cvDecodePoolV2 (sl_poolWire ?slot) (sc_Params cfg) = Some pool" "pl_ProposerID pool = m"
      "cvVerifyPoolCertificateV2 B pool certificate controlSigner" "observeCertificate (sl_state ?slot) certificate = Some state"
    for pool state
  proof -
    have "sl_poolWire ?slot \<noteq> []" using v(1) decode_empty_pool by auto
    then obtain pool' where "holds_pool cfg m ?slot pool'" using ok by (auto simp: slot_ok_def)
    then have "pl_ContextDigest pool = sc_ExpectedContext cfg"
      using encoded_pool_decodes [OF _ _ v(1)] by (auto simp: holds_pool_def)
    then show ?thesis by (rule certificate_slot_ok [OF ok v(4,3,2) _ Some])
  qed
  show ?thesis using Some same early late
    by (auto simp: handlePoolCertificate_def Let_def put_slot_put split: option.split intro!: pool_inv_put [OF assms])
qed

lemma CertifyPool_start_inv:
  assumes "pool_inv B cfg controlSigner st" "own_key B controlSigner (sc_LocalNode cfg)" "pool_ints pool"
  shows "pool_inv B cfg controlSigner (fst (CertifyPool_start B cfg apdbSigner controlSigner eligible pool st))"
proof -
  have "slot_ok B cfg controlSigner (sc_LocalNode cfg)
      (fst (certify_slot B (sc_LocalNode cfg) controlSigner pool poolWire statement (poolSlotLocked (sc_LocalNode cfg) st)))"
    if "pl_ProposerID pool = sc_LocalNode cfg" "validatePool B cfg apdbSigner eligible pool st = Some poolWire"
      "cvPoolCertificateStatementV2 (pl_ContextDigest pool) (pl_ProposerID pool) (pl_Digest pool) = Some statement" for poolWire statement
    by (rule certify_slot_ok [OF pool_invD [OF assms(1)] _ assms(3)])
       (use that assms(2) in \<open>auto simp: validatePool_def run_simps\<close>)
  then show ?thesis using assms(1)
    by (auto simp: CertifyPool_start_def run_simps pool_inv_put split: option.split prod.split) (metis fst_conv pool_inv_put)
qed

lemma CertifyPool_recovered_inv:
  assumes "pool_inv B cfg controlSigner st" "pl_ProposerID pool = sc_LocalNode cfg" "pl_ContextDigest pool = sc_ExpectedContext cfg"
  shows "pool_inv B cfg controlSigner (fst (CertifyPool_recovered B cfg controlSigner pool st))"
proof -
  let ?slot = "(poolSlotLocked (sc_LocalNode cfg) st)\<lparr> sl_sharesReady := False, sl_certifying := False \<rparr>"
  have ok: "slot_ok B cfg controlSigner (sc_LocalNode cfg) ?slot"
    using slot_ok_flags(2) [OF slot_ok_flags(3) [OF pool_invD [OF assms(1)]]] by simp
  have "slot_ok B cfg controlSigner (sc_LocalNode cfg) (?slot\<lparr> sl_state := state, sl_certWire := certWire, sl_certReady := True \<rparr>)"
    if "observeCertificate (sl_state ?slot) certificate = Some state" "cvVerifyPoolCertificateV2 B pool certificate controlSigner"
      "cvPoolCertificateV2CanonicalBytes certificate = Some certWire" for certificate certWire state
    by (rule certificate_slot_ok [OF ok that(1,2) assms(2,3)]) (use that(3) pool_cert_codec.decode_encode in simp)
  then show ?thesis using ok assms(1)
    by (auto simp: CertifyPool_recovered_def Let_def run_simps pool_inv_put split: option.split prod.split)
qed

lemma pool_inv_slots: "poolSlots st' = poolSlots st \<Longrightarrow> pool_inv B cfg controlSigner st \<Longrightarrow> pool_inv B cfg controlSigner st'"
  by (simp add: pool_inv_def poolSlotLocked_def)

lemma pool_run_inv:
  assumes "pool_run B cfg apdbSigner controlSigner st sent" "own_key B controlSigner (sc_LocalNode cfg)"
  shows "pool_inv B cfg controlSigner st"
  using assms(1)
proof induction
  case pool_run_empty
  have "slot_ok B cfg controlSigner p new_slot" for p by (rule new_slot_ok) (simp_all add: new_slot_def)
  then show ?case by (simp add: pool_inv_def poolSlotLocked_def pool_empty_def)
next
  case (pool_run_step st sent ev eligible st' msgs)
  note inv = pool_run_step.IH and step = pool_run_step.hyps(3) and ok = pool_run_step.hyps(2)
  have slot: "slot_ok B cfg controlSigner p (poolSlotLocked p st)" for p by (rule pool_invD [OF inv])
  show ?case
  proof (cases ev)
    case (OfferMessage m body)
    then show ?thesis using step handlePoolOffer_inv [OF inv] by (auto simp: pool_step_def)
  next
    case (PoolShareMessage m body)
    then show ?thesis using step handlePoolCertificateShare_inv [OF inv] by (auto simp: pool_step_def)
  next
    case (PoolCertMessage m body)
    then show ?thesis using step handlePoolCertificate_inv [OF inv] by (auto simp: pool_step_def)
  next
    case (CertifyStart pool)
    then have "st' = fst (CertifyPool_start B cfg apdbSigner controlSigner eligible pool st)"
      using step by (auto simp: pool_step_def split: prod.splits)
    then show ?thesis using CertifyPool_start_inv [OF inv assms(2)] ok CertifyStart by (simp add: pool_event_ok_def)
  next
    case (CertifyFinish pool)
    then have "st' = fst (CertifyPool_recovered B cfg controlSigner pool st)"
      using step by (auto simp: pool_step_def split: prod.splits)
    then show ?thesis using CertifyPool_recovered_inv [OF inv] ok CertifyFinish by (simp add: pool_event_ok_def Let_def)
  next
    case (RefMessage m body)
    then have "poolSlots st' = poolSlots st" using step
      by (auto simp: pool_step_def handleComponentRefV2_def storeComponentRefV2_def split: option.splits if_splits)
    then show ?thesis using inv by (rule pool_inv_slots)
  next
    case (PublishRef ref)
    then have "poolSlots st' = poolSlots st" using step
      by (auto simp: pool_step_def publish_ref_def storeComponentRefV2_def split: option.splits bool.splits)
    then show ?thesis using inv by (rule pool_inv_slots)
  qed (use step inv slot in \<open>auto simp: pool_step_def CertifyPool_stop_def AwaitCertifiedPool_start_def AwaitCertifiedPool_wake_def
         intro!: pool_inv_put slot_ok_flags\<close>)
qed

section \<open>A pool that has its shares is certified\<close>

text \<open>A member's certificate share for the pool, as its message carries it.\<close>

definition pool_share_from ::
  "('g, 'h, 'f) bls \<Rightarrow> ('g, 'h, 'f) tblsThresholdSigner \<Rightarrow> cvPoolV2 \<Rightarrow> int \<Rightarrow> bytes \<Rightarrow> bool" where
  "pool_share_from B controlSigner pool member body \<longleftrightarrow>
     (\<exists>share statement. cvDecodePoolCertificateShareV2 body = Some share \<and> pcs_ProposerID share = pl_ProposerID pool \<and>
        pcs_PoolDigest share = pl_Digest pool \<and>
        cvPoolCertificateStatementV2 (pl_ContextDigest pool) (pl_ProposerID pool) (pl_Digest pool) = Some statement \<and>
        VerifyShare B controlSigner member cvPoolCertV2Domain statement (pcs_Signature share))"

text \<open>Certificate shares delivered one after the other.\<close>

definition deliver_shares ::
  "('g, 'h, 'f) bls \<Rightarrow> ('g, 'h, 'f) cvAPDBNetworkServiceConfigV2 \<Rightarrow> ('g, 'h, 'f) tblsThresholdSigner \<Rightarrow> (int \<times> bytes) list \<Rightarrow>
   pool_part \<Rightarrow> pool_part" where
  "deliver_shares B cfg controlSigner msgs st =
     foldl (\<lambda>st (from, body). handlePoolCertificateShare B cfg controlSigner from body st) st msgs"

text \<open>The slot of a call that waits: certifying the pool, notified when the shares suffice.\<close>

definition certifying ::
  "('g, 'h, 'f) cvAPDBNetworkServiceConfigV2 \<Rightarrow> ('g, 'h, 'f) tblsThresholdSigner \<Rightarrow> cvPoolV2 \<Rightarrow> cvNetworkPoolSlotV2 \<Rightarrow> bool" where
  "certifying cfg controlSigner pool slot \<longleftrightarrow>
     sl_certifying slot \<and> ps_poolSeen (sl_state slot) \<and> ps_poolDigest (sl_state slot) = pl_Digest pool \<and>
     cvPoolV2CanonicalBytes pool (sc_Params cfg) = Some (sl_poolWire slot) \<and>
     pl_ProposerID pool = sc_LocalNode cfg \<and> pl_ContextDigest pool = sc_ExpectedContext cfg \<and>
     (ts_t controlSigner \<le> int (length (sl_shares slot)) \<longrightarrow> sl_sharesReady slot)"

lemma CertifyPool_start_waits:
  assumes "CertifyPool_start B cfg apdbSigner controlSigner eligible pool st = (st1, Some offers)"
    and "\<not> ps_signed (slot_of st (sc_LocalNode cfg))"
  shows "certifying cfg controlSigner pool (poolSlotLocked (sc_LocalNode cfg) st1)"
    and "sc_LocalNode cfg \<in> fst ` set (sl_shares (poolSlotLocked (sc_LocalNode cfg) st1))"
proof -
  let ?p = "sc_LocalNode cfg"
  obtain poolWire statement slot where v: "pl_ProposerID pool = ?p" "validatePool B cfg apdbSigner eligible pool st = Some poolWire"
    and c: "certify_slot B ?p controlSigner pool poolWire statement (poolSlotLocked ?p st) = (slot, True)"
    and st1: "st1 = put_slot ?p slot st"
    using assms(1) by (auto simp: CertifyPool_start_def run_simps split: option.splits prod.splits if_splits)
  have wire: "cvPoolV2CanonicalBytes pool (sc_Params cfg) = Some poolWire" "pl_ContextDigest pool = sc_ExpectedContext cfg"
    using v(2) by (auto simp: validatePool_def run_simps)
  obtain state state' w where o: "observePool (sl_state (poolSlotLocked ?p st)) pool = Some state"
    "markSigned state (pl_Digest pool) = Some state'" and slot: "slot = (poolSlotLocked ?p st)\<lparr> sl_state := state', sl_localShare := w,
      sl_shares := AList.update ?p w (sl_shares (poolSlotLocked ?p st)), sl_poolWire := poolWire, sl_certifying := True,
      sl_sharesReady := (sl_sharesReady (poolSlotLocked ?p st) \<or>
        int (length (AList.update ?p w (sl_shares (poolSlotLocked ?p st)))) \<ge> ts_t controlSigner) \<rparr>"
    using c assms(2) observePool_SomeD by (fastforce simp: certify_slot_def Let_def slot_of_def split: option.splits if_splits)
  show "certifying cfg controlSigner pool (poolSlotLocked ?p st1)"
    using markSigned_SomeD [OF o(2)] wire v(1) slot st1 by (simp add: certifying_def)
  show "?p \<in> fst ` set (sl_shares (poolSlotLocked ?p st1))" using slot st1 by (simp add: dom_update)
qed

lemma share_collected:
  assumes "poolSlotLocked (sc_LocalNode cfg) st = slot" "certifying cfg controlSigner pool slot"
  shows "certifying cfg controlSigner pool (poolSlotLocked (sc_LocalNode cfg) (handlePoolCertificateShare B cfg controlSigner m body st))"
    and "fst ` set (sl_shares slot) \<subseteq>
      fst ` set (sl_shares (poolSlotLocked (sc_LocalNode cfg) (handlePoolCertificateShare B cfg controlSigner m body st)))"
    and "pool_share_from B controlSigner pool m body \<Longrightarrow>
      m \<in> fst ` set (sl_shares (poolSlotLocked (sc_LocalNode cfg) (handlePoolCertificateShare B cfg controlSigner m body st)))"
proof -
  let ?p = "sc_LocalNode cfg" and ?st' = "handlePoolCertificateShare B cfg controlSigner m body st"
  have "certifying cfg controlSigner pool (poolSlotLocked ?p ?st') \<and> fst ` set (sl_shares slot) \<subseteq> fst ` set (sl_shares (poolSlotLocked ?p ?st')) \<and>
    (pool_share_from B controlSigner pool m body \<longrightarrow> m \<in> fst ` set (sl_shares (poolSlotLocked ?p ?st')))"
  proof (cases "checked_pool_share B cfg controlSigner m body st")
    case None
    have "poolSlots st ?p = Some slot" using assms by (auto simp: certifying_def poolSlotLocked_def new_slot_def split: option.splits)
    then have "\<not> pool_share_from B controlSigner pool m body"
      using None assms by (auto simp: pool_share_from_def checked_pool_share_def certifying_def)
    then show ?thesis using None assms by (simp add: handlePoolCertificateShare_def)
  next
    case (Some r)
    then obtain share where r: "checked_pool_share B cfg controlSigner m body st = Some (share, slot)" "pcs_ProposerID share = ?p"
      using checked_pool_share_SomeD [of B cfg controlSigner m body st] assms(1) by (cases r) metis
    let ?shares = "put_first m (pcs_Signature share) (sl_shares slot)"
    have st': "poolSlotLocked ?p ?st' = slot\<lparr> sl_shares := ?shares, sl_sharesReady := (sl_sharesReady slot \<or>
        int (length ?shares) \<ge> ts_t controlSigner) \<rparr>"
      using r by (simp add: handlePoolCertificateShare_def Let_def)
    show ?thesis using assms unfolding st' by (auto simp: certifying_def put_first_members)
  qed
  then show "certifying cfg controlSigner pool (poolSlotLocked ?p ?st')" "fst ` set (sl_shares slot) \<subseteq> fst ` set (sl_shares (poolSlotLocked ?p ?st'))"
    "pool_share_from B controlSigner pool m body \<Longrightarrow> m \<in> fst ` set (sl_shares (poolSlotLocked ?p ?st'))" by blast+
qed

lemma shares_collected:
  assumes "certifying cfg controlSigner pool (poolSlotLocked (sc_LocalNode cfg) st)" "pool_inv B cfg controlSigner st"
  shows "certifying cfg controlSigner pool (poolSlotLocked (sc_LocalNode cfg) (deliver_shares B cfg controlSigner msgs st)) \<and>
    pool_inv B cfg controlSigner (deliver_shares B cfg controlSigner msgs st) \<and>
    fst ` set (sl_shares (poolSlotLocked (sc_LocalNode cfg) st)) \<union>
      {m. \<exists>body. (m, body) \<in> set msgs \<and> pool_share_from B controlSigner pool m body} \<subseteq>
    fst ` set (sl_shares (poolSlotLocked (sc_LocalNode cfg) (deliver_shares B cfg controlSigner msgs st)))"
  using assms
proof (induction msgs arbitrary: st)
  case Nil
  then show ?case by (simp add: deliver_shares_def)
next
  case (Cons msg msgs)
  obtain m body where msg: "msg = (m, body)" by (cases msg)
  let ?st1 = "handlePoolCertificateShare B cfg controlSigner m body st"
  have d: "deliver_shares B cfg controlSigner (msg # msgs) st = deliver_shares B cfg controlSigner msgs ?st1"
    by (simp add: deliver_shares_def msg)
  note one = share_collected [OF refl Cons.prems(1), of B m body]
  note two = Cons.IH [OF one(1) handlePoolCertificateShare_inv [OF Cons.prems(2)]]
  show ?case unfolding d using two one(2,3) msg by auto
qed


text \<open>A member that has signed the pool and is delivered its certificate holds both: its callers are given them.\<close>

theorem certificate_delivers_pool:
  assumes "pool_run B cfg apdbSigner controlSigner st sent" "own_key B controlSigner (sc_LocalNode cfg)"
    and "proposer \<noteq> sc_LocalNode cfg" "ps_signed (slot_of st proposer)"
    and "cvDecodePoolCertificateV2 body = Some certificate" "pc_PoolDigest certificate = ps_poolDigest (slot_of st proposer)"
    and "cvV2SignerHasRole controlSigner cvV2RoleControl"
    and "cvPoolCertificateStatementV2 (sc_ExpectedContext cfg) proposer (pc_PoolDigest certificate) = Some statement"
    and "VerifyRecovered B controlSigner cvPoolCertV2Domain statement (pc_Certificate certificate)"
  shows "let st' = handlePoolCertificate B cfg controlSigner proposer body st in ps_certSeen (slot_of st' proposer) \<and>
    (\<exists>pool. AwaitCertifiedPool_read B cfg controlSigner proposer st' = Some (pool, certificate) \<and>
       pl_ProposerID pool = proposer \<and> pl_Digest pool = ps_poolDigest (slot_of st proposer) \<and>
       cvVerifyPoolCertificateV2 B pool certificate controlSigner)"
proof -
  let ?slot = "poolSlotLocked proposer st"
  have ok: "slot_ok B cfg controlSigner proposer ?slot" by (rule pool_invD [OF pool_run_inv [OF assms(1,2)]])
  then obtain pool where h: "holds_pool cfg proposer ?slot pool" and seen: "ps_poolSeen (sl_state ?slot)"
    using assms(4) by (auto simp: slot_ok_def slot_of_def)
  have dec: "cvDecodePoolV2 (sl_poolWire ?slot) (sc_Params cfg) = Some pool"
    using pool_codec.decode_encode h assms(3) by (simp add: holds_pool_def)
  have p: "pl_ProposerID pool = proposer" "pl_ContextDigest pool = sc_ExpectedContext cfg"
    "pl_Digest pool = ps_poolDigest (sl_state ?slot)" using h by (simp_all add: holds_pool_def)
  have v: "cvVerifyPoolCertificateV2 B pool certificate controlSigner"
    using assms(6-9) p by (simp add: cvVerifyPoolCertificateV2_def slot_of_def)
  have "handlePoolCertificate B cfg controlSigner proposer body st = put_slot proposer (?slot\<lparr> sl_state :=
      (sl_state ?slot)\<lparr> ps_certSeen := True \<rparr>, sl_certWire := body, sl_certReady := True \<rparr>) st"
    using assms(5,6) seen dec p(1) v by (simp add: handlePoolCertificate_def Let_def put_slot_put observeCertificate_def slot_of_def)
  then show ?thesis using dec assms(5) v p by (simp add: AwaitCertifiedPool_read_def slot_of_def)
qed

section \<open>One certified pool per proposer\<close>

text \<open>A node in a run, and what it has signed for a proposer: the pool of a share it sent, or of the share it kept.\<close>

record ('g, 'h, 'f) pool_node =
  pn_cfg :: "('g, 'h, 'f) cvAPDBNetworkServiceConfigV2"
  pn_apdb :: "('g, 'h, 'f) tblsThresholdSigner"
  pn_control :: "('g, 'h, 'f) tblsThresholdSigner"
  pn_state :: pool_part
  pn_sent :: "cvOutboundMessageV2 list"

definition node_runs :: "('g, 'h, 'f::field) bls \<Rightarrow> ('g, 'h, 'f) pool_node \<Rightarrow> bool" where
  "node_runs B n \<longleftrightarrow> pool_run B (pn_cfg n) (pn_apdb n) (pn_control n) (pn_state n) (pn_sent n)"

definition node_signs :: "('g, 'h, 'f::field) bls \<Rightarrow> ('g, 'h, 'f) pool_node \<Rightarrow> int \<Rightarrow> bytes \<Rightarrow> bool" where
  "node_signs B n proposer digest \<longleftrightarrow> node_runs B n \<and> (sends_pool_share (pn_sent n) proposer digest \<or>
     ps_signed (slot_of (pn_state n) proposer) \<and> ps_poolDigest (slot_of (pn_state n) proposer) = digest)"

interpretation pool_signing: one_shot_signing "node_signs B" for B
proof
  fix n k d d'
  assume "node_signs B n k d" "node_signs B n k d'"
  then show "d = d'"
    using pool_run_refines [of B "pn_cfg n" "pn_apdb n" "pn_control n" "pn_state n" "pn_sent n" k]
    by (auto simp: node_signs_def node_runs_def)
qed

text \<open>Unforgeability: a pool certificate of the group needs the shares of a threshold of members, so the honest ones among
  them have signed that pool.\<close>

definition pool_unforgeable ::
  "('g, 'h, 'f::field) bls \<Rightarrow> ('g, 'h, 'f) tblsThresholdSigner \<Rightarrow> bytes \<Rightarrow> int set \<Rightarrow> int set \<Rightarrow>
   (int \<Rightarrow> ('g, 'h, 'f) pool_node) \<Rightarrow> bool" where
  "pool_unforgeable B controlSigner ctx members honest node \<longleftrightarrow> (\<forall>proposer digest statement sig.
     cvPoolCertificateStatementV2 ctx proposer digest = Some statement \<longrightarrow>
     VerifyRecovered B controlSigner cvPoolCertV2Domain statement sig \<longrightarrow>
     (\<exists>S \<subseteq> members. ts_t controlSigner \<le> int (card S) \<and> (\<forall>i \<in> S \<inter> honest. node_signs B (node i) proposer digest)))"

text \<open>Two honest members that hold a certified pool of one proposer hold the same pool digest, when two quorums of the
  control key share an honest member.\<close>

theorem certified_pools_agree:
  fixes B :: "('g, 'h, 'f::field) bls"
  assumes "pool_unforgeable B controlSigner ctx members honest node" "finite members" "i \<in> honest" "j \<in> honest"
    and "int (card members) + int (card (members - honest)) < 2 * ts_t controlSigner"
    and "\<forall>k \<in> honest. node_runs B (node k) \<and> pn_control (node k) = controlSigner \<and> sc_ExpectedContext (pn_cfg (node k)) = ctx \<and>
      own_key B controlSigner (sc_LocalNode (pn_cfg (node k)))"
    and "ps_certSeen (slot_of (pn_state (node i)) proposer)" "ps_certSeen (slot_of (pn_state (node j)) proposer)"
  shows "ps_poolDigest (slot_of (pn_state (node i)) proposer) = ps_poolDigest (slot_of (pn_state (node j)) proposer)"
proof -
  have cert: "\<exists>statement sig. cvPoolCertificateStatementV2 ctx proposer (ps_poolDigest (slot_of (pn_state (node k)) proposer)) = Some statement \<and>
      VerifyRecovered B controlSigner cvPoolCertV2Domain statement sig"
    if "k \<in> honest" "ps_certSeen (slot_of (pn_state (node k)) proposer)" for k
  proof -
    have "slot_ok B (pn_cfg (node k)) controlSigner proposer (poolSlotLocked proposer (pn_state (node k)))"
      using assms(6) that(1) pool_run_inv pool_invD by (fastforce simp: node_runs_def)
    then show ?thesis using that assms(6) by (auto simp: slot_ok_def slot_of_def holds_certificate_def pool_statement_def)
  qed
  have quorum: "\<exists>S \<subseteq> members. ts_t controlSigner \<le> int (card S) \<and>
      (\<forall>m \<in> S \<inter> honest. node_signs B (node m) proposer (ps_poolDigest (slot_of (pn_state (node k)) proposer)))"
    if "k \<in> honest" "ps_certSeen (slot_of (pn_state (node k)) proposer)" for k
    using cert [OF that] assms(1) unfolding pool_unforgeable_def by blast
  from quorum [OF assms(3,7)] quorum [OF assms(4,8)] obtain S S' where
    "S \<subseteq> members" "S' \<subseteq> members" "ts_t controlSigner \<le> int (card S)" "ts_t controlSigner \<le> int (card S')"
    "\<forall>m \<in> S \<inter> honest. node_signs B (node m) proposer (ps_poolDigest (slot_of (pn_state (node i)) proposer))"
    "\<forall>m \<in> S' \<inter> honest. node_signs B (node m) proposer (ps_poolDigest (slot_of (pn_state (node j)) proposer))" by blast
  then show ?thesis using pool_signing.quorums_agree [OF assms(2) _ _ _ _ assms(5), of S S' B node proposer] by blast
qed

end
