(* ===== verification/Net_Validation.thy ===== *)
theory Net_Validation
  imports Net_Pool
begin

text \<open>
  Validation in a node's service (\<^verbatim>\<open>src/core/cv_sapvss_apdb_network_v2.go\<close>): \<^verbatim>\<open>CertifyAggregate\<close>, \<^verbatim>\<open>handleValidationRequest\<close>,
  \<^verbatim>\<open>validateAndSignAggregate\<close>, \<^verbatim>\<open>handleValidationSignature\<close>, \<^verbatim>\<open>handleValidationResult\<close>, \<^verbatim>\<open>AwaitCertifiedValidationV2\<close> and
  \<^verbatim>\<open>AwaitValidationResult\<close>.  A validator checks a request in a goroutine of its own; whether the leaves and the aggregate it
  recovers pass is the argument \<open>accepted\<close> of its last section.  \<open>eligible\<close>, \<open>sample\<close> and \<open>known\<close> are what the service holds
  of the eligibility coin and the component references.  The sections of one handler are one step.
\<close>

section \<open>State\<close>

record cvPendingValidationV2 =
  pv_requestWire :: bytes
  pv_request :: cvValidationRequestV2
  pv_statement :: bytes
  pv_signatures :: "(int \<times> bytes) list"
  pv_ready :: bool

record cvValidationRecordV2 =
  vd_requestWire :: bytes
  vd_resultWire :: bytes
  vd_resultReady :: bool

record cvCertifiedValidationV2 =
  cd_request :: cvValidationRequestV2
  cd_certificate :: cvValidationCertificateV2

record validation_part =
  pendingValidation :: "bytes \<rightharpoonup> cvPendingValidationV2"
  validationRecords :: "bytes \<rightharpoonup> cvValidationRecordV2"
  validationInFlight :: "bytes set"
  validationOneShot :: "int \<rightharpoonup> bytes"
  validationLocalShares :: "bytes \<rightharpoonup> bytes"
  certifiedValidation :: "int \<rightharpoonup> cvCertifiedValidationV2"
  certifiedReady :: "int \<rightharpoonup> bool"

definition validation_empty :: validation_part where
  "validation_empty = \<lparr> pendingValidation = (\<lambda>_. None), validationRecords = (\<lambda>_. None), validationInFlight = {},
     validationOneShot = (\<lambda>_. None), validationLocalShares = (\<lambda>_. None), certifiedValidation = (\<lambda>_. None),
     certifiedReady = (\<lambda>_. None) \<rparr>"

definition new_record :: "bytes \<Rightarrow> cvValidationRecordV2" where
  "new_record requestWire = \<lparr> vd_requestWire = requestWire, vd_resultWire = [], vd_resultReady = False \<rparr>"

text \<open>The record of a statement is made when there is none.\<close>

definition make_record :: "bytes \<Rightarrow> bytes \<Rightarrow> validation_part \<Rightarrow> validation_part" where
  "make_record key requestWire st = (if validationRecords st key = None
     then st\<lparr> validationRecords := (validationRecords st)(key \<mapsto> new_record requestWire) \<rparr> else st)"

text \<open>The channel of a proposer, made when there is none.\<close>

definition certifiedReadyLocked :: "int \<Rightarrow> validation_part \<Rightarrow> validation_part" where
  "certifiedReadyLocked proposer st = (if certifiedReady st proposer = None
     then st\<lparr> certifiedReady := (certifiedReady st)(proposer \<mapsto> False) \<rparr> else st)"

text \<open>A result is recorded: by the proposer that built it, or by a member that received and verified it.\<close>

definition record_result ::
  "bytes \<Rightarrow> cvValidationRecordV2 \<Rightarrow> bytes \<Rightarrow> cvValidationRequestV2 \<Rightarrow> cvValidationCertificateV2 \<Rightarrow> validation_part \<Rightarrow> validation_part" where
  "record_result key rec resultWire request certificate st =
     (let proposer = ah_ProposerID (vr_Header request)
      in st\<lparr> validationRecords := (validationRecords st)(key \<mapsto> rec\<lparr> vd_resultWire := resultWire, vd_resultReady := True \<rparr>),
             certifiedValidation := (certifiedValidation st)(proposer \<mapsto> \<lparr> cd_request = request, cd_certificate = certificate \<rparr>),
             certifiedReady := (certifiedReady st)(proposer \<mapsto> True) \<rparr>)"

section \<open>The proposer\<close>

definition has_material :: "('g, 'h, 'f) cvAPDBNetworkServiceConfigV2 \<Rightarrow> bool" where
  "has_material cfg \<longleftrightarrow> sc_LeafContext cfg \<noteq> None \<and> sc_Receivers cfg \<noteq> None \<and> sc_Validators cfg \<noteq> None"

definition CertifyAggregate_start ::
  "('g, 'h, 'f) bls \<Rightarrow> ('g, 'h, 'f) cvAPDBNetworkServiceConfigV2 \<Rightarrow> ('g, 'h, 'f) tblsThresholdSigner \<Rightarrow>
   ('g, 'h, 'f) tblsThresholdSigner \<Rightarrow> ('g, 'h, 'f) tblsThresholdSigner \<Rightarrow> int set \<Rightarrow> int list \<Rightarrow> (int \<rightharpoonup> cvComponentRefV2) \<Rightarrow>
   cvValidationRequestV2 \<Rightarrow> validation_part \<Rightarrow> (validation_part \<times> cvOutboundMessageV2 list) option" where
  "CertifyAggregate_start B cfg apdbSigner controlSigner coinSigner eligible sample known request st = do {
     require (\<not> (ah_ProposerID (vr_Header request) \<noteq> sc_LocalNode cfg \<or> \<not> has_material cfg));
     require (validateKnownComponentRefsV2 B apdbSigner known (pl_Components (vr_Pool request)));
     require (cvVerifyValidationRequestPublicAfterComponentValidationV2 B request (sc_ExpectedContext cfg) (sc_Params cfg) eligible
       apdbSigner controlSigner coinSigner);
     requestWire \<leftarrow> cvValidationRequestV2CanonicalBytes request (sc_Params cfg);
     statement \<leftarrow> cvValidationStatementV2 sample (vr_Header request);
     require (pendingValidation st statement = None);
     let pending = \<lparr> pv_requestWire = requestWire, pv_request = request, pv_statement = statement, pv_signatures = [],
       pv_ready = False \<rparr>;
     Some (make_record statement requestWire (st\<lparr> pendingValidation := (pendingValidation st)(statement \<mapsto> pending) \<rparr>),
           map (\<lambda>member. (member, cvTagValidationRequestV2, requestWire)) (filter (\<lambda>member. member \<noteq> - 1) sample))
   }"

text \<open>A retry: the request again, to the validators whose signature is missing.\<close>

definition CertifyAggregate_retry :: "int list \<Rightarrow> bytes \<Rightarrow> validation_part \<Rightarrow> cvOutboundMessageV2 list" where
  "CertifyAggregate_retry sample key st =
     (case pendingValidation st key of
        None \<Rightarrow> []
      | Some pending \<Rightarrow> map (\<lambda>member. (member, cvTagValidationRequestV2, pv_requestWire pending))
          (filter (\<lambda>member. member \<noteq> - 1 \<and> member \<notin> fst ` set (pv_signatures pending)) sample))"

definition forget_validation :: "bytes \<Rightarrow> validation_part \<Rightarrow> validation_part" where
  "forget_validation key st = st\<lparr> pendingValidation := (pendingValidation st)(key := None) \<rparr>"

text \<open>From the label \<^verbatim>\<open>buildCertificate\<close> on.\<close>

definition CertifyAggregate_built ::
  "('g, 'h, 'f::field) bls \<Rightarrow> ('g, 'h, 'f) cvAPDBNetworkServiceConfigV2 \<Rightarrow> int list \<Rightarrow> bytes \<Rightarrow> validation_part \<Rightarrow>
   validation_part \<times> (cvValidationCertificateV2 \<times> cvOutboundMessageV2 list) option" where
  "CertifyAggregate_built B cfg sample key st =
     (case (do {
          pending \<leftarrow> pendingValidation st key;
          material \<leftarrow> sc_Validators cfg;
          certificate \<leftarrow> cvBuildValidationCertificateModeV2 B (vr_Header (pv_request pending)) sample
            (vp_validatorThreshold (sc_Params cfg)) (pv_signatures pending) material False;
          resultWire \<leftarrow> cvValidationResultV2CanonicalBytes B \<lparr> vt_Statement = key, vt_Certificate = certificate \<rparr> sample;
          rec \<leftarrow> validationRecords st key;
          Some (pv_request pending, certificate, resultWire, rec)
        }) of
        None \<Rightarrow> (forget_validation key st, None)
      | Some (request, certificate, resultWire, rec) \<Rightarrow>
          (forget_validation key (record_result key rec resultWire request certificate st),
           Some (certificate, send_to_all (sc_OldRoster cfg) (sc_LocalNode cfg) cvTagValidationResultV2 resultWire)))"

section \<open>A validator\<close>

text \<open>The new reservations and whether the statement is the reserved one.\<close>

definition cvReserveValidationStatementV2 :: "(int \<rightharpoonup> bytes) \<Rightarrow> int \<Rightarrow> bytes \<Rightarrow> (int \<rightharpoonup> bytes) \<times> bool" where
  "cvReserveValidationStatementV2 reservations proposer statement =
     (if proposer < 0 \<or> length statement \<noteq> 32 then (reservations, False)
      else case reservations proposer of
        Some previous \<Rightarrow> (reservations, previous = statement)
      | None \<Rightarrow> (reservations(proposer \<mapsto> statement), True))"

text \<open>Decoding and verification: the request, its statement and the state with its record.\<close>

definition request_checked ::
  "('g, 'h, 'f) bls \<Rightarrow> ('g, 'h, 'f) cvAPDBNetworkServiceConfigV2 \<Rightarrow> ('g, 'h, 'f) tblsThresholdSigner \<Rightarrow>
   ('g, 'h, 'f) tblsThresholdSigner \<Rightarrow> ('g, 'h, 'f) tblsThresholdSigner \<Rightarrow> int set \<Rightarrow> int list \<Rightarrow> (int \<rightharpoonup> cvComponentRefV2) \<Rightarrow>
   int \<Rightarrow> bytes \<Rightarrow> validation_part \<Rightarrow> (cvValidationRequestV2 \<times> bytes \<times> validation_part) option" where
  "request_checked B cfg apdbSigner controlSigner coinSigner eligible sample known from body st = do {
     require (has_material cfg);
     request \<leftarrow> cvDecodeValidationRequestV2 body (sc_Params cfg);
     require (\<not> ah_ProposerID (vr_Header request) \<noteq> from);
     statement \<leftarrow> cvValidationStatementV2 sample (vr_Header request);
     (case validationRecords st statement of
        Some rec \<Rightarrow> do {
          require (\<not> vd_requestWire rec \<noteq> body);
          Some (request, statement, st)
        }
      | None \<Rightarrow> do {
          require (validateKnownComponentRefsV2 B apdbSigner known (pl_Components (vr_Pool request)));
          require (cvVerifyValidationRequestPublicAfterComponentValidationV2 B request (sc_ExpectedContext cfg) (sc_Params cfg)
            eligible apdbSigner controlSigner coinSigner);
          Some (request, statement, make_record statement body st)
        })
   }"

definition signature_reply :: "cvValidationRequestV2 \<Rightarrow> bytes \<Rightarrow> bytes \<Rightarrow> cvOutboundMessageV2 list" where
  "signature_reply request statement signature = reply (ah_ProposerID (vr_Header request)) cvTagValidationSignatureV2
     (cvValidationSignatureV2CanonicalBytes \<lparr> vs_Statement = statement, vs_Signature = signature \<rparr>)"

text \<open>The result: the state, the messages, and the request and statement that the goroutine started is to validate.\<close>

definition handleValidationRequest ::
  "('g, 'h, 'f) bls \<Rightarrow> ('g, 'h, 'f) cvAPDBNetworkServiceConfigV2 \<Rightarrow> ('g, 'h, 'f) tblsThresholdSigner \<Rightarrow>
   ('g, 'h, 'f) tblsThresholdSigner \<Rightarrow> ('g, 'h, 'f) tblsThresholdSigner \<Rightarrow> int set \<Rightarrow> int list \<Rightarrow> (int \<rightharpoonup> cvComponentRefV2) \<Rightarrow>
   int \<Rightarrow> bytes \<Rightarrow> validation_part \<Rightarrow>
   validation_part \<times> cvOutboundMessageV2 list \<times> (cvValidationRequestV2 \<times> bytes) list" where
  "handleValidationRequest B cfg apdbSigner controlSigner coinSigner eligible sample known from body st =
     (case request_checked B cfg apdbSigner controlSigner coinSigner eligible sample known from body st of
        None \<Rightarrow> (st, [], [])
      | Some (request, statement, st) \<Rightarrow>
          (let localShare = bytes_at (validationLocalShares st) statement;
               inFlight = (statement \<in> validationInFlight st);
               isValidator = cvContainsID sample (sc_LocalNode cfg)
           in if isValidator \<and> length localShare = 0 \<and> \<not> inFlight
              then (case cvReserveValidationStatementV2 (validationOneShot st) (ah_ProposerID (vr_Header request)) statement of
                      (_, False) \<Rightarrow> (st, [], [])
                    | (reservations, True) \<Rightarrow>
                        (st\<lparr> validationOneShot := reservations, validationInFlight := insert statement (validationInFlight st) \<rparr>, [],
                         [(request, statement)]))
              else if length localShare \<noteq> 0 then (st, signature_reply request statement localShare, [])
              else (st, [], [])))"

text \<open>The signature the goroutine makes, if it makes one.\<close>

definition signature_made ::
  "('g, 'h, 'f::field) bls \<Rightarrow> ('g, 'h, 'f) cvAPDBNetworkServiceConfigV2 \<Rightarrow> int list \<Rightarrow> bool \<Rightarrow> cvValidationRequestV2 \<Rightarrow> bytes \<Rightarrow>
   validation_part \<Rightarrow> bytes option" where
  "signature_made B cfg sample accepted request statement st = do {
     require accepted;
     let reservedStatement = (case validationOneShot st (ah_ProposerID (vr_Header request)) of None \<Rightarrow> [] | Some w \<Rightarrow> w);
     require (\<not> reservedStatement \<noteq> statement);
     material \<leftarrow> sc_Validators cfg;
     cvSignValidationV2 B (sc_LocalNode cfg) (vr_Header request) sample material
   }"

text \<open>The goroutine is no longer in flight when it ends, whatever the result.\<close>

definition validateAndSignAggregate ::
  "('g, 'h, 'f::field) bls \<Rightarrow> ('g, 'h, 'f) cvAPDBNetworkServiceConfigV2 \<Rightarrow> int list \<Rightarrow> bool \<Rightarrow> cvValidationRequestV2 \<Rightarrow> bytes \<Rightarrow>
   validation_part \<Rightarrow> validation_part \<times> cvOutboundMessageV2 list" where
  "validateAndSignAggregate B cfg sample accepted request statement st =
     (let landed = (\<lambda>st. st\<lparr> validationInFlight := validationInFlight st - {statement} \<rparr>)
      in case signature_made B cfg sample accepted request statement st of
           None \<Rightarrow> (landed st, [])
         | Some signature \<Rightarrow>
             (landed (st\<lparr> validationLocalShares := (validationLocalShares st)(statement \<mapsto> signature) \<rparr>),
              signature_reply request statement signature))"

section \<open>Signatures and results\<close>

text \<open>The public key of a sender; an index outside the list panics in the code.  The material of a service has one key per
  member, so that every index in \<^verbatim>\<open>memberIndex\<close> is in range.\<close>

definition sender_key :: "('h, 'f) cvValidatorKeyMaterialV2 \<Rightarrow> int \<Rightarrow> 'h option" where
  "sender_key material from = do {
     index \<leftarrow> vm_memberIndex material from;
     require (index < length (vm_publicKeys material));
     Some (vm_publicKeys material ! index)
   }"

definition handleValidationSignature ::
  "('g, 'h, 'f) bls \<Rightarrow> ('g, 'h, 'f) cvAPDBNetworkServiceConfigV2 \<Rightarrow> int list \<Rightarrow> int \<Rightarrow> bytes \<Rightarrow> validation_part \<Rightarrow> validation_part" where
  "handleValidationSignature B cfg sample from body st =
     (case (do {
          value \<leftarrow> cvDecodeValidationSignatureV2 body;
          material \<leftarrow> sc_Validators cfg;
          pending \<leftarrow> pendingValidation st (vs_Statement value);
          require (cvContainsID sample from);
          publicKey \<leftarrow> sender_key material from;
          require (cvVerifyValidatorSignatureV2 B publicKey cvValidationCertificateV2Domain (vs_Statement value) (vs_Signature value));
          Some (value, pending)
        }) of
        None \<Rightarrow> st
      | Some (value, pending) \<Rightarrow>
          (let signatures = put_first from (vs_Signature value) (pv_signatures pending)
           in st\<lparr> pendingValidation := (pendingValidation st)(vs_Statement value \<mapsto> pending\<lparr> pv_signatures := signatures,
                pv_ready := (pv_ready pending \<or> int (length signatures) \<ge> vp_validatorThreshold (sc_Params cfg)) \<rparr>) \<rparr>))"

definition result_checked ::
  "('g, 'h, 'f::field) bls \<Rightarrow> ('g, 'h, 'f) cvAPDBNetworkServiceConfigV2 \<Rightarrow> int list \<Rightarrow> int \<Rightarrow> bytes \<Rightarrow> validation_part \<Rightarrow>
   (bytes \<times> cvValidationRecordV2 \<times> cvValidationRequestV2 \<times> cvValidationCertificateV2) option" where
  "result_checked B cfg sample from body st = do {
     material \<leftarrow> sc_Validators cfg;
     result \<leftarrow> cvDecodeValidationResultV2 B body sample;
     rec \<leftarrow> validationRecords st (vt_Statement result);
     require (\<not> length (vd_requestWire rec) = 0);
     request \<leftarrow> cvDecodeValidationRequestV2 (vd_requestWire rec) (sc_Params cfg);
     require (\<not> (ah_ProposerID (vr_Header request) \<noteq> from \<or> \<not> cvVerifyValidationCertificateV2 B (vt_Certificate result)
       (vr_Header request) sample (vp_validatorThreshold (sc_Params cfg)) material));
     wantStatement \<leftarrow> cvValidationStatementV2 sample (vr_Header request);
     require (\<not> wantStatement \<noteq> vt_Statement result);
     Some (vt_Statement result, rec, request, vt_Certificate result)
   }"

definition handleValidationResult ::
  "('g, 'h, 'f::field) bls \<Rightarrow> ('g, 'h, 'f) cvAPDBNetworkServiceConfigV2 \<Rightarrow> int list \<Rightarrow> int \<Rightarrow> bytes \<Rightarrow> validation_part \<Rightarrow> validation_part" where
  "handleValidationResult B cfg sample from body st =
     (case result_checked B cfg sample from body st of
        None \<Rightarrow> st
      | Some (key, rec, request, certificate) \<Rightarrow> record_result key rec body request certificate st)"

section \<open>Waiting\<close>

text \<open>\<^verbatim>\<open>AwaitCertifiedValidationV2\<close>: the channel is made, the notification is taken, and what it reads.\<close>

definition AwaitCertifiedValidation_wake :: "int \<Rightarrow> validation_part \<Rightarrow> validation_part" where
  "AwaitCertifiedValidation_wake proposer st = st\<lparr> certifiedReady := (certifiedReady st)(proposer \<mapsto> False) \<rparr>"

definition AwaitCertifiedValidation_read ::
  "int \<Rightarrow> validation_part \<Rightarrow> (cvValidationRequestV2 \<times> cvValidationCertificateV2) option" where
  "AwaitCertifiedValidation_read proposer st = do {
     certified \<leftarrow> certifiedValidation st proposer;
     Some (cd_request certified, cd_certificate certified)
   }"

text \<open>\<^verbatim>\<open>AwaitValidationResult\<close>: the record it waits on, the notification, and what it reads.\<close>

definition AwaitValidationResult_start ::
  "('g, 'h, 'f) cvAPDBNetworkServiceConfigV2 \<Rightarrow> int list \<Rightarrow> cvValidationRequestV2 \<Rightarrow> validation_part \<Rightarrow> validation_part" where
  "AwaitValidationResult_start cfg sample request st =
     (case (cvValidationStatementV2 sample (vr_Header request), cvValidationRequestV2CanonicalBytes request (sc_Params cfg)) of
        (Some statement, Some wire) \<Rightarrow> make_record statement wire st
      | _ \<Rightarrow> st)"

definition AwaitValidationResult_wake :: "bytes \<Rightarrow> validation_part \<Rightarrow> validation_part" where
  "AwaitValidationResult_wake key st = (case validationRecords st key of
     None \<Rightarrow> st
   | Some rec \<Rightarrow> st\<lparr> validationRecords := (validationRecords st)(key \<mapsto> rec\<lparr> vd_resultReady := False \<rparr>) \<rparr>)"

definition AwaitValidationResult_read ::
  "('g, 'h, 'f::field) bls \<Rightarrow> ('g, 'h, 'f) cvAPDBNetworkServiceConfigV2 \<Rightarrow> int list \<Rightarrow> cvValidationRequestV2 \<Rightarrow> validation_part \<Rightarrow>
   cvValidationCertificateV2 option" where
  "AwaitValidationResult_read B cfg sample request st = do {
     statement \<leftarrow> cvValidationStatementV2 sample (vr_Header request);
     rec \<leftarrow> validationRecords st statement;
     result \<leftarrow> cvDecodeValidationResultV2 B (vd_resultWire rec) sample;
     material \<leftarrow> sc_Validators cfg;
     require (\<not> (vt_Statement result \<noteq> statement \<or> \<not> cvVerifyValidationCertificateV2 B (vt_Certificate result)
       (vr_Header request) sample (vp_validatorThreshold (sc_Params cfg)) material));
     Some (vt_Certificate result)
   }"

section \<open>Runs\<close>

datatype validation_event =
    RequestMessage int bytes
  | Validated bool cvValidationRequestV2 bytes
  | SignatureMessage int bytes
  | ResultMessage int bytes
  | AggregateStart cvValidationRequestV2
  | AggregateRetry bytes
  | AggregateFinish bytes
  | AggregateStop bytes
  | CertifiedStart int
  | CertifiedWake int
  | ResultStart cvValidationRequestV2
  | ResultWake bytes

text \<open>The result of an event: the state, the messages, the goroutines started and the requests signed.\<close>

definition validation_step ::
  "('g, 'h, 'f::field) bls \<Rightarrow> ('g, 'h, 'f) cvAPDBNetworkServiceConfigV2 \<Rightarrow> ('g, 'h, 'f) tblsThresholdSigner \<Rightarrow>
   ('g, 'h, 'f) tblsThresholdSigner \<Rightarrow> ('g, 'h, 'f) tblsThresholdSigner \<Rightarrow> int set \<Rightarrow> int list \<Rightarrow> (int \<rightharpoonup> cvComponentRefV2) \<Rightarrow>
   validation_event \<Rightarrow> validation_part \<Rightarrow>
   validation_part \<times> cvOutboundMessageV2 list \<times> (cvValidationRequestV2 \<times> bytes) list \<times> (cvValidationRequestV2 \<times> bytes) list" where
  "validation_step B cfg apdbSigner controlSigner coinSigner eligible sample known ev st = (case ev of
     RequestMessage from body \<Rightarrow>
       (case handleValidationRequest B cfg apdbSigner controlSigner coinSigner eligible sample known from body st of
          (st', msgs, jobs) \<Rightarrow> (st', msgs, jobs, []))
   | Validated accepted request statement \<Rightarrow>
       (case validateAndSignAggregate B cfg sample accepted request statement st of
          (st', msgs) \<Rightarrow> (st', msgs, [],
            if signature_made B cfg sample accepted request statement st = None then [] else [(request, statement)]))
   | SignatureMessage from body \<Rightarrow> (handleValidationSignature B cfg sample from body st, [], [], [])
   | ResultMessage from body \<Rightarrow> (handleValidationResult B cfg sample from body st, [], [], [])
   | AggregateStart request \<Rightarrow>
       (case CertifyAggregate_start B cfg apdbSigner controlSigner coinSigner eligible sample known request st of
          None \<Rightarrow> (st, [], [], []) | Some (st', msgs) \<Rightarrow> (st', msgs, [], []))
   | AggregateRetry key \<Rightarrow> (st, CertifyAggregate_retry sample key st, [], [])
   | AggregateFinish key \<Rightarrow> (case CertifyAggregate_built B cfg sample key st of
       (st', result) \<Rightarrow> (st', (case result of None \<Rightarrow> [] | Some (_, msgs) \<Rightarrow> msgs), [], []))
   | AggregateStop key \<Rightarrow> (forget_validation key st, [], [], [])
   | CertifiedStart proposer \<Rightarrow> (certifiedReadyLocked proposer st, [], [], [])
   | CertifiedWake proposer \<Rightarrow> (AwaitCertifiedValidation_wake proposer st, [], [], [])
   | ResultStart request \<Rightarrow> (AwaitValidationResult_start cfg sample request st, [], [], [])
   | ResultWake key \<Rightarrow> (AwaitValidationResult_wake key st, [], [], []))"

text \<open>A validation ends only for a goroutine that was started, once its sample is known.\<close>

definition validation_event_ok ::
  "(cvValidationRequestV2 \<times> bytes) list \<Rightarrow> validation_event \<Rightarrow> bool" where
  "validation_event_ok jobs ev = (case ev of Validated _ request statement \<Rightarrow> (request, statement) \<in> set jobs | _ \<Rightarrow> True)"

text \<open>\<open>sample\<close> is the sample of the eligibility coin; before the coin the service has none.\<close>

inductive validation_run ::
  "('g, 'h, 'f::field) bls \<Rightarrow> ('g, 'h, 'f) cvAPDBNetworkServiceConfigV2 \<Rightarrow> ('g, 'h, 'f) tblsThresholdSigner \<Rightarrow>
   ('g, 'h, 'f) tblsThresholdSigner \<Rightarrow> ('g, 'h, 'f) tblsThresholdSigner \<Rightarrow> int list \<Rightarrow> validation_part \<Rightarrow>
   cvOutboundMessageV2 list \<Rightarrow> (cvValidationRequestV2 \<times> bytes) list \<Rightarrow> (cvValidationRequestV2 \<times> bytes) list \<Rightarrow> bool"
  for B cfg apdbSigner controlSigner coinSigner sample where
  validation_run_empty: "validation_run B cfg apdbSigner controlSigner coinSigner sample validation_empty [] [] []"
| validation_run_step: "validation_run B cfg apdbSigner controlSigner coinSigner sample st sent jobs votes \<Longrightarrow>
    validation_event_ok jobs ev \<Longrightarrow> held = [] \<or> held = sample \<Longrightarrow>
    validation_step B cfg apdbSigner controlSigner coinSigner eligible held known ev st = (st', msgs, new, votes') \<Longrightarrow>
    validation_run B cfg apdbSigner controlSigner coinSigner sample st' (sent @ msgs) (jobs @ new) (votes @ votes')"

section \<open>One aggregate per proposer\<close>

definition sends_validation_share :: "cvOutboundMessageV2 list \<Rightarrow> bytes \<Rightarrow> bool" where
  "sends_validation_share msgs statement \<longleftrightarrow> (\<exists>to w value. (to, cvTagValidationSignatureV2, w) \<in> set msgs \<and>
     cvDecodeValidationSignatureV2 w = Some value \<and> vs_Statement value = statement)"

text \<open>What holds of a validator's jobs, of what it signed and sent, and of the results it keeps from other proposers.\<close>

definition job_ok :: "int list \<Rightarrow> validation_part \<Rightarrow> cvValidationRequestV2 \<Rightarrow> bytes \<Rightarrow> bool" where
  "job_ok sample st r s \<longleftrightarrow> cvValidationStatementV2 sample (vr_Header r) = Some s \<and> int64 (ah_ProposerID (vr_Header r)) \<and>
     validationOneShot st (ah_ProposerID (vr_Header r)) = Some s"

definition result_ok ::
  "('g, 'h, 'f::field) bls \<Rightarrow> ('g, 'h, 'f) cvAPDBNetworkServiceConfigV2 \<Rightarrow> int list \<Rightarrow> int \<Rightarrow> cvCertifiedValidationV2 \<Rightarrow> bool" where
  "result_ok B cfg sample p c \<longleftrightarrow> p = sc_LocalNode cfg \<or>
     ah_ProposerID (vr_Header (cd_request c)) = p \<and> int64 p \<and> (\<exists>material. sc_Validators cfg = Some material \<and>
       cvVerifyValidationCertificateV2 B (cd_certificate c) (vr_Header (cd_request c)) sample
         (vp_validatorThreshold (sc_Params cfg)) material)"

definition validation_inv ::
  "('g, 'h, 'f::field) bls \<Rightarrow> ('g, 'h, 'f) cvAPDBNetworkServiceConfigV2 \<Rightarrow> int list \<Rightarrow> validation_part \<Rightarrow> cvOutboundMessageV2 list \<Rightarrow>
   (cvValidationRequestV2 \<times> bytes) list \<Rightarrow> (cvValidationRequestV2 \<times> bytes) list \<Rightarrow> bool" where
  "validation_inv B cfg sample st sent jobs votes \<longleftrightarrow>
     (\<forall>(r, s) \<in> set jobs. job_ok sample st r s) \<and> set votes \<subseteq> set jobs \<and>
     (\<forall>s. validationLocalShares st s \<noteq> None \<longrightarrow> (\<exists>r. (r, s) \<in> set votes)) \<and>
     (\<forall>s. sends_validation_share sent s \<longrightarrow> (\<exists>r. (r, s) \<in> set votes)) \<and>
     (\<forall>k pending. pendingValidation st k = Some pending \<longrightarrow>
        ah_ProposerID (vr_Header (pv_request pending)) = sc_LocalNode cfg) \<and>
     (\<forall>p c. certifiedValidation st p = Some c \<longrightarrow> result_ok B cfg sample p c)"

lemma reserve_keeps: "m p = Some s \<Longrightarrow> fst (cvReserveValidationStatementV2 m q t) p = Some s"
  by (auto simp: cvReserveValidationStatementV2_def split: option.splits)

lemma reserve_reserves: "cvReserveValidationStatementV2 m p s = (m', True) \<Longrightarrow> m' p = Some s"
  by (auto simp: cvReserveValidationStatementV2_def split: option.splits if_splits)

lemma sends_validation_append:
  "sends_validation_share (xs @ ys) s \<longleftrightarrow> sends_validation_share xs s \<or> sends_validation_share ys s"
  unfolding sends_validation_share_def set_append Un_iff by blast

lemma sends_validation_other:
  "tag \<noteq> cvTagValidationSignatureV2 \<Longrightarrow> \<not> sends_validation_share (map (\<lambda>m. (m, tag, w)) ms) s"
  "tag \<noteq> cvTagValidationSignatureV2 \<Longrightarrow> \<not> sends_validation_share (send_to_all rs x tag w) s"
  "\<not> sends_validation_share [] s"
  by (auto simp: sends_validation_share_def send_to_all_def)

lemma signature_reply_sends:
  assumes "sends_validation_share (signature_reply request statement w) s"
  shows "s = statement"
proof -
  let ?v = "\<lparr> vs_Statement = statement, vs_Signature = w \<rparr>"
  obtain wire sv where v: "cvValidationSignatureV2CanonicalBytes ?v = Some wire" "cvDecodeValidationSignatureV2 wire = Some sv"
    "vs_Statement sv = s"
    using assms by (fastforce simp: sends_validation_share_def signature_reply_def dest: reply_mem)
  then show ?thesis using validation_signature_codec.decode_encode [of ?v wire] by auto
qed

lemma make_record_fields [simp]:
  "validationOneShot (make_record k w st) = validationOneShot st"
  "validationLocalShares (make_record k w st) = validationLocalShares st"
  "pendingValidation (make_record k w st) = pendingValidation st"
  "certifiedValidation (make_record k w st) = certifiedValidation st"
  "validationInFlight (make_record k w st) = validationInFlight st"
  by (simp_all add: make_record_def)

lemma request_checked_SomeD:
  assumes "request_checked B cfg apdbSigner controlSigner coinSigner eligible sample known from body st =
    Some (request, statement, st')"
  shows "cvValidationStatementV2 sample (vr_Header request) = Some statement" "int64 (ah_ProposerID (vr_Header request))"
    "st' = st \<or> st' = make_record statement body st"
  using assms request_codec.decode_wf
  by (auto simp: request_checked_def wf_request_def run_simps split: option.splits)

lemma request_keeps_inv:
  assumes "validation_inv B cfg sample st sent jobs votes" "held = [] \<or> held = sample"
    and "handleValidationRequest B cfg apdbSigner controlSigner coinSigner eligible held known from body st = (st', msgs, new)"
  shows "validation_inv B cfg sample st' (sent @ msgs) (jobs @ new) votes"
proof (cases "request_checked B cfg apdbSigner controlSigner coinSigner eligible held known from body st")
  case None
  then show ?thesis using assms by (simp add: handleValidationRequest_def)
next
  case (Some res)
  obtain request statement st1 where res: "res = (request, statement, st1)" by (cases res)
  note D = request_checked_SomeD [OF Some [unfolded res]]
  have inv1: "validation_inv B cfg sample st1 sent jobs votes" using assms(1) D(3) by (auto simp: validation_inv_def job_ok_def)
  let ?p = "ah_ProposerID (vr_Header request)"
  let ?share = "bytes_at (validationLocalShares st1) statement"
  consider (job) m where "held = sample" "cvReserveValidationStatementV2 (validationOneShot st1) ?p statement = (m, True)"
      "st' = st1\<lparr> validationOneShot := m, validationInFlight := insert statement (validationInFlight st1) \<rparr>"
      "msgs = []" "new = [(request, statement)]"
    | (reply) "?share \<noteq> []" "st' = st1" "msgs = signature_reply request statement ?share" "new = []"
    | (nothing) "st' = st1" "msgs = []" "new = []"
    using assms(2,3) Some res
    by (auto simp: handleValidationRequest_def Let_def split: prod.splits if_splits bool.splits)
  then show ?thesis
  proof cases
    case job
    have "\<And>p s. validationOneShot st1 p = Some s \<Longrightarrow> m p = Some s"
      using reserve_keeps [of "validationOneShot st1" _ _ ?p statement] job(2) by simp
    then show ?thesis using inv1 job reserve_reserves [OF job(2)] D(1,2) by (auto simp: validation_inv_def job_ok_def)
  next
    case reply
    have "\<exists>r. (r, statement) \<in> set votes" using inv1 reply(1) by (auto simp: validation_inv_def bytes_at_def split: option.splits)
    then show ?thesis using inv1 reply
      by (auto simp: validation_inv_def sends_validation_append dest: signature_reply_sends)
  next
    case nothing
    then show ?thesis using inv1 by simp
  qed
qed

lemma validated_keeps_inv:
  assumes "validation_inv B cfg sample st sent jobs votes" "(request, statement) \<in> set jobs"
    and "validateAndSignAggregate B cfg held accepted request statement st = (st', msgs)"
  shows "validation_inv B cfg sample st' (sent @ msgs) jobs
    (votes @ (if signature_made B cfg held accepted request statement st = None then [] else [(request, statement)]))"
  using assms
  by (auto simp: validateAndSignAggregate_def validation_inv_def job_ok_def Let_def sends_validation_append
    sends_validation_other dest!: signature_reply_sends split: option.splits if_splits)

lemma recorded_keeps_inv:
  assumes "validation_inv B cfg sample st sent jobs votes"
    and "result_ok B cfg sample (ah_ProposerID (vr_Header request)) \<lparr> cd_request = request, cd_certificate = certificate \<rparr>"
  shows "validation_inv B cfg sample (record_result key rec w request certificate st) sent jobs votes"
  using assms by (auto simp: record_result_def validation_inv_def job_ok_def Let_def)

lemma forget_keeps_inv:
  "validation_inv B cfg sample st sent jobs votes \<Longrightarrow> validation_inv B cfg sample (forget_validation key st) sent jobs votes"
  by (auto simp: forget_validation_def validation_inv_def job_ok_def)

lemma verify_needs_sample: "\<not> cvVerifyValidationCertificateV2 B c h [] q m"
  by (simp add: cvVerifyValidationCertificateV2_def cvValidValidatorSampleV2_def)

lemma result_keeps_inv:
  assumes "validation_inv B cfg sample st sent jobs votes" "held = [] \<or> held = sample"
  shows "validation_inv B cfg sample (handleValidationResult B cfg held from body st) sent jobs votes"
proof (cases "result_checked B cfg held from body st")
  case None
  then show ?thesis using assms(1) by (simp add: handleValidationResult_def)
next
  case (Some res)
  obtain key rec request certificate where res: "res = (key, rec, request, certificate)" by (cases res) auto
  obtain material where m: "sc_Validators cfg = Some material" "cvVerifyValidationCertificateV2 B certificate (vr_Header request) held
      (vp_validatorThreshold (sc_Params cfg)) material" "cvDecodeValidationRequestV2 (vd_requestWire rec) (sc_Params cfg) = Some request"
    using Some res by (auto simp: result_checked_def run_simps)
  then have "held = sample" using assms(2) by (auto simp: verify_needs_sample)
  then have "result_ok B cfg sample (ah_ProposerID (vr_Header request)) \<lparr> cd_request = request, cd_certificate = certificate \<rparr>"
    using m request_codec.decode_wf [OF m(3)] by (simp add: result_ok_def wf_request_def)
  then show ?thesis using Some res recorded_keeps_inv [OF assms(1)] by (simp add: handleValidationResult_def)
qed

lemma start_keeps_inv:
  assumes "validation_inv B cfg sample st sent jobs votes"
    and "CertifyAggregate_start B cfg apdbSigner controlSigner coinSigner eligible held known request st = Some (st', msgs)"
  shows "validation_inv B cfg sample st' (sent @ msgs) jobs votes"
  using assms
  by (auto simp: CertifyAggregate_start_def validation_inv_def job_ok_def run_simps sends_validation_append sends_validation_other
    tag_defs Let_def split: if_splits)

lemma built_keeps_inv:
  assumes "validation_inv B cfg sample st sent jobs votes" "CertifyAggregate_built B cfg held key st = (st', result)"
  shows "validation_inv B cfg sample st' (sent @ (case result of None \<Rightarrow> [] | Some (_, msgs) \<Rightarrow> msgs)) jobs votes"
proof (cases result)
  case None
  then show ?thesis using assms forget_keeps_inv by (auto simp: CertifyAggregate_built_def split: option.splits)
next
  case (Some res)
  then obtain pending rec w cert msgs where r: "pendingValidation st key = Some pending" "res = (cert, msgs)"
    "msgs = send_to_all (sc_OldRoster cfg) (sc_LocalNode cfg) cvTagValidationResultV2 w"
    "st' = forget_validation key (record_result key rec w (pv_request pending) cert st)"
    using assms(2) by (auto simp: CertifyAggregate_built_def run_simps split: option.splits)
  have "result_ok B cfg sample (ah_ProposerID (vr_Header (pv_request pending)))
      \<lparr> cd_request = pv_request pending, cd_certificate = cert \<rparr>"
    using assms(1) r(1) by (simp add: validation_inv_def result_ok_def)
  then have "validation_inv B cfg sample st' sent jobs votes"
    unfolding r(4) by (intro forget_keeps_inv recorded_keeps_inv [OF assms(1)])
  then show ?thesis using Some r(2,3) by (simp add: validation_inv_def sends_validation_append sends_validation_other tag_defs)
qed

lemma validation_step_inv:
  assumes inv: "validation_inv B cfg sample st sent jobs votes" and ok: "validation_event_ok jobs ev"
    and held: "held = [] \<or> held = sample"
    and step: "validation_step B cfg apdbSigner controlSigner coinSigner eligible held known ev st = (st', msgs, new, votes')"
  shows "validation_inv B cfg sample st' (sent @ msgs) (jobs @ new) (votes @ votes')"
proof (cases ev)
  case (RequestMessage sender body)
  then show ?thesis using step request_keeps_inv [OF inv held] by (auto simp: validation_step_def split: prod.splits)
next
  case (Validated accepted request statement)
  then show ?thesis using step ok validated_keeps_inv [OF inv, of request statement]
    by (auto simp: validation_step_def validation_event_ok_def split: prod.splits)
next
  case (SignatureMessage sender body)
  have "validation_inv B cfg sample (handleValidationSignature B cfg held sender body st) sent jobs votes"
    using inv by (auto simp: handleValidationSignature_def validation_inv_def job_ok_def Let_def run_simps split: option.splits)
  then show ?thesis using step SignatureMessage by (auto simp: validation_step_def)
next
  case (ResultMessage sender body)
  then show ?thesis using step result_keeps_inv [OF inv held] by (auto simp: validation_step_def)
next
  case (AggregateStart request)
  then show ?thesis using step inv start_keeps_inv [OF inv] by (auto simp: validation_step_def split: option.splits)
next
  case (AggregateRetry key)
  then show ?thesis using step inv
    by (auto simp: validation_step_def CertifyAggregate_retry_def validation_inv_def sends_validation_append
      sends_validation_other tag_defs split: option.splits)
next
  case (AggregateFinish key)
  then show ?thesis using step built_keeps_inv [OF inv] by (auto simp: validation_step_def split: prod.splits)
next
  case (AggregateStop key)
  then show ?thesis using step forget_keeps_inv [OF inv] by (auto simp: validation_step_def)
next
  case (ResultStart request)
  have "validation_inv B cfg sample (AwaitValidationResult_start cfg held request st) sent jobs votes"
    using inv by (auto simp: AwaitValidationResult_start_def validation_inv_def job_ok_def split: option.splits)
  then show ?thesis using step ResultStart by (auto simp: validation_step_def)
next
  case (ResultWake key)
  have "validation_inv B cfg sample (AwaitValidationResult_wake key st) sent jobs votes"
    using inv by (auto simp: AwaitValidationResult_wake_def validation_inv_def job_ok_def split: option.splits)
  then show ?thesis using step ResultWake by (auto simp: validation_step_def)
qed (use step inv in \<open>auto simp: validation_step_def validation_inv_def job_ok_def certifiedReadyLocked_def
  AwaitCertifiedValidation_wake_def split: if_splits\<close>)

lemma validation_run_inv:
  assumes "validation_run B cfg apdbSigner controlSigner coinSigner sample st sent jobs votes"
  shows "validation_inv B cfg sample st sent jobs votes"
  using assms
proof (induction rule: validation_run.induct)
  case validation_run_empty
  show ?case by (simp add: validation_inv_def validation_empty_def sends_validation_other)
next
  case validation_run_step
  then show ?case by (blast intro: validation_step_inv)
qed

lemma vote_ok:
  assumes "validation_run B cfg apdbSigner controlSigner coinSigner sample st sent jobs votes" "(r, s) \<in> set votes"
  shows "job_ok sample st r s"
  using validation_run_inv [OF assms(1)] assms(2) by (auto simp: validation_inv_def)

lemma statements_bind:
  assumes "cvValidationStatementV2 sample h = Some s" "cvValidationStatementV2 sample h' = Some s" "list_all int64 sample"
    and "int64 (ah_ProposerID h)" "int64 (ah_ProposerID h')"
  shows "h = h' \<or> statement_message sample h \<noteq> statement_message sample h' \<and>
    sha256 (statement_message sample h) = sha256 (statement_message sample h')"
  using validation_statement_binding [OF assms(1,2,3,3,4,5)] by blast

text \<open>C10: what a validator signs for one proposer is one aggregate: two requests of a proposer that it signs have the same
  statement, so that their headers are equal or collide under SHA-256, and every validation share that it sends is for a request
  it signed.\<close>

theorem one_validation_per_proposer:
  assumes run: "validation_run B cfg apdbSigner controlSigner coinSigner sample st sent jobs votes" and "list_all int64 sample"
  shows "(\<forall>(r, s) \<in> set votes. \<forall>(r', s') \<in> set votes. ah_ProposerID (vr_Header r) = ah_ProposerID (vr_Header r') \<longrightarrow>
      s = s' \<and> (vr_Header r = vr_Header r' \<or>
        statement_message sample (vr_Header r) \<noteq> statement_message sample (vr_Header r') \<and>
        sha256 (statement_message sample (vr_Header r)) = sha256 (statement_message sample (vr_Header r')))) \<and>
    (\<forall>s. sends_validation_share sent s \<longrightarrow> (\<exists>r. (r, s) \<in> set votes))"
proof (intro conjI ballI)
  show "\<forall>s. sends_validation_share sent s \<longrightarrow> (\<exists>r. (r, s) \<in> set votes)"
    using validation_run_inv [OF run] by (simp add: validation_inv_def)
next
  fix v
  assume v: "v \<in> set votes"
  obtain r s where rs: "v = (r, s)" by (cases v)
  show "case v of (r, s) \<Rightarrow> \<forall>(r', s') \<in> set votes. ah_ProposerID (vr_Header r) = ah_ProposerID (vr_Header r') \<longrightarrow>
      s = s' \<and> (vr_Header r = vr_Header r' \<or>
        statement_message sample (vr_Header r) \<noteq> statement_message sample (vr_Header r') \<and>
        sha256 (statement_message sample (vr_Header r)) = sha256 (statement_message sample (vr_Header r')))"
    unfolding rs prod.case
  proof (intro ballI, unfold split_paired_all prod.case, intro impI)
    fix r' s'
    assume v': "(r', s') \<in> set votes" and p: "ah_ProposerID (vr_Header r) = ah_ProposerID (vr_Header r')"
    note ok = vote_ok [OF run v [unfolded rs], unfolded job_ok_def] vote_ok [OF run v', unfolded job_ok_def]
    have s: "s = s'" using ok p by simp
    show "s = s' \<and> (vr_Header r = vr_Header r' \<or>
        statement_message sample (vr_Header r) \<noteq> statement_message sample (vr_Header r') \<and>
        sha256 (statement_message sample (vr_Header r)) = sha256 (statement_message sample (vr_Header r')))"
      using s statements_bind [OF _ _ assms(2), of "vr_Header r" s "vr_Header r'"] ok by blast
  qed
qed

section \<open>One certified aggregate per proposer\<close>

record ('g, 'h, 'f) validation_node =
  vn_cfg :: "('g, 'h, 'f) cvAPDBNetworkServiceConfigV2"
  vn_apdb :: "('g, 'h, 'f) tblsThresholdSigner"
  vn_control :: "('g, 'h, 'f) tblsThresholdSigner"
  vn_coin :: "('g, 'h, 'f) tblsThresholdSigner"
  vn_state :: validation_part
  vn_sent :: "cvOutboundMessageV2 list"
  vn_jobs :: "(cvValidationRequestV2 \<times> bytes) list"
  vn_votes :: "(cvValidationRequestV2 \<times> bytes) list"

definition node_validates :: "('g, 'h, 'f::field) bls \<Rightarrow> int list \<Rightarrow> ('g, 'h, 'f) validation_node \<Rightarrow> bool" where
  "node_validates B sample n \<longleftrightarrow> validation_run B (vn_cfg n) (vn_apdb n) (vn_control n) (vn_coin n) sample (vn_state n) (vn_sent n)
     (vn_jobs n) (vn_votes n)"

definition node_votes ::
  "('g, 'h, 'f::field) bls \<Rightarrow> int list \<Rightarrow> ('g, 'h, 'f) validation_node \<Rightarrow> int \<Rightarrow> bytes \<Rightarrow> bool" where
  "node_votes B sample n proposer statement \<longleftrightarrow> node_validates B sample n \<and>
     (\<exists>r. (r, statement) \<in> set (vn_votes n) \<and> ah_ProposerID (vr_Header r) = proposer)"

interpretation validation_signing: one_shot_signing "node_votes B sample" for B sample
proof
  fix n k d d'
  assume "node_votes B sample n k d" "node_votes B sample n k d'"
  then obtain r r' where r: "(r, d) \<in> set (vn_votes n)" "(r', d') \<in> set (vn_votes n)" "ah_ProposerID (vr_Header r) = k"
    "ah_ProposerID (vr_Header r') = k" and run: "node_validates B sample n" by (auto simp: node_votes_def)
  then show "d = d'" using vote_ok [OF run [unfolded node_validates_def] r(1)]
      vote_ok [OF run [unfolded node_validates_def] r(2)] by (simp add: job_ok_def)
qed

text \<open>Unforgeability: the honest members whose bits a certificate sets have signed what it signs, the hash of its statement.\<close>

definition validation_unforgeable ::
  "('g, 'h, 'f::field) bls \<Rightarrow> ('h, 'f) cvValidatorKeyMaterialV2 \<Rightarrow> int list \<Rightarrow> int \<Rightarrow> int set \<Rightarrow>
   (int \<Rightarrow> ('g, 'h, 'f) validation_node) \<Rightarrow> bool" where
  "validation_unforgeable B material sample quorum honest node \<longleftrightarrow> (\<forall>certificate header statement.
     cvVerifyValidationCertificateV2 B certificate header sample quorum material \<longrightarrow>
     cvValidationStatementV2 sample header = Some statement \<longrightarrow>
     (\<forall>i \<in> set (signers_from (vc_SignerBitmap certificate) 0 sample) \<inter> honest. node_validates B sample (node i) \<and>
        (\<exists>r s. (r, s) \<in> set (vn_votes (node i)) \<and>
           domainDigest cvValidationCertificateV2Domain s = domainDigest cvValidationCertificateV2Domain statement)))"

text \<open>The messages that are hashed when a header is signed, and those that a node hashed for its signatures.\<close>

definition validation_messages :: "int list \<Rightarrow> cvAggregateHeaderV2 \<Rightarrow> bytes list" where
  "validation_messages sample header = [statement_message sample header,
     domain_message cvValidationCertificateV2Domain (sha256 (statement_message sample header))]"

definition voted_messages :: "int list \<Rightarrow> ('g, 'h, 'f) validation_node \<Rightarrow> bytes list" where
  "voted_messages sample n = concat (map (\<lambda>(r, s). validation_messages sample (vr_Header r)) (vn_votes n))"

lemma statement_hash: "cvValidationStatementV2 sample header = Some s \<Longrightarrow> s = sha256 (statement_message sample header)"
  by (rule statement_D)

lemma digests_bind:
  assumes "cvValidationStatementV2 sample h = Some s" "cvValidationStatementV2 sample h' = Some s'" "list_all int64 sample"
    and "int64 (ah_ProposerID h)" "int64 (ah_ProposerID h')"
    and "domainDigest cvValidationCertificateV2Domain s = domainDigest cvValidationCertificateV2Domain s'"
  shows "h = h' \<or> collide (validation_messages sample h) (validation_messages sample h')"
proof (cases "s = s'")
  case True
  then show ?thesis using statements_bind [OF assms(1) assms(2) [folded True] assms(3-5)]
    by (auto simp: collide_def validation_messages_def)
next
  case False
  then have "domain_message cvValidationCertificateV2Domain s \<noteq> domain_message cvValidationCertificateV2Domain s'"
    using domain_message_inj by blast
  then show ?thesis using assms(6) statement_hash [OF assms(1)] statement_hash [OF assms(2)]
    by (auto simp: collide_def validation_messages_def domainDigest_message)
qed

lemma vote_messages: "(r, s) \<in> set (vn_votes n) \<Longrightarrow> set (validation_messages sample (vr_Header r)) \<subseteq> set (voted_messages sample n)"
  by (auto simp: voted_messages_def)

lemma certificate_votes:
  assumes "bls_laws B" "keyed B material sk" "validation_unforgeable B material sample quorum honest node"
    and "cvVerifyValidationCertificateV2 B certificate header sample quorum material"
    and "list_all int64 sample" "int64 (ah_ProposerID header)"
    and fresh: "\<forall>i \<in> honest. \<not> collide (voted_messages sample (node i)) (validation_messages sample header)"
  obtains S statement where "S \<subseteq> set sample" "quorum \<le> int (card S)" "cvValidationStatementV2 sample header = Some statement"
    "\<forall>i \<in> S \<inter> honest. node_votes B sample (node i) (ah_ProposerID header) statement" "distinct sample"
proof -
  let ?S = "signers_from (vc_SignerBitmap certificate) 0 sample"
  obtain statement where st: "cvValidationStatementV2 sample header = Some statement" "distinct ?S" "set ?S \<subseteq> set sample"
    "quorum \<le> int (length ?S)" "distinct sample" using verify_certificate_D [OF assms(1,2,4)] by blast
  have "\<forall>i \<in> set ?S \<inter> honest. node_votes B sample (node i) (ah_ProposerID header) statement"
  proof
    fix i
    assume i: "i \<in> set ?S \<inter> honest"
    then obtain r s where rs: "node_validates B sample (node i)" "(r, s) \<in> set (vn_votes (node i))"
      "domainDigest cvValidationCertificateV2Domain s = domainDigest cvValidationCertificateV2Domain statement"
      using assms(3) [unfolded validation_unforgeable_def, rule_format, OF assms(4) st(1)] by blast
    have ok: "job_ok sample (vn_state (node i)) r s" using rs(1,2) vote_ok unfolding node_validates_def by blast
    then have "vr_Header r = header \<or> collide (validation_messages sample (vr_Header r)) (validation_messages sample header)"
      using digests_bind [OF _ st(1) assms(5) _ assms(6) rs(3)] by (simp add: job_ok_def)
    then have h: "vr_Header r = header" using fresh i collide_mono [OF _ vote_messages [OF rs(2)] subset_refl] by blast
    then have "s = statement" using st(1) ok by (simp add: job_ok_def)
    then show "node_votes B sample (node i) (ah_ProposerID header) statement" using rs(1,2) h by (auto simp: node_votes_def)
  qed
  then show thesis using that [of "set ?S" statement] st by (simp add: distinct_card)
qed


end
