(* ===== verification/Net_Witnesses.thy ===== *)
theory Net_Witnesses
  imports Net_Decision Net_Validation Network_Witnesses
begin

text \<open>
  Closed instances of the properties of the network service, on the five-element instance: nodes with the keys of \<open>duo\<close>, where one
  share is a threshold.  \<open>only\<close> hashes one message of a domain to the curve and fails on the others, so that
  nothing else of that domain can be signed.
\<close>

section \<open>Keys and configuration\<close>

definition only :: "string \<Rightarrow> bytes \<Rightarrow> (gf5, gf5, gf5) bls" where
  "only domain M = toy_bls\<lparr> bls_HashToG1 := (\<lambda>m d. if d = str_bytes domain \<and> m \<noteq> M then None else Some F2) \<rparr>"

lemma only_fields:
  "g1_IsOnCurve (only domain M) = g1_IsOnCurve toy_bls" "g1_IsInSubGroup (only domain M) = g1_IsInSubGroup toy_bls"
  "g1_IsInfinity (only domain M) = g1_IsInfinity toy_bls" "g1_zero (only domain M) = g1_zero toy_bls"
  "g1_add (only domain M) = g1_add toy_bls" "g1_smul (only domain M) = g1_smul toy_bls"
  "bls_Marshal (only domain M) = bls_Marshal toy_bls" "bls_Unmarshal (only domain M) = bls_Unmarshal toy_bls"
  "bls_Bytes (only domain M) = bls_Bytes toy_bls" "bls_SetBytes (only domain M) = bls_SetBytes toy_bls"
  "bls_genG1 (only domain M) = bls_genG1 toy_bls" "bls_genG2 (only domain M) = bls_genG2 toy_bls"
  "bls_NegG2 (only domain M) = bls_NegG2 toy_bls" "bls_AddG2 (only domain M) = bls_AddG2 toy_bls"
  "bls_SmulG2 (only domain M) = bls_SmulG2 toy_bls" "bls_G2IsInfinity (only domain M) = bls_G2IsInfinity toy_bls"
  "bls_G2IsOnCurve (only domain M) = bls_G2IsOnCurve toy_bls" "bls_G2IsInSubGroup (only domain M) = bls_G2IsInSubGroup toy_bls"
  "bls_PairingCheck (only domain M) = bls_PairingCheck toy_bls" "bls_G2Bytes (only domain M) = bls_G2Bytes toy_bls"
  "bls_HashToG1 (only domain M) m d = (if d = str_bytes domain \<and> m \<noteq> M then None else Some F2)"
  by (simp_all add: only_def)

lemma only_g1: "g1_laws (only domain M)" "g1_in (only domain M) p"
  by (simp_all add: g1_laws_def g1_in_def only_def toy_bls_def zero_gf5_def [symmetric] algebra_simps)

lemma only_laws: "bls_laws (only domain M)"
  unfolding bls_laws_def using only_g1
  by (simp add: SizeOfG1AffineCompressed_def toy_codec)
     (simp add: only_def toy_bls_def toy_codec SizeOfG1AffineCompressed_def zero_gf5_def [symmetric]
       one_gf5_def [symmetric] algebra_simps F2_nonzero)

lemma only_marshal: "marshal_fits (only domain M)"
  using toy_marshal_fits by (simp add: marshal_fits_def only_fields)

lemma only_dealt: "dealt (only domain M) (duo r) [F1]"
  using duo_dealt by (simp add: dealt_def only_fields)

lemma only_sign:
  assumes "str_bytes domain' \<noteq> str_bytes domain \<or> domainDigest domain' m = M"
  shows "SignShare (only domain M) (duo r) 2 domain' m = Some [2]" "VerifyShare (only domain M) (duo r) 2 domain' m [2]"
    "VerifyRecovered (only domain M) (duo r) domain' m [2]"
  using duo_sign [of r domain' m] assms
  by (auto simp: SignShare_def VerifyShare_def VerifyRecovered_def pairing_ok_def only_fields Let_def run_simps)
     (simp_all add: toy_bls_def)

lemma only_verifies: "VerifyRecovered (only domain M) s domain m sig \<Longrightarrow> domainDigest domain m = M"
  by (auto simp: VerifyRecovered_def only_fields run_simps split: if_splits)

lemma duo_own: "own_key toy_bls (duo r) 2"
  by (simp add: own_key_def duo_sign)

lemma duo_fields: "ts_t (duo r) = 1" "ts_memberOrder (duo r) = [2, 3]"
  by (simp_all add: duo_def)

definition toy_net :: "int \<Rightarrow> (gf5, gf5, gf5) cvAPDBNetworkServiceConfigV2" where
  "toy_net node = \<lparr> sc_SID = ''s'', sc_Epoch = 1, sc_LocalNode = node, sc_OldRoster = [2], sc_NewRoster = [3],
     sc_ExpectedContext = replicate 32 1, sc_TotalShards = 2, sc_DataShards = 1, sc_ShardBytes = 9, sc_MaximumPayload = 10,
     sc_Params = toy_params, sc_EligibilityCoin = None, sc_LeafContext = Some toy_context, sc_Receivers = Some toy_receivers,
     sc_Validators = Some toy_keys, sc_DecisionStore = Some \<lparr> ds_root = ''r'' \<rparr> \<rparr>"

lemma toy_net_fields [simp]:
  "sc_SID (toy_net node) = ''s''" "sc_Epoch (toy_net node) = 1" "sc_LocalNode (toy_net node) = node" "sc_OldRoster (toy_net node) = [2]"
  "sc_NewRoster (toy_net node) = [3]" "sc_ExpectedContext (toy_net node) = replicate 32 1" "sc_Params (toy_net node) = toy_params"
  "sc_Validators (toy_net node) = Some toy_keys" "sc_DecisionStore (toy_net node) = Some \<lparr> ds_root = ''r'' \<rparr>" "has_material (toy_net node)"
  by (simp_all add: toy_net_def has_material_def)

section \<open>Coin\<close>

lemma toy_coin_start:
  "\<exists>key st1 sent pending. cvCoinInvocationDigestV2 [7] = Some key \<and>
    runCoin_start toy_bls (toy_net 2) (duo cvV2RoleCoin) [7] coin_empty = Some (st1, sent) \<and>
    pendingCoins st1 key = Some pending \<and> pn_invocation pending = [7] \<and> pn_ready pending"
proof -
  obtain key where key: "cvCoinInvocationDigestV2 [7] = Some key" "length key = 32"
    by (simp add: cvCoinInvocationDigestV2_def cvMaxLeafWireBytes_def hashBytes_def)
  obtain message where "cvCoinShareV2CanonicalBytes \<lparr> cs_InvocationDigest = key, cs_Signature = [2] \<rparr> = Some message"
    using key by (simp add: cvCoinShareV2CanonicalBytes_def cvMaxComponentSignatureBytes_def)
  then show ?thesis using key
    by (simp add: runCoin_start_def duo_sign duo_role coin_empty_def duo_fields)
qed

theorem network_coin_returns_witness:
  "\<exists>key st1 st2 out. coin_deliver toy_bls (duo cvV2RoleCoin) [] st1 = Some st2 \<and> coin_event_ok (CoinFinish key) st2 \<and>
    coin_step toy_bls (toy_net 2) (duo cvV2RoleCoin) (CoinFinish key) st2 = Some (forget_coin key st2, [], [out]) \<and>
    cvVerifyCoinOutputV2 toy_bls out [7] (duo cvV2RoleCoin)"
proof -
  obtain key st1 sent pending where s: "cvCoinInvocationDigestV2 [7] = Some key"
    "runCoin_start toy_bls (toy_net 2) (duo cvV2RoleCoin) [7] coin_empty = Some (st1, sent)" using toy_coin_start by blast
  have inj: "inj_on (of_int :: int \<Rightarrow> gf5) {1..int (length (ts_memberOrder (duo cvV2RoleCoin)))}"
    using duo_inj by (simp add: duo_fields)
  show ?thesis
    using network_coin_returns [OF toy_bls_laws toy_marshal_fits duo_dealt inj _ coin_run_empty s, of "[]" "[]"] duo_own
    by (auto simp: duo_fields)
qed

theorem network_coin_agreement_witness:
  "\<exists>out st. coin_run toy_bls (toy_net 2) (duo cvV2RoleCoin) st [out] \<and> co_Invocation out = [7] \<and>
    out = out \<and> cvVerifyCoinOutputV2 toy_bls out (co_Invocation out) (duo cvV2RoleCoin)"
proof -
  obtain key st1 sent pending where s: "cvCoinInvocationDigestV2 [7] = Some key"
    "runCoin_start toy_bls (toy_net 2) (duo cvV2RoleCoin) [7] coin_empty = Some (st1, sent)"
    "pendingCoins st1 key = Some pending" "pn_invocation pending = [7]" "pn_ready pending" using toy_coin_start by blast
  have inj: "inj_on (of_int :: int \<Rightarrow> gf5) {1..int (length (ts_memberOrder (duo cvV2RoleCoin)))}"
    using duo_inj by (simp add: duo_fields)
  have own: "own_key toy_bls (duo cvV2RoleCoin) (sc_LocalNode (toy_net 2))" using duo_own by simp
  have "coin_run toy_bls (toy_net 2) (duo cvV2RoleCoin) st1 ([] @ [])"
    by (rule coin_run_step [OF coin_run_empty, of "CoinStart [7]" _ _ _ _ sent])
       (use s in \<open>simp_all add: coin_event_ok_def coin_step_def\<close>)
  then have run: "coin_run toy_bls (toy_net 2) (duo cvV2RoleCoin) st1 []" by simp
  have "pending_coin_ok toy_bls (duo cvV2RoleCoin) key pending"
    using coin_run_inv [OF run own] s(3) by (simp add: coin_inv_def)
  then have "runCoin_recovered toy_bls (duo cvV2RoleCoin) key pending =
      cvBuildCoinOutputV2 toy_bls [7] (group_signature toy_bls [F1] cvV2CoinDomain key) (duo cvV2RoleCoin)"
    using runCoin_recovered_value [OF toy_bls_laws duo_dealt inj] s(4,5) by simp
  also have "group_signature toy_bls [F1] cvV2CoinDomain key = [2]"
    by (simp add: group_signature_def toy_bls_def evalPolyInt_def gf_marshal_def gf5_ops)
  finally obtain out where out: "runCoin_recovered toy_bls (duo cvV2RoleCoin) key pending = Some out" "co_Invocation out = [7]"
    using s(1) by (auto simp: cvBuildCoinOutputV2_def duo_role duo_sign cvMaxComponentSignatureBytes_def hashBytes_def
        cvVerifyCoinOutputV2_def coin_value_def run_simps Let_def)
  have "coin_run toy_bls (toy_net 2) (duo cvV2RoleCoin) (forget_coin key st1) ([] @ [out])"
    by (rule coin_run_step [OF run, of "CoinFinish key" _ "[]"]) (use s(3,5) out in \<open>simp_all add: coin_event_ok_def coin_step_def\<close>)
  then have r: "coin_run toy_bls (toy_net 2) (duo cvV2RoleCoin) (forget_coin key st1) [out]" by simp
  show ?thesis
    using network_coin_agreement [OF toy_bls_laws duo_dealt duo_dealt inj inj own own r r, of out out] r out(2) by auto
qed

section \<open>Decision\<close>

definition toy_decided :: cvAgreementObjectV2 where
  "toy_decided = \<lparr> ao_Header = toy_header (replicate 32 7) (replicate 32 7),
     ao_Pool = \<lparr> pl_ContextDigest = replicate 32 1, pl_ProposerID = 2, pl_Components = [toy_ref], pl_Digest = replicate 32 7 \<rparr>,
     ao_PoolCert = \<lparr> pc_PoolDigest = replicate 32 7, pc_Certificate = [2] \<rparr>, ao_ContributorCoin = toy_output [7],
     ao_SelectedIndices = [0], ao_VCert = toy_certificate, ao_ARC = toy_arc \<rparr>"

lemma toy_decided_fields [simp]: "ao_Header toy_decided = toy_header (replicate 32 7) (replicate 32 7)" "ao_ARC toy_decided = toy_arc"
  by (simp_all add: toy_decided_def)

lemma toy_proposer: "ah_ProposerID (toy_header pool sel) = 2" "int64 2"
  by (simp_all add: toy_header_def int64_def)

lemma toy_signed_once:
  assumes "cvDecisionStatementV2 (replicate 32 1) (toy_header (replicate 32 7) (replicate 32 7)) toy_arc = Some st"
    and "SignShare B (duo cvV2RoleControl) 2 cvDecisionCertificateV2Domain st = Some [2]"
    and "VerifyShare B (duo cvV2RoleControl) 2 cvDecisionCertificateV2Domain st [2]"
  shows "length st = 32 \<and> (\<exists>fs. SignHandoffOnce B \<lparr> ds_root = ''r'' \<rparr> toy_env Map.empty ''s'' 1 2 (replicate 32 1)
      (toy_header (replicate 32 7) (replicate 32 7)) toy_arc (duo cvV2RoleControl) = (fs, Some [2]))"
proof -
  obtain dg where dg: "cvHandoffDigestV2 (replicate 32 1) (toy_header (replicate 32 7) (replicate 32 7)) toy_arc = Some dg"
    "length dg = 32" "length st = 32"
    using assms(1) by (auto simp: cvDecisionStatementV2_def cvHandoffDigestV2_def run_simps hashBytes_def)
  obtain a b where "cvStoreKeyParts ''s'' 1 2 (hashBytes [str_bytes cvDecisionSignRecordV2Domain]) = Some (a, b)"
    using toy_key_parts [of "hashBytes [str_bytes cvDecisionSignRecordV2Domain]"] by (auto simp: hashBytes_def)
  then obtain path where path: "decision_path \<lparr> ds_root = ''r'' \<rparr> ''s'' 1 2 = Some path"
    by (simp add: decision_path_def max_int_def)
  obtain rec where rec: "cvDecisionSignRecordV2CanonicalBytes ''s'' 1 2 dg st = Some rec"
    using dg by (simp add: cvDecisionSignRecordV2CanonicalBytes_def)
  obtain fs where "cvPutImmutableFile toy_env Map.empty path rec = (fs, None)"
    using toy_put [of path Map.empty rec] by (cases "cvPutImmutableFile toy_env Map.empty path rec") auto
  then show ?thesis using assms dg rec path by (simp add: SignHandoffOnce_def duo_role duo_can_sign)
qed

lemma toy_finalize_start:
  assumes "cvDecisionStatementV2 (replicate 32 1) (toy_header (replicate 32 7) (replicate 32 7)) toy_arc = Some st"
    and "SignShare B (duo cvV2RoleControl) 2 cvDecisionCertificateV2Domain st = Some [2]"
    and "VerifyShare B (duo cvV2RoleControl) 2 cvDecisionCertificateV2Domain st [2]"
  shows "\<exists>st1 wire. FinalizeDecision_start B toy_env (toy_net 2) (duo cvV2RoleControl) toy_decided (decision_empty Map.empty) =
      (st1, Some wire) \<and> decisionLocalShares st1 st = Some [2]"
proof -
  obtain fs where fs: "SignHandoffOnce B \<lparr> ds_root = ''r'' \<rparr> toy_env Map.empty ''s'' 1 2 (replicate 32 1)
      (toy_header (replicate 32 7) (replicate 32 7)) toy_arc (duo cvV2RoleControl) = (fs, Some [2])" "length st = 32"
    using toy_signed_once [OF assms] by blast
  then obtain wire where "cvDecisionShareV2CanonicalBytes \<lparr> dsh_Statement = st, dsh_Signature = [2] \<rparr> = Some wire"
    by (simp add: cvDecisionShareV2CanonicalBytes_def cvMaxComponentSignatureBytes_def)
  then show ?thesis using fs assms(1)
    by (simp add: FinalizeDecision_start_def decision_empty_def Let_def)
qed

lemma toy_arc_verifies: "cvVerifyAPDBLockV2 (only cvDecisionCertificateV2Domain M) toy_arc (duo cvV2RoleAPDB)"
proof -
  obtain i where "cvAggregateInstanceDigestV2 (replicate 32 1) 2 (replicate 32 7) (replicate 32 7) = Some i" "length i = 32"
    using toy_instance_digest [of "replicate 32 7" "replicate 32 7"] by auto
  moreover have "cvAPDBStoredDomain \<noteq> cvDecisionCertificateV2Domain" by (simp add: dom_defs cvAPDBStoredDomain_def)
  ultimately show ?thesis using only_sign(3) [of cvAPDBStoredDomain cvDecisionCertificateV2Domain _ M]
    by (simp add: cvVerifyAPDBLockV2_def toy_arc_def toy_header_def cvMaxComponentSignatureBytes_def duo_role cvAPDBStoredStatementV2_def)
qed

text \<open>A node that finalises the decision alone: the state after the start, when it keeps its share.\<close>

lemma toy_finalized:
  obtains st st1 wire where
    "cvDecisionStatementV2 (replicate 32 1) (toy_header (replicate 32 7) (replicate 32 7)) toy_arc = Some st"
    "FinalizeDecision_start (only cvDecisionCertificateV2Domain (domainDigest cvDecisionCertificateV2Domain st)) toy_env (toy_net 2)
       (duo cvV2RoleControl) toy_decided (decision_empty Map.empty) = (st1, Some wire)"
    "decisionLocalShares st1 st = Some [2]"
proof -
  obtain st where st: "cvDecisionStatementV2 (replicate 32 1) (toy_header (replicate 32 7) (replicate 32 7)) toy_arc = Some st"
    using toy_decision by blast
  have "\<exists>st1 wire. FinalizeDecision_start (only cvDecisionCertificateV2Domain (domainDigest cvDecisionCertificateV2Domain st)) toy_env
      (toy_net 2) (duo cvV2RoleControl) toy_decided (decision_empty Map.empty) = (st1, Some wire) \<and> decisionLocalShares st1 st = Some [2]"
    by (rule toy_finalize_start [OF st]) (rule only_sign, simp)+
  then show thesis using that [OF st] by blast
qed

lemma duo_inj_order: "inj_on (of_int :: int \<Rightarrow> gf5) {1..int (length (ts_memberOrder (duo r)))}"
  using duo_inj by (simp add: duo_fields)

lemmas duo_roles = duo_role [OF toy_roles(1)] duo_role [OF toy_roles(2)]

theorem decision_reaches_receivers_witness:
  "\<exists>B st1 handoff out wire.
    FinalizeDecision_formed B (toy_net 2) (duo cvV2RoleAPDB) (duo cvV2RoleControl) toy_decided
      (deliver_decision_shares B (duo cvV2RoleControl) [] st1) = Some (handoff, out) \<and>
    ho_Header handoff = ao_Header toy_decided \<and> ho_ARC handoff = ao_ARC toy_decided \<and>
    (\<forall>m \<in> set (sc_NewRoster (toy_net 2)). m \<noteq> sc_LocalNode (toy_net 2) \<longrightarrow> (m, cvTagHandoffV2, wire) \<in> set out) \<and>
    AwaitHandoff_read B (toy_net 3) (duo cvV2RoleAPDB) (duo cvV2RoleControl)
      (handleHandoff B (toy_net 3) (duo cvV2RoleAPDB) (duo cvV2RoleControl) wire (decision_empty Map.empty)) = Some handoff"
proof -
  obtain st st1 wire where st: "cvDecisionStatementV2 (replicate 32 1) (toy_header (replicate 32 7) (replicate 32 7)) toy_arc = Some st"
    and start: "FinalizeDecision_start (only cvDecisionCertificateV2Domain (domainDigest cvDecisionCertificateV2Domain st)) toy_env
      (toy_net 2) (duo cvV2RoleControl) toy_decided (decision_empty Map.empty) = (st1, Some wire)" by (rule toy_finalized)
  have st': "cvDecisionStatementV2 (sc_ExpectedContext (toy_net 2)) (ao_Header toy_decided) (ao_ARC toy_decided) = Some st"
    "cvVerifyAPDBLockV2 (only cvDecisionCertificateV2Domain (domainDigest cvDecisionCertificateV2Domain st)) (ao_ARC toy_decided)
      (duo cvV2RoleAPDB)" "int64 (ah_ProposerID (ao_Header toy_decided))"
    using st toy_arc_verifies by (simp_all add: toy_proposer)
  show ?thesis
    by (intro exI [of _ "only cvDecisionCertificateV2Domain (domainDigest cvDecisionCertificateV2Domain st)"] exI [of _ st1],
        rule decision_reaches_receivers [OF only_laws only_marshal only_dealt duo_inj_order duo_roles(2,1) decision_run_start st'(2,1,3)
          start, of "[]"])
       (simp_all add: duo_fields decision_empty_def)
qed

lemma toy_decision_node:
  obtains B n h where "decision_node_runs B n" "dn_control n = duo cvV2RoleControl" "hands_over B n h"
    "ho_Header h = toy_header (replicate 32 7) (replicate 32 7)"
    "decision_unforgeable B (duo cvV2RoleControl) (''s'', 1) {2} {2} (\<lambda>_. n)"
proof -
  obtain st st1 wire where st: "cvDecisionStatementV2 (replicate 32 1) (toy_header (replicate 32 7) (replicate 32 7)) toy_arc = Some st"
    and start: "FinalizeDecision_start (only cvDecisionCertificateV2Domain (domainDigest cvDecisionCertificateV2Domain st)) toy_env
      (toy_net 2) (duo cvV2RoleControl) toy_decided (decision_empty Map.empty) = (st1, Some wire)"
    and share: "decisionLocalShares st1 st = Some [2]" by (rule toy_finalized)
  let ?B = "only cvDecisionCertificateV2Domain (domainDigest cvDecisionCertificateV2Domain st)"
  let ?run = "decision_service_run ?B (toy_net 2) (duo cvV2RoleAPDB) (duo cvV2RoleControl)"
  have st': "cvDecisionStatementV2 (sc_ExpectedContext (toy_net 2)) (ao_Header toy_decided) (ao_ARC toy_decided) = Some st"
    "cvVerifyAPDBLockV2 ?B (ao_ARC toy_decided) (duo cvV2RoleAPDB)"
    using st toy_arc_verifies by simp_all
  obtain handoff out where f: "FinalizeDecision_formed ?B (toy_net 2) (duo cvV2RoleAPDB) (duo cvV2RoleControl) toy_decided st1 =
      Some (handoff, out)" "ho_Header handoff = ao_Header toy_decided"
    by (rule decision_formed [OF only_laws only_marshal only_dealt duo_inj_order duo_roles(2,1) decision_run_start st'(2,1) start,
          of "[]" "[]"]) (simp_all add: duo_fields deliver_decision_shares_def)
  have "?run st1 ([] @ []) ([] @ [])"
    by (rule decision_run_step [OF decision_run_start, of _ _ _ _ "FinalizeStart toy_env toy_decided" Map.empty])
       (simp add: decision_step_def start)
  then have run1: "?run st1 [] []" by simp
  have "?run (forget_decision st st1) ([] @ out) ([] @ [handoff])"
    by (rule decision_run_step [OF run1, of "FinalizeFinish toy_decided"]) (use st' f(1) in \<open>simp add: decision_step_def\<close>)
  then have run: "?run (forget_decision st st1) out [handoff]" by simp
  let ?n = "\<lparr> dn_cfg = toy_net 2, dn_store = \<lparr> ds_root = ''r'' \<rparr>, dn_apdb = duo cvV2RoleAPDB, dn_control = duo cvV2RoleControl,
    dn_state = forget_decision st st1, dn_sent = out, dn_returned = [handoff] \<rparr>"
  have n: "decision_node_runs ?B ?n" using run by (simp add: decision_node_runs_def)
  have "node_decides ?B ?n (''s'', 1) st" using n share by (simp add: node_decides_def forget_decision_def)
  then have "decision_unforgeable ?B (duo cvV2RoleControl) (''s'', 1) {2} {2} (\<lambda>_. ?n)"
    unfolding decision_unforgeable_def using only_verifies by (fastforce intro!: exI [of _ "{2}"] simp: duo_fields)
  then show thesis using that [OF n, of handoff] f(2) by (simp add: hands_over_def toy_proposer)
qed


section \<open>Pools\<close>

lemma duo_sign_3: "SignShare toy_bls (duo r) 3 d m = Some [2]"
  by (simp add: SignShare_def duo_def duo_index toy_bls_def gf_marshal_def gf5_ops)

lemma toy_ref_duo: "cvValidateComponentRefV2 toy_bls toy_ref (Some (duo cvV2RoleAPDB))"
proof -
  obtain i where "cvComponentInstanceDigestV2 (replicate 32 1) 4 = Some i" "length i = 32" using toy_instance by blast
  then have "cvVerifyAPDBLockV2 toy_bls (cr_Lock toy_ref) (duo cvV2RoleAPDB)"
    by (simp add: toy_ref_def Let_def cvVerifyAPDBLockV2_def cvMaxComponentSignatureBytes_def duo_roles cvAPDBStoredStatementV2_def duo_sign)
  then show ?thesis using toy_ref_wire by (auto simp: cvValidateComponentRefV2_def)
qed

text \<open>The pool of the toy reference, its wire form and the statement to certify.\<close>

lemma toy_pool_ready:
  obtains pool w statement where "cvBuildPoolV2 (replicate 32 1) 2 [toy_ref] toy_params = Some pool"
    "cvPoolV2CanonicalBytes pool toy_params = Some w" "cvDecodePoolV2 w toy_params = Some pool" "pl_ProposerID pool = 2"
    "length (pl_Digest pool) = 32" "pl_ContextDigest pool = replicate 32 1"
    "cvPoolCertificateStatementV2 (pl_ContextDigest pool) 2 (pl_Digest pool) = Some statement"
    "validatePool toy_bls (toy_net m) (duo cvV2RoleAPDB) {2} pool pool_empty = Some w"
proof -
  obtain pool where pool: "cvBuildPoolV2 (replicate 32 1) 2 [toy_ref] toy_params = Some pool" using toy_pool_built by blast
  obtain w where w: "cvPoolV2CanonicalBytes pool toy_params = Some w" using toy_pool_wf(2) [OF pool] by blast
  have p: "pl_ContextDigest pool = replicate 32 1" "pl_ProposerID pool = 2" "pl_Components pool = [toy_ref]" "length (pl_Digest pool) = 32"
    using pool by (auto simp: cvBuildPoolV2_def run_simps Let_def hashBytes_def)
  obtain statement where "cvPoolCertificateStatementV2 (pl_ContextDigest pool) 2 (pl_Digest pool) = Some statement"
    using p by (simp add: cvPoolCertificateStatementV2_def)
  then show thesis using that [OF pool w pool_codec.decode_encode [OF toy_pool_wf(1) [OF pool] w] p(2,4,1)] p w toy_ref_duo
    by (simp add: validatePool_def validateKnownComponentRefsV2_def pool_empty_def)
qed


theorem service_refines_slots_witness:
  "\<exists>st sent d. sends_pool_share sent 2 d \<and> pool_run toy_bls (toy_net 3) (duo cvV2RoleAPDB) (duo cvV2RoleControl) st sent \<and>
    (\<exists>evs acc. slot_run evs (slot_of st 2) acc \<and> signed_digests acc = [d])"
proof -
  obtain pool w statement where pool: "cvPoolV2CanonicalBytes pool toy_params = Some w" "cvDecodePoolV2 w toy_params = Some pool"
    "pl_ProposerID pool = 2" "length (pl_Digest pool) = 32"
    "cvPoolCertificateStatementV2 (pl_ContextDigest pool) 2 (pl_Digest pool) = Some statement"
    "validatePool toy_bls (toy_net 3) (duo cvV2RoleAPDB) {2} pool pool_empty = Some w" by (rule toy_pool_ready)
  have fresh: "poolSlotLocked 2 pool_empty = new_slot" by (simp add: poolSlotLocked_def pool_empty_def)
  let ?share = "\<lparr> pcs_ProposerID = 2, pcs_PoolDigest = pl_Digest pool, pcs_Signature = [2] \<rparr>"
  obtain wire where wire: "cvPoolCertificateShareV2CanonicalBytes ?share = Some wire"
    using pool(4) by (simp add: cvPoolCertificateShareV2CanonicalBytes_def cvMaxComponentSignatureBytes_def)
  then have dec: "cvDecodePoolCertificateShareV2 wire = Some ?share" using pool_share_codec.decode_encode [OF _ wire] by (simp add: int64_def)
  then have ne: "wire \<noteq> []" by (auto simp: cvDecodePoolCertificateShareV2_def cvReadBytes_def cvReadUint32_def)
  obtain st where step: "handlePoolOffer toy_bls (toy_net 3) (duo cvV2RoleAPDB) (duo cvV2RoleControl) {2} 2 w pool_empty =
      (st, [(2, cvTagPoolCertShareV2, wire)])"
    using pool wire ne by (simp add: handlePoolOffer_def offered_pool_def fresh offer_slot_def new_slot_def observePool_def markSigned_def
      slot_empty_def duo_sign_3 early_certificate_def pool_share_reply_def reply_def sendAsync_def tag_defs Let_def)
  have "pool_run toy_bls (toy_net 3) (duo cvV2RoleAPDB) (duo cvV2RoleControl) st ([] @ [(2, cvTagPoolCertShareV2, wire)])"
    by (rule pool_run_step [OF pool_run_empty, where ev = "OfferMessage 2 w" and eligible = "{2}"])
       (simp_all add: pool_event_ok_def pool_step_def step)
  then have run: "pool_run toy_bls (toy_net 3) (duo cvV2RoleAPDB) (duo cvV2RoleControl) st [(2, cvTagPoolCertShareV2, wire)]" by simp
  have "sends_pool_share [(2, cvTagPoolCertShareV2, wire)] 2 (pl_Digest pool)" using dec by (auto simp: sends_pool_share_def)
  then show ?thesis using service_refines_slots [OF run, of 2] run by blast
qed

section \<open>Validation\<close>

definition toy_request :: "cvPoolV2 \<Rightarrow> cvValidationRequestV2" where
  "toy_request pool = \<lparr> vr_Header = toy_header (replicate 32 7) (replicate 32 7), vr_Pool = pool,
     vr_PoolCert = \<lparr> pc_PoolDigest = replicate 32 7, pc_Certificate = [2] \<rparr>, vr_ContributorCoin = toy_output [7],
     vr_SelectedIndices = [0], vr_ARC = toy_arc \<rparr>"

lemma toy_request_header [simp]: "vr_Header (toy_request pool) = toy_header (replicate 32 7) (replicate 32 7)"
  by (simp add: toy_request_def)

lemma toy_request_wire:
  obtains pool w where "cvValidationRequestV2CanonicalBytes (toy_request pool) toy_params = Some w"
    "cvDecodeValidationRequestV2 w toy_params = Some (toy_request pool)"
proof -
  obtain pool pw where pool: "cvBuildPoolV2 (replicate 32 1) 2 [toy_ref] toy_params = Some pool"
    "cvPoolV2CanonicalBytes pool toy_params = Some pw" by (rule toy_pool_ready)
  obtain hw where hw: "cvAggregateHeaderV2CanonicalBytes (toy_header (replicate 32 7) (replicate 32 7)) = Some hw"
    using toy_header_wire [of "replicate 32 7" "replicate 32 7"] by auto
  obtain i where i: "cvAggregateInstanceDigestV2 (replicate 32 1) 2 (replicate 32 7) (replicate 32 7) = Some i" "length i = 32"
    using toy_instance_digest [of "replicate 32 7" "replicate 32 7"] by auto
  obtain cw where cw: "cvCoinOutputV2CanonicalBytes (toy_output [7]) = Some cw" "length cw \<le> 3000"
    by (auto simp: cvCoinOutputV2CanonicalBytes_def toy_output_def coin_value_def hashBytes_def
      cvMaxComponentSignatureBytes_def cvMaxLeafWireBytes_def dom_defs)
  obtain w where w: "cvValidationRequestV2CanonicalBytes (toy_request pool) toy_params = Some w"
    using hw pool(2) cw(1) i
    by (simp add: cvValidationRequestV2CanonicalBytes_def toy_request_def toy_params_def cvPoolCertificateV2CanonicalBytes_def
        cvMaxComponentSignatureBytes_def cvAPDBLockV2CanonicalBytes_def toy_arc_def toy_header_def selection_wire_def)
  have "wf_request toy_params (toy_request pool)"
    using pool(2) cw toy_pool_wf(1) [OF pool(1)] toy_pool_length [OF pool]
    by (simp add: wf_request_def toy_request_def toy_proposer cvMaxNetworkPayloadBytes_def cvMaxLeafWireBytes_def)
  then show thesis using that w request_codec.decode_encode by blast
qed

text \<open>The validator 2 is given a request it waits for, accepts it and signs; the statement is the only one that can be
  signed.\<close>

lemma toy_votes:
  obtains pool w s st sent jobs where "cvDecodeValidationRequestV2 w toy_params = Some (toy_request pool)"
    "cvValidationRequestV2CanonicalBytes (toy_request pool) toy_params = Some w"
    "cvValidationStatementV2 [2] (toy_header (replicate 32 7) (replicate 32 7)) = Some s"
    "validation_run (only cvValidationCertificateV2Domain (domainDigest cvValidationCertificateV2Domain s)) (toy_net 2) apdb control coin
       [2] st sent jobs [(toy_request pool, s)]"
proof -
  obtain pool w where w: "cvValidationRequestV2CanonicalBytes (toy_request pool) toy_params = Some w"
    "cvDecodeValidationRequestV2 w toy_params = Some (toy_request pool)" by (rule toy_request_wire)
  obtain s where s: "cvValidationStatementV2 [2] (toy_header (replicate 32 7) (replicate 32 7)) = Some s" "length s = 32"
    using toy_statement [of "replicate 32 7" "replicate 32 7"] by auto
  let ?B = "only cvValidationCertificateV2Domain (domainDigest cvValidationCertificateV2Domain s)"
  let ?run = "validation_run ?B (toy_net 2) apdb control coin [2]"
  let ?st1 = "validation_empty\<lparr> validationRecords := [s \<mapsto> new_record w] \<rparr>"
  let ?st2 = "?st1\<lparr> validationOneShot := [2 \<mapsto> s], validationInFlight := {s} \<rparr>"
  have "?run ?st1 ([] @ []) ([] @ []) ([] @ [])"
    by (rule validation_run_step [OF validation_run_empty, where ev = "ResultStart (toy_request pool)" and held = "[2]"])
       (use w s in \<open>simp_all add: validation_event_ok_def validation_step_def AwaitValidationResult_start_def make_record_def
          validation_empty_def\<close>)
  then have run1: "?run ?st1 [] [] []" by simp
  have "?run ?st2 ([] @ []) ([] @ [(toy_request pool, s)]) ([] @ [])"
    by (rule validation_run_step [OF run1, where ev = "RequestMessage 2 w" and held = "[2]"])
       (use w s in \<open>simp_all add: validation_event_ok_def validation_step_def handleValidationRequest_def request_checked_def
          validation_empty_def new_record_def toy_proposer bytes_at_def cvReserveValidationStatementV2_def\<close>)
  then have run2: "?run ?st2 [] [(toy_request pool, s)] []" by simp
  obtain sig where sig: "cvSignValidationV2 ?B 2 (toy_header (replicate 32 7) (replicate 32 7)) [2] toy_keys = Some sig"
    using toy_sample s by (auto simp: cvSignValidationV2_def cvSignValidatorV2_def toy_keys_def only_fields dom_defs zero_gf5_def)
  then have made: "signature_made ?B (toy_net 2) [2] True (toy_request pool) s ?st2 = Some sig"
    by (simp add: signature_made_def toy_proposer)
  obtain st3 msgs where v: "validateAndSignAggregate ?B (toy_net 2) [2] True (toy_request pool) s ?st2 = (st3, msgs)" by fastforce
  have "?run st3 ([] @ msgs) ([(toy_request pool, s)] @ []) ([] @ [(toy_request pool, s)])"
    by (rule validation_run_step [OF run2, where ev = "Validated True (toy_request pool) s" and held = "[2]"])
       (use made v in \<open>simp_all add: validation_event_ok_def validation_step_def\<close>)
  then show thesis using that [OF w(2,1) s(1), of st3 msgs] by simp
qed

theorem one_validation_per_proposer_witness:
  "\<exists>B st sent jobs pool s. validation_run B (toy_net 2) (duo cvV2RoleAPDB) (duo cvV2RoleControl) (duo cvV2RoleCoin) [2] st sent jobs
      [(toy_request pool, s)] \<and> (\<forall>s'. sends_validation_share sent s' \<longrightarrow> s' = s)"
proof -
  obtain pool w s st sent jobs where run: "validation_run (only cvValidationCertificateV2Domain (domainDigest cvValidationCertificateV2Domain s))
      (toy_net 2) (duo cvV2RoleAPDB) (duo cvV2RoleControl) (duo cvV2RoleCoin) [2] st sent jobs [(toy_request pool, s)]" by (rule toy_votes)
  have "list_all int64 [2]" by (simp add: toy_proposer)
  then have one: "\<forall>s'. sends_validation_share sent s' \<longrightarrow> s' = s" using one_validation_per_proposer [OF run] by simp
  show ?thesis by (intro exI conjI, rule run, rule one)
qed

lemma toy_certificate_only:
  assumes "cvValidationStatementV2 [2] (toy_header (replicate 32 7) (replicate 32 7)) = Some s"
  shows "cvVerifyValidationCertificateV2 (only cvValidationCertificateV2Domain (domainDigest cvValidationCertificateV2Domain s)) toy_certificate
    (toy_header (replicate 32 7) (replicate 32 7)) [2] 1 toy_keys"
proof -
  let ?B = "only cvValidationCertificateV2Domain (domainDigest cvValidationCertificateV2Domain s)"
  have "\<exists>w. cvValidationCertificateV2CanonicalBytes ?B toy_certificate [2] = Some w"
    using toy_certificate_wire by (simp add: cvValidationCertificateV2CanonicalBytes_def only_fields cvValidG1_def)
  moreover have "verify_loop ?B toy_keys [1] 0 [2] 0 (bls_SmulG2 ?B (bls_genG2 ?B) 0) = Some (1, F1)"
    by (simp add: bitmap_get_def vm_public_def toy_keys_def only_fields) (simp add: toy_bls_def zero_gf5_def gf5_ops)
  ultimately show ?thesis using toy_sample assms
    by (auto simp: cvVerifyValidationCertificateV2_def toy_certificate_def only_fields pairing_ok_def)
       (simp_all add: toy_bls_def toy_codec gf5_ops)
qed

text \<open>Member 3 waits for the result and is delivered the certificate.\<close>

lemma toy_holder:
  assumes w: "cvDecodeValidationRequestV2 w toy_params = Some (toy_request pool)"
    "cvValidationRequestV2CanonicalBytes (toy_request pool) toy_params = Some w"
    and s: "cvValidationStatementV2 [2] (toy_header (replicate 32 7) (replicate 32 7)) = Some s"
  obtains st where "validation_run (only cvValidationCertificateV2Domain (domainDigest cvValidationCertificateV2Domain s)) (toy_net 3)
      apdb control coin [2] st [] [] []"
    "certifiedValidation st 2 = Some \<lparr> cd_request = toy_request pool, cd_certificate = toy_certificate \<rparr>"
proof -
  let ?B = "only cvValidationCertificateV2Domain (domainDigest cvValidationCertificateV2Domain s)"
  let ?run = "validation_run ?B (toy_net 3) apdb control coin [2]"
  let ?st1 = "validation_empty\<lparr> validationRecords := [s \<mapsto> new_record w] \<rparr>"
  let ?result = "\<lparr> vt_Statement = s, vt_Certificate = toy_certificate \<rparr>"
  have len: "length s = 32" using s toy_statement [of "replicate 32 7" "replicate 32 7"] by simp
  obtain vw where vw: "cvValidationCertificateV2CanonicalBytes toy_bls toy_certificate [2] = Some vw" using toy_certificate_wire by blast
  have lv: "length vw \<le> 1000"
    using vw by (auto simp: cvValidationCertificateV2CanonicalBytes_def run_simps toy_certificate_def dom_defs toy_codec split: prod.splits)
  have vo: "cvValidationCertificateV2CanonicalBytes ?B toy_certificate [2] = Some vw"
    using vw by (simp add: cvValidationCertificateV2CanonicalBytes_def only_fields cvValidG1_def)
  obtain body where body: "cvValidationResultV2CanonicalBytes ?B ?result [2] = Some body"
    using vo len by (simp add: cvValidationResultV2CanonicalBytes_def)
  have "wf_result ?B [2] ?result" using vo lv by (simp add: wf_result_def toy_certificate_def cvMaxComponentSignatureBytes_def)
  then have dec: "cvDecodeValidationResultV2 ?B body [2] = Some ?result" using body result_codec.decode_encode by blast
  have "?run ?st1 ([] @ []) ([] @ []) ([] @ [])"
    by (rule validation_run_step [OF validation_run_empty, where ev = "ResultStart (toy_request pool)" and held = "[2]"])
       (use w s in \<open>simp_all add: validation_event_ok_def validation_step_def AwaitValidationResult_start_def make_record_def
          validation_empty_def\<close>)
  then have run1: "?run ?st1 [] [] []" by simp
  have ne: "w \<noteq> []" using w(1) by (auto simp: cvDecodeValidationRequestV2_def cvReadBytes_def cvReadUint32_def)
  have "vp_validatorThreshold toy_params = 1" by (simp add: toy_params_def)
  then have checked: "result_checked ?B (toy_net 3) [2] 2 body ?st1 = Some (s, new_record w, toy_request pool, toy_certificate)"
    using w s dec ne toy_certificate_only [OF s] by (simp add: result_checked_def new_record_def toy_proposer)
  let ?st2 = "record_result s (new_record w) body (toy_request pool) toy_certificate ?st1"
  have "?run ?st2 ([] @ []) ([] @ []) ([] @ [])"
    by (rule validation_run_step [OF run1, where ev = "ResultMessage 2 body" and held = "[2]"])
       (use checked in \<open>simp_all add: validation_event_ok_def validation_step_def handleValidationResult_def\<close>)
  then show thesis using that [of ?st2] by (simp add: record_result_def Let_def toy_proposer)
qed


end
