(* ===== verification/Lanes.thy ===== *)
theory Lanes
  imports Leaf_Core
begin

text \<open>
  The receiver lanes of a leaf: \<^verbatim>\<open>src/core/cv_sapvss_lanes_v2.go\<close>, the wire form of a lane offer
  (\<^verbatim>\<open>src/core/cv_sapvss_ack_v2.go\<close>), the batched ownership check of \<^verbatim>\<open>src/core/cv_sapvss_leaf_v2.go\<close> and the group
  helpers of \<^verbatim>\<open>src/core/cv_sapvss.go\<close> and \<^verbatim>\<open>src/core/cv_sapvss_proof.go\<close> they use.  A dealer encrypts the digits of a
  scalar share and a blinding point under the receiver's key and proves that the ciphertexts open the public
  evaluation; the receiver checks the proof, decrypts, and finds the digits with a baby-step giant-step search.
  The main results: the search finds exactly the exponents within its bound; the batched assembly of an offer gives
  the proof of the step by step prover; a batch accepts whenever each of its offers does; what was encrypted is
  decrypted; and two accepted proofs with different challenges give the digits, coins and blinding behind an offer.
\<close>

section \<open>Group and field helpers\<close>

record 'g cvElGamalCiphertext =
  eg_r :: 'g
  eg_c :: 'g

text \<open>\<open>powers_loop base p n\<close> is the loop \<^verbatim>\<open>powers[i] = powers[i-1] * base\<close> from \<open>p\<close> on.\<close>

fun powers_loop :: "'f::field \<Rightarrow> 'f \<Rightarrow> nat \<Rightarrow> 'f list" where
  "powers_loop base p 0 = []"
| "powers_loop base p (Suc n) = p # powers_loop base (p * base) n"

definition cvFrPowers :: "'f::field \<Rightarrow> nat \<Rightarrow> 'f list" where
  "cvFrPowers base cnt = powers_loop base 1 cnt"

definition cvEvaluationPowers :: "int \<Rightarrow> int \<Rightarrow> 'f::field list list" where
  "cvEvaluationPowers degree receivers =
     (if degree \<le> 0 \<or> receivers \<le> 0 then []
      else map (\<lambda>receiver. powers_loop (of_int receiver) 1 (nat degree)) [1..receivers])"

definition cvEvaluateCommitmentsWithPowers :: "('g, 'h, 'f::field) bls \<Rightarrow> 'g list \<Rightarrow> 'f list \<Rightarrow> 'g" where
  "cvEvaluateCommitmentsWithPowers B commitments powers =
     (if length commitments \<noteq> length powers \<or> commitments = [] then g1_zero B
      else case (if length commitments \<ge> 32 then g1_multiexp B commitments powers else None) of
        Some result \<Rightarrow> result
      | None \<Rightarrow> foldl (\<lambda>result (point, power). g1_add B result (g1_smul B point power))
          (g1_smul B (bls_genG1 B) 0) (zip commitments powers))"

definition cvEvaluateCommitments :: "('g, 'h, 'f::field) bls \<Rightarrow> 'g list \<Rightarrow> int \<Rightarrow> 'g" where
  "cvEvaluateCommitments B commitments receiverIndex =
     (if commitments = [] \<or> receiverIndex \<le> 0 then g1_zero B
      else cvEvaluateCommitmentsWithPowers B commitments
        (cvEvaluationPowers (int (length commitments)) receiverIndex ! nat (receiverIndex - 1)))"

definition cvReceiverPublicKey :: "('g, 'h, 'f::field) bls \<Rightarrow> 'f \<Rightarrow> 'g option" where
  "cvReceiverPublicKey B secret = do {
     require (secret \<noteq> 0);
     Some (g1_smul B (bls_genG1 B) secret)
   }"

definition cvPointJointTimes :: "('g, 'h, 'f) bls \<Rightarrow> 'g \<Rightarrow> 'f \<Rightarrow> 'g \<Rightarrow> 'f \<Rightarrow> 'g" where
  "cvPointJointTimes B p1 firstScalar p2 secondScalar = bls_JointTimes B p1 p2 firstScalar secondScalar"

definition cvValidCiphertext :: "('g, 'h, 'f) bls \<Rightarrow> 'g cvElGamalCiphertext \<Rightarrow> bool" where
  "cvValidCiphertext B ciphertext \<longleftrightarrow> cvValidG1 B (eg_r ciphertext) True \<and> cvValidG1 B (eg_c ciphertext) True"

definition cvWriteCiphertext :: "('g, 'h, 'f) bls \<Rightarrow> 'g cvElGamalCiphertext \<Rightarrow> bytes" where
  "cvWriteCiphertext B ciphertext = cvWritePoint B (eg_r ciphertext) @ cvWritePoint B (eg_c ciphertext)"

definition cvReadCiphertext :: "('g, 'h, 'f) bls \<Rightarrow> cvWireReader \<Rightarrow> ('g cvElGamalCiphertext \<times> cvWireReader) option" where
  "cvReadCiphertext B r = do {
     (fst_point, r) \<leftarrow> cvReadPoint B r;
     (snd_point, r) \<leftarrow> cvReadPoint B r;
     Some (\<lparr> eg_r = fst_point, eg_c = snd_point \<rparr>, r)
   }"

definition cvPointKey :: "('g, 'h, 'f) bls \<Rightarrow> 'g \<Rightarrow> bytes" where
  "cvPointKey B point = bls_Bytes B point"

section \<open>Digits\<close>

text \<open>\<^verbatim>\<open>And\<close> with the mask \<open>base - 1\<close> keeps the low \<^verbatim>\<open>chunkBits\<close> bits; \<^verbatim>\<open>Rsh\<close> drops them.\<close>

fun digits_loop :: "nat \<Rightarrow> nat \<Rightarrow> nat \<Rightarrow> nat list \<times> nat" where
  "digits_loop chunkBits 0 remaining = ([], remaining)"
| "digits_loop chunkBits (Suc n) remaining =
     (let (digits, left) = digits_loop chunkBits n (drop_bit chunkBits remaining)
      in (take_bit chunkBits remaining # digits, left))"

definition cvScalarDigits :: "('g, 'h, 'f) bls \<Rightarrow> 'f \<Rightarrow> cvChunkProfile \<Rightarrow> nat list option" where
  "cvScalarDigits B scalar profile = do {
     (base, _, chunks) \<leftarrow> cvProfile profile;
     let (digits, remaining) = digits_loop (cp_chunkBits profile) (nat chunks) (fr_BigInt B scalar);
     require (remaining = 0);
     Some digits
   }"

text \<open>The table of the points of all digits, made once per chunk width; the entry of digit 0 is the zero value of
  the point type.  The outer option is the error, the inner one the nil table of wide chunks.\<close>

fun add_loop :: "('g, 'h, 'f) bls \<Rightarrow> 'g \<Rightarrow> nat \<Rightarrow> 'g list" where
  "add_loop B p 0 = []"
| "add_loop B p (Suc n) = p # add_loop B (g1_add B p (bls_genG1 B)) n"

definition cvDigitPointTable :: "('g, 'h, 'f) bls \<Rightarrow> cvChunkProfile \<Rightarrow> 'g list option option" where
  "cvDigitPointTable B profile = do {
     (base, _, _) \<leftarrow> cvProfile profile;
     Some (if cp_chunkBits profile > 12 then None
           else Some (g1_zero B # add_loop B (bls_genG1 B) (nat base - 1)))
   }"

definition digit_point :: "('g, 'h, 'f::field) bls \<Rightarrow> 'g list option \<Rightarrow> nat \<Rightarrow> 'g" where
  "digit_point B digitTable digit =
     (case digitTable of Some table \<Rightarrow> table ! digit | None \<Rightarrow> g1_smul B (bls_genG1 B) (of_nat digit))"

definition cvWeightedScalarV2 :: "'f::field list \<Rightarrow> nat \<Rightarrow> 'f option" where
  "cvWeightedScalarV2 values chunkBits = do {
     require (\<not> (values = [] \<or> chunkBits = 0 \<or> chunkBits > cvMaxChunkBits));
     let powers = cvFrPowers (of_nat (2 ^ chunkBits)) (length values);
     Some (foldl (\<lambda>result (v, p). result + v * p) 0 (zip values powers))
   }"

definition digits_value :: "nat \<Rightarrow> nat list \<Rightarrow> nat" where
  "digits_value chunkBits digits =
     foldl (\<lambda>val (i, digit). val + push_bit (i * chunkBits) digit) 0 (zip [0..<length digits] digits)"

definition cvDigitsToScalarV2 :: "('g, 'h, 'f::field) bls \<Rightarrow> nat list \<Rightarrow> nat \<Rightarrow> 'f option" where
  "cvDigitsToScalarV2 B digits chunkBits = do {
     require (\<not> (digits = [] \<or> chunkBits = 0 \<or> chunkBits > cvMaxChunkBits));
     require (list_all (\<lambda>digit. \<not> digit \<ge> 2 ^ chunkBits) digits);
     require (\<not> digits_value chunkBits digits \<ge> fr_Modulus B);
     Some (of_nat (digits_value chunkBits digits))
   }"

section \<open>The bounded discrete logarithm\<close>

record 'g cvBoundedDLogSolverV2 =
  dl_bound :: nat
  dl_width :: nat
  dl_babies :: "bytes \<rightharpoonup> nat"
  dl_negativeGiant :: 'g

text \<open>The loop that raises the width until its square covers the range.  For the ranges the profile admits, the
  ceiling of the floating-point square root is the least such width.\<close>

function width_loop :: "nat \<Rightarrow> nat \<Rightarrow> nat" where
  "width_loop rangeSize width = (if width * width < rangeSize then width_loop rangeSize (width + 1) else width)"
  by auto
termination
proof (relation "measure (\<lambda>(rangeSize, width). rangeSize - width)")
  fix rangeSize width :: nat
  assume "width * width < rangeSize"
  moreover have "width \<le> width * width" by simp
  ultimately have "width < rangeSize" by linarith
  then show "((rangeSize, width + 1), (rangeSize, width)) \<in> measure (\<lambda>(rangeSize, width). rangeSize - width)" by simp
qed simp

declare width_loop.simps [simp del]

definition ceil_sqrt :: "nat \<Rightarrow> nat" where
  "ceil_sqrt n = width_loop n 0"

fun baby_loop :: "('g, 'h, 'f) bls \<Rightarrow> 'g \<Rightarrow> nat \<Rightarrow> nat \<Rightarrow> 'g \<Rightarrow> (bytes \<rightharpoonup> nat) \<Rightarrow> bytes \<rightharpoonup> nat" where
  "baby_loop B base 0 j current babies = babies"
| "baby_loop B base (Suc n) j current babies =
     baby_loop B base n (j + 1) (g1_add B current base) (babies(cvPointKey B current \<mapsto> j))"

definition cvNewBoundedDLogSolverForBaseV2 ::
  "('g, 'h, 'f::field) bls \<Rightarrow> 'g \<Rightarrow> nat \<Rightarrow> 'g cvBoundedDLogSolverV2" where
  "cvNewBoundedDLogSolverForBaseV2 B base bound =
     (let rangeSize = bound + 1; width = width_loop rangeSize (ceil_sqrt rangeSize)
      in \<lparr> dl_bound = bound, dl_width = width,
           dl_babies = baby_loop B base width 0 (g1_smul B base 0) Map.empty,
           dl_negativeGiant = bls_Neg B (g1_smul B base (of_nat width)) \<rparr>)"

fun giant_loop :: "('g, 'h, 'f) bls \<Rightarrow> 'g cvBoundedDLogSolverV2 \<Rightarrow> nat \<Rightarrow> nat \<Rightarrow> 'g \<Rightarrow> nat option" where
  "giant_loop B solver 0 i candidate = None"
| "giant_loop B solver (Suc n) i candidate =
     (let next_step = giant_loop B solver n (i + 1) (g1_add B candidate (dl_negativeGiant solver)) in
      case dl_babies solver (cvPointKey B candidate) of
        Some j \<Rightarrow> (if i * dl_width solver + j \<le> dl_bound solver then Some (i * dl_width solver + j) else next_step)
      | None \<Rightarrow> next_step)"

definition solve :: "('g, 'h, 'f) bls \<Rightarrow> 'g cvBoundedDLogSolverV2 \<Rightarrow> 'g \<Rightarrow> nat option" where
  "solve B solver target = do {
     require (cvValidG1 B target True);
     giant_loop B solver (dl_width solver + 1) 0 target
   }"

section \<open>Lane offers\<close>

record ('g, 'f) cvOwnershipProofV2 =
  op_ScalarCoinCommitments :: "'g list"
  op_ScalarCipherCommitments :: "'g list"
  op_BlindingCoinCommitment :: 'g
  op_BlindingCipherCommitment :: 'g
  op_EvaluationCommitment :: 'g
  op_ScalarCoinResponses :: "'f list"
  op_ScalarDigitResponses :: "'f list"
  op_BlindingCoinResponse :: 'f
  op_BlindingShareResponse :: 'f

record ('g, 'f) cvReceiverLaneOfferV2 =
  lo_ReceiverID :: int
  lo_ReceiverIndex :: int
  lo_Evaluation :: 'g
  lo_ScalarChunks :: "'g cvElGamalCiphertext list"
  lo_Blinding :: "'g cvElGamalCiphertext"
  lo_Ownership :: "('g, 'f) cvOwnershipProofV2"

record 'f cvDealerReceiverWitnessV2 =
  dw_ScalarDigits :: "nat list"
  dw_ScalarCoins :: "'f list"
  dw_Blinding :: 'f
  dw_BlindingCoin :: 'f

record 'f cvReceiverLaneRandomnessV2 =
  rd_scalarCoins :: "'f list"
  rd_blindingCoin :: 'f
  rd_coinNonces :: "'f list"
  rd_digitNonces :: "'f list"
  rd_blindingCoinNonce :: 'f
  rd_blindingShareNonce :: 'f

definition cvOwnershipProofChallengeV2 :: string where
  [dom_defs]: "cvOwnershipProofChallengeV2 = ''ARL-CV-sAPVSS/v2-scalar-group/ownership-proof/challenge''"

definition cvLaneOfferWireDomainV2 :: string where
  [dom_defs]: "cvLaneOfferWireDomainV2 = ''ARL-CV-sAPVSS/v2-scalar-group/lane-offer''"

definition cvOwnershipProofWireDomainV2 :: string where
  [dom_defs]: "cvOwnershipProofWireDomainV2 = ''ARL-CV-sAPVSS/v2-scalar-group/ownership-proof''"

definition cvLeafOwnershipBatchV2 :: string where
  [dom_defs]: "cvLeafOwnershipBatchV2 = ''ARL-CV-sAPVSS/v2-scalar-group/leaf-ownership-batch''"

definition cvValidateReceiverBindingV2 :: "('g, 'h, 'f) bls \<Rightarrow> cvLeafContextV2 \<Rightarrow> int \<Rightarrow> int \<Rightarrow> 'g \<Rightarrow> bool" where
  "cvValidateReceiverBindingV2 B ctx receiverID receiverIndex receiverPublicKey \<longleftrightarrow>
     \<not> (\<not> cvValidateLeafContextV2 ctx \<or> receiverIndex \<le> 0 \<or> receiverIndex > int (length (lc_NewRoster ctx)) \<or>
        lc_NewRoster ctx ! nat (receiverIndex - 1) \<noteq> receiverID \<or> \<not> cvValidG1 B receiverPublicKey False)"

definition cvValidateLaneOfferShapeV2 ::
  "('g, 'h, 'f) bls \<Rightarrow> cvLeafContextV2 \<Rightarrow> ('g, 'f) cvReceiverLaneOfferV2 \<Rightarrow> 'g \<Rightarrow> bool" where
  "cvValidateLaneOfferShapeV2 B ctx offer receiverPublicKey \<longleftrightarrow> (do {
     require (\<not> (\<not> cvValidateReceiverBindingV2 B ctx (lo_ReceiverID offer) (lo_ReceiverIndex offer) receiverPublicKey \<or>
       \<not> cvValidG1 B (lo_Evaluation offer) True));
     chunks \<leftarrow> cvChunkCount (lc_Profile ctx);
     require (\<not> (int (length (lo_ScalarChunks offer)) \<noteq> chunks \<or> \<not> cvValidCiphertext B (lo_Blinding offer)));
     require (list_all (cvValidCiphertext B) (lo_ScalarChunks offer))
   }) = Some ()"

definition cvValidateLaneOfferShapeAfterPointDecodingV2 ::
  "cvLeafContextV2 \<Rightarrow> ('g, 'f) cvReceiverLaneOfferV2 \<Rightarrow> bool" where
  "cvValidateLaneOfferShapeAfterPointDecodingV2 ctx offer \<longleftrightarrow> (do {
     require (\<not> (\<not> cvValidateLeafContextV2 ctx \<or> lo_ReceiverIndex offer \<le> 0 \<or>
       lo_ReceiverIndex offer > int (length (lc_NewRoster ctx)) \<or>
       lc_NewRoster ctx ! nat (lo_ReceiverIndex offer - 1) \<noteq> lo_ReceiverID offer));
     chunks \<leftarrow> cvChunkCount (lc_Profile ctx);
     require (int (length (lo_ScalarChunks offer)) = chunks)
   }) = Some ()"

definition cvOwnershipChallengeScalarModeV2 ::
  "('g, 'h, 'f) bls \<Rightarrow> cvLeafContextV2 \<Rightarrow> int \<Rightarrow> ('g, 'f) cvReceiverLaneOfferV2 \<Rightarrow> 'g \<Rightarrow>
   ('g, 'f) cvOwnershipProofV2 \<Rightarrow> bool \<Rightarrow> 'f option" where
  "cvOwnershipChallengeScalarModeV2 B ctx dealerID offer receiverPublicKey oproof validateProofPoints = do {
     contextDigest \<leftarrow> cvLeafContextDigestV2 ctx;
     chunks \<leftarrow> cvWriteUint32 (int (length (lo_ScalarChunks offer)));
     coins \<leftarrow> cvWritePointVectorMode B (op_ScalarCoinCommitments oproof) validateProofPoints;
     ciphers \<leftarrow> cvWritePointVectorMode B (op_ScalarCipherCommitments oproof) validateProofPoints;
     cvHashToFr B cvOwnershipProofChallengeV2
       [dropped (cvWriteBytes contextDigest) @ cvWriteUint64 (u64 dealerID) @
        cvWriteUint64 (u64 (lo_ReceiverID offer)) @ cvWriteUint64 (u64 (lo_ReceiverIndex offer)) @
        dropped (cvWriteBytes (lc_ReceiverRegistryDigest ctx)) @ cvWritePoint B receiverPublicKey @
        cvWritePoint B (lo_Evaluation offer) @ chunks @ concat (map (cvWriteCiphertext B) (lo_ScalarChunks offer)) @
        cvWriteCiphertext B (lo_Blinding offer) @ coins @ ciphers @
        cvWritePoint B (op_BlindingCoinCommitment oproof) @ cvWritePoint B (op_BlindingCipherCommitment oproof) @
        cvWritePoint B (op_EvaluationCommitment oproof)]
   }"

definition cvOwnershipChallengeScalarAfterValidationV2 ::
  "('g, 'h, 'f) bls \<Rightarrow> cvLeafContextV2 \<Rightarrow> int \<Rightarrow> ('g, 'f) cvReceiverLaneOfferV2 \<Rightarrow> 'g \<Rightarrow>
   ('g, 'f) cvOwnershipProofV2 \<Rightarrow> 'f option" where
  "cvOwnershipChallengeScalarAfterValidationV2 B ctx dealerID offer receiverPublicKey oproof = do {
     require (\<not> dealerID < 0);
     cvOwnershipChallengeScalarModeV2 B ctx dealerID offer receiverPublicKey oproof False
   }"

section \<open>Encryption\<close>

text \<open>\<^verbatim>\<open>cvFinishOwnershipProofV2\<close> fills the four responses of a proof whose commitments are set.\<close>

definition cvFinishOwnershipProofV2 ::
  "('g, 'h, 'f::field) bls \<Rightarrow> cvLeafContextV2 \<Rightarrow> int \<Rightarrow> ('g, 'f) cvReceiverLaneOfferV2 \<Rightarrow> 'g \<Rightarrow>
   'f cvDealerReceiverWitnessV2 \<Rightarrow> ('g, 'f) cvOwnershipProofV2 \<Rightarrow> 'f list \<Rightarrow> 'f list \<Rightarrow> 'f \<Rightarrow> 'f \<Rightarrow>
   ('g, 'f) cvOwnershipProofV2 option" where
  "cvFinishOwnershipProofV2 B ctx dealerID offer receiverPublicKey wit oproof coinNonces digitNonces
       blindingCoinNonce blindingShareNonce = do {
     let chunks = length coinNonces;
     require (\<not> (length (op_ScalarCoinResponses oproof) \<noteq> chunks \<or> length (op_ScalarDigitResponses oproof) \<noteq> chunks \<or>
       length digitNonces \<noteq> chunks));
     challenge \<leftarrow> cvOwnershipChallengeScalarAfterValidationV2 B ctx dealerID offer receiverPublicKey oproof;
     Some (oproof\<lparr>
       op_ScalarCoinResponses := map (\<lambda>i. challenge * dw_ScalarCoins wit ! i + coinNonces ! i) [0..<chunks],
       op_ScalarDigitResponses := map (\<lambda>i. challenge * of_nat (dw_ScalarDigits wit ! i) + digitNonces ! i) [0..<chunks],
       op_BlindingCoinResponse := challenge * dw_BlindingCoin wit + blindingCoinNonce,
       op_BlindingShareResponse := challenge * dw_Blinding wit + blindingShareNonce \<rparr>)
   }"

text \<open>\<open>random k\<close> is the result of the \<open>k\<close>-th call of \<^verbatim>\<open>SetRandom\<close>.\<close>

fun draw_scalars :: "(nat \<Rightarrow> 'f option) \<Rightarrow> nat \<Rightarrow> nat \<Rightarrow> 'f list option" where
  "draw_scalars random k 0 = Some []"
| "draw_scalars random k (Suc n) = do {
     x \<leftarrow> random k;
     rest \<leftarrow> draw_scalars random (k + 1) n;
     Some (x # rest)
   }"

definition cvGenerateReceiverLaneRandomnessV2 ::
  "(nat \<Rightarrow> 'f option) \<Rightarrow> int \<Rightarrow> 'f cvReceiverLaneRandomnessV2 option" where
  "cvGenerateReceiverLaneRandomnessV2 random chunks = do {
     require (\<not> chunks \<le> 0);
     let n = nat chunks;
     scalarCoins \<leftarrow> draw_scalars random 0 n;
     blindingCoin \<leftarrow> random n;
     nonces \<leftarrow> draw_nonces random (n + 1) n;
     blindingCoinNonce \<leftarrow> random (3 * n + 1);
     blindingShareNonce \<leftarrow> random (3 * n + 2);
     Some \<lparr> rd_scalarCoins = scalarCoins, rd_blindingCoin = blindingCoin, rd_coinNonces = map fst nonces,
       rd_digitNonces = map snd nonces, rd_blindingCoinNonce = blindingCoinNonce,
       rd_blindingShareNonce = blindingShareNonce \<rparr>
   }"

definition cvComputeReceiverLaneOfferV2 ::
  "('g, 'h, 'f::field) bls \<Rightarrow> cvLeafContextV2 \<Rightarrow> int \<Rightarrow> int \<Rightarrow> int \<Rightarrow> 'g \<Rightarrow> 'f \<Rightarrow> 'f \<Rightarrow> 'f cvReceiverLaneRandomnessV2 \<Rightarrow>
   (('g, 'f) cvReceiverLaneOfferV2 \<times> 'f cvDealerReceiverWitnessV2) option" where
  "cvComputeReceiverLaneOfferV2 B ctx dealerID receiverID receiverIndex receiverPublicKey scalar blinding randomness = do {
     require (\<not> (\<not> cvValidateReceiverBindingV2 B ctx receiverID receiverIndex receiverPublicKey \<or> dealerID < 0));
     scalarDigits \<leftarrow> cvScalarDigits B scalar (lc_Profile ctx);
     let chunks = length scalarDigits;
     require (\<not> (length (rd_scalarCoins randomness) \<noteq> chunks \<or> length (rd_coinNonces randomness) \<noteq> chunks \<or>
       length (rd_digitNonces randomness) \<noteq> chunks));
     h \<leftarrow> cvPedersenBase B;
     digitTable \<leftarrow> cvDigitPointTable B (lc_Profile ctx);
     weightedDigitNonce \<leftarrow> cvWeightedScalarV2 (rd_digitNonces randomness) (cp_chunkBits (lc_Profile ctx));
     let baseScalars = rd_scalarCoins randomness @ [rd_blindingCoin randomness] @ rd_coinNonces randomness @
       rd_digitNonces randomness @ [rd_blindingCoinNonce randomness, weightedDigitNonce, scalar];
     let keyScalars = rd_scalarCoins randomness @ [rd_blindingCoin randomness] @ rd_coinNonces randomness @
       [rd_blindingCoinNonce randomness];
     let basePoints = bls_BatchTimes B (bls_genG1 B) baseScalars;
     let keyPoints = bls_BatchTimes B receiverPublicKey keyScalars;
     let wit = \<lparr> dw_ScalarDigits = scalarDigits, dw_ScalarCoins = rd_scalarCoins randomness, dw_Blinding = blinding,
       dw_BlindingCoin = rd_blindingCoin randomness \<rparr>;
     let hBlinding = cvPointTimes B h blinding;
     let empty_proof = \<lparr> op_ScalarCoinCommitments = replicate chunks (g1_zero B),
       op_ScalarCipherCommitments = replicate chunks (g1_zero B), op_BlindingCoinCommitment = g1_zero B,
       op_BlindingCipherCommitment = g1_zero B, op_EvaluationCommitment = g1_zero B,
       op_ScalarCoinResponses = replicate chunks 0, op_ScalarDigitResponses = replicate chunks 0,
       op_BlindingCoinResponse = 0, op_BlindingShareResponse = 0 \<rparr>;
     let offer = \<lparr> lo_ReceiverID = receiverID, lo_ReceiverIndex = receiverIndex,
       lo_Evaluation = g1_add B (basePoints ! (3 * chunks + 3)) hBlinding,
       lo_ScalarChunks = map (\<lambda>chunk. \<lparr> eg_r = basePoints ! chunk,
         eg_c = g1_add B (keyPoints ! chunk) (digit_point B digitTable (scalarDigits ! chunk)) \<rparr>) [0..<chunks],
       lo_Blinding = \<lparr> eg_r = basePoints ! chunks, eg_c = g1_add B (keyPoints ! chunks) hBlinding \<rparr>,
       lo_Ownership = empty_proof \<rparr>;
     let hShare = cvPointTimes B h (rd_blindingShareNonce randomness);
     let oproof = empty_proof\<lparr>
       op_ScalarCoinCommitments := map (\<lambda>chunk. basePoints ! (chunks + 1 + chunk)) [0..<chunks],
       op_ScalarCipherCommitments :=
         map (\<lambda>chunk. g1_add B (basePoints ! (2 * chunks + 1 + chunk)) (keyPoints ! (chunks + 1 + chunk))) [0..<chunks],
       op_BlindingCoinCommitment := basePoints ! (3 * chunks + 1),
       op_BlindingCipherCommitment := g1_add B (keyPoints ! (2 * chunks + 1)) hShare,
       op_EvaluationCommitment := g1_add B (basePoints ! (3 * chunks + 2)) hShare \<rparr>;
     oproof \<leftarrow> cvFinishOwnershipProofV2 B ctx dealerID offer receiverPublicKey wit oproof
       (rd_coinNonces randomness) (rd_digitNonces randomness) (rd_blindingCoinNonce randomness)
       (rd_blindingShareNonce randomness);
     Some (offer\<lparr> lo_Ownership := oproof \<rparr>, wit)
   }"

definition cvEncryptReceiverLanesV2 ::
  "('g, 'h, 'f::field) bls \<Rightarrow> (nat \<Rightarrow> 'f option) \<Rightarrow> cvLeafContextV2 \<Rightarrow> int \<Rightarrow> int \<Rightarrow> int \<Rightarrow> 'g \<Rightarrow> 'f \<Rightarrow> 'f \<Rightarrow>
   (('g, 'f) cvReceiverLaneOfferV2 \<times> 'f cvDealerReceiverWitnessV2) option" where
  "cvEncryptReceiverLanesV2 B random ctx dealerID receiverID receiverIndex receiverPublicKey scalar blinding = do {
     require (\<not> (\<not> cvValidateReceiverBindingV2 B ctx receiverID receiverIndex receiverPublicKey \<or> dealerID < 0));
     chunks \<leftarrow> cvChunkCount (lc_Profile ctx);
     randomness \<leftarrow> cvGenerateReceiverLaneRandomnessV2 random chunks;
     cvComputeReceiverLaneOfferV2 B ctx dealerID receiverID receiverIndex receiverPublicKey scalar blinding randomness
   }"

definition cvProveOwnershipModeV2 ::
  "('g, 'h, 'f::field) bls \<Rightarrow> (nat \<Rightarrow> 'f option) \<Rightarrow> cvLeafContextV2 \<Rightarrow> int \<Rightarrow> ('g, 'f) cvReceiverLaneOfferV2 \<Rightarrow> 'g \<Rightarrow>
   'f cvDealerReceiverWitnessV2 \<Rightarrow> bool \<Rightarrow> ('g, 'f) cvOwnershipProofV2 option" where
  "cvProveOwnershipModeV2 B random ctx dealerID offer receiverPublicKey wit validateLane = do {
     require (if validateLane then cvValidateLaneOfferShapeV2 B ctx offer receiverPublicKey
              else cvValidateLaneOfferShapeAfterPointDecodingV2 ctx offer);
     chunks \<leftarrow> cvChunkCount (lc_Profile ctx);
     h \<leftarrow> cvPedersenBase B;
     require (\<not> (int (length (dw_ScalarDigits wit)) \<noteq> chunks \<or> int (length (dw_ScalarCoins wit)) \<noteq> chunks));
     let n = nat chunks;
     nonces \<leftarrow> draw_nonces random 0 n;
     blindingCoinNonce \<leftarrow> random (2 * n);
     blindingShareNonce \<leftarrow> random (2 * n + 1);
     weightedDigitNonce \<leftarrow> cvWeightedScalarV2 (map snd nonces) (cp_chunkBits (lc_Profile ctx));
     cvFinishOwnershipProofV2 B ctx dealerID offer receiverPublicKey wit
       \<lparr> op_ScalarCoinCommitments = map (\<lambda>(coin, digit). cvPointTimes B (bls_genG1 B) coin) nonces,
         op_ScalarCipherCommitments = map (\<lambda>(coin, digit). cvPointBaseAndTimes B digit receiverPublicKey coin) nonces,
         op_BlindingCoinCommitment = cvPointTimes B (bls_genG1 B) blindingCoinNonce,
         op_BlindingCipherCommitment = cvPointJointTimes B receiverPublicKey blindingCoinNonce h blindingShareNonce,
         op_EvaluationCommitment = cvPointBaseAndTimes B weightedDigitNonce h blindingShareNonce,
         op_ScalarCoinResponses = replicate n 0, op_ScalarDigitResponses = replicate n 0,
         op_BlindingCoinResponse = 0, op_BlindingShareResponse = 0 \<rparr>
       (map fst nonces) (map snd nonces) blindingCoinNonce blindingShareNonce
   }"

definition cvProveOwnershipV2 where
  "cvProveOwnershipV2 B random ctx dealerID offer receiverPublicKey wit =
     cvProveOwnershipModeV2 B random ctx dealerID offer receiverPublicKey wit True"

definition cvProveOwnershipAfterEncryptionV2 where
  "cvProveOwnershipAfterEncryptionV2 B random ctx dealerID offer receiverPublicKey wit =
     cvProveOwnershipModeV2 B random ctx dealerID offer receiverPublicKey wit False"

definition cvEncryptPointAfterValidationV2 :: "('g, 'h, 'f) bls \<Rightarrow> 'g \<Rightarrow> 'g \<Rightarrow> 'f \<Rightarrow> 'g cvElGamalCiphertext" where
  "cvEncryptPointAfterValidationV2 B receiverPublicKey msg coin =
     \<lparr> eg_r = g1_smul B (bls_genG1 B) coin, eg_c = g1_add B (g1_smul B receiverPublicKey coin) msg \<rparr>"

section \<open>Verification\<close>

definition coin_equation :: "('g, 'h, 'f::field) bls \<Rightarrow> 'f \<Rightarrow> 'g \<Rightarrow> 'g \<Rightarrow> 'f \<Rightarrow> bool" where
  "coin_equation B challenge r commitment response \<longleftrightarrow>
     cvPointTimes B (bls_genG1 B) response = cvPointSum B [commitment, cvPointTimes B r challenge]"

definition cipher_equation :: "('g, 'h, 'f::field) bls \<Rightarrow> 'f \<Rightarrow> 'g \<Rightarrow> 'g \<Rightarrow> 'g \<Rightarrow> 'f \<Rightarrow> 'f \<Rightarrow> bool" where
  "cipher_equation B challenge base c commitment baseResponse response \<longleftrightarrow>
     cvPointBaseAndTimes B baseResponse base response = cvPointSum B [commitment, cvPointTimes B c challenge]"

definition blinding_equation :: "('g, 'h, 'f::field) bls \<Rightarrow> 'f \<Rightarrow> 'g \<Rightarrow> 'g \<Rightarrow> 'g \<Rightarrow> 'g \<Rightarrow> 'f \<Rightarrow> 'f \<Rightarrow> bool" where
  "blinding_equation B challenge pk h c commitment coinResponse shareResponse \<longleftrightarrow>
     cvPointJointTimes B pk coinResponse h shareResponse = cvPointSum B [commitment, cvPointTimes B c challenge]"

text \<open>The dimensions and, when asked for, the points of an ownership proof.\<close>

definition proof_dimensions :: "int \<Rightarrow> ('g, 'f) cvOwnershipProofV2 \<Rightarrow> bool" where
  "proof_dimensions chunks oproof \<longleftrightarrow>
     \<not> (int (length (op_ScalarCoinCommitments oproof)) \<noteq> chunks \<or> int (length (op_ScalarCipherCommitments oproof)) \<noteq> chunks \<or>
        int (length (op_ScalarCoinResponses oproof)) \<noteq> chunks \<or> int (length (op_ScalarDigitResponses oproof)) \<noteq> chunks)"

definition proof_points :: "('g, 'h, 'f) bls \<Rightarrow> int \<Rightarrow> ('g, 'f) cvOwnershipProofV2 \<Rightarrow> bool" where
  "proof_points B chunks oproof \<longleftrightarrow>
     list_all (\<lambda>i. cvValidG1 B (op_ScalarCoinCommitments oproof ! i) True \<and>
       cvValidG1 B (op_ScalarCipherCommitments oproof ! i) True) [0..<nat chunks] \<and>
     cvValidG1 B (op_BlindingCoinCommitment oproof) True \<and> cvValidG1 B (op_BlindingCipherCommitment oproof) True \<and>
     cvValidG1 B (op_EvaluationCommitment oproof) True"

definition cvVerifyOwnershipModeV2 ::
  "('g, 'h, 'f::field) bls \<Rightarrow> cvLeafContextV2 \<Rightarrow> int \<Rightarrow> ('g, 'f) cvReceiverLaneOfferV2 \<Rightarrow> 'g \<Rightarrow> bool \<Rightarrow> bool" where
  "cvVerifyOwnershipModeV2 B ctx dealerID offer receiverPublicKey validatePoints \<longleftrightarrow> (do {
     require (\<not> dealerID < 0);
     require (if validatePoints then cvValidateLaneOfferShapeV2 B ctx offer receiverPublicKey
              else cvValidateLaneOfferShapeAfterPointDecodingV2 ctx offer);
     chunks \<leftarrow> cvChunkCount (lc_Profile ctx);
     let oproof = lo_Ownership offer;
     require (proof_dimensions chunks oproof);
     require (validatePoints \<longrightarrow> proof_points B chunks oproof);
     challenge \<leftarrow> cvOwnershipChallengeScalarAfterValidationV2 B ctx dealerID offer receiverPublicKey oproof;
     h \<leftarrow> cvPedersenBase B;
     require (list_all (\<lambda>i.
       coin_equation B challenge (eg_r (lo_ScalarChunks offer ! i)) (op_ScalarCoinCommitments oproof ! i)
         (op_ScalarCoinResponses oproof ! i) \<and>
       cipher_equation B challenge receiverPublicKey (eg_c (lo_ScalarChunks offer ! i)) (op_ScalarCipherCommitments oproof ! i)
         (op_ScalarDigitResponses oproof ! i) (op_ScalarCoinResponses oproof ! i)) [0..<nat chunks]);
     require (coin_equation B challenge (eg_r (lo_Blinding offer)) (op_BlindingCoinCommitment oproof)
       (op_BlindingCoinResponse oproof));
     require (blinding_equation B challenge receiverPublicKey h (eg_c (lo_Blinding offer))
       (op_BlindingCipherCommitment oproof) (op_BlindingCoinResponse oproof) (op_BlindingShareResponse oproof));
     weightedResponse \<leftarrow> cvWeightedScalarV2 (op_ScalarDigitResponses oproof) (cp_chunkBits (lc_Profile ctx));
     require (cipher_equation B challenge h (lo_Evaluation offer) (op_EvaluationCommitment oproof)
       weightedResponse (op_BlindingShareResponse oproof))
   }) = Some ()"

definition cvVerifyOwnershipV2 where
  "cvVerifyOwnershipV2 B ctx dealerID offer receiverPublicKey =
     cvVerifyOwnershipModeV2 B ctx dealerID offer receiverPublicKey True"

definition cvVerifyOwnershipAfterPointDecodingV2 where
  "cvVerifyOwnershipAfterPointDecodingV2 B ctx dealerID offer receiverPublicKey =
     cvVerifyOwnershipModeV2 B ctx dealerID offer receiverPublicKey False"

section \<open>Wire form\<close>

definition cvOwnershipProofV2CanonicalBytesMode ::
  "('g, 'h, 'f) bls \<Rightarrow> ('g, 'f) cvOwnershipProofV2 \<Rightarrow> cvLeafContextV2 \<Rightarrow> bool \<Rightarrow> bytes option" where
  "cvOwnershipProofV2CanonicalBytesMode B oproof ctx validatePoints = do {
     chunks \<leftarrow> cvChunkCount (lc_Profile ctx);
     require (proof_dimensions chunks oproof \<and> \<not> (validatePoints \<and> (\<not> cvValidG1 B (op_BlindingCoinCommitment oproof) True \<or>
       \<not> cvValidG1 B (op_BlindingCipherCommitment oproof) True \<or> \<not> cvValidG1 B (op_EvaluationCommitment oproof) True)));
     coins \<leftarrow> cvWritePointVectorMode B (op_ScalarCoinCommitments oproof) validatePoints;
     ciphers \<leftarrow> cvWritePointVectorMode B (op_ScalarCipherCommitments oproof) validatePoints;
     coinResponses \<leftarrow> cvWriteScalarVector B (op_ScalarCoinResponses oproof);
     digitResponses \<leftarrow> cvWriteScalarVector B (op_ScalarDigitResponses oproof);
     Some (dropped (cvWriteBytes (str_bytes cvOwnershipProofWireDomainV2)) @ coins @ ciphers @
       cvWritePoint B (op_BlindingCoinCommitment oproof) @ cvWritePoint B (op_BlindingCipherCommitment oproof) @
       cvWritePoint B (op_EvaluationCommitment oproof) @ coinResponses @ digitResponses @
       cvWriteScalar B (op_BlindingCoinResponse oproof) @ cvWriteScalar B (op_BlindingShareResponse oproof))
   }"

definition cvReceiverLaneOfferV2CanonicalBytesAfterValidation ::
  "('g, 'h, 'f) bls \<Rightarrow> cvLeafContextV2 \<Rightarrow> int \<Rightarrow> ('g, 'f) cvReceiverLaneOfferV2 \<Rightarrow> bytes option" where
  "cvReceiverLaneOfferV2CanonicalBytesAfterValidation B ctx dealerID offer = do {
     require (\<not> (dealerID < 0 \<or> lo_ReceiverID offer < 0 \<or> lo_ReceiverIndex offer \<le> 0));
     chunks \<leftarrow> cvChunkCount (lc_Profile ctx);
     require (int (length (lo_ScalarChunks offer)) = chunks);
     contextDigest \<leftarrow> cvLeafContextDigestV2 ctx;
     proofWire \<leftarrow> cvOwnershipProofV2CanonicalBytesMode B (lo_Ownership offer) ctx False;
     index \<leftarrow> cvWriteUint32 (lo_ReceiverIndex offer);
     cnt \<leftarrow> cvWriteUint32 (int (length (lo_ScalarChunks offer)));
     Some (dropped (cvWriteBytes (str_bytes cvLaneOfferWireDomainV2)) @ dropped (cvWriteBytes contextDigest) @
       cvWriteUint64 (u64 dealerID) @ cvWriteUint64 (u64 (lo_ReceiverID offer)) @ index @
       cvWritePoint B (lo_Evaluation offer) @ cnt @ concat (map (cvWriteCiphertext B) (lo_ScalarChunks offer)) @
       cvWriteCiphertext B (lo_Blinding offer) @ dropped (cvWriteBytes proofWire))
   }"

definition cvReceiverLaneOfferV2CanonicalBytes ::
  "('g, 'h, 'f::field) bls \<Rightarrow> cvLeafContextV2 \<Rightarrow> int \<Rightarrow> ('g, 'f) cvReceiverLaneOfferV2 \<Rightarrow> 'g \<Rightarrow> bytes option" where
  "cvReceiverLaneOfferV2CanonicalBytes B ctx dealerID offer receiverPublicKey = do {
     require (\<not> (dealerID < 0 \<or> \<not> cvVerifyOwnershipV2 B ctx dealerID offer receiverPublicKey));
     cvReceiverLaneOfferV2CanonicalBytesAfterValidation B ctx dealerID offer
   }"

section \<open>Batched verification\<close>

text \<open>What the batch does for one offer before the combination: shape, dimensions, points, challenge and the part of
  the statement it contributes.\<close>

definition batch_statement ::
  "('g, 'h, 'f::field) bls \<Rightarrow> cvLeafContextV2 \<Rightarrow> int \<Rightarrow> bool \<Rightarrow> ('g, 'f) cvReceiverLaneOfferV2 \<Rightarrow> 'g \<Rightarrow> ('f \<times> bytes) option" where
  "batch_statement B ctx dealerID validatePoints offer receiverPublicKey = do {
     chunks \<leftarrow> cvChunkCount (lc_Profile ctx);
     require (if validatePoints then cvValidateLaneOfferShapeV2 B ctx offer receiverPublicKey
              else cvValidateLaneOfferShapeAfterPointDecodingV2 ctx offer);
     require (proof_dimensions chunks (lo_Ownership offer));
     require (validatePoints \<longrightarrow> proof_points B chunks (lo_Ownership offer));
     challenge \<leftarrow> cvOwnershipChallengeScalarAfterValidationV2 B ctx dealerID offer receiverPublicKey (lo_Ownership offer);
     offerWire \<leftarrow> cvReceiverLaneOfferV2CanonicalBytesAfterValidation B ctx dealerID offer;
     Some (challenge, cvWritePoint B receiverPublicKey @ dropped (cvWriteBytes offerWire))
   }"

fun batch_statements ::
  "('g, 'h, 'f::field) bls \<Rightarrow> cvLeafContextV2 \<Rightarrow> int \<Rightarrow> bool \<Rightarrow> (('g, 'f) cvReceiverLaneOfferV2 \<times> 'g) list \<Rightarrow>
   ('f list \<times> bytes) option" where
  "batch_statements B ctx dealerID validatePoints [] = Some ([], [])"
| "batch_statements B ctx dealerID validatePoints ((offer, receiverPublicKey) # rest) = do {
     (challenge, wire) \<leftarrow> batch_statement B ctx dealerID validatePoints offer receiverPublicKey;
     (challenges, wires) \<leftarrow> batch_statements B ctx dealerID validatePoints rest;
     Some (challenge # challenges, wire @ wires)
   }"

definition batch_challenge :: "('g, 'h, 'f::field) bls \<Rightarrow> bytes \<Rightarrow> 'f option" where
  "batch_challenge B statement = do {
     challenge \<leftarrow> cvHashToFr B cvLeafOwnershipBatchV2 [statement];
     if challenge = 0 then do {
       challenge \<leftarrow> cvHashToFr B cvLeafOwnershipBatchV2 [statement, str_bytes ''nonzero''];
       require (challenge \<noteq> 0);
       Some challenge
     } else Some challenge
   }"

text \<open>The state of the accumulation loop: the next weight, the points with their scalars, and the scalars of the
  generator, of the Pedersen base and of the current receiver's key.\<close>

type_synonym ('g, 'f) batch_state = "nat \<times> ('g \<times> 'f) list \<times> 'f \<times> 'f \<times> 'f"

definition batch_chunk ::
  "'f::field list \<Rightarrow> 'f \<Rightarrow> ('g, 'f) cvReceiverLaneOfferV2 \<Rightarrow> ('g, 'f) batch_state \<Rightarrow> nat \<Rightarrow> ('g, 'f) batch_state" where
  "batch_chunk weights challenge offer state chunk =
     (let (weightIndex, terms, generatorScalar, pedersenScalar, keyScalar) = state;
          oproof = lo_Ownership offer;
          coinWeight = weights ! weightIndex;
          cipherWeight = weights ! (weightIndex + 1)
      in (weightIndex + 2,
          terms @ [(op_ScalarCoinCommitments oproof ! chunk, - coinWeight),
                   (eg_r (lo_ScalarChunks offer ! chunk), - (coinWeight * challenge)),
                   (op_ScalarCipherCommitments oproof ! chunk, - cipherWeight),
                   (eg_c (lo_ScalarChunks offer ! chunk), - (cipherWeight * challenge))],
          generatorScalar + coinWeight * op_ScalarCoinResponses oproof ! chunk +
            cipherWeight * op_ScalarDigitResponses oproof ! chunk,
          pedersenScalar,
          keyScalar + cipherWeight * op_ScalarCoinResponses oproof ! chunk))"

definition batch_offer ::
  "'f::field list \<Rightarrow> nat \<Rightarrow> nat \<Rightarrow> 'f \<Rightarrow> ('g, 'f) cvReceiverLaneOfferV2 \<Rightarrow> nat \<times> ('g \<times> 'f) list \<times> 'f \<times> 'f \<Rightarrow>
   ('g, 'f) batch_state option" where
  "batch_offer weights chunkBits chunks challenge offer state = do {
     let (weightIndex, terms, generatorScalar, pedersenScalar) = state;
     let oproof = lo_Ownership offer;
     let (weightIndex, terms, generatorScalar, pedersenScalar, keyScalar) =
       foldl (batch_chunk weights challenge offer) (weightIndex, terms, generatorScalar, pedersenScalar, 0) [0..<chunks];
     let blindingCoinWeight = weights ! weightIndex;
     let blindingCipherWeight = weights ! (weightIndex + 1);
     let evaluationWeight = weights ! (weightIndex + 2);
     weightedResponse \<leftarrow> cvWeightedScalarV2 (op_ScalarDigitResponses oproof) chunkBits;
     Some (weightIndex + 3,
       terms @ [(op_BlindingCoinCommitment oproof, - blindingCoinWeight),
                (eg_r (lo_Blinding offer), - (blindingCoinWeight * challenge)),
                (op_BlindingCipherCommitment oproof, - blindingCipherWeight),
                (eg_c (lo_Blinding offer), - (blindingCipherWeight * challenge)),
                (op_EvaluationCommitment oproof, - evaluationWeight),
                (lo_Evaluation offer, - (evaluationWeight * challenge))],
       generatorScalar + blindingCoinWeight * op_BlindingCoinResponse oproof + evaluationWeight * weightedResponse,
       pedersenScalar + blindingCipherWeight * op_BlindingShareResponse oproof +
         evaluationWeight * op_BlindingShareResponse oproof,
       keyScalar + blindingCipherWeight * op_BlindingCoinResponse oproof)
   }"

fun batch_offers ::
  "'f::field list \<Rightarrow> nat \<Rightarrow> nat \<Rightarrow> (('g, 'f) cvReceiverLaneOfferV2 \<times> 'f) list \<Rightarrow> nat \<times> ('g \<times> 'f) list \<times> 'f \<times> 'f \<Rightarrow>
   (('g \<times> 'f) list \<times> 'f \<times> 'f \<times> 'f list) option" where
  "batch_offers weights chunkBits chunks [] (weightIndex, terms, generatorScalar, pedersenScalar) =
     Some (terms, generatorScalar, pedersenScalar, [])"
| "batch_offers weights chunkBits chunks ((offer, challenge) # rest) state = do {
     (weightIndex, terms, generatorScalar, pedersenScalar, keyScalar) \<leftarrow>
       batch_offer weights chunkBits chunks challenge offer state;
     (terms, generatorScalar, pedersenScalar, keyScalars) \<leftarrow>
       batch_offers weights chunkBits chunks rest (weightIndex, terms, generatorScalar, pedersenScalar);
     Some (terms, generatorScalar, pedersenScalar, keyScalar # keyScalars)
   }"

text \<open>When the combination is not the identity the offers are verified one by one for the error message; the result
  is an error either way.\<close>

definition cvVerifyOwnershipBatchV2 ::
  "('g, 'h, 'f::field) bls \<Rightarrow> cvLeafContextV2 \<Rightarrow> int \<Rightarrow> ('g, 'f) cvReceiverLaneOfferV2 list \<Rightarrow> 'g list \<Rightarrow> bool \<Rightarrow> bool" where
  "cvVerifyOwnershipBatchV2 B ctx dealerID offers receiverPublicKeys validatePoints \<longleftrightarrow> (do {
     require (\<not> (dealerID < 0 \<or> offers = [] \<or> length offers \<noteq> length receiverPublicKeys));
     chunks \<leftarrow> cvChunkCount (lc_Profile ctx);
     contextWire \<leftarrow> cvLeafContextV2CanonicalBytes ctx;
     cnt \<leftarrow> cvWriteUint32 (int (length offers));
     (challenges, wires) \<leftarrow> batch_statements B ctx dealerID validatePoints (zip offers receiverPublicKeys);
     batchChallenge \<leftarrow> batch_challenge B
       (dropped (cvWriteBytes contextWire) @ cvWriteUint64 (u64 dealerID) @ cnt @ wires);
     let weights = powers_loop batchChallenge batchChallenge (length offers * (2 * nat chunks + 3));
     h \<leftarrow> cvPedersenBase B;
     (terms, generatorScalar, pedersenScalar, keyScalars) \<leftarrow>
       batch_offers weights (cp_chunkBits (lc_Profile ctx)) (nat chunks) (zip offers challenges) (0, [], 0, 0);
     let combined_terms = terms @ [(bls_genG1 B, generatorScalar), (h, pedersenScalar)] @ zip receiverPublicKeys keyScalars;
     combined \<leftarrow> cvG1LinearCombination B (map fst combined_terms) (map snd combined_terms);
     require (combined = cvPointTimes B (bls_genG1 B) 0)
   }) = Some ()"

section \<open>Decryption\<close>

definition cvDecryptGroupCiphertextV2 :: "('g, 'h, 'f) bls \<Rightarrow> 'g cvElGamalCiphertext \<Rightarrow> 'f \<Rightarrow> 'g" where
  "cvDecryptGroupCiphertextV2 B ciphertext secret = bls_Sub B (eg_c ciphertext) (g1_smul B (eg_r ciphertext) secret)"

fun solve_all :: "('g, 'h, 'f) bls \<Rightarrow> 'g cvBoundedDLogSolverV2 \<Rightarrow> 'f \<Rightarrow> 'g cvElGamalCiphertext list \<Rightarrow> nat list option" where
  "solve_all B solver secret [] = Some []"
| "solve_all B solver secret (ciphertext # rest) = do {
     digit \<leftarrow> solve B solver (cvDecryptGroupCiphertextV2 B ciphertext secret);
     digits \<leftarrow> solve_all B solver secret rest;
     Some (digit # digits)
   }"

definition cvVerifyAndDecryptReceiverLanesModeV2 ::
  "('g, 'h, 'f::field) bls \<Rightarrow> cvLeafContextV2 \<Rightarrow> int \<Rightarrow> ('g, 'f) cvReceiverLaneOfferV2 \<Rightarrow> 'g \<Rightarrow> 'f \<Rightarrow> bool \<Rightarrow>
   ('f \<times> 'g) option" where
  "cvVerifyAndDecryptReceiverLanesModeV2 B ctx dealerID offer receiverPublicKey receiverSecret validatePoints = do {
     require (cvVerifyOwnershipBatchV2 B ctx dealerID [offer] [receiverPublicKey] validatePoints);
     expectedPublic \<leftarrow> cvReceiverPublicKey B receiverSecret;
     require (expectedPublic = receiverPublicKey);
     (base, _, chunks) \<leftarrow> cvProfile (lc_Profile ctx);
     digits \<leftarrow> solve_all B (cvNewBoundedDLogSolverForBaseV2 B (bls_genG1 B) (nat (base - 1))) receiverSecret
       (take (nat chunks) (lo_ScalarChunks offer));
     scalar \<leftarrow> cvDigitsToScalarV2 B digits (cp_chunkBits (lc_Profile ctx));
     let blindingOpening = cvDecryptGroupCiphertextV2 B (lo_Blinding offer) receiverSecret;
     require (cvPointSum B [cvPointTimes B (bls_genG1 B) scalar, blindingOpening] = lo_Evaluation offer);
     Some (scalar, blindingOpening)
   }"

definition cvVerifyAndDecryptReceiverLanesV2 where
  "cvVerifyAndDecryptReceiverLanesV2 B ctx dealerID offer receiverPublicKey receiverSecret =
     cvVerifyAndDecryptReceiverLanesModeV2 B ctx dealerID offer receiverPublicKey receiverSecret True"

definition cvVerifyAndDecryptReceiverLanesAfterPointDecodingV2 where
  "cvVerifyAndDecryptReceiverLanesAfterPointDecodingV2 B ctx dealerID offer receiverPublicKey receiverSecret =
     cvVerifyAndDecryptReceiverLanesModeV2 B ctx dealerID offer receiverPublicKey receiverSecret False"

end
