(* ===== verification/Lane_Proofs.thy ===== *)
theory Lane_Proofs
  imports Lanes
begin

text \<open>
  The results on receiver lanes (\<^verbatim>\<open>src/core/cv_sapvss_lanes_v2.go\<close>): the digit expansion, the discrete logarithm
  search, the ownership proof, its batched verification and the encryption round trip.
\<close>

section \<open>What the library documents of the operations used here\<close>

text \<open>The generator is not the identity; negation, subtraction, joint and batched multiplication are what their names
  say; \<^verbatim>\<open>BigInt\<close> is the residue of a scalar below the modulus, which has 255 bits.\<close>

definition lane_laws :: "('g, 'h, 'f::field) bls \<Rightarrow> bool" where
  "lane_laws B \<longleftrightarrow>
     bls_laws B \<and> \<not> g1_IsInfinity B (bls_genG1 B) \<and>
     (\<forall>p. g1_in B p \<longrightarrow> bls_Neg B p = g1_smul B p (- 1)) \<and>
     (\<forall>p q. g1_in B p \<longrightarrow> g1_in B q \<longrightarrow> bls_Sub B p q = g1_add B p (g1_smul B q (- 1))) \<and>
     (\<forall>p q a b. g1_in B p \<longrightarrow> g1_in B q \<longrightarrow> bls_JointTimes B p q a b = g1_add B (g1_smul B p a) (g1_smul B q b)) \<and>
     (\<forall>p as. g1_in B p \<longrightarrow> bls_BatchTimes B p as = map (g1_smul B p) as) \<and>
     (\<forall>x. fr_BigInt B x < fr_Modulus B \<and> of_nat (fr_BigInt B x) = x) \<and>
     (\<forall>n. fr_BigInt B (of_nat n) = n mod fr_Modulus B) \<and> fr_Modulus B < 2 ^ 255"

lemma lane_lawsD:
  assumes "lane_laws B"
  shows "bls_laws B" and "\<not> g1_IsInfinity B (bls_genG1 B)"
    and "g1_in B p \<Longrightarrow> bls_Neg B p = g1_smul B p (- 1)"
    and "g1_in B p \<Longrightarrow> g1_in B q \<Longrightarrow> bls_Sub B p q = g1_add B p (g1_smul B q (- 1))"
    and "g1_in B p \<Longrightarrow> g1_in B q \<Longrightarrow> bls_JointTimes B p q a b = g1_add B (g1_smul B p a) (g1_smul B q b)"
    and "g1_in B p \<Longrightarrow> bls_BatchTimes B p as = map (g1_smul B p) as"
    and "fr_BigInt B x < fr_Modulus B" and "of_nat (fr_BigInt B x) = x"
    and "fr_BigInt B (of_nat n) = n mod fr_Modulus B" and "fr_Modulus B < 2 ^ 255"
  using assms unfolding lane_laws_def by blast+

text \<open>The scalars that occur as exponents of the generator are determined by the point.\<close>

lemma g1_minus_self:
  assumes "g1_laws G" "g1_in G p"
  shows "g1_add G p (g1_smul G p (- 1)) = g1_zero G"
  using g1_lawsD(5,6) [OF assms(1,2)] g1_moduleD(4) [OF assms] by (metis add.right_inverse)

lemma g1_smul_diff:
  assumes "g1_laws G" "g1_in G p"
  shows "g1_add G (g1_smul G p a) (g1_smul G (g1_smul G p b) (- 1)) = g1_smul G p (a - b)"
proof -
  have "g1_add G (g1_smul G p a) (g1_smul G (g1_smul G p b) (- 1)) = g1_add G (g1_smul G p a) (g1_smul G p (b * - 1))"
    using g1_lawsD(7) [OF assms] by simp
  also have "\<dots> = g1_smul G p (a + b * - 1)" by (rule g1_lawsD(6) [OF assms, symmetric])
  finally show ?thesis by simp
qed

lemma smul_inject:
  assumes B: "g1_laws B" and p: "g1_in B p" "\<not> g1_IsInfinity B p"
  shows "g1_smul B p a = g1_smul B p b \<longleftrightarrow> a = b"
proof
  assume e: "g1_smul B p a = g1_smul B p b"
  have inb: "g1_in B (g1_smul B p b)" by (rule g1_lawsD(3) [OF B p(1)])
  have "g1_smul B p (a - b) = g1_zero B"
    using g1_smul_diff [OF B p(1), of a b] g1_minus_self [OF B inb] by (simp add: e)
  also have "\<dots> = g1_smul B p 0" using g1_lawsD(5) [OF B p(1)] by simp
  finally have "g1_IsInfinity B (g1_smul B p (a - b)) \<longleftrightarrow> g1_IsInfinity B (g1_smul B p 0)" by simp
  then show "a = b" using g1_lawsD(8) [OF B p(1)] p(2) by simp
qed simp

lemma gen_inject:
  "lane_laws B \<Longrightarrow> g1_smul B (bls_genG1 B) a = g1_smul B (bls_genG1 B) b \<longleftrightarrow> a = b"
  by (rule smul_inject [OF bls_lawsD(1) [OF lane_lawsD(1)] bls_lawsD(10) [OF lane_lawsD(1)] lane_lawsD(2)])

lemma of_nat_inject_modulus:
  assumes "lane_laws B" "(of_nat m :: 'f::field) = of_nat n" "m < fr_Modulus (B :: ('g, 'h, 'f) bls)" "n < fr_Modulus B"
  shows "m = n"
proof -
  have "m mod fr_Modulus B = n mod fr_Modulus B"
    by (simp only: lane_lawsD(9) [OF assms(1), symmetric] assms(2))
  then show ?thesis using assms(3,4) by simp
qed

lemma point_key_inject:
  assumes "bls_laws B" "g1_in B p" "g1_in B q" "cvPointKey B p = cvPointKey B q"
  shows "p = q"
proof -
  have "(p, Some SizeOfG1AffineCompressed) = (q, Some SizeOfG1AffineCompressed)"
    using assms(4) unfolding cvPointKey_def bls_lawsD(6) [OF assms(1,2), symmetric] bls_lawsD(6) [OF assms(1,3), symmetric]
    by (rule arg_cong)
  then show ?thesis by simp
qed

section \<open>The discrete logarithm search\<close>

lemma width_loop_covers: "rangeSize \<le> width_loop rangeSize w * width_loop rangeSize w"
  by (induction rangeSize w rule: width_loop.induct) (subst (1 2) width_loop.simps, auto)

text \<open>The table holds, for each of its points, an exponent below the width.\<close>

lemma baby_loop_sound:
  assumes B: "bls_laws B" and p: "g1_in B p"
    and "\<And>q j. g1_in B q \<Longrightarrow> babies (cvPointKey B q) = Some j \<Longrightarrow> j < k \<and> q = g1_smul B p (of_nat j)"
    and "baby_loop B p n k (g1_smul B p (of_nat k)) babies (cvPointKey B q) = Some j" "g1_in B q"
  shows "j < k + n \<and> q = g1_smul B p (of_nat j)"
  using assms(3-)
proof (induction n arbitrary: k babies)
  case 0
  then show ?case by auto
next
  case (Suc n)
  let ?cur = "g1_smul B p (of_nat k)" and ?babies = "babies(cvPointKey B (g1_smul B p (of_nat k)) \<mapsto> k)"
  have cur: "g1_in B ?cur" by (rule bls_lawsD(9) [OF B p])
  have nx: "g1_add B ?cur p = g1_smul B p (of_nat (k + 1))"
    using g1_lawsD(6) [OF bls_lawsD(1) [OF B] p, of "of_nat k" 1] g1_moduleD(4) [OF bls_lawsD(1) [OF B] p]
    by (simp add: add.commute)
  have inv: "j < k + 1 \<and> q = g1_smul B p (of_nat j)" if "g1_in B q" "?babies (cvPointKey B q) = Some j" for q j
  proof (cases "cvPointKey B q = cvPointKey B ?cur")
    case True
    then show ?thesis using that point_key_inject [OF B that(1) cur] by simp
  next
    case False
    then show ?thesis using that Suc.prems(1) [of q j] by simp
  qed
  have "baby_loop B p n (k + 1) (g1_smul B p (of_nat (k + 1))) ?babies (cvPointKey B q) = Some j"
    using Suc.prems(2) nx by simp
  from Suc.IH [OF inv this Suc.prems(3)] show ?case by simp
qed

lemma baby_loop_keeps:
  "babies key \<noteq> None \<Longrightarrow> baby_loop B p n k current babies key \<noteq> None"
  by (induction n arbitrary: k current babies) auto

lemma baby_loop_total:
  assumes B: "bls_laws B" and p: "g1_in B p" and "m < n"
  shows "baby_loop B p n k (g1_smul B p (of_nat k)) babies (cvPointKey B (g1_smul B p (of_nat (k + m)))) \<noteq> None"
  using assms(3)
proof (induction n arbitrary: k m babies)
  case (Suc n)
  have nx: "g1_add B (g1_smul B p (of_nat k)) p = g1_smul B p (of_nat (k + 1))"
    using g1_lawsD(6) [OF bls_lawsD(1) [OF B] p, of "of_nat k" 1] g1_moduleD(4) [OF bls_lawsD(1) [OF B] p]
    by (simp add: add.commute)
  show ?case
  proof (cases m)
    case 0
    then show ?thesis by (simp add: baby_loop_keeps)
  next
    case (Suc m')
    then show ?thesis using Suc.IH [of m' "k + 1"] Suc.prems nx by simp
  qed
qed simp

text \<open>The giant steps: step \<open>i\<close> looks up the target less \<open>i\<close> giant steps.\<close>

definition giant_point :: "('g, 'h, 'f::field) bls \<Rightarrow> nat \<Rightarrow> 'g \<Rightarrow> nat \<Rightarrow> 'g" where
  "giant_point B width target i = g1_add B target (g1_smul B (bls_genG1 B) (- of_nat (i * width)))"

lemma giant_step:
  assumes B: "lane_laws B" and t: "g1_in B target"
  shows "g1_add B (giant_point B width target i) (bls_Neg B (g1_smul B (bls_genG1 B) (of_nat width))) =
      giant_point B width target (i + 1)" and "g1_in B (giant_point B width target i)"
proof -
  let ?G = "bls_genG1 B"
  note laws = bls_lawsD(1) [OF lane_lawsD(1) [OF B]] and g = bls_lawsD(10) [OF lane_lawsD(1) [OF B]]
  note L = g1_lawsD [OF laws]
  have ing: "g1_in B (g1_smul B ?G a)" for a using L(3) g by simp
  show "g1_in B (giant_point B width target i)" using L(2) t ing by (simp add: giant_point_def)
  have "bls_Neg B (g1_smul B ?G (of_nat width)) = g1_smul B ?G (- of_nat width)"
    using lane_lawsD(3) [OF B ing] L(7) [OF g] by simp
  then have "g1_add B (giant_point B width target i) (bls_Neg B (g1_smul B ?G (of_nat width))) =
      g1_add B target (g1_add B (g1_smul B ?G (- of_nat (i * width))) (g1_smul B ?G (- of_nat width)))"
    using g1_moduleD(2) [OF laws t ing ing] by (simp add: giant_point_def)
  also have "\<dots> = giant_point B width target (i + 1)"
    using L(6) [OF g, of "- of_nat (i * width)" "- of_nat width"] by (simp add: giant_point_def algebra_simps)
  finally show "g1_add B (giant_point B width target i) (bls_Neg B (g1_smul B ?G (of_nat width))) =
      giant_point B width target (i + 1)" .
qed

lemma giant_point_gen:
  assumes B: "lane_laws B" and t: "g1_in B target"
  shows "giant_point B width target i = g1_smul B (bls_genG1 B) a \<longleftrightarrow>
    target = g1_smul B (bls_genG1 B) (a + of_nat (i * width))"
proof -
  let ?G = "bls_genG1 B" and ?w = "of_nat (i * width)"
  note laws = bls_lawsD(1) [OF lane_lawsD(1) [OF B]] and g = bls_lawsD(10) [OF lane_lawsD(1) [OF B]]
  note L = g1_lawsD [OF laws] and M = g1_moduleD [OF laws]
  have ing: "g1_in B (g1_smul B ?G b)" for b using L(3) g by simp
  have cancel: "g1_add B (g1_add B q (g1_smul B ?G b)) (g1_smul B ?G (- b)) = q" if "g1_in B q" for q b
    using M(2) [OF that ing ing] L(6) [OF g, of b "- b"] L(5) [OF g] M(1) [OF that L(1)] L(4) [OF that] by simp
  show ?thesis
  proof
    assume e: "giant_point B width target i = g1_smul B ?G a"
    have "target = g1_add B (giant_point B width target i) (g1_smul B ?G ?w)"
      using cancel [OF t, of "- ?w"] by (simp add: giant_point_def)
    then show "target = g1_smul B ?G (a + ?w)" using L(6) [OF g] by (simp add: e)
  next
    assume "target = g1_smul B ?G (a + ?w)"
    then show "giant_point B width target i = g1_smul B ?G a"
      using cancel [OF ing, of a ?w] L(6) [OF g] by (simp add: giant_point_def)
  qed
qed

lemma babies_of_gen:
  assumes B: "lane_laws B" and q: "g1_in B q"
    and e: "dl_babies (cvNewBoundedDLogSolverForBaseV2 B (bls_genG1 B) bound) (cvPointKey B q) = Some j"
  shows "j < dl_width (cvNewBoundedDLogSolverForBaseV2 B (bls_genG1 B) bound) \<and> q = g1_smul B (bls_genG1 B) (of_nat j)"
proof -
  note b = lane_lawsD(1) [OF B]
  show ?thesis
    using baby_loop_sound [OF b bls_lawsD(10) [OF b], of Map.empty 0 _ q j] e q
    by (simp add: cvNewBoundedDLogSolverForBaseV2_def Let_def)
qed

lemma giant_loop_sound:
  assumes B: "lane_laws B" and t: "g1_in B target"
    and solver: "solver = cvNewBoundedDLogSolverForBaseV2 B (bls_genG1 B) bound"
    and "giant_loop B solver n i (giant_point B (dl_width solver) target i) = Some v"
  shows "v \<le> bound \<and> target = g1_smul B (bls_genG1 B) (of_nat v)"
  using assms(4)
proof (induction n arbitrary: i)
  case (Suc n)
  let ?p = "giant_point B (dl_width solver) target i"
  have neg: "dl_negativeGiant solver = bls_Neg B (g1_smul B (bls_genG1 B) (of_nat (dl_width solver)))"
    and bound: "dl_bound solver = bound"
    by (simp_all add: solver cvNewBoundedDLogSolverForBaseV2_def Let_def)
  have nx: "giant_loop B solver n (i + 1) (giant_point B (dl_width solver) target (i + 1)) = Some v \<or>
      (\<exists>j. dl_babies solver (cvPointKey B ?p) = Some j \<and> v = i * dl_width solver + j \<and> v \<le> bound)"
    using Suc.prems by (auto simp: neg bound giant_step(1) [OF B t] Let_def split: option.splits if_splits)
  then show ?case
  proof
    assume "\<exists>j. dl_babies solver (cvPointKey B ?p) = Some j \<and> v = i * dl_width solver + j \<and> v \<le> bound"
    then obtain j where j: "dl_babies solver (cvPointKey B ?p) = Some j" "v = i * dl_width solver + j" "v \<le> bound" by blast
    have "?p = g1_smul B (bls_genG1 B) (of_nat j)"
      using babies_of_gen [OF B giant_step(2) [OF B t]] j(1) solver by blast
    then show ?thesis using j giant_point_gen [OF B t] by (simp add: add.commute)
  qed (rule Suc.IH)
qed simp

lemma giant_loop_total:
  assumes B: "lane_laws B" and t: "g1_in B target"
    and solver: "solver = cvNewBoundedDLogSolverForBaseV2 B (bls_genG1 B) bound"
    and k: "i \<le> k" "k < i + n" "j < dl_width solver" "k * dl_width solver + j \<le> bound"
    and p: "giant_point B (dl_width solver) target k = g1_smul B (bls_genG1 B) (of_nat j)"
    and w: "dl_width solver \<le> fr_Modulus B"
  shows "giant_loop B solver n i (giant_point B (dl_width solver) target i) \<noteq> None"
  using k(1,2)
proof (induction n arbitrary: i)
  case (Suc n)
  note b = lane_lawsD(1) [OF B]
  have neg: "dl_negativeGiant solver = bls_Neg B (g1_smul B (bls_genG1 B) (of_nat (dl_width solver)))"
    and bound: "dl_bound solver = bound"
    and tab: "dl_babies solver = baby_loop B (bls_genG1 B) (dl_width solver) 0 (g1_smul B (bls_genG1 B) 0) Map.empty"
    by (simp_all add: solver cvNewBoundedDLogSolverForBaseV2_def Let_def)
  show ?case
  proof (cases "i = k")
    case True
    obtain j' where j': "dl_babies solver (cvPointKey B (g1_smul B (bls_genG1 B) (of_nat j))) = Some j'"
      using baby_loop_total [OF b bls_lawsD(10) [OF b] k(3), of 0 Map.empty] by (auto simp: tab)
    have "j' < dl_width solver \<and> g1_smul B (bls_genG1 B) (of_nat j) = g1_smul B (bls_genG1 B) (of_nat j')"
      using babies_of_gen [OF B bls_lawsD(9) [OF b bls_lawsD(10) [OF b]]] j' solver by blast
    then have "j = j'" using gen_inject [OF B] of_nat_inject_modulus [OF B, of j j'] k(3) w by auto
    then show ?thesis using True j' k(4) p by (simp add: bound Let_def)
  next
    case False
    then have "giant_loop B solver n (i + 1) (giant_point B (dl_width solver) target (i + 1)) \<noteq> None"
      using Suc.IH [of "i + 1"] Suc.prems by simp
    then show ?thesis by (auto simp: neg giant_step(1) [OF B t] Let_def split: option.splits)
  qed
qed simp

lemma width_loop_least: "w \<le> W \<Longrightarrow> rangeSize \<le> W * W \<Longrightarrow> width_loop rangeSize w \<le> W"
proof (induction rangeSize w rule: width_loop.induct)
  case (1 rangeSize w)
  show ?case
  proof (cases "w * w < rangeSize")
    case True
    then have "w < W" using "1.prems" by (metis le_neq_implies_less not_le)
    then show ?thesis using "1.IH" [OF True] "1.prems" True by (subst width_loop.simps) simp
  next
    case False
    then show ?thesis using "1.prems" by (subst width_loop.simps) simp
  qed
qed

lemma width_loop_start: "rangeSize \<le> w * w \<Longrightarrow> width_loop rangeSize w = w"
  by (subst width_loop.simps) simp

lemma ceil_sqrt_width: "width_loop n (ceil_sqrt n) = ceil_sqrt n"
  using width_loop_start width_loop_covers by (simp add: ceil_sqrt_def)

lemma solve_exact:
  assumes B: "lane_laws B" and t: "cvValidG1 B target True" and bound: "bound < fr_Modulus B"
  shows "solve B (cvNewBoundedDLogSolverForBaseV2 B (bls_genG1 B) bound) target = Some v \<longleftrightarrow>
    v \<le> bound \<and> target = g1_smul B (bls_genG1 B) (of_nat v)"
proof
  let ?solver = "cvNewBoundedDLogSolverForBaseV2 B (bls_genG1 B) bound"
  let ?w = "dl_width ?solver"
  have tin: "g1_in B target" using t by (simp add: cvValidG1_def g1_in_def)
  note laws = bls_lawsD(1) [OF lane_lawsD(1) [OF B]] and g = bls_lawsD(10) [OF lane_lawsD(1) [OF B]]
  have start: "giant_point B ?w target 0 = target"
    using g1_lawsD(1,4,5) [OF laws] g g1_moduleD(1) [OF laws] tin by (simp add: giant_point_def)
  have run: "solve B ?solver target = giant_loop B ?solver (?w + 1) 0 (giant_point B ?w target 0)"
    using t start by (simp add: solve_def)
  {
    assume "solve B ?solver target = Some v"
    then show "v \<le> bound \<and> target = g1_smul B (bls_genG1 B) (of_nat v)"
      unfolding run by (rule giant_loop_sound [OF B tin refl])
  }
  assume v: "v \<le> bound \<and> target = g1_smul B (bls_genG1 B) (of_nat v)"
  have w: "?w = ceil_sqrt (bound + 1)" by (simp add: cvNewBoundedDLogSolverForBaseV2_def Let_def ceil_sqrt_width)
  have cover: "bound < ?w * ?w" using width_loop_covers [of "bound + 1" 0] by (simp add: w ceil_sqrt_def)
  have "?w \<le> bound + 1" using width_loop_least [of 0 "bound + 1" "bound + 1"] by (simp add: w ceil_sqrt_def)
  then have wm: "?w \<le> fr_Modulus B" using bound by simp
  have w0: "0 < ?w" using cover by (cases "?w = 0") auto
  have "v div ?w < ?w" using v cover by (simp add: less_mult_imp_div_less)
  moreover have "v = v mod ?w + v div ?w * ?w" by simp
  moreover have "giant_point B ?w target (v div ?w) = g1_smul B (bls_genG1 B) (of_nat (v mod ?w))"
    using v giant_point_gen [OF B tin, of ?w "v div ?w" "of_nat (v mod ?w)"] by (metis mod_div_mult_eq of_nat_add)
  ultimately have "solve B ?solver target \<noteq> None"
    unfolding run by (intro giant_loop_total [OF B tin refl, of 0 "v div ?w" "?w + 1" "v mod ?w"]) (use v w0 wm in simp_all)
  then obtain v' where v': "solve B ?solver target = Some v'" by blast
  have "v' \<le> bound \<and> target = g1_smul B (bls_genG1 B) (of_nat v')"
    using v' unfolding run by (rule giant_loop_sound [OF B tin refl])
  then have "v' = v" using v gen_inject [OF B] of_nat_inject_modulus [OF B, of v' v] bound by auto
  with v' show "solve B ?solver target = Some v" by simp
qed

text \<open>C32: the baby-step giant-step search returns exactly the exponents within its bound: it answers \<open>v\<close> if and only if
  \<open>v\<close> is at most the bound and the target is \<open>v\<close> times the generator.\<close>

theorem bounded_dlog_exact:
  assumes B: "lane_laws B" and t: "cvValidG1 B target True" and bound: "bound < fr_Modulus B"
  shows "solve B (cvNewBoundedDLogSolverForBaseV2 B (bls_genG1 B) bound) target = Some v \<longleftrightarrow>
    v \<le> bound \<and> target = g1_smul B (bls_genG1 B) (of_nat v)"
  using assms by (rule solve_exact)

section \<open>Digits and weighted sums\<close>

lemma powers_loop_eq: "powers_loop base p n = map (\<lambda>i. p * base ^ i) [0..<n]"
proof (induction n arbitrary: p)
  case (Suc n)
  have "[0..<Suc n] = 0 # map Suc [0..<n]" by (simp add: map_Suc_upt upt_conv_Cons)
  then show ?case using Suc by (simp add: comp_def mult.assoc)
qed simp

lemma cvFrPowers_eq: "cvFrPowers base n = map (\<lambda>i. base ^ i) [0..<n]"
  by (simp add: cvFrPowers_def powers_loop_eq)

lemma foldl_plus_sum: "foldl (\<lambda>a x. a + f x) a xs = a + (\<Sum>x \<leftarrow> xs. f x :: 'a :: comm_monoid_add)"
  by (induction xs arbitrary: a) (simp_all add: add.assoc)

lemma sum_list_zip: "length xs = n \<Longrightarrow> length ys = n \<Longrightarrow> (\<Sum>x \<leftarrow> zip xs ys. f x) = (\<Sum>i < n. f (xs ! i, ys ! i))"
  by (simp add: sum_list_sum_nth atLeast0LessThan)

lemma digits_value_sum: "digits_value chunkBits ds = (\<Sum>i < length ds. ds ! i * 2 ^ (i * chunkBits))"
proof -
  have "digits_value chunkBits ds = (\<Sum>x \<leftarrow> zip [0..<length ds] ds. case x of (i, d) \<Rightarrow> d * 2 ^ (i * chunkBits))"
    unfolding digits_value_def using foldl_plus_sum [of "\<lambda>(i, d). d * 2 ^ (i * chunkBits)" 0]
    by (simp add: split_def push_bit_eq_mult)
  also have "\<dots> = (\<Sum>i < length ds. ds ! i * 2 ^ (i * chunkBits))"
    by (subst sum_list_zip [of _ "length ds"]) simp_all
  finally show ?thesis .
qed

lemma digits_value_Nil [simp]: "digits_value chunkBits [] = 0"
  by (simp add: digits_value_sum)

lemma digits_value_Cons: "digits_value chunkBits (d # ds) = d + 2 ^ chunkBits * digits_value chunkBits ds"
  by (simp add: digits_value_sum sum.lessThan_Suc_shift power_add sum_distrib_left mult_ac del: sum.lessThan_Suc)

lemma digits_loop_value:
  assumes "digits_loop chunkBits n r = (ds, remaining)"
  shows "length ds = n" "list_all (\<lambda>d. d < 2 ^ chunkBits) ds"
    "r = digits_value chunkBits ds + remaining * 2 ^ (n * chunkBits)"
proof -
  have "length ds = n \<and> list_all (\<lambda>d. d < 2 ^ chunkBits) ds \<and> r = digits_value chunkBits ds + remaining * 2 ^ (n * chunkBits)"
    using assms
  proof (induction n arbitrary: r ds)
    case (Suc n)
    obtain es left where e: "digits_loop chunkBits n (drop_bit chunkBits r) = (es, left)" by fastforce
    with Suc.prems have ds: "ds = take_bit chunkBits r # es" "left = remaining" by (simp_all add: Let_def)
    note IH = Suc.IH [OF e [unfolded ds(2)]]
    have "r = take_bit chunkBits r + 2 ^ chunkBits * drop_bit chunkBits r"
      by (simp add: take_bit_eq_mod drop_bit_eq_div mult.commute)
    also have "drop_bit chunkBits r = digits_value chunkBits es + remaining * 2 ^ (n * chunkBits)" using IH by blast
    finally show ?case
      using IH by (simp add: ds digits_value_Cons power_add algebra_simps take_bit_eq_mod)
  qed simp
  then show "length ds = n" "list_all (\<lambda>d. d < 2 ^ chunkBits) ds"
    "r = digits_value chunkBits ds + remaining * 2 ^ (n * chunkBits)" by auto
qed

lemma profile_facts:
  assumes "cvProfile p = Some (base, bound, chunks)"
  shows "base = 2 ^ cp_chunkBits p" "bound = cp_maxComponents p * (base - 1)" "0 < cp_chunkBits p"
    "cp_chunkBits p \<le> cvMaxChunkBits" "0 < chunks" "chunks < 4294967296" "255 \<le> nat chunks * cp_chunkBits p"
    "0 < cp_maxComponents p" "0 \<le> bound"
proof -
  from assms show a: "base = 2 ^ cp_chunkBits p" "bound = cp_maxComponents p * (base - 1)" "0 < cp_chunkBits p"
    "cp_chunkBits p \<le> cvMaxChunkBits" "0 < cp_maxComponents p"
    by (auto simp: cvProfile_def run_simps Let_def)
  have c: "chunks = (255 + int (cp_chunkBits p) - 1) div int (cp_chunkBits p)"
    using assms by (auto simp: cvProfile_def run_simps Let_def)
  have b: "0 < int (cp_chunkBits p)" using a(3) by simp
  show "0 < chunks" unfolding c using b by (simp add: pos_imp_zdiv_pos_iff pos_imp_zdiv_nonneg_iff)
  have "chunks * 1 \<le> chunks * int (cp_chunkBits p)" using b \<open>0 < chunks\<close> by (intro mult_left_mono) simp_all
  also have "\<dots> \<le> 255 + int (cp_chunkBits p) - 1" unfolding c minus_mod_eq_div_mult [symmetric] using b by simp
  finally have "chunks \<le> 255 + int (cp_chunkBits p) - 1" by simp
  then show "chunks < 4294967296" using a(4) by (simp add: cvMaxChunkBits_def)
  let ?k = "int (cp_chunkBits p)"
  have "255 + ?k - 1 = ?k * ((255 + ?k - 1) div ?k) + (255 + ?k - 1) mod ?k" by (rule mult_div_mod_eq [symmetric])
  moreover have "(255 + ?k - 1) mod ?k < ?k" using b by simp
  ultimately have "255 \<le> ?k * chunks" unfolding c by linarith
  then have "int 255 \<le> int (nat chunks * cp_chunkBits p)" using \<open>0 < chunks\<close> by (simp add: mult.commute)
  then show "255 \<le> nat chunks * cp_chunkBits p" unfolding of_nat_le_iff .
  show "0 \<le> bound" using a by simp
qed

lemma scalar_digits:
  assumes B: "lane_laws B" and p: "cvProfile p = Some (base, bound, chunks)"
  obtains ds where "cvScalarDigits B x p = Some ds" "length ds = nat chunks"
    "list_all (\<lambda>d. d < 2 ^ cp_chunkBits p) ds" "digits_value (cp_chunkBits p) ds = fr_BigInt B x"
proof -
  obtain ds left where d: "digits_loop (cp_chunkBits p) (nat chunks) (fr_BigInt B x) = (ds, left)" by fastforce
  note v = digits_loop_value [OF d]
  have "fr_BigInt B x < 2 ^ 255" using lane_lawsD(7,10) [OF B] less_trans by blast
  also have "(2::nat) ^ 255 \<le> 2 ^ (nat chunks * cp_chunkBits p)"
    using profile_facts(7) [OF p] by (intro power_increasing) simp_all
  finally have "left * 2 ^ (nat chunks * cp_chunkBits p) < 1 * 2 ^ (nat chunks * cp_chunkBits p)"
    unfolding v(3) mult_1_left by (rule le_less_trans [OF le_add2])
  then have "left = 0" unfolding mult_less_cancel2 by simp
  then have "digits_value (cp_chunkBits p) ds = fr_BigInt B x" "cvScalarDigits B x p = Some ds"
    using v(3) d p by (simp_all add: cvScalarDigits_def)
  then show thesis using that v(1,2) by blast
qed

lemma weighted_scalar:
  assumes "cvProfile p = Some (base, bound, chunks)" "length vs = nat chunks"
  shows "cvWeightedScalarV2 vs (cp_chunkBits p) = Some (\<Sum>i < nat chunks. vs ! i * of_nat (2 ^ cp_chunkBits p) ^ i)"
proof -
  note pf = profile_facts [OF assms(1)]
  have "vs \<noteq> []" using assms(2) pf(5) by auto
  moreover have "foldl (\<lambda>result (v, p). result + v * p) 0 (zip vs (cvFrPowers (of_nat (2 ^ cp_chunkBits p)) (length vs))) =
      (\<Sum>i < nat chunks. vs ! i * of_nat (2 ^ cp_chunkBits p) ^ i)"
    using foldl_plus_sum [of "\<lambda>(v, p). v * p" 0 "zip vs (cvFrPowers (of_nat (2 ^ cp_chunkBits p)) (length vs))"] assms(2)
    by (simp add: split_def cvFrPowers_eq sum_list_zip [of _ "nat chunks"] del: of_nat_power)
  ultimately show ?thesis using pf(3,4) by (simp add: cvWeightedScalarV2_def del: of_nat_power)
qed

lemma digits_value_of_nat:
  "of_nat (digits_value k ds) = (\<Sum>i < length ds. of_nat (ds ! i) * of_nat (2 ^ k) ^ i :: 'f::field)"
  by (simp add: digits_value_sum power_mult [symmetric] mult.commute)

lemma add_loop_nth:
  assumes "bls_laws B" "i < n"
  shows "add_loop B (g1_smul B (bls_genG1 B) (of_nat k)) n ! i = g1_smul B (bls_genG1 B) (of_nat (k + i))"
  using assms(2)
proof (induction n arbitrary: k i)
  case (Suc n)
  note laws = bls_lawsD(1) [OF assms(1)] and g = bls_lawsD(10) [OF assms(1)]
  have "g1_add B (g1_smul B (bls_genG1 B) (of_nat k)) (bls_genG1 B) = g1_smul B (bls_genG1 B) (of_nat (k + 1))"
    using g1_lawsD(6) [OF laws g, of "of_nat k" 1] g1_moduleD(4) [OF laws g] by (simp add: add.commute)
  then show ?case using Suc.IH [of _ "k + 1"] Suc.prems by (cases i) simp_all
qed simp

lemma digit_point_eq:
  assumes B: "bls_laws B" and t: "cvDigitPointTable B p = Some table" and d: "d < 2 ^ cp_chunkBits p"
  shows "digit_point B table d = g1_smul B (bls_genG1 B) (of_nat d)"
proof (cases table)
  case (Some points)
  from t obtain base bound chunks where p: "cvProfile p = Some (base, bound, chunks)"
    by (auto simp: cvDigitPointTable_def run_simps)
  note laws = bls_lawsD(1) [OF B] and g = bls_lawsD(10) [OF B]
  have pts: "points = g1_zero B # add_loop B (bls_genG1 B) (2 ^ cp_chunkBits p - 1)"
    using t Some p profile_facts(1) [OF p] by (auto simp: cvDigitPointTable_def nat_power_eq split: if_splits)
  show ?thesis
  proof (cases d)
    case 0
    then show ?thesis using Some pts g1_lawsD(5) [OF laws g] by (simp add: digit_point_def)
  next
    case (Suc e)
    have "add_loop B (g1_smul B (bls_genG1 B) (of_nat 1)) (2 ^ cp_chunkBits p - 1) ! e = g1_smul B (bls_genG1 B) (of_nat (1 + e))"
      by (rule add_loop_nth [OF B]) (use Suc d in simp)
    then show ?thesis using Some Suc pts g1_moduleD(4) [OF laws g] by (simp add: digit_point_def)
  qed
qed (simp add: digit_point_def)

section \<open>The batched assembly of an offer\<close>

lemma laneD:
  assumes "lane_laws B"
  shows "g1_laws B" and "g1_in B (bls_genG1 B)" and "g1_in B p \<Longrightarrow> g1_in B (g1_smul B p a)"
    and "g1_in B p \<Longrightarrow> g1_in B q \<Longrightarrow> g1_in B (g1_add B p q)" and "g1_in B (g1_zero B)"
proof -
  note b = lane_lawsD(1) [OF assms]
  show l: "g1_laws B" by (rule bls_lawsD(1) [OF b])
  show "g1_in B (bls_genG1 B)" by (rule bls_lawsD(10) [OF b])
  show "g1_in B p \<Longrightarrow> g1_in B (g1_smul B p a)" by (rule g1_lawsD(3) [OF l])
  show "g1_in B p \<Longrightarrow> g1_in B q \<Longrightarrow> g1_in B (g1_add B p q)" by (rule g1_lawsD(2) [OF l])
  show "g1_in B (g1_zero B)" by (rule g1_lawsD(1) [OF l])
qed

lemma valid_g1_in: "cvValidG1 B p a \<Longrightarrow> g1_in B p"
  by (simp add: cvValidG1_def g1_in_def)

lemma in_valid_g1: "g1_in B p \<Longrightarrow> cvValidG1 B p True"
  by (simp add: cvValidG1_def g1_in_def)

text \<open>The positions of the scalars in the two batches.\<close>

lemma base_batch:
  assumes "length cs = n" "length cn = n" "length dn = n"
  shows "i < n \<Longrightarrow> (cs @ [bc] @ cn @ dn @ [x, y, z]) ! i = cs ! i"
    and "(cs @ [bc] @ cn @ dn @ [x, y, z]) ! n = bc"
    and "i < n \<Longrightarrow> (cs @ [bc] @ cn @ dn @ [x, y, z]) ! (n + 1 + i) = cn ! i"
    and "i < n \<Longrightarrow> (cs @ [bc] @ cn @ dn @ [x, y, z]) ! (2 * n + 1 + i) = dn ! i"
    and "(cs @ [bc] @ cn @ dn @ [x, y, z]) ! (3 * n + 1) = x"
    and "(cs @ [bc] @ cn @ dn @ [x, y, z]) ! (3 * n + 2) = y"
    and "(cs @ [bc] @ cn @ dn @ [x, y, z]) ! (3 * n + 3) = z"
  using assms by (simp_all add: nth_append)

lemma key_batch:
  assumes "length cs = n" "length cn = n"
  shows "i < n \<Longrightarrow> (cs @ [bc] @ cn @ [x]) ! i = cs ! i"
    and "(cs @ [bc] @ cn @ [x]) ! n = bc"
    and "i < n \<Longrightarrow> (cs @ [bc] @ cn @ [x]) ! (n + 1 + i) = cn ! i"
    and "(cs @ [bc] @ cn @ [x]) ! (2 * n + 1) = x"
  using assms by (simp_all add: nth_append)

lemma finish_ignores_ownership:
  "cvFinishOwnershipProofV2 B ctx d (offer\<lparr> lo_Ownership := oproof \<rparr>) = cvFinishOwnershipProofV2 B ctx d offer"
  by (intro ext) (simp add: cvFinishOwnershipProofV2_def cvOwnershipChallengeScalarAfterValidationV2_def
      cvOwnershipChallengeScalarModeV2_def)

text \<open>The commitments of the step by step prover.\<close>

definition ownership_commitments ::
  "('g, 'h, 'f::field) bls \<Rightarrow> 'g \<Rightarrow> 'g \<Rightarrow> 'f list \<Rightarrow> 'f list \<Rightarrow> 'f \<Rightarrow> 'f \<Rightarrow> 'f \<Rightarrow> ('g, 'f) cvOwnershipProofV2" where
  "ownership_commitments B pk h coinNonces digitNonces blindingCoinNonce blindingShareNonce weighted =
     \<lparr> op_ScalarCoinCommitments = map (cvPointTimes B (bls_genG1 B)) coinNonces,
       op_ScalarCipherCommitments = map2 (\<lambda>coin digit. cvPointBaseAndTimes B digit pk coin) coinNonces digitNonces,
       op_BlindingCoinCommitment = cvPointTimes B (bls_genG1 B) blindingCoinNonce,
       op_BlindingCipherCommitment = cvPointJointTimes B pk blindingCoinNonce h blindingShareNonce,
       op_EvaluationCommitment = cvPointBaseAndTimes B weighted h blindingShareNonce,
       op_ScalarCoinResponses = replicate (length coinNonces) 0, op_ScalarDigitResponses = replicate (length coinNonces) 0,
       op_BlindingCoinResponse = 0, op_BlindingShareResponse = 0 \<rparr>"

text \<open>The three parts an offer consists of, given the digits, the coins and the blinding.\<close>

definition encrypts ::
  "('g, 'h, 'f::field) bls \<Rightarrow> 'g \<Rightarrow> 'g \<Rightarrow> nat list \<Rightarrow> 'f list \<Rightarrow> 'f \<Rightarrow> 'f \<Rightarrow> 'f \<Rightarrow> ('g, 'f) cvReceiverLaneOfferV2 \<Rightarrow> bool" where
  "encrypts B pk h digits coins blindingCoin scalar blinding offer \<longleftrightarrow>
     lo_ScalarChunks offer =
       map2 (\<lambda>digit coin. cvEncryptPointAfterValidationV2 B pk (g1_smul B (bls_genG1 B) (of_nat digit)) coin) digits coins \<and>
     lo_Blinding offer = cvEncryptPointAfterValidationV2 B pk (g1_smul B h blinding) blindingCoin \<and>
     lo_Evaluation offer = g1_add B (g1_smul B (bls_genG1 B) scalar) (g1_smul B h blinding)"

lemma compute_form:
  fixes B :: "('g, 'h, 'f::field) bls"
  assumes B: "lane_laws B"
    and c: "cvComputeReceiverLaneOfferV2 B ctx d rid ri pk x b rnd = Some (offer, wit)"
  obtains ds h weighted where "cvValidateReceiverBindingV2 B ctx rid ri pk" "0 \<le> d"
    "cvScalarDigits B x (lc_Profile ctx) = Some ds" "cvPedersenBase B = Some h"
    "length (rd_scalarCoins rnd) = length ds" "length (rd_coinNonces rnd) = length ds" "length (rd_digitNonces rnd) = length ds"
    "cvWeightedScalarV2 (rd_digitNonces rnd) (cp_chunkBits (lc_Profile ctx)) = Some weighted"
    "wit = \<lparr> dw_ScalarDigits = ds, dw_ScalarCoins = rd_scalarCoins rnd, dw_Blinding = b, dw_BlindingCoin = rd_blindingCoin rnd \<rparr>"
    "lo_ReceiverID offer = rid" "lo_ReceiverIndex offer = ri"
    "encrypts B pk h ds (rd_scalarCoins rnd) (rd_blindingCoin rnd) x b offer"
    "cvFinishOwnershipProofV2 B ctx d offer pk wit
       (ownership_commitments B pk h (rd_coinNonces rnd) (rd_digitNonces rnd) (rd_blindingCoinNonce rnd) (rd_blindingShareNonce rnd) weighted)
       (rd_coinNonces rnd) (rd_digitNonces rnd) (rd_blindingCoinNonce rnd) (rd_blindingShareNonce rnd) = Some (lo_Ownership offer)"
proof -
  from c obtain ds h table weighted where v: "cvValidateReceiverBindingV2 B ctx rid ri pk" "0 \<le> d"
    and ds: "cvScalarDigits B x (lc_Profile ctx) = Some ds" and h: "cvPedersenBase B = Some h"
    and len: "length (rd_scalarCoins rnd) = length ds" "length (rd_coinNonces rnd) = length ds" "length (rd_digitNonces rnd) = length ds"
    and t: "cvDigitPointTable B (lc_Profile ctx) = Some table"
    and w: "cvWeightedScalarV2 (rd_digitNonces rnd) (cp_chunkBits (lc_Profile ctx)) = Some weighted"
    unfolding cvComputeReceiverLaneOfferV2_def Let_def by (auto simp: run_simps)
  let ?n = "length ds" and ?G = "bls_genG1 B"
  note b = lane_lawsD(1) [OF B]
  have pk: "g1_in B pk" and g: "g1_in B ?G" and hin: "g1_in B h"
    using v valid_g1_in laneD(2) [OF B] cvPedersenBase_in [OF h] by (auto simp: cvValidateReceiverBindingV2_def)
  note bp = base_batch [OF len] and kp = key_batch [OF len(1,2)]
  obtain base bound chunks where p: "cvProfile (lc_Profile ctx) = Some (base, bound, chunks)"
    using t by (auto simp: cvDigitPointTable_def run_simps)
  have small: "list_all (\<lambda>d. d < 2 ^ cp_chunkBits (lc_Profile ctx)) ds"
    using scalar_digits [OF B p, of x] ds by (metis option.inject)
  have dp: "digit_point B table (ds ! i) = g1_smul B ?G (of_nat (ds ! i))" if "i < ?n" for i
    using digit_point_eq [OF b t] small that by (simp add: list_all_length)
  define bs where "bs = rd_scalarCoins rnd @ [rd_blindingCoin rnd] @ rd_coinNonces rnd @ rd_digitNonces rnd @
      [rd_blindingCoinNonce rnd, weighted, x]"
  define ks where "ks = rd_scalarCoins rnd @ [rd_blindingCoin rnd] @ rd_coinNonces rnd @ [rd_blindingCoinNonce rnd]"
  have lbs: "length bs = 3 * ?n + 4" "length ks = 2 * ?n + 2" using len by (simp_all add: bs_def ks_def)
  have bpt: "bls_BatchTimes B ?G bs ! i = g1_smul B ?G (bs ! i)" if "i < 3 * ?n + 4" for i
    using lane_lawsD(6) [OF B g] lbs that by simp
  have kpt: "bls_BatchTimes B pk ks ! i = g1_smul B pk (ks ! i)" if "i < 2 * ?n + 2" for i
    using lane_lawsD(6) [OF B pk] lbs that by simp
  note bp = bp [where bc = "rd_blindingCoin rnd" and x = "rd_blindingCoinNonce rnd" and y = weighted and z = x, folded bs_def]
  note kp = kp [where bc = "rd_blindingCoin rnd" and x = "rd_blindingCoinNonce rnd", folded ks_def]
  define wit' where "wit' = \<lparr> dw_ScalarDigits = ds, dw_ScalarCoins = rd_scalarCoins rnd, dw_Blinding = b, dw_BlindingCoin = rd_blindingCoin rnd \<rparr>"
  define eproof where "eproof = \<lparr> op_ScalarCoinCommitments = replicate ?n (g1_zero B),
       op_ScalarCipherCommitments = replicate ?n (g1_zero B), op_BlindingCoinCommitment = g1_zero B,
       op_BlindingCipherCommitment = g1_zero B, op_EvaluationCommitment = g1_zero B,
       op_ScalarCoinResponses = replicate ?n (0 :: 'f), op_ScalarDigitResponses = replicate ?n 0,
       op_BlindingCoinResponse = 0, op_BlindingShareResponse = 0 \<rparr>"
  define offer' where "offer' = \<lparr> lo_ReceiverID = rid, lo_ReceiverIndex = ri,
       lo_Evaluation = g1_add B (bls_BatchTimes B ?G bs ! (3 * ?n + 3)) (cvPointTimes B h b),
       lo_ScalarChunks = map (\<lambda>chunk. \<lparr> eg_r = bls_BatchTimes B ?G bs ! chunk,
         eg_c = g1_add B (bls_BatchTimes B pk ks ! chunk) (digit_point B table (ds ! chunk)) \<rparr>) [0..<?n],
       lo_Blinding = \<lparr> eg_r = bls_BatchTimes B ?G bs ! ?n, eg_c = g1_add B (bls_BatchTimes B pk ks ! ?n) (cvPointTimes B h b) \<rparr>,
       lo_Ownership = eproof \<rparr>"
  define cproof where "cproof = eproof\<lparr>
       op_ScalarCoinCommitments := map (\<lambda>chunk. bls_BatchTimes B ?G bs ! (?n + 1 + chunk)) [0..<?n],
       op_ScalarCipherCommitments :=
         map (\<lambda>chunk. g1_add B (bls_BatchTimes B ?G bs ! (2 * ?n + 1 + chunk)) (bls_BatchTimes B pk ks ! (?n + 1 + chunk))) [0..<?n],
       op_BlindingCoinCommitment := bls_BatchTimes B ?G bs ! (3 * ?n + 1),
       op_BlindingCipherCommitment := g1_add B (bls_BatchTimes B pk ks ! (2 * ?n + 1)) (cvPointTimes B h (rd_blindingShareNonce rnd)),
       op_EvaluationCommitment := g1_add B (bls_BatchTimes B ?G bs ! (3 * ?n + 2)) (cvPointTimes B h (rd_blindingShareNonce rnd)) \<rparr>"
  have run: "(do { oproof \<leftarrow> cvFinishOwnershipProofV2 B ctx d offer' pk wit' cproof (rd_coinNonces rnd) (rd_digitNonces rnd)
        (rd_blindingCoinNonce rnd) (rd_blindingShareNonce rnd); Some (offer'\<lparr> lo_Ownership := oproof \<rparr>, wit') }) = Some (offer, wit)"
    using c v ds h len t w
    unfolding cvComputeReceiverLaneOfferV2_def Let_def offer'_def wit'_def cproof_def eproof_def bs_def ks_def by simp
  then obtain oproof where o: "cvFinishOwnershipProofV2 B ctx d offer' pk wit' cproof (rd_coinNonces rnd) (rd_digitNonces rnd)
        (rd_blindingCoinNonce rnd) (rd_blindingShareNonce rnd) = Some oproof"
    and offer: "offer = offer'\<lparr> lo_Ownership := oproof \<rparr>" "wit = wit'" by (auto simp: run_simps)
  have cp: "cproof = ownership_commitments B pk h (rd_coinNonces rnd) (rd_digitNonces rnd) (rd_blindingCoinNonce rnd)
      (rd_blindingShareNonce rnd) weighted"
    unfolding cproof_def eproof_def ownership_commitments_def using len bpt kpt bp kp bls_lawsD(11) [OF b pk] bls_lawsD(11) [OF b hin]
      lane_lawsD(5) [OF B pk hin]
    by (auto simp: cvPointTimes_def cvPointBaseAndTimes_def cvPointJointTimes_def intro!: nth_equalityI)
  have enc: "encrypts B pk h ds (rd_scalarCoins rnd) (rd_blindingCoin rnd) x b offer"
    unfolding encrypts_def offer offer'_def using len bpt kpt bp kp dp
    by (auto simp: cvPointTimes_def cvEncryptPointAfterValidationV2_def intro!: nth_equalityI)
  show thesis
    by (rule that [OF v ds h len w _ _ _ enc])
       (use o finish_ignores_ownership [of B ctx d oproof offer'] in
         \<open>simp_all add: offer offer'_def wit'_def cp\<close>)
qed

lemma draw_nonces_shift: "draw_nonces (\<lambda>k. random (m + k)) k n = draw_nonces random (m + k) n"
  by (induction n arbitrary: k) (simp_all add: add.assoc)

lemma draw_scalars_length: "draw_scalars random k n = Some xs \<Longrightarrow> length xs = n"
  by (induction n arbitrary: k xs) (auto simp: run_simps)

lemma binding_index:
  "cvValidateReceiverBindingV2 B ctx rid ri pk \<Longrightarrow> 0 < ri \<and> ri \<le> int (length (lc_NewRoster ctx)) \<and>
     lc_NewRoster ctx ! nat (ri - 1) = rid \<and> cvValidateLeafContextV2 ctx \<and> cvValidG1 B pk False"
  by (auto simp: cvValidateReceiverBindingV2_def)

lemma binding_key: "cvValidateReceiverBindingV2 B ctx rid ri pk \<Longrightarrow> g1_in B pk"
  by (auto simp: cvValidateReceiverBindingV2_def cvValidG1_def g1_in_def)

lemma encrypts_length: "encrypts B pk h ds coins bc x b offer \<Longrightarrow> length coins = length ds \<Longrightarrow>
   length (lo_ScalarChunks offer) = length ds"
  by (simp add: encrypts_def)

lemma batched_stepwise:
  assumes B: "lane_laws B" and chunks: "cvChunkCount (lc_Profile ctx) = Some chunks"
    and e: "cvEncryptReceiverLanesV2 B random ctx d rid ri pk x b = Some (offer, wit)"
  shows "cvProveOwnershipAfterEncryptionV2 B (\<lambda>k. random (nat chunks + 1 + k)) ctx d offer pk wit = Some (lo_Ownership offer)"
    and "\<exists>h. cvPedersenBase B = Some h \<and> encrypts B pk h (dw_ScalarDigits wit) (dw_ScalarCoins wit) (dw_BlindingCoin wit) x b offer"
proof -
  from e chunks obtain rnd where r: "cvGenerateReceiverLaneRandomnessV2 random chunks = Some rnd"
    and c: "cvComputeReceiverLaneOfferV2 B ctx d rid ri pk x b rnd = Some (offer, wit)"
    by (auto simp: cvEncryptReceiverLanesV2_def run_simps)
  from compute_form [OF B c] obtain ds h weighted where v: "cvValidateReceiverBindingV2 B ctx rid ri pk" "0 \<le> d"
    and ds: "cvScalarDigits B x (lc_Profile ctx) = Some ds" and h: "cvPedersenBase B = Some h"
    and len: "length (rd_scalarCoins rnd) = length ds" "length (rd_coinNonces rnd) = length ds" "length (rd_digitNonces rnd) = length ds"
    and w: "cvWeightedScalarV2 (rd_digitNonces rnd) (cp_chunkBits (lc_Profile ctx)) = Some weighted"
    and wit: "wit = \<lparr> dw_ScalarDigits = ds, dw_ScalarCoins = rd_scalarCoins rnd, dw_Blinding = b, dw_BlindingCoin = rd_blindingCoin rnd \<rparr>"
    and offer: "lo_ReceiverID offer = rid" "lo_ReceiverIndex offer = ri"
    and enc: "encrypts B pk h ds (rd_scalarCoins rnd) (rd_blindingCoin rnd) x b offer"
    and fin: "cvFinishOwnershipProofV2 B ctx d offer pk wit
       (ownership_commitments B pk h (rd_coinNonces rnd) (rd_digitNonces rnd) (rd_blindingCoinNonce rnd) (rd_blindingShareNonce rnd) weighted)
       (rd_coinNonces rnd) (rd_digitNonces rnd) (rd_blindingCoinNonce rnd) (rd_blindingShareNonce rnd) = Some (lo_Ownership offer)"
    by blast
  from r obtain nonces where ns: "draw_nonces random (nat chunks + 1) (nat chunks) = Some nonces"
    and rnd: "rd_coinNonces rnd = map fst nonces" "rd_digitNonces rnd = map snd nonces"
      "random (3 * nat chunks + 1) = Some (rd_blindingCoinNonce rnd)" "random (3 * nat chunks + 2) = Some (rd_blindingShareNonce rnd)"
    and pos: "0 < chunks"
    by (auto simp: cvGenerateReceiverLaneRandomnessV2_def Let_def run_simps)
  have n: "length ds = nat chunks" using len(2) rnd(1) draw_nonces_length [OF ns] by simp
  have "cvValidateLaneOfferShapeAfterPointDecodingV2 ctx offer"
    using binding_index [OF v(1)] offer chunks encrypts_length [OF enc len(1)] n pos
    by (simp add: cvValidateLaneOfferShapeAfterPointDecodingV2_def)
  moreover have "ownership_commitments B pk h (rd_coinNonces rnd) (rd_digitNonces rnd) (rd_blindingCoinNonce rnd) (rd_blindingShareNonce rnd) weighted =
      \<lparr> op_ScalarCoinCommitments = map (\<lambda>(coin, digit). cvPointTimes B (bls_genG1 B) coin) nonces,
         op_ScalarCipherCommitments = map (\<lambda>(coin, digit). cvPointBaseAndTimes B digit pk coin) nonces,
         op_BlindingCoinCommitment = cvPointTimes B (bls_genG1 B) (rd_blindingCoinNonce rnd),
         op_BlindingCipherCommitment = cvPointJointTimes B pk (rd_blindingCoinNonce rnd) h (rd_blindingShareNonce rnd),
         op_EvaluationCommitment = cvPointBaseAndTimes B weighted h (rd_blindingShareNonce rnd),
         op_ScalarCoinResponses = replicate (nat chunks) 0, op_ScalarDigitResponses = replicate (nat chunks) 0,
         op_BlindingCoinResponse = 0, op_BlindingShareResponse = 0 \<rparr>"
    using draw_nonces_length [OF ns]
    by (simp add: ownership_commitments_def rnd zip_map_fst_snd split_def comp_def)
  ultimately show "cvProveOwnershipAfterEncryptionV2 B (\<lambda>k. random (nat chunks + 1 + k)) ctx d offer pk wit = Some (lo_Ownership offer)"
    using chunks h ns rnd(3,4) w fin n len(1) pos draw_nonces_shift [of random "nat chunks + 1" 0 "nat chunks"]
    by (simp add: cvProveOwnershipAfterEncryptionV2_def cvProveOwnershipModeV2_def rnd(1,2) wit algebra_simps)
  show "\<exists>h. cvPedersenBase B = Some h \<and> encrypts B pk h (dw_ScalarDigits wit) (dw_ScalarCoins wit) (dw_BlindingCoin wit) x b offer"
    using h enc by (simp add: wit)
qed

text \<open>C33: the batched assembly is the step by step prover: for an offer that was made with one stream of random scalars,
  the prover of a given encryption, run on the rest of that stream, returns the very proof the offer carries, and the
  ciphertexts are encryptions of the digit points and of the blinding point.\<close>

theorem batched_lane_is_stepwise:
  assumes "lane_laws B" and "cvChunkCount (lc_Profile ctx) = Some chunks"
    and "cvEncryptReceiverLanesV2 B random ctx d rid ri pk x b = Some (offer, wit)"
  shows "cvProveOwnershipAfterEncryptionV2 B (\<lambda>k. random (nat chunks + 1 + k)) ctx d offer pk wit = Some (lo_Ownership offer) \<and>
    (\<exists>h. cvPedersenBase B = Some h \<and> encrypts B pk h (dw_ScalarDigits wit) (dw_ScalarCoins wit) (dw_BlindingCoin wit) x b offer)"
  using batched_stepwise [OF assms] by simp

section \<open>Combinations of the three bases\<close>

text \<open>The points of an honest offer are combinations of the generator, the receiver's key and the Pedersen base.\<close>

definition lc3 :: "('g, 'h, 'f::field) bls \<Rightarrow> 'g \<Rightarrow> 'g \<Rightarrow> 'f \<Rightarrow> 'f \<Rightarrow> 'f \<Rightarrow> 'g" where
  "lc3 B pk h a b c = g1_add B (g1_add B (g1_smul B (bls_genG1 B) a) (g1_smul B pk b)) (g1_smul B h c)"

lemma lc3_facts:
  assumes B: "lane_laws B" and pk: "g1_in B pk" and h: "g1_in B h"
  shows "g1_in B (lc3 B pk h a b c)"
    and "g1_smul B (bls_genG1 B) a = lc3 B pk h a 0 0" and "g1_smul B pk b = lc3 B pk h 0 b 0"
    and "g1_smul B h c = lc3 B pk h 0 0 c" and "g1_zero B = lc3 B pk h 0 0 0"
    and "g1_add B (lc3 B pk h a b c) (lc3 B pk h a' b' c') = lc3 B pk h (a + a') (b + b') (c + c')"
    and "g1_smul B (lc3 B pk h a b c) x = lc3 B pk h (a * x) (b * x) (c * x)"
proof -
  note laws = laneD(1) [OF B] and g = laneD(2) [OF B]
  note L = g1_lawsD [OF laws] and M = g1_moduleD [OF laws]
  have ins: "g1_in B (g1_smul B (bls_genG1 B) a)" "g1_in B (g1_smul B pk a)" "g1_in B (g1_smul B h a)" for a
    using L(3) g pk h by auto
  have zr: "g1_add B p (g1_zero B) = p" if "g1_in B p" for p using M(1) [OF that L(1)] L(4) [OF that] by simp
  show "g1_in B (lc3 B pk h a b c)" using ins L(2) by (simp add: lc3_def)
  show "g1_smul B (bls_genG1 B) a = lc3 B pk h a 0 0" "g1_smul B pk b = lc3 B pk h 0 b 0" "g1_smul B h c = lc3 B pk h 0 0 c"
    "g1_zero B = lc3 B pk h 0 0 0"
    using ins zr L(1,4,5) g pk h by (simp_all add: lc3_def)
  show "g1_add B (lc3 B pk h a b c) (lc3 B pk h a' b' c') = lc3 B pk h (a + a') (b + b') (c + c')"
    using ins L(2,6) g pk h by (simp add: lc3_def g1_add_swap [OF laws])
  show "g1_smul B (lc3 B pk h a b c) x = lc3 B pk h (a * x) (b * x) (c * x)"
    using ins L(2,7) g pk h M(3) by (simp add: lc3_def)
qed

lemma honest_equations:
  assumes B: "lane_laws B" and pk: "g1_in B pk" and h: "g1_in B h"
  shows "coin_equation B ch (g1_smul B (bls_genG1 B) s) (cvPointTimes B (bls_genG1 B) n) (ch * s + n)"
    and "cipher_equation B ch pk (g1_add B (g1_smul B pk s) (g1_smul B (bls_genG1 B) t)) (cvPointBaseAndTimes B m pk n) (ch * t + m) (ch * s + n)"
    and "cipher_equation B ch h (g1_add B (g1_smul B (bls_genG1 B) t) (g1_smul B h s)) (cvPointBaseAndTimes B m h n) (ch * t + m) (ch * s + n)"
    and "blinding_equation B ch pk h (g1_add B (g1_smul B pk s) (g1_smul B h t)) (cvPointJointTimes B pk n h m) (ch * s + n) (ch * t + m)"
proof -
  note b = lane_lawsD(1) [OF B]
  note f = lc3_facts [OF B pk h]
  note ps = point_sum_two [OF b] and jb = bls_lawsD(11) [OF b] and jt = lane_lawsD(5) [OF B pk h]
  show "coin_equation B ch (g1_smul B (bls_genG1 B) s) (cvPointTimes B (bls_genG1 B) n) (ch * s + n)"
    by (simp add: coin_equation_def cvPointTimes_def f ps) (simp add: algebra_simps)
  show "cipher_equation B ch pk (g1_add B (g1_smul B pk s) (g1_smul B (bls_genG1 B) t)) (cvPointBaseAndTimes B m pk n) (ch * t + m) (ch * s + n)"
    by (simp add: cipher_equation_def cvPointTimes_def cvPointBaseAndTimes_def jb [OF pk] f ps) (simp add: algebra_simps)
  show "cipher_equation B ch h (g1_add B (g1_smul B (bls_genG1 B) t) (g1_smul B h s)) (cvPointBaseAndTimes B m h n) (ch * t + m) (ch * s + n)"
    by (simp add: cipher_equation_def cvPointTimes_def cvPointBaseAndTimes_def jb [OF h] f ps) (simp add: algebra_simps)
  show "blinding_equation B ch pk h (g1_add B (g1_smul B pk s) (g1_smul B h t)) (cvPointJointTimes B pk n h m) (ch * s + n) (ch * t + m)"
    by (simp add: blinding_equation_def cvPointTimes_def cvPointJointTimes_def jt f ps) (simp add: algebra_simps)
qed

section \<open>Honest offers are accepted\<close>

lemma challenge_ignores_responses:
  assumes "op_ScalarCoinCommitments o1 = op_ScalarCoinCommitments o2" "op_ScalarCipherCommitments o1 = op_ScalarCipherCommitments o2"
    "op_BlindingCoinCommitment o1 = op_BlindingCoinCommitment o2" "op_BlindingCipherCommitment o1 = op_BlindingCipherCommitment o2"
    "op_EvaluationCommitment o1 = op_EvaluationCommitment o2"
  shows "cvOwnershipChallengeScalarAfterValidationV2 B ctx d offer pk o1 = cvOwnershipChallengeScalarAfterValidationV2 B ctx d offer pk o2"
  using assms by (simp add: cvOwnershipChallengeScalarAfterValidationV2_def cvOwnershipChallengeScalarModeV2_def)

lemma lane_points:
  assumes B: "lane_laws B" and pk: "g1_in B pk" and h: "g1_in B h"
  shows "cvValidG1 B (cvPointTimes B (bls_genG1 B) a) True" "cvValidG1 B (cvPointBaseAndTimes B a pk b) True"
    "cvValidG1 B (cvPointBaseAndTimes B a h b) True" "cvValidG1 B (cvPointJointTimes B pk a h b) True"
  using B pk h laneD(2-) [OF B] bls_lawsD(11) [OF lane_lawsD(1) [OF B]] lane_lawsD(5) [OF B]
  by (simp_all add: cvPointTimes_def cvPointBaseAndTimes_def cvPointJointTimes_def in_valid_g1)

lemma encrypts_points:
  assumes B: "lane_laws B" and pk: "g1_in B pk" and h: "g1_in B h"
    and e: "encrypts B pk h ds coins bc x b offer" and len: "length coins = length ds"
  shows "cvValidG1 B (lo_Evaluation offer) True" "cvValidCiphertext B (lo_Blinding offer)"
    "list_all (cvValidCiphertext B) (lo_ScalarChunks offer)"
  using e len pk h laneD(2-) [OF B]
  by (auto simp: encrypts_def cvValidCiphertext_def cvEncryptPointAfterValidationV2_def list_all_length in_valid_g1)

lemma encrypts_shape:
  assumes B: "lane_laws B" and h: "g1_in B h" and p: "cvChunkCount (lc_Profile ctx) = Some chunks"
    and v: "cvValidateReceiverBindingV2 B ctx rid ri pk" and o: "lo_ReceiverID offer = rid" "lo_ReceiverIndex offer = ri"
    and e: "encrypts B pk h ds coins bc x b offer" and len: "length coins = length ds" "int (length ds) = chunks"
  shows "cvValidateLaneOfferShapeV2 B ctx offer pk" "cvValidateLaneOfferShapeAfterPointDecodingV2 ctx offer"
proof -
  have pk: "g1_in B pk" by (rule binding_key [OF v])
  show "cvValidateLaneOfferShapeV2 B ctx offer pk"
    using encrypts_points [OF B pk h e len(1)] encrypts_length [OF e len(1)] v o p len(2)
    by (simp add: cvValidateLaneOfferShapeV2_def)
  show "cvValidateLaneOfferShapeAfterPointDecodingV2 ctx offer"
    using encrypts_length [OF e len(1)] binding_index [OF v] o p len(2)
    by (simp add: cvValidateLaneOfferShapeAfterPointDecodingV2_def)
qed

lemma finish_verifies:
  fixes B :: "('g, 'h, 'f::field) bls"
  assumes B: "lane_laws B" and p: "cvProfile (lc_Profile ctx) = Some (base, bound, chunks)"
    and v: "cvValidateReceiverBindingV2 B ctx rid ri pk" "0 \<le> d" and h: "cvPedersenBase B = Some h"
    and len: "length ds = nat chunks" "length coins = nat chunks" "length cn = nat chunks" "length dn = nat chunks"
    and x: "of_nat (digits_value (cp_chunkBits (lc_Profile ctx)) ds) = x"
    and w: "cvWeightedScalarV2 dn (cp_chunkBits (lc_Profile ctx)) = Some weighted"
    and o: "lo_ReceiverID offer = rid" "lo_ReceiverIndex offer = ri"
    and enc: "encrypts B pk h ds coins bc x b offer"
    and fin: "cvFinishOwnershipProofV2 B ctx d offer pk \<lparr> dw_ScalarDigits = ds, dw_ScalarCoins = coins, dw_Blinding = b, dw_BlindingCoin = bc \<rparr>
       (ownership_commitments B pk h cn dn bcn bsn weighted) cn dn bcn bsn = Some (lo_Ownership offer)"
  shows "cvVerifyOwnershipModeV2 B ctx d offer pk validatePoints"
proof -
  let ?k = "cp_chunkBits (lc_Profile ctx)" and ?n = "nat chunks"
  note pf = profile_facts [OF p]
  have cc: "cvChunkCount (lc_Profile ctx) = Some chunks" using p by (simp add: cvChunkCount_def)
  have hin: "g1_in B h" by (rule cvPedersenBase_in [OF h])
  have pk: "g1_in B pk" by (rule binding_key [OF v(1)])
  from fin obtain ch where ch: "cvOwnershipChallengeScalarAfterValidationV2 B ctx d offer pk (ownership_commitments B pk h cn dn bcn bsn weighted) = Some ch"
    and own: "lo_Ownership offer = (ownership_commitments B pk h cn dn bcn bsn weighted)\<lparr>
       op_ScalarCoinResponses := map (\<lambda>i. ch * coins ! i + cn ! i) [0..<?n],
       op_ScalarDigitResponses := map (\<lambda>i. ch * of_nat (ds ! i) + dn ! i) [0..<?n],
       op_BlindingCoinResponse := ch * bc + bcn, op_BlindingShareResponse := ch * b + bsn \<rparr>"
    using len by (auto simp: cvFinishOwnershipProofV2_def run_simps Let_def)
  have ch': "cvOwnershipChallengeScalarAfterValidationV2 B ctx d offer pk (lo_Ownership offer) = Some ch"
    unfolding ch [symmetric] by (rule challenge_ignores_responses) (simp_all add: own)
  have shape: "cvValidateLaneOfferShapeV2 B ctx offer pk" "cvValidateLaneOfferShapeAfterPointDecodingV2 ctx offer"
    using encrypts_shape [OF B hin cc v(1) o enc] len pf(5) by auto
  have dims: "proof_dimensions chunks (lo_Ownership offer)"
    using len pf(5) by (simp add: proof_dimensions_def own ownership_commitments_def)
  have pts: "proof_points B chunks (lo_Ownership offer)"
    using len lane_points [OF B pk hin] by (simp add: proof_points_def own ownership_commitments_def list_all_iff)
  note eqs = honest_equations [OF B pk hin, of ch]
  have chunk: "list_all (\<lambda>i. coin_equation B ch (eg_r (lo_ScalarChunks offer ! i)) (op_ScalarCoinCommitments (lo_Ownership offer) ! i)
         (op_ScalarCoinResponses (lo_Ownership offer) ! i) \<and>
       cipher_equation B ch pk (eg_c (lo_ScalarChunks offer ! i)) (op_ScalarCipherCommitments (lo_Ownership offer) ! i)
         (op_ScalarDigitResponses (lo_Ownership offer) ! i) (op_ScalarCoinResponses (lo_Ownership offer) ! i)) [0..<?n]"
    using len eqs enc by (simp add: list_all_iff own ownership_commitments_def encrypts_def cvEncryptPointAfterValidationV2_def)
  have resp: "cvWeightedScalarV2 (op_ScalarDigitResponses (lo_Ownership offer)) ?k = Some (ch * x + weighted)"
  proof -
    have "(\<Sum>i < ?n. (ch * of_nat (ds ! i) + dn ! i) * of_nat (2 ^ ?k) ^ i) =
        ch * (\<Sum>i < ?n. of_nat (ds ! i) * of_nat (2 ^ ?k) ^ i) + (\<Sum>i < ?n. dn ! i * of_nat (2 ^ ?k) ^ i)"
      by (simp add: distrib_right sum.distrib sum_distrib_left mult.assoc)
    also have "(\<Sum>i < ?n. of_nat (ds ! i) * of_nat (2 ^ ?k) ^ i) = x"
      using digits_value_of_nat [of ?k ds, where 'f = 'f] x len(1) by simp
    also have "(\<Sum>i < ?n. dn ! i * of_nat (2 ^ ?k) ^ i) = weighted"
      using weighted_scalar [OF p len(4)] w by simp
    finally have "(\<Sum>i < ?n. (ch * of_nat (ds ! i) + dn ! i) * of_nat (2 ^ ?k) ^ i) = ch * x + weighted" .
    moreover have "cvWeightedScalarV2 (map (\<lambda>i. ch * of_nat (ds ! i) + dn ! i) [0..<?n]) ?k =
        Some (\<Sum>i < ?n. (ch * of_nat (ds ! i) + dn ! i) * of_nat (2 ^ ?k) ^ i)"
      by (subst weighted_scalar [OF p]) simp_all
    ultimately show ?thesis by (simp add: own)
  qed
  have rest: "coin_equation B ch (eg_r (lo_Blinding offer)) (op_BlindingCoinCommitment (lo_Ownership offer)) (op_BlindingCoinResponse (lo_Ownership offer))"
    "blinding_equation B ch pk h (eg_c (lo_Blinding offer)) (op_BlindingCipherCommitment (lo_Ownership offer))
       (op_BlindingCoinResponse (lo_Ownership offer)) (op_BlindingShareResponse (lo_Ownership offer))"
    "cipher_equation B ch h (lo_Evaluation offer) (op_EvaluationCommitment (lo_Ownership offer)) (ch * x + weighted) (op_BlindingShareResponse (lo_Ownership offer))"
    using eqs enc by (simp_all add: own ownership_commitments_def encrypts_def cvEncryptPointAfterValidationV2_def)
  show ?thesis
    using v(2) shape cc dims pts ch' h chunk resp rest by (simp add: cvVerifyOwnershipModeV2_def)
qed

section \<open>The batch accepts what the exact verifier accepts\<close>

lemma lincomb_snoc: "g1_lincomb G (ts @ [(p, c)]) = g1_add G (g1_lincomb G ts) (g1_smul G p c)"
  by (simp add: g1_lincomb_def)

lemma lincomb_in:
  assumes "g1_laws G" "\<forall>(p, c) \<in> set ts. g1_in G p"
  shows "g1_in G (g1_lincomb G ts)"
  using assms(2)
proof (induction ts rule: rev_induct)
  case Nil
  then show ?case using g1_lawsD(1) [OF assms(1)] by (simp add: g1_lincomb_def)
next
  case (snoc t ts)
  then show ?case using g1_lawsD(2,3) [OF assms(1)] by (cases t) (simp add: lincomb_snoc)
qed

lemma lincomb_append:
  assumes "g1_laws G" "\<forall>(p, c) \<in> set ts. g1_in G p" "\<forall>(p, c) \<in> set us. g1_in G p"
  shows "g1_lincomb G (ts @ us) = g1_add G (g1_lincomb G ts) (g1_lincomb G us)"
  using assms(3)
proof (induction us rule: rev_induct)
  case Nil
  note i = lincomb_in [OF assms(1,2)]
  show ?case using g1_moduleD(1) [OF assms(1) i g1_lawsD(1) [OF assms(1)]] g1_lawsD(4) [OF assms(1) i]
    by (simp add: g1_lincomb_def [of G "[]"])
next
  case (snoc u us)
  obtain p c where u: "u = (p, c)" by (cases u)
  have "g1_lincomb G (ts @ us @ [u]) = g1_add G (g1_lincomb G (ts @ us)) (g1_smul G p c)"
    using lincomb_snoc [of G "ts @ us"] by (simp add: u)
  then show ?case
    using snoc g1_moduleD(2) [OF assms(1)] lincomb_in [OF assms(1,2)] lincomb_in [OF assms(1), of us] g1_lawsD(3) [OF assms(1)]
    by (simp add: u lincomb_snoc)
qed

text \<open>Two terms of an equation \<open>L = K + ch C\<close>, weighted by \<open>- w\<close>.\<close>

lemma weighted_equation:
  assumes B: "lane_laws B" and pk: "g1_in B pk" and h: "g1_in B h" and K: "g1_in B K" and C: "g1_in B C" and T: "g1_in B T"
    and e: "lc3 B pk h a b c = g1_add B K (g1_smul B C ch)"
    and t: "g1_lincomb B ts = g1_add B T (lc3 B pk h a' b' c')"
  shows "g1_lincomb B (ts @ [(K, - w), (C, - (w * ch))]) = g1_add B T (lc3 B pk h (a' - w * a) (b' - w * b) (c' - w * c))"
proof -
  note laws = laneD(1) [OF B]
  note L = g1_lawsD [OF laws] and M = g1_moduleD [OF laws] and f = lc3_facts [OF B pk h]
  have "g1_lincomb B (ts @ [(K, - w), (C, - (w * ch))]) =
      g1_add B (g1_add B (g1_lincomb B ts) (g1_smul B K (- w))) (g1_smul B C (- (w * ch)))"
    by (simp add: g1_lincomb_def)
  also have "\<dots> = g1_add B (g1_add B T (lc3 B pk h a' b' c')) (g1_add B (g1_smul B K (- w)) (g1_smul B C (- (w * ch))))"
    unfolding t by (rule M(2)) (use L(2,3) T f(1) K C in simp_all)
  also have "g1_add B (g1_smul B K (- w)) (g1_smul B C (- (w * ch))) = g1_smul B (lc3 B pk h a b c) (- w)"
    unfolding e using M(3) [OF K L(3) [OF C]] L(7) [OF C, of ch "- w"] by (simp add: mult.commute)
  also have "\<dots> = lc3 B pk h (- w * a) (- w * b) (- w * c)" by (simp add: f(7) mult.commute)
  also have "g1_add B (g1_add B T (lc3 B pk h a' b' c')) (lc3 B pk h (- w * a) (- w * b) (- w * c)) =
      g1_add B T (g1_add B (lc3 B pk h a' b' c') (lc3 B pk h (- w * a) (- w * b) (- w * c)))"
    by (rule M(2)) (use T f(1) in simp_all)
  finally show ?thesis by (simp add: f(6))
qed

text \<open>The exact equations in terms of the three bases.\<close>

lemma equations_lc3:
  assumes B: "lane_laws B" and pk: "g1_in B pk" and h: "g1_in B h" and K: "g1_in B K" and C: "g1_in B C"
  shows "coin_equation B ch C K s \<longleftrightarrow> lc3 B pk h s 0 0 = g1_add B K (g1_smul B C ch)"
    and "cipher_equation B ch pk C K t s \<longleftrightarrow> lc3 B pk h t s 0 = g1_add B K (g1_smul B C ch)"
    and "cipher_equation B ch h C K t s \<longleftrightarrow> lc3 B pk h t 0 s = g1_add B K (g1_smul B C ch)"
    and "blinding_equation B ch pk h C K s t \<longleftrightarrow> lc3 B pk h 0 s t = g1_add B K (g1_smul B C ch)"
proof -
  note b = lane_lawsD(1) [OF B]
  note f = lc3_facts [OF B pk h]
  have ps: "cvPointSum B [K, g1_smul B C ch] = g1_add B K (g1_smul B C ch)"
    by (rule point_sum_two [OF b K laneD(3) [OF B C]])
  show "coin_equation B ch C K s \<longleftrightarrow> lc3 B pk h s 0 0 = g1_add B K (g1_smul B C ch)"
    unfolding coin_equation_def cvPointTimes_def ps f(2) ..
  show "cipher_equation B ch pk C K t s \<longleftrightarrow> lc3 B pk h t s 0 = g1_add B K (g1_smul B C ch)"
    unfolding cipher_equation_def cvPointTimes_def cvPointBaseAndTimes_def ps bls_lawsD(11) [OF b pk] f(2,3,6) by simp
  show "cipher_equation B ch h C K t s \<longleftrightarrow> lc3 B pk h t 0 s = g1_add B K (g1_smul B C ch)"
    unfolding cipher_equation_def cvPointTimes_def cvPointBaseAndTimes_def ps bls_lawsD(11) [OF b h] f(2,4,6) by simp
  show "blinding_equation B ch pk h C K s t \<longleftrightarrow> lc3 B pk h 0 s t = g1_add B K (g1_smul B C ch)"
    unfolding blinding_equation_def cvPointTimes_def cvPointJointTimes_def ps lane_lawsD(5) [OF B pk h] f(3,4,6) by simp
qed

text \<open>What exact acceptance with the point checks gives.\<close>

lemma verify_ownership_D:
  assumes "cvVerifyOwnershipModeV2 B ctx d offer pk True" "cvPedersenBase B = Some h" "cvChunkCount (lc_Profile ctx) = Some chunks"
  obtains ch weighted where "0 \<le> d" "cvValidateLaneOfferShapeV2 B ctx offer pk" "proof_dimensions chunks (lo_Ownership offer)"
    "proof_points B chunks (lo_Ownership offer)"
    "cvOwnershipChallengeScalarAfterValidationV2 B ctx d offer pk (lo_Ownership offer) = Some ch"
    "\<And>i. i < nat chunks \<Longrightarrow> coin_equation B ch (eg_r (lo_ScalarChunks offer ! i)) (op_ScalarCoinCommitments (lo_Ownership offer) ! i)
       (op_ScalarCoinResponses (lo_Ownership offer) ! i)"
    "\<And>i. i < nat chunks \<Longrightarrow> cipher_equation B ch pk (eg_c (lo_ScalarChunks offer ! i)) (op_ScalarCipherCommitments (lo_Ownership offer) ! i)
       (op_ScalarDigitResponses (lo_Ownership offer) ! i) (op_ScalarCoinResponses (lo_Ownership offer) ! i)"
    "coin_equation B ch (eg_r (lo_Blinding offer)) (op_BlindingCoinCommitment (lo_Ownership offer)) (op_BlindingCoinResponse (lo_Ownership offer))"
    "blinding_equation B ch pk h (eg_c (lo_Blinding offer)) (op_BlindingCipherCommitment (lo_Ownership offer))
       (op_BlindingCoinResponse (lo_Ownership offer)) (op_BlindingShareResponse (lo_Ownership offer))"
    "cvWeightedScalarV2 (op_ScalarDigitResponses (lo_Ownership offer)) (cp_chunkBits (lc_Profile ctx)) = Some weighted"
    "cipher_equation B ch h (lo_Evaluation offer) (op_EvaluationCommitment (lo_Ownership offer)) weighted (op_BlindingShareResponse (lo_Ownership offer))"
  using assms by (auto simp: cvVerifyOwnershipModeV2_def run_simps Let_def list_all_iff)

lemma shape_D:
  assumes "cvValidateLaneOfferShapeV2 B ctx offer pk" "cvChunkCount (lc_Profile ctx) = Some chunks"
  shows "g1_in B pk" "g1_in B (lo_Evaluation offer)" "g1_in B (eg_r (lo_Blinding offer))" "g1_in B (eg_c (lo_Blinding offer))"
    "int (length (lo_ScalarChunks offer)) = chunks"
    "i < nat chunks \<Longrightarrow> g1_in B (eg_r (lo_ScalarChunks offer ! i))" "i < nat chunks \<Longrightarrow> g1_in B (eg_c (lo_ScalarChunks offer ! i))"
    "cvValidateReceiverBindingV2 B ctx (lo_ReceiverID offer) (lo_ReceiverIndex offer) pk"
    "cvValidateLaneOfferShapeAfterPointDecodingV2 ctx offer"
  using assms by (auto simp: cvValidateLaneOfferShapeV2_def run_simps cvValidCiphertext_def cvValidG1_def g1_in_def list_all_length
      cvValidateReceiverBindingV2_def cvValidateLaneOfferShapeAfterPointDecodingV2_def)

lemma points_D:
  assumes "proof_points B chunks oproof"
  shows "g1_in B (op_BlindingCoinCommitment oproof)" "g1_in B (op_BlindingCipherCommitment oproof)" "g1_in B (op_EvaluationCommitment oproof)"
    "i < nat chunks \<Longrightarrow> g1_in B (op_ScalarCoinCommitments oproof ! i)" "i < nat chunks \<Longrightarrow> g1_in B (op_ScalarCipherCommitments oproof ! i)"
  using assms by (auto simp: proof_points_def list_all_iff cvValidG1_def g1_in_def)

lemma batch_chunk_value:
  assumes B: "lane_laws B" and h: "g1_in B h" and T: "g1_in B T"
    and s: "cvValidateLaneOfferShapeV2 B ctx offer pk" "cvChunkCount (lc_Profile ctx) = Some chunks"
    and pts: "proof_points B chunks (lo_Ownership offer)" and i: "i < nat chunks"
    and e: "coin_equation B ch (eg_r (lo_ScalarChunks offer ! i)) (op_ScalarCoinCommitments (lo_Ownership offer) ! i)
       (op_ScalarCoinResponses (lo_Ownership offer) ! i)"
    "cipher_equation B ch pk (eg_c (lo_ScalarChunks offer ! i)) (op_ScalarCipherCommitments (lo_Ownership offer) ! i)
       (op_ScalarDigitResponses (lo_Ownership offer) ! i) (op_ScalarCoinResponses (lo_Ownership offer) ! i)"
    and t: "g1_lincomb B ts = g1_add B T (lc3 B pk h (- gs) (- ks) (- ps))"
    and step: "batch_chunk weights ch offer (wi, ts, gs, ps, ks) i = (wi', ts', gs', ps', ks')"
  shows "g1_lincomb B ts' = g1_add B T (lc3 B pk h (- gs') (- ks') (- ps'))"
proof -
  note sh = shape_D [OF s] and pt = points_D [OF pts]
  let ?o = "lo_Ownership offer" and ?w = "weights ! wi" and ?v = "weights ! (wi + 1)"
  have 1: "g1_lincomb B (ts @ [(op_ScalarCoinCommitments ?o ! i, - ?w), (eg_r (lo_ScalarChunks offer ! i), - (?w * ch))]) =
      g1_add B T (lc3 B pk h (- gs - ?w * op_ScalarCoinResponses ?o ! i) (- ks - ?w * 0) (- ps - ?w * 0))"
    by (rule weighted_equation [OF B sh(1) h pt(4) [OF i] sh(6) [OF i] T _ t])
       (use e(1) equations_lc3(1) [OF B sh(1) h pt(4) [OF i] sh(6) [OF i]] in simp)
  have "g1_lincomb B ((ts @ [(op_ScalarCoinCommitments ?o ! i, - ?w), (eg_r (lo_ScalarChunks offer ! i), - (?w * ch))]) @
      [(op_ScalarCipherCommitments ?o ! i, - ?v), (eg_c (lo_ScalarChunks offer ! i), - (?v * ch))]) =
      g1_add B T (lc3 B pk h (- gs - ?w * op_ScalarCoinResponses ?o ! i - ?v * op_ScalarDigitResponses ?o ! i)
        (- ks - ?w * 0 - ?v * op_ScalarCoinResponses ?o ! i) (- ps - ?w * 0 - ?v * 0))"
    by (rule weighted_equation [OF B sh(1) h pt(5) [OF i] sh(7) [OF i] T _ 1])
       (use e(2) equations_lc3(2) [OF B sh(1) h pt(5) [OF i] sh(7) [OF i]] in simp)
  then show ?thesis using step by (auto simp: batch_chunk_def Let_def)
qed

lemma batch_chunks_value:
  assumes B: "lane_laws B" and h: "g1_in B h" and T: "g1_in B T"
    and s: "cvValidateLaneOfferShapeV2 B ctx offer pk" "cvChunkCount (lc_Profile ctx) = Some chunks"
    and pts: "proof_points B chunks (lo_Ownership offer)"
    and e: "\<And>i. i < nat chunks \<Longrightarrow> coin_equation B ch (eg_r (lo_ScalarChunks offer ! i)) (op_ScalarCoinCommitments (lo_Ownership offer) ! i)
       (op_ScalarCoinResponses (lo_Ownership offer) ! i)"
    "\<And>i. i < nat chunks \<Longrightarrow> cipher_equation B ch pk (eg_c (lo_ScalarChunks offer ! i)) (op_ScalarCipherCommitments (lo_Ownership offer) ! i)
       (op_ScalarDigitResponses (lo_Ownership offer) ! i) (op_ScalarCoinResponses (lo_Ownership offer) ! i)"
    and t: "g1_lincomb B ts = g1_add B T (lc3 B pk h (- gs) (- ks) (- ps))" and n: "n \<le> nat chunks"
    and "foldl (batch_chunk weights ch offer) (wi, ts, gs, ps, ks) [0..<n] = (wi', ts', gs', ps', ks')"
  shows "g1_lincomb B ts' = g1_add B T (lc3 B pk h (- gs') (- ks') (- ps'))"
  using n assms(11)
proof (induction n arbitrary: wi' ts' gs' ps' ks')
  case 0
  then show ?case using t by simp
next
  case (Suc n)
  obtain wi2 ts2 gs2 ps2 ks2 where st: "foldl (batch_chunk weights ch offer) (wi, ts, gs, ps, ks) [0..<n] = (wi2, ts2, gs2, ps2, ks2)"
    by (metis prod_cases5)
  have n: "n < nat chunks" using Suc.prems by simp
  have "g1_lincomb B ts2 = g1_add B T (lc3 B pk h (- gs2) (- ks2) (- ps2))" using Suc.IH [OF _ st] n by simp
  moreover have "batch_chunk weights ch offer (wi2, ts2, gs2, ps2, ks2) n = (wi', ts', gs', ps', ks')" using Suc.prems(2) st by simp
  ultimately show ?case by (rule batch_chunk_value [OF B h T s pts n e(1) [OF n] e(2) [OF n]])
qed

lemma batch_offer_value:
  assumes B: "lane_laws B" and h: "cvPedersenBase B = Some h" and T: "g1_in B T" and c: "cvChunkCount (lc_Profile ctx) = Some chunks"
    and v: "cvVerifyOwnershipModeV2 B ctx d offer pk True"
    and ch: "cvOwnershipChallengeScalarAfterValidationV2 B ctx d offer pk (lo_Ownership offer) = Some ch"
    and t: "g1_lincomb B ts = g1_add B T (lc3 B pk h (- gs) 0 (- ps))"
  obtains wi' ts' gs' ps' ks' where
    "batch_offer weights (cp_chunkBits (lc_Profile ctx)) (nat chunks) ch offer (wi, ts, gs, ps) = Some (wi', ts', gs', ps', ks')"
    "g1_lincomb B ts' = g1_add B T (lc3 B pk h (- gs') (- ks') (- ps'))"
proof -
  obtain weighted where s: "cvValidateLaneOfferShapeV2 B ctx offer pk" and pts: "proof_points B chunks (lo_Ownership offer)"
    and eq: "\<And>i. i < nat chunks \<Longrightarrow> coin_equation B ch (eg_r (lo_ScalarChunks offer ! i)) (op_ScalarCoinCommitments (lo_Ownership offer) ! i)
       (op_ScalarCoinResponses (lo_Ownership offer) ! i)"
    "\<And>i. i < nat chunks \<Longrightarrow> cipher_equation B ch pk (eg_c (lo_ScalarChunks offer ! i)) (op_ScalarCipherCommitments (lo_Ownership offer) ! i)
       (op_ScalarDigitResponses (lo_Ownership offer) ! i) (op_ScalarCoinResponses (lo_Ownership offer) ! i)"
    "coin_equation B ch (eg_r (lo_Blinding offer)) (op_BlindingCoinCommitment (lo_Ownership offer)) (op_BlindingCoinResponse (lo_Ownership offer))"
    "blinding_equation B ch pk h (eg_c (lo_Blinding offer)) (op_BlindingCipherCommitment (lo_Ownership offer))
       (op_BlindingCoinResponse (lo_Ownership offer)) (op_BlindingShareResponse (lo_Ownership offer))"
    and w: "cvWeightedScalarV2 (op_ScalarDigitResponses (lo_Ownership offer)) (cp_chunkBits (lc_Profile ctx)) = Some weighted"
    and ev: "cipher_equation B ch h (lo_Evaluation offer) (op_EvaluationCommitment (lo_Ownership offer)) weighted (op_BlindingShareResponse (lo_Ownership offer))"
    using verify_ownership_D [OF v h c] ch by (metis option.inject)
  let ?o = "lo_Ownership offer"
  note hin = cvPedersenBase_in [OF h] and sh = shape_D [OF s c] and pt = points_D [OF pts]
  obtain wi2 ts2 gs2 ps2 ks2 where st: "foldl (batch_chunk weights ch offer) (wi, ts, gs, ps, 0) [0..<nat chunks] = (wi2, ts2, gs2, ps2, ks2)"
    by (metis prod_cases5)
  let ?w1 = "weights ! wi2" and ?w2 = "weights ! (wi2 + 1)" and ?w3 = "weights ! (wi2 + 2)"
  have 0: "g1_lincomb B ts2 = g1_add B T (lc3 B pk h (- gs2) (- ks2) (- ps2))"
    by (rule batch_chunks_value [OF B hin T s c pts eq(1,2) _ order_refl st]) (use t in simp_all)
  have 1: "g1_lincomb B (ts2 @ [(op_BlindingCoinCommitment ?o, - ?w1), (eg_r (lo_Blinding offer), - (?w1 * ch))]) =
      g1_add B T (lc3 B pk h (- gs2 - ?w1 * op_BlindingCoinResponse ?o) (- ks2 - ?w1 * 0) (- ps2 - ?w1 * 0))"
    by (rule weighted_equation [OF B sh(1) hin pt(1) sh(3) T _ 0]) (use eq(3) equations_lc3(1) [OF B sh(1) hin pt(1) sh(3)] in simp)
  have 2: "g1_lincomb B ((ts2 @ [(op_BlindingCoinCommitment ?o, - ?w1), (eg_r (lo_Blinding offer), - (?w1 * ch))]) @
        [(op_BlindingCipherCommitment ?o, - ?w2), (eg_c (lo_Blinding offer), - (?w2 * ch))]) =
      g1_add B T (lc3 B pk h (- gs2 - ?w1 * op_BlindingCoinResponse ?o - ?w2 * 0) (- ks2 - ?w1 * 0 - ?w2 * op_BlindingCoinResponse ?o)
        (- ps2 - ?w1 * 0 - ?w2 * op_BlindingShareResponse ?o))"
    by (rule weighted_equation [OF B sh(1) hin pt(2) sh(4) T _ 1]) (use eq(4) equations_lc3(4) [OF B sh(1) hin pt(2) sh(4)] in simp)
  have 3: "g1_lincomb B (((ts2 @ [(op_BlindingCoinCommitment ?o, - ?w1), (eg_r (lo_Blinding offer), - (?w1 * ch))]) @
        [(op_BlindingCipherCommitment ?o, - ?w2), (eg_c (lo_Blinding offer), - (?w2 * ch))]) @
        [(op_EvaluationCommitment ?o, - ?w3), (lo_Evaluation offer, - (?w3 * ch))]) =
      g1_add B T (lc3 B pk h (- gs2 - ?w1 * op_BlindingCoinResponse ?o - ?w2 * 0 - ?w3 * weighted)
        (- ks2 - ?w1 * 0 - ?w2 * op_BlindingCoinResponse ?o - ?w3 * 0)
        (- ps2 - ?w1 * 0 - ?w2 * op_BlindingShareResponse ?o - ?w3 * op_BlindingShareResponse ?o))"
    by (rule weighted_equation [OF B sh(1) hin pt(3) sh(2) T _ 2]) (use ev equations_lc3(3) [OF B sh(1) hin pt(3) sh(2)] in simp)
  have run: "batch_offer weights (cp_chunkBits (lc_Profile ctx)) (nat chunks) ch offer (wi, ts, gs, ps) = Some (wi2 + 3,
      ((ts2 @ [(op_BlindingCoinCommitment ?o, - ?w1), (eg_r (lo_Blinding offer), - (?w1 * ch))]) @
        [(op_BlindingCipherCommitment ?o, - ?w2), (eg_c (lo_Blinding offer), - (?w2 * ch))]) @
        [(op_EvaluationCommitment ?o, - ?w3), (lo_Evaluation offer, - (?w3 * ch))],
      gs2 + ?w1 * op_BlindingCoinResponse ?o + ?w3 * weighted,
      ps2 + ?w2 * op_BlindingShareResponse ?o + ?w3 * op_BlindingShareResponse ?o,
      ks2 + ?w2 * op_BlindingCoinResponse ?o)"
    by (simp add: batch_offer_def st w Let_def)
  show thesis by (rule that [OF run]) (use 3 in \<open>simp add: algebra_simps\<close>)
qed

lemma lincomb_Cons:
  assumes G: "g1_laws G" and p: "g1_in G p" and ts: "\<forall>(q, c) \<in> set ts. g1_in G q"
  shows "g1_lincomb G ((p, c) # ts) = g1_add G (g1_smul G p c) (g1_lincomb G ts)"
  using lincomb_append [OF G _ ts, of "[(p, c)]"] p g1_lawsD(3,4) [OF G] by (simp add: g1_lincomb_def [of G "[_]"])

lemma lc3_split:
  assumes B: "lane_laws B" and pk: "g1_in B pk" and h: "g1_in B h"
  shows "lc3 B pk h a b c = g1_add B (g1_smul B pk b) (g1_add B (g1_smul B (bls_genG1 B) a) (g1_smul B h c))"
    and "lc3 B pk h a 0 c = g1_add B (g1_smul B (bls_genG1 B) a) (g1_smul B h c)"
  unfolding lc3_facts(2,3,4,6) [OF B pk h] by simp_all

lemma lincomb_negate:
  assumes G: "g1_laws G" and "\<forall>p \<in> set ps. g1_in G p" "length ps = length cs"
  shows "g1_add G (g1_lincomb G (zip ps (map uminus cs))) (g1_lincomb G (zip ps cs)) = g1_zero G"
  using assms(3,2)
proof (induction ps cs rule: list_induct2)
  case Nil
  then show ?case using g1_lawsD(1,4) [OF G] by (simp add: g1_lincomb_def)
next
  case (Cons p ps c cs)
  let ?a = "g1_lincomb G (zip ps (map uminus cs))" and ?b = "g1_lincomb G (zip ps cs)"
  have tails: "\<forall>(q, c) \<in> set (zip ps xs). g1_in G q" for xs :: "'b list" using Cons.prems by (auto dest: set_zip_leftD)
  note ia = lincomb_in [OF G tails, of "map uminus cs"] and ib = lincomb_in [OF G tails, of cs]
  have p: "g1_in G p" using Cons.prems by simp
  have "g1_add G (g1_add G (g1_smul G p (- c)) ?a) (g1_add G (g1_smul G p c) ?b) =
      g1_add G (g1_add G (g1_smul G p (- c)) (g1_smul G p c)) (g1_add G ?a ?b)"
    by (rule g1_add_swap [OF G]) (use ia ib p g1_lawsD(3) [OF G] in auto)
  also have "g1_add G (g1_smul G p (- c)) (g1_smul G p c) = g1_zero G"
    using g1_lawsD(6) [OF G p, of "- c" c] g1_lawsD(5) [OF G p] by simp
  finally show ?case
    using lincomb_Cons [OF G p tails] Cons g1_lawsD(1,4) [OF G] by simp
qed

lemma batch_offers_value:
  assumes B: "lane_laws B" and h: "cvPedersenBase B = Some h" and c: "cvChunkCount (lc_Profile ctx) = Some chunks"
    and v: "list_all2 (\<lambda>(offer, ch) pk. cvVerifyOwnershipModeV2 B ctx d offer pk True \<and>
      cvOwnershipChallengeScalarAfterValidationV2 B ctx d offer pk (lo_Ownership offer) = Some ch) ocs pks"
    and T: "g1_in B T"
    and t: "g1_lincomb B ts = g1_add B T (g1_add B (g1_smul B (bls_genG1 B) (- gs)) (g1_smul B h (- ps)))"
  obtains ts' gs' ps' kss where
    "batch_offers weights (cp_chunkBits (lc_Profile ctx)) (nat chunks) ocs (wi, ts, gs, ps) = Some (ts', gs', ps', kss)"
    "length kss = length pks" "\<forall>pk \<in> set pks. g1_in B pk"
    "g1_lincomb B ts' = g1_add B (g1_add B T (g1_lincomb B (zip pks (map uminus kss))))
       (g1_add B (g1_smul B (bls_genG1 B) (- gs')) (g1_smul B h (- ps')))"
  using v T t
proof (induction ocs pks arbitrary: T ts gs ps wi thesis rule: list_all2_induct)
  case Nil
  note laws = laneD(1) [OF B]
  have "g1_add B T (g1_lincomb B []) = T"
    using g1_moduleD(1) [OF laws Nil(2) g1_lawsD(1) [OF laws]] g1_lawsD(4) [OF laws Nil(2)] by (simp add: g1_lincomb_def)
  then show ?case using Nil(1) [of ts gs ps "[]"] Nil(3) by simp
next
  case (Cons oc ocs pk pks)
  obtain offer ch where oc: "oc = (offer, ch)" by (cases oc)
  note laws = laneD(1) [OF B] and hin = cvPedersenBase_in [OF h]
  have v: "cvVerifyOwnershipModeV2 B ctx d offer pk True" "cvOwnershipChallengeScalarAfterValidationV2 B ctx d offer pk (lo_Ownership offer) = Some ch"
    using Cons(1) by (simp_all add: oc)
  have pk: "g1_in B pk" using verify_ownership_D [OF v(1) h c] shape_D(1) [OF _ c] by metis
  obtain wi1 ts1 gs1 ps1 ks1 where r1: "batch_offer weights (cp_chunkBits (lc_Profile ctx)) (nat chunks) ch offer (wi, ts, gs, ps) = Some (wi1, ts1, gs1, ps1, ks1)"
    and l1: "g1_lincomb B ts1 = g1_add B T (lc3 B pk h (- gs1) (- ks1) (- ps1))"
    using batch_offer_value [OF B h Cons(5) c v, of ts gs ps weights wi] Cons(6) lc3_split(2) [OF B pk hin] by metis
  let ?T = "g1_add B T (g1_smul B pk (- ks1))"
  have T1: "g1_in B ?T" using laneD(3,4) [OF B] Cons(5) pk by simp
  have "g1_lincomb B ts1 = g1_add B ?T (g1_add B (g1_smul B (bls_genG1 B) (- gs1)) (g1_smul B h (- ps1)))"
    unfolding l1 lc3_split(1) [OF B pk hin]
    by (rule g1_moduleD(2) [OF laws, symmetric]) (use laneD(2-4) [OF B] Cons(5) pk hin in auto)
  from Cons(3) [OF _ T1 this] obtain ts' gs' ps' kss where
    r: "batch_offers weights (cp_chunkBits (lc_Profile ctx)) (nat chunks) ocs (wi1, ts1, gs1, ps1) = Some (ts', gs', ps', kss)"
    and k: "length kss = length pks" "\<forall>pk \<in> set pks. g1_in B pk"
    and l: "g1_lincomb B ts' = g1_add B (g1_add B ?T (g1_lincomb B (zip pks (map uminus kss))))
       (g1_add B (g1_smul B (bls_genG1 B) (- gs')) (g1_smul B h (- ps')))"
    by metis
  have tails: "\<forall>(q, c) \<in> set (zip pks (map uminus kss)). g1_in B q" using k(2) by (auto dest: set_zip_leftD)
  have "g1_add B ?T (g1_lincomb B (zip pks (map uminus kss))) = g1_add B T (g1_lincomb B (zip (pk # pks) (map uminus (ks1 # kss))))"
    using g1_moduleD(2) [OF laws Cons(5) laneD(3) [OF B pk] lincomb_in [OF laws tails]] lincomb_Cons [OF laws pk tails] by simp
  then show ?case using Cons(4) [of ts' gs' ps' "ks1 # kss"] r1 r k l pk by (simp add: oc)
qed

lemma batch_combined:
  fixes B :: "('g, 'h, 'f::field) bls"
  assumes B: "lane_laws B" and h: "g1_in B h" and k: "length kss = length pks" "\<forall>pk \<in> set pks. g1_in B pk"
    and ts: "\<forall>(q, c) \<in> set ts. g1_in B q"
    and l: "g1_lincomb B ts = g1_add B (g1_lincomb B (zip pks (map uminus kss))) (g1_add B (g1_smul B (bls_genG1 B) (- gs)) (g1_smul B h (- ps)))"
  shows "g1_lincomb B (ts @ [(bls_genG1 B, gs), (h, ps)] @ zip pks kss) = g1_zero B"
proof -
  note laws = laneD(1) [OF B] and g = laneD(2) [OF B]
  note L = g1_lawsD [OF laws]
  let ?N = "g1_lincomb B (zip pks (map uminus kss))" and ?P = "g1_lincomb B (zip pks kss)"
    and ?m = "g1_add B (g1_smul B (bls_genG1 B) (- gs)) (g1_smul B h (- ps))" and ?q = "g1_add B (g1_smul B (bls_genG1 B) gs) (g1_smul B h ps)"
  have tails: "\<forall>(q, c) \<in> set (zip pks xs). g1_in B q" for xs :: "'f list" using k(2) by (auto dest: set_zip_leftD)
  have mid: "g1_lincomb B [(bls_genG1 B, gs), (h, ps)] = ?q" using L(2-4) g h by (simp add: g1_lincomb_def)
  have ins: "g1_in B ?N" "g1_in B ?P" "g1_in B ?m" "g1_in B ?q" using lincomb_in [OF laws tails] L(2,3) g h by auto
  have "g1_lincomb B ([(bls_genG1 B, gs), (h, ps)] @ zip pks kss) = g1_add B ?q ?P"
    using lincomb_append [OF laws _ tails, of "[(bls_genG1 B, gs), (h, ps)]"] g h mid by simp
  then have "g1_lincomb B (ts @ [(bls_genG1 B, gs), (h, ps)] @ zip pks kss) = g1_add B (g1_lincomb B ts) (g1_add B ?q ?P)"
    using lincomb_append [OF laws ts, of "[(bls_genG1 B, gs), (h, ps)] @ zip pks kss"] g h tails by simp
  also have "g1_lincomb B ts = g1_add B ?N ?m" by (rule l)
  also have "g1_add B ?q ?P = g1_add B ?P ?q" by (rule g1_moduleD(1) [OF laws ins(4,2)])
  also have "g1_add B (g1_add B ?N ?m) (g1_add B ?P ?q) = g1_add B (g1_add B ?N ?P) (g1_add B ?m ?q)"
    by (rule g1_add_swap [OF laws ins(1,3,2,4)])
  also have "g1_add B ?N ?P = g1_zero B" by (rule lincomb_negate [OF laws k(2)]) (simp add: k)
  also have "g1_add B ?m ?q = g1_zero B"
    using g1_add_swap [OF laws, of "g1_smul B (bls_genG1 B) (- gs)" "g1_smul B h (- ps)" "g1_smul B (bls_genG1 B) gs" "g1_smul B h ps"]
      L(3) g h L(6) [OF g, of "- gs" gs, symmetric] L(6) [OF h, of "- ps" ps, symmetric] L(1,4,5) by simp
  finally show ?thesis using L(1,4) by simp
qed

lemma batch_chunks_points:
  assumes s: "cvValidateLaneOfferShapeV2 B ctx offer pk" "cvChunkCount (lc_Profile ctx) = Some chunks"
    and pts: "proof_points B chunks (lo_Ownership offer)"
    and ts: "\<forall>(q, c) \<in> set ts. g1_in B q" and n: "n \<le> nat chunks"
    and "foldl (batch_chunk weights ch offer) (wi, ts, gs, ps, ks) [0..<n] = (wi', ts', gs', ps', ks')"
  shows "\<forall>(q, c) \<in> set ts'. g1_in B q"
  using n assms(6)
proof (induction n arbitrary: wi' ts' gs' ps' ks')
  case (Suc n)
  obtain wi2 ts2 gs2 ps2 ks2 where st: "foldl (batch_chunk weights ch offer) (wi, ts, gs, ps, ks) [0..<n] = (wi2, ts2, gs2, ps2, ks2)"
    by (metis prod_cases5)
  have n: "n < nat chunks" using Suc.prems by simp
  have "\<forall>(q, c) \<in> set ts2. g1_in B q" using Suc.IH [OF _ st] n by simp
  moreover have "batch_chunk weights ch offer (wi2, ts2, gs2, ps2, ks2) n = (wi', ts', gs', ps', ks')" using Suc.prems(2) st by simp
  ultimately show ?case
    using shape_D(6,7) [OF s n] points_D(4,5) [OF pts n] by (auto simp: batch_chunk_def Let_def)
qed (use ts in simp)

lemma batch_offers_points:
  assumes h: "cvPedersenBase B = Some h" and c: "cvChunkCount (lc_Profile ctx) = Some chunks"
    and v: "list_all2 (\<lambda>(offer, ch) pk. cvVerifyOwnershipModeV2 B ctx d offer pk True) ocs pks"
    and "\<forall>(q, c) \<in> set ts. g1_in B q"
    and "batch_offers weights (cp_chunkBits (lc_Profile ctx)) (nat chunks) ocs (wi, ts, gs, ps) = Some (ts', gs', ps', kss)"
  shows "\<forall>(q, c) \<in> set ts'. g1_in B q"
  using v assms(4,5)
proof (induction ocs pks arbitrary: ts gs ps wi kss rule: list_all2_induct)
  case (Cons oc ocs pk pks)
  obtain offer ch where oc: "oc = (offer, ch)" by (cases oc)
  have v: "cvVerifyOwnershipModeV2 B ctx d offer pk True" using Cons(1) by (simp add: oc)
  obtain s: "cvValidateLaneOfferShapeV2 B ctx offer pk" and pts: "proof_points B chunks (lo_Ownership offer)"
    using verify_ownership_D [OF v h c] by metis
  obtain wi2 ts2 gs2 ps2 ks2 where st: "foldl (batch_chunk weights ch offer) (wi, ts, gs, ps, 0) [0..<nat chunks] = (wi2, ts2, gs2, ps2, ks2)"
    by (metis prod_cases5)
  note ts2 = batch_chunks_points [OF s c pts Cons(4) order_refl st]
  from Cons(5) obtain wi1 ts1 gs1 ps1 ks1 kss' where
    r1: "batch_offer weights (cp_chunkBits (lc_Profile ctx)) (nat chunks) ch offer (wi, ts, gs, ps) = Some (wi1, ts1, gs1, ps1, ks1)"
    and r: "batch_offers weights (cp_chunkBits (lc_Profile ctx)) (nat chunks) ocs (wi1, ts1, gs1, ps1) = Some (ts', gs', ps', kss')"
    by (auto simp: oc run_simps)
  have "\<forall>(q, c) \<in> set ts1. g1_in B q"
    using r1 st ts2 shape_D(2,3,4) [OF s c] points_D(1,2,3) [OF pts] by (auto simp: batch_offer_def run_simps Let_def)
  then show ?case using Cons(3) r by blast
qed simp

lemma offer_wire_total:
  assumes ctx: "cvLeafContextDigestV2 ctx = Some digest" "cvProfile (lc_Profile ctx) = Some (base, bound, chunks)"
    and s: "cvValidateLaneOfferShapeV2 B ctx offer pk" and dims: "proof_dimensions chunks (lo_Ownership offer)"
    and d: "0 \<le> d" and roster: "length (lc_NewRoster ctx) < 4294967296"
  shows "cvReceiverLaneOfferV2CanonicalBytesAfterValidation B ctx d offer \<noteq> None"
proof -
  have c: "cvChunkCount (lc_Profile ctx) = Some chunks" using ctx(2) by (simp add: cvChunkCount_def)
  note sh = shape_D [OF s c] and pf = profile_facts [OF ctx(2)] and bi = binding_index [OF sh(8)]
  have "lo_ReceiverID offer \<in> set (lc_NewRoster ctx)" using bi nth_mem [of "nat (lo_ReceiverIndex offer - 1)" "lc_NewRoster ctx"] by auto
  then have "0 \<le> lo_ReceiverID offer" using bi by (auto simp: cvValidateLeafContextV2_def list_all_iff)
  moreover have "0 < lo_ReceiverIndex offer" "lo_ReceiverIndex offer \<le> 4294967295" using bi roster by auto
  moreover have "cvOwnershipProofV2CanonicalBytesMode B (lo_Ownership offer) ctx False \<noteq> None"
    using c dims pf(6) by (simp add: cvOwnershipProofV2CanonicalBytesMode_def cvWritePointVectorMode_def cvWriteScalarVector_def
        proof_dimensions_def cvWriteUint32_def)
  ultimately show ?thesis
    using c sh(5) ctx(1) d pf(6) by (auto simp: cvReceiverLaneOfferV2CanonicalBytesAfterValidation_def cvWriteUint32_def)
qed

lemma batch_statement_total:
  assumes h: "cvPedersenBase B = Some h" and p: "cvProfile (lc_Profile ctx) = Some (base, bound, chunks)"
    and v: "cvVerifyOwnershipModeV2 B ctx d offer pk True" and roster: "length (lc_NewRoster ctx) < 4294967296"
  obtains ch wire where "batch_statement B ctx d validatePoints offer pk = Some (ch, wire)"
    "cvOwnershipChallengeScalarAfterValidationV2 B ctx d offer pk (lo_Ownership offer) = Some ch"
proof -
  have c: "cvChunkCount (lc_Profile ctx) = Some chunks" using p by (simp add: cvChunkCount_def)
  obtain ch where d: "0 \<le> d" and s: "cvValidateLaneOfferShapeV2 B ctx offer pk" and dims: "proof_dimensions chunks (lo_Ownership offer)"
    and pts: "proof_points B chunks (lo_Ownership offer)"
    and ch: "cvOwnershipChallengeScalarAfterValidationV2 B ctx d offer pk (lo_Ownership offer) = Some ch"
    using verify_ownership_D [OF v h c] by metis
  obtain digest where "cvLeafContextDigestV2 ctx = Some digest"
    using ch by (auto simp: cvOwnershipChallengeScalarAfterValidationV2_def cvOwnershipChallengeScalarModeV2_def run_simps)
  then obtain wire where "cvReceiverLaneOfferV2CanonicalBytesAfterValidation B ctx d offer = Some wire"
    using offer_wire_total [OF _ p s dims d roster] by blast
  then show thesis using that c s shape_D(9) [OF s c] dims pts ch by (simp add: batch_statement_def)
qed

lemma batch_statements_total:
  assumes h: "cvPedersenBase B = Some h" and p: "cvProfile (lc_Profile ctx) = Some (base, bound, chunks)"
    and roster: "length (lc_NewRoster ctx) < 4294967296"
    and v: "list_all2 (\<lambda>offer pk. cvVerifyOwnershipModeV2 B ctx d offer pk True) offers pks"
  obtains chs wires where "batch_statements B ctx d validatePoints (zip offers pks) = Some (chs, wires)" "length chs = length offers"
    "list_all2 (\<lambda>(offer, ch) pk. cvVerifyOwnershipModeV2 B ctx d offer pk True \<and>
      cvOwnershipChallengeScalarAfterValidationV2 B ctx d offer pk (lo_Ownership offer) = Some ch) (zip offers chs) pks"
  using v
proof (induction offers pks arbitrary: thesis rule: list_all2_induct)
  case (Cons offer offers pk pks)
  obtain ch wire where 1: "batch_statement B ctx d validatePoints offer pk = Some (ch, wire)"
    "cvOwnershipChallengeScalarAfterValidationV2 B ctx d offer pk (lo_Ownership offer) = Some ch"
    using batch_statement_total [OF h p Cons(1) roster] by metis
  obtain chs wires where 2: "batch_statements B ctx d validatePoints (zip offers pks) = Some (chs, wires)" "length chs = length offers"
    "list_all2 (\<lambda>(offer, ch) pk. cvVerifyOwnershipModeV2 B ctx d offer pk True \<and>
      cvOwnershipChallengeScalarAfterValidationV2 B ctx d offer pk (lo_Ownership offer) = Some ch) (zip offers chs) pks"
    by (rule Cons(3))
  then show ?case using Cons(4) [of "ch # chs" "wire @ wires"] 1 Cons(1) by simp
qed simp

lemma batch_accepts:
  assumes B: "lane_laws B" and hash: "\<And>statement. batch_challenge B statement \<noteq> None"
    and roster: "length (lc_NewRoster ctx) < 4294967296" and n: "offers \<noteq> []" "length offers < 4294967296"
    and v: "list_all2 (\<lambda>offer pk. cvVerifyOwnershipV2 B ctx d offer pk) offers pks"
  shows "cvVerifyOwnershipBatchV2 B ctx d offers pks validatePoints"
proof -
  have v': "list_all2 (\<lambda>offer pk. cvVerifyOwnershipModeV2 B ctx d offer pk True) offers pks" using v by (simp add: cvVerifyOwnershipV2_def)
  then obtain offer pk where one: "cvVerifyOwnershipModeV2 B ctx d offer pk True" using n(1) by (cases offers; cases pks) auto
  then obtain h chunks where h: "cvPedersenBase B = Some h" and c: "cvChunkCount (lc_Profile ctx) = Some chunks"
    by (auto simp: cvVerifyOwnershipModeV2_def run_simps Let_def)
  then obtain base bound where p: "cvProfile (lc_Profile ctx) = Some (base, bound, chunks)" by (auto simp: cvChunkCount_def)
  obtain ch where d: "0 \<le> d" and ch: "cvOwnershipChallengeScalarAfterValidationV2 B ctx d offer pk (lo_Ownership offer) = Some ch"
    using verify_ownership_D [OF one h c] by metis
  obtain contextWire where w: "cvLeafContextV2CanonicalBytes ctx = Some contextWire"
    using ch by (auto simp: cvOwnershipChallengeScalarAfterValidationV2_def cvOwnershipChallengeScalarModeV2_def cvLeafContextDigestV2_def run_simps)
  obtain chs wires where st: "batch_statements B ctx d validatePoints (zip offers pks) = Some (chs, wires)" "length chs = length offers"
    and v2: "list_all2 (\<lambda>(offer, ch) pk. cvVerifyOwnershipModeV2 B ctx d offer pk True \<and>
      cvOwnershipChallengeScalarAfterValidationV2 B ctx d offer pk (lo_Ownership offer) = Some ch) (zip offers chs) pks"
    by (rule batch_statements_total [OF h p roster v'])
  obtain bc where bc: "batch_challenge B (dropped (cvWriteBytes contextWire) @ cvWriteUint64 (u64 d) @ put_be 4 (length offers) @ wires) = Some bc"
    using hash by blast
  let ?weights = "powers_loop bc bc (length offers * (2 * nat chunks + 3))"
  note laws = laneD(1) [OF B] and hin = cvPedersenBase_in [OF h]
  have empty: "g1_lincomb B [] = g1_add B (g1_zero B) (g1_add B (g1_smul B (bls_genG1 B) (- 0)) (g1_smul B h (- 0)))"
    using g1_lawsD(1,4,5) [OF laws] laneD(2) [OF B] hin by (simp add: g1_lincomb_def)
  obtain ts gs ps kss where r: "batch_offers ?weights (cp_chunkBits (lc_Profile ctx)) (nat chunks) (zip offers chs) (0, [], 0, 0) = Some (ts, gs, ps, kss)"
    and k: "length kss = length pks" "\<forall>pk \<in> set pks. g1_in B pk"
    and l: "g1_lincomb B ts = g1_add B (g1_add B (g1_zero B) (g1_lincomb B (zip pks (map uminus kss))))
       (g1_add B (g1_smul B (bls_genG1 B) (- gs)) (g1_smul B h (- ps)))"
    by (rule batch_offers_value [OF B h c v2 laneD(5) [OF B] empty])
  have pts: "\<forall>(q, c) \<in> set ts. g1_in B q"
    by (rule batch_offers_points [OF h c _ _ r]) (use v2 in \<open>auto elim!: list_all2_mono\<close>)
  have neg: "g1_in B (g1_lincomb B (zip pks (map uminus kss)))"
    by (rule lincomb_in [OF laws]) (use k(2) in \<open>auto dest: set_zip_leftD\<close>)
  let ?all = "ts @ [(bls_genG1 B, gs), (h, ps)] @ zip pks kss"
  have zero: "g1_lincomb B ?all = g1_zero B"
    by (rule batch_combined [OF B hin k pts]) (use l g1_lawsD(4) [OF laws neg] in simp)
  have "list_all (g1_in B) (map fst ?all)" using pts k laneD(2) [OF B] hin by (auto simp: list_all_iff dest: set_zip_leftD)
  then have "cvG1LinearCombination B (map fst ?all) (map snd ?all) = Some (g1_zero B)"
    using cvG1LinearCombination_eq [OF laws, of "map fst ?all" "map snd ?all"] zero by (simp only: zip_map_fst_snd) simp
  then show ?thesis
    using d n c w st bc h r list_all2_lengthD [OF v] g1_lawsD(5) [OF laws laneD(2) [OF B]]
    by (simp add: cvVerifyOwnershipBatchV2_def cvPointTimes_def)
qed

text \<open>Batching rejects nothing the exact verifier accepts: when every offer of a list passes the verification of its
  own equations, with the point checks on, the batched verification accepts the list, with or without point checks,
  provided the challenge hash does not come out as zero twice.\<close>

theorem batch_accepts_verified:
  assumes "lane_laws B" and "\<forall>statement. batch_challenge B statement \<noteq> None"
    and "length (lc_NewRoster ctx) < 4294967296" and "offers \<noteq> []" "length offers < 4294967296"
    and "list_all2 (\<lambda>offer pk. cvVerifyOwnershipV2 B ctx d offer pk) offers pks"
  shows "cvVerifyOwnershipBatchV2 B ctx d offers pks validatePoints"
  using assms by (intro batch_accepts) simp_all

section \<open>What was encrypted is decrypted\<close>

lemma decrypt_encrypted:
  assumes B: "lane_laws B" and m: "g1_in B m"
  shows "cvDecryptGroupCiphertextV2 B (cvEncryptPointAfterValidationV2 B (g1_smul B (bls_genG1 B) sk) m coin) sk = m"
proof -
  let ?G = "bls_genG1 B" and ?s = "g1_smul B (bls_genG1 B) (sk * coin)"
  note laws = laneD(1) [OF B] and g = laneD(2) [OF B]
  note L = g1_lawsD [OF laws] and M = g1_moduleD [OF laws]
  have s: "g1_in B ?s" "g1_in B (g1_smul B ?s (- 1))" using L(3) g by auto
  have "cvDecryptGroupCiphertextV2 B (cvEncryptPointAfterValidationV2 B (g1_smul B ?G sk) m coin) sk =
      g1_add B (g1_add B ?s m) (g1_smul B ?s (- 1))"
    using lane_lawsD(4) [OF B] L(2,3,7) g m by (simp add: cvDecryptGroupCiphertextV2_def cvEncryptPointAfterValidationV2_def mult.commute)
  also have "\<dots> = g1_add B (g1_add B m ?s) (g1_smul B ?s (- 1))" using M(1) [OF s(1) m] by simp
  also have "\<dots> = g1_add B m (g1_add B ?s (g1_smul B ?s (- 1)))" by (rule M(2) [OF m s])
  also have "\<dots> = m" using g1_minus_self [OF laws s(1)] M(1) [OF m L(1)] L(4) [OF m] by simp
  finally show ?thesis .
qed

lemma solve_all_encrypted:
  assumes B: "lane_laws B" and bound: "bound < fr_Modulus B" and ds: "list_all (\<lambda>d. d \<le> bound) ds" and len: "length coins = length ds"
  shows "solve_all B (cvNewBoundedDLogSolverForBaseV2 B (bls_genG1 B) bound) sk
    (map2 (\<lambda>d coin. cvEncryptPointAfterValidationV2 B (g1_smul B (bls_genG1 B) sk) (g1_smul B (bls_genG1 B) (of_nat d)) coin) ds coins) = Some ds"
  using len ds
proof (induction coins ds rule: list_induct2)
  case (Cons coin coins d ds)
  have m: "g1_in B (g1_smul B (bls_genG1 B) (of_nat d))" using laneD(2,3) [OF B] by simp
  have "solve B (cvNewBoundedDLogSolverForBaseV2 B (bls_genG1 B) bound) (g1_smul B (bls_genG1 B) (of_nat d)) = Some d"
    using solve_exact [OF B in_valid_g1 [OF m] bound] Cons.prems by simp
  then show ?case using Cons decrypt_encrypted [OF B m] by simp
qed simp

lemma draw_total: "(\<And>k. random k \<noteq> None) \<Longrightarrow> draw_scalars random k n \<noteq> None"
  "(\<And>k. random k \<noteq> None) \<Longrightarrow> draw_nonces random k n \<noteq> None"
  by (induction n arbitrary: k) (simp_all add: bind_eq_None_conv del: not_None_eq)

lemma randomness_total:
  assumes r: "\<And>k. random k \<noteq> None" and c: "0 < chunks"
  obtains rnd where "cvGenerateReceiverLaneRandomnessV2 random chunks = Some rnd" "length (rd_scalarCoins rnd) = nat chunks"
    "length (rd_coinNonces rnd) = nat chunks" "length (rd_digitNonces rnd) = nat chunks"
proof -
  let ?n = "nat chunks"
  obtain cs where cs: "draw_scalars random 0 ?n = Some cs" using draw_total(1) [of random 0 ?n] r by blast
  obtain ns where ns: "draw_nonces random (?n + 1) ?n = Some ns" using draw_total(2) [of random "?n + 1" ?n] r by blast
  obtain bc where bc: "random ?n = Some bc" using r by blast
  obtain x where x: "random (3 * ?n + 1) = Some x" using r by blast
  obtain y where y: "random (3 * ?n + 2) = Some y" using r by blast
  show thesis
    by (rule that [of "\<lparr> rd_scalarCoins = cs, rd_blindingCoin = bc, rd_coinNonces = map fst ns, rd_digitNonces = map snd ns,
        rd_blindingCoinNonce = x, rd_blindingShareNonce = y \<rparr>"])
       (use c cs ns bc x y draw_scalars_length [OF cs] draw_nonces_length [OF ns] in \<open>simp_all add: cvGenerateReceiverLaneRandomnessV2_def\<close>)
qed

lemma challenge_total:
  assumes "\<And>m t. fr_Hash B m t \<noteq> None" "0 \<le> d" "cvLeafContextDigestV2 ctx = Some digest"
    "length (lo_ScalarChunks offer) < 4294967296" "length (op_ScalarCoinCommitments oproof) < 4294967296"
    "length (op_ScalarCipherCommitments oproof) < 4294967296"
  shows "cvOwnershipChallengeScalarAfterValidationV2 B ctx d offer pk oproof \<noteq> None"
  using assms by (simp add: cvOwnershipChallengeScalarAfterValidationV2_def cvOwnershipChallengeScalarModeV2_def
      cvWritePointVectorMode_def cvHashToFr_def)

lemma finish_total:
  assumes "cvOwnershipChallengeScalarAfterValidationV2 B ctx d offer pk oproof \<noteq> None"
    "length (op_ScalarCoinResponses oproof) = length cn" "length (op_ScalarDigitResponses oproof) = length cn" "length dn = length cn"
  shows "cvFinishOwnershipProofV2 B ctx d offer pk wit oproof cn dn x y \<noteq> None"
  using assms by (simp add: cvFinishOwnershipProofV2_def bind_eq_None_conv Let_def del: not_None_eq)

lemma encrypt_total:
  assumes B: "lane_laws B" and r: "\<And>k. random k \<noteq> None" and hash: "\<And>m t. fr_Hash B m t \<noteq> None"
    and h: "cvPedersenBase B = Some h" and v: "cvValidateReceiverBindingV2 B ctx rid ri pk" "0 \<le> d"
    and digest: "cvLeafContextDigestV2 ctx = Some digest"
  shows "cvEncryptReceiverLanesV2 B random ctx d rid ri pk x b \<noteq> None"
proof -
  obtain base bound chunks where p: "cvProfile (lc_Profile ctx) = Some (base, bound, chunks)"
    using binding_index [OF v(1)] by (auto simp: cvValidateLeafContextV2_def)
  note pf = profile_facts [OF p]
  obtain rnd where rnd: "cvGenerateReceiverLaneRandomnessV2 random chunks = Some rnd" "length (rd_scalarCoins rnd) = nat chunks"
    "length (rd_coinNonces rnd) = nat chunks" "length (rd_digitNonces rnd) = nat chunks"
    by (rule randomness_total [OF r pf(5)])
  obtain ds where ds: "cvScalarDigits B x (lc_Profile ctx) = Some ds" "length ds = nat chunks" by (rule scalar_digits [OF B p])
  obtain table where t: "cvDigitPointTable B (lc_Profile ctx) = Some table" using p by (simp add: cvDigitPointTable_def)
  obtain w where w: "cvWeightedScalarV2 (rd_digitNonces rnd) (cp_chunkBits (lc_Profile ctx)) = Some w"
    using weighted_scalar [OF p rnd(4)] by blast
  have n: "nat chunks < 4294967296" using pf(6) by simp
  show ?thesis
    using p v ds h t w rnd
    by (simp add: cvEncryptReceiverLanesV2_def cvChunkCount_def cvComputeReceiverLaneOfferV2_def Let_def
        finish_total challenge_total [OF hash v(2) digest] n bind_eq_None_conv del: not_None_eq)
qed

lemma lane_roundtrip:
  assumes B: "lane_laws B" and batch: "\<And>statement. batch_challenge B statement \<noteq> None"
    and h: "cvPedersenBase B = Some h" and p: "cvProfile (lc_Profile ctx) = Some (base, bound, chunks)"
    and roster: "length (lc_NewRoster ctx) < 4294967296" and base: "base \<le> int (fr_Modulus B)"
    and sk: "pk = g1_smul B (bls_genG1 B) sk" "sk \<noteq> 0"
    and e: "cvEncryptReceiverLanesV2 B random ctx d rid ri pk x b = Some (offer, wit)"
  shows "cvVerifyOwnershipV2 B ctx d offer pk"
    and "cvVerifyAndDecryptReceiverLanesModeV2 B ctx d offer pk sk validatePoints = Some (x, g1_smul B h b)"
proof -
  let ?k = "cp_chunkBits (lc_Profile ctx)" and ?G = "bls_genG1 B"
  note pf = profile_facts [OF p]
  have c: "cvChunkCount (lc_Profile ctx) = Some chunks" using p by (simp add: cvChunkCount_def)
  from e c obtain rnd where r: "cvComputeReceiverLaneOfferV2 B ctx d rid ri pk x b rnd = Some (offer, wit)"
    by (auto simp: cvEncryptReceiverLanesV2_def run_simps)
  from compute_form [OF B r] h obtain ds weighted where v: "cvValidateReceiverBindingV2 B ctx rid ri pk" "0 \<le> d"
    and ds: "cvScalarDigits B x (lc_Profile ctx) = Some ds"
    and len: "length (rd_scalarCoins rnd) = length ds" "length (rd_coinNonces rnd) = length ds" "length (rd_digitNonces rnd) = length ds"
    and w: "cvWeightedScalarV2 (rd_digitNonces rnd) ?k = Some weighted"
    and wit: "wit = \<lparr> dw_ScalarDigits = ds, dw_ScalarCoins = rd_scalarCoins rnd, dw_Blinding = b, dw_BlindingCoin = rd_blindingCoin rnd \<rparr>"
    and o: "lo_ReceiverID offer = rid" "lo_ReceiverIndex offer = ri"
    and enc: "encrypts B pk h ds (rd_scalarCoins rnd) (rd_blindingCoin rnd) x b offer"
    and fin: "cvFinishOwnershipProofV2 B ctx d offer pk wit
       (ownership_commitments B pk h (rd_coinNonces rnd) (rd_digitNonces rnd) (rd_blindingCoinNonce rnd) (rd_blindingShareNonce rnd) weighted)
       (rd_coinNonces rnd) (rd_digitNonces rnd) (rd_blindingCoinNonce rnd) (rd_blindingShareNonce rnd) = Some (lo_Ownership offer)"
    by (metis option.inject)
  obtain ds' where "cvScalarDigits B x (lc_Profile ctx) = Some ds'" "length ds' = nat chunks"
    "list_all (\<lambda>d. d < 2 ^ ?k) ds'" "digits_value ?k ds' = fr_BigInt B x" by (rule scalar_digits [OF B p])
  then have d: "length ds = nat chunks" "list_all (\<lambda>d. d < 2 ^ ?k) ds" "digits_value ?k ds = fr_BigInt B x" using ds by simp_all
  have x: "of_nat (digits_value ?k ds) = x" using d(3) lane_lawsD(8) [OF B] by simp
  have "cvVerifyOwnershipModeV2 B ctx d offer pk vp" for vp
    by (rule finish_verifies [OF B p v h d(1) _ _ _ x w o enc]) (use len d(1) fin wit in simp_all)
  then show ver: "cvVerifyOwnershipV2 B ctx d offer pk" by (simp add: cvVerifyOwnershipV2_def)
  have acc: "cvVerifyOwnershipBatchV2 B ctx d [offer] [pk] validatePoints"
    by (rule batch_accepts [OF B batch roster]) (use ver in simp_all)
  have baseN: "nat (base - 1) = 2 ^ ?k - 1" using pf(1) by (simp add: nat_diff_distrib nat_power_eq)
  have "nat (base - 1) < fr_Modulus B" 
  proof -
    have "0 < base" using pf(1) by simp
    then show ?thesis using base by linarith
  qed
  moreover have "list_all (\<lambda>d. d \<le> nat (base - 1)) ds" using d(2) by (auto simp: baseN list_all_iff)
  ultimately have sol: "solve_all B (cvNewBoundedDLogSolverForBaseV2 B ?G (nat (base - 1))) sk (take (nat chunks) (lo_ScalarChunks offer)) = Some ds"
    using solve_all_encrypted [OF B, of "nat (base - 1)" ds "rd_scalarCoins rnd" sk] enc len(1) d(1) sk(1) by (simp add: encrypts_def)
  have ne: "ds \<noteq> []" using d(1) pf(5) by auto
  have scal: "cvDigitsToScalarV2 B ds ?k = Some x"
    using ne pf(3,4) d(2,3) lane_lawsD(7,8) [OF B, of x] by (simp add: cvDigitsToScalarV2_def list_all_iff not_le)
  have hin: "g1_in B (g1_smul B h b)" using laneD(3) [OF B] cvPedersenBase_in [OF h] by simp
  have bl: "cvDecryptGroupCiphertextV2 B (lo_Blinding offer) sk = g1_smul B h b"
    using decrypt_encrypted [OF B hin] enc sk(1) by (simp add: encrypts_def)
  have "cvPointSum B [cvPointTimes B ?G x, g1_smul B h b] = lo_Evaluation offer"
    using point_sum_two [OF lane_lawsD(1) [OF B]] hin laneD(2,3) [OF B] enc by (simp add: encrypts_def cvPointTimes_def)
  then show "cvVerifyAndDecryptReceiverLanesModeV2 B ctx d offer pk sk validatePoints = Some (x, g1_smul B h b)"
    using acc sk p sol scal bl by (simp add: cvVerifyAndDecryptReceiverLanesModeV2_def cvReceiverPublicKey_def)
qed

text \<open>C31: what a dealer encrypts for a receiver is what the receiver decrypts: for every share and blinding, whatever the
  random scalars, the offer is made, the receiver accepts its proof in the batched check and decrypts exactly the
  share and the blinding point, which open the public evaluation of the offer.\<close>

theorem encrypted_share_is_decrypted:
  assumes "lane_laws B" and "\<forall>k. random k \<noteq> None" and "\<forall>m t. fr_Hash B m t \<noteq> None" and "\<forall>statement. batch_challenge B statement \<noteq> None"
    and "cvPedersenBase B = Some h" and "cvLeafContextDigestV2 ctx = Some digest"
    and "cvProfile (lc_Profile ctx) = Some (base, bound, chunks)" and "base \<le> int (fr_Modulus B)"
    and "length (lc_NewRoster ctx) < 4294967296"
    and "cvValidateReceiverBindingV2 B ctx rid ri pk" and "0 \<le> d" and "cvReceiverPublicKey B sk = Some pk"
  shows "\<exists>offer wit. cvEncryptReceiverLanesV2 B random ctx d rid ri pk x b = Some (offer, wit) \<and>
    cvVerifyAndDecryptReceiverLanesV2 B ctx d offer pk sk = Some (x, g1_smul B h b) \<and>
    lo_Evaluation offer = g1_add B (g1_smul B (bls_genG1 B) x) (g1_smul B h b)"
proof -
  obtain offer wit where e: "cvEncryptReceiverLanesV2 B random ctx d rid ri pk x b = Some (offer, wit)"
    using encrypt_total [OF assms(1) _ _ assms(5,10,11,6), of random x b] assms(2,3) by fastforce
  have sk: "pk = g1_smul B (bls_genG1 B) sk" "sk \<noteq> 0" using assms(12) by (auto simp: cvReceiverPublicKey_def run_simps)
  have c: "cvChunkCount (lc_Profile ctx) = Some chunks" using assms(7) by (simp add: cvChunkCount_def)
  have "cvVerifyAndDecryptReceiverLanesV2 B ctx d offer pk sk = Some (x, g1_smul B h b)"
    unfolding cvVerifyAndDecryptReceiverLanesV2_def
    by (rule lane_roundtrip(2) [OF assms(1) _ assms(5,7,9,8) sk e]) (use assms(4) in simp)
  moreover have "lo_Evaluation offer = g1_add B (g1_smul B (bls_genG1 B) x) (g1_smul B h b)"
    using batched_stepwise(2) [OF assms(1) c e] assms(5) by (auto simp: encrypts_def)
  ultimately show ?thesis using e by blast
qed

section \<open>Two answers give what was encrypted\<close>

lemma lc3_extract:
  assumes B: "lane_laws B" and pk: "g1_in B pk" and h: "g1_in B h" and K: "g1_in B K" and C: "g1_in B C" and ne: "x \<noteq> x'"
    and e: "lc3 B pk h a b c = g1_add B K (g1_smul B C x)" "lc3 B pk h a' b' c' = g1_add B K (g1_smul B C x')"
  shows "C = lc3 B pk h ((a - a') / (x - x')) ((b - b') / (x - x')) ((c - c') / (x - x'))"
proof -
  note laws = laneD(1) [OF B]
  note L = g1_lawsD [OF laws] and M = g1_moduleD [OF laws] and f = lc3_facts [OF B pk h]
  have "lc3 B pk h (a - a') (b - b') (c - c') = g1_add B (lc3 B pk h a b c) (g1_smul B (lc3 B pk h a' b' c') (- 1))"
    by (simp add: f(6,7))
  also have "\<dots> = g1_add B (g1_add B K (g1_smul B C x)) (g1_add B (g1_smul B K (- 1)) (g1_smul B C (x' * - 1)))"
    unfolding e using K C L(3,7) M(3) by simp
  also have "\<dots> = g1_add B (g1_add B K (g1_smul B K (- 1))) (g1_add B (g1_smul B C x) (g1_smul B C (x' * - 1)))"
    by (rule g1_add_swap [OF laws]) (use K C L(3) in auto)
  also have "\<dots> = g1_add B (g1_zero B) (g1_smul B C (x + x' * - 1))"
    by (simp only: g1_minus_self [OF laws K] L(6) [OF C])
  also have "\<dots> = g1_smul B C (x - x')" using L(4) [OF L(3) [OF C]] by simp
  finally have "g1_smul B (lc3 B pk h (a - a') (b - b') (c - c')) (1 / (x - x')) = g1_smul B C ((x - x') * (1 / (x - x')))"
    using L(7) [OF C] by simp
  moreover have "(x - x') * (1 / (x - x')) = 1" using ne by simp
  ultimately show ?thesis using M(4) [OF C] by (simp add: f(7))
qed

lemma lc3_hash [simp]: "lc3 (B\<lparr> fr_Hash := hash2 \<rparr>) = lc3 B"
  by (intro ext) (simp add: lc3_def)

lemma group_hash [simp]:
  "g1_in (B\<lparr> fr_Hash := hash2 \<rparr>) = g1_in B" "g1_lincomb (B\<lparr> fr_Hash := hash2 \<rparr>) = g1_lincomb B"
  by (intro ext, simp add: g1_in_def g1_lincomb_def)+

lemma lane_laws_hash [simp]: "lane_laws (B\<lparr> fr_Hash := hash2 \<rparr>) \<longleftrightarrow> lane_laws B"
  by (simp add: lane_laws_def bls_laws_def g1_laws_def)

lemma equations_hash [simp]:
  "coin_equation (B\<lparr> fr_Hash := hash2 \<rparr>) = coin_equation B" "cipher_equation (B\<lparr> fr_Hash := hash2 \<rparr>) = cipher_equation B"
  "blinding_equation (B\<lparr> fr_Hash := hash2 \<rparr>) = blinding_equation B"
  by (intro ext, simp add: coin_equation_def cipher_equation_def blinding_equation_def cvPointTimes_def cvPointSum_def
      cvPointBaseAndTimes_def cvPointJointTimes_def)+

lemma coin_extract:
  assumes "lane_laws B" "g1_in B pk" "g1_in B h" "g1_in B K" "g1_in B C" "x \<noteq> x'" "coin_equation B x C K s" "coin_equation B x' C K s'"
  shows "C = lc3 B pk h ((s - s') / (x - x')) 0 0"
  using lc3_extract [OF assms(1-6), of s 0 0 s' 0 0] assms(7,8) equations_lc3(1) [OF assms(1-5)] by simp

lemma chunk_extract:
  assumes B: "lane_laws B" and pk: "g1_in B pk" and h: "g1_in B h" and K: "g1_in B K" "g1_in B K'" and C: "g1_in B (eg_r C)" "g1_in B (eg_c C)"
    and ne: "x \<noteq> x'" and r: "coin_equation B x (eg_r C) K s" "coin_equation B x' (eg_r C) K s'"
    and c: "cipher_equation B x pk (eg_c C) K' t s" "cipher_equation B x' pk (eg_c C) K' t' s'"
  shows "C = cvEncryptPointAfterValidationV2 B pk (g1_smul B (bls_genG1 B) ((t - t') / (x - x'))) ((s - s') / (x - x'))"
proof (intro cvElGamalCiphertext.equality)
  note f = lc3_facts [OF B pk h]
  show "eg_r C = eg_r (cvEncryptPointAfterValidationV2 B pk (g1_smul B (bls_genG1 B) ((t - t') / (x - x'))) ((s - s') / (x - x')))"
    using coin_extract [OF B pk h K(1) C(1) ne r] by (simp add: cvEncryptPointAfterValidationV2_def f(2))
  show "eg_c C = eg_c (cvEncryptPointAfterValidationV2 B pk (g1_smul B (bls_genG1 B) ((t - t') / (x - x'))) ((s - s') / (x - x')))"
    using lc3_extract [OF B pk h K(2) C(2) ne, of t s 0 t' s' 0] c equations_lc3(2) [OF B pk h K(2) C(2)]
    by (simp add: cvEncryptPointAfterValidationV2_def f(2,3,6))
qed simp

lemma blinding_extract:
  assumes B: "lane_laws B" and pk: "g1_in B pk" and h: "g1_in B h" and K: "g1_in B K" "g1_in B K'" and C: "g1_in B (eg_r C)" "g1_in B (eg_c C)"
    and ne: "x \<noteq> x'" and r: "coin_equation B x (eg_r C) K s" "coin_equation B x' (eg_r C) K s'"
    and c: "blinding_equation B x pk h (eg_c C) K' s t" "blinding_equation B x' pk h (eg_c C) K' s' t'"
  shows "C = cvEncryptPointAfterValidationV2 B pk (g1_smul B h ((t - t') / (x - x'))) ((s - s') / (x - x'))"
proof (intro cvElGamalCiphertext.equality)
  note f = lc3_facts [OF B pk h]
  show "eg_r C = eg_r (cvEncryptPointAfterValidationV2 B pk (g1_smul B h ((t - t') / (x - x'))) ((s - s') / (x - x')))"
    using coin_extract [OF B pk h K(1) C(1) ne r] by (simp add: cvEncryptPointAfterValidationV2_def f(2))
  show "eg_c C = eg_c (cvEncryptPointAfterValidationV2 B pk (g1_smul B h ((t - t') / (x - x'))) ((s - s') / (x - x')))"
    using lc3_extract [OF B pk h K(2) C(2) ne, of 0 s t 0 s' t'] c equations_lc3(4) [OF B pk h K(2) C(2)]
    by (simp add: cvEncryptPointAfterValidationV2_def f(3,4,6))
qed simp

lemma evaluation_extract:
  assumes B: "lane_laws B" and pk: "g1_in B pk" and h: "g1_in B h" and K: "g1_in B K" and C: "g1_in B C" and ne: "x \<noteq> x'"
    and c: "cipher_equation B x h C K t s" "cipher_equation B x' h C K t' s'"
  shows "opens B h C ((t - t') / (x - x')) ((s - s') / (x - x'))"
  using lc3_extract [OF B pk h K C ne, of t 0 s t' 0 s'] c equations_lc3(3) [OF B pk h K C] lc3_split(2) [OF B pk h]
  by (simp add: opens_def)

lemma weighted_quotient:
  fixes vs us :: "'f::field list"
  assumes p: "cvProfile p = Some (base, bound, chunks)" and len: "length vs = nat chunks" "length us = nat chunks"
    and w: "cvWeightedScalarV2 vs (cp_chunkBits p) = Some v" "cvWeightedScalarV2 us (cp_chunkBits p) = Some u"
  shows "cvWeightedScalarV2 (map2 (\<lambda>a b. (a - b) / y) vs us) (cp_chunkBits p) = Some ((v - u) / y)"
proof -
  let ?q = "of_nat (2 ^ cp_chunkBits p) :: 'f"
  have "(\<Sum>i < nat chunks. map2 (\<lambda>a b. (a - b) / y) vs us ! i * ?q ^ i) = (\<Sum>i < nat chunks. (vs ! i * ?q ^ i - us ! i * ?q ^ i) / y)"
    by (rule sum.cong) (simp_all add: len left_diff_distrib)
  then show ?thesis
    using weighted_scalar [OF p len(1)] weighted_scalar [OF p len(2)] weighted_scalar [OF p, of "map2 (\<lambda>a b. (a - b) / y) vs us"] w len
    by (simp add: sum_divide_distrib [symmetric] sum_subtractf)
qed

text \<open>C30: the ownership proof is a proof of knowledge of a well-formed lane: two accepted proofs for one offer with the
  same commitments, whose challenges differ because the hash oracle was answered differently, give coins, digits and
  a blinding such that every ciphertext of the offer encrypts its digit, the last one encrypts the blinding point,
  and the digits weighted by the powers of the chunk base, with the blinding, open the public evaluation.\<close>

theorem ownership_special_soundness:
  fixes B :: "('g, 'h, 'f::field) bls" and hash2 :: "bytes \<Rightarrow> bytes \<Rightarrow> 'f option"
  defines "B2 \<equiv> B\<lparr> fr_Hash := hash2 \<rparr>"
  assumes B: "lane_laws B" and h: "cvPedersenBase B = Some h" and p: "cvProfile (lc_Profile ctx) = Some (base, bound, chunks)"
    and v: "cvVerifyOwnershipV2 B ctx d offer pk" "cvVerifyOwnershipV2 B2 ctx d offer2 pk"
    and same: "lo_ScalarChunks offer2 = lo_ScalarChunks offer" "lo_Blinding offer2 = lo_Blinding offer" "lo_Evaluation offer2 = lo_Evaluation offer"
      "op_ScalarCoinCommitments (lo_Ownership offer2) = op_ScalarCoinCommitments (lo_Ownership offer)"
      "op_ScalarCipherCommitments (lo_Ownership offer2) = op_ScalarCipherCommitments (lo_Ownership offer)"
      "op_BlindingCoinCommitment (lo_Ownership offer2) = op_BlindingCoinCommitment (lo_Ownership offer)"
      "op_BlindingCipherCommitment (lo_Ownership offer2) = op_BlindingCipherCommitment (lo_Ownership offer)"
      "op_EvaluationCommitment (lo_Ownership offer2) = op_EvaluationCommitment (lo_Ownership offer)"
    and ch: "cvOwnershipChallengeScalarAfterValidationV2 B ctx d offer pk (lo_Ownership offer) = Some x"
      "cvOwnershipChallengeScalarAfterValidationV2 B2 ctx d offer2 pk (lo_Ownership offer2) = Some x2"
    and ne: "x \<noteq> x2"
  shows "\<exists>digits coins blinding blindingCoin. length digits = nat chunks \<and> length coins = nat chunks \<and>
    (\<forall>i < nat chunks. lo_ScalarChunks offer ! i =
       cvEncryptPointAfterValidationV2 B pk (g1_smul B (bls_genG1 B) (digits ! i)) (coins ! i)) \<and>
    lo_Blinding offer = cvEncryptPointAfterValidationV2 B pk (g1_smul B h blinding) blindingCoin \<and>
    (\<exists>scalar. cvWeightedScalarV2 digits (cp_chunkBits (lc_Profile ctx)) = Some scalar \<and> opens B h (lo_Evaluation offer) scalar blinding)"
proof -
  let ?n = "nat chunks" and ?o = "lo_Ownership offer" and ?o2 = "lo_Ownership offer2" and ?k = "cp_chunkBits (lc_Profile ctx)"
  let ?quotients = "map2 (\<lambda>a b. (a - b) / (x - x2))"
  have c: "cvChunkCount (lc_Profile ctx) = Some chunks" using p by (simp add: cvChunkCount_def)
  have h2: "cvPedersenBase B2 = Some h" using h by (simp add: B2_def cvPedersenBase_def cvValidG1_def)
  obtain w where s: "cvValidateLaneOfferShapeV2 B ctx offer pk" and dims: "proof_dimensions chunks ?o" and pts: "proof_points B chunks ?o"
    and e: "\<And>i. i < ?n \<Longrightarrow> coin_equation B x (eg_r (lo_ScalarChunks offer ! i)) (op_ScalarCoinCommitments ?o ! i) (op_ScalarCoinResponses ?o ! i)"
    "\<And>i. i < ?n \<Longrightarrow> cipher_equation B x pk (eg_c (lo_ScalarChunks offer ! i)) (op_ScalarCipherCommitments ?o ! i)
       (op_ScalarDigitResponses ?o ! i) (op_ScalarCoinResponses ?o ! i)"
    "coin_equation B x (eg_r (lo_Blinding offer)) (op_BlindingCoinCommitment ?o) (op_BlindingCoinResponse ?o)"
    "blinding_equation B x pk h (eg_c (lo_Blinding offer)) (op_BlindingCipherCommitment ?o) (op_BlindingCoinResponse ?o) (op_BlindingShareResponse ?o)"
    and w: "cvWeightedScalarV2 (op_ScalarDigitResponses ?o) ?k = Some w"
    and ev: "cipher_equation B x h (lo_Evaluation offer) (op_EvaluationCommitment ?o) w (op_BlindingShareResponse ?o)"
    by (rule verify_ownership_D [OF v(1) [unfolded cvVerifyOwnershipV2_def] h c]) (use ch(1) in simp)
  obtain w2 where dims2: "proof_dimensions chunks ?o2"
    and f: "\<And>i. i < ?n \<Longrightarrow> coin_equation B x2 (eg_r (lo_ScalarChunks offer ! i)) (op_ScalarCoinCommitments ?o ! i) (op_ScalarCoinResponses ?o2 ! i)"
    "\<And>i. i < ?n \<Longrightarrow> cipher_equation B x2 pk (eg_c (lo_ScalarChunks offer ! i)) (op_ScalarCipherCommitments ?o ! i)
       (op_ScalarDigitResponses ?o2 ! i) (op_ScalarCoinResponses ?o2 ! i)"
    "coin_equation B x2 (eg_r (lo_Blinding offer)) (op_BlindingCoinCommitment ?o) (op_BlindingCoinResponse ?o2)"
    "blinding_equation B x2 pk h (eg_c (lo_Blinding offer)) (op_BlindingCipherCommitment ?o) (op_BlindingCoinResponse ?o2) (op_BlindingShareResponse ?o2)"
    and w2: "cvWeightedScalarV2 (op_ScalarDigitResponses ?o2) ?k = Some w2"
    and ev2: "cipher_equation B x2 h (lo_Evaluation offer) (op_EvaluationCommitment ?o) w2 (op_BlindingShareResponse ?o2)"
    by (rule verify_ownership_D [OF v(2) [unfolded cvVerifyOwnershipV2_def] h2 c]) (use ch(2) same in \<open>simp add: B2_def\<close>)
  note sh = shape_D [OF s c] and pt = points_D [OF pts] and hin = cvPedersenBase_in [OF h]
  have len: "length (op_ScalarDigitResponses ?o) = ?n" "length (op_ScalarDigitResponses ?o2) = ?n"
    "length (op_ScalarCoinResponses ?o) = ?n" "length (op_ScalarCoinResponses ?o2) = ?n"
    using dims dims2 by (auto simp: proof_dimensions_def)
  note chunk = chunk_extract [OF B sh(1) hin pt(4,5) sh(6,7) ne e(1) f(1) e(2) f(2)]
  note blind = blinding_extract [OF B sh(1) hin pt(1,2) sh(3,4) ne e(3) f(3) e(4) f(4)]
  note open_evaluation = evaluation_extract [OF B sh(1) hin pt(3) sh(2) ne ev ev2]
  show ?thesis
    by (intro exI [of _ "?quotients (op_ScalarDigitResponses ?o) (op_ScalarDigitResponses ?o2)"]
        exI [of _ "?quotients (op_ScalarCoinResponses ?o) (op_ScalarCoinResponses ?o2)"] exI conjI allI impI)
       (rule blind weighted_quotient [OF p len(1,2) w w2] open_evaluation | simp add: len chunk)+
qed

end
