(* ===== verification/Aggregation.thy ===== *)
theory Aggregation
  imports Aggregate Lane_Proofs
begin

text \<open>
  Leaves and their homomorphic aggregation: the data of \<^verbatim>\<open>src/core/cv_sapvss_leaf_v2.go\<close> and
  \<^verbatim>\<open>cv_sapvss_ack_v2.go\<close>, and \<^verbatim>\<open>cvAggVerifiedV2\<close>, the canonical bytes of an aggregate and its verification in
  \<^verbatim>\<open>src/core/cv_sapvss_aggregate_v2.go\<close>.  The main results: aggregation sums commitments, evaluations and ciphertexts
  of the leaves, so an aggregate of well-formed leaves is a well-formed sharing of the sum of their secrets; and a
  validator that is given the payload made from the same leaves accepts it.
\<close>

section \<open>Leaves\<close>

record ('g, 'f) cvACKEvidenceV2 =
  ae_Ownership :: "('g, 'f) cvOwnershipProofV2"
  ae_Signature :: bytes

record ('g, 'f) cvLeafReceiverV2 =
  lr_Offer :: "('g, 'f) cvReceiverLaneOfferV2"
  lr_ACK :: "('g, 'f) cvACKEvidenceV2 option"

record cvEvidencePartitionV2 =
  ep_ACKReceiverIndices :: "int list"
  ep_FallbackReceiverIndices :: "int list"

text \<open>The fallback evidence has the type \<open>'e\<close>: nothing here looks into it.\<close>

record ('g, 'f, 'e) cvLeafV2 =
  lf_Context :: cvLeafContextV2
  lf_DealerID :: int
  lf_CoefficientCommitments :: "'g list"
  lf_CoreProof :: "('g, 'f) cvCoreProofV2"
  lf_Receivers :: "('g, 'f) cvLeafReceiverV2 list"
  lf_Partition :: cvEvidencePartitionV2
  lf_Fallback :: "'e option"
  lf_DealerSignature :: bytes
  lf_Digest :: bytes

section \<open>Aggregates\<close>

definition cvAggregateWireV2Domain :: string where
  [dom_defs]: "cvAggregateWireV2Domain = ''ARL-CV-sAPVSS/v2-scalar-group/aggregate''"

definition cvAggregateDigestV2Domain :: string where
  [dom_defs]: "cvAggregateDigestV2Domain = ''ARL-CV-sAPVSS/v2-scalar-group/aggregate-digest''"

record cvAggregateComponentV2 =
  ac_DealerID :: int
  ac_LeafDigest :: bytes

record 'g cvAggregateReceiverV2 =
  ar_ReceiverID :: int
  ar_ReceiverIndex :: int
  ar_Evaluation :: 'g
  ar_ScalarChunks :: "'g cvElGamalCiphertext list"
  ar_Blinding :: "'g cvElGamalCiphertext"

record 'g cvAggregateV2 =
  ag_ContextDigest :: bytes
  ag_Components :: "cvAggregateComponentV2 list"
  ag_CoefficientCommitments :: "'g list"
  ag_Receivers :: "'g cvAggregateReceiverV2 list"
  ag_Digest :: bytes

definition zero_ciphertext :: "('g, 'h, 'f) bls \<Rightarrow> 'g cvElGamalCiphertext" where
  "zero_ciphertext B = \<lparr> eg_r = g1_zero B, eg_c = g1_zero B \<rparr>"

definition add_ciphertext ::
  "('g, 'h, 'f) bls \<Rightarrow> 'g cvElGamalCiphertext \<Rightarrow> 'g cvElGamalCiphertext \<Rightarrow> 'g cvElGamalCiphertext" where
  "add_ciphertext B a b = \<lparr> eg_r = g1_add B (eg_r a) (eg_r b), eg_c = g1_add B (eg_c a) (eg_c b) \<rparr>"

text \<open>The inner loop of the aggregation, for one receiver.\<close>

definition add_offer ::
  "('g, 'h, 'f) bls \<Rightarrow> nat \<Rightarrow> 'g cvAggregateReceiverV2 \<Rightarrow> ('g, 'f) cvReceiverLaneOfferV2 \<Rightarrow> 'g cvAggregateReceiverV2" where
  "add_offer B chunks target source = target\<lparr>
     ar_Evaluation := g1_add B (ar_Evaluation target) (lo_Evaluation source),
     ar_ScalarChunks := map (\<lambda>chunk. add_ciphertext B (ar_ScalarChunks target ! chunk) (lo_ScalarChunks source ! chunk)) [0..<chunks],
     ar_Blinding := add_ciphertext B (ar_Blinding target) (lo_Blinding source) \<rparr>"

text \<open>One round of the outer loop.  A verified leaf has \<open>chunks\<close> ciphertexts for each receiver; where it had fewer, the
  code would index out of range.\<close>

fun agg_leaves ::
  "('g, 'h, 'f) bls \<Rightarrow> cvLeafContextV2 \<Rightarrow> nat \<Rightarrow> ('g, 'f, 'e) cvLeafV2 list \<Rightarrow> int set \<Rightarrow> 'g cvAggregateV2 \<Rightarrow> 'g cvAggregateV2 option" where
  "agg_leaves B ctx chunks [] dealers aggregate = Some aggregate"
| "agg_leaves B ctx chunks (leaf # leaves) dealers aggregate = do {
     require (\<not> (length (lf_Digest leaf) \<noteq> 32 \<or>
       int (length (lf_CoefficientCommitments leaf)) \<noteq> lc_SharingDegree ctx + 1 \<or>
       length (lf_Receivers leaf) \<noteq> length (lc_NewRoster ctx)));
     require (lf_DealerID leaf \<notin> dealers);
     require (list_all (\<lambda>receiver. chunks \<le> length (lo_ScalarChunks (lr_Offer receiver))) (lf_Receivers leaf));
     agg_leaves B ctx chunks leaves (insert (lf_DealerID leaf) dealers) (aggregate\<lparr>
       ag_Components := ag_Components aggregate @ [\<lparr> ac_DealerID = lf_DealerID leaf, ac_LeafDigest = lf_Digest leaf \<rparr>],
       ag_CoefficientCommitments := map2 (g1_add B) (ag_CoefficientCommitments aggregate) (lf_CoefficientCommitments leaf),
       ag_Receivers := map2 (\<lambda>target receiver. add_offer B chunks target (lr_Offer receiver)) (ag_Receivers aggregate) (lf_Receivers leaf) \<rparr>)
   }"

section \<open>Canonical bytes\<close>

fun write_components :: "int list \<Rightarrow> int set \<Rightarrow> cvAggregateComponentV2 list \<Rightarrow> bytes option" where
  "write_components oldRoster dealers [] = Some []"
| "write_components oldRoster dealers (component # components) = do {
     require (\<not> (ac_DealerID component < 0 \<or> length (ac_LeafDigest component) \<noteq> 32 \<or>
       \<not> cvMemberInRosterV2 (ac_DealerID component) oldRoster));
     require (ac_DealerID component \<notin> dealers);
     rest \<leftarrow> write_components oldRoster (insert (ac_DealerID component) dealers) components;
     Some (cvWriteUint64 (u64 (ac_DealerID component)) @ dropped (cvWriteBytes (ac_LeafDigest component)) @ rest)
   }"

definition write_receiver ::
  "('g, 'h, 'f::field) bls \<Rightarrow> int list \<Rightarrow> 'g list \<Rightarrow> int \<Rightarrow> bool \<Rightarrow> bool \<Rightarrow> nat \<Rightarrow> 'g cvAggregateReceiverV2 \<Rightarrow> bytes option" where
  "write_receiver B newRoster commitments chunks validatePoints validateEvaluations i receiver = do {
     require (\<not> (ar_ReceiverID receiver \<noteq> newRoster ! i \<or> ar_ReceiverIndex receiver \<noteq> int i + 1 \<or>
       (validatePoints \<and> \<not> cvValidG1 B (ar_Evaluation receiver) True)));
     require (validateEvaluations \<longrightarrow> ar_Evaluation receiver = cvEvaluateCommitments B commitments (int i + 1));
     require (\<not> (int (length (ar_ScalarChunks receiver)) \<noteq> chunks \<or> (validatePoints \<and> \<not> cvValidCiphertext B (ar_Blinding receiver))));
     cnt \<leftarrow> cvWriteUint32 chunks;
     require (\<not> (validatePoints \<and> list_ex (\<lambda>ciphertext. \<not> cvValidCiphertext B ciphertext) (ar_ScalarChunks receiver)));
     Some (cvWriteUint64 (u64 (ar_ReceiverID receiver)) @ cvWriteUint64 (u64 (ar_ReceiverIndex receiver)) @
       cvWritePoint B (ar_Evaluation receiver) @ cnt @ concat (map (cvWriteCiphertext B) (ar_ScalarChunks receiver)) @
       cvWriteCiphertext B (ar_Blinding receiver))
   }"

fun write_receivers ::
  "(nat \<Rightarrow> 'g cvAggregateReceiverV2 \<Rightarrow> bytes option) \<Rightarrow> nat \<Rightarrow> 'g cvAggregateReceiverV2 list \<Rightarrow> bytes option" where
  "write_receivers wr i [] = Some []"
| "write_receivers wr i (receiver # receivers) = do {
     w \<leftarrow> wr i receiver;
     rest \<leftarrow> write_receivers wr (i + 1) receivers;
     Some (w @ rest)
   }"

definition cvAggregateV2UnsignedCanonicalBytesMode ::
  "('g, 'h, 'f::field) bls \<Rightarrow> 'g cvAggregateV2 \<Rightarrow> cvLeafContextV2 \<Rightarrow> cvV2Params \<Rightarrow> bool \<Rightarrow> bool \<Rightarrow> bytes option" where
  "cvAggregateV2UnsignedCanonicalBytesMode B aggregate ctx params validatePoints validateEvaluations = do {
     contextDigest \<leftarrow> cvLeafContextDigestV2 ctx;
     require (\<not> (vp_componentCount params \<le> 0 \<or> ag_ContextDigest aggregate \<noteq> contextDigest \<or>
       int (length (ag_Components aggregate)) \<noteq> vp_componentCount params \<or>
       int (length (ag_CoefficientCommitments aggregate)) \<noteq> lc_SharingDegree ctx + 1 \<or>
       length (ag_Receivers aggregate) \<noteq> length (lc_NewRoster ctx)));
     chunks \<leftarrow> cvChunkCount (lc_Profile ctx);
     componentCount \<leftarrow> cvWriteUint32 (int (length (ag_Components aggregate)));
     components \<leftarrow> write_components (lc_OldRoster ctx) {} (ag_Components aggregate);
     commitments \<leftarrow> cvWritePointVectorMode B (ag_CoefficientCommitments aggregate) validatePoints;
     receiverCount \<leftarrow> cvWriteUint32 (int (length (ag_Receivers aggregate)));
     receivers \<leftarrow> write_receivers (write_receiver B (lc_NewRoster ctx) (ag_CoefficientCommitments aggregate) chunks
       validatePoints validateEvaluations) 0 (ag_Receivers aggregate);
     Some (dropped (cvWriteBytes (str_bytes cvAggregateWireV2Domain)) @ dropped (cvWriteBytes (ag_ContextDigest aggregate)) @
       componentCount @ components @ commitments @ receiverCount @ receivers)
   }"

definition cvAggregateV2CanonicalBytesMode ::
  "('g, 'h, 'f::field) bls \<Rightarrow> 'g cvAggregateV2 \<Rightarrow> cvLeafContextV2 \<Rightarrow> cvV2Params \<Rightarrow> bool \<Rightarrow> bool \<Rightarrow> bytes option" where
  "cvAggregateV2CanonicalBytesMode B aggregate ctx params validatePoints validateEvaluations = do {
     require (length (ag_Digest aggregate) = 32);
     unsigned \<leftarrow> cvAggregateV2UnsignedCanonicalBytesMode B aggregate ctx params validatePoints validateEvaluations;
     require (ag_Digest aggregate = hashBytes [str_bytes cvAggregateDigestV2Domain, unsigned]);
     Some (dropped (cvWriteBytes unsigned) @ dropped (cvWriteBytes (ag_Digest aggregate)))
   }"

definition cvAggregateV2CanonicalBytes where
  "cvAggregateV2CanonicalBytes B aggregate ctx params = cvAggregateV2CanonicalBytesMode B aggregate ctx params True True"

definition cvAggregateV2CanonicalBytesAfterPointDecoding where
  "cvAggregateV2CanonicalBytesAfterPointDecoding B aggregate ctx params = cvAggregateV2CanonicalBytesMode B aggregate ctx params False True"

definition cvAggregateV2CanonicalBytesAfterValidation where
  "cvAggregateV2CanonicalBytesAfterValidation B aggregate ctx params = cvAggregateV2CanonicalBytesMode B aggregate ctx params False False"

section \<open>Aggregation\<close>

definition empty_aggregate :: "('g, 'h, 'f) bls \<Rightarrow> cvLeafContextV2 \<Rightarrow> nat \<Rightarrow> bytes \<Rightarrow> 'g cvAggregateV2" where
  "empty_aggregate B ctx chunks contextDigest =
     \<lparr> ag_ContextDigest = contextDigest, ag_Components = [],
       ag_CoefficientCommitments = replicate (nat (lc_SharingDegree ctx + 1)) (g1_zero B),
       ag_Receivers = map (\<lambda>i. \<lparr> ar_ReceiverID = lc_NewRoster ctx ! i, ar_ReceiverIndex = int i + 1, ar_Evaluation = g1_zero B,
         ar_ScalarChunks = replicate chunks (zero_ciphertext B), ar_Blinding = zero_ciphertext B \<rparr>) [0..<length (lc_NewRoster ctx)],
       ag_Digest = [] \<rparr>"

definition cvAggVerifiedV2 ::
  "('g, 'h, 'f::field) bls \<Rightarrow> ('g, 'f, 'e) cvLeafV2 list \<Rightarrow> cvLeafContextV2 \<Rightarrow> cvV2Params \<Rightarrow> 'g cvAggregateV2 option" where
  "cvAggVerifiedV2 B leaves ctx params = do {
     require (\<not> (vp_componentCount params \<le> 0 \<or> int (length leaves) \<noteq> vp_componentCount params));
     contextDigest \<leftarrow> cvLeafContextDigestV2 ctx;
     chunks \<leftarrow> cvChunkCount (lc_Profile ctx);
     aggregate \<leftarrow> agg_leaves B ctx (nat chunks) leaves {} (empty_aggregate B ctx (nat chunks) contextDigest);
     unsigned \<leftarrow> cvAggregateV2UnsignedCanonicalBytesMode B aggregate ctx params False False;
     let aggregate = aggregate\<lparr> ag_Digest := hashBytes [str_bytes cvAggregateDigestV2Domain, unsigned] \<rparr>;
     _ \<leftarrow> cvAggregateV2CanonicalBytesAfterValidation B aggregate ctx params;
     Some aggregate
   }"

section \<open>Decoding and verification\<close>

definition cvReadComponent :: "cvWireReader \<Rightarrow> (cvAggregateComponentV2 \<times> cvWireReader) option" where
  "cvReadComponent r = do {
     (dealer, r) \<leftarrow> cvReadUint64 r;
     require (\<not> dealer > max_int);
     (leafDigest, r) \<leftarrow> cvReadBytes 32 r;
     require (length leafDigest = 32);
     Some (\<lparr> ac_DealerID = int dealer, ac_LeafDigest = leafDigest \<rparr>, r)
   }"

definition cvReadAggregateReceiver ::
  "('g, 'h, 'f) bls \<Rightarrow> int \<Rightarrow> cvWireReader \<Rightarrow> ('g cvAggregateReceiverV2 \<times> cvWireReader) option" where
  "cvReadAggregateReceiver B chunks r = do {
     (receiverID, r) \<leftarrow> cvReadUint64 r;
     require (\<not> receiverID > max_int);
     (receiverIndex, r) \<leftarrow> cvReadUint64 r;
     require (\<not> receiverIndex > max_int);
     (evaluation, r) \<leftarrow> cvReadPoint B r;
     r \<leftarrow> cvReadExactCount chunks r;
     require (cvRequireRemaining r (chunks + 1) (2 * int SizeOfG1AffineCompressed));
     (scalarChunks, r) \<leftarrow> cvReadList (cvReadCiphertext B) (nat chunks) r;
     (blinding, r) \<leftarrow> cvReadCiphertext B r;
     Some (\<lparr> ar_ReceiverID = int receiverID, ar_ReceiverIndex = int receiverIndex, ar_Evaluation = evaluation,
       ar_ScalarChunks = scalarChunks, ar_Blinding = blinding \<rparr>, r)
   }"

definition cvDecodeAggregateV2 ::
  "('g, 'h, 'f::field) bls \<Rightarrow> bytes \<Rightarrow> cvLeafContextV2 \<Rightarrow> cvV2Params \<Rightarrow> 'g cvAggregateV2 option" where
  "cvDecodeAggregateV2 B wire ctx params = do {
     require (\<not> (wire = [] \<or> length wire > cvMaxLeafWireBytes));
     (unsignedWire, r) \<leftarrow> cvReadBytes cvMaxLeafWireBytes (newCVWireReader wire);
     (digest, r) \<leftarrow> cvReadBytes 32 r;
     require (\<not> (length digest \<noteq> 32 \<or> r \<noteq> []));
     (domain, u) \<leftarrow> cvReadBytes (length cvAggregateWireV2Domain) (newCVWireReader unsignedWire);
     require (domain = str_bytes cvAggregateWireV2Domain);
     (contextDigest, u) \<leftarrow> cvReadBytes 32 u;
     wantContext \<leftarrow> cvLeafContextDigestV2 ctx;
     require (contextDigest = wantContext);
     (componentCount, u) \<leftarrow> cvReadUint32 u;
     require (int componentCount = vp_componentCount params);
     (components, u) \<leftarrow> cvReadList cvReadComponent componentCount u;
     (commitments, u) \<leftarrow> cvReadExactPointVector B (lc_SharingDegree ctx + 1) u;
     (receiverCount, u) \<leftarrow> cvReadUint32 u;
     require (receiverCount = length (lc_NewRoster ctx));
     chunks \<leftarrow> cvChunkCount (lc_Profile ctx);
     (receivers, u) \<leftarrow> cvReadList (cvReadAggregateReceiver B chunks) receiverCount u;
     require (u = []);
     let aggregate = \<lparr> ag_ContextDigest = contextDigest, ag_Components = components, ag_CoefficientCommitments = commitments,
       ag_Receivers = receivers, ag_Digest = digest \<rparr>;
     canonical \<leftarrow> cvAggregateV2CanonicalBytesAfterPointDecoding B aggregate ctx params;
     require (canonical = wire);
     Some aggregate
   }"

definition cvAVerVerifiedV2 ::
  "('g, 'h, 'f::field) bls \<Rightarrow> bytes \<Rightarrow> ('g, 'f, 'e) cvLeafV2 list \<Rightarrow> cvLeafContextV2 \<Rightarrow> cvV2Params \<Rightarrow> 'g cvAggregateV2 option" where
  "cvAVerVerifiedV2 B payload leaves ctx params = do {
     decoded \<leftarrow> cvDecodeAggregateV2 B payload ctx params;
     recomputed \<leftarrow> cvAggVerifiedV2 B leaves ctx params;
     want \<leftarrow> cvAggregateV2CanonicalBytesAfterValidation B recomputed ctx params;
     require (payload = want);
     Some decoded
   }"

definition cvVerifyAggregateHeaderPayloadV2 :: "cvAggregateHeaderV2 \<Rightarrow> bytes \<Rightarrow> 'g cvAggregateV2 \<Rightarrow> bool" where
  "cvVerifyAggregateHeaderPayloadV2 header payload aggregate \<longleftrightarrow>
     \<not> (length (ag_Digest aggregate) \<noteq> 32 \<or> ah_ContextDigest header \<noteq> ag_ContextDigest aggregate \<or>
        ah_AggregateDigest header \<noteq> ag_Digest aggregate) \<and>
     cvAggregatePayloadDigestV2 payload = Some (ah_PayloadDigest header)"

section \<open>Evaluating commitments\<close>

definition pedersen :: "('g, 'h, 'f::field) bls \<Rightarrow> 'g \<Rightarrow> 'f \<Rightarrow> 'f \<Rightarrow> 'g" where
  "pedersen B h s b = g1_add B (g1_smul B (bls_genG1 B) s) (g1_smul B h b)"

lemma pedersen_facts:
  assumes B: "lane_laws B" and h: "g1_in B h"
  shows "g1_in B (pedersen B h s b)" and "pedersen B h 0 0 = g1_zero B"
    and "g1_add B (pedersen B h s b) (g1_smul B (pedersen B h s' b') c) = pedersen B h (s + s' * c) (b + b' * c)"
    and "g1_add B (pedersen B h s b) (pedersen B h s' b') = pedersen B h (s + s') (b + b')"
proof -
  note laws = laneD(1) [OF B] and g = laneD(2) [OF B]
  note L = g1_lawsD [OF laws]
  show i: "g1_in B (pedersen B h s b)" for s b using laneD(3,4) [OF B] g h by (simp add: pedersen_def)
  show "pedersen B h 0 0 = g1_zero B" using L(1,4,5) g h by (simp add: pedersen_def)
  show l: "g1_add B (pedersen B h s b) (g1_smul B (pedersen B h s' b') c) = pedersen B h (s + s' * c) (b + b' * c)" for c
    unfolding pedersen_def by (rule pedersen_linear [OF laws g h])
  show "g1_add B (pedersen B h s b) (pedersen B h s' b') = pedersen B h (s + s') (b + b')"
    using l [of 1] g1_moduleD(4) [OF laws i] by simp
qed

lemma lincomb_pedersen:
  assumes B: "lane_laws B" and h: "g1_in B h" and "length fs = length bs" "length ps = length bs"
  shows "foldl (\<lambda>result (point, power). g1_add B result (g1_smul B point power)) (pedersen B h s b) (zip (map2 (pedersen B h) fs bs) ps) =
    pedersen B h (s + (\<Sum>i < length fs. fs ! i * ps ! i)) (b + (\<Sum>i < length fs. bs ! i * ps ! i))"
  using assms(3,4)
proof (induction fs bs arbitrary: s b ps rule: list_induct2)
  case (Cons f fs c bs)
  then obtain p ps' where ps: "ps = p # ps'" by (cases ps) auto
  show ?case
    using Cons.IH [of ps' "s + f * p" "b + c * p"] Cons.prems
    by (simp add: ps pedersen_facts(3) [OF B h] sum.lessThan_Suc_shift add.assoc del: sum.lessThan_Suc)
qed simp

lemma powers_row: fixes r :: int
  shows "0 < r \<Longrightarrow> r \<le> receivers \<Longrightarrow> 0 < degree \<Longrightarrow>
  cvEvaluationPowers degree receivers ! nat (r - 1) = map (\<lambda>i. (of_int r :: 'f::field) ^ i) [0..<nat degree]"
  by (simp add: cvEvaluationPowers_def powers_loop_eq nth_map)

lemma evaluate_commitments:
  fixes B :: "('g, 'h, 'f::field) bls"
  assumes B: "lane_laws B" and h: "g1_in B h" and len: "length fs = length bs" and ne: "fs \<noteq> []" and r: "0 < r"
  shows "cvEvaluateCommitments B (map2 (pedersen B h) fs bs) r = pedersen B h (evalPolyInt fs r) (evalPolyInt bs r)"
proof -
  let ?cs = "map2 (pedersen B h) fs bs" and ?ps = "map (\<lambda>i. of_int r ^ i) [0..<length fs]"
  note laws = laneD(1) [OF B] and g = laneD(2) [OF B]
  have "zip fs bs \<noteq> []" using ne len by (cases fs; cases bs) auto
  then have ne': "?cs \<noteq> []" by simp
  have zero: "g1_smul B (bls_genG1 B) 0 = g1_zero B" by (rule g1_lawsD(5) [OF laws g])
  have inl: "list_all (g1_in B) ?cs" using pedersen_facts(1) [OF B h] by (auto simp: list_all_iff)
  have lc: "g1_lincomb B (zip ?cs ?ps) = pedersen B h (evalPolyInt fs r) (evalPolyInt bs r)"
    using lincomb_pedersen [OF B h len, of ?ps 0 0] pedersen_facts(2) [OF B h] len
    by (simp add: g1_lincomb_def evalPolyInt_sum)
  have "cvEvaluateCommitments B ?cs r = cvEvaluateCommitmentsWithPowers B ?cs ?ps"
    using ne' r len powers_row [of r r "int (length fs)", where 'f = 'f] ne by (simp add: cvEvaluateCommitments_def)
  also have "\<dots> = g1_lincomb B (zip ?cs ?ps)"
    using ne' len zero g1_lawsD(9) [OF laws, of ?cs ?ps] inl
    by (auto simp: cvEvaluateCommitmentsWithPowers_def g1_lincomb_def split: option.splits)
  finally show ?thesis using lc by simp
qed

section \<open>Well-formed sharings\<close>

text \<open>A receiver's part of an aggregate, given the digits, coins and blinding behind it.\<close>

definition holds_encryption ::
  "('g, 'h, 'f::field) bls \<Rightarrow> 'g \<Rightarrow> 'g \<Rightarrow> nat list \<Rightarrow> 'f list \<Rightarrow> 'f \<Rightarrow> 'f \<Rightarrow> 'f \<Rightarrow> 'g cvAggregateReceiverV2 \<Rightarrow> bool" where
  "holds_encryption B pk h digits coins blindingCoin scalar blinding receiver \<longleftrightarrow>
     ar_ScalarChunks receiver =
       map2 (\<lambda>digit coin. cvEncryptPointAfterValidationV2 B pk (g1_smul B (bls_genG1 B) (of_nat digit)) coin) digits coins \<and>
     ar_Blinding receiver = cvEncryptPointAfterValidationV2 B pk (g1_smul B h blinding) blindingCoin \<and>
     ar_Evaluation receiver = pedersen B h scalar blinding"

text \<open>A leaf deals the polynomials \<open>fs\<close> and \<open>bs\<close>: its commitments are to their coefficients, and each receiver's offer
  encrypts the digits of the value of \<open>fs\<close> at the receiver's index, each below the chunk base, and the point of the
  value of \<open>bs\<close>.\<close>

definition deals ::
  "('g, 'h, 'f::field) bls \<Rightarrow> cvLeafContextV2 \<Rightarrow> nat \<Rightarrow> 'g list \<Rightarrow> 'g \<Rightarrow> 'f list \<Rightarrow> 'f list \<Rightarrow> ('g, 'f, 'e) cvLeafV2 \<Rightarrow> bool" where
  "deals B ctx chunks pks h fs bs leaf \<longleftrightarrow>
     int (length fs) = lc_SharingDegree ctx + 1 \<and> length bs = length fs \<and>
     lf_CoefficientCommitments leaf = map2 (pedersen B h) fs bs \<and> length (lf_Receivers leaf) = length (lc_NewRoster ctx) \<and>
     (\<forall>i < length (lc_NewRoster ctx). \<exists>ds coins bc. length ds = chunks \<and> length coins = chunks \<and>
        list_all (\<lambda>d. d \<le> 2 ^ cp_chunkBits (lc_Profile ctx) - 1) ds \<and>
        of_nat (digits_value (cp_chunkBits (lc_Profile ctx)) ds) = evalPolyInt fs (int i + 1) \<and>
        encrypts B (pks ! i) h ds coins bc (evalPolyInt fs (int i + 1)) (evalPolyInt bs (int i + 1)) (lr_Offer (lf_Receivers leaf ! i)))"

text \<open>An aggregate shares the polynomials \<open>fs\<close> and \<open>bs\<close>, with digits up to \<open>m\<close> times the largest digit.\<close>

definition shares ::
  "('g, 'h, 'f::field) bls \<Rightarrow> cvLeafContextV2 \<Rightarrow> nat \<Rightarrow> 'g list \<Rightarrow> 'g \<Rightarrow> nat \<Rightarrow> 'f list \<Rightarrow> 'f list \<Rightarrow> 'g cvAggregateV2 \<Rightarrow> bool" where
  "shares B ctx chunks pks h m fs bs aggregate \<longleftrightarrow>
     int (length fs) = lc_SharingDegree ctx + 1 \<and> length bs = length fs \<and>
     ag_CoefficientCommitments aggregate = map2 (pedersen B h) fs bs \<and> length (ag_Receivers aggregate) = length (lc_NewRoster ctx) \<and>
     (\<forall>i < length (lc_NewRoster ctx). ar_ReceiverID (ag_Receivers aggregate ! i) = lc_NewRoster ctx ! i \<and>
        ar_ReceiverIndex (ag_Receivers aggregate ! i) = int i + 1 \<and>
        (\<exists>ds coins bc. length ds = chunks \<and> length coins = chunks \<and>
        list_all (\<lambda>d. d \<le> m * (2 ^ cp_chunkBits (lc_Profile ctx) - 1)) ds \<and>
        of_nat (digits_value (cp_chunkBits (lc_Profile ctx)) ds) = evalPolyInt fs (int i + 1) \<and>
        holds_encryption B (pks ! i) h ds coins bc (evalPolyInt fs (int i + 1)) (evalPolyInt bs (int i + 1)) (ag_Receivers aggregate ! i)))"

definition add_polys :: "'f::field list \<Rightarrow> 'f list \<Rightarrow> 'f list" where
  "add_polys fs gs = map2 (+) fs gs"

lemma length_add_polys [simp]: "length (add_polys fs gs) = min (length fs) (length gs)"
  by (simp add: add_polys_def)

lemma eval_add_polys: "length fs = length gs \<Longrightarrow> evalPolyInt (add_polys fs gs) x = evalPolyInt fs x + evalPolyInt gs x"
  by (simp add: evalPolyInt_sum add_polys_def distrib_right sum.distrib)

lemma eval_zero_poly: "evalPolyInt (replicate n 0) x = 0"
  by (simp add: evalPolyInt_sum)

lemma digits_value_add: "length ds = length es \<Longrightarrow> digits_value k (map2 (+) ds es) = digits_value k ds + digits_value k es"
  by (simp add: digits_value_sum distrib_right sum.distrib)

lemma encrypt_add:
  assumes B: "lane_laws B" and pk: "g1_in B pk" and p: "g1_in B p" and q: "g1_in B q"
  shows "add_ciphertext B (cvEncryptPointAfterValidationV2 B pk p a) (cvEncryptPointAfterValidationV2 B pk q b) =
    cvEncryptPointAfterValidationV2 B pk (g1_add B p q) (a + b)"
  using g1_add_swap [OF laneD(1) [OF B] laneD(3) [OF B pk, of a] p laneD(3) [OF B pk, of b] q] g1_lawsD(6) [OF laneD(1) [OF B]] pk laneD(2) [OF B]
  by (simp add: add_ciphertext_def cvEncryptPointAfterValidationV2_def)

lemma add_offer_encryption:
  assumes B: "lane_laws B" and pk: "g1_in B pk" and h: "g1_in B h"
    and r: "holds_encryption B pk h ds cs bc x b receiver" and e: "encrypts B pk h es cs' bc' y c offer"
    and len: "length ds = n" "length cs = n" "length es = n" "length cs' = n"
  shows "holds_encryption B pk h (map2 (+) ds es) (map2 (+) cs cs') (bc + bc') (x + y) (b + c) (add_offer B n receiver offer)"
proof -
  note laws = laneD(1) [OF B] and g = laneD(2) [OF B]
  have sg: "g1_add B (g1_smul B p a) (g1_smul B p a') = g1_smul B p (a + a')" if "g1_in B p" for p a a'
    using g1_lawsD(6) [OF laws that] by simp
  have "lo_Evaluation offer = pedersen B h y c"
    "lo_ScalarChunks offer = map2 (\<lambda>digit coin. cvEncryptPointAfterValidationV2 B pk (g1_smul B (bls_genG1 B) (of_nat digit)) coin) es cs'"
    "lo_Blinding offer = cvEncryptPointAfterValidationV2 B pk (g1_smul B h c) bc'"
    using e by (simp_all add: encrypts_def pedersen_def)
  then show ?thesis
    using r len encrypt_add [OF B pk] laneD(3) [OF B] g h sg pedersen_facts(4) [OF B h]
    by (auto simp: holds_encryption_def add_offer_def intro!: nth_equalityI)
qed

lemma empty_shares:
  assumes B: "lane_laws B" and h: "g1_in B h" and pks: "\<forall>i < length (lc_NewRoster ctx). g1_in B (pks ! i)"
    and deg: "0 \<le> lc_SharingDegree ctx"
  shows "shares B ctx chunks pks h 0 (replicate (nat (lc_SharingDegree ctx + 1)) 0) (replicate (nat (lc_SharingDegree ctx + 1)) 0)
    (empty_aggregate B ctx chunks digest)"
proof -
  note laws = laneD(1) [OF B] and g = laneD(2) [OF B]
  have z: "cvEncryptPointAfterValidationV2 B pk (g1_smul B p 0) 0 = zero_ciphertext B" if "g1_in B pk" "g1_in B p" for pk p
    using that g1_lawsD(1,4,5) [OF laws] g by (simp add: cvEncryptPointAfterValidationV2_def zero_ciphertext_def)
  have zs: "digits_value k (replicate n 0) = 0" for k n by (simp add: digits_value_sum)
  have "holds_encryption B (pks ! i) h (replicate chunks 0) (replicate chunks 0) 0 0 0 (ag_Receivers (empty_aggregate B ctx chunks digest) ! i)"
    if "i < length (lc_NewRoster ctx)" for i
    using that pks z [OF _ g] z [OF _ h] pedersen_facts(2) [OF B h]
    by (simp add: holds_encryption_def empty_aggregate_def zip_replicate)
  then show ?thesis
    unfolding shares_def using deg pedersen_facts(2) [OF B h] zs
    by (auto simp: empty_aggregate_def eval_zero_poly zip_replicate list_all_iff intro!: exI [of _ "replicate chunks 0"] exI [of _ 0])
qed

lemma map2_pedersen_add:
  assumes B: "lane_laws B" and h: "g1_in B h" and len: "length fs = n" "length bs = n" "length fs' = n" "length bs' = n"
  shows "map2 (g1_add B) (map2 (pedersen B h) fs bs) (map2 (pedersen B h) fs' bs') = map2 (pedersen B h) (add_polys fs fs') (add_polys bs bs')"
  using len pedersen_facts(4) [OF B h] by (auto simp: add_polys_def intro!: nth_equalityI)

lemma agg_step_shares:
  assumes B: "lane_laws B" and h: "g1_in B h" and pks: "\<forall>i < length (lc_NewRoster ctx). g1_in B (pks ! i)"
    and s: "shares B ctx chunks pks h m fs bs aggregate" and d: "deals B ctx chunks pks h fs' bs' leaf"
    and a: "ag_CoefficientCommitments aggregate' = map2 (g1_add B) (ag_CoefficientCommitments aggregate) (lf_CoefficientCommitments leaf)"
      "ag_Receivers aggregate' = map2 (\<lambda>target receiver. add_offer B chunks target (lr_Offer receiver)) (ag_Receivers aggregate) (lf_Receivers leaf)"
  shows "shares B ctx chunks pks h (m + 1) (add_polys fs fs') (add_polys bs bs') aggregate'"
proof -
  let ?n = "length (lc_NewRoster ctx)" and ?k = "cp_chunkBits (lc_Profile ctx)"
  have len: "length fs = length fs'" "length bs = length fs'" "length bs' = length fs'"
    using s d by (auto simp: shares_def deals_def)
  have recv: "\<exists>ds coins bc. length ds = chunks \<and> length coins = chunks \<and> list_all (\<lambda>d. d \<le> (m + 1) * (2 ^ ?k - 1)) ds \<and>
      of_nat (digits_value ?k ds) = evalPolyInt (add_polys fs fs') (int i + 1) \<and>
      holds_encryption B (pks ! i) h ds coins bc (evalPolyInt (add_polys fs fs') (int i + 1)) (evalPolyInt (add_polys bs bs') (int i + 1))
        (ag_Receivers aggregate' ! i)" if i: "i < ?n" for i
  proof -
    obtain ds cs bc where 1: "length ds = chunks" "length cs = chunks" "list_all (\<lambda>d. d \<le> m * (2 ^ ?k - 1)) ds"
      "of_nat (digits_value ?k ds) = evalPolyInt fs (int i + 1)"
      "holds_encryption B (pks ! i) h ds cs bc (evalPolyInt fs (int i + 1)) (evalPolyInt bs (int i + 1)) (ag_Receivers aggregate ! i)"
      using s i by (auto simp: shares_def)
    obtain es cs' bc' where 2: "length es = chunks" "length cs' = chunks" "list_all (\<lambda>d. d \<le> 2 ^ ?k - 1) es"
      "of_nat (digits_value ?k es) = evalPolyInt fs' (int i + 1)"
      "encrypts B (pks ! i) h es cs' bc' (evalPolyInt fs' (int i + 1)) (evalPolyInt bs' (int i + 1)) (lr_Offer (lf_Receivers leaf ! i))"
      using d i by (auto simp: deals_def)
    have "list_all (\<lambda>d. d \<le> (m + 1) * (2 ^ ?k - 1)) (map2 (+) ds es)"
      unfolding add_mult_distrib mult_1_left using 1(1,3) 2(1,3) by (auto simp only: list_all_length length_map length_zip nth_map nth_zip
          min.idem prod.case intro!: add_mono)
    moreover have "ag_Receivers aggregate' ! i = add_offer B chunks (ag_Receivers aggregate ! i) (lr_Offer (lf_Receivers leaf ! i))"
      using a(2) s d i by (simp add: shares_def deals_def)
    ultimately show ?thesis
      using add_offer_encryption [OF B _ h 1(5) 2(5) 1(1,2) 2(1,2)] pks i 1 2 len digits_value_add [of ds es ?k]
      by (intro exI [of _ "map2 (+) ds es"] exI [of _ "map2 (+) cs cs'"] exI [of _ "bc + bc'"]) (simp add: eval_add_polys)
  qed
  have "ag_CoefficientCommitments aggregate' = map2 (pedersen B h) (add_polys fs fs') (add_polys bs bs')"
    unfolding a(1) using s d map2_pedersen_add [OF B h, of fs "length fs'" bs fs' bs'] len by (simp add: shares_def deals_def)
  moreover have "ar_ReceiverID (ag_Receivers aggregate' ! i) = lc_NewRoster ctx ! i \<and> ar_ReceiverIndex (ag_Receivers aggregate' ! i) = int i + 1"
    if "i < ?n" for i using that a(2) s d by (simp add: shares_def deals_def add_offer_def)
  ultimately show ?thesis
    using recv s d a(2) len unfolding shares_def deals_def by simp
qed

text \<open>The sums of the dealt polynomials.\<close>

definition poly_sum :: "nat \<Rightarrow> 'f::field list list \<Rightarrow> 'f list" where
  "poly_sum n polys = foldl add_polys (replicate n 0) polys"

lemma eval_poly_sum:
  assumes "\<forall>p \<in> set polys. length p = n"
  shows "evalPolyInt (poly_sum n polys) x = (\<Sum>p \<leftarrow> polys. evalPolyInt p x)" and "length (poly_sum n polys) = n"
proof -
  have "evalPolyInt (foldl add_polys acc polys) x = evalPolyInt acc x + (\<Sum>p \<leftarrow> polys. evalPolyInt p x) \<and>
      length (foldl add_polys acc polys) = n" if "length acc = n" for acc
    using assms that by (induction polys arbitrary: acc) (simp_all add: eval_add_polys add.assoc)
  from this [of "replicate n 0"] show "evalPolyInt (poly_sum n polys) x = (\<Sum>p \<leftarrow> polys. evalPolyInt p x)" "length (poly_sum n polys) = n"
    by (simp_all add: poly_sum_def eval_zero_poly)
qed

lemma agg_leaves_shares:
  assumes B: "lane_laws B" and h: "g1_in B h" and pks: "\<forall>i < length (lc_NewRoster ctx). g1_in B (pks ! i)"
    and "list_all2 (\<lambda>(fs, bs) leaf. deals B ctx chunks pks h fs bs leaf) polys leaves"
    and "shares B ctx chunks pks h m fs bs aggregate" and "agg_leaves B ctx chunks leaves dealers aggregate = Some aggregate'"
  shows "shares B ctx chunks pks h (m + length leaves) (foldl add_polys fs (map fst polys)) (foldl add_polys bs (map snd polys)) aggregate'"
  using assms(4,5,6)
proof (induction polys leaves arbitrary: m fs bs dealers aggregate rule: list_all2_induct)
  case (Cons poly polys leaf leaves)
  obtain fs' bs' where poly: "poly = (fs', bs')" by (cases poly)
  let ?agg = "aggregate\<lparr>
       ag_Components := ag_Components aggregate @ [\<lparr> ac_DealerID = lf_DealerID leaf, ac_LeafDigest = lf_Digest leaf \<rparr>],
       ag_CoefficientCommitments := map2 (g1_add B) (ag_CoefficientCommitments aggregate) (lf_CoefficientCommitments leaf),
       ag_Receivers := map2 (\<lambda>target receiver. add_offer B chunks target (lr_Offer receiver)) (ag_Receivers aggregate) (lf_Receivers leaf) \<rparr>"
  have "shares B ctx chunks pks h (m + 1) (add_polys fs fs') (add_polys bs bs') ?agg"
    by (rule agg_step_shares [OF B h pks Cons(4)]) (use Cons(1) in \<open>simp_all add: poly\<close>)
  moreover have "agg_leaves B ctx chunks leaves (insert (lf_DealerID leaf) dealers) ?agg = Some aggregate'"
    using Cons(5) by (auto simp: run_simps)
  ultimately have "shares B ctx chunks pks h (m + 1 + length leaves) (foldl add_polys (add_polys fs fs') (map fst polys))
      (foldl add_polys (add_polys bs bs') (map snd polys)) aggregate'" by (rule Cons(3))
  then show ?case by (simp add: poly)
qed simp

lemma shares_digest [simp]: "shares B ctx chunks pks h m fs bs (aggregate\<lparr> ag_Digest := digest \<rparr>) = shares B ctx chunks pks h m fs bs aggregate"
  by (simp add: shares_def)

lemma aggregate_shares:
  assumes B: "lane_laws B" and h: "g1_in B h" and pks: "\<forall>i < length (lc_NewRoster ctx). g1_in B (pks ! i)"
    and c: "cvChunkCount (lc_Profile ctx) = Some chunks"
    and d: "list_all2 (\<lambda>(fs, bs) leaf. deals B ctx (nat chunks) pks h fs bs leaf) polys leaves"
    and a: "cvAggVerifiedV2 B leaves ctx params = Some aggregate"
  shows "shares B ctx (nat chunks) pks h (length leaves) (poly_sum (nat (lc_SharingDegree ctx + 1)) (map fst polys))
    (poly_sum (nat (lc_SharingDegree ctx + 1)) (map snd polys)) aggregate"
proof -
  from a c obtain digest agg unsigned where ctx: "cvLeafContextDigestV2 ctx = Some digest"
    and r: "agg_leaves B ctx (nat chunks) leaves {} (empty_aggregate B ctx (nat chunks) digest) = Some agg"
    and agg: "aggregate = agg\<lparr> ag_Digest := hashBytes [str_bytes cvAggregateDigestV2Domain, unsigned] \<rparr>"
    by (auto simp: cvAggVerifiedV2_def run_simps Let_def)
  have deg: "0 \<le> lc_SharingDegree ctx"
    using ctx by (auto simp: cvLeafContextDigestV2_def cvLeafContextV2CanonicalBytes_def cvValidateLeafContextV2_def run_simps)
  show ?thesis
    using agg_leaves_shares [OF B h pks d empty_shares [OF B h pks deg] r] by (simp add: agg poly_sum_def)
qed

section \<open>The codec reads back aggregates\<close>

lemma read_point:
  assumes "bls_laws B" "g1_in B p"
  shows "cvReadPoint B (cvWritePoint B p @ rest) = Some (p, rest)"
  using bls_lawsD(5) [OF assms(1), of p] bls_lawsD(6) [OF assms] by (simp add: cvReadPoint_def cvWritePoint_def)

definition ciphertext_in :: "('g, 'h, 'f) bls \<Rightarrow> 'g cvElGamalCiphertext \<Rightarrow> bool" where
  "ciphertext_in B c \<longleftrightarrow> g1_in B (eg_r c) \<and> g1_in B (eg_c c)"

lemma read_ciphertext:
  assumes "bls_laws B" "ciphertext_in B c"
  shows "cvReadCiphertext B (cvWriteCiphertext B c @ rest) = Some (c, rest)"
  using assms read_point [OF assms(1)] by (simp add: cvReadCiphertext_def cvWriteCiphertext_def ciphertext_in_def)

lemma length_ciphertext: "bls_laws B \<Longrightarrow> length (cvWriteCiphertext B c) = 2 * SizeOfG1AffineCompressed"
  using bls_lawsD(5) [of B "eg_r c"] bls_lawsD(5) [of B "eg_c c"] by (simp add: cvWriteCiphertext_def cvWritePoint_def)

lemma length_concat_const: "(\<And>x. length (f x) = n) \<Longrightarrow> length (concat (map f xs)) = length xs * n"
  by (induction xs) simp_all

lemma require_remaining: "0 \<le> n \<Longrightarrow> 0 \<le> w \<Longrightarrow> n * w \<le> int (length r) \<Longrightarrow> n \<le> 4294967296 \<Longrightarrow> w \<le> 4294967 \<Longrightarrow> cvRequireRemaining r n w"
proof -
  assume a: "0 \<le> n" "0 \<le> w" "n * w \<le> int (length r)" "n \<le> 4294967296" "w \<le> 4294967"
  have "\<not> w > int max_int div n" if "n \<noteq> 0"
  proof -
    have "n * w \<le> 4294967296 * 4294967" using a by (intro mult_mono) simp_all
    also have "\<dots> \<le> int max_int" by (simp add: max_int_def)
    finally have "w * n \<le> int max_int" by (simp add: mult.commute)
    then have "w * n div n \<le> int max_int div n" using a(1) that by (intro zdiv_mono1) simp_all
    then show ?thesis using that by simp
  qed
  then show ?thesis using a by (auto simp: cvRequireRemaining_def cvCheckedProduct_def)
qed

definition receiver_in :: "('g, 'h, 'f) bls \<Rightarrow> 'g cvAggregateReceiverV2 \<Rightarrow> bool" where
  "receiver_in B receiver \<longleftrightarrow> g1_in B (ar_Evaluation receiver) \<and> list_all (ciphertext_in B) (ar_ScalarChunks receiver) \<and>
     ciphertext_in B (ar_Blinding receiver)"

text \<open>The bytes of a component and of a receiver.\<close>

definition component_bytes :: "cvAggregateComponentV2 \<Rightarrow> bytes" where
  "component_bytes c = cvWriteUint64 (nat (ac_DealerID c)) @ put_be 4 32 @ ac_LeafDigest c"

definition receiver_bytes :: "('g, 'h, 'f) bls \<Rightarrow> 'g cvAggregateReceiverV2 \<Rightarrow> bytes" where
  "receiver_bytes B receiver = cvWriteUint64 (nat (ar_ReceiverID receiver)) @ cvWriteUint64 (nat (ar_ReceiverIndex receiver)) @
     cvWritePoint B (ar_Evaluation receiver) @ put_be 4 (length (ar_ScalarChunks receiver)) @
     concat (map (cvWriteCiphertext B) (ar_ScalarChunks receiver)) @ cvWriteCiphertext B (ar_Blinding receiver)"

lemma write_components_Some:
  assumes "write_components roster dealers cs = Some w" "list_all int64 roster"
  shows "w = concat (map component_bytes cs)"
    and "list_all (\<lambda>c. 0 \<le> ac_DealerID c \<and> int64 (ac_DealerID c) \<and> length (ac_LeafDigest c) = 32) cs"
proof -
  have "w = concat (map component_bytes cs) \<and> list_all (\<lambda>c. 0 \<le> ac_DealerID c \<and> int64 (ac_DealerID c) \<and> length (ac_LeafDigest c) = 32) cs"
    using assms by (induction cs arbitrary: dealers w) (auto simp: run_simps component_bytes_def list_all_iff cvWriteBytes_def cvWriteUint32_def)
  then show "w = concat (map component_bytes cs)"
    "list_all (\<lambda>c. 0 \<le> ac_DealerID c \<and> int64 (ac_DealerID c) \<and> length (ac_LeafDigest c) = 32) cs" by auto
qed

lemma write_receivers_Some:
  assumes "write_receivers (write_receiver B roster commitments chunks vp ve) k rs = Some w"
    and "list_all int64 roster" "list_all (\<lambda>m. 0 \<le> m) roster" "k + length rs \<le> length roster" "length roster \<le> 2 ^ 20"
  shows "w = concat (map (receiver_bytes B) rs) \<and> list_all (\<lambda>r. 0 \<le> ar_ReceiverID r \<and> int64 (ar_ReceiverID r) \<and>
    0 < ar_ReceiverIndex r \<and> int64 (ar_ReceiverIndex r) \<and> int (length (ar_ScalarChunks r)) = chunks) rs"
  using assms(1,4)
proof (induction rs arbitrary: k w)
  case (Cons r rs)
  from Cons.prems(1) obtain a b where a: "write_receiver B roster commitments chunks vp ve k r = Some a"
    and b: "write_receivers (write_receiver B roster commitments chunks vp ve) (k + 1) rs = Some b" and w: "w = a @ b"
    by (auto simp: run_simps)
  have k: "k < length roster" using Cons.prems(2) by simp
  have r: "ar_ReceiverID r = roster ! k" "ar_ReceiverIndex r = int k + 1" "int (length (ar_ScalarChunks r)) = chunks"
    using a by (auto simp: write_receiver_def run_simps)
  have ids: "0 \<le> ar_ReceiverID r" "int64 (ar_ReceiverID r)" "0 < ar_ReceiverIndex r" "int64 (ar_ReceiverIndex r)"
    using r k assms(2,3,5) by (auto simp: list_all_length int64_def)
  have "a = receiver_bytes B r"
    using a ids r(3) by (auto simp: write_receiver_def run_simps receiver_bytes_def cvWriteUint32_def)
  then show ?case using Cons.IH [OF b] Cons.prems(2) ids r(3) w by simp
qed simp

lemma read_component: "0 \<le> ac_DealerID c \<Longrightarrow> int64 (ac_DealerID c) \<Longrightarrow> length (ac_LeafDigest c) = 32 \<Longrightarrow>
  cvReadComponent (component_bytes c @ rest) = Some (c, rest)"
  by (simp add: cvReadComponent_def component_bytes_def wire_simps int64_def max_int_def nat_less_iff nat_le_iff)

lemma read_receiver:
  assumes B: "bls_laws B" and i: "0 \<le> ar_ReceiverID r" "int64 (ar_ReceiverID r)" "0 < ar_ReceiverIndex r" "int64 (ar_ReceiverIndex r)"
    and c: "int (length (ar_ScalarChunks r)) = chunks" "chunks < 4294967296" and p: "receiver_in B r"
  shows "cvReadAggregateReceiver B chunks (receiver_bytes B r @ rest) = Some (r, rest)"
proof -
  let ?cts = "concat (map (cvWriteCiphertext B) (ar_ScalarChunks r))" and ?tail = "cvWriteCiphertext B (ar_Blinding r) @ rest"
  have l: "length (?cts @ ?tail) \<ge> (length (ar_ScalarChunks r) + 1) * (2 * SizeOfG1AffineCompressed)"
    using length_concat_const [of "cvWriteCiphertext B", OF length_ciphertext [OF B]] length_ciphertext [OF B] by simp
  have rem: "cvRequireRemaining (?cts @ ?tail) (chunks + 1) (2 * int SizeOfG1AffineCompressed)"
    by (rule require_remaining) (use c l in \<open>simp_all add: SizeOfG1AffineCompressed_def\<close>)
  have cts: "cvReadList (cvReadCiphertext B) (nat chunks) (?cts @ ?tail) = Some (ar_ScalarChunks r, ?tail)"
    by (rule read_list) (use c p read_ciphertext [OF B] in \<open>auto simp: receiver_in_def list_all_iff\<close>)
  have eta: "\<lparr> ar_ReceiverID = ar_ReceiverID r, ar_ReceiverIndex = ar_ReceiverIndex r, ar_Evaluation = ar_Evaluation r,
      ar_ScalarChunks = ar_ScalarChunks r, ar_Blinding = ar_Blinding r \<rparr> = r" by simp
  have fits: "\<not> max_int < nat (ar_ReceiverID r)" "\<not> max_int < nat (ar_ReceiverIndex r)"
    using i by (auto simp: int64_def max_int_def)
  show ?thesis
    using i c p rem cts fits read_point [OF B] read_ciphertext [OF B, of "ar_Blinding r"] eta
    by (simp add: cvReadAggregateReceiver_def receiver_bytes_def wire_simps int64_def nat_less_iff
        receiver_in_def cvReadExactCount_def)
qed

lemma read_points:
  assumes B: "bls_laws B" and p: "list_all (g1_in B) ps" and n: "int (length ps) = n" "n < 4294967296"
  shows "cvReadExactPointVector B n (put_be 4 (length ps) @ concat (map (cvWritePoint B) ps) @ rest) = Some (ps, rest)"
proof -
  let ?r = "concat (map (cvWritePoint B) ps) @ rest"
  have "length (cvWritePoint B q) = SizeOfG1AffineCompressed" for q using bls_lawsD(5) [OF B] by (simp add: cvWritePoint_def)
  from length_concat_const [of "cvWritePoint B", OF this]
  have l: "length ps * SizeOfG1AffineCompressed \<le> length ?r" by simp
  have rem: "cvRequireRemaining ?r n (int SizeOfG1AffineCompressed)"
    by (rule require_remaining) (use n l in \<open>simp_all add: SizeOfG1AffineCompressed_def\<close>)
  have "cvReadList (cvReadPoint B) (nat n) ?r = Some (ps, rest)"
    by (rule read_list) (use n p read_point [OF B] in \<open>auto simp: list_all_iff\<close>)
  then show ?thesis using rem n by (simp add: cvReadExactPointVector_def cvReadExactCount_def wire_simps)
qed

text \<open>The canonical bytes of an aggregate, laid out, and what writing them has checked.\<close>

definition aggregate_bytes :: "('g, 'h, 'f) bls \<Rightarrow> 'g cvAggregateV2 \<Rightarrow> bytes" where
  "aggregate_bytes B a = put_be 4 (length cvAggregateWireV2Domain) @ str_bytes cvAggregateWireV2Domain @ put_be 4 32 @ ag_ContextDigest a @
     put_be 4 (length (ag_Components a)) @ concat (map component_bytes (ag_Components a)) @
     put_be 4 (length (ag_CoefficientCommitments a)) @ concat (map (cvWritePoint B) (ag_CoefficientCommitments a)) @
     put_be 4 (length (ag_Receivers a)) @ concat (map (receiver_bytes B) (ag_Receivers a))"

definition aggregate_shape :: "cvLeafContextV2 \<Rightarrow> cvV2Params \<Rightarrow> int \<Rightarrow> 'g cvAggregateV2 \<Rightarrow> bool" where
  "aggregate_shape ctx params chunks a \<longleftrightarrow> cvLeafContextDigestV2 ctx = Some (ag_ContextDigest a) \<and> length (ag_ContextDigest a) = 32 \<and>
     int (length (ag_Components a)) = vp_componentCount params \<and> length (ag_Components a) < 4294967296 \<and>
     int (length (ag_CoefficientCommitments a)) = lc_SharingDegree ctx + 1 \<and> lc_SharingDegree ctx + 1 < 4294967296 \<and>
     length (ag_Receivers a) = length (lc_NewRoster ctx) \<and> length (lc_NewRoster ctx) \<le> 2 ^ 20 \<and>
     list_all (\<lambda>c. 0 \<le> ac_DealerID c \<and> int64 (ac_DealerID c) \<and> length (ac_LeafDigest c) = 32) (ag_Components a) \<and>
     list_all (\<lambda>r. 0 \<le> ar_ReceiverID r \<and> int64 (ar_ReceiverID r) \<and> 0 < ar_ReceiverIndex r \<and> int64 (ar_ReceiverIndex r) \<and>
       int (length (ar_ScalarChunks r)) = chunks) (ag_Receivers a)"

lemma unsigned_bytes:
  assumes wf: "wf_leaf_context ctx" and c: "cvChunkCount (lc_Profile ctx) = Some chunks"
    and w: "cvAggregateV2UnsignedCanonicalBytesMode B a ctx params vp ve = Some w"
  shows "w = aggregate_bytes B a" and "aggregate_shape ctx params chunks a"
proof -
  from w c obtain nc comps cs nr rs where d: "cvLeafContextDigestV2 ctx = Some (ag_ContextDigest a)"
    and len: "int (length (ag_Components a)) = vp_componentCount params" "int (length (ag_CoefficientCommitments a)) = lc_SharingDegree ctx + 1"
      "length (ag_Receivers a) = length (lc_NewRoster ctx)"
    and nc: "cvWriteUint32 (int (length (ag_Components a))) = Some nc" and comps: "write_components (lc_OldRoster ctx) {} (ag_Components a) = Some comps"
    and cs: "cvWritePointVectorMode B (ag_CoefficientCommitments a) vp = Some cs" and nr: "cvWriteUint32 (int (length (ag_Receivers a))) = Some nr"
    and rs: "write_receivers (write_receiver B (lc_NewRoster ctx) (ag_CoefficientCommitments a) chunks vp ve) 0 (ag_Receivers a) = Some rs"
    and w: "w = dropped (cvWriteBytes (str_bytes cvAggregateWireV2Domain)) @ dropped (cvWriteBytes (ag_ContextDigest a)) @ nc @ comps @ cs @ nr @ rs"
    unfolding cvAggregateV2UnsignedCanonicalBytesMode_def by (auto simp: run_simps)
  from d obtain ctxw where ctxw: "cvLeafContextV2CanonicalBytes ctx = Some ctxw"
    and "hashBytes [str_bytes cvLeafContextWireDomainV2, ctxw] = ag_ContextDigest a" by (auto simp: cvLeafContextDigestV2_def run_simps)
  from this(2) [symmetric] have dl: "length (ag_ContextDigest a) = 32" by simp
  note f = leaf_context_fields [OF ctxw wf]
  have old: "list_all int64 (lc_OldRoster ctx)" and new: "list_all int64 (lc_NewRoster ctx)" "list_all (\<lambda>m. 0 \<le> m) (lc_NewRoster ctx)"
    using f(10,11) by (auto simp: list_all_iff)
  note C = write_components_Some [OF comps old] and R = write_receivers_Some [OF rs new _ f(13)]
  have cs': "cs = put_be 4 (length (ag_CoefficientCommitments a)) @ concat (map (cvWritePoint B) (ag_CoefficientCommitments a))"
    and cl: "length (ag_CoefficientCommitments a) < 4294967296"
    using cs by (auto simp: cvWritePointVectorMode_def run_simps cvWriteUint32_def split: if_splits)
  have nc': "nc = put_be 4 (length (ag_Components a))" "length (ag_Components a) < 4294967296"
    "nr = put_be 4 (length (ag_Receivers a))" using nc nr by (auto simp: cvWriteUint32_def split: if_splits)
  show "w = aggregate_bytes B a" using w C(1) R cs' nc' dl len by (simp add: aggregate_bytes_def dom_defs)
  show "aggregate_shape ctx params chunks a" using d dl len nc' cl C(2) R f(13) by (simp add: aggregate_shape_def)
qed

lemma decode_aggregate:
  assumes B: "bls_laws B" and wf: "wf_leaf_context ctx" and c: "cvChunkCount (lc_Profile ctx) = Some chunks" "chunks < 4294967296"
    and pts: "list_all (g1_in B) (ag_CoefficientCommitments a)" "list_all (receiver_in B) (ag_Receivers a)"
    and w: "cvAggregateV2CanonicalBytesAfterPointDecoding B a ctx params = Some wire" "36 < length wire" "length wire \<le> cvMaxLeafWireBytes"
  shows "cvDecodeAggregateV2 B wire ctx params = Some a"
proof -
  from w(1) obtain u where dl: "length (ag_Digest a) = 32" and u: "cvAggregateV2UnsignedCanonicalBytesMode B a ctx params False True = Some u"
    and wire: "wire = dropped (cvWriteBytes u) @ dropped (cvWriteBytes (ag_Digest a))"
    unfolding cvAggregateV2CanonicalBytesAfterPointDecoding_def cvAggregateV2CanonicalBytesMode_def by (auto simp: run_simps)
  note U = unsigned_bytes [OF wf c(1) u]
  note S = U(2) [unfolded aggregate_shape_def]
  have ul: "length u < 4294967296" using w(2) wire dl cvWriteBytes_oversize [of u] by (cases "length u < 4294967296") (auto simp: dropped_def)
  have wire': "wire = put_be 4 (length u) @ u @ put_be 4 32 @ ag_Digest a" using wire ul dl by simp
  have ul': "length u \<le> cvMaxLeafWireBytes" using w(3) wire' by simp
  have comps: "cvReadList cvReadComponent (length (ag_Components a)) (concat (map component_bytes (ag_Components a)) @ rest) = Some (ag_Components a, rest)" for rest
    by (rule read_list) (use S read_component in \<open>auto simp: list_all_iff\<close>)
  have recvs: "cvReadList (cvReadAggregateReceiver B chunks) (length (lc_NewRoster ctx)) (concat (map (receiver_bytes B) (ag_Receivers a))) = Some (ag_Receivers a, [])"
    by (rule read_list_end) (use S pts(2) c(2) read_receiver [OF B] in \<open>auto simp: list_all_iff\<close>)
  have rc: "length (lc_NewRoster ctx) < 4294967296" using S by simp
  have eta: "\<lparr> ag_ContextDigest = ag_ContextDigest a, ag_Components = ag_Components a, ag_CoefficientCommitments = ag_CoefficientCommitments a,
      ag_Receivers = ag_Receivers a, ag_Digest = ag_Digest a \<rparr> = a" by simp
  have dom: "length cvAggregateWireV2Domain < 4294967296" by (simp add: dom_defs)
  have ne: "wire \<noteq> []" using w(2) by auto
  have 1: "cvReadBytes cvMaxLeafWireBytes wire = Some (u, put_be 4 32 @ ag_Digest a)" using ul ul' by (simp add: wire' wire_simps)
  have 2: "cvReadBytes 32 (put_be 4 32 @ ag_Digest a) = Some (ag_Digest a, [])" using dl read_bytes_end [of "ag_Digest a" 32] by simp
  have 3: "cvReadBytes (length cvAggregateWireV2Domain) u = Some (str_bytes cvAggregateWireV2Domain, drop (4 + length cvAggregateWireV2Domain) u)"
    using dom unfolding U(1) aggregate_bytes_def by (simp add: wire_simps)
  show ?thesis
    unfolding cvDecodeAggregateV2_def Let_def newCVWireReader_id
    using ne w(1,3) dl S rc comps recvs read_points [OF B pts(1)] dom
    by (simp add: 1 2 3 not_less) (simp add: U(1) aggregate_bytes_def wire_simps c(1) eta)
qed

section \<open>Aggregates of dealt leaves\<close>

lemma shares_points:
  assumes B: "lane_laws B" and h: "g1_in B h" and pks: "\<forall>i < length (lc_NewRoster ctx). g1_in B (pks ! i)"
    and s: "shares B ctx chunks pks h m fs bs a"
  shows "list_all (g1_in B) (ag_CoefficientCommitments a)" and "list_all (receiver_in B) (ag_Receivers a)"
    and "0 \<le> lc_SharingDegree ctx \<Longrightarrow> i < length (lc_NewRoster ctx) \<Longrightarrow>
      ar_Evaluation (ag_Receivers a ! i) = cvEvaluateCommitments B (ag_CoefficientCommitments a) (int i + 1)"
proof -
  note laws = laneD(1) [OF B] and g = laneD(2) [OF B]
  have enc: "ciphertext_in B (cvEncryptPointAfterValidationV2 B pk p c)" if "g1_in B pk" "g1_in B p" for pk p c
    using that g laneD(3,4) [OF B] by (simp add: ciphertext_in_def cvEncryptPointAfterValidationV2_def)
  show "list_all (g1_in B) (ag_CoefficientCommitments a)"
    using s pedersen_facts(1) [OF B h] by (auto simp: shares_def list_all_iff)
  have "receiver_in B (ag_Receivers a ! i)" if "i < length (lc_NewRoster ctx)" for i
  proof -
    obtain ds coins bc where "holds_encryption B (pks ! i) h ds coins bc (evalPolyInt fs (int i + 1)) (evalPolyInt bs (int i + 1)) (ag_Receivers a ! i)"
      using s \<open>i < _\<close> by (auto simp: shares_def)
    then show ?thesis
      using pks \<open>i < _\<close> enc laneD(3) [OF B] g h pedersen_facts(1) [OF B h] by (auto simp: receiver_in_def holds_encryption_def list_all_iff)
  qed
  then show "list_all (receiver_in B) (ag_Receivers a)" using s by (simp add: shares_def list_all_length)
  show "ar_Evaluation (ag_Receivers a ! i) = cvEvaluateCommitments B (ag_CoefficientCommitments a) (int i + 1)"
    if "0 \<le> lc_SharingDegree ctx" "i < length (lc_NewRoster ctx)"
  proof -
    have "fs \<noteq> []" "length fs = length bs" using s that(1) by (auto simp: shares_def)
    from evaluate_commitments [OF B h this(2,1), of "int i + 1"] show ?thesis
      using s that(2) by (auto simp: shares_def holds_encryption_def)
  qed
qed

lemma write_receivers_total:
  assumes roster: "list_all (\<lambda>m. 0 \<le> m \<and> int64 m) roster" "length roster \<le> 2 ^ 20" "k + length rs \<le> length roster"
    and chunks: "0 \<le> chunks" "chunks < 4294967296"
    and r: "\<And>i. i < length rs \<Longrightarrow> ar_ReceiverID (rs ! i) = roster ! (k + i) \<and> ar_ReceiverIndex (rs ! i) = int (k + i) + 1 \<and>
      ar_Evaluation (rs ! i) = cvEvaluateCommitments B cs (int (k + i) + 1) \<and> int (length (ar_ScalarChunks (rs ! i))) = chunks \<and> receiver_in B (rs ! i)"
  shows "write_receivers (write_receiver B roster cs chunks vp ve) k rs = Some (concat (map (receiver_bytes B) rs))"
  using roster(3) r
proof (induction rs arbitrary: k)
  case (Cons r rs)
  have r0: "ar_ReceiverID r = roster ! k" "ar_ReceiverIndex r = int k + 1" "ar_Evaluation r = cvEvaluateCommitments B cs (int k + 1)"
    "int (length (ar_ScalarChunks r)) = chunks" "receiver_in B r" using Cons.prems(2) [of 0] by simp_all
  have ids: "0 \<le> ar_ReceiverID r" "int64 (ar_ReceiverID r)" "int64 (ar_ReceiverIndex r)"
    using r0(1,2) Cons.prems(1) roster(1,2) by (auto simp: list_all_length int64_def)
  have pts: "cvValidG1 B (ar_Evaluation r) True" "cvValidCiphertext B (ar_Blinding r)" "list_all (cvValidCiphertext B) (ar_ScalarChunks r)"
    using r0(5) by (auto simp: receiver_in_def ciphertext_in_def cvValidCiphertext_def in_valid_g1 list_all_iff)
  have "write_receiver B roster cs chunks vp ve k r = Some (receiver_bytes B r)"
    using r0(1-4) ids pts chunks(2) by (auto simp: write_receiver_def receiver_bytes_def cvWriteUint32_def list_ex_iff list_all_iff)
  moreover have "write_receivers (write_receiver B roster cs chunks vp ve) (k + 1) rs = Some (concat (map (receiver_bytes B) rs))"
    by (rule Cons.IH) (use Cons.prems(1) Cons.prems(2) [of "Suc _"] in simp_all)
  ultimately show ?case by simp
qed simp

lemma write_components_total:
  assumes "list_all int64 roster"
    and "list_all (\<lambda>c. 0 \<le> ac_DealerID c \<and> ac_DealerID c \<in> set roster \<and> length (ac_LeafDigest c) = 32) cs"
    and "distinct (map ac_DealerID cs)" "ac_DealerID ` set cs \<inter> dealers = {}"
  shows "write_components roster dealers cs = Some (concat (map component_bytes cs))"
  using assms(2,3,4)
proof (induction cs arbitrary: dealers)
  case (Cons c cs)
  have "int64 (ac_DealerID c)" using Cons.prems(1) assms(1) by (auto simp: list_all_iff)
  then have "cvWriteUint64 (u64 (ac_DealerID c)) = cvWriteUint64 (nat (ac_DealerID c))" using Cons.prems(1) by simp
  moreover have "write_components roster (insert (ac_DealerID c) dealers) cs = Some (concat (map component_bytes cs))"
    by (rule Cons.IH) (use Cons.prems in auto)
  ultimately show ?case using Cons.prems by (simp add: component_bytes_def [of c])
qed simp

text \<open>The canonical bytes of an aggregate that shares polynomials, in every mode.\<close>

lemma shares_bytes:
  assumes B: "lane_laws B" and wf: "wf_leaf_context ctx" and h: "g1_in B h" and pks: "\<forall>i < length (lc_NewRoster ctx). g1_in B (pks ! i)"
    and ctx: "cvLeafContextDigestV2 ctx = Some (ag_ContextDigest a)" and p: "cvProfile (lc_Profile ctx) = Some (base, bound, chunks)"
    and s: "shares B ctx (nat chunks) pks h m fs bs a" and n: "int (length (ag_Components a)) = vp_componentCount params" "0 < vp_componentCount params"
    and c: "list_all (\<lambda>c. 0 \<le> ac_DealerID c \<and> ac_DealerID c \<in> set (lc_OldRoster ctx) \<and> length (ac_LeafDigest c) = 32) (ag_Components a)"
      "distinct (map ac_DealerID (ag_Components a))"
    and small: "vp_componentCount params < 4294967296" "lc_SharingDegree ctx + 1 < 4294967296"
  shows "cvAggregateV2UnsignedCanonicalBytesMode B a ctx params vp ve = Some (aggregate_bytes B a)"
proof -
  note pf = profile_facts [OF p]
  have ch: "cvChunkCount (lc_Profile ctx) = Some chunks" using p by (simp add: cvChunkCount_def)
  from ctx obtain ctxw where ctxw: "cvLeafContextV2CanonicalBytes ctx = Some ctxw"
    and "hashBytes [str_bytes cvLeafContextWireDomainV2, ctxw] = ag_ContextDigest a" by (auto simp: cvLeafContextDigestV2_def run_simps)
  from this(2) [symmetric] have dl: "length (ag_ContextDigest a) = 32" by simp
  note f = leaf_context_fields [OF ctxw wf]
  note P = shares_points [OF B h pks s]
  have len: "int (length (ag_CoefficientCommitments a)) = lc_SharingDegree ctx + 1" "length (ag_Receivers a) = length (lc_NewRoster ctx)"
    using s by (auto simp: shares_def)
  have rs: "write_receivers (write_receiver B (lc_NewRoster ctx) (ag_CoefficientCommitments a) chunks vp ve) 0 (ag_Receivers a) =
      Some (concat (map (receiver_bytes B) (ag_Receivers a)))"
  proof (rule write_receivers_total [OF f(11,13)])
    fix i assume "i < length (ag_Receivers a)"
    then have i: "i < length (lc_NewRoster ctx)" using len by simp
    obtain ds coins bc where "length ds = nat chunks" "length coins = nat chunks"
      "holds_encryption B (pks ! i) h ds coins bc (evalPolyInt fs (int i + 1)) (evalPolyInt bs (int i + 1)) (ag_Receivers a ! i)"
      using s i by (auto simp: shares_def)
    then have "int (length (ar_ScalarChunks (ag_Receivers a ! i))) = chunks" using pf(5) by (simp add: holds_encryption_def)
    then show "ar_ReceiverID (ag_Receivers a ! i) = lc_NewRoster ctx ! (0 + i) \<and> ar_ReceiverIndex (ag_Receivers a ! i) = int (0 + i) + 1 \<and>
      ar_Evaluation (ag_Receivers a ! i) = cvEvaluateCommitments B (ag_CoefficientCommitments a) (int (0 + i) + 1) \<and>
      int (length (ar_ScalarChunks (ag_Receivers a ! i))) = chunks \<and> receiver_in B (ag_Receivers a ! i)"
      using P(2) P(3) [OF f(6) i] s i len by (simp add: shares_def list_all_length)
  qed (use len pf(5,6) in simp_all)
  have comps: "write_components (lc_OldRoster ctx) {} (ag_Components a) = Some (concat (map component_bytes (ag_Components a)))"
    by (rule write_components_total) (use f(10) c in \<open>auto simp: list_all_iff\<close>)
  have "length (ag_CoefficientCommitments a) < 4294967296" using len(1) small(2) by simp
  then have cs: "cvWritePointVectorMode B (ag_CoefficientCommitments a) vp =
      Some (put_be 4 (length (ag_CoefficientCommitments a)) @ concat (map (cvWritePoint B) (ag_CoefficientCommitments a)))"
    using P(1) by (auto simp: cvWritePointVectorMode_def list_ex_iff list_all_iff in_valid_g1)
  have nums: "length (ag_Components a) < 4294967296" "length (ag_Receivers a) < 4294967296" using n(1) small(1) len(2) f(13) by simp_all
  have cnt: "cvWriteUint32 (vp_componentCount params) = Some (put_be 4 (length (ag_Components a)))" using nums(1) n(1) [symmetric] by simp
  have domain: "length cvAggregateWireV2Domain < 4294967296" by (simp add: dom_defs)
  show ?thesis
    unfolding cvAggregateV2UnsignedCanonicalBytesMode_def using ctx n len ch comps cs rs nums dl cnt domain
    by (simp add: aggregate_bytes_def)
qed

lemma length_concat_sum: "\<forall>x \<in> set xs. length (f x) = n \<Longrightarrow> length (concat (map f xs)) = length xs * n"
  by (induction xs) simp_all

lemma length_aggregate_bytes:
  assumes B: "bls_laws B" and "list_all (\<lambda>c. length (ac_LeafDigest c) = 32) (ag_Components a)"
    and "list_all (\<lambda>r. length (ar_ScalarChunks r) = n) (ag_Receivers a)" and "length (ag_ContextDigest a) = 32"
  shows "length (aggregate_bytes B a) = 91 + 44 * length (ag_Components a) + 48 * length (ag_CoefficientCommitments a) +
    (164 + 96 * n) * length (ag_Receivers a)"
proof -
  have pt: "length (cvWritePoint B q) = 48" for q using bls_lawsD(5) [OF B] by (simp add: cvWritePoint_def SizeOfG1AffineCompressed_def)
  have ct: "length (cvWriteCiphertext B q) = 96" for q using length_ciphertext [OF B] by (simp add: SizeOfG1AffineCompressed_def)
  have "length (concat (map component_bytes (ag_Components a))) = length (ag_Components a) * 44"
    by (rule length_concat_sum) (use assms(2) in \<open>auto simp: component_bytes_def list_all_iff\<close>)
  moreover have "length (concat (map (receiver_bytes B) (ag_Receivers a))) = length (ag_Receivers a) * (164 + 96 * n)"
    by (rule length_concat_sum)
      (use assms(3) pt ct length_concat_const [of "cvWriteCiphertext B", OF ct] in \<open>auto simp: receiver_bytes_def list_all_iff\<close>)
  moreover have "length (concat (map (cvWritePoint B) (ag_CoefficientCommitments a))) = length (ag_CoefficientCommitments a) * 48"
    by (rule length_concat_const) (rule pt)
  ultimately show ?thesis using assms(4) by (simp add: aggregate_bytes_def dom_defs)
qed

lemma agg_leaves_total:
  assumes "list_all (\<lambda>leaf. length (lf_Digest leaf) = 32 \<and> (\<exists>fs bs. deals B ctx chunks pks h fs bs leaf)) leaves"
    and "distinct (map lf_DealerID leaves)" "lf_DealerID ` set leaves \<inter> dealers = {}"
  shows "\<exists>a'. agg_leaves B ctx chunks leaves dealers a = Some a' \<and> ag_ContextDigest a' = ag_ContextDigest a \<and>
    ag_Components a' = ag_Components a @ map (\<lambda>leaf. \<lparr> ac_DealerID = lf_DealerID leaf, ac_LeafDigest = lf_Digest leaf \<rparr>) leaves"
  using assms
proof (induction leaves arbitrary: dealers a)
  case (Cons leaf leaves)
  from Cons.prems(1) obtain fs bs where d: "deals B ctx chunks pks h fs bs leaf" and dig: "length (lf_Digest leaf) = 32" by auto
  have "chunks \<le> length (lo_ScalarChunks (lr_Offer (lf_Receivers leaf ! i)))" if i: "i < length (lc_NewRoster ctx)" for i
  proof -
    obtain ds coins bc where "length ds = chunks" "length coins = chunks"
      "encrypts B (pks ! i) h ds coins bc (evalPolyInt fs (int i + 1)) (evalPolyInt bs (int i + 1)) (lr_Offer (lf_Receivers leaf ! i))"
      using d i by (auto simp: deals_def)
    then show ?thesis using encrypts_length by fastforce
  qed
  then have "list_all (\<lambda>receiver. chunks \<le> length (lo_ScalarChunks (lr_Offer receiver))) (lf_Receivers leaf)"
    using d by (simp add: list_all_length deals_def)
  moreover have "int (length (lf_CoefficientCommitments leaf)) = lc_SharingDegree ctx + 1" "length (lf_Receivers leaf) = length (lc_NewRoster ctx)"
    using d by (auto simp: deals_def)
  moreover have "lf_DealerID ` set leaves \<inter> insert (lf_DealerID leaf) dealers = {}" using Cons.prems(2,3) by auto
  ultimately show ?case
    using Cons.prems dig Cons.IH [of "insert (lf_DealerID leaf) dealers" "a\<lparr>
       ag_Components := ag_Components a @ [\<lparr> ac_DealerID = lf_DealerID leaf, ac_LeafDigest = lf_Digest leaf \<rparr>],
       ag_CoefficientCommitments := map2 (g1_add B) (ag_CoefficientCommitments a) (lf_CoefficientCommitments leaf),
       ag_Receivers := map2 (\<lambda>target receiver. add_offer B chunks target (lr_Offer receiver)) (ag_Receivers a) (lf_Receivers leaf) \<rparr>"] by simp
qed simp

text \<open>Offers that the encryption of the lanes has made deal the polynomials whose values it was given.\<close>

lemma encrypted_leaf_deals:
  assumes B: "lane_laws B" and h: "cvPedersenBase B = Some h" and p: "cvProfile (lc_Profile ctx) = Some (base, bound, chunks)"
    and f: "int (length fs) = lc_SharingDegree ctx + 1" "length bs = length fs" "lf_CoefficientCommitments leaf = map2 (pedersen B h) fs bs"
      "length (lf_Receivers leaf) = length (lc_NewRoster ctx)"
    and e: "\<And>i. i < length (lc_NewRoster ctx) \<Longrightarrow> \<exists>random d wit. cvEncryptReceiverLanesV2 B random ctx d (lc_NewRoster ctx ! i) (int i + 1) (pks ! i)
      (evalPolyInt fs (int i + 1)) (evalPolyInt bs (int i + 1)) = Some (lr_Offer (lf_Receivers leaf ! i), wit)"
  shows "deals B ctx (nat chunks) pks h fs bs leaf"
proof -
  let ?k = "cp_chunkBits (lc_Profile ctx)"
  have c: "cvChunkCount (lc_Profile ctx) = Some chunks" using p by (simp add: cvChunkCount_def)
  have "\<exists>ds coins bc. length ds = nat chunks \<and> length coins = nat chunks \<and> list_all (\<lambda>d. d \<le> 2 ^ ?k - 1) ds \<and>
      of_nat (digits_value ?k ds) = evalPolyInt fs (int i + 1) \<and>
      encrypts B (pks ! i) h ds coins bc (evalPolyInt fs (int i + 1)) (evalPolyInt bs (int i + 1)) (lr_Offer (lf_Receivers leaf ! i))"
    if i: "i < length (lc_NewRoster ctx)" for i
  proof -
    obtain random d wit where "cvEncryptReceiverLanesV2 B random ctx d (lc_NewRoster ctx ! i) (int i + 1) (pks ! i)
      (evalPolyInt fs (int i + 1)) (evalPolyInt bs (int i + 1)) = Some (lr_Offer (lf_Receivers leaf ! i), wit)" using e [OF i] by blast
    then obtain rnd where r: "cvComputeReceiverLaneOfferV2 B ctx d (lc_NewRoster ctx ! i) (int i + 1) (pks ! i)
      (evalPolyInt fs (int i + 1)) (evalPolyInt bs (int i + 1)) rnd = Some (lr_Offer (lf_Receivers leaf ! i), wit)"
      using c by (auto simp: cvEncryptReceiverLanesV2_def run_simps)
    obtain ds h' where d: "cvScalarDigits B (evalPolyInt fs (int i + 1)) (lc_Profile ctx) = Some ds" "cvPedersenBase B = Some h'"
      "length (rd_scalarCoins rnd) = length ds" "encrypts B (pks ! i) h' ds (rd_scalarCoins rnd) (rd_blindingCoin rnd)
        (evalPolyInt fs (int i + 1)) (evalPolyInt bs (int i + 1)) (lr_Offer (lf_Receivers leaf ! i))"
      by (rule compute_form [OF B r])
    obtain ds' where "cvScalarDigits B (evalPolyInt fs (int i + 1)) (lc_Profile ctx) = Some ds'" "length ds' = nat chunks"
      "list_all (\<lambda>d. d < 2 ^ ?k) ds'" "digits_value ?k ds' = fr_BigInt B (evalPolyInt fs (int i + 1))" by (rule scalar_digits [OF B p])
    then have ds: "length ds = nat chunks" "list_all (\<lambda>d. d < 2 ^ ?k) ds" "of_nat (digits_value ?k ds) = evalPolyInt fs (int i + 1)"
      using d(1) lane_lawsD(8) [OF B] by simp_all
    have "list_all (\<lambda>d. d \<le> 2 ^ ?k - 1) ds" using ds(2) unfolding list_all_iff by fastforce
    then show ?thesis using ds d h by auto
  qed
  then show ?thesis using f by (simp add: deals_def)
qed

text \<open>Leaves of one epoch, as the validators select them: as many as the parameters ask for, of distinct dealers of the
  old roster, each dealing its own pair of polynomials, and few enough for the payload limit.\<close>

definition dealt_leaves ::
  "('g, 'h, 'f::field) bls \<Rightarrow> cvLeafContextV2 \<Rightarrow> cvV2Params \<Rightarrow> nat \<Rightarrow> 'g list \<Rightarrow> 'g \<Rightarrow> ('f list \<times> 'f list) list \<Rightarrow>
   ('g, 'f, 'e) cvLeafV2 list \<Rightarrow> bool" where
  "dealt_leaves B ctx params chunks pks h polys leaves \<longleftrightarrow>
     0 < vp_componentCount params \<and> int (length leaves) = vp_componentCount params \<and> distinct (map lf_DealerID leaves) \<and>
     list_all (\<lambda>leaf. 0 \<le> lf_DealerID leaf \<and> lf_DealerID leaf \<in> set (lc_OldRoster ctx) \<and> length (lf_Digest leaf) = 32) leaves \<and>
     list_all2 (\<lambda>(fs, bs) leaf. deals B ctx chunks pks h fs bs leaf) polys leaves \<and>
     131 + 44 * length leaves + 48 * nat (lc_SharingDegree ctx + 1) + (164 + 96 * chunks) * length (lc_NewRoster ctx) \<le> cvMaxLeafWireBytes"

lemma aggregate_of_dealt:
  assumes B: "lane_laws B" and wf: "wf_leaf_context ctx" and h: "g1_in B h" and pks: "\<forall>i < length (lc_NewRoster ctx). g1_in B (pks ! i)"
    and ctx: "cvLeafContextDigestV2 ctx = Some digest" and p: "cvProfile (lc_Profile ctx) = Some (base, bound, chunks)"
    and d: "dealt_leaves B ctx params (nat chunks) pks h polys leaves"
  obtains a where "cvAggVerifiedV2 B leaves ctx params = Some a"
    "shares B ctx (nat chunks) pks h (length leaves) (poly_sum (nat (lc_SharingDegree ctx + 1)) (map fst polys))
      (poly_sum (nat (lc_SharingDegree ctx + 1)) (map snd polys)) a"
    "ag_ContextDigest a = digest" "length (ag_Digest a) = 32"
    "\<And>vp ve. cvAggregateV2CanonicalBytesMode B a ctx params vp ve =
       Some (put_be 4 (length (aggregate_bytes B a)) @ aggregate_bytes B a @ put_be 4 32 @ ag_Digest a)"
    "length (aggregate_bytes B a) + 40 \<le> cvMaxLeafWireBytes"
proof -
  let ?n = "nat (lc_SharingDegree ctx + 1)" and ?comp = "\<lambda>leaf. \<lparr> ac_DealerID = lf_DealerID leaf, ac_LeafDigest = lf_Digest leaf \<rparr>"
  have ch: "cvChunkCount (lc_Profile ctx) = Some chunks" using p by (simp add: cvChunkCount_def)
  have size: "131 + 44 * length leaves + 48 * ?n + (164 + 96 * nat chunks) * length (lc_NewRoster ctx) \<le> cvMaxLeafWireBytes"
    and l2: "list_all2 (\<lambda>(fs, bs) leaf. deals B ctx (nat chunks) pks h fs bs leaf) polys leaves"
    and n: "0 < vp_componentCount params" "int (length leaves) = vp_componentCount params" and dist: "distinct (map lf_DealerID leaves)"
    and ok: "list_all (\<lambda>leaf. 0 \<le> lf_DealerID leaf \<and> lf_DealerID leaf \<in> set (lc_OldRoster ctx) \<and> length (lf_Digest leaf) = 32) leaves"
    using d by (auto simp: dealt_leaves_def)
  have deg: "0 \<le> lc_SharingDegree ctx" using ctx
    by (auto simp: cvLeafContextDigestV2_def cvLeafContextV2CanonicalBytes_def cvValidateLeafContextV2_def run_simps)
  have "\<exists>fs bs. deals B ctx (nat chunks) pks h fs bs leaf" if leaf: "leaf \<in> set leaves" for leaf
  proof -
    obtain i where "i < length leaves" "leaves ! i = leaf" using leaf by (auto simp: in_set_conv_nth)
    then have "deals B ctx (nat chunks) pks h (fst (polys ! i)) (snd (polys ! i)) leaf" using l2 by (auto simp: list_all2_conv_all_nth split_def)
    then show ?thesis by blast
  qed
  then have "list_all (\<lambda>leaf. length (lf_Digest leaf) = 32 \<and> (\<exists>fs bs. deals B ctx (nat chunks) pks h fs bs leaf)) leaves"
    using ok by (auto simp: list_all_iff)
  from agg_leaves_total [OF this dist, of "{}" "empty_aggregate B ctx (nat chunks) digest"]
  obtain b where run: "agg_leaves B ctx (nat chunks) leaves {} (empty_aggregate B ctx (nat chunks) digest) = Some b"
    and b: "ag_ContextDigest b = digest" "ag_Components b = map ?comp leaves" by (auto simp: empty_aggregate_def)
  have sh: "shares B ctx (nat chunks) pks h (length leaves) (poly_sum ?n (map fst polys)) (poly_sum ?n (map snd polys)) b"
    using agg_leaves_shares [OF B h pks l2 empty_shares [OF B h pks deg] run] by (simp add: poly_sum_def)
  have small: "vp_componentCount params < 4294967296" "lc_SharingDegree ctx + 1 < 4294967296"
    using size n by (simp_all add: cvMaxLeafWireBytes_def)
  let ?dig = "\<lambda>u. hashBytes [str_bytes cvAggregateDigestV2Domain, u]"
  define a where "a = b\<lparr> ag_Digest := ?dig (aggregate_bytes B b) \<rparr>"
  have un: "cvAggregateV2UnsignedCanonicalBytesMode B x ctx params vp ve = Some (aggregate_bytes B x)" if "x = a \<or> x = b" for x vp ve
    by (rule shares_bytes [OF B wf h pks _ p _ _ n(1) _ _ small])
      (use that ctx b sh n(2) ok dist in \<open>auto simp: a_def list_all_iff comp_def\<close>)
  have same: "aggregate_bytes B b = aggregate_bytes B a" by (simp add: a_def aggregate_bytes_def)
  have chunk_len: "list_all (\<lambda>r. length (ar_ScalarChunks r) = nat chunks) (ag_Receivers a)"
    using sh unfolding shares_def by (auto simp: a_def list_all_length holds_encryption_def)
  have dl: "length digest = 32" using ctx by (auto simp: cvLeafContextDigestV2_def run_simps)
  have "length (aggregate_bytes B a) = 91 + 44 * length leaves + 48 * ?n + (164 + 96 * nat chunks) * length (lc_NewRoster ctx)"
    using length_aggregate_bytes [OF lane_lawsD(1) [OF B] _ chunk_len] ok b sh dl deg by (auto simp: a_def list_all_iff shares_def)
  then have size': "length (aggregate_bytes B a) + 40 \<le> cvMaxLeafWireBytes" using size by simp
  then have fits: "length (aggregate_bytes B a) < 4294967296" by (simp add: cvMaxLeafWireBytes_def)
  have adig: "ag_Digest a = ?dig (aggregate_bytes B a)" unfolding same [symmetric] by (simp add: a_def)
  have bytes: "cvAggregateV2CanonicalBytesMode B a ctx params vp ve =
      Some (put_be 4 (length (aggregate_bytes B a)) @ aggregate_bytes B a @ put_be 4 32 @ ag_Digest a)" for vp ve
    using un [of a] fits by (simp add: cvAggregateV2CanonicalBytesMode_def adig)
  have "cvAggVerifiedV2 B leaves ctx params = Some a"
    using n ctx ch run un [of b] bytes
    by (simp add: cvAggVerifiedV2_def cvAggregateV2CanonicalBytesAfterValidation_def Let_def flip: a_def)
  moreover have "shares B ctx (nat chunks) pks h (length leaves) (poly_sum ?n (map fst polys)) (poly_sum ?n (map snd polys)) a"
    "ag_ContextDigest a = digest" "length (ag_Digest a) = 32" using sh b by (simp_all add: a_def)
  ultimately show thesis using that bytes size' by blast
qed

text \<open>C7: validators agree on the aggregate: leaves of distinct dealers of the old roster, each dealing a pair of polynomials,
  have an aggregate and a payload; a validator that holds the same leaves and receives the payload decodes and accepts
  exactly this aggregate, with every check of points, evaluations, sizes and canonicity passed; and its commitments are
  the Pedersen commitments to the sums of the dealt polynomials.\<close>

theorem aggregate_of_dealt_accepted:
  assumes B: "lane_laws B" and wf: "wf_leaf_context ctx" and h: "g1_in B h" and pks: "\<forall>i < length (lc_NewRoster ctx). g1_in B (pks ! i)"
    and ctx: "cvLeafContextDigestV2 ctx = Some digest" and p: "cvProfile (lc_Profile ctx) = Some (base, bound, chunks)"
    and d: "dealt_leaves B ctx params (nat chunks) pks h polys leaves"
  shows "\<exists>aggregate payload. cvAggVerifiedV2 B leaves ctx params = Some aggregate \<and>
    cvAggregateV2CanonicalBytesAfterValidation B aggregate ctx params = Some payload \<and>
    cvAVerVerifiedV2 B payload leaves ctx params = Some aggregate \<and>
    ag_CoefficientCommitments aggregate = map2 (pedersen B h) (poly_sum (nat (lc_SharingDegree ctx + 1)) (map fst polys))
      (poly_sum (nat (lc_SharingDegree ctx + 1)) (map snd polys))"
proof -
  obtain a where a: "cvAggVerifiedV2 B leaves ctx params = Some a"
    and s: "shares B ctx (nat chunks) pks h (length leaves) (poly_sum (nat (lc_SharingDegree ctx + 1)) (map fst polys))
      (poly_sum (nat (lc_SharingDegree ctx + 1)) (map snd polys)) a"
    and dl: "length (ag_Digest a) = 32"
    and bytes: "\<And>vp ve. cvAggregateV2CanonicalBytesMode B a ctx params vp ve =
       Some (put_be 4 (length (aggregate_bytes B a)) @ aggregate_bytes B a @ put_be 4 32 @ ag_Digest a)"
    and size: "length (aggregate_bytes B a) + 40 \<le> cvMaxLeafWireBytes"
    by (rule aggregate_of_dealt [OF B wf h pks ctx p d]) blast
  let ?payload = "put_be 4 (length (aggregate_bytes B a)) @ aggregate_bytes B a @ put_be 4 32 @ ag_Digest a"
  have ch: "cvChunkCount (lc_Profile ctx) = Some chunks" using p by (simp add: cvChunkCount_def)
  have len: "36 < length ?payload" "length ?payload \<le> cvMaxLeafWireBytes" using size dl by simp_all
  note P = shares_points [OF B h pks s]
  have after: "cvAggregateV2CanonicalBytesAfterPointDecoding B a ctx params = Some ?payload"
    "cvAggregateV2CanonicalBytesAfterValidation B a ctx params = Some ?payload"
    using bytes by (simp_all add: cvAggregateV2CanonicalBytesAfterPointDecoding_def cvAggregateV2CanonicalBytesAfterValidation_def)
  have "cvDecodeAggregateV2 B ?payload ctx params = Some a"
    by (rule decode_aggregate [OF lane_lawsD(1) [OF B] wf ch profile_facts(6) [OF p] P(1,2) after(1) len])
  then have "cvAVerVerifiedV2 B ?payload leaves ctx params = Some a" using a after(2) by (simp add: cvAVerVerifiedV2_def)
  then show ?thesis using a after(2) s by (auto simp: shares_def)
qed

end
