(* ===== verification/Aggregate_Share.thy ===== *)
theory Aggregate_Share
  imports Aggregation Net_Base
begin

text \<open>
  Shares of an aggregate (\<^verbatim>\<open>src/core/cv_sapvss_share_v2.go\<close>): a receiver decrypts its scalar from the aggregate, publishes
  the point of it with a proof, others verify the proof, and enough outputs give the threshold public key of the epoch.
  The main results: a receiver of an aggregate of dealt leaves decrypts the sum of its shares; an output whose proof
  answers two challenges holds the points of these sums; and any threshold of such outputs recovers the public key of the
  sum of the secrets.  Times are measured only for reports and are left out.
\<close>

section \<open>Data\<close>

definition cvAggregateShareWireDomainV2 :: string where
  [dom_defs]: "cvAggregateShareWireDomainV2 = ''ARL-CV-sAPVSS/v2-scalar-group/aggregate-share''"

definition cvAggregateShareChallengeDomainV2 :: string where
  [dom_defs]: "cvAggregateShareChallengeDomainV2 = ''ARL-CV-sAPVSS/v2-scalar-group/aggregate-share/challenge''"

record ('g, 'f) cvAggregateShareProofV2 =
  sp_KeyCommitment :: 'g
  sp_ScalarCipherCommitment :: 'g
  sp_ScalarKnowledgeCommitment :: 'g
  sp_BlindingDecryptCommitment :: 'g
  sp_KeyResponse :: 'f
  sp_ScalarResponse :: 'f

record ('g, 'f) cvScalarShareOutputV2 =
  so_AggregateDigest :: bytes
  so_ReceiverID :: int
  so_ReceiverIndex :: int
  so_Y :: 'g
  so_YBlind :: 'g
  so_Proof :: "('g, 'f) cvAggregateShareProofV2"

section \<open>Checks of the inputs\<close>

text \<open>The public key of the receiver is an entry of the registry, never nil; an aggregate reaches these functions decoded.\<close>

definition cvValidateAggregateShareInputsModeV2 ::
  "('g, 'h, 'f::field) bls \<Rightarrow> 'g cvAggregateV2 \<Rightarrow> cvLeafContextV2 \<Rightarrow> cvV2Params \<Rightarrow> int \<Rightarrow> int \<Rightarrow> 'g \<Rightarrow> bool \<Rightarrow> bool" where
  "cvValidateAggregateShareInputsModeV2 B aggregate ctx params receiverID receiverIndex receiverPublicKey validateAggregate \<longleftrightarrow> (do {
     require (\<not> (vp_componentCount params \<le> 0 \<or> cp_maxComponents (lc_Profile ctx) \<noteq> vp_componentCount params \<or>
       lc_SharingDegree ctx \<noteq> vp_newShareDegree params \<or> vp_newShareThreshold params \<noteq> lc_SharingDegree ctx + 1 \<or>
       \<not> cvValidateReceiverBindingV2 B ctx receiverID receiverIndex receiverPublicKey));
     _ \<leftarrow> (if validateAggregate then cvAggregateV2CanonicalBytes B aggregate ctx params
        else cvAggregateV2CanonicalBytesAfterValidation B aggregate ctx params);
     let receiver = ag_Receivers aggregate ! nat (receiverIndex - 1);
     require (\<not> (ar_ReceiverID receiver \<noteq> receiverID \<or> ar_ReceiverIndex receiver \<noteq> receiverIndex))
   }) = Some ()"

definition cvValidateAggregateShareInputsV2 where
  "cvValidateAggregateShareInputsV2 B aggregate ctx params receiverID receiverIndex receiverPublicKey =
     cvValidateAggregateShareInputsModeV2 B aggregate ctx params receiverID receiverIndex receiverPublicKey True"

definition cvValidateAggregateShareInputsAfterValidationV2 where
  "cvValidateAggregateShareInputsAfterValidationV2 B aggregate ctx params receiverID receiverIndex receiverPublicKey =
     cvValidateAggregateShareInputsModeV2 B aggregate ctx params receiverID receiverIndex receiverPublicKey False"

definition cvValidAggregateShareProofV2 :: "('g, 'h, 'f) bls \<Rightarrow> ('g, 'f) cvAggregateShareProofV2 \<Rightarrow> bool" where
  "cvValidAggregateShareProofV2 B sproof \<longleftrightarrow>
     list_all (\<lambda>point. cvValidG1 B point True) [sp_KeyCommitment sproof, sp_ScalarCipherCommitment sproof,
       sp_ScalarKnowledgeCommitment sproof, sp_BlindingDecryptCommitment sproof]"

section \<open>Proof of a share\<close>

definition cvWeightedAggregateScalarV2 ::
  "('g, 'h, 'f::field) bls \<Rightarrow> 'g cvAggregateV2 \<Rightarrow> cvLeafContextV2 \<Rightarrow> int \<Rightarrow> 'g cvElGamalCiphertext option" where
  "cvWeightedAggregateScalarV2 B aggregate ctx receiverIndex = do {
     require (\<not> (receiverIndex \<le> 0 \<or> receiverIndex > int (length (ag_Receivers aggregate))));
     (base, _, chunks) \<leftarrow> cvProfile (lc_Profile ctx);
     let powers = cvFrPowers (of_int base) (nat chunks);
     let receiver = ag_Receivers aggregate ! nat (receiverIndex - 1);
     require (int (length (ar_ScalarChunks receiver)) = chunks);
     Some (foldl (\<lambda>weighted (ciphertext, power). \<lparr> eg_r = g1_add B (eg_r weighted) (cvPointTimes B (eg_r ciphertext) power),
       eg_c = g1_add B (eg_c weighted) (cvPointTimes B (eg_c ciphertext) power) \<rparr>) (zero_ciphertext B) (zip (ar_ScalarChunks receiver) powers))
   }"

definition cvAggregateShareChallengeV2 ::
  "('g, 'h, 'f::field) bls \<Rightarrow> 'g cvAggregateV2 \<Rightarrow> cvLeafContextV2 \<Rightarrow> 'g \<Rightarrow> ('g, 'f) cvScalarShareOutputV2 \<Rightarrow>
   ('g, 'f) cvAggregateShareProofV2 \<Rightarrow> 'f option" where
  "cvAggregateShareChallengeV2 B aggregate ctx receiverPublicKey sout sproof = do {
     require (\<not> (so_ReceiverIndex sout \<le> 0 \<or> so_ReceiverIndex sout > int (length (ag_Receivers aggregate)) \<or>
       \<not> cvValidG1 B receiverPublicKey False));
     contextWire \<leftarrow> cvLeafContextV2CanonicalBytes ctx;
     weighted \<leftarrow> cvWeightedAggregateScalarV2 B aggregate ctx (so_ReceiverIndex sout);
     let receiver = ag_Receivers aggregate ! nat (so_ReceiverIndex sout - 1);
     cvHashToFr B cvAggregateShareChallengeDomainV2 [dropped (cvWriteBytes contextWire) @ dropped (cvWriteBytes (ag_Digest aggregate)) @
       cvWriteUint64 (u64 (so_ReceiverID sout)) @ cvWriteUint64 (u64 (so_ReceiverIndex sout)) @ cvWritePoint B receiverPublicKey @
       cvWriteCiphertext B weighted @ cvWriteCiphertext B (ar_Blinding receiver) @ cvWritePoint B (so_Y sout) @ cvWritePoint B (so_YBlind sout) @
       concat (map (cvWritePoint B) [sp_KeyCommitment sproof, sp_ScalarCipherCommitment sproof,
         sp_ScalarKnowledgeCommitment sproof, sp_BlindingDecryptCommitment sproof])]
   }"

text \<open>The random scalars are read from a source that may fail, by position, as elsewhere.\<close>

definition cvProveAggregateShareV2 ::
  "('g, 'h, 'f::field) bls \<Rightarrow> (nat \<Rightarrow> 'f option) \<Rightarrow> 'g cvAggregateV2 \<Rightarrow> cvLeafContextV2 \<Rightarrow> 'g \<Rightarrow> 'f \<Rightarrow> 'f \<Rightarrow>
   ('g, 'f) cvScalarShareOutputV2 \<Rightarrow> ('g, 'f) cvAggregateShareProofV2 option" where
  "cvProveAggregateShareV2 B random aggregate ctx receiverPublicKey receiverSecret scalar sout = do {
     weighted \<leftarrow> cvWeightedAggregateScalarV2 B aggregate ctx (so_ReceiverIndex sout);
     keyNonce \<leftarrow> random 0;
     scalarNonce \<leftarrow> random 1;
     let receiver = ag_Receivers aggregate ! nat (so_ReceiverIndex sout - 1);
     let sproof = \<lparr> sp_KeyCommitment = cvPointTimes B (bls_genG1 B) keyNonce,
       sp_ScalarCipherCommitment = cvPointSum B [cvPointTimes B (eg_r weighted) keyNonce, cvPointTimes B (bls_genG1 B) scalarNonce],
       sp_ScalarKnowledgeCommitment = cvPointTimes B (bls_genG1 B) scalarNonce,
       sp_BlindingDecryptCommitment = cvPointTimes B (eg_r (ar_Blinding receiver)) keyNonce,
       sp_KeyResponse = 0, sp_ScalarResponse = 0 \<rparr>;
     challenge \<leftarrow> cvAggregateShareChallengeV2 B aggregate ctx receiverPublicKey sout sproof;
     Some (sproof\<lparr> sp_KeyResponse := challenge * receiverSecret + keyNonce, sp_ScalarResponse := challenge * scalar + scalarNonce \<rparr>)
   }"

definition cvVerifyAggregateShareModeV2 ::
  "('g, 'h, 'f::field) bls \<Rightarrow> ('g, 'f) cvScalarShareOutputV2 \<Rightarrow> 'g cvAggregateV2 \<Rightarrow> cvLeafContextV2 \<Rightarrow> cvV2Params \<Rightarrow> 'g \<Rightarrow>
   bool \<Rightarrow> bool \<Rightarrow> bool" where
  "cvVerifyAggregateShareModeV2 B sout aggregate ctx params receiverPublicKey validatePoints validateAggregate \<longleftrightarrow> (do {
     let aggregateOK = (if validateAggregate
       then cvValidateAggregateShareInputsV2 B aggregate ctx params (so_ReceiverID sout) (so_ReceiverIndex sout) receiverPublicKey
       else cvValidateAggregateShareInputsAfterValidationV2 B aggregate ctx params (so_ReceiverID sout) (so_ReceiverIndex sout) receiverPublicKey);
     require (\<not> (so_ReceiverID sout < 0 \<or> so_ReceiverIndex sout \<le> 0 \<or> length (so_AggregateDigest sout) \<noteq> 32 \<or>
       so_AggregateDigest sout \<noteq> ag_Digest aggregate \<or> \<not> aggregateOK \<or>
       (validatePoints \<and> (\<not> cvValidG1 B (so_Y sout) True \<or> \<not> cvValidG1 B (so_YBlind sout) True \<or>
         \<not> cvValidAggregateShareProofV2 B (so_Proof sout)))));
     let receiver = ag_Receivers aggregate ! nat (so_ReceiverIndex sout - 1);
     require (g1_add B (so_Y sout) (so_YBlind sout) = ar_Evaluation receiver);
     weighted \<leftarrow> cvWeightedAggregateScalarV2 B aggregate ctx (so_ReceiverIndex sout);
     challenge \<leftarrow> cvAggregateShareChallengeV2 B aggregate ctx receiverPublicKey sout (so_Proof sout);
     require (cvPointTimes B (bls_genG1 B) (sp_KeyResponse (so_Proof sout)) =
       cvPointSum B [sp_KeyCommitment (so_Proof sout), cvPointTimes B receiverPublicKey challenge]);
     require (cvPointSum B [cvPointTimes B (eg_r weighted) (sp_KeyResponse (so_Proof sout)),
         cvPointTimes B (bls_genG1 B) (sp_ScalarResponse (so_Proof sout))] =
       cvPointSum B [sp_ScalarCipherCommitment (so_Proof sout), cvPointTimes B (eg_c weighted) challenge]);
     require (cvPointTimes B (bls_genG1 B) (sp_ScalarResponse (so_Proof sout)) =
       cvPointSum B [sp_ScalarKnowledgeCommitment (so_Proof sout), cvPointTimes B (so_Y sout) challenge]);
     let blindingTarget = bls_Sub B (eg_c (ar_Blinding receiver)) (so_YBlind sout);
     require (cvPointTimes B (eg_r (ar_Blinding receiver)) (sp_KeyResponse (so_Proof sout)) =
       cvPointSum B [sp_BlindingDecryptCommitment (so_Proof sout), cvPointTimes B blindingTarget challenge])
   }) = Some ()"

definition cvVerifyAggregateShareV2 where
  "cvVerifyAggregateShareV2 B sout aggregate ctx params receiverPublicKey =
     cvVerifyAggregateShareModeV2 B sout aggregate ctx params receiverPublicKey True True"

definition cvVerifyAggregateShareAfterPointDecodingV2 where
  "cvVerifyAggregateShareAfterPointDecodingV2 B sout aggregate ctx params receiverPublicKey =
     cvVerifyAggregateShareModeV2 B sout aggregate ctx params receiverPublicKey False False"

definition cvVerifyAggregateShareAfterValidationV2 where
  "cvVerifyAggregateShareAfterValidationV2 B sout aggregate ctx params receiverPublicKey =
     cvVerifyAggregateShareModeV2 B sout aggregate ctx params receiverPublicKey False False"

section \<open>Decryption\<close>

definition cvAggregateDigitsToScalarV2 :: "('g, 'h, 'f::field) bls \<Rightarrow> nat list \<Rightarrow> nat \<Rightarrow> int \<Rightarrow> int \<Rightarrow> 'f option" where
  "cvAggregateDigitsToScalarV2 B digits chunkBits base bound = do {
     require (\<not> (digits = [] \<or> chunkBits = 0 \<or> chunkBits > cvMaxChunkBits \<or> base \<noteq> 2 ^ chunkBits));
     require (list_all (\<lambda>digit. \<not> int digit > bound) digits);
     Some (of_nat (digits_value chunkBits digits mod fr_Modulus B))
   }"

definition cvDecryptAggregateShareV2 ::
  "('g, 'h, 'f::field) bls \<Rightarrow> (nat \<Rightarrow> 'f option) \<Rightarrow> 'g cvAggregateV2 \<Rightarrow> cvLeafContextV2 \<Rightarrow> cvV2Params \<Rightarrow> int \<Rightarrow> int \<Rightarrow> 'g \<Rightarrow> 'f \<Rightarrow>
   ('f \<times> ('g, 'f) cvScalarShareOutputV2) option" where
  "cvDecryptAggregateShareV2 B random aggregate ctx params receiverID receiverIndex receiverPublicKey receiverSecret = do {
     require (cvValidateAggregateShareInputsV2 B aggregate ctx params receiverID receiverIndex receiverPublicKey);
     wantPublic \<leftarrow> cvReceiverPublicKey B receiverSecret;
     require (wantPublic = receiverPublicKey);
     (base, digitBound, chunks) \<leftarrow> cvProfile (lc_Profile ctx);
     let receiver = ag_Receivers aggregate ! nat (receiverIndex - 1);
     let solver = cvNewBoundedDLogSolverForBaseV2 B (bls_genG1 B) (nat digitBound);
     digits \<leftarrow> solve_all B solver receiverSecret (take (nat chunks) (ar_ScalarChunks receiver));
     scalar \<leftarrow> cvAggregateDigitsToScalarV2 B digits (cp_chunkBits (lc_Profile ctx)) base digitBound;
     let yBlind = cvDecryptGroupCiphertextV2 B (ar_Blinding receiver) receiverSecret;
     let sout = \<lparr> so_AggregateDigest = ag_Digest aggregate, so_ReceiverID = receiverID, so_ReceiverIndex = receiverIndex,
       so_Y = cvPointTimes B (bls_genG1 B) scalar, so_YBlind = yBlind,
       so_Proof = \<lparr> sp_KeyCommitment = g1_zero B, sp_ScalarCipherCommitment = g1_zero B, sp_ScalarKnowledgeCommitment = g1_zero B,
         sp_BlindingDecryptCommitment = g1_zero B, sp_KeyResponse = 0, sp_ScalarResponse = 0 \<rparr> \<rparr>;
     require (g1_add B (so_Y sout) (so_YBlind sout) = ar_Evaluation receiver);
     sproof \<leftarrow> cvProveAggregateShareV2 B random aggregate ctx receiverPublicKey receiverSecret scalar sout;
     let sout = sout\<lparr> so_Proof := sproof \<rparr>;
     require (cvVerifyAggregateShareAfterValidationV2 B sout aggregate ctx params receiverPublicKey);
     Some (scalar, sout)
   }"

section \<open>Canonical bytes of an output\<close>

definition cvScalarShareOutputV2CanonicalBytesMode ::
  "('g, 'h, 'f) bls \<Rightarrow> ('g, 'f) cvScalarShareOutputV2 \<Rightarrow> bool \<Rightarrow> bytes option" where
  "cvScalarShareOutputV2CanonicalBytesMode B sout validatePoints = do {
     require (\<not> (length (so_AggregateDigest sout) \<noteq> 32 \<or> so_ReceiverID sout < 0 \<or> so_ReceiverIndex sout \<le> 0 \<or>
       (validatePoints \<and> (\<not> cvValidG1 B (so_Y sout) True \<or> \<not> cvValidG1 B (so_YBlind sout) True \<or>
         \<not> cvValidAggregateShareProofV2 B (so_Proof sout)))));
     Some (dropped (cvWriteBytes (str_bytes cvAggregateShareWireDomainV2)) @ dropped (cvWriteBytes (so_AggregateDigest sout)) @
       cvWriteUint64 (u64 (so_ReceiverID sout)) @ cvWriteUint64 (u64 (so_ReceiverIndex sout)) @
       concat (map (cvWritePoint B) [so_Y sout, so_YBlind sout, sp_KeyCommitment (so_Proof sout), sp_ScalarCipherCommitment (so_Proof sout),
         sp_ScalarKnowledgeCommitment (so_Proof sout), sp_BlindingDecryptCommitment (so_Proof sout)]) @
       cvWriteScalar B (sp_KeyResponse (so_Proof sout)) @ cvWriteScalar B (sp_ScalarResponse (so_Proof sout)))
   }"

definition cvScalarShareOutputV2CanonicalBytes where
  "cvScalarShareOutputV2CanonicalBytes B sout = cvScalarShareOutputV2CanonicalBytesMode B sout True"

definition cvScalarShareOutputV2CanonicalBytesAfterValidation where
  "cvScalarShareOutputV2CanonicalBytesAfterValidation B sout = cvScalarShareOutputV2CanonicalBytesMode B sout False"

definition cvReadScalar :: "('g, 'h, 'f) bls \<Rightarrow> cvWireReader \<Rightarrow> ('f \<times> cvWireReader) option" where
  "cvReadScalar B r =
     (if length r < 32 then None
      else case fr_SetBytesCanonical B (take 32 r) of None \<Rightarrow> None | Some scalar \<Rightarrow> Some (scalar, drop 32 r))"

definition cvDecodeScalarShareOutputV2 ::
  "('g, 'h, 'f::field) bls \<Rightarrow> bytes \<Rightarrow> 'g cvAggregateV2 \<Rightarrow> cvLeafContextV2 \<Rightarrow> cvV2Params \<Rightarrow> ('g, 'f) cvReceiverKeyMaterialV2 \<Rightarrow>
   ('g, 'f) cvScalarShareOutputV2 option" where
  "cvDecodeScalarShareOutputV2 B wire aggregate ctx params receivers = do {
     require (cvValidateReceiverMaterialForLeafV2 ctx receivers);
     (domain, r) \<leftarrow> cvReadBytes (length cvAggregateShareWireDomainV2) (newCVWireReader wire);
     require (domain = str_bytes cvAggregateShareWireDomainV2);
     (digest, r) \<leftarrow> cvReadBytes 32 r;
     require (length digest = 32);
     (receiverID, r) \<leftarrow> cvReadUint64 r;
     require (\<not> receiverID > max_int);
     (receiverIndex, r) \<leftarrow> cvReadUint64 r;
     require (\<not> (receiverIndex = 0 \<or> receiverIndex > max_int));
     (points, r) \<leftarrow> cvReadList (cvReadPoint B) 6 r;
     (keyResponse, r) \<leftarrow> cvReadScalar B r;
     (scalarResponse, r) \<leftarrow> cvReadScalar B r;
     require (r = []);
     let sout = \<lparr> so_AggregateDigest = digest, so_ReceiverID = int receiverID, so_ReceiverIndex = int receiverIndex,
       so_Y = points ! 0, so_YBlind = points ! 1, so_Proof = \<lparr> sp_KeyCommitment = points ! 2, sp_ScalarCipherCommitment = points ! 3,
         sp_ScalarKnowledgeCommitment = points ! 4, sp_BlindingDecryptCommitment = points ! 5,
         sp_KeyResponse = keyResponse, sp_ScalarResponse = scalarResponse \<rparr> \<rparr>;
     canonical \<leftarrow> cvScalarShareOutputV2CanonicalBytesAfterValidation B sout;
     require (canonical = wire);
     let index = so_ReceiverIndex sout - 1;
     require (\<not> (index < 0 \<or> index \<ge> int (length (rk_encryptionPublicKeys receivers))));
     require (cvVerifyAggregateShareAfterPointDecodingV2 B sout aggregate ctx params (rk_encryptionPublicKeys receivers ! nat index));
     Some sout
   }"

section \<open>The threshold public key\<close>

text \<open>The loop over the outputs sorted by index; \<open>previous\<close> is the index before.\<close>

fun check_outputs ::
  "(('g, 'f) cvScalarShareOutputV2 \<Rightarrow> bool) \<Rightarrow> int \<Rightarrow> int option \<Rightarrow> ('g, 'f) cvScalarShareOutputV2 list \<Rightarrow> bool" where
  "check_outputs valid n previous [] = True"
| "check_outputs valid n previous (sout # rest) =
     (\<not> (so_ReceiverIndex sout \<le> 0 \<or> so_ReceiverIndex sout > n \<or> previous = Some (so_ReceiverIndex sout)) \<and>
      valid sout \<and> check_outputs valid n (Some (so_ReceiverIndex sout)) rest)"

definition cvRecoverThresholdPublicKeyModeV2 ::
  "('g, 'h, 'f::field) bls \<Rightarrow> ('g, 'f) cvScalarShareOutputV2 list \<Rightarrow> 'g cvAggregateV2 \<Rightarrow> cvLeafContextV2 \<Rightarrow> cvV2Params \<Rightarrow>
   ('g, 'f) cvReceiverKeyMaterialV2 \<Rightarrow> bool \<Rightarrow> 'g option" where
  "cvRecoverThresholdPublicKeyModeV2 B souts aggregate ctx params receivers validateOutputs = do {
     require (\<not> (\<not> cvValidateReceiverMaterialForLeafV2 ctx receivers \<or> int (length souts) < vp_newShareThreshold params));
     _ \<leftarrow> (if validateOutputs then cvAggregateV2CanonicalBytes B aggregate ctx params
        else cvAggregateV2CanonicalBytesAfterValidation B aggregate ctx params);
     let ordered = sort_key so_ReceiverIndex souts;
     require (check_outputs (\<lambda>sout. validateOutputs \<longrightarrow> cvVerifyAggregateShareModeV2 B sout aggregate ctx params
         (rk_encryptionPublicKeys receivers ! nat (so_ReceiverIndex sout - 1)) True False)
       (int (length (rk_encryptionPublicKeys receivers))) None ordered);
     let indices = map so_ReceiverIndex ordered;
     publicKey \<leftarrow> cvInterpolateG1AtZero B indices (map so_Y ordered);
     blindConstant \<leftarrow> cvInterpolateG1AtZero B indices (map so_YBlind ordered);
     let commitment = g1_add B publicKey blindConstant;
     require (\<not> (ag_CoefficientCommitments aggregate = [] \<or> commitment \<noteq> ag_CoefficientCommitments aggregate ! 0));
     require (\<not> g1_IsInfinity B publicKey);
     Some publicKey
   }"

definition cvRecoverThresholdPublicKeyV2 where
  "cvRecoverThresholdPublicKeyV2 B souts aggregate ctx params receivers =
     cvRecoverThresholdPublicKeyModeV2 B souts aggregate ctx params receivers True"

definition cvRecoverThresholdPublicKeyAfterValidationV2 where
  "cvRecoverThresholdPublicKeyAfterValidationV2 B souts aggregate ctx params receivers =
     cvRecoverThresholdPublicKeyModeV2 B souts aggregate ctx params receivers False"

section \<open>The weighted ciphertext\<close>

lemma pedersen_more:
  fixes B :: "('g, 'h, 'f::field) bls"
  assumes B: "lane_laws B" and h: "g1_in B h"
  shows "g1_smul B (pedersen B h s b) c = pedersen B h (s * c) (b * c)" and "g1_smul B (bls_genG1 B) s = pedersen B h s 0"
    and "g1_smul B h b = pedersen B h 0 b" and "g1_zero B = pedersen B h 0 0"
    and "bls_Sub B (pedersen B h s b) (pedersen B h s' b') = pedersen B h (s - s') (b - b')"
    and "cvPointSum B [pedersen B h s b, pedersen B h s' b'] = pedersen B h (s + s') (b + b')"
proof -
  note laws = laneD(1) [OF B] and g = laneD(2) [OF B] and P = pedersen_facts [OF B h]
  have zero_add: "g1_add B (g1_zero B) q = q" if "g1_in B q" for q using g1_lawsD(4) [OF laws that] by simp
  show sm: "g1_smul B (pedersen B h s b) c = pedersen B h (s * c) (b * c)" for s b c
    using P(3) [of 0 0 s b c] P(2) zero_add [OF laneD(3) [OF B P(1)]] by simp
  show "g1_zero B = pedersen B h 0 0" using P(2) by simp
  show "g1_smul B (bls_genG1 B) s = pedersen B h s 0" "g1_smul B h b = pedersen B h 0 b"
    using g1_lawsD(1,5) [OF laws] laneD(3) [OF B] g h g1_moduleD(1) [OF laws _ g1_lawsD(1) [OF laws]] zero_add by (simp_all add: pedersen_def)
  show "bls_Sub B (pedersen B h s b) (pedersen B h s' b') = pedersen B h (s - s') (b - b')"
    using lane_lawsD(4) [OF B P(1) P(1)] P(3) [of s b s' b' "- 1"] by simp
  show "cvPointSum B [pedersen B h s b, pedersen B h s' b'] = pedersen B h (s + s') (b + b')"
    using point_sum_two [OF lane_lawsD(1) [OF B] P(1) P(1)] P(4) by simp
qed

lemma weighted_fold:
  assumes B: "lane_laws B" and pk: "g1_in B pk"
    and len: "length cs = length ds" "length ps = length ds"
  shows "foldl (\<lambda>weighted (ciphertext, power). \<lparr> eg_r = g1_add B (eg_r weighted) (cvPointTimes B (eg_r ciphertext) power),
       eg_c = g1_add B (eg_c weighted) (cvPointTimes B (eg_c ciphertext) power) \<rparr>)
       (cvEncryptPointAfterValidationV2 B pk (g1_smul B (bls_genG1 B) x) y)
       (zip (map2 (\<lambda>d c. cvEncryptPointAfterValidationV2 B pk (g1_smul B (bls_genG1 B) (of_nat d)) c) ds cs) ps) =
     cvEncryptPointAfterValidationV2 B pk (g1_smul B (bls_genG1 B) (x + (\<Sum>i < length ds. of_nat (ds ! i) * ps ! i))) (y + (\<Sum>i < length ds. cs ! i * ps ! i))"
  using len
proof (induction cs ds arbitrary: x y ps rule: list_induct2)
  case (Cons c cs d ds)
  then obtain p ps' where ps: "ps = p # ps'" by (cases ps) auto
  have form: "cvEncryptPointAfterValidationV2 B pk (g1_smul B (bls_genG1 B) a) b = \<lparr> eg_r = lc3 B pk pk b 0 0, eg_c = lc3 B pk pk a b 0 \<rparr>" for a b
    by (simp add: cvEncryptPointAfterValidationV2_def lc3_facts(2,3,6) [OF B pk pk])
  show ?case
    using Cons.IH [of ps' "x + of_nat d * p" "y + c * p"] Cons.prems
    by (simp add: ps form cvPointTimes_def lc3_facts(6,7) [OF B pk pk] sum.lessThan_Suc_shift add.assoc del: sum.lessThan_Suc)
qed simp

lemma weighted_share:
  fixes B :: "('g, 'h, 'f::field) bls"
  assumes B: "lane_laws B" and h: "g1_in B h" and pk: "g1_in B (pks ! i)" and p: "cvProfile (lc_Profile ctx) = Some (base, bound, chunks)"
    and s: "shares B ctx (nat chunks) pks h m fs bs a" and i: "i < length (lc_NewRoster ctx)"
  shows "\<exists>coin. cvWeightedAggregateScalarV2 B a ctx (int i + 1) =
    Some (cvEncryptPointAfterValidationV2 B (pks ! i) (g1_smul B (bls_genG1 B) (evalPolyInt fs (int i + 1))) coin)"
proof -
  let ?k = "cp_chunkBits (lc_Profile ctx)"
  note pf = profile_facts [OF p]
  obtain ds coins bc where 1: "length ds = nat chunks" "length coins = nat chunks" "of_nat (digits_value ?k ds) = evalPolyInt fs (int i + 1)"
    "holds_encryption B (pks ! i) h ds coins bc (evalPolyInt fs (int i + 1)) (evalPolyInt bs (int i + 1)) (ag_Receivers a ! i)"
    using s i by (auto simp: shares_def)
  let ?ps = "cvFrPowers (of_int base) (nat chunks)"
  have base: "of_int base = (of_nat (2 ^ ?k) :: 'f)" using pf(1) by simp
  have "(\<Sum>j < length ds. of_nat (ds ! j) * ?ps ! j) = evalPolyInt fs (int i + 1)"
    unfolding 1(3) [symmetric] digits_value_of_nat using 1(1) by (intro sum.cong) (simp_all add: cvFrPowers_eq base)
  moreover have "zero_ciphertext B = cvEncryptPointAfterValidationV2 B (pks ! i) (g1_smul B (bls_genG1 B) 0) 0"
    using g1_lawsD(1,4,5) [OF laneD(1) [OF B]] laneD(2) [OF B] pk by (simp add: cvEncryptPointAfterValidationV2_def zero_ciphertext_def)
  ultimately show ?thesis
    using weighted_fold [OF B pk, of coins ds ?ps 0 0] 1 i s p pf(5) by (auto simp: cvWeightedAggregateScalarV2_def holds_encryption_def shares_def cvFrPowers_eq)
qed

section \<open>Receivers decrypt the sum of their shares\<close>

text \<open>An epoch's parameters fit its context, and the aggregate shares \<open>fs\<close> and \<open>bs\<close> and has canonical bytes.\<close>

definition shared_epoch ::
  "('g, 'h, 'f::field) bls \<Rightarrow> cvLeafContextV2 \<Rightarrow> cvV2Params \<Rightarrow> int \<Rightarrow> 'g list \<Rightarrow> 'g \<Rightarrow> 'f list \<Rightarrow> 'f list \<Rightarrow> 'g cvAggregateV2 \<Rightarrow> bool" where
  "shared_epoch B ctx params chunks pks h fs bs a \<longleftrightarrow>
     0 < vp_componentCount params \<and> cp_maxComponents (lc_Profile ctx) = vp_componentCount params \<and>
     lc_SharingDegree ctx = vp_newShareDegree params \<and> vp_newShareThreshold params = lc_SharingDegree ctx + 1 \<and>
     shares B ctx (nat chunks) pks h (nat (vp_componentCount params)) fs bs a \<and> length (ag_Digest a) = 32 \<and>
     (\<forall>vp ve. cvAggregateV2CanonicalBytesMode B a ctx params vp ve \<noteq> None)"

lemma share_inputs:
  assumes e: "shared_epoch B ctx params chunks pks h fs bs a" and i: "i < length (lc_NewRoster ctx)"
    and b: "cvValidateReceiverBindingV2 B ctx rid (int i + 1) pk"
  shows "cvValidateAggregateShareInputsModeV2 B a ctx params rid (int i + 1) pk validateAggregate"
proof -
  have "cvAggregateV2CanonicalBytes B a ctx params \<noteq> None" "cvAggregateV2CanonicalBytesAfterValidation B a ctx params \<noteq> None"
    using e by (simp_all add: shared_epoch_def cvAggregateV2CanonicalBytes_def cvAggregateV2CanonicalBytesAfterValidation_def del: not_None_eq)
  then obtain w w' where "cvAggregateV2CanonicalBytes B a ctx params = Some w" "cvAggregateV2CanonicalBytesAfterValidation B a ctx params = Some w'" by auto
  moreover have "lc_NewRoster ctx ! i = rid" using binding_index [OF b] by simp
  ultimately show ?thesis using e i b by (auto simp: cvValidateAggregateShareInputsModeV2_def shared_epoch_def shares_def Let_def)
qed

text \<open>The challenge looks at the commitments of the proof only.\<close>

lemma share_challenge_ignores:
  "cvAggregateShareChallengeV2 B a ctx pk (sout\<lparr> so_Proof := x \<rparr>) (sproof\<lparr> sp_KeyResponse := k, sp_ScalarResponse := l \<rparr>) =
    cvAggregateShareChallengeV2 B a ctx pk sout sproof"
  by (simp add: cvAggregateShareChallengeV2_def)

lemma share_challenge_total:
  assumes "\<And>m t. fr_Hash B m t \<noteq> None" "cvLeafContextV2CanonicalBytes ctx = Some w" "cvWeightedAggregateScalarV2 B a ctx (so_ReceiverIndex sout) = Some x"
    "0 < so_ReceiverIndex sout" "so_ReceiverIndex sout \<le> int (length (ag_Receivers a))" "cvValidG1 B pk False"
  shows "cvAggregateShareChallengeV2 B a ctx pk sout sproof \<noteq> None"
  using assms by (simp add: cvAggregateShareChallengeV2_def cvHashToFr_def Let_def del: not_None_eq)

lemma honest_share_verifies:
  fixes B :: "('g, 'h, 'f::field) bls"
  assumes B: "lane_laws B" and h: "g1_in B h" and p: "cvProfile (lc_Profile ctx) = Some (base, bound, chunks)"
    and e: "shared_epoch B ctx params chunks pks h fs bs a" and i: "i < length (lc_NewRoster ctx)" and rid: "0 \<le> rid"
    and b: "cvValidateReceiverBindingV2 B ctx rid (int i + 1) (pks ! i)" and sk: "pks ! i = g1_smul B (bls_genG1 B) sk"
    and o: "so_AggregateDigest sout = ag_Digest a" "so_ReceiverID sout = rid" "so_ReceiverIndex sout = int i + 1"
      "so_Y sout = g1_smul B (bls_genG1 B) (evalPolyInt fs (int i + 1))" "so_YBlind sout = g1_smul B h (evalPolyInt bs (int i + 1))"
    and pr: "cvProveAggregateShareV2 B random a ctx (pks ! i) sk (evalPolyInt fs (int i + 1)) sout = Some sproof"
  shows "cvVerifyAggregateShareModeV2 B (sout\<lparr> so_Proof := sproof \<rparr>) a ctx params (pks ! i) vp va"
proof -
  let ?F = "evalPolyInt fs (int i + 1)" and ?Bl = "evalPolyInt bs (int i + 1)" and ?pk = "pks ! i"
  note P = pedersen_facts [OF B h] and M = pedersen_more [OF B h]
  have pk: "g1_in B ?pk" by (rule binding_key [OF b])
  have s: "shares B ctx (nat chunks) pks h (nat (vp_componentCount params)) fs bs a" using e by (simp add: shared_epoch_def)
  obtain coin where w: "cvWeightedAggregateScalarV2 B a ctx (int i + 1) = Some (cvEncryptPointAfterValidationV2 B ?pk (g1_smul B (bls_genG1 B) ?F) coin)"
    using weighted_share [OF B h pk p s i] by blast
  obtain ds coins bc where enc: "holds_encryption B ?pk h ds coins bc ?F ?Bl (ag_Receivers a ! i)" using s i by (auto simp: shares_def)
  have w: "cvWeightedAggregateScalarV2 B a ctx (int i + 1) = Some \<lparr> eg_r = pedersen B h coin 0, eg_c = pedersen B h (sk * coin + ?F) 0 \<rparr>"
    unfolding w by (simp add: cvEncryptPointAfterValidationV2_def sk M(1,2) P(4))
  have bl: "ar_Blinding (ag_Receivers a ! i) = \<lparr> eg_r = pedersen B h bc 0, eg_c = pedersen B h (sk * bc) ?Bl \<rparr>"
    using enc by (simp add: holds_encryption_def cvEncryptPointAfterValidationV2_def sk M(1,2,3) P(4))
  let ?sp = "\<lambda>kn sn k l. \<lparr> sp_KeyCommitment = pedersen B h kn 0, sp_ScalarCipherCommitment = pedersen B h (coin * kn + sn) 0,
      sp_ScalarKnowledgeCommitment = pedersen B h sn 0, sp_BlindingDecryptCommitment = pedersen B h (bc * kn) 0,
      sp_KeyResponse = k, sp_ScalarResponse = l \<rparr>"
  from pr w obtain kn sn ch where sp: "sproof = ?sp kn sn (ch * sk + kn) (ch * ?F + sn)"
    and ch0: "cvAggregateShareChallengeV2 B a ctx ?pk sout (?sp kn sn 0 0) = Some ch"
    unfolding cvProveAggregateShareV2_def o(3) by (auto simp: run_simps Let_def bl M(1,2,6) cvPointTimes_def)
  have ch: "cvAggregateShareChallengeV2 B a ctx ?pk (sout\<lparr> so_Proof := x \<rparr>) sproof = Some ch" for x
    using share_challenge_ignores [where B = B and sproof = "?sp kn sn 0 0" and k = "ch * sk + kn" and l = "ch * ?F + sn"] ch0 by (simp add: sp)
  have pts: "cvValidAggregateShareProofV2 B sproof" "cvValidG1 B (so_Y sout) True" "cvValidG1 B (so_YBlind sout) True"
    using P(1) by (simp_all add: in_valid_g1 sp cvValidAggregateShareProofV2_def o M(2,3))
  have inputs: "cvValidateAggregateShareInputsModeV2 B a ctx params rid (int i + 1) ?pk va" for va by (rule share_inputs [OF e i b])
  have ev: "ar_Evaluation (ag_Receivers a ! i) = pedersen B h ?F ?Bl" using enc by (simp add: holds_encryption_def)
  have dl: "length (ag_Digest a) = 32" using e by (simp add: shared_epoch_def)
  have nat_i: "nat (int i + 1 - 1) = i" by simp
  show ?thesis
    unfolding cvVerifyAggregateShareModeV2_def cvValidateAggregateShareInputsV2_def cvValidateAggregateShareInputsAfterValidationV2_def
    using inputs rid pts dl w ch
    by (simp add: o ev bl sp sk cvPointTimes_def M P(4) algebra_simps)
qed

lemma share_decryption:
  fixes B :: "('g, 'h, 'f::field) bls"
  assumes B: "lane_laws B" and h: "g1_in B h" and p: "cvProfile (lc_Profile ctx) = Some (base, bound, chunks)" and bound: "nat bound < fr_Modulus B"
    and e: "shared_epoch B ctx params chunks pks h fs bs a" and i: "i < length (lc_NewRoster ctx)" and rid: "0 \<le> rid"
    and b: "cvValidateReceiverBindingV2 B ctx rid (int i + 1) (pks ! i)" and sk: "cvReceiverPublicKey B sk = Some (pks ! i)"
    and total: "\<And>m t. fr_Hash B m t \<noteq> None" "\<And>k. random k \<noteq> None" and ctx: "cvLeafContextV2CanonicalBytes ctx = Some w"
  obtains sout where "cvDecryptAggregateShareV2 B random a ctx params rid (int i + 1) (pks ! i) sk = Some (evalPolyInt fs (int i + 1), sout)"
    "so_AggregateDigest sout = ag_Digest a" "so_ReceiverID sout = rid" "so_ReceiverIndex sout = int i + 1"
    "so_Y sout = g1_smul B (bls_genG1 B) (evalPolyInt fs (int i + 1))" "so_YBlind sout = g1_smul B h (evalPolyInt bs (int i + 1))"
    "\<And>vp va. cvVerifyAggregateShareModeV2 B sout a ctx params (pks ! i) vp va"
proof -
  let ?F = "evalPolyInt fs (int i + 1)" and ?Bl = "evalPolyInt bs (int i + 1)" and ?pk = "pks ! i" and ?k = "cp_chunkBits (lc_Profile ctx)"
  note pf = profile_facts [OF p]
  have pk: "g1_in B ?pk" by (rule binding_key [OF b])
  have sk': "?pk = g1_smul B (bls_genG1 B) sk" using sk by (auto simp: cvReceiverPublicKey_def run_simps)
  have s: "shares B ctx (nat chunks) pks h (nat (vp_componentCount params)) fs bs a" and mc: "cp_maxComponents (lc_Profile ctx) = vp_componentCount params"
    using e by (simp_all add: shared_epoch_def)
  obtain ds coins bc where d: "length ds = nat chunks" "length coins = nat chunks" "list_all (\<lambda>d. d \<le> nat (vp_componentCount params) * (2 ^ ?k - 1)) ds"
    "of_nat (digits_value ?k ds) = ?F" and enc: "holds_encryption B ?pk h ds coins bc ?F ?Bl (ag_Receivers a ! i)"
    using s i by (auto simp: shares_def)
  have nb: "nat bound = nat (vp_componentCount params) * (2 ^ ?k - 1)"
    using pf(1,2,8) mc by (simp add: nat_mult_distrib nat_diff_distrib nat_power_eq)
  have ds: "list_all (\<lambda>d. d \<le> nat bound) ds" using d(3) unfolding nb .
  have sol: "solve_all B (cvNewBoundedDLogSolverForBaseV2 B (bls_genG1 B) (nat bound)) sk (take (nat chunks) (ar_ScalarChunks (ag_Receivers a ! i))) = Some ds"
    using solve_all_encrypted [OF B bound ds, of coins sk] enc d(1,2) sk' by (simp add: holds_encryption_def)
  have ne: "ds \<noteq> []" using d(1) pf(5) by auto
  have md: "of_nat (n mod fr_Modulus B) = (of_nat n :: 'f)" for n using lane_lawsD(8,9) [OF B] by metis
  have "list_all (\<lambda>d. \<not> int d > bound) ds" using ds pf(9) by (auto simp: list_all_iff)
  then have scal: "cvAggregateDigitsToScalarV2 B ds ?k base bound = Some ?F"
    using ne pf(1,3,4) d(4) md by (simp add: cvAggregateDigitsToScalarV2_def)
  have hin: "g1_in B (g1_smul B h ?Bl)" using laneD(3) [OF B h] .
  have bl: "cvDecryptGroupCiphertextV2 B (ar_Blinding (ag_Receivers a ! i)) sk = g1_smul B h ?Bl"
    using decrypt_encrypted [OF B hin] enc sk' by (simp add: holds_encryption_def)
  have opened: "g1_add B (cvPointTimes B (bls_genG1 B) ?F) (g1_smul B h ?Bl) = ar_Evaluation (ag_Receivers a ! i)"
    using enc by (simp add: holds_encryption_def pedersen_def cvPointTimes_def)
  define o0 :: "('g, 'f) cvScalarShareOutputV2" where "o0 = \<lparr> so_AggregateDigest = ag_Digest a, so_ReceiverID = rid, so_ReceiverIndex = int i + 1, so_Y = cvPointTimes B (bls_genG1 B) ?F,
    so_YBlind = g1_smul B h ?Bl, so_Proof = \<lparr> sp_KeyCommitment = g1_zero B, sp_ScalarCipherCommitment = g1_zero B, sp_ScalarKnowledgeCommitment = g1_zero B,
         sp_BlindingDecryptCommitment = g1_zero B, sp_KeyResponse = 0, sp_ScalarResponse = 0 \<rparr> \<rparr>"
  have of: "so_AggregateDigest o0 = ag_Digest a" "so_ReceiverID o0 = rid" "so_ReceiverIndex o0 = int i + 1"
    "so_Y o0 = g1_smul B (bls_genG1 B) ?F" "so_YBlind o0 = g1_smul B h ?Bl" by (simp_all add: o0_def cvPointTimes_def)
  obtain weighted where w: "cvWeightedAggregateScalarV2 B a ctx (int i + 1) = Some weighted" using weighted_share [OF B h pk p s i] by blast
  have ch: "cvAggregateShareChallengeV2 B a ctx ?pk o0 sproof \<noteq> None" for sproof
    by (rule share_challenge_total [OF total(1) ctx]) (use w of i s binding_index [OF b] in \<open>auto simp: shares_def\<close>)
  have "cvProveAggregateShareV2 B random a ctx ?pk sk ?F o0 \<noteq> None"
    using w of(3) ch total(2) by (simp add: cvProveAggregateShareV2_def bind_eq_None_conv Let_def del: not_None_eq)
  then obtain sproof where pr: "cvProveAggregateShareV2 B random a ctx ?pk sk ?F o0 = Some sproof" by blast
  have ver: "cvVerifyAggregateShareModeV2 B (o0\<lparr> so_Proof := sproof \<rparr>) a ctx params ?pk vp va" for vp va
    by (rule honest_share_verifies [OF B h p e i rid b sk' of pr])
  have inputs: "cvValidateAggregateShareInputsV2 B a ctx params rid (int i + 1) ?pk"
    unfolding cvValidateAggregateShareInputsV2_def by (rule share_inputs [OF e i b])
  have "cvDecryptAggregateShareV2 B random a ctx params rid (int i + 1) ?pk sk = Some (?F, o0\<lparr> so_Proof := sproof \<rparr>)"
    unfolding cvDecryptAggregateShareV2_def using inputs sk p sol scal bl opened pr ver [of False False]
    by (simp add: o0_def cvVerifyAggregateShareAfterValidationV2_def Let_def)
  then show thesis using that ver of by simp
qed

section \<open>Outputs on the wire\<close>

lemma read_scalar: "bls_laws B \<Longrightarrow> cvReadScalar B (cvWriteScalar B x @ rest) = Some (x, rest)"
  using bls_lawsD(12) [of B x] by (simp add: cvReadScalar_def cvWriteScalar_def)

lemma decode_output:
  assumes B: "bls_laws B" and o: "0 \<le> so_ReceiverID sout" "int64 (so_ReceiverID sout)" "0 < so_ReceiverIndex sout" "int64 (so_ReceiverIndex sout)"
      "length (so_AggregateDigest sout) = 32"
    and pts: "list_all (g1_in B) [so_Y sout, so_YBlind sout, sp_KeyCommitment (so_Proof sout), sp_ScalarCipherCommitment (so_Proof sout),
         sp_ScalarKnowledgeCommitment (so_Proof sout), sp_BlindingDecryptCommitment (so_Proof sout)]"
    and m: "cvValidateReceiverMaterialForLeafV2 ctx receivers" "so_ReceiverIndex sout \<le> int (length (rk_encryptionPublicKeys receivers))"
    and v: "cvVerifyAggregateShareAfterPointDecodingV2 B sout a ctx params (rk_encryptionPublicKeys receivers ! nat (so_ReceiverIndex sout - 1))"
    and w: "cvScalarShareOutputV2CanonicalBytesAfterValidation B sout = Some wire"
  shows "cvDecodeScalarShareOutputV2 B wire a ctx params receivers = Some sout"
proof -
  let ?pts = "[so_Y sout, so_YBlind sout, sp_KeyCommitment (so_Proof sout), sp_ScalarCipherCommitment (so_Proof sout),
         sp_ScalarKnowledgeCommitment (so_Proof sout), sp_BlindingDecryptCommitment (so_Proof sout)]"
  have domain: "length cvAggregateShareWireDomainV2 < 4294967296" by (simp add: dom_defs)
  have wire: "wire = put_be 4 (length cvAggregateShareWireDomainV2) @ str_bytes cvAggregateShareWireDomainV2 @ put_be 4 32 @ so_AggregateDigest sout @
      cvWriteUint64 (nat (so_ReceiverID sout)) @ cvWriteUint64 (nat (so_ReceiverIndex sout)) @ concat (map (cvWritePoint B) ?pts) @
      cvWriteScalar B (sp_KeyResponse (so_Proof sout)) @ cvWriteScalar B (sp_ScalarResponse (so_Proof sout)) @ []"
    using w o domain by (auto simp: cvScalarShareOutputV2CanonicalBytesAfterValidation_def cvScalarShareOutputV2CanonicalBytesMode_def run_simps)
  have fits: "\<not> max_int < nat (so_ReceiverID sout)" "\<not> max_int < nat (so_ReceiverIndex sout)"
    "nat (so_ReceiverID sout) < 18446744073709551616" "nat (so_ReceiverIndex sout) < 18446744073709551616"
    using o by (auto simp: int64_def max_int_def)
  have points: "cvReadList (cvReadPoint B) 6 (concat (map (cvWritePoint B) ?pts) @ rest) = Some (?pts, rest)" for rest
    by (rule read_list) (use pts read_point [OF B] in \<open>auto simp: list_all_iff\<close>)
  have eta: "\<lparr> so_AggregateDigest = so_AggregateDigest sout, so_ReceiverID = so_ReceiverID sout, so_ReceiverIndex = so_ReceiverIndex sout,
       so_Y = so_Y sout, so_YBlind = so_YBlind sout, so_Proof = \<lparr> sp_KeyCommitment = sp_KeyCommitment (so_Proof sout),
         sp_ScalarCipherCommitment = sp_ScalarCipherCommitment (so_Proof sout),
         sp_ScalarKnowledgeCommitment = sp_ScalarKnowledgeCommitment (so_Proof sout), sp_BlindingDecryptCommitment = sp_BlindingDecryptCommitment (so_Proof sout),
         sp_KeyResponse = sp_KeyResponse (so_Proof sout), sp_ScalarResponse = sp_ScalarResponse (so_Proof sout) \<rparr> \<rparr> = sout" by simp
  have dec: "cvDecodeScalarShareOutputV2 B (put_be 4 (length cvAggregateShareWireDomainV2) @ str_bytes cvAggregateShareWireDomainV2 @ put_be 4 32 @ so_AggregateDigest sout @
      cvWriteUint64 (nat (so_ReceiverID sout)) @ cvWriteUint64 (nat (so_ReceiverIndex sout)) @ concat (map (cvWritePoint B) ?pts) @
      cvWriteScalar B (sp_KeyResponse (so_Proof sout)) @ cvWriteScalar B (sp_ScalarResponse (so_Proof sout)) @ []) a ctx params receivers = Some sout"
    unfolding cvDecodeScalarShareOutputV2_def Let_def newCVWireReader_id
    using m v w [unfolded wire] o fits domain read_scalar [OF B] points
    by (simp add: wire_simps eta del: concat.simps list.map append_Nil2)
  then show ?thesis unfolding wire .
qed

section \<open>From dealt leaves to the threshold public key\<close>

definition epoch_params :: "cvLeafContextV2 \<Rightarrow> cvV2Params \<Rightarrow> bool" where
  "epoch_params ctx params \<longleftrightarrow> cp_maxComponents (lc_Profile ctx) = vp_componentCount params \<and>
     lc_SharingDegree ctx = vp_newShareDegree params \<and> vp_newShareThreshold params = lc_SharingDegree ctx + 1"

lemma dealt_epoch:
  assumes B: "lane_laws B" and wf: "wf_leaf_context ctx" and h: "g1_in B h" and pks: "\<forall>i < length (lc_NewRoster ctx). g1_in B (pks ! i)"
    and p: "cvProfile (lc_Profile ctx) = Some (base, bound, chunks)" and e: "epoch_params ctx params"
    and d: "dealt_leaves B ctx params (nat chunks) pks h polys leaves" and a: "cvAggVerifiedV2 B leaves ctx params = Some a"
  shows "shared_epoch B ctx params chunks pks h (poly_sum (nat (lc_SharingDegree ctx + 1)) (map fst polys))
    (poly_sum (nat (lc_SharingDegree ctx + 1)) (map snd polys)) a"
proof -
  from a obtain digest where ctx: "cvLeafContextDigestV2 ctx = Some digest" by (auto simp: cvAggVerifiedV2_def run_simps)
  obtain a' where "cvAggVerifiedV2 B leaves ctx params = Some a'"
    "shares B ctx (nat chunks) pks h (length leaves) (poly_sum (nat (lc_SharingDegree ctx + 1)) (map fst polys))
      (poly_sum (nat (lc_SharingDegree ctx + 1)) (map snd polys)) a'" "length (ag_Digest a') = 32"
    "\<And>vp ve. cvAggregateV2CanonicalBytesMode B a' ctx params vp ve =
       Some (put_be 4 (length (aggregate_bytes B a')) @ aggregate_bytes B a' @ put_be 4 32 @ ag_Digest a')"
    by (rule aggregate_of_dealt [OF B wf h pks ctx p d]) blast
  moreover have "length leaves = nat (vp_componentCount params)" "0 < vp_componentCount params" using d by (auto simp: dealt_leaves_def)
  ultimately show ?thesis using a e by (simp add: shared_epoch_def epoch_params_def)
qed

lemma dealt_eval:
  assumes "dealt_leaves B ctx params chunks pks h polys leaves"
  shows "evalPolyInt (poly_sum (nat (lc_SharingDegree ctx + 1)) (map fst polys)) x = (\<Sum>(fs, bs) \<leftarrow> polys. evalPolyInt fs x)"
    and "evalPolyInt (poly_sum (nat (lc_SharingDegree ctx + 1)) (map snd polys)) x = (\<Sum>(fs, bs) \<leftarrow> polys. evalPolyInt bs x)"
proof -
  have "length (fst q) = nat (lc_SharingDegree ctx + 1) \<and> length (snd q) = nat (lc_SharingDegree ctx + 1)" if "q \<in> set polys" for q
    using that assms by (auto simp: dealt_leaves_def list_all2_conv_all_nth in_set_conv_nth deals_def split_def)
  then have f: "\<forall>q \<in> set (map fst polys). length q = nat (lc_SharingDegree ctx + 1)" "\<forall>q \<in> set (map snd polys). length q = nat (lc_SharingDegree ctx + 1)"
    by auto
  show "evalPolyInt (poly_sum (nat (lc_SharingDegree ctx + 1)) (map fst polys)) x = (\<Sum>(fs, bs) \<leftarrow> polys. evalPolyInt fs x)"
    "evalPolyInt (poly_sum (nat (lc_SharingDegree ctx + 1)) (map snd polys)) x = (\<Sum>(fs, bs) \<leftarrow> polys. evalPolyInt bs x)"
    using eval_poly_sum(1) [OF f(1)] eval_poly_sum(1) [OF f(2)] by (simp_all add: split_def comp_def)
qed

lemma roster_ids:
  assumes "wf_leaf_context ctx" "cvLeafContextDigestV2 ctx = Some digest" "i < length (lc_NewRoster ctx)"
  shows "0 \<le> lc_NewRoster ctx ! i" "int64 (lc_NewRoster ctx ! i)" "int64 (int i + 1)"
proof -
  from assms(2) obtain w where w: "cvLeafContextV2CanonicalBytes ctx = Some w" by (auto simp: cvLeafContextDigestV2_def run_simps)
  note f = leaf_context_fields [OF w assms(1)]
  show "0 \<le> lc_NewRoster ctx ! i" "int64 (lc_NewRoster ctx ! i)" using f(11) assms(3) by (auto simp: list_all_length)
  show "int64 (int i + 1)" using f(13) assms(3) by (simp add: int64_def)
qed

lemma verified_points:
  assumes "cvVerifyAggregateShareModeV2 B sout a ctx params pk True va"
  shows "list_all (g1_in B) [so_Y sout, so_YBlind sout, sp_KeyCommitment (so_Proof sout), sp_ScalarCipherCommitment (so_Proof sout),
         sp_ScalarKnowledgeCommitment (so_Proof sout), sp_BlindingDecryptCommitment (so_Proof sout)]"
  using assms valid_g1_in [of B _ True] unfolding cvVerifyAggregateShareModeV2_def Let_def
  by (auto simp: cvValidAggregateShareProofV2_def run_simps)

text \<open>C6: a receiver obtains the sum of its shares: the leaves of the selected dealers are aggregated; the receiver of an
  index, with the secret of its registered key, decrypts from the aggregate the sum of the values of the dealt polynomials
  at its index; its output holds the points of this sum and of the sum of the blindings; and whoever receives the
  canonical bytes of the output decodes and accepts it.\<close>

theorem share_of_dealt_decrypted:
  assumes B: "lane_laws B" and wf: "wf_leaf_context ctx" and h: "g1_in B h" and pks: "\<forall>i < length (lc_NewRoster ctx). g1_in B (pks ! i)"
    and ctx: "cvLeafContextDigestV2 ctx = Some digest" and p: "cvProfile (lc_Profile ctx) = Some (base, bound, chunks)"
    and bound: "nat bound < fr_Modulus B" and e: "epoch_params ctx params" and d: "dealt_leaves B ctx params (nat chunks) pks h polys leaves"
    and total: "\<forall>m t. fr_Hash B m t \<noteq> None" "\<forall>k. random k \<noteq> None"
    and b: "cvValidateReceiverBindingV2 B ctx rid (int i + 1) (pks ! i)" and sk: "cvReceiverPublicKey B sk = Some (pks ! i)"
    and m: "cvValidateReceiverMaterialForLeafV2 ctx receivers" "rk_encryptionPublicKeys receivers = pks"
  shows "\<exists>aggregate sout wire. cvAggVerifiedV2 B leaves ctx params = Some aggregate \<and>
    cvDecryptAggregateShareV2 B random aggregate ctx params rid (int i + 1) (pks ! i) sk = Some (\<Sum>(fs, bs) \<leftarrow> polys. evalPolyInt fs (int i + 1), sout) \<and>
    so_Y sout = g1_smul B (bls_genG1 B) (\<Sum>(fs, bs) \<leftarrow> polys. evalPolyInt fs (int i + 1)) \<and>
    so_YBlind sout = g1_smul B h (\<Sum>(fs, bs) \<leftarrow> polys. evalPolyInt bs (int i + 1)) \<and>
    cvScalarShareOutputV2CanonicalBytes B sout = Some wire \<and> cvDecodeScalarShareOutputV2 B wire aggregate ctx params receivers = Some sout"
proof -
  let ?n = "nat (lc_SharingDegree ctx + 1)"
  obtain a where a: "cvAggVerifiedV2 B leaves ctx params = Some a" by (rule aggregate_of_dealt [OF B wf h pks ctx p d])
  note ep = dealt_epoch [OF B wf h pks p e d a]
  have i: "i < length (lc_NewRoster ctx)" and rid: "rid = lc_NewRoster ctx ! i" using binding_index [OF b] by simp_all
  note ids = roster_ids [OF wf ctx i]
  from ctx obtain w where w: "cvLeafContextV2CanonicalBytes ctx = Some w" by (auto simp: cvLeafContextDigestV2_def run_simps)
  have rid0: "0 \<le> rid" and tot: "fr_Hash B m t \<noteq> None" "random k \<noteq> None" for m t k using ids rid total by simp_all
  obtain sout where so: "cvDecryptAggregateShareV2 B random a ctx params rid (int i + 1) (pks ! i) sk =
      Some (evalPolyInt (poly_sum ?n (map fst polys)) (int i + 1), sout)"
    and f: "so_AggregateDigest sout = ag_Digest a" "so_ReceiverID sout = rid" "so_ReceiverIndex sout = int i + 1"
      "so_Y sout = g1_smul B (bls_genG1 B) (evalPolyInt (poly_sum ?n (map fst polys)) (int i + 1))"
      "so_YBlind sout = g1_smul B h (evalPolyInt (poly_sum ?n (map snd polys)) (int i + 1))"
    and v: "\<And>vp va. cvVerifyAggregateShareModeV2 B sout a ctx params (pks ! i) vp va"
    by (rule share_decryption [where random = random, OF B h p bound ep i rid0 b sk tot w]) blast
  have dl: "length (ag_Digest a) = 32" using ep by (simp add: shared_epoch_def)
  note pts = verified_points [OF v [of True True]]
  obtain wire where wire: "cvScalarShareOutputV2CanonicalBytesMode B sout vp = Some wire" for vp
    using pts dl ids rid by (simp add: cvScalarShareOutputV2CanonicalBytesMode_def f cvValidAggregateShareProofV2_def in_valid_g1)
  have "cvDecodeScalarShareOutputV2 B wire a ctx params receivers = Some sout"
    by (rule decode_output [OF lane_lawsD(1) [OF B] _ _ _ _ _ pts m(1)])
      (use ids rid dl f m v [of False False] wire binding_index [OF b] in
        \<open>simp_all add: cvVerifyAggregateShareAfterPointDecodingV2_def cvScalarShareOutputV2CanonicalBytesAfterValidation_def cvValidateReceiverMaterialForLeafV2_def\<close>)
  then show ?thesis
    using a so f(4,5) wire [of True] unfolding dealt_eval [OF d] cvScalarShareOutputV2CanonicalBytes_def by blast
qed

lemma check_outputs_distinct:
  assumes "\<And>sout. sout \<in> set souts \<Longrightarrow> valid sout \<and> 0 < so_ReceiverIndex sout \<and> so_ReceiverIndex sout \<le> n"
    and "distinct (map so_ReceiverIndex souts)" "previous \<notin> Some ` so_ReceiverIndex ` set souts"
  shows "check_outputs valid n previous souts"
  using assms
proof (induction souts arbitrary: previous)
  case (Cons sout souts)
  have "check_outputs valid n (Some (so_ReceiverIndex sout)) souts" by (rule Cons.IH) (use Cons.prems in auto)
  then show ?case using Cons.prems(1) [of sout] Cons.prems(3) by auto
qed simp

lemma eval_at_zero: "cs \<noteq> [] \<Longrightarrow> evalPolyInt cs 0 = cs ! 0"
  by (cases cs) (simp_all add: evalPolyInt_sum sum.lessThan_Suc_shift del: sum.lessThan_Suc)

lemma recover_key:
  fixes B :: "('g, 'h, 'f::field) bls"
  assumes B: "lane_laws B" and h: "g1_in B h" and e: "shared_epoch B ctx params chunks pks h fs bs a" and ne: "fs \<noteq> []"
    and m: "cvValidateReceiverMaterialForLeafV2 ctx receivers"
    and inj: "inj_on (of_int :: int \<Rightarrow> 'f) {1..int (length (lc_NewRoster ctx))}" and len: "vp_newShareThreshold params \<le> int (length souts)"
    and dist: "distinct (map so_ReceiverIndex souts)" and nz: "evalPolyInt fs 0 \<noteq> 0"
    and o: "\<And>sout. sout \<in> set souts \<Longrightarrow> 0 < so_ReceiverIndex sout \<and> so_ReceiverIndex sout \<le> int (length (lc_NewRoster ctx)) \<and>
      so_Y sout = g1_smul B (bls_genG1 B) (evalPolyInt fs (so_ReceiverIndex sout)) \<and> so_YBlind sout = g1_smul B h (evalPolyInt bs (so_ReceiverIndex sout)) \<and>
      (validate \<longrightarrow> cvVerifyAggregateShareModeV2 B sout a ctx params (rk_encryptionPublicKeys receivers ! nat (so_ReceiverIndex sout - 1)) True False)"
  shows "cvRecoverThresholdPublicKeyModeV2 B souts a ctx params receivers validate = Some (g1_smul B (bls_genG1 B) (evalPolyInt fs 0))"
proof -
  note laws = laneD(1) [OF B] and g = laneD(2) [OF B]
  let ?ord = "sort_key so_ReceiverIndex souts"
  let ?ind = "map so_ReceiverIndex ?ord"
  have s: "shares B ctx (nat chunks) pks h (nat (vp_componentCount params)) fs bs a" and th: "vp_newShareThreshold params = lc_SharingDegree ctx + 1"
    using e by (simp_all add: shared_epoch_def)
  have fl: "int (length fs) = lc_SharingDegree ctx + 1" "length bs = length fs" using s by (auto simp: shares_def)
  have set: "set ?ord = set souts" by simp
  have "mset (map so_ReceiverIndex ?ord) = mset (map so_ReceiverIndex souts)" by simp
  then have di: "distinct ?ind" using dist by (metis mset_eq_imp_distinct_iff)
  have l: "length fs \<le> length ?ind" using fl th len by simp
  have ine: "?ind \<noteq> []" using l ne by (metis le_zero_eq length_0_conv)
  have pos: "\<forall>x \<in> set ?ind. 0 < x" using o by auto
  have "set ?ind \<subseteq> {1..int (length (lc_NewRoster ctx))}" using o by force
  then have inj': "inj_on (of_int :: int \<Rightarrow> 'f) (set ?ind)" using inj inj_on_subset by blast
  have keys: "length (rk_encryptionPublicKeys receivers) = length (lc_NewRoster ctx)" using m by (simp add: cvValidateReceiverMaterialForLeafV2_def)
  have Y: "map so_Y ?ord = map (\<lambda>x. g1_smul B (bls_genG1 B) (evalPolyInt fs x)) ?ind"
    and YB: "map so_YBlind ?ord = map (\<lambda>x. g1_smul B h (evalPolyInt bs x)) ?ind" using o by simp_all
  have i1: "cvInterpolateG1AtZero B ?ind (map so_Y ?ord) = Some (g1_smul B (bls_genG1 B) (evalPolyInt fs 0))"
    unfolding Y by (rule cvInterpolateG1AtZero_Some [OF laws g inj' ine di pos l])
  have i2: "cvInterpolateG1AtZero B ?ind (map so_YBlind ?ord) = Some (g1_smul B h (evalPolyInt bs 0))"
    unfolding YB by (rule cvInterpolateG1AtZero_Some [OF laws h inj' ine di pos]) (use l fl in simp)
  have chk: "check_outputs (\<lambda>sout. validate \<longrightarrow> cvVerifyAggregateShareModeV2 B sout a ctx params
         (rk_encryptionPublicKeys receivers ! nat (so_ReceiverIndex sout - 1)) True False)
       (int (length (rk_encryptionPublicKeys receivers))) None ?ord"
    by (rule check_outputs_distinct) (use o keys di in \<open>auto simp: set\<close>)
  have bne: "bs \<noteq> []" using ne fl(2) by auto
  have cc: "ag_CoefficientCommitments a = map2 (pedersen B h) fs bs" using s by (simp add: shares_def)
  have comm: "ag_CoefficientCommitments a \<noteq> []" "ag_CoefficientCommitments a ! 0 = g1_add B (g1_smul B (bls_genG1 B) (evalPolyInt fs 0)) (g1_smul B h (evalPolyInt bs 0))"
    using ne bne unfolding cc by (cases fs; cases bs; simp add: eval_at_zero pedersen_def)+
  have inf: "\<not> g1_IsInfinity B (g1_smul B (bls_genG1 B) (evalPolyInt fs 0))" using g1_lawsD(8) [OF laws g] lane_lawsD(2) [OF B] nz by simp
  have "(if validate then cvAggregateV2CanonicalBytes B a ctx params else cvAggregateV2CanonicalBytesAfterValidation B a ctx params) \<noteq> None"
    using e by (simp add: shared_epoch_def cvAggregateV2CanonicalBytes_def cvAggregateV2CanonicalBytesAfterValidation_def del: not_None_eq)
  then obtain w where w: "(if validate then cvAggregateV2CanonicalBytes B a ctx params else cvAggregateV2CanonicalBytesAfterValidation B a ctx params) = Some w"
    by blast
  show ?thesis
    unfolding cvRecoverThresholdPublicKeyModeV2_def using m len w chk i1 i2 comm inf by (simp add: Let_def)
qed

text \<open>C3: any threshold of outputs gives the same public key: take the outputs of receivers that decrypted their shares
  of the aggregate, at least the threshold of them and of distinct indices, in any order; the recovered threshold public
  key is the point of the sum of the secrets of the dealers, which depends on the leaves only, with or without verifying
  the outputs again.\<close>

theorem threshold_key_of_dealt:
  fixes B :: "('g, 'h, 'f::field) bls"
  assumes B: "lane_laws B" and wf: "wf_leaf_context ctx" and h: "g1_in B h" and pks: "\<forall>i < length (lc_NewRoster ctx). g1_in B (pks ! i)"
    and p: "cvProfile (lc_Profile ctx) = Some (base, bound, chunks)" and bound: "nat bound < fr_Modulus B" and e: "epoch_params ctx params"
    and d: "dealt_leaves B ctx params (nat chunks) pks h polys leaves" and a: "cvAggVerifiedV2 B leaves ctx params = Some aggregate"
    and total: "\<forall>m t. fr_Hash B m t \<noteq> None" and m: "cvValidateReceiverMaterialForLeafV2 ctx receivers" "rk_encryptionPublicKeys receivers = pks"
    and inj: "inj_on (of_int :: int \<Rightarrow> 'f) {1..int (length (lc_NewRoster ctx))}"
    and len: "vp_newShareThreshold params \<le> int (length souts)" and dist: "distinct (map so_ReceiverIndex souts)"
    and o: "\<forall>sout \<in> set souts. \<exists>random rid i sk x. (\<forall>k. random k \<noteq> None) \<and>
      cvDecryptAggregateShareV2 B random aggregate ctx params rid (int i + 1) (pks ! i) sk = Some (x, sout)"
    and nz: "(\<Sum>(fs, bs) \<leftarrow> polys. evalPolyInt fs 0) \<noteq> 0"
  shows "cvRecoverThresholdPublicKeyV2 B souts aggregate ctx params receivers = Some (g1_smul B (bls_genG1 B) (\<Sum>(fs, bs) \<leftarrow> polys. evalPolyInt fs 0)) \<and>
    cvRecoverThresholdPublicKeyAfterValidationV2 B souts aggregate ctx params receivers =
      Some (g1_smul B (bls_genG1 B) (\<Sum>(fs, bs) \<leftarrow> polys. evalPolyInt fs 0))"
proof -
  let ?n = "nat (lc_SharingDegree ctx + 1)"
  let ?F = "poly_sum ?n (map fst polys)" and ?Bl = "poly_sum ?n (map snd polys)"
  note ep = dealt_epoch [OF B wf h pks p e d a]
  from a obtain digest where ctx: "cvLeafContextDigestV2 ctx = Some digest" by (auto simp: cvAggVerifiedV2_def run_simps)
  then obtain w where w: "cvLeafContextV2CanonicalBytes ctx = Some w" by (auto simp: cvLeafContextDigestV2_def run_simps)
  have "0 \<le> lc_SharingDegree ctx" using leaf_context_fields(6) [OF w wf] .
  then have ne: "?F \<noteq> []" using ep by (auto simp: shared_epoch_def shares_def)
  have out: "0 < so_ReceiverIndex sout \<and> so_ReceiverIndex sout \<le> int (length (lc_NewRoster ctx)) \<and>
      so_Y sout = g1_smul B (bls_genG1 B) (evalPolyInt ?F (so_ReceiverIndex sout)) \<and> so_YBlind sout = g1_smul B h (evalPolyInt ?Bl (so_ReceiverIndex sout)) \<and>
      cvVerifyAggregateShareModeV2 B sout aggregate ctx params (rk_encryptionPublicKeys receivers ! nat (so_ReceiverIndex sout - 1)) True False"
    if so: "sout \<in> set souts" for sout
  proof -
    from o so obtain random rid i sk x where r: "\<forall>k. random k \<noteq> None"
      and dec: "cvDecryptAggregateShareV2 B random aggregate ctx params rid (int i + 1) (pks ! i) sk = Some (x, sout)" by blast
    from dec have b: "cvValidateReceiverBindingV2 B ctx rid (int i + 1) (pks ! i)" and sk: "cvReceiverPublicKey B sk = Some (pks ! i)"
      by (auto simp: cvDecryptAggregateShareV2_def cvValidateAggregateShareInputsV2_def cvValidateAggregateShareInputsModeV2_def run_simps Let_def)
    have i: "i < length (lc_NewRoster ctx)" and rid: "rid = lc_NewRoster ctx ! i" using binding_index [OF b] by simp_all
    have rid0: "0 \<le> rid" and tot: "fr_Hash B m t \<noteq> None" "random k \<noteq> None" for m t k using roster_ids(1) [OF wf ctx i] rid total r by simp_all
    obtain sout' where "cvDecryptAggregateShareV2 B random aggregate ctx params rid (int i + 1) (pks ! i) sk = Some (evalPolyInt ?F (int i + 1), sout')"
      and f: "so_ReceiverIndex sout' = int i + 1" "so_Y sout' = g1_smul B (bls_genG1 B) (evalPolyInt ?F (int i + 1))"
      "so_YBlind sout' = g1_smul B h (evalPolyInt ?Bl (int i + 1))" "\<And>vp va. cvVerifyAggregateShareModeV2 B sout' aggregate ctx params (pks ! i) vp va"
      by (rule share_decryption [where random = random, OF B h p bound ep i rid0 b sk tot w]) blast
    then have "sout = sout'" using dec by simp
    then show ?thesis using f i m(2) by simp
  qed
  have "cvRecoverThresholdPublicKeyModeV2 B souts aggregate ctx params receivers v = Some (g1_smul B (bls_genG1 B) (evalPolyInt ?F 0))" for v
    by (rule recover_key [OF B h ep ne m(1) inj len dist]) (use nz out dealt_eval(1) [OF d] in auto)
  then show ?thesis
    by (simp add: cvRecoverThresholdPublicKeyV2_def cvRecoverThresholdPublicKeyAfterValidationV2_def dealt_eval(1) [OF d])
qed

section \<open>Soundness of a verified output\<close>

lemma g1_add_cancel:
  assumes G: "g1_laws G" and "g1_in G y" "g1_in G q" "g1_in G r" and e: "g1_add G y q = g1_add G y r"
  shows "q = r"
proof -
  note L = g1_lawsD [OF G] and M = g1_moduleD [OF G]
  have y: "g1_in G (g1_smul G y (- 1))" using L(3) assms(2) by simp
  have "g1_add G (g1_smul G y (- 1)) (g1_add G y z) = z" if "g1_in G z" for z
    using M(2) [OF y assms(2) that] g1_minus_self [OF G assms(2)] M(1) [OF y assms(2)] L(4) [OF that] by simp
  then show ?thesis using assms(3,4) e by metis
qed

lemma verify_share_D:
  assumes v: "cvVerifyAggregateShareModeV2 B sout a ctx params pk True va"
    and ch: "cvAggregateShareChallengeV2 B a ctx pk sout (so_Proof sout) = Some x"
    and w: "cvWeightedAggregateScalarV2 B a ctx (so_ReceiverIndex sout) = Some weighted"
  shows "cvValidateReceiverBindingV2 B ctx (so_ReceiverID sout) (so_ReceiverIndex sout) pk"
    and "g1_add B (so_Y sout) (so_YBlind sout) = ar_Evaluation (ag_Receivers a ! nat (so_ReceiverIndex sout - 1))"
    and "cvPointTimes B (bls_genG1 B) (sp_KeyResponse (so_Proof sout)) = cvPointSum B [sp_KeyCommitment (so_Proof sout), cvPointTimes B pk x]"
    and "cvPointSum B [cvPointTimes B (eg_r weighted) (sp_KeyResponse (so_Proof sout)), cvPointTimes B (bls_genG1 B) (sp_ScalarResponse (so_Proof sout))] =
       cvPointSum B [sp_ScalarCipherCommitment (so_Proof sout), cvPointTimes B (eg_c weighted) x]"
    and "cvPointTimes B (bls_genG1 B) (sp_ScalarResponse (so_Proof sout)) =
       cvPointSum B [sp_ScalarKnowledgeCommitment (so_Proof sout), cvPointTimes B (so_Y sout) x]"
  using assms unfolding cvVerifyAggregateShareModeV2_def Let_def cvValidateAggregateShareInputsV2_def
    cvValidateAggregateShareInputsAfterValidationV2_def cvValidateAggregateShareInputsModeV2_def
  by (auto simp: run_simps split: if_splits)

lemma weighted_hash [simp]: "cvWeightedAggregateScalarV2 (B\<lparr> fr_Hash := hash2 \<rparr>) = cvWeightedAggregateScalarV2 B"
  by (intro ext) (simp add: cvWeightedAggregateScalarV2_def zero_ciphertext_def cvPointTimes_def)

text \<open>Two answers to a share proof over a ciphertext of a known scalar give that scalar: the key equation makes the
  responses a secret key, the knowledge equation a logarithm of the output, and the cipher equation ties the two.\<close>

lemma share_extract:
  assumes B: "lane_laws B" and pk: "g1_in B pk" and h: "g1_in B h" and ne: "x \<noteq> x'"
    and pts: "g1_in B K" "g1_in B C" "g1_in B N" "g1_in B Y"
    and key: "g1_smul B (bls_genG1 B) k = g1_add B K (g1_smul B pk x)" "g1_smul B (bls_genG1 B) k' = g1_add B K (g1_smul B pk x')"
    and knows: "g1_smul B (bls_genG1 B) l = g1_add B N (g1_smul B Y x)" "g1_smul B (bls_genG1 B) l' = g1_add B N (g1_smul B Y x')"
    and cipher: "lc3 B pk h (coin * k + l) 0 0 = g1_add B C (g1_smul B (lc3 B pk h v coin 0) x)"
      "lc3 B pk h (coin * k' + l') 0 0 = g1_add B C (g1_smul B (lc3 B pk h v coin 0) x')"
  shows "Y = g1_smul B (bls_genG1 B) v"
proof -
  let ?G = "bls_genG1 B" and ?dx = "x - x'"
  note laws = laneD(1) [OF B] and g = laneD(2) [OF B] and f = lc3_facts [OF B pk h]
  note X = lc3_extract [OF B pk h _ _ ne]
  have pkG: "pk = g1_smul B ?G ((k - k') / ?dx)" using X [OF pts(1) pk, of k 0 0 k' 0 0] key by (simp add: f(2))
  have Y: "Y = g1_smul B ?G ((l - l') / ?dx)" using X [OF pts(3,4), of l 0 0 l' 0 0] knows by (simp add: f(2))
  have c: "lc3 B pk h v coin 0 = g1_smul B ?G ((coin * k + l - (coin * k' + l')) / ?dx)"
    using X [OF pts(2) f(1), of "coin * k + l" 0 0 v coin 0 "coin * k' + l'" 0 0] cipher by (simp add: f(2))
  have "lc3 B pk h v coin 0 = g1_add B (g1_smul B ?G v) (g1_smul B pk coin)" by (simp add: f(2,3,6))
  also have "g1_smul B pk coin = g1_smul B ?G ((k - k') / ?dx * coin)" using g1_lawsD(7) [OF laws g, of "(k - k') / ?dx" coin] pkG by simp
  finally have "g1_smul B ?G (v + (k - k') / ?dx * coin) = g1_smul B ?G ((coin * k + l - (coin * k' + l')) / ?dx)"
    using c g1_lawsD(6) [OF laws g] by simp
  then have "v + (k - k') / ?dx * coin = (coin * k + l - (coin * k' + l')) / ?dx" by (simp only: gen_inject [OF B])
  also have "\<dots> = (l - l') / ?dx + (k - k') / ?dx * coin"
    by (simp add: diff_divide_distrib add_divide_distrib left_diff_distrib right_diff_distrib mult.commute)
  finally have "v = (l - l') / ?dx" by (rule add_right_imp_eq)
  then show ?thesis using Y by simp
qed

lemma share_equations:
  assumes B: "lane_laws B" and pk: "g1_in B pk" and h: "g1_in B h"
    and v: "cvVerifyAggregateShareV2 B sout a ctx params pk" and ch: "cvAggregateShareChallengeV2 B a ctx pk sout (so_Proof sout) = Some x"
    and w: "cvWeightedAggregateScalarV2 B a ctx (so_ReceiverIndex sout) = Some (cvEncryptPointAfterValidationV2 B pk (g1_smul B (bls_genG1 B) F) coin)"
  shows "g1_smul B (bls_genG1 B) (sp_KeyResponse (so_Proof sout)) = g1_add B (sp_KeyCommitment (so_Proof sout)) (g1_smul B pk x)"
    and "g1_smul B (bls_genG1 B) (sp_ScalarResponse (so_Proof sout)) = g1_add B (sp_ScalarKnowledgeCommitment (so_Proof sout)) (g1_smul B (so_Y sout) x)"
    and "lc3 B pk h (coin * sp_KeyResponse (so_Proof sout) + sp_ScalarResponse (so_Proof sout)) 0 0 =
      g1_add B (sp_ScalarCipherCommitment (so_Proof sout)) (g1_smul B (lc3 B pk h F coin 0) x)"
proof -
  note f = lc3_facts [OF B pk h] and D = verify_share_D [OF v [unfolded cvVerifyAggregateShareV2_def] ch w]
  note P = verified_points [OF v [unfolded cvVerifyAggregateShareV2_def]]
  have sum2: "cvPointSum B [y, z] = g1_add B y z" if "g1_in B y" "g1_in B z" for y z by (rule point_sum_two [OF lane_lawsD(1) [OF B] that])
  have sm: "g1_in B (g1_smul B y c)" if "g1_in B y" for y c using laneD(3) [OF B that] .
  have enc: "eg_r (cvEncryptPointAfterValidationV2 B pk (g1_smul B (bls_genG1 B) F) coin) = lc3 B pk h coin 0 0"
    "eg_c (cvEncryptPointAfterValidationV2 B pk (g1_smul B (bls_genG1 B) F) coin) = lc3 B pk h F coin 0"
    by (simp_all add: cvEncryptPointAfterValidationV2_def f(2,3,6))
  show "g1_smul B (bls_genG1 B) (sp_KeyResponse (so_Proof sout)) = g1_add B (sp_KeyCommitment (so_Proof sout)) (g1_smul B pk x)"
    using D(3) P sum2 sm [OF pk] by (simp add: cvPointTimes_def)
  show "g1_smul B (bls_genG1 B) (sp_ScalarResponse (so_Proof sout)) = g1_add B (sp_ScalarKnowledgeCommitment (so_Proof sout)) (g1_smul B (so_Y sout) x)"
    using D(5) P sum2 sm by (simp add: cvPointTimes_def)
  show "lc3 B pk h (coin * sp_KeyResponse (so_Proof sout) + sp_ScalarResponse (so_Proof sout)) 0 0 =
      g1_add B (sp_ScalarCipherCommitment (so_Proof sout)) (g1_smul B (lc3 B pk h F coin 0) x)"
    using D(4) [unfolded enc] P sum2 sm [OF f(1)] f(1) by (simp add: cvPointTimes_def f(2,6,7))
qed

text \<open>C4: a share proof binds its output to the dealt leaves: two accepted outputs of one receiver with the same
  points and commitments, whose challenges differ because the hash oracle was answered differently, hold exactly the
  points of the sums of the values of the dealt polynomials at the receiver's index, whatever the prover did.\<close>

theorem share_special_soundness:
  fixes B :: "('g, 'h, 'f::field) bls" and hash2 :: "bytes \<Rightarrow> bytes \<Rightarrow> 'f option"
  defines "B2 \<equiv> B\<lparr> fr_Hash := hash2 \<rparr>"
  assumes B: "lane_laws B" and wf: "wf_leaf_context ctx" and h: "g1_in B h" and pks: "\<forall>i < length (lc_NewRoster ctx). g1_in B (pks ! i)"
    and p: "cvProfile (lc_Profile ctx) = Some (base, bound, chunks)" and e: "epoch_params ctx params"
    and d: "dealt_leaves B ctx params (nat chunks) pks h polys leaves" and a: "cvAggVerifiedV2 B leaves ctx params = Some aggregate"
    and pk: "pk = pks ! nat (so_ReceiverIndex sout - 1)"
    and v: "cvVerifyAggregateShareV2 B sout aggregate ctx params pk" "cvVerifyAggregateShareV2 B2 sout2 aggregate ctx params pk"
    and same: "so_ReceiverIndex sout2 = so_ReceiverIndex sout" "so_Y sout2 = so_Y sout"
      "sp_KeyCommitment (so_Proof sout2) = sp_KeyCommitment (so_Proof sout)"
      "sp_ScalarCipherCommitment (so_Proof sout2) = sp_ScalarCipherCommitment (so_Proof sout)"
      "sp_ScalarKnowledgeCommitment (so_Proof sout2) = sp_ScalarKnowledgeCommitment (so_Proof sout)"
    and ch: "cvAggregateShareChallengeV2 B aggregate ctx pk sout (so_Proof sout) = Some x"
      "cvAggregateShareChallengeV2 B2 aggregate ctx pk sout2 (so_Proof sout2) = Some x2"
    and ne: "x \<noteq> x2"
  shows "so_Y sout = g1_smul B (bls_genG1 B) (\<Sum>(fs, bs) \<leftarrow> polys. evalPolyInt fs (so_ReceiverIndex sout)) \<and>
    so_YBlind sout = g1_smul B h (\<Sum>(fs, bs) \<leftarrow> polys. evalPolyInt bs (so_ReceiverIndex sout))"
proof -
  let ?n = "nat (lc_SharingDegree ctx + 1)" and ?G = "bls_genG1 B"
  let ?F = "evalPolyInt (poly_sum ?n (map fst polys)) (so_ReceiverIndex sout)" and ?Bl = "evalPolyInt (poly_sum ?n (map snd polys)) (so_ReceiverIndex sout)"
  have s: "shares B ctx (nat chunks) pks h (nat (vp_componentCount params)) (poly_sum ?n (map fst polys)) (poly_sum ?n (map snd polys)) aggregate"
    using dealt_epoch [OF B wf h pks p e d a] unfolding shared_epoch_def by blast
  have B2: "lane_laws B2" and in2: "g1_in B2 = g1_in B" using B by (simp_all add: B2_def)
  have bind: "cvValidateReceiverBindingV2 B ctx (so_ReceiverID sout) (so_ReceiverIndex sout) pk"
    using v(1) unfolding cvVerifyAggregateShareV2_def cvVerifyAggregateShareModeV2_def Let_def cvValidateAggregateShareInputsV2_def cvValidateAggregateShareInputsModeV2_def
    by (auto simp: run_simps)
  define i where "i = nat (so_ReceiverIndex sout - 1)"
  have i: "i < length (lc_NewRoster ctx)" "so_ReceiverIndex sout = int i + 1" and pkin: "g1_in B pk"
    using binding_index [OF bind] binding_key [OF bind] by (auto simp: i_def)
  have pki: "pk = pks ! i" using pk by (simp add: i_def)
  obtain coin where w: "cvWeightedAggregateScalarV2 B aggregate ctx (so_ReceiverIndex sout) = Some (cvEncryptPointAfterValidationV2 B pk (g1_smul B ?G ?F) coin)"
    using weighted_share [OF B h _ p s i(1)] pkin unfolding pki i(2) by blast
  then have w2: "cvWeightedAggregateScalarV2 B2 aggregate ctx (so_ReceiverIndex sout2) = Some (cvEncryptPointAfterValidationV2 B2 pk (g1_smul B2 (bls_genG1 B2) ?F) coin)"
    by (simp add: B2_def same cvEncryptPointAfterValidationV2_def)
  note E = share_equations [OF B pkin h v(1) ch(1) w]
    and E2 = share_equations [OF B2 pkin [folded in2] h [folded in2] v(2) ch(2) w2, unfolded same, unfolded B2_def, simplified]
  note P = verified_points [OF v(1) [unfolded cvVerifyAggregateShareV2_def]]
  have Y: "so_Y sout = g1_smul B ?G ?F"
    by (rule share_extract [OF B pkin h ne _ _ _ _ E(1) E2(1) E(2) E2(2) E(3) E2(3)]) (use P in simp_all)
  obtain ds coins bc where "holds_encryption B (pks ! i) h ds coins bc (evalPolyInt (poly_sum ?n (map fst polys)) (int i + 1))
      (evalPolyInt (poly_sum ?n (map snd polys)) (int i + 1)) (ag_Receivers aggregate ! i)"
    using s i(1) unfolding shares_def by blast
  then have "g1_add B (so_Y sout) (so_YBlind sout) = g1_add B (so_Y sout) (g1_smul B h ?Bl)"
    using verify_share_D(2) [OF v(1) [unfolded cvVerifyAggregateShareV2_def] ch(1) w] unfolding holds_encryption_def pedersen_def Y i_def [symmetric] i(2) by simp
  then have "so_YBlind sout = g1_smul B h ?Bl" by (rule g1_add_cancel [OF laneD(1) [OF B] _ _ laneD(3) [OF B h], rotated 2]) (use P in simp_all)
  then show ?thesis using Y unfolding dealt_eval [OF d] by simp
qed

end
