(* ===== verification/Lane_Witnesses.thy ===== *)
theory Lane_Witnesses
  imports Aggregate_Share Network_Witnesses
begin

text \<open>
  Concrete instances of the results on lanes, aggregates and shares: two dealers and three receivers over the group of
  five elements, with one bit per chunk and therefore 255 chunks for each share.
\<close>

lemma gf_of_nat: "(of_nat n :: gf5) = nat_gf n"
proof (induction n)
  case (Suc n)
  have "nat_gf n + F1 = nat_gf (Suc n)" for n
  proof -
    have "n mod 5 < 5" by simp
    then consider "n mod 5 = 0" | "n mod 5 = 1" | "n mod 5 = 2" | "n mod 5 = 3" | "n mod 5 = 4" by linarith
    then show ?thesis by cases (simp_all add: gf5_ops mod_Suc)
  qed
  then show ?case using Suc by (simp add: one_gf5_def add.commute)
qed (simp add: gf5_ops)

lemma gf_nat_inverse: "gf_nat x < 5" "nat_gf (gf_nat x) = x" "gf_nat (nat_gf n) = n mod 5"
proof -
  show "gf_nat x < 5" "nat_gf (gf_nat x) = x" by (cases x; simp add: nat_gf_def)+
  have "n mod 5 < 5" by simp
  then consider "n mod 5 = 0" | "n mod 5 = 1" | "n mod 5 = 2" | "n mod 5 = 3" | "n mod 5 = 4" by linarith
  then show "gf_nat (nat_gf n) = n mod 5" by cases (simp_all add: nat_gf_def)
qed

lemma toy_lane_laws: "lane_laws toy_bls"
  unfolding lane_laws_def using toy_bls_laws
  by (simp add: toy_bls_def g1_in_def gf_of_nat gf_nat_inverse)

lemma toy_group: "g1_in toy_bls p" "cvValidG1 toy_bls p True" "bls_genG1 toy_bls = F1" "g1_smul toy_bls = (*)" "g1_add toy_bls = (+)"
  "fr_Hash toy_bls m t = Some F2" "fr_Modulus toy_bls = 5"
  by (simp_all add: toy_bls_def g1_in_def cvValidG1_def)

section \<open>A session of two dealers and three receivers\<close>

definition lane_ctx :: cvLeafContextV2 where
  "lane_ctx = \<lparr> lc_SID = ''s'', lc_Epoch = 1, lc_OldRoster = [2, 3], lc_NewRoster = [7, 8, 9],
     lc_ReceiverRegistryDigest = replicate 32 4, lc_SharingDegree = 1, lc_Profile = \<lparr> cp_chunkBits = 1, cp_maxComponents = 2 \<rparr> \<rparr>"

definition lane_params :: cvV2Params where
  "lane_params = \<lparr> vp_oldFaults = 0, vp_newFaults = 1, vp_componentCount = 2, vp_poolSize = 2, vp_apdbLockThreshold = 1,
     vp_decisionThreshold = 2, vp_recoveryThreshold = 1, vp_newShareDegree = 1, vp_newShareThreshold = 2, vp_proposerSampleSize = 1,
     vp_validatorSampleSize = 1, vp_validatorThreshold = 1, vp_proposerFailureBound = 0, vp_validatorSoundnessFailureBound = 0,
     vp_validatorLivenessFailureBound = 0, vp_validatorCombinedFailureBound = 0, vp_validatorFailureBound = 0 \<rparr>"

lemma lane_profile: "cvProfile (lc_Profile lane_ctx) = Some (2, 2, 255)" "cvChunkCount (lc_Profile lane_ctx) = Some 255"
  by (simp_all add: lane_ctx_def cvChunkCount_def cvProfile_def cvMaxChunkBits_def fr_modulus_def cvMaxDLogBound_def)

lemma lane_valid: "cvValidateLeafContextV2 lane_ctx"
  using lane_profile by (simp add: cvValidateLeafContextV2_def) (simp add: lane_ctx_def cvMaxNetworkEnvelopeSIDBytes_def)

lemma lane_wf: "wf_leaf_context lane_ctx"
  by (simp add: wf_leaf_context_def lane_ctx_def int64_def)

lemma lane_digest: "\<exists>d. cvLeafContextDigestV2 lane_ctx = Some d"
proof -
  have "cvLeafContextV2CanonicalBytes lane_ctx \<noteq> None"
    using lane_valid by (simp add: cvLeafContextV2CanonicalBytes_def bind_eq_None_conv del: not_None_eq) (simp add: lane_ctx_def cvWriteUint32_def)
  then show ?thesis by (auto simp: cvLeafContextDigestV2_def)
qed

definition lane_keys :: "gf5 list" where
  "lane_keys = [F1, F2, F3]"

lemma lane_binding: "i < 3 \<Longrightarrow> cvValidateReceiverBindingV2 toy_bls lane_ctx (lc_NewRoster lane_ctx ! i) (int i + 1) (lane_keys ! i)"
proof -
  assume "i < 3"
  then consider "i = 0" | "i = 1" | "i = 2" by linarith
  then show ?thesis
    by cases (simp_all add: cvValidateReceiverBindingV2_def lane_valid, simp_all add: lane_ctx_def lane_keys_def cvValidG1_def toy_bls_def)
qed

lemma lane_secret: "i < 3 \<Longrightarrow> cvReceiverPublicKey toy_bls (lane_keys ! i) = Some (lane_keys ! i)"
proof -
  assume "i < 3"
  then consider "i = 0" | "i = 1" | "i = 2" by linarith
  then show ?thesis by cases (simp_all add: cvReceiverPublicKey_def lane_keys_def toy_bls_def gf5_ops)
qed

lemma lane_roster: "length (lc_NewRoster lane_ctx) = 3" "lc_SharingDegree lane_ctx = 1"
  by (simp_all add: lane_ctx_def)

section \<open>Witnesses for lanes\<close>

theorem bounded_dlog_exact_witness:
  "solve toy_bls (cvNewBoundedDLogSolverForBaseV2 toy_bls (bls_genG1 toy_bls) 3) F2 = Some 2"
proof -
  have "F1 * of_nat 2 = F2" by (simp add: gf_of_nat gf5_ops del: of_nat_numeral)
  then have "2 \<le> (3::nat) \<and> F2 = g1_smul toy_bls (bls_genG1 toy_bls) (of_nat 2)" by (simp only: toy_group) simp
  then show ?thesis using bounded_dlog_exact [OF toy_lane_laws, of F2 3 2] by (simp add: toy_group del: of_nat_numeral)
qed

lemma toy_encrypt: "i < 3 \<Longrightarrow> 0 \<le> d \<Longrightarrow> \<exists>offer wit. cvEncryptReceiverLanesV2 toy_bls (\<lambda>_. Some F1) lane_ctx d (lc_NewRoster lane_ctx ! i) (int i + 1)
    (lane_keys ! i) x b = Some (offer, wit)"
proof -
  assume i: "i < 3" and d: "0 \<le> d"
  obtain digest where "cvLeafContextDigestV2 lane_ctx = Some digest" using lane_digest by blast
  then have "cvEncryptReceiverLanesV2 toy_bls (\<lambda>_. Some F1) lane_ctx d (lc_NewRoster lane_ctx ! i) (int i + 1) (lane_keys ! i) x b \<noteq> None"
    by (intro encrypt_total [OF toy_lane_laws _ _ toy_pedersen(1) lane_binding [OF i] d]) (simp_all add: toy_group)
  then show ?thesis by auto
qed

theorem batched_lane_is_stepwise_witness:
  "\<exists>offer wit. cvEncryptReceiverLanesV2 toy_bls (\<lambda>_. Some F1) lane_ctx 2 7 1 F1 F3 F4 = Some (offer, wit) \<and>
    cvProveOwnershipAfterEncryptionV2 toy_bls (\<lambda>k. Some F1) lane_ctx 2 offer F1 wit = Some (lo_Ownership offer)"
proof -
  obtain offer wit where e: "cvEncryptReceiverLanesV2 toy_bls (\<lambda>_. Some F1) lane_ctx 2 7 1 F1 F3 F4 = Some (offer, wit)"
    using toy_encrypt [of 0 2 F3 F4] by (auto simp: lane_ctx_def lane_keys_def)
  then show ?thesis using batched_lane_is_stepwise [OF toy_lane_laws lane_profile(2) e] by blast
qed

lemma toy_batch: "batch_challenge toy_bls statement \<noteq> None"
  by (simp add: batch_challenge_def cvHashToFr_def toy_group zero_gf5_def)

theorem encrypted_share_is_decrypted_witness:
  "\<exists>offer wit. cvEncryptReceiverLanesV2 toy_bls (\<lambda>_. Some F1) lane_ctx 2 7 1 F1 F3 F4 = Some (offer, wit) \<and>
    cvVerifyAndDecryptReceiverLanesV2 toy_bls lane_ctx 2 offer F1 F1 = Some (F3, g1_smul toy_bls F2 F4) \<and>
    lo_Evaluation offer = g1_add toy_bls (g1_smul toy_bls (bls_genG1 toy_bls) F3) (g1_smul toy_bls F2 F4)"
proof -
  obtain digest where d: "cvLeafContextDigestV2 lane_ctx = Some digest" using lane_digest by blast
  have b: "cvValidateReceiverBindingV2 toy_bls lane_ctx 7 1 F1" using lane_binding [of 0] by (simp add: lane_ctx_def lane_keys_def)
  have sk: "cvReceiverPublicKey toy_bls F1 = Some F1" using lane_secret [of 0] by (simp add: lane_keys_def)
  show ?thesis
    by (rule encrypted_share_is_decrypted [OF toy_lane_laws _ _ _ toy_pedersen(1) d lane_profile(1) _ _ b _ sk])
      (use toy_batch in \<open>simp_all add: toy_group lane_roster\<close>)
qed

lemma toy_verified: "\<exists>offer. cvVerifyOwnershipV2 toy_bls lane_ctx 2 offer F1"
proof -
  obtain offer wit where e: "cvEncryptReceiverLanesV2 toy_bls (\<lambda>_. Some F1) lane_ctx 2 7 1 F1 F3 F4 = Some (offer, wit)"
    using toy_encrypt [of 0 2 F3 F4] by (auto simp: lane_ctx_def lane_keys_def)
  have "cvVerifyOwnershipV2 toy_bls lane_ctx 2 offer F1"
    by (rule lane_roundtrip(1) [OF toy_lane_laws toy_batch toy_pedersen(1) lane_profile(1) _ _ _ _ e, where sk = F1])
      (simp_all add: toy_group lane_roster gf5_ops)
  then show ?thesis by blast
qed

theorem batch_accepts_verified_witness:
  "\<exists>offer. cvVerifyOwnershipV2 toy_bls lane_ctx 2 offer F1 \<and> cvVerifyOwnershipBatchV2 toy_bls lane_ctx 2 [offer] [F1] True"
proof -
  obtain offer where v: "cvVerifyOwnershipV2 toy_bls lane_ctx 2 offer F1" using toy_verified by blast
  moreover have "cvVerifyOwnershipBatchV2 toy_bls lane_ctx 2 [offer] [F1] True"
    by (rule batch_accepts_verified [OF toy_lane_laws]) (use v toy_batch in \<open>simp_all add: lane_roster\<close>)
  ultimately show ?thesis by blast
qed

text \<open>The same offer made with two answers of the hash oracle differs in the responses only.\<close>

lemma finish_keeps:
  assumes "cvFinishOwnershipProofV2 B ctx d offer pk wit oproof cn dn bcn bsn = Some oproof'"
  shows "op_ScalarCoinCommitments oproof' = op_ScalarCoinCommitments oproof \<and> op_ScalarCipherCommitments oproof' = op_ScalarCipherCommitments oproof \<and>
    op_BlindingCoinCommitment oproof' = op_BlindingCoinCommitment oproof \<and> op_BlindingCipherCommitment oproof' = op_BlindingCipherCommitment oproof \<and>
    op_EvaluationCommitment oproof' = op_EvaluationCommitment oproof"
  using assms by (auto simp: cvFinishOwnershipProofV2_def run_simps Let_def)

lemma parts_hash:
  "cvScalarDigits (B\<lparr> fr_Hash := hash2 \<rparr>) = cvScalarDigits B" "cvPedersenBase (B\<lparr> fr_Hash := hash2 \<rparr>) = cvPedersenBase B"
  "encrypts (B\<lparr> fr_Hash := hash2 \<rparr>) = encrypts B" "ownership_commitments (B\<lparr> fr_Hash := hash2 \<rparr>) = ownership_commitments B"
  "cvValidateReceiverBindingV2 (B\<lparr> fr_Hash := hash2 \<rparr>) = cvValidateReceiverBindingV2 B"
proof -
  show "cvPedersenBase (B\<lparr> fr_Hash := hash2 \<rparr>) = cvPedersenBase B" by (simp add: cvPedersenBase_def cvValidG1_def)
qed (intro ext, simp add: cvScalarDigits_def encrypts_def cvEncryptPointAfterValidationV2_def ownership_commitments_def cvPointTimes_def
    cvPointBaseAndTimes_def cvPointJointTimes_def cvValidateReceiverBindingV2_def cvValidG1_def)+

lemma two_oracles:
  assumes B: "lane_laws B" and c: "cvChunkCount (lc_Profile ctx) = Some chunks"
    and e: "cvEncryptReceiverLanesV2 B random ctx d rid ri pk x b = Some (offer, wit)"
      "cvEncryptReceiverLanesV2 (B\<lparr> fr_Hash := hash2 \<rparr>) random ctx d rid ri pk x b = Some (offer2, wit2)"
  shows "lo_ScalarChunks offer2 = lo_ScalarChunks offer \<and> lo_Blinding offer2 = lo_Blinding offer \<and> lo_Evaluation offer2 = lo_Evaluation offer \<and>
    op_ScalarCoinCommitments (lo_Ownership offer2) = op_ScalarCoinCommitments (lo_Ownership offer) \<and>
    op_ScalarCipherCommitments (lo_Ownership offer2) = op_ScalarCipherCommitments (lo_Ownership offer) \<and>
    op_BlindingCoinCommitment (lo_Ownership offer2) = op_BlindingCoinCommitment (lo_Ownership offer) \<and>
    op_BlindingCipherCommitment (lo_Ownership offer2) = op_BlindingCipherCommitment (lo_Ownership offer) \<and>
    op_EvaluationCommitment (lo_Ownership offer2) = op_EvaluationCommitment (lo_Ownership offer)"
proof -
  have B2: "lane_laws (B\<lparr> fr_Hash := hash2 \<rparr>)" using B by simp
  from e c obtain rnd where r: "cvComputeReceiverLaneOfferV2 B ctx d rid ri pk x b rnd = Some (offer, wit)"
    and r2: "cvComputeReceiverLaneOfferV2 (B\<lparr> fr_Hash := hash2 \<rparr>) ctx d rid ri pk x b rnd = Some (offer2, wit2)"
    by (auto simp: cvEncryptReceiverLanesV2_def run_simps)
  obtain ds h weighted where 1: "cvScalarDigits B x (lc_Profile ctx) = Some ds" "cvPedersenBase B = Some h"
    "cvWeightedScalarV2 (rd_digitNonces rnd) (cp_chunkBits (lc_Profile ctx)) = Some weighted"
    "encrypts B pk h ds (rd_scalarCoins rnd) (rd_blindingCoin rnd) x b offer"
    "cvFinishOwnershipProofV2 B ctx d offer pk wit
       (ownership_commitments B pk h (rd_coinNonces rnd) (rd_digitNonces rnd) (rd_blindingCoinNonce rnd) (rd_blindingShareNonce rnd) weighted)
       (rd_coinNonces rnd) (rd_digitNonces rnd) (rd_blindingCoinNonce rnd) (rd_blindingShareNonce rnd) = Some (lo_Ownership offer)"
    by (rule compute_form [OF B r]) blast
  obtain ds' h' weighted' where 2: "cvScalarDigits B x (lc_Profile ctx) = Some ds'" "cvPedersenBase B = Some h'"
    "cvWeightedScalarV2 (rd_digitNonces rnd) (cp_chunkBits (lc_Profile ctx)) = Some weighted'"
    "encrypts B pk h' ds' (rd_scalarCoins rnd) (rd_blindingCoin rnd) x b offer2"
    "cvFinishOwnershipProofV2 (B\<lparr> fr_Hash := hash2 \<rparr>) ctx d offer2 pk wit2
       (ownership_commitments B pk h' (rd_coinNonces rnd) (rd_digitNonces rnd) (rd_blindingCoinNonce rnd) (rd_blindingShareNonce rnd) weighted')
       (rd_coinNonces rnd) (rd_digitNonces rnd) (rd_blindingCoinNonce rnd) (rd_blindingShareNonce rnd) = Some (lo_Ownership offer2)"
    by (rule compute_form [OF B2 r2, unfolded parts_hash]) blast
  have same: "ds' = ds" "h' = h" "weighted' = weighted" using 1(1-3) 2(1-3) by simp_all
  show ?thesis using finish_keeps [OF 1(5)] finish_keeps [OF 2(5)] 1(4) 2(4) unfolding same encrypts_def by simp
qed

definition other_oracle :: "(gf5, gf5, gf5) bls" where
  "other_oracle = toy_bls\<lparr> fr_Hash := \<lambda>_ _. Some F3 \<rparr>"

lemma verified_challenge:
  "cvVerifyOwnershipV2 B ctx d offer pk \<Longrightarrow> \<exists>x. cvOwnershipChallengeScalarAfterValidationV2 B ctx d offer pk (lo_Ownership offer) = Some x"
  by (auto simp: cvVerifyOwnershipV2_def cvVerifyOwnershipModeV2_def run_simps Let_def)

lemma constant_challenge:
  assumes "cvVerifyOwnershipV2 B ctx d offer pk" "\<And>m t. fr_Hash B m t = Some y"
  shows "cvOwnershipChallengeScalarAfterValidationV2 B ctx d offer pk (lo_Ownership offer) = Some y"
  using verified_challenge [OF assms(1)] assms(2)
  by (auto simp: cvOwnershipChallengeScalarAfterValidationV2_def cvOwnershipChallengeScalarModeV2_def cvHashToFr_def run_simps)

theorem ownership_special_soundness_witness:
  "\<exists>offer digits coins blinding blindingCoin. cvVerifyOwnershipV2 toy_bls lane_ctx 2 offer F1 \<and> length digits = 255 \<and> length coins = 255 \<and>
    (\<forall>i < 255. lo_ScalarChunks offer ! i =
       cvEncryptPointAfterValidationV2 toy_bls F1 (g1_smul toy_bls (bls_genG1 toy_bls) (digits ! i)) (coins ! i)) \<and>
    lo_Blinding offer = cvEncryptPointAfterValidationV2 toy_bls F1 (g1_smul toy_bls F2 blinding) blindingCoin"
proof -
  have B2: "lane_laws other_oracle" using toy_lane_laws by (simp add: other_oracle_def)
  have h2: "cvPedersenBase other_oracle = Some F2" using toy_pedersen(1) by (simp add: other_oracle_def parts_hash)
  obtain digest where d: "cvLeafContextDigestV2 lane_ctx = Some digest" using lane_digest by blast
  have b: "cvValidateReceiverBindingV2 toy_bls lane_ctx 7 1 F1" using lane_binding [of 0] by (simp add: lane_ctx_def lane_keys_def)
  obtain offer wit where e: "cvEncryptReceiverLanesV2 toy_bls (\<lambda>_. Some F1) lane_ctx 2 7 1 F1 F3 F4 = Some (offer, wit)"
    using toy_encrypt [of 0 2 F3 F4] by (auto simp: lane_ctx_def lane_keys_def)
  have "cvEncryptReceiverLanesV2 other_oracle (\<lambda>_. Some F1) lane_ctx 2 7 1 F1 F3 F4 \<noteq> None"
    by (rule encrypt_total [OF B2 _ _ h2 _ _ d]) (use b in \<open>simp_all add: other_oracle_def parts_hash\<close>)
  then obtain offer2 wit2 where e2: "cvEncryptReceiverLanesV2 other_oracle (\<lambda>_. Some F1) lane_ctx 2 7 1 F1 F3 F4 = Some (offer2, wit2)" by auto
  note same = two_oracles [OF toy_lane_laws lane_profile(2) e e2 [unfolded other_oracle_def]]
  have batch2: "batch_challenge other_oracle statement \<noteq> None" for statement
    by (simp add: batch_challenge_def cvHashToFr_def other_oracle_def zero_gf5_def)
  have v: "cvVerifyOwnershipV2 toy_bls lane_ctx 2 offer F1"
    by (rule lane_roundtrip(1) [OF toy_lane_laws toy_batch toy_pedersen(1) lane_profile(1) _ _ _ _ e, where sk = F1])
      (simp_all add: toy_group lane_roster gf5_ops)
  have v2: "cvVerifyOwnershipV2 other_oracle lane_ctx 2 offer2 F1"
    by (rule lane_roundtrip(1) [OF B2 batch2 h2 lane_profile(1) _ _ _ _ e2, where sk = F1])
      (simp_all add: other_oracle_def toy_group lane_roster gf5_ops)
  have ch: "cvOwnershipChallengeScalarAfterValidationV2 toy_bls lane_ctx 2 offer F1 (lo_Ownership offer) = Some F2"
    by (rule constant_challenge [OF v]) (simp add: toy_group)
  have ch2: "cvOwnershipChallengeScalarAfterValidationV2 other_oracle lane_ctx 2 offer2 F1 (lo_Ownership offer2) = Some F3"
    by (rule constant_challenge [OF v2]) (simp add: other_oracle_def)
  have "\<exists>digits coins blinding blindingCoin. length digits = 255 \<and> length coins = 255 \<and>
    (\<forall>i < 255. lo_ScalarChunks offer ! i = cvEncryptPointAfterValidationV2 toy_bls F1 (g1_smul toy_bls (bls_genG1 toy_bls) (digits ! i)) (coins ! i)) \<and>
    lo_Blinding offer = cvEncryptPointAfterValidationV2 toy_bls F1 (g1_smul toy_bls F2 blinding) blindingCoin"
    using ownership_special_soundness [OF toy_lane_laws toy_pedersen(1) lane_profile(1) v v2 [unfolded other_oracle_def] _ _ _ _ _ _ _ _ ch ch2 [unfolded other_oracle_def]] same by (simp, blast)
  then show ?thesis using v by blast
qed

section \<open>Witnesses for aggregates and shares\<close>

definition toy_polys :: "(gf5 list \<times> gf5 list) list" where
  "toy_polys = [([F1, F2], [F3, F1]), ([F2, F1], [F0, F4])]"

definition toy_offer :: "int \<Rightarrow> gf5 list \<Rightarrow> gf5 list \<Rightarrow> nat \<Rightarrow> (gf5, gf5) cvReceiverLaneOfferV2" where
  "toy_offer d fs bs i = fst (the (cvEncryptReceiverLanesV2 toy_bls (\<lambda>_. Some F1) lane_ctx d (lc_NewRoster lane_ctx ! i) (int i + 1)
     (lane_keys ! i) (evalPolyInt fs (int i + 1)) (evalPolyInt bs (int i + 1))))"

definition toy_leaf :: "int \<Rightarrow> gf5 list \<Rightarrow> gf5 list \<Rightarrow> (gf5, gf5, unit) cvLeafV2" where
  "toy_leaf d fs bs = \<lparr> lf_Context = lane_ctx, lf_DealerID = d, lf_CoefficientCommitments = map2 (pedersen toy_bls F2) fs bs,
     lf_CoreProof = \<lparr> cpf_NonceCommitments = [], cpf_ScalarResponses = [], cpf_BlindingResponses = [] \<rparr>,
     lf_Receivers = map (\<lambda>i. \<lparr> lr_Offer = toy_offer d fs bs i, lr_ACK = None \<rparr>) [0..<3],
     lf_Partition = \<lparr> ep_ACKReceiverIndices = [], ep_FallbackReceiverIndices = [] \<rparr>, lf_Fallback = None,
     lf_DealerSignature = [], lf_Digest = replicate 32 (of_int d) \<rparr>"

definition toy_leaves :: "(gf5, gf5, unit) cvLeafV2 list" where
  "toy_leaves = [toy_leaf 2 [F1, F2] [F3, F1], toy_leaf 3 [F2, F1] [F0, F4]]"

lemma toy_leaf_deals:
  assumes "0 \<le> d" "length fs = 2" "length bs = 2"
  shows "deals toy_bls lane_ctx 255 lane_keys F2 fs bs (toy_leaf d fs bs)"
proof -
  have "deals toy_bls lane_ctx (nat 255) lane_keys F2 fs bs (toy_leaf d fs bs)"
  proof (rule encrypted_leaf_deals [OF toy_lane_laws toy_pedersen(1) lane_profile(1)])
    fix i assume i: "i < length (lc_NewRoster lane_ctx)"
    then have i3: "i < 3" by (simp add: lane_roster)
    obtain offer wit where e: "cvEncryptReceiverLanesV2 toy_bls (\<lambda>_. Some F1) lane_ctx d (lc_NewRoster lane_ctx ! i) (int i + 1)
      (lane_keys ! i) (evalPolyInt fs (int i + 1)) (evalPolyInt bs (int i + 1)) = Some (offer, wit)" using toy_encrypt [OF i3 assms(1)] by blast
    then have "lr_Offer (lf_Receivers (toy_leaf d fs bs) ! i) = offer" using i3 by (simp add: toy_leaf_def toy_offer_def)
    then show "\<exists>random dealer wit. cvEncryptReceiverLanesV2 toy_bls random lane_ctx dealer (lc_NewRoster lane_ctx ! i) (int i + 1) (lane_keys ! i)
        (evalPolyInt fs (int i + 1)) (evalPolyInt bs (int i + 1)) = Some (lr_Offer (lf_Receivers (toy_leaf d fs bs) ! i), wit)" using e by blast
  qed (use assms in \<open>simp_all add: toy_leaf_def lane_roster\<close>)
  then show ?thesis by simp
qed

lemma lane_dealt: "dealt_leaves toy_bls lane_ctx lane_params (nat 255) lane_keys F2 toy_polys toy_leaves"
proof -
  have "lc_OldRoster lane_ctx = [2, 3]" by (simp add: lane_ctx_def)
  moreover have "vp_componentCount lane_params = 2" by (simp add: lane_params_def)
  moreover have "lf_DealerID (toy_leaf d fs bs) = d" "length (lf_Digest (toy_leaf d fs bs)) = 32" for d fs bs by (simp_all add: toy_leaf_def)
  ultimately show ?thesis
    using toy_leaf_deals by (simp add: dealt_leaves_def toy_leaves_def toy_polys_def lane_roster cvMaxLeafWireBytes_def)
qed

lemma lane_keys_in: "\<forall>i < length (lc_NewRoster lane_ctx). g1_in toy_bls (lane_keys ! i)"
  by (simp add: toy_group)

theorem aggregate_of_dealt_accepted_witness:
  "\<exists>aggregate payload. cvAggVerifiedV2 toy_bls toy_leaves lane_ctx lane_params = Some aggregate \<and>
    cvAggregateV2CanonicalBytesAfterValidation toy_bls aggregate lane_ctx lane_params = Some payload \<and>
    cvAVerVerifiedV2 toy_bls payload toy_leaves lane_ctx lane_params = Some aggregate"
proof -
  obtain digest where d: "cvLeafContextDigestV2 lane_ctx = Some digest" using lane_digest by blast
  show ?thesis
    using aggregate_of_dealt_accepted [OF toy_lane_laws lane_wf toy_group(1) lane_keys_in d lane_profile(1) lane_dealt] by blast
qed

definition lane_receivers :: "(gf5, gf5) cvReceiverKeyMaterialV2" where
  "lane_receivers = \<lparr> rk_receiverOrder = [7, 8, 9], rk_receiverIndex = [7 \<mapsto> 0, 8 \<mapsto> 1, 9 \<mapsto> 2], rk_encryptionPublicKeys = lane_keys,
     rk_identityPublicKeys = [[], [], []], rk_localEncryptionSecrets = Map.empty, rk_localIdentitySecrets = Map.empty,
     rk_registryDigest = replicate 32 4, rk_sid = ''s'', rk_epoch = 1 \<rparr>"

lemma lane_material: "cvValidateReceiverMaterialForLeafV2 lane_ctx lane_receivers" "rk_encryptionPublicKeys lane_receivers = lane_keys"
  by (simp_all add: cvValidateReceiverMaterialForLeafV2_def lane_receivers_def lane_ctx_def lane_keys_def)

lemma lane_epoch: "epoch_params lane_ctx lane_params"
  by (simp add: epoch_params_def lane_ctx_def lane_params_def)

theorem share_of_dealt_decrypted_witness:
  "\<exists>aggregate sout wire. cvAggVerifiedV2 toy_bls toy_leaves lane_ctx lane_params = Some aggregate \<and>
    cvDecryptAggregateShareV2 toy_bls (\<lambda>_. Some F1) aggregate lane_ctx lane_params 8 (int 1 + 1) (lane_keys ! 1) (lane_keys ! 1) =
      Some (\<Sum>(fs, bs) \<leftarrow> toy_polys. evalPolyInt fs (int 1 + 1), sout) \<and>
    cvScalarShareOutputV2CanonicalBytes toy_bls sout = Some wire \<and>
    cvDecodeScalarShareOutputV2 toy_bls wire aggregate lane_ctx lane_params lane_receivers = Some sout"
proof -
  obtain digest where d: "cvLeafContextDigestV2 lane_ctx = Some digest" using lane_digest by blast
  have b: "cvValidateReceiverBindingV2 toy_bls lane_ctx 8 (int 1 + 1) (lane_keys ! 1)" using lane_binding [of 1] by (simp add: lane_ctx_def)
  have sk: "cvReceiverPublicKey toy_bls (lane_keys ! 1) = Some (lane_keys ! 1)" by (rule lane_secret) simp
  have t: "nat 2 < fr_Modulus toy_bls" "\<forall>m t. fr_Hash toy_bls m t \<noteq> None" "\<forall>k :: nat. Some F1 \<noteq> None" by (simp_all add: toy_group)
  show ?thesis
    using share_of_dealt_decrypted [OF toy_lane_laws lane_wf toy_group(1) lane_keys_in d lane_profile(1) t(1) lane_epoch lane_dealt t(2,3) b sk lane_material]
    by blast
qed

lemma toy_epoch:
  obtains a where "cvAggVerifiedV2 toy_bls toy_leaves lane_ctx lane_params = Some a"
    "shared_epoch toy_bls lane_ctx lane_params 255 lane_keys F2 (poly_sum 2 (map fst toy_polys)) (poly_sum 2 (map snd toy_polys)) a"
proof -
  obtain digest where d: "cvLeafContextDigestV2 lane_ctx = Some digest" using lane_digest by blast
  obtain a where a: "cvAggVerifiedV2 toy_bls toy_leaves lane_ctx lane_params = Some a"
    by (rule aggregate_of_dealt [OF toy_lane_laws lane_wf toy_group(1) lane_keys_in d lane_profile(1) lane_dealt])
  show thesis
    using that [OF a] dealt_epoch [OF toy_lane_laws lane_wf toy_group(1) lane_keys_in lane_profile(1) lane_epoch lane_dealt a] by (simp add: lane_roster)
qed

lemma oracle_decrypts:
  assumes B: "B = toy_bls \<or> B = other_oracle" and e: "shared_epoch B lane_ctx lane_params 255 lane_keys F2 fs bs a" and i: "i < 3"
  obtains sout where "cvDecryptAggregateShareV2 B (\<lambda>_. Some F1) a lane_ctx lane_params (lc_NewRoster lane_ctx ! i) (int i + 1) (lane_keys ! i) (lane_keys ! i) =
      Some (evalPolyInt fs (int i + 1), sout)" "so_ReceiverIndex sout = int i + 1" "so_Y sout = g1_smul toy_bls (bls_genG1 toy_bls) (evalPolyInt fs (int i + 1))"
    "\<And>vp va. cvVerifyAggregateShareModeV2 B sout a lane_ctx lane_params (lane_keys ! i) vp va"
proof -
  have L: "lane_laws B" and g: "g1_in B F2" "g1_smul B = g1_smul toy_bls" "bls_genG1 B = bls_genG1 toy_bls" "nat 2 < fr_Modulus B"
    using B toy_lane_laws by (auto simp: other_oracle_def toy_group)
  have t: "fr_Hash B m t \<noteq> None" "Some F1 \<noteq> None" for m t using B by (auto simp: other_oracle_def toy_group)
  have b: "cvValidateReceiverBindingV2 B lane_ctx (lc_NewRoster lane_ctx ! i) (int i + 1) (lane_keys ! i)"
    and sk: "cvReceiverPublicKey B (lane_keys ! i) = Some (lane_keys ! i)"
    using B lane_binding [OF i] lane_secret [OF i] by (auto simp: other_oracle_def parts_hash cvReceiverPublicKey_def)
  obtain digest where d: "cvLeafContextDigestV2 lane_ctx = Some digest" using lane_digest by blast
  then obtain w where w: "cvLeafContextV2CanonicalBytes lane_ctx = Some w" by (auto simp: cvLeafContextDigestV2_def run_simps)
  have i': "i < length (lc_NewRoster lane_ctx)" using i by (simp add: lane_roster)
  have rid: "0 \<le> lc_NewRoster lane_ctx ! i" by (rule roster_ids(1) [OF lane_wf d i'])
  show thesis
    by (rule share_decryption [where random = "\<lambda>_. Some F1", OF L g(1) lane_profile(1) g(4) e i' rid b sk t w]) (use that g in simp)
qed

lemma toy_secret_sum: "(\<Sum>(fs, bs) \<leftarrow> toy_polys. evalPolyInt fs 0) = F3"
  by (simp add: toy_polys_def eval_at_zero gf5_ops)

lemma lane_inj: "inj_on (of_int :: int \<Rightarrow> gf5) {1..int (length (lc_NewRoster lane_ctx))}"
  using inj_gf5 by (simp add: lane_roster)

theorem threshold_key_of_dealt_witness:
  "\<exists>aggregate souts. cvAggVerifiedV2 toy_bls toy_leaves lane_ctx lane_params = Some aggregate \<and> map so_ReceiverIndex souts = [3, 1] \<and>
    cvRecoverThresholdPublicKeyV2 toy_bls souts aggregate lane_ctx lane_params lane_receivers = Some F3"
proof -
  obtain a where a: "cvAggVerifiedV2 toy_bls toy_leaves lane_ctx lane_params = Some a"
    and e: "shared_epoch toy_bls lane_ctx lane_params 255 lane_keys F2 (poly_sum 2 (map fst toy_polys)) (poly_sum 2 (map snd toy_polys)) a"
    by (rule toy_epoch)
  obtain s1 where s1: "cvDecryptAggregateShareV2 toy_bls (\<lambda>_. Some F1) a lane_ctx lane_params (lc_NewRoster lane_ctx ! 0) (int 0 + 1) (lane_keys ! 0) (lane_keys ! 0) =
      Some (evalPolyInt (poly_sum 2 (map fst toy_polys)) (int 0 + 1), s1)" "so_ReceiverIndex s1 = int 0 + 1"
    by (rule oracle_decrypts [OF disjI1 [OF refl] e, of 0]) (simp, blast)
  obtain s3 where s3: "cvDecryptAggregateShareV2 toy_bls (\<lambda>_. Some F1) a lane_ctx lane_params (lc_NewRoster lane_ctx ! 2) (int 2 + 1) (lane_keys ! 2) (lane_keys ! 2) =
      Some (evalPolyInt (poly_sum 2 (map fst toy_polys)) (int 2 + 1), s3)" "so_ReceiverIndex s3 = int 2 + 1"
    by (rule oracle_decrypts [OF disjI1 [OF refl] e, of 2]) (simp, blast)
  have o: "\<forall>sout \<in> set [s3, s1]. \<exists>random rid i sk x. (\<forall>k. random k \<noteq> None) \<and>
      cvDecryptAggregateShareV2 toy_bls random a lane_ctx lane_params rid (int i + 1) (lane_keys ! i) sk = Some (x, sout)"
  proof -
    have ex: "\<exists>random rid i sk x. (\<forall>k. random k \<noteq> None) \<and>
        cvDecryptAggregateShareV2 toy_bls random a lane_ctx lane_params rid (int i + 1) (lane_keys ! i) sk = Some (x, sout)"
      if "cvDecryptAggregateShareV2 toy_bls (\<lambda>_. Some F1) a lane_ctx lane_params rid (int i + 1) (lane_keys ! i) sk = Some (x, sout)" for rid i sk x sout
      using that by (intro exI [of _ "\<lambda>_. Some F1"] exI [of _ rid] exI [of _ i] exI [of _ sk] exI [of _ x] conjI) simp_all
    show ?thesis using ex [OF s1(1)] ex [OF s3(1)] by (auto simp del: not_None_eq)
  qed
  have t: "nat 2 < fr_Modulus toy_bls" "\<forall>m t. fr_Hash toy_bls m t \<noteq> None" by (simp_all add: toy_group)
  have idx: "vp_newShareThreshold lane_params \<le> int (length [s3, s1])" "distinct (map so_ReceiverIndex [s3, s1])"
    using s1(2) s3(2) by (simp_all add: lane_params_def)
  have nz: "(\<Sum>(fs, bs) \<leftarrow> toy_polys. evalPolyInt fs 0) \<noteq> 0" by (simp add: toy_secret_sum zero_gf5_def)
  have "cvRecoverThresholdPublicKeyV2 toy_bls [s3, s1] a lane_ctx lane_params lane_receivers = Some (g1_smul toy_bls (bls_genG1 toy_bls) F3)"
    using threshold_key_of_dealt [OF toy_lane_laws lane_wf toy_group(1) lane_keys_in lane_profile(1) t(1) lane_epoch lane_dealt a t(2) lane_material lane_inj idx o nz]
    by (simp add: toy_secret_sum)
  moreover have "g1_smul toy_bls (bls_genG1 toy_bls) F3 = F3" by (simp add: toy_group gf5_ops)
  ultimately show ?thesis using a s1(2) s3(2) by (intro exI [of _ a] exI [of _ "[s3, s1]"]) simp
qed

lemma bytes_hash:
  "cvAggregateV2CanonicalBytesMode (B\<lparr> fr_Hash := hash2 \<rparr>) = cvAggregateV2CanonicalBytesMode B"
proof -
  have ev: "cvEvaluateCommitments (B\<lparr> fr_Hash := hash2 \<rparr>) = cvEvaluateCommitments B"
    by (intro ext) (simp add: cvEvaluateCommitments_def cvEvaluateCommitmentsWithPowers_def cong: option.case_cong)
  have ct: "cvValidCiphertext (B\<lparr> fr_Hash := hash2 \<rparr>) = cvValidCiphertext B" "cvWriteCiphertext (B\<lparr> fr_Hash := hash2 \<rparr>) = cvWriteCiphertext B"
    by (intro ext, simp add: cvValidCiphertext_def cvWriteCiphertext_def cvWritePoint_def cvValidG1_def)+
  have wr: "write_receiver (B\<lparr> fr_Hash := hash2 \<rparr>) = write_receiver B"
    by (intro ext) (simp add: write_receiver_def ev ct cvValidG1_def cvWritePoint_def)
  have wp: "cvWritePoint (B\<lparr> fr_Hash := hash2 \<rparr>) = cvWritePoint B" by (intro ext) (simp add: cvWritePoint_def)
  have pv: "cvWritePointVectorMode (B\<lparr> fr_Hash := hash2 \<rparr>) = cvWritePointVectorMode B"
    by (intro ext) (simp add: cvWritePointVectorMode_def cvValidG1_def wp)
  show ?thesis
    by (intro ext) (simp add: cvAggregateV2CanonicalBytesMode_def cvAggregateV2UnsignedCanonicalBytesMode_def wr pv)
qed

lemma epoch_hash: "shared_epoch (B\<lparr> fr_Hash := hash2 \<rparr>) = shared_epoch B"
proof -
  have "shares (B\<lparr> fr_Hash := hash2 \<rparr>) = shares B"
    by (intro ext) (simp add: shares_def holds_encryption_def pedersen_def cvEncryptPointAfterValidationV2_def)
  then show ?thesis by (intro ext) (simp add: shared_epoch_def bytes_hash)
qed

lemma decrypt_commitments:
  assumes "cvDecryptAggregateShareV2 B (\<lambda>_. Some r) a ctx params rid ri pk sk = Some (x, sout)"
  shows "\<exists>weighted. cvWeightedAggregateScalarV2 B a ctx ri = Some weighted \<and> sp_KeyCommitment (so_Proof sout) = cvPointTimes B (bls_genG1 B) r \<and>
    sp_ScalarCipherCommitment (so_Proof sout) = cvPointSum B [cvPointTimes B (eg_r weighted) r, cvPointTimes B (bls_genG1 B) r] \<and>
    sp_ScalarKnowledgeCommitment (so_Proof sout) = cvPointTimes B (bls_genG1 B) r"
  using assms by (auto simp: cvDecryptAggregateShareV2_def cvProveAggregateShareV2_def run_simps Let_def)

lemma share_challenge_constant:
  assumes "cvVerifyAggregateShareModeV2 B sout a ctx params pk vp va" "\<And>m t. fr_Hash B m t = Some y"
  shows "cvAggregateShareChallengeV2 B a ctx pk sout (so_Proof sout) = Some y"
proof -
  from assms(1) obtain z where "cvAggregateShareChallengeV2 B a ctx pk sout (so_Proof sout) = Some z"
    by (auto simp: cvVerifyAggregateShareModeV2_def run_simps Let_def)
  then show ?thesis using assms(2) by (auto simp: cvAggregateShareChallengeV2_def cvHashToFr_def run_simps Let_def)
qed

theorem share_special_soundness_witness:
  "\<exists>aggregate sout. cvAggVerifiedV2 toy_bls toy_leaves lane_ctx lane_params = Some aggregate \<and>
    cvVerifyAggregateShareV2 toy_bls sout aggregate lane_ctx lane_params F1 \<and>
    so_Y sout = g1_smul toy_bls (bls_genG1 toy_bls) (\<Sum>(fs, bs) \<leftarrow> toy_polys. evalPolyInt fs 1) \<and>
    so_YBlind sout = g1_smul toy_bls F2 (\<Sum>(fs, bs) \<leftarrow> toy_polys. evalPolyInt bs 1)"
proof -
  obtain a where a: "cvAggVerifiedV2 toy_bls toy_leaves lane_ctx lane_params = Some a"
    and e: "shared_epoch toy_bls lane_ctx lane_params 255 lane_keys F2 (poly_sum 2 (map fst toy_polys)) (poly_sum 2 (map snd toy_polys)) a"
    by (rule toy_epoch)
  have e2: "shared_epoch other_oracle lane_ctx lane_params 255 lane_keys F2 (poly_sum 2 (map fst toy_polys)) (poly_sum 2 (map snd toy_polys)) a"
    using e by (simp add: other_oracle_def epoch_hash)
  have k0: "lane_keys ! 0 = F1" by (simp add: lane_keys_def)
  obtain s where s: "cvDecryptAggregateShareV2 toy_bls (\<lambda>_. Some F1) a lane_ctx lane_params (lc_NewRoster lane_ctx ! 0) (int 0 + 1) (lane_keys ! 0) (lane_keys ! 0) =
      Some (evalPolyInt (poly_sum 2 (map fst toy_polys)) (int 0 + 1), s)" "so_ReceiverIndex s = int 0 + 1"
      "so_Y s = g1_smul toy_bls (bls_genG1 toy_bls) (evalPolyInt (poly_sum 2 (map fst toy_polys)) (int 0 + 1))"
    and v: "\<And>vp va. cvVerifyAggregateShareModeV2 toy_bls s a lane_ctx lane_params (lane_keys ! 0) vp va"
    by (rule oracle_decrypts [OF disjI1 [OF refl] e, of 0]) (simp, blast)
  obtain s2 where s2: "cvDecryptAggregateShareV2 other_oracle (\<lambda>_. Some F1) a lane_ctx lane_params (lc_NewRoster lane_ctx ! 0) (int 0 + 1) (lane_keys ! 0) (lane_keys ! 0) =
      Some (evalPolyInt (poly_sum 2 (map fst toy_polys)) (int 0 + 1), s2)" "so_ReceiverIndex s2 = int 0 + 1"
      "so_Y s2 = g1_smul toy_bls (bls_genG1 toy_bls) (evalPolyInt (poly_sum 2 (map fst toy_polys)) (int 0 + 1))"
    and v2: "\<And>vp va. cvVerifyAggregateShareModeV2 other_oracle s2 a lane_ctx lane_params (lane_keys ! 0) vp va"
    by (rule oracle_decrypts [OF disjI2 [OF refl] e2, of 0]) (simp, blast)
  have c: "sp_KeyCommitment (so_Proof s2) = sp_KeyCommitment (so_Proof s)" "sp_ScalarCipherCommitment (so_Proof s2) = sp_ScalarCipherCommitment (so_Proof s)"
      "sp_ScalarKnowledgeCommitment (so_Proof s2) = sp_ScalarKnowledgeCommitment (so_Proof s)"
    using decrypt_commitments [OF s(1)] decrypt_commitments [OF s2(1)] by (auto simp: other_oracle_def cvPointTimes_def cvPointSum_def)
  have ch: "cvAggregateShareChallengeV2 toy_bls a lane_ctx F1 s (so_Proof s) = Some F2"
    by (rule share_challenge_constant [OF v [of True True, unfolded k0]]) (simp add: toy_group)
  have ch2: "cvAggregateShareChallengeV2 other_oracle a lane_ctx F1 s2 (so_Proof s2) = Some F3"
    by (rule share_challenge_constant [OF v2 [of True True, unfolded k0]]) (simp add: other_oracle_def)
  have ver: "cvVerifyAggregateShareV2 toy_bls s a lane_ctx lane_params F1" "cvVerifyAggregateShareV2 other_oracle s2 a lane_ctx lane_params F1"
    using v [of True True] v2 [of True True] by (simp_all add: cvVerifyAggregateShareV2_def k0)
  have pk: "F1 = lane_keys ! nat (so_ReceiverIndex s - 1)" using s(2) k0 by simp
  have "so_Y s = g1_smul toy_bls (bls_genG1 toy_bls) (\<Sum>(fs, bs) \<leftarrow> toy_polys. evalPolyInt fs (so_ReceiverIndex s)) \<and>
    so_YBlind s = g1_smul toy_bls F2 (\<Sum>(fs, bs) \<leftarrow> toy_polys. evalPolyInt bs (so_ReceiverIndex s))"
    by (rule share_special_soundness [OF toy_lane_laws lane_wf toy_group(1) lane_keys_in lane_profile(1) lane_epoch lane_dealt a pk ver(1)
          ver(2) [unfolded other_oracle_def] _ _ c ch ch2 [unfolded other_oracle_def]])
      (use s(2,3) s2(2,3) in simp_all)
  then show ?thesis using a ver(1) s(2) by auto
qed

end
