(* ===== verification/Spec2Isabelle.thy ===== *)
theory Spec2Isabelle
  imports Mvba_Witnesses Net_Witnesses Lane_Witnesses Sha256_Vector Sampling
begin

text \<open>
  Verification of the distributed key refresh in \<^verbatim>\<open>src/core\<close> (the second version of CV-sAPVSS, its availability
  layer and its network service) and of the multi-valued Byzantine agreement it runs on
  (\<^verbatim>\<open>src/experiments/dumbomvba-go/core\<close>).

  \<^bold>\<open>The program.\<close> An old committee hands a shared secret to a new one.  Each dealer of the old committee makes a
  \<^emph>\<open>leaf\<close>: Pedersen commitments to two polynomials with a proof of knowledge, and for each receiver an offer whose
  ciphertexts hold the digits of the receiver's share.  Leaves are dispersed with an erasure code under a Merkle root
  and certified by threshold signatures (\<^emph>\<open>APDB\<close>).  Proposers collect certified components into pools, a common coin
  selects components and validators, validators recompute the aggregate of the selected leaves and certify it, the
  agreement chooses one certified aggregate, and a decision certificate hands it to the receivers, who decrypt their
  shares of it and obtain the new threshold public key.

  \<^bold>\<open>Foundations.\<close>
    \<^item> Prelude: options as errors, machine integers of Go, named collections of simplification rules.
    \<^item> Sha256, Sha256_Vector: the hash as a function, checked on a published vector; no property assumes that it has no
      collisions, they name the collision instead.
    \<^item> Wire: length-prefixed writing and reading (\<^verbatim>\<open>cv_sapvss.go\<close>, \<^verbatim>\<open>cv_sapvss_m4.go\<close>), and the locale
      \<^emph>\<open>wire_codec\<close> that every canonical codec of the core interprets.
    \<^item> Util: rosters.  Erasure, Merkle: shards and trees; the Reed-Solomon code of the library is a record of functions
      with its documented laws.  Interpolation: polynomials, Lagrange coefficients and interpolation in the group.
    \<^item> Signer: the threshold BLS signer (\<^verbatim>\<open>crypto_runtime.go\<close>).  The curve library is the record \<^emph>\<open>bls\<close> of its
      operations, an argument of every definition, with the laws \<^emph>\<open>bls_laws\<close>: a module over the scalar field,
      encodings that are read back, and the pairing equation.

  \<^bold>\<open>Availability and agreement objects.\<close>
    \<^item> Apdb, Store, Service: dispersal, locks and recovery (\<^verbatim>\<open>cv_sapvss_apdb.go\<close>, \<^verbatim>\<open>cv_sapvss_apdb_store.go\<close>,
      \<^verbatim>\<open>cv_sapvss_apdb_service_v2.go\<close>, \<^verbatim>\<open>cv_sapvss_apdb_recovery.go\<close>), immutable files and the decision store
      (\<^verbatim>\<open>cv_sapvss_store.go\<close>, \<^verbatim>\<open>cv_sapvss_decision_store.go\<close>).  Stores and recoveries agree, a lock once certified can be
      recovered from, holders and deciders sign one object per instance or epoch, across failed writes and restarts.
    \<^item> Coin, Sampling, Config: the coin and the rejection sampler (\<^verbatim>\<open>cv_sapvss_v2_coin.go\<close>), exact tail bounds and the
      derived parameters (\<^verbatim>\<open>cv_sapvss_sampling_v2.go\<close>, \<^verbatim>\<open>cv_sapvss_v2_params.go\<close>, \<^verbatim>\<open>config.go\<close>).
    \<^item> Pool, Aggregate, Validation, Request, Agreement, Handoff: component references and pools, aggregate headers,
      validation certificates and their requests, agreement objects with the predicate given to the agreement, decision
      certificates and handoffs (the files of the same names).

  \<^bold>\<open>Sharing.\<close>
    \<^item> Leaf_Core: contexts and the proof of knowledge of the commitments (\<^verbatim>\<open>cv_sapvss_core_v2.go\<close>).
    \<^item> Lanes, Lane_Proofs: digit encryption, ownership proofs and their batched check, the bounded discrete logarithm
      and decryption (\<^verbatim>\<open>cv_sapvss_lanes_v2.go\<close>, \<^verbatim>\<open>cvVerifyOwnershipBatchV2\<close>).  The solver is exact, the batched
      computation equals the stepwise one, what is encrypted is decrypted, and the proofs are special sound.
    \<^item> Aggregation: leaves, their sum and the payload a validator accepts (\<^verbatim>\<open>cv_sapvss_aggregate_v2.go\<close>).
    \<^item> Aggregate_Share: decryption of a share of the aggregate, its proof and the threshold public key
      (\<^verbatim>\<open>cv_sapvss_share_v2.go\<close>).  A receiver obtains the sum of its shares, an output that answers two challenges holds
      the points of these sums, and every threshold of outputs gives the public key of the sum of the secrets.
    The further laws of the curve library that these use are \<^emph>\<open>lane_laws\<close>; the real profile keeps digit sums below the
    group order, which appears as the hypothesis on the bound.

  \<^bold>\<open>Network.\<close>
    \<^item> Network, Router: frames, envelopes, authentication and the router (\<^verbatim>\<open>transport_tcp_loopback.go\<close>,
      \<^verbatim>\<open>cv_sapvss_network_auth_v2.go\<close>, \<^verbatim>\<open>cv_sapvss_router.go\<close>) with its queues as a step relation.
    \<^item> Net_Base, Net_Coin, Net_Pool, Net_Validation, Net_Decision: the parts of the network service
      (\<^verbatim>\<open>cv_sapvss_apdb_network_v2.go\<close>).  The state is one record per part.  A handler, and each piece of a call between
      two waits, runs under the service's mutex and is one function on that state; a run is a sequence of such events in
      any order, with messages of arbitrary content from faulty senders.  Coins agree and return, pools are certified, a
      validator signs one statement per proposer, certified aggregates and handoffs agree, and the pool handlers refine
      the slot state machine.

  \<^bold>\<open>The agreement.\<close> Mvba_Coding, Mvba_Dispersal, Mvba_Retrieval, Mvba_Binary and Mvba model provable dispersal,
  retrieval, the shared coin, the binary agreement, the rounds of a node and the common subset.  The loops that read
  a channel consume a list of messages; a protocol among nodes is a step relation with delivery in any order.  Two nodes
  that decide in one round agree; the binary agreement as written can disagree, and further defects that the modelling
  showed are stated as theorems.

  \<^bold>\<open>Witnesses.\<close> Witness_Field instantiates the curve library with the field of five elements; Witnesses,
  Protocol_Witnesses, Network_Witnesses, Mvba_Witnesses, Net_Witnesses and Lane_Witnesses apply the properties to
  concrete sessions over it.

  \<^bold>\<open>Bounds and loops.\<close> Go's \<^verbatim>\<open>int\<close> is an unbounded \<open>int\<close> where the code checks it before use, with the conversions
  to 64 bits written out at the wire; lengths are compared with the same limits as in the code.  Every loop over data is
  structural or has a measure.  The rejection sampler reads an infinite sequence of draws and is a partial function whose
  return is characterised; the giant-step loop has \<open>width + 1\<close> rounds as in the code, which the exactness theorem shows
  to be enough.  A random source is a function from the position of a draw to a scalar or a failure.

  \<^bold>\<open>Assumptions.\<close> Besides the laws of the libraries: that an honest member's signature is made only by the code of
  its node (stated on the signed digests), that channels between goroutines do not drop (their capacity is the caller's),
  that a quorum pair shares an honest member where a theorem says so.

  \<^bold>\<open>Not modelled.\<close> Assembly and verification of whole leaves with acknowledgements and fallback range and link
  proofs, the compact fallback proofs and the first version of the protocol: further proof systems, not needed for the
  results here, which start from leaves that deal polynomials.  Key files, setup, drivers, benchmarks, sockets, delays and
  timing: input and output around the model's arguments.  The delivery of lanes, candidates and shares over the network,
  recovery waves and caches of the network service.  The comparison system under
  \<^verbatim>\<open>src/experiments/practical-adkr\<close> and the broadcast path of the agreement library, which the core does not use.
\<close>

section \<open>Properties that span the components\<close>

lemma stored_share_codec:
  assumes "cvAPDBStoredShareV2CanonicalBytes r = Some wire"
  shows "cvDecodeAPDBStoredShareV2 wire = Some r"
proof -
  have eta: "\<lparr> sh_InstanceDigest = sh_InstanceDigest r, sh_Root = sh_Root r, sh_Share = sh_Share r \<rparr> = r" by simp
  have "length cvAPDBStoredShareWireDomainV2 < 4294967296" by (simp add: cvAPDBStoredShareWireDomainV2_def)
  then show ?thesis using assms signature_limit [of "length (sh_Share r)"]
    by (auto simp: cvDecodeAPDBStoredShareV2_def cvAPDBStoredShareV2CanonicalBytes_def run_simps wire_simps eta)
qed

text \<open>Dispersal meets storage: when an honest holder is offered the store that the proposer's lock collector
  made for it and its handler answers, the collector accepts the answer, unless it already holds one of that
  holder.\<close>

theorem offered_store_is_acknowledged:
  assumes new: "newCVAPDBLockCollectorV2 encoded roster signer = Some c0"
    and offer: "StoreOffer (feed_all (AddStoredShare B) c0 msgs) holder = Some offer"
    and bytes: "en_shardBytes encoded < 4294967296"
    and reply: "cvHandleAPDBStoreOfferV2 B env fs sid epoch proposer holder roster offer (en_totalShards encoded)
      (en_shardBytes encoded) holderStore signer = (fs', Some wire)"
    and first: "map_of (lc_shareWires (feed_all (AddStoredShare B) c0 msgs)) holder = None"
  shows "\<exists>c b. AddStoredShare B (feed_all (AddStoredShare B) c0 msgs) holder wire = (c, Some b) \<and>
    map_of (lc_shareWires c) holder = Some wire"
proof -
  let ?c = "feed_all (AddStoredShare B) c0 msgs"
  note f = lock_conf_fields [OF lock_conf_feed [of B c0 msgs]] and n = new_lock_fields [OF new]
  obtain i where i: "member_index roster holder = Some i"
    and w: "cvAPDBStoreV2CanonicalBytes (en_stores encoded ! i) (en_totalShards encoded) (en_shardBytes encoded) = Some offer"
    using offer f n by (auto simp: StoreOffer_def run_simps)
  have dec: "cvDecodeAPDBStoreV2 offer (en_totalShards encoded) (en_shardBytes encoded) = Some (en_stores encoded ! i)"
    by (rule store_codec.decode_encode [OF bytes w])
  obtain share where sign: "StoreAndSignOnce B holderStore env fs sid epoch holder roster (en_stores encoded ! i)
      (en_totalShards encoded) (en_shardBytes encoded) signer = (fs', Some share)"
    and enc: "cvAPDBStoredShareV2CanonicalBytes \<lparr> sh_InstanceDigest = st_InstanceDigest (en_stores encoded ! i),
      sh_Root = st_Root (en_stores encoded ! i), sh_Share = share \<rparr> = Some wire"
    using reply dec by (auto simp: cvHandleAPDBStoreOfferV2_def split: if_splits option.splits prod.splits)
  have st: "st_InstanceDigest (en_stores encoded ! i) = en_instanceDigest encoded" "st_Root (en_stores encoded ! i) = en_root encoded"
    using n(14) [OF member_index_Some(1) [OF i]] by (auto simp: collector_member_ok_def Let_def)
  have "checked_share B ?c holder wire = Some \<lparr> sh_InstanceDigest = en_instanceDigest encoded, sh_Root = en_root encoded, sh_Share = share \<rparr>"
    using stored_share_codec [OF enc] store_and_sign_checks(8) [OF sign] st f n i by (auto simp: checked_share_def)
  then show ?thesis using first by (auto simp: AddStoredShare_def Let_def map_of_append_fresh simp del: map_of_append)
qed

text \<open>C21: what was signed can be recovered: a holder that has ever released a share for a store answers a recovery
  request that carries a verifying lock for the store's instance and root, after any further calls and
  restarts, and every recovery collector for that lock accepts the answer as that holder's response.\<close>

theorem signed_store_serves_recovery:
  assumes run: "holder_run B s signer fs calls" "c \<in> set calls" and bytes: "hc_shardBytes c < 4294967296"
    and lock: "cvAPDBLockV2CanonicalBytes lock = Some request" "cvVerifyAPDBLockV2 B lock signer"
      "lk_InstanceDigest lock = st_InstanceDigest (hc_store c)" "lk_Root lock = st_Root (hc_store c)"
    and req: "requester \<in> set (hc_roster c)"
    and new: "newCVAPDBRecoveryCollectorV2 B lock (hc_roster c) dataShards (hc_shardBytes c) maximumPayload signer check = Some c0"
  shows "\<exists>wire. cvHandleAPDBRecoveryRequestV2 B fs (hc_sid c) (hc_epoch c) requester (hc_holder c) (hc_roster c) request
      (hc_total c) (hc_shardBytes c) s signer = Some wire \<and>
    recovery_response (fst (AddStore c0 (hc_holder c) wire)) (hc_holder c) = Some wire"
proof -
  note ck = holder_run_checks [OF run]
  obtain path wire where w: "holder_path s (hc_sid c) (hc_epoch c) (hc_holder c) (st_InstanceDigest (hc_store c)) = Some path"
    "cvAPDBStoreV2CanonicalBytes (hc_store c) (hc_total c) (hc_shardBytes c) = Some wire" "file_get fs path = Some wire"
    using holder_run_stored [OF run] by blast
  have read: "read_holder s fs (hc_sid c) (hc_epoch c) (hc_holder c) (lk_InstanceDigest lock) (lk_Root lock) (hc_total c)
      (hc_shardBytes c) = Some (hc_store c)"
    unfolding lock(3,4) by (rule read_holder_kept [OF w(1,3,2) bytes])
  have d: "distinct (hc_roster c)" using ck sortedUnique_strict by (metis strict_sorted_iff)
  note pos = holder_position_index [OF _ d, of "hc_holder c"]
  have "cvDecodeAPDBLockV2 request = Some lock" using lock_codec.decode_encode lock(1) by blast
  then have handled: "cvHandleAPDBRecoveryRequestV2 B fs (hc_sid c) (hc_epoch c) requester (hc_holder c) (hc_roster c) request
      (hc_total c) (hc_shardBytes c) s signer = Some wire"
    using read w(2) lock(2) ck pos req by (simp add: cvHandleAPDBRecoveryRequestV2_def)
  have c0: "rc_memberIndex c0 = member_index (hc_roster c)" "rc_totalShards c0 = hc_total c" "rc_shardBytes c0 = hc_shardBytes c"
    "rc_lock c0 = lock" "rc_storeWires c0 = []"
    using new ck by (auto simp: newCVAPDBRecoveryCollectorV2_def run_simps)
  have "cvDecodeAPDBStoreV2 wire (hc_total c) (hc_shardBytes c) = Some (hc_store c)"
    by (rule store_codec.decode_encode [OF bytes w(2)])
  then have "checked_store c0 (hc_holder c) wire = Some (nat (holder_position (hc_holder c) 0 (hc_roster c)), hc_store c)"
    using c0 ck pos lock by (simp add: checked_store_def)
  then show ?thesis using handled c0 ck pos by (auto simp: AddStore_def recovery_response_def)
qed

section \<open>Witnesses\<close>

theorem offered_store_is_acknowledged_witness:
  "\<exists>wire c b. AddStoredShare toy_bls (feed_all (AddStoredShare toy_bls) duo_collector []) 2 wire = (c, Some b) \<and>
     map_of (lc_shareWires c) 2 = Some wire"
proof -
  let ?c = "feed_all (AddStoredShare toy_bls) duo_collector []"
  note n = new_lock_fields [OF duo_new]
  obtain offer where offer: "cvAPDBStoreV2CanonicalBytes (en_stores duo_enc ! 0) 2 9 = Some offer" using duo_store_wire [of 0] by auto
  have so: "StoreOffer ?c 2 = Some offer" using offer n duo_enc_fields by (simp add: StoreOffer_def duo_index)
  obtain fs' where sign: "StoreAndSignOnce toy_bls \<lparr> hs_root = ''r'' \<rparr> toy_env Map.empty ''s'' 1 2 [2, 3] (en_stores duo_enc ! 0) 2 9
    (duo cvV2RoleAPDB) = (fs', Some [2])" using toy_store_and_sign by blast
  have dec: "cvDecodeAPDBStoreV2 offer 2 9 = Some (en_stores duo_enc ! 0)" by (rule store_codec.decode_encode [OF _ offer]) simp
  obtain wire where wire: "cvAPDBStoredShareV2CanonicalBytes \<lparr> sh_InstanceDigest = st_InstanceDigest (en_stores duo_enc ! 0),
      sh_Root = st_Root (en_stores duo_enc ! 0), sh_Share = [2] \<rparr> = Some wire"
    using duo_store(1,2) [of 0] duo_enc_fields(6) by (simp add: cvAPDBStoredShareV2CanonicalBytes_def cvMaxComponentSignatureBytes_def)
  have h: "cvHandleAPDBStoreOfferV2 toy_bls toy_env Map.empty ''s'' 1 2 2 [2, 3] offer (en_totalShards duo_enc) (en_shardBytes duo_enc)
      \<lparr> hs_root = ''r'' \<rparr> (duo cvV2RoleAPDB) = (fs', Some wire)"
    using sign dec wire by (simp add: cvHandleAPDBStoreOfferV2_def duo_roster duo_enc_fields)
  show ?thesis
    by (rule exI, rule offered_store_is_acknowledged [OF duo_new so _ h]) (use duo_enc_fields n in auto)
qed

theorem signed_store_serves_recovery_witness:
  "\<exists>fs request c0 wire. cvHandleAPDBRecoveryRequestV2 toy_bls fs (hc_sid toy_holder_call) (hc_epoch toy_holder_call) 3
      (hc_holder toy_holder_call) (hc_roster toy_holder_call) request (hc_total toy_holder_call) (hc_shardBytes toy_holder_call)
      \<lparr> hs_root = ''r'' \<rparr> (duo cvV2RoleAPDB) = Some wire \<and>
    recovery_response (fst (AddStore c0 (hc_holder toy_holder_call) wire)) (hc_holder toy_holder_call) = Some wire"
proof -
  obtain fs where fs: "holder_run toy_bls \<lparr> hs_root = ''r'' \<rparr> (duo cvV2RoleAPDB) fs [toy_holder_call]"
    using toy_holder_run by blast
  obtain request where req: "cvAPDBLockV2CanonicalBytes duo_lock = Some request"
    using duo_enc_fields(6) by (simp add: cvAPDBLockV2CanonicalBytes_def duo_lock_def cvMaxComponentSignatureBytes_def)
  obtain c0 where c0: "newCVAPDBRecoveryCollectorV2 toy_bls duo_lock (hc_roster toy_holder_call) 1 (hc_shardBytes toy_holder_call) 10
      (duo cvV2RoleAPDB) None = Some c0"
    using duo_recovery by (metis (no_types) toy_holder_call_def holder_call.select_convs(4,7))
  show ?thesis
    by (rule exI [of _ fs], rule exI [of _ request], rule exI [of _ c0], rule signed_store_serves_recovery [OF fs _ _ req duo_lock_verifies _ _ _ c0])
       (use duo_store [of 0] in \<open>auto simp: toy_holder_call_def duo_lock_def\<close>)
qed

end
